(* ===== verification/Prelude.thy ===== *)
theory Prelude
  imports Main "HOL-Library.Word" "HOL-Library.Monad_Syntax"
begin

text \<open>
  What the components of the SDK share: the machine types, the little-endian layout of
  the packed C structures, C integer arithmetic written out on \<^typ>\<open>nat\<close>, and the lemmas
  about bytes, slices and ranges that the component proofs use.

  A function of the code that may stop for ever (an assertion loop) returns an
  \<^typ>\<open>'a option\<close>; \<^const>\<open>None\<close> is "does not return".
\<close>

unbundle bit_operations_syntax

type_synonym byte = "8 word"
type_synonym word32 = "32 word"

named_theorems wrap_simps \<open>C arithmetic that does not wrap\<close>
named_theorems le_simps \<open>little-endian encoding and decoding\<close>
named_theorems flash_simps \<open>reads after writes and erases of the flash array\<close>

section \<open>C arithmetic on natural numbers\<close>

text \<open>
  Subtraction and the narrowing casts of unsigned C integers, with the width written out.
\<close>

definition sub_u32 :: "nat \<Rightarrow> nat \<Rightarrow> nat" where
  "sub_u32 a b = (a + 2 ^ 32 - b mod 2 ^ 32) mod 2 ^ 32"

definition add_u32 :: "nat \<Rightarrow> nat \<Rightarrow> nat" where
  "add_u32 a b = (a + b) mod 2 ^ 32"

definition inc_u16 :: "nat \<Rightarrow> nat" where
  "inc_u16 n = (n + 1) mod 2 ^ 16"

definition dec_u16 :: "nat \<Rightarrow> nat" where
  "dec_u16 n = (n + 2 ^ 16 - 1) mod 2 ^ 16"

definition u8 :: "nat \<Rightarrow> nat" where
  "u8 n = n mod 2 ^ 8"

definition u16 :: "nat \<Rightarrow> nat" where
  "u16 n = n mod 2 ^ 16"

definition u32 :: "nat \<Rightarrow> nat" where
  "u32 n = n mod 2 ^ 32"

section \<open>Little-endian layout\<close>

fun le_val :: "byte list \<Rightarrow> nat" where
  "le_val [] = 0"
| "le_val (b # bs) = unat b + 256 * le_val bs"

fun le_bytes :: "nat \<Rightarrow> nat \<Rightarrow> byte list" where
  "le_bytes 0 v = []"
| "le_bytes (Suc n) v = of_nat v # le_bytes n (v div 256)"

text \<open>\<open>bslice a n bs\<close>: the \<open>n\<close> bytes at offset \<open>a\<close> of a packed structure.\<close>

definition bslice :: "nat \<Rightarrow> nat \<Rightarrow> 'a list \<Rightarrow> 'a list" where
  "bslice a n bs = take n (drop a bs)"

text \<open>Word \<open>i\<close> of a sequence of bytes, seen as little-endian words.\<close>

definition le_word :: "byte list \<Rightarrow> nat \<Rightarrow> word32" where
  "le_word c i = ucast (c ! (4 * i)) OR push_bit 8 (ucast (c ! (4 * i + 1))) OR
     push_bit 16 (ucast (c ! (4 * i + 2))) OR push_bit 24 (ucast (c ! (4 * i + 3)))"

section \<open>Lemmas\<close>

lemma sub_u32_noborrow [wrap_simps]:
  "b \<le> a \<Longrightarrow> a < 2 ^ 32 \<Longrightarrow> sub_u32 a b = a - b"
proof -
  assume "b \<le> a" and "a < 2 ^ 32"
  then have "a + 2 ^ 32 - b mod 2 ^ 32 = (a - b) + 2 ^ 32" and "a - b < 2 ^ 32"
    by simp_all
  then show ?thesis by (simp only: sub_u32_def mod_add_self2 mod_less)
qed

lemma add_u32_nocarry [wrap_simps]: "a + b < 2 ^ 32 \<Longrightarrow> add_u32 a b = a + b"
  by (simp add: add_u32_def)

lemma inc_u16_nocarry [wrap_simps]: "n + 1 < 2 ^ 16 \<Longrightarrow> inc_u16 n = n + 1"
  by (simp add: inc_u16_def)

lemma dec_u16_noborrow [wrap_simps]: "0 < n \<Longrightarrow> n < 2 ^ 16 \<Longrightarrow> dec_u16 n = n - 1"
proof -
  assume "0 < n" and "n < 2 ^ 16"
  then have "n + 2 ^ 16 - 1 = (n - 1) + 2 ^ 16" and "n - 1 < 2 ^ 16"
    by simp_all
  then show ?thesis by (simp only: dec_u16_def mod_add_self2 mod_less)
qed

lemma u8_small [wrap_simps]: "n < 256 \<Longrightarrow> u8 n = n"
  by (simp add: u8_def)

lemma u16_small [wrap_simps]: "n < 65536 \<Longrightarrow> u16 n = n"
  by (simp add: u16_def)

lemma u32_small [wrap_simps]: "n < 2 ^ 32 \<Longrightarrow> u32 n = n"
  by (simp add: u32_def)

lemma length_le_bytes [simp]: "length (le_bytes n v) = n"
  by (induction n v rule: le_bytes.induct) auto

lemma unat_of_nat_byte: "unat (of_nat v :: byte) = v mod 256"
  by (simp add: unat_of_nat)

lemma nth_le_bytes: "i < n \<Longrightarrow> le_bytes n v ! i = of_nat (v div 256 ^ i)"
proof (induction n v arbitrary: i rule: le_bytes.induct)
  case (1 v)
  then show ?case by simp
next
  case (2 n v)
  then show ?case by (cases i) (simp_all add: div_mult2_eq)
qed

lemma le_val_le_bytes [le_simps]: "le_val (le_bytes n v) = v mod 256 ^ n"
proof (induction n v rule: le_bytes.induct)
  case (1 v)
  then show ?case by simp
next
  case (2 n v)
  have "v mod 256 ^ Suc n = v mod 256 + 256 * (v div 256 mod 256 ^ n)"
    by (simp add: mod_mult2_eq)
  with 2 show ?case by (simp add: unat_of_nat_byte)
qed

lemma unat_byte_less: "unat (b :: byte) < 256"
  using unsigned_less [of b] by simp

lemma le_val_bound: "le_val bs < 256 ^ length bs"
proof (induction bs)
  case Nil
  then show ?case by simp
next
  case (Cons b bs)
  have "unat b < 256"
    by (rule unat_byte_less)
  with Cons show ?case by simp
qed

lemma byte_of_unat_add: "(of_nat (unat b + 256 * n) :: byte) = b"
proof -
  have "(of_nat 256 :: byte) = 0" by simp
  then have "(of_nat (256 * n) :: byte) = 0" by (simp only: of_nat_mult mult_zero_left)
  then show ?thesis by (simp only: of_nat_add) simp
qed

lemma le_bytes_le_val [le_simps]: "le_bytes (length bs) (le_val bs) = bs"
proof (induction bs)
  case Nil
  then show ?case by simp
next
  case (Cons b bs)
  have "(unat b + 256 * le_val bs) div 256 = le_val bs"
    using unat_byte_less [of b] by simp
  with Cons show ?case
    using byte_of_unat_add [of b "le_val bs"] by simp
qed

lemma le_bytes_4: "le_bytes 4 v = [of_nat v, of_nat (v div 256), of_nat (v div 65536), of_nat (v div 16777216)]"
proof -
  have four: "(4::nat) = Suc (Suc (Suc (Suc 0)))" by simp
  have "le_bytes (Suc (Suc (Suc (Suc 0)))) v = [of_nat v, of_nat (v div 256), of_nat (v div 65536), of_nat (v div 16777216)]"
    by (simp flip: div_mult2_eq)
  then show ?thesis using four by (simp only:)
qed

lemma le_val_append: "le_val (xs @ ys) = le_val xs + 256 ^ length xs * le_val ys"
  by (induction xs) (auto simp: algebra_simps)

lemma le_val_ones [le_simps]: "le_val (replicate n (- 1)) = 256 ^ n - 1"
proof (induction n)
  case 0
  then show ?case by simp
next
  case (Suc n)
  have "unat (- 1 :: byte) = 255" by (simp add: unsigned_minus_1_eq_mask mask_eq_exp_minus_1)
  moreover have "(1::nat) \<le> 256 ^ n" by simp
  ultimately show ?case using Suc by (simp add: algebra_simps)
qed

lemma le_val_inj: "length xs = length ys \<Longrightarrow> le_val xs = le_val ys \<Longrightarrow> xs = ys"
  by (metis le_bytes_le_val)

text \<open>A sum over an indexed family when one member changes.\<close>

lemma sum_fun_upd:
  fixes f :: "'b \<Rightarrow> 'a :: comm_monoid_add" and n :: nat
  assumes "i < n"
  shows "(\<Sum>j<n. f ((g(i := x)) j)) + f (g i) = (\<Sum>j<n. f (g j)) + f x"
proof -
  have i: "i \<in> {..<n}" using assms by simp
  have "(\<Sum>j<n. f ((g(i := x)) j)) = f x + (\<Sum>j \<in> {..<n} - {i}. f (g j))"
    by (subst sum.remove [OF _ i]) (auto intro!: sum.cong)
  moreover have "(\<Sum>j<n. f (g j)) = f (g i) + (\<Sum>j \<in> {..<n} - {i}. f (g j))"
    by (rule sum.remove [OF _ i]) simp
  ultimately show ?thesis by (simp add: ac_simps)
qed

lemma length_bslice [simp]: "a + n \<le> length bs \<Longrightarrow> length (bslice a n bs) = n"
  by (simp add: bslice_def)

lemma bslice_append_left [simp]: "a + n \<le> length xs \<Longrightarrow> bslice a n (xs @ ys) = bslice a n xs"
  by (simp add: bslice_def)

lemma bslice_append_right [simp]: "length xs \<le> a \<Longrightarrow> bslice a n (xs @ ys) = bslice (a - length xs) n ys"
  by (simp add: bslice_def)

lemma bslice_full [simp]: "bslice 0 (length xs) xs = xs"
  by (simp add: bslice_def)

lemma bslice_zero: "bslice 0 n xs = take n xs"
  by (simp add: bslice_def)

lemma nth_bslice: "a + n \<le> length bs \<Longrightarrow> i < n \<Longrightarrow> bslice a n bs ! i = bs ! (a + i)"
  by (simp add: bslice_def)

lemma bslice_slice: "b + m \<le> n \<Longrightarrow> bslice b m (bslice a n bs) = bslice (a + b) m bs"
  by (simp add: bslice_def drop_take add.commute)

lemma bit_byte_less: "bit (b :: byte) n \<Longrightarrow> n < 8"
  using bit_imp_le_length [of b n] by simp

lemma not_bit_byte: "8 \<le> n \<Longrightarrow> \<not> bit (b :: byte) n"
  using bit_byte_less [of b n] by auto

end
