(* ===== verification/Nor_Flash.thy ===== *)
theory Nor_Flash
  imports Prelude
begin

text \<open>
  The NOR flash device and the interface its clients see.

  The device is hardware: an array of cells, a read, an erase that sets the bits of an
  aligned region, and a program that can only clear bits (the new byte is the old one
  \<open>AND\<close> the data).  \<open>nor_read\<close>, \<open>nor_write\<close> and \<open>nor_erase\<close> are these three operations on
  byte ranges.  The device's own commands are coarser: a page program stays inside one
  page of 256 bytes and wraps to its start, an erase command clears a 4 KB sector or a
  32 KB or 64 KB block; they are \<open>cmd_page_program\<close> and \<open>cmd_erase\<close>, the commands that
  \<^verbatim>\<open>hal_flash.c\<close> sends.

  \<open>flash_drv\<close> is the driver table of \<^verbatim>\<open>ln_kv_flash.h\<close> (and of \<^verbatim>\<open>ota_port.h\<close>): three
  function pointers.  The locale \<open>nor_driver\<close> states what a driver promises.
\<close>

type_synonym nor = "nat \<Rightarrow> byte"

section \<open>Byte ranges of the cell array\<close>

definition nor_read :: "nor \<Rightarrow> nat \<Rightarrow> nat \<Rightarrow> byte list" where
  "nor_read fl a n = map fl [a..<a + n]"

definition nor_write :: "nor \<Rightarrow> nat \<Rightarrow> byte list \<Rightarrow> nor" where
  "nor_write fl a bs = (\<lambda>x. if a \<le> x \<and> x < a + length bs then fl x AND bs ! (x - a) else fl x)"

definition nor_erase :: "nor \<Rightarrow> nat \<Rightarrow> nat \<Rightarrow> nor" where
  "nor_erase fl a n = (\<lambda>x. if a \<le> x \<and> x < a + n then - 1 else fl x)"

text \<open>A region is blank when every cell is erased.\<close>

definition blank :: "nor \<Rightarrow> nat \<Rightarrow> nat \<Rightarrow> bool" where
  "blank fl a n \<longleftrightarrow> (\<forall>x. a \<le> x \<and> x < a + n \<longrightarrow> fl x = - 1)"

section \<open>The commands of the device\<close>

datatype flash_erase_type = ERASE_SECTOR_4KB | ERASE_BLOCK_32KB | ERASE_BLOCK_64KB

fun erase_size :: "flash_erase_type \<Rightarrow> nat" where
  "erase_size ERASE_SECTOR_4KB = 4096"
| "erase_size ERASE_BLOCK_32KB = 32768"
| "erase_size ERASE_BLOCK_64KB = 65536"

text \<open>The device ignores the low bits of an erase address.\<close>

definition cmd_erase :: "nor \<Rightarrow> nat \<Rightarrow> flash_erase_type \<Rightarrow> nor" where
  "cmd_erase fl a t = nor_erase fl (a - a mod erase_size t) (erase_size t)"

text \<open>A page program past the end of the page goes on at the start of the same page.\<close>

fun cmd_page_program :: "nor \<Rightarrow> nat \<Rightarrow> byte list \<Rightarrow> nor" where
  "cmd_page_program fl a [] = fl"
| "cmd_page_program fl a (b # bs) =
     cmd_page_program (fl(a := fl a AND b)) (a - a mod 256 + (a + 1) mod 256) bs"

section \<open>The driver table and its contract\<close>

record flash_drv =
  drv_write :: "nor \<Rightarrow> nat \<Rightarrow> byte list \<Rightarrow> (int \<times> nor) option"
  drv_read :: "nor \<Rightarrow> nat \<Rightarrow> nat \<Rightarrow> (int \<times> byte list) option"
  drv_erase :: "nor \<Rightarrow> nat \<Rightarrow> nat \<Rightarrow> (int \<times> nor) option"

text \<open>
  A driver of a device with cells below \<open>lim\<close> and erase units of \<open>sect\<close> bytes.  The
  results are not negative, so every caller takes them for success.
\<close>

locale nor_driver =
  fixes drv :: flash_drv and lim :: nat and sect :: nat
  assumes drv_read: "a + n \<le> lim \<Longrightarrow> drv_read drv fl a n = Some (0, nor_read fl a n)"
    and drv_write: "a + length bs \<le> lim \<Longrightarrow> bs \<noteq> [] \<Longrightarrow>
          drv_write drv fl a bs = Some (0, nor_write fl a bs)"
    and drv_erase: "sect dvd a \<Longrightarrow> sect dvd n \<Longrightarrow> a + n \<le> lim \<Longrightarrow>
          drv_erase drv fl a n = Some (0, nor_erase fl a n)"

section \<open>Lemmas\<close>

lemma length_nor_read [simp]: "length (nor_read fl a n) = n"
  by (simp add: nor_read_def)

lemma nth_nor_read [simp]: "i < n \<Longrightarrow> nor_read fl a n ! i = fl (a + i)"
  by (simp add: nor_read_def)

lemma nor_read_0 [simp]: "nor_read fl a 0 = []"
  by (simp add: nor_read_def)

lemma nor_read_add: "nor_read fl a (m + n) = nor_read fl a m @ nor_read fl (a + m) n"
  by (rule nth_equalityI) (auto simp: nth_append)

lemma bslice_nor_read [simp]: "b + m \<le> n \<Longrightarrow> bslice b m (nor_read fl a n) = nor_read fl (a + b) m"
  by (rule nth_equalityI) (simp_all add: nth_bslice add.assoc)

lemma take_nor_read [simp]: "m \<le> n \<Longrightarrow> take m (nor_read fl a n) = nor_read fl a m"
  by (rule nth_equalityI) simp_all

lemma drop_nor_read [simp]: "m \<le> n \<Longrightarrow> drop m (nor_read fl a n) = nor_read fl (a + m) (n - m)"
  by (rule nth_equalityI) (simp_all add: add.assoc)

lemma nor_read_cong: "(\<And>x. a \<le> x \<Longrightarrow> x < a + n \<Longrightarrow> fl x = gl x) \<Longrightarrow> nor_read fl a n = nor_read gl a n"
  by (rule nth_equalityI) simp_all

lemma nor_read_eq_iff: "nor_read fl a n = bs \<longleftrightarrow> length bs = n \<and> (\<forall>i<n. fl (a + i) = bs ! i)"
  by (auto simp: list_eq_iff_nth_eq)

lemma nor_write_Nil [simp]: "nor_write fl a [] = fl"
  by (rule ext) (auto simp: nor_write_def)

lemma nor_erase_0 [simp]: "nor_erase fl a 0 = fl"
  by (rule ext) (auto simp: nor_erase_def)

lemma nor_write_append:
  "nor_write (nor_write fl a xs) (a + length xs) ys = nor_write fl a (xs @ ys)"
  by (rule ext) (auto simp: nor_write_def nth_append)

lemma nor_write_Cons: "nor_write fl a (b # bs) = nor_write (fl(a := fl a AND b)) (Suc a) bs"
  by (rule ext) (auto simp: nor_write_def nth_Cons' Suc_diff_le)

lemma nor_erase_add: "nor_erase (nor_erase fl a m) (a + m) n = nor_erase fl a (m + n)"
  by (rule ext) (auto simp: nor_erase_def)

lemma nor_write_other [flash_simps]: "x < a \<or> a + length bs \<le> x \<Longrightarrow> nor_write fl a bs x = fl x"
  by (auto simp: nor_write_def)

lemma nor_erase_other [flash_simps]: "x < a \<or> a + n \<le> x \<Longrightarrow> nor_erase fl a n x = fl x"
  by (auto simp: nor_erase_def)

lemma nor_read_write_other [flash_simps]:
  "b + n \<le> a \<or> a + length bs \<le> b \<Longrightarrow> nor_read (nor_write fl a bs) b n = nor_read fl b n"
  by (rule nor_read_cong) (auto simp: nor_write_other)

lemma nor_read_erase_other [flash_simps]:
  "b + n \<le> a \<or> a + m \<le> b \<Longrightarrow> nor_read (nor_erase fl a m) b n = nor_read fl b n"
  by (rule nor_read_cong) (auto simp: nor_erase_other)

lemma byte_and_ones [simp]: "(- 1 :: byte) AND b = b" "b AND (- 1 :: byte) = b"
  by simp_all

lemma nor_write_blank:
  "blank fl a (length bs) \<Longrightarrow> a \<le> x \<Longrightarrow> x < a + length bs \<Longrightarrow> nor_write fl a bs x = bs ! (x - a)"
  by (simp add: nor_write_def blank_def)

lemma nor_read_write_blank [flash_simps]:
  "blank fl a (length bs) \<Longrightarrow> nor_read (nor_write fl a bs) a (length bs) = bs"
  by (rule nth_equalityI) (auto simp: nor_write_blank)

lemma blank_erase [simp]: "blank (nor_erase fl a n) a n"
  by (simp add: blank_def nor_erase_def)

lemma blank_erase_sub: "a \<le> b \<Longrightarrow> b + m \<le> a + n \<Longrightarrow> blank (nor_erase fl a n) b m"
  by (simp add: blank_def nor_erase_def)

lemma blank_0 [simp]: "blank fl a 0"
  by (auto simp: blank_def)

lemma blank_sub: "blank fl a n \<Longrightarrow> a \<le> b \<Longrightarrow> b + m \<le> a + n \<Longrightarrow> blank fl b m"
  by (simp add: blank_def)

lemma blank_cong: "(\<And>x. a \<le> x \<Longrightarrow> x < a + n \<Longrightarrow> fl x = gl x) \<Longrightarrow> blank fl a n = blank gl a n"
  by (simp add: blank_def)

lemma blank_write_other [flash_simps]:
  "b + n \<le> a \<or> a + length bs \<le> b \<Longrightarrow> blank (nor_write fl a bs) b n = blank fl b n"
  by (rule blank_cong) (auto simp: nor_write_other)

lemma blank_erase_other [flash_simps]:
  "b + n \<le> a \<or> a + m \<le> b \<Longrightarrow> blank (nor_erase fl a m) b n = blank fl b n"
  by (rule blank_cong) (auto simp: nor_erase_other)

lemma nor_read_blank: "blank fl a n \<Longrightarrow> nor_read fl a n = replicate n (- 1)"
  by (rule nth_equalityI) (simp_all add: blank_def)

lemma blank_iff_read: "blank fl a n \<longleftrightarrow> nor_read fl a n = replicate n (- 1)"
proof
  assume "nor_read fl a n = replicate n (- 1)"
  then have "\<And>i. i < n \<Longrightarrow> fl (a + i) = - 1"
    by (metis nth_nor_read nth_replicate)
  then show "blank fl a n"
    unfolding blank_def by (metis le_Suc_ex nat_add_left_cancel_less)
qed (rule nor_read_blank)

lemma cmd_page_program_in_page:
  "a mod 256 + length bs \<le> 256 \<Longrightarrow> cmd_page_program fl a bs = nor_write fl a bs"
proof (induction fl a bs rule: cmd_page_program.induct)
  case (1 fl a)
  then show ?case by simp
next
  case (2 fl a b bs)
  show ?case
  proof (cases "bs = []")
    case True
    then show ?thesis by (simp add: nor_write_Cons)
  next
    case False
    with "2.prems" have "a mod 256 + 1 < 256" by (cases bs) auto
    then have m: "(a + 1) mod 256 = a mod 256 + 1"
      by (simp add: mod_Suc)
    then have next_a: "a - a mod 256 + (a + 1) mod 256 = Suc a"
      using mod_less_eq_dividend [of a 256] by linarith
    from "2.prems" m have "(a - a mod 256 + (a + 1) mod 256) mod 256 + length bs \<le> 256"
      unfolding next_a by simp
    from "2.IH" [OF this] show ?thesis
      unfolding cmd_page_program.simps next_a nor_write_Cons .
  qed
qed

lemma cmd_erase_aligned: "erase_size t dvd a \<Longrightarrow> cmd_erase fl a t = nor_erase fl a (erase_size t)"
  by (simp add: cmd_erase_def)

end
