(* ===== verification/Kv_Types.thy ===== *)
theory Kv_Types
  imports Nor_Flash
begin

text \<open>
  The data of the key-value store, \<^verbatim>\<open>components/fs/kv/kv/ln_kv.h\<close> and \<^verbatim>\<open>ln_kv_err.h\<close>: the
  control block \<open>kv_ctl\<close>, the packed headers of blocks and items with their decoders, the
  macros of the header file, and the inline functions on the block index.

  Beside \<open>kv_ctl\<close> the state holds the cells of the flash and \<open>kv_mem\<close>, the outcomes of the
  next requests to the operating system (heap blocks and the mutex): the empty list stands
  for an endless row of successes.  A string is the list of its bytes without the
  terminator, so \<open>strlen\<close> is \<^const>\<open>length\<close>.

  Addresses are natural numbers below \<open>2 ^ 32\<close>; the differences that the code forms without
  a check wrap (\<open>sub_u32\<close>), as do the 16-bit block counters.
\<close>

section \<open>Results, flags and magic numbers\<close>

datatype kv_err =
    KV_ERR_NONE
  | KV_ERR_BUF_TOO_SHORT
  | KV_ERR_BLK_STATUS_ERROR
  | KV_ERR_DATA_FETCH_FAILED
  | KV_ERR_FLASH_ERASE_FAILED
  | KV_ERR_FLASH_READ_FAILED
  | KV_ERR_FLASH_WRITE_FAILED
  | KV_ERR_GC_NOTHING
  | KV_ERR_INTERNAL_ERROR
  | KV_ERR_INSUFFICIENT_SPACE
  | KV_ERR_INVALID_PARAM
  | KV_ERR_INVALID_ITEM
  | KV_ERR_NEXT_LOOP
  | KV_ERR_NOT_EXIST
  | KV_ERR_NO_WRITEABLE_BLK
  | KV_ERR_OUT_OF_MEMORY
  | KV_ERR_POS_FIX_FAILED
  | KV_ERR_SIZE_EXCEEDED

fun kv_err_code :: "kv_err \<Rightarrow> nat" where
  "kv_err_code KV_ERR_NONE = 0"
| "kv_err_code KV_ERR_BUF_TOO_SHORT = 10"
| "kv_err_code KV_ERR_BLK_STATUS_ERROR = 11"
| "kv_err_code KV_ERR_DATA_FETCH_FAILED = 20"
| "kv_err_code KV_ERR_FLASH_ERASE_FAILED = 30"
| "kv_err_code KV_ERR_FLASH_READ_FAILED = 31"
| "kv_err_code KV_ERR_FLASH_WRITE_FAILED = 32"
| "kv_err_code KV_ERR_GC_NOTHING = 40"
| "kv_err_code KV_ERR_INTERNAL_ERROR = 50"
| "kv_err_code KV_ERR_INSUFFICIENT_SPACE = 51"
| "kv_err_code KV_ERR_INVALID_PARAM = 52"
| "kv_err_code KV_ERR_INVALID_ITEM = 53"
| "kv_err_code KV_ERR_NEXT_LOOP = 60"
| "kv_err_code KV_ERR_NOT_EXIST = 61"
| "kv_err_code KV_ERR_NO_WRITEABLE_BLK = 62"
| "kv_err_code KV_ERR_OUT_OF_MEMORY = 70"
| "kv_err_code KV_ERR_POS_FIX_FAILED = 80"
| "kv_err_code KV_ERR_SIZE_EXCEEDED = 90"

definition KV_BLK_FLAG_FRESH :: byte where "KV_BLK_FLAG_FRESH = 0x01"
definition KV_BLK_FLAG_INUSE :: byte where "KV_BLK_FLAG_INUSE = 0x02"
definition KV_BLK_FLAG_DIRTY :: byte where "KV_BLK_FLAG_DIRTY = 0x04"
definition KV_BLK_FLAG_BAD :: byte where "KV_BLK_FLAG_BAD = 0x08"
definition KV_BLK_FLAG_HANGING :: byte where "KV_BLK_FLAG_HANGING = 0x10"

definition KV_ITEM_HDR_MAGIC :: nat where "KV_ITEM_HDR_MAGIC = 0x636967616D5F7469"
definition KV_ITEM_DISCARDED :: nat where "KV_ITEM_DISCARDED = 0x0F0F0F0F0F0F0F0F"
definition KV_BLK_HDR_MAGIC :: nat where "KV_BLK_HDR_MAGIC = 0x302E31565F4B4C42"
definition KV_BLK_HDR_GC_SRC :: nat where "KV_BLK_HDR_GC_SRC = 0x6372735F6B72616D"
definition KV_BLK_HDR_GC_DST :: nat where "KV_BLK_HDR_GC_DST = 0x7473645F6B72616D"
definition KV_BLK_HDR_GC_DONE :: nat where "KV_BLK_HDR_GC_DONE = 0x656E6F645F63676B"
definition KV_BLK_INVALID :: nat where "KV_BLK_INVALID = 2 ^ 32 - 1"

text \<open>The all-ones values of the field types.\<close>

abbreviation (input) "ones8 \<equiv> (0xFF :: nat)"
abbreviation (input) "ones16 \<equiv> (0xFFFF :: nat)"
abbreviation (input) "ones32 \<equiv> (0xFFFFFFFF :: nat)"
abbreviation (input) "ones64 \<equiv> (0xFFFFFFFFFFFFFFFF :: nat)"

section \<open>Structures\<close>

record kv_blk_detail =
  blk_flags :: byte
  free_size :: nat

record kv_flash_prop =
  prop_sector_size_log2 :: nat

text \<open>\<open>kv_ctl\<close>: flash control, manager control and block info; then the environment.\<close>

record kv_ctl =
  kv_sector_size_log2 :: nat
  kv_flash_write_align :: nat
  kv_flash_start :: nat
  kv_flash_end :: nat
  kv_flash_drv :: flash_drv
  kv_workspace :: nat
  kv_num_inuse :: nat
  kv_num_fresh :: nat
  kv_num_hanging :: nat
  kv_num_total :: nat
  kv_detail :: "nat \<Rightarrow> kv_blk_detail"
  kv_cells :: nor
  kv_mem :: "bool list"

record kv_blk_hdr =
  bh_magic :: nat
  bh_gc_src :: nat
  bh_gc_dst :: nat
  bh_gc_done :: nat

record kv_item_hdr =
  ih_discarded_flag :: nat
  ih_magic :: nat
  ih_checksum :: nat
  ih_k_len :: nat
  ih_v_len :: nat
  ih_prev_pos :: nat

text \<open>An item in RAM; a body that is not read yet (NULL) is the empty list.\<close>

record kv_item =
  it_hdr :: kv_item_hdr
  it_pos :: nat
  it_body :: "byte list"

definition sizeof_kv_blk_hdr :: nat where "sizeof_kv_blk_hdr = 32"
definition sizeof_kv_item_hdr :: nat where "sizeof_kv_item_hdr = 24"

text \<open>The packed layouts.\<close>

definition kv_blk_hdr_decode :: "byte list \<Rightarrow> kv_blk_hdr" where
  "kv_blk_hdr_decode bs = \<lparr>bh_magic = le_val (bslice 0 8 bs), bh_gc_src = le_val (bslice 8 8 bs),
     bh_gc_dst = le_val (bslice 16 8 bs), bh_gc_done = le_val (bslice 24 8 bs)\<rparr>"

definition kv_item_hdr_decode :: "byte list \<Rightarrow> kv_item_hdr" where
  "kv_item_hdr_decode bs = \<lparr>ih_discarded_flag = le_val (bslice 0 8 bs), ih_magic = le_val (bslice 8 8 bs),
     ih_checksum = le_val (bslice 16 1 bs), ih_k_len = le_val (bslice 17 1 bs),
     ih_v_len = le_val (bslice 18 2 bs), ih_prev_pos = le_val (bslice 20 4 bs)\<rparr>"

text \<open>The part of an item header from \<open>checksum\<close> on, as \<open>kv_item_hdr_write\<close> writes it.\<close>

definition kv_item_hdr_tail :: "kv_item_hdr \<Rightarrow> byte list" where
  "kv_item_hdr_tail h = le_bytes 1 (ih_checksum h) @ le_bytes 1 (ih_k_len h)
     @ le_bytes 2 (ih_v_len h) @ le_bytes 4 (ih_prev_pos h)"

section \<open>Macros\<close>

definition KV_IS_ALINGED :: "nat \<Rightarrow> nat \<Rightarrow> bool" where
  "KV_IS_ALINGED v align \<longleftrightarrow> v mod align = 0"

definition KV_IS_ALINGED_LOG2 :: "nat \<Rightarrow> nat \<Rightarrow> bool" where
  "KV_IS_ALINGED_LOG2 v align_log2 \<longleftrightarrow> KV_IS_ALINGED v (2 ^ align_log2)"

definition KV_ALIGN_DOWN :: "nat \<Rightarrow> nat \<Rightarrow> nat" where
  "KV_ALIGN_DOWN v align = v - (v AND (align - 1))"

text \<open>\<open>x & ~(align - 1)\<close> clears the low bits of \<open>x = v + (align - 1)\<close>.\<close>

definition KV_ALIGN_UP :: "nat \<Rightarrow> nat \<Rightarrow> nat" where
  "KV_ALIGN_UP v align = (v + (align - 1)) - ((v + (align - 1)) AND (align - 1))"

definition KV_ALIGNED_SIZE :: "kv_ctl \<Rightarrow> nat \<Rightarrow> nat" where
  "KV_ALIGNED_SIZE s len = KV_ALIGN_UP len (kv_flash_write_align s)"

definition KV_FLASH_SECTOR_SIZE :: "kv_ctl \<Rightarrow> nat" where
  "KV_FLASH_SECTOR_SIZE s = 2 ^ kv_sector_size_log2 s"

definition KV_BLK_SIZE :: "kv_ctl \<Rightarrow> nat" where
  "KV_BLK_SIZE s = KV_FLASH_SECTOR_SIZE s"

definition KV_FLASH_SIZE :: "kv_ctl \<Rightarrow> nat" where
  "KV_FLASH_SIZE s = sub_u32 (kv_flash_end s) (kv_flash_start s)"

definition KV_NO_WRITEABLE_BLK :: "kv_ctl \<Rightarrow> bool" where
  "KV_NO_WRITEABLE_BLK s \<longleftrightarrow> kv_num_inuse s = 0 \<and> kv_num_fresh s = 0"

definition KV_ITEM_IS_DISCARDED :: "kv_item_hdr \<Rightarrow> bool" where
  "KV_ITEM_IS_DISCARDED h \<longleftrightarrow> ih_discarded_flag h = KV_ITEM_DISCARDED"

definition KV_ITEM_IS_LEGAL :: "kv_item_hdr \<Rightarrow> bool" where
  "KV_ITEM_IS_LEGAL h \<longleftrightarrow> ih_magic h = KV_ITEM_HDR_MAGIC"

definition KV_ITEM_IS_FRESH :: "kv_item_hdr \<Rightarrow> bool" where
  "KV_ITEM_IS_FRESH h \<longleftrightarrow> ih_magic h = ones64 \<and> ih_discarded_flag h = ones64 \<and> ih_checksum h = ones8
     \<and> ih_k_len h = ones8 \<and> ih_v_len h = ones16 \<and> ih_prev_pos h = ones32"

definition KV_ITEM_ADDR2BLK :: "kv_ctl \<Rightarrow> nat \<Rightarrow> nat" where
  "KV_ITEM_ADDR2BLK s item_start =
     KV_ALIGN_DOWN (sub_u32 item_start (kv_flash_start s)) (KV_BLK_SIZE s) + kv_flash_start s"

definition KV_ITEM_HDR_SIZE :: "kv_ctl \<Rightarrow> nat" where
  "KV_ITEM_HDR_SIZE s = KV_ALIGNED_SIZE s sizeof_kv_item_hdr"

definition KV_ITEM_BODY_SIZE :: "kv_ctl \<Rightarrow> nat \<Rightarrow> nat \<Rightarrow> nat" where
  "KV_ITEM_BODY_SIZE s k_len v_len = KV_ALIGNED_SIZE s (k_len + v_len)"

definition KV_ITEM_SIZE :: "kv_ctl \<Rightarrow> nat \<Rightarrow> nat \<Rightarrow> nat" where
  "KV_ITEM_SIZE s k_len v_len = KV_ITEM_HDR_SIZE s + KV_ITEM_BODY_SIZE s k_len v_len"

definition KV_ITEM_SIZE_OF_ITEM :: "kv_ctl \<Rightarrow> kv_item \<Rightarrow> nat" where
  "KV_ITEM_SIZE_OF_ITEM s it = KV_ITEM_SIZE s (ih_k_len (it_hdr it)) (ih_v_len (it_hdr it))"

definition KV_ITEM_SIZE_OF_BODY :: "kv_ctl \<Rightarrow> kv_item \<Rightarrow> nat" where
  "KV_ITEM_SIZE_OF_BODY s it = KV_ITEM_BODY_SIZE s (ih_k_len (it_hdr it)) (ih_v_len (it_hdr it))"

definition KV_ITEM_ADDR_OF_BODY :: "kv_ctl \<Rightarrow> kv_item \<Rightarrow> nat" where
  "KV_ITEM_ADDR_OF_BODY s it = it_pos it + KV_ITEM_HDR_SIZE s"

definition KV_BLK_IS_LEGAL :: "kv_blk_hdr \<Rightarrow> bool" where
  "KV_BLK_IS_LEGAL h \<longleftrightarrow> bh_magic h div 2 ^ 32 = KV_BLK_HDR_MAGIC div 2 ^ 32"

definition KV_BLK_IS_GC_SRC :: "kv_blk_hdr \<Rightarrow> bool" where
  "KV_BLK_IS_GC_SRC h \<longleftrightarrow> bh_gc_src h \<noteq> ones64"

definition KV_BLK_IS_GC_DST :: "kv_blk_hdr \<Rightarrow> bool" where
  "KV_BLK_IS_GC_DST h \<longleftrightarrow> bh_gc_dst h \<noteq> ones64"

definition KV_BLK_IS_GC_DONE :: "kv_blk_hdr \<Rightarrow> bool" where
  "KV_BLK_IS_GC_DONE h \<longleftrightarrow> bh_gc_done h \<noteq> ones64"

definition KV_BLK_IS_GC_DST_NOT_DONE :: "kv_blk_hdr \<Rightarrow> bool" where
  "KV_BLK_IS_GC_DST_NOT_DONE h \<longleftrightarrow> KV_BLK_IS_GC_DST h \<and> \<not> KV_BLK_IS_GC_DONE h"

definition KV_BLK_HDR_SIZE :: "kv_ctl \<Rightarrow> nat" where
  "KV_BLK_HDR_SIZE s = KV_ALIGNED_SIZE s sizeof_kv_blk_hdr"

definition KV_BLK_FRESH_SIZE :: "kv_ctl \<Rightarrow> nat" where
  "KV_BLK_FRESH_SIZE s = sub_u32 (KV_BLK_SIZE s) (KV_BLK_HDR_SIZE s)"

definition KV_BLK_END :: "kv_ctl \<Rightarrow> nat \<Rightarrow> nat" where
  "KV_BLK_END s blk_start = blk_start + KV_BLK_SIZE s"

definition KV_BLK_ADDR2IDX :: "kv_ctl \<Rightarrow> nat \<Rightarrow> nat" where
  "KV_BLK_ADDR2IDX s blk_start = sub_u32 blk_start (kv_flash_start s) div KV_BLK_SIZE s"

definition KV_BLK_FIRST_ITEM :: "kv_ctl \<Rightarrow> nat \<Rightarrow> nat" where
  "KV_BLK_FIRST_ITEM s blk_start = blk_start + KV_BLK_HDR_SIZE s"

definition KV_BLK_NEXT :: "kv_ctl \<Rightarrow> nat \<Rightarrow> nat" where
  "KV_BLK_NEXT s blk_start =
     (if blk_start + KV_BLK_SIZE s \<ge> kv_flash_end s then kv_flash_start s else blk_start + KV_BLK_SIZE s)"

text \<open>
  The values that the loop variable of \<open>KV_BLK_FOR_EACH\<close> takes, in order: block addresses
  from \<open>KV_FLASH_START\<close> while they are below \<open>KV_FLASH_END\<close>.
\<close>

definition KV_BLK_FOR_EACH :: "kv_ctl \<Rightarrow> nat list" where
  "KV_BLK_FOR_EACH s = map (\<lambda>i. kv_flash_start s + i * KV_BLK_SIZE s)
     [0..<(kv_flash_end s - kv_flash_start s + KV_BLK_SIZE s - 1) div KV_BLK_SIZE s]"

section \<open>The block index\<close>

definition kv_blk_freesz_set :: "kv_ctl \<Rightarrow> nat \<Rightarrow> nat \<Rightarrow> kv_ctl" where
  "kv_blk_freesz_set s blk_start sz =
     (let i = KV_BLK_ADDR2IDX s blk_start
      in s\<lparr>kv_detail := (kv_detail s)(i := (kv_detail s i)\<lparr>free_size := sz\<rparr>)\<rparr>)"

definition kv_blk_freesz_get :: "kv_ctl \<Rightarrow> nat \<Rightarrow> nat" where
  "kv_blk_freesz_get s blk_start = free_size (kv_detail s (KV_BLK_ADDR2IDX s blk_start))"

definition kv_blk_freesz_reduce :: "kv_ctl \<Rightarrow> nat \<Rightarrow> nat \<Rightarrow> kv_ctl" where
  "kv_blk_freesz_reduce s blk_start size_reduced =
     kv_blk_freesz_set s blk_start (sub_u32 (kv_blk_freesz_get s blk_start) size_reduced)"

definition KV_BLK_USABLE_ADDR :: "kv_ctl \<Rightarrow> nat \<Rightarrow> nat" where
  "KV_BLK_USABLE_ADDR s blk_start = sub_u32 (KV_BLK_END s blk_start) (kv_blk_freesz_get s blk_start)"

definition kv_blk_is_full :: "kv_ctl \<Rightarrow> nat \<Rightarrow> bool" where
  "kv_blk_is_full s blk_start \<longleftrightarrow> kv_blk_freesz_get s blk_start \<le> KV_ITEM_HDR_SIZE s"

definition kv_blk_flags_set :: "kv_ctl \<Rightarrow> nat \<Rightarrow> byte \<Rightarrow> kv_ctl" where
  "kv_blk_flags_set s blk_start f =
     (let i = KV_BLK_ADDR2IDX s blk_start
      in s\<lparr>kv_detail := (kv_detail s)(i := (kv_detail s i)\<lparr>blk_flags := f\<rparr>)\<rparr>)"

definition kv_blk_flags_get :: "kv_ctl \<Rightarrow> nat \<Rightarrow> byte" where
  "kv_blk_flags_get s blk_start = blk_flags (kv_detail s (KV_BLK_ADDR2IDX s blk_start))"

definition kv_blk_flags_add :: "kv_ctl \<Rightarrow> nat \<Rightarrow> byte \<Rightarrow> kv_ctl" where
  "kv_blk_flags_add s blk_start f = kv_blk_flags_set s blk_start (kv_blk_flags_get s blk_start OR f)"

definition kv_blk_flags_rmv :: "kv_ctl \<Rightarrow> nat \<Rightarrow> byte \<Rightarrow> kv_ctl" where
  "kv_blk_flags_rmv s blk_start f = kv_blk_flags_set s blk_start (kv_blk_flags_get s blk_start AND NOT f)"

definition kv_blk_is_fresh :: "kv_ctl \<Rightarrow> nat \<Rightarrow> bool" where
  "kv_blk_is_fresh s b \<longleftrightarrow> kv_blk_flags_get s b AND KV_BLK_FLAG_FRESH \<noteq> 0"

definition kv_blk_is_inuse :: "kv_ctl \<Rightarrow> nat \<Rightarrow> bool" where
  "kv_blk_is_inuse s b \<longleftrightarrow> kv_blk_flags_get s b AND KV_BLK_FLAG_INUSE \<noteq> 0"

definition kv_blk_is_dirty :: "kv_ctl \<Rightarrow> nat \<Rightarrow> bool" where
  "kv_blk_is_dirty s b \<longleftrightarrow> kv_blk_flags_get s b AND KV_BLK_FLAG_DIRTY \<noteq> 0"

definition kv_blk_is_bad :: "kv_ctl \<Rightarrow> nat \<Rightarrow> bool" where
  "kv_blk_is_bad s b \<longleftrightarrow> kv_blk_flags_get s b AND KV_BLK_FLAG_BAD \<noteq> 0"

definition kv_blk_is_hanging :: "kv_ctl \<Rightarrow> nat \<Rightarrow> bool" where
  "kv_blk_is_hanging s b \<longleftrightarrow> kv_blk_flags_get s b AND KV_BLK_FLAG_HANGING \<noteq> 0"

definition kv_blk_set_fresh :: "kv_ctl \<Rightarrow> nat \<Rightarrow> kv_ctl" where
  "kv_blk_set_fresh s b =
     (let s1 = (if \<not> kv_blk_is_fresh s b then s\<lparr>kv_num_fresh := inc_u16 (kv_num_fresh s)\<rparr> else s);
          s2 = kv_blk_freesz_set s1 b (KV_BLK_FRESH_SIZE s1)
      in kv_blk_flags_set s2 b KV_BLK_FLAG_FRESH)"

definition kv_blk_set_inuse :: "kv_ctl \<Rightarrow> nat \<Rightarrow> kv_ctl" where
  "kv_blk_set_inuse s b =
     (let s1 = (if \<not> kv_blk_is_inuse s b then s\<lparr>kv_num_inuse := inc_u16 (kv_num_inuse s)\<rparr> else s)
      in kv_blk_flags_add s1 b KV_BLK_FLAG_INUSE)"

definition kv_blk_set_dirty :: "kv_ctl \<Rightarrow> nat \<Rightarrow> kv_ctl" where
  "kv_blk_set_dirty s b = kv_blk_flags_add s b KV_BLK_FLAG_DIRTY"

definition kv_blk_set_bad :: "kv_ctl \<Rightarrow> nat \<Rightarrow> kv_ctl" where
  "kv_blk_set_bad s b = kv_blk_flags_set s b KV_BLK_FLAG_BAD"

definition kv_blk_set_hanging :: "kv_ctl \<Rightarrow> nat \<Rightarrow> kv_ctl" where
  "kv_blk_set_hanging s b =
     (let s1 = (if \<not> kv_blk_is_hanging s b then s\<lparr>kv_num_hanging := inc_u16 (kv_num_hanging s)\<rparr> else s)
      in kv_blk_flags_add s1 b KV_BLK_FLAG_HANGING)"

definition kv_blk_reset_fresh :: "kv_ctl \<Rightarrow> nat \<Rightarrow> kv_ctl" where
  "kv_blk_reset_fresh s b =
     (let s1 = (if kv_blk_is_fresh s b then s\<lparr>kv_num_fresh := dec_u16 (kv_num_fresh s)\<rparr> else s)
      in kv_blk_flags_rmv s1 b KV_BLK_FLAG_FRESH)"

definition kv_blk_reset_inuse :: "kv_ctl \<Rightarrow> nat \<Rightarrow> kv_ctl" where
  "kv_blk_reset_inuse s b =
     (let s1 = (if kv_blk_is_inuse s b then s\<lparr>kv_num_inuse := dec_u16 (kv_num_inuse s)\<rparr> else s)
      in kv_blk_flags_rmv s1 b KV_BLK_FLAG_INUSE)"

definition kv_blk_reset_hanging :: "kv_ctl \<Rightarrow> nat \<Rightarrow> kv_ctl" where
  "kv_blk_reset_hanging s b =
     (let s1 = (if kv_blk_is_hanging s b then s\<lparr>kv_num_hanging := dec_u16 (kv_num_hanging s)\<rparr> else s)
      in kv_blk_flags_rmv s1 b KV_BLK_FLAG_HANGING)"

text \<open>One request to the operating system: is it granted?\<close>

definition ln_kv_malloc :: "kv_ctl \<Rightarrow> bool \<times> kv_ctl" where
  "ln_kv_malloc s = (case kv_mem s of [] \<Rightarrow> (True, s) | b # m \<Rightarrow> (b, s\<lparr>kv_mem := m\<rparr>))"

end
