(* ===== verification/Kv_Store.thy ===== *)
theory Kv_Store
  imports Kv_Types
begin

text \<open>
  The operations of the key-value store, \<^verbatim>\<open>components/fs/kv/kv/ln_kv.c\<close>, in the order of the
  file.  A function takes the control block and returns its result with the new control
  block; \<^const>\<open>None\<close> is a call that does not return (a driver that stops, or a loop that does not
  end).  An output parameter is one more component of the result.
\<close>

section \<open>Checksum and flash access\<close>

definition crc8_bit :: "byte \<Rightarrow> byte" where
  "crc8_bit crc = (if crc AND 0x80 \<noteq> 0 then push_bit 1 crc XOR 0x31 else push_bit 1 crc)"

fun kv_checksum_crc8_loop :: "byte \<Rightarrow> byte list \<Rightarrow> byte" where
  "kv_checksum_crc8_loop crc [] = crc"
| "kv_checksum_crc8_loop crc (b # bs) = kv_checksum_crc8_loop ((crc8_bit ^^ 8) (crc XOR b) AND 0xFF) bs"

definition kv_checksum_crc8 :: "byte list \<Rightarrow> byte" where
  "kv_checksum_crc8 buf = kv_checksum_crc8_loop 0 buf"

definition kv_flash_read :: "kv_ctl \<Rightarrow> nat \<Rightarrow> nat \<Rightarrow> (kv_err \<times> byte list) option" where
  "kv_flash_read s addr n = do {
     (r, bs) \<leftarrow> drv_read (kv_flash_drv s) (kv_cells s) addr n;
     Some (if r < 0 then (KV_ERR_FLASH_READ_FAILED, bs) else (KV_ERR_NONE, bs)) }"

definition kv_flash_write :: "kv_ctl \<Rightarrow> nat \<Rightarrow> byte list \<Rightarrow> (kv_err \<times> kv_ctl) option" where
  "kv_flash_write s addr buf = do {
     (r, fl) \<leftarrow> drv_write (kv_flash_drv s) (kv_cells s) addr buf;
     Some (if r < 0 then KV_ERR_FLASH_WRITE_FAILED else KV_ERR_NONE, s\<lparr>kv_cells := fl\<rparr>) }"

definition kv_flash_erase :: "kv_ctl \<Rightarrow> nat \<Rightarrow> nat \<Rightarrow> (kv_err \<times> kv_ctl) option" where
  "kv_flash_erase s start len = do {
     (r, fl) \<leftarrow> drv_erase (kv_flash_drv s) (kv_cells s) start len;
     Some (if r < 0 then KV_ERR_FLASH_ERASE_FAILED else KV_ERR_NONE, s\<lparr>kv_cells := fl\<rparr>) }"

definition kv_flash_wunit_modify :: "kv_ctl \<Rightarrow> nat \<Rightarrow> nat \<Rightarrow> (kv_err \<times> kv_ctl) option" where
  "kv_flash_wunit_modify s addr dat = kv_flash_write s addr (le_bytes 8 dat)"

definition kv_flash_blk_erase :: "kv_ctl \<Rightarrow> nat \<Rightarrow> (kv_err \<times> kv_ctl) option" where
  "kv_flash_blk_erase s blk_start = kv_flash_erase s blk_start (KV_BLK_SIZE s)"

definition kv_flash_ctl_init :: "kv_ctl \<Rightarrow> nat \<Rightarrow> nat \<Rightarrow> flash_drv \<Rightarrow> kv_flash_prop \<Rightarrow> kv_ctl" where
  "kv_flash_ctl_init s flash_start flash_end drv prop =
     s\<lparr>kv_flash_drv := drv, kv_flash_start := flash_start, kv_flash_end := flash_end,
       kv_sector_size_log2 := prop_sector_size_log2 prop, kv_flash_write_align := 1\<rparr>"

section \<open>Blocks\<close>

definition kv_blk_hdr_read :: "kv_ctl \<Rightarrow> nat \<Rightarrow> (kv_err \<times> kv_blk_hdr) option" where
  "kv_blk_hdr_read s blk_start = do {
     (err, bs) \<leftarrow> kv_flash_read s blk_start sizeof_kv_blk_hdr;
     Some (err, kv_blk_hdr_decode bs) }"

definition kv_blk_format :: "kv_ctl \<Rightarrow> nat \<Rightarrow> (kv_err \<times> kv_ctl) option" where
  "kv_blk_format s blk_start = do {
     (err, s1) \<leftarrow> kv_flash_blk_erase s blk_start;
     if err \<noteq> KV_ERR_NONE then Some (KV_ERR_FLASH_ERASE_FAILED, s1)
     else do {
       (err, s2) \<leftarrow> kv_flash_wunit_modify s1 blk_start KV_BLK_HDR_MAGIC;
       if err \<noteq> KV_ERR_NONE then Some (KV_ERR_FLASH_WRITE_FAILED, s2)
       else Some (KV_ERR_NONE, kv_blk_set_fresh s2 blk_start) } }"

text \<open>\<open>KV_BLK_FOR_EACH_FROM\<close> with an early return: the ring of blocks after \<open>start_blk\<close>.\<close>

partial_function (option) kv_blk_ring_search :: "kv_ctl \<Rightarrow> (nat \<Rightarrow> bool) \<Rightarrow> nat \<Rightarrow> nat \<Rightarrow> nat option" where
  "kv_blk_ring_search s p start_blk cur_blk =
     (if cur_blk = start_blk then Some KV_BLK_INVALID
      else if p cur_blk then Some cur_blk
      else kv_blk_ring_search s p start_blk (KV_BLK_NEXT s cur_blk))"

definition kv_blk_next_fresh :: "kv_ctl \<Rightarrow> nat option" where
  "kv_blk_next_fresh s =
     kv_blk_ring_search s (kv_blk_is_fresh s) (kv_workspace s) (KV_BLK_NEXT s (kv_workspace s))"

definition kv_blk_get_a_fresh :: "kv_ctl \<Rightarrow> nat" where
  "kv_blk_get_a_fresh s =
     (case find (kv_blk_is_fresh s) (KV_BLK_FOR_EACH s) of Some b \<Rightarrow> b | None \<Rightarrow> KV_BLK_INVALID)"

definition kv_blk_search_inuse :: "kv_ctl \<Rightarrow> nat \<Rightarrow> nat option" where
  "kv_blk_search_inuse s item_size =
     kv_blk_ring_search s (\<lambda>b. kv_blk_is_inuse s b \<and> kv_blk_freesz_get s b \<ge> item_size)
       (kv_workspace s) (KV_BLK_NEXT s (kv_workspace s))"

definition kv_blk_mark_gc_src :: "kv_ctl \<Rightarrow> nat \<Rightarrow> (kv_err \<times> kv_ctl) option" where
  "kv_blk_mark_gc_src s blk_start = do {
     (err, s1) \<leftarrow> kv_flash_wunit_modify s (blk_start + 8) KV_BLK_HDR_GC_SRC;
     Some (if err \<noteq> KV_ERR_NONE then KV_ERR_FLASH_WRITE_FAILED else KV_ERR_NONE, s1) }"

definition kv_blk_mark_gc_dst :: "kv_ctl \<Rightarrow> nat \<Rightarrow> (kv_err \<times> kv_ctl) option" where
  "kv_blk_mark_gc_dst s blk_start = do {
     (err, s1) \<leftarrow> kv_flash_wunit_modify s (blk_start + 16) KV_BLK_HDR_GC_DST;
     Some (if err \<noteq> KV_ERR_NONE then KV_ERR_FLASH_WRITE_FAILED else KV_ERR_NONE, s1) }"

definition kv_blk_mark_gc_done :: "kv_ctl \<Rightarrow> nat \<Rightarrow> (kv_err \<times> kv_ctl) option" where
  "kv_blk_mark_gc_done s blk_start = do {
     (err, s1) \<leftarrow> kv_flash_wunit_modify s (blk_start + 24) KV_BLK_HDR_GC_DONE;
     Some (if err \<noteq> KV_ERR_NONE then KV_ERR_FLASH_WRITE_FAILED else KV_ERR_NONE, s1) }"

section \<open>Items\<close>

definition kv_item_hdr_write :: "kv_ctl \<Rightarrow> nat \<Rightarrow> kv_item_hdr \<Rightarrow> (kv_err \<times> kv_ctl) option" where
  "kv_item_hdr_write s item_start item_hdr = do {
     (err, s1) \<leftarrow> kv_flash_write s (item_start + 16)
       (take (KV_ITEM_HDR_SIZE s - 16) (kv_item_hdr_tail item_hdr));
     if err \<noteq> KV_ERR_NONE then Some (KV_ERR_FLASH_WRITE_FAILED, s1)
     else kv_flash_wunit_modify s1 (item_start + 8) (ih_magic item_hdr) }"

definition kv_item_write :: "kv_ctl \<Rightarrow> nat \<Rightarrow> kv_item_hdr \<Rightarrow> byte list \<Rightarrow> (kv_err \<times> kv_ctl) option" where
  "kv_item_write s item_start item_hdr item_body = do {
     (err, s1) \<leftarrow> kv_item_hdr_write s item_start item_hdr;
     if err \<noteq> KV_ERR_NONE then Some (KV_ERR_FLASH_WRITE_FAILED, s1)
     else kv_flash_write s1 (item_start + KV_ITEM_HDR_SIZE s1) item_body }"

definition kv_item_hdr_read :: "kv_ctl \<Rightarrow> nat \<Rightarrow> (kv_err \<times> kv_item_hdr) option" where
  "kv_item_hdr_read s item_start = do {
     (err, bs) \<leftarrow> kv_flash_read s item_start sizeof_kv_item_hdr;
     Some (err, kv_item_hdr_decode bs) }"

definition kv_item_body_read :: "kv_ctl \<Rightarrow> kv_item \<Rightarrow> (kv_err \<times> kv_item \<times> kv_ctl) option" where
  "kv_item_body_read s it = (case ln_kv_malloc s of (granted, s1) \<Rightarrow>
     if \<not> granted then Some (KV_ERR_OUT_OF_MEMORY, it, s1)
     else do {
       (err, kv_buf) \<leftarrow> kv_flash_read s1 (KV_ITEM_ADDR_OF_BODY s1 it) (KV_ITEM_SIZE_OF_BODY s1 it);
       if err \<noteq> KV_ERR_NONE then Some (KV_ERR_FLASH_READ_FAILED, it, s1)
       else Some (KV_ERR_NONE, it\<lparr>it_body := kv_buf\<rparr>, s1) })"

definition kv_item_do_delete :: "kv_ctl \<Rightarrow> nat \<Rightarrow> (kv_err \<times> kv_ctl) option" where
  "kv_item_do_delete s item_start = kv_flash_wunit_modify s item_start KV_ITEM_DISCARDED"

definition kv_item_delete_aux :: "kv_ctl \<Rightarrow> nat \<Rightarrow> (kv_err \<times> kv_ctl) option" where
  "kv_item_delete_aux s item_start = do {
     (err, s1) \<leftarrow> kv_item_do_delete s item_start;
     if err \<noteq> KV_ERR_NONE then Some (KV_ERR_FLASH_WRITE_FAILED, s1)
     else Some (KV_ERR_NONE, kv_blk_set_dirty s1 (KV_ITEM_ADDR2BLK s1 item_start)) }"

definition kv_item_delete :: "kv_ctl \<Rightarrow> kv_item \<Rightarrow> (kv_err \<times> kv_ctl) option" where
  "kv_item_delete s it = kv_item_delete_aux s (it_pos it)"

definition kv_item_try_delete :: "kv_ctl \<Rightarrow> kv_item \<Rightarrow> (kv_err \<times> kv_ctl) option" where
  "kv_item_try_delete s it = (let prev_pos = ih_prev_pos (it_hdr it) in do {
     (err, prev_item_hdr) \<leftarrow> kv_item_hdr_read s prev_pos;
     if err \<noteq> KV_ERR_NONE then Some (KV_ERR_FLASH_READ_FAILED, s)
     else if \<not> KV_ITEM_IS_LEGAL prev_item_hdr \<or> KV_ITEM_IS_DISCARDED prev_item_hdr then Some (KV_ERR_NONE, s)
     else if ih_k_len (it_hdr it) \<noteq> ih_k_len prev_item_hdr then Some (KV_ERR_NONE, s)
     else (case ln_kv_malloc s of (granted, s1) \<Rightarrow>
       if \<not> granted then Some (KV_ERR_OUT_OF_MEMORY, s1)
       else do {
         (err, prev_key) \<leftarrow> kv_flash_read s1 (prev_pos + KV_ITEM_HDR_SIZE s1) (ih_k_len (it_hdr it));
         if err \<noteq> KV_ERR_NONE then Some (KV_ERR_FLASH_READ_FAILED, s1)
         else if prev_key \<noteq> take (ih_k_len (it_hdr it)) (it_body it) then Some (KV_ERR_NONE, s1)
         else kv_item_delete_aux s1 prev_pos }) })"

definition kv_item_hdr_verify :: "kv_ctl \<Rightarrow> kv_item_hdr \<Rightarrow> nat \<Rightarrow> nat \<Rightarrow> bool" where
  "kv_item_hdr_verify s item_hdr item_start blk_start =
     (let k_len = ih_k_len item_hdr; v_len = ih_v_len item_hdr in
      if k_len = 0 \<or> v_len = 0 \<or> k_len = ones8 \<or> v_len = ones16 then False
      else if item_start + KV_ITEM_SIZE s k_len v_len > KV_BLK_END s blk_start then False
      else if item_start + KV_ITEM_SIZE s k_len v_len > kv_flash_end s then False
      else True)"

definition kv_item_body_verify :: "kv_item \<Rightarrow> bool" where
  "kv_item_body_verify it \<longleftrightarrow> ih_checksum (it_hdr it)
     = unat (kv_checksum_crc8 (take (ih_k_len (it_hdr it) + ih_v_len (it_hdr it)) (it_body it)))"

definition kv_item_is_updated_one :: "kv_item \<Rightarrow> bool" where
  "kv_item_is_updated_one it \<longleftrightarrow> ih_prev_pos (it_hdr it) \<noteq> 0 \<and> it_pos it \<noteq> ih_prev_pos (it_hdr it)"

definition kv_item_is_moved :: "kv_ctl \<Rightarrow> kv_item \<Rightarrow> (bool \<times> kv_ctl) option" where
  "kv_item_is_moved s it = do {
     (err, item_hdr) \<leftarrow> kv_item_hdr_read s (it_pos it);
     if err \<noteq> KV_ERR_NONE then Some (False, s)
     else if item_hdr \<noteq> it_hdr it then Some (True, s)
     else do {
       (err, it', s1) \<leftarrow> kv_item_body_read s it;
       if err \<noteq> KV_ERR_NONE then Some (False, s1)
       else let n = ih_k_len (it_hdr it) + ih_v_len (it_hdr it)
            in Some (take n (it_body it) \<noteq> take n (it_body it'), s1) } }"

section \<open>Walkers\<close>

text \<open>A walker's last parameter in the code is fixed first here.\<close>

type_synonym kv_item_walker = "kv_ctl \<Rightarrow> kv_item \<Rightarrow> (kv_err \<times> kv_item \<times> kv_ctl) option"

definition kv_item_do_gc :: "nat \<Rightarrow> kv_item_walker" where
  "kv_item_do_gc blk_dst s it = do {
     (err, it, s1) \<leftarrow> kv_item_body_read s it;
     if err \<noteq> KV_ERR_NONE then Some (err, it, s1)
     else do {
       (err, s2) \<leftarrow> kv_item_write s1 (KV_BLK_USABLE_ADDR s1 blk_dst) (it_hdr it)
                     (take (KV_ITEM_SIZE_OF_BODY s1 it) (it_body it));
       if err \<noteq> KV_ERR_NONE then Some (KV_ERR_FLASH_WRITE_FAILED, it, s2)
       else Some (KV_ERR_NEXT_LOOP, it, kv_blk_freesz_reduce s2 blk_dst (KV_ITEM_SIZE_OF_ITEM s2 it)) } }"

definition kv_item_do_fetch_new_copy :: "kv_item \<Rightarrow> kv_item_walker" where
  "kv_item_do_fetch_new_copy dst_item s it =
     (let k_len = ih_k_len (it_hdr it); v_len = ih_v_len (it_hdr it) in
      if k_len \<noteq> ih_k_len (it_hdr dst_item) \<or> v_len \<noteq> ih_v_len (it_hdr dst_item)
      then Some (KV_ERR_NEXT_LOOP, it, s)
      else do {
        (err, it, s1) \<leftarrow> kv_item_body_read s it;
        if err \<noteq> KV_ERR_NONE then Some (err, it, s1)
        else if take (k_len + v_len) (it_body it) = take (k_len + v_len) (it_body dst_item)
             then Some (KV_ERR_NONE, it, s1)
        else Some (KV_ERR_NEXT_LOOP, it, s1) })"

definition kv_item_do_fetch :: "byte list \<Rightarrow> kv_item_walker" where
  "kv_item_do_fetch key s it =
     (let k_len = ih_k_len (it_hdr it) in
      if length key \<noteq> k_len then Some (KV_ERR_NEXT_LOOP, it, s)
      else do {
        (err, it, s1) \<leftarrow> kv_item_body_read s it;
        if err \<noteq> KV_ERR_NONE then Some (err, it, s1)
        else if take k_len (it_body it) = take k_len key then Some (KV_ERR_NONE, it, s1)
        else Some (KV_ERR_NEXT_LOOP, it, s1) })"

definition kv_item_do_recovery :: "kv_item_walker" where
  "kv_item_do_recovery s it = do {
     (err, it, s1) \<leftarrow> kv_item_body_read s it;
     if err \<noteq> KV_ERR_NONE then Some (err, it, s1)
     else do {
       (err, s2) \<leftarrow> (if \<not> kv_item_body_verify it then kv_item_delete s1 it
                    else if kv_item_is_updated_one it then kv_item_try_delete s1 it
                    else Some (err, s1));
       if err \<noteq> KV_ERR_NONE then Some (err, it, s2)
       else Some (KV_ERR_NEXT_LOOP, it, s2) } }"

section \<open>Walking through a block\<close>

text \<open>
  \<open>kv_item_walk_end\<close> is the code after the loop.  A result \<open>Some it\<close> is the item that a walker
  accepted (\<open>*item_out\<close>).
\<close>

definition kv_item_walk_end :: "kv_ctl \<Rightarrow> nat \<Rightarrow> nat \<Rightarrow> kv_ctl" where
  "kv_item_walk_end s blk_start cur_item =
     (if cur_item = KV_BLK_FIRST_ITEM s blk_start then kv_blk_set_fresh s blk_start
      else if cur_item + KV_ITEM_HDR_SIZE s < KV_BLK_END s blk_start then
        kv_blk_set_inuse (kv_blk_freesz_set s blk_start (KV_BLK_END s blk_start - cur_item)) blk_start
      else kv_blk_reset_inuse (kv_blk_freesz_set s blk_start 0) blk_start)"

partial_function (option) kv_item_walk_loop ::
    "kv_item_walker \<Rightarrow> nat \<Rightarrow> kv_ctl \<Rightarrow> nat \<Rightarrow> (kv_err \<times> kv_item option \<times> kv_ctl) option" where
  "kv_item_walk_loop walker blk_start s cur_item = (case ln_kv_malloc s of (granted, s) \<Rightarrow>
     if \<not> granted then Some (KV_ERR_OUT_OF_MEMORY, None, s)
     else do {
       (err, item_hdr) \<leftarrow> kv_item_hdr_read s cur_item;
       if err \<noteq> KV_ERR_NONE then Some (err, None, s)
       else if \<not> KV_ITEM_IS_LEGAL item_hdr \<and> KV_ITEM_IS_FRESH item_hdr then
         Some (KV_ERR_NONE, None, kv_item_walk_end s blk_start cur_item)
       else if \<not> KV_ITEM_IS_LEGAL item_hdr \<or> \<not> kv_item_hdr_verify s item_hdr cur_item blk_start then do {
         (err, s1) \<leftarrow> kv_item_do_delete s cur_item;
         let s2 = (if err = KV_ERR_NONE then kv_blk_set_dirty s1 blk_start else s1);
         let cur_item = cur_item + KV_ITEM_HDR_SIZE s2;
         (if cur_item + KV_ITEM_HDR_SIZE s2 < KV_BLK_END s2 blk_start
          then kv_item_walk_loop walker blk_start s2 cur_item
          else Some (KV_ERR_NONE, None, kv_item_walk_end s2 blk_start cur_item)) }
       else do {
         (err, it, s1) \<leftarrow>
           (if \<not> KV_ITEM_IS_DISCARDED item_hdr
            then walker s \<lparr>it_hdr = item_hdr, it_pos = cur_item, it_body = []\<rparr>
            else Some (KV_ERR_NEXT_LOOP, \<lparr>it_hdr = item_hdr, it_pos = cur_item, it_body = []\<rparr>,
                       kv_blk_set_dirty s blk_start));
         if err = KV_ERR_NONE then Some (KV_ERR_NONE, Some it, s1)
         else if err \<noteq> KV_ERR_NEXT_LOOP then Some (err, None, s1)
         else let cur_item = cur_item + KV_ITEM_SIZE s1 (ih_k_len item_hdr) (ih_v_len item_hdr) in
           if cur_item + KV_ITEM_HDR_SIZE s1 < KV_BLK_END s1 blk_start
           then kv_item_walk_loop walker blk_start s1 cur_item
           else Some (KV_ERR_NONE, None, kv_item_walk_end s1 blk_start cur_item) } })"

definition kv_item_walkthru ::
    "kv_ctl \<Rightarrow> nat \<Rightarrow> kv_item_walker \<Rightarrow> (kv_err \<times> kv_item option \<times> kv_ctl) option" where
  "kv_item_walkthru s blk_start walker =
     kv_item_walk_loop walker blk_start s (KV_BLK_FIRST_ITEM s blk_start)"

definition kv_item_do_find :: "kv_ctl \<Rightarrow> nat \<Rightarrow> byte list \<Rightarrow> (kv_item option \<times> kv_ctl) option" where
  "kv_item_do_find s blk_start key = do {
     (err, the_item, s1) \<leftarrow> kv_item_walkthru s blk_start (kv_item_do_fetch key);
     Some (if err = KV_ERR_NONE then the_item else None, s1) }"

text \<open>The loop of \<open>kv_item_find\<close> and \<open>kv_item_find_new_copy\<close> over the blocks \<open>bs\<close>.\<close>

fun kv_find_loop :: "(kv_ctl \<Rightarrow> nat \<Rightarrow> (kv_item option \<times> kv_ctl) option) \<Rightarrow> kv_ctl \<Rightarrow> nat list
    \<Rightarrow> (kv_item option \<times> kv_ctl) option" where
  "kv_find_loop do_find s [] = Some (None, s)"
| "kv_find_loop do_find s (cur_blk # bs) =
     (if kv_blk_is_bad s cur_blk \<or> kv_blk_is_fresh s cur_blk then kv_find_loop do_find s bs
      else do {
        (it, s1) \<leftarrow> do_find s cur_blk;
        (case it of Some i \<Rightarrow> Some (Some i, s1) | None \<Rightarrow> kv_find_loop do_find s1 bs) })"

definition kv_item_find :: "kv_ctl \<Rightarrow> byte list \<Rightarrow> (kv_item option \<times> kv_ctl) option" where
  "kv_item_find s key = kv_find_loop (\<lambda>s b. kv_item_do_find s b key) s (KV_BLK_FOR_EACH s)"

definition kv_item_do_find_new_copy :: "kv_ctl \<Rightarrow> nat \<Rightarrow> kv_item \<Rightarrow> (kv_item option \<times> kv_ctl) option" where
  "kv_item_do_find_new_copy s blk_start it = do {
     (err, the_item, s1) \<leftarrow> kv_item_walkthru s blk_start (kv_item_do_fetch_new_copy it);
     Some (if err = KV_ERR_NONE then the_item else None, s1) }"

definition kv_item_find_new_copy :: "kv_ctl \<Rightarrow> kv_item \<Rightarrow> (kv_item option \<times> kv_ctl) option" where
  "kv_item_find_new_copy s the_item =
     kv_find_loop (\<lambda>s b. kv_item_do_find_new_copy s b the_item) s (KV_BLK_FOR_EACH s)"

definition kv_item_do_save :: "kv_ctl \<Rightarrow> nat \<Rightarrow> byte list \<Rightarrow> byte list \<Rightarrow> nat \<Rightarrow> (kv_err \<times> kv_ctl) option" where
  "kv_item_do_save s item_start k v prev_pos =
     (let k_len = u8 (length k);
          kv_len = KV_ITEM_BODY_SIZE s k_len (length v) in
      case ln_kv_malloc s of (granted, s1) \<Rightarrow>
        if \<not> granted then Some (KV_ERR_OUT_OF_MEMORY, s1)
        else let kv_buf = take k_len k @ v @ replicate (kv_len - k_len - length v) 0;
                 item_hdr = \<lparr>ih_discarded_flag = 0, ih_magic = KV_ITEM_HDR_MAGIC,
                   ih_checksum = unat (kv_checksum_crc8 (take (k_len + length v) kv_buf)),
                   ih_k_len = k_len, ih_v_len = u16 (length v), ih_prev_pos = prev_pos\<rparr>
             in kv_item_write s1 item_start item_hdr kv_buf)"

definition kv_item_value_is_match :: "kv_item \<Rightarrow> byte list \<Rightarrow> bool" where
  "kv_item_value_is_match it value =
     (let k_len = ih_k_len (it_hdr it); v_len = ih_v_len (it_hdr it) in
      if length value \<noteq> v_len then False
      else if bslice k_len v_len (it_body it) \<noteq> take v_len value then False
      else True)"

definition kv_item_fix :: "kv_ctl \<Rightarrow> kv_item \<Rightarrow> (kv_err \<times> kv_item \<times> kv_ctl) option" where
  "kv_item_fix s it = do {
     (moved_item, s1) \<leftarrow> kv_item_find_new_copy s it;
     (case moved_item of
        None \<Rightarrow> Some (KV_ERR_POS_FIX_FAILED, it, s1)
      | Some moved \<Rightarrow> Some (KV_ERR_NONE, it\<lparr>it_pos := it_pos moved\<rparr>, s1)) }"

section \<open>Garbage collection\<close>

text \<open>
  \<open>kv_do_gc\<close> copies the live items of one block to a fresh one and formats the source.
\<close>

definition kv_do_gc :: "kv_ctl \<Rightarrow> nat \<Rightarrow> nat \<Rightarrow> bool \<Rightarrow> (kv_err \<times> kv_ctl) option" where
  "kv_do_gc s blk_src blk_dst is_handle_incomplete = do {
     (err, s) \<leftarrow> (if \<not> is_handle_incomplete then kv_blk_mark_gc_src s blk_src else Some (KV_ERR_NONE, s));
     if err \<noteq> KV_ERR_NONE then Some (err, s) else do {
     (err, s) \<leftarrow> kv_blk_mark_gc_dst s blk_dst;
     if err \<noteq> KV_ERR_NONE then Some (err, s) else do {
     (err, _, s) \<leftarrow> kv_item_walkthru s blk_src (kv_item_do_gc blk_dst);
     if err \<noteq> KV_ERR_NONE then Some (err, s) else do {
     let s = kv_blk_reset_inuse s blk_src;
     (err, s) \<leftarrow> kv_blk_format s blk_src;
     let s = (if err \<noteq> KV_ERR_NONE then kv_blk_set_bad s blk_src else s);
     (err, s) \<leftarrow> kv_blk_mark_gc_done s blk_dst;
     if err \<noteq> KV_ERR_NONE then Some (err, s) else
     let s = kv_blk_reset_fresh s blk_dst in
     Some (KV_ERR_NONE, if \<not> kv_blk_is_full s blk_dst then kv_blk_set_inuse s blk_dst else s) } } } }"

definition kv_mgr_index_build :: "kv_ctl \<Rightarrow> nat \<Rightarrow> (kv_err \<times> kv_ctl) option" where
  "kv_mgr_index_build s blk_start = do {
     (err, _, s1) \<leftarrow> kv_item_walkthru s blk_start kv_item_do_recovery;
     Some (err, s1) }"

fun kv_rebuild_loop :: "kv_ctl \<Rightarrow> bool \<Rightarrow> nat list \<Rightarrow> (bool \<times> kv_ctl) option" where
  "kv_rebuild_loop s is_rebuild_done [] = Some (is_rebuild_done, s)"
| "kv_rebuild_loop s is_rebuild_done (cur_blk # bs) =
     (if kv_blk_is_hanging s cur_blk then do {
        (err, s1) \<leftarrow> kv_mgr_index_build s cur_blk;
        if err = KV_ERR_NONE then kv_rebuild_loop (kv_blk_reset_hanging s1 cur_blk) True bs
        else kv_rebuild_loop s1 is_rebuild_done bs }
      else kv_rebuild_loop s is_rebuild_done bs)"

definition kv_mgr_blk_index_rebuild :: "kv_ctl \<Rightarrow> (bool \<times> kv_ctl) option" where
  "kv_mgr_blk_index_rebuild s = kv_rebuild_loop s False (KV_BLK_FOR_EACH s)"

text \<open>The loop of \<open>kv_gc\<close> and \<open>kv_try_gc\<close>: the first dirty block that can be collected.\<close>

fun kv_gc_loop :: "kv_ctl \<Rightarrow> nat \<Rightarrow> nat list \<Rightarrow> (bool \<times> kv_ctl) option" where
  "kv_gc_loop s blk_dst [] = Some (False, s)"
| "kv_gc_loop s blk_dst (cur_blk # bs) =
     (if kv_blk_is_dirty s cur_blk then do {
        (err, s1) \<leftarrow> kv_do_gc s cur_blk blk_dst False;
        if err = KV_ERR_NONE then Some (True, s1) else kv_gc_loop s1 blk_dst bs }
      else kv_gc_loop s blk_dst bs)"

definition kv_gc :: "kv_ctl \<Rightarrow> (kv_err \<times> kv_ctl) option" where
  "kv_gc s = do {
     (is_rebuild_done, s) \<leftarrow> (if kv_num_hanging s > 0 then kv_mgr_blk_index_rebuild s else Some (False, s));
     blk_dst \<leftarrow> kv_blk_next_fresh s;
     if blk_dst = KV_BLK_INVALID then Some (KV_ERR_GC_NOTHING, s)
     else do {
       (is_gc_done, s) \<leftarrow> kv_gc_loop s blk_dst (KV_BLK_FOR_EACH s);
       let s = (if is_gc_done then s\<lparr>kv_workspace := blk_dst\<rparr> else s);
       Some (if is_gc_done \<or> is_rebuild_done then KV_ERR_NONE else KV_ERR_GC_NOTHING, s) } }"

definition kv_try_gc :: "kv_ctl \<Rightarrow> (kv_err \<times> kv_ctl) option" where
  "kv_try_gc s = (let blk_dst = kv_blk_get_a_fresh s in
     if blk_dst = KV_BLK_INVALID then Some (KV_ERR_GC_NOTHING, s)
     else do {
       (done, s) \<leftarrow> kv_gc_loop s blk_dst (KV_BLK_FOR_EACH s);
       Some (if done then KV_ERR_NONE else KV_ERR_GC_NOTHING, s) })"

section \<open>Saving and updating\<close>

text \<open>The \<open>do ... while (LN_TRUE)\<close> of \<open>kv_blk_search_suitable\<close>.\<close>

partial_function (option) kv_search_suitable_loop :: "kv_ctl \<Rightarrow> nat \<Rightarrow> (nat \<times> kv_ctl) option" where
  "kv_search_suitable_loop s item_size =
     (if kv_blk_freesz_get s (kv_workspace s) \<ge> item_size then Some (kv_workspace s, s)
      else do {
        the_blk \<leftarrow> kv_blk_search_inuse s item_size;
        if the_blk \<noteq> KV_BLK_INVALID then Some (the_blk, s\<lparr>kv_workspace := the_blk\<rparr>)
        else if kv_num_fresh s < 1 then Some (KV_BLK_INVALID, s)
        else if kv_num_fresh s > 1 then do {
          b \<leftarrow> kv_blk_next_fresh s;
          Some (b, s\<lparr>kv_workspace := b\<rparr>) }
        else do {
          (err, s1) \<leftarrow> kv_gc s;
          if err \<noteq> KV_ERR_NONE then do {
            b \<leftarrow> kv_blk_next_fresh s1;
            Some (b, s1\<lparr>kv_workspace := b\<rparr>) }
          else kv_search_suitable_loop s1 item_size } })"

definition kv_blk_search_suitable :: "kv_ctl \<Rightarrow> nat \<Rightarrow> (nat \<times> kv_ctl) option" where
  "kv_blk_search_suitable s item_size =
     (if KV_NO_WRITEABLE_BLK s then Some (KV_BLK_INVALID, s)
      else if kv_workspace s = KV_BLK_INVALID then Some (KV_BLK_INVALID, s)
      else kv_search_suitable_loop s item_size)"

text \<open>The end of \<open>kv_item_save\<close>: the index after the new item is written to \<open>blk_start\<close>.\<close>

definition kv_item_saved :: "kv_ctl \<Rightarrow> nat \<Rightarrow> nat \<Rightarrow> kv_ctl" where
  "kv_item_saved s blk_start item_size =
     (let s = kv_blk_freesz_reduce s blk_start item_size in
      if kv_blk_is_fresh s blk_start then
        let s = kv_blk_reset_fresh s blk_start in
        if \<not> kv_blk_is_full s blk_start then kv_blk_set_inuse s blk_start else s
      else if kv_blk_is_full s blk_start then kv_blk_reset_inuse s blk_start
      else s)"

text \<open>The item pointed to by \<open>prev_item\<close> is returned as the code leaves it.\<close>

definition kv_item_save :: "kv_ctl \<Rightarrow> byte list \<Rightarrow> byte list \<Rightarrow> kv_item option
    \<Rightarrow> (kv_err \<times> kv_item option \<times> kv_ctl) option" where
  "kv_item_save s k v prev_item =
     (let item_size = KV_ITEM_SIZE s (length k) (length v) in do {
      (blk_start, s) \<leftarrow> kv_blk_search_suitable s item_size;
      if blk_start = KV_BLK_INVALID then Some (KV_ERR_INSUFFICIENT_SPACE, prev_item, s)
      else do {
        (err, prev_item, s) \<leftarrow> (case prev_item of
            None \<Rightarrow> Some (KV_ERR_NONE, None, s)
          | Some p \<Rightarrow> do {
              (moved, s) \<leftarrow> kv_item_is_moved s p;
              if moved then do { (err, p, s) \<leftarrow> kv_item_fix s p; Some (err, Some p, s) }
              else Some (KV_ERR_NONE, Some p, s) });
        if err \<noteq> KV_ERR_NONE then Some (err, prev_item, s)
        else do {
          (err, s) \<leftarrow> kv_item_do_save s (KV_BLK_USABLE_ADDR s blk_start) k v
                        (case prev_item of Some p \<Rightarrow> it_pos p | None \<Rightarrow> 0);
          if err \<noteq> KV_ERR_NONE then Some (err, prev_item, s)
          else Some (KV_ERR_NONE, prev_item, kv_item_saved s blk_start item_size) } } })"

definition kv_item_update :: "kv_ctl \<Rightarrow> kv_item \<Rightarrow> byte list \<Rightarrow> byte list \<Rightarrow> (kv_err \<times> kv_ctl) option" where
  "kv_item_update s it key value =
     (if kv_item_value_is_match it value then Some (KV_ERR_NONE, s)
      else do {
        (err, prev, s) \<leftarrow> kv_item_save s key value (Some it);
        if err \<noteq> KV_ERR_NONE then Some (err, s)
        else kv_item_delete s (case prev of Some p \<Rightarrow> p | None \<Rightarrow> it) })"

section \<open>Bringing up the store\<close>

definition kv_param_verify :: "nat \<Rightarrow> nat \<Rightarrow> flash_drv option \<Rightarrow> kv_flash_prop option \<Rightarrow> kv_err" where
  "kv_param_verify flash_start flash_end drv prop =
     (case (drv, prop) of
        (Some d, Some p) \<Rightarrow>
          if \<not> KV_IS_ALINGED_LOG2 flash_start (prop_sector_size_log2 p) then KV_ERR_INVALID_PARAM
          else if \<not> KV_IS_ALINGED_LOG2 flash_end (prop_sector_size_log2 p) then KV_ERR_INVALID_PARAM
          else KV_ERR_NONE
      | _ \<Rightarrow> KV_ERR_INVALID_PARAM)"

fun kv_workspace_loop :: "kv_ctl \<Rightarrow> nat list \<Rightarrow> kv_ctl" where
  "kv_workspace_loop s [] = s"
| "kv_workspace_loop s (cur_blk # bs) =
     (if kv_num_inuse s = 0 then
        if kv_blk_is_fresh s cur_blk then s\<lparr>kv_workspace := cur_blk\<rparr> else kv_workspace_loop s bs
      else if kv_blk_is_inuse s cur_blk then s\<lparr>kv_workspace := cur_blk\<rparr>
      else kv_workspace_loop s bs)"

definition kv_mgr_workspace_locate :: "kv_ctl \<Rightarrow> (kv_err \<times> kv_ctl) option" where
  "kv_mgr_workspace_locate s = do {
     (_, s) \<leftarrow> (if kv_num_hanging s > 0 then kv_mgr_blk_index_rebuild s else Some (False, s));
     (_, s) \<leftarrow> (if kv_num_inuse s = 0 \<and> kv_num_fresh s = 1 then kv_try_gc s else Some (KV_ERR_NONE, s));
     if KV_NO_WRITEABLE_BLK s then Some (KV_ERR_NO_WRITEABLE_BLK, s)
     else Some (KV_ERR_NONE, kv_workspace_loop s (KV_BLK_FOR_EACH s)) }"

text \<open>
  The \<open>struct blk_info\<close> of the code, the abnormal blocks found at boot, is their list; it has
  room for three addresses there.
\<close>

definition kv_handle_incomplete_gc :: "kv_ctl \<Rightarrow> nat list \<Rightarrow> nat list \<Rightarrow> nat option \<Rightarrow> (kv_err \<times> kv_ctl) option" where
  "kv_handle_incomplete_gc s gc_src_blk gc_dst_not_done_blk fresh_blk =
     (if length gc_src_blk > 1 \<or> length gc_dst_not_done_blk > 1 then Some (KV_ERR_BLK_STATUS_ERROR, s)
      else case gc_src_blk of
        [] \<Rightarrow> Some (KV_ERR_NONE, s)
      | src_blk # _ \<Rightarrow>
          (case gc_dst_not_done_blk of
             [] \<Rightarrow> (case fresh_blk of
                      None \<Rightarrow> Some (KV_ERR_BLK_STATUS_ERROR, s)
                    | Some dst_blk \<Rightarrow> kv_do_gc s src_blk dst_blk True)
           | dst_blk # _ \<Rightarrow> do {
               (err, s) \<leftarrow> kv_blk_format s dst_blk;
               if err \<noteq> KV_ERR_NONE then Some (err, kv_blk_set_bad s dst_blk)
               else kv_do_gc s src_blk dst_blk True }))"

fun kv_ctl_build_loop :: "kv_ctl \<Rightarrow> nat list \<Rightarrow> nat list \<Rightarrow> nat option \<Rightarrow> nat list
    \<Rightarrow> (kv_ctl \<times> nat list \<times> nat list \<times> nat option) option" where
  "kv_ctl_build_loop s srcs dsts fresh [] = Some (s, srcs, dsts, fresh)"
| "kv_ctl_build_loop s srcs dsts fresh (cur_blk # bs) = do {
     (err, blk_hdr) \<leftarrow> kv_blk_hdr_read s cur_blk;
     if err \<noteq> KV_ERR_NONE then kv_ctl_build_loop (kv_blk_set_bad s cur_blk) srcs dsts fresh bs
     else if \<not> KV_BLK_IS_LEGAL blk_hdr then do {
       (err, s) \<leftarrow> kv_blk_format s cur_blk;
       if err \<noteq> KV_ERR_NONE then kv_ctl_build_loop (kv_blk_set_bad s cur_blk) srcs dsts fresh bs
       else kv_ctl_build_loop s srcs dsts (Some cur_blk) bs }
     else if KV_BLK_IS_GC_SRC blk_hdr then kv_ctl_build_loop s (srcs @ [cur_blk]) dsts fresh bs
     else if KV_BLK_IS_GC_DST_NOT_DONE blk_hdr then kv_ctl_build_loop s srcs (dsts @ [cur_blk]) fresh bs
     else do {
       (err, s) \<leftarrow> kv_mgr_index_build s cur_blk;
       if err \<noteq> KV_ERR_NONE then kv_ctl_build_loop (kv_blk_set_hanging s cur_blk) srcs dsts fresh bs
       else if kv_blk_is_fresh s cur_blk then kv_ctl_build_loop s srcs dsts (Some cur_blk) bs
       else kv_ctl_build_loop s srcs dsts fresh bs } }"

definition kv_mgr_ctl_build :: "kv_ctl \<Rightarrow> (kv_err \<times> kv_ctl) option" where
  "kv_mgr_ctl_build s = do {
     (s, gc_src_blk, gc_dst_not_done_blk, fresh_blk) \<leftarrow> kv_ctl_build_loop s [] [] None (KV_BLK_FOR_EACH s);
     kv_handle_incomplete_gc s gc_src_blk gc_dst_not_done_blk fresh_blk }"

definition kv_mgr_ctl_init :: "kv_ctl \<Rightarrow> kv_err \<times> kv_ctl" where
  "kv_mgr_ctl_init s =
     (let s = s\<lparr>kv_num_total := u16 (KV_FLASH_SIZE s div KV_FLASH_SECTOR_SIZE s)\<rparr> in
      case ln_kv_malloc s of (granted, s) \<Rightarrow>
        if \<not> granted then (KV_ERR_OUT_OF_MEMORY, s)
        else let s = s\<lparr>kv_detail := (\<lambda>_. \<lparr>blk_flags = 0, free_size = 0\<rparr>)\<rparr> in
          case ln_kv_malloc s of (mutex_created, s) \<Rightarrow>
            if \<not> mutex_created then (KV_ERR_INTERNAL_ERROR, s) else (KV_ERR_NONE, s))"

text \<open>\<open>memset (&kv_ctl, 0, sizeof (kv_ctl))\<close>; the cells and the environment are not in it.\<close>

definition kv_ctl_clear :: "kv_ctl \<Rightarrow> kv_ctl" where
  "kv_ctl_clear s = s\<lparr>kv_sector_size_log2 := 0, kv_flash_write_align := 0, kv_flash_start := 0,
     kv_flash_end := 0, kv_workspace := 0, kv_num_inuse := 0, kv_num_fresh := 0, kv_num_hanging := 0,
     kv_num_total := 0\<rparr>"

definition kv_mgr_ctl_deinit :: "kv_ctl \<Rightarrow> kv_ctl" where
  "kv_mgr_ctl_deinit s = kv_ctl_clear s"

section \<open>The interface\<close>

text \<open>A pointer parameter that may be NULL is an option.\<close>

definition ln_kv_init :: "kv_ctl \<Rightarrow> nat \<Rightarrow> nat \<Rightarrow> flash_drv option \<Rightarrow> kv_flash_prop option
    \<Rightarrow> (kv_err \<times> kv_ctl) option" where
  "ln_kv_init s flash_start flash_end drv prop =
     (if kv_param_verify flash_start flash_end drv prop \<noteq> KV_ERR_NONE then Some (KV_ERR_INVALID_PARAM, s)
      else case kv_mgr_ctl_init (kv_flash_ctl_init (kv_ctl_clear s) flash_start flash_end (the drv) (the prop)) of
        (err, s) \<Rightarrow>
          if err \<noteq> KV_ERR_NONE then Some (err, s)
          else do {
            (err, s) \<leftarrow> kv_mgr_ctl_build s;
            if err \<noteq> KV_ERR_NONE then Some (err, s) else kv_mgr_workspace_locate s })"

definition ln_kv_deinit :: "kv_ctl \<Rightarrow> kv_err \<times> kv_ctl" where
  "ln_kv_deinit s = (KV_ERR_NONE, kv_mgr_ctl_deinit s)"

definition ln_kv_set :: "kv_ctl \<Rightarrow> byte list option \<Rightarrow> byte list option \<Rightarrow> (kv_err \<times> kv_ctl) option" where
  "ln_kv_set s key value =
     (case (key, value) of
        (Some key, Some value) \<Rightarrow>
          if length key \<ge> ones8 \<or> length value \<ge> ones16 then Some (KV_ERR_SIZE_EXCEEDED, s)
          else do {
            (it, s) \<leftarrow> kv_item_find s key;
            (case it of
               Some it \<Rightarrow> kv_item_update s it key value
             | None \<Rightarrow> do { (err, _, s) \<leftarrow> kv_item_save s key value None; Some (err, s) }) }
      | _ \<Rightarrow> Some (KV_ERR_INVALID_PARAM, s))"

text \<open>
  The buffer of \<open>ln_kv_get\<close> is its contents, with its size; \<open>value_len\<close> is the number it points to.
  Either is \<^const>\<open>None\<close> for a null pointer.
\<close>

definition ln_kv_get :: "kv_ctl \<Rightarrow> byte list option \<Rightarrow> byte list option \<Rightarrow> nat
    \<Rightarrow> nat option \<Rightarrow> (kv_err \<times> byte list option \<times> nat option \<times> kv_ctl) option" where
  "ln_kv_get s key value_buf value_buf_size value_len =
     (case (key, value_buf, value_len) of
        (Some key, Some buf, Some len) \<Rightarrow>
          if length key \<ge> ones8 then Some (KV_ERR_SIZE_EXCEEDED, Some buf, Some len, s)
          else do {
            (it, s) \<leftarrow> kv_item_find s key;
            (case it of
               None \<Rightarrow> Some (KV_ERR_NOT_EXIST, Some buf, Some len, s)
             | Some it \<Rightarrow>
                 let k_len = ih_k_len (it_hdr it); v_len = ih_v_len (it_hdr it) in
                 if value_buf_size < v_len then Some (KV_ERR_BUF_TOO_SHORT, Some buf, Some v_len, s)
                 else Some (KV_ERR_NONE, Some (bslice k_len v_len (it_body it) @ drop v_len buf),
                            Some v_len, s)) }
      | _ \<Rightarrow> Some (KV_ERR_INVALID_PARAM, value_buf, value_len, s))"

definition ln_kv_has_key :: "kv_ctl \<Rightarrow> byte list option \<Rightarrow> (nat \<times> kv_ctl) option" where
  "ln_kv_has_key s key =
     (case key of
        None \<Rightarrow> Some (kv_err_code KV_ERR_INVALID_PARAM, s)
      | Some key \<Rightarrow>
          if length key \<ge> ones8 then Some (kv_err_code KV_ERR_SIZE_EXCEEDED, s)
          else do {
            (it, s) \<leftarrow> kv_item_find s key;
            Some (case it of Some _ \<Rightarrow> 1 | None \<Rightarrow> 0, s) })"

definition ln_kv_del :: "kv_ctl \<Rightarrow> byte list option \<Rightarrow> (kv_err \<times> kv_ctl) option" where
  "ln_kv_del s key =
     (case key of
        None \<Rightarrow> Some (KV_ERR_INVALID_PARAM, s)
      | Some key \<Rightarrow>
          if length key \<ge> ones8 then Some (KV_ERR_SIZE_EXCEEDED, s)
          else do {
            (it, s) \<leftarrow> kv_item_find s key;
            (case it of
               None \<Rightarrow> Some (KV_ERR_NOT_EXIST, s)
             | Some it \<Rightarrow> kv_item_delete s it) })"

end
