(* ===== verification/Kv_Block.thy ===== *)
theory Kv_Block
  imports Kv_Store "HOL-Library.Multiset"
begin

text \<open>
  What the key-value store keeps on the flash, stated abstractly.  A block is a list of
  entries (\<open>kv_ent\<close>): its data area holds their encodings one after the other and is erased
  behind them (\<open>blk_holds\<close>).  The lemmas relate the encoding with the header decoder of the
  code, and with the three ways the code changes a block: an item appended, an item marked
  as discarded, a block formatted.

  \<open>clean_bytes\<close> says that user data does not contain the eight bytes of the item magic.
  Under it the magic occurs in a block exactly at the item headers, so a stale position can
  never be taken for an item.
\<close>

section \<open>Entries and their encoding\<close>

record kv_ent =
  e_live :: bool
  e_key :: "byte list"
  e_val :: "byte list"
  e_sum :: nat
  e_prev :: nat

definition magic_bytes :: "byte list" where
  "magic_bytes = [0x69, 0x74, 0x5F, 0x6D, 0x61, 0x67, 0x69, 0x63]"

definition flag_bytes :: "bool \<Rightarrow> byte list" where
  "flag_bytes live = replicate 8 (if live then - 1 else 0x0F)"

definition ent_hdr :: "kv_ent \<Rightarrow> kv_item_hdr" where
  "ent_hdr e = \<lparr>ih_discarded_flag = (if e_live e then ones64 else KV_ITEM_DISCARDED),
     ih_magic = KV_ITEM_HDR_MAGIC, ih_checksum = e_sum e, ih_k_len = length (e_key e),
     ih_v_len = length (e_val e), ih_prev_pos = e_prev e\<rparr>"

definition enc_hdr :: "kv_ent \<Rightarrow> byte list" where
  "enc_hdr e = flag_bytes (e_live e) @ magic_bytes @ kv_item_hdr_tail (ent_hdr e)"

definition enc :: "kv_ent \<Rightarrow> byte list" where
  "enc e = enc_hdr e @ e_key e @ e_val e"

definition esize :: "kv_ent \<Rightarrow> nat" where
  "esize e = 24 + length (e_key e) + length (e_val e)"

definition clean_bytes :: "byte list \<Rightarrow> bool" where
  "clean_bytes bs \<longleftrightarrow> (\<forall>i. i + 8 \<le> length bs \<longrightarrow> bslice i 8 bs \<noteq> magic_bytes)"

definition kv_ok :: "byte list \<Rightarrow> byte list \<Rightarrow> bool" where
  "kv_ok k v \<longleftrightarrow> 0 < length k \<and> length k < 255 \<and> 0 < length v \<and> length v < 65535 \<and> clean_bytes (k @ v)"

definition ent_ok :: "kv_ent \<Rightarrow> bool" where
  "ent_ok e \<longleftrightarrow> kv_ok (e_key e) (e_val e) \<and> e_sum e < 256 \<and> e_prev e < 2 ^ 24
     \<and> (e_live e \<longrightarrow> e_sum e = unat (kv_checksum_crc8 (e_key e @ e_val e)))"

definition ent_kill :: "kv_ent \<Rightarrow> kv_ent" where
  "ent_kill e = e\<lparr>e_live := False\<rparr>"

section \<open>Blocks\<close>

definition ents_size :: "kv_ent list \<Rightarrow> nat" where
  "ents_size its = sum_list (map esize its)"

definition blk_data :: "kv_ent list \<Rightarrow> byte list" where
  "blk_data its = concat (map enc its)"

text \<open>The block of \<open>sect\<close> bytes at \<open>a\<close> holds the entries \<open>its\<close> and is erased behind them.\<close>

definition blk_holds :: "nat \<Rightarrow> nor \<Rightarrow> nat \<Rightarrow> kv_ent list \<Rightarrow> bool" where
  "blk_holds sect fl a its \<longleftrightarrow> 32 + ents_size its \<le> sect \<and> (\<forall>e \<in> set its. ent_ok e)
     \<and> nor_read fl (a + 32) (ents_size its) = blk_data its
     \<and> blank fl (a + 32 + ents_size its) (sect - 32 - ents_size its)"

text \<open>A formatted block that takes part in no unfinished garbage collection.\<close>

definition blk_hdr_ok :: "nor \<Rightarrow> nat \<Rightarrow> bool" where
  "blk_hdr_ok fl a \<longleftrightarrow> nor_read fl a 8 = le_bytes 8 KV_BLK_HDR_MAGIC \<and> blank fl (a + 8) 8
     \<and> (blank fl (a + 24) 8 \<longrightarrow> blank fl (a + 16) 8)"

section \<open>Lemmas\<close>

lemma length_flag_bytes [simp]: "length (flag_bytes l) = 8"
  by (simp add: flag_bytes_def)

lemma length_magic_bytes [simp]: "length magic_bytes = 8"
  by (simp add: magic_bytes_def)

lemma length_hdr_tail [simp]: "length (kv_item_hdr_tail h) = 8"
  by (simp add: kv_item_hdr_tail_def)

lemma length_enc_hdr [simp]: "length (enc_hdr e) = 24"
  by (simp add: enc_hdr_def)

lemma length_enc [simp]: "length (enc e) = esize e"
  by (simp add: enc_def esize_def)

lemma esize_pos [simp]: "0 < esize e"
  by (simp add: esize_def)

lemma esize_ok: "ent_ok e \<Longrightarrow> 26 \<le> esize e"
  by (cases "e_key e"; cases "e_val e") (simp_all add: esize_def ent_ok_def kv_ok_def)

lemma ents_size_simps [simp]:
  "ents_size [] = 0" "ents_size (e # es) = esize e + ents_size es"
  "ents_size (xs @ ys) = ents_size xs + ents_size ys"
  by (simp_all add: ents_size_def)

lemma blk_data_simps [simp]:
  "blk_data [] = []" "blk_data (e # es) = enc e @ blk_data es"
  "blk_data (xs @ ys) = blk_data xs @ blk_data ys"
  by (simp_all add: blk_data_def)

lemma length_blk_data [simp]: "length (blk_data its) = ents_size its"
  by (induction its) simp_all

lemma le_val_magic [simp]: "le_val magic_bytes = KV_ITEM_HDR_MAGIC"
  by (simp add: KV_ITEM_HDR_MAGIC_def magic_bytes_def)

lemma le_bytes_magic: "le_bytes 8 KV_ITEM_HDR_MAGIC = magic_bytes"
  using le_bytes_le_val [of magic_bytes] by simp

lemma le_val_flag [simp]: "le_val (flag_bytes l) = (if l then ones64 else KV_ITEM_DISCARDED)"
proof (cases l)
  case True
  then show ?thesis using le_val_ones [of 8] by (simp add: flag_bytes_def)
next
  case False
  have "replicate 8 (0x0F :: byte) = [0x0F, 0x0F, 0x0F, 0x0F, 0x0F, 0x0F, 0x0F, 0x0F]"
    by (simp add: eval_nat_numeral)
  with False show ?thesis by (simp add: flag_bytes_def KV_ITEM_DISCARDED_def)
qed

lemma le_bytes_discarded: "le_bytes 8 KV_ITEM_DISCARDED = flag_bytes False"
  using le_bytes_le_val [of "flag_bytes False"] by simp

lemma le_val_magic_iff: "length bs = 8 \<Longrightarrow> le_val bs = KV_ITEM_HDR_MAGIC \<longleftrightarrow> bs = magic_bytes"
  using le_val_inj [of bs magic_bytes] by auto

text \<open>The header decoder reads back what the encoder wrote.\<close>

lemma ent_hdr_bounds:
  "ent_ok e \<Longrightarrow> ih_checksum (ent_hdr e) < 256 \<and> ih_k_len (ent_hdr e) < 256
     \<and> ih_v_len (ent_hdr e) < 65536 \<and> ih_prev_pos (ent_hdr e) < 2 ^ 32"
  by (simp add: ent_ok_def kv_ok_def ent_hdr_def)

lemma hdr_decode_enc: "ent_ok e \<Longrightarrow> kv_item_hdr_decode (enc_hdr e) = ent_hdr e"
proof -
  assume ok: "ent_ok e"
  define fs where "fs = flag_bytes (e_live e)"
  define t1 where "t1 = le_bytes 1 (ih_checksum (ent_hdr e))"
  define t2 where "t2 = le_bytes 1 (ih_k_len (ent_hdr e))"
  define t3 where "t3 = le_bytes 2 (ih_v_len (ent_hdr e))"
  define t4 where "t4 = le_bytes 4 (ih_prev_pos (ent_hdr e))"
  have len: "length fs = 8" "length t1 = 1" "length t2 = 1" "length t3 = 2" "length t4 = 4"
    by (simp_all add: fs_def t1_def t2_def t3_def t4_def)
  have e: "enc_hdr e = fs @ magic_bytes @ t1 @ t2 @ t3 @ t4"
    by (simp add: enc_hdr_def kv_item_hdr_tail_def fs_def t1_def t2_def t3_def t4_def)
  have sl: "bslice 0 8 (enc_hdr e) = fs" "bslice 8 8 (enc_hdr e) = magic_bytes"
    "bslice 16 1 (enc_hdr e) = t1" "bslice 17 1 (enc_hdr e) = t2"
    "bslice 18 2 (enc_hdr e) = t3" "bslice 20 4 (enc_hdr e) = t4"
    unfolding e by (simp_all add: bslice_def len)
  have v: "le_val t1 = ih_checksum (ent_hdr e)" "le_val t2 = ih_k_len (ent_hdr e)"
    "le_val t3 = ih_v_len (ent_hdr e)" "le_val t4 = ih_prev_pos (ent_hdr e)"
    using ent_hdr_bounds [OF ok]
    unfolding t1_def t2_def t3_def t4_def le_val_le_bytes by simp_all
  show ?thesis
    unfolding kv_item_hdr_decode_def sl v by (simp add: fs_def ent_hdr_def)
qed

lemma ent_hdr_legal [simp]: "KV_ITEM_IS_LEGAL (ent_hdr e)"
  by (simp add: KV_ITEM_IS_LEGAL_def ent_hdr_def)

lemma ent_hdr_discarded [simp]: "KV_ITEM_IS_DISCARDED (ent_hdr e) \<longleftrightarrow> \<not> e_live e"
  by (simp add: KV_ITEM_IS_DISCARDED_def ent_hdr_def KV_ITEM_DISCARDED_def)

lemma ent_hdr_sel [simp]:
  "ih_k_len (ent_hdr e) = length (e_key e)" "ih_v_len (ent_hdr e) = length (e_val e)"
  "ih_prev_pos (ent_hdr e) = e_prev e" "ih_checksum (ent_hdr e) = e_sum e"
  "ih_magic (ent_hdr e) = KV_ITEM_HDR_MAGIC"
  by (simp_all add: ent_hdr_def)

lemma ent_kill_sel [simp]:
  "e_live (ent_kill e) = False" "e_key (ent_kill e) = e_key e" "e_val (ent_kill e) = e_val e"
  "esize (ent_kill e) = esize e"
  by (simp_all add: ent_kill_def esize_def)

lemma ent_ok_kill: "ent_ok e \<Longrightarrow> ent_ok (ent_kill e)"
  by (simp add: ent_ok_def ent_kill_def)

text \<open>An erased header is the fresh one.\<close>

lemma hdr_decode_blank:
  "\<not> KV_ITEM_IS_LEGAL (kv_item_hdr_decode (replicate 24 (- 1)))"
  "KV_ITEM_IS_FRESH (kv_item_hdr_decode (replicate 24 (- 1)))"
proof -
  have r: "a + n \<le> 24 \<Longrightarrow> bslice a n (replicate 24 (- 1 :: byte)) = replicate n (- 1)" for a n
    by (simp add: bslice_def)
  show "\<not> KV_ITEM_IS_LEGAL (kv_item_hdr_decode (replicate 24 (- 1)))"
    by (simp add: kv_item_hdr_decode_def r KV_ITEM_IS_LEGAL_def le_val_ones KV_ITEM_HDR_MAGIC_def)
  show "KV_ITEM_IS_FRESH (kv_item_hdr_decode (replicate 24 (- 1)))"
    using le_val_ones [of 1] by (simp add: kv_item_hdr_decode_def r KV_ITEM_IS_FRESH_def le_val_ones)
qed

section \<open>Reading a block\<close>

lemma enc_parts: "bslice 0 24 (enc e) = enc_hdr e" "bslice 24 (length (e_key e) + length (e_val e)) (enc e) = e_key e @ e_val e"
  by (simp_all add: enc_def bslice_def)

lemma blk_holds_split:
  assumes "blk_holds sect fl a (xs @ e # ys)"
  shows "nor_read fl (a + 32 + ents_size xs) (esize e) = enc e" and "ent_ok e"
    and "32 + ents_size xs + esize e \<le> sect"
proof -
  from assms have rd: "nor_read fl (a + 32) (ents_size (xs @ e # ys)) = blk_data (xs @ e # ys)"
    and ok: "\<forall>e \<in> set (xs @ e # ys). ent_ok e" and sz: "32 + ents_size (xs @ e # ys) \<le> sect"
    by (simp_all add: blk_holds_def)
  have "bslice (ents_size xs) (esize e) (nor_read fl (a + 32) (ents_size (xs @ e # ys)))
      = bslice (ents_size xs) (esize e) (blk_data (xs @ e # ys))"
    by (simp only: rd)
  then show "nor_read fl (a + 32 + ents_size xs) (esize e) = enc e"
    by (simp add: bslice_def)
  from ok show "ent_ok e" by simp
  from sz show "32 + ents_size xs + esize e \<le> sect" by simp
qed

lemma blk_read_hdr:
  assumes "blk_holds sect fl a (xs @ e # ys)"
  shows "kv_item_hdr_decode (nor_read fl (a + 32 + ents_size xs) 24) = ent_hdr e"
proof -
  have "nor_read fl (a + 32 + ents_size xs) 24 = enc_hdr e"
    using arg_cong [OF blk_holds_split(1) [OF assms], of "bslice 0 24"]
    by (simp add: enc_parts esize_def)
  then show ?thesis using blk_holds_split(2) [OF assms] by (simp add: hdr_decode_enc)
qed

lemma blk_read_body:
  assumes "blk_holds sect fl a (xs @ e # ys)"
  shows "nor_read fl (a + 32 + ents_size xs + 24) (length (e_key e) + length (e_val e)) = e_key e @ e_val e"
  using arg_cong [OF blk_holds_split(1) [OF assms], of "bslice 24 (length (e_key e) + length (e_val e))"]
  by (simp add: enc_parts esize_def)

lemma blk_holds_free:
  assumes "blk_holds sect fl a its" and "32 + ents_size its + k + n \<le> sect"
  shows "blank fl (a + 32 + ents_size its + k) n"
proof (rule blank_sub)
  show "blank fl (a + 32 + ents_size its) (sect - 32 - ents_size its)"
    using assms(1) by (simp add: blk_holds_def)
  have "k + n \<le> sect - 32 - ents_size its" using assms(2) by linarith
  then show "a + 32 + ents_size its + k + n \<le> a + 32 + ents_size its + (sect - 32 - ents_size its)"
    by linarith
qed simp

lemma blk_read_end:
  "blk_holds sect fl a its \<Longrightarrow> 32 + ents_size its + n \<le> sect \<Longrightarrow>
   nor_read fl (a + 32 + ents_size its) n = replicate n (- 1)"
  using blk_holds_free [of sect fl a its 0 n] by (simp add: nor_read_blank)

section \<open>Changing a block\<close>

lemma blk_holds_cong:
  assumes "blk_holds sect fl a its" and "\<And>x. a + 32 \<le> x \<Longrightarrow> x < a + sect \<Longrightarrow> gl x = fl x"
  shows "blk_holds sect gl a its"
proof -
  from assms have sz: "32 + ents_size its \<le> sect" by (simp add: blk_holds_def)
  then have "nor_read gl (a + 32) (ents_size its) = nor_read fl (a + 32) (ents_size its)"
    using assms(2) by (intro nor_read_cong) simp
  moreover have "blank gl (a + 32 + ents_size its) (sect - 32 - ents_size its)
      = blank fl (a + 32 + ents_size its) (sect - 32 - ents_size its)"
    using assms(2) sz by (intro blank_cong) simp
  ultimately show ?thesis using assms(1) by (simp add: blk_holds_def)
qed

lemma blk_holds_blank: "32 \<le> sect \<Longrightarrow> blank fl (a + 32) (sect - 32) \<Longrightarrow> blk_holds sect fl a []"
  by (simp add: blk_holds_def)

lemma blk_holds_append:
  assumes "blk_holds sect fl a its" and "ent_ok e" and "32 + ents_size its + esize e \<le> sect"
    and "nor_read gl (a + 32 + ents_size its) (esize e) = enc e"
    and "\<And>x. x < a + 32 + ents_size its \<or> a + 32 + ents_size its + esize e \<le> x \<Longrightarrow> gl x = fl x"
  shows "blk_holds sect gl a (its @ [e])"
proof -
  have "nor_read gl (a + 32) (ents_size its) = nor_read fl (a + 32) (ents_size its)"
    using assms(5) by (intro nor_read_cong) simp
  then have "nor_read gl (a + 32) (ents_size (its @ [e])) = blk_data (its @ [e])"
    using assms(1,4) by (simp add: nor_read_add blk_holds_def)
  moreover have "blank gl (a + 32 + ents_size its + esize e) (sect - 32 - ents_size its - esize e)
      = blank fl (a + 32 + ents_size its + esize e) (sect - 32 - ents_size its - esize e)"
    using assms(5) by (intro blank_cong) simp
  moreover have "blank fl (a + 32 + ents_size its + esize e) (sect - 32 - ents_size its - esize e)"
    using assms(1) by (rule blk_holds_free) (use assms(3) in linarith)
  ultimately show ?thesis
    using assms(1-3) by (simp add: blk_holds_def add.assoc)
qed

text \<open>The three writes of \<open>kv_item_write\<close> into an erased slot produce the encoding of a live entry.\<close>

definition item_cells :: "nor \<Rightarrow> nat \<Rightarrow> kv_ent \<Rightarrow> nor" where
  "item_cells fl p e = nor_write (nor_write (nor_write fl (p + 16) (kv_item_hdr_tail (ent_hdr e)))
     (p + 8) magic_bytes) (p + 24) (e_key e @ e_val e)"

lemma item_cells_other: "x < p \<or> p + esize e \<le> x \<Longrightarrow> item_cells fl p e x = fl x"
  by (auto simp: item_cells_def esize_def nor_write_other)

lemma item_cells_read:
  assumes "blank fl p (esize e)" and "e_live e"
  shows "nor_read (item_cells fl p e) p (esize e) = enc e"
proof -
  let ?g = "item_cells fl p e"
  let ?n = "length (e_key e) + length (e_val e)"
  have "nor_read ?g p (8 + (8 + (8 + ?n)))
      = nor_read ?g p 8 @ nor_read ?g (p + 8) 8 @ nor_read ?g (p + 8 + 8) 8 @ nor_read ?g (p + 8 + 8 + 8) ?n"
    by (simp only: nor_read_add)
  moreover have "esize e = 8 + (8 + (8 + ?n))" "p + 8 + 8 = p + 16" "p + 16 + 8 = p + 24"
    by (simp_all add: esize_def)
  ultimately have split: "nor_read ?g p (esize e)
      = nor_read ?g p 8 @ nor_read ?g (p + 8) 8 @ nor_read ?g (p + 16) 8 @ nor_read ?g (p + 24) ?n"
    by (simp only:)
  have b: "blank fl (p + j) m" if "j + m \<le> esize e" for j m
    using blank_sub [OF assms(1), of "p + j" m] that by simp
  have "nor_read ?g p 8 = flag_bytes True"
  proof -
    have "nor_read ?g p 8 = nor_read fl p 8"
      by (simp add: item_cells_def nor_read_write_other)
    also have "\<dots> = replicate 8 (- 1)"
      using b [of 0 8] by (simp add: nor_read_blank esize_def)
    finally show ?thesis by (simp add: flag_bytes_def)
  qed
  moreover have "nor_read ?g (p + 8) 8 = magic_bytes"
  proof -
    have "blank (nor_write fl (p + 16) (kv_item_hdr_tail (ent_hdr e))) (p + 8) 8"
      using b [of 8 8] by (simp add: blank_write_other esize_def)
    then show ?thesis
      using nor_read_write_blank [of _ "p + 8" magic_bytes]
      by (simp add: item_cells_def nor_read_write_other)
  qed
  moreover have "nor_read ?g (p + 16) 8 = kv_item_hdr_tail (ent_hdr e)"
    using b [of 16 8] nor_read_write_blank [of fl "p + 16" "kv_item_hdr_tail (ent_hdr e)"]
    by (simp add: item_cells_def nor_read_write_other esize_def)
  moreover have "nor_read ?g (p + 24) ?n = e_key e @ e_val e"
  proof -
    have "blank (nor_write (nor_write fl (p + 16) (kv_item_hdr_tail (ent_hdr e))) (p + 8) magic_bytes)
        (p + 24) (length (e_key e @ e_val e))"
      using b [of 24 ?n] by (simp add: blank_write_other esize_def)
    then show ?thesis
      using nor_read_write_blank [of _ "p + 24" "e_key e @ e_val e"] by (simp add: item_cells_def)
  qed
  ultimately show ?thesis
    using assms(2) by (simp add: split enc_def enc_hdr_def)
qed

lemma blk_holds_item_cells:
  assumes "blk_holds sect fl a its" and "ent_ok e" and "e_live e" and "32 + ents_size its + esize e \<le> sect"
  shows "blk_holds sect (item_cells fl (a + 32 + ents_size its) e) a (its @ [e])"
proof (rule blk_holds_append [OF assms(1,2,4)])
  have "blank fl (a + 32 + ents_size its) (esize e)"
    using blk_holds_free [OF assms(1), of 0 "esize e"] assms(4) by simp
  then show "nor_read (item_cells fl (a + 32 + ents_size its) e) (a + 32 + ents_size its) (esize e) = enc e"
    using assms(3) by (rule item_cells_read)
qed (rule item_cells_other)

text \<open>Writing the discarded flag over the erased flag of an item.\<close>

definition kill_cells :: "nor \<Rightarrow> nat \<Rightarrow> nor" where
  "kill_cells fl p = nor_write fl p (flag_bytes False)"

lemma kill_cells_other: "x < p \<or> p + 8 \<le> x \<Longrightarrow> kill_cells fl p x = fl x"
  by (auto simp: kill_cells_def nor_write_other)

lemma enc_kill: "enc (ent_kill e) = flag_bytes False @ drop 8 (enc e)"
  by (simp add: enc_def enc_hdr_def ent_hdr_def ent_kill_def kv_item_hdr_tail_def)

lemma enc_flag: "e_live e \<Longrightarrow> take 8 (enc e) = replicate 8 (- 1)"
  by (simp add: enc_def enc_hdr_def flag_bytes_def)

lemma blk_holds_kill:
  assumes h: "blk_holds sect fl a (xs @ e # ys)" and live: "e_live e"
  shows "blk_holds sect (kill_cells fl (a + 32 + ents_size xs)) a (xs @ ent_kill e # ys)"
proof -
  let ?p = "a + 32 + ents_size xs"
  let ?g = "kill_cells fl ?p"
  have sz: "8 \<le> esize e" by (simp add: esize_def)
  have rd: "nor_read fl ?p (esize e) = enc e" by (rule blk_holds_split(1) [OF h])
  have fl8: "nor_read fl ?p 8 = replicate 8 (- 1)"
    using arg_cong [OF rd, of "take 8"] sz live by (simp add: enc_flag)
  have r0: "nor_read ?g ?p 8 = flag_bytes False"
    using fl8 nor_read_write_blank [of fl ?p "flag_bytes False"] by (simp add: kill_cells_def blank_iff_read)
  have r1: "nor_read ?g ?p (esize e) = enc (ent_kill e)"
  proof -
    have "nor_read ?g ?p (8 + (esize e - 8)) = nor_read ?g ?p 8 @ nor_read ?g (?p + 8) (esize e - 8)"
      by (rule nor_read_add)
    also have "nor_read ?g (?p + 8) (esize e - 8) = nor_read fl (?p + 8) (esize e - 8)"
      by (rule nor_read_cong) (simp add: kill_cells_other)
    also have "\<dots> = drop 8 (enc e)"
      using arg_cong [OF rd, of "drop 8"] sz by simp
    finally show ?thesis using sz r0 by (simp add: enc_kill)
  qed
  have full: "nor_read fl (a + 32) (ents_size (xs @ e # ys)) = blk_data (xs @ e # ys)"
    using h by (simp add: blk_holds_def)
  have pre: "nor_read ?g (a + 32) (ents_size xs) = blk_data xs"
  proof -
    have "nor_read ?g (a + 32) (ents_size xs) = nor_read fl (a + 32) (ents_size xs)"
      by (rule nor_read_cong) (simp add: kill_cells_other)
    also have "\<dots> = blk_data xs"
      using arg_cong [OF full, of "take (ents_size xs)"] by simp
    finally show ?thesis .
  qed
  have post: "nor_read ?g (?p + esize e) (ents_size ys) = blk_data ys"
  proof -
    have "nor_read ?g (?p + esize e) (ents_size ys) = nor_read fl (?p + esize e) (ents_size ys)"
      using sz by (intro nor_read_cong) (simp add: kill_cells_other)
    also have "\<dots> = blk_data ys"
      using arg_cong [OF full, of "drop (ents_size xs + esize e)"] by (simp add: add.assoc)
    finally show ?thesis .
  qed
  have "nor_read ?g (a + 32) (ents_size xs + (esize e + ents_size ys))
      = nor_read ?g (a + 32) (ents_size xs) @ nor_read ?g ?p (esize e) @ nor_read ?g (?p + esize e) (ents_size ys)"
    by (simp only: nor_read_add)
  then have all: "nor_read ?g (a + 32) (ents_size (xs @ ent_kill e # ys)) = blk_data (xs @ ent_kill e # ys)"
    by (simp add: pre r1 post)
  have bl: "blank ?g (a + 32 + (ents_size xs + (esize e + ents_size ys)))
        (sect - 32 - (ents_size xs + (esize e + ents_size ys)))
      = blank fl (a + 32 + (ents_size xs + (esize e + ents_size ys)))
        (sect - 32 - (ents_size xs + (esize e + ents_size ys)))"
    using sz by (intro blank_cong) (simp add: kill_cells_other)
  show ?thesis
    using h all bl unfolding blk_holds_def by (auto simp: ent_ok_kill)
qed

section \<open>Where the item magic occurs\<close>

lemma magic_bytes_neq: "b \<in> set magic_bytes \<Longrightarrow> b \<noteq> - 1 \<and> b \<noteq> 0x0F \<and> b \<noteq> 0"
  by (auto simp: magic_bytes_def)

lemma magic_byte_at:
  assumes "bslice q 8 r = magic_bytes" and "q \<le> j" and "j < q + 8" and "q + 8 \<le> length r"
  shows "r ! j = magic_bytes ! (j - q)" and "r ! j \<noteq> - 1" and "r ! j \<noteq> 0x0F" and "r ! j \<noteq> 0"
proof -
  have "r ! j = bslice q 8 r ! (j - q)"
    using assms(2-4) by (simp add: nth_bslice)
  then show r: "r ! j = magic_bytes ! (j - q)" by (simp only: assms(1))
  have "magic_bytes ! (j - q) \<in> set magic_bytes"
    using assms(2,3) by (intro nth_mem) simp
  then show "r ! j \<noteq> - 1" and "r ! j \<noteq> 0x0F" and "r ! j \<noteq> 0"
    using magic_bytes_neq r by auto
qed

lemma enc_nth_flag: "j < 8 \<Longrightarrow> enc e ! j = - 1 \<or> enc e ! j = 0x0F"
  by (simp add: enc_def enc_hdr_def nth_append flag_bytes_def)

lemma enc_nth_magic: "8 \<le> j \<Longrightarrow> j < 16 \<Longrightarrow> enc e ! j = magic_bytes ! (j - 8)"
proof -
  assume "8 \<le> j" and "j < 16"
  then have "j - 8 < 8" and "\<not> j < 8" by linarith+
  then show ?thesis by (simp add: enc_def enc_hdr_def nth_append)
qed

lemma enc_nth_prev: "ent_ok e \<Longrightarrow> enc e ! 23 = 0"
proof -
  assume "ent_ok e"
  then have "e_prev e div 16777216 = 0" by (simp add: ent_ok_def)
  moreover have "le_bytes 4 (e_prev e) ! 3 = of_nat (e_prev e div 256 ^ 3)"
    by (rule nth_le_bytes) simp
  ultimately have "le_bytes 4 (e_prev e) ! 3 = 0" by simp
  moreover have "length (le_bytes 1 (e_sum e) @ le_bytes 1 (length (e_key e)) @ le_bytes 2 (length (e_val e))) = 4"
    by simp
  ultimately show ?thesis
    by (simp add: enc_def enc_hdr_def nth_append kv_item_hdr_tail_def del: le_bytes.simps)
qed

lemma magic_nth_first: "j < 8 \<Longrightarrow> magic_bytes ! j = magic_bytes ! 0 \<Longrightarrow> j = 0 \<or> j = 6"
  by (auto simp: magic_bytes_def nth_Cons' split: if_splits)

lemma magic_in_enc:
  assumes ok: "ent_ok e" and m: "bslice q 8 (enc e) = magic_bytes" and q: "q + 8 \<le> esize e"
  shows "q = 8"
proof -
  note at = magic_byte_at [OF m]
  have "\<not> q < 8"
  proof
    assume "q < 8"
    then have "enc e ! 7 \<noteq> - 1" "enc e ! 7 \<noteq> 0x0F" using at(2,3) [of 7] q by simp_all
    then show False using enc_nth_flag [of 7 e] by simp
  qed
  moreover have "\<not> (8 < q \<and> q < 16)"
  proof
    assume b: "8 < q \<and> q < 16"
    then have "magic_bytes ! (q - 8) = magic_bytes ! 0"
      using at(1) [of q] enc_nth_magic [of q e] q by simp
    moreover have "q - 8 < 8" "q - 8 \<noteq> 0" using b by linarith+
    ultimately have "q - 8 = 6" using magic_nth_first [of "q - 8"] by metis
    then have "q = 14" by linarith
    then have "magic_bytes ! 7 = magic_bytes ! 1"
      using at(1) [of 15] enc_nth_magic [of 15 e] q by simp
    then show False by (simp add: magic_bytes_def)
  qed
  moreover have "\<not> (16 \<le> q \<and> q < 24)"
  proof
    assume "16 \<le> q \<and> q < 24"
    then have "enc e ! 23 \<noteq> 0" using at(4) [of 23] q by simp
    then show False using enc_nth_prev [OF ok] by simp
  qed
  moreover have "\<not> 24 \<le> q"
  proof
    assume b: "24 \<le> q"
    then have "bslice (q - 24) 8 (e_key e @ e_val e) = magic_bytes"
      using m by (simp add: enc_def)
    then show False
      using ok b q by (auto simp: ent_ok_def kv_ok_def clean_bytes_def esize_def)
  qed
  ultimately show ?thesis by linarith
qed

lemma magic_position:
  "\<forall>e \<in> set its. ent_ok e \<Longrightarrow> bslice q 8 (blk_data its @ replicate r (- 1)) = magic_bytes \<Longrightarrow>
   q + 8 \<le> ents_size its + r \<Longrightarrow> \<exists>xs e ys. its = xs @ e # ys \<and> q = ents_size xs + 8"
proof (induction its arbitrary: q)
  case Nil
  then have "replicate r (- 1 :: byte) ! q \<noteq> - 1"
    using magic_byte_at(2) [of q "replicate r (- 1)" q] by simp
  with Nil show ?case by simp
next
  case (Cons e its)
  let ?R = "blk_data its @ replicate r (- 1)"
  have m: "bslice q 8 (enc e @ ?R) = magic_bytes" using Cons.prems(2) by simp
  consider "q + 8 \<le> esize e" | "esize e \<le> q" | "q < esize e" "esize e < q + 8" by linarith
  then show ?case
  proof cases
    case 1
    then have "q = 8" using magic_in_enc [of e q] m Cons.prems(1) by simp
    then show ?thesis by (intro exI [of _ "[]"]) auto
  next
    case 2
    then have "bslice (q - esize e) 8 ?R = magic_bytes" using m by simp
    moreover have "q - esize e + 8 \<le> ents_size its + r" using 2 Cons.prems(3) by simp
    ultimately obtain xs e' ys where "its = xs @ e' # ys" "q - esize e = ents_size xs + 8"
      using Cons.IH [of "q - esize e"] Cons.prems(1) by auto
    with 2 show ?thesis by (intro exI [of _ "e # xs"]) auto
  next
    case 3
    have len: "length (enc e @ ?R) = esize e + (ents_size its + r)" by simp
    have "?R ! 0 = (enc e @ ?R) ! esize e" by (simp add: nth_append)
    then have "?R ! 0 \<noteq> - 1" "?R ! 0 \<noteq> 0x0F"
      using magic_byte_at(2,3) [OF m, of "esize e"] 3 Cons.prems(3) len by simp_all
    moreover have "?R ! 0 = - 1 \<or> ?R ! 0 = 0x0F"
    proof (cases its)
      case Nil
      then have "0 < r" using 3 Cons.prems(3) by simp
      with Nil show ?thesis by simp
    next
      case (Cons e1 its1)
      then show ?thesis using enc_nth_flag [of 0 e1] by (simp add: nth_append)
    qed
    ultimately show ?thesis by simp
  qed
qed

text \<open>So a legal header read anywhere in the data area of a block is the header of an entry.\<close>

lemma legal_hdr_position:
  assumes h: "blk_holds sect fl a its" and p: "a + 32 \<le> p" "p + 24 \<le> a + sect"
    and legal: "KV_ITEM_IS_LEGAL (kv_item_hdr_decode (nor_read fl p 24))"
  shows "\<exists>xs e ys. its = xs @ e # ys \<and> p = a + 32 + ents_size xs"
proof -
  define r where "r = sect - 32 - ents_size its"
  have sz: "32 + ents_size its \<le> sect" using h by (simp add: blk_holds_def)
  then have r: "sect - 32 = ents_size its + r" by (simp add: r_def)
  have region: "nor_read fl (a + 32) (sect - 32) = blk_data its @ replicate r (- 1)"
    using h unfolding r nor_read_add by (simp add: blk_holds_def nor_read_blank r_def)
  define q where "q = p - (a + 32)"
  have q: "p = a + 32 + q" "q + 24 \<le> sect - 32" using p by (simp_all add: q_def)
  have "bslice 8 8 (nor_read fl p 24) = magic_bytes"
    using legal by (simp add: KV_ITEM_IS_LEGAL_def kv_item_hdr_decode_def le_val_magic_iff del: bslice_nor_read)
  then have "bslice (q + 8) 8 (nor_read fl (a + 32) (sect - 32)) = magic_bytes"
    using q by (simp add: add.assoc)
  then have "\<exists>xs e ys. its = xs @ e # ys \<and> q + 8 = ents_size xs + 8"
    unfolding region
  proof (intro magic_position)
    show "\<forall>e \<in> set its. ent_ok e" using h by (simp add: blk_holds_def)
    show "q + 8 + 8 \<le> ents_size its + r" using q(2) r by linarith
  qed assumption
  with q show ?thesis by auto
qed

end
