(* ===== verification/Kv_Index.thy ===== *)
theory Kv_Index
  imports Kv_Block
begin

text \<open>
  The block index of the key-value store and the geometry of its partition.  The locale
  \<open>kv_store\<close> fixes a driver that keeps the contract of \<^theory_text>\<open>nor_driver\<close> and a partition of \<open>n\<close>
  blocks of \<open>sect = 2 ^ lg\<close> bytes from \<open>st\<close> on; inside it the macros of the header file compute.
  \<open>idx_ok\<close> is what one entry of the block index says about its block.
\<close>

section \<open>Definitions\<close>

text \<open>The part of the control block that the operations never change.\<close>

definition kv_geo :: "flash_drv \<Rightarrow> nat \<Rightarrow> nat \<Rightarrow> nat \<Rightarrow> kv_ctl \<Rightarrow> bool" where
  "kv_geo drv lg st n s \<longleftrightarrow> kv_flash_drv s = drv \<and> kv_flash_write_align s = 1 \<and> kv_mem s = []
     \<and> kv_sector_size_log2 s = lg \<and> kv_flash_start s = st \<and> kv_flash_end s = st + n * 2 ^ lg"

definition idx_ok :: "nat \<Rightarrow> kv_blk_detail \<Rightarrow> kv_ent list \<Rightarrow> bool" where
  "idx_ok sect d its \<longleftrightarrow> (bit (blk_flags d) 0 \<longrightarrow> blk_flags d = KV_BLK_FLAG_FRESH \<and> its = [])
     \<and> \<not> bit (blk_flags d) 3 \<and> \<not> bit (blk_flags d) 4
     \<and> (free_size d = sect - 32 - ents_size its \<or> (sect - 32 - ents_size its \<le> 24 \<and> free_size d = 0))"

section \<open>Flag words\<close>

named_theorems flag_simps \<open>tests and updates of the block flags\<close>

lemma and_exp_neq_0: "(f AND 2 ^ k \<noteq> (0 :: byte)) \<longleftrightarrow> bit f k"
  by (simp add: and_exp_eq_0_iff_not_bit)

lemma flag_tests [flag_simps]:
  "f AND KV_BLK_FLAG_FRESH \<noteq> 0 \<longleftrightarrow> bit f 0" "f AND KV_BLK_FLAG_INUSE \<noteq> 0 \<longleftrightarrow> bit f 1"
  "f AND KV_BLK_FLAG_DIRTY \<noteq> 0 \<longleftrightarrow> bit f 2" "f AND KV_BLK_FLAG_BAD \<noteq> 0 \<longleftrightarrow> bit f 3"
  "f AND KV_BLK_FLAG_HANGING \<noteq> 0 \<longleftrightarrow> bit f 4"
  using and_exp_neq_0 [of f 0] and_exp_neq_0 [of f 1] and_exp_neq_0 [of f 2]
    and_exp_neq_0 [of f 3] and_exp_neq_0 [of f 4]
  by (simp_all add: KV_BLK_FLAG_FRESH_def KV_BLK_FLAG_INUSE_def KV_BLK_FLAG_DIRTY_def
      KV_BLK_FLAG_BAD_def KV_BLK_FLAG_HANGING_def)

lemma flag_masks:
  "KV_BLK_FLAG_FRESH = 2 ^ 0" "KV_BLK_FLAG_INUSE = 2 ^ 1" "KV_BLK_FLAG_DIRTY = 2 ^ 2"
  "KV_BLK_FLAG_BAD = 2 ^ 3" "KV_BLK_FLAG_HANGING = 2 ^ 4"
  by (simp_all add: KV_BLK_FLAG_FRESH_def KV_BLK_FLAG_INUSE_def KV_BLK_FLAG_DIRTY_def
      KV_BLK_FLAG_BAD_def KV_BLK_FLAG_HANGING_def)

lemma bit_or_exp: "bit (f OR 2 ^ m :: byte) k \<longleftrightarrow> bit f k \<or> (k = m \<and> m < 8)"
  by (auto simp: bit_simps)

lemma bit_and_not_exp: "bit (f AND NOT (2 ^ m) :: byte) k \<longleftrightarrow> bit f k \<and> k \<noteq> m"
proof -
  have "bit f k \<Longrightarrow> k < 8" using bit_imp_le_length [of f k] by simp
  then show ?thesis by (auto simp: bit_simps)
qed

lemma flag_updates [flag_simps]:
  "bit (f OR KV_BLK_FLAG_INUSE) k \<longleftrightarrow> bit f k \<or> k = 1"
  "bit (f OR KV_BLK_FLAG_DIRTY) k \<longleftrightarrow> bit f k \<or> k = 2"
  "bit (f OR KV_BLK_FLAG_HANGING) k \<longleftrightarrow> bit f k \<or> k = 4"
  "bit (f AND NOT KV_BLK_FLAG_FRESH) k \<longleftrightarrow> bit f k \<and> k \<noteq> 0"
  "bit (f AND NOT KV_BLK_FLAG_INUSE) k \<longleftrightarrow> bit f k \<and> k \<noteq> 1"
  "bit (f AND NOT KV_BLK_FLAG_HANGING) k \<longleftrightarrow> bit f k \<and> k \<noteq> 4"
  "bit KV_BLK_FLAG_FRESH k \<longleftrightarrow> k = 0"
  unfolding flag_masks bit_or_exp bit_and_not_exp by (auto simp: bit_exp_iff bit_1_iff)

lemma bit_flag_inuse [flag_simps]: "bit KV_BLK_FLAG_INUSE k \<longleftrightarrow> k = 1"
  unfolding flag_masks bit_exp_iff by auto

section \<open>The geometry\<close>

locale kv_store = nor_driver drv lim sect for drv lim sect +
  fixes lg st n :: nat
  assumes sect: "2 ^ lg = sect" and sect64: "64 \<le> sect"
    and aligned: "sect dvd st" and lim: "st + n * sect \<le> lim"
    and small: "st + n * sect < 2 ^ 24" and n_pos: "0 < n" and n_small: "n < 65536"
begin

abbreviation geo :: "kv_ctl \<Rightarrow> bool" where
  "geo \<equiv> kv_geo drv lg st n"

abbreviation blk :: "nat \<Rightarrow> nat" where
  "blk i \<equiv> st + i * sect"

lemma geo_upd [simp]:
  "geo (s\<lparr>kv_cells := x\<rparr>) = geo s" "geo (s\<lparr>kv_workspace := w\<rparr>) = geo s"
  "geo (s\<lparr>kv_num_fresh := a\<rparr>) = geo s" "geo (s\<lparr>kv_num_inuse := a\<rparr>) = geo s"
  "geo (s\<lparr>kv_num_hanging := a\<rparr>) = geo s" "geo (s\<lparr>kv_detail := d\<rparr>) = geo s"
  by (simp_all add: kv_geo_def)

lemma geo_sel:
  assumes "geo s"
  shows "kv_flash_drv s = drv" "kv_flash_write_align s = 1" "kv_mem s = []"
    "2 ^ kv_sector_size_log2 s = sect" "kv_flash_start s = st" "kv_flash_end s = st + n * sect"
  using assms sect by (simp_all add: kv_geo_def)

lemma malloc_ok [simp]: "geo s \<Longrightarrow> ln_kv_malloc s = (True, s)"
  by (simp add: ln_kv_malloc_def geo_sel)

lemma and_zero_nat [simp]: "(x :: nat) AND 0 = 0"
  by simp

lemma align_up_1: "KV_ALIGN_UP v 1 = v"
  by (simp add: KV_ALIGN_UP_def)

lemma geo_sizes [simp]:
  assumes "geo s"
  shows "KV_BLK_SIZE s = sect" "KV_ITEM_HDR_SIZE s = 24" "KV_ITEM_BODY_SIZE s k v = k + v"
    "KV_ITEM_SIZE s k v = 24 + (k + v)" "KV_BLK_HDR_SIZE s = 32" "KV_BLK_END s b = b + sect"
    "KV_BLK_FIRST_ITEM s b = b + 32"
  using geo_sel [OF assms] align_up_1
  by (simp_all add: KV_BLK_SIZE_def KV_FLASH_SECTOR_SIZE_def KV_ITEM_HDR_SIZE_def KV_ALIGNED_SIZE_def
      KV_ITEM_BODY_SIZE_def KV_ITEM_SIZE_def KV_BLK_HDR_SIZE_def KV_BLK_END_def KV_BLK_FIRST_ITEM_def
      sizeof_kv_item_hdr_def sizeof_kv_blk_hdr_def)

lemma sect_small: "sect < 2 ^ 24"
  using small n_pos by (cases n) auto

lemma blk_end: "i < n \<Longrightarrow> blk i + sect \<le> st + n * sect"
proof -
  assume "i < n"
  then have "Suc i * sect \<le> n * sect" by (intro mult_le_mono1) simp
  then show ?thesis by simp
qed

lemma blk_lim: "i < n \<Longrightarrow> blk i + sect \<le> lim"
  using blk_end [of i] lim by linarith

lemma blk_small: "i < n \<Longrightarrow> blk i + sect < 2 ^ 24"
  using blk_end [of i] small by linarith

lemma blk_aligned: "sect dvd blk i"
  using aligned by simp

lemma blk_sep: "i < j \<Longrightarrow> blk i + sect \<le> blk j"
proof -
  assume "i < j"
  then have "Suc i * sect \<le> j * sect" by (intro mult_le_mono1) simp
  then show ?thesis by simp
qed

lemma blk_disjoint: "i \<noteq> j \<Longrightarrow> blk i + sect \<le> blk j \<or> blk j + sect \<le> blk i"
  using blk_sep [of i j] blk_sep [of j i] by linarith

lemma blk_inj [simp]: "blk i = blk j \<longleftrightarrow> i = j"
  using blk_disjoint [of i j] sect64 by auto

lemma fresh_size [simp]: "geo s \<Longrightarrow> KV_BLK_FRESH_SIZE s = sect - 32"
  using sect64 sect_small by (simp add: KV_BLK_FRESH_SIZE_def sub_u32_noborrow)

lemma addr2idx [simp]: "geo s \<Longrightarrow> i < n \<Longrightarrow> KV_BLK_ADDR2IDX s (blk i) = i"
  using blk_small [of i] sect64 by (simp add: KV_BLK_ADDR2IDX_def geo_sel sub_u32_noborrow)

lemma item_addr2blk [simp]:
  assumes "geo s" and "i < n" and "blk i \<le> p" and "p < blk i + sect"
  shows "KV_ITEM_ADDR2BLK s p = blk i"
proof -
  define d where "d = p - blk i"
  have p: "p = blk i + d" and d: "d < sect" using assms(3,4) by (simp_all add: d_def)
  have "sub_u32 p st = i * sect + d"
    using assms blk_small [of i] by (simp add: p sub_u32_noborrow)
  moreover have "(i * sect + d) AND (sect - 1) = d"
  proof -
    have "(i * sect + d) AND (sect - 1) = (i * sect + d) mod sect"
      using take_bit_eq_mask [of lg "i * sect + d"]
      by (simp add: take_bit_eq_mod mask_eq_exp_minus_1 sect)
    then show ?thesis using d by simp
  qed
  ultimately show ?thesis
    using assms(1) by (simp add: KV_ITEM_ADDR2BLK_def KV_ALIGN_DOWN_def geo_sel)
qed

lemma for_each [simp]: "geo s \<Longrightarrow> KV_BLK_FOR_EACH s = map blk [0..<n]"
proof -
  assume g: "geo s"
  define d where "d = sect - 1"
  have "d < sect" using sect64 by (simp add: d_def)
  then have "(n * sect + d) div sect = n" by simp
  then have "(n * sect + (sect - 1)) div sect = n" by (simp only: d_def)
  moreover have "kv_flash_end s - kv_flash_start s + KV_BLK_SIZE s - 1 = n * sect + (sect - 1)"
    using g sect64 by (simp add: geo_sel)
  ultimately show ?thesis using g by (simp add: KV_BLK_FOR_EACH_def geo_sel)
qed

lemma next_blk [simp]: "geo s \<Longrightarrow> i < n \<Longrightarrow> KV_BLK_NEXT s (blk i) = blk (Suc i mod n)"
proof -
  assume "geo s" and i: "i < n"
  show ?thesis
  proof (cases "Suc i = n")
    case True
    then have "blk i + sect = st + n * sect" by (metis add.assoc add.commute mult_Suc)
    with True \<open>geo s\<close> show ?thesis by (simp add: KV_BLK_NEXT_def geo_sel)
  next
    case False
    with i have "Suc i < n" by simp
    then have "blk (Suc i) < st + n * sect" using blk_end [of "Suc i"] sect64 by linarith
    with \<open>geo s\<close> \<open>Suc i < n\<close> show ?thesis by (simp add: KV_BLK_NEXT_def geo_sel add.assoc add.commute)
  qed
qed

lemma blk_not_invalid: "i < n \<Longrightarrow> blk i \<noteq> KV_BLK_INVALID"
  using blk_small [of i] by (simp add: KV_BLK_INVALID_def)

text \<open>The index functions at a block address.\<close>

lemma index_get [simp]:
  assumes "geo s" and "i < n"
  shows "kv_blk_freesz_get s (blk i) = free_size (kv_detail s i)"
    "kv_blk_flags_get s (blk i) = blk_flags (kv_detail s i)"
  using assms by (simp_all add: kv_blk_freesz_get_def kv_blk_flags_get_def)

lemma index_set [simp]:
  assumes "geo s" and "i < n"
  shows "kv_blk_freesz_set s (blk i) x = s\<lparr>kv_detail := (kv_detail s)(i := (kv_detail s i)\<lparr>free_size := x\<rparr>)\<rparr>"
    "kv_blk_flags_set s (blk i) f = s\<lparr>kv_detail := (kv_detail s)(i := (kv_detail s i)\<lparr>blk_flags := f\<rparr>)\<rparr>"
  using assms by (simp_all add: kv_blk_freesz_set_def kv_blk_flags_set_def Let_def)

lemma index_tests [simp]:
  assumes "geo s" and "i < n"
  shows "kv_blk_is_fresh s (blk i) = bit (blk_flags (kv_detail s i)) 0"
    "kv_blk_is_inuse s (blk i) = bit (blk_flags (kv_detail s i)) 1"
    "kv_blk_is_dirty s (blk i) = bit (blk_flags (kv_detail s i)) 2"
    "kv_blk_is_bad s (blk i) = bit (blk_flags (kv_detail s i)) 3"
    "kv_blk_is_hanging s (blk i) = bit (blk_flags (kv_detail s i)) 4"
  using assms
  by (simp_all add: kv_blk_is_fresh_def kv_blk_is_inuse_def kv_blk_is_dirty_def kv_blk_is_bad_def
      kv_blk_is_hanging_def flag_tests del: bit_0)

lemma index_full [simp]:
  "geo s \<Longrightarrow> i < n \<Longrightarrow> kv_blk_is_full s (blk i) \<longleftrightarrow> free_size (kv_detail s i) \<le> 24"
  by (simp add: kv_blk_is_full_def)

lemma usable_addr:
  assumes "geo s" and "i < n" and "free_size (kv_detail s i) \<le> sect"
  shows "KV_BLK_USABLE_ADDR s (blk i) = blk i + sect - free_size (kv_detail s i)"
  using assms blk_small [of i] by (simp add: KV_BLK_USABLE_ADDR_def sub_u32_noborrow)

text \<open>How many blocks are fresh, and the index as a whole.\<close>

definition fresh_cnt :: "(nat \<Rightarrow> kv_blk_detail) \<Rightarrow> nat" where
  "fresh_cnt d = (\<Sum>j<n. of_bool (bit (blk_flags (d j)) 0))"

definition idx_inv :: "kv_ctl \<Rightarrow> (nat \<Rightarrow> kv_ent list) \<Rightarrow> bool" where
  "idx_inv s lay \<longleftrightarrow> (\<forall>i<n. idx_ok sect (kv_detail s i) (lay i)) \<and> kv_num_fresh s = fresh_cnt (kv_detail s)"

lemma fresh_cnt_le: "fresh_cnt d \<le> n"
proof -
  have "fresh_cnt d \<le> (\<Sum>j<n. 1)" unfolding fresh_cnt_def by (rule sum_mono) simp
  then show ?thesis by simp
qed

lemma fresh_cnt_upd:
  "i < n \<Longrightarrow> fresh_cnt (d(i := x)) + of_bool (bit (blk_flags (d i)) 0)
     = fresh_cnt d + of_bool (bit (blk_flags x) 0)"
  unfolding fresh_cnt_def
  by (rule sum_fun_upd [where f = "\<lambda>y. of_bool (bit (blk_flags y) 0)"])

text \<open>The counter follows a change of one entry's fresh flag.\<close>

lemma fresh_cnt_step:
  assumes "i < n" and "m = fresh_cnt d"
  shows "bit (blk_flags x) 0 = bit (blk_flags (d i)) 0 \<Longrightarrow> fresh_cnt (d(i := x)) = m"
    and "bit (blk_flags x) 0 \<Longrightarrow> \<not> bit (blk_flags (d i)) 0 \<Longrightarrow> fresh_cnt (d(i := x)) = inc_u16 m"
    and "\<not> bit (blk_flags x) 0 \<Longrightarrow> bit (blk_flags (d i)) 0 \<Longrightarrow> fresh_cnt (d(i := x)) = dec_u16 m"
proof -
  note c = fresh_cnt_upd [OF assms(1), of d x]
  show "bit (blk_flags x) 0 = bit (blk_flags (d i)) 0 \<Longrightarrow> fresh_cnt (d(i := x)) = m"
    using c assms(2) by simp
  show "fresh_cnt (d(i := x)) = inc_u16 m" if "bit (blk_flags x) 0" "\<not> bit (blk_flags (d i)) 0"
  proof -
    have "fresh_cnt (d(i := x)) = m + 1" using c that assms(2) by (simp del: bit_0)
    moreover have "m + 1 < 65536" using calculation fresh_cnt_le [of "d(i := x)"] n_small by linarith
    ultimately show ?thesis by (simp add: inc_u16_nocarry)
  qed
  show "fresh_cnt (d(i := x)) = dec_u16 m" if "\<not> bit (blk_flags x) 0" "bit (blk_flags (d i)) 0"
  proof -
    have "m = fresh_cnt (d(i := x)) + 1" using c that assms(2) by (simp del: bit_0)
    moreover have "m < 65536" using assms(2) fresh_cnt_le [of d] n_small by linarith
    ultimately show ?thesis by (simp add: dec_u16_noborrow)
  qed
qed

lemma idx_inv_upd:
  assumes "idx_inv s lay" and "i < n" and "idx_ok sect d' its"
    and "kv_detail s' = (kv_detail s)(i := d')"
    and "kv_num_fresh s' = (if bit (blk_flags d') 0 = bit (blk_flags (kv_detail s i)) 0 then kv_num_fresh s
           else if bit (blk_flags d') 0 then inc_u16 (kv_num_fresh s) else dec_u16 (kv_num_fresh s))"
  shows "idx_inv s' (lay(i := its))"
proof -
  have "kv_num_fresh s = fresh_cnt (kv_detail s)" using assms(1) by (simp add: idx_inv_def)
  from fresh_cnt_step [OF assms(2) this, of d'] have "kv_num_fresh s' = fresh_cnt (kv_detail s')"
    using assms(4,5) by (auto simp del: bit_0)
  then show ?thesis using assms by (auto simp: idx_inv_def)
qed

end

end
