(* ===== verification/Kv_Walk.thy ===== *)
theory Kv_Walk
  imports Kv_Index
begin

text \<open>
  Walking through a block (\<open>kv_item_walkthru\<close>) and finding an item: a rule for the walk over
  the entries of a block, the refresh of the index at its end, and the two searches of the
  store as searches in the abstract layout.
\<close>

context kv_store begin

section \<open>Steps that touch only the index\<close>

definition same_flash :: "kv_ctl \<Rightarrow> kv_ctl \<Rightarrow> bool" where
  "same_flash s s' \<longleftrightarrow> geo s' \<and> kv_cells s' = kv_cells s \<and> kv_workspace s' = kv_workspace s"

lemma same_flash_refl: "geo s \<Longrightarrow> same_flash s s"
  by (simp add: same_flash_def)

lemma same_flash_trans: "same_flash s s' \<Longrightarrow> same_flash s' s'' \<Longrightarrow> same_flash s s''"
  by (simp add: same_flash_def)

lemma set_dirty_step:
  assumes "geo s" and "i < n"
  shows "same_flash s (kv_blk_set_dirty s (blk i))"
    and "idx_inv s lay \<Longrightarrow> lay i \<noteq> [] \<Longrightarrow> idx_inv (kv_blk_set_dirty s (blk i)) lay"
proof -
  let ?d = "(kv_detail s i)\<lparr>blk_flags := blk_flags (kv_detail s i) OR KV_BLK_FLAG_DIRTY\<rparr>"
  have s': "kv_blk_set_dirty s (blk i) = s\<lparr>kv_detail := (kv_detail s)(i := ?d)\<rparr>"
    using assms by (simp add: kv_blk_set_dirty_def kv_blk_flags_add_def)
  then show "same_flash s (kv_blk_set_dirty s (blk i))"
    using assms by (simp add: same_flash_def)
  assume inv: "idx_inv s lay" and ne: "lay i \<noteq> []"
  then have "idx_ok sect (kv_detail s i) (lay i)" using assms(2) by (simp add: idx_inv_def)
  with ne have "idx_ok sect ?d (lay i)"
    by (auto simp: idx_ok_def flag_simps simp del: bit_0)
  then show "idx_inv (kv_blk_set_dirty s (blk i)) lay"
    using idx_inv_upd [OF inv assms(2), of ?d "lay i" "kv_blk_set_dirty s (blk i)"]
    by (simp add: s' flag_simps del: bit_0)
qed

lemma walk_end_step:
  assumes g: "geo s" and i: "i < n" and inv: "idx_inv s lay" and sz: "32 + ents_size (lay i) \<le> sect"
  shows "same_flash s (kv_item_walk_end s (blk i) (blk i + 32 + ents_size (lay i)))"
    and "idx_inv (kv_item_walk_end s (blk i) (blk i + 32 + ents_size (lay i))) lay"
proof -
  let ?d = "kv_detail s i"
  let ?s' = "kv_item_walk_end s (blk i) (blk i + 32 + ents_size (lay i))"
  let ?rem = "sect - 32 - ents_size (lay i)"
  have ok: "idx_ok sect ?d (lay i)" using inv i by (simp add: idx_inv_def)
  have sub: "blk i + sect - (blk i + 32 + ents_size (lay i)) = ?rem" by simp
  consider (empty) "lay i = []" | (room) "lay i \<noteq> []" "24 < ?rem" | (full) "lay i \<noteq> []" "\<not> 24 < ?rem"
    by blast
  then have "same_flash s ?s' \<and> idx_inv ?s' lay"
  proof cases
    case empty
    let ?d' = "?d\<lparr>free_size := sect - 32, blk_flags := KV_BLK_FLAG_FRESH\<rparr>"
    have s': "?s' = (if bit (blk_flags ?d) 0 then s else s\<lparr>kv_num_fresh := inc_u16 (kv_num_fresh s)\<rparr>)
        \<lparr>kv_detail := (kv_detail s)(i := ?d')\<rparr>"
      using g i empty by (simp add: kv_item_walk_end_def kv_blk_set_fresh_def del: bit_0)
    have "idx_ok sect ?d' (lay i)" using empty by (simp add: idx_ok_def flag_simps del: bit_0)
    then show ?thesis
      using idx_inv_upd [OF inv i, of ?d' "lay i" ?s'] g
      unfolding s' by (simp add: same_flash_def flag_simps del: bit_0)
  next
    case room
    let ?d' = "?d\<lparr>free_size := ?rem, blk_flags := blk_flags ?d OR KV_BLK_FLAG_INUSE\<rparr>"
    have "0 < ents_size (lay i)" using room(1) by (cases "lay i") simp_all
    then have s': "?s' = (if bit (blk_flags ?d) 1 then s else s\<lparr>kv_num_inuse := inc_u16 (kv_num_inuse s)\<rparr>)
        \<lparr>kv_detail := (kv_detail s)(i := ?d')\<rparr>"
      using g i room sub
      by (simp add: kv_item_walk_end_def kv_blk_set_inuse_def kv_blk_flags_add_def del: bit_0)
    have "idx_ok sect ?d' (lay i)"
      using ok room(1) by (auto simp: idx_ok_def flag_simps simp del: bit_0)
    then show ?thesis
      using idx_inv_upd [OF inv i, of ?d' "lay i" ?s'] g
      unfolding s' by (simp add: same_flash_def flag_simps del: bit_0)
  next
    case full
    let ?d' = "?d\<lparr>free_size := 0, blk_flags := blk_flags ?d AND NOT KV_BLK_FLAG_INUSE\<rparr>"
    have "0 < ents_size (lay i)" using full(1) by (cases "lay i") simp_all
    then have s': "?s' = (if bit (blk_flags ?d) 1 then s\<lparr>kv_num_inuse := dec_u16 (kv_num_inuse s)\<rparr> else s)
        \<lparr>kv_detail := (kv_detail s)(i := ?d')\<rparr>"
      using g i full sub sz
      by (simp add: kv_item_walk_end_def kv_blk_reset_inuse_def kv_blk_flags_rmv_def del: bit_0)
    have "idx_ok sect ?d' (lay i)"
      using ok full by (auto simp: idx_ok_def flag_simps simp del: bit_0)
    then show ?thesis
      using idx_inv_upd [OF inv i, of ?d' "lay i" ?s'] g
      unfolding s' by (simp add: same_flash_def flag_simps del: bit_0)
  qed
  then show "same_flash s ?s'" and "idx_inv ?s' lay" by simp_all
qed

text \<open>A step of a search: it touches only the index, and no block stops being fresh.\<close>

definition looked :: "kv_ctl \<Rightarrow> kv_ctl \<Rightarrow> bool" where
  "looked s s' \<longleftrightarrow> same_flash s s' \<and> kv_num_fresh s \<le> kv_num_fresh s'"

lemma looked_refl: "geo s \<Longrightarrow> looked s s"
  by (simp add: looked_def same_flash_def)

lemma looked_trans: "looked s s' \<Longrightarrow> looked s' s'' \<Longrightarrow> looked s s''"
  by (auto simp: looked_def same_flash_def)

lemma looked_same: "looked s s' \<Longrightarrow> same_flash s s'"
  by (simp add: looked_def)

lemma looked_sel: "looked s s' \<Longrightarrow> geo s' \<and> kv_cells s' = kv_cells s"
  by (simp add: looked_def same_flash_def)

lemma looked_dirty: "geo s \<Longrightarrow> i < n \<Longrightarrow> looked s (kv_blk_set_dirty s (blk i))"
  unfolding looked_def
  by (intro conjI set_dirty_step(1)) (simp_all add: kv_blk_set_dirty_def kv_blk_flags_add_def)

lemma looked_walk_end:
  assumes g: "geo s" and i: "i < n" and inv: "idx_inv s lay" and sz: "32 + ents_size (lay i) \<le> sect"
  shows "looked s (kv_item_walk_end s (blk i) (blk i + 32 + ents_size (lay i)))"
proof -
  let ?d = "kv_detail s i"
  have "kv_num_fresh s \<le> inc_u16 (kv_num_fresh s)" if "\<not> bit (blk_flags ?d) 0"
  proof -
    have "fresh_cnt ((kv_detail s)(i := ?d\<lparr>blk_flags := 1\<rparr>)) = fresh_cnt (kv_detail s) + 1"
      using fresh_cnt_upd [OF i, of "kv_detail s" "?d\<lparr>blk_flags := 1\<rparr>"] that by (simp del: bit_0)
    then have "fresh_cnt (kv_detail s) < n" using fresh_cnt_le [of "(kv_detail s)(i := ?d\<lparr>blk_flags := 1\<rparr>)"] by simp
    then show ?thesis using inv n_small by (simp add: idx_inv_def inc_u16_nocarry)
  qed
  then have "kv_num_fresh s \<le> kv_num_fresh (kv_item_walk_end s (blk i) (blk i + 32 + ents_size (lay i)))"
    using g i
    by (simp add: kv_item_walk_end_def kv_blk_set_fresh_def kv_blk_set_inuse_def kv_blk_reset_inuse_def
        kv_blk_flags_add_def kv_blk_flags_rmv_def del: bit_0)
  with walk_end_step(1) [OF assms] show ?thesis by (simp add: looked_def)
qed

section \<open>The walk\<close>

definition mk_item :: "kv_ent \<Rightarrow> nat \<Rightarrow> byte list \<Rightarrow> kv_item" where
  "mk_item e p body = \<lparr>it_hdr = ent_hdr e, it_pos = p, it_body = body\<rparr>"

lemma mk_item_sel [simp]:
  "it_hdr (mk_item e p b) = ent_hdr e" "it_pos (mk_item e p b) = p" "it_body (mk_item e p b) = b"
  "(mk_item e p b)\<lparr>it_body := b'\<rparr> = mk_item e p b'" "(mk_item e p b)\<lparr>it_pos := p'\<rparr> = mk_item e p' b"
  by (simp_all add: mk_item_def)

lemma read_ok: "geo s \<Longrightarrow> a + m \<le> lim \<Longrightarrow> kv_flash_read s a m = Some (KV_ERR_NONE, nor_read (kv_cells s) a m)"
  by (simp add: kv_flash_read_def geo_sel drv_read)

lemma write_ok: "geo s \<Longrightarrow> a + length bs \<le> lim \<Longrightarrow> bs \<noteq> [] \<Longrightarrow>
   kv_flash_write s a bs = Some (KV_ERR_NONE, s\<lparr>kv_cells := nor_write (kv_cells s) a bs\<rparr>)"
  by (simp add: kv_flash_write_def geo_sel drv_write)

lemma hdr_read_ok: "geo s \<Longrightarrow> p + 24 \<le> lim \<Longrightarrow>
   kv_item_hdr_read s p = Some (KV_ERR_NONE, kv_item_hdr_decode (nor_read (kv_cells s) p 24))"
  by (simp add: kv_item_hdr_read_def sizeof_kv_item_hdr_def read_ok)

lemma body_read_ok:
  assumes "geo s" and "i < n" and h: "blk_holds sect (kv_cells s) (blk i) (xs @ e # ys)"
  shows "kv_item_body_read s (mk_item e (blk i + 32 + ents_size xs) b)
    = Some (KV_ERR_NONE, mk_item e (blk i + 32 + ents_size xs) (e_key e @ e_val e), s)"
proof -
  have "blk i + 32 + ents_size xs + 24 + (length (e_key e) + length (e_val e)) \<le> lim"
    using blk_holds_split(3) [OF h] blk_lim [OF assms(2)] by (simp add: esize_def)
  then show ?thesis
    using assms(1) blk_read_body [OF h]
    by (simp add: kv_item_body_read_def KV_ITEM_ADDR_OF_BODY_def KV_ITEM_SIZE_OF_BODY_def read_ok)
qed

lemma hdr_verify_ok:
  assumes "geo s" and "i < n" and h: "blk_holds sect (kv_cells s) (blk i) (xs @ e # ys)"
  shows "kv_item_hdr_verify s (ent_hdr e) (blk i + 32 + ents_size xs) (blk i)"
proof -
  have "blk i + 32 + ents_size xs + (24 + (length (e_key e) + length (e_val e))) \<le> blk i + sect"
    using blk_holds_split(3) [OF h] by (simp add: esize_def)
  moreover have "blk i + sect \<le> st + n * sect" by (rule blk_end [OF assms(2)])
  ultimately show ?thesis
    using assms(1) blk_holds_split(2) [OF h]
    by (auto simp: kv_item_hdr_verify_def ent_ok_def kv_ok_def geo_sel Let_def)
qed

text \<open>
  The rule: \<open>P\<close> holds of the entries passed and the state; a live entry is either passed by
  the walker or accepted by it, and \<open>Q\<close> describes an accepted one.
\<close>

lemma walk_rule:
  assumes i: "i < n"
    and inv: "\<And>xs s. P xs s \<Longrightarrow> geo s \<and> blk_holds sect (kv_cells s) (blk i) its"
    and dead: "\<And>xs e ys s. its = xs @ e # ys \<Longrightarrow> \<not> e_live e \<Longrightarrow> P xs s \<Longrightarrow>
                 P (xs @ [e]) (kv_blk_set_dirty s (blk i))"
    and live: "\<And>xs e ys s. its = xs @ e # ys \<Longrightarrow> e_live e \<Longrightarrow> P xs s \<Longrightarrow>
      (\<exists>it s'. walker s (mk_item e (blk i + 32 + ents_size xs) []) = Some (KV_ERR_NEXT_LOOP, it, s')
          \<and> P (xs @ [e]) s')
      \<or> (\<exists>it s'. walker s (mk_item e (blk i + 32 + ents_size xs) []) = Some (KV_ERR_NONE, it, s')
          \<and> Q xs e it s')"
    and "its = xs @ ys" and "P xs s" and "ys \<noteq> [] \<or> 32 + ents_size xs + 24 < sect"
  shows "(\<exists>s'. kv_item_walk_loop walker (blk i) s (blk i + 32 + ents_size xs)
             = Some (KV_ERR_NONE, None, kv_item_walk_end s' (blk i) (blk i + 32 + ents_size its)) \<and> P its s')
    \<or> (\<exists>zs e ws it s'. its = zs @ e # ws \<and> e_live e
         \<and> kv_item_walk_loop walker (blk i) s (blk i + 32 + ents_size xs) = Some (KV_ERR_NONE, Some it, s')
         \<and> Q zs e it s')"
  using assms(5-7)
proof (induction ys arbitrary: xs s)
  case Nil
  from inv [OF Nil(2)] have g: "geo s" and h: "blk_holds sect (kv_cells s) (blk i) its" by simp_all
  let ?p = "blk i + 32 + ents_size xs"
  have sz: "32 + ents_size xs + 24 < sect" and xs: "its = xs" using Nil by simp_all
  have "?p + 24 \<le> lim" using blk_lim [OF i] sz by linarith
  moreover have "nor_read (kv_cells s) ?p 24 = replicate 24 (- 1)"
    using blk_read_end [OF h] sz xs by simp
  ultimately have "kv_item_walk_loop walker (blk i) s ?p
      = Some (KV_ERR_NONE, None, kv_item_walk_end s (blk i) ?p)"
    using g hdr_decode_blank by (subst kv_item_walk_loop.simps) (simp add: hdr_read_ok)
  with Nil(2) xs show ?case by blast
next
  case (Cons e ys)
  let ?p = "blk i + 32 + ents_size xs"
  from inv [OF Cons.prems(2)] have g: "geo s" and h: "blk_holds sect (kv_cells s) (blk i) (xs @ e # ys)"
    using Cons.prems(1) by simp_all
  have its: "its = (xs @ [e]) @ ys" using Cons.prems(1) by simp
  have sz: "32 + ents_size xs + esize e \<le> sect" by (rule blk_holds_split(3) [OF h])
  then have "?p + 24 \<le> lim" using blk_lim [OF i] by (simp add: esize_def)
  then have rd: "kv_item_hdr_read s ?p = Some (KV_ERR_NONE, ent_hdr e)"
    using g blk_read_hdr [OF h] by (simp add: hdr_read_ok)
  have ver: "kv_item_hdr_verify s (ent_hdr e) ?p (blk i)" by (rule hdr_verify_ok [OF g i h])
  define res where "res = (if e_live e then walker s (mk_item e ?p [])
     else Some (KV_ERR_NEXT_LOOP, mk_item e ?p [], kv_blk_set_dirty s (blk i)))"
  have unf: "kv_item_walk_loop walker (blk i) s ?p = do {
       (err, it, s1) \<leftarrow> res;
       if err = KV_ERR_NONE then Some (KV_ERR_NONE, Some it, s1)
       else if err \<noteq> KV_ERR_NEXT_LOOP then Some (err, None, s1)
       else let cur_item = ?p + KV_ITEM_SIZE s1 (ih_k_len (ent_hdr e)) (ih_v_len (ent_hdr e)) in
         if cur_item + KV_ITEM_HDR_SIZE s1 < KV_BLK_END s1 (blk i)
         then kv_item_walk_loop walker (blk i) s1 cur_item
         else Some (KV_ERR_NONE, None, kv_item_walk_end s1 (blk i) cur_item) }"
    unfolding res_def mk_item_def
    by (subst kv_item_walk_loop.simps) (use g rd ver in \<open>cases "e_live e", simp_all\<close>)
  show ?case
  proof (cases "\<exists>it s'. res = Some (KV_ERR_NEXT_LOOP, it, s') \<and> P (xs @ [e]) s'")
    case True
    then obtain it s' where r: "res = Some (KV_ERR_NEXT_LOOP, it, s')" and P: "P (xs @ [e]) s'" by blast
    from inv [OF P] have g': "geo s'" by simp
    have nxt: "?p + (24 + (length (e_key e) + length (e_val e))) = blk i + 32 + ents_size (xs @ [e])"
      by (simp add: esize_def add.assoc)
    let ?q = "blk i + 32 + ents_size (xs @ [e])"
    have step: "kv_item_walk_loop walker (blk i) s ?p
        = (if ?q + 24 < blk i + sect then kv_item_walk_loop walker (blk i) s' ?q
           else Some (KV_ERR_NONE, None, kv_item_walk_end s' (blk i) ?q))"
      unfolding unf r using g' nxt [symmetric] by (simp add: Let_def del: ents_size_simps)
    show ?thesis
    proof (cases "32 + ents_size (xs @ [e]) + 24 < sect")
      case more: True
      then have "kv_item_walk_loop walker (blk i) s ?p
          = kv_item_walk_loop walker (blk i) s' (blk i + 32 + ents_size (xs @ [e]))"
        unfolding step by (simp add: algebra_simps)
      with Cons.IH [OF its P] more show ?thesis by simp
    next
      case last: False
      have "ys = []"
      proof (rule ccontr)
        assume "ys \<noteq> []"
        then obtain e' ys' where ys: "ys = e' # ys'" by (cases ys) auto
        then have h': "blk_holds sect (kv_cells s) (blk i) ((xs @ [e]) @ e' # ys')" using h by simp
        from blk_holds_split(2,3) [OF h'] esize_ok [of e'] last show False by simp
      qed
      then have "kv_item_walk_loop walker (blk i) s ?p
          = Some (KV_ERR_NONE, None, kv_item_walk_end s' (blk i) (blk i + 32 + ents_size its))"
        unfolding step using last its by simp
      moreover have "P its s'" using P its \<open>ys = []\<close> by simp
      ultimately show ?thesis by blast
    qed
  next
    case False
    have "e_live e"
    proof (rule ccontr)
      assume d: "\<not> e_live e"
      then have "res = Some (KV_ERR_NEXT_LOOP, mk_item e ?p [], kv_blk_set_dirty s (blk i))"
        by (simp add: res_def)
      with dead [OF Cons.prems(1) d Cons.prems(2)] False show False by blast
    qed
    with live [OF Cons.prems(1) this Cons.prems(2)] False obtain it s'
      where "res = Some (KV_ERR_NONE, it, s')" "Q xs e it s'" by (auto simp: res_def)
    then have "kv_item_walk_loop walker (blk i) s ?p = Some (KV_ERR_NONE, Some it, s')"
      unfolding unf by simp
    with Cons.prems(1) \<open>e_live e\<close> \<open>Q xs e it s'\<close> show ?thesis by blast
  qed
qed

end

end
