(* ===== verification/Kv_Find.thy ===== *)
theory Kv_Find
  imports Kv_Walk
begin

text \<open>
  The invariant \<open>kv_inv s lay\<close> of the store: the layout \<open>lay\<close> gives the entries of every block,
  the flash holds them, the index agrees.  The two searches of the code (\<open>kv_item_find\<close>,
  \<open>kv_item_find_new_copy\<close>) find the first matching live entry of the layout.
\<close>

context kv_store begin

definition kv_inv :: "kv_ctl \<Rightarrow> (nat \<Rightarrow> kv_ent list) \<Rightarrow> bool" where
  "kv_inv s lay \<longleftrightarrow> geo s \<and> idx_inv s lay
     \<and> (\<forall>i<n. blk_hdr_ok (kv_cells s) (blk i) \<and> blk_holds sect (kv_cells s) (blk i) (lay i))
     \<and> (kv_workspace s = KV_BLK_INVALID \<or> (\<exists>i<n. kv_workspace s = blk i))"

lemma kv_inv_geo: "kv_inv s lay \<Longrightarrow> geo s"
  by (simp add: kv_inv_def)

lemma kv_inv_idx: "kv_inv s lay \<Longrightarrow> idx_inv s lay"
  by (simp add: kv_inv_def)

lemma kv_inv_blk: "kv_inv s lay \<Longrightarrow> i < n \<Longrightarrow> blk_holds sect (kv_cells s) (blk i) (lay i)"
  by (simp add: kv_inv_def)

lemma kv_inv_hdr: "kv_inv s lay \<Longrightarrow> i < n \<Longrightarrow> blk_hdr_ok (kv_cells s) (blk i)"
  by (simp add: kv_inv_def)

lemma kv_inv_same: "kv_inv s lay \<Longrightarrow> same_flash s s' \<Longrightarrow> idx_inv s' lay \<Longrightarrow> kv_inv s' lay"
  by (simp add: kv_inv_def same_flash_def)

lemma kv_inv_size: "kv_inv s lay \<Longrightarrow> i < n \<Longrightarrow> 32 + ents_size (lay i) \<le> sect"
  by (simp add: kv_inv_def blk_holds_def)

lemma kv_inv_idx_ok: "kv_inv s lay \<Longrightarrow> i < n \<Longrightarrow> idx_ok sect (kv_detail s i) (lay i)"
  by (simp add: kv_inv_def idx_inv_def)

text \<open>A walker that only looks: it accepts the entries that satisfy \<open>m\<close>.\<close>

definition looks_for :: "kv_item_walker \<Rightarrow> (kv_ent \<Rightarrow> bool) \<Rightarrow> bool" where
  "looks_for w m \<longleftrightarrow> (\<forall>s i xs e ys. geo s \<longrightarrow> i < n \<longrightarrow> blk_holds sect (kv_cells s) (blk i) (xs @ e # ys) \<longrightarrow>
     (if m e then w s (mk_item e (blk i + 32 + ents_size xs) [])
                = Some (KV_ERR_NONE, mk_item e (blk i + 32 + ents_size xs) (e_key e @ e_val e), s)
      else \<exists>it. w s (mk_item e (blk i + 32 + ents_size xs) []) = Some (KV_ERR_NEXT_LOOP, it, s)))"

lemma looks_forD:
  assumes "looks_for w m" "geo s" "i < n" "blk_holds sect (kv_cells s) (blk i) (xs @ e # ys)"
  shows "m e \<Longrightarrow> w s (mk_item e (blk i + 32 + ents_size xs) [])
             = Some (KV_ERR_NONE, mk_item e (blk i + 32 + ents_size xs) (e_key e @ e_val e), s)"
    and "\<not> m e \<Longrightarrow> \<exists>it. w s (mk_item e (blk i + 32 + ents_size xs) []) = Some (KV_ERR_NEXT_LOOP, it, s)"
proof -
  from assms have "if m e then w s (mk_item e (blk i + 32 + ents_size xs) [])
             = Some (KV_ERR_NONE, mk_item e (blk i + 32 + ents_size xs) (e_key e @ e_val e), s)
      else \<exists>it. w s (mk_item e (blk i + 32 + ents_size xs) []) = Some (KV_ERR_NEXT_LOOP, it, s)"
    unfolding looks_for_def by blast
  then show "m e \<Longrightarrow> w s (mk_item e (blk i + 32 + ents_size xs) [])
             = Some (KV_ERR_NONE, mk_item e (blk i + 32 + ents_size xs) (e_key e @ e_val e), s)"
    and "\<not> m e \<Longrightarrow> \<exists>it. w s (mk_item e (blk i + 32 + ents_size xs) []) = Some (KV_ERR_NEXT_LOOP, it, s)"
    by simp_all
qed

lemma do_fetch_looks: "looks_for (kv_item_do_fetch key) (\<lambda>e. e_key e = key)"
proof -
  have "kv_item_do_fetch key s (mk_item e (blk i + 32 + ents_size xs) [])
      = (if e_key e = key
         then Some (KV_ERR_NONE, mk_item e (blk i + 32 + ents_size xs) (e_key e @ e_val e), s)
         else Some (KV_ERR_NEXT_LOOP, mk_item e (blk i + 32 + ents_size xs)
           (if length key = length (e_key e) then e_key e @ e_val e else []), s))"
    if "geo s" "i < n" "blk_holds sect (kv_cells s) (blk i) (xs @ e # ys)" for s i xs e ys
    using body_read_ok [OF that, of "[]"] by (simp add: kv_item_do_fetch_def Let_def)
  then show ?thesis unfolding looks_for_def by auto
qed

lemma do_fetch_new_copy_looks:
  "length (it_body dst) = ih_k_len (it_hdr dst) + ih_v_len (it_hdr dst) \<Longrightarrow>
   looks_for (kv_item_do_fetch_new_copy dst)
     (\<lambda>e. length (e_key e) = ih_k_len (it_hdr dst) \<and> length (e_val e) = ih_v_len (it_hdr dst)
          \<and> e_key e @ e_val e = it_body dst)"
proof -
  assume len: "length (it_body dst) = ih_k_len (it_hdr dst) + ih_v_len (it_hdr dst)"
  have "kv_item_do_fetch_new_copy dst s (mk_item e (blk i + 32 + ents_size xs) [])
      = (if length (e_key e) \<noteq> ih_k_len (it_hdr dst) \<or> length (e_val e) \<noteq> ih_v_len (it_hdr dst)
         then Some (KV_ERR_NEXT_LOOP, mk_item e (blk i + 32 + ents_size xs) [], s)
         else Some (if e_key e @ e_val e = it_body dst then KV_ERR_NONE else KV_ERR_NEXT_LOOP,
           mk_item e (blk i + 32 + ents_size xs) (e_key e @ e_val e), s))"
    if "geo s" "i < n" "blk_holds sect (kv_cells s) (blk i) (xs @ e # ys)" for s i xs e ys
    using body_read_ok [OF that, of "[]"] len by (simp add: kv_item_do_fetch_new_copy_def Let_def)
  then show ?thesis unfolding looks_for_def by auto
qed

lemma walk_looks:
  assumes lk: "looks_for w m" and inv: "kv_inv s lay" and i: "i < n"
  shows "(\<exists>s'. kv_item_walkthru s (blk i) w = Some (KV_ERR_NONE, None, s') \<and> looked s s' \<and> idx_inv s' lay
            \<and> (\<forall>e \<in> set (lay i). e_live e \<longrightarrow> \<not> m e))
    \<or> (\<exists>xs e ys s'. lay i = xs @ e # ys \<and> e_live e \<and> m e
         \<and> kv_item_walkthru s (blk i) w
             = Some (KV_ERR_NONE, Some (mk_item e (blk i + 32 + ents_size xs) (e_key e @ e_val e)), s')
         \<and> looked s s' \<and> idx_inv s' lay)"
proof -
  define P where "P xs t \<longleftrightarrow> looked s t \<and> idx_inv t lay \<and> (\<forall>e \<in> set xs. e_live e \<longrightarrow> \<not> m e)" for xs t
  define Q where "Q xs e it t \<longleftrightarrow> m e \<and> it = mk_item e (blk i + 32 + ents_size xs) (e_key e @ e_val e)
     \<and> looked s t \<and> idx_inv t lay" for xs e it t
  have h: "P xs t \<Longrightarrow> geo t \<and> blk_holds sect (kv_cells t) (blk i) (lay i)" for xs t
    using kv_inv_blk [OF inv i] by (auto simp: P_def dest: looked_sel)
  have g: "geo s" by (rule kv_inv_geo [OF inv])
  have "(\<exists>s'. kv_item_walk_loop w (blk i) s (blk i + 32 + ents_size [])
             = Some (KV_ERR_NONE, None, kv_item_walk_end s' (blk i) (blk i + 32 + ents_size (lay i))) \<and> P (lay i) s')
    \<or> (\<exists>zs e ws it s'. lay i = zs @ e # ws \<and> e_live e
         \<and> kv_item_walk_loop w (blk i) s (blk i + 32 + ents_size []) = Some (KV_ERR_NONE, Some it, s')
         \<and> Q zs e it s')"
  proof (rule walk_rule [where P = P and Q = Q, OF i h])
    fix xs e ys t
    assume lay: "lay i = xs @ e # ys" and d: "\<not> e_live e" and P: "P xs t"
    from h [OF P] have "geo t" by simp
    with P lay d i show "P (xs @ [e]) (kv_blk_set_dirty t (blk i))"
      by (auto simp: P_def intro: looked_trans looked_dirty set_dirty_step)
  next
    fix xs e ys t
    assume lay: "lay i = xs @ e # ys" and P: "P xs t"
    from h [OF P] have t: "geo t" "blk_holds sect (kv_cells t) (blk i) (xs @ e # ys)"
      using lay by simp_all
    note L = looks_forD [OF lk t(1) i t(2)]
    show "(\<exists>it s'. w t (mk_item e (blk i + 32 + ents_size xs) []) = Some (KV_ERR_NEXT_LOOP, it, s')
          \<and> P (xs @ [e]) s')
      \<or> (\<exists>it s'. w t (mk_item e (blk i + 32 + ents_size xs) []) = Some (KV_ERR_NONE, it, s')
          \<and> Q xs e it s')"
    proof (cases "m e")
      case True
      with L(1) P show ?thesis by (auto simp: P_def Q_def)
    next
      case False
      with L(2) P show ?thesis by (auto simp: P_def)
    qed
  next
    show "lay i = [] @ lay i" by simp
    show "P [] s" using g kv_inv_idx [OF inv] by (simp add: P_def looked_refl)
    show "lay i \<noteq> [] \<or> 32 + ents_size [] + 24 < sect" using sect64 by simp
  qed
  then show ?thesis
  proof
    assume "\<exists>s'. kv_item_walk_loop w (blk i) s (blk i + 32 + ents_size [])
             = Some (KV_ERR_NONE, None, kv_item_walk_end s' (blk i) (blk i + 32 + ents_size (lay i))) \<and> P (lay i) s'"
    then obtain t where t: "kv_item_walkthru s (blk i) w
        = Some (KV_ERR_NONE, None, kv_item_walk_end t (blk i) (blk i + 32 + ents_size (lay i)))" and P: "P (lay i) t"
      using g by (auto simp: kv_item_walkthru_def)
    have "geo t" using P by (auto simp: P_def dest: looked_sel)
    moreover have "idx_inv t lay" using P by (simp add: P_def)
    ultimately have "looked t (kv_item_walk_end t (blk i) (blk i + 32 + ents_size (lay i)))"
      and "idx_inv (kv_item_walk_end t (blk i) (blk i + 32 + ents_size (lay i))) lay"
      using looked_walk_end [of t i lay] walk_end_step(2) [of t i lay] i kv_inv_size [OF inv i] by blast+
    with P t show ?thesis by (auto simp: P_def intro: looked_trans)
  next
    assume "\<exists>zs e ws it s'. lay i = zs @ e # ws \<and> e_live e
         \<and> kv_item_walk_loop w (blk i) s (blk i + 32 + ents_size []) = Some (KV_ERR_NONE, Some it, s')
         \<and> Q zs e it s'"
    then show ?thesis using g by (fastforce simp: Q_def kv_item_walkthru_def)
  qed
qed

text \<open>
  The result \<open>r\<close> of a search from \<open>s\<close> through the blocks \<open>is\<close> for a live entry that satisfies \<open>m\<close>.
\<close>

definition finds :: "kv_ctl \<Rightarrow> (nat \<Rightarrow> kv_ent list) \<Rightarrow> (kv_ent \<Rightarrow> bool) \<Rightarrow> nat set
    \<Rightarrow> (kv_item option \<times> kv_ctl) option \<Rightarrow> bool" where
  "finds s lay m is r \<longleftrightarrow>
     (\<exists>s'. r = Some (None, s') \<and> looked s s' \<and> kv_inv s' lay
        \<and> (\<forall>i \<in> is. \<forall>e \<in> set (lay i). e_live e \<longrightarrow> \<not> m e))
    \<or> (\<exists>i xs e ys s'. i \<in> is \<and> lay i = xs @ e # ys \<and> e_live e \<and> m e
         \<and> r = Some (Some (mk_item e (blk i + 32 + ents_size xs) (e_key e @ e_val e)), s')
         \<and> looked s s' \<and> kv_inv s' lay)"

lemma findsE:
  assumes "finds s lay m is r"
  obtains (none) s' where "r = Some (None, s')" "looked s s'" "kv_inv s' lay"
      "\<And>i e. i \<in> is \<Longrightarrow> e \<in> set (lay i) \<Longrightarrow> e_live e \<Longrightarrow> \<not> m e"
    | (some) i xs e ys s' where "i \<in> is" "lay i = xs @ e # ys" "e_live e" "m e"
      "r = Some (Some (mk_item e (blk i + 32 + ents_size xs) (e_key e @ e_val e)), s')"
      "looked s s'" "kv_inv s' lay"
  using assms unfolding finds_def by blast

text \<open>The loop over the blocks.  A fresh block has no entries, so skipping it loses nothing.\<close>

lemma finds_later:
  assumes "finds s1 lay m is r" and "looked s s1" and "\<forall>e \<in> set (lay i). e_live e \<longrightarrow> \<not> m e"
  shows "finds s lay m (insert i is) r"
  using assms(1)
proof (cases rule: findsE)
  case (none s')
  moreover have "looked s s'" using assms(2) none(2) by (rule looked_trans)
  ultimately show ?thesis using assms(3) unfolding finds_def by blast
next
  case (some j xs e ys s')
  moreover have "looked s s'" using assms(2) some(6) by (rule looked_trans)
  ultimately show ?thesis unfolding finds_def by blast
qed

lemma finds_skip: "kv_inv s lay \<Longrightarrow> finds s lay m is r \<Longrightarrow> lay i = [] \<Longrightarrow> finds s lay m (insert i is) r"
  by (rule finds_later) (auto intro: looked_refl kv_inv_geo)

lemma find_loop_looks:
  assumes lk: "looks_for w m"
    and df: "\<And>s b. do_find s b = do { (err, it, s1) \<leftarrow> kv_item_walkthru s b w;
                                      Some (if err = KV_ERR_NONE then it else None, s1) }"
  shows "kv_inv s lay \<Longrightarrow> set is \<subseteq> {..<n} \<Longrightarrow>
    finds s lay m (set is) (kv_find_loop do_find s (map blk is))"
proof (induction "is" arbitrary: s)
  case Nil
  then show ?case by (simp add: finds_def looked_refl kv_inv_geo)
next
  case (Cons i "is")
  from Cons.prems have inv: "kv_inv s lay" and i: "i < n" and sub: "set is \<subseteq> {..<n}" by simp_all
  have g: "geo s" by (rule kv_inv_geo [OF inv])
  have ok: "idx_ok sect (kv_detail s i) (lay i)" by (rule kv_inv_idx_ok [OF inv i])
  show ?case
  proof (cases "bit (blk_flags (kv_detail s i)) 0")
    case True
    with ok have "lay i = []" by (simp add: idx_ok_def del: bit_0)
    moreover have "kv_find_loop do_find s (map blk (i # is)) = kv_find_loop do_find s (map blk is)"
      using True g i by (simp del: bit_0)
    ultimately show ?thesis using Cons.IH [OF inv sub] inv by (simp add: finds_skip)
  next
    case False
    with ok g i have unf: "kv_find_loop do_find s (map blk (i # is)) = do {
        (it, s1) \<leftarrow> do_find s (blk i);
        (case it of Some j \<Rightarrow> Some (Some j, s1) | None \<Rightarrow> kv_find_loop do_find s1 (map blk is)) }"
      by (simp add: idx_ok_def del: bit_0)
    from walk_looks [OF lk inv i] show ?thesis
    proof (elim disjE exE conjE)
      fix s1
      assume w: "kv_item_walkthru s (blk i) w = Some (KV_ERR_NONE, None, s1)"
        and s1: "looked s s1" "idx_inv s1 lay" and no: "\<forall>e \<in> set (lay i). e_live e \<longrightarrow> \<not> m e"
      have "kv_inv s1 lay" by (rule kv_inv_same [OF inv looked_same [OF s1(1)] s1(2)])
      moreover have "kv_find_loop do_find s (map blk (i # is)) = kv_find_loop do_find s1 (map blk is)"
        unfolding unf by (simp add: df w)
      ultimately show ?thesis
        using Cons.IH [OF _ sub, of s1] no s1(1) by (simp add: finds_later)
    next
      fix xs e ys s1
      assume at: "lay i = xs @ e # ys" "e_live e" "m e" and s1: "looked s s1" "idx_inv s1 lay"
        and w: "kv_item_walkthru s (blk i) w
             = Some (KV_ERR_NONE, Some (mk_item e (blk i + 32 + ents_size xs) (e_key e @ e_val e)), s1)"
      have "kv_inv s1 lay" by (rule kv_inv_same [OF inv looked_same [OF s1(1)] s1(2)])
      moreover have "kv_find_loop do_find s (map blk (i # is))
          = Some (Some (mk_item e (blk i + 32 + ents_size xs) (e_key e @ e_val e)), s1)"
        unfolding unf by (simp add: df w)
      moreover have "i \<in> set (i # is)" by simp
      ultimately show ?thesis using at s1(1) unfolding finds_def by blast
    qed
  qed
qed

lemma find_spec:
  assumes "kv_inv s lay"
  shows "finds s lay (\<lambda>e. e_key e = key) {..<n} (kv_item_find s key)"
  using find_loop_looks [OF do_fetch_looks, of "\<lambda>s b. kv_item_do_find s b key" key s lay "[0..<n]"]
    assms kv_inv_geo [OF assms]
  by (simp add: kv_item_find_def kv_item_do_find_def atLeast0LessThan)

lemma find_new_copy_spec:
  assumes "kv_inv s lay" and "length (it_body dst) = ih_k_len (it_hdr dst) + ih_v_len (it_hdr dst)"
  shows "finds s lay (\<lambda>e. length (e_key e) = ih_k_len (it_hdr dst) \<and> length (e_val e) = ih_v_len (it_hdr dst)
      \<and> e_key e @ e_val e = it_body dst) {..<n} (kv_item_find_new_copy s dst)"
  using find_loop_looks [OF do_fetch_new_copy_looks [OF assms(2)],
      of "\<lambda>s b. kv_item_do_find_new_copy s b dst" s lay "[0..<n]"] assms(1) kv_inv_geo [OF assms(1)]
  by (simp add: kv_item_find_new_copy_def kv_item_do_find_new_copy_def atLeast0LessThan)

end

end
