(* ===== verification/Kv_Write.thy ===== *)
theory Kv_Write
  imports Kv_Find
begin

text \<open>
  The changes of the store on its layout: an item written behind the last one, an item
  marked as discarded, and a garbage collection, each with the index updates that the code
  makes around it.
\<close>

context kv_store begin

section \<open>Steps on one index entry\<close>

definition cnt_inv :: "kv_ctl \<Rightarrow> bool" where
  "cnt_inv s \<longleftrightarrow> kv_num_fresh s = fresh_cnt (kv_detail s)"

text \<open>\<open>only i s s'\<close>: at most entry \<open>i\<close> of the index differs, and the counter of fresh blocks is right.\<close>

definition only :: "nat \<Rightarrow> kv_ctl \<Rightarrow> kv_ctl \<Rightarrow> bool" where
  "only i s s' \<longleftrightarrow> same_flash s s' \<and> (\<forall>j. j \<noteq> i \<longrightarrow> kv_detail s' j = kv_detail s j) \<and> (cnt_inv s \<longrightarrow> cnt_inv s')"

lemma only_refl: "geo s \<Longrightarrow> only i s s"
  by (simp add: only_def same_flash_refl)

lemma only_trans: "only i s s' \<Longrightarrow> only i s' s'' \<Longrightarrow> only i s s''"
  by (auto simp: only_def same_flash_def)

lemma only_geo: "only i s s' \<Longrightarrow> geo s'"
  by (simp add: only_def same_flash_def)

lemma only_upd:
  assumes "geo s" and "i < n" and "geo s'" and "kv_cells s' = kv_cells s" and "kv_workspace s' = kv_workspace s"
    and "kv_detail s' = (kv_detail s)(i := d)"
    and "kv_num_fresh s' = (if bit (blk_flags d) 0 = bit (blk_flags (kv_detail s i)) 0 then kv_num_fresh s
           else if bit (blk_flags d) 0 then inc_u16 (kv_num_fresh s) else dec_u16 (kv_num_fresh s))"
  shows "only i s s'"
  using assms fresh_cnt_step [OF assms(2), of "kv_num_fresh s" "kv_detail s" d]
  by (auto simp: only_def same_flash_def cnt_inv_def simp del: bit_0)

lemma freesz_set_step:
  assumes "geo s" and "i < n"
  shows "only i s (kv_blk_freesz_set s (blk i) x)"
    and "kv_detail (kv_blk_freesz_set s (blk i) x) i = (kv_detail s i)\<lparr>free_size := x\<rparr>"
  using assms only_upd [of s i "kv_blk_freesz_set s (blk i) x" "(kv_detail s i)\<lparr>free_size := x\<rparr>"]
  by simp_all

lemma set_fresh_step:
  assumes "geo s" and "i < n"
  shows "only i s (kv_blk_set_fresh s (blk i))"
    and "kv_detail (kv_blk_set_fresh s (blk i)) i
      = (kv_detail s i)\<lparr>free_size := sect - 32, blk_flags := KV_BLK_FLAG_FRESH\<rparr>"
  using assms only_upd [of s i "kv_blk_set_fresh s (blk i)"
      "(kv_detail s i)\<lparr>free_size := sect - 32, blk_flags := KV_BLK_FLAG_FRESH\<rparr>"]
  by (simp_all add: kv_blk_set_fresh_def flag_simps del: bit_0)

lemma set_inuse_step:
  assumes "geo s" and "i < n"
  shows "only i s (kv_blk_set_inuse s (blk i))"
    and "kv_detail (kv_blk_set_inuse s (blk i)) i
      = (kv_detail s i)\<lparr>blk_flags := blk_flags (kv_detail s i) OR KV_BLK_FLAG_INUSE\<rparr>"
  using assms only_upd [of s i "kv_blk_set_inuse s (blk i)"
      "(kv_detail s i)\<lparr>blk_flags := blk_flags (kv_detail s i) OR KV_BLK_FLAG_INUSE\<rparr>"]
  by (simp_all add: kv_blk_set_inuse_def kv_blk_flags_add_def flag_simps del: bit_0)

lemma reset_inuse_step:
  assumes "geo s" and "i < n"
  shows "only i s (kv_blk_reset_inuse s (blk i))"
    and "kv_detail (kv_blk_reset_inuse s (blk i)) i
      = (kv_detail s i)\<lparr>blk_flags := blk_flags (kv_detail s i) AND NOT KV_BLK_FLAG_INUSE\<rparr>"
  using assms only_upd [of s i "kv_blk_reset_inuse s (blk i)"
      "(kv_detail s i)\<lparr>blk_flags := blk_flags (kv_detail s i) AND NOT KV_BLK_FLAG_INUSE\<rparr>"]
  by (simp_all add: kv_blk_reset_inuse_def kv_blk_flags_rmv_def flag_simps del: bit_0)

lemma reset_fresh_step:
  assumes "geo s" and "i < n"
  shows "only i s (kv_blk_reset_fresh s (blk i))"
    and "kv_detail (kv_blk_reset_fresh s (blk i)) i
      = (kv_detail s i)\<lparr>blk_flags := blk_flags (kv_detail s i) AND NOT KV_BLK_FLAG_FRESH\<rparr>"
  using assms only_upd [of s i "kv_blk_reset_fresh s (blk i)"
      "(kv_detail s i)\<lparr>blk_flags := blk_flags (kv_detail s i) AND NOT KV_BLK_FLAG_FRESH\<rparr>"]
  by (simp_all add: kv_blk_reset_fresh_def kv_blk_flags_rmv_def flag_simps del: bit_0)

lemma dirty_step:
  assumes "geo s" and "i < n"
  shows "only i s (kv_blk_set_dirty s (blk i))"
    and "kv_detail (kv_blk_set_dirty s (blk i)) i
      = (kv_detail s i)\<lparr>blk_flags := blk_flags (kv_detail s i) OR KV_BLK_FLAG_DIRTY\<rparr>"
  using assms only_upd [of s i "kv_blk_set_dirty s (blk i)"
      "(kv_detail s i)\<lparr>blk_flags := blk_flags (kv_detail s i) OR KV_BLK_FLAG_DIRTY\<rparr>"]
  by (simp_all add: kv_blk_set_dirty_def kv_blk_flags_add_def flag_simps del: bit_0)

lemma walk_end_only:
  assumes g: "geo s" and i: "i < n"
  shows "only i s (kv_item_walk_end s (blk i) c)"
proof -
  have a: "only i s (kv_blk_set_inuse (kv_blk_freesz_set s (blk i) x) (blk i))" for x
    by (rule only_trans [OF freesz_set_step(1) set_inuse_step(1)]) (use g i in simp_all)
  have b: "only i s (kv_blk_reset_inuse (kv_blk_freesz_set s (blk i) x) (blk i))" for x
    by (rule only_trans [OF freesz_set_step(1) reset_inuse_step(1)]) (use g i in simp_all)
  show ?thesis
    using a b set_fresh_step(1) [OF g i] by (simp add: kv_item_walk_end_def del: index_set)
qed

lemma idx_inv_only:
  assumes "idx_inv s lay" and "i < n" and "only i s s'" and "idx_ok sect (kv_detail s' i) its"
  shows "idx_inv s' (lay(i := its))"
  using assms by (auto simp: idx_inv_def only_def cnt_inv_def)

section \<open>Writing an item\<close>

definition new_ent :: "byte list \<Rightarrow> byte list \<Rightarrow> nat \<Rightarrow> kv_ent" where
  "new_ent k v prev = \<lparr>e_live = True, e_key = k, e_val = v, e_sum = unat (kv_checksum_crc8 (k @ v)), e_prev = prev\<rparr>"

lemma new_ent_sel [simp]:
  "e_live (new_ent k v p)" "e_key (new_ent k v p) = k" "e_val (new_ent k v p) = v"
  "esize (new_ent k v p) = 24 + length k + length v"
  by (simp_all add: new_ent_def esize_def)

lemma new_ent_ok: "kv_ok k v \<Longrightarrow> p < 2 ^ 24 \<Longrightarrow> ent_ok (new_ent k v p)"
  using unat_byte_less [of "kv_checksum_crc8 (k @ v)"] by (simp add: ent_ok_def new_ent_def)

lemma item_write_ok:
  assumes g: "geo s" and i: "i < n" and h: "blk_holds sect (kv_cells s) (blk i) its"
    and ok: "ent_ok e" and live: "e_live e" and room: "32 + ents_size its + esize e \<le> sect"
    and hd: "kv_item_hdr_tail hdr = kv_item_hdr_tail (ent_hdr e)" "ih_magic hdr = KV_ITEM_HDR_MAGIC"
  shows "kv_item_write s (blk i + 32 + ents_size its) hdr (e_key e @ e_val e)
    = Some (KV_ERR_NONE, s\<lparr>kv_cells := item_cells (kv_cells s) (blk i + 32 + ents_size its) e\<rparr>)"
proof -
  let ?p = "blk i + 32 + ents_size its"
  have p: "?p + esize e \<le> lim" using room blk_lim [OF i] by linarith
  have ne: "e_key e @ e_val e \<noteq> []" using ok by (auto simp: ent_ok_def kv_ok_def)
  have tail: "take 8 (kv_item_hdr_tail hdr) = kv_item_hdr_tail (ent_hdr e)" "kv_item_hdr_tail (ent_hdr e) \<noteq> []"
    using hd(1) by (simp_all add: kv_item_hdr_tail_def)
  have mg: "magic_bytes \<noteq> []" by (simp add: magic_bytes_def)
  have b: "?p + 16 + 8 \<le> lim" "?p + 8 + 8 \<le> lim" "?p + 24 + (length (e_key e) + length (e_val e)) \<le> lim"
    using p by (simp_all add: esize_def)
  show ?thesis
    unfolding kv_item_write_def kv_item_hdr_write_def kv_flash_wunit_modify_def hd(2) le_bytes_magic
    using g tail mg b ne by (simp add: write_ok item_cells_def)
qed

lemma do_save_ok:
  assumes g: "geo s" and i: "i < n" and h: "blk_holds sect (kv_cells s) (blk i) its"
    and kv: "kv_ok k v" and prev: "prev < 2 ^ 24" and room: "32 + ents_size its + (24 + length k + length v) \<le> sect"
  shows "kv_item_do_save s (blk i + 32 + ents_size its) k v prev
    = Some (KV_ERR_NONE, s\<lparr>kv_cells := item_cells (kv_cells s) (blk i + 32 + ents_size its) (new_ent k v prev)\<rparr>)"
proof -
  have len: "length k < 255" "length v < 65535" using kv by (simp_all add: kv_ok_def)
  then have u: "u8 (length k) = length k" "u16 (length v) = length v"
    by (simp_all add: u8_small u16_small)
  let ?hdr = "\<lparr>ih_discarded_flag = 0, ih_magic = KV_ITEM_HDR_MAGIC,
      ih_checksum = unat (kv_checksum_crc8 (k @ v)), ih_k_len = length k, ih_v_len = length v, ih_prev_pos = prev\<rparr>"
  have "kv_item_hdr_tail ?hdr = kv_item_hdr_tail (ent_hdr (new_ent k v prev))"
    by (simp add: kv_item_hdr_tail_def ent_hdr_def new_ent_def)
  then have "kv_item_write s (blk i + 32 + ents_size its) ?hdr (k @ v)
    = Some (KV_ERR_NONE, s\<lparr>kv_cells := item_cells (kv_cells s) (blk i + 32 + ents_size its) (new_ent k v prev)\<rparr>)"
    using item_write_ok [OF g i h new_ent_ok [OF kv prev], of ?hdr] room by simp
  then show ?thesis
    using g by (simp add: kv_item_do_save_def u Let_def)
qed

text \<open>Cells that change in one block leave the others alone.\<close>

lemma blks_frame:
  assumes inv: "kv_inv s lay" and i: "i < n"
    and cells: "\<And>x. x < blk i \<or> blk i + sect \<le> x \<Longrightarrow> gl x = kv_cells s x"
    and j: "j < n" "j \<noteq> i"
  shows "blk_hdr_ok gl (blk j) \<and> blk_holds sect gl (blk j) (lay j)"
proof -
  have same: "gl x = kv_cells s x" if "blk j \<le> x" "x < blk j + sect" for x
    using that blk_disjoint [OF j(2)] by (intro cells) linarith
  have r: "nor_read gl (blk j) 8 = nor_read (kv_cells s) (blk j) 8"
    using sect64 by (intro nor_read_cong same) simp_all
  have b: "blank gl (blk j + k) 8 = blank (kv_cells s) (blk j + k) 8" if "k + 8 \<le> sect" for k
    using that by (intro blank_cong same) simp_all
  have "blk_hdr_ok gl (blk j)"
    using kv_inv_hdr [OF inv j(1)] b [of 8] b [of 16] b [of 24] sect64 by (simp add: blk_hdr_ok_def r)
  moreover have "blk_holds sect gl (blk j) (lay j)"
    using same by (intro blk_holds_cong [OF kv_inv_blk [OF inv j(1)]]) simp
  ultimately show ?thesis by simp
qed

text \<open>A header that the change does not reach.\<close>

lemma hdr_frame:
  assumes "blk_hdr_ok fl a" and "\<And>x. a \<le> x \<Longrightarrow> x < a + 32 \<Longrightarrow> gl x = fl x"
  shows "blk_hdr_ok gl a"
proof -
  have r: "nor_read gl a 8 = nor_read fl a 8"
    using assms(2) by (intro nor_read_cong) simp_all
  have b: "blank gl (a + k) 8 = blank fl (a + k) 8" if "k + 8 \<le> 32" for k
    using that assms(2) by (intro blank_cong) simp_all
  show ?thesis using assms(1) b [of 8] b [of 16] b [of 24] by (simp add: blk_hdr_ok_def r)
qed

text \<open>
  The whole invariant after a change of block \<open>i\<close>: its cells, its index entry, its entries.
\<close>

lemma kv_inv_change:
  assumes inv: "kv_inv s lay" and i: "i < n"
    and cells: "\<And>x. x < blk i + 32 \<or> blk i + sect \<le> x \<Longrightarrow> gl x = kv_cells s x"
    and holds: "blk_holds sect gl (blk i) its"
    and idx: "only i (s\<lparr>kv_cells := gl\<rparr>) s'" "idx_ok sect (kv_detail s' i) its"
  shows "kv_inv s' (lay(i := its))"
proof -
  have s': "kv_cells s' = gl" "kv_workspace s' = kv_workspace s" "geo s'"
    using idx(1) by (simp_all add: only_def same_flash_def)
  have "idx_inv (s\<lparr>kv_cells := gl\<rparr>) lay" using kv_inv_idx [OF inv] by (simp add: idx_inv_def)
  then have "idx_inv s' (lay(i := its))" by (rule idx_inv_only [OF _ i idx])
  moreover have "blk_hdr_ok gl (blk j) \<and> blk_holds sect gl (blk j) ((lay(i := its)) j)" if j: "j < n" for j
  proof (cases "j = i")
    case True
    have "blk_hdr_ok gl (blk i)"
      using kv_inv_hdr [OF inv i] by (rule hdr_frame) (simp add: cells)
    with True holds show ?thesis by simp
  next
    case False
    have "blk_hdr_ok gl (blk j) \<and> blk_holds sect gl (blk j) (lay j)"
      by (rule blks_frame [OF inv i _ j False]) (auto intro!: cells)
    with False show ?thesis by simp
  qed
  ultimately show ?thesis
    using inv s' by (simp add: kv_inv_def)
qed

lemma idx_room: "idx_ok sect d its \<Longrightarrow> 24 < sect - 32 - ents_size its \<Longrightarrow> free_size d = sect - 32 - ents_size its"
  by (auto simp: idx_ok_def)

lemma idx_okI: "free_size d = sect - 32 - ents_size its \<Longrightarrow> \<not> bit (blk_flags d) 0 \<Longrightarrow>
   \<not> bit (blk_flags d) 3 \<Longrightarrow> \<not> bit (blk_flags d) 4 \<Longrightarrow> idx_ok sect d its"
  by (simp add: idx_ok_def)

lemma saved_step:
  assumes g: "geo s" and i: "i < n" and ok: "idx_ok sect (kv_detail s i) its"
    and sz: "24 < sz" "32 + ents_size its + sz \<le> sect"
  shows "only i s (kv_item_saved s (blk i) sz)"
    and "its' \<noteq> [] \<Longrightarrow> ents_size its' = ents_size its + sz \<Longrightarrow> idx_ok sect (kv_detail (kv_item_saved s (blk i) sz) i) its'"
proof -
  let ?d = "kv_detail s i"
  let ?f = "sect - 32 - ents_size its - sz"
  have fr: "free_size ?d = sect - 32 - ents_size its" using ok sz by (intro idx_room) simp_all
  have red: "kv_blk_freesz_reduce s (blk i) sz = kv_blk_freesz_set s (blk i) ?f"
    using g i sz sect_small by (simp add: kv_blk_freesz_reduce_def fr sub_u32_noborrow)
  define s1 where "s1 = kv_blk_freesz_set s (blk i) ?f"
  have s1: "only i s s1" "kv_detail s1 i = ?d\<lparr>free_size := ?f\<rparr>"
    unfolding s1_def by (rule freesz_set_step [OF g i])+
  then have g1: "geo s1" by (simp add: only_geo)
  define s2 where "s2 = kv_blk_reset_fresh s1 (blk i)"
  have s2: "only i s1 s2" "kv_detail s2 i = ?d\<lparr>free_size := ?f, blk_flags := blk_flags ?d AND NOT KV_BLK_FLAG_FRESH\<rparr>"
    unfolding s2_def using reset_fresh_step [OF g1 i] s1(2) by simp_all
  then have g2: "geo s2" by (simp add: only_geo)
  have r: "kv_item_saved s (blk i) sz =
      (if bit (blk_flags ?d) 0 then if 24 < ?f then kv_blk_set_inuse s2 (blk i) else s2
       else if ?f \<le> 24 then kv_blk_reset_inuse s1 (blk i) else s1)"
    unfolding kv_item_saved_def red s1_def [symmetric] Let_def s2_def [symmetric]
    using g1 g2 i s1(2) s2(2) by (simp add: not_le del: bit_0)
  note u = set_inuse_step [OF g2 i] reset_inuse_step [OF g1 i]
  show "only i s (kv_item_saved s (blk i) sz)"
    unfolding r using s1(1) s2(1) u(1,3) by (auto intro: only_trans)
  assume "its' \<noteq> []" and "ents_size its' = ents_size its + sz"
  then have f: "?f = sect - 32 - ents_size its'" by simp
  have nb: "\<not> bit (blk_flags ?d) 3" "\<not> bit (blk_flags ?d) 4" using ok by (simp_all add: idx_ok_def)
  have fs: "free_size (kv_detail (kv_item_saved s (blk i) sz) i) = ?f"
    unfolding r using s1(2) s2(2) u(2,4) by (simp del: bit_0)
  have fl: "\<not> bit (blk_flags (kv_detail (kv_item_saved s (blk i) sz) i)) k" if "k = 0 \<or> k = 3 \<or> k = 4" for k
    unfolding r using that nb s1(2) s2(2) u(2,4) by (auto simp: flag_simps simp del: bit_0)
  show "idx_ok sect (kv_detail (kv_item_saved s (blk i) sz) i) its'"
    by (intro idx_okI fs [unfolded f] fl) simp_all
qed

text \<open>Saving a new entry behind the entries of block \<open>i\<close>.\<close>

lemma append_step:
  assumes inv: "kv_inv s lay" and i: "i < n" and kv: "kv_ok k v" and prev: "prev < 2 ^ 24"
    and room: "32 + ents_size (lay i) + (24 + length k + length v) \<le> sect"
  shows "\<exists>s'. kv_item_do_save s (KV_BLK_USABLE_ADDR s (blk i)) k v prev = Some (KV_ERR_NONE, s')
    \<and> kv_inv (kv_item_saved s' (blk i) (24 + length k + length v)) (lay(i := lay i @ [new_ent k v prev]))
    \<and> kv_workspace (kv_item_saved s' (blk i) (24 + length k + length v)) = kv_workspace s"
proof -
  have g: "geo s" by (rule kv_inv_geo [OF inv])
  have ok: "idx_ok sect (kv_detail s i) (lay i)" by (rule kv_inv_idx_ok [OF inv i])
  have "0 < length k" using kv by (simp add: kv_ok_def)
  then have "24 < sect - 32 - ents_size (lay i)" using room by linarith
  with ok have "free_size (kv_detail s i) = sect - 32 - ents_size (lay i)" by (rule idx_room)
  then have addr: "KV_BLK_USABLE_ADDR s (blk i) = blk i + 32 + ents_size (lay i)"
    using usable_addr [OF g i] kv_inv_size [OF inv i] by simp
  let ?e = "new_ent k v prev"
  let ?sz = "24 + length k + length v"
  define gl where "gl = item_cells (kv_cells s) (blk i + 32 + ents_size (lay i)) ?e"
  have eok: "ent_ok ?e" by (rule new_ent_ok [OF kv prev])
  have sv: "kv_item_do_save s (KV_BLK_USABLE_ADDR s (blk i)) k v prev = Some (KV_ERR_NONE, s\<lparr>kv_cells := gl\<rparr>)"
    unfolding addr gl_def by (rule do_save_ok [OF g i kv_inv_blk [OF inv i] kv prev room])
  have pos: "24 < ?sz" using kv by (simp add: kv_ok_def)
  note S = saved_step [where s = "s\<lparr>kv_cells := gl\<rparr>" and i = i and its = "lay i" and sz = ?sz]
  have holds: "blk_holds sect gl (blk i) (lay i @ [?e])"
    unfolding gl_def using kv_inv_blk [OF inv i] eok room by (intro blk_holds_item_cells) simp_all
  have out: "x < blk i + 32 \<or> blk i + sect \<le> x \<Longrightarrow> gl x = kv_cells s x" for x
    unfolding gl_def using room by (intro item_cells_other) auto
  have only: "only i (s\<lparr>kv_cells := gl\<rparr>) (kv_item_saved (s\<lparr>kv_cells := gl\<rparr>) (blk i) ?sz)"
    using S(1) g i ok pos room by simp
  have "idx_ok sect (kv_detail (kv_item_saved (s\<lparr>kv_cells := gl\<rparr>) (blk i) ?sz) i) (lay i @ [?e])"
    using S(2) [where its' = "lay i @ [?e]"] g i ok pos room by simp
  with kv_inv_change [OF inv i out holds only]
  have "kv_inv (kv_item_saved (s\<lparr>kv_cells := gl\<rparr>) (blk i) ?sz) (lay(i := lay i @ [?e]))" by simp
  with sv only show ?thesis by (auto simp: only_def same_flash_def)
qed

section \<open>Discarding an item\<close>

lemma delete_step:
  assumes inv: "kv_inv s lay" and i: "i < n" and lay: "lay i = xs @ e # ys" and live: "e_live e"
  shows "\<exists>s'. kv_item_delete_aux s (blk i + 32 + ents_size xs) = Some (KV_ERR_NONE, s')
    \<and> kv_inv s' (lay(i := xs @ ent_kill e # ys)) \<and> kv_workspace s' = kv_workspace s"
proof -
  let ?p = "blk i + 32 + ents_size xs"
  have g: "geo s" by (rule kv_inv_geo [OF inv])
  have h: "blk_holds sect (kv_cells s) (blk i) (xs @ e # ys)" using kv_inv_blk [OF inv i] lay by simp
  have sz: "32 + ents_size xs + esize e \<le> sect" by (rule blk_holds_split(3) [OF h])
  have p: "?p + 8 \<le> lim" "blk i \<le> ?p" "?p < blk i + sect"
    using sz blk_lim [OF i] by (simp_all add: esize_def)
  define gl where "gl = kill_cells (kv_cells s) ?p"
  define s1 where "s1 = s\<lparr>kv_cells := gl\<rparr>"
  have g1: "geo s1" using g by (simp add: s1_def)
  have "flag_bytes False \<noteq> []" by (simp add: flag_bytes_def)
  then have r: "kv_item_delete_aux s ?p = Some (KV_ERR_NONE, kv_blk_set_dirty s1 (blk i))"
    using g p i g1
    by (simp add: kv_item_delete_aux_def kv_item_do_delete_def kv_flash_wunit_modify_def le_bytes_discarded
        write_ok gl_def kill_cells_def s1_def)
  have holds: "blk_holds sect gl (blk i) (xs @ ent_kill e # ys)"
    unfolding gl_def by (rule blk_holds_kill [OF h live])
  have out: "x < blk i + 32 \<or> blk i + sect \<le> x \<Longrightarrow> gl x = kv_cells s x" for x
    unfolding gl_def using sz by (intro kill_cells_other) (auto simp: esize_def)
  note D = dirty_step [OF g1 i]
  have "idx_ok sect (kv_detail s i) (xs @ e # ys)" using kv_inv_idx_ok [OF inv i] lay by simp
  then have "idx_ok sect (kv_detail (kv_blk_set_dirty s1 (blk i)) i) (xs @ ent_kill e # ys)"
    unfolding D(2) by (auto simp: s1_def idx_ok_def flag_simps simp del: bit_0)
  with kv_inv_change [OF inv i out holds D(1) [unfolded s1_def]]
  have "kv_inv (kv_blk_set_dirty s1 (blk i)) (lay(i := xs @ ent_kill e # ys))" by (simp add: s1_def)
  moreover have "kv_workspace (kv_blk_set_dirty s1 (blk i)) = kv_workspace s"
    using D(1) by (simp add: only_def same_flash_def s1_def)
  ultimately show ?thesis using r by blast
qed

end

end
