(* ===== verification/Kv_Gc.thy ===== *)
theory Kv_Gc
  imports Kv_Write
begin

text \<open>
  Garbage collection: \<open>kv_do_gc\<close> moves the live entries of a block to a fresh one, in order,
  and leaves the source fresh.  On the layout that is \<open>gc_lay\<close>; the live entries of the
  store stay the same.
\<close>

definition gc_lay :: "nat \<Rightarrow> nat \<Rightarrow> (nat \<Rightarrow> kv_ent list) \<Rightarrow> nat \<Rightarrow> kv_ent list" where
  "gc_lay src dst lay = lay(src := [], dst := filter e_live (lay src))"

lemma ents_size_filter: "ents_size (filter p its) \<le> ents_size its"
  by (induction its) auto

context kv_store begin

section \<open>Copying\<close>

text \<open>The state \<open>t\<close> of the copy from \<open>s\<close> on after the entries \<open>xs\<close>.\<close>

definition gc_copy :: "nat \<Rightarrow> nat \<Rightarrow> kv_ctl \<Rightarrow> kv_ent list \<Rightarrow> kv_ctl \<Rightarrow> bool" where
  "gc_copy src dst s xs t \<longleftrightarrow> geo t \<and> kv_workspace t = kv_workspace s \<and> cnt_inv t
     \<and> blk_holds sect (kv_cells t) (blk dst) (filter e_live xs)
     \<and> (\<forall>x. x < blk dst + 32 \<or> blk dst + sect \<le> x \<longrightarrow> kv_cells t x = kv_cells s x)
     \<and> (\<forall>j. j \<noteq> src \<longrightarrow> j \<noteq> dst \<longrightarrow> kv_detail t j = kv_detail s j)
     \<and> kv_detail t dst = \<lparr>blk_flags = KV_BLK_FLAG_FRESH, free_size = sect - 32 - ents_size (filter e_live xs)\<rparr>"

lemma gc_copy_src:
  assumes "gc_copy src dst s xs t" and "src \<noteq> dst" and "blk_holds sect (kv_cells s) (blk src) its"
  shows "blk_holds sect (kv_cells t) (blk src) its"
  using assms(1) blk_disjoint [OF assms(2)]
  by (intro blk_holds_cong [OF assms(3)]) (auto simp: gc_copy_def)

lemma gc_copy_dead:
  assumes c: "gc_copy src dst s xs t" and ne: "src \<noteq> dst" and i: "src < n" and d: "\<not> e_live e"
  shows "gc_copy src dst s (xs @ [e]) (kv_blk_set_dirty t (blk src))"
proof -
  have "geo t" using c by (simp add: gc_copy_def)
  from dirty_step(1) [OF this i] c ne d show ?thesis
    by (auto simp: gc_copy_def only_def same_flash_def)
qed

lemma gc_copy_live:
  assumes c: "gc_copy src dst s xs t" and ne: "src \<noteq> dst" and i: "src < n" "dst < n" and live: "e_live e"
    and h: "blk_holds sect (kv_cells s) (blk src) (xs @ e # ys)"
  shows "\<exists>it t'. kv_item_do_gc (blk dst) t (mk_item e (blk src + 32 + ents_size xs) [])
      = Some (KV_ERR_NEXT_LOOP, it, t') \<and> gc_copy src dst s (xs @ [e]) t'"
proof -
  let ?D = "filter e_live xs"
  have g: "geo t" and hd: "blk_holds sect (kv_cells t) (blk dst) ?D"
    and dd: "kv_detail t dst = \<lparr>blk_flags = KV_BLK_FLAG_FRESH, free_size = sect - 32 - ents_size ?D\<rparr>"
    using c by (simp_all add: gc_copy_def)
  have ht: "blk_holds sect (kv_cells t) (blk src) (xs @ e # ys)" by (rule gc_copy_src [OF c ne h])
  have ok: "ent_ok e" by (rule blk_holds_split(2) [OF h])
  have room: "32 + ents_size ?D + esize e \<le> sect"
    using blk_holds_split(3) [OF h] ents_size_filter [of e_live xs] by linarith
  define p where "p = blk dst + 32 + ents_size ?D"
  have addr: "KV_BLK_USABLE_ADDR t (blk dst) = p"
    using usable_addr [OF g i(2)] room by (simp add: dd p_def)
  define gl where "gl = item_cells (kv_cells t) p e"
  define t1 where "t1 = t\<lparr>kv_cells := gl\<rparr>"
  have g1: "geo t1" using g by (simp add: t1_def)
  have w: "kv_item_write t p (ent_hdr e) (e_key e @ e_val e) = Some (KV_ERR_NONE, t1)"
    unfolding p_def t1_def gl_def using item_write_ok [OF g i(2) hd ok live room] by simp
  define fr where "fr = sect - 32 - ents_size ?D - esize e"
  define t2 where "t2 = kv_blk_freesz_set t1 (blk dst) fr"
  have d1: "kv_detail t1 dst = \<lparr>blk_flags = KV_BLK_FLAG_FRESH, free_size = sect - 32 - ents_size ?D\<rparr>"
    by (simp add: t1_def dd)
  have sub: "sub_u32 (sect - 32 - ents_size ?D) (esize e) = fr"
  proof -
    have "sect < 16777216" using sect_small by simp
    then have "sect - 32 - ents_size ?D < 2 ^ 32" and "esize e \<le> sect - 32 - ents_size ?D"
      using room by simp_all
    then show ?thesis unfolding fr_def by (intro sub_u32_noborrow)
  qed
  have red: "kv_blk_freesz_reduce t1 (blk dst) (esize e) = t2"
    unfolding kv_blk_freesz_reduce_def t2_def using g1 i(2) by (simp only: index_get d1 kv_blk_detail.simps sub)
  have it: "KV_ITEM_SIZE_OF_BODY t (mk_item e q b) = length (e_key e) + length (e_val e)"
      "KV_ITEM_SIZE_OF_ITEM t1 (mk_item e q b) = esize e" for q b
    using g g1 by (simp_all add: KV_ITEM_SIZE_OF_BODY_def KV_ITEM_SIZE_OF_ITEM_def esize_def)
  have r: "kv_item_do_gc (blk dst) t (mk_item e (blk src + 32 + ents_size xs) [])
      = Some (KV_ERR_NEXT_LOOP, mk_item e (blk src + 32 + ents_size xs) (e_key e @ e_val e), t2)"
    unfolding kv_item_do_gc_def using body_read_ok [OF g i(1) ht, of "[]"] by (simp add: addr w it red)
  note F = freesz_set_step [OF g1 i(2), of fr]
  have "blk_holds sect gl (blk dst) (filter e_live (xs @ [e]))"
    unfolding gl_def p_def using blk_holds_item_cells [OF hd ok live room] live by simp
  moreover have "gl x = kv_cells t x" if "x < blk dst + 32 \<or> blk dst + sect \<le> x" for x
    unfolding gl_def p_def using that room by (intro item_cells_other) auto
  moreover have "kv_detail t2 dst
      = \<lparr>blk_flags = KV_BLK_FLAG_FRESH, free_size = sect - 32 - ents_size (filter e_live (xs @ [e]))\<rparr>"
    unfolding t2_def F(2) d1 using live by (simp add: fr_def add.assoc)
  ultimately have "gc_copy src dst s (xs @ [e]) t2"
    using c F(1) unfolding gc_copy_def t2_def [symmetric]
    by (auto simp: only_def same_flash_def t1_def cnt_inv_def)
  with r show ?thesis by blast
qed

lemma gc_walk:
  assumes g: "geo s" and cnt: "cnt_inv s" and ne: "src \<noteq> dst" and i: "src < n" "dst < n"
    and h: "blk_holds sect (kv_cells s) (blk src) its" and hd: "blk_holds sect (kv_cells s) (blk dst) []"
    and dd: "kv_detail s dst = \<lparr>blk_flags = KV_BLK_FLAG_FRESH, free_size = sect - 32\<rparr>"
  shows "\<exists>t. kv_item_walkthru s (blk src) (kv_item_do_gc (blk dst)) = Some (KV_ERR_NONE, None, t)
           \<and> gc_copy src dst s its t"
proof -
  let ?Q = "\<lambda>xs e it t. False"
  have "(\<exists>t. kv_item_walk_loop (kv_item_do_gc (blk dst)) (blk src) s (blk src + 32 + ents_size [])
         = Some (KV_ERR_NONE, None, kv_item_walk_end t (blk src) (blk src + 32 + ents_size its))
         \<and> gc_copy src dst s its t)
    \<or> (\<exists>zs e ws it t. its = zs @ e # ws \<and> e_live e
         \<and> kv_item_walk_loop (kv_item_do_gc (blk dst)) (blk src) s (blk src + 32 + ents_size [])
           = Some (KV_ERR_NONE, Some it, t) \<and> ?Q zs e it t)"
  proof (rule walk_rule [where P = "gc_copy src dst s" and Q = ?Q, OF i(1)])
    show "gc_copy src dst s xs t \<Longrightarrow> geo t \<and> blk_holds sect (kv_cells t) (blk src) its" for xs t
      using gc_copy_src [OF _ ne h] by (auto simp: gc_copy_def)
    show "gc_copy src dst s (xs @ [e]) (kv_blk_set_dirty t (blk src))"
      if "its = xs @ e # ys" "\<not> e_live e" "gc_copy src dst s xs t" for xs e ys t
      by (rule gc_copy_dead [OF that(3) ne i(1) that(2)])
    show "(\<exists>it t'. kv_item_do_gc (blk dst) t (mk_item e (blk src + 32 + ents_size xs) [])
             = Some (KV_ERR_NEXT_LOOP, it, t') \<and> gc_copy src dst s (xs @ [e]) t')
        \<or> (\<exists>it t'. kv_item_do_gc (blk dst) t (mk_item e (blk src + 32 + ents_size xs) [])
             = Some (KV_ERR_NONE, it, t') \<and> ?Q xs e it t')"
      if "its = xs @ e # ys" "e_live e" "gc_copy src dst s xs t" for xs e ys t
      using gc_copy_live [OF that(3) ne i that(2)] h that(1) by blast
    show "its = [] @ its" by simp
    show "gc_copy src dst s [] s" using g cnt hd dd by (simp add: gc_copy_def)
    show "its \<noteq> [] \<or> 32 + ents_size [] + 24 < sect" using sect64 by simp
  qed
  then obtain t where r: "kv_item_walkthru s (blk src) (kv_item_do_gc (blk dst))
      = Some (KV_ERR_NONE, None, kv_item_walk_end t (blk src) (blk src + 32 + ents_size its))"
    and c: "gc_copy src dst s its t" using g by (auto simp: kv_item_walkthru_def)
  have "geo t" using c by (simp add: gc_copy_def)
  from walk_end_only [OF this i(1)] have "gc_copy src dst s its (kv_item_walk_end t (blk src) x)" for x
    using c ne unfolding gc_copy_def by (auto simp: only_def same_flash_def)
  with r show ?thesis by blast
qed

section \<open>Formatting\<close>

lemma erase_ok: "geo s \<Longrightarrow> i < n \<Longrightarrow>
   kv_flash_blk_erase s (blk i) = Some (KV_ERR_NONE, s\<lparr>kv_cells := nor_erase (kv_cells s) (blk i) sect\<rparr>)"
  using drv_erase [of "blk i" sect] blk_lim [of i] blk_aligned [of i]
  by (simp add: kv_flash_blk_erase_def kv_flash_erase_def geo_sel)

definition format_cells :: "nor \<Rightarrow> nat \<Rightarrow> nor" where
  "format_cells fl a = nor_write (nor_erase fl a sect) a (le_bytes 8 KV_BLK_HDR_MAGIC)"

lemma format_cells_other: "x < a \<or> a + sect \<le> x \<Longrightarrow> format_cells fl a x = fl x"
  using sect64 by (auto simp: format_cells_def nor_write_other nor_erase_other)

lemma format_cells_blank: "8 \<le> k \<Longrightarrow> k + m \<le> sect \<Longrightarrow> blank (format_cells fl a) (a + k) m"
  by (simp add: format_cells_def blank_write_other blank_erase_sub)

lemma format_cells_hdr: "blk_hdr_ok (format_cells fl a) a"
proof -
  have "blank (nor_erase fl a sect) a 8" using sect64 by (intro blank_erase_sub) simp_all
  then have "nor_read (format_cells fl a) a 8 = le_bytes 8 KV_BLK_HDR_MAGIC"
    using nor_read_write_blank [of "nor_erase fl a sect" a "le_bytes 8 KV_BLK_HDR_MAGIC"]
    by (simp add: format_cells_def)
  then show ?thesis
    using format_cells_blank [of 8 8 fl a] format_cells_blank [of 16 8 fl a] sect64
    by (simp add: blk_hdr_ok_def)
qed

lemma format_cells_holds: "blk_holds sect (format_cells fl a) a []"
  using format_cells_blank [of 32 "sect - 32" fl a] sect64 by (intro blk_holds_blank) simp_all

lemma format_ok:
  assumes "geo s" and "i < n"
  shows "kv_blk_format s (blk i) = Some (KV_ERR_NONE,
    kv_blk_set_fresh (s\<lparr>kv_cells := format_cells (kv_cells s) (blk i)\<rparr>) (blk i))"
proof -
  have "le_bytes 8 KV_BLK_HDR_MAGIC \<noteq> []" by (metis length_le_bytes list.size(3) zero_neq_numeral)
  moreover have "blk i + 8 \<le> lim" using blk_lim [OF assms(2)] sect64 by linarith
  ultimately show ?thesis
    using assms by (simp add: kv_blk_format_def erase_ok kv_flash_wunit_modify_def write_ok format_cells_def)
qed

lemma mark_ok:
  assumes "geo s" and "i < n" and "k + 8 \<le> 32"
  shows "kv_flash_wunit_modify s (blk i + k) v
    = Some (KV_ERR_NONE, s\<lparr>kv_cells := nor_write (kv_cells s) (blk i + k) (le_bytes 8 v)\<rparr>)"
proof -
  have "le_bytes 8 v \<noteq> []" by (metis length_le_bytes list.size(3) zero_neq_numeral)
  moreover have "blk i + k + 8 \<le> lim" using blk_lim [OF assms(2)] assms(3) sect64 by linarith
  ultimately show ?thesis using assms(1) by (simp add: kv_flash_wunit_modify_def write_ok)
qed

section \<open>A whole collection\<close>

lemma blk_flags_fresh_rmv: "KV_BLK_FLAG_FRESH AND NOT KV_BLK_FLAG_FRESH = 0"
  by simp

lemma done_not_blank: "\<not> blank (nor_write fl a (le_bytes 8 KV_BLK_HDR_GC_DONE)) a 8"
proof
  assume b: "blank (nor_write fl a (le_bytes 8 KV_BLK_HDR_GC_DONE)) a 8"
  have "le_bytes 8 KV_BLK_HDR_GC_DONE ! 0 = 0x6B"
    using nth_le_bytes [of 0 8 KV_BLK_HDR_GC_DONE] by (simp add: KV_BLK_HDR_GC_DONE_def)
  then have "nor_write fl a (le_bytes 8 KV_BLK_HDR_GC_DONE) a = fl a AND 0x6B"
    by (simp add: nor_write_def)
  then have "fl a AND 0x6B = - 1" using b by (simp add: blank_def)
  then have "bit (fl a AND 0x6B :: byte) 2 = bit (- 1 :: byte) 2" by simp
  then show False by (simp add: bit_simps)
qed

text \<open>
  From a state in which the destination is empty and fresh; the marks may already be set.
\<close>

lemma do_gc_core:
  assumes g: "geo s" and cnt: "cnt_inv s" and ne: "src \<noteq> dst" and i: "src < n" "dst < n"
    and h: "blk_holds sect (kv_cells s) (blk src) its" and hd: "blk_holds sect (kv_cells s) (blk dst) []"
    and dd: "kv_detail s dst = \<lparr>blk_flags = KV_BLK_FLAG_FRESH, free_size = sect - 32\<rparr>"
  shows "\<exists>s'. kv_do_gc s (blk src) (blk dst) inc = Some (KV_ERR_NONE, s') \<and> geo s' \<and> cnt_inv s'
    \<and> kv_workspace s' = kv_workspace s
    \<and> (\<forall>x. (x < blk src \<or> blk src + sect \<le> x) \<longrightarrow> (x < blk dst \<or> blk dst + sect \<le> x) \<longrightarrow> kv_cells s' x = kv_cells s x)
    \<and> (\<forall>x. blk dst \<le> x \<longrightarrow> x < blk dst + 16 \<longrightarrow> kv_cells s' x = kv_cells s x)
    \<and> \<not> blank (kv_cells s') (blk dst + 24) 8
    \<and> blk_hdr_ok (kv_cells s') (blk src) \<and> blk_holds sect (kv_cells s') (blk src) []
    \<and> blk_holds sect (kv_cells s') (blk dst) (filter e_live its)
    \<and> (\<forall>j. j \<noteq> src \<longrightarrow> j \<noteq> dst \<longrightarrow> kv_detail s' j = kv_detail s j)
    \<and> blk_flags (kv_detail s' src) = KV_BLK_FLAG_FRESH \<and> free_size (kv_detail s' src) = sect - 32
    \<and> (blk_flags (kv_detail s' dst) = 0 \<or> blk_flags (kv_detail s' dst) = KV_BLK_FLAG_INUSE)
    \<and> free_size (kv_detail s' dst) = sect - 32 - ents_size (filter e_live its)"
proof -
  have disj: "blk src + sect \<le> blk dst \<or> blk dst + sect \<le> blk src" by (rule blk_disjoint [OF ne])
  let ?m1 = "if inc then kv_cells s else nor_write (kv_cells s) (blk src + 8) (le_bytes 8 KV_BLK_HDR_GC_SRC)"
  define c2 where "c2 = nor_write ?m1 (blk dst + 16) (le_bytes 8 KV_BLK_HDR_GC_DST)"
  define s2 where "s2 = s\<lparr>kv_cells := c2\<rparr>"
  have g2: "geo s2" using g by (simp add: s2_def)
  have c2: "c2 x = kv_cells s x" if "x < blk src + 8 \<or> blk src + 16 \<le> x" "x < blk dst + 16 \<or> blk dst + 24 \<le> x" for x
  proof -
    have "x < blk src + 8 \<or> blk src + 8 + length (le_bytes 8 KV_BLK_HDR_GC_SRC) \<le> x"
      "x < blk dst + 16 \<or> blk dst + 16 + length (le_bytes 8 KV_BLK_HDR_GC_DST) \<le> x"
      using that by (auto simp: add.commute)
    then show ?thesis unfolding c2_def by (cases inc) (simp_all only: nor_write_other if_True if_False)
  qed
  have marks: "kv_do_gc s (blk src) (blk dst) inc = do {
     (err, _, s) \<leftarrow> kv_item_walkthru s2 (blk src) (kv_item_do_gc (blk dst));
     if err \<noteq> KV_ERR_NONE then Some (err, s) else do {
     let s = kv_blk_reset_inuse s (blk src);
     (err, s) \<leftarrow> kv_blk_format s (blk src);
     let s = (if err \<noteq> KV_ERR_NONE then kv_blk_set_bad s (blk src) else s);
     (err, s) \<leftarrow> kv_blk_mark_gc_done s (blk dst);
     if err \<noteq> KV_ERR_NONE then Some (err, s) else
     let s = kv_blk_reset_fresh s (blk dst) in
     Some (KV_ERR_NONE, if \<not> kv_blk_is_full s (blk dst) then kv_blk_set_inuse s (blk dst) else s) } }"
    using mark_ok [OF g i(1), of 8 KV_BLK_HDR_GC_SRC] mark_ok [OF _ i(2), of _ 16 KV_BLK_HDR_GC_DST] g
    unfolding kv_do_gc_def kv_blk_mark_gc_src_def kv_blk_mark_gc_dst_def s2_def c2_def
    by (cases inc) (simp_all only: not_True_eq_False not_False_eq_True if_True if_False bind.bind_lunit
        prod.case simp_thms geo_upd, simp_all)
  have h2: "blk_holds sect c2 (blk src) its"
    by (rule blk_holds_cong [OF h]) (use disj sect64 in \<open>auto intro!: c2\<close>)
  have hd2: "blk_holds sect c2 (blk dst) []"
    by (rule blk_holds_cong [OF hd]) (use disj sect64 in \<open>auto intro!: c2\<close>)
  obtain t where w: "kv_item_walkthru s2 (blk src) (kv_item_do_gc (blk dst)) = Some (KV_ERR_NONE, None, t)"
    and c: "gc_copy src dst s2 its t"
    using gc_walk [OF g2 _ ne i, of its] cnt h2 hd2 dd by (auto simp: s2_def cnt_inv_def)
  have gt: "geo t" and ct: "cnt_inv t" and wt: "kv_workspace t = kv_workspace s"
    and ht: "blk_holds sect (kv_cells t) (blk dst) (filter e_live its)"
    and xt: "\<And>x. x < blk dst + 32 \<or> blk dst + sect \<le> x \<Longrightarrow> kv_cells t x = c2 x"
    and jt: "\<And>j. j \<noteq> src \<Longrightarrow> j \<noteq> dst \<Longrightarrow> kv_detail t j = kv_detail s j"
    and dt: "kv_detail t dst = \<lparr>blk_flags = KV_BLK_FLAG_FRESH, free_size = sect - 32 - ents_size (filter e_live its)\<rparr>"
    using c by (auto simp: gc_copy_def s2_def)
  define t2 where "t2 = kv_blk_reset_inuse t (blk src)"
  have o2: "only src t t2" unfolding t2_def by (rule reset_inuse_step(1) [OF gt i(1)])
  then have gt2: "geo t2" by (rule only_geo)
  define fc where "fc = format_cells (kv_cells t) (blk src)"
  define t3 where "t3 = kv_blk_set_fresh (t2\<lparr>kv_cells := fc\<rparr>) (blk src)"
  have ct2: "kv_cells t2 = kv_cells t" using o2 by (simp add: only_def same_flash_def)
  have fmt: "kv_blk_format t2 (blk src) = Some (KV_ERR_NONE, t3)"
    unfolding t3_def fc_def ct2 [symmetric] by (rule format_ok [OF gt2 i(1)])
  have o3: "only src (t2\<lparr>kv_cells := fc\<rparr>) t3" and d3: "kv_detail t3 src
      = (kv_detail t2 src)\<lparr>free_size := sect - 32, blk_flags := KV_BLK_FLAG_FRESH\<rparr>"
    unfolding t3_def using set_fresh_step [of "t2\<lparr>kv_cells := fc\<rparr>" src] gt2 i(1) by simp_all
  have gt3: "geo t3" using o3 by (rule only_geo)
  define c4 where "c4 = nor_write fc (blk dst + 24) (le_bytes 8 KV_BLK_HDR_GC_DONE)"
  define t4 where "t4 = t3\<lparr>kv_cells := c4\<rparr>"
  have ct3: "kv_cells t3 = fc" using o3 by (simp add: only_def same_flash_def)
  have dn: "kv_blk_mark_gc_done t3 (blk dst) = Some (KV_ERR_NONE, t4)"
    unfolding kv_blk_mark_gc_done_def t4_def c4_def using mark_ok [OF gt3 i(2), of 24] by (simp add: ct3)
  have gt4: "geo t4" using gt3 by (simp add: t4_def)
  have d4: "kv_detail t4 dst = \<lparr>blk_flags = KV_BLK_FLAG_FRESH, free_size = sect - 32 - ents_size (filter e_live its)\<rparr>"
    using o2 o3 ne dt by (simp add: only_def t4_def)
  define t5 where "t5 = kv_blk_reset_fresh t4 (blk dst)"
  have o5: "only dst t4 t5" and d5: "kv_detail t5 dst
      = \<lparr>blk_flags = 0, free_size = sect - 32 - ents_size (filter e_live its)\<rparr>"
    unfolding t5_def using reset_fresh_step [OF gt4 i(2)] d4 by (simp_all add: blk_flags_fresh_rmv)
  have gt5: "geo t5" using o5 by (rule only_geo)
  define t6 where "t6 = (if \<not> kv_blk_is_full t5 (blk dst) then kv_blk_set_inuse t5 (blk dst) else t5)"
  have o6: "only dst t5 t6"
    unfolding t6_def using set_inuse_step(1) [OF gt5 i(2)] only_refl [OF gt5] by simp
  have d6: "(blk_flags (kv_detail t6 dst) = 0 \<or> blk_flags (kv_detail t6 dst) = KV_BLK_FLAG_INUSE)
      \<and> free_size (kv_detail t6 dst) = sect - 32 - ents_size (filter e_live its)"
    unfolding t6_def using set_inuse_step(2) [OF gt5 i(2)] d5 by simp
  have run: "kv_do_gc s (blk src) (blk dst) inc = Some (KV_ERR_NONE, t6)"
    unfolding marks by (simp add: w t2_def [symmetric] fmt dn t5_def [symmetric] t6_def [symmetric])
  have o56: "only dst t4 t6" by (rule only_trans [OF o5 o6])
  have c6: "kv_cells t6 = c4" using o56 by (simp add: only_def same_flash_def t4_def)
  have det: "kv_detail t6 j = kv_detail s j" if "j \<noteq> src" "j \<noteq> dst" for j
    using that o56 o3 o2 jt by (simp add: only_def t4_def)
  have det_src: "kv_detail t6 src = (kv_detail t2 src)\<lparr>free_size := sect - 32, blk_flags := KV_BLK_FLAG_FRESH\<rparr>"
    using o56 ne d3 by (simp add: only_def t4_def)
  have cnt6: "cnt_inv t6"
    using o56 o3 o2 ct by (simp add: only_def t4_def cnt_inv_def)
  have ws6: "kv_workspace t6 = kv_workspace s"
    using o56 o3 o2 wt by (simp add: only_def same_flash_def t4_def)
  have c4x: "c4 x = fc x" if "x < blk dst + 24 \<or> blk dst + 32 \<le> x" for x
    unfolding c4_def by (rule nor_write_other) (use that in \<open>auto simp: add.commute\<close>)
  have fcx: "fc x = kv_cells t x" if "x < blk src \<or> blk src + sect \<le> x" for x
    using that by (simp add: fc_def format_cells_other)
  have src_x: "c4 x = fc x" if "blk src \<le> x" "x < blk src + sect" for x
    using that disj sect64 by (intro c4x) auto
  have out: "c4 x = kv_cells s x"
    if "x < blk src \<or> blk src + sect \<le> x" "x < blk dst \<or> blk dst + sect \<le> x" for x
    using that sect64 c4x [of x] fcx [of x] xt [of x] c2 [of x] by auto
  have dst16: "c4 x = kv_cells s x" if "blk dst \<le> x" "x < blk dst + 16" for x
    using that disj sect64 c4x [of x] fcx [of x] xt [of x] c2 [of x] by auto
  have hsrc: "blk_hdr_ok c4 (blk src)"
    using format_cells_hdr [of "kv_cells t" "blk src"]
    by (rule hdr_frame) (use src_x sect64 in \<open>auto simp: fc_def\<close>)
  have bsrc: "blk_holds sect c4 (blk src) []"
    using format_cells_holds [of "kv_cells t" "blk src"]
    by (rule blk_holds_cong) (use src_x in \<open>auto simp: fc_def\<close>)
  have bdst: "blk_holds sect c4 (blk dst) (filter e_live its)"
  proof (rule blk_holds_cong [OF ht])
    fix x
    assume "blk dst + 32 \<le> x" "x < blk dst + sect"
    then show "c4 x = kv_cells t x" using disj c4x [of x] fcx [of x] by auto
  qed
  have nb: "\<not> blank c4 (blk dst + 24) 8" unfolding c4_def by (rule done_not_blank)
  show ?thesis
    using run o56 cnt6 ws6 out dst16 nb hsrc bsrc bdst det det_src d6 by (auto simp: only_geo c6)
qed

text \<open>The same for a store that satisfies its invariant.\<close>

lemma do_gc_step:
  assumes inv: "kv_inv s lay" and i: "src < n" "dst < n" and ne: "src \<noteq> dst"
    and fresh: "bit (blk_flags (kv_detail s dst)) 0"
  shows "\<exists>s'. kv_do_gc s (blk src) (blk dst) False = Some (KV_ERR_NONE, s') \<and> kv_inv s' (gc_lay src dst lay)
    \<and> kv_workspace s' = kv_workspace s
    \<and> (\<forall>j<n. bit (blk_flags (kv_detail s' j)) 2 \<longleftrightarrow> j \<noteq> src \<and> bit (blk_flags (kv_detail s j)) 2)
    \<and> bit (blk_flags (kv_detail s' src)) 0"
proof -
  have g: "geo s" by (rule kv_inv_geo [OF inv])
  have cnt: "cnt_inv s" using kv_inv_idx [OF inv] by (simp add: idx_inv_def cnt_inv_def)
  have okd: "idx_ok sect (kv_detail s dst) (lay dst)" by (rule kv_inv_idx_ok [OF inv i(2)])
  with fresh have empty: "lay dst = []" and fl: "blk_flags (kv_detail s dst) = KV_BLK_FLAG_FRESH"
    by (simp_all add: idx_ok_def del: bit_0)
  have "free_size (kv_detail s dst) = sect - 32"
    using okd empty sect64 idx_room [of "kv_detail s dst" "[]"] by simp
  with fl have dd: "kv_detail s dst = \<lparr>blk_flags = KV_BLK_FLAG_FRESH, free_size = sect - 32\<rparr>"
    by (cases "kv_detail s dst") simp
  obtain s' where run: "kv_do_gc s (blk src) (blk dst) False = Some (KV_ERR_NONE, s')"
    and g': "geo s'" and cnt': "cnt_inv s'" and ws: "kv_workspace s' = kv_workspace s"
    and out: "\<And>x. x < blk src \<or> blk src + sect \<le> x \<Longrightarrow> x < blk dst \<or> blk dst + sect \<le> x
        \<Longrightarrow> kv_cells s' x = kv_cells s x"
    and d16: "\<And>x. blk dst \<le> x \<Longrightarrow> x < blk dst + 16 \<Longrightarrow> kv_cells s' x = kv_cells s x"
    and nb: "\<not> blank (kv_cells s') (blk dst + 24) 8"
    and src: "blk_hdr_ok (kv_cells s') (blk src)" "blk_holds sect (kv_cells s') (blk src) []"
    and dst: "blk_holds sect (kv_cells s') (blk dst) (filter e_live (lay src))"
    and det: "\<And>j. j \<noteq> src \<Longrightarrow> j \<noteq> dst \<Longrightarrow> kv_detail s' j = kv_detail s j"
    and dsrc: "blk_flags (kv_detail s' src) = KV_BLK_FLAG_FRESH" "free_size (kv_detail s' src) = sect - 32"
    and ddst: "blk_flags (kv_detail s' dst) = 0 \<or> blk_flags (kv_detail s' dst) = KV_BLK_FLAG_INUSE"
      "free_size (kv_detail s' dst) = sect - 32 - ents_size (filter e_live (lay src))"
    using do_gc_core [OF g cnt ne i kv_inv_blk [OF inv i(1)] _ dd, of False] kv_inv_blk [OF inv i(2)] empty
    by (auto simp del: index_tests)
  have hdst: "blk_hdr_ok (kv_cells s') (blk dst)"
  proof -
    have "nor_read (kv_cells s') (blk dst) 8 = nor_read (kv_cells s) (blk dst) 8"
      by (intro nor_read_cong d16) simp_all
    moreover have "blank (kv_cells s') (blk dst + 8) 8 = blank (kv_cells s) (blk dst + 8) 8"
      by (intro blank_cong d16) simp_all
    ultimately show ?thesis using kv_inv_hdr [OF inv i(2)] nb by (simp add: blk_hdr_ok_def)
  qed
  have blks: "blk_hdr_ok (kv_cells s') (blk j) \<and> blk_holds sect (kv_cells s') (blk j) (gc_lay src dst lay j)"
    if j: "j < n" for j
  proof (cases "j = src \<or> j = dst")
    case True
    then show ?thesis using src dst hdst ne by (auto simp: gc_lay_def)
  next
    case False
    then have "j \<noteq> src" "j \<noteq> dst" by simp_all
    have same: "kv_cells s' x = kv_cells s x" if "blk j \<le> x" "x < blk j + sect" for x
      using that blk_disjoint [OF \<open>j \<noteq> src\<close>] blk_disjoint [OF \<open>j \<noteq> dst\<close>] by (intro out) linarith+
    have "blk_hdr_ok (kv_cells s') (blk j)"
      using kv_inv_hdr [OF inv j] by (rule hdr_frame) (use same sect64 in simp)
    moreover have "blk_holds sect (kv_cells s') (blk j) (lay j)"
      using kv_inv_blk [OF inv j] by (rule blk_holds_cong) (use same in simp)
    ultimately show ?thesis using False by (simp add: gc_lay_def)
  qed
  have idx: "idx_ok sect (kv_detail s' j) (gc_lay src dst lay j)" if j: "j < n" for j
  proof -
    consider "j = src" | "j = dst" | "j \<noteq> src" "j \<noteq> dst" by blast
    then show ?thesis
    proof cases
      case 1
      then show ?thesis using dsrc ne by (simp add: idx_ok_def gc_lay_def flag_simps del: bit_0)
    next
      case 2
      then show ?thesis using ddst by (intro idx_okI) (auto simp: gc_lay_def flag_simps simp del: bit_0)
    next
      case 3
      then show ?thesis using kv_inv_idx_ok [OF inv j] det by (simp add: gc_lay_def)
    qed
  qed
  have "kv_inv s' (gc_lay src dst lay)"
    using g' idx cnt' blks inv ws by (simp add: kv_inv_def idx_inv_def cnt_inv_def)
  moreover have "bit (blk_flags (kv_detail s' j)) 2 \<longleftrightarrow> j \<noteq> src \<and> bit (blk_flags (kv_detail s j)) 2" if "j < n" for j
  proof -
    have f2: "\<not> bit KV_BLK_FLAG_FRESH 2" "\<not> bit KV_BLK_FLAG_INUSE 2"
      by (simp_all add: flag_simps)
    show ?thesis using dsrc(1) ddst(1) det [of j] fl f2 by (cases "j = src"; cases "j = dst") auto
  qed
  moreover have "bit (blk_flags (kv_detail s' src)) 0" using dsrc(1) by (simp add: flag_simps del: bit_0)
  ultimately show ?thesis using run ws by blast
qed

end

end
