(* ===== verification/Kv_Search.thy ===== *)
theory Kv_Search
  imports Kv_Gc
begin

text \<open>
  Finding room for an item: the search around the ring of blocks, the choice of a block to
  collect, and the loop of \<open>kv_blk_search_suitable\<close>, which ends because every collection
  turns a dirty block into a fresh one.
\<close>

text \<open>The live entries of the layout, as a multiset.\<close>

definition live_ents :: "nat \<Rightarrow> (nat \<Rightarrow> kv_ent list) \<Rightarrow> kv_ent multiset" where
  "live_ents n lay = (\<Sum>i<n. mset (filter e_live (lay i)))"

lemma live_ents_upd:
  "i < n \<Longrightarrow> live_ents n (lay(i := its)) + mset (filter e_live (lay i))
     = live_ents n lay + mset (filter e_live its)"
  unfolding live_ents_def by (rule sum_fun_upd [where f = "\<lambda>its. mset (filter e_live its)"])

lemma live_ents_append:
  "i < n \<Longrightarrow> e_live e \<Longrightarrow> live_ents n (lay(i := lay i @ [e])) = add_mset e (live_ents n lay)"
  using live_ents_upd [of i n lay "lay i @ [e]"] by simp

lemma live_ents_kill:
  "i < n \<Longrightarrow> lay i = xs @ e # ys \<Longrightarrow> e_live e \<Longrightarrow>
   add_mset e (live_ents n (lay(i := xs @ ent_kill e # ys))) = live_ents n lay"
  using live_ents_upd [of i n lay "xs @ ent_kill e # ys"] by simp

lemma live_ents_gc:
  assumes "src < n" and "dst < n" and "src \<noteq> dst" and "lay dst = []"
  shows "live_ents n (gc_lay src dst lay) = live_ents n lay"
proof -
  have "live_ents n (lay(src := [])) + mset (filter e_live (lay src)) = live_ents n lay"
    using live_ents_upd [OF assms(1), of lay "[]"] by simp
  moreover have "live_ents n (gc_lay src dst lay)
      = live_ents n (lay(src := [])) + mset (filter e_live (lay src))"
    using live_ents_upd [OF assms(2), of "lay(src := [])" "filter e_live (lay src)"] assms(3,4)
    by (simp add: gc_lay_def)
  ultimately show ?thesis by simp
qed

lemma live_ents_iff: "e \<in># live_ents n lay \<longleftrightarrow> (\<exists>i<n. e \<in> set (lay i) \<and> e_live e)"
  by (auto simp: live_ents_def set_mset_sum)

context kv_store begin

section \<open>The ring\<close>

text \<open>
  \<open>ring_found\<close>: a block other than \<open>w\<close> that satisfies \<open>p\<close>, or none exists.  From the \<open>k\<close>-th block
  behind \<open>w\<close> on, the search looks at every block but \<open>w\<close> itself (\<open>ring_from\<close>).
\<close>

definition ring_found :: "nat \<Rightarrow> (nat \<Rightarrow> bool) \<Rightarrow> nat \<Rightarrow> bool" where
  "ring_found w p r \<longleftrightarrow> (r = KV_BLK_INVALID \<and> (\<forall>i<n. i \<noteq> w \<longrightarrow> \<not> p (blk i)))
     \<or> (\<exists>i<n. i \<noteq> w \<and> r = blk i \<and> p (blk i))"

definition ring_from :: "nat \<Rightarrow> nat \<Rightarrow> (nat \<Rightarrow> bool) \<Rightarrow> nat \<Rightarrow> bool" where
  "ring_from w k p r \<longleftrightarrow> (r = KV_BLK_INVALID \<and> (\<forall>j. k \<le> j \<longrightarrow> j < n - 1 \<longrightarrow> \<not> p (blk ((w + 1 + j) mod n))))
     \<or> (\<exists>i<n. i \<noteq> w \<and> r = blk i \<and> p (blk i))"

lemma ring_from_step: "ring_from w (Suc k) p r \<Longrightarrow> \<not> p (blk ((w + 1 + k) mod n)) \<Longrightarrow> ring_from w k p r"
  unfolding ring_from_def by (metis Suc_leI le_neq_implies_less)

lemma ring_search:
  assumes g: "geo s" and w: "w < n"
  shows "k < n \<Longrightarrow> \<exists>r. kv_blk_ring_search s p (blk w) (blk ((w + 1 + k) mod n)) = Some r \<and> ring_from w k p r"
proof (induction "n - 1 - k" arbitrary: k)
  case 0
  then have "k = n - 1" by simp
  then have "(w + 1 + k) mod n = w" using w n_pos by simp
  then show ?case using 0 \<open>k = n - 1\<close>
    by (subst kv_blk_ring_search.simps) (auto simp: ring_from_def)
next
  case (Suc d)
  let ?c = "(w + 1 + k) mod n"
  have k: "k < n - 1" using Suc.hyps(2) by simp
  have cn: "?c < n" using n_pos by simp
  have cw: "?c \<noteq> w"
  proof
    assume "?c = w"
    then have "(w + (k + 1)) mod n = w mod n" using w by (simp add: add.commute add.left_commute)
    then have "n dvd (k + 1)" using mod_eq_dvd_iff_nat [of w "w + (k + 1)" n] by simp
    then show False using k by (auto dest: dvd_imp_le)
  qed
  have nx: "Suc ?c mod n = (w + 1 + Suc k) mod n" by (simp add: mod_Suc_eq)
  have unf: "kv_blk_ring_search s p (blk w) (blk ?c) = (if p (blk ?c) then Some (blk ?c)
      else kv_blk_ring_search s p (blk w) (blk ((w + 1 + Suc k) mod n)))"
    using cw g cn nx sect64 by (subst kv_blk_ring_search.simps) auto
  show ?case
  proof (cases "p (blk ?c)")
    case True
    then have "ring_from w k p (blk ?c)" using cn cw by (auto simp: ring_from_def)
    with True show ?thesis unfolding unf by simp
  next
    case False
    have "d = n - 1 - Suc k" "Suc k < n" using Suc.hyps(2) k by simp_all
    from Suc.hyps(1) [OF this] obtain r
      where "kv_blk_ring_search s p (blk w) (blk ((w + 1 + Suc k) mod n)) = Some r" "ring_from w (Suc k) p r"
      by blast
    with False show ?thesis unfolding unf by (auto dest: ring_from_step)
  qed
qed

lemma ring_cover: "w < n \<Longrightarrow> i < n \<Longrightarrow> i \<noteq> w \<Longrightarrow> \<exists>j<n - 1. (w + 1 + j) mod n = i"
proof -
  assume w: "w < n" and i: "i < n" "i \<noteq> w"
  show ?thesis
  proof (cases "w < i")
    case True
    then have "(w + 1 + (i - w - 1)) mod n = i" using i by simp
    then show ?thesis using True i by (intro exI [of _ "i - w - 1"]) auto
  next
    case False
    then have "w + 1 + (n - 1 - w + i) = n + i" using w by simp
    then have "(w + 1 + (n - 1 - w + i)) mod n = i" using i by (simp only: mod_add_self1 mod_less)
    moreover have "n - 1 - w + i < n - 1" using False w i by simp
    ultimately show ?thesis by blast
  qed
qed

lemma ring_from_all: "w < n \<Longrightarrow> ring_from w 0 p r \<Longrightarrow> ring_found w p r"
  unfolding ring_from_def ring_found_def using ring_cover [of w] by (metis zero_le)

lemma ring_search_spec:
  assumes g: "geo s" and w: "w < n"
  obtains r where "kv_blk_ring_search s p (blk w) (KV_BLK_NEXT s (blk w)) = Some r" and "ring_found w p r"
proof -
  from ring_search [OF g w n_pos, of p] obtain r
    where r: "kv_blk_ring_search s p (blk w) (blk ((w + 1 + 0) mod n)) = Some r" and c: "ring_from w 0 p r"
    by blast
  have "kv_blk_ring_search s p (blk w) (KV_BLK_NEXT s (blk w)) = Some r"
    using r g w by simp
  from that [OF this ring_from_all [OF w c]] show thesis .
qed

lemma ring_found_cases:
  assumes "ring_found w p r"
  obtains (none) "r = KV_BLK_INVALID" "\<And>i. i < n \<Longrightarrow> i \<noteq> w \<Longrightarrow> \<not> p (blk i)"
    | (some) i where "i < n" "i \<noteq> w" "r = blk i" "p (blk i)" "r \<noteq> KV_BLK_INVALID"
  using assms blk_not_invalid unfolding ring_found_def by blast

section \<open>Choosing a block to collect\<close>

lemma rebuild_nothing:
  assumes inv: "kv_inv s lay"
  shows "kv_mgr_blk_index_rebuild s = Some (False, s)"
proof -
  have g: "geo s" by (rule kv_inv_geo [OF inv])
  have "kv_rebuild_loop s False (map blk is) = Some (False, s)" if "set is \<subseteq> {..<n}" for "is"
    using that
  proof (induction "is")
    case (Cons i "is")
    then have "\<not> bit (blk_flags (kv_detail s i)) 4"
      using kv_inv_idx_ok [OF inv, of i] by (simp add: idx_ok_def)
    with Cons g show ?case by simp
  qed simp
  from this [of "[0..<n]"] g show ?thesis
    by (simp add: kv_mgr_blk_index_rebuild_def atLeast0LessThan)
qed

definition dirty_cnt :: "kv_ctl \<Rightarrow> nat" where
  "dirty_cnt s = card {j. j < n \<and> bit (blk_flags (kv_detail s j)) 2}"

text \<open>What a collection from \<open>s\<close> into block \<open>dst\<close> has done in \<open>s'\<close>.\<close>

definition collected :: "kv_ctl \<Rightarrow> (nat \<Rightarrow> kv_ent list) \<Rightarrow> kv_ctl \<Rightarrow> bool" where
  "collected s lay s' \<longleftrightarrow> (\<exists>lay'. kv_inv s' lay' \<and> live_ents n lay' = live_ents n lay)
     \<and> kv_workspace s' = kv_workspace s \<and> dirty_cnt s' < dirty_cnt s
     \<and> (\<exists>j<n. bit (blk_flags (kv_detail s' j)) 0)"

lemma gc_loop_spec:
  assumes inv: "kv_inv s lay" and d: "dst < n" and fresh: "bit (blk_flags (kv_detail s dst)) 0"
  shows "set is \<subseteq> {..<n} \<Longrightarrow> kv_gc_loop s (blk dst) (map blk is) = Some (False, s)
     \<or> (\<exists>s'. kv_gc_loop s (blk dst) (map blk is) = Some (True, s') \<and> collected s lay s')"
proof (induction "is")
  case Nil
  then show ?case by simp
next
  case (Cons i "is")
  then have i: "i < n" by simp
  have g: "geo s" by (rule kv_inv_geo [OF inv])
  have fl: "blk_flags (kv_detail s dst) = KV_BLK_FLAG_FRESH" "lay dst = []"
    using kv_inv_idx_ok [OF inv d] fresh by (simp_all add: idx_ok_def del: bit_0)
  show ?case
  proof (cases "bit (blk_flags (kv_detail s i)) 2")
    case True
    then have ne: "i \<noteq> dst" using fl by (auto simp: flag_simps)
    obtain s' where run: "kv_do_gc s (blk i) (blk dst) False = Some (KV_ERR_NONE, s')"
      and inv': "kv_inv s' (gc_lay i dst lay)" and ws: "kv_workspace s' = kv_workspace s"
      and dirty: "\<forall>j<n. bit (blk_flags (kv_detail s' j)) 2 \<longleftrightarrow> j \<noteq> i \<and> bit (blk_flags (kv_detail s j)) 2"
      and fr: "bit (blk_flags (kv_detail s' i)) 0"
      using do_gc_step [OF inv i d ne fresh] by (auto simp del: bit_0)
    have "{j. j < n \<and> bit (blk_flags (kv_detail s' j)) 2} \<subset> {j. j < n \<and> bit (blk_flags (kv_detail s j)) 2}"
      using dirty i True by auto
    then have "dirty_cnt s' < dirty_cnt s"
      unfolding dirty_cnt_def by (intro psubset_card_mono) simp_all
    moreover have "live_ents n (gc_lay i dst lay) = live_ents n lay"
      using i d ne fl(2) by (rule live_ents_gc)
    ultimately have "collected s lay s'"
      using inv' ws fr i by (auto simp: collected_def simp del: bit_0)
    moreover have "kv_gc_loop s (blk dst) (map blk (i # is)) = Some (True, s')"
      using True g i run by simp
    ultimately show ?thesis by blast
  next
    case False
    with Cons g i show ?thesis by simp
  qed
qed

lemma kv_inv_workspace:
  "kv_inv s lay \<Longrightarrow> w = KV_BLK_INVALID \<or> (\<exists>i<n. w = blk i) \<Longrightarrow> kv_inv (s\<lparr>kv_workspace := w\<rparr>) lay"
  by (simp add: kv_inv_def idx_inv_def)

lemma next_fresh_spec:
  assumes inv: "kv_inv s lay" and w: "w < n" "kv_workspace s = blk w"
  obtains (none) "kv_blk_next_fresh s = Some KV_BLK_INVALID"
      "\<And>i. i < n \<Longrightarrow> i \<noteq> w \<Longrightarrow> \<not> bit (blk_flags (kv_detail s i)) 0"
    | (some) i where "kv_blk_next_fresh s = Some (blk i)" "i < n" "i \<noteq> w" "bit (blk_flags (kv_detail s i)) 0"
proof -
  have g: "geo s" by (rule kv_inv_geo [OF inv])
  from ring_search_spec [OF g w(1), of "kv_blk_is_fresh s"] obtain r
    where r: "kv_blk_ring_search s (kv_blk_is_fresh s) (blk w) (KV_BLK_NEXT s (blk w)) = Some r"
    and c: "ring_found w (kv_blk_is_fresh s) r" by blast
  have nf: "kv_blk_next_fresh s = Some r" using r w by (simp add: kv_blk_next_fresh_def)
  from c show thesis
  proof (cases rule: ring_found_cases)
    case none
    from none(1) nf have "kv_blk_next_fresh s = Some KV_BLK_INVALID" by simp
    moreover have "\<not> bit (blk_flags (kv_detail s i)) 0" if "i < n" "i \<noteq> w" for i
      using none(2) [OF that] g that by (simp del: bit_0)
    ultimately show thesis by (rule that(1))
  next
    case (some i)
    show thesis
    proof (rule that(2))
      show "kv_blk_next_fresh s = Some (blk i)" using nf some(3) by simp
      show "bit (blk_flags (kv_detail s i)) 0" using some(1,4) g by (simp del: bit_0)
    qed (rule some(1,2))+
  qed
qed

lemma gc_spec:
  assumes inv: "kv_inv s lay" and w: "w < n" "kv_workspace s = blk w"
  shows "kv_gc s = Some (KV_ERR_GC_NOTHING, s)
    \<or> (\<exists>s' lay' i. kv_gc s = Some (KV_ERR_NONE, s') \<and> kv_inv s' lay' \<and> live_ents n lay' = live_ents n lay
          \<and> i < n \<and> kv_workspace s' = blk i \<and> dirty_cnt s' < dirty_cnt s
          \<and> (\<exists>j<n. bit (blk_flags (kv_detail s' j)) 0))"
proof -
  have g: "geo s" by (rule kv_inv_geo [OF inv])
  have rb: "(if kv_num_hanging s > 0 then kv_mgr_blk_index_rebuild s else Some (False, s)) = Some (False, s)"
    using rebuild_nothing [OF inv] by simp
  from inv w show ?thesis
  proof (cases rule: next_fresh_spec)
    case none
    then show ?thesis unfolding kv_gc_def rb by simp
  next
    case (some i)
    note i = some(2,4) and nf = some(1)
    have ni: "blk i \<noteq> KV_BLK_INVALID" by (rule blk_not_invalid [OF i(1)])
    have "set [0..<n] \<subseteq> {..<n}" by auto
    from gc_loop_spec [OF inv i this] show ?thesis
    proof
      assume "kv_gc_loop s (blk i) (map blk [0..<n]) = Some (False, s)"
      then show ?thesis unfolding kv_gc_def rb using g ni by (simp add: nf)
    next
      assume "\<exists>s'. kv_gc_loop s (blk i) (map blk [0..<n]) = Some (True, s') \<and> collected s lay s'"
      then obtain s' lay' where l: "kv_gc_loop s (blk i) (map blk [0..<n]) = Some (True, s')"
        and inv': "kv_inv s' lay'" "live_ents n lay' = live_ents n lay" "dirty_cnt s' < dirty_cnt s"
          "\<exists>j<n. bit (blk_flags (kv_detail s' j)) 0"
        by (auto simp: collected_def simp del: bit_0)
      have "kv_gc s = Some (KV_ERR_NONE, s'\<lparr>kv_workspace := blk i\<rparr>)"
        unfolding kv_gc_def rb using g ni l by (simp add: nf)
      moreover have "kv_inv (s'\<lparr>kv_workspace := blk i\<rparr>) lay'"
        using inv'(1) i(1) by (auto intro: kv_inv_workspace)
      moreover have "dirty_cnt (s'\<lparr>kv_workspace := blk i\<rparr>) = dirty_cnt s'" by (simp add: dirty_cnt_def)
      ultimately show ?thesis using inv' i(1) by (auto simp del: bit_0)
    qed
  qed
qed

section \<open>Room for an item\<close>

text \<open>Block \<open>b\<close> has room for an item of \<open>sz\<close> bytes.\<close>

definition has_room :: "(nat \<Rightarrow> kv_ent list) \<Rightarrow> nat \<Rightarrow> nat \<Rightarrow> bool" where
  "has_room lay b sz \<longleftrightarrow> (\<exists>i<n. b = blk i \<and> 32 + ents_size (lay i) + sz \<le> sect)"

lemma free_room: "kv_inv s lay \<Longrightarrow> i < n \<Longrightarrow> 24 < sz \<Longrightarrow> sz \<le> free_size (kv_detail s i) \<Longrightarrow> has_room lay (blk i) sz"
  using kv_inv_idx_ok [of s lay i] kv_inv_size [of s lay i] by (auto simp: idx_ok_def has_room_def)

lemma fresh_room:
  "kv_inv s lay \<Longrightarrow> i < n \<Longrightarrow> 32 + sz \<le> sect \<Longrightarrow> bit (blk_flags (kv_detail s i)) 0 \<Longrightarrow> has_room lay (blk i) sz"
  using kv_inv_idx_ok [of s lay i] by (auto simp: idx_ok_def has_room_def simp del: bit_0)

lemma fresh_cnt_pos: "0 < fresh_cnt d \<longleftrightarrow> (\<exists>j<n. bit (blk_flags (d j)) 0)"
  unfolding fresh_cnt_def by (auto simp: card_gt_0_iff simp del: bit_0)

lemma fresh_cnt_two:
  assumes "1 < fresh_cnt d" and "w < n"
  shows "\<exists>j<n. j \<noteq> w \<and> bit (blk_flags (d j)) 0"
proof (rule ccontr)
  assume "\<not> ?thesis"
  then have "fresh_cnt d = (\<Sum>j<n. if j = w then of_bool (bit (blk_flags (d w)) 0) else 0)"
    unfolding fresh_cnt_def by (intro sum.cong) (auto simp del: bit_0)
  also have "\<dots> \<le> 1" using assms(2) by simp
  finally show False using assms(1) by simp
qed

lemma search_loop_spec:
  assumes "kv_inv s lay" and "w < n" and "kv_workspace s = blk w" and sz: "24 < sz" "32 + sz \<le> sect"
  shows "\<exists>b s' lay'. kv_search_suitable_loop s sz = Some (b, s') \<and> kv_inv s' lay'
     \<and> live_ents n lay' = live_ents n lay \<and> (b = KV_BLK_INVALID \<or> has_room lay' b sz)
     \<and> (0 < kv_num_fresh s \<longrightarrow> b \<noteq> KV_BLK_INVALID)"
  using assms(1-3)
proof (induction "dirty_cnt s" arbitrary: s lay w rule: less_induct)
  case less
  note inv = less.prems(1) and w = less.prems(2,3)
  have g: "geo s" by (rule kv_inv_geo [OF inv])
  have cnt: "kv_num_fresh s = fresh_cnt (kv_detail s)" using kv_inv_idx [OF inv] by (simp add: idx_inv_def)
  show ?case
  proof (cases "sz \<le> free_size (kv_detail s w)")
    case True
    then have "kv_search_suitable_loop s sz = Some (blk w, s)"
      using g w by (subst kv_search_suitable_loop.simps) simp
    with free_room [OF inv w(1) sz(1) True] inv blk_not_invalid [OF w(1)] show ?thesis by blast
  next
    case False
    have wfresh: "\<not> bit (blk_flags (kv_detail s w)) 0"
    proof
      assume "bit (blk_flags (kv_detail s w)) 0"
      then have "lay w = []" using kv_inv_idx_ok [OF inv w(1)] by (simp add: idx_ok_def del: bit_0)
      then have "free_size (kv_detail s w) = sect - 32"
        using idx_room [OF kv_inv_idx_ok [OF inv w(1)]] sect64 by simp
      then show False using False sz by simp
    qed
    from ring_search_spec [OF g w(1), of "\<lambda>b. kv_blk_is_inuse s b \<and> kv_blk_freesz_get s b \<ge> sz"] obtain r
      where r: "kv_blk_ring_search s (\<lambda>b. kv_blk_is_inuse s b \<and> kv_blk_freesz_get s b \<ge> sz) (blk w)
        (KV_BLK_NEXT s (blk w)) = Some r"
      and c: "ring_found w (\<lambda>b. kv_blk_is_inuse s b \<and> kv_blk_freesz_get s b \<ge> sz) r"
      by blast
    have si: "kv_blk_search_inuse s sz = Some r" using r w(2) by (simp add: kv_blk_search_inuse_def)
    have unf: "kv_search_suitable_loop s sz =
        (if r \<noteq> KV_BLK_INVALID then Some (r, s\<lparr>kv_workspace := r\<rparr>)
         else if kv_num_fresh s < 1 then Some (KV_BLK_INVALID, s)
         else if kv_num_fresh s > 1 then do { b \<leftarrow> kv_blk_next_fresh s; Some (b, s\<lparr>kv_workspace := b\<rparr>) }
         else do {
           (err, s1) \<leftarrow> kv_gc s;
           if err \<noteq> KV_ERR_NONE then do { b \<leftarrow> kv_blk_next_fresh s1; Some (b, s1\<lparr>kv_workspace := b\<rparr>) }
           else kv_search_suitable_loop s1 sz })"
      using False g w by (subst kv_search_suitable_loop.simps) (simp add: si)
    have give: "\<exists>q. kv_blk_next_fresh s = Some q \<and> kv_inv (s\<lparr>kv_workspace := q\<rparr>) lay
       \<and> (q = KV_BLK_INVALID \<or> has_room lay q sz) \<and> (0 < kv_num_fresh s \<longrightarrow> q \<noteq> KV_BLK_INVALID)"
      using inv w
    proof (cases rule: next_fresh_spec)
      case none
      have "\<not> 0 < kv_num_fresh s"
      proof
        assume "0 < kv_num_fresh s"
        with cnt fresh_cnt_pos obtain j where "j < n" "bit (blk_flags (kv_detail s j)) 0" by auto
        with none(2) wfresh show False by blast
      qed
      then show ?thesis using none(1) kv_inv_workspace [OF inv] by simp
    next
      case (some i)
      then show ?thesis
        using kv_inv_workspace [OF inv, of "blk i"] fresh_room [OF inv some(2) sz(2) some(4)]
          blk_not_invalid [OF some(2)] by auto
    qed
    then obtain q where q: "kv_blk_next_fresh s = Some q" "kv_inv (s\<lparr>kv_workspace := q\<rparr>) lay"
      "q = KV_BLK_INVALID \<or> has_room lay q sz" "0 < kv_num_fresh s \<longrightarrow> q \<noteq> KV_BLK_INVALID"
      by (elim exE conjE) (rule that)
    consider (inuse) "r \<noteq> KV_BLK_INVALID" | (none) "r = KV_BLK_INVALID" "kv_num_fresh s < 1"
      | (many) "r = KV_BLK_INVALID" "kv_num_fresh s > 1" | (one) "r = KV_BLK_INVALID" "kv_num_fresh s = 1"
      by linarith
    then show ?thesis
    proof cases
      case inuse
      from c obtain i where i: "i < n" "r = blk i" "kv_blk_freesz_get s (blk i) \<ge> sz"
      proof (cases rule: ring_found_cases)
        case none
        from inuse none(1) show thesis by (rule notE)
      next
        case (some i)
        from some(4) have "kv_blk_freesz_get s (blk i) \<ge> sz" by blast
        with some(1,3) show thesis by (rule that)
      qed
      then have "has_room lay r sz" using free_room [OF inv i(1) sz(1)] g by simp
      moreover have "kv_inv (s\<lparr>kv_workspace := r\<rparr>) lay" using i inv by (auto intro: kv_inv_workspace)
      moreover have "kv_search_suitable_loop s sz = Some (r, s\<lparr>kv_workspace := r\<rparr>)"
        unfolding unf using inuse by simp
      ultimately show ?thesis using inuse by blast
    next
      case none
      then have "kv_search_suitable_loop s sz = Some (KV_BLK_INVALID, s)" unfolding unf by simp
      with none inv show ?thesis by auto
    next
      case many
      then have "kv_search_suitable_loop s sz = Some (q, s\<lparr>kv_workspace := q\<rparr>)"
        unfolding unf using q(1) by simp
      with q(2-4) show ?thesis
        by (intro exI [of _ q] exI [of _ "s\<lparr>kv_workspace := q\<rparr>"] exI [of _ lay]) simp
    next
      case one
      from gc_spec [OF inv w] show ?thesis
      proof (elim disjE exE conjE)
        assume "kv_gc s = Some (KV_ERR_GC_NOTHING, s)"
        then have "kv_search_suitable_loop s sz = Some (q, s\<lparr>kv_workspace := q\<rparr>)"
          unfolding unf using q(1) one by simp
        with q(2-4) show ?thesis
          by (intro exI [of _ q] exI [of _ "s\<lparr>kv_workspace := q\<rparr>"] exI [of _ lay]) simp
      next
        fix s1 lay1 i j
        assume gc: "kv_gc s = Some (KV_ERR_NONE, s1)" and inv1: "kv_inv s1 lay1"
          and live: "live_ents n lay1 = live_ents n lay" and i: "i < n" "kv_workspace s1 = blk i"
          and less_d: "dirty_cnt s1 < dirty_cnt s"
          and fr: "j < n" "bit (blk_flags (kv_detail s1 j)) 0"
        have "0 < kv_num_fresh s1"
          using fr fresh_cnt_pos kv_inv_idx [OF inv1] by (auto simp: idx_inv_def simp del: bit_0)
        moreover have "kv_search_suitable_loop s sz = kv_search_suitable_loop s1 sz"
          unfolding unf using gc one by simp
        ultimately show ?thesis using less.hyps [OF less_d inv1 i] live one(2) by simp
      qed
    qed
  qed
qed

lemma search_suitable_spec:
  assumes inv: "kv_inv s lay" and sz: "24 < sz" "32 + sz \<le> sect"
  shows "\<exists>b s' lay'. kv_blk_search_suitable s sz = Some (b, s') \<and> kv_inv s' lay'
     \<and> live_ents n lay' = live_ents n lay \<and> (b = KV_BLK_INVALID \<or> has_room lay' b sz)
     \<and> (0 < kv_num_fresh s \<longrightarrow> kv_workspace s \<noteq> KV_BLK_INVALID \<longrightarrow> b \<noteq> KV_BLK_INVALID)"
proof (cases "KV_NO_WRITEABLE_BLK s \<or> kv_workspace s = KV_BLK_INVALID")
  case True
  then have "kv_blk_search_suitable s sz = Some (KV_BLK_INVALID, s)"
    by (auto simp: kv_blk_search_suitable_def)
  moreover have "\<not> (0 < kv_num_fresh s \<and> kv_workspace s \<noteq> KV_BLK_INVALID)"
    using True by (auto simp: KV_NO_WRITEABLE_BLK_def)
  ultimately show ?thesis using inv by auto
next
  case False
  then obtain w where "w < n" "kv_workspace s = blk w" using inv by (auto simp: kv_inv_def)
  from search_loop_spec [OF inv this sz] False show ?thesis
    by (simp add: kv_blk_search_suitable_def)
qed

end

end
