(* ===== verification/Kv_Correct.thy ===== *)
theory Kv_Correct
  imports Kv_Search
begin

text \<open>
  The key-value store as a map: \<open>kv_holds\<close> says which finite map a state of the store
  represents, and the operations of the interface implement lookup, update and delete on it.
\<close>

section \<open>The represented map\<close>

definition kv_pairs :: "kv_ent multiset \<Rightarrow> (byte list \<times> byte list) multiset" where
  "kv_pairs M = image_mset (\<lambda>e. (e_key e, e_val e)) M"

text \<open>
  The store \<open>s\<close> on the partition of \<open>n\<close> blocks of \<open>2 ^ lg\<close> bytes from \<open>st\<close> on represents \<open>m\<close>: the
  flash holds a layout of entries, the index agrees with it, and the live entries are exactly
  the pairs of \<open>m\<close>, each once.
\<close>

definition kv_holds :: "flash_drv \<Rightarrow> nat \<Rightarrow> nat \<Rightarrow> nat \<Rightarrow> kv_ctl \<Rightarrow> (byte list \<rightharpoonup> byte list) \<Rightarrow> bool" where
  "kv_holds drv lg st n s m \<longleftrightarrow> kv_geo drv lg st n s \<and> finite (dom m)
     \<and> kv_num_fresh s = (\<Sum>j<n. of_bool (bit (blk_flags (kv_detail s j)) 0))
     \<and> (kv_workspace s = KV_BLK_INVALID \<or> (\<exists>i<n. kv_workspace s = st + i * 2 ^ lg))
     \<and> (\<exists>lay. (\<forall>i<n. idx_ok (2 ^ lg) (kv_detail s i) (lay i) \<and> blk_hdr_ok (kv_cells s) (st + i * 2 ^ lg)
                  \<and> blk_holds (2 ^ lg) (kv_cells s) (st + i * 2 ^ lg) (lay i))
            \<and> kv_pairs (live_ents n lay) = mset_set (Map.graph m))"

section \<open>Multisets of pairs\<close>

lemma graph_mem: "(k, v) \<in> Map.graph m \<longleftrightarrow> m k = Some v"
  by (simp add: Map.graph_def)

lemma finite_graph: "finite (dom m) \<Longrightarrow> finite (Map.graph m)"
  by (simp add: finite_graph_iff_finite_dom)

lemma pairs_insert:
  assumes "finite (dom m)" and "m k = None"
  shows "add_mset (k, v) (mset_set (Map.graph m)) = mset_set (Map.graph (m(k \<mapsto> v)))"
proof -
  have "Map.graph (m(k \<mapsto> v)) = insert (k, v) (Map.graph m)"
    using assms(2) by (auto simp: Map.graph_def split: if_splits)
  moreover have "(k, v) \<notin> Map.graph m" using assms(2) by (simp add: graph_mem)
  ultimately show ?thesis using assms(1) by (simp add: finite_graph)
qed

lemma pairs_delete:
  assumes "finite (dom m)" and "m k = Some v" and "add_mset (k, v) M = mset_set (Map.graph m)"
  shows "M = mset_set (Map.graph (m(k := None)))"
proof -
  have g: "Map.graph (m(k := None)) = Map.graph m - {(k, v)}"
    using assms(2) by (auto simp: Map.graph_def split: if_splits)
  have "M = mset_set (Map.graph m) - {#(k, v)#}" by (metis assms(3) add_mset_remove_trivial)
  also have "\<dots> = mset_set (Map.graph m - {(k, v)})"
    using assms(1,2) by (subst mset_set_Diff) (auto simp: finite_graph graph_mem)
  finally show ?thesis by (simp only: g)
qed

lemma pairs_update:
  assumes fin: "finite (dom m)" and m: "m k = Some u"
    and M: "add_mset (k, u) M = add_mset (k, v) (mset_set (Map.graph m))"
  shows "M = mset_set (Map.graph (m(k \<mapsto> v)))"
proof -
  have "(k, u) \<in># mset_set (Map.graph m)" using fin m by (simp add: finite_graph graph_mem)
  then obtain N where N: "mset_set (Map.graph m) = add_mset (k, u) N" by (metis mset_add)
  then have "M = add_mset (k, v) N" using M by (simp add: add_mset_commute)
  also have "N = mset_set (Map.graph (m(k := None)))" by (rule pairs_delete [OF fin m N [symmetric]])
  finally show ?thesis using pairs_insert [of "m(k := None)" k v] fin by simp
qed

context kv_store begin

definition kv_rep :: "kv_ctl \<Rightarrow> (byte list \<rightharpoonup> byte list) \<Rightarrow> bool" where
  "kv_rep s m \<longleftrightarrow> finite (dom m) \<and> (\<exists>lay. kv_inv s lay \<and> kv_pairs (live_ents n lay) = mset_set (Map.graph m))"

lemma kv_rep_holds: "kv_rep s m \<longleftrightarrow> kv_holds drv lg st n s m"
  unfolding kv_rep_def kv_holds_def kv_inv_def idx_inv_def fresh_cnt_def sect by blast

lemma kv_pairs_live: "e \<in># live_ents n lay \<Longrightarrow> (e_key e, e_val e) \<in># kv_pairs (live_ents n lay)"
  by (simp add: kv_pairs_def)

lemma rep_live:
  assumes "finite (dom m)" and "kv_pairs (live_ents n lay) = mset_set (Map.graph m)"
    and "i < n" and "e \<in> set (lay i)" and "e_live e"
  shows "m (e_key e) = Some (e_val e)"
proof -
  have "e \<in># live_ents n lay" using assms(3-5) by (auto simp: live_ents_iff)
  then have "(e_key e, e_val e) \<in># mset_set (Map.graph m)" using kv_pairs_live assms(2) by fastforce
  then show ?thesis using assms(1) by (simp add: finite_graph graph_mem)
qed

lemma rep_lookup:
  assumes "finite (dom m)" and "kv_pairs (live_ents n lay) = mset_set (Map.graph m)" and "m k = Some v"
  shows "\<exists>i<n. \<exists>e \<in> set (lay i). e_live e \<and> e_key e = k \<and> e_val e = v"
proof -
  have "(k, v) \<in># mset_set (Map.graph m)" using assms(1,3) by (simp add: finite_graph graph_mem)
  then have "(k, v) \<in># kv_pairs (live_ents n lay)" by (simp only: assms(2))
  then obtain e i where "i < n" "e \<in> set (lay i)" "e_live e" "e_key e = k" "e_val e = v"
    by (auto simp: kv_pairs_def live_ents_iff)
  then show ?thesis by blast
qed

section \<open>Lookup\<close>

lemma find_rep:
  assumes rep: "finite (dom m)" "kv_pairs (live_ents n lay) = mset_set (Map.graph m)" and inv: "kv_inv s lay"
  obtains (none) s' where "kv_item_find s k = Some (None, s')" "m k = None" "kv_inv s' lay" "looked s s'"
    | (some) i xs e ys s' where "i < n" "lay i = xs @ e # ys" "e_live e" "e_key e = k" "m k = Some (e_val e)"
      "kv_item_find s k = Some (Some (mk_item e (blk i + 32 + ents_size xs) (k @ e_val e)), s')"
      "kv_inv s' lay" "looked s s'"
  using find_spec [OF inv, of k]
proof (cases rule: findsE)
  case (none s')
  have "m k = None"
  proof (rule ccontr)
    assume "m k \<noteq> None"
    then obtain v where "m k = Some v" by blast
    from rep_lookup [OF rep this] none(4) show False by auto
  qed
  with none show thesis by (intro that(1))
next
  case (some i xs e ys s')
  have "i < n" using some(1) by simp
  moreover have "m (e_key e) = Some (e_val e)"
    using rep_live [OF rep \<open>i < n\<close>, of e] some(2,3) by simp
  ultimately show thesis using some by (intro that(2)) auto
qed

lemma get_rep:
  assumes "kv_rep s m" and "length k < 255"
  shows "\<exists>s'. kv_rep s' m \<and> looked s s' \<and> ln_kv_get s (Some k) (Some buf) sz (Some l) = Some (case m k of
      None \<Rightarrow> (KV_ERR_NOT_EXIST, Some buf, Some l, s')
    | Some v \<Rightarrow> if sz < length v then (KV_ERR_BUF_TOO_SHORT, Some buf, Some (length v), s')
                else (KV_ERR_NONE, Some (v @ drop (length v) buf), Some (length v), s'))"
proof -
  from assms(1) obtain lay where fin: "finite (dom m)" and inv: "kv_inv s lay"
    and ps: "kv_pairs (live_ents n lay) = mset_set (Map.graph m)" by (auto simp: kv_rep_def)
  from fin ps inv show ?thesis
  proof (cases rule: find_rep [where k = k])
    case (none s')
    have "kv_rep s' m" using fin ps none(3) by (auto simp: kv_rep_def)
    then show ?thesis using none assms(2) by (intro exI [of _ s']) (simp add: ln_kv_get_def)
  next
    case (some i xs e ys s')
    have "kv_rep s' m" using fin ps some(7) by (auto simp: kv_rep_def)
    moreover have "bslice (length k) (length (e_val e)) (k @ e_val e) = e_val e" by (simp add: bslice_def)
    ultimately show ?thesis using some assms(2)
      by (intro exI [of _ s']) (simp add: ln_kv_get_def Let_def)
  qed
qed

lemma has_key_rep:
  assumes "kv_rep s m" and "length k < 255"
  shows "\<exists>s'. kv_rep s' m \<and> ln_kv_has_key s (Some k) = Some (if k \<in> dom m then 1 else 0, s')"
proof -
  from assms(1) obtain lay where fin: "finite (dom m)" and inv: "kv_inv s lay"
    and ps: "kv_pairs (live_ents n lay) = mset_set (Map.graph m)" by (auto simp: kv_rep_def)
  from fin ps inv show ?thesis
  proof (cases rule: find_rep [where k = k])
    case (none s')
    then show ?thesis using fin ps assms(2)
      by (intro exI [of _ s']) (auto simp: ln_kv_has_key_def kv_rep_def)
  next
    case (some i xs e ys s')
    then show ?thesis using fin ps assms(2)
      by (intro exI [of _ s']) (auto simp: ln_kv_has_key_def kv_rep_def)
  qed
qed

section \<open>Delete\<close>

lemma del_rep:
  assumes "kv_rep s m" and "length k < 255"
  shows "\<exists>s'. ln_kv_del s (Some k) = Some (if k \<in> dom m then KV_ERR_NONE else KV_ERR_NOT_EXIST, s')
    \<and> kv_rep s' (m(k := None)) \<and> kv_workspace s' = kv_workspace s"
proof -
  from assms(1) obtain lay where fin: "finite (dom m)" and inv: "kv_inv s lay"
    and ps: "kv_pairs (live_ents n lay) = mset_set (Map.graph m)" by (auto simp: kv_rep_def)
  from fin ps inv show ?thesis
  proof (cases rule: find_rep [where k = k])
    case (none s')
    then have "m(k := None) = m" by auto
    with none fin ps assms(2) show ?thesis
      by (intro exI [of _ s']) (auto simp: ln_kv_del_def kv_rep_def looked_def same_flash_def)
  next
    case (some i xs e ys s')
    let ?lay = "lay(i := xs @ ent_kill e # ys)"
    obtain s'' where d: "kv_item_delete_aux s' (blk i + 32 + ents_size xs) = Some (KV_ERR_NONE, s'')"
      and inv'': "kv_inv s'' ?lay" and ws: "kv_workspace s'' = kv_workspace s'"
      using delete_step [OF some(7,1,2,3)] by blast
    have "add_mset (k, e_val e) (kv_pairs (live_ents n ?lay)) = mset_set (Map.graph m)"
      using live_ents_kill [where lay = lay and xs = xs and ys = ys, OF some(1,2,3)] ps some(4)
      by (metis (no_types, lifting) image_mset_add_mset kv_pairs_def)
    then have "kv_pairs (live_ents n ?lay) = mset_set (Map.graph (m(k := None)))"
      by (rule pairs_delete [OF fin some(5)])
    then have "kv_rep s'' (m(k := None))" using inv'' fin by (auto simp: kv_rep_def)
    then show ?thesis using some d ws assms(2)
      by (intro exI [of _ s'']) (auto simp: ln_kv_del_def kv_item_delete_def looked_def same_flash_def)
  qed
qed

section \<open>Saving\<close>

text \<open>The item that was found is followed when a garbage collection has moved it.\<close>

definition prev_fixed :: "kv_ctl \<Rightarrow> kv_item \<Rightarrow> (kv_err \<times> kv_item option \<times> kv_ctl) option" where
  "prev_fixed s p = do {
     (moved, s) \<leftarrow> kv_item_is_moved s p;
     if moved then do { (err, p, s) \<leftarrow> kv_item_fix s p; Some (err, Some p, s) }
     else Some (KV_ERR_NONE, Some p, s) }"

lemma is_moved_spec:
  assumes inv: "kv_inv s lay" and i: "i < n" and p: "blk i + 32 \<le> p" "p + esize e \<le> blk i + sect"
    and live: "e_live e"
  obtains (moved) "kv_item_is_moved s (mk_item e p (e_key e @ e_val e)) = Some (True, s)"
    | (here) xs e' ys where "kv_item_is_moved s (mk_item e p (e_key e @ e_val e)) = Some (False, s)"
        "lay i = xs @ e' # ys" "p = blk i + 32 + ents_size xs" "e_live e'" "e_key e' = e_key e"
proof -
  have g: "geo s" by (rule kv_inv_geo [OF inv])
  have h: "blk_holds sect (kv_cells s) (blk i) (lay i)" by (rule kv_inv_blk [OF inv i])
  have p24: "p + 24 \<le> blk i + sect" using p by (simp add: esize_def)
  then have "p + 24 \<le> lim" using blk_lim [OF i] by linarith
  then have rd: "kv_item_hdr_read s p = Some (KV_ERR_NONE, kv_item_hdr_decode (nor_read (kv_cells s) p 24))"
    by (rule hdr_read_ok [OF g])
  show thesis
  proof (cases "kv_item_hdr_decode (nor_read (kv_cells s) p 24) = ent_hdr e")
    case False
    then show thesis by (intro moved) (simp add: kv_item_is_moved_def rd)
  next
    case True
    then have lg: "KV_ITEM_IS_LEGAL (kv_item_hdr_decode (nor_read (kv_cells s) p 24))" by simp
    from legal_hdr_position [OF h p(1) p24 lg]
    obtain xs e' ys where at: "lay i = xs @ e' # ys" and pp: "p = blk i + 32 + ents_size xs"
      by (elim exE conjE) (rule that)
    from h at have h': "blk_holds sect (kv_cells s) (blk i) (xs @ e' # ys)" by simp
    have hd: "ent_hdr e' = ent_hdr e" using True blk_read_hdr [OF h'] by (simp add: pp)
    have l: "e_live e'" using arg_cong [OF hd, of KV_ITEM_IS_DISCARDED] live by simp
    have len: "length (e_key e') = length (e_key e)" "length (e_val e') = length (e_val e)"
      using arg_cong [OF hd, of ih_k_len] arg_cong [OF hd, of ih_v_len] by simp_all
    have "mk_item e p (e_key e @ e_val e) = mk_item e' p (e_key e @ e_val e)" by (simp add: mk_item_def hd)
    then have b: "kv_item_body_read s (mk_item e p (e_key e @ e_val e))
        = Some (KV_ERR_NONE, mk_item e' p (e_key e' @ e_val e'), s)"
      using body_read_ok [OF g i h'] by (simp add: pp)
    have r: "kv_item_is_moved s (mk_item e p (e_key e @ e_val e))
        = Some (e_key e @ e_val e \<noteq> e_key e' @ e_val e', s)"
      using len by (simp add: kv_item_is_moved_def rd True b)
    show thesis
    proof (cases "e_key e @ e_val e = e_key e' @ e_val e'")
      case True
      then have k: "e_key e' = e_key e" using len by simp
      from r True have "kv_item_is_moved s (mk_item e p (e_key e @ e_val e)) = Some (False, s)" by simp
      then show thesis by (rule here [OF _ at pp l k])
    next
      case False
      then show thesis using r by (intro moved) simp
    qed
  qed
qed

lemma prev_fixed_spec:
  assumes inv: "kv_inv s lay" and i: "i < n" and p: "blk i + 32 \<le> p" "p + esize e \<le> blk i + sect"
    and e: "e \<in># live_ents n lay"
  obtains j xs e' ys s' where "prev_fixed s (mk_item e p (e_key e @ e_val e))
      = Some (KV_ERR_NONE, Some (mk_item e (blk j + 32 + ents_size xs) (e_key e @ e_val e)), s')"
    "j < n" "lay j = xs @ e' # ys" "e_live e'" "e_key e' = e_key e" "kv_inv s' lay" "looked s s'"
proof -
  from e obtain i0 where e0: "i0 < n" "e \<in> set (lay i0)" "e_live e" by (auto simp: live_ents_iff)
  let ?it = "mk_item e p (e_key e @ e_val e)"
  from inv i p e0(3) show thesis
  proof (cases rule: is_moved_spec)
    case (here xs e' ys)
    then have "prev_fixed s ?it = Some (KV_ERR_NONE, Some (mk_item e (blk i + 32 + ents_size xs) (e_key e @ e_val e)), s)"
      by (simp add: prev_fixed_def)
    then show thesis by (rule that [OF _ i here(2,4,5) inv looked_refl [OF kv_inv_geo [OF inv]]])
  next
    case moved
    have "finds s lay (\<lambda>x. length (e_key x) = ih_k_len (it_hdr ?it) \<and> length (e_val x) = ih_v_len (it_hdr ?it)
      \<and> e_key x @ e_val x = it_body ?it) {..<n} (kv_item_find_new_copy s ?it)"
      by (rule find_new_copy_spec [OF inv]) simp
    then show thesis
    proof (cases rule: findsE)
      case (none s')
      from none(4) [of i0 e] e0 show thesis by simp
    next
      case (some j xs e' ys s')
      from moved some(5) have "prev_fixed s ?it
          = Some (KV_ERR_NONE, Some (mk_item e (blk j + 32 + ents_size xs) (e_key e @ e_val e)), s')"
        by (simp add: prev_fixed_def kv_item_fix_def)
      moreover have "e_key e' = e_key e"
        using some(4) append_eq_append_conv [of "e_key e'" "e_key e" "e_val e'" "e_val e"] by simp
      moreover have "j < n" using some(1) by simp
      ultimately show thesis by (intro that [OF _ _ some(2,3) _ some(7,6)])
    qed
  qed
qed

text \<open>
  What \<open>kv_item_save\<close> does: it adds the pair, or there is no room for it, which cannot happen
  while a block is fresh and the store has a workspace.
\<close>

lemma kv_pairs_append: "i < n \<Longrightarrow>
   kv_pairs (live_ents n (lay(i := lay i @ [new_ent k v p]))) = add_mset (k, v) (kv_pairs (live_ents n lay))"
  by (simp add: live_ents_append new_ent_def kv_pairs_def)

lemma save_new:
  assumes inv: "kv_inv s lay" and kv: "kv_ok k v" and room: "56 + length k + length v \<le> sect"
  shows "\<exists>err s' lay'. kv_item_save s k v None = Some (err, None, s') \<and> kv_inv s' lay'
     \<and> (err = KV_ERR_NONE \<and> kv_pairs (live_ents n lay') = add_mset (k, v) (kv_pairs (live_ents n lay))
      \<or> err = KV_ERR_INSUFFICIENT_SPACE \<and> live_ents n lay' = live_ents n lay
        \<and> \<not> (0 < kv_num_fresh s \<and> kv_workspace s \<noteq> KV_BLK_INVALID))"
proof -
  let ?sz = "24 + length k + length v"
  have g: "geo s" by (rule kv_inv_geo [OF inv])
  have sz: "24 < ?sz" "32 + ?sz \<le> sect" using kv room by (simp_all add: kv_ok_def)
  have item: "KV_ITEM_SIZE s (length k) (length v) = ?sz" using g by simp
  from search_suitable_spec [OF inv sz] obtain b s1 lay1 where
    b: "kv_blk_search_suitable s ?sz = Some (b, s1)" and inv1: "kv_inv s1 lay1"
    and lv: "live_ents n lay1 = live_ents n lay" and rm: "b = KV_BLK_INVALID \<or> has_room lay1 b ?sz"
    and ok: "0 < kv_num_fresh s \<longrightarrow> kv_workspace s \<noteq> KV_BLK_INVALID \<longrightarrow> b \<noteq> KV_BLK_INVALID"
    by (elim exE conjE) (rule that)
  show ?thesis
  proof (cases "b = KV_BLK_INVALID")
    case True
    then have "kv_item_save s k v None = Some (KV_ERR_INSUFFICIENT_SPACE, None, s1)"
      by (simp add: kv_item_save_def Let_def item b)
    with inv1 lv ok True show ?thesis by auto
  next
    case False
    with rm obtain i where i: "i < n" "b = blk i" "32 + ents_size (lay1 i) + ?sz \<le> sect"
      by (auto simp: has_room_def)
    have "(0::nat) < 2 ^ 24" by simp
    from append_step [OF inv1 i(1) kv this i(3)] obtain s2 where
      s2: "kv_item_do_save s1 (KV_BLK_USABLE_ADDR s1 (blk i)) k v 0 = Some (KV_ERR_NONE, s2)"
        "kv_inv (kv_item_saved s2 (blk i) ?sz) (lay1(i := lay1 i @ [new_ent k v 0]))"
      by (elim exE conjE) (rule that)
    have "kv_item_save s k v None = Some (KV_ERR_NONE, None, kv_item_saved s2 (blk i) ?sz)"
      using False by (simp add: kv_item_save_def Let_def item b i(2) s2(1) del: add_Suc_right)
    with s2(2) i(1) lv show ?thesis using kv_pairs_append [of i lay1 k v 0] by auto
  qed
qed

lemma save_update:
  assumes inv: "kv_inv s lay" and kv: "kv_ok k v" and room: "56 + length k + length v \<le> sect"
    and i: "i < n" and p: "blk i + 32 \<le> p" "p + esize e \<le> blk i + sect"
    and e: "e \<in># live_ents n lay" "e_key e = k"
  obtains (full) it' s' lay' where
      "kv_item_save s k v (Some (mk_item e p (k @ e_val e))) = Some (KV_ERR_INSUFFICIENT_SPACE, Some it', s')"
      "kv_inv s' lay'" "live_ents n lay' = live_ents n lay"
      "\<not> (0 < kv_num_fresh s \<and> kv_workspace s \<noteq> KV_BLK_INVALID)"
    | (saved) it' s' lay' j xs e' ys where
      "kv_item_save s k v (Some (mk_item e p (k @ e_val e))) = Some (KV_ERR_NONE, Some it', s')"
      "kv_inv s' lay'" "kv_pairs (live_ents n lay') = add_mset (k, v) (kv_pairs (live_ents n lay))"
      "j < n" "lay' j = xs @ e' # ys" "e_live e'" "e_key e' = k" "it_pos it' = blk j + 32 + ents_size xs"
      "(k, e_val e') \<in># kv_pairs (live_ents n lay)"
proof -
  let ?sz = "24 + length k + length v"
  let ?it = "mk_item e p (e_key e @ e_val e)"
  have g: "geo s" by (rule kv_inv_geo [OF inv])
  have sz: "24 < ?sz" "32 + ?sz \<le> sect" using kv room by (simp_all add: kv_ok_def)
  have item: "KV_ITEM_SIZE s (length k) (length v) = ?sz" using g by simp
  from search_suitable_spec [OF inv sz] obtain b s1 lay1 where
    b: "kv_blk_search_suitable s ?sz = Some (b, s1)" and inv1: "kv_inv s1 lay1"
    and lv: "live_ents n lay1 = live_ents n lay" and rm: "b = KV_BLK_INVALID \<or> has_room lay1 b ?sz"
    and ok: "0 < kv_num_fresh s \<longrightarrow> kv_workspace s \<noteq> KV_BLK_INVALID \<longrightarrow> b \<noteq> KV_BLK_INVALID"
    by (elim exE conjE) (rule that)
  show thesis
  proof (cases "b = KV_BLK_INVALID")
    case True
    then have "kv_item_save s k v (Some ?it) = Some (KV_ERR_INSUFFICIENT_SPACE, Some ?it, s1)"
      by (simp add: kv_item_save_def Let_def item b)
    with lv ok True e(2) show thesis by (intro full [OF _ inv1]) auto
  next
    case False
    with rm obtain q where q: "q < n" "b = blk q" "32 + ents_size (lay1 q) + ?sz \<le> sect"
      by (auto simp: has_room_def)
    have e1: "e \<in># live_ents n lay1" using e(1) lv by simp
    from inv1 i p e1 obtain j xs e' ys s2 where
      fx: "prev_fixed s1 ?it = Some (KV_ERR_NONE, Some (mk_item e (blk j + 32 + ents_size xs) (e_key e @ e_val e)), s2)"
      and at: "j < n" "lay1 j = xs @ e' # ys" "e_live e'" "e_key e' = e_key e" and inv2: "kv_inv s2 lay1"
      by (rule prev_fixed_spec)
    let ?p = "blk j + 32 + ents_size xs"
    have "32 + ents_size xs \<le> sect" using kv_inv_size [OF inv2 at(1)] at(2) by simp
    then have "?p < 2 ^ 24" using blk_small [OF at(1)] by linarith
    from append_step [OF inv2 q(1) kv this q(3)] obtain s3 where
      s3: "kv_item_do_save s2 (KV_BLK_USABLE_ADDR s2 (blk q)) k v ?p = Some (KV_ERR_NONE, s3)"
        "kv_inv (kv_item_saved s3 (blk q) ?sz) (lay1(q := lay1 q @ [new_ent k v ?p]))"
      by (elim exE conjE) (rule that)
    have r: "kv_item_save s k v (Some ?it)
        = Some (KV_ERR_NONE, Some (mk_item e ?p (e_key e @ e_val e)), kv_item_saved s3 (blk q) ?sz)"
      using False fx s3(1) by (simp add: kv_item_save_def Let_def item b q(2) flip: prev_fixed_def)
    have mem: "(k, e_val e') \<in># kv_pairs (live_ents n lay)"
    proof -
      have "e' \<in># live_ents n lay1" using at(1-3) by (auto simp: live_ents_iff)
      then show ?thesis using kv_pairs_live [of e' lay1] at(4) e(2) lv by simp
    qed
    let ?lay = "lay1(q := lay1 q @ [new_ent k v ?p])"
    have "\<exists>zs. ?lay j = xs @ e' # zs" using at(2) by (cases "j = q") auto
    then obtain zs where "?lay j = xs @ e' # zs" by blast
    moreover have "kv_pairs (live_ents n ?lay) = add_mset (k, v) (kv_pairs (live_ents n lay))"
      using kv_pairs_append [OF q(1)] lv by simp
    moreover have "it_pos (mk_item e ?p (e_key e @ e_val e)) = ?p" by simp
    ultimately show thesis
      using r at(4) e(2) by (intro saved [OF _ s3(2) _ at(1) _ at(3) _ _ mem]) auto
  qed
qed

lemma set_rep:
  assumes "kv_rep s m" and kv: "kv_ok k v" and room: "56 + length k + length v \<le> sect"
  shows "\<exists>err s'. ln_kv_set s (Some k) (Some v) = Some (err, s')
     \<and> (err = KV_ERR_NONE \<and> kv_rep s' (m(k \<mapsto> v))
      \<or> err = KV_ERR_INSUFFICIENT_SPACE \<and> kv_rep s' m
        \<and> \<not> (0 < kv_num_fresh s \<and> kv_workspace s \<noteq> KV_BLK_INVALID))"
proof -
  have len: "length k < 255" "length v < 65535" using kv by (simp_all add: kv_ok_def)
  from assms(1) obtain lay where fin: "finite (dom m)" and inv: "kv_inv s lay"
    and ps: "kv_pairs (live_ents n lay) = mset_set (Map.graph m)" by (auto simp: kv_rep_def)
  from fin ps inv show ?thesis
  proof (cases rule: find_rep [where k = k])
    case (none s1)
    from save_new [OF none(3) kv room] obtain err s2 lay2 where
      r: "kv_item_save s1 k v None = Some (err, None, s2)" and inv2: "kv_inv s2 lay2"
      and c: "err = KV_ERR_NONE \<and> kv_pairs (live_ents n lay2) = add_mset (k, v) (kv_pairs (live_ents n lay))
        \<or> err = KV_ERR_INSUFFICIENT_SPACE \<and> live_ents n lay2 = live_ents n lay
          \<and> \<not> (0 < kv_num_fresh s1 \<and> kv_workspace s1 \<noteq> KV_BLK_INVALID)"
      by (elim exE conjE) (rule that)
    have "ln_kv_set s (Some k) (Some v) = Some (err, s2)"
      using len none(1) r by (simp add: ln_kv_set_def)
    then show ?thesis
      using c inv2 fin ps none(2,4) pairs_insert [OF fin none(2), of v]
      by (auto simp: kv_rep_def looked_def same_flash_def)
  next
    case (some i xs e ys s1)
    let ?p = "blk i + 32 + ents_size xs"
    show ?thesis
    proof (cases "e_val e = v")
      case True
      then have "ln_kv_set s (Some k) (Some v) = Some (KV_ERR_NONE, s1)"
        using len some(4,6) by (simp add: ln_kv_set_def kv_item_update_def kv_item_value_is_match_def Let_def bslice_def)
      moreover have "m(k \<mapsto> v) = m" using some(5) True by auto
      ultimately show ?thesis using some(7) fin ps by (auto simp: kv_rep_def)
    next
      case False
      then have s: "ln_kv_set s (Some k) (Some v) = do {
          (err, prev, s) \<leftarrow> kv_item_save s1 k v (Some (mk_item e ?p (k @ e_val e)));
          if err \<noteq> KV_ERR_NONE then Some (err, s)
          else kv_item_delete s (case prev of Some p \<Rightarrow> p | None \<Rightarrow> mk_item e ?p (k @ e_val e)) }"
        using len some(4,6)
        by (auto simp: ln_kv_set_def kv_item_update_def kv_item_value_is_match_def Let_def bslice_def)
      have e: "e \<in># live_ents n lay" using some(1-3) by (auto simp: live_ents_iff)
      have p: "blk i + 32 \<le> ?p" "?p + esize e \<le> blk i + sect"
        using kv_inv_size [OF inv some(1)] some(2) by simp_all
      from some(7) kv room some(1) p e some(4) show ?thesis
      proof (cases rule: save_update [where p = ?p])
        case (full it' s2 lay2)
        then show ?thesis using s fin ps some(8) by (auto simp: kv_rep_def looked_def same_flash_def)
      next
        case (saved it' s2 lay2 j xs2 e' ys2)
        from delete_step [OF saved(2,4,5,6)] obtain s3 where
          s3: "kv_item_delete_aux s2 (blk j + 32 + ents_size xs2) = Some (KV_ERR_NONE, s3)"
            "kv_inv s3 (lay2(j := xs2 @ ent_kill e' # ys2))"
          by (elim exE conjE) (rule that)
        let ?lay = "lay2(j := xs2 @ ent_kill e' # ys2)"
        have "m k = Some (e_val e')"
          using saved(9) fin unfolding ps by (simp add: finite_graph graph_mem)
        moreover have "add_mset e' (live_ents n ?lay) = live_ents n lay2"
          using saved(4-6) by (rule live_ents_kill)
        then have "kv_pairs (live_ents n lay2) = add_mset (k, e_val e') (kv_pairs (live_ents n ?lay))"
          using saved(7) by (metis (no_types, lifting) image_mset_add_mset kv_pairs_def)
        then have "add_mset (k, e_val e') (kv_pairs (live_ents n ?lay)) = add_mset (k, v) (mset_set (Map.graph m))"
          using saved(3) ps by simp
        ultimately have "kv_pairs (live_ents n ?lay) = mset_set (Map.graph (m(k \<mapsto> v)))"
          by (rule pairs_update [OF fin])
        then have "kv_rep s3 (m(k \<mapsto> v))" using s3(2) fin by (auto simp: kv_rep_def)
        then show ?thesis using s saved(1,8) s3(1) by (simp add: kv_item_delete_def)
      qed
    qed
  qed
qed

end

end
