(* ===== verification/Hal_Flash.thy ===== *)
theory Hal_Flash
  imports Nor_Flash
begin

text \<open>
  The flash driver \<^verbatim>\<open>mcu/driver_ln882h/hal/hal_flash.c\<close>: reads split into a byte head, words
  and a byte tail, programs split at page boundaries, erases split into 4 KB sectors and
  32 KB blocks, and the reads of the security (OTP) area.  An assertion that fails stops
  the code for ever and is \<^const>\<open>None\<close>.  The interrupt masking and the cache switching
  around a command (\<open>FLASH_XIP\<close>) do not touch the cells and are left out.

  The lemmas show that the splitting is invisible: the driver reads, programs and erases
  exactly the byte range it is asked for.  They make \<open>port_drv\<close>, the driver table that
  \<^verbatim>\<open>ln_kv_port.c\<close> and \<^verbatim>\<open>ota_port.c\<close> install, a \<^const>\<open>nor_driver\<close>.
\<close>

section \<open>Definitions\<close>

definition FLASH_PAGE_SIZE :: nat where "FLASH_PAGE_SIZE = 256"
definition FALSH_SIZE_4K :: nat where "FALSH_SIZE_4K = 4096"
definition FALSH_SIZE_BLOCK_32K :: nat where "FALSH_SIZE_BLOCK_32K = 32768"
definition FALSH_SIZE_MAX :: nat where "FALSH_SIZE_MAX = 4194304"
definition FLASH_SECURITY_SIZE_MAX :: nat where "FLASH_SECURITY_SIZE_MAX = 1024"
definition FLASH_SECURITY_PAGE_SIZE :: nat where "FLASH_SECURITY_PAGE_SIZE = 256"

definition hal_assert :: "bool \<Rightarrow> unit option" where
  "hal_assert c = (if c then Some () else None)"

text \<open>The three address bytes of a command.\<close>

definition cmd_addr :: "nat \<Rightarrow> nat" where
  "cmd_addr offset = (offset div 2 ^ 16 mod 256) * 2 ^ 16 + (offset div 2 ^ 8 mod 256) * 2 ^ 8 + offset mod 256"

text \<open>\<open>buf_addr\<close> is the address of the caller's buffer: its alignment decides the split.\<close>

definition hal_flash_read :: "nor \<Rightarrow> nat \<Rightarrow> nat \<Rightarrow> nat \<Rightarrow> (int \<times> byte list) option" where
  "hal_flash_read fl offset len buf_addr = do {
     hal_assert (add_u32 offset len \<le> FALSH_SIZE_MAX);
     let shift = (if len < 4 then len else if buf_addr AND 3 \<noteq> 0 then 4 - (buf_addr AND 3) else 0);
     let length_in_words = (len - shift) div 4;
     let remainder = (len - shift) mod 4;
     let head = (if shift > 0 then nor_read fl (cmd_addr offset) shift else []);
     let offset1 = offset + shift;
     let body = (if length_in_words > 0 then nor_read fl (cmd_addr offset1) (4 * length_in_words) else []);
     let offset2 = (if length_in_words > 0 then offset1 + 4 * length_in_words else offset1);
     let tail = (if remainder \<noteq> 0 then nor_read fl (cmd_addr offset2) remainder else []);
     Some (0, head @ body @ tail)
   }"

definition hal_flash_read_by_cache :: "nor \<Rightarrow> nat \<Rightarrow> nat \<Rightarrow> (int \<times> byte list) option" where
  "hal_flash_read_by_cache fl offset len = do {
     hal_assert (add_u32 offset len \<le> FALSH_SIZE_MAX);
     Some (0, map (\<lambda>i. fl (offset + i)) [0..<len])
   }"

definition hal_flash_chip_erase :: "nor \<Rightarrow> nor" where
  "hal_flash_chip_erase fl = (\<lambda>_. - 1)"

definition hal_flash_erase_block :: "nor \<Rightarrow> nat \<Rightarrow> flash_erase_type \<Rightarrow> nor" where
  "hal_flash_erase_block fl offset type = cmd_erase fl (cmd_addr offset) type"

text \<open>The loops of \<^verbatim>\<open>hal_flash_erase\<close>: \<open>n\<close> blocks of one type from \<open>tmpoffset\<close> on.\<close>

fun hal_flash_erase_loop :: "nat \<Rightarrow> nor \<Rightarrow> nat \<Rightarrow> flash_erase_type \<Rightarrow> nor \<times> nat" where
  "hal_flash_erase_loop 0 fl tmpoffset type = (fl, tmpoffset)"
| "hal_flash_erase_loop (Suc n) fl tmpoffset type =
     hal_flash_erase_loop n (hal_flash_erase_block fl tmpoffset type) (tmpoffset + erase_size type) type"

definition hal_flash_erase :: "nor \<Rightarrow> nat \<Rightarrow> nat \<Rightarrow> nor option" where
  "hal_flash_erase fl offset len = do {
     hal_assert (offset mod FALSH_SIZE_4K = 0);
     hal_assert (len mod FALSH_SIZE_4K = 0);
     Some (if len \<ge> FALSH_SIZE_BLOCK_32K then
       let tailing_length = (offset - offset mod FALSH_SIZE_BLOCK_32K) + FALSH_SIZE_BLOCK_32K - offset;
           tailing_4k_num = u8 (tailing_length div FALSH_SIZE_4K);
           (fl1, off1) = hal_flash_erase_loop tailing_4k_num fl offset ERASE_SECTOR_4KB;
           remainder_len = len - tailing_length;
           num_32k = u16 (remainder_len div FALSH_SIZE_BLOCK_32K);
           remainder_len2 = remainder_len mod FALSH_SIZE_BLOCK_32K;
           num_4k = u16 (remainder_len2 div FALSH_SIZE_4K + (if remainder_len2 mod FALSH_SIZE_4K \<noteq> 0 then 1 else 0));
           (fl2, off2) = hal_flash_erase_loop num_32k fl1 off1 ERASE_BLOCK_32KB;
           (fl3, off3) = hal_flash_erase_loop num_4k fl2 off2 ERASE_SECTOR_4KB
       in fl3
     else
       let num_4k = u16 (len div FALSH_SIZE_4K + (if len mod FALSH_SIZE_4K \<noteq> 0 then 1 else 0))
       in fst (hal_flash_erase_loop num_4k fl offset ERASE_SECTOR_4KB))
   }"

text \<open>
  The area (normal or security) selects the cell array \<open>fl\<close> that the command acts on.  The
  buffer holds exactly the \<open>length\<close> bytes to program.
\<close>

definition hal_flash_page_program_general :: "nor \<Rightarrow> nat \<Rightarrow> byte list \<Rightarrow> nor option" where
  "hal_flash_page_program_general fl offset buffer = do {
     hal_assert (length buffer \<le> FLASH_PAGE_SIZE);
     Some (cmd_page_program fl (cmd_addr offset) buffer)
   }"

fun hal_flash_program_loop :: "nat \<Rightarrow> nor \<Rightarrow> nat \<Rightarrow> byte list \<Rightarrow> (nor \<times> nat \<times> byte list) option" where
  "hal_flash_program_loop 0 fl offset buffer = Some (fl, offset, buffer)"
| "hal_flash_program_loop (Suc cycles) fl offset buffer = do {
     fl' \<leftarrow> hal_flash_page_program_general fl offset (take FLASH_PAGE_SIZE buffer);
     hal_flash_program_loop cycles fl' (offset + FLASH_PAGE_SIZE) (drop FLASH_PAGE_SIZE buffer)
   }"

definition hal_flash_program_general :: "nor \<Rightarrow> nat \<Rightarrow> byte list \<Rightarrow> (int \<times> nor) option" where
  "hal_flash_program_general fl offset buffer = do {
     hal_assert (offset < FALSH_SIZE_MAX);
     let page_base = offset - offset mod FLASH_PAGE_SIZE;
     (fl1, offset1, buffer1) \<leftarrow>
       (if page_base \<noteq> offset then
          let tailing_length = page_base + FLASH_PAGE_SIZE - offset;
              prog_length = (if length buffer < tailing_length then length buffer else tailing_length)
          in do { fl' \<leftarrow> hal_flash_page_program_general fl offset (take prog_length buffer);
                  Some (fl', offset + prog_length, drop prog_length buffer) }
        else Some (fl, offset, buffer));
     (fl2, offset2, buffer2) \<leftarrow>
       hal_flash_program_loop (u16 (length buffer1 div FLASH_PAGE_SIZE)) fl1 offset1 buffer1;
     let remainder = u16 (length buffer1 mod FLASH_PAGE_SIZE);
     fl3 \<leftarrow> (if remainder \<noteq> 0 then hal_flash_page_program_general fl2 offset2 (take remainder buffer2)
            else Some fl2);
     Some (0, fl3)
   }"

definition hal_flash_program :: "nor \<Rightarrow> nat \<Rightarrow> byte list \<Rightarrow> (int \<times> nor) option" where
  "hal_flash_program fl offset buffer = hal_flash_program_general fl offset buffer"

text \<open>The security area is a cell array of its own, read by pages.\<close>

fun hal_flash_security_read_loop :: "nat \<Rightarrow> nor \<Rightarrow> nat \<Rightarrow> byte list \<times> nat" where
  "hal_flash_security_read_loop 0 otp offset = ([], offset)"
| "hal_flash_security_read_loop (Suc n) otp offset =
     (let (bs, off) = hal_flash_security_read_loop n otp (offset + FLASH_SECURITY_PAGE_SIZE)
      in (nor_read otp (cmd_addr offset) FLASH_SECURITY_PAGE_SIZE @ bs, off))"

definition hal_flash_security_area_read :: "nor \<Rightarrow> nat \<Rightarrow> nat \<Rightarrow> byte list option" where
  "hal_flash_security_area_read otp offset len = do {
     hal_assert (add_u32 offset len \<le> FLASH_SECURITY_SIZE_MAX);
     let page_num = u8 (len div FLASH_SECURITY_PAGE_SIZE);
     let remainder = u16 (len mod FLASH_SECURITY_PAGE_SIZE);
     let (bs, off) = hal_flash_security_read_loop page_num otp offset;
     Some (bs @ (if remainder \<noteq> 0 then nor_read otp (cmd_addr off) remainder else []))
   }"

definition hal_flash_security_area_program :: "nor \<Rightarrow> nat \<Rightarrow> byte list \<Rightarrow> (int \<times> nor) option" where
  "hal_flash_security_area_program otp offset buf = do {
     hal_assert (offset \<le> FLASH_SECURITY_SIZE_MAX);
     hal_assert (add_u32 offset (length buf) \<le> FLASH_SECURITY_SIZE_MAX);
     hal_flash_program_general otp offset buf
   }"

text \<open>
  The driver table built by \<^verbatim>\<open>ln_kv_port_init\<close> and by \<^verbatim>\<open>ota_port_init\<close>.  \<^verbatim>\<open>flash_erase\<close> returns 0 whatever
  \<^verbatim>\<open>hal_flash_erase\<close> did; the read does not depend on the buffer's alignment
  (\<open>hal_flash_read_buf\<close>), so the table reads into an aligned one.
\<close>

definition port_flash_read :: "nor \<Rightarrow> nat \<Rightarrow> nat \<Rightarrow> (int \<times> byte list) option" where
  "port_flash_read fl offset len = hal_flash_read fl offset len 0"

definition port_flash_write :: "nor \<Rightarrow> nat \<Rightarrow> byte list \<Rightarrow> (int \<times> nor) option" where
  "port_flash_write fl offset buf = hal_flash_program fl offset buf"

definition port_flash_erase :: "nor \<Rightarrow> nat \<Rightarrow> nat \<Rightarrow> (int \<times> nor) option" where
  "port_flash_erase fl offset len = do { fl' \<leftarrow> hal_flash_erase fl offset len; Some (0, fl') }"

definition port_drv :: flash_drv where
  "port_drv = \<lparr>drv_write = port_flash_write, drv_read = port_flash_read, drv_erase = port_flash_erase\<rparr>"

section \<open>Lemmas\<close>

named_theorems hal_simps \<open>what the driver's operations do to the cells\<close>

lemma hal_assert_True [simp]: "hal_assert True = Some ()"
  by (simp add: hal_assert_def)

lemma hal_assert_False [simp]: "hal_assert False = None"
  by (simp add: hal_assert_def)

lemma and_3_nat: "(n::nat) AND 3 = n mod 4"
  using take_bit_eq_mask [of 2 n] by (simp add: take_bit_eq_mod mask_eq_exp_minus_1)

lemma cmd_addr_id: "a < 2 ^ 24 \<Longrightarrow> cmd_addr a = a"
proof -
  assume "a < 2 ^ 24"
  then have "a div 65536 < 256" by (simp add: less_mult_imp_div_less)
  then have top: "a div 65536 mod 256 = a div 65536" by (rule mod_less)
  have "a mod 65536 = 256 * (a div 256 mod 256) + a mod 256"
    using mod_mult2_eq [of a 256 256] by simp
  moreover have "a = a div 65536 * 65536 + a mod 65536" by (rule div_mult_mod_eq [symmetric])
  ultimately show ?thesis
    unfolding cmd_addr_def by (simp add: top)
qed

lemma cmd_addr_small [simp]: "a < FALSH_SIZE_MAX \<Longrightarrow> cmd_addr a = a"
  by (simp add: cmd_addr_id FALSH_SIZE_MAX_def)

lemma add_u32_flash [simp]: "a + b \<le> FALSH_SIZE_MAX \<Longrightarrow> add_u32 a b = a + b"
  by (simp add: FALSH_SIZE_MAX_def add_u32_def)

lemma add_u32_otp [simp]: "a + b \<le> FLASH_SECURITY_SIZE_MAX \<Longrightarrow> add_u32 a b = a + b"
  by (simp add: FLASH_SECURITY_SIZE_MAX_def add_u32_def)

lemma nor_read_three:
  "a + b + c = n \<Longrightarrow> nor_read fl x a @ nor_read fl (x + a) b @ nor_read fl (x + a + b) c = nor_read fl x n"
  by (auto simp: nor_read_add add.assoc)

lemma read_at_cmd_addr: "a + n \<le> FALSH_SIZE_MAX \<Longrightarrow> nor_read fl (cmd_addr a) n = nor_read fl a n"
  by (cases n) simp_all

text \<open>The split of a read by the alignment of the buffer is invisible.\<close>

lemma hal_flash_read_buf [hal_simps]:
  assumes "offset + len \<le> FALSH_SIZE_MAX"
  shows "hal_flash_read fl offset len buf = Some (0, nor_read fl offset len)"
proof -
  define sh where "sh = (if len < 4 then len else if buf AND 3 \<noteq> 0 then 4 - (buf AND 3) else 0)"
  define w where "w = (len - sh) div 4"
  define r where "r = (len - sh) mod 4"
  have "sh \<le> len" by (auto simp: sh_def)
  moreover have "len - sh = 4 * w + r" by (simp add: w_def r_def)
  ultimately have sum: "sh + 4 * w + r = len" by linarith
  have "hal_flash_read fl offset len buf =
      Some (0, nor_read fl (cmd_addr offset) sh @ nor_read fl (cmd_addr (offset + sh)) (4 * w)
               @ nor_read fl (cmd_addr (offset + sh + 4 * w)) r)"
    unfolding hal_flash_read_def Let_def sh_def [symmetric] w_def [symmetric] r_def [symmetric]
    using assms by simp
  also have "\<dots> = Some (0, nor_read fl offset sh @ nor_read fl (offset + sh) (4 * w)
                           @ nor_read fl (offset + sh + 4 * w) r)"
    using assms sum by (simp add: read_at_cmd_addr)
  also have "\<dots> = Some (0, nor_read fl offset len)"
    using sum by (simp add: nor_read_three)
  finally show ?thesis .
qed

lemma hal_flash_read_by_cache_eq [hal_simps]:
  "offset + len \<le> FALSH_SIZE_MAX \<Longrightarrow> hal_flash_read_by_cache fl offset len = Some (0, nor_read fl offset len)"
  by (simp add: hal_flash_read_by_cache_def nor_read_def list_eq_iff_nth_eq)

lemma erase_block_eq:
  "erase_size t dvd a \<Longrightarrow> a < FALSH_SIZE_MAX \<Longrightarrow> hal_flash_erase_block fl a t = nor_erase fl a (erase_size t)"
  by (simp add: hal_flash_erase_block_def cmd_erase_aligned)

lemma erase_loop_eq:
  "erase_size t dvd a \<Longrightarrow> a + n * erase_size t \<le> FALSH_SIZE_MAX \<Longrightarrow>
   hal_flash_erase_loop n fl a t = (nor_erase fl a (n * erase_size t), a + n * erase_size t)"
proof (induction n arbitrary: fl a)
  case 0
  then show ?case by simp
next
  case (Suc n)
  have pos: "0 < erase_size t" by (cases t) simp_all
  with Suc.prems have "a < FALSH_SIZE_MAX" by simp
  moreover from Suc.prems have "erase_size t dvd a + erase_size t"
    and "a + erase_size t + n * erase_size t \<le> FALSH_SIZE_MAX"
    by (simp_all add: algebra_simps)
  ultimately show ?case
    using Suc by (simp add: erase_block_eq nor_erase_add algebra_simps)
qed

text \<open>The head in sectors, the middle in 32 KB blocks and the tail in sectors are the whole range.\<close>

lemma hal_flash_erase_eq [hal_simps]:
  assumes off: "4096 dvd offset" and len: "4096 dvd len" and lim: "offset + len \<le> FALSH_SIZE_MAX"
  shows "hal_flash_erase fl offset len = Some (nor_erase fl offset len)"
proof (cases "32768 \<le> len")
  case False
  from len obtain k where k: "len = 4096 * k" by blast
  with False have "k < 8" by simp
  with k off lim show ?thesis
    using False erase_loop_eq [of ERASE_SECTOR_4KB offset k fl]
    by (simp add: hal_flash_erase_def FALSH_SIZE_4K_def FALSH_SIZE_BLOCK_32K_def u16_small
        dvd_eq_mod_eq_0 mult.commute)
next
  case True
  from off obtain o' where o': "offset = 4096 * o'" by blast
  from len obtain k where k: "len = 4096 * k" by blast
  define t where "t = 8 - o' mod 8"
  define m where "m = (k - t) div 8"
  define r where "r = (k - t) mod 8"
  have t8: "t \<le> 8" "0 < t" by (simp_all add: t_def)
  have tail: "offset - offset mod 32768 + 32768 - offset = 4096 * t"
  proof -
    have "offset mod 32768 = 4096 * (o' mod 8)"
      using mult_mod_right [of 4096 o' 8] by (simp add: o')
    then show ?thesis by (simp add: t_def o')
  qed
  have k8: "8 \<le> k" using True k by simp
  have kt: "k - t = 8 * m + r" "r < 8" by (simp_all add: m_def r_def)
  have rem: "len - 4096 * t = 32768 * m + 4096 * r"
    using kt k8 t8 k by simp
  have div: "(len - 4096 * t) div 32768 = m" "(len - 4096 * t) mod 32768 = 4096 * r"
    unfolding rem using kt(2) by simp_all
  have sum: "4096 * t + 32768 * m + 4096 * r = len"
    using rem k k8 t8 by simp
  have kmax: "k \<le> 1024" using lim k by (simp add: FALSH_SIZE_MAX_def)
  then have mmax: "m < 65536" by (simp add: m_def)
  have "8 dvd (o' + t)"
    unfolding t_def by presburger
  then obtain q where "o' + t = 8 * q" by blast
  then have "offset + 4096 * t = 32768 * q" by (simp add: o')
  then have al: "32768 dvd (offset + 4096 * t)" by simp
  then have al2: "4096 dvd (offset + 4096 * t + 32768 * m)"
    using off by (simp add: dvd_add)
  have e1: "hal_flash_erase_loop t fl offset ERASE_SECTOR_4KB
      = (nor_erase fl offset (4096 * t), offset + 4096 * t)"
    using erase_loop_eq [of ERASE_SECTOR_4KB offset t fl] off lim sum by (simp add: mult.commute)
  have e2: "hal_flash_erase_loop m gl (offset + 4096 * t) ERASE_BLOCK_32KB
      = (nor_erase gl (offset + 4096 * t) (32768 * m), offset + 4096 * t + 32768 * m)" for gl
    using erase_loop_eq [of ERASE_BLOCK_32KB "offset + 4096 * t" m gl] al lim sum by (simp add: mult.commute)
  have e3: "hal_flash_erase_loop r gl (offset + 4096 * t + 32768 * m) ERASE_SECTOR_4KB
      = (nor_erase gl (offset + 4096 * t + 32768 * m) (4096 * r), offset + 4096 * t + 32768 * m + 4096 * r)" for gl
    using erase_loop_eq [of ERASE_SECTOR_4KB "offset + 4096 * t + 32768 * m" r gl] al2 lim sum
    by (simp add: mult.commute)
  have er: "nor_erase (nor_erase (nor_erase fl offset (4096 * t)) (offset + 4096 * t) (32768 * m))
      (offset + 4096 * t + 32768 * m) (4096 * r) = nor_erase fl offset len"
    by (simp only: nor_erase_add add.assoc sum [unfolded add.assoc])
  have c1: "u8 (4096 * t div 4096) = t" using t8 by (simp add: u8_def)
  have c2: "u16 m = m" using mmax by (rule u16_small)
  have c3: "u16 (4096 * r div 4096 + (if 4096 * r mod 4096 \<noteq> 0 then 1 else 0)) = r"
    using kt(2) by (simp add: u16_def)
  have o0: "offset mod 4096 = 0" "len mod 4096 = 0" using off len by presburger+
  show ?thesis
    unfolding hal_flash_erase_def FALSH_SIZE_4K_def FALSH_SIZE_BLOCK_32K_def Let_def tail div c1 c2 c3 o0
    by (simp only: e1 e2 e3 er prod.case True if_True hal_assert_True simp_thms bind.bind_lunit)
qed

lemma page_program_eq:
  "a < FALSH_SIZE_MAX \<Longrightarrow> a mod 256 + length bs \<le> 256 \<Longrightarrow>
   hal_flash_page_program_general fl a bs = Some (nor_write fl a bs)"
  by (simp add: hal_flash_page_program_general_def FLASH_PAGE_SIZE_def cmd_page_program_in_page)

lemma program_loop_eq:
  "256 dvd a \<Longrightarrow> a + 256 * n \<le> FALSH_SIZE_MAX \<Longrightarrow> 256 * n \<le> length bs \<Longrightarrow>
   hal_flash_program_loop n fl a bs =
     Some (nor_write fl a (take (256 * n) bs), a + 256 * n, drop (256 * n) bs)"
proof (induction n arbitrary: fl a bs)
  case 0
  then show ?case by simp
next
  case (Suc n)
  have "hal_flash_page_program_general fl a (take 256 bs) = Some (nor_write fl a (take 256 bs))"
    using Suc.prems by (intro page_program_eq) auto
  moreover have "hal_flash_program_loop n gl (a + 256) (drop 256 bs) =
      Some (nor_write gl (a + 256) (take (256 * n) (drop 256 bs)), a + 256 + 256 * n, drop (256 * n) (drop 256 bs))" for gl
    using Suc.prems by (intro Suc.IH) auto
  moreover have "nor_write (nor_write fl a (take 256 bs)) (a + 256) (take (256 * n) (drop 256 bs))
      = nor_write fl a (take (256 * Suc n) bs)"
  proof -
    have "length (take 256 bs) = 256" using Suc.prems by simp
    then show ?thesis
      using nor_write_append [of fl a "take 256 bs" "take (256 * n) (drop 256 bs)"]
      by (simp add: take_add)
  qed
  ultimately show ?case by (simp add: FLASH_PAGE_SIZE_def add.commute)
qed

text \<open>Page programs from a page boundary on: the loop and the remainder.\<close>

lemma program_aligned_eq:
  assumes "256 dvd a" and "a + length bs \<le> FALSH_SIZE_MAX"
  shows "do {
     (fl2, offset2, buffer2) \<leftarrow> hal_flash_program_loop (u16 (length bs div 256)) fl a bs;
     let remainder = u16 (length bs mod 256);
     fl3 \<leftarrow> (if remainder \<noteq> 0 then hal_flash_page_program_general fl2 offset2 (take remainder buffer2)
            else Some fl2);
     Some (0, fl3) } = Some (0, nor_write fl a bs)"
proof -
  define n where "n = length bs div 256"
  define r where "r = length bs mod 256"
  have len: "length bs = 256 * n + r" and r: "r < 256" by (simp_all add: n_def r_def)
  have "n < 65536" using assms(2) by (simp add: n_def FALSH_SIZE_MAX_def)
  then have u: "u16 n = n" "u16 r = r"
    using r by (simp_all add: u16_small)
  have loop: "hal_flash_program_loop n fl a bs =
      Some (nor_write fl a (take (256 * n) bs), a + 256 * n, drop (256 * n) bs)"
    using assms len by (intro program_loop_eq) auto
  have al: "(a + 256 * n) mod 256 = 0" using assms(1) by simp
  have rest: "nor_write (nor_write fl a (take (256 * n) bs)) (a + 256 * n) (drop (256 * n) bs) = nor_write fl a bs"
    using nor_write_append [of fl a "take (256 * n) bs" "drop (256 * n) bs"] len by simp
  have pg: "hal_flash_page_program_general gl (a + 256 * n) (drop (256 * n) bs) =
      Some (nor_write gl (a + 256 * n) (drop (256 * n) bs))" if "r \<noteq> 0" for gl
    using assms len r that al by (intro page_program_eq) auto
  show ?thesis
    unfolding n_def [symmetric] r_def [symmetric] u
    using len rest pg by (cases "r = 0") (simp_all add: loop Let_def)
qed

lemma hal_flash_program_eq [hal_simps]:
  assumes lim: "offset + length bs \<le> FALSH_SIZE_MAX" and ne: "offset < FALSH_SIZE_MAX"
  shows "hal_flash_program fl offset bs = Some (0, nor_write fl offset bs)"
proof (cases "offset mod 256 = 0")
  case True
  then have "256 dvd offset" by presburger
  with True show ?thesis
    using program_aligned_eq [of offset bs fl] lim ne
    by (simp add: hal_flash_program_def hal_flash_program_general_def FLASH_PAGE_SIZE_def Let_def)
next
  case False
  define tl where "tl = 256 - offset mod 256"
  define p where "p = (if length bs < tl then length bs else tl)"
  have m: "offset mod 256 < 256" by simp
  then have tl: "offset - offset mod 256 + 256 - offset = tl" "0 < tl"
    using mod_less_eq_dividend [of offset 256] unfolding tl_def by linarith+
  have p: "p \<le> length bs" "p \<le> tl" by (simp_all add: p_def)
  have pg: "hal_flash_page_program_general fl offset (take p bs) = Some (nor_write fl offset (take p bs))"
  proof (intro page_program_eq)
    show "offset mod 256 + length (take p bs) \<le> 256"
      using p m by (simp add: tl_def)
  qed (rule ne)
  have ne': "offset - offset mod 256 \<noteq> offset"
    using False mod_less_eq_dividend [of offset 256] by linarith
  have app: "nor_write (nor_write fl offset (take p bs)) (offset + p) (drop p bs) = nor_write fl offset bs"
    using nor_write_append [of fl offset "take p bs" "drop p bs"] p by simp
  show ?thesis
  proof (cases "length bs < tl")
    case True
    then have "p = length bs" by (simp add: p_def)
    with ne ne' pg app True show ?thesis
      unfolding hal_flash_program_def hal_flash_program_general_def FLASH_PAGE_SIZE_def Let_def tl
      by (simp add: u16_def)
  next
    case long: False
    then have ptl: "p = tl" by (simp add: p_def)
    have "offset + tl = offset div 256 * 256 + (offset mod 256 + tl)"
      by (simp only: add.assoc [symmetric] div_mult_mod_eq)
    also have "offset mod 256 + tl = 256"
      unfolding tl_def using m by (intro le_add_diff_inverse less_imp_le)
    finally have al: "256 dvd offset + tl" by simp
    have "offset + tl + length (drop tl bs) \<le> FALSH_SIZE_MAX"
      using lim long by simp
    with program_aligned_eq [OF al, of "drop tl bs" "nor_write fl offset (take tl bs)"]
    show ?thesis
      using ne ne' pg app long
      unfolding hal_flash_program_def hal_flash_program_general_def FLASH_PAGE_SIZE_def Let_def tl ptl
      by simp
  qed
qed

lemma hal_flash_security_area_read_eq [hal_simps]:
  assumes "offset + len \<le> FLASH_SECURITY_SIZE_MAX" and "len < 256"
  shows "hal_flash_security_area_read otp offset len = Some (nor_read otp offset len)"
proof -
  have a: "cmd_addr offset = offset"
    using assms by (simp add: FLASH_SECURITY_SIZE_MAX_def cmd_addr_id)
  from assms show ?thesis
    by (simp add: hal_flash_security_area_read_def FLASH_SECURITY_PAGE_SIZE_def Let_def u8_def u16_def a)
qed

text \<open>The driver table of the ports keeps the driver contract.\<close>

interpretation port: nor_driver port_drv FALSH_SIZE_MAX 4096
proof
  fix a n fl
  assume "a + n \<le> FALSH_SIZE_MAX"
  then show "drv_read port_drv fl a n = Some (0, nor_read fl a n)"
    by (simp add: port_drv_def port_flash_read_def hal_simps)
next
  fix a fl and bs :: "byte list"
  assume "a + length bs \<le> FALSH_SIZE_MAX" and "bs \<noteq> []"
  then show "drv_write port_drv fl a bs = Some (0, nor_write fl a bs)"
    by (cases bs) (simp_all add: port_drv_def port_flash_write_def hal_simps)
next
  fix a n fl
  assume "4096 dvd a" and "4096 dvd n" and "a + n \<le> FALSH_SIZE_MAX"
  then show "drv_erase port_drv fl a n = Some (0, nor_erase fl a n)"
    by (simp add: port_drv_def port_flash_erase_def hal_simps)
qed

section \<open>Properties\<close>

text \<open>
  C20: \<open>hal_flash_program\<close> programs exactly the bytes it is given at exactly their addresses:
  splitting at the 256-byte page boundaries (head, whole pages, remainder) loses nothing and
  never lets a page program wrap to the start of its page.
\<close>

theorem hal_flash_program_exact:
  assumes "offset + length bs \<le> FALSH_SIZE_MAX" and "offset < FALSH_SIZE_MAX"
  shows "hal_flash_program fl offset bs = Some (0, nor_write fl offset bs)"
  using assms by (rule hal_flash_program_eq)

lemma hal_flash_program_exact_witness:
  "hal_flash_program (\<lambda>_. - 1) 4000 (replicate 600 7) = Some (0, nor_write (\<lambda>_. - 1) 4000 (replicate 600 7))"
  by (rule hal_flash_program_exact) (simp_all add: FALSH_SIZE_MAX_def)

text \<open>
  \<open>hal_flash_erase\<close> erases exactly the sectors of the range: 4 KB sectors up to the next
  32 KB boundary, then 32 KB blocks, then sectors again, with the block counts cast to 8 and
  16 bits, cover the range and nothing else.
\<close>

theorem hal_flash_erase_exact:
  assumes "4096 dvd offset" and "4096 dvd len" and "offset + len \<le> FALSH_SIZE_MAX"
  shows "hal_flash_erase fl offset len = Some (nor_erase fl offset len)"
  using assms by (rule hal_flash_erase_eq)

lemma hal_flash_erase_exact_witness:
  "hal_flash_erase (\<lambda>_. - 1) 28672 102400 = Some (nor_erase (\<lambda>_. - 1) 28672 102400)"
  by (rule hal_flash_erase_exact) (simp_all add: FALSH_SIZE_MAX_def)

text \<open>
  data programmed into an erased range of the flash is read back unchanged, whatever
  the alignment of the buffer that the read splits on.
\<close>

theorem hal_flash_roundtrip:
  assumes "4096 dvd base" and "4096 dvd len" and "base + len \<le> FALSH_SIZE_MAX"
    and "base \<le> a" and "a + length bs \<le> base + len" and "bs \<noteq> []"
  shows "do { fl1 \<leftarrow> hal_flash_erase fl base len;
              (r, fl2) \<leftarrow> hal_flash_program fl1 a bs;
              hal_flash_read fl2 a (length bs) buf } = Some (0, bs)"
proof -
  have "0 < length bs" using assms(6) by simp
  then have "a < FALSH_SIZE_MAX" and lim: "a + length bs \<le> FALSH_SIZE_MAX" using assms by linarith+
  moreover have "blank (nor_erase fl base len) a (length bs)"
    using assms by (intro blank_erase_sub) auto
  ultimately show ?thesis
    using assms by (simp add: hal_simps nor_read_write_blank)
qed

lemma hal_flash_roundtrip_witness:
  "do { fl1 \<leftarrow> hal_flash_erase (\<lambda>_. 0) 4096 4096;
        (r, fl2) \<leftarrow> hal_flash_program fl1 5000 [1, 2, 3];
        hal_flash_read fl2 5000 3 2 } = Some (0, [1, 2, 3])"
  using hal_flash_roundtrip [of 4096 4096 5000 "[1, 2, 3]" "\<lambda>_. 0" 2]
  by (simp add: FALSH_SIZE_MAX_def numeral_3_eq_3)

end
