(* ===== verification/Kv_Port.thy ===== *)
theory Kv_Port
  imports Kv_Correct Hal_Flash
begin

text \<open>
  The key-value store on the flash driver that \<^verbatim>\<open>ln_kv_port.c\<close> installs
  (\<^const>\<open>port_drv\<close>, with the 4 KB sectors of the device).  The contract of the driver is what
  \<^theory_text>\<open>Hal_Flash\<close> proves, so the results about the store hold for it: the interface
  operations implement a finite map.

  \<open>kv_image\<close> is a freshly formatted partition; it shows that the hypotheses of the theorems
  can be met.
\<close>

section \<open>Definitions\<close>

text \<open>The partitions the store can live in: whole sectors inside the 4 MB of the device.\<close>

definition kv_partition :: "nat \<Rightarrow> nat \<Rightarrow> bool" where
  "kv_partition st n \<longleftrightarrow> 4096 dvd st \<and> 0 < n \<and> st + n * 4096 \<le> FALSH_SIZE_MAX"

definition ln_kv_port_init :: "kv_ctl \<Rightarrow> nat \<Rightarrow> nat \<Rightarrow> (kv_err \<times> kv_ctl) option" where
  "ln_kv_port_init s flash_start flash_end =
     ln_kv_init s flash_start flash_end (Some port_drv) (Some \<lparr>prop_sector_size_log2 = 12\<rparr>)"

text \<open>A formatted store without items.\<close>

definition kv_image_cells :: nor where
  "kv_image_cells x = (if x mod 4096 < 8 then le_bytes 8 KV_BLK_HDR_MAGIC ! (x mod 4096) else - 1)"

definition kv_image :: "nat \<Rightarrow> nat \<Rightarrow> kv_ctl" where
  "kv_image st n = \<lparr>kv_sector_size_log2 = 12, kv_flash_write_align = 1, kv_flash_start = st,
     kv_flash_end = st + n * 4096, kv_flash_drv = port_drv, kv_workspace = st,
     kv_num_inuse = 0, kv_num_fresh = n, kv_num_hanging = 0, kv_num_total = n,
     kv_detail = (\<lambda>_. \<lparr>blk_flags = KV_BLK_FLAG_FRESH, free_size = 4064\<rparr>),
     kv_cells = kv_image_cells, kv_mem = []\<rparr>"

section \<open>The store on the port's driver\<close>

lemma kv_store_port: "kv_partition st n \<Longrightarrow> kv_store port_drv FALSH_SIZE_MAX 4096 12 st n"
  by unfold_locales (auto simp: kv_partition_def FALSH_SIZE_MAX_def)

text \<open>The key-value partition of the default partition table: 16 KB at \<open>0x1E0000\<close>.\<close>

interpretation kvp: kv_store port_drv FALSH_SIZE_MAX 4096 12 "0x1E0000" 4
  by (rule kv_store_port) (simp add: kv_partition_def FALSH_SIZE_MAX_def)

lemma kv_image_holds:
  assumes "kv_partition st n"
  shows "kv_holds port_drv 12 st n (kv_image st n) Map.empty"
proof -
  have sec: "(st + i * 4096 + x) mod 4096 = x" if "x < 4096" for i x
  proof -
    have "4096 dvd st" using assms by (simp add: kv_partition_def)
    then obtain q where "st = 4096 * q" by (elim dvdE)
    then have "st + i * 4096 + x = 4096 * (q + i) + x" by simp
    then show ?thesis using that by (simp only: mod_mult_self4 mod_less)
  qed
  have b: "blank kv_image_cells (st + i * 4096 + a) m" if "8 \<le> a" "a + m \<le> 4096" for i a m
    unfolding blank_def
  proof (intro allI impI)
    fix x assume x: "st + i * 4096 + a \<le> x \<and> x < st + i * 4096 + a + m"
    then obtain d where d: "x = st + i * 4096 + a + d" "d < m" by (auto simp: le_iff_add)
    define y where "y = a + d"
    have y: "x = st + i * 4096 + y" "8 \<le> y" "y < 4096" using d that by (simp_all add: y_def)
    have "x mod 4096 = y" unfolding y(1) by (rule sec [OF y(3)])
    then show "kv_image_cells x = - 1" using y(2) by (simp add: kv_image_cells_def)
  qed
  have r: "nor_read kv_image_cells (st + i * 4096) 8 = le_bytes 8 KV_BLK_HDR_MAGIC" for i
  proof (rule nth_equalityI)
    fix x assume "x < length (nor_read kv_image_cells (st + i * 4096) 8)"
    then have "x < 8" by simp
    then show "nor_read kv_image_cells (st + i * 4096) 8 ! x = le_bytes 8 KV_BLK_HDR_MAGIC ! x"
      using sec [of x i] by (simp add: kv_image_cells_def)
  qed simp
  have h: "blk_hdr_ok kv_image_cells (st + i * 4096)" for i
    using b [of 8 8 i] b [of 16 8 i] b [of 24 8 i] by (simp add: blk_hdr_ok_def r)
  have d: "blk_holds 4096 kv_image_cells (st + i * 4096) []" for i
    using b [of 32 4064 i] by (simp add: blk_holds_def nor_read_0)
  have "\<exists>i<n. st = st + i * 4096" using assms by (intro exI [of _ 0]) (simp add: kv_partition_def)
  moreover have "live_ents n (\<lambda>_. []) = {#}" by (simp add: live_ents_def)
  moreover have "bit KV_BLK_FLAG_FRESH 0" by (simp add: flag_simps del: bit_0)
  ultimately show ?thesis
    unfolding kv_holds_def
    by (intro conjI exI [of _ "\<lambda>_. []"])
      (auto simp: kv_image_def kv_geo_def idx_ok_def flag_simps h d kv_pairs_def Map.graph_def simp del: bit_0)
qed

section \<open>Properties\<close>

text \<open>
  C7: on every partition of the device, \<open>ln_kv_get\<close> on a store that represents the map \<open>m\<close>
  returns what \<open>m\<close> holds: the value and its length, \<open>KV_ERR_NOT_EXIST\<close> for an absent key, or
  \<open>KV_ERR_BUF_TOO_SHORT\<close> with the needed length and the buffer untouched; a buffer of the stated size
  or longer, and a number \<open>l\<close> that the length overwrites.  It always returns,
  and leaves the represented map and the flash as they were.
\<close>

theorem kv_get_correct:
  assumes "kv_partition st n" and "kv_holds port_drv 12 st n s m" and "length k < 255"
  shows "\<exists>s'. kv_holds port_drv 12 st n s' m \<and> kv_cells s' = kv_cells s
    \<and> ln_kv_get s (Some k) (Some buf) sz (Some l) = Some (case m k of
      None \<Rightarrow> (KV_ERR_NOT_EXIST, Some buf, Some l, s')
    | Some v \<Rightarrow> if sz < length v then (KV_ERR_BUF_TOO_SHORT, Some buf, Some (length v), s')
                else (KV_ERR_NONE, Some (v @ drop (length v) buf), Some (length v), s'))"
  using kv_store.get_rep [OF kv_store_port [OF assms(1)], of s m k buf sz l] assms(2,3)
  by (auto simp: kv_store.kv_rep_holds [OF kv_store_port [OF assms(1)]]
      kv_store.looked_sel [OF kv_store_port [OF assms(1)]])

lemma kv_get_correct_witness:
  "\<exists>s'. kv_holds port_drv 12 0x1E0000 4 s' Map.empty \<and> kv_cells s' = kv_cells (kv_image 0x1E0000 4)
    \<and> ln_kv_get (kv_image 0x1E0000 4) (Some [1, 2]) (Some [0]) 1 (Some 9) = Some (KV_ERR_NOT_EXIST, Some [0], Some 9, s')"
proof -
  have p: "kv_partition 0x1E0000 4" by (simp add: kv_partition_def FALSH_SIZE_MAX_def)
  show ?thesis
    using kv_get_correct [OF p kv_image_holds [OF p], of "[1, 2]" "[0]" 1 9] by simp
qed

text \<open>
  C6: for a key and a value that are not empty and hold no magic number (\<open>kv_ok\<close>) and an item that fits
  a block of the store (56 bytes and the two lengths at most 4096), with memory granted, \<open>ln_kv_set\<close> on a
  store that represents \<open>m\<close> always returns, and either the result
  represents \<open>m\<close> with the key bound to the value, or it is \<open>KV_ERR_INSUFFICIENT_SPACE\<close> and \<open>m\<close> is
  still represented; the second does not happen while a block is fresh and the store has a
  workspace.  This covers a new key, an unchanged value, an update (new item, old item
  discarded), the choice of a block, and the garbage collections on the way, which move items.
\<close>

theorem kv_set_correct:
  assumes "kv_partition st n" and "kv_holds port_drv 12 st n s m" and "kv_ok k v"
    and "56 + length k + length v \<le> 4096"
  shows "\<exists>err s'. ln_kv_set s (Some k) (Some v) = Some (err, s')
     \<and> (err = KV_ERR_NONE \<and> kv_holds port_drv 12 st n s' (m(k \<mapsto> v))
      \<or> err = KV_ERR_INSUFFICIENT_SPACE \<and> kv_holds port_drv 12 st n s' m
        \<and> \<not> (0 < kv_num_fresh s \<and> kv_workspace s \<noteq> KV_BLK_INVALID))"
  using kv_store.set_rep [OF kv_store_port [OF assms(1)], of s m k v] assms(2-4)
  unfolding kv_store.kv_rep_holds [OF kv_store_port [OF assms(1)]] by blast

lemma kv_set_correct_witness:
  "\<exists>s'. ln_kv_set (kv_image 0x1E0000 4) (Some [1, 2]) (Some [3]) = Some (KV_ERR_NONE, s')
     \<and> kv_holds port_drv 12 0x1E0000 4 s' [[1, 2] \<mapsto> [3]]"
proof -
  have p: "kv_partition 0x1E0000 4" by (simp add: kv_partition_def FALSH_SIZE_MAX_def)
  have "kv_ok [1, 2] [3]" by (simp add: kv_ok_def clean_bytes_def)
  with kv_set_correct [OF p kv_image_holds [OF p], of "[1, 2]" "[3]"] show ?thesis
    by (auto simp: kv_image_def KV_BLK_INVALID_def)
qed

text \<open>
  C8: \<open>ln_kv_del\<close> on a store that represents \<open>m\<close> always returns; the result represents \<open>m\<close> without
  the key, and the error code tells whether the key was there.
\<close>

theorem kv_del_correct:
  assumes "kv_partition st n" and "kv_holds port_drv 12 st n s m" and "length k < 255"
  shows "\<exists>s'. ln_kv_del s (Some k) = Some (if k \<in> dom m then KV_ERR_NONE else KV_ERR_NOT_EXIST, s')
    \<and> kv_holds port_drv 12 st n s' (m(k := None))"
  using kv_store.del_rep [OF kv_store_port [OF assms(1)], of s m k] assms(2,3)
  unfolding kv_store.kv_rep_holds [OF kv_store_port [OF assms(1)]] by blast

lemma kv_del_correct_witness:
  "\<exists>s'. ln_kv_del (kv_image 0x1E0000 4) (Some [7]) = Some (KV_ERR_NOT_EXIST, s')
    \<and> kv_holds port_drv 12 0x1E0000 4 s' Map.empty"
proof -
  have p: "kv_partition 0x1E0000 4" by (simp add: kv_partition_def FALSH_SIZE_MAX_def)
  show ?thesis using kv_del_correct [OF p kv_image_holds [OF p], of "[7]"] by simp
qed

end
