(* ===== verification/Fifo.thy ===== *)
theory Fifo
  imports Prelude
begin

text \<open>
  The byte ring buffer \<^verbatim>\<open>components/utils/fifo/fifobuf.c\<close> that the UART drivers and the
  serial hardware layer use.  Pointers are addresses, the memory they point into is a
  component of the state, \<open>LN_ASSERT (0)\<close> is \<^const>\<open>None\<close>.  The critical sections make each
  operation atomic, so an interleaving of interrupt and task is a sequence of operations.

  The locale \<open>byte_queue\<close> is what a client relies on; \<open>fifo_q\<close> is the ring buffer as an
  instance, with the contents \<open>fifo_abs\<close> as the abstract queue.
\<close>

section \<open>Definitions\<close>

record fifo_buffer =
  fb_mem :: "nat \<Rightarrow> byte"
  fb_head :: nat
  fb_tail :: nat
  fb_begin :: nat
  fb_end :: nat

definition fifo_isfull :: "fifo_buffer \<Rightarrow> bool" where
  "fifo_isfull fb \<longleftrightarrow> (fb_head fb = fb_begin fb \<and> fb_tail fb = fb_end fb)
                     \<or> fb_tail fb = sub_u32 (fb_head fb) 1"

definition fifo_isempty :: "fifo_buffer \<Rightarrow> bool" where
  "fifo_isempty fb \<longleftrightarrow> fb_head fb = fb_tail fb"

definition fifo_push :: "fifo_buffer \<Rightarrow> byte \<Rightarrow> fifo_buffer option" where
  "fifo_push fb c =
     (if \<not> fifo_isfull fb then
        if fb_tail fb \<ge> fb_begin fb \<and> fb_tail fb < fb_end fb then
          Some (fb\<lparr>fb_mem := (fb_mem fb)(fb_tail fb := c), fb_tail := add_u32 (fb_tail fb) 1\<rparr>)
        else if fb_tail fb = fb_end fb then
          Some (fb\<lparr>fb_mem := (fb_mem fb)(fb_tail fb := c), fb_tail := fb_begin fb\<rparr>)
        else None
      else Some fb)"

definition fifo_pop :: "fifo_buffer \<Rightarrow> (byte \<times> fifo_buffer) option" where
  "fifo_pop fb =
     (if \<not> fifo_isempty fb then
        if fb_head fb \<ge> fb_begin fb \<and> fb_head fb < fb_end fb then
          Some (fb_mem fb (fb_head fb), fb\<lparr>fb_head := add_u32 (fb_head fb) 1\<rparr>)
        else if fb_head fb = fb_end fb then
          Some (fb_mem fb (fb_end fb), fb\<lparr>fb_head := fb_begin fb\<rparr>)
        else None
      else Some (0, fb))"

definition fifo_flush :: "fifo_buffer \<Rightarrow> fifo_buffer" where
  "fifo_flush fb = fb\<lparr>fb_tail := fb_begin fb, fb_head := fb_begin fb\<rparr>"

definition fifo_init :: "(nat \<Rightarrow> byte) \<Rightarrow> nat \<Rightarrow> nat \<Rightarrow> fifo_buffer option" where
  "fifo_init mem buf sz =
     (if sz > 1 then
        Some \<lparr>fb_mem = mem, fb_head = buf, fb_tail = buf, fb_begin = buf, fb_end = sub_u32 (add_u32 buf sz) 1\<rparr>
      else None)"

definition fifo_len :: "fifo_buffer \<Rightarrow> nat" where
  "fifo_len fb = add_u32 (sub_u32 (fb_end fb) (fb_begin fb)) 1"

section \<open>The interface of a byte queue\<close>

text \<open>
  A client's view: an interleaving of pushes (the interrupt handler) and pops (the task)
  is a list of operations.  \<open>spec_run\<close> is the bounded queue on lists, \<open>queue_run\<close> the same
  operations on an implementation; both collect what the pops return.
\<close>

datatype queue_op = Push byte | Pop

fun spec_run :: "nat \<Rightarrow> byte list \<Rightarrow> queue_op list \<Rightarrow> byte list \<times> byte list" where
  "spec_run cap q [] = ([], q)"
| "spec_run cap q (Push c # ops) = spec_run cap (if length q < cap then q @ [c] else q) ops"
| "spec_run cap [] (Pop # ops) = (let (out, q') = spec_run cap [] ops in (0 # out, q'))"
| "spec_run cap (b # q) (Pop # ops) = (let (out, q') = spec_run cap q ops in (b # out, q'))"

fun queue_run :: "('s \<Rightarrow> byte \<Rightarrow> 's option) \<Rightarrow> ('s \<Rightarrow> (byte \<times> 's) option) \<Rightarrow> 's \<Rightarrow> queue_op list
    \<Rightarrow> (byte list \<times> 's) option" where
  "queue_run psh pp s [] = Some ([], s)"
| "queue_run psh pp s (Push c # ops) = do { s' \<leftarrow> psh s c; queue_run psh pp s' ops }"
| "queue_run psh pp s (Pop # ops) =
     do { (b, s') \<leftarrow> pp s; (out, s'') \<leftarrow> queue_run psh pp s' ops; Some (b # out, s'') }"

text \<open>
  A queue of bounded capacity: a push appends unless the queue is full, a pop takes the
  oldest byte and returns 0 when there is none, and neither operation stops.
\<close>

locale byte_queue =
  fixes psh :: "'s \<Rightarrow> byte \<Rightarrow> 's option"
    and pp :: "'s \<Rightarrow> (byte \<times> 's) option"
    and contents :: "'s \<Rightarrow> byte list"
    and ok :: "'s \<Rightarrow> bool"
    and cap :: "'s \<Rightarrow> nat"
  assumes push_room: "ok s \<Longrightarrow> length (contents s) < cap s \<Longrightarrow>
            \<exists>s'. psh s c = Some s' \<and> ok s' \<and> contents s' = contents s @ [c] \<and> cap s' = cap s"
    and push_full: "ok s \<Longrightarrow> cap s \<le> length (contents s) \<Longrightarrow> psh s c = Some s"
    and pop_some: "ok s \<Longrightarrow> contents s = b # bs \<Longrightarrow>
            \<exists>s'. pp s = Some (b, s') \<and> ok s' \<and> contents s' = bs \<and> cap s' = cap s"
    and pop_none: "ok s \<Longrightarrow> contents s = [] \<Longrightarrow> pp s = Some (0, s)"
begin

lemma run_refines:
  "ok s \<Longrightarrow> \<exists>s'. queue_run psh pp s ops = Some (fst (spec_run (cap s) (contents s) ops), s')
             \<and> ok s' \<and> cap s' = cap s \<and> contents s' = snd (spec_run (cap s) (contents s) ops)"
proof (induction ops arbitrary: s)
  case Nil
  then show ?case by simp
next
  case (Cons x ops)
  show ?case
  proof (cases x)
    case (Push c)
    show ?thesis
    proof (cases "length (contents s) < cap s")
      case True
      with Cons.prems push_room obtain s1 where s1: "psh s c = Some s1" "ok s1"
          "contents s1 = contents s @ [c]" "cap s1 = cap s" by blast
      from Cons.IH [OF s1(2)] s1 True Push show ?thesis by auto
    next
      case False
      with Cons.prems have "psh s c = Some s" by (simp add: push_full)
      with Cons.IH [OF Cons.prems] False Push show ?thesis by auto
    qed
  next
    case Pop
    show ?thesis
    proof (cases "contents s")
      case Nil
      with Cons.prems have "pp s = Some (0, s)" by (simp add: pop_none)
      with Cons.IH [OF Cons.prems] Nil Pop show ?thesis by (auto simp: split_beta)
    next
      case (Cons b bs)
      with \<open>ok s\<close> pop_some obtain s1 where s1: "pp s = Some (b, s1)" "ok s1"
          "contents s1 = bs" "cap s1 = cap s" by blast
      from Cons.IH [OF s1(2)] s1 Cons Pop show ?thesis by (auto simp: split_beta)
    qed
  qed
qed

end

section \<open>The ring buffer is a byte queue\<close>

definition fifo_ok :: "fifo_buffer \<Rightarrow> bool" where
  "fifo_ok fb \<longleftrightarrow> fb_begin fb \<le> fb_head fb \<and> fb_head fb \<le> fb_end fb \<and> fb_begin fb \<le> fb_tail fb
     \<and> fb_tail fb \<le> fb_end fb \<and> fb_begin fb < fb_end fb \<and> 0 < fb_begin fb \<and> fb_end fb + 1 < 2 ^ 32"

definition fifo_abs :: "fifo_buffer \<Rightarrow> byte list" where
  "fifo_abs fb = (if fb_head fb \<le> fb_tail fb then map (fb_mem fb) [fb_head fb..<fb_tail fb]
                  else map (fb_mem fb) [fb_head fb..<fb_end fb + 1] @ map (fb_mem fb) [fb_begin fb..<fb_tail fb])"

definition fifo_cap :: "fifo_buffer \<Rightarrow> nat" where
  "fifo_cap fb = fb_end fb - fb_begin fb"

lemma length_fifo_abs:
  "fifo_ok fb \<Longrightarrow> length (fifo_abs fb) =
     (if fb_head fb \<le> fb_tail fb then fb_tail fb - fb_head fb
      else fb_end fb + 1 - fb_head fb + (fb_tail fb - fb_begin fb))"
  by (auto simp: fifo_abs_def fifo_ok_def)

lemma fifo_bound: "fifo_ok fb \<Longrightarrow> length (fifo_abs fb) \<le> fifo_cap fb"
  by (auto simp: length_fifo_abs fifo_cap_def fifo_ok_def)

lemma fifo_isempty_iff: "fifo_ok fb \<Longrightarrow> fifo_isempty fb \<longleftrightarrow> fifo_abs fb = []"
  by (auto simp: fifo_isempty_def fifo_abs_def fifo_ok_def)

lemma fifo_isfull_iff: "fifo_ok fb \<Longrightarrow> fifo_isfull fb \<longleftrightarrow> length (fifo_abs fb) = fifo_cap fb"
  by (auto simp: fifo_isfull_def length_fifo_abs fifo_cap_def fifo_ok_def sub_u32_noborrow)

lemma map_upt_update_other: "b \<le> k \<or> k < a \<Longrightarrow> map (f(k := v)) [a..<b] = map f [a..<b]"
  by auto

lemma fifo_push_room:
  assumes ok: "fifo_ok fb" and room: "length (fifo_abs fb) < fifo_cap fb"
  shows "\<exists>fb'. fifo_push fb c = Some fb' \<and> fifo_ok fb' \<and> fifo_abs fb' = fifo_abs fb @ [c]
          \<and> fifo_cap fb' = fifo_cap fb"
proof -
  have nf: "\<not> fifo_isfull fb" using ok room by (simp add: fifo_isfull_iff)
  show ?thesis
  proof (cases "fb_tail fb < fb_end fb")
    case True
    have "fb_tail fb + 1 \<noteq> fb_head fb"
      using nf ok by (auto simp: fifo_isfull_def fifo_ok_def sub_u32_noborrow)
    with True nf ok show ?thesis
      by (auto simp: fifo_push_def fifo_ok_def fifo_abs_def fifo_cap_def add_u32_nocarry map_upt_update_other)
  next
    case False
    with ok have "fb_tail fb = fb_end fb" by (simp add: fifo_ok_def)
    moreover from this nf have "fb_head fb \<noteq> fb_begin fb" by (simp add: fifo_isfull_def)
    ultimately show ?thesis using nf ok
      by (auto simp: fifo_push_def fifo_ok_def fifo_abs_def fifo_cap_def map_upt_update_other)
  qed
qed

lemma fifo_push_full: "fifo_ok fb \<Longrightarrow> fifo_cap fb \<le> length (fifo_abs fb) \<Longrightarrow> fifo_push fb c = Some fb"
  using fifo_bound [of fb] by (simp add: fifo_push_def fifo_isfull_iff)

lemma fifo_pop_some:
  assumes ok: "fifo_ok fb" and abs: "fifo_abs fb = b # bs"
  shows "\<exists>fb'. fifo_pop fb = Some (b, fb') \<and> fifo_ok fb' \<and> fifo_abs fb' = bs \<and> fifo_cap fb' = fifo_cap fb"
proof -
  have ne: "\<not> fifo_isempty fb" using ok abs by (simp add: fifo_isempty_iff)
  then have ht: "fb_head fb \<noteq> fb_tail fb" by (simp add: fifo_isempty_def)
  show ?thesis
  proof (cases "fb_head fb < fb_end fb")
    case True
    have "b = fb_mem fb (fb_head fb)"
      using abs ht True ok by (auto simp: fifo_abs_def fifo_ok_def upt_conv_Cons split: if_splits)
    with True ne ht ok abs show ?thesis
      by (auto simp: fifo_pop_def fifo_ok_def fifo_abs_def fifo_cap_def add_u32_nocarry upt_conv_Cons
          split: if_splits)
  next
    case False
    with ok have h: "fb_head fb = fb_end fb" by (simp add: fifo_ok_def)
    with ne ht ok abs show ?thesis
      by (auto simp: fifo_pop_def fifo_ok_def fifo_abs_def fifo_cap_def upt_conv_Cons split: if_splits)
  qed
qed

lemma fifo_pop_none: "fifo_ok fb \<Longrightarrow> fifo_abs fb = [] \<Longrightarrow> fifo_pop fb = Some (0, fb)"
  by (simp add: fifo_pop_def fifo_isempty_iff)

interpretation fifo_q: byte_queue fifo_push fifo_pop fifo_abs fifo_ok fifo_cap
  by unfold_locales (rule fifo_push_room fifo_push_full fifo_pop_some fifo_pop_none; assumption)+

lemma fifo_init_ok:
  assumes "1 < sz" and "0 < buf" and "buf + sz < 2 ^ 32"
  shows "\<exists>fb. fifo_init mem buf sz = Some fb \<and> fifo_ok fb \<and> fifo_abs fb = []
          \<and> fifo_cap fb = sz - 1 \<and> fifo_len fb = sz"
  using assms
  by (auto simp: fifo_init_def fifo_ok_def fifo_abs_def fifo_cap_def fifo_len_def sub_u32_noborrow add_u32_nocarry)

lemma fifo_flush_ok: "fifo_ok fb \<Longrightarrow> fifo_ok (fifo_flush fb) \<and> fifo_abs (fifo_flush fb) = []"
  by (simp add: fifo_flush_def fifo_ok_def fifo_abs_def)

section \<open>Properties\<close>

text \<open>
  C21: from an initialised ring buffer of \<open>sz\<close> bytes, any interleaving of \<open>fifo_push\<close> and
  \<open>fifo_pop\<close> returns (no operation stops in its assertion), the pops give exactly the bytes that a
  queue of \<open>sz - 1\<close> bytes gives (first in first out, a push on a full buffer dropped, 0 on
  an empty one), and the contents left are those of that queue.
\<close>

theorem fifo_refines_queue:
  assumes "1 < sz" and "0 < buf" and "buf + sz < 2 ^ 32"
  shows "\<exists>fb fb'. fifo_init mem buf sz = Some fb
          \<and> queue_run fifo_push fifo_pop fb ops = Some (fst (spec_run (sz - 1) [] ops), fb')
          \<and> fifo_ok fb' \<and> fifo_abs fb' = snd (spec_run (sz - 1) [] ops)"
proof -
  from fifo_init_ok [OF assms] obtain fb where fb: "fifo_init mem buf sz = Some fb" "fifo_ok fb"
      "fifo_abs fb = []" "fifo_cap fb = sz - 1" by blast
  with fifo_q.run_refines [of fb ops] show ?thesis by auto
qed

lemma fifo_refines_queue_witness:
  "\<exists>fb fb'. fifo_init (\<lambda>_. 0) 4096 3 = Some fb
     \<and> queue_run fifo_push fifo_pop fb [Push 1, Push 2, Push 3, Pop, Push 4, Pop, Pop, Pop]
         = Some ([1, 2, 4, 0], fb')"
  using fifo_refines_queue [of 3 4096 "\<lambda>_. 0" "[Push 1, Push 2, Push 3, Pop, Push 4, Pop, Pop, Pop]"]
  by auto

end
