(* ===== verification/Crc.thy ===== *)
theory Crc
  imports Prelude
begin

text \<open>
  The checksums of \<^verbatim>\<open>components/utils/crc16.c\<close> and \<^verbatim>\<open>components/utils/crc32.c\<close>: the
  table-driven software versions (the build option \<open>LN_SW_CRC16/32_USING_ROM_CODE\<close> replaces
  them by the chip's ROM functions of the same names).  The tables are the source's.

  The lemmas compare them with the bitwise definition of the two codes (polynomial 0x1021,
  and 0x04C11DB7 reflected), and the incremental interface with the one-call one.
\<close>

section \<open>Definitions\<close>

definition crc16tab :: "16 word list" where
  "crc16tab =
    [0x0000, 0x1021, 0x2042, 0x3063, 0x4084, 0x50a5, 0x60c6, 0x70e7,
     0x8108, 0x9129, 0xa14a, 0xb16b, 0xc18c, 0xd1ad, 0xe1ce, 0xf1ef,
     0x1231, 0x0210, 0x3273, 0x2252, 0x52b5, 0x4294, 0x72f7, 0x62d6,
     0x9339, 0x8318, 0xb37b, 0xa35a, 0xd3bd, 0xc39c, 0xf3ff, 0xe3de,
     0x2462, 0x3443, 0x0420, 0x1401, 0x64e6, 0x74c7, 0x44a4, 0x5485,
     0xa56a, 0xb54b, 0x8528, 0x9509, 0xe5ee, 0xf5cf, 0xc5ac, 0xd58d,
     0x3653, 0x2672, 0x1611, 0x0630, 0x76d7, 0x66f6, 0x5695, 0x46b4,
     0xb75b, 0xa77a, 0x9719, 0x8738, 0xf7df, 0xe7fe, 0xd79d, 0xc7bc,
     0x48c4, 0x58e5, 0x6886, 0x78a7, 0x0840, 0x1861, 0x2802, 0x3823,
     0xc9cc, 0xd9ed, 0xe98e, 0xf9af, 0x8948, 0x9969, 0xa90a, 0xb92b,
     0x5af5, 0x4ad4, 0x7ab7, 0x6a96, 0x1a71, 0x0a50, 0x3a33, 0x2a12,
     0xdbfd, 0xcbdc, 0xfbbf, 0xeb9e, 0x9b79, 0x8b58, 0xbb3b, 0xab1a,
     0x6ca6, 0x7c87, 0x4ce4, 0x5cc5, 0x2c22, 0x3c03, 0x0c60, 0x1c41,
     0xedae, 0xfd8f, 0xcdec, 0xddcd, 0xad2a, 0xbd0b, 0x8d68, 0x9d49,
     0x7e97, 0x6eb6, 0x5ed5, 0x4ef4, 0x3e13, 0x2e32, 0x1e51, 0x0e70,
     0xff9f, 0xefbe, 0xdfdd, 0xcffc, 0xbf1b, 0xaf3a, 0x9f59, 0x8f78,
     0x9188, 0x81a9, 0xb1ca, 0xa1eb, 0xd10c, 0xc12d, 0xf14e, 0xe16f,
     0x1080, 0x00a1, 0x30c2, 0x20e3, 0x5004, 0x4025, 0x7046, 0x6067,
     0x83b9, 0x9398, 0xa3fb, 0xb3da, 0xc33d, 0xd31c, 0xe37f, 0xf35e,
     0x02b1, 0x1290, 0x22f3, 0x32d2, 0x4235, 0x5214, 0x6277, 0x7256,
     0xb5ea, 0xa5cb, 0x95a8, 0x8589, 0xf56e, 0xe54f, 0xd52c, 0xc50d,
     0x34e2, 0x24c3, 0x14a0, 0x0481, 0x7466, 0x6447, 0x5424, 0x4405,
     0xa7db, 0xb7fa, 0x8799, 0x97b8, 0xe75f, 0xf77e, 0xc71d, 0xd73c,
     0x26d3, 0x36f2, 0x0691, 0x16b0, 0x6657, 0x7676, 0x4615, 0x5634,
     0xd94c, 0xc96d, 0xf90e, 0xe92f, 0x99c8, 0x89e9, 0xb98a, 0xa9ab,
     0x5844, 0x4865, 0x7806, 0x6827, 0x18c0, 0x08e1, 0x3882, 0x28a3,
     0xcb7d, 0xdb5c, 0xeb3f, 0xfb1e, 0x8bf9, 0x9bd8, 0xabbb, 0xbb9a,
     0x4a75, 0x5a54, 0x6a37, 0x7a16, 0x0af1, 0x1ad0, 0x2ab3, 0x3a92,
     0xfd2e, 0xed0f, 0xdd6c, 0xcd4d, 0xbdaa, 0xad8b, 0x9de8, 0x8dc9,
     0x7c26, 0x6c07, 0x5c64, 0x4c45, 0x3ca2, 0x2c83, 0x1ce0, 0x0cc1,
     0xef1f, 0xff3e, 0xcf5d, 0xdf7c, 0xaf9b, 0xbfba, 0x8fd9, 0x9ff8,
     0x6e17, 0x7e36, 0x4e55, 0x5e74, 0x2e93, 0x3eb2, 0x0ed1, 0x1ef0]"

definition crc16_step :: "16 word \<Rightarrow> byte \<Rightarrow> 16 word" where
  "crc16_step crc b = push_bit 8 crc XOR crc16tab ! unat ((drop_bit 8 crc XOR ucast b) AND 0x00FF)"

definition crc16_ccitt :: "byte list \<Rightarrow> 16 word" where
  "crc16_ccitt buf = foldl crc16_step 0 buf"

definition Crc32Table :: "32 word list" where
  "Crc32Table =
    [0x00000000, 0x77073096, 0xee0e612c, 0x990951ba, 0x076dc419, 0x706af48f,
     0xe963a535, 0x9e6495a3, 0x0edb8832, 0x79dcb8a4, 0xe0d5e91e, 0x97d2d988,
     0x09b64c2b, 0x7eb17cbd, 0xe7b82d07, 0x90bf1d91, 0x1db71064, 0x6ab020f2,
     0xf3b97148, 0x84be41de, 0x1adad47d, 0x6ddde4eb, 0xf4d4b551, 0x83d385c7,
     0x136c9856, 0x646ba8c0, 0xfd62f97a, 0x8a65c9ec, 0x14015c4f, 0x63066cd9,
     0xfa0f3d63, 0x8d080df5, 0x3b6e20c8, 0x4c69105e, 0xd56041e4, 0xa2677172,
     0x3c03e4d1, 0x4b04d447, 0xd20d85fd, 0xa50ab56b, 0x35b5a8fa, 0x42b2986c,
     0xdbbbc9d6, 0xacbcf940, 0x32d86ce3, 0x45df5c75, 0xdcd60dcf, 0xabd13d59,
     0x26d930ac, 0x51de003a, 0xc8d75180, 0xbfd06116, 0x21b4f4b5, 0x56b3c423,
     0xcfba9599, 0xb8bda50f, 0x2802b89e, 0x5f058808, 0xc60cd9b2, 0xb10be924,
     0x2f6f7c87, 0x58684c11, 0xc1611dab, 0xb6662d3d, 0x76dc4190, 0x01db7106,
     0x98d220bc, 0xefd5102a, 0x71b18589, 0x06b6b51f, 0x9fbfe4a5, 0xe8b8d433,
     0x7807c9a2, 0x0f00f934, 0x9609a88e, 0xe10e9818, 0x7f6a0dbb, 0x086d3d2d,
     0x91646c97, 0xe6635c01, 0x6b6b51f4, 0x1c6c6162, 0x856530d8, 0xf262004e,
     0x6c0695ed, 0x1b01a57b, 0x8208f4c1, 0xf50fc457, 0x65b0d9c6, 0x12b7e950,
     0x8bbeb8ea, 0xfcb9887c, 0x62dd1ddf, 0x15da2d49, 0x8cd37cf3, 0xfbd44c65,
     0x4db26158, 0x3ab551ce, 0xa3bc0074, 0xd4bb30e2, 0x4adfa541, 0x3dd895d7,
     0xa4d1c46d, 0xd3d6f4fb, 0x4369e96a, 0x346ed9fc, 0xad678846, 0xda60b8d0,
     0x44042d73, 0x33031de5, 0xaa0a4c5f, 0xdd0d7cc9, 0x5005713c, 0x270241aa,
     0xbe0b1010, 0xc90c2086, 0x5768b525, 0x206f85b3, 0xb966d409, 0xce61e49f,
     0x5edef90e, 0x29d9c998, 0xb0d09822, 0xc7d7a8b4, 0x59b33d17, 0x2eb40d81,
     0xb7bd5c3b, 0xc0ba6cad, 0xedb88320, 0x9abfb3b6, 0x03b6e20c, 0x74b1d29a,
     0xead54739, 0x9dd277af, 0x04db2615, 0x73dc1683, 0xe3630b12, 0x94643b84,
     0x0d6d6a3e, 0x7a6a5aa8, 0xe40ecf0b, 0x9309ff9d, 0x0a00ae27, 0x7d079eb1,
     0xf00f9344, 0x8708a3d2, 0x1e01f268, 0x6906c2fe, 0xf762575d, 0x806567cb,
     0x196c3671, 0x6e6b06e7, 0xfed41b76, 0x89d32be0, 0x10da7a5a, 0x67dd4acc,
     0xf9b9df6f, 0x8ebeeff9, 0x17b7be43, 0x60b08ed5, 0xd6d6a3e8, 0xa1d1937e,
     0x38d8c2c4, 0x4fdff252, 0xd1bb67f1, 0xa6bc5767, 0x3fb506dd, 0x48b2364b,
     0xd80d2bda, 0xaf0a1b4c, 0x36034af6, 0x41047a60, 0xdf60efc3, 0xa867df55,
     0x316e8eef, 0x4669be79, 0xcb61b38c, 0xbc66831a, 0x256fd2a0, 0x5268e236,
     0xcc0c7795, 0xbb0b4703, 0x220216b9, 0x5505262f, 0xc5ba3bbe, 0xb2bd0b28,
     0x2bb45a92, 0x5cb36a04, 0xc2d7ffa7, 0xb5d0cf31, 0x2cd99e8b, 0x5bdeae1d,
     0x9b64c2b0, 0xec63f226, 0x756aa39c, 0x026d930a, 0x9c0906a9, 0xeb0e363f,
     0x72076785, 0x05005713, 0x95bf4a82, 0xe2b87a14, 0x7bb12bae, 0x0cb61b38,
     0x92d28e9b, 0xe5d5be0d, 0x7cdcefb7, 0x0bdbdf21, 0x86d3d2d4, 0xf1d4e242,
     0x68ddb3f8, 0x1fda836e, 0x81be16cd, 0xf6b9265b, 0x6fb077e1, 0x18b74777,
     0x88085ae6, 0xff0f6a70, 0x66063bca, 0x11010b5c, 0x8f659eff, 0xf862ae69,
     0x616bffd3, 0x166ccf45, 0xa00ae278, 0xd70dd2ee, 0x4e048354, 0x3903b3c2,
     0xa7672661, 0xd06016f7, 0x4969474d, 0x3e6e77db, 0xaed16a4a, 0xd9d65adc,
     0x40df0b66, 0x37d83bf0, 0xa9bcae53, 0xdebb9ec5, 0x47b2cf7f, 0x30b5ffe9,
     0xbdbdf21c, 0xcabac28a, 0x53b39330, 0x24b4a3a6, 0xbad03605, 0xcdd70693,
     0x54de5729, 0x23d967bf, 0xb3667a2e, 0xc4614ab8, 0x5d681b02, 0x2a6f2b94,
     0xb40bbe37, 0xc30c8ea1, 0x5a05df1b, 0x2d02ef8d]"

definition ln_crc32_init :: "32 word" where
  "ln_crc32_init = 0xFFFFFFFF"

definition crc32_step :: "32 word \<Rightarrow> byte \<Rightarrow> 32 word" where
  "crc32_step crc b = drop_bit 8 crc XOR Crc32Table ! unat ((crc AND 0xFF) XOR ucast b)"

definition ln_crc32_update :: "32 word \<Rightarrow> byte list \<Rightarrow> 32 word" where
  "ln_crc32_update ctx dat = foldl crc32_step ctx dat"

definition ln_crc32_final :: "32 word \<Rightarrow> 32 word" where
  "ln_crc32_final ctx = ctx XOR 0xFFFFFFFF"

fun crc32_single_loop :: "32 word \<Rightarrow> byte list \<Rightarrow> 32 word" where
  "crc32_single_loop crc [] = crc"
| "crc32_single_loop crc (b # bs) =
     crc32_single_loop ((drop_bit 8 crc AND 0x00FFFFFF) XOR Crc32Table ! unat ((crc XOR ucast b) AND 0xFF)) bs"

definition ln_crc32_signle_cal :: "byte list \<Rightarrow> 32 word" where
  "ln_crc32_signle_cal ptr = crc32_single_loop 0xFFFFFFFF ptr XOR 0xFFFFFFFF"

section \<open>The bitwise codes\<close>

definition crc16_bit :: "16 word \<Rightarrow> 16 word" where
  "crc16_bit c = (if bit c 15 then push_bit 1 c XOR 0x1021 else push_bit 1 c)"

definition crc16_byte :: "16 word \<Rightarrow> byte \<Rightarrow> 16 word" where
  "crc16_byte crc b = (crc16_bit ^^ 8) (crc XOR push_bit 8 (ucast b))"

definition crc32_bit :: "32 word \<Rightarrow> 32 word" where
  "crc32_bit c = (if bit c 0 then drop_bit 1 c XOR 0xEDB88320 else drop_bit 1 c)"

definition crc32_byte :: "32 word \<Rightarrow> byte \<Rightarrow> 32 word" where
  "crc32_byte crc b = (crc32_bit ^^ 8) (crc XOR ucast b)"

section \<open>Lemmas\<close>

text \<open>One step of each code on integers, to evaluate the table entries.\<close>

definition crc16_int :: "int \<Rightarrow> int" where
  "crc16_int c = (if c < 32768 then 2 * c else (2 * c - 65536) XOR 0x1021)"

definition crc32_int :: "int \<Rightarrow> int" where
  "crc32_int c = (if even c then c div 2 else (c div 2) XOR 0xEDB88320)"

definition step8 :: "(int \<Rightarrow> int) \<Rightarrow> int \<Rightarrow> int" where
  "step8 f c = f (f (f (f (f (f (f (f c)))))))"

fun table_ok :: "(int \<Rightarrow> int) \<Rightarrow> int \<Rightarrow> int \<Rightarrow> int list \<Rightarrow> bool" where
  "table_ok f s i [] = True"
| "table_ok f s i (t # ts) = (step8 f (s * i) = t \<and> table_ok f s (i + 1) ts)"

lemma table_ok_nth:
  "table_ok f s i ts \<Longrightarrow> j < length ts \<Longrightarrow> ts ! j = step8 f (s * (i + int j))"
proof (induction f s i ts arbitrary: j rule: table_ok.induct)
  case (1 f s i)
  then show ?case by simp
next
  case (2 f s i t ts)
  then show ?case by (cases j) (auto simp: algebra_simps)
qed

lemma length_Crc32Table [simp]: "length Crc32Table = 256"
  by (simp add: Crc32Table_def)

lemma length_crc16tab [simp]: "length crc16tab = 256"
  by (simp add: crc16tab_def)

lemma Crc32Table_ok: "table_ok crc32_int 1 0 (map uint Crc32Table)"
  by (simp add: step8_def crc32_int_def Crc32Table_def)

lemma crc16tab_ok: "table_ok crc16_int 256 0 (map uint crc16tab)"
  by (simp add: step8_def crc16_int_def crc16tab_def)

lemma word_of_int_xor: "(word_of_int (a XOR b) :: 'a::len word) = word_of_int a XOR word_of_int b"
  by (rule bit_word_eqI) (simp add: bit_simps)

lemma drop_bit_1_word_of_int:
  "0 \<le> c \<Longrightarrow> c < 2 ^ LENGTH('a) \<Longrightarrow> drop_bit 1 (word_of_int c :: 'a::len word) = word_of_int (c div 2)"
proof (rule bit_word_eqI)
  fix n
  assume c: "0 \<le> c" "c < 2 ^ LENGTH('a)"
  then have "take_bit LENGTH('a) c = c" by (simp add: take_bit_int_eq_self)
  then have "\<not> bit c LENGTH('a)" by (metis bit_take_bit_iff less_irrefl)
  moreover assume "n < LENGTH('a)"
  ultimately show "bit (drop_bit 1 (word_of_int c :: 'a word)) n = bit (word_of_int (c div 2) :: 'a word) n"
    by (cases "Suc n = LENGTH('a)") (auto simp: bit_simps bit_Suc [symmetric])
qed

lemma crc32_bit_int: "0 \<le> c \<Longrightarrow> c < 2 ^ 32 \<Longrightarrow> crc32_bit (word_of_int c) = word_of_int (crc32_int c)"
proof -
  assume c: "0 \<le> c" "c < 2 ^ 32"
  have "bit (word_of_int c :: 32 word) 0 \<longleftrightarrow> odd c"
    by (simp only: bit_word_of_int_iff) (simp add: bit_0)
  moreover have "drop_bit 1 (word_of_int c :: 32 word) = word_of_int (c div 2)"
    using c by (intro drop_bit_1_word_of_int) simp_all
  ultimately show ?thesis
    by (simp only: crc32_bit_def crc32_int_def word_of_int_xor if_distrib [of word_of_int] not_not
        if_not_P split: if_split) simp
qed

lemma crc32_int_range:
  assumes "0 \<le> c" and "c < 2 ^ 32"
  shows "0 \<le> crc32_int c \<and> crc32_int c < 2 ^ 32"
proof -
  have "crc32_int c = take_bit 32 (crc32_int c)"
    using assms by (simp add: crc32_int_def take_bit_xor take_bit_int_eq_self)
  then show ?thesis by (metis take_bit_nonnegative take_bit_int_less_exp)
qed

lemma crc16_bit_int: "0 \<le> c \<Longrightarrow> c < 2 ^ 16 \<Longrightarrow> crc16_bit (word_of_int c) = word_of_int (crc16_int c)"
proof -
  assume c: "0 \<le> c" "c < 2 ^ 16"
  have top: "bit (word_of_int c :: 16 word) 15 \<longleftrightarrow> 32768 \<le> c"
  proof -
    have "bit (word_of_int c :: 16 word) 15 \<longleftrightarrow> bit c 15" by (simp add: bit_word_of_int_iff)
    also have "\<dots> \<longleftrightarrow> odd (c div 32768)" by (simp add: bit_iff_odd)
    also have "c div 32768 = (if 32768 \<le> c then 1 else 0)"
      using c by (auto simp: div_pos_geq)
    also have "odd (if 32768 \<le> c then 1 else 0 :: int) \<longleftrightarrow> 32768 \<le> c" by simp
    finally show ?thesis .
  qed
  have "push_bit 1 (word_of_int c :: 16 word) = word_of_int (2 * c)"
    by (simp add: push_bit_eq_mult)
  moreover have "(word_of_int (2 * c - 65536) :: 16 word) = word_of_int (2 * c)"
    by simp
  ultimately show ?thesis
    using top by (auto simp: crc16_bit_def crc16_int_def word_of_int_xor simp del: of_int_diff of_int_mult)
qed

lemma crc16_int_range:
  assumes "0 \<le> c" and "c < 2 ^ 16"
  shows "0 \<le> crc16_int c \<and> crc16_int c < 2 ^ 16"
proof -
  have "crc16_int c = take_bit 16 (crc16_int c)"
    using assms by (simp add: crc16_int_def take_bit_xor take_bit_int_eq_self)
  then show ?thesis by (metis take_bit_nonnegative take_bit_int_less_exp)
qed

lemma crc32_bit_xor: "crc32_bit (a XOR b) = crc32_bit a XOR crc32_bit b"
  by (simp add: crc32_bit_def bit_simps drop_bit_xor ac_simps)
lemma crc16_bit_xor: "crc16_bit (a XOR b) = crc16_bit a XOR crc16_bit b"
  by (simp add: crc16_bit_def bit_simps push_bit_xor ac_simps)

lemma funpow_xor:
  fixes f :: "'a::len word \<Rightarrow> 'a word"
  assumes "\<And>a b. f (a XOR b) = f a XOR f b"
  shows "(f ^^ n) (a XOR b) = (f ^^ n) a XOR (f ^^ n) b"
  by (induction n) (simp_all add: assms)

lemma crc32_bits_high: "(\<And>i. i < n \<Longrightarrow> \<not> bit x i) \<Longrightarrow> (crc32_bit ^^ n) x = drop_bit n x"
  by (induction n) (simp_all add: crc32_bit_def bit_simps)

lemma crc16_bits_low: "n \<le> 16 \<Longrightarrow> (\<And>i. 16 - n \<le> i \<Longrightarrow> \<not> bit x i) \<Longrightarrow> (crc16_bit ^^ n) x = push_bit n x"
  by (induction n) (simp_all add: crc16_bit_def bit_simps)


lemma funpow8: "(f ^^ 8) x = f (f (f (f (f (f (f (f x)))))))"
  by (simp add: eval_nat_numeral)

lemma step8_word:
  fixes g :: "'a::len word \<Rightarrow> 'a word"
  assumes "\<And>c. 0 \<le> c \<Longrightarrow> c < m \<Longrightarrow> g (word_of_int c) = word_of_int (f c)"
    and "\<And>c. 0 \<le> c \<Longrightarrow> c < m \<Longrightarrow> 0 \<le> f c \<and> f c < m" and "0 \<le> c" and "c < m"
  shows "(g ^^ 8) (word_of_int c) = word_of_int (step8 f c)"
  using assms by (simp add: funpow8 step8_def)

lemma Crc32Table_nth: "j < 256 \<Longrightarrow> Crc32Table ! j = (crc32_bit ^^ 8) (of_nat j)"
proof -
  assume j: "j < 256"
  then have "map uint Crc32Table ! j = step8 crc32_int (int j)"
    using table_ok_nth [OF Crc32Table_ok, of j] by simp
  then have "Crc32Table ! j = word_of_int (step8 crc32_int (int j))"
    using j by (metis length_Crc32Table nth_map word_of_int_uint)
  also have "\<dots> = (crc32_bit ^^ 8) (word_of_int (int j))"
    using j by (intro step8_word [symmetric, where m = "2 ^ 32"] crc32_bit_int crc32_int_range) auto
  finally show ?thesis by simp
qed

lemma crc16tab_nth: "j < 256 \<Longrightarrow> crc16tab ! j = (crc16_bit ^^ 8) (push_bit 8 (of_nat j))"
proof -
  assume j: "j < 256"
  then have "map uint crc16tab ! j = step8 crc16_int (256 * int j)"
    using table_ok_nth [OF crc16tab_ok, of j] by simp
  then have "crc16tab ! j = word_of_int (step8 crc16_int (256 * int j))"
    using j by (metis length_crc16tab nth_map word_of_int_uint)
  also have "\<dots> = (crc16_bit ^^ 8) (word_of_int (256 * int j))"
    using j by (intro step8_word [symmetric, where m = "2 ^ 16"] crc16_bit_int crc16_int_range) auto
  also have "word_of_int (256 * int j) = (push_bit 8 (of_nat j) :: 16 word)"
    by (simp add: push_bit_eq_mult)
  finally show ?thesis .
qed

lemma ones8: "(0xFF :: 'a::len word) = mask 8"
  by (simp add: mask_eq_exp_minus_1)

lemma and_255_less: "unat (w AND (0xFF :: 'a::len word)) < 256"
proof -
  have "w AND 0xFF = take_bit 8 w" by (simp only: ones8 take_bit_eq_mask)
  then have "unat (w AND 0xFF) = take_bit 8 (unat w)" by (simp add: unsigned_take_bit_eq)
  then show ?thesis using take_bit_nat_less_exp [of 8 "unat w"] by simp
qed

lemma bit_ucast_byte: "bit (ucast (b :: byte) :: 'a::len word) n \<longleftrightarrow> n < LENGTH('a) \<and> bit b n"
  by (simp add: bit_simps)

text \<open>The table step is eight bit steps.\<close>

lemma crc32_step_eq: "crc32_step crc b = crc32_byte crc b"
proof -
  define c where "c = crc XOR ucast b"
  have lo: "(crc AND 0xFF) XOR ucast b = c AND 0xFF"
    unfolding c_def ones8 by (rule bit_word_eqI) (auto simp: bit_simps dest: bit_byte_less)
  have split: "c = (c AND NOT 0xFF) XOR (c AND 0xFF)"
    by (rule bit_word_eqI) (auto simp: bit_simps)
  have "(crc32_bit ^^ 8) c = (crc32_bit ^^ 8) (c AND NOT 0xFF) XOR (crc32_bit ^^ 8) (c AND 0xFF)"
    by (subst split, rule funpow_xor, rule crc32_bit_xor)
  also have "(crc32_bit ^^ 8) (c AND NOT 0xFF) = drop_bit 8 (c AND NOT 0xFF)"
    unfolding ones8 by (rule crc32_bits_high) (simp add: bit_simps)
  also have "\<dots> = drop_bit 8 crc"
    unfolding c_def ones8 by (rule bit_word_eqI) (auto simp: bit_simps dest: bit_byte_less bit_imp_le_length)
  also have "(crc32_bit ^^ 8) (c AND 0xFF) = Crc32Table ! unat (c AND 0xFF)"
    by (simp add: Crc32Table_nth and_255_less)
  finally show ?thesis by (simp add: crc32_step_def crc32_byte_def lo c_def)
qed

lemma crc16_step_eq: "crc16_step crc b = crc16_byte crc b"
proof -
  define c where "c = crc XOR push_bit 8 (ucast b)"
  define i where "i = (drop_bit 8 crc XOR ucast b) AND (0xFF :: 16 word)"
  have split: "c = push_bit 8 i XOR (c AND 0xFF)"
    unfolding c_def i_def ones8 by (rule bit_word_eqI) (auto simp: bit_simps dest: bit_byte_less)
  have "(crc16_bit ^^ 8) c = (crc16_bit ^^ 8) (push_bit 8 i) XOR (crc16_bit ^^ 8) (c AND 0xFF)"
    by (subst split, rule funpow_xor, rule crc16_bit_xor)
  also have "(crc16_bit ^^ 8) (c AND 0xFF) = push_bit 8 (c AND 0xFF)"
    unfolding ones8 by (rule crc16_bits_low) (auto simp: bit_simps)
  also have "\<dots> = push_bit 8 crc"
    unfolding c_def ones8 by (rule bit_word_eqI) (auto simp: bit_simps dest: bit_byte_less)
  also have "(crc16_bit ^^ 8) (push_bit 8 i) = crc16tab ! unat i"
    by (simp add: crc16tab_nth and_255_less i_def)
  finally show ?thesis by (simp add: crc16_step_def crc16_byte_def i_def c_def xor.commute)
qed

lemma crc16_ccitt_eq: "crc16_ccitt bs = foldl crc16_byte 0 bs"
proof -
  have "crc16_step = crc16_byte" by (intro ext) (rule crc16_step_eq)
  then show ?thesis by (simp add: crc16_ccitt_def)
qed

lemma ln_crc32_update_eq: "ln_crc32_update c bs = foldl crc32_byte c bs"
proof -
  have "crc32_step = crc32_byte" by (intro ext) (rule crc32_step_eq)
  then show ?thesis by (simp add: ln_crc32_update_def)
qed

lemma ln_crc32_update_append: "ln_crc32_update c (xs @ ys) = ln_crc32_update (ln_crc32_update c xs) ys"
  by (simp add: ln_crc32_update_def)

text \<open>The loop of the one-call version masks at other places but takes the same steps.\<close>

lemma crc32_single_loop_eq: "crc32_single_loop c bs = ln_crc32_update c bs"
proof (induction bs arbitrary: c)
  case Nil
  then show ?case by (simp add: ln_crc32_update_def)
next
  case (Cons b bs)
  have "(c XOR ucast b) AND 0xFF = (c AND 0xFF) XOR ucast b"
    unfolding ones8 by (rule bit_word_eqI) (auto simp: bit_simps dest: bit_byte_less)
  moreover have "drop_bit 8 c AND 0x00FFFFFF = drop_bit 8 c"
  proof -
    have m: "(0x00FFFFFF :: 32 word) = mask 24" by (simp add: mask_eq_exp_minus_1)
    show ?thesis unfolding m by (rule bit_word_eqI) (auto simp: bit_simps dest: bit_imp_le_length)
  qed
  ultimately show ?case
    using Cons by (simp add: ln_crc32_update_def crc32_step_def)
qed

lemma ln_crc32_signle_cal_eq:
  "ln_crc32_signle_cal bs = ln_crc32_final (ln_crc32_update ln_crc32_init bs)"
  by (simp add: ln_crc32_signle_cal_def ln_crc32_final_def ln_crc32_init_def crc32_single_loop_eq)

text \<open>The code on integers, to evaluate it on concrete bytes.\<close>

fun crc32_ints :: "int \<Rightarrow> int list \<Rightarrow> int" where
  "crc32_ints c [] = c"
| "crc32_ints c (b # bs) = crc32_ints (step8 crc32_int (c XOR b)) bs"

lemma step8_crc32_range:
  assumes "0 \<le> c \<and> c < 2 ^ 32"
  shows "0 \<le> step8 crc32_int c \<and> step8 crc32_int c < 2 ^ 32"
proof -
  have r: "0 \<le> crc32_int x \<and> crc32_int x < 2 ^ 32" if "0 \<le> x \<and> x < 2 ^ 32" for x
    using that by (intro crc32_int_range) simp_all
  show ?thesis unfolding step8_def by (rule r)+ (rule assms)
qed

lemma crc32_ints_eq:
  assumes "0 \<le> c \<and> c < 2 ^ 32" and "\<forall>b \<in> set bs. 0 \<le> b \<and> b < 256"
  shows "ln_crc32_update (word_of_int c) (map word_of_int bs) = word_of_int (crc32_ints c bs)"
  using assms
proof (induction c bs rule: crc32_ints.induct)
  case (1 c)
  then show ?case by (simp add: ln_crc32_update_def)
next
  case (2 c b bs)
  from "2.prems" have b: "0 \<le> b" "b < 256" by simp_all
  have "(ucast (word_of_int b :: byte) :: 32 word) = word_of_int b"
    using b by (simp add: unsigned_of_int take_bit_int_eq_self)
  then have x: "word_of_int c XOR ucast (word_of_int b :: byte) = (word_of_int (c XOR b) :: 32 word)"
    by (simp only: word_of_int_xor)
  have "c XOR b = take_bit 32 (c XOR b)"
    using "2.prems" by (simp add: take_bit_xor take_bit_int_eq_self)
  then have range: "0 \<le> c XOR b \<and> c XOR b < 2 ^ 32"
    by (metis take_bit_nonnegative take_bit_int_less_exp)
  have "crc32_byte (word_of_int c) (word_of_int b) = word_of_int (step8 crc32_int (c XOR b))"
    unfolding crc32_byte_def x
    using range by (intro step8_word [where m = "2 ^ 32"] crc32_bit_int crc32_int_range) auto
  with "2.IH" [OF step8_crc32_range [OF range]] "2.prems" show ?case
    by (simp add: ln_crc32_update_eq)
qed

lemma crc32_signle_ints:
  assumes "\<forall>b \<in> set bs. 0 \<le> b \<and> b < 256"
  shows "ln_crc32_signle_cal (map word_of_int bs) = word_of_int (crc32_ints 0xFFFFFFFF bs) XOR 0xFFFFFFFF"
  using crc32_ints_eq [of "0xFFFFFFFF" bs] assms
  by (simp add: ln_crc32_signle_cal_eq ln_crc32_init_def ln_crc32_final_def)

lemma crc32_zeros: "ln_crc32_signle_cal (replicate 12 0) = 0x7BD5C66F"
  using crc32_signle_ints [of "replicate 12 0"] by (simp add: numeral_eq_Suc step8_def crc32_int_def)

section \<open>Properties\<close>

text \<open>
  C22: the software CRC-16 of the sources, with its 256-entry table, is the bitwise
  CRC-16/XMODEM of every byte string: each table step is eight shift-and-reduce steps.
\<close>

theorem crc16_table_correct: "crc16_ccitt bs = foldl crc16_byte 0 bs"
  by (rule crc16_ccitt_eq)

text \<open>
  C23: the CRC-32 of the sources, computed by the table in pieces through init, update and
  final or in one call, is the bitwise reflected CRC-32 of the concatenation.
\<close>

theorem crc32_table_correct:
  "ln_crc32_final (ln_crc32_update (ln_crc32_update ln_crc32_init xs) ys)
     = foldl crc32_byte 0xFFFFFFFF (xs @ ys) XOR 0xFFFFFFFF
   \<and> ln_crc32_signle_cal (xs @ ys) = ln_crc32_final (ln_crc32_update (ln_crc32_update ln_crc32_init xs) ys)"
  by (simp add: ln_crc32_update_append [symmetric] ln_crc32_signle_cal_eq)
     (simp add: ln_crc32_final_def ln_crc32_update_eq ln_crc32_init_def)

end
