(* ===== verification/Dhcp_Packet.thy ===== *)
theory Dhcp_Packet
  imports Prelude
begin

text \<open>
  The DHCP packet parser of \<^verbatim>\<open>components/net/dhcpd/dhcp_packet.c\<close>.

  A packet buffer is the list of its bytes.  The loop of the parser is a total function by its
  termination proof, so that \<^const>\<open>None\<close> stands for one thing only: a read behind the end of the
  buffer.
  A pointer into the buffer is its offset, and a null pointer is \<^const>\<open>None\<close>.

  \<^verbatim>\<open>dhcpd_packet_printf\<close> is left out: it prints at debug level, which \<^verbatim>\<open>LOG\<close> drops, since
  \<^verbatim>\<open>LOG_LVL_CTRL\<close> is \<^verbatim>\<open>LOG_LVL_INFO\<close> (\<^verbatim>\<open>log.h\<close>).

  \<^verbatim>\<open>dhcpd_recv_packet_check\<close> passes a null option to \<^verbatim>\<open>dhcpd_parse_option\<close>, which reads the
  \<open>value\<close> field through it at its end.  What that read yields is the parameter \<open>null_value\<close>:
  whether the word at that address is a null pointer.
\<close>

section \<open>Definitions\<close>

definition BOOT_REQUEST :: byte where "BOOT_REQUEST = 1"
definition BOOT_REPLY :: byte where "BOOT_REPLY = 2"
definition DHCP_DISCOVER :: byte where "DHCP_DISCOVER = 1"
definition DHCP_OFFER :: byte where "DHCP_OFFER = 2"
definition DHCP_REQUEST :: byte where "DHCP_REQUEST = 3"
definition DHCP_DECLINE :: byte where "DHCP_DECLINE = 4"
definition DHCP_ACK :: byte where "DHCP_ACK = 5"
definition DHCP_NAK :: byte where "DHCP_NAK = 6"
definition DHCP_RELEASE :: byte where "DHCP_RELEASE = 7"
definition DHCP_INFORM :: byte where "DHCP_INFORM = 8"
definition DHO_PAD :: byte where "DHO_PAD = 0"
definition DHO_SUBNET :: byte where "DHO_SUBNET = 1"
definition DHO_ROUTERS :: byte where "DHO_ROUTERS = 3"
definition DHO_DOMAIN_NAME_SERVERS :: byte where "DHO_DOMAIN_NAME_SERVERS = 6"
definition DHO_HOST_NAME :: byte where "DHO_HOST_NAME = 12"
definition DHO_DHCP_REQUESTED_ADDRESS :: byte where "DHO_DHCP_REQUESTED_ADDRESS = 50"
definition DHO_DHCP_LEASE_TIME :: byte where "DHO_DHCP_LEASE_TIME = 51"
definition DHO_DHCP_OPTION_OVERLOAD :: byte where "DHO_DHCP_OPTION_OVERLOAD = 52"
definition DHO_DHCP_MESSAGE_TYPE :: byte where "DHO_DHCP_MESSAGE_TYPE = 53"
definition DHO_DHCP_SERVER_IDENTIFIER :: byte where "DHO_DHCP_SERVER_IDENTIFIER = 54"
definition DHO_DHCP_RENEWAL_TIME :: byte where "DHO_DHCP_RENEWAL_TIME = 58"
definition DHO_DHCP_REBINDING_TIME :: byte where "DHO_DHCP_REBINDING_TIME = 59"
definition DHO_END :: byte where "DHO_END = 255"

definition BOOTP_ABSOLUTE_MIN_LEN :: nat where "BOOTP_ABSOLUTE_MIN_LEN = 236"
definition DHCP_MAX_MTU :: nat where "DHCP_MAX_MTU = 608"
definition DHCP_MAGIC_COOKIE_U32 :: nat where "DHCP_MAGIC_COOKIE_U32 = 0x63825363"
definition DHCP_MAGIC_COOKIE_LEN :: nat where "DHCP_MAGIC_COOKIE_LEN = 4"
definition DHCP_SNAME_POS :: nat where "DHCP_SNAME_POS = 44"
definition DHCP_SNAME_LEN :: nat where "DHCP_SNAME_LEN = 64"
definition DHCP_FILE_POS :: nat where "DHCP_FILE_POS = 108"
definition DHCP_FILE_LEN :: nat where "DHCP_FILE_LEN = 128"
definition DHCP_OPTS_POS :: nat where "DHCP_OPTS_POS = 240"

record dhcp_option =
  opt_code :: byte
  opt_len :: nat
  opt_value :: "nat option"

text \<open>The fields of \<open>struct dhcp_packet\<close>, a packed structure over the buffer.\<close>

definition pkt_op :: "byte list \<Rightarrow> byte" where "pkt_op p = p ! 0"
definition pkt_htype :: "byte list \<Rightarrow> byte" where "pkt_htype p = p ! 1"
definition pkt_hlen :: "byte list \<Rightarrow> byte" where "pkt_hlen p = p ! 2"
definition pkt_xid :: "byte list \<Rightarrow> byte list" where "pkt_xid p = bslice 4 4 p"
definition pkt_flags :: "byte list \<Rightarrow> byte list" where "pkt_flags p = bslice 10 2 p"
definition pkt_ciaddr :: "byte list \<Rightarrow> byte list" where "pkt_ciaddr p = bslice 12 4 p"
definition pkt_yiaddr :: "byte list \<Rightarrow> byte list" where "pkt_yiaddr p = bslice 16 4 p"
definition pkt_chaddr :: "byte list \<Rightarrow> byte list" where "pkt_chaddr p = bslice 28 16 p"
definition pkt_cookie :: "byte list \<Rightarrow> byte list" where "pkt_cookie p = bslice 236 4 p"

definition rd :: "byte list \<Rightarrow> nat \<Rightarrow> byte option" where
  "rd buf i = (if i < length buf then Some (buf ! i) else None)"

text \<open>\<open>lwip_htonl\<close> and a copy: the four bytes with the most significant first.\<close>

definition dhcpd_htonl_copy :: "nat \<Rightarrow> byte list" where
  "dhcpd_htonl_copy x = rev (le_bytes 4 x)"

datatype field_flag = FIELD_FLAG_OPTION | FIELD_FLAG_FILE | FIELD_FLAG_SNAME

text \<open>
  The \<open>while\<close> loop of \<open>dhcpd_parse_option\<close>: \<open>base\<close> is \<open>optionptr\<close>, the result is the return value
  and the option as it is left.
\<close>

function parse_option_loop :: "bool \<Rightarrow> byte list \<Rightarrow> dhcp_option option \<Rightarrow> nat \<Rightarrow> nat \<Rightarrow> nat
    \<Rightarrow> field_flag \<Rightarrow> byte \<Rightarrow> (bool \<times> dhcp_option option) option" where
  "parse_option_loop null_value buf option base offset len curr_flag overload =
     (if offset \<ge> len then Some (False, option)
      else do {
        c \<leftarrow> rd buf (base + offset);
        (if (case option of Some o' \<Rightarrow> c = opt_code o' | None \<Rightarrow> False) then do {
           l \<leftarrow> rd buf (base + offset + 1);
           let o1 = (the option)\<lparr>opt_len := unat l\<rparr>;
           Some (if offset + 2 + unat l \<ge> len then (False, Some o1)
                 else (True, Some (o1\<lparr>opt_value := Some (base + offset + 2)\<rparr>))) }
         else if c = DHO_PAD then
           parse_option_loop null_value buf option base (offset + 1) len curr_flag overload
         else if c = DHO_DHCP_OPTION_OVERLOAD then do {
           l \<leftarrow> rd buf (base + offset + 1);
           if offset + 2 + unat l \<ge> len then Some (False, option)
           else do {
             ov \<leftarrow> rd buf (base + offset + 2);
             parse_option_loop null_value buf option base (offset + (2 + unat l)) len curr_flag ov } }
         else if c = DHO_END then
           (if curr_flag = FIELD_FLAG_OPTION \<and> bit overload 0 then
              parse_option_loop null_value buf option DHCP_FILE_POS DHCP_FILE_POS
                (DHCP_FILE_POS + DHCP_FILE_LEN) FIELD_FLAG_FILE overload
            else if curr_flag = FIELD_FLAG_OPTION \<and> bit overload 1 then
              parse_option_loop null_value buf option DHCP_SNAME_POS DHCP_SNAME_POS
                (DHCP_SNAME_POS + DHCP_SNAME_LEN) FIELD_FLAG_SNAME overload
            else case option of
                None \<Rightarrow> Some (\<not> null_value, None)
              | Some o' \<Rightarrow> Some (opt_value o' \<noteq> None, option))
         else do {
           l \<leftarrow> rd buf (base + offset + 1);
           parse_option_loop null_value buf option base (offset + (2 + unat l)) len curr_flag overload }) })"
  by pat_completeness auto

text \<open>
  The loop ends for every packet: each round moves the offset towards the length, or leaves the
  option area for the file or the server name field, which happens once.
\<close>

termination parse_option_loop
  by (relation "measures [\<lambda>(_, _, _, _, _, _, flag, _). if flag = FIELD_FLAG_OPTION then 1 else 0,
      \<lambda>(_, _, _, _, offset, len, _, _). len - offset]") auto

declare parse_option_loop.simps [simp del]

definition dhcpd_parse_option :: "bool \<Rightarrow> byte list \<Rightarrow> nat \<Rightarrow> dhcp_option option
    \<Rightarrow> (bool \<times> dhcp_option option) option" where
  "dhcpd_parse_option null_value packet packet_len option =
     (if dhcpd_htonl_copy DHCP_MAGIC_COOKIE_U32 \<noteq> pkt_cookie packet then Some (False, option)
      else parse_option_loop null_value packet option 0 DHCP_OPTS_POS packet_len FIELD_FLAG_OPTION 0)"

definition dhcpd_recv_packet_check :: "bool \<Rightarrow> byte list \<Rightarrow> nat \<Rightarrow> bool option" where
  "dhcpd_recv_packet_check null_value packet len =
     (if len < BOOTP_ABSOLUTE_MIN_LEN + DHCP_MAGIC_COOKIE_LEN + 4 then Some False
      else do {
        (ret, _) \<leftarrow> dhcpd_parse_option null_value packet len None;
        Some ret })"

section \<open>Lemmas\<close>

lemma rd_in [simp]: "i < length buf \<Longrightarrow> rd buf i = Some (buf ! i)"
  by (simp add: rd_def)

text \<open>
  The parser returns and stays in the buffer: the option area is shorter than the buffer, and
  what it takes for the file and server name fields lies far enough from its end.
\<close>

lemma parse_option_loop_result:
  assumes "base + len \<le> B" "DHCP_FILE_POS + DHCP_FILE_POS + DHCP_FILE_LEN \<le> B" "B < length buf"
    and "case option of Some o' \<Rightarrow> opt_value o' = None | None \<Rightarrow> True"
  shows "\<exists>r o1. parse_option_loop null_value buf option base offset len flag overload = Some (r, o1)
    \<and> (r \<longrightarrow> option \<noteq> None \<longrightarrow> (\<exists>p. opt_value (the o1) = Some p \<and> p < B))"
  using assms
proof (induction "(if flag = FIELD_FLAG_OPTION then 100000 else 0) + (len - offset)"
    arbitrary: base offset len flag overload rule: less_induct)
  case less
  note IH = less.hyps and L = less.prems
  let ?ok = "\<lambda>x. \<exists>r o1. x = Some (r, o1) \<and> (r \<longrightarrow> option \<noteq> None \<longrightarrow> (\<exists>p. opt_value (the o1) = Some p \<and> p < B))"
  show ?case
  proof (cases "offset \<ge> len")
    case True
    then have "parse_option_loop null_value buf option base offset len flag overload = Some (False, option)"
      by (subst parse_option_loop.simps) simp
    then show ?thesis by blast
  next
    case False
    then have rd: "base + offset < length buf" "base + offset + 1 < length buf" using L(1,3) by simp_all
    have go: "?ok (parse_option_loop null_value buf option base off' len flag ov)" if "offset < off'" for off' ov
      by (rule IH) (use that False L in auto)
    have fl: "?ok (parse_option_loop null_value buf option DHCP_FILE_POS DHCP_FILE_POS
        (DHCP_FILE_POS + DHCP_FILE_LEN) FIELD_FLAG_FILE ov)" if "flag = FIELD_FLAG_OPTION" for ov
      by (rule IH) (use that L in \<open>auto simp: DHCP_FILE_POS_def DHCP_FILE_LEN_def\<close>)
    have sname: "?ok (parse_option_loop null_value buf option DHCP_SNAME_POS DHCP_SNAME_POS
        (DHCP_SNAME_POS + DHCP_SNAME_LEN) FIELD_FLAG_SNAME ov)" if "flag = FIELD_FLAG_OPTION" for ov
      by (rule IH) (use that L in \<open>auto simp: DHCP_FILE_POS_def DHCP_FILE_LEN_def DHCP_SNAME_POS_def DHCP_SNAME_LEN_def\<close>)
    show ?thesis
    proof (cases "case option of Some o' \<Rightarrow> buf ! (base + offset) = opt_code o' | None \<Rightarrow> False")
      case True
      then show ?thesis using rd False L
        by (subst parse_option_loop.simps) (auto simp: Let_def split: option.splits)
    next
      case no: False
      have e: "opt_value o' = None" if "option = Some o'" for o' using that L(4) by simp
      show ?thesis
      proof (cases "buf ! (base + offset) = DHO_END")
        case True
        have "DHO_END \<noteq> DHO_PAD" "DHO_END \<noteq> DHO_DHCP_OPTION_OVERLOAD"
          by (simp_all add: DHO_END_def DHO_PAD_def DHO_DHCP_OPTION_OVERLOAD_def)
        then show ?thesis using no fl sname rd False True e
          by (subst parse_option_loop.simps) (auto split: option.split)
      next
        case ne: False
        then show ?thesis using no go rd False L(1,3)
          by (subst parse_option_loop.simps) auto
      qed
    qed
  qed
qed

lemma parse_option_loop_returns:
  assumes "base + len < length buf" and "DHCP_FILE_POS + DHCP_FILE_POS + DHCP_FILE_LEN < length buf"
  shows "\<exists>r. parse_option_loop null_value buf option base offset len flag overload = Some r"
  using assms
proof (induction "(if flag = FIELD_FLAG_OPTION then 100000 else 0) + (len - offset)"
    arbitrary: base offset len flag overload rule: less_induct)
  case less
  note IH = less.hyps and L = less.prems
  show ?case
  proof (cases "offset \<ge> len")
    case True
    then have "parse_option_loop null_value buf option base offset len flag overload = Some (False, option)"
      by (subst parse_option_loop.simps) simp
    then show ?thesis by blast
  next
    case False
    then have rd: "base + offset < length buf" "base + offset + 1 < length buf" using L(1) by simp_all
    have go: "\<exists>r. parse_option_loop null_value buf option base off' len flag ov = Some r"
      if "offset < off'" for off' ov
      by (rule IH) (use that False L in auto)
    have fl: "\<exists>r. parse_option_loop null_value buf option DHCP_FILE_POS DHCP_FILE_POS
        (DHCP_FILE_POS + DHCP_FILE_LEN) FIELD_FLAG_FILE ov = Some r" if "flag = FIELD_FLAG_OPTION" for ov
      by (rule IH) (use that L in \<open>auto simp: DHCP_FILE_POS_def DHCP_FILE_LEN_def\<close>)
    have sname: "\<exists>r. parse_option_loop null_value buf option DHCP_SNAME_POS DHCP_SNAME_POS
        (DHCP_SNAME_POS + DHCP_SNAME_LEN) FIELD_FLAG_SNAME ov = Some r" if "flag = FIELD_FLAG_OPTION" for ov
      by (rule IH) (use that L in \<open>auto simp: DHCP_FILE_POS_def DHCP_FILE_LEN_def DHCP_SNAME_POS_def DHCP_SNAME_LEN_def\<close>)
    show ?thesis
      using go fl sname rd False L(1)
      by (subst parse_option_loop.simps) (auto simp: Let_def split: option.split)
  qed
qed

text \<open>
  The option area as the protocol defines it: code, length, value, one after the other up to
  the end option.
\<close>

definition enc_opts :: "(byte \<times> byte list) list \<Rightarrow> byte list" where
  "enc_opts opts = concat (map (\<lambda>(c, v). c # of_nat (length v) # v) opts)"

definition plain_code :: "byte \<Rightarrow> bool" where
  "plain_code c \<longleftrightarrow> c \<noteq> DHO_PAD \<and> c \<noteq> DHO_END \<and> c \<noteq> DHO_DHCP_OPTION_OVERLOAD"

definition opts_ok :: "(byte \<times> byte list) list \<Rightarrow> bool" where
  "opts_ok opts \<longleftrightarrow> (\<forall>(c, v) \<in> set opts. plain_code c \<and> length v < 256)"

lemma enc_opts_simps [simp]:
  "enc_opts [] = []" "enc_opts ((c, v) # os) = c # of_nat (length v) # v @ enc_opts os"
  by (simp_all add: enc_opts_def)

lemma opts_ok_simps [simp]:
  "opts_ok []" "opts_ok ((c, v) # os) \<longleftrightarrow> plain_code c \<and> length v < 256 \<and> opts_ok os"
  by (simp_all add: opts_ok_def)

lemma rd_drop: "drop i buf = x # xs \<Longrightarrow> rd buf i = Some x"
  by (cases "i < length buf") (simp_all add: rd_def nth_via_drop)

lemma drop_after: "drop i buf = xs @ ys \<Longrightarrow> drop (i + length xs) buf = ys"
  by (metis add.commute append_eq_conv_conj drop_drop)

lemma parse_option_loop_enc:
  assumes "drop offset buf = enc_opts opts @ DHO_END # rest" and "opts_ok opts" and "plain_code c"
    and "offset + length (enc_opts opts) < len"
  shows "parse_option_loop null_value buf (Some \<lparr>opt_code = c, opt_len = l, opt_value = None\<rparr>) 0 offset len
      FIELD_FLAG_OPTION 0 = Some (case map_of opts c of
        None \<Rightarrow> (False, Some \<lparr>opt_code = c, opt_len = l, opt_value = None\<rparr>)
      | Some v \<Rightarrow> (True, Some \<lparr>opt_code = c, opt_len = length v,
          opt_value = Some (offset + length (enc_opts (takeWhile (\<lambda>(d, _). d \<noteq> c) opts)) + 2)\<rparr>))"
  using assms
proof (induction opts arbitrary: offset)
  case Nil
  then have "rd buf offset = Some DHO_END" by (intro rd_drop) simp
  with Nil show ?case
    by (subst parse_option_loop.simps) (simp add: plain_code_def DHO_END_def DHO_PAD_def DHO_DHCP_OPTION_OVERLOAD_def)
next
  case (Cons cv opts)
  obtain d v where cv: "cv = (d, v)" by (cases cv) auto
  from Cons.prems have ok: "plain_code d" "length v < 256" "opts_ok opts" by (simp_all add: cv)
  have dr: "drop offset buf = d # of_nat (length v) # v @ enc_opts opts @ DHO_END # rest"
    using Cons.prems(1) by (simp add: cv)
  have r0: "rd buf offset = Some d" using dr by (rule rd_drop)
  have r1: "rd buf (offset + 1) = Some (of_nat (length v))"
    by (rule rd_drop) (use drop_after [of offset buf "[d]"] dr in simp)
  have tl: "drop (offset + (2 + length v)) buf = enc_opts opts @ DHO_END # rest"
    using drop_after [of offset buf "d # of_nat (length v) # v"] dr by simp
  show ?case
  proof (cases "d = c")
    case True
    with Cons.prems(4) ok(2) r0 r1 show ?thesis
      by (subst parse_option_loop.simps) (simp add: cv unat_of_nat_byte Let_def)
  next
    case False
    have "offset + (2 + length v) + length (enc_opts opts) < len" using Cons.prems(4) by (simp add: cv)
    note IH = Cons.IH [OF tl ok(3) Cons.prems(3) this]
    have "parse_option_loop null_value buf (Some \<lparr>opt_code = c, opt_len = l, opt_value = None\<rparr>) 0 offset len
        FIELD_FLAG_OPTION 0
      = parse_option_loop null_value buf (Some \<lparr>opt_code = c, opt_len = l, opt_value = None\<rparr>) 0
          (offset + (2 + length v)) len FIELD_FLAG_OPTION 0"
      using Cons.prems(4) ok(1,2) r0 r1 False
      by (subst parse_option_loop.simps) (simp add: cv unat_of_nat_byte plain_code_def)
    with IH False show ?thesis by (simp add: cv split: option.split)
  qed
qed

lemma htonl_bytes: "dhcpd_htonl_copy x = [of_nat (x div 256 div 256 div 256), of_nat (x div 256 div 256),
    of_nat (x div 256), of_nat x]"
proof -
  have "(4 :: nat) = Suc (Suc (Suc (Suc 0)))" by simp
  then show ?thesis unfolding dhcpd_htonl_copy_def by (simp only: le_bytes.simps rev.simps append.simps)
qed

lemma cookie_bytes: "dhcpd_htonl_copy DHCP_MAGIC_COOKIE_U32 = [0x63, 0x82, 0x53, 0x63]"
  by (simp add: htonl_bytes DHCP_MAGIC_COOKIE_U32_def)

lemma parse_option_enc:
  assumes "bslice 236 4 packet = [0x63, 0x82, 0x53, 0x63]"
    and "drop 240 packet = enc_opts opts @ DHO_END # rest" and "opts_ok opts" and "plain_code c"
    and "240 + length (enc_opts opts) < packet_len"
  shows "case map_of opts c of
      None \<Rightarrow> dhcpd_parse_option null_value packet packet_len (Some \<lparr>opt_code = c, opt_len = 0, opt_value = None\<rparr>)
        = Some (False, Some \<lparr>opt_code = c, opt_len = 0, opt_value = None\<rparr>)
    | Some v \<Rightarrow> \<exists>pos. dhcpd_parse_option null_value packet packet_len (Some \<lparr>opt_code = c, opt_len = 0, opt_value = None\<rparr>)
        = Some (True, Some \<lparr>opt_code = c, opt_len = length v, opt_value = Some pos\<rparr>) \<and> bslice pos (length v) packet = v"
proof -
  have cookie: "dhcpd_htonl_copy DHCP_MAGIC_COOKIE_U32 = pkt_cookie packet"
    using assms(1) by (simp add: pkt_cookie_def cookie_bytes)
  note L = parse_option_loop_enc [OF assms(2-5), of null_value 0]
  show ?thesis
  proof (cases "map_of opts c")
    case None
    with L cookie show ?thesis by (simp add: dhcpd_parse_option_def DHCP_OPTS_POS_def)
  next
    case (Some v)
    let ?os = "takeWhile (\<lambda>(d, _). d \<noteq> c) opts"
    have "\<exists>os'. opts = ?os @ (c, v) # os'"
      using Some by (induction opts) (auto split: if_splits)
    then obtain os' where "opts = ?os @ (c, v) # os'" ..
    then have "enc_opts opts = enc_opts ?os @ c # of_nat (length v) # v @ enc_opts os'"
      by (metis (no_types, lifting) append.assoc append_Cons concat_append enc_opts_def enc_opts_simps(2) map_append)
    then have "drop 240 packet = (enc_opts ?os @ [c, of_nat (length v)]) @ v @ enc_opts os' @ DHO_END # rest"
      using assms(2) by simp
    then have "drop (240 + length (enc_opts ?os @ [c, of_nat (length v)])) packet = v @ enc_opts os' @ DHO_END # rest"
      by (rule drop_after)
    then have "bslice (240 + length (enc_opts ?os) + 2) (length v) packet = v"
      by (simp add: bslice_def add.assoc)
    with L cookie Some show ?thesis by (simp add: dhcpd_parse_option_def DHCP_OPTS_POS_def)
  qed
qed

text \<open>
  The walk over an option area, as the format defines it: it steps over padding bytes and over
  whole options with a code other than the wanted one, and stops at the end option.
\<close>

inductive opt_walk :: "byte list \<Rightarrow> byte \<Rightarrow> nat \<Rightarrow> nat \<Rightarrow> bool" for p c where
  here: "opt_walk p c i i"
| pad: "i < length p \<Longrightarrow> p ! i = DHO_PAD \<Longrightarrow> opt_walk p c (i + 1) j \<Longrightarrow> opt_walk p c i j"
| opt: "i + 1 < length p \<Longrightarrow> p ! i \<noteq> DHO_PAD \<Longrightarrow> p ! i \<noteq> DHO_END \<Longrightarrow> p ! i \<noteq> c
    \<Longrightarrow> opt_walk p c (i + 2 + unat (p ! (i + 1))) j \<Longrightarrow> opt_walk p c i j"

lemma opt_walk_le: "opt_walk p c i j \<Longrightarrow> i \<le> j"
  by (induction rule: opt_walk.induct) simp_all

lemma opt_walk_pads:
  assumes "c \<noteq> DHO_PAD"
  shows "opt_walk (xs @ replicate n DHO_PAD @ ys) c (length xs) (length xs + n)"
proof (induction n arbitrary: xs)
  case (Suc n)
  have "opt_walk ((xs @ [DHO_PAD]) @ replicate n DHO_PAD @ ys) c (length (xs @ [DHO_PAD])) (length (xs @ [DHO_PAD]) + n)"
    by (rule Suc)
  then show ?case by - (rule opt_walk.pad, simp_all add: nth_append)
qed (simp add: opt_walk.here)

lemma opt_walk_step:
  assumes "i < j" "j < length p"
  shows "opt_walk p c i j \<longleftrightarrow>
    (if p ! i = DHO_PAD then opt_walk p c (i + 1) j
     else p ! i \<noteq> DHO_END \<and> p ! i \<noteq> c \<and> opt_walk p c (i + 2 + unat (p ! (i + 1))) j)"
proof
  assume "opt_walk p c i j"
  then show "if p ! i = DHO_PAD then opt_walk p c (i + 1) j
     else p ! i \<noteq> DHO_END \<and> p ! i \<noteq> c \<and> opt_walk p c (i + 2 + unat (p ! (i + 1))) j"
    using assms by cases simp_all
next
  assume R: "if p ! i = DHO_PAD then opt_walk p c (i + 1) j
     else p ! i \<noteq> DHO_END \<and> p ! i \<noteq> c \<and> opt_walk p c (i + 2 + unat (p ! (i + 1))) j"
  show "opt_walk p c i j"
  proof (cases "p ! i = DHO_PAD")
    case True
    from R assms True show ?thesis by (simp add: opt_walk.pad)
  next
    case False
    from R assms False show ?thesis by (simp add: opt_walk.opt)
  qed
qed

lemma parse_option_loop_none:
  assumes "344 < length buf" and "plain_code c"
  shows "parse_option_loop null_value buf (Some \<lparr>opt_code = c, opt_len = l, opt_value = v\<rparr>) 0 offset (length buf)
      FIELD_FLAG_OPTION ov = None
    \<longleftrightarrow> opt_walk buf c offset (length buf - 1) \<and> buf ! (length buf - 1) \<noteq> DHO_PAD \<and> buf ! (length buf - 1) \<noteq> DHO_END"
proof (induction "length buf - offset" arbitrary: offset ov rule: less_induct)
  case less
  let ?o = "Some \<lparr>opt_code = c, opt_len = l, opt_value = v\<rparr>"
  let ?n = "length buf"
  let ?bad = "\<lambda>i. opt_walk buf c i (?n - 1) \<and> buf ! (?n - 1) \<noteq> DHO_PAD \<and> buf ! (?n - 1) \<noteq> DHO_END"
  note loop_eq = parse_option_loop.simps [of null_value buf ?o 0 offset ?n FIELD_FLAG_OPTION ov]
  have codes: "DHO_DHCP_OPTION_OVERLOAD \<noteq> DHO_PAD" "DHO_DHCP_OPTION_OVERLOAD \<noteq> DHO_END" "DHO_END \<noteq> DHO_PAD"
    "c \<noteq> DHO_PAD" "c \<noteq> DHO_END" "c \<noteq> DHO_DHCP_OPTION_OVERLOAD"
    using assms(2) by (simp_all add: plain_code_def DHO_PAD_def DHO_END_def DHO_DHCP_OPTION_OVERLOAD_def)
  have fields: "parse_option_loop null_value buf ?o DHCP_FILE_POS DHCP_FILE_POS (DHCP_FILE_POS + DHCP_FILE_LEN)
        FIELD_FLAG_FILE ov \<noteq> None"
      "parse_option_loop null_value buf ?o DHCP_SNAME_POS DHCP_SNAME_POS (DHCP_SNAME_POS + DHCP_SNAME_LEN)
        FIELD_FLAG_SNAME ov \<noteq> None"
    using parse_option_loop_returns [of DHCP_FILE_POS "DHCP_FILE_POS + DHCP_FILE_LEN" buf null_value ?o DHCP_FILE_POS FIELD_FLAG_FILE ov]
      parse_option_loop_returns [of DHCP_SNAME_POS "DHCP_SNAME_POS + DHCP_SNAME_LEN" buf null_value ?o DHCP_SNAME_POS FIELD_FLAG_SNAME ov] assms(1)
    by (auto simp: DHCP_FILE_POS_def DHCP_FILE_LEN_def DHCP_SNAME_POS_def DHCP_SNAME_LEN_def)
  consider (out) "?n \<le> offset" | (at_end) "offset = ?n - 1" "offset < ?n" | (inside) "offset < ?n - 1" by linarith
  then show ?case
  proof cases
    case out
    then have "\<not> opt_walk buf c offset (?n - 1)" using opt_walk_le [of buf c offset "?n - 1"] assms(1) by auto
    with out show ?thesis by (simp add: loop_eq)
  next
    case at_end
    then have n: "offset + 1 = ?n" by simp
    have w: "opt_walk buf c offset (?n - 1)" using at_end by (simp add: opt_walk.here)
    have past: "parse_option_loop null_value buf ?o 0 ?n ?n FIELD_FLAG_OPTION ov = Some (False, ?o)"
      by (subst parse_option_loop.simps) simp
    show ?thesis
    proof (cases "buf ! offset = DHO_PAD \<or> buf ! offset = DHO_END")
      case True
      then show ?thesis using n codes fields past at_end(1) by (subst loop_eq) auto
    next
      case False
      then show ?thesis using n codes w at_end(1) by (subst loop_eq) (auto simp: rd_def)
    qed
  next
    case inside
    then have before: "\<not> ?n \<le> offset" by simp
    have r: "rd buf offset = Some (buf ! offset)" "rd buf (offset + 1) = Some (buf ! (offset + 1))" using inside by simp_all
    have step: "?bad offset \<longleftrightarrow> (if buf ! offset = DHO_PAD then ?bad (offset + 1)
       else buf ! offset \<noteq> DHO_END \<and> buf ! offset \<noteq> c \<and> ?bad (offset + 2 + unat (buf ! (offset + 1))))"
      using opt_walk_step [of offset "?n - 1" buf c] inside by simp
    have go: "parse_option_loop null_value buf ?o 0 off' ?n FIELD_FLAG_OPTION ov' = None \<longleftrightarrow> ?bad off'"
      if "offset < off'" for off' ov' by (rule less) (use that inside in simp)
    have jump: "\<not> ?bad off'" if "?n \<le> off'" for off' using opt_walk_le [of buf c off' "?n - 1"] that assms(1) by auto
    consider (found) "buf ! offset = c" | (pad) "buf ! offset = DHO_PAD" | (stop) "buf ! offset = DHO_END"
      | (over) "buf ! offset = DHO_DHCP_OPTION_OVERLOAD" | (opt) "plain_code (buf ! offset)" "buf ! offset \<noteq> c"
      by (auto simp: plain_code_def)
    then show ?thesis
    proof cases
      case found
      then show ?thesis unfolding step using codes r before inside by (subst loop_eq) (simp add: Let_def)
    next
      case pad
      then show ?thesis unfolding step using codes r before inside go [of "offset + 1" ov] by (subst loop_eq) simp
    next
      case stop
      then show ?thesis unfolding step using codes r before inside fields by (subst loop_eq) simp
    next
      case over
      show ?thesis
      proof (cases "offset + 2 + unat (buf ! (offset + 1)) \<ge> ?n")
        case True
        then show ?thesis unfolding step using over codes r before inside jump by (subst loop_eq) auto
      next
        case False
        then show ?thesis unfolding step using over codes r before inside
            go [of "offset + 2 + unat (buf ! (offset + 1))" "buf ! (offset + 2)"]
          by (subst loop_eq) (simp add: add.assoc)
      qed
    next
      case opt
      then show ?thesis unfolding step using codes r before inside go [of "offset + 2 + unat (buf ! (offset + 1))" ov]
        by (subst loop_eq) (simp add: plain_code_def add.assoc)
    qed
  qed
qed

section \<open>Properties\<close>

text \<open>
  C16: no read of an option search leaves the buffer when the packet is shorter than the buffer
  (of more than 344 bytes) it lies in: whatever the bytes are and whatever option is searched,
  also through the overloaded file and server name fields, the search has a result.  That the
  search ends for every packet is the termination proof of \<open>parse_option_loop\<close>; that the bound
  on the packet length is needed is what \<open>dhcpd_parse_option_overread\<close> shows.
\<close>

theorem dhcpd_parse_option_returns:
  assumes "packet_len < length packet" and "344 < length packet"
  shows "\<exists>r. dhcpd_parse_option null_value packet packet_len option = Some r"
proof -
  have "\<exists>r. parse_option_loop null_value packet option 0 DHCP_OPTS_POS packet_len FIELD_FLAG_OPTION 0 = Some r"
    using assms by (intro parse_option_loop_returns) (simp_all add: DHCP_FILE_POS_def DHCP_FILE_LEN_def)
  then show ?thesis by (simp only: dhcpd_parse_option_def split: if_split) blast
qed

lemma dhcpd_parse_option_returns_witness:
  "\<exists>r. dhcpd_parse_option False (replicate 608 1) 300 None = Some r"
  by (rule dhcpd_parse_option_returns) simp_all

text \<open>
  The option parser reads back what the option format says: in a packet whose option area
  encodes a list of options, it finds the first option with the wanted code, its length, and a
  pointer to exactly its value; it reports failure when there is none.
\<close>

theorem dhcpd_parse_option_roundtrip:
  assumes "bslice 236 4 packet = [0x63, 0x82, 0x53, 0x63]"
    and "drop 240 packet = enc_opts opts @ DHO_END # rest" and "opts_ok opts" and "plain_code c"
    and "240 + length (enc_opts opts) < packet_len"
  shows "case map_of opts c of
      None \<Rightarrow> dhcpd_parse_option null_value packet packet_len (Some \<lparr>opt_code = c, opt_len = 0, opt_value = None\<rparr>)
        = Some (False, Some \<lparr>opt_code = c, opt_len = 0, opt_value = None\<rparr>)
    | Some v \<Rightarrow> \<exists>pos. dhcpd_parse_option null_value packet packet_len (Some \<lparr>opt_code = c, opt_len = 0, opt_value = None\<rparr>)
        = Some (True, Some \<lparr>opt_code = c, opt_len = length v, opt_value = Some pos\<rparr>) \<and> bslice pos (length v) packet = v"
  using assms by (rule parse_option_enc)

lemma dhcpd_parse_option_roundtrip_witness:
  "\<exists>pos. dhcpd_parse_option False (replicate 236 0 @ [0x63, 0x82, 0x53, 0x63, 12, 2, 7, 8, 53, 1, 3, 255]) 252
      (Some \<lparr>opt_code = 53, opt_len = 0, opt_value = None\<rparr>)
    = Some (True, Some \<lparr>opt_code = 53, opt_len = 1, opt_value = Some pos\<rparr>)
    \<and> bslice pos 1 (replicate 236 0 @ [0x63, 0x82, 0x53, 0x63, 12, 2, 7, 8, 53, 1, 3, 255]) = [3 :: byte]"
  using dhcpd_parse_option_roundtrip
    [of "replicate 236 0 @ [0x63, 0x82, 0x53, 0x63, 12, 2, 7, 8, 53, 1, 3, 255]" "[(12, [7, 8]), (53, [3])]" "[]" 53 252 False]
  by (simp add: bslice_def DHO_END_def DHO_PAD_def DHO_DHCP_OPTION_OVERLOAD_def plain_code_def)

text \<open>
  C17: exactly which packets that fill the buffer (of more than 344 bytes) make the search for a
  plain option read behind it: those whose last byte is reached by the walk over the option area
  as the code byte of an option, neither a padding byte nor the end option.  The code compares
  only the position of the option code with the length and then reads the length byte, which
  lies one behind the packet.
\<close>

theorem dhcpd_parse_option_overread:
  assumes "344 < length packet" and "bslice 236 4 packet = [0x63, 0x82, 0x53, 0x63]" and "plain_code c"
  shows "dhcpd_parse_option null_value packet (length packet)
      (Some \<lparr>opt_code = c, opt_len = l, opt_value = v\<rparr>) = None
    \<longleftrightarrow> opt_walk packet c DHCP_OPTS_POS (length packet - 1) \<and> last packet \<noteq> DHO_PAD \<and> last packet \<noteq> DHO_END"
proof -
  have "dhcpd_htonl_copy DHCP_MAGIC_COOKIE_U32 = pkt_cookie packet"
    using assms(2) by (simp add: pkt_cookie_def cookie_bytes)
  moreover have "last packet = packet ! (length packet - 1)" using assms(1) by (intro last_conv_nth) auto
  ultimately show ?thesis
    using assms(1,3) by (simp add: dhcpd_parse_option_def parse_option_loop_none)
qed

text \<open>A datagram of 608 bytes, the size of the receive buffer, that is padded up to an option code in its last byte.\<close>

lemma dhcpd_parse_option_overread_witness:
  "dhcpd_parse_option False (replicate 236 0 @ [0x63, 0x82, 0x53, 0x63] @ replicate 367 DHO_PAD @ [53])
     (length (replicate 236 0 @ [0x63, 0x82, 0x53, 0x63] @ replicate 367 DHO_PAD @ [53 :: byte]))
     (Some \<lparr>opt_code = DHO_DHCP_MESSAGE_TYPE, opt_len = 0, opt_value = None\<rparr>) = None"
proof (subst dhcpd_parse_option_overread, goal_cases)
  case 4
  have "opt_walk ((replicate 236 0 @ [0x63, 0x82, 0x53, 0x63]) @ replicate 367 DHO_PAD @ [53]) DHO_DHCP_MESSAGE_TYPE
      (length (replicate 236 0 @ [0x63, 0x82, 0x53, 0x63 :: byte]))
      (length (replicate 236 0 @ [0x63, 0x82, 0x53, 0x63 :: byte]) + 367)"
    by (rule opt_walk_pads) (simp add: DHO_DHCP_MESSAGE_TYPE_def DHO_PAD_def)
  then show ?case by (simp add: DHCP_OPTS_POS_def DHO_PAD_def DHO_END_def)
qed (simp_all add: bslice_def plain_code_def DHO_DHCP_MESSAGE_TYPE_def DHO_PAD_def DHO_END_def
    DHO_DHCP_OPTION_OVERLOAD_def)

end
