(* ===== verification/Dhcp_Pool.thy ===== *)
theory Dhcp_Pool
  imports Dhcp_Packet
begin

text \<open>
  The address pool of the DHCP server, \<^verbatim>\<open>components/net/dhcpd/ip_allocator.c\<close>: a table of four
  items, each an address, the hardware address it was last given to, and whether it is
  allocated.  \<open>pool_ok\<close> is its invariant, \<open>others_kept\<close> what every operation promises to the other
  clients.

  An address is its four bytes in memory order.  A result that is \<^const>\<open>None\<close> is a memory fault.
\<close>

section \<open>The address pool\<close>

definition DHCPD_IP_POOL_SIZE :: nat where "DHCPD_IP_POOL_SIZE = 4"

datatype dhcpd_err = DHCPD_ERR_NONE | DHCPD_ERR_INVALID_PARAM | DHCPD_ERR_SIZE_EXCEEDED | DHCPD_ERR_STATE
  | DHCPD_ERR_MEM | DHCPD_ERR_MSG | DHCPD_ERR_IP_USE_UP | DHCPD_ERR_OS_SERVICE

record dhcpd_ip_item =
  ip_allocted :: bool
  ip_mac :: "byte list"
  ip_ip :: "byte list"

definition is_mac_all_zero :: "byte list \<Rightarrow> bool" where
  "is_mac_all_zero mac \<longleftrightarrow> mac = [0, 0, 0, 0, 0, 0]"

text \<open>
  The loop of \<open>get_next_usable_ip_item\<close> from index \<open>i\<close> on, with \<open>k\<close> rounds left; the result is the
  item of the client, or the two candidates.
\<close>

fun usable_loop :: "dhcpd_ip_item list \<Rightarrow> byte list \<Rightarrow> nat \<Rightarrow> nat \<Rightarrow> nat option \<Rightarrow> nat option
    \<Rightarrow> nat + (nat option \<times> nat option)" where
  "usable_loop pool sta_addr 0 i usable usable2 = Inr (usable, usable2)"
| "usable_loop pool sta_addr (Suc k) i usable usable2 =
     (let ip_item = pool ! i in
      if ip_mac ip_item = sta_addr then Inl i
      else usable_loop pool sta_addr k (i + 1)
        (if usable = None \<and> \<not> ip_allocted ip_item \<and> is_mac_all_zero (ip_mac ip_item) then Some i else usable)
        (if usable2 = None \<and> \<not> ip_allocted ip_item then Some i else usable2))"

definition get_next_usable_ip_item :: "nat \<Rightarrow> dhcpd_ip_item list \<Rightarrow> byte list \<Rightarrow> nat option" where
  "get_next_usable_ip_item client_max pool sta_addr =
     (case usable_loop pool sta_addr (min DHCPD_IP_POOL_SIZE client_max) 0 None None of
        Inl i \<Rightarrow> Some i
      | Inr (usable, usable2) \<Rightarrow>
          let usable = (if usable = None \<and> usable2 \<noteq> None then usable2 else usable) in
          case usable of
            Some u \<Rightarrow> if u < min DHCPD_IP_POOL_SIZE client_max then Some u else None
          | None \<Rightarrow> None)"

fun ip_item_loop :: "dhcpd_ip_item list \<Rightarrow> byte list \<Rightarrow> nat \<Rightarrow> nat \<Rightarrow> nat option" where
  "ip_item_loop pool sta_addr 0 i = None"
| "ip_item_loop pool sta_addr (Suc k) i =
     (if ip_mac (pool ! i) = sta_addr then Some i else ip_item_loop pool sta_addr k (i + 1))"

definition get_ip_item :: "nat \<Rightarrow> dhcpd_ip_item list \<Rightarrow> byte list \<Rightarrow> nat option" where
  "get_ip_item client_max pool sta_addr = ip_item_loop pool sta_addr (min DHCPD_IP_POOL_SIZE client_max) 0"

definition set_ip_item_status :: "dhcpd_ip_item \<Rightarrow> bool \<Rightarrow> dhcpd_ip_item" where
  "set_ip_item_status ip_item st = ip_item\<lparr>ip_allocted := st\<rparr>"

definition dhcpd_ip_allocate :: "nat \<Rightarrow> dhcpd_ip_item list \<Rightarrow> byte list \<Rightarrow> bool
    \<Rightarrow> dhcpd_err \<times> byte list option \<times> dhcpd_ip_item list" where
  "dhcpd_ip_allocate client_max pool mac pre_allocated =
     (case get_next_usable_ip_item client_max pool mac of
        None \<Rightarrow> (DHCPD_ERR_IP_USE_UP, None, pool)
      | Some i \<Rightarrow>
          let ip_item = (pool ! i)\<lparr>ip_mac := mac\<rparr>;
              ip_item = (if pre_allocated \<and> \<not> ip_allocted ip_item then set_ip_item_status ip_item True else ip_item)
          in (DHCPD_ERR_NONE, Some (ip_ip ip_item), pool[i := ip_item]))"

text \<open>The code writes through the pointer it looked up, also when the lookup failed.\<close>

definition dhcpd_ip_release :: "nat \<Rightarrow> dhcpd_ip_item list \<Rightarrow> byte list \<Rightarrow> (dhcpd_err \<times> dhcpd_ip_item list) option" where
  "dhcpd_ip_release client_max pool macaddr = do {
     i \<leftarrow> get_ip_item client_max pool macaddr;
     Some (DHCPD_ERR_NONE, pool[i := set_ip_item_status (pool ! i) False]) }"

section \<open>The pool as a table of leases\<close>

text \<open>What the search of the pool amounts to: the first item with a property.\<close>

lemma usable_loop_eq:
  "usable_loop pool mac k i u u2 =
     (case find (\<lambda>j. ip_mac (pool ! j) = mac) [i..<i + k] of
        Some j \<Rightarrow> Inl j
      | None \<Rightarrow> Inr (case u of Some x \<Rightarrow> Some x
            | None \<Rightarrow> find (\<lambda>j. \<not> ip_allocted (pool ! j) \<and> is_mac_all_zero (ip_mac (pool ! j))) [i..<i + k],
          case u2 of Some x \<Rightarrow> Some x | None \<Rightarrow> find (\<lambda>j. \<not> ip_allocted (pool ! j)) [i..<i + k]))"
proof (induction k arbitrary: i u u2)
  case 0
  then show ?case by (simp split: option.split)
next
  case (Suc k)
  have e: "[i..<i + Suc k] = i # [i + 1..<i + 1 + k]" by (simp add: upt_conv_Cons del: upt_Suc)
  show ?case unfolding e usable_loop.simps Let_def Suc.IH find.simps by (simp del: upt_Suc split: option.split)
qed

lemma ip_item_loop_eq: "ip_item_loop pool mac k i = find (\<lambda>j. ip_mac (pool ! j) = mac) [i..<i + k]"
proof (induction k arbitrary: i)
  case (Suc k)
  have e: "[i..<i + Suc k] = i # [i + 1..<i + 1 + k]" by (simp add: upt_conv_Cons del: upt_Suc)
  show ?case unfolding e ip_item_loop.simps Suc.IH find.simps by (rule refl)
qed simp

lemma find_SomeE:
  assumes "find P [i..<j] = Some x"
  obtains "i \<le> x" "x < j" "P x"
  using assms by (auto simp: find_Some_iff)

lemma find_NoneD: "find P [i..<j] = None \<Longrightarrow> i \<le> x \<Longrightarrow> x < j \<Longrightarrow> \<not> P x"
  by (auto simp: find_None_iff)

text \<open>The number of items in use, and the choice of the allocator.\<close>

definition pool_num :: "nat \<Rightarrow> nat" where
  "pool_num client_max = min DHCPD_IP_POOL_SIZE client_max"

lemma pool_num_le: "pool_num client_max \<le> 4"
  by (simp add: pool_num_def DHCPD_IP_POOL_SIZE_def)

lemma usable_item:
  assumes "get_next_usable_ip_item client_max pool mac = Some i"
  obtains (own) "i < pool_num client_max" "ip_mac (pool ! i) = mac"
    | (free) "i < pool_num client_max" "\<not> ip_allocted (pool ! i)"
        "\<forall>j < pool_num client_max. ip_mac (pool ! j) \<noteq> mac"
proof (cases "find (\<lambda>j. ip_mac (pool ! j) = mac) [0..<pool_num client_max]")
  case (Some j)
  then have "j = i" using assms by (simp add: get_next_usable_ip_item_def usable_loop_eq pool_num_def)
  with Some show thesis by (auto intro: own elim: find_SomeE)
next
  case None
  then have no: "\<forall>j < pool_num client_max. ip_mac (pool ! j) \<noteq> mac" by (auto dest: find_NoneD)
  have "i < pool_num client_max \<and> \<not> ip_allocted (pool ! i)"
    using assms None
    by (auto simp: get_next_usable_ip_item_def usable_loop_eq pool_num_def Let_def split: option.splits
        if_splits elim!: find_SomeE)
  then show thesis using no by (intro free) simp_all
qed

lemma no_usable_item:
  assumes "get_next_usable_ip_item client_max pool mac = None" and "j < pool_num client_max"
  shows "ip_allocted (pool ! j) \<and> ip_mac (pool ! j) \<noteq> mac"
proof (cases "find (\<lambda>j. ip_mac (pool ! j) = mac) [0..<pool_num client_max]")
  case (Some i)
  then show ?thesis using assms(1) by (simp add: get_next_usable_ip_item_def usable_loop_eq pool_num_def)
next
  case None
  then have "find (\<lambda>j. \<not> ip_allocted (pool ! j)) [0..<pool_num client_max] = None"
    using assms(1)
    by (auto simp: get_next_usable_ip_item_def usable_loop_eq pool_num_def Let_def split: option.splits if_splits
        elim!: find_SomeE)
  with None assms(2) show ?thesis by (auto dest: find_NoneD)
qed

text \<open>
  The pool invariant: the items in use have different addresses, and no two of them belong to
  the same client.
\<close>

definition pool_ok :: "nat \<Rightarrow> dhcpd_ip_item list \<Rightarrow> bool" where
  "pool_ok client_max pool \<longleftrightarrow> length pool = DHCPD_IP_POOL_SIZE
     \<and> (\<forall>i < pool_num client_max. length (ip_ip (pool ! i)) = 4)
     \<and> (\<forall>i < pool_num client_max. \<forall>j < pool_num client_max. i \<noteq> j \<longrightarrow> ip_ip (pool ! i) \<noteq> ip_ip (pool ! j)
          \<and> (ip_mac (pool ! i) = ip_mac (pool ! j) \<longrightarrow> is_mac_all_zero (ip_mac (pool ! i))))"

lemma pool_ok_mac:
  "pool_ok client_max pool \<Longrightarrow> i < pool_num client_max \<Longrightarrow> j < pool_num client_max \<Longrightarrow> i \<noteq> j \<Longrightarrow>
   ip_mac (pool ! i) = ip_mac (pool ! j) \<Longrightarrow> is_mac_all_zero (ip_mac (pool ! i))"
  unfolding pool_ok_def by blast

lemma allocate_cases:
  assumes "length pool = DHCPD_IP_POOL_SIZE"
  obtains (full) "dhcpd_ip_allocate client_max pool mac pre = (DHCPD_ERR_IP_USE_UP, None, pool)"
      "\<forall>j < pool_num client_max. ip_allocted (pool ! j) \<and> ip_mac (pool ! j) \<noteq> mac"
    | (given) i where "dhcpd_ip_allocate client_max pool mac pre = (DHCPD_ERR_NONE, Some (ip_ip (pool ! i)),
          pool[i := (pool ! i)\<lparr>ip_mac := mac, ip_allocted := ip_allocted (pool ! i) \<or> pre\<rparr>])"
        "i < pool_num client_max" "i < length pool"
        "ip_mac (pool ! i) = mac \<or> (\<not> ip_allocted (pool ! i) \<and> (\<forall>j < pool_num client_max. ip_mac (pool ! j) \<noteq> mac))"
proof (cases "get_next_usable_ip_item client_max pool mac")
  case None
  then show thesis
    using no_usable_item [OF None] by (intro full) (auto simp: dhcpd_ip_allocate_def)
next
  case (Some i)
  have r: "dhcpd_ip_allocate client_max pool mac pre = (DHCPD_ERR_NONE, Some (ip_ip (pool ! i)),
      pool[i := (pool ! i)\<lparr>ip_mac := mac, ip_allocted := ip_allocted (pool ! i) \<or> pre\<rparr>])"
    by (cases "pool ! i"; cases "ip_allocted (pool ! i)"; cases pre)
      (simp_all add: dhcpd_ip_allocate_def Some Let_def set_ip_item_status_def)
  from Some show thesis
  proof (cases rule: usable_item)
    case own
    then show thesis using r assms pool_num_le [of client_max]
      by (intro given [of i]) (auto simp: DHCPD_IP_POOL_SIZE_def)
  next
    case free
    then show thesis using r assms pool_num_le [of client_max]
      by (intro given [of i]) (auto simp: DHCPD_IP_POOL_SIZE_def)
  qed
qed

lemma pool_ok_allocate:
  assumes ok: "pool_ok client_max pool" and "dhcpd_ip_allocate client_max pool mac pre = (err, ip, pool')"
  shows "pool_ok client_max pool'"
proof -
  have len: "length pool = DHCPD_IP_POOL_SIZE" using ok by (simp add: pool_ok_def)
  from len show ?thesis
  proof (cases rule: allocate_cases [where client_max = client_max and mac = mac and pre = pre])
    case full
    then show ?thesis using assms by simp
  next
    case (given i)
    have p: "pool' = pool[i := (pool ! i)\<lparr>ip_mac := mac, ip_allocted := ip_allocted (pool ! i) \<or> pre\<rparr>]"
      using given(1) assms(2) by simp
    from given(4) show ?thesis
    proof
      assume "ip_mac (pool ! i) = mac"
      then have "ip_mac (pool' ! j) = ip_mac (pool ! j)" "ip_ip (pool' ! j) = ip_ip (pool ! j)" for j
        using given(3) by (cases "j = i"; simp add: p)+
      then show ?thesis using ok by (simp add: pool_ok_def p)
    next
      assume "\<not> ip_allocted (pool ! i) \<and> (\<forall>j < pool_num client_max. ip_mac (pool ! j) \<noteq> mac)"
      then have no: "\<forall>j < pool_num client_max. ip_mac (pool ! j) \<noteq> mac" by simp
      have "ip_mac (pool' ! j) = (if j = i then mac else ip_mac (pool ! j))" "ip_ip (pool' ! j) = ip_ip (pool ! j)" for j
        using given(3) by (simp_all add: p nth_list_update)
      then show ?thesis using ok no by (auto simp: pool_ok_def p)
    qed
  qed
qed

lemma release_cases:
  assumes "length pool = DHCPD_IP_POOL_SIZE"
  obtains (absent) "dhcpd_ip_release client_max pool mac = None" "\<forall>j < pool_num client_max. ip_mac (pool ! j) \<noteq> mac"
    | (found) i where "dhcpd_ip_release client_max pool mac
          = Some (DHCPD_ERR_NONE, pool[i := (pool ! i)\<lparr>ip_allocted := False\<rparr>])"
        "i < pool_num client_max" "i < length pool" "ip_mac (pool ! i) = mac"
proof (cases "find (\<lambda>j. ip_mac (pool ! j) = mac) [0..<pool_num client_max]")
  case None
  then have "dhcpd_ip_release client_max pool mac = None"
    by (simp add: dhcpd_ip_release_def get_ip_item_def ip_item_loop_eq pool_num_def)
  then show thesis using None by (intro absent) (auto dest: find_NoneD)
next
  case (Some i)
  then have "dhcpd_ip_release client_max pool mac
      = Some (DHCPD_ERR_NONE, pool[i := (pool ! i)\<lparr>ip_allocted := False\<rparr>])"
    by (simp add: dhcpd_ip_release_def get_ip_item_def ip_item_loop_eq pool_num_def set_ip_item_status_def)
  moreover have "i < pool_num client_max" "ip_mac (pool ! i) = mac" using Some by (auto elim: find_SomeE)
  ultimately show thesis using assms pool_num_le [of client_max]
    by (intro found [of i]) (auto simp: DHCPD_IP_POOL_SIZE_def)
qed

lemma pool_ok_release:
  assumes ok: "pool_ok client_max pool" and r: "dhcpd_ip_release client_max pool mac = Some (err, pool')"
  shows "pool_ok client_max pool'"
proof -
  have len: "length pool = DHCPD_IP_POOL_SIZE" using ok by (simp add: pool_ok_def)
  from len show ?thesis
  proof (cases rule: release_cases [where client_max = client_max and mac = mac])
    case absent
    then show ?thesis using r by simp
  next
    case (found i)
    then have "pool' = pool[i := (pool ! i)\<lparr>ip_allocted := False\<rparr>]" using r by simp
    moreover from this have "ip_mac (pool' ! j) = ip_mac (pool ! j)" "ip_ip (pool' ! j) = ip_ip (pool ! j)" for j
      using found(3) by (simp_all add: nth_list_update)
    ultimately show ?thesis using ok by (simp add: pool_ok_def)
  qed
qed

text \<open>What one client does leaves the leases of the others alone.\<close>

definition others_kept :: "dhcpd_ip_item list \<Rightarrow> dhcpd_ip_item list \<Rightarrow> byte list \<Rightarrow> bool" where
  "others_kept pool pool' mac \<longleftrightarrow> length pool' = length pool
     \<and> (\<forall>j < length pool. ip_allocted (pool ! j) \<longrightarrow> ip_mac (pool ! j) \<noteq> mac \<longrightarrow> pool' ! j = pool ! j)"

lemma others_kept_refl [simp]: "others_kept pool pool mac"
  by (simp add: others_kept_def)

lemma others_kept_trans: "others_kept p q mac \<Longrightarrow> others_kept q r mac \<Longrightarrow> others_kept p r mac"
  by (auto simp: others_kept_def)

lemma allocate_kept:
  assumes "length pool = DHCPD_IP_POOL_SIZE" and "dhcpd_ip_allocate client_max pool mac pre = (err, ip, pool')"
  shows "others_kept pool pool' mac"
  using assms(1)
proof (cases rule: allocate_cases [where client_max = client_max and mac = mac and pre = pre])
  case full
  then show ?thesis using assms(2) by simp
next
  case (given i)
  then show ?thesis using assms(2) by (auto simp: others_kept_def nth_list_update)
qed

lemma release_kept:
  assumes "length pool = DHCPD_IP_POOL_SIZE" and "dhcpd_ip_release client_max pool mac = Some (err, pool')"
  shows "others_kept pool pool' mac"
  using assms(1)
proof (cases rule: release_cases [where client_max = client_max and mac = mac])
  case absent
  then show ?thesis using assms(2) by simp
next
  case (found i)
  then show ?thesis using assms(2) by (auto simp: others_kept_def nth_list_update)
qed

end
