(* ===== verification/Dhcp_Server.thy ===== *)
theory Dhcp_Server
  imports Dhcp_Pool
begin

text \<open>
  The DHCP server of \<^verbatim>\<open>components/net/dhcpd/dhcpd.c\<close>: the message handlers, the task and its life
  cycle.

  The socket calls and the thread creation of the operating system are inputs: the datagram a
  receive yields, and whether a call succeeds.  A reply is the list of the bytes that are sent.
  Results that are \<^const>\<open>None\<close> are memory faults.
\<close>

section \<open>The server\<close>

record server_config =
  sc_server :: "byte list"
  sc_port :: nat
  sc_lease :: nat
  sc_renew :: nat
  sc_ip_start :: "byte list"
  sc_ip_end :: "byte list"
  sc_client_max :: nat

datatype dhcpd_flag = DHCPD_TASK_NOT_CREATED | DHCPD_TASK_IS_CREATED | DHCPD_TASK_IS_RUNNING | DHCPD_TASK_SIGNAL_EXIT

record dhcpd_ctrl =
  dc_flag :: dhcpd_flag
  dc_config :: server_config
  dc_pool :: "dhcpd_ip_item list"
  dc_socket :: bool

text \<open>\<open>DHCP_SERVER_NAME_STR\<close> and \<open>DHCP_HOST_NAME_STR\<close>: "LN-DHCP-Server" and "LN882H-SoftAP".\<close>

definition DHCP_SERVER_NAME_STR :: "byte list" where
  "DHCP_SERVER_NAME_STR = [76, 78, 45, 68, 72, 67, 80, 45, 83, 101, 114, 118, 101, 114]"

definition DHCP_HOST_NAME_STR :: "byte list" where
  "DHCP_HOST_NAME_STR = [76, 78, 56, 56, 50, 72, 45, 83, 111, 102, 116, 65, 80]"

definition DHCP_HOST_NETMASK :: "byte list" where "DHCP_HOST_NETMASK = [255, 255, 255, 0]"
definition DHCP_HOST_DNS1 :: "byte list" where "DHCP_HOST_DNS1 = [114, 114, 114, 114]"

text \<open>The BOOTP part that the three replies share, up to the magic cookie, field by field.\<close>

definition bootp_reply :: "byte list \<Rightarrow> byte list \<Rightarrow> byte list" where
  "bootp_reply request yiaddr =
     [BOOT_REPLY, pkt_htype request, pkt_hlen request, 0] @ pkt_xid request @ [0, 0] @ pkt_flags request
     @ pkt_ciaddr request @ yiaddr @ [0, 0, 0, 0] @ [0, 0, 0, 0] @ pkt_chaddr request
     @ DHCP_SERVER_NAME_STR @ replicate (64 - length DHCP_SERVER_NAME_STR) 0 @ replicate 128 0
     @ dhcpd_htonl_copy DHCP_MAGIC_COOKIE_U32"

text \<open>The options that an accepting reply carries after its type and server identifier.\<close>

definition lease_options :: "server_config \<Rightarrow> byte list" where
  "lease_options c =
     [DHO_DHCP_LEASE_TIME, 4] @ dhcpd_htonl_copy (sc_lease c)
     @ [DHO_DHCP_RENEWAL_TIME, 4] @ dhcpd_htonl_copy (sc_lease c div 2)
     @ [DHO_DHCP_REBINDING_TIME, 4] @ dhcpd_htonl_copy (u32 (sc_lease c div 8 * 7))
     @ [DHO_ROUTERS, 4] @ sc_server c
     @ [DHO_SUBNET, 4] @ DHCP_HOST_NETMASK
     @ [DHO_DOMAIN_NAME_SERVERS, 4] @ DHCP_HOST_DNS1"

definition host_name_option :: "byte list" where
  "host_name_option = [DHO_HOST_NAME, of_nat (length DHCP_HOST_NAME_STR)] @ DHCP_HOST_NAME_STR"

text \<open>The end of a reply: the end option, one pad, and pads up to a multiple of four bytes.\<close>

definition reply_end :: "byte list \<Rightarrow> byte list" where
  "reply_end bs = (let bs = bs @ [DHO_END, DHO_PAD];
                       offset = length bs;
                       tmp_len = u8 ((offset + 3) div 4 * 4 - offset)
                   in bs @ replicate tmp_len DHO_PAD)"

definition do_discover :: "dhcpd_ctrl \<Rightarrow> byte list \<Rightarrow> nat \<Rightarrow> bool \<times> byte list \<times> dhcpd_ctrl" where
  "do_discover d request max_mtu =
     (case dhcpd_ip_allocate (sc_client_max (dc_config d)) (dc_pool d) (take 6 (pkt_chaddr request)) False of
        (err, alloc_ipaddr, pool) \<Rightarrow>
          if err \<noteq> DHCPD_ERR_NONE then (False, [], d\<lparr>dc_pool := pool\<rparr>)
          else
            let response = reply_end (bootp_reply request (the alloc_ipaddr)
                  @ [DHO_DHCP_MESSAGE_TYPE, 1, DHCP_OFFER]
                  @ [DHO_DHCP_SERVER_IDENTIFIER, 4] @ sc_server (dc_config d)
                  @ lease_options (dc_config d) @ host_name_option)
            in (length response \<le> max_mtu, response, d\<lparr>dc_pool := pool\<rparr>))"

text \<open>
  The first part of \<open>do_request\<close>: the address the client wants confirmed, from the option or
  from the BOOTP header; \<open>Some None\<close> when the request names none.
\<close>

definition request_confirm_ip :: "bool \<Rightarrow> byte list \<Rightarrow> nat \<Rightarrow> byte list option option" where
  "request_confirm_ip null_value request recv_len = do {
     (found, option) \<leftarrow> dhcpd_parse_option null_value request recv_len
        (Some \<lparr>opt_code = DHO_DHCP_REQUESTED_ADDRESS, opt_len = 0, opt_value = None\<rparr>);
     (if found then do {
        p \<leftarrow> opt_value (the option);
        b0 \<leftarrow> rd request p; b1 \<leftarrow> rd request (p + 1); b2 \<leftarrow> rd request (p + 2); b3 \<leftarrow> rd request (p + 3);
        Some (Some [b0, b1, b2, b3]) }
      else Some (if pkt_ciaddr request \<noteq> [0, 0, 0, 0] then Some (pkt_ciaddr request) else None)) }"

definition do_request :: "bool \<Rightarrow> dhcpd_ctrl \<Rightarrow> byte list \<Rightarrow> nat \<Rightarrow> nat
    \<Rightarrow> (bool \<times> byte list \<times> dhcpd_ctrl) option" where
  "do_request null_value d request recv_len max_mtu = do {
     confirm \<leftarrow> request_confirm_ip null_value request recv_len;
     (case confirm of
        None \<Rightarrow> Some (False, [], d)
      | Some confirm_ipaddr \<Rightarrow>
          (case dhcpd_ip_allocate (sc_client_max (dc_config d)) (dc_pool d) (take 6 (pkt_chaddr request)) True of
             (err, alloc_ipaddr, pool) \<Rightarrow>
               if err \<noteq> DHCPD_ERR_NONE then Some (False, [], d\<lparr>dc_pool := pool\<rparr>)
               else do {
                 (dhcp_msg_type, confirm_ipaddr, pool) \<leftarrow>
                   (if the alloc_ipaddr \<noteq> confirm_ipaddr then do {
                      (_, pool) \<leftarrow> dhcpd_ip_release (sc_client_max (dc_config d)) pool (take 6 (pkt_chaddr request));
                      Some (DHCP_NAK, [0, 0, 0, 0], pool) }
                    else Some (DHCP_ACK, confirm_ipaddr, pool));
                 let response = reply_end (bootp_reply request confirm_ipaddr
                       @ [DHO_DHCP_MESSAGE_TYPE, 1, dhcp_msg_type]
                       @ [DHO_DHCP_SERVER_IDENTIFIER, 4] @ sc_server (dc_config d)
                       @ (if dhcp_msg_type = DHCP_ACK then lease_options (dc_config d) else []) @ host_name_option);
                 Some (length response \<le> max_mtu, response, d\<lparr>dc_pool := pool\<rparr>) })) }"

definition do_inform :: "dhcpd_ctrl \<Rightarrow> byte list \<Rightarrow> nat \<Rightarrow> bool \<times> byte list \<times> dhcpd_ctrl" where
  "do_inform d request max_mtu =
     (case dhcpd_ip_allocate (sc_client_max (dc_config d)) (dc_pool d) (take 6 (pkt_chaddr request)) False of
        (err, alloc_ipaddr, pool) \<Rightarrow>
          if err \<noteq> DHCPD_ERR_NONE then (False, [], d\<lparr>dc_pool := pool\<rparr>)
          else
            let response = reply_end (bootp_reply request (the alloc_ipaddr)
                  @ [DHO_DHCP_MESSAGE_TYPE, 1, DHCP_ACK]
                  @ [DHO_DHCP_SERVER_IDENTIFIER, 4] @ sc_server (dc_config d)
                  @ lease_options (dc_config d) @ host_name_option)
            in (length response \<le> max_mtu, response, d\<lparr>dc_pool := pool\<rparr>))"

definition do_release :: "dhcpd_ctrl \<Rightarrow> bool \<times> byte list \<times> dhcpd_ctrl" where
  "do_release d = (False, [], d)"

definition do_decline :: "dhcpd_ctrl \<Rightarrow> bool \<times> byte list \<times> dhcpd_ctrl" where
  "do_decline d = (False, [], d)"

text \<open>
  \<open>dhcpd_dispatch\<close> returns \<open>LN_TRUE\<close>, \<open>LN_FALSE\<close> or \<open>DHCPD_ERR_MSG\<close>; its caller only compares the
  result with \<open>LN_TRUE\<close>.
\<close>

definition dhcpd_dispatch :: "bool \<Rightarrow> dhcpd_ctrl \<Rightarrow> byte list \<Rightarrow> nat \<Rightarrow> nat
    \<Rightarrow> (bool \<times> byte list \<times> dhcpd_ctrl) option" where
  "dhcpd_dispatch null_value d recv_buff recv_len max_mtu =
     (if BOOT_REQUEST \<noteq> pkt_op recv_buff then Some (False, [], d)
      else do {
        ok \<leftarrow> dhcpd_recv_packet_check null_value recv_buff (u16 recv_len);
        if \<not> ok then Some (False, [], d)
        else do {
          (found, option) \<leftarrow> dhcpd_parse_option null_value recv_buff (u16 recv_len)
             (Some \<lparr>opt_code = DHO_DHCP_MESSAGE_TYPE, opt_len = 0, opt_value = None\<rparr>);
          if \<not> found then Some (False, [], d)
          else do {
            p \<leftarrow> opt_value (the option);
            ty \<leftarrow> rd recv_buff p;
            if ty = DHCP_DISCOVER then Some (do_discover d recv_buff max_mtu)
            else if ty = DHCP_RELEASE then Some (do_release d)
            else if ty = DHCP_INFORM then Some (do_inform d recv_buff max_mtu)
            else if ty = DHCP_REQUEST then do_request null_value d recv_buff (u16 recv_len) max_mtu
            else if ty = DHCP_DECLINE then Some (do_decline d)
            else Some (False, [], d) } } })"

text \<open>The result is the datagram that is broadcast, if any.\<close>

definition dhcpd_handle_msg :: "bool \<Rightarrow> dhcpd_ctrl \<Rightarrow> byte list \<Rightarrow> nat \<Rightarrow> (byte list option \<times> dhcpd_ctrl) option" where
  "dhcpd_handle_msg null_value d recv_buff recv_len = do {
     (ok, response, d) \<leftarrow> dhcpd_dispatch null_value d recv_buff recv_len DHCP_MAX_MTU;
     Some (if ok \<and> length response > 0 then Some response else None, d) }"

section \<open>Life cycle\<close>

fun pool_init_loop :: "server_config \<Rightarrow> dhcpd_ip_item list \<Rightarrow> nat \<Rightarrow> nat \<Rightarrow> dhcpd_ip_item list" where
  "pool_init_loop c pool i 0 = pool"
| "pool_init_loop c pool i (Suc k) = pool_init_loop c
     (pool[i := (pool ! i)\<lparr>ip_allocted := False,
        ip_ip := [sc_server c ! 0, sc_server c ! 1, sc_server c ! 2, sc_ip_start c ! 3 + of_nat i]\<rparr>]) (i + 1) k"

definition dhcpd_start :: "bool \<Rightarrow> dhcpd_ctrl \<Rightarrow> dhcpd_err \<times> dhcpd_ctrl" where
  "dhcpd_start thread_created d =
     (if dc_flag d \<noteq> DHCPD_TASK_NOT_CREATED then (DHCPD_ERR_STATE, d)
      else
        let d = d\<lparr>dc_flag := DHCPD_TASK_IS_CREATED\<rparr>; c = dc_config d in
        if sc_server c = [0, 0, 0, 0] \<or> sc_port c = 0 \<or> sc_lease c = 0 \<or> sc_renew c = 0
        then (DHCPD_ERR_INVALID_PARAM, d)
        else
          let d = d\<lparr>dc_pool := pool_init_loop c (dc_pool d) 0 (min DHCPD_IP_POOL_SIZE (sc_client_max c)),
                    dc_socket := False\<rparr>
          in if \<not> thread_created then (DHCPD_ERR_OS_SERVICE, d\<lparr>dc_flag := DHCPD_TASK_NOT_CREATED\<rparr>)
             else (DHCPD_ERR_NONE, d))"

definition dhcpd_curr_config_set :: "dhcpd_ctrl \<Rightarrow> server_config \<Rightarrow> dhcpd_err \<times> dhcpd_ctrl" where
  "dhcpd_curr_config_set d c =
     (if dc_flag d = DHCPD_TASK_IS_RUNNING then (DHCPD_ERR_STATE, d)
      else (DHCPD_ERR_NONE, d\<lparr>dc_config := c\<rparr>))"

definition dhcpd_curr_config_get :: "dhcpd_ctrl \<Rightarrow> dhcpd_err \<times> server_config" where
  "dhcpd_curr_config_get d = (DHCPD_ERR_NONE, dc_config d)"

definition dhcpd_is_running :: "dhcpd_ctrl \<Rightarrow> bool" where
  "dhcpd_is_running d \<longleftrightarrow> dc_flag d = DHCPD_TASK_IS_RUNNING"

text \<open>\<open>dhcpd_stop\<close> up to its wait for the task, which sees the signal in its next round.\<close>

definition dhcpd_stop_signal :: "dhcpd_ctrl \<Rightarrow> dhcpd_ctrl" where
  "dhcpd_stop_signal d = (if dc_flag d = DHCPD_TASK_IS_RUNNING then d\<lparr>dc_flag := DHCPD_TASK_SIGNAL_EXIT\<rparr> else d)"

text \<open>
  The task, with the results of \<open>socket\<close> and \<open>bind\<close>, and for every round of its loop what
  \<open>select\<close> and the receive yield: \<^const>\<open>None\<close> when nothing came, a failed allocation or receive, or
  a datagram and its length.
\<close>

definition dhcpd_task_out :: "dhcpd_ctrl \<Rightarrow> dhcpd_ctrl" where
  "dhcpd_task_out d = d\<lparr>dc_socket := False, dc_flag := DHCPD_TASK_NOT_CREATED\<rparr>"

definition dhcpd_task_begin :: "bool \<Rightarrow> bool \<Rightarrow> dhcpd_ctrl \<Rightarrow> dhcpd_ctrl" where
  "dhcpd_task_begin socket_ok bind_ok d =
     (if \<not> socket_ok then dhcpd_task_out d
      else let d = d\<lparr>dc_socket := True\<rparr> in
        if \<not> bind_ok then dhcpd_task_out d else d\<lparr>dc_flag := DHCPD_TASK_IS_RUNNING\<rparr>)"

fun dhcpd_task_loop :: "bool \<Rightarrow> dhcpd_ctrl \<Rightarrow> (byte list \<times> nat) option list \<Rightarrow> (byte list list \<times> dhcpd_ctrl) option" where
  "dhcpd_task_loop null_value d [] = Some ([], d)"
| "dhcpd_task_loop null_value d (ev # evs) =
     (if dc_flag d \<noteq> DHCPD_TASK_IS_RUNNING then Some ([], dhcpd_task_out d)
      else case ev of
        None \<Rightarrow> dhcpd_task_loop null_value d evs
      | Some (recv_buff, recv_len) \<Rightarrow> do {
          (reply, d) \<leftarrow> dhcpd_handle_msg null_value d recv_buff recv_len;
          (sent, d) \<leftarrow> dhcpd_task_loop null_value d evs;
          Some ((case reply of Some r \<Rightarrow> r # sent | None \<Rightarrow> sent), d) })"

end
