(* ===== verification/Dhcp_Correct.thy ===== *)
theory Dhcp_Correct
  imports Dhcp_Server
begin

text \<open>
  What the DHCP server promises: replies are well-formed and say what the configuration says,
  every message is served without a fault and keeps the pool invariant and the leases of the
  other clients, an offered address is granted when it is asked for, and what a refused start
  leaves behind.
\<close>

section \<open>Replies\<close>

text \<open>The layout of a reply, for a request that has the BOOTP part.\<close>

lemma bslice_eqI: "p = xs @ ys @ zs \<Longrightarrow> length xs = a \<Longrightarrow> length ys = n \<Longrightarrow> bslice a n p = ys"
  by (simp add: bslice_def)

lemma length_fields [simp]:
  assumes "240 \<le> length request"
  shows "length (pkt_xid request) = 4" "length (pkt_flags request) = 2" "length (pkt_ciaddr request) = 4"
    "length (pkt_chaddr request) = 16"
  using assms by (simp_all add: pkt_xid_def pkt_flags_def pkt_ciaddr_def pkt_chaddr_def bslice_def)

lemma length_htonl [simp]: "length (dhcpd_htonl_copy x) = 4"
  by (simp add: htonl_bytes)

lemma length_bootp [simp]: "240 \<le> length request \<Longrightarrow> length y = 4 \<Longrightarrow> length (bootp_reply request y) = 240"
  by (simp add: bootp_reply_def DHCP_SERVER_NAME_STR_def)

lemma bootp_yiaddr: "240 \<le> length request \<Longrightarrow> length y = 4 \<Longrightarrow> pkt_yiaddr (bootp_reply request y @ rest) = y"
  unfolding pkt_yiaddr_def
  by (rule bslice_eqI [where xs = "[BOOT_REPLY, pkt_htype request, pkt_hlen request, 0] @ pkt_xid request @ [0, 0]
        @ pkt_flags request @ pkt_ciaddr request"])
    (simp_all add: bootp_reply_def)

lemma bootp_cookie: "240 \<le> length request \<Longrightarrow> length y = 4 \<Longrightarrow>
   bslice 236 4 (bootp_reply request y @ rest) = [0x63, 0x82, 0x53, 0x63]"
  by (rule bslice_eqI [where xs = "[BOOT_REPLY, pkt_htype request, pkt_hlen request, 0] @ pkt_xid request @ [0, 0]
        @ pkt_flags request @ pkt_ciaddr request @ y @ [0, 0, 0, 0] @ [0, 0, 0, 0] @ pkt_chaddr request
        @ DHCP_SERVER_NAME_STR @ replicate (64 - length DHCP_SERVER_NAME_STR) 0 @ replicate 128 0"])
    (simp_all add: bootp_reply_def cookie_bytes DHCP_SERVER_NAME_STR_def)

text \<open>The options of a reply as the protocol names them.\<close>

definition lease_opts :: "server_config \<Rightarrow> (byte \<times> byte list) list" where
  "lease_opts c = [(DHO_DHCP_LEASE_TIME, dhcpd_htonl_copy (sc_lease c)),
     (DHO_DHCP_RENEWAL_TIME, dhcpd_htonl_copy (sc_lease c div 2)),
     (DHO_DHCP_REBINDING_TIME, dhcpd_htonl_copy (u32 (sc_lease c div 8 * 7))),
     (DHO_ROUTERS, sc_server c), (DHO_SUBNET, DHCP_HOST_NETMASK), (DHO_DOMAIN_NAME_SERVERS, DHCP_HOST_DNS1)]"

definition reply_opts :: "server_config \<Rightarrow> byte \<Rightarrow> (byte \<times> byte list) list" where
  "reply_opts c ty = [(DHO_DHCP_MESSAGE_TYPE, [ty]), (DHO_DHCP_SERVER_IDENTIFIER, sc_server c)]
     @ (if ty = DHCP_NAK then [] else lease_opts c) @ [(DHO_HOST_NAME, DHCP_HOST_NAME_STR)]"

lemma enc_lease_opts: "length (sc_server c) = 4 \<Longrightarrow> enc_opts (lease_opts c @ os) = lease_options c @ enc_opts os"
  by (simp add: lease_opts_def lease_options_def DHCP_HOST_NETMASK_def DHCP_HOST_DNS1_def)

lemma enc_reply_opts:
  "length (sc_server c) = 4 \<Longrightarrow> enc_opts (reply_opts c ty)
     = [DHO_DHCP_MESSAGE_TYPE, 1, ty] @ [DHO_DHCP_SERVER_IDENTIFIER, 4] @ sc_server c
       @ (if ty = DHCP_NAK then [] else lease_options c) @ host_name_option"
  by (simp add: reply_opts_def enc_lease_opts host_name_option_def)

lemma reply_opts_ok: "length (sc_server c) = 4 \<Longrightarrow> opts_ok (reply_opts c ty)"
  by (simp add: reply_opts_def lease_opts_def opts_ok_def plain_code_def DHO_PAD_def DHO_END_def
      DHO_DHCP_OPTION_OVERLOAD_def DHO_DHCP_MESSAGE_TYPE_def DHO_DHCP_SERVER_IDENTIFIER_def DHO_DHCP_LEASE_TIME_def
      DHO_DHCP_RENEWAL_TIME_def DHO_DHCP_REBINDING_TIME_def DHO_ROUTERS_def DHO_SUBNET_def
      DHO_DOMAIN_NAME_SERVERS_def DHO_HOST_NAME_def DHCP_HOST_NETMASK_def DHCP_HOST_DNS1_def DHCP_HOST_NAME_STR_def)

text \<open>\<open>is_reply r request y c ty\<close>: \<open>r\<close> is a well-formed reply of type \<open>ty\<close> to the request.\<close>

definition is_reply :: "byte list \<Rightarrow> byte list \<Rightarrow> byte list \<Rightarrow> server_config \<Rightarrow> byte \<Rightarrow> bool" where
  "is_reply r request y c ty \<longleftrightarrow> (\<exists>pads. r = bootp_reply request y @ enc_opts (reply_opts c ty) @ DHO_END # DHO_PAD # pads)
     \<and> length r \<le> 305"

lemma reply_end_eq: "\<exists>pads. reply_end bs = bs @ DHO_END # DHO_PAD # pads \<and> length pads \<le> 3"
proof -
  define m where "m = length bs + 2"
  have "(m + 3) div 4 * 4 - m \<le> 3" by linarith
  then have "u8 ((m + 3) div 4 * 4 - m) \<le> 3" by (simp add: u8_def)
  then show ?thesis by (simp add: reply_end_def Let_def m_def)
qed

lemma reply_end_is_reply:
  assumes "240 \<le> length request" "length y = 4" "length (sc_server c) = 4" "ty = DHCP_NAK \<or> ls = lease_options c"
    and "ty \<noteq> DHCP_NAK \<or> ls = []"
  shows "is_reply (reply_end (bootp_reply request y @ [DHO_DHCP_MESSAGE_TYPE, 1, ty]
      @ [DHO_DHCP_SERVER_IDENTIFIER, 4] @ sc_server c @ ls @ host_name_option)) request y c ty"
proof -
  let ?bs = "bootp_reply request y @ [DHO_DHCP_MESSAGE_TYPE, 1, ty] @ [DHO_DHCP_SERVER_IDENTIFIER, 4] @ sc_server c
      @ ls @ host_name_option"
  obtain pads where pads: "reply_end ?bs = ?bs @ DHO_END # DHO_PAD # pads" "length pads \<le> 3"
    using reply_end_eq [of ?bs] by blast
  have e: "?bs = bootp_reply request y @ enc_opts (reply_opts c ty)"
    using assms(3-5) by (auto simp: enc_reply_opts)
  have "length (enc_opts (reply_opts c ty)) \<le> 60"
    using assms(3) by (simp add: enc_reply_opts host_name_option_def DHCP_HOST_NAME_STR_def lease_options_def
        DHCP_HOST_NETMASK_def DHCP_HOST_DNS1_def)
  then have l: "length (bootp_reply request y @ enc_opts (reply_opts c ty) @ DHO_END # DHO_PAD # pads) \<le> 305"
    using assms(1,2) pads(2) by simp
  have "reply_end ?bs = bootp_reply request y @ enc_opts (reply_opts c ty) @ DHO_END # DHO_PAD # pads"
    using pads(1) unfolding e by simp
  with l show ?thesis unfolding is_reply_def by simp
qed

lemma is_reply_yiaddr: "is_reply r request y c ty \<Longrightarrow> 240 \<le> length request \<Longrightarrow> length y = 4 \<Longrightarrow> pkt_yiaddr r = y"
  by (auto simp: is_reply_def bootp_yiaddr)

lemma is_reply_option:
  assumes r: "is_reply r request y c ty" and len: "240 \<le> length request" "length y = 4" "length (sc_server c) = 4"
    and v: "map_of (reply_opts c ty) code = Some v" and code: "plain_code code"
  shows "\<exists>pos. dhcpd_parse_option null_value r (length r) (Some \<lparr>opt_code = code, opt_len = 0, opt_value = None\<rparr>)
      = Some (True, Some \<lparr>opt_code = code, opt_len = length v, opt_value = Some pos\<rparr>) \<and> bslice pos (length v) r = v"
proof -
  obtain pads where p: "r = bootp_reply request y @ enc_opts (reply_opts c ty) @ DHO_END # DHO_PAD # pads"
    using r by (auto simp: is_reply_def)
  have "bslice 236 4 r = [0x63, 0x82, 0x53, 0x63]" 
    unfolding p by (rule bootp_cookie [OF len(1,2)])
  moreover have "drop 240 r = enc_opts (reply_opts c ty) @ DHO_END # DHO_PAD # pads" using len(1,2) by (simp add: p)
  moreover have "240 + length (enc_opts (reply_opts c ty)) < length r" using len(1,2) by (simp add: p)
  ultimately show ?thesis
    using parse_option_enc [OF _ _ reply_opts_ok [OF len(3)] code, of r ty "DHO_PAD # pads" "length r" null_value] v
    by simp
qed

section \<open>The handlers\<close>

definition config_ok :: "server_config \<Rightarrow> bool" where
  "config_ok c \<longleftrightarrow> length (sc_server c) = 4 \<and> length (sc_ip_start c) = 4"

definition server_ok :: "dhcpd_ctrl \<Rightarrow> bool" where
  "server_ok d \<longleftrightarrow> config_ok (dc_config d) \<and> pool_ok (sc_client_max (dc_config d)) (dc_pool d)"

lemma server_ok_sel:
  assumes "server_ok d"
  shows "length (sc_server (dc_config d)) = 4" "pool_ok (sc_client_max (dc_config d)) (dc_pool d)"
    "length (dc_pool d) = DHCPD_IP_POOL_SIZE"
    "i < pool_num (sc_client_max (dc_config d)) \<Longrightarrow> length (ip_ip (dc_pool d ! i)) = 4"
  using assms by (simp_all add: server_ok_def config_ok_def pool_ok_def)

lemma do_discover_cases:
  assumes ok: "server_ok d" and len: "240 \<le> length request"
  obtains (full) "do_discover d request DHCP_MAX_MTU = (False, [], d)"
      "\<forall>j < pool_num (sc_client_max (dc_config d)). ip_allocted (dc_pool d ! j) \<and> ip_mac (dc_pool d ! j) \<noteq> take 6 (pkt_chaddr request)"
    | (offer) i r where "do_discover d request DHCP_MAX_MTU
          = (True, r, d\<lparr>dc_pool := (dc_pool d)[i := (dc_pool d ! i)\<lparr>ip_mac := take 6 (pkt_chaddr request)\<rparr>]\<rparr>)"
        "is_reply r request (ip_ip (dc_pool d ! i)) (dc_config d) DHCP_OFFER" "i < pool_num (sc_client_max (dc_config d))"
        "ip_mac (dc_pool d ! i) = take 6 (pkt_chaddr request) \<or> \<not> ip_allocted (dc_pool d ! i)"
proof -
  let ?m = "sc_client_max (dc_config d)" and ?mac = "take 6 (pkt_chaddr request)"
  note S = server_ok_sel [OF ok]
  from S(3) show thesis
  proof (cases rule: allocate_cases [where client_max = ?m and mac = ?mac and pre = False])
    case full
    then show thesis by (intro that(1)) (simp_all add: do_discover_def)
  next
    case (given i)
    let ?r = "reply_end (bootp_reply request (ip_ip (dc_pool d ! i)) @ [DHO_DHCP_MESSAGE_TYPE, 1, DHCP_OFFER]
        @ [DHO_DHCP_SERVER_IDENTIFIER, 4] @ sc_server (dc_config d) @ lease_options (dc_config d) @ host_name_option)"
    have "DHCP_OFFER \<noteq> DHCP_NAK" by (simp add: DHCP_OFFER_def DHCP_NAK_def)
    then have r: "is_reply ?r request (ip_ip (dc_pool d ! i)) (dc_config d) DHCP_OFFER"
      using len S(1,4) given(2) by (intro reply_end_is_reply) simp_all
    then have "length ?r \<le> DHCP_MAX_MTU" by (simp add: is_reply_def DHCP_MAX_MTU_def)
    moreover have "(dc_pool d ! i)\<lparr>ip_mac := ?mac, ip_allocted := ip_allocted (dc_pool d ! i) \<or> False\<rparr>
        = (dc_pool d ! i)\<lparr>ip_mac := ?mac\<rparr>"
      by (cases "dc_pool d ! i") simp
    ultimately have "do_discover d request DHCP_MAX_MTU
          = (True, ?r, d\<lparr>dc_pool := (dc_pool d)[i := (dc_pool d ! i)\<lparr>ip_mac := ?mac\<rparr>]\<rparr>)"
      using given(1) by (simp add: do_discover_def)
    with r given(2,4) show thesis by (intro that(2)) auto
  qed
qed

text \<open>A reply that says yes gives the client the address it asked for; otherwise it says no.\<close>

lemma do_request_cases:
  assumes ok: "server_ok d" and len: "240 \<le> length request"
    and c: "request_confirm_ip null_value request recv_len = Some (Some ip)"
  obtains (full) "do_request null_value d request recv_len DHCP_MAX_MTU = Some (False, [], d)"
      "\<forall>j < pool_num (sc_client_max (dc_config d)). ip_allocted (dc_pool d ! j) \<and> ip_mac (dc_pool d ! j) \<noteq> take 6 (pkt_chaddr request)"
    | (ack) i r where "do_request null_value d request recv_len DHCP_MAX_MTU = Some (True, r, d\<lparr>dc_pool :=
          (dc_pool d)[i := (dc_pool d ! i)\<lparr>ip_mac := take 6 (pkt_chaddr request), ip_allocted := True\<rparr>]\<rparr>)"
        "is_reply r request ip (dc_config d) DHCP_ACK" "i < pool_num (sc_client_max (dc_config d))"
        "ip_ip (dc_pool d ! i) = ip"
        "pool_ok (sc_client_max (dc_config d)) ((dc_pool d)[i := (dc_pool d ! i)\<lparr>ip_mac := take 6 (pkt_chaddr request),
           ip_allocted := True\<rparr>])"
        "others_kept (dc_pool d) ((dc_pool d)[i := (dc_pool d ! i)\<lparr>ip_mac := take 6 (pkt_chaddr request),
           ip_allocted := True\<rparr>]) (take 6 (pkt_chaddr request))"
    | (nak) i r pool where "do_request null_value d request recv_len DHCP_MAX_MTU = Some (True, r, d\<lparr>dc_pool := pool\<rparr>)"
        "is_reply r request [0, 0, 0, 0] (dc_config d) DHCP_NAK" "i < pool_num (sc_client_max (dc_config d))"
        "ip_ip (dc_pool d ! i) \<noteq> ip" "pool_ok (sc_client_max (dc_config d)) pool"
        "others_kept (dc_pool d) pool (take 6 (pkt_chaddr request))"
        "ip_mac (dc_pool d ! i) = take 6 (pkt_chaddr request) \<or> (\<forall>j < pool_num (sc_client_max (dc_config d)).
           ip_mac (dc_pool d ! j) \<noteq> take 6 (pkt_chaddr request))"
proof -
  let ?m = "sc_client_max (dc_config d)" and ?mac = "take 6 (pkt_chaddr request)"
  let ?r = "\<lambda>y ty. reply_end (bootp_reply request y @ [DHO_DHCP_MESSAGE_TYPE, 1, ty]
        @ [DHO_DHCP_SERVER_IDENTIFIER, 4] @ sc_server (dc_config d)
        @ (if ty = DHCP_ACK then lease_options (dc_config d) else []) @ host_name_option)"
  note S = server_ok_sel [OF ok]
  have ne: "DHCP_NAK \<noteq> DHCP_ACK" by (simp add: DHCP_ACK_def DHCP_NAK_def)
  have mtu: "length r \<le> DHCP_MAX_MTU" if "is_reply r request y (dc_config d) ty" for r y ty
    using that by (simp add: is_reply_def DHCP_MAX_MTU_def)
  from S(3) show thesis
  proof (cases rule: allocate_cases [where client_max = ?m and mac = ?mac and pre = True])
    case full
    then show thesis using c by (intro that(1)) (simp_all add: do_request_def)
  next
    case (given i)
    let ?pool = "(dc_pool d)[i := (dc_pool d ! i)\<lparr>ip_mac := ?mac, ip_allocted := True\<rparr>]"
    have al: "dhcpd_ip_allocate ?m (dc_pool d) ?mac True = (DHCPD_ERR_NONE, Some (ip_ip (dc_pool d ! i)), ?pool)"
      using given(1) by simp
    show thesis
    proof (cases "ip_ip (dc_pool d ! i) = ip")
      case True
      then have r: "is_reply (?r ip DHCP_ACK) request ip (dc_config d) DHCP_ACK"
        using len S(1,4) given(2) ne by (intro reply_end_is_reply) auto
      then have "do_request null_value d request recv_len DHCP_MAX_MTU
          = Some (True, ?r ip DHCP_ACK, d\<lparr>dc_pool := ?pool\<rparr>)"
        using mtu [OF r] c al True by (simp add: do_request_def Let_def)
      then show thesis
        using r given(2) True pool_ok_allocate [OF S(2) al] allocate_kept [OF S(3) al] by (intro that(2)) auto
    next
      case False
      have pok: "pool_ok ?m ?pool" by (rule pool_ok_allocate [OF S(2) al])
      then have "length ?pool = DHCPD_IP_POOL_SIZE" by (simp add: pool_ok_def)
      then obtain pool' where rel: "dhcpd_ip_release ?m ?pool ?mac = Some (DHCPD_ERR_NONE, pool')"
      proof (cases rule: release_cases [where client_max = ?m and mac = ?mac])
        case absent
        then show ?thesis using given(2,3) by force
      qed blast
      have r: "is_reply (?r [0, 0, 0, 0] DHCP_NAK) request [0, 0, 0, 0] (dc_config d) DHCP_NAK"
        using len S(1) ne by (intro reply_end_is_reply) auto
      then have "do_request null_value d request recv_len DHCP_MAX_MTU
          = Some (True, ?r [0, 0, 0, 0] DHCP_NAK, d\<lparr>dc_pool := pool'\<rparr>)"
        using mtu [OF r] c al False rel by (simp add: do_request_def Let_def)
      moreover have "pool_ok ?m pool'" by (rule pool_ok_release [OF pok rel])
      moreover have "others_kept (dc_pool d) pool' ?mac"
        using others_kept_trans [OF allocate_kept [OF S(3) al] release_kept [OF _ rel]] pok by (simp add: pool_ok_def)
      ultimately show thesis using r given(2,4) False by (intro that(3)) auto
    qed
  qed
qed

lemma confirm_returns:
  assumes "recv_len \<le> 604" and "length request = 608"
  shows "\<exists>c. request_confirm_ip null_value request recv_len = Some c"
proof -
  have "\<exists>r o1. parse_option_loop null_value request
      (Some \<lparr>opt_code = DHO_DHCP_REQUESTED_ADDRESS, opt_len = 0, opt_value = None\<rparr>) 0 DHCP_OPTS_POS recv_len
      FIELD_FLAG_OPTION 0 = Some (r, o1) \<and> (r \<longrightarrow> (\<exists>p. opt_value (the o1) = Some p \<and> p < 604))"
    using parse_option_loop_result [of 0 recv_len 604 request
        "Some \<lparr>opt_code = DHO_DHCP_REQUESTED_ADDRESS, opt_len = 0, opt_value = None\<rparr>" null_value DHCP_OPTS_POS
        FIELD_FLAG_OPTION 0] assms
    by (simp add: DHCP_FILE_POS_def DHCP_FILE_LEN_def)
  then obtain r o1 where "parse_option_loop null_value request
      (Some \<lparr>opt_code = DHO_DHCP_REQUESTED_ADDRESS, opt_len = 0, opt_value = None\<rparr>) 0 DHCP_OPTS_POS recv_len
      FIELD_FLAG_OPTION 0 = Some (r, o1)" "r \<longrightarrow> (\<exists>p. opt_value (the o1) = Some p \<and> p < 604)"
    by blast
  then show ?thesis
    using assms(2) by (auto simp: request_confirm_ip_def dhcpd_parse_option_def)
qed

lemma do_inform_cases:
  assumes ok: "server_ok d" and len: "240 \<le> length request"
  obtains (full) "do_inform d request DHCP_MAX_MTU = (False, [], d)"
    | (ack) i r pool where "do_inform d request DHCP_MAX_MTU = (True, r, d\<lparr>dc_pool := pool\<rparr>)"
        "is_reply r request (ip_ip (dc_pool d ! i)) (dc_config d) DHCP_ACK"
        "i < pool_num (sc_client_max (dc_config d))" "pool_ok (sc_client_max (dc_config d)) pool"
        "others_kept (dc_pool d) pool (take 6 (pkt_chaddr request))"
proof -
  let ?m = "sc_client_max (dc_config d)" and ?mac = "take 6 (pkt_chaddr request)"
  note S = server_ok_sel [OF ok]
  from S(3) show thesis
  proof (cases rule: allocate_cases [where client_max = ?m and mac = ?mac and pre = False])
    case full
    then show thesis by (intro that(1)) (simp_all add: do_inform_def)
  next
    case (given i)
    let ?r = "reply_end (bootp_reply request (ip_ip (dc_pool d ! i)) @ [DHO_DHCP_MESSAGE_TYPE, 1, DHCP_ACK]
        @ [DHO_DHCP_SERVER_IDENTIFIER, 4] @ sc_server (dc_config d) @ lease_options (dc_config d) @ host_name_option)"
    have "DHCP_ACK \<noteq> DHCP_NAK" by (simp add: DHCP_ACK_def DHCP_NAK_def)
    then have r: "is_reply ?r request (ip_ip (dc_pool d ! i)) (dc_config d) DHCP_ACK"
      using len S(1,4) given(2) by (intro reply_end_is_reply) simp_all
    then have "length ?r \<le> DHCP_MAX_MTU" by (simp add: is_reply_def DHCP_MAX_MTU_def)
    then show thesis
      using given(1) r given(2) pool_ok_allocate [OF S(2) given(1)] allocate_kept [OF S(3) given(1)]
      by (intro that(2)) (auto simp: do_inform_def)
  qed
qed

section \<open>One message\<close>

text \<open>\<open>msg_step d request d'\<close>: what a message of the client may do to the server.\<close>

definition msg_step :: "dhcpd_ctrl \<Rightarrow> byte list \<Rightarrow> dhcpd_ctrl \<Rightarrow> bool" where
  "msg_step d request d' \<longleftrightarrow> server_ok d' \<and> dc_config d' = dc_config d \<and> dc_flag d' = dc_flag d
     \<and> others_kept (dc_pool d) (dc_pool d') (take 6 (pkt_chaddr request))"

lemma msg_step_refl: "server_ok d \<Longrightarrow> msg_step d request d"
  by (simp add: msg_step_def)

lemma msg_step_pool:
  "server_ok d \<Longrightarrow> pool_ok (sc_client_max (dc_config d)) pool \<Longrightarrow>
   others_kept (dc_pool d) pool (take 6 (pkt_chaddr request)) \<Longrightarrow> msg_step d request (d\<lparr>dc_pool := pool\<rparr>)"
  by (simp add: msg_step_def server_ok_def)

lemma discover_step:
  assumes "server_ok d" and "240 \<le> length request"
  shows "\<exists>ok r d'. do_discover d request DHCP_MAX_MTU = (ok, r, d') \<and> length r \<le> 305 \<and> msg_step d request d'"
proof -
  obtain err ip pool where al: "dhcpd_ip_allocate (sc_client_max (dc_config d)) (dc_pool d) (take 6 (pkt_chaddr request)) False
      = (err, ip, pool)" by (cases "dhcpd_ip_allocate (sc_client_max (dc_config d)) (dc_pool d) (take 6 (pkt_chaddr request)) False")
  note S = server_ok_sel [OF assms(1)]
  have m: "msg_step d request (d\<lparr>dc_pool := pool\<rparr>)"
    using assms(1) pool_ok_allocate [OF S(2) al] allocate_kept [OF S(3) al] by (rule msg_step_pool)
  have "snd (snd (do_discover d request DHCP_MAX_MTU)) = d\<lparr>dc_pool := pool\<rparr>"
    by (simp add: do_discover_def al Let_def)
  moreover have "length (fst (snd (do_discover d request DHCP_MAX_MTU))) \<le> 305"
    using assms by (cases rule: do_discover_cases) (simp_all add: is_reply_def)
  ultimately show ?thesis using m by (metis prod.collapse)
qed

lemma inform_step:
  assumes "server_ok d" and "240 \<le> length request"
  shows "\<exists>ok r d'. do_inform d request DHCP_MAX_MTU = (ok, r, d') \<and> length r \<le> 305 \<and> msg_step d request d'"
  using assms
proof (cases rule: do_inform_cases)
  case full
  then show ?thesis using assms(1) msg_step_refl by auto
next
  case (ack i r pool)
  then show ?thesis using msg_step_pool [OF assms(1) ack(4,5)] by (simp add: is_reply_def ex_bool_eq)
qed

lemma request_step:
  assumes ok: "server_ok d" and len: "length request = 608" "recv_len \<le> 604"
  shows "\<exists>b r d'. do_request null_value d request recv_len DHCP_MAX_MTU = Some (b, r, d') \<and> length r \<le> 305 \<and> msg_step d request d'"
proof -
  have l: "240 \<le> length request" using len by simp
  note S = server_ok_sel [OF ok]
  obtain c where c: "request_confirm_ip null_value request recv_len = Some c" using confirm_returns len by blast
  show ?thesis
  proof (cases c)
    case None
    then have "do_request null_value d request recv_len DHCP_MAX_MTU = Some (False, [], d)"
      using c by (simp add: do_request_def)
    then show ?thesis using ok msg_step_refl by (simp add: ex_bool_eq)
  next
    case (Some ip)
    from ok l c [unfolded Some] show ?thesis
    proof (cases rule: do_request_cases)
      case full
      then show ?thesis using ok msg_step_refl by (simp add: ex_bool_eq)
    next
      case (ack i r)
      then show ?thesis using msg_step_pool [OF ok ack(5,6)] by (simp add: is_reply_def ex_bool_eq)
    next
      case (nak i r pool)
      then show ?thesis using msg_step_pool [OF ok nak(5,6)] by (simp add: is_reply_def ex_bool_eq)
    qed
  qed
qed

lemma option_search:
  assumes "recv_len \<le> 604" and "length buf = 608"
  obtains r o1 where "dhcpd_parse_option null_value buf recv_len (Some \<lparr>opt_code = c, opt_len = 0, opt_value = None\<rparr>)
      = Some (r, o1)" "r \<longrightarrow> (\<exists>p. opt_value (the o1) = Some p \<and> p < 604)"
proof -
  have "\<exists>r o1. parse_option_loop null_value buf (Some \<lparr>opt_code = c, opt_len = 0, opt_value = None\<rparr>) 0 DHCP_OPTS_POS
      recv_len FIELD_FLAG_OPTION 0 = Some (r, o1) \<and> (r \<longrightarrow> (\<exists>p. opt_value (the o1) = Some p \<and> p < 604))"
    using parse_option_loop_result [of 0 recv_len 604 buf
        "Some \<lparr>opt_code = c, opt_len = 0, opt_value = None\<rparr>" null_value DHCP_OPTS_POS FIELD_FLAG_OPTION 0] assms
    by (simp add: DHCP_FILE_POS_def DHCP_FILE_LEN_def)
  then show thesis
    by (cases "dhcpd_htonl_copy DHCP_MAGIC_COOKIE_U32 \<noteq> pkt_cookie buf")
      (auto simp: dhcpd_parse_option_def intro: that)
qed

lemma packet_check_returns:
  assumes "recv_len \<le> 604" and "length buf = 608"
  shows "\<exists>b. dhcpd_recv_packet_check null_value buf recv_len = Some b"
proof -
  have "\<exists>r. parse_option_loop null_value buf None 0 DHCP_OPTS_POS recv_len FIELD_FLAG_OPTION 0 = Some r"
    using assms by (intro parse_option_loop_returns) (simp_all add: DHCP_FILE_POS_def DHCP_FILE_LEN_def)
  then obtain r where r: "parse_option_loop null_value buf None 0 DHCP_OPTS_POS recv_len FIELD_FLAG_OPTION 0 = Some r" ..
  show ?thesis by (cases r) (simp add: dhcpd_recv_packet_check_def dhcpd_parse_option_def r ex_bool_eq)
qed

lemma handle_msg_step:
  assumes ok: "server_ok d" and len: "length buf = 608" "recv_len \<le> 604"
  shows "\<exists>reply d'. dhcpd_handle_msg null_value d buf recv_len = Some (reply, d') \<and> msg_step d buf d'
     \<and> (\<forall>r. reply = Some r \<longrightarrow> length r \<le> 305)"
proof -
  have u: "u16 recv_len = recv_len" using len(2) by (simp add: u16_def)
  have l: "240 \<le> length buf" using len(1) by simp
  obtain b where b: "dhcpd_recv_packet_check null_value buf recv_len = Some b"
    using packet_check_returns len by blast
  obtain r o1 where s: "dhcpd_parse_option null_value buf recv_len
      (Some \<lparr>opt_code = DHO_DHCP_MESSAGE_TYPE, opt_len = 0, opt_value = None\<rparr>) = Some (r, o1)"
    and o1: "r \<longrightarrow> (\<exists>p. opt_value (the o1) = Some p \<and> p < 604)"
    by (rule option_search [OF len(2,1)])
  obtain b1 r1 d1 where D: "do_discover d buf DHCP_MAX_MTU = (b1, r1, d1)" "length r1 \<le> 305" "msg_step d buf d1"
    using discover_step [OF ok l] by blast
  obtain b2 r2 d2 where I: "do_inform d buf DHCP_MAX_MTU = (b2, r2, d2)" "length r2 \<le> 305" "msg_step d buf d2"
    using inform_step [OF ok l] by blast
  obtain b3 r3 d3 where R: "do_request null_value d buf recv_len DHCP_MAX_MTU = Some (b3, r3, d3)" "length r3 \<le> 305"
      "msg_step d buf d3"
    using request_step [OF ok len] by blast
  have none: "msg_step d buf d" by (rule msg_step_refl [OF ok])
  have "\<exists>ok response d'. dhcpd_dispatch null_value d buf recv_len DHCP_MAX_MTU = Some (ok, response, d')
      \<and> length response \<le> 305 \<and> msg_step d buf d'"
  proof (cases "BOOT_REQUEST \<noteq> pkt_op buf \<or> \<not> b \<or> \<not> r")
    case True
    then show ?thesis using none by (auto simp: dhcpd_dispatch_def u b s ex_bool_eq)
  next
    case False
    then obtain p where p: "opt_value (the o1) = Some p" "p < 604" using o1 by blast
    then have "p < length buf" using len by simp
    then show ?thesis using False none D I R
      by (simp add: dhcpd_dispatch_def u b s p do_release_def do_decline_def ex_bool_eq)
  qed
  then show ?thesis by (auto simp: dhcpd_handle_msg_def)
qed

lemma task_loop_step:
  assumes "server_ok d" and "\<forall>ev \<in> set evs. case ev of Some (buf, len) \<Rightarrow> length buf = 608 \<and> len \<le> 604 | None \<Rightarrow> True"
  shows "\<exists>sent d'. dhcpd_task_loop null_value d evs = Some (sent, d') \<and> server_ok d' \<and> (\<forall>r \<in> set sent. length r \<le> 305)"
  using assms
proof (induction evs arbitrary: d)
  case Nil
  then show ?case by simp
next
  case (Cons ev evs)
  show ?case
  proof (cases "dc_flag d \<noteq> DHCPD_TASK_IS_RUNNING")
    case True
    then show ?thesis using Cons.prems(1) by (simp add: dhcpd_task_out_def server_ok_def)
  next
    case run: False
    show ?thesis
    proof (cases ev)
      case None
      then show ?thesis using Cons run by simp
    next
      case (Some e)
      obtain buf len where e: "e = (buf, len)" by (cases e)
      have bl: "length buf = 608" "len \<le> 604" using Cons.prems(2) by (simp_all add: Some e)
      obtain reply d1 where h: "dhcpd_handle_msg null_value d buf len = Some (reply, d1)" "msg_step d buf d1"
        and r: "\<forall>r. reply = Some r \<longrightarrow> length r \<le> 305"
        using handle_msg_step [OF Cons.prems(1) bl] by blast
      have "server_ok d1" using h(2) by (simp add: msg_step_def)
      from Cons.IH [OF this] obtain sent d2 where
        "dhcpd_task_loop null_value d1 evs = Some (sent, d2)" "server_ok d2" "\<forall>r \<in> set sent. length r \<le> 305"
        using Cons.prems(2) by auto
      then show ?thesis using run h(1) r by (auto simp: Some e split: option.split)
    qed
  qed
qed

section \<open>Starting\<close>

lemma pool_init_loop_eq:
  "i + k \<le> length pool \<Longrightarrow> length (pool_init_loop c pool i k) = length pool
     \<and> (\<forall>j < length pool. ip_mac (pool_init_loop c pool i k ! j) = ip_mac (pool ! j)
          \<and> ip_ip (pool_init_loop c pool i k ! j) = (if i \<le> j \<and> j < i + k
              then [sc_server c ! 0, sc_server c ! 1, sc_server c ! 2, sc_ip_start c ! 3 + of_nat j] else ip_ip (pool ! j)))"
proof (induction k arbitrary: i pool)
  case (Suc k)
  let ?p = "pool[i := (pool ! i)\<lparr>ip_allocted := False,
        ip_ip := [sc_server c ! 0, sc_server c ! 1, sc_server c ! 2, sc_ip_start c ! 3 + of_nat i]\<rparr>]"
  have "i + 1 + k \<le> length ?p" using Suc.prems by simp
  note IH = Suc.IH [OF this]
  have m: "ip_mac (?p ! j) = ip_mac (pool ! j)" for j
    using Suc.prems by (cases "j = i") simp_all
  have ip: "ip_ip (?p ! j) = (if j = i then [sc_server c ! 0, sc_server c ! 1, sc_server c ! 2,
      sc_ip_start c ! 3 + of_nat i] else ip_ip (pool ! j))" for j
    using Suc.prems by (cases "j = i") simp_all
  show ?case using IH unfolding m ip by auto
qed auto

lemma start_ok:
  assumes "config_ok (dc_config d)" and "length (dc_pool d) = DHCPD_IP_POOL_SIZE"
    and "\<forall>i < pool_num (sc_client_max (dc_config d)). \<forall>j < pool_num (sc_client_max (dc_config d)). i \<noteq> j \<longrightarrow>
           ip_mac (dc_pool d ! i) = ip_mac (dc_pool d ! j) \<longrightarrow> is_mac_all_zero (ip_mac (dc_pool d ! i))"
    and "dhcpd_start created d = (DHCPD_ERR_NONE, d')"
  shows "server_ok d' \<and> dc_flag d' = DHCPD_TASK_IS_CREATED \<and> dc_config d' = dc_config d"
proof -
  let ?n = "pool_num (sc_client_max (dc_config d))"
  let ?pool = "pool_init_loop (dc_config d) (dc_pool d) 0 ?n"
  have d': "dc_config d' = dc_config d" "dc_flag d' = DHCPD_TASK_IS_CREATED" "dc_pool d' = ?pool"
    using assms(4) by (auto simp: dhcpd_start_def Let_def pool_num_def split: if_splits)
  have n: "?n \<le> length (dc_pool d)" using assms(2) by (simp add: pool_num_def)
  note I = pool_init_loop_eq [of 0 ?n "dc_pool d" "dc_config d"]
  have ne: "(x + of_nat i :: byte) \<noteq> x + of_nat j" if "i < 4" "j < 4" "i \<noteq> j" for x i j
  proof
    assume "(x + of_nat i :: byte) = x + of_nat j"
    then have "unat (of_nat i :: byte) = unat (of_nat j :: byte)" by simp
    then show False using that by (simp add: unat_of_nat_byte)
  qed
  have lt: "i < ?n \<Longrightarrow> i < 4" for i using pool_num_le [of "sc_client_max (dc_config d)"] by linarith
  show ?thesis
    using I n assms(1-3) lt ne by (simp add: server_ok_def pool_ok_def d')
qed

section \<open>Properties\<close>

text \<open>A server with the SDK's default configuration, as it is when its task runs.\<close>

definition sample_config :: server_config where
  "sample_config = \<lparr>sc_server = [192, 168, 4, 1], sc_port = 67, sc_lease = 2880, sc_renew = 2880,
     sc_ip_start = [192, 168, 4, 100], sc_ip_end = [192, 168, 4, 150], sc_client_max = 3\<rparr>"

definition sample_server :: dhcpd_ctrl where
  "sample_server = \<lparr>dc_flag = DHCPD_TASK_IS_RUNNING, dc_config = sample_config,
     dc_pool = map (\<lambda>i. \<lparr>ip_allocted = False, ip_mac = [0, 0, 0, 0, 0, 0], ip_ip = [192, 168, 4, i]\<rparr>) [100, 101, 102, 0],
     dc_socket = True\<rparr>"

lemma all_less_3: "(\<forall>i < (3 :: nat). P i) \<longleftrightarrow> P 0 \<and> P 1 \<and> P 2"
  by (auto simp: less_Suc_eq numeral_3_eq_3 numeral_2_eq_2)

lemma sample_server_ok: "server_ok sample_server"
proof -
  have "pool_num 3 = 3" by (simp add: pool_num_def DHCPD_IP_POOL_SIZE_def)
  then show ?thesis
    by (simp add: server_ok_def pool_ok_def config_ok_def sample_server_def sample_config_def all_less_3
        DHCPD_IP_POOL_SIZE_def is_mac_all_zero_def)
qed

text \<open>
  C9: the task serves any sequence of datagrams of at most 604 bytes, whatever their contents,
  without leaving its buffers and without a null pointer, replies with at most 305 bytes, and
  keeps the pool consistent: no address in two items, no client in two items.
\<close>

theorem dhcpd_task_safe:
  assumes "server_ok d"
    and "\<forall>ev \<in> set evs. case ev of Some (buf, len) \<Rightarrow> length buf = 608 \<and> len \<le> 604 | None \<Rightarrow> True"
  shows "\<exists>sent d'. dhcpd_task_loop null_value d evs = Some (sent, d') \<and> server_ok d' \<and> (\<forall>r \<in> set sent. length r \<le> 305)"
  using assms by (rule task_loop_step)

lemma dhcpd_task_safe_witness:
  "\<exists>sent d'. dhcpd_task_loop False sample_server [Some (replicate 608 1, 300), None, Some (replicate 608 255, 604)]
     = Some (sent, d') \<and> server_ok d' \<and> (\<forall>r \<in> set sent. length r \<le> 305)"
  by (rule dhcpd_task_safe [OF sample_server_ok]) simp

text \<open>
  C10: a message of one client never takes the address that another client has been granted: the
  pool items that are allocated to a different hardware address stay as they are.
\<close>

theorem dhcp_lease_kept:
  assumes "server_ok d" and "length buf = 608" and "len \<le> 604"
    and "dhcpd_handle_msg null_value d buf len = Some (reply, d')"
    and "j < 4" and "ip_allocted (dc_pool d ! j)" and "ip_mac (dc_pool d ! j) \<noteq> take 6 (pkt_chaddr buf)"
  shows "dc_pool d' ! j = dc_pool d ! j"
  using handle_msg_step [OF assms(1-3), of null_value] assms(4-7) server_ok_sel(3) [OF assms(1)]
  by (auto simp: msg_step_def others_kept_def DHCPD_IP_POOL_SIZE_def)

definition sample_leased :: dhcpd_ctrl where
  "sample_leased = sample_server\<lparr>dc_pool := (dc_pool sample_server)
     [1 := (dc_pool sample_server ! 1)\<lparr>ip_allocted := True, ip_mac := [2, 2, 2, 2, 2, 2]\<rparr>]\<rparr>"

lemma sample_leased_ok: "server_ok sample_leased"
proof -
  have "pool_num 3 = 3" by (simp add: pool_num_def DHCPD_IP_POOL_SIZE_def)
  then show ?thesis
    by (simp add: server_ok_def pool_ok_def config_ok_def sample_leased_def sample_server_def sample_config_def
        all_less_3 DHCPD_IP_POOL_SIZE_def is_mac_all_zero_def)
qed

lemma dhcp_lease_kept_witness:
  "\<exists>reply d'. dhcpd_handle_msg False sample_leased (replicate 608 1) 300 = Some (reply, d')
     \<and> dc_pool d' ! 1 = dc_pool sample_leased ! 1"
proof -
  obtain reply d' where h: "dhcpd_handle_msg False sample_leased (replicate 608 1) 300 = Some (reply, d')"
    using handle_msg_step [OF sample_leased_ok, of "replicate 608 1" 300 False] by auto
  have "dc_pool d' ! 1 = dc_pool sample_leased ! 1"
    by (rule dhcp_lease_kept [OF sample_leased_ok _ _ h])
      (simp_all add: sample_leased_def sample_server_def pkt_chaddr_def bslice_def numeral_eq_Suc)
  with h show ?thesis by blast
qed

text \<open>
  C14: a client that asks for the address it was offered gets it: after a DISCOVER that is
  answered, a REQUEST of the same client that names the offered address is answered with an
  ACK for this address, and the pool item of the client is allocated.
\<close>

theorem dhcp_offer_then_ack:
  assumes "server_ok d" and "240 \<le> length request1" and "240 \<le> length request2"
    and "\<not> is_mac_all_zero (take 6 (pkt_chaddr request1))"
    and "do_discover d request1 DHCP_MAX_MTU = (True, offer, d1)"
    and "take 6 (pkt_chaddr request2) = take 6 (pkt_chaddr request1)"
    and "request_confirm_ip null_value request2 len = Some (Some (pkt_yiaddr offer))"
  shows "\<exists>ack d2 i. do_request null_value d1 request2 len DHCP_MAX_MTU = Some (True, ack, d2)
     \<and> is_reply ack request2 (pkt_yiaddr offer) (dc_config d) DHCP_ACK
     \<and> i < 4 \<and> ip_allocted (dc_pool d2 ! i) \<and> ip_mac (dc_pool d2 ! i) = take 6 (pkt_chaddr request2)
     \<and> ip_ip (dc_pool d2 ! i) = pkt_yiaddr offer"
  using assms(1,2)
proof (cases rule: do_discover_cases)
  case full
  then show ?thesis using assms(5) by simp
next
  case (offer i r)
  let ?mac = "take 6 (pkt_chaddr request2)"
  let ?n = "pool_num (sc_client_max (dc_config d))"
  have d1: "d1 = d\<lparr>dc_pool := (dc_pool d)[i := (dc_pool d ! i)\<lparr>ip_mac := ?mac\<rparr>]\<rparr>" and r: "r = offer"
    using offer(1) assms(5,6) by simp_all
  have i: "i < length (dc_pool d)" "i < 4" "i < pool_num (sc_client_max (dc_config d1))"
    using offer(3) server_ok_sel(3) [OF assms(1)] pool_num_le [of "sc_client_max (dc_config d)"]
    by (simp_all add: DHCPD_IP_POOL_SIZE_def d1)
  have y: "pkt_yiaddr offer = ip_ip (dc_pool d ! i)"
    using is_reply_yiaddr [OF offer(2) assms(2)] server_ok_sel(4) [OF assms(1) offer(3)] by (simp add: r)
  have ok1: "server_ok d1" using discover_step [OF assms(1,2)] assms(5) by (auto simp: msg_step_def)
  have mine: "ip_mac (dc_pool d1 ! i) = ?mac" "ip_ip (dc_pool d1 ! i) = pkt_yiaddr offer" using i by (simp_all add: d1 y)
  from ok1 assms(3,7) show ?thesis
  proof (cases rule: do_request_cases)
    case full
    then show ?thesis using mine(1) i(3) by blast
  next
    case (ack j r2)
    have "j < 4" using ack(3) pool_num_le [of "sc_client_max (dc_config d1)"] by linarith
    moreover from this have "j < length (dc_pool d1)" using server_ok_sel(3) [OF ok1] by (simp add: DHCPD_IP_POOL_SIZE_def)
    ultimately show ?thesis using ack(1,2,4) by (auto simp: d1)
  next
    case (nak j r2 pool)
    then have "ip_mac (dc_pool d1 ! j) = ?mac" using mine(1) i(3) by blast
    moreover have "j \<noteq> i" using nak(4) mine(2) by blast
    moreover have "pool_ok (sc_client_max (dc_config d1)) (dc_pool d1)" by (rule server_ok_sel(2) [OF ok1])
    ultimately have "is_mac_all_zero ?mac" 
      using pool_ok_mac [of "sc_client_max (dc_config d1)" "dc_pool d1" j i] nak(3) i(3) mine(1) by simp
    then show ?thesis using assms(4,6) by simp
  qed
qed

definition sample_packet :: "byte list \<Rightarrow> byte list" where
  "sample_packet opts = [BOOT_REQUEST, 1, 6, 0, 9, 9, 9, 9, 0, 0, 0, 0] @ replicate 16 0 @ [2, 4, 6, 8, 10, 12]
     @ replicate 10 0 @ replicate 192 0 @ [0x63, 0x82, 0x53, 0x63] @ opts"

lemma sample_packet_fields:
  "240 \<le> length (sample_packet opts)" "take 6 (pkt_chaddr (sample_packet opts)) = [2, 4, 6, 8, 10, 12]"
  "pkt_ciaddr (sample_packet opts) = [0, 0, 0, 0]"
  by (simp_all add: sample_packet_def pkt_chaddr_def pkt_ciaddr_def bslice_def numeral_eq_Suc)

lemma sample_offer:
  "\<exists>r d1. do_discover sample_server (sample_packet opts) DHCP_MAX_MTU = (True, r, d1)
     \<and> pkt_yiaddr r = [192, 168, 4, 100]"
proof -
  let ?rq = "sample_packet opts"
  have u: "get_next_usable_ip_item 3 (dc_pool sample_server) [2, 4, 6, 8, 10, 12] = Some 0"
    by (simp add: get_next_usable_ip_item_def DHCPD_IP_POOL_SIZE_def sample_server_def numeral_eq_Suc Let_def
        is_mac_all_zero_def)
  have a: "dhcpd_ip_allocate 3 (dc_pool sample_server) [2, 4, 6, 8, 10, 12] False
      = (DHCPD_ERR_NONE, Some [192, 168, 4, 100],
         (dc_pool sample_server)[0 := (dc_pool sample_server ! 0)\<lparr>ip_mac := [2, 4, 6, 8, 10, 12]\<rparr>])"
    by (simp add: dhcpd_ip_allocate_def u Let_def) (simp add: sample_server_def)
  have m: "sc_client_max (dc_config sample_server) = 3" by (simp add: sample_server_def sample_config_def)
  from sample_server_ok sample_packet_fields(1) show ?thesis
  proof (cases rule: do_discover_cases [where request = ?rq])
    case full
    then have "ip_allocted (dc_pool sample_server ! 0)" by (simp add: m pool_num_def DHCPD_IP_POOL_SIZE_def)
    then show ?thesis by (simp add: sample_server_def)
  next
    case (offer i r)
    have "\<exists>bs. r = bootp_reply ?rq [192, 168, 4, 100] @ bs"
    proof -
      have "r = fst (snd (do_discover sample_server ?rq DHCP_MAX_MTU))" using offer(1) by simp
      also have "\<dots> = reply_end (bootp_reply ?rq [192, 168, 4, 100] @ [DHO_DHCP_MESSAGE_TYPE, 1, DHCP_OFFER]
          @ [DHO_DHCP_SERVER_IDENTIFIER, 4] @ sc_server (dc_config sample_server)
          @ lease_options (dc_config sample_server) @ host_name_option)"
        by (simp add: do_discover_def m sample_packet_fields a Let_def)
      finally show ?thesis by (simp add: reply_end_def Let_def)
    qed
    then have "pkt_yiaddr r = [192, 168, 4, 100]"
      using bootp_yiaddr [OF sample_packet_fields(1), of "[192, 168, 4, 100]"] by auto
    with offer(1) show ?thesis by blast
  qed
qed

lemma sample_confirm:
  "request_confirm_ip False (sample_packet [50, 4, 192, 168, 4, 100, 255]) 247 = Some (Some [192, 168, 4, 100])"
proof -
  let ?p = "sample_packet [50, 4, 192, 168, 4, 100, 255]"
  have len: "length ?p = 247" by (simp add: sample_packet_def)
  have at: "drop 240 ?p = [50, 4, 192, 168, 4, 100, 255]" by (simp add: sample_packet_def)
  have n: "?p ! (240 + k) = [50, 4, 192, 168, 4, 100, 255] ! k" if "k < 7" for k
    using that len arg_cong [OF at, of "\<lambda>xs. xs ! k"] by simp
  have c: "pkt_cookie ?p = dhcpd_htonl_copy DHCP_MAGIC_COOKIE_U32"
    by (simp add: cookie_bytes pkt_cookie_def sample_packet_def bslice_def)
  have "parse_option_loop False ?p (Some \<lparr>opt_code = DHO_DHCP_REQUESTED_ADDRESS, opt_len = 0, opt_value = None\<rparr>)
      0 240 247 FIELD_FLAG_OPTION 0
    = Some (True, Some \<lparr>opt_code = DHO_DHCP_REQUESTED_ADDRESS, opt_len = 4, opt_value = Some 242\<rparr>)"
    using n [of 0] n [of 1] len by (subst parse_option_loop.simps) (simp add: DHO_DHCP_REQUESTED_ADDRESS_def Let_def)
  then show ?thesis
    using n [of 2] n [of 3] n [of 4] n [of 5] len c
    by (simp add: request_confirm_ip_def dhcpd_parse_option_def DHCP_OPTS_POS_def)
qed

lemma dhcp_offer_then_ack_witness:
  "\<exists>d1 ack d2 i. do_request False d1 (sample_packet [50, 4, 192, 168, 4, 100, 255]) 247 DHCP_MAX_MTU = Some (True, ack, d2)
     \<and> is_reply ack (sample_packet [50, 4, 192, 168, 4, 100, 255]) [192, 168, 4, 100] sample_config DHCP_ACK
     \<and> i < (4 :: nat) \<and> ip_allocted (dc_pool d2 ! i)"
proof -
  let ?rq1 = "sample_packet [53, 1, 1, 255]" and ?rq2 = "sample_packet [50, 4, 192, 168, 4, 100, 255]"
  obtain r d1 where o: "do_discover sample_server ?rq1 DHCP_MAX_MTU = (True, r, d1)" "pkt_yiaddr r = [192, 168, 4, 100]"
    using sample_offer by blast
  have "\<not> is_mac_all_zero (take 6 (pkt_chaddr ?rq1))" by (simp add: sample_packet_fields is_mac_all_zero_def)
  from dhcp_offer_then_ack [OF sample_server_ok sample_packet_fields(1) sample_packet_fields(1) this o(1), of _ False 247]
  obtain ack d2 i where "do_request False d1 ?rq2 247 DHCP_MAX_MTU = Some (True, ack, d2)"
    "is_reply ack ?rq2 [192, 168, 4, 100] (dc_config sample_server) DHCP_ACK" "i < (4 :: nat)" "ip_allocted (dc_pool d2 ! i)"
    unfolding o(2) sample_packet_fields(2) using sample_confirm by blast
  then show ?thesis by (auto simp: sample_server_def)
qed

text \<open>
  C15: an OFFER says what the server means: the option parser finds in it, for every option of
  the configuration (message type, server, lease, renewal and rebinding time, router, netmask,
  name server, host name), exactly the bytes the configuration prescribes, and it offers an
  address of the pool.
\<close>

theorem dhcp_offer_options:
  assumes "server_ok d" and "240 \<le> length request" and "do_discover d request DHCP_MAX_MTU = (True, r, d')"
    and "map_of (reply_opts (dc_config d) DHCP_OFFER) code = Some v" and "plain_code code"
  shows "(\<exists>i < 4. pkt_yiaddr r = ip_ip (dc_pool d ! i))
     \<and> (\<exists>pos. dhcpd_parse_option null_value r (length r) (Some \<lparr>opt_code = code, opt_len = 0, opt_value = None\<rparr>)
        = Some (True, Some \<lparr>opt_code = code, opt_len = length v, opt_value = Some pos\<rparr>) \<and> bslice pos (length v) r = v)"
  using assms(1,2)
proof (cases rule: do_discover_cases)
  case full
  then show ?thesis using assms(3) by simp
next
  case (offer i r')
  have r: "r' = r" using offer(1) assms(3) by simp
  have y: "length (ip_ip (dc_pool d ! i)) = 4" by (rule server_ok_sel(4) [OF assms(1) offer(3)])
  have "pkt_yiaddr r = ip_ip (dc_pool d ! i)" using is_reply_yiaddr [OF offer(2) assms(2) y] by (simp add: r)
  moreover have "i < 4" using offer(3) pool_num_le [of "sc_client_max (dc_config d)"] by linarith
  ultimately show ?thesis
    using is_reply_option [OF offer(2) assms(2) y server_ok_sel(1) [OF assms(1)] assms(4,5)] by (auto simp: r)
qed

lemma dhcp_offer_options_witness:
  "\<exists>r d' pos. do_discover sample_server (sample_packet [53, 1, 1, 255]) DHCP_MAX_MTU = (True, r, d')
     \<and> dhcpd_parse_option False r (length r) (Some \<lparr>opt_code = DHO_DHCP_MESSAGE_TYPE, opt_len = 0, opt_value = None\<rparr>)
        = Some (True, Some \<lparr>opt_code = DHO_DHCP_MESSAGE_TYPE, opt_len = 1, opt_value = Some pos\<rparr>)
     \<and> bslice pos 1 r = [DHCP_OFFER]"
proof -
  obtain r d1 where o: "do_discover sample_server (sample_packet [53, 1, 1, 255]) DHCP_MAX_MTU = (True, r, d1)"
    using sample_offer by blast
  have "map_of (reply_opts (dc_config sample_server) DHCP_OFFER) DHO_DHCP_MESSAGE_TYPE = Some [DHCP_OFFER]"
    by (simp add: reply_opts_def)
  moreover have "plain_code DHO_DHCP_MESSAGE_TYPE"
    by (simp add: plain_code_def DHO_DHCP_MESSAGE_TYPE_def DHO_PAD_def DHO_END_def DHO_DHCP_OPTION_OVERLOAD_def)
  ultimately show ?thesis
    using dhcp_offer_options [OF sample_server_ok sample_packet_fields(1) o, of DHO_DHCP_MESSAGE_TYPE "[DHCP_OFFER]" False] o
    by auto
qed

text \<open>
  C19: a start that is refused because of its configuration blocks the server for good: it leaves
  the state "created" behind, so every later start is refused with \<open>DHCPD_ERR_STATE\<close>, whatever
  configuration is set in between, and a stop does not help.
\<close>

theorem dhcpd_start_stuck:
  assumes "dhcpd_start created d = (DHCPD_ERR_INVALID_PARAM, d')"
  shows "dhcpd_start created' (dhcpd_stop_signal (snd (dhcpd_curr_config_set d' c)))
    = (DHCPD_ERR_STATE, dhcpd_stop_signal (snd (dhcpd_curr_config_set d' c)))"
proof -
  have "dc_flag d' = DHCPD_TASK_IS_CREATED"
    using assms by (auto simp: dhcpd_start_def Let_def split: if_splits)
  then show ?thesis by (simp add: dhcpd_start_def dhcpd_curr_config_set_def dhcpd_stop_signal_def)
qed

lemma dhcpd_start_stuck_witness:
  "\<exists>d'. dhcpd_start True (sample_server\<lparr>dc_flag := DHCPD_TASK_NOT_CREATED, dc_config := sample_config\<lparr>sc_port := 0\<rparr>\<rparr>)
       = (DHCPD_ERR_INVALID_PARAM, d')
     \<and> dhcpd_start True (dhcpd_stop_signal (snd (dhcpd_curr_config_set d' sample_config)))
       = (DHCPD_ERR_STATE, dhcpd_stop_signal (snd (dhcpd_curr_config_set d' sample_config)))"
proof -
  let ?d = "sample_server\<lparr>dc_flag := DHCPD_TASK_NOT_CREATED, dc_config := sample_config\<lparr>sc_port := 0\<rparr>\<rparr>"
  have "dhcpd_start True ?d = (DHCPD_ERR_INVALID_PARAM, ?d\<lparr>dc_flag := DHCPD_TASK_IS_CREATED\<rparr>)"
    by (simp add: dhcpd_start_def Let_def)
  then show ?thesis using dhcpd_start_stuck by blast
qed

text \<open>
  Releasing the address of a client that is not in the pool writes through a null pointer
  (no result); for a client that is in the pool it frees its item and returns.
\<close>

theorem dhcpd_ip_release_defined:
  assumes "length pool = DHCPD_IP_POOL_SIZE"
  shows "dhcpd_ip_release client_max pool mac = None
    \<longleftrightarrow> (\<forall>j < min 4 client_max. ip_mac (pool ! j) \<noteq> mac)"
  using assms
proof (cases rule: release_cases [where client_max = client_max and mac = mac])
  case absent
  then show ?thesis by (simp add: pool_num_def DHCPD_IP_POOL_SIZE_def)
next
  case (found i)
  then show ?thesis by (auto simp: pool_num_def DHCPD_IP_POOL_SIZE_def)
qed

lemma dhcpd_ip_release_defined_witness:
  "dhcpd_ip_release 3 (dc_pool sample_server) [1, 2, 3, 4, 5, 6] = None"
  using dhcpd_ip_release_defined [of "dc_pool sample_server" 3 "[1, 2, 3, 4, 5, 6]"]
  by (simp add: sample_server_def DHCPD_IP_POOL_SIZE_def all_less_3)

text \<open>
  C18: starting a fresh server with a valid configuration establishes the invariant of the
  serving task: the addresses of the pool follow each other from the start address on.
\<close>

theorem dhcpd_start_establishes:
  assumes "config_ok (dc_config d)" and "length (dc_pool d) = DHCPD_IP_POOL_SIZE"
    and "\<forall>i < 4. is_mac_all_zero (ip_mac (dc_pool d ! i))"
    and "dhcpd_start created d = (DHCPD_ERR_NONE, d')"
  shows "server_ok (dhcpd_task_begin True True d') \<and> dhcpd_is_running (dhcpd_task_begin True True d')"
  using start_ok [OF assms(1,2) _ assms(4)] assms(3) pool_num_le [of "sc_client_max (dc_config d)"]
  by (auto simp: dhcpd_task_begin_def dhcpd_is_running_def server_ok_def Let_def)

lemma dhcpd_start_establishes_witness:
  "\<exists>d'. dhcpd_start True (sample_server\<lparr>dc_flag := DHCPD_TASK_NOT_CREATED\<rparr>) = (DHCPD_ERR_NONE, d')
     \<and> server_ok (dhcpd_task_begin True True d') \<and> dhcpd_is_running (dhcpd_task_begin True True d')"
proof -
  let ?d = "sample_server\<lparr>dc_flag := DHCPD_TASK_NOT_CREATED\<rparr>"
  have "fst (dhcpd_start True ?d) = DHCPD_ERR_NONE"
    by (simp add: dhcpd_start_def Let_def sample_server_def sample_config_def)
  then obtain d' where d': "dhcpd_start True ?d = (DHCPD_ERR_NONE, d')" by (metis prod.collapse)
  have "\<forall>i < 4. is_mac_all_zero (ip_mac (dc_pool ?d ! i))"
  proof (intro allI impI)
    fix i :: nat
    assume "i < 4"
    then consider "i = 0" | "i = 1" | "i = 2" | "i = 3" by linarith
    then show "is_mac_all_zero (ip_mac (dc_pool ?d ! i))"
      by cases (simp_all add: sample_server_def is_mac_all_zero_def)
  qed
  from dhcpd_start_establishes [OF _ _ this d'] d' show ?thesis
    by (simp add: sample_server_def config_ok_def sample_config_def DHCPD_IP_POOL_SIZE_def)
qed

end
