(* ===== verification/Partition.thy ===== *)
theory Partition
  imports Hal_Flash Crc
begin

text \<open>
  The partition table of the flash, \<^verbatim>\<open>components/fs/partition_mgr/flash_partition_mgr.c\<close>: 256
  entries of 16 bytes (type, start, size, CRC-32 of the three) that end with an entry of
  zeros.  \<open>partition_table fl ps\<close> says that the flash holds the table of the list \<open>ps\<close>; the
  lemmas show that a fetch is a lookup in that list.
\<close>

section \<open>Definitions\<close>

definition PARTITION_TAB_BASE :: nat where "PARTITION_TAB_BASE = 1024 * 24"
definition PARTITION_TAB_SIZE :: nat where "PARTITION_TAB_SIZE = 1024 * 4"

definition PARTITION_TYPE_APP :: nat where "PARTITION_TYPE_APP = 0"
definition PARTITION_TYPE_OTA :: nat where "PARTITION_TYPE_OTA = 1"
definition PARTITION_TYPE_KV :: nat where "PARTITION_TYPE_KV = 2"
definition PARTITION_TYPE_NVDS :: nat where "PARTITION_TYPE_NVDS = 3"
definition PARTITION_TYPE_SIMU_EEPROM :: nat where "PARTITION_TYPE_SIMU_EEPROM = 4"
definition PARTITION_TYPE_USER :: nat where "PARTITION_TYPE_USER = 5"

record partition_info =
  pt_type :: nat
  start_addr :: nat
  pt_size :: nat
  pt_crc32 :: nat

definition sizeof_partition_info :: nat where "sizeof_partition_info = 16"

definition partition_info_decode :: "byte list \<Rightarrow> partition_info" where
  "partition_info_decode bs = \<lparr>pt_type = le_val (bslice 0 4 bs), start_addr = le_val (bslice 4 4 bs),
     pt_size = le_val (bslice 8 4 bs), pt_crc32 = le_val (bslice 12 4 bs)\<rparr>"

definition partition_is_end :: "partition_info \<Rightarrow> bool" where
  "partition_is_end p \<longleftrightarrow> pt_type p = 0 \<and> start_addr p = 0 \<and> pt_size p = 0 \<and> pt_crc32 p = 0"

text \<open>The loops read the entry at index \<open>i\<close>; \<open>n\<close> turns are left.\<close>

fun partition_verify_loop :: "nat \<Rightarrow> nat \<Rightarrow> nor \<Rightarrow> bool option" where
  "partition_verify_loop 0 i fl = Some False"
| "partition_verify_loop (Suc n) i fl = do {
     (r, bs) \<leftarrow> hal_flash_read fl (PARTITION_TAB_BASE + i) sizeof_partition_info 0;
     let rd_info = partition_info_decode bs;
     if partition_is_end rd_info then Some True
     else if pt_crc32 rd_info \<noteq> unat (ln_crc32_signle_cal (take (sizeof_partition_info - 4) bs)) then Some False
     else partition_verify_loop n (i + sizeof_partition_info) fl
   }"

definition ln_verify_partition_table :: "nor \<Rightarrow> bool option" where
  "ln_verify_partition_table fl = partition_verify_loop (PARTITION_TAB_SIZE div sizeof_partition_info) 0 fl"

text \<open>The second component is the caller's structure, overwritten by every entry read.\<close>

fun partition_fetch_loop ::
  "nat \<Rightarrow> nat \<Rightarrow> nor \<Rightarrow> nat \<Rightarrow> partition_info \<Rightarrow> (bool \<times> partition_info) option" where
  "partition_fetch_loop 0 i fl type info = Some (False, info)"
| "partition_fetch_loop (Suc n) i fl type info = do {
     (r, bs) \<leftarrow> hal_flash_read fl (PARTITION_TAB_BASE + i) sizeof_partition_info 0;
     let info' = partition_info_decode bs;
     if pt_type info' = type then
       Some (pt_crc32 info' = unat (ln_crc32_signle_cal (take (sizeof_partition_info - 4) bs)), info')
     else if partition_is_end info' then Some (False, info')
     else partition_fetch_loop n (i + sizeof_partition_info) fl type info'
   }"

definition ln_fetch_partition_info :: "nor \<Rightarrow> nat \<Rightarrow> partition_info option \<Rightarrow> (bool \<times> partition_info option) option" where
  "ln_fetch_partition_info fl type info = (case info of None \<Rightarrow> Some (False, None)
     | Some p \<Rightarrow> do {
         (r, p') \<leftarrow> partition_fetch_loop (PARTITION_TAB_SIZE div sizeof_partition_info) 0 fl type p;
         Some (r, Some p') })"

section \<open>Specification\<close>

text \<open>An entry of the table: type, start address and size.\<close>

type_synonym part_entry = "nat \<times> nat \<times> nat"

definition entry_prefix :: "part_entry \<Rightarrow> byte list" where
  "entry_prefix e = (case e of (t, a, n) \<Rightarrow> le_bytes 4 t @ le_bytes 4 a @ le_bytes 4 n)"

definition entry_bytes :: "part_entry \<Rightarrow> byte list" where
  "entry_bytes e = entry_prefix e @ le_bytes 4 (unat (ln_crc32_signle_cal (entry_prefix e)))"

definition entry_ok :: "part_entry \<Rightarrow> bool" where
  "entry_ok e \<longleftrightarrow> (case e of (t, a, n) \<Rightarrow> t < 2 ^ 32 \<and> a < 2 ^ 32 \<and> n < 2 ^ 32)"

definition entry_info :: "part_entry \<Rightarrow> partition_info" where
  "entry_info e = (case e of (t, a, n) \<Rightarrow> \<lparr>pt_type = t, start_addr = a, pt_size = n,
     pt_crc32 = unat (ln_crc32_signle_cal (entry_prefix e))\<rparr>)"

definition partition_end :: partition_info where
  "partition_end = \<lparr>pt_type = 0, start_addr = 0, pt_size = 0, pt_crc32 = 0\<rparr>"

definition entry_at :: "nor \<Rightarrow> nat \<Rightarrow> byte list" where
  "entry_at fl i = nor_read fl (PARTITION_TAB_BASE + 16 * i) 16"

definition partition_table :: "nor \<Rightarrow> part_entry list \<Rightarrow> bool" where
  "partition_table fl ps \<longleftrightarrow> length ps < 256 \<and> (\<forall>e \<in> set ps. entry_ok e)
     \<and> (\<forall>i < length ps. entry_at fl i = entry_bytes (ps ! i)) \<and> entry_at fl (length ps) = replicate 16 0"

definition partition_lookup :: "part_entry list \<Rightarrow> nat \<Rightarrow> part_entry option" where
  "partition_lookup ps type = find (\<lambda>e. fst e = type) ps"

section \<open>Lemmas\<close>

lemma length_entry_prefix [simp]: "length (entry_prefix e) = 12"
  by (cases e) (simp add: entry_prefix_def)

lemma length_entry_bytes [simp]: "length (entry_bytes e) = 16"
  by (simp add: entry_bytes_def)

lemma take_entry_bytes [simp]: "take 12 (entry_bytes e) = entry_prefix e"
  by (simp add: entry_bytes_def)

lemma unat_crc_less: "unat (c :: 32 word) < 2 ^ 32"
  using unsigned_less [of c] by simp

lemma partition_decode_entry [simp]:
  assumes "entry_ok e"
  shows "partition_info_decode (entry_bytes e) = entry_info e"
proof -
  obtain t a n where e: "e = (t, a, n)" by (cases e)
  have "unat (ln_crc32_signle_cal (entry_prefix e)) < 256 ^ 4"
    using unat_crc_less [of "ln_crc32_signle_cal (entry_prefix e)"] by simp
  with assms show ?thesis
    by (simp add: partition_info_decode_def entry_bytes_def entry_prefix_def e entry_info_def entry_ok_def
        bslice_zero le_val_le_bytes bslice_def)
qed

lemma decode_zeros [simp]: "partition_info_decode (replicate 16 0) = partition_end"
proof -
  have "le_val (replicate n 0) = 0" for n by (induction n) simp_all
  then show ?thesis by (simp add: partition_info_decode_def partition_end_def bslice_def)
qed

lemma is_end_end [simp]: "partition_is_end partition_end"
  by (simp add: partition_is_end_def partition_end_def)

lemma end_crc [simp]: "pt_crc32 partition_end = 0" "pt_type partition_end = 0"
  by (simp_all add: partition_end_def)

lemma crc_zeros: "ln_crc32_signle_cal (replicate 12 0) \<noteq> 0"
  unfolding crc32_zeros by simp

lemma le_bytes_0: "le_bytes n 0 = replicate n 0"
  by (induction n) simp_all

lemma le_val_zeros: "le_val (replicate n 0) = 0"
  by (induction n) simp_all

lemma le_val_zero_iff: "le_val xs = 0 \<Longrightarrow> xs = replicate (length xs) 0"
  by (rule le_val_inj) (simp_all add: le_val_zeros)

lemma entry_prefix_zero: "entry_prefix (0, 0, 0) = replicate 12 0"
  unfolding entry_prefix_def prod.case le_bytes_0 by (simp flip: replicate_add)

lemma not_end_entry [simp]: "\<not> partition_is_end (entry_info e)"
proof
  assume a: "partition_is_end (entry_info e)"
  then have "e = (0, 0, 0)" by (cases e) (simp add: partition_is_end_def entry_info_def)
  with a crc_zeros show False
    by (simp add: partition_is_end_def entry_info_def entry_prefix_zero unat_eq_0)
qed

lemma read_entry:
  "i < 256 \<Longrightarrow> hal_flash_read fl (PARTITION_TAB_BASE + 16 * i) sizeof_partition_info 0 = Some (0, entry_at fl i)"
  by (simp add: hal_simps PARTITION_TAB_BASE_def FALSH_SIZE_MAX_def sizeof_partition_info_def entry_at_def)

lemma entry_info_simps [simp]:
  "pt_type (entry_info e) = fst e" "start_addr (entry_info e) = fst (snd e)" "pt_size (entry_info e) = snd (snd e)"
  "pt_crc32 (entry_info e) = unat (ln_crc32_signle_cal (entry_prefix e))"
  by (cases e, simp add: entry_info_def)+

lemma fetch_loop_table:
  assumes t: "partition_table fl ps" and i: "i \<le> length ps" and n: "i + n = 256"
  shows "partition_fetch_loop n (16 * i) fl type info =
    Some (case partition_lookup (drop i ps) type of None \<Rightarrow> (False, partition_end)
          | Some e \<Rightarrow> (True, entry_info e))"
  using i n
proof (induction n arbitrary: i info)
  case 0
  with t show ?case by (simp add: partition_table_def)
next
  case (Suc n)
  from Suc.prems have i256: "i < 256" by simp
  show ?case
  proof (cases "i = length ps")
    case True
    with t have "entry_at fl i = replicate 16 0" by (simp add: partition_table_def)
    with True read_entry [OF i256, of fl] crc_zeros show ?thesis
      by (simp add: partition_lookup_def sizeof_partition_info_def partition_end_def [symmetric] unat_eq_0
          end_crc eq_commute [of "0::nat"])
  next
    case False
    with Suc.prems have l: "i < length ps" by simp
    with t have e: "entry_at fl i = entry_bytes (ps ! i)" "entry_ok (ps ! i)"
      by (simp_all add: partition_table_def)
    have d: "drop i ps = ps ! i # drop (Suc i) ps" using l by (simp add: Cons_nth_drop_Suc)
    have "16 * i + sizeof_partition_info = 16 * Suc i" by (simp add: sizeof_partition_info_def)
    with Suc.IH [of "Suc i"] Suc.prems l read_entry [OF i256, of fl] show ?thesis
      by (simp add: e d partition_lookup_def sizeof_partition_info_def del: mult_Suc_right)
  qed
qed

lemma fetch_table:
  "partition_table fl ps \<Longrightarrow> ln_fetch_partition_info fl type (Some info) =
     Some (case partition_lookup ps type of None \<Rightarrow> (False, Some partition_end)
           | Some e \<Rightarrow> (True, Some (entry_info e)))"
  using fetch_loop_table [of fl ps 0 256 type info]
  by (simp add: ln_fetch_partition_info_def PARTITION_TAB_SIZE_def sizeof_partition_info_def split: option.splits)

text \<open>The verification accepts a table exactly when every entry before the end is sound.\<close>

definition entry_sound :: "byte list \<Rightarrow> bool" where
  "entry_sound bs \<longleftrightarrow> pt_crc32 (partition_info_decode bs) = unat (ln_crc32_signle_cal (take 12 bs))"

lemma verify_loop_eq:
  "i + n = 256 \<Longrightarrow> partition_verify_loop n (16 * i) fl =
    Some (\<exists>k. i \<le> k \<and> k < 256 \<and> partition_is_end (partition_info_decode (entry_at fl k))
       \<and> (\<forall>j. i \<le> j \<and> j < k \<longrightarrow> entry_sound (entry_at fl j)))"
  (is "_ \<Longrightarrow> _ = Some (?P i)")
proof (induction n arbitrary: i)
  case 0
  then show ?case by simp
next
  case (Suc n)
  from Suc.prems have i256: "i < 256" by simp
  have end_unsound: "\<not> entry_sound (entry_at fl j)" if "partition_is_end (partition_info_decode (entry_at fl j))" for j
  proof
    let ?bs = "entry_at fl j"
    assume s: "entry_sound ?bs"
    have l: "length ?bs = 16" by (simp add: entry_at_def)
    have f: "bslice a 4 ?bs = replicate 4 0" if "le_val (bslice a 4 ?bs) = 0" "a + 4 \<le> 16" for a
      using le_val_zero_iff [OF that(1)] that(2) l by simp
    have split: "take 12 xs = bslice 0 4 xs @ bslice 4 4 xs @ bslice 8 4 xs" for xs :: "byte list"
      using take_add [of 4 8 xs] take_add [of 4 4 "drop 4 xs"] by (simp add: bslice_def)
    have "take 12 ?bs = replicate 4 0 @ replicate 4 0 @ replicate 4 0"
      using that f [of 0] f [of 4] f [of 8] split [of ?bs] by (simp add: partition_is_end_def partition_info_decode_def)
    then have "take 12 ?bs = replicate 12 0" by (simp flip: replicate_add)
    with s that crc_zeros show False
      by (simp add: entry_sound_def partition_is_end_def unat_eq_0 eq_commute [of 0])
  qed
  have step: "partition_verify_loop (Suc n) (16 * i) fl =
      (if partition_is_end (partition_info_decode (entry_at fl i)) then Some True
       else if \<not> entry_sound (entry_at fl i) then Some False
       else partition_verify_loop n (16 * Suc i) fl)"
    using read_entry [OF i256, of fl] by (simp add: entry_sound_def sizeof_partition_info_def add.commute)
  have IH: "partition_verify_loop n (16 * Suc i) fl = Some (?P (Suc i))"
    using Suc.IH [of "Suc i"] Suc.prems by simp
  show ?case
  proof (cases "partition_is_end (partition_info_decode (entry_at fl i))")
    case True
    then have "?P i" using i256 by (intro exI [of _ i]) auto
    with True step show ?thesis by simp
  next
    case False
    show ?thesis
    proof (cases "entry_sound (entry_at fl i)")
      case True
      have "?P i = ?P (Suc i)"
      proof
        assume "?P i"
        then obtain k where "i \<le> k" "k < 256" "partition_is_end (partition_info_decode (entry_at fl k))"
          "\<forall>j. i \<le> j \<and> j < k \<longrightarrow> entry_sound (entry_at fl j)" by blast
        moreover with False have "i \<noteq> k" by blast
        ultimately show "?P (Suc i)" by (intro exI [of _ k]) auto
      next
        assume "?P (Suc i)"
        then obtain k where "Suc i \<le> k" "k < 256" "partition_is_end (partition_info_decode (entry_at fl k))"
          "\<forall>j. Suc i \<le> j \<and> j < k \<longrightarrow> entry_sound (entry_at fl j)" by blast
        with True show "?P i" by (intro exI [of _ k]) (metis Suc_leD Suc_leI le_neq_implies_less)
      qed
      with step False True IH show ?thesis by simp
    next
      case unsound: False
      have "\<not> ?P i" using unsound False by (metis le_neq_implies_less order_refl)
      with step False unsound show ?thesis by simp
    qed
  qed
qed

section \<open>Properties\<close>

text \<open>
  C27: fetching a partition is a lookup in the table: the first entry of the type with its
  start and size, or failure when no entry has it.  The type of the application is 0, the
  type field of the end of the table: there the CRC decides.
\<close>

theorem partition_fetch_correct:
  assumes "partition_table fl ps"
  shows "ln_fetch_partition_info fl type (Some info) =
     Some (case partition_lookup ps type of None \<Rightarrow> (False, Some partition_end)
           | Some e \<Rightarrow> (True, Some (entry_info e)))"
  using assms by (rule fetch_table)

text \<open>An example: two entries and the end.\<close>

definition table_example :: nor where
  "table_example = nor_write (\<lambda>_. - 1) PARTITION_TAB_BASE
     (entry_bytes (0, 28672, 1228800) @ entry_bytes (3, 1953792, 12288) @ replicate 16 0)"

lemma table_example_ok: "partition_table table_example [(0, 28672, 1228800), (3, 1953792, 12288)]"
proof -
  let ?bs = "entry_bytes (0, 28672, 1228800) @ entry_bytes (3, 1953792, 12288) @ replicate 16 (0 :: byte)"
  have "nor_read table_example PARTITION_TAB_BASE (length ?bs) = ?bs"
    unfolding table_example_def by (rule nor_read_write_blank) (simp add: blank_def)
  then have rd: "nor_read table_example PARTITION_TAB_BASE 48 = ?bs" by simp
  have e: "entry_at table_example i = bslice (16 * i) 16 ?bs" if "16 * i + 16 \<le> 48" for i
    unfolding entry_at_def using that rd by (metis bslice_nor_read)
  have "entry_at table_example 0 = entry_bytes (0, 28672, 1228800)"
    and "entry_at table_example 1 = entry_bytes (3, 1953792, 12288)"
    and "entry_at table_example 2 = replicate 16 0"
    using e [of 0] e [of 1] e [of 2] by (simp_all add: bslice_def)
  moreover have "entry_ok (0, 28672, 1228800)" "entry_ok (3, 1953792, 12288)"
    by (simp_all add: entry_ok_def)
  ultimately show ?thesis
    by (simp add: partition_table_def less_Suc_eq) (simp add: numeral_2_eq_2)
qed

lemma partition_fetch_correct_witness:
  "ln_fetch_partition_info table_example 3 (Some partition_end) =
     Some (True, Some (entry_info (3, 1953792, 12288)))
   \<and> ln_fetch_partition_info table_example 2 (Some partition_end) = Some (False, Some partition_end)"
  using partition_fetch_correct [OF table_example_ok, of 3 partition_end]
    partition_fetch_correct [OF table_example_ok, of 2 partition_end]
  by (simp add: partition_lookup_def)

text \<open>
  C28: the verification of the table returns, and it accepts exactly the tables in which an
  end entry follows a run of entries with the right CRC, within the 4 KB of the table.
\<close>

theorem partition_verify_exact:
  "ln_verify_partition_table fl = Some (\<exists>k < 256. partition_is_end (partition_info_decode (entry_at fl k))
     \<and> (\<forall>j < k. entry_sound (entry_at fl j)))"
proof -
  have "ln_verify_partition_table fl = Some (\<exists>k. 0 \<le> k \<and> k < 256
      \<and> partition_is_end (partition_info_decode (entry_at fl k))
      \<and> (\<forall>j. 0 \<le> j \<and> j < k \<longrightarrow> entry_sound (entry_at fl j)))"
    unfolding ln_verify_partition_table_def
    using verify_loop_eq [of 0 256 fl] by (simp add: PARTITION_TAB_SIZE_def sizeof_partition_info_def)
  then show ?thesis by simp
qed

lemma partition_verify_exact_witness: "ln_verify_partition_table table_example = Some True"
proof -
  have t: "entry_at table_example 0 = entry_bytes (0, 28672, 1228800)"
      "entry_at table_example 1 = entry_bytes (3, 1953792, 12288)"
      "entry_at table_example 2 = replicate 16 0"
      "entry_ok (0, 28672, 1228800)" "entry_ok (3, 1953792, 12288)"
    using table_example_ok by (auto simp: partition_table_def numeral_2_eq_2)
  then have "entry_sound (entry_at table_example 0)" "entry_sound (entry_at table_example 1)"
    by (simp_all add: entry_sound_def)
  then have "\<forall>j < 2. entry_sound (entry_at table_example j)"
    by (auto simp: less_2_cases_iff)
  moreover have "partition_is_end (partition_info_decode (entry_at table_example 2))"
    using t by simp
  ultimately show ?thesis using partition_verify_exact [of table_example] by force
qed

end
