(* ===== verification/Power_Flash.thy ===== *)
theory Power_Flash
  imports Hal_Flash
begin

text \<open>
  The flash of a device whose supply may fail.  \<open>pd_power\<close> counts the steps that the device
  still completes (\<^const>\<open>None\<close>: the supply never fails): a program spends one step per byte,
  in the order of the addresses, and an erase spends two, between which the erased range
  holds arbitrary data, \<open>pd_torn\<close>.  Without power nothing changes any more, so a run of the
  code with \<open>Some k\<close> leaves the cells as they are when the supply fails after \<open>k\<close> steps.

  \<open>power_program\<close> and \<open>power_erase\<close> call the driver of \<open>Hal_Flash\<close>.  The lemmas reduce both
  to lists of single steps (\<open>mop\<close>), so that a whole routine is one list and the state after
  a power failure is the effect of a prefix of it.
\<close>

section \<open>Definitions\<close>

record pdev =
  pd_cells :: nor
  pd_power :: "nat option"
  pd_torn :: nor

fun powered :: "nat option \<Rightarrow> 'a list \<Rightarrow> 'a list" where
  "powered None xs = xs"
| "powered (Some k) xs = take k xs"

definition spend :: "nat option \<Rightarrow> nat \<Rightarrow> nat option" where
  "spend p n = map_option (\<lambda>k. k - n) p"

definition nor_tear :: "nor \<Rightarrow> nor \<Rightarrow> nat \<Rightarrow> nat \<Rightarrow> nor" where
  "nor_tear torn fl a n = (\<lambda>x. if a \<le> x \<and> x < a + n then torn x else fl x)"

definition power_program :: "pdev \<Rightarrow> nat \<Rightarrow> byte list \<Rightarrow> pdev option" where
  "power_program d a bs = do {
     (r, fl) \<leftarrow> hal_flash_program (pd_cells d) a (powered (pd_power d) bs);
     Some (d\<lparr>pd_cells := fl, pd_power := spend (pd_power d) (length bs)\<rparr>)
   }"

definition power_erase :: "pdev \<Rightarrow> nat \<Rightarrow> nat \<Rightarrow> pdev option" where
  "power_erase d a n = do {
     fl \<leftarrow> hal_flash_erase (pd_cells d) a n;
     Some (if pd_power d = Some 0 then d
           else if pd_power d = Some 1
           then d\<lparr>pd_cells := nor_tear (pd_torn d) (pd_cells d) a n, pd_power := Some 0\<rparr>
           else d\<lparr>pd_cells := fl, pd_power := spend (pd_power d) 2\<rparr>)
   }"

text \<open>The steps of the device.\<close>

datatype mop = MProg nat byte | MTear nat nat | MErase nat nat

fun mop_step :: "nor \<Rightarrow> mop \<Rightarrow> nor \<Rightarrow> nor" where
  "mop_step torn (MProg a b) fl = fl(a := fl a AND b)"
| "mop_step torn (MTear a n) fl = nor_tear torn fl a n"
| "mop_step torn (MErase a n) fl = nor_erase fl a n"

fun mop_within :: "nat \<Rightarrow> nat \<Rightarrow> mop \<Rightarrow> bool" where
  "mop_within lo hi (MProg a b) \<longleftrightarrow> lo \<le> a \<and> a < hi"
| "mop_within lo hi (MTear a n) \<longleftrightarrow> lo \<le> a \<and> a + n \<le> hi"
| "mop_within lo hi (MErase a n) \<longleftrightarrow> lo \<le> a \<and> a + n \<le> hi"

fun prog_ops :: "nat \<Rightarrow> byte list \<Rightarrow> mop list" where
  "prog_ops a [] = []"
| "prog_ops a (b # bs) = MProg a b # prog_ops (Suc a) bs"

definition erase_ops :: "nat \<Rightarrow> nat \<Rightarrow> mop list" where
  "erase_ops a n = [MTear a n, MErase a n]"

definition mops :: "nor \<Rightarrow> mop list \<Rightarrow> nor \<Rightarrow> nor" where
  "mops torn ops fl = fold (mop_step torn) ops fl"

definition run_ops :: "mop list \<Rightarrow> pdev \<Rightarrow> pdev" where
  "run_ops ops d = d\<lparr>pd_cells := mops (pd_torn d) (powered (pd_power d) ops) (pd_cells d),
                     pd_power := spend (pd_power d) (length ops)\<rparr>"

section \<open>Lemmas\<close>

named_theorems mop_simps \<open>lists of device steps\<close>

lemma mops_Nil [simp]: "mops torn [] fl = fl"
  by (simp add: mops_def)

lemma mops_append: "mops torn (xs @ ys) fl = mops torn ys (mops torn xs fl)"
  by (simp add: mops_def)

lemma mops_Cons [simp]: "mops torn (x # xs) fl = mops torn xs (mop_step torn x fl)"
  by (simp add: mops_def)

lemma length_prog_ops [simp]: "length (prog_ops a bs) = length bs"
  by (induction a bs rule: prog_ops.induct) simp_all

lemma take_prog_ops: "take k (prog_ops a bs) = prog_ops a (take k bs)"
  by (induction a bs arbitrary: k rule: prog_ops.induct) (simp_all add: take_Cons')

lemma powered_prog_ops: "powered p (prog_ops a bs) = prog_ops a (powered p bs)"
  by (cases p) (simp_all add: take_prog_ops)

lemma mops_prog_ops [mop_simps]: "mops torn (prog_ops a bs) fl = nor_write fl a bs"
  by (induction a bs arbitrary: fl rule: prog_ops.induct) (simp_all add: nor_write_Cons)

lemma mops_erase_ops [mop_simps]: "mops torn (erase_ops a n) fl = nor_erase fl a n"
  by (rule ext) (simp add: erase_ops_def nor_tear_def nor_erase_def)

lemma powered_append:
  "powered p (xs @ ys) = powered p xs @ powered (spend p (length xs)) ys"
  by (cases p) (simp_all add: spend_def)

lemma spend_add: "spend (spend p m) n = spend p (m + n)"
  by (cases p) (simp_all add: spend_def)

lemma spend_0 [simp]: "spend p 0 = p"
  by (cases p) (simp_all add: spend_def)

lemma spend_None [simp]: "spend None n = None"
  by (simp add: spend_def)

lemma run_ops_append [mop_simps]: "run_ops ys (run_ops xs d) = run_ops (xs @ ys) d"
  by (simp add: run_ops_def powered_append mops_append spend_add)

lemma run_ops_Nil [simp]: "run_ops [] d = d"
  by (cases "pd_power d") (simp_all add: run_ops_def)

lemma length_powered: "length (powered p xs) \<le> length xs"
  by (cases p) simp_all

lemma set_powered: "x \<in> set (powered p xs) \<Longrightarrow> x \<in> set xs"
  by (cases p) (auto dest: in_set_takeD)

lemma powered_prefix: "\<exists>k. powered p xs = take k xs"
proof (cases p)
  case None
  then have "powered p xs = take (length xs) xs" by simp
  then show ?thesis by blast
qed auto

lemma mop_step_other:
  "mop_within lo hi op \<Longrightarrow> x < lo \<or> hi \<le> x \<Longrightarrow> mop_step torn op fl x = fl x"
  by (cases op) (auto simp: nor_tear_def nor_erase_def)

lemma mops_other:
  "list_all (mop_within lo hi) ops \<Longrightarrow> x < lo \<or> hi \<le> x \<Longrightarrow> mops torn ops fl x = fl x"
  by (induction ops arbitrary: fl) (simp_all add: mop_step_other [of lo hi])

lemma within_mono: "mop_within lo hi op \<Longrightarrow> lo' \<le> lo \<Longrightarrow> hi \<le> hi' \<Longrightarrow> mop_within lo' hi' op"
  by (cases op) auto

lemma within_prog_ops [mop_simps]:
  "lo \<le> a \<Longrightarrow> a + length bs \<le> hi \<Longrightarrow> list_all (mop_within lo hi) (prog_ops a bs)"
  by (induction a bs rule: prog_ops.induct) simp_all

lemma within_erase_ops [mop_simps]:
  "lo \<le> a \<Longrightarrow> a + n \<le> hi \<Longrightarrow> list_all (mop_within lo hi) (erase_ops a n)"
  by (simp add: erase_ops_def)

lemma list_all_powered: "list_all P xs \<Longrightarrow> list_all P (powered p xs)"
  by (auto simp: list_all_iff dest: set_powered)

text \<open>Cells outside the range of the steps keep their value, whenever the power fails.\<close>

lemma run_ops_other:
  "list_all (mop_within lo hi) ops \<Longrightarrow> x < lo \<or> hi \<le> x \<Longrightarrow> pd_cells (run_ops ops d) x = pd_cells d x"
  by (simp add: run_ops_def mops_other [of lo hi] list_all_powered)

text \<open>The two operations are lists of steps.\<close>

lemma power_program_ops:
  assumes "a + length bs \<le> FALSH_SIZE_MAX" and "a < FALSH_SIZE_MAX"
  shows "power_program d a bs = Some (run_ops (prog_ops a bs) d)"
proof -
  have "a + length (powered (pd_power d) bs) \<le> FALSH_SIZE_MAX"
    using assms length_powered [of "pd_power d" bs] by linarith
  then show ?thesis
    using assms by (simp add: power_program_def hal_simps run_ops_def powered_prog_ops mops_prog_ops)
qed

lemma power_erase_ops:
  assumes "4096 dvd a" and "4096 dvd n" and "a + n \<le> FALSH_SIZE_MAX"
  shows "power_erase d a n = Some (run_ops (erase_ops a n) d)"
proof -
  consider "pd_power d = None" | "pd_power d = Some 0" | "pd_power d = Some 1"
    | k where "pd_power d = Some (Suc (Suc k))"
  proof (cases "pd_power d")
    case (Some k)
    then show ?thesis using that by (cases k rule: nat.exhaust; cases "k - 1") auto
  qed
  then show ?thesis
  proof cases
    case 1
    then show ?thesis
      using assms by (simp add: power_erase_def hal_simps run_ops_def mops_erase_ops)
  next
    case 2
    then show ?thesis
      using assms by (simp add: power_erase_def hal_simps run_ops_def spend_def)
  next
    case 3
    then show ?thesis
      using assms by (simp add: power_erase_def hal_simps run_ops_def spend_def erase_ops_def)
  next
    case (4 k)
    moreover have "powered (Some (Suc (Suc k))) (erase_ops a n) = erase_ops a n"
      by (simp add: erase_ops_def)
    ultimately show ?thesis
      using assms by (simp add: power_erase_def hal_simps run_ops_def spend_def mops_erase_ops)
        (simp add: erase_ops_def)
  qed
qed

end
