(* ===== verification/Nvds.thy ===== *)
theory Nvds
  imports Power_Flash
begin

text \<open>
  The non-volatile data store \<^verbatim>\<open>components/fs/nvds/ln_nvds.c\<close>: two sectors of 4 KB that take
  turns in holding the data, and a third one with the flag that says which is valid.  A
  write copies the valid sector into the other one with the new bytes in place, then erases
  and rewrites the flag.  The parameters of \<^verbatim>\<open>ln_nvds.h\<close> are byte ranges of the sector;
  some are overridden by the one-time-programmable (security) area of the flash.

  The flash is a \<^typ>\<open>pdev\<close>, so the state after a run is also the state after a power
  failure.  A function that fills a buffer takes the buffer's bytes and returns the new
  ones.  The properties are in \<open>Nvds_Correct\<close>.
\<close>

section \<open>State and constants\<close>

definition SIZE_4KB :: nat where "SIZE_4KB = 4096"
definition SECT_MAGIC_CODE_OFFSET :: nat where "SECT_MAGIC_CODE_OFFSET = 0"
definition SECT_MAGIC_CODE_LEN :: nat where "SECT_MAGIC_CODE_LEN = 4"
definition NV0_NVDS_VERSION_OFFST :: nat where "NV0_NVDS_VERSION_OFFST = SECT_MAGIC_CODE_OFFSET + SECT_MAGIC_CODE_LEN"
definition NV0_NVDS_VERSION_LEN :: nat where "NV0_NVDS_VERSION_LEN = 16"
definition NV1_OTA_UPG_STATE_OFFST :: nat where "NV1_OTA_UPG_STATE_OFFST = NV0_NVDS_VERSION_OFFST + NV0_NVDS_VERSION_LEN"
definition NV1_OTA_UPG_STATE_LEN :: nat where "NV1_OTA_UPG_STATE_LEN = 4"
definition NV2_XTAL_COMP_VAL_OFFST :: nat where "NV2_XTAL_COMP_VAL_OFFST = NV1_OTA_UPG_STATE_OFFST + NV1_OTA_UPG_STATE_LEN"
definition NV2_XTAL_COMP_VAL_LEN :: nat where "NV2_XTAL_COMP_VAL_LEN = 1"
definition NV3_TX_POWER_COMP_OFFST :: nat where "NV3_TX_POWER_COMP_OFFST = NV2_XTAL_COMP_VAL_OFFST + NV2_XTAL_COMP_VAL_LEN"
definition NV3_TX_POWER_COMP_LEN :: nat where "NV3_TX_POWER_COMP_LEN = 1"
definition NV4_CHIP_SN_OFFSET :: nat where "NV4_CHIP_SN_OFFSET = NV3_TX_POWER_COMP_OFFST + NV3_TX_POWER_COMP_LEN"
definition NV4_CHIP_SN_LEN :: nat where "NV4_CHIP_SN_LEN = 20"
definition NV5_BOOT_LOG_UART_BR_OFFSET :: nat where "NV5_BOOT_LOG_UART_BR_OFFSET = NV4_CHIP_SN_OFFSET + NV4_CHIP_SN_LEN"
definition NV5_BOOT_LOG_UART_BR_LEN :: nat where "NV5_BOOT_LOG_UART_BR_LEN = 1"
definition NV6_BOOT_LOG_EN_OFFSET :: nat where "NV6_BOOT_LOG_EN_OFFSET = NV5_BOOT_LOG_UART_BR_OFFSET + NV5_BOOT_LOG_UART_BR_LEN"
definition NV6_BOOT_LOG_EN_LEN :: nat where "NV6_BOOT_LOG_EN_LEN = 1"
definition NV7_BOOT_DELAY_MS_OFFSET :: nat where "NV7_BOOT_DELAY_MS_OFFSET = NV6_BOOT_LOG_EN_OFFSET + NV6_BOOT_LOG_EN_LEN"
definition NV7_BOOT_DELAY_MS_LEN :: nat where "NV7_BOOT_DELAY_MS_LEN = 2"
definition NV8_BOOT_DELAY_EN_OFFSET :: nat where "NV8_BOOT_DELAY_EN_OFFSET = NV7_BOOT_DELAY_MS_OFFSET + NV7_BOOT_DELAY_MS_LEN"
definition NV8_BOOT_DELAY_EN_LEN :: nat where "NV8_BOOT_DELAY_EN_LEN = 1"
definition NV9_ATE_RESULT_OFFSET :: nat where "NV9_ATE_RESULT_OFFSET = NV8_BOOT_DELAY_EN_OFFSET + NV8_BOOT_DELAY_EN_LEN"
definition NV9_ATE_RESULT_LEN :: nat where "NV9_ATE_RESULT_LEN = 1"
definition NV9_ATE_RESULT_OK :: byte where "NV9_ATE_RESULT_OK = 0x53"
definition NV10_TX_POWER_COMP_B_OFFST :: nat where "NV10_TX_POWER_COMP_B_OFFST = NV9_ATE_RESULT_OFFSET + NV9_ATE_RESULT_LEN"
definition NV10_TX_POWER_COMP_B_LEN :: nat where "NV10_TX_POWER_COMP_B_LEN = 1"
definition NV11_TX_POWER_COMP_GN_OFFST :: nat where "NV11_TX_POWER_COMP_GN_OFFST = NV10_TX_POWER_COMP_B_OFFST + NV10_TX_POWER_COMP_B_LEN"
definition NV11_TX_POWER_COMP_GN_LEN :: nat where "NV11_TX_POWER_COMP_GN_LEN = 1"

definition NVDS_SECT_MAGIC_CODE :: nat where "NVDS_SECT_MAGIC_CODE = 0x5344564E"
definition NVDS_NONE_TAG :: byte where "NVDS_NONE_TAG = 0xFF"
definition NVDS_SECT1_VALID :: nat where "NVDS_SECT1_VALID = 0xA5A5"
definition NVDS_SECT2_VALID :: nat where "NVDS_SECT2_VALID = 0x5A5A"
definition NVDS_ERR_OK :: int where "NVDS_ERR_OK = 0"
definition NVDS_ERR_FAIL :: int where "NVDS_ERR_FAIL = - 1"

text \<open>\<^verbatim>\<open>"[Ver 1.0]"\<close> with its terminator.\<close>

definition NV0_NVDS_VERSION_STR :: "byte list" where
  "NV0_NVDS_VERSION_STR = [0x5B, 0x56, 0x65, 0x72, 0x20, 0x31, 0x2E, 0x30, 0x5D, 0]"

record nvds =
  ln_nvds_base :: nat
  ln_nvds_ver :: "byte list"
  nv_dev :: pdev
  nv_otp :: nor

definition USR_NVDS_SECT1_OFFSET :: "nvds \<Rightarrow> nat" where
  "USR_NVDS_SECT1_OFFSET s = ln_nvds_base s"

definition USR_NVDS_SECT2_OFFSET :: "nvds \<Rightarrow> nat" where
  "USR_NVDS_SECT2_OFFSET s = add_u32 (USR_NVDS_SECT1_OFFSET s) SIZE_4KB"

definition USR_NVDS_FLAG_OFFSET :: "nvds \<Rightarrow> nat" where
  "USR_NVDS_FLAG_OFFSET s = add_u32 (USR_NVDS_SECT2_OFFSET s) SIZE_4KB"

text \<open>The buffer after its first bytes have been filled.\<close>

definition fill :: "byte list \<Rightarrow> byte list \<Rightarrow> byte list" where
  "fill buf bs = bs @ drop (length bs) buf"

section \<open>Access to the flash\<close>

definition nvds_read_flash :: "nvds \<Rightarrow> nat \<Rightarrow> nat \<Rightarrow> byte list \<Rightarrow> byte list option" where
  "nvds_read_flash s offset len buf = do {
     (r, bs) \<leftarrow> hal_flash_read_by_cache (pd_cells (nv_dev s)) offset len;
     Some (fill buf bs)
   }"

definition nvds_write_flash :: "nvds \<Rightarrow> nat \<Rightarrow> byte list \<Rightarrow> nvds option" where
  "nvds_write_flash s offset buf = do {
     d \<leftarrow> power_program (nv_dev s) offset buf;
     Some (s\<lparr>nv_dev := d\<rparr>)
   }"

definition nvds_erase_flash :: "nvds \<Rightarrow> nat \<Rightarrow> nat \<Rightarrow> nvds option" where
  "nvds_erase_flash s offset len = do {
     d \<leftarrow> power_erase (nv_dev s) offset len;
     Some (s\<lparr>nv_dev := d\<rparr>)
   }"

definition nvds_get_valid_flag :: "nvds \<Rightarrow> nat option" where
  "nvds_get_valid_flag s = do {
     flag \<leftarrow> nvds_read_flash s (USR_NVDS_FLAG_OFFSET s) 2 (le_bytes 2 0);
     Some (le_val flag)
   }"

definition nvds_set_valid_flag :: "nvds \<Rightarrow> nat \<Rightarrow> nvds option" where
  "nvds_set_valid_flag s sect = nvds_write_flash s (USR_NVDS_FLAG_OFFSET s) (le_bytes 2 sect)"

definition nvds_get_magic_code :: "nvds \<Rightarrow> nat \<Rightarrow> nat option" where
  "nvds_get_magic_code s offset = do {
     code \<leftarrow> nvds_read_flash s offset 4 (le_bytes 4 0);
     Some (le_val code)
   }"

definition nvds_set_magic_code :: "nvds \<Rightarrow> nat \<Rightarrow> nvds option" where
  "nvds_set_magic_code s offset = nvds_write_flash s offset (le_bytes 4 NVDS_SECT_MAGIC_CODE)"

section \<open>Writing and reading\<close>

text \<open>\<open>n\<close> turns of the copy loop from index \<open>i\<close> on.\<close>

fun nvds_copy_loop :: "nat \<Rightarrow> nat \<Rightarrow> nvds \<Rightarrow> nat \<Rightarrow> nat \<Rightarrow> nvds option" where
  "nvds_copy_loop 0 i s src dst = Some s"
| "nvds_copy_loop (Suc n) i s src dst = do {
     rd \<leftarrow> nvds_read_flash s (add_u32 src i) 1 [0];
     s' \<leftarrow> (if rd ! 0 \<noteq> NVDS_NONE_TAG then nvds_write_flash s (add_u32 dst i) rd else Some s);
     nvds_copy_loop n (i + 1) s' src dst
   }"

text \<open>One branch of the write: fill the sector at \<open>dst\<close> from the one at \<open>src\<close>, then set the flag.\<close>

definition nvds_rewrite :: "nvds \<Rightarrow> nat \<Rightarrow> nat \<Rightarrow> nat \<Rightarrow> nat \<Rightarrow> byte list \<Rightarrow> (int \<times> nvds) option" where
  "nvds_rewrite s src dst valid offset data = do {
     let len = length data;
     s1 \<leftarrow> nvds_erase_flash s dst SIZE_4KB;
     s2 \<leftarrow> nvds_set_magic_code s1 (add_u32 dst SECT_MAGIC_CODE_OFFSET);
     s3 \<leftarrow> nvds_copy_loop (offset - SECT_MAGIC_CODE_LEN) SECT_MAGIC_CODE_LEN s2 src dst;
     s4 \<leftarrow> nvds_write_flash s3 (add_u32 dst offset) data;
     s5 \<leftarrow> (if add_u32 offset len < SIZE_4KB
           then nvds_copy_loop (SIZE_4KB - add_u32 offset len) (add_u32 offset len) s4 src dst
           else Some s4);
     s6 \<leftarrow> nvds_erase_flash s5 (USR_NVDS_FLAG_OFFSET s5) SIZE_4KB;
     s7 \<leftarrow> nvds_set_valid_flag s6 valid;
     Some (NVDS_ERR_OK, s7)
   }"

definition ln_nvds_write :: "nvds \<Rightarrow> nat \<Rightarrow> byte list \<Rightarrow> (int \<times> nvds) option" where
  "ln_nvds_write s offset data =
     (if add_u32 offset (length data) > SIZE_4KB then Some (NVDS_ERR_FAIL, s)
      else do {
        flag \<leftarrow> nvds_get_valid_flag s;
        if flag = NVDS_SECT1_VALID
        then nvds_rewrite s (USR_NVDS_SECT1_OFFSET s) (USR_NVDS_SECT2_OFFSET s) NVDS_SECT2_VALID offset data
        else nvds_rewrite s (USR_NVDS_SECT2_OFFSET s) (USR_NVDS_SECT1_OFFSET s) NVDS_SECT1_VALID offset data
      })"

definition ln_nvds_read :: "nvds \<Rightarrow> nat \<Rightarrow> byte list \<Rightarrow> nat \<Rightarrow> (int \<times> byte list) option" where
  "ln_nvds_read s offset data len =
     (if add_u32 offset len > SIZE_4KB then Some (NVDS_ERR_FAIL, data)
      else do {
        flag \<leftarrow> nvds_get_valid_flag s;
        if flag = NVDS_SECT1_VALID then do {
          bs \<leftarrow> nvds_read_flash s (add_u32 (USR_NVDS_SECT1_OFFSET s) offset) len data;
          Some (NVDS_ERR_OK, bs) }
        else if flag = NVDS_SECT2_VALID then do {
          bs \<leftarrow> nvds_read_flash s (add_u32 (USR_NVDS_SECT2_OFFSET s) offset) len data;
          Some (NVDS_ERR_OK, bs) }
        else do {
          code \<leftarrow> nvds_get_magic_code s (add_u32 (USR_NVDS_SECT2_OFFSET s) SECT_MAGIC_CODE_OFFSET);
          if code = NVDS_SECT_MAGIC_CODE then do {
            bs \<leftarrow> nvds_read_flash s (add_u32 (USR_NVDS_SECT2_OFFSET s) offset) len data;
            Some (NVDS_ERR_OK, bs) }
          else Some (NVDS_ERR_FAIL, data)
        }
      })"

definition ln_nvds_init :: "nvds \<Rightarrow> nat \<Rightarrow> (int \<times> nvds) option" where
  "ln_nvds_init s0 base = do {
     let s = s0\<lparr>ln_nvds_base := base\<rparr>;
     (r, ver) \<leftarrow> ln_nvds_read s NV0_NVDS_VERSION_OFFST (ln_nvds_ver s) NV0_NVDS_VERSION_LEN;
     let s1 = s\<lparr>ln_nvds_ver := ver\<rparr>;
     if r \<noteq> NVDS_ERR_OK then do {
       s2 \<leftarrow> nvds_erase_flash s1 (ln_nvds_base s1) (SIZE_4KB * 3);
       let str_len = u8 (length NV0_NVDS_VERSION_STR);
       let str_len' = (if NV0_NVDS_VERSION_LEN > str_len then str_len else NV0_NVDS_VERSION_LEN);
       ln_nvds_write s2 NV0_NVDS_VERSION_OFFST (take str_len' NV0_NVDS_VERSION_STR) }
     else Some (NVDS_ERR_OK, s1)
   }"

definition ln_nvds_version :: "nvds \<Rightarrow> byte list" where
  "ln_nvds_version s = ln_nvds_ver s"

end
