(* ===== verification/Nvds_Correct.thy ===== *)
theory Nvds_Correct
  imports Nvds
begin

text \<open>
  The non-volatile data store as one array of 4096 bytes.  \<open>nvds_holds s m\<close> says that the
  valid sector holds \<open>m\<close>; \<open>nvds_update\<close> is the effect of a write on \<open>m\<close>.  The write is
  reduced to the list of device steps it makes (\<open>sect_ops\<close> on the sector that is not valid,
  then \<open>flag_ops\<close>): after every prefix of them, with any data in a half-erased sector, the
  store holds the old bytes or the new ones.
\<close>

section \<open>Specification\<close>

definition nvds_ok :: "nvds \<Rightarrow> bool" where
  "nvds_ok s \<longleftrightarrow> 4096 dvd ln_nvds_base s \<and> ln_nvds_base s + 12288 \<le> FALSH_SIZE_MAX"

definition nvds_magic :: "byte list" where
  "nvds_magic = le_bytes 4 NVDS_SECT_MAGIC_CODE"

definition nvds_flag :: "nor \<Rightarrow> nat \<Rightarrow> nat" where
  "nvds_flag fl base = le_val (nor_read fl (base + 8192) 2)"

text \<open>The sector that the reads use: the second one unless the flag names the first.\<close>

definition nvds_sect :: "nor \<Rightarrow> nat \<Rightarrow> nat" where
  "nvds_sect fl base = (if nvds_flag fl base = NVDS_SECT1_VALID then base else base + 4096)"

definition nvds_array :: "nor \<Rightarrow> nat \<Rightarrow> byte list" where
  "nvds_array fl base = nor_read fl (nvds_sect fl base) 4096"

definition nvds_holds :: "nvds \<Rightarrow> byte list \<Rightarrow> bool" where
  "nvds_holds s m \<longleftrightarrow> nvds_ok s \<and> nvds_array (pd_cells (nv_dev s)) (ln_nvds_base s) = m
     \<and> take 4 m = nvds_magic"

definition nvds_update :: "byte list \<Rightarrow> nat \<Rightarrow> byte list \<Rightarrow> byte list" where
  "nvds_update m off bs = nvds_magic @ bslice 4 (off - 4) m @ bs @ drop (off + length bs) m"

text \<open>The state after the supply is back.\<close>

definition nvds_power_up :: "nvds \<Rightarrow> nat option \<Rightarrow> nvds" where
  "nvds_power_up s p = s\<lparr>nv_dev := (nv_dev s)\<lparr>pd_power := p\<rparr>\<rparr>"

section \<open>The steps of a write\<close>

fun copy_ops :: "nat \<Rightarrow> nat \<Rightarrow> nat \<Rightarrow> nat \<Rightarrow> nor \<Rightarrow> mop list" where
  "copy_ops 0 i src dst fl = []"
| "copy_ops (Suc n) i src dst fl =
     (if fl (src + i) \<noteq> NVDS_NONE_TAG then [MProg (dst + i) (fl (src + i))] else [])
     @ copy_ops n (Suc i) src dst fl"

definition sect_ops :: "nat \<Rightarrow> nat \<Rightarrow> nat \<Rightarrow> byte list \<Rightarrow> nor \<Rightarrow> mop list" where
  "sect_ops src dst off bs fl =
     erase_ops dst 4096 @ prog_ops dst nvds_magic @ copy_ops (off - 4) 4 src dst fl
     @ prog_ops (dst + off) bs @ copy_ops (4096 - (off + length bs)) (off + length bs) src dst fl"

definition flag_ops :: "nat \<Rightarrow> nat \<Rightarrow> mop list" where
  "flag_ops a v = erase_ops a 4096 @ prog_ops a (le_bytes 2 v)"

section \<open>Lemmas\<close>

lemma len_magic [simp]: "length nvds_magic = 4"
  by (simp add: nvds_magic_def)

lemma length_nvds_update [simp]:
  "length m = 4096 \<Longrightarrow> 4 \<le> off \<Longrightarrow> off + length bs \<le> 4096 \<Longrightarrow> length (nvds_update m off bs) = 4096"
  by (simp add: nvds_update_def)

lemma take_nvds_update [simp]: "take 4 (nvds_update m off bs) = nvds_magic"
  by (simp add: nvds_update_def)

lemma nth_nvds_update:
  assumes "length m = 4096" and "4 \<le> off" and "off + length bs \<le> 4096" and "x < 4096"
  shows "nvds_update m off bs ! x =
    (if x < 4 then nvds_magic ! x else if off \<le> x \<and> x < off + length bs then bs ! (x - off) else m ! x)"
proof -
  have l: "length (bslice 4 (off - 4) m) = off - 4" using assms by simp
  consider "x < 4" | "4 \<le> x" "x < off" | "off \<le> x" "x < off + length bs" | "off + length bs \<le> x"
    by linarith
  then show ?thesis
  proof cases
    case 1
    then show ?thesis by (simp add: nvds_update_def nth_append)
  next
    case 2
    then have "x - 4 < off - 4" by linarith
    with 2 show ?thesis
      using assms l by (simp add: nvds_update_def nth_append nth_bslice)
  next
    case 3
    then have "\<not> x - 4 < off - 4" and "x - off < length bs" and "x - 4 - (off - 4) = x - off"
      using assms by linarith+
    with 3 show ?thesis
      using assms l by (simp add: nvds_update_def nth_append)
  next
    case 4
    then have "\<not> x - 4 < off - 4" and "\<not> x - 4 - (off - 4) < length bs"
        and "x - 4 - (off - 4) - length bs + (off + length bs) = x"
      using assms by linarith+
    then show ?thesis
      using assms l 4 by (simp add: nvds_update_def nth_append add.commute)
  qed
qed

lemma copy_ops_cong:
  "(\<And>x. src + i \<le> x \<Longrightarrow> x < src + i + n \<Longrightarrow> fl x = gl x) \<Longrightarrow>
   copy_ops n i src dst fl = copy_ops n i src dst gl"
  by (induction n i src dst fl rule: copy_ops.induct) simp_all

lemma within_copy_ops [mop_simps]:
  "lo \<le> dst + i \<Longrightarrow> dst + i + n \<le> hi \<Longrightarrow> list_all (mop_within lo hi) (copy_ops n i src dst fl)"
  by (induction n i src dst fl rule: copy_ops.induct) auto

lemma mops_copy_ops:
  "mops torn (copy_ops n i src dst fl) gl x =
     (if dst + i \<le> x \<and> x < dst + i + n then gl x AND fl (src + (x - dst)) else gl x)"
proof (induction n i src dst fl arbitrary: gl x rule: copy_ops.induct)
  case (1 i src dst fl)
  then show ?case by auto
next
  case (2 n i src dst fl)
  have "NVDS_NONE_TAG = - 1" by (simp add: NVDS_NONE_TAG_def)
  then have "b AND NVDS_NONE_TAG = b" for b by (metis byte_and_ones(2))
  then show ?case
    by (cases "x = dst + i") (auto simp: "2.IH" mops_append)
qed

lemma nvds_read_flash_eq:
  "a + n \<le> FALSH_SIZE_MAX \<Longrightarrow>
   nvds_read_flash s a n buf = Some (fill buf (nor_read (pd_cells (nv_dev s)) a n))"
  by (simp add: nvds_read_flash_def hal_simps)

lemma fill_all [simp]: "length buf = length bs \<Longrightarrow> fill buf bs = bs"
  by (simp add: fill_def)

lemma nvds_write_flash_eq:
  "a + length bs \<le> FALSH_SIZE_MAX \<Longrightarrow> a < FALSH_SIZE_MAX \<Longrightarrow>
   nvds_write_flash s a bs = Some (s\<lparr>nv_dev := run_ops (prog_ops a bs) (nv_dev s)\<rparr>)"
  by (simp add: nvds_write_flash_def power_program_ops)

lemma nvds_erase_flash_eq:
  "4096 dvd a \<Longrightarrow> 4096 dvd n \<Longrightarrow> a + n \<le> FALSH_SIZE_MAX \<Longrightarrow>
   nvds_erase_flash s a n = Some (s\<lparr>nv_dev := run_ops (erase_ops a n) (nv_dev s)\<rparr>)"
  by (simp add: nvds_erase_flash_def power_erase_ops)

text \<open>Two sectors that do not overlap, inside the flash.\<close>

definition sectors :: "nat \<Rightarrow> nat \<Rightarrow> bool" where
  "sectors src dst \<longleftrightarrow> src + 4096 \<le> FALSH_SIZE_MAX \<and> dst + 4096 \<le> FALSH_SIZE_MAX
     \<and> (src + 4096 \<le> dst \<or> dst + 4096 \<le> src)"

lemma copy_loop_eq:
  "sectors src dst \<Longrightarrow> i + n \<le> 4096 \<Longrightarrow>
   nvds_copy_loop n i s src dst =
     Some (s\<lparr>nv_dev := run_ops (copy_ops n i src dst (pd_cells (nv_dev s))) (nv_dev s)\<rparr>)"
proof (induction n i s src dst rule: nvds_copy_loop.induct)
  case (1 i s src dst)
  then show ?case by simp
next
  case (2 n i s src dst)
  let ?fl = "pd_cells (nv_dev s)"
  from "2.prems" have rng: "src + i + 1 \<le> FALSH_SIZE_MAX" "dst + i + 1 \<le> FALSH_SIZE_MAX"
    by (auto simp: sectors_def)
  have rd: "nvds_read_flash s (add_u32 src i) 1 [0] = Some [?fl (src + i)]"
    using rng by (simp add: nvds_read_flash_eq nor_read_def)
  let ?s' = "s\<lparr>nv_dev := run_ops (prog_ops (dst + i) [?fl (src + i)]) (nv_dev s)\<rparr>"
  have cong: "copy_ops n (Suc i) src dst (pd_cells (nv_dev ?s')) = copy_ops n (Suc i) src dst ?fl"
    using "2.prems"
    by (intro copy_ops_cong) (simp, rule run_ops_other [of "dst + i" "Suc (dst + i)"], auto simp: sectors_def)
  show ?case
  proof (cases "?fl (src + i) = NVDS_NONE_TAG")
    case True
    then have "nvds_copy_loop (Suc n) i s src dst = nvds_copy_loop n (i + 1) s src dst"
      using rd by simp
    with True "2.IH" [OF rd, of s] "2.prems" show ?thesis by simp
  next
    case False
    then have "nvds_copy_loop (Suc n) i s src dst = nvds_copy_loop n (i + 1) ?s' src dst"
      using rng rd by (simp add: nvds_write_flash_eq)
    with False "2.IH" [OF rd, of ?s'] "2.prems" rng show ?thesis
      by (simp add: cong [simplified] nvds_write_flash_eq run_ops_append del: nvds_copy_loop.simps)
  qed
qed


text \<open>A write is the steps on the other sector, then those on the flag.\<close>

lemma nvds_rewrite_eq:
  assumes ok: "nvds_ok s"
    and sects: "src = ln_nvds_base s \<and> dst = src + 4096 \<or> dst = ln_nvds_base s \<and> src = dst + 4096"
    and off: "4 \<le> off" "off + length bs \<le> 4096"
  shows "nvds_rewrite s src dst v off bs = Some (NVDS_ERR_OK, s\<lparr>nv_dev :=
    run_ops (sect_ops src dst off bs (pd_cells (nv_dev s)) @ flag_ops (ln_nvds_base s + 8192) v) (nv_dev s)\<rparr>)"
proof -
  let ?fl = "pd_cells (nv_dev s)" and ?d = "nv_dev s"
  from ok have b: "4096 dvd ln_nvds_base s" "ln_nvds_base s + 12288 \<le> FALSH_SIZE_MAX"
    by (simp_all add: nvds_ok_def)
  have disj: "sectors src dst" using sects b by (auto simp: sectors_def)
  have dst: "dst + 4096 \<le> FALSH_SIZE_MAX" using sects b by auto
  have dvd: "4096 dvd dst" using sects b by (auto intro: dvd_add)
  define o1 where "o1 = erase_ops dst 4096 @ prog_ops dst nvds_magic"
  define o2 where "o2 = o1 @ copy_ops (off - 4) 4 src dst ?fl @ prog_ops (dst + off) bs"
  have w1: "list_all (mop_within dst (dst + 4096)) o1"
    by (simp add: o1_def mop_simps)
  have w2: "list_all (mop_within dst (dst + 4096)) o2"
    using w1 off by (simp add: o2_def mop_simps)
  have keep: "copy_ops n i src dst (pd_cells (run_ops ops ?d)) = copy_ops n i src dst ?fl"
    if "list_all (mop_within dst (dst + 4096)) ops" and "i + n \<le> 4096" for ops n i
    using disj that(2) by (intro copy_ops_cong run_ops_other [OF that(1)]) (auto simp: sectors_def)
  let ?s = "\<lambda>ops. s\<lparr>nv_dev := run_ops ops ?d\<rparr>"
  have e1: "nvds_erase_flash s dst SIZE_4KB = Some (?s (erase_ops dst 4096))"
    using dst dvd by (simp add: nvds_erase_flash_eq SIZE_4KB_def)
  have e2: "nvds_set_magic_code (?s (erase_ops dst 4096)) (add_u32 dst SECT_MAGIC_CODE_OFFSET) = Some (?s o1)"
    using dst by (simp add: nvds_set_magic_code_def SECT_MAGIC_CODE_OFFSET_def nvds_write_flash_eq
        run_ops_append o1_def nvds_magic_def)
  have e3: "nvds_copy_loop (off - SECT_MAGIC_CODE_LEN) SECT_MAGIC_CODE_LEN (?s o1) src dst
      = Some (?s (o1 @ copy_ops (off - 4) 4 src dst ?fl))"
    using off keep [OF w1, of 4 "off - 4"] disj
    by (simp add: copy_loop_eq SECT_MAGIC_CODE_LEN_def run_ops_append)
  have lim: "dst + off < FALSH_SIZE_MAX" "dst + off + length bs \<le> FALSH_SIZE_MAX"
    "off + length bs \<le> FALSH_SIZE_MAX"
    using off sects b by (auto simp: FALSH_SIZE_MAX_def)
  have e4: "nvds_write_flash (?s (o1 @ copy_ops (off - 4) 4 src dst ?fl)) (add_u32 dst off) bs = Some (?s o2)"
    using lim by (simp add: nvds_write_flash_eq run_ops_append o2_def)
  define o3 where "o3 = o2 @ copy_ops (4096 - (off + length bs)) (off + length bs) src dst ?fl"
  have e5: "(if add_u32 off (length bs) < SIZE_4KB
      then nvds_copy_loop (SIZE_4KB - add_u32 off (length bs)) (add_u32 off (length bs)) (?s o2) src dst
      else Some (?s o2)) = Some (?s o3)"
    using off lim keep [OF w2, of "off + length bs" "4096 - (off + length bs)"] disj
    by (simp add: copy_loop_eq SIZE_4KB_def run_ops_append o3_def)
  have fa: "USR_NVDS_FLAG_OFFSET (?s ops) = ln_nvds_base s + 8192" for ops
    using b by (simp add: USR_NVDS_FLAG_OFFSET_def USR_NVDS_SECT2_OFFSET_def USR_NVDS_SECT1_OFFSET_def SIZE_4KB_def)
  have e6: "nvds_erase_flash (?s o3) (USR_NVDS_FLAG_OFFSET (?s o3)) SIZE_4KB
      = Some (?s (o3 @ erase_ops (ln_nvds_base s + 8192) 4096))"
    using b by (simp add: fa nvds_erase_flash_eq SIZE_4KB_def run_ops_append)
  have e7: "nvds_set_valid_flag (?s (o3 @ erase_ops (ln_nvds_base s + 8192) 4096)) v
      = Some (?s (o3 @ flag_ops (ln_nvds_base s + 8192) v))"
    using b by (simp add: nvds_set_valid_flag_def fa nvds_write_flash_eq run_ops_append flag_ops_def)
  have "nvds_rewrite s src dst v off bs = Some (NVDS_ERR_OK, ?s (o3 @ flag_ops (ln_nvds_base s + 8192) v))"
    unfolding nvds_rewrite_def Let_def by (simp only: e1 e2 e3 e4 e5 e6 e7 bind.bind_lunit)
  then show ?thesis by (simp add: o3_def o2_def o1_def sect_ops_def)
qed


lemma within_sect_ops:
  "4 \<le> off \<Longrightarrow> off + length bs \<le> 4096 \<Longrightarrow>
   list_all (mop_within dst (dst + 4096)) (sect_ops src dst off bs fl)"
  by (simp add: sect_ops_def mop_simps)

lemma within_flag_ops: "list_all (mop_within a (a + 4096)) (flag_ops a v)"
  by (simp add: flag_ops_def mop_simps)

text \<open>The sector that has been rewritten completely holds the updated data.\<close>

lemma sect_ops_full:
  assumes "4 \<le> off" and "off + length bs \<le> 4096"
  shows "nor_read (mops torn (sect_ops src dst off bs fl) fl) dst 4096
    = nvds_update (nor_read fl src 4096) off bs"
proof (rule nth_equalityI)
  show "length (nor_read (mops torn (sect_ops src dst off bs fl) fl) dst 4096)
      = length (nvds_update (nor_read fl src 4096) off bs)"
    using assms by simp
next
  fix x
  assume "x < length (nor_read (mops torn (sect_ops src dst off bs fl) fl) dst 4096)"
  then have x: "x < 4096" by simp
  have "mops torn (sect_ops src dst off bs fl) fl (dst + x) = nvds_update (nor_read fl src 4096) off bs ! x"
    using assms x
    by (auto simp: sect_ops_def mops_append mops_copy_ops mops_prog_ops mops_erase_ops nth_nvds_update
        nor_write_def nor_erase_def)
  with x show "nor_read (mops torn (sect_ops src dst off bs fl) fl) dst 4096 ! x
      = nvds_update (nor_read fl src 4096) off bs ! x"
    by simp
qed

lemma flag_ops_full:
  "v < 65536 \<Longrightarrow> le_val (nor_read (mops torn (flag_ops a v) fl) a 2) = v"
proof -
  assume "v < 65536"
  have "nor_read (nor_write (nor_erase fl a 4096) a (le_bytes 2 v)) a (length (le_bytes 2 v)) = le_bytes 2 v"
    by (rule nor_read_write_blank) (simp add: blank_erase_sub)
  then show ?thesis
    using \<open>v < 65536\<close> by (simp add: flag_ops_def mops_append mop_simps le_simps)
qed

text \<open>
  A prefix of the steps of a write either leaves the valid sector and the flag alone, or has
  completed the new sector.
\<close>

lemma write_prefix_cases:
  assumes "4 \<le> off" and "off + length bs \<le> 4096"
    and "F = base + 8192" and "dst = base \<or> dst = base + 4096" and "src = base \<or> src = base + 4096" and "src \<noteq> dst"
    and "gl = mops torn (take k (sect_ops src dst off bs fl @ flag_ops F v)) fl"
  obtains (old) "nor_read gl src 4096 = nor_read fl src 4096" "nvds_flag gl base = nvds_flag fl base"
    | (new) "nor_read gl src 4096 = nor_read fl src 4096"
        "nor_read gl dst 4096 = nvds_update (nor_read fl src 4096) off bs"
        "length (sect_ops src dst off bs fl) < k"
proof (cases "k \<le> length (sect_ops src dst off bs fl)")
  case True
  then have gl: "gl = mops torn (take k (sect_ops src dst off bs fl)) fl"
    using assms(7) by simp
  have "list_all (mop_within dst (dst + 4096)) (take k (sect_ops src dst off bs fl))"
    using within_sect_ops [OF assms(1,2)] by (auto simp: list_all_iff dest: in_set_takeD)
  from mops_other [OF this] have keep: "gl x = fl x" if "x < dst \<or> dst + 4096 \<le> x" for x
    using that by (simp add: gl)
  show ?thesis
  proof (rule old)
    show "nor_read gl src 4096 = nor_read fl src 4096"
      using assms(4,5,6) by (intro nor_read_cong keep) auto
    have "nor_read gl (base + 8192) 2 = nor_read fl (base + 8192) 2"
      using assms(4) by (intro nor_read_cong keep) auto
    then show "nvds_flag gl base = nvds_flag fl base" by (simp add: nvds_flag_def)
  qed
next
  case False
  define hl where "hl = mops torn (sect_ops src dst off bs fl) fl"
  define j where "j = k - length (sect_ops src dst off bs fl)"
  have gl: "gl = mops torn (take j (flag_ops F v)) hl"
    using assms(7) False by (simp add: mops_append hl_def j_def)
  have "list_all (mop_within F (F + 4096)) (take j (flag_ops F v))"
    using within_flag_ops [of F v] by (auto simp: list_all_iff dest: in_set_takeD)
  from mops_other [OF this] have keep1: "gl x = hl x" if "x < F" for x
    using that by (simp add: gl)
  from mops_other [OF within_sect_ops [OF assms(1,2), of dst src fl]]
  have keep2: "hl x = fl x" if "x < dst \<or> dst + 4096 \<le> x" for x
    using that by (simp add: hl_def)
  show ?thesis
  proof (rule new)
    have "nor_read gl src 4096 = nor_read hl src 4096"
      using assms(3,5) by (intro nor_read_cong keep1) auto
    also have "\<dots> = nor_read fl src 4096"
      using assms(4,5,6) by (intro nor_read_cong keep2) auto
    finally show "nor_read gl src 4096 = nor_read fl src 4096" .
    have "nor_read gl dst 4096 = nor_read hl dst 4096"
      using assms(3,4) by (intro nor_read_cong keep1) auto
    also have "\<dots> = nvds_update (nor_read fl src 4096) off bs"
      unfolding hl_def by (rule sect_ops_full [OF assms(1,2)])
    finally show "nor_read gl dst 4096 = nvds_update (nor_read fl src 4096) off bs" .
    show "length (sect_ops src dst off bs fl) < k" using False by simp
  qed
qed


lemma length_copy_ops: "length (copy_ops n i src dst fl) \<le> n"
  by (induction n i src dst fl rule: copy_ops.induct) auto

lemma length_sect_ops:
  "4 \<le> off \<Longrightarrow> off + length bs \<le> 4096 \<Longrightarrow> length (sect_ops src dst off bs fl) \<le> 4098"
  using length_copy_ops [of "off - 4" 4 src dst fl]
    length_copy_ops [of "4096 - (off + length bs)" "off + length bs" src dst fl]
  by (simp add: sect_ops_def erase_ops_def)

lemma nvds_ok_bounds:
  "nvds_ok s \<Longrightarrow> 4096 dvd ln_nvds_base s \<and> ln_nvds_base s + 12288 \<le> FALSH_SIZE_MAX"
  by (simp add: nvds_ok_def)

lemma nvds_offsets:
  assumes "nvds_ok s"
  shows "USR_NVDS_SECT1_OFFSET s = ln_nvds_base s" "USR_NVDS_SECT2_OFFSET s = ln_nvds_base s + 4096"
    "USR_NVDS_FLAG_OFFSET s = ln_nvds_base s + 8192"
  using nvds_ok_bounds [OF assms]
  by (simp_all add: USR_NVDS_FLAG_OFFSET_def USR_NVDS_SECT2_OFFSET_def USR_NVDS_SECT1_OFFSET_def SIZE_4KB_def)

lemma nvds_get_valid_flag_eq:
  "nvds_ok s \<Longrightarrow> nvds_get_valid_flag s = Some (nvds_flag (pd_cells (nv_dev s)) (ln_nvds_base s))"
  using nvds_ok_bounds [of s]
  by (simp add: nvds_get_valid_flag_def nvds_offsets nvds_read_flash_eq nvds_flag_def)

text \<open>What a write leaves behind, for a store in any state: with all its steps done \dots\<close>

lemma nvds_write_ops:
  assumes "nvds_ok s" and "4 \<le> off" and "off + length bs \<le> 4096"
  defines "fl \<equiv> pd_cells (nv_dev s)" and "base \<equiv> ln_nvds_base s"
  defines "src \<equiv> nvds_sect fl base"
  defines "dst \<equiv> (if src = base then base + 4096 else base)"
  defines "v \<equiv> (if src = base then NVDS_SECT2_VALID else NVDS_SECT1_VALID)"
  shows "ln_nvds_write s off bs = Some (NVDS_ERR_OK, s\<lparr>nv_dev :=
    run_ops (sect_ops src dst off bs fl @ flag_ops (base + 8192) v) (nv_dev s)\<rparr>)"
proof -
  have "add_u32 off (length bs) = off + length bs"
    using assms(3) by (simp add: add_u32_def)
  moreover have "src = base \<or> src = base + 4096"
    by (simp add: src_def nvds_sect_def)
  ultimately show ?thesis
    using assms(1-3)
    by (auto simp: ln_nvds_write_def SIZE_4KB_def nvds_get_valid_flag_eq nvds_offsets nvds_rewrite_eq
        fl_def base_def src_def dst_def v_def nvds_sect_def)
qed

text \<open>\dots or cut anywhere.\<close>

lemma nvds_write_cases:
  assumes "nvds_ok s" and "4 \<le> off" and "off + length bs \<le> 4096"
  obtains (written) s' where "ln_nvds_write s off bs = Some (NVDS_ERR_OK, s')" "nvds_ok s'"
    "s' = s\<lparr>nv_dev := nv_dev s'\<rparr>"
    "let m = nvds_array (pd_cells (nv_dev s)) (ln_nvds_base s);
         m' = nvds_array (pd_cells (nv_dev s')) (ln_nvds_base s)
     in m' = nvds_update m off bs \<or>
        (m' = m \<and> (\<exists>k < 4102. pd_power (nv_dev s) = Some k))"
    "pd_power (nv_dev s) = None \<Longrightarrow> pd_power (nv_dev s') = None"
proof -
  define fl where "fl = pd_cells (nv_dev s)"
  define base where "base = ln_nvds_base s"
  define src where "src = nvds_sect fl base"
  define dst where "dst = (if src = base then base + 4096 else base)"
  define v where "v = (if src = base then NVDS_SECT2_VALID else NVDS_SECT1_VALID)"
  define ops where "ops = sect_ops src dst off bs fl @ flag_ops (base + 8192) v"
  define s' where "s' = s\<lparr>nv_dev := run_ops ops (nv_dev s)\<rparr>"
  have w: "ln_nvds_write s off bs = Some (NVDS_ERR_OK, s')"
    using nvds_write_ops [OF assms]
    by (simp add: fl_def base_def src_def dst_def v_def ops_def s'_def)
  have src: "src = base \<or> src = base + 4096" and dst: "dst = base \<or> dst = base + 4096" and "src \<noteq> dst"
    by (auto simp: src_def dst_def nvds_sect_def)
  define torn where "torn = pd_torn (nv_dev s)"
  define gl where "gl = pd_cells (nv_dev s')"
  obtain k where k: "powered (pd_power (nv_dev s)) ops = take k ops"
    using powered_prefix by blast
  then have gl: "gl = mops torn (take k (sect_ops src dst off bs fl @ flag_ops (base + 8192) v)) fl"
    by (simp add: gl_def s'_def run_ops_def torn_def fl_def ops_def)
  have flag: "nvds_flag (mops torn ops fl) base = v"
    by (simp add: nvds_flag_def ops_def mops_append flag_ops_full v_def
        NVDS_SECT1_VALID_def NVDS_SECT2_VALID_def)
  have v_sect: "(if v = NVDS_SECT1_VALID then base else base + 4096) = dst"
    by (simp add: v_def dst_def NVDS_SECT1_VALID_def NVDS_SECT2_VALID_def)
  have few: "length ops \<le> 4102"
    using length_sect_ops [OF assms(2,3), of src dst fl] by (simp add: ops_def flag_ops_def erase_ops_def)
  have arr: "nvds_array fl base = nor_read fl src 4096"
    by (simp add: nvds_array_def src_def)
  have res: "nvds_array gl base = nvds_update (nor_read fl src 4096) off bs \<or>
     (nvds_array gl base = nor_read fl src 4096 \<and> (\<exists>k < 4102. pd_power (nv_dev s) = Some k))"
  proof (cases "\<exists>k < 4102. pd_power (nv_dev s) = Some k")
    case True
    show ?thesis
    proof (rule write_prefix_cases [OF assms(2,3) refl dst src \<open>src \<noteq> dst\<close> gl])
      assume "nor_read gl src 4096 = nor_read fl src 4096" and "nvds_flag gl base = nvds_flag fl base"
      then show ?thesis using True by (simp add: nvds_array_def nvds_sect_def src_def)
    next
      assume "nor_read gl src 4096 = nor_read fl src 4096"
        and "nor_read gl dst 4096 = nvds_update (nor_read fl src 4096) off bs"
      moreover have "nvds_sect gl base = src \<or> nvds_sect gl base = dst"
        using src dst \<open>src \<noteq> dst\<close> by (auto simp: nvds_sect_def)
      ultimately show ?thesis using True by (auto simp: nvds_array_def)
    qed
  next
    case False
    then have all: "powered (pd_power (nv_dev s)) ops = take (length ops) ops"
      using few by (cases "pd_power (nv_dev s)") auto
    then have gl': "gl = mops torn (take (length ops) (sect_ops src dst off bs fl @ flag_ops (base + 8192) v)) fl"
      by (simp add: gl_def s'_def run_ops_def torn_def fl_def ops_def)
    from gl' flag have fl': "nvds_flag gl base = v" by (simp add: ops_def)
    show ?thesis
    proof (rule write_prefix_cases [OF assms(2,3) refl dst src \<open>src \<noteq> dst\<close> gl'])
      assume "nvds_flag gl base = nvds_flag fl base"
      then show ?thesis
        using fl' v_sect \<open>src \<noteq> dst\<close> by (simp add: src_def nvds_sect_def)
    next
      assume "nor_read gl dst 4096 = nvds_update (nor_read fl src 4096) off bs"
      then show ?thesis using fl' v_sect by (simp add: nvds_array_def nvds_sect_def)
    qed
  qed
  show ?thesis
  proof (rule written [OF w])
    show "nvds_ok s'" using assms(1) by (simp add: s'_def nvds_ok_def)
    show "s' = s\<lparr>nv_dev := nv_dev s'\<rparr>" by (simp add: s'_def)
    show "let m = nvds_array (pd_cells (nv_dev s)) (ln_nvds_base s);
         m' = nvds_array (pd_cells (nv_dev s')) (ln_nvds_base s)
     in m' = nvds_update m off bs \<or> (m' = m \<and> (\<exists>k < 4102. pd_power (nv_dev s) = Some k))"
      using res arr by (simp add: gl_def fl_def base_def Let_def)
    show "pd_power (nv_dev s) = None \<Longrightarrow> pd_power (nv_dev s') = None"
      by (simp add: s'_def run_ops_def)
  qed
qed

lemma nvds_write_holds:
  assumes "nvds_holds s m" and "4 \<le> off" and "off + length bs \<le> 4096"
  obtains s' where "ln_nvds_write s off bs = Some (NVDS_ERR_OK, s')"
    "nvds_holds s' m \<or> nvds_holds s' (nvds_update m off bs)"
    "pd_power (nv_dev s) = None \<Longrightarrow> nvds_holds s' (nvds_update m off bs)"
    "s' = s\<lparr>nv_dev := nv_dev s'\<rparr>"
    "pd_power (nv_dev s) = None \<Longrightarrow> pd_power (nv_dev s') = None"
proof -
  from assms(1) have ok: "nvds_ok s" and m: "nvds_array (pd_cells (nv_dev s)) (ln_nvds_base s) = m"
    and mg: "take 4 m = nvds_magic"
    by (simp_all add: nvds_holds_def)
  show ?thesis
  proof (rule nvds_write_cases [OF ok assms(2,3)])
    fix s'
    assume w: "ln_nvds_write s off bs = Some (NVDS_ERR_OK, s')" and ok': "nvds_ok s'"
      and s': "s' = s\<lparr>nv_dev := nv_dev s'\<rparr>"
      and res: "let m = nvds_array (pd_cells (nv_dev s)) (ln_nvds_base s);
         m' = nvds_array (pd_cells (nv_dev s')) (ln_nvds_base s)
     in m' = nvds_update m off bs \<or> (m' = m \<and> (\<exists>k < 4102. pd_power (nv_dev s) = Some k))"
      and pw: "pd_power (nv_dev s) = None \<Longrightarrow> pd_power (nv_dev s') = None"
    from s' have "ln_nvds_base s' = ln_nvds_base s" by (metis nvds.select_convs(1) nvds.surjective nvds.update_convs(3))
    with res m mg ok' have "nvds_holds s' (nvds_update m off bs) \<or>
        (nvds_holds s' m \<and> (\<exists>k < 4102. pd_power (nv_dev s) = Some k))"
      by (auto simp: nvds_holds_def Let_def)
    then show ?thesis by (intro that [OF w _ _ s' pw]) auto
  qed
qed

text \<open>The reads of a store that holds \<open>m\<close>.\<close>

lemma nvds_read_holds:
  assumes "nvds_holds s m" and "off + len \<le> 4096"
  shows "ln_nvds_read s off buf len = Some (NVDS_ERR_OK, fill buf (bslice off len m))"
proof -
  from assms(1) have ok: "nvds_ok s" and mg: "take 4 m = nvds_magic"
    and m: "m = nor_read (pd_cells (nv_dev s)) (nvds_sect (pd_cells (nv_dev s)) (ln_nvds_base s)) 4096"
    by (auto simp: nvds_holds_def nvds_array_def)
  note b = nvds_ok_bounds [OF ok]
  have code: "nvds_get_magic_code s (add_u32 (ln_nvds_base s + 4096) SECT_MAGIC_CODE_OFFSET)
      = Some (le_val (nor_read (pd_cells (nv_dev s)) (ln_nvds_base s + 4096) 4))"
    using b by (simp add: nvds_get_magic_code_def SECT_MAGIC_CODE_OFFSET_def nvds_read_flash_eq)
  have "nor_read (pd_cells (nv_dev s)) (nvds_sect (pd_cells (nv_dev s)) (ln_nvds_base s)) 4 = nvds_magic"
    using m mg by simp
  then have val: "le_val (nor_read (pd_cells (nv_dev s)) (nvds_sect (pd_cells (nv_dev s)) (ln_nvds_base s)) 4)
      = NVDS_SECT_MAGIC_CODE"
    by (simp add: nvds_magic_def le_simps NVDS_SECT_MAGIC_CODE_def)
  have "add_u32 off len = off + len" using assms(2) by (simp add: add_u32_def)
  then show ?thesis
    using b assms(2) m val code
    by (auto simp: ln_nvds_read_def SIZE_4KB_def nvds_get_valid_flag_eq [OF ok] nvds_offsets [OF ok]
        nvds_read_flash_eq nvds_sect_def)
qed

end
