(* ===== verification/Nvds_Param.thy ===== *)
theory Nvds_Param
  imports Nvds_Correct
begin

text \<open>
  The parameters of the non-volatile data store: the getters and setters of \<^verbatim>\<open>ln_nvds.c\<close> and
  the reads of the security area that override some of them.  A setter writes only when the
  value read differs.  The locale \<open>nvds_param\<close> is the contract of one parameter, a byte
  range of the store; every getter and setter pair is an instance.
\<close>

section \<open>The security area\<close>

definition FLASH_OTP_FREQ_OFFSET_POS :: nat where "FLASH_OTP_FREQ_OFFSET_POS = 0"
definition FLASH_OTP_FREQ_OFFSET_LEN :: nat where "FLASH_OTP_FREQ_OFFSET_LEN = 1"
definition FLASH_OTP_TX_POWER_B_POS :: nat where "FLASH_OTP_TX_POWER_B_POS = 1"
definition FLASH_OTP_TX_POWER_B_LEN :: nat where "FLASH_OTP_TX_POWER_B_LEN = 1"
definition FLASH_OTP_TX_POWER_GN_POS :: nat where "FLASH_OTP_TX_POWER_GN_POS = 2"
definition FLASH_OTP_TX_POWER_GN_LEN :: nat where "FLASH_OTP_TX_POWER_GN_LEN = 1"
definition FLASH_OTP_TX_POWER_BGN_POS :: nat where "FLASH_OTP_TX_POWER_BGN_POS = 3"
definition FLASH_OTP_TX_POWER_BGN_LEN :: nat where "FLASH_OTP_TX_POWER_BGN_LEN = 1"
definition FLASH_OTP_PARAM_FLAG_POS :: nat where "FLASH_OTP_PARAM_FLAG_POS = 4"
definition FLASH_OTP_PARAM_FLAG_LEN :: nat where "FLASH_OTP_PARAM_FLAG_LEN = 1"
definition FLASH_OTP_VAL_VAILD :: nat where "FLASH_OTP_VAL_VAILD = 1"
definition FLASH_OTP_MAC_POS :: nat where "FLASH_OTP_MAC_POS = 0x100"
definition FLASH_OTP_MAC_LEN :: nat where "FLASH_OTP_MAC_LEN = 6"

definition ln_fotp_get_param_flag :: "nvds \<Rightarrow> byte list \<Rightarrow> (int \<times> byte list) option" where
  "ln_fotp_get_param_flag s val = do {
     bs \<leftarrow> hal_flash_security_area_read (nv_otp s) FLASH_OTP_PARAM_FLAG_POS FLASH_OTP_PARAM_FLAG_LEN;
     Some (NVDS_ERR_OK, fill val bs)
   }"

definition ln_fotp_param_is_valid :: "nvds \<Rightarrow> bool option" where
  "ln_fotp_param_is_valid s = do {
     (r, flag) \<leftarrow> ln_fotp_get_param_flag s [0];
     Some (le_val flag = FLASH_OTP_VAL_VAILD)
   }"

definition ln_fotp_get_xtal_comp_val :: "nvds \<Rightarrow> byte list \<Rightarrow> (int \<times> byte list) option" where
  "ln_fotp_get_xtal_comp_val s val = do {
     bs \<leftarrow> hal_flash_security_area_read (nv_otp s) FLASH_OTP_FREQ_OFFSET_POS FLASH_OTP_FREQ_OFFSET_LEN;
     Some (NVDS_ERR_OK, fill val bs)
   }"

definition ln_fotp_get_tx_power_b_comp_val :: "nvds \<Rightarrow> byte list \<Rightarrow> (int \<times> byte list) option" where
  "ln_fotp_get_tx_power_b_comp_val s val = do {
     bs \<leftarrow> hal_flash_security_area_read (nv_otp s) FLASH_OTP_TX_POWER_B_POS FLASH_OTP_TX_POWER_B_LEN;
     Some (NVDS_ERR_OK, fill val bs)
   }"

definition ln_fotp_get_tx_power_gn_comp_val :: "nvds \<Rightarrow> byte list \<Rightarrow> (int \<times> byte list) option" where
  "ln_fotp_get_tx_power_gn_comp_val s val = do {
     bs \<leftarrow> hal_flash_security_area_read (nv_otp s) FLASH_OTP_TX_POWER_GN_POS FLASH_OTP_TX_POWER_GN_LEN;
     Some (NVDS_ERR_OK, fill val bs)
   }"

definition ln_fotp_get_tx_power_bgn_comp_val :: "nvds \<Rightarrow> byte list \<Rightarrow> (int \<times> byte list) option" where
  "ln_fotp_get_tx_power_bgn_comp_val s val = do {
     bs \<leftarrow> hal_flash_security_area_read (nv_otp s) FLASH_OTP_TX_POWER_BGN_POS FLASH_OTP_TX_POWER_BGN_LEN;
     Some (NVDS_ERR_OK, fill val bs)
   }"

definition ln_fotp_get_mac_val :: "nvds \<Rightarrow> byte list \<Rightarrow> (int \<times> byte list) option" where
  "ln_fotp_get_mac_val s val = do {
     bs \<leftarrow> hal_flash_security_area_read (nv_otp s) FLASH_OTP_MAC_POS FLASH_OTP_MAC_LEN;
     Some (NVDS_ERR_OK, fill val bs)
   }"

section \<open>Getters and setters\<close>

definition ln_nvds_get_ota_upg_state :: "nvds \<Rightarrow> byte list \<Rightarrow> (int \<times> byte list) option" where
  "ln_nvds_get_ota_upg_state s val = ln_nvds_read s NV1_OTA_UPG_STATE_OFFST val NV1_OTA_UPG_STATE_LEN"

definition ln_nvds_set_ota_upg_state :: "nvds \<Rightarrow> nat \<Rightarrow> (int \<times> nvds) option" where
  "ln_nvds_set_ota_upg_state s val = do {
     (r, rd_val) \<leftarrow> ln_nvds_get_ota_upg_state s (le_bytes 4 0);
     if r = NVDS_ERR_OK \<and> le_val rd_val = val then Some (NVDS_ERR_OK, s)
     else ln_nvds_write s NV1_OTA_UPG_STATE_OFFST (take NV1_OTA_UPG_STATE_LEN (le_bytes 4 val))
   }"

definition ln_nvds_get_xtal_comp_val :: "nvds \<Rightarrow> byte list \<Rightarrow> (int \<times> byte list) option" where
  "ln_nvds_get_xtal_comp_val s val = do {
     otp \<leftarrow> ln_fotp_param_is_valid s;
     if otp then ln_fotp_get_xtal_comp_val s val
     else ln_nvds_read s NV2_XTAL_COMP_VAL_OFFST val NV2_XTAL_COMP_VAL_LEN
   }"

definition ln_nvds_set_xtal_comp_val :: "nvds \<Rightarrow> nat \<Rightarrow> (int \<times> nvds) option" where
  "ln_nvds_set_xtal_comp_val s val = do {
     (r, rd_val) \<leftarrow> ln_nvds_get_xtal_comp_val s (le_bytes 1 0);
     if r = NVDS_ERR_OK \<and> le_val rd_val = val then Some (NVDS_ERR_OK, s)
     else ln_nvds_write s NV2_XTAL_COMP_VAL_OFFST (take NV2_XTAL_COMP_VAL_LEN (le_bytes 1 val))
   }"

definition ln_nvds_get_tx_power_comp :: "nvds \<Rightarrow> byte list \<Rightarrow> (int \<times> byte list) option" where
  "ln_nvds_get_tx_power_comp s val = do {
     otp \<leftarrow> ln_fotp_param_is_valid s;
     (r, val') \<leftarrow> (if otp then ln_fotp_get_tx_power_bgn_comp_val s val
                   else ln_nvds_read s NV3_TX_POWER_COMP_OFFST val NV3_TX_POWER_COMP_LEN);
     Some (NVDS_ERR_OK, val')
   }"

definition ln_nvds_set_tx_power_comp :: "nvds \<Rightarrow> nat \<Rightarrow> (int \<times> nvds) option" where
  "ln_nvds_set_tx_power_comp s val = do {
     (r, rd_val) \<leftarrow> ln_nvds_get_tx_power_comp s (le_bytes 1 0);
     if r = NVDS_ERR_OK \<and> le_val rd_val = val then Some (NVDS_ERR_OK, s)
     else ln_nvds_write s NV3_TX_POWER_COMP_OFFST (take NV3_TX_POWER_COMP_LEN (le_bytes 1 val))
   }"

definition ln_nvds_get_chip_sn :: "nvds \<Rightarrow> byte list \<Rightarrow> nat \<Rightarrow> (int \<times> byte list) option" where
  "ln_nvds_get_chip_sn s sn_buf buf_len =
     (let len = (if NV4_CHIP_SN_LEN > buf_len then buf_len else NV4_CHIP_SN_LEN)
      in ln_nvds_read s NV4_CHIP_SN_OFFSET sn_buf len)"

definition ln_nvds_set_chip_sn :: "nvds \<Rightarrow> byte list \<Rightarrow> (int \<times> nvds) option" where
  "ln_nvds_set_chip_sn s sn = do {
     (r, rd_val) \<leftarrow> ln_nvds_get_chip_sn s (replicate NV4_CHIP_SN_LEN 0) NV4_CHIP_SN_LEN;
     if r = NVDS_ERR_OK \<and> take NV4_CHIP_SN_LEN rd_val = take NV4_CHIP_SN_LEN sn then Some (NVDS_ERR_OK, s)
     else ln_nvds_write s NV4_CHIP_SN_OFFSET (take NV4_CHIP_SN_LEN sn)
   }"

definition ln_nvds_get_boot_log_uart_baudrate :: "nvds \<Rightarrow> byte list \<Rightarrow> (int \<times> byte list) option" where
  "ln_nvds_get_boot_log_uart_baudrate s val = ln_nvds_read s NV5_BOOT_LOG_UART_BR_OFFSET val NV5_BOOT_LOG_UART_BR_LEN"

definition ln_nvds_set_boot_log_uart_baudrate :: "nvds \<Rightarrow> nat \<Rightarrow> (int \<times> nvds) option" where
  "ln_nvds_set_boot_log_uart_baudrate s val = do {
     (r, rd_val) \<leftarrow> ln_nvds_get_boot_log_uart_baudrate s (le_bytes 4 0);
     if r = NVDS_ERR_OK \<and> le_val rd_val = val then Some (NVDS_ERR_OK, s)
     else ln_nvds_write s NV5_BOOT_LOG_UART_BR_OFFSET (take NV5_BOOT_LOG_UART_BR_LEN (le_bytes 4 val))
   }"

definition ln_nvds_get_boot_log_en :: "nvds \<Rightarrow> byte list \<Rightarrow> (int \<times> byte list) option" where
  "ln_nvds_get_boot_log_en s val = ln_nvds_read s NV6_BOOT_LOG_EN_OFFSET val NV6_BOOT_LOG_EN_LEN"

definition ln_nvds_set_boot_log_en :: "nvds \<Rightarrow> nat \<Rightarrow> (int \<times> nvds) option" where
  "ln_nvds_set_boot_log_en s val = do {
     (r, rd_val) \<leftarrow> ln_nvds_get_boot_log_en s (le_bytes 1 0);
     if r = NVDS_ERR_OK \<and> le_val rd_val = val then Some (NVDS_ERR_OK, s)
     else ln_nvds_write s NV6_BOOT_LOG_EN_OFFSET (take NV6_BOOT_LOG_EN_LEN (le_bytes 1 val))
   }"

definition ln_nvds_get_boot_delay_ms :: "nvds \<Rightarrow> byte list \<Rightarrow> (int \<times> byte list) option" where
  "ln_nvds_get_boot_delay_ms s val = ln_nvds_read s NV7_BOOT_DELAY_MS_OFFSET val NV7_BOOT_DELAY_MS_LEN"

definition ln_nvds_set_boot_delay_ms :: "nvds \<Rightarrow> nat \<Rightarrow> (int \<times> nvds) option" where
  "ln_nvds_set_boot_delay_ms s val = do {
     (r, rd_val) \<leftarrow> ln_nvds_get_boot_delay_ms s (le_bytes 2 0);
     if r = NVDS_ERR_OK \<and> le_val rd_val = val then Some (NVDS_ERR_OK, s)
     else ln_nvds_write s NV7_BOOT_DELAY_MS_OFFSET (take NV7_BOOT_DELAY_MS_LEN (le_bytes 2 val))
   }"

definition ln_nvds_get_boot_delay_en :: "nvds \<Rightarrow> byte list \<Rightarrow> (int \<times> byte list) option" where
  "ln_nvds_get_boot_delay_en s val = ln_nvds_read s NV8_BOOT_DELAY_EN_OFFSET val NV8_BOOT_DELAY_EN_LEN"

definition ln_nvds_set_boot_delay_en :: "nvds \<Rightarrow> nat \<Rightarrow> (int \<times> nvds) option" where
  "ln_nvds_set_boot_delay_en s val = do {
     (r, rd_val) \<leftarrow> ln_nvds_get_boot_delay_en s (le_bytes 1 0);
     if r = NVDS_ERR_OK \<and> le_val rd_val = val then Some (NVDS_ERR_OK, s)
     else ln_nvds_write s NV8_BOOT_DELAY_EN_OFFSET (take NV8_BOOT_DELAY_EN_LEN (le_bytes 1 val))
   }"

definition ln_nvds_get_ate_result :: "nvds \<Rightarrow> byte list \<Rightarrow> (int \<times> byte list) option" where
  "ln_nvds_get_ate_result s val = do {
     otp \<leftarrow> ln_fotp_param_is_valid s;
     if otp then Some (NVDS_ERR_OK, fill val [NV9_ATE_RESULT_OK])
     else ln_nvds_read s NV9_ATE_RESULT_OFFSET val NV9_ATE_RESULT_LEN
   }"

definition ln_nvds_set_ate_result :: "nvds \<Rightarrow> nat \<Rightarrow> (int \<times> nvds) option" where
  "ln_nvds_set_ate_result s val = do {
     (r, rd_val) \<leftarrow> ln_nvds_get_ate_result s (le_bytes 1 0);
     if r = NVDS_ERR_OK \<and> le_val rd_val = val then Some (NVDS_ERR_OK, s)
     else ln_nvds_write s NV9_ATE_RESULT_OFFSET (take NV9_ATE_RESULT_LEN (le_bytes 1 val))
   }"

definition ln_nvds_get_tx_power_b_comp :: "nvds \<Rightarrow> byte list \<Rightarrow> (int \<times> byte list) option" where
  "ln_nvds_get_tx_power_b_comp s val = do {
     otp \<leftarrow> ln_fotp_param_is_valid s;
     if otp then ln_fotp_get_tx_power_b_comp_val s val
     else ln_nvds_read s NV10_TX_POWER_COMP_B_OFFST val NV10_TX_POWER_COMP_B_LEN
   }"

definition ln_nvds_set_tx_power_b_comp :: "nvds \<Rightarrow> nat \<Rightarrow> (int \<times> nvds) option" where
  "ln_nvds_set_tx_power_b_comp s val = do {
     (r, rd_val) \<leftarrow> ln_nvds_get_tx_power_b_comp s (le_bytes 1 0);
     if r = NVDS_ERR_OK \<and> le_val rd_val = val then Some (NVDS_ERR_OK, s)
     else ln_nvds_write s NV10_TX_POWER_COMP_B_OFFST (take NV10_TX_POWER_COMP_B_LEN (le_bytes 1 val))
   }"

definition ln_nvds_get_tx_power_gn_comp :: "nvds \<Rightarrow> byte list \<Rightarrow> (int \<times> byte list) option" where
  "ln_nvds_get_tx_power_gn_comp s val = do {
     otp \<leftarrow> ln_fotp_param_is_valid s;
     if otp then ln_fotp_get_tx_power_gn_comp_val s val
     else ln_nvds_read s NV11_TX_POWER_COMP_GN_OFFST val NV11_TX_POWER_COMP_GN_LEN
   }"

definition ln_nvds_set_tx_power_gn_comp :: "nvds \<Rightarrow> nat \<Rightarrow> (int \<times> nvds) option" where
  "ln_nvds_set_tx_power_gn_comp s val = do {
     (r, rd_val) \<leftarrow> ln_nvds_get_tx_power_gn_comp s (le_bytes 1 0);
     if r = NVDS_ERR_OK \<and> le_val rd_val = val then Some (NVDS_ERR_OK, s)
     else ln_nvds_write s NV11_TX_POWER_COMP_GN_OFFST (take NV11_TX_POWER_COMP_GN_LEN (le_bytes 1 val))
   }"

section \<open>The contract of a parameter\<close>

lemma nvds_update_same:
  assumes "length m = 4096" and "4 \<le> off" and "off + length bs \<le> 4096"
    and "bslice off (length bs) m = bs" and "take 4 m = nvds_magic"
  shows "nvds_update m off bs = m"
proof (rule nth_equalityI)
  show "length (nvds_update m off bs) = length m" using assms by simp
next
  fix x
  assume "x < length (nvds_update m off bs)"
  then have x: "x < 4096" using assms by simp
  have "nvds_magic ! x = m ! x" if "x < 4"
    using that assms(5) by (metis nth_take)
  moreover have "bs ! (x - off) = m ! x" if "off \<le> x" "x < off + length bs"
    using that assms nth_bslice [of off "length bs" m "x - off"] by simp
  ultimately show "nvds_update m off bs ! x = m ! x"
    using assms x by (simp add: nth_nvds_update)
qed

lemma bslice_update_same:
  assumes "length m = 4096" and "4 \<le> off" and "off + length bs \<le> 4096"
  shows "bslice off (length bs) (nvds_update m off bs) = bs"
  using assms by (intro nth_equalityI) (simp_all add: nth_bslice nth_nvds_update)

lemma bslice_update_other:
  assumes "length m = 4096" and "4 \<le> off" and "off + length bs \<le> 4096"
    and "4 \<le> a" and "a + n \<le> 4096" and "a + n \<le> off \<or> off + length bs \<le> a"
  shows "bslice a n (nvds_update m off bs) = bslice a n m"
  using assms by (intro nth_equalityI) (auto simp: nth_bslice nth_nvds_update)

lemma holds_length [simp]: "nvds_holds s m \<Longrightarrow> length m = 4096"
  by (auto simp: nvds_holds_def nvds_array_def)

lemma holds_magic: "nvds_holds s m \<Longrightarrow> take 4 m = nvds_magic"
  by (simp add: nvds_holds_def)

text \<open>
  A parameter of \<open>len\<close> bytes at \<open>off\<close>, whose getter and setter act on the store in the states
  where it is \<open>usable\<close> (not overridden by the security area).
\<close>

locale nvds_param =
  fixes get :: "nvds \<Rightarrow> byte list \<Rightarrow> (int \<times> byte list) option"
    and set' :: "nvds \<Rightarrow> nat \<Rightarrow> (int \<times> nvds) option"
    and off :: nat and len :: nat and usable :: "nvds \<Rightarrow> bool"
  assumes range: "4 \<le> off" "off + len \<le> 4096"
    and get_eq: "nvds_holds s m \<Longrightarrow> usable s \<Longrightarrow> length buf = len \<Longrightarrow>
      get s buf = Some (NVDS_ERR_OK, bslice off len m)"
    and set_eq: "nvds_holds s m \<Longrightarrow> usable s \<Longrightarrow> v < 256 ^ len \<Longrightarrow>
      set' s v = (if bslice off len m = le_bytes len v then Some (NVDS_ERR_OK, s)
                  else ln_nvds_write s off (le_bytes len v))"
    and usable_dev: "usable (s\<lparr>nv_dev := d\<rparr>) = usable s"
begin

lemma set_holds:
  assumes h: "nvds_holds s m" and u: "usable s" and v: "v < 256 ^ len" and pw: "pd_power (nv_dev s) = None"
  obtains s' where "set' s v = Some (NVDS_ERR_OK, s')" "nvds_holds s' (nvds_update m off (le_bytes len v))"
    "s' = s\<lparr>nv_dev := nv_dev s'\<rparr>" "pd_power (nv_dev s') = None"
proof (cases "bslice off len m = le_bytes len v")
  case True
  then have "nvds_update m off (le_bytes len v) = m"
    using nvds_update_same [of m off "le_bytes len v"] h range by (simp add: holds_magic)
  then show ?thesis
    using True set_eq [OF h u v] h pw by (intro that [of s]) simp_all
next
  case False
  have "off + length (le_bytes len v) \<le> 4096" using range by simp
  from nvds_write_holds [OF h range(1) this] obtain s' where
    "ln_nvds_write s off (le_bytes len v) = Some (NVDS_ERR_OK, s')"
    "nvds_holds s' (nvds_update m off (le_bytes len v))"
    "s' = s\<lparr>nv_dev := nv_dev s'\<rparr>" "pd_power (nv_dev s') = None"
    using pw by metis
  then show ?thesis
    using False set_eq [OF h u v] by (intro that [of s']) simp_all
qed

lemma set_get:
  assumes h: "nvds_holds s m" and u: "usable s" and v: "v < 256 ^ len" and pw: "pd_power (nv_dev s) = None"
    and buf: "length buf = len"
  shows "do { (r, s') \<leftarrow> set' s v; get s' buf } = Some (NVDS_ERR_OK, le_bytes len v)"
proof (rule set_holds [OF h u v pw])
  fix s'
  assume s: "set' s v = Some (NVDS_ERR_OK, s')" and h': "nvds_holds s' (nvds_update m off (le_bytes len v))"
    and s': "s' = s\<lparr>nv_dev := nv_dev s'\<rparr>"
  from s' usable_dev u have "usable s'" by metis
  from get_eq [OF h' this buf] bslice_update_same [of m off "le_bytes len v"] h range s show ?thesis
    by simp
qed

text \<open>Setting it keeps every range that it does not overlap.\<close>

lemma set_other:
  assumes h: "nvds_holds s m" and u: "usable s" and v: "v < 256 ^ len" and pw: "pd_power (nv_dev s) = None"
    and r: "4 \<le> a" "a + n \<le> 4096" "a + n \<le> off \<or> off + len \<le> a"
  shows "do { (r, s') \<leftarrow> set' s v; ln_nvds_read s' a buf n } = ln_nvds_read s a buf n"
proof (rule set_holds [OF h u v pw])
  fix s'
  assume s: "set' s v = Some (NVDS_ERR_OK, s')" and h': "nvds_holds s' (nvds_update m off (le_bytes len v))"
  have "bslice a n (nvds_update m off (le_bytes len v)) = bslice a n m"
    using h range r by (intro bslice_update_other) simp_all
  then show ?thesis
    using s h h' r by (simp add: nvds_read_holds)
qed

end

text \<open>The security area is not in force.\<close>

definition otp_off :: "nvds \<Rightarrow> bool" where
  "otp_off s \<longleftrightarrow> unat (nv_otp s 4) \<noteq> FLASH_OTP_VAL_VAILD"

lemma otp_valid_eq: "ln_fotp_param_is_valid s = Some (\<not> otp_off s)"
  by (simp add: ln_fotp_param_is_valid_def ln_fotp_get_param_flag_def hal_simps FLASH_OTP_PARAM_FLAG_POS_def
      FLASH_OTP_PARAM_FLAG_LEN_def FLASH_SECURITY_SIZE_MAX_def otp_off_def nor_read_def)

lemma le_val_eq_iff: "length bs = n \<Longrightarrow> v < 256 ^ n \<Longrightarrow> le_val bs = v \<longleftrightarrow> bs = le_bytes n v"
  by (metis le_bytes_le_val le_val_le_bytes mod_less)

lemma take_le_bytes_all [simp]: "take n (le_bytes n v) = le_bytes n v"
  by simp

lemmas nv_consts =
  SECT_MAGIC_CODE_OFFSET_def SECT_MAGIC_CODE_LEN_def NV0_NVDS_VERSION_OFFST_def NV0_NVDS_VERSION_LEN_def
  NV1_OTA_UPG_STATE_OFFST_def NV1_OTA_UPG_STATE_LEN_def
  NV2_XTAL_COMP_VAL_OFFST_def NV2_XTAL_COMP_VAL_LEN_def
  NV3_TX_POWER_COMP_OFFST_def NV3_TX_POWER_COMP_LEN_def
  NV4_CHIP_SN_OFFSET_def NV4_CHIP_SN_LEN_def
  NV5_BOOT_LOG_UART_BR_OFFSET_def NV5_BOOT_LOG_UART_BR_LEN_def
  NV6_BOOT_LOG_EN_OFFSET_def NV6_BOOT_LOG_EN_LEN_def
  NV7_BOOT_DELAY_MS_OFFSET_def NV7_BOOT_DELAY_MS_LEN_def
  NV8_BOOT_DELAY_EN_OFFSET_def NV8_BOOT_DELAY_EN_LEN_def
  NV9_ATE_RESULT_OFFSET_def NV9_ATE_RESULT_LEN_def
  NV10_TX_POWER_COMP_B_OFFST_def NV10_TX_POWER_COMP_B_LEN_def
  NV11_TX_POWER_COMP_GN_OFFST_def NV11_TX_POWER_COMP_GN_LEN_def

interpretation nv_ota_upg_state: nvds_param ln_nvds_get_ota_upg_state ln_nvds_set_ota_upg_state NV1_OTA_UPG_STATE_OFFST NV1_OTA_UPG_STATE_LEN "(\<lambda>_. True)"
  by unfold_locales
    (auto simp: ln_nvds_get_ota_upg_state_def ln_nvds_set_ota_upg_state_def nvds_read_holds otp_valid_eq nv_consts le_val_eq_iff otp_off_def NVDS_ERR_OK_def)

interpretation nv_xtal_comp: nvds_param ln_nvds_get_xtal_comp_val ln_nvds_set_xtal_comp_val NV2_XTAL_COMP_VAL_OFFST NV2_XTAL_COMP_VAL_LEN "otp_off"
  by unfold_locales
    (auto simp: ln_nvds_get_xtal_comp_val_def ln_nvds_set_xtal_comp_val_def nvds_read_holds otp_valid_eq nv_consts le_val_eq_iff otp_off_def NVDS_ERR_OK_def)

interpretation nv_tx_power_comp: nvds_param ln_nvds_get_tx_power_comp ln_nvds_set_tx_power_comp NV3_TX_POWER_COMP_OFFST NV3_TX_POWER_COMP_LEN "otp_off"
  by unfold_locales
    (auto simp: ln_nvds_get_tx_power_comp_def ln_nvds_set_tx_power_comp_def nvds_read_holds otp_valid_eq nv_consts le_val_eq_iff otp_off_def NVDS_ERR_OK_def)

interpretation nv_chip_sn: nvds_param "\<lambda>s buf. ln_nvds_get_chip_sn s buf NV4_CHIP_SN_LEN" "\<lambda>s v. ln_nvds_set_chip_sn s (le_bytes NV4_CHIP_SN_LEN v)" NV4_CHIP_SN_OFFSET NV4_CHIP_SN_LEN "(\<lambda>_. True)"
  by unfold_locales
    (auto simp: ln_nvds_get_chip_sn_def ln_nvds_set_chip_sn_def nvds_read_holds otp_valid_eq nv_consts le_val_eq_iff otp_off_def NVDS_ERR_OK_def)

interpretation nv_boot_log_en: nvds_param ln_nvds_get_boot_log_en ln_nvds_set_boot_log_en NV6_BOOT_LOG_EN_OFFSET NV6_BOOT_LOG_EN_LEN "(\<lambda>_. True)"
  by unfold_locales
    (auto simp: ln_nvds_get_boot_log_en_def ln_nvds_set_boot_log_en_def nvds_read_holds otp_valid_eq nv_consts le_val_eq_iff otp_off_def NVDS_ERR_OK_def)

interpretation nv_boot_delay_ms: nvds_param ln_nvds_get_boot_delay_ms ln_nvds_set_boot_delay_ms NV7_BOOT_DELAY_MS_OFFSET NV7_BOOT_DELAY_MS_LEN "(\<lambda>_. True)"
  by unfold_locales
    (auto simp: ln_nvds_get_boot_delay_ms_def ln_nvds_set_boot_delay_ms_def nvds_read_holds otp_valid_eq nv_consts le_val_eq_iff otp_off_def NVDS_ERR_OK_def)

interpretation nv_boot_delay_en: nvds_param ln_nvds_get_boot_delay_en ln_nvds_set_boot_delay_en NV8_BOOT_DELAY_EN_OFFSET NV8_BOOT_DELAY_EN_LEN "(\<lambda>_. True)"
  by unfold_locales
    (auto simp: ln_nvds_get_boot_delay_en_def ln_nvds_set_boot_delay_en_def nvds_read_holds otp_valid_eq nv_consts le_val_eq_iff otp_off_def NVDS_ERR_OK_def)

interpretation nv_ate_result: nvds_param ln_nvds_get_ate_result ln_nvds_set_ate_result NV9_ATE_RESULT_OFFSET NV9_ATE_RESULT_LEN "otp_off"
  by unfold_locales
    (auto simp: ln_nvds_get_ate_result_def ln_nvds_set_ate_result_def nvds_read_holds otp_valid_eq nv_consts le_val_eq_iff otp_off_def NVDS_ERR_OK_def)

interpretation nv_tx_power_b_comp: nvds_param ln_nvds_get_tx_power_b_comp ln_nvds_set_tx_power_b_comp NV10_TX_POWER_COMP_B_OFFST NV10_TX_POWER_COMP_B_LEN "otp_off"
  by unfold_locales
    (auto simp: ln_nvds_get_tx_power_b_comp_def ln_nvds_set_tx_power_b_comp_def nvds_read_holds otp_valid_eq nv_consts le_val_eq_iff otp_off_def NVDS_ERR_OK_def)

interpretation nv_tx_power_gn_comp: nvds_param ln_nvds_get_tx_power_gn_comp ln_nvds_set_tx_power_gn_comp NV11_TX_POWER_COMP_GN_OFFST NV11_TX_POWER_COMP_GN_LEN "otp_off"
  by unfold_locales
    (auto simp: ln_nvds_get_tx_power_gn_comp_def ln_nvds_set_tx_power_gn_comp_def nvds_read_holds otp_valid_eq nv_consts le_val_eq_iff otp_off_def NVDS_ERR_OK_def)

section \<open>Initialisation\<close>

lemma nvds_read_eq:
  assumes "nvds_ok s" and "off + len \<le> 4096"
  defines "fl \<equiv> pd_cells (nv_dev s)" and "base \<equiv> ln_nvds_base s"
  shows "ln_nvds_read s off buf len =
    (if nvds_flag fl base \<in> {NVDS_SECT1_VALID, NVDS_SECT2_VALID}
        \<or> nor_read fl (base + 4096) 4 = nvds_magic
     then Some (NVDS_ERR_OK, fill buf (bslice off len (nvds_array fl base)))
     else Some (NVDS_ERR_FAIL, buf))"
proof -
  note b = nvds_ok_bounds [OF assms(1)]
  have "NVDS_SECT_MAGIC_CODE < 256 ^ 4" by (simp add: NVDS_SECT_MAGIC_CODE_def)
  then have code: "nvds_get_magic_code s (add_u32 (base + 4096) SECT_MAGIC_CODE_OFFSET) = Some NVDS_SECT_MAGIC_CODE
      \<longleftrightarrow> nor_read fl (base + 4096) 4 = nvds_magic"
    and some: "\<exists>c. nvds_get_magic_code s (add_u32 (base + 4096) SECT_MAGIC_CODE_OFFSET) = Some c"
    using b by (simp_all add: nvds_get_magic_code_def SECT_MAGIC_CODE_OFFSET_def nvds_read_flash_eq
        le_val_eq_iff nvds_magic_def fl_def base_def)
  have "add_u32 off len = off + len" using assms(2) by (simp add: add_u32_def)
  then show ?thesis
    using b assms(2) code some
    by (auto simp: ln_nvds_read_def SIZE_4KB_def nvds_get_valid_flag_eq [OF assms(1)] nvds_offsets [OF assms(1)]
        nvds_read_flash_eq nvds_sect_def nvds_array_def fl_def base_def)
qed

lemma nvds_erased_array:
  assumes "4096 dvd base"
  shows "nvds_array (nor_erase fl base 12288) base = replicate 4096 (- 1)"
  by (simp add: nvds_array_def nvds_sect_def nor_read_blank blank_erase_sub)

text \<open>The parameters of a store that has just been set up: everything erased but the version.\<close>

definition nvds_default :: "byte list" where
  "nvds_default = nvds_update (replicate 4096 (- 1)) 4 NV0_NVDS_VERSION_STR"

lemma nvds_init_fresh_aux:
  assumes base: "4096 dvd base" "base + 12288 \<le> FALSH_SIZE_MAX" and pw: "pd_power (nv_dev s) = None"
    and flag: "nvds_flag (pd_cells (nv_dev s)) base \<notin> {NVDS_SECT1_VALID, NVDS_SECT2_VALID}"
    and magic: "nor_read (pd_cells (nv_dev s)) (base + 4096) 4 \<noteq> nvds_magic"
  obtains s' where "ln_nvds_init s base = Some (NVDS_ERR_OK, s')" "nvds_holds s' nvds_default"
    "ln_nvds_ver s' = ln_nvds_ver s"
proof -
  let ?s1 = "s\<lparr>ln_nvds_base := base\<rparr>"
  let ?s2 = "?s1\<lparr>nv_dev := run_ops (erase_ops base 12288) (nv_dev s)\<rparr>"
  have ok1: "nvds_ok ?s1" and ok2: "nvds_ok ?s2" using base by (simp_all add: nvds_ok_def)
  have rd: "ln_nvds_read ?s1 4 (ln_nvds_ver s) 16 = Some (NVDS_ERR_FAIL, ln_nvds_ver s)"
    using nvds_read_eq [OF ok1, of 4 16 "ln_nvds_ver s"] flag magic by simp
  have er: "nvds_erase_flash (?s1\<lparr>ln_nvds_ver := ln_nvds_ver s\<rparr>) base 12288 = Some ?s2"
    using base by (simp add: nvds_erase_flash_eq)
  have len: "length NV0_NVDS_VERSION_STR = 10" by (simp add: NV0_NVDS_VERSION_STR_def)
  have eq: "ln_nvds_init s base = ln_nvds_write ?s2 4 NV0_NVDS_VERSION_STR"
    using rd er by (simp add: ln_nvds_init_def nv_consts len u8_def SIZE_4KB_def NVDS_ERR_FAIL_def NVDS_ERR_OK_def)
  have cells: "pd_cells (nv_dev ?s2) = nor_erase (pd_cells (nv_dev s)) base 12288"
    using pw by (simp add: run_ops_def mops_erase_ops)
  have pw2: "pd_power (nv_dev ?s2) = None" using pw by (simp add: run_ops_def)
  show ?thesis
  proof (rule nvds_write_cases [OF ok2, of 4 NV0_NVDS_VERSION_STR])
    fix s'
    assume w: "ln_nvds_write ?s2 4 NV0_NVDS_VERSION_STR = Some (NVDS_ERR_OK, s')" and ok': "nvds_ok s'"
      and s': "s' = ?s2\<lparr>nv_dev := nv_dev s'\<rparr>"
      and res: "let m = nvds_array (pd_cells (nv_dev ?s2)) (ln_nvds_base ?s2);
         m' = nvds_array (pd_cells (nv_dev s')) (ln_nvds_base ?s2)
       in m' = nvds_update m 4 NV0_NVDS_VERSION_STR \<or> (m' = m \<and> (\<exists>k < 4102. pd_power (nv_dev ?s2) = Some k))"
    from s' have b': "ln_nvds_base s' = base" and v': "ln_nvds_ver s' = ln_nvds_ver s"
      by (metis nvds.select_convs nvds.surjective nvds.update_convs)+
    from res have "nvds_array (pd_cells (nv_dev s')) base = nvds_default"
      using pw2 cells base by (simp add: Let_def nvds_default_def nvds_erased_array)
    then have "nvds_holds s' nvds_default"
      using ok' b' by (simp add: nvds_holds_def nvds_default_def)
    then show ?thesis using that w eq v' by metis
  qed (simp_all add: len)
qed

section \<open>Example stores\<close>

definition nvds_blank :: nvds where
  "nvds_blank = \<lparr>ln_nvds_base = 0, ln_nvds_ver = replicate 16 0,
     nv_dev = \<lparr>pd_cells = (\<lambda>_. - 1), pd_power = None, pd_torn = (\<lambda>_. 0)\<rparr>, nv_otp = (\<lambda>_. 0)\<rparr>"

text \<open>The second sector holds the magic code only; \<open>p\<close> is the power left.\<close>

definition nvds_example :: "nat option \<Rightarrow> nvds" where
  "nvds_example p = nvds_blank\<lparr>nv_dev :=
     \<lparr>pd_cells = nor_write (\<lambda>_. - 1) 4096 nvds_magic, pd_power = p, pd_torn = (\<lambda>_. 0)\<rparr>\<rparr>"

lemma blank_reads:
  "le_val (nor_read (\<lambda>_. - 1) a 2) = 65535" "nor_read (\<lambda>_. - 1) 4096 4 \<noteq> nvds_magic"
proof -
  show "le_val (nor_read (\<lambda>_. - 1) a 2) = 65535"
    by (simp add: nor_read_blank blank_def le_simps)
  have "le_val (nor_read (\<lambda>_. - 1) 4096 4) \<noteq> le_val nvds_magic"
    by (simp add: nor_read_blank blank_def le_simps nvds_magic_def NVDS_SECT_MAGIC_CODE_def)
  then show "nor_read (\<lambda>_. - 1) 4096 4 \<noteq> nvds_magic" by metis
qed

lemma nvds_example_holds:
  "nvds_holds (nvds_example p) (nor_read (nor_write (\<lambda>_. - 1) 4096 nvds_magic) 4096 4096)"
proof -
  let ?fl = "nor_write (\<lambda>_. - 1) 4096 nvds_magic"
  have "nvds_flag ?fl 0 = 65535"
    by (simp add: nvds_flag_def nor_read_write_other blank_reads)
  moreover have "nor_read ?fl 4096 (length nvds_magic) = nvds_magic"
    by (rule nor_read_write_blank) (simp add: blank_def)
  ultimately show ?thesis
    by (simp add: nvds_holds_def nvds_example_def nvds_blank_def nvds_ok_def FALSH_SIZE_MAX_def
        nvds_array_def nvds_sect_def NVDS_SECT1_VALID_def)
qed

lemma nvds_example_simps [simp]:
  "pd_power (nv_dev (nvds_example p)) = p" "otp_off (nvds_example p)"
  by (simp_all add: nvds_example_def nvds_blank_def otp_off_def FLASH_OTP_VAL_VAILD_def)

lemma baudrate_set_get:
  assumes "nvds_holds s m" and "pd_power (nv_dev s) = None"
  shows "do { (r, t) \<leftarrow> ln_nvds_set_boot_log_uart_baudrate s rate;
              ln_nvds_get_boot_log_uart_baudrate t (le_bytes 4 0) }
    = Some (NVDS_ERR_OK, le_bytes 4 (rate mod 256))"
proof -
  let ?o = "NV5_BOOT_LOG_UART_BR_OFFSET"
  have o: "4 \<le> ?o" "?o + 1 \<le> 4096" by (simp_all add: nv_consts)
  have one: "bslice ?o 1 x = [x ! ?o]" if "length x = 4096" for x :: "byte list"
    using that o by (intro nth_equalityI) (simp_all add: nth_bslice)
  have rd: "ln_nvds_get_boot_log_uart_baudrate t (le_bytes 4 0) = Some (NVDS_ERR_OK, [x ! ?o, 0, 0, 0])"
    if "nvds_holds t x" for t x
    using that o one [of x] by (simp add: ln_nvds_get_boot_log_uart_baudrate_def nvds_read_holds
        NV5_BOOT_LOG_UART_BR_LEN_def le_bytes_4 fill_def)
  have small: "le_val [m ! ?o, 0, 0, 0] = unat (m ! ?o)" by simp
  show ?thesis
  proof (cases "rate = unat (m ! ?o)")
    case True
    then have "ln_nvds_set_boot_log_uart_baudrate s rate = Some (NVDS_ERR_OK, s)"
      using rd [OF assms(1)] small by (simp add: ln_nvds_set_boot_log_uart_baudrate_def)
    moreover have "rate mod 256 = rate" using True unat_byte_less [of "m ! ?o"] by simp
    ultimately show ?thesis using rd [OF assms(1)] True by (simp add: le_bytes_4)
  next
    case False
    then have st: "ln_nvds_set_boot_log_uart_baudrate s rate = ln_nvds_write s ?o [of_nat rate]"
      using rd [OF assms(1)] small by (simp add: ln_nvds_set_boot_log_uart_baudrate_def
          NV5_BOOT_LOG_UART_BR_LEN_def le_bytes_4)
    from nvds_write_holds [OF assms(1) o(1), of "[of_nat rate]"] o(2) assms(2) obtain s' where
      w: "ln_nvds_write s ?o [of_nat rate] = Some (NVDS_ERR_OK, s')"
      and h: "nvds_holds s' (nvds_update m ?o [of_nat rate])"
      by (metis length_Cons list.size(3) One_nat_def)
    have "nvds_update m ?o [of_nat rate] ! ?o = of_nat rate"
      using assms(1) o by (simp add: nth_nvds_update)
    moreover have "(of_nat (rate mod 256) :: byte) = of_nat rate"
      by (simp add: word_unat_eq_iff unat_of_nat_byte)
    ultimately show ?thesis
      using w st rd [OF h] by (simp add: le_bytes_4)
  qed
qed

section \<open>Properties\<close>

text \<open>
  C5: power-fail safety of \<open>ln_nvds_write\<close>.  Whenever the supply fails during a write, and
  whatever a half-erased sector then contains, the store holds all of its old bytes or all
  of the new ones after the restart; and it still is a store that later writes can rely on.
\<close>

theorem nvds_write_atomic:
  assumes "nvds_holds s m" and "4 \<le> off" and "off + length bs \<le> 4096"
  shows "\<exists>s'. ln_nvds_write s off bs = Some (NVDS_ERR_OK, s') \<and>
    (nvds_holds (nvds_power_up s' p) m \<or> nvds_holds (nvds_power_up s' p) (nvds_update m off bs))"
proof -
  have up: "nvds_holds (nvds_power_up t p) x = nvds_holds t x" for t x
    by (simp add: nvds_holds_def nvds_power_up_def nvds_ok_def)
  from nvds_write_holds [OF assms] show ?thesis by (simp add: up) metis
qed

lemma nvds_write_atomic_witness:
  "\<exists>s'. ln_nvds_write (nvds_example (Some 4097)) 20 [1, 2, 3, 4] = Some (NVDS_ERR_OK, s') \<and>
    (\<exists>m. nvds_holds (nvds_power_up s' None) m)"
  using nvds_write_atomic [OF nvds_example_holds [of "Some 4097"], of 20 "[1, 2, 3, 4]" None] by auto

text \<open>
  C24: after a write that is not interrupted, a read of the written range returns the new bytes
  and a read of any range outside it (the magic code apart) returns what it did before.
\<close>

theorem nvds_write_read:
  assumes "nvds_holds s m" and "pd_power (nv_dev s) = None" and "4 \<le> off" and "off + length bs \<le> 4096"
    and "4 \<le> a" and "a + n \<le> 4096" and "a + n \<le> off \<or> off + length bs \<le> a"
  shows "\<exists>s'. ln_nvds_write s off bs = Some (NVDS_ERR_OK, s')
    \<and> ln_nvds_read s' off (replicate (length bs) 0) (length bs) = Some (NVDS_ERR_OK, bs)
    \<and> ln_nvds_read s' a buf n = ln_nvds_read s a buf n"
proof -
  from nvds_write_holds [OF assms(1,3,4)] assms(2) obtain s' where
    w: "ln_nvds_write s off bs = Some (NVDS_ERR_OK, s')" and h: "nvds_holds s' (nvds_update m off bs)"
    by metis
  have "ln_nvds_read s' off (replicate (length bs) 0) (length bs) = Some (NVDS_ERR_OK, bs)"
    using nvds_read_holds [OF h, of off "length bs" "replicate (length bs) 0"] assms
    by (simp add: bslice_update_same)
  moreover have "ln_nvds_read s' a buf n = ln_nvds_read s a buf n"
    using assms by (simp add: nvds_read_holds [OF h] nvds_read_holds [OF assms(1)] bslice_update_other)
  ultimately show ?thesis using w by blast
qed

lemma nvds_write_read_witness:
  "\<exists>s'. ln_nvds_write (nvds_example None) 20 [1, 2, 3, 4] = Some (NVDS_ERR_OK, s')
    \<and> ln_nvds_read s' 20 [0, 0, 0, 0] 4 = Some (NVDS_ERR_OK, [1, 2, 3, 4])"
  using nvds_write_read [OF nvds_example_holds [of None], of 20 "[1, 2, 3, 4]" 4 16 "[]"]
  by (auto simp: numeral_eq_Suc)

text \<open>
  \<open>ln_nvds_init\<close> on a flash without a store (no valid flag, no magic code in the second
  sector) sets up the default one; on a flash that holds a store it changes no cell and
  reads the version.
\<close>

theorem nvds_init_correct:
  assumes "4096 dvd base" and "base + 12288 \<le> FALSH_SIZE_MAX" and "pd_power (nv_dev s) = None"
  shows "(nvds_flag (pd_cells (nv_dev s)) base \<notin> {NVDS_SECT1_VALID, NVDS_SECT2_VALID}
      \<and> nor_read (pd_cells (nv_dev s)) (base + 4096) 4 \<noteq> nvds_magic \<longrightarrow>
      (\<exists>s'. ln_nvds_init s base = Some (NVDS_ERR_OK, s') \<and> nvds_holds s' nvds_default))
    \<and> (nvds_holds (s\<lparr>ln_nvds_base := base\<rparr>) m \<longrightarrow>
      ln_nvds_init s base = Some (NVDS_ERR_OK,
        s\<lparr>ln_nvds_base := base, ln_nvds_ver := fill (ln_nvds_ver s) (bslice 4 16 m)\<rparr>))"
proof
  show "nvds_flag (pd_cells (nv_dev s)) base \<notin> {NVDS_SECT1_VALID, NVDS_SECT2_VALID}
      \<and> nor_read (pd_cells (nv_dev s)) (base + 4096) 4 \<noteq> nvds_magic \<longrightarrow>
      (\<exists>s'. ln_nvds_init s base = Some (NVDS_ERR_OK, s') \<and> nvds_holds s' nvds_default)"
    using nvds_init_fresh_aux [OF assms] by metis
  show "nvds_holds (s\<lparr>ln_nvds_base := base\<rparr>) m \<longrightarrow>
      ln_nvds_init s base = Some (NVDS_ERR_OK,
        s\<lparr>ln_nvds_base := base, ln_nvds_ver := fill (ln_nvds_ver s) (bslice 4 16 m)\<rparr>)"
    by (simp add: ln_nvds_init_def nvds_read_holds nv_consts NVDS_ERR_OK_def)
qed

lemma nvds_init_correct_witness:
  "\<exists>s'. ln_nvds_init nvds_blank 0 = Some (NVDS_ERR_OK, s') \<and> nvds_holds s' nvds_default"
  using nvds_init_correct [of 0 nvds_blank "[]"]
  by (simp add: nvds_blank_def FALSH_SIZE_MAX_def nvds_flag_def blank_reads NVDS_SECT1_VALID_def
      NVDS_SECT2_VALID_def)

text \<open>
  C25: every parameter reads back as it was set, when the security area does not override it and the
  supply does not fail; the baud rate of the boot log, a 32-bit value of which the store keeps one byte,
  reads back modulo 256.
\<close>

theorem nvds_param_set_get:
  assumes "nvds_holds s m" and "otp_off s" and "pd_power (nv_dev s) = None"
    and "w < 2 ^ 32" and "h < 2 ^ 16" and "b < 2 ^ 8" and "length sn = 20"
  shows "do { (r, t) \<leftarrow> ln_nvds_set_ota_upg_state s w; ln_nvds_get_ota_upg_state t (le_bytes 4 0) }
      = Some (NVDS_ERR_OK, le_bytes 4 w)
    \<and> do { (r, t) \<leftarrow> ln_nvds_set_boot_delay_ms s h; ln_nvds_get_boot_delay_ms t (le_bytes 2 0) }
      = Some (NVDS_ERR_OK, le_bytes 2 h)
    \<and> do { (r, t) \<leftarrow> ln_nvds_set_chip_sn s sn; ln_nvds_get_chip_sn t (replicate 20 0) 20 }
      = Some (NVDS_ERR_OK, sn)
    \<and> (\<forall>(set', get) \<in> {(ln_nvds_set_xtal_comp_val, ln_nvds_get_xtal_comp_val),
        (ln_nvds_set_tx_power_comp, ln_nvds_get_tx_power_comp),
        (ln_nvds_set_boot_log_en, ln_nvds_get_boot_log_en),
        (ln_nvds_set_boot_delay_en, ln_nvds_get_boot_delay_en),
        (ln_nvds_set_ate_result, ln_nvds_get_ate_result),
        (ln_nvds_set_tx_power_b_comp, ln_nvds_get_tx_power_b_comp),
        (ln_nvds_set_tx_power_gn_comp, ln_nvds_get_tx_power_gn_comp)}.
        do { (r, t) \<leftarrow> set' s b; get t [0] } = Some (NVDS_ERR_OK, [of_nat b]))
    \<and> do { (r, t) \<leftarrow> ln_nvds_set_boot_log_uart_baudrate s rate;
           ln_nvds_get_boot_log_uart_baudrate t (le_bytes 4 0) }
      = Some (NVDS_ERR_OK, le_bytes 4 (rate mod 256))"
proof -
  have sn: "le_bytes 20 (le_val sn) = sn" using le_bytes_le_val [of sn] assms(7) by simp
  have "le_val sn < 256 ^ 20" using le_val_bound [of sn] assms(7) by simp
  with nv_chip_sn.set_get [OF assms(1) _ _ assms(3), of "le_val sn" "replicate 20 0"] sn
  have 1: "do { (r, t) \<leftarrow> ln_nvds_set_chip_sn s sn; ln_nvds_get_chip_sn t (replicate 20 0) 20 }
      = Some (NVDS_ERR_OK, sn)"
    by (simp add: nv_consts)
  have len: "length [0::byte] = 1" by simp
  have b: "b < 256 ^ 1" using assms(6) by simp
  show ?thesis
    using nv_ota_upg_state.set_get [OF assms(1) _ _ assms(3), of w "le_bytes 4 0"]
      nv_boot_delay_ms.set_get [OF assms(1) _ _ assms(3), of h "le_bytes 2 0"]
      nv_xtal_comp.set_get [OF assms(1,2) _ assms(3), of b "[0]"]
      nv_tx_power_comp.set_get [OF assms(1,2) _ assms(3), of b "[0]"]
      nv_boot_log_en.set_get [OF assms(1) _ _ assms(3), of b "[0]"]
      nv_boot_delay_en.set_get [OF assms(1) _ _ assms(3), of b "[0]"]
      nv_ate_result.set_get [OF assms(1,2) _ assms(3), of b "[0]"]
      nv_tx_power_b_comp.set_get [OF assms(1,2) _ assms(3), of b "[0]"]
      nv_tx_power_gn_comp.set_get [OF assms(1,2) _ assms(3), of b "[0]"]
      assms(4-6) 1 baudrate_set_get [OF assms(1,3), of rate]
    by (simp add: nv_consts)
qed

lemma nvds_param_set_get_witness:
  "do { (r, t) \<leftarrow> ln_nvds_set_ota_upg_state (nvds_example None) 5; ln_nvds_get_ota_upg_state t (le_bytes 4 0) }
    = Some (NVDS_ERR_OK, le_bytes 4 5)"
  using nvds_param_set_get [OF nvds_example_holds [of None], of 5 500 7 "replicate 20 1"] by simp

text \<open>
  The baud rate of the boot log is a 32-bit value of which the store keeps one byte
  (\<^verbatim>\<open>NV5_BOOT_LOG_UART_BR_LEN\<close> is 1): a rate that is set reads back modulo 256.
\<close>

theorem nvds_baudrate_truncated:
  assumes "nvds_holds s m" and "pd_power (nv_dev s) = None" and "256 \<le> rate"
  shows "do { (r, t) \<leftarrow> ln_nvds_set_boot_log_uart_baudrate s rate;
              ln_nvds_get_boot_log_uart_baudrate t (le_bytes 4 0) }
    = Some (NVDS_ERR_OK, le_bytes 4 (rate mod 256))"
  using assms(1,2) by (rule baudrate_set_get)

lemma nvds_baudrate_truncated_witness:
  "do { (r, t) \<leftarrow> ln_nvds_set_boot_log_uart_baudrate (nvds_example None) 115200;
        ln_nvds_get_boot_log_uart_baudrate t (le_bytes 4 0) } = Some (NVDS_ERR_OK, le_bytes 4 0)"
  using nvds_baudrate_truncated [OF nvds_example_holds [of None], of 115200] by simp

text \<open>
  accesses that end behind the sector are refused and change nothing.
\<close>

theorem nvds_bounds:
  assumes "4096 < off + n" and "off + n < 2 ^ 32"
  shows "ln_nvds_read s off buf n = Some (NVDS_ERR_FAIL, buf)
    \<and> (length bs = n \<longrightarrow> ln_nvds_write s off bs = Some (NVDS_ERR_FAIL, s))"
  using assms by (auto simp: ln_nvds_read_def ln_nvds_write_def add_u32_def SIZE_4KB_def)

lemma nvds_bounds_witness:
  "ln_nvds_write nvds_blank 4094 [1, 2, 3] = Some (NVDS_ERR_FAIL, nvds_blank)"
  using nvds_bounds [of 4094 3 nvds_blank "[]" "[1, 2, 3]"] by simp

text \<open>The check itself wraps: a read that starts just below \<open>2 ^ 32\<close> reads before the sector.\<close>

lemma nvds_read_wraps:
  assumes "nvds_holds s m" and "nvds_flag (pd_cells (nv_dev s)) (ln_nvds_base s) = NVDS_SECT1_VALID"
    and "0 < ln_nvds_base s"
  shows "ln_nvds_read s (2 ^ 32 - 1) [0, 0] 2
    = Some (NVDS_ERR_OK, nor_read (pd_cells (nv_dev s)) (ln_nvds_base s - 1) 2)"
proof -
  from assms(1) have ok: "nvds_ok s" by (simp add: nvds_holds_def)
  note b = nvds_ok_bounds [OF ok]
  have "add_u32 (ln_nvds_base s) (2 ^ 32 - 1) = ln_nvds_base s - 1"
  proof -
    have "ln_nvds_base s < 2 ^ 32"
      using b by (simp add: FALSH_SIZE_MAX_def)
    then have "ln_nvds_base s - 1 < 2 ^ 32" by (rule less_imp_diff_less)
    moreover have "ln_nvds_base s + (2 ^ 32 - 1) = ln_nvds_base s - 1 + 2 ^ 32"
      using assms(3) by simp
    ultimately show ?thesis by (simp only: add_u32_def mod_add_self2 mod_less)
  qed
  then show ?thesis
    using b assms by (simp add: ln_nvds_read_def add_u32_def SIZE_4KB_def nvds_get_valid_flag_eq [OF ok]
        nvds_offsets [OF ok] nvds_read_flash_eq)
qed

end
