(* ===== verification/Xz.thy ===== *)
theory Xz
  imports Prelude
begin

text \<open>
  The decompressor of the update agent, \<^verbatim>\<open>components/fota/ota_agent/xz_decompress.c\<close>: an LZMA
  decoder in blocks of 1 KB with a dictionary of at most 32 KB.  It takes its input from a read
  callback and gives every block to a write callback; \<open>cbst\<close> is the state of the caller on
  which they act.

  \<^const>\<open>None\<close> stands for an access outside an array (the probabilities, the dictionary, the
  block), or for a callback that does not return.  The local copies and the pointers of the code
  are records that are passed along; the probability table is the part of the internal buffer
  behind \<^verbatim>\<open>XzVarState\<close>.
\<close>

section \<open>The range decoder\<close>

definition XZ_RET_OK :: int where "XZ_RET_OK = 0"
definition XZ_RET_DATA_ERR :: int where "XZ_RET_DATA_ERR = -1"
definition XZ_RET_NOT_ENOUGH_MEM :: int where "XZ_RET_NOT_ENOUGH_MEM = -2"
definition XZ_RET_STREAM_VER_NOT_SUPP :: int where "XZ_RET_STREAM_VER_NOT_SUPP = -3"
definition XZ_RET_FILE_TOO_LONG :: int where "XZ_RET_FILE_TOO_LONG = -4"
definition XZ_RET_PROPERTIES_ERR :: int where "XZ_RET_PROPERTIES_ERR = -5"

definition INTERNAL_DATA_BUF_SIZE :: nat where "INTERNAL_DATA_BUF_SIZE = 16 * 1024"
definition DICT_BUF_SIZE :: nat where "DICT_BUF_SIZE = 32 * 1024"
definition BLOCK_BUF_SIZE :: nat where "BLOCK_BUF_SIZE = 1 * 1024"

definition XZ_BASE_SIZE :: nat where "XZ_BASE_SIZE = 1846"
definition XZ_LIT_SIZE :: nat where "XZ_LIT_SIZE = 768"
definition kTopValue :: nat where "kTopValue = 2 ^ 24"
definition kNumBitModelTotalBits :: nat where "kNumBitModelTotalBits = 11"
definition kBitModelTotal :: nat where "kBitModelTotal = 2 ^ 11"
definition kNumMoveBits :: nat where "kNumMoveBits = 5"

text \<open>\<open>Buffer\<close> holds the bytes between \<^verbatim>\<open>Buffer\<close> and \<^verbatim>\<open>BufferLim\<close>.\<close>

record CRangeDecoder =
  Buffer :: "byte list"
  Range :: nat
  Code :: nat
  read_cb_ret :: int
  ExtraBytes :: nat

type_synonym 's read_cb = "'s \<Rightarrow> (int \<times> byte list \<times> 's) option"
type_synonym 's write_cb = "nat \<Rightarrow> byte list \<Rightarrow> 's \<Rightarrow> 's option"

text \<open>What the functions on the range decoder change: it, the probabilities and the caller's state.\<close>

record 's xz_rc =
  rdec :: CRangeDecoder
  probs :: "nat list"
  cbst :: 's

definition RangeDecoderReadByte :: "'s read_cb \<Rightarrow> 's xz_rc \<Rightarrow> (nat \<times> 's xz_rc) option" where
  "RangeDecoderReadByte rcb x =
     (case Buffer (rdec x) of
        [] \<Rightarrow> do {
          (ret, buf, s) \<leftarrow> rcb (cbst x);
          (case buf of
             [] \<Rightarrow> Some (0xFF, x\<lparr>rdec := (rdec x)\<lparr>read_cb_ret := ret, ExtraBytes := 1\<rparr>, cbst := s\<rparr>)
           | b # bs \<Rightarrow> Some (unat b, x\<lparr>rdec := (rdec x)\<lparr>Buffer := bs, read_cb_ret := ret\<rparr>, cbst := s\<rparr>)) }
      | b # bs \<Rightarrow> Some (unat b, x\<lparr>rdec := (rdec x)\<lparr>Buffer := bs\<rparr>\<rparr>))"

text \<open>\<^verbatim>\<open>code = (code << 8) | ReadByte\<close>, and \<^verbatim>\<open>range <<= 8\<close> where the code does both.\<close>

definition shift_code :: "'s read_cb \<Rightarrow> 's xz_rc \<Rightarrow> 's xz_rc option" where
  "shift_code rcb x = do {
     (b, x) \<leftarrow> RangeDecoderReadByte rcb x;
     Some (x\<lparr>rdec := (rdec x)\<lparr>Code := u32 (push_bit 8 (Code (rdec x))) OR b\<rparr>\<rparr>)
   }"

definition rc_normalize :: "'s read_cb \<Rightarrow> 's xz_rc \<Rightarrow> 's xz_rc option" where
  "rc_normalize rcb x =
     (if Range (rdec x) < kTopValue then do {
        x \<leftarrow> shift_code rcb x;
        Some (x\<lparr>rdec := (rdec x)\<lparr>Range := u32 (push_bit 8 (Range (rdec x)))\<rparr>\<rparr>) }
      else Some x)"

fun rc_init_loop :: "'s read_cb \<Rightarrow> nat \<Rightarrow> 's xz_rc \<Rightarrow> 's xz_rc option" where
  "rc_init_loop rcb 0 x = Some x"
| "rc_init_loop rcb (Suc n) x = do {
     x \<leftarrow> shift_code rcb x;
     rc_init_loop rcb n x
   }"

definition RangeDecoderInit :: "'s read_cb \<Rightarrow> 's xz_rc \<Rightarrow> 's xz_rc option" where
  "RangeDecoderInit rcb x =
     rc_init_loop rcb 5 (x\<lparr>rdec := (rdec x)\<lparr>Buffer := [], ExtraBytes := 0, Code := 0, Range := 0xFFFFFFFF\<rparr>\<rparr>)"

text \<open>One turn of the loop of \<^verbatim>\<open>RangeDecoderDecodeDirectBits\<close>: its local copies are those of \<open>rdec\<close>.\<close>

definition rc_direct_bit :: "'s read_cb \<Rightarrow> 's xz_rc \<Rightarrow> (nat \<times> 's xz_rc) option" where
  "rc_direct_bit rcb x =
     (let range = Range (rdec x) div 2;
          bit = (if Code (rdec x) \<ge> range then 1 else 0);
          code = (if Code (rdec x) \<ge> range then Code (rdec x) - range else Code (rdec x))
      in do {
        x \<leftarrow> rc_normalize rcb (x\<lparr>rdec := (rdec x)\<lparr>Range := range, Code := code\<rparr>\<rparr>);
        Some (bit, x)
      })"

fun rc_direct_loop :: "'s read_cb \<Rightarrow> nat \<Rightarrow> nat \<Rightarrow> 's xz_rc \<Rightarrow> (nat \<times> 's xz_rc) option" where
  "rc_direct_loop rcb 0 result x = Some (result, x)"
| "rc_direct_loop rcb (Suc n) result x = do {
     (bit, x) \<leftarrow> rc_direct_bit rcb x;
     rc_direct_loop rcb n (u32 (push_bit 1 result) OR bit) x
   }"

definition RangeDecoderDecodeDirectBits :: "'s read_cb \<Rightarrow> nat \<Rightarrow> 's xz_rc \<Rightarrow> (nat \<times> 's xz_rc) option" where
  "RangeDecoderDecodeDirectBits rcb numTotalBits x = rc_direct_loop rcb numTotalBits 0 x"

text \<open>The probability at index \<open>i\<close>, an unsigned 16-bit integer, drifts towards the bit that came.\<close>

definition prob_up :: "nat \<Rightarrow> nat" where
  "prob_up p = nat ((int p + (int kBitModelTotal - int p) div 2 ^ kNumMoveBits) mod 2 ^ 16)"

definition prob_down :: "nat \<Rightarrow> nat" where
  "prob_down p = p - p div 2 ^ kNumMoveBits"

definition RangeDecoderBitDecode :: "'s read_cb \<Rightarrow> nat \<Rightarrow> 's xz_rc \<Rightarrow> (nat \<times> 's xz_rc) option" where
  "RangeDecoderBitDecode rcb i x =
     (if i < length (probs x) then
        (let p = probs x ! i;
             bound = u32 (Range (rdec x) div 2 ^ kNumBitModelTotalBits * p)
         in if Code (rdec x) < bound then do {
              x \<leftarrow> rc_normalize rcb (x\<lparr>rdec := (rdec x)\<lparr>Range := bound\<rparr>, probs := (probs x)[i := prob_up p]\<rparr>);
              Some (0, x) }
            else do {
              x \<leftarrow> rc_normalize rcb (x\<lparr>rdec := (rdec x)\<lparr>Range := sub_u32 (Range (rdec x)) bound,
                Code := Code (rdec x) - bound\<rparr>, probs := (probs x)[i := prob_down p]\<rparr>);
              Some (1, x) })
      else None)"

section \<open>Groups of bits\<close>

fun bit_tree_loop :: "'s read_cb \<Rightarrow> nat \<Rightarrow> nat \<Rightarrow> nat \<Rightarrow> 's xz_rc \<Rightarrow> (nat \<times> 's xz_rc) option" where
  "bit_tree_loop rcb ps 0 mi x = Some (mi, x)"
| "bit_tree_loop rcb ps (Suc n) mi x = do {
     (bit, x) \<leftarrow> RangeDecoderBitDecode rcb (ps + mi) x;
     bit_tree_loop rcb ps n ((mi + mi) + bit) x
   }"

definition RangeDecoderBitTreeDecode :: "'s read_cb \<Rightarrow> nat \<Rightarrow> nat \<Rightarrow> 's xz_rc \<Rightarrow> (nat \<times> 's xz_rc) option" where
  "RangeDecoderBitTreeDecode rcb ps numLevels x = do {
     (mi, x) \<leftarrow> bit_tree_loop rcb ps numLevels 1 x;
     Some (mi - 2 ^ numLevels, x)
   }"

fun rev_tree_loop :: "'s read_cb \<Rightarrow> nat \<Rightarrow> nat \<Rightarrow> nat \<Rightarrow> nat \<Rightarrow> nat \<Rightarrow> 's xz_rc \<Rightarrow> (nat \<times> 's xz_rc) option" where
  "rev_tree_loop rcb ps 0 i mi symbol x = Some (symbol, x)"
| "rev_tree_loop rcb ps (Suc n) i mi symbol x = do {
     (bit, x) \<leftarrow> RangeDecoderBitDecode rcb (ps + mi) x;
     rev_tree_loop rcb ps n (i + 1) (mi + mi + bit) (symbol OR push_bit i bit) x
   }"

definition RangeDecoderReverseBitTreeDecode :: "'s read_cb \<Rightarrow> nat \<Rightarrow> nat \<Rightarrow> 's xz_rc \<Rightarrow> (nat \<times> 's xz_rc) option" where
  "RangeDecoderReverseBitTreeDecode rcb ps numLevels x = rev_tree_loop rcb ps numLevels 0 1 0 x"

text \<open>
  The two loops on \<^verbatim>\<open>symbol < 0x100\<close>: the symbol starts at 1 and at least doubles in every turn, so
  the eight turns of the fuel are all there can be (\<open>None\<close> would be a ninth).
\<close>

fun literal_loop :: "nat \<Rightarrow> 's read_cb \<Rightarrow> nat \<Rightarrow> nat \<Rightarrow> 's xz_rc \<Rightarrow> (nat \<times> 's xz_rc) option" where
  "literal_loop fuel rcb ps symbol x =
     (if symbol < 0x100 then
        (case fuel of 0 \<Rightarrow> None
         | Suc n \<Rightarrow> do {
             (bit, x) \<leftarrow> RangeDecoderBitDecode rcb (ps + symbol) x;
             literal_loop n rcb ps ((symbol + symbol) OR bit) x })
      else Some (symbol, x))"

declare literal_loop.simps [simp del]

definition xz_literal_decode :: "'s read_cb \<Rightarrow> nat \<Rightarrow> 's xz_rc \<Rightarrow> (byte \<times> 's xz_rc) option" where
  "xz_literal_decode rcb ps x = do {
     (symbol, x) \<leftarrow> literal_loop 8 rcb ps 1 x;
     Some (of_nat symbol, x)
   }"

fun literal_match_loop :: "nat \<Rightarrow> 's read_cb \<Rightarrow> nat \<Rightarrow> byte \<Rightarrow> nat \<Rightarrow> 's xz_rc \<Rightarrow> (nat \<times> 's xz_rc) option" where
  "literal_match_loop fuel rcb ps matchByte symbol x =
     (if symbol < 0x100 then
        (case fuel of 0 \<Rightarrow> None
         | Suc n \<Rightarrow>
             (let matchBit = unat (drop_bit 7 matchByte AND 1)
              in do {
                (bit, x) \<leftarrow> RangeDecoderBitDecode rcb (ps + push_bit 8 (1 + matchBit) + symbol) x;
                let symbol = push_bit 1 symbol OR bit;
                if matchBit \<noteq> bit then literal_loop n rcb ps symbol x
                else literal_match_loop n rcb ps (push_bit 1 matchByte) symbol x }))
      else Some (symbol, x))"

declare literal_match_loop.simps [simp del]

definition xz_literal_decode_match :: "'s read_cb \<Rightarrow> nat \<Rightarrow> byte \<Rightarrow> 's xz_rc \<Rightarrow> (byte \<times> 's xz_rc) option" where
  "xz_literal_decode_match rcb ps matchByte x = do {
     (symbol, x) \<leftarrow> literal_match_loop 8 rcb ps matchByte 1 x;
     Some (of_nat symbol, x)
   }"

text \<open>Where the groups of probabilities lie.\<close>

definition LenChoice :: nat where "LenChoice = 0"
definition LenChoice2 :: nat where "LenChoice2 = LenChoice + 1"
definition LenLow :: nat where "LenLow = LenChoice2 + 1"
definition LenMid :: nat where "LenMid = LenLow + 16 * 2 ^ 3"
definition LenHigh :: nat where "LenHigh = LenMid + 16 * 2 ^ 3"
definition kNumLenProbs :: nat where "kNumLenProbs = LenHigh + 2 ^ 8"

definition kNumPosBitsMax :: nat where "kNumPosBitsMax = 4"
definition kNumStates :: nat where "kNumStates = 12"
definition kStartPosModelIndex :: nat where "kStartPosModelIndex = 4"
definition kEndPosModelIndex :: nat where "kEndPosModelIndex = 14"
definition kNumFullDistances :: nat where "kNumFullDistances = 2 ^ (kEndPosModelIndex div 2)"
definition kNumPosSlotBits :: nat where "kNumPosSlotBits = 6"
definition kNumLenToPosStates :: nat where "kNumLenToPosStates = 4"
definition kNumAlignBits :: nat where "kNumAlignBits = 4"
definition kMatchMinLen :: nat where "kMatchMinLen = 2"

definition IsMatch :: nat where "IsMatch = 0"
definition IsRep :: nat where "IsRep = IsMatch + kNumStates * 2 ^ kNumPosBitsMax"
definition IsRepG0 :: nat where "IsRepG0 = IsRep + kNumStates"
definition IsRepG1 :: nat where "IsRepG1 = IsRepG0 + kNumStates"
definition IsRepG2 :: nat where "IsRepG2 = IsRepG1 + kNumStates"
definition IsRep0Long :: nat where "IsRep0Long = IsRepG2 + kNumStates"
definition PosSlot :: nat where "PosSlot = IsRep0Long + kNumStates * 2 ^ kNumPosBitsMax"
definition SpecPos :: nat where "SpecPos = PosSlot + kNumLenToPosStates * 2 ^ kNumPosSlotBits"
definition Align :: nat where "Align = SpecPos + kNumFullDistances - kEndPosModelIndex"
definition LenCoder :: nat where "LenCoder = Align + 2 ^ kNumAlignBits"
definition RepLenCoder :: nat where "RepLenCoder = LenCoder + kNumLenProbs"
definition Literal :: nat where "Literal = RepLenCoder + kNumLenProbs"

definition xz_len_decode :: "'s read_cb \<Rightarrow> nat \<Rightarrow> nat \<Rightarrow> 's xz_rc \<Rightarrow> (nat \<times> 's xz_rc) option" where
  "xz_len_decode rcb p posState x = do {
     (choice, x) \<leftarrow> RangeDecoderBitDecode rcb (p + LenChoice) x;
     if choice = 0 then RangeDecoderBitTreeDecode rcb (p + LenLow + push_bit 3 posState) 3 x
     else do {
       (choice2, x) \<leftarrow> RangeDecoderBitDecode rcb (p + LenChoice2) x;
       if choice2 = 0 then do {
         (n, x) \<leftarrow> RangeDecoderBitTreeDecode rcb (p + LenMid + push_bit 3 posState) 3 x;
         Some (8 + n, x) }
       else do {
         (n, x) \<leftarrow> RangeDecoderBitTreeDecode rcb (p + LenHigh) 8 x;
         Some (8 + 8 + n, x) }
     }
   }"

section \<open>One block\<close>

text \<open>
  What survives from block to block (\<^verbatim>\<open>XzVarState\<close>; the dictionary's memory and the probabilities
  are in \<open>xz_dec\<close>), and the local variables of \<^verbatim>\<open>xz_decode\<close> with the two arrays it writes.
\<close>

record XzVarState =
  RangeDecoder :: CRangeDecoder
  DictionarySize :: nat
  DictionaryPos :: nat
  GlobalPos :: nat
  Reps :: "nat \<times> nat \<times> nat \<times> nat"
  vs_lc :: nat
  vs_lp :: nat
  vs_pb :: nat
  State :: nat
  PreviousIsMatch :: bool
  RemainLen :: int

record xz_loc =
  out_stream :: "byte list"
  dict_mem :: "byte list"
  xl_state :: nat
  previousIsMatch :: bool
  rep0 :: nat
  rep1 :: nat
  rep2 :: nat
  rep3 :: nat
  nowPos :: nat
  previousByte :: byte
  remain_len :: int
  dictionaryPos :: nat

definition sizeof_XzVarState :: nat where "sizeof_XzVarState = 84"

text \<open>The byte \<open>rep0\<close> places back, and a byte appended to the dictionary and the output.\<close>

definition dict_get :: "XzVarState \<Rightarrow> xz_loc \<Rightarrow> byte option" where
  "dict_get vs l =
     (let pos = sub_u32 (dictionaryPos l) (rep0 l);
          pos' = (if pos \<ge> DictionarySize vs then add_u32 pos (DictionarySize vs) else pos)
      in if pos' < length (dict_mem l) then Some (dict_mem l ! pos') else None)"

definition dict_put :: "XzVarState \<Rightarrow> byte \<Rightarrow> xz_loc \<Rightarrow> xz_loc option" where
  "dict_put vs b l =
     (if nowPos l < length (out_stream l) \<and> dictionaryPos l < length (dict_mem l) then
        (let next = add_u32 (dictionaryPos l) 1
         in Some (l\<lparr>out_stream := (out_stream l)[nowPos l := b], nowPos := add_u32 (nowPos l) 1,
              dict_mem := (dict_mem l)[dictionaryPos l := b],
              dictionaryPos := (if next = DictionarySize vs then 0 else next)\<rparr>))
      else None)"

text \<open>
  \<^verbatim>\<open>while (remain_len > 0 && nowPos < out_size)\<close>, the rest of a match from the block before; the
  fuel is \<^verbatim>\<open>remain_len\<close>.  The \<^verbatim>\<open>do\<close> loop behind a match has the same turns, but also sets
  \<^verbatim>\<open>previousByte\<close> (its first turn is always made: at least two bytes are due and there is room).
\<close>

fun dict_copy_loop :: "XzVarState \<Rightarrow> nat \<Rightarrow> bool \<Rightarrow> nat \<Rightarrow> xz_loc \<Rightarrow> xz_loc option" where
  "dict_copy_loop vs out_size prev 0 l = Some l"
| "dict_copy_loop vs out_size prev (Suc n) l =
     (if remain_len l > 0 \<and> nowPos l < out_size then do {
        b \<leftarrow> dict_get vs l;
        l \<leftarrow> dict_put vs b l;
        dict_copy_loop vs out_size prev n
          (l\<lparr>remain_len := remain_len l - 1, previousByte := (if prev then b else previousByte l)\<rparr>) }
      else Some l)"

datatype xz_step = Xz_next | Xz_break | Xz_return int

definition xz_literal_symbol :: "'s read_cb \<Rightarrow> XzVarState \<Rightarrow> xz_loc \<Rightarrow> 's xz_rc \<Rightarrow> (xz_step \<times> xz_loc \<times> 's xz_rc) option" where
  "xz_literal_symbol rcb vs l x = do {
     let literalPosMask = 2 ^ vs_lp vs - 1;
     let ps = Literal + XZ_LIT_SIZE * (push_bit (vs_lc vs) (add_u32 (nowPos l) (GlobalPos vs) AND literalPosMask)
       + unat (drop_bit (8 - vs_lc vs) (previousByte l)));
     let l = l\<lparr>xl_state := (if xl_state l < 4 then 0 else if xl_state l < 10 then xl_state l - 3 else xl_state l - 6)\<rparr>;
     (b, l, x) \<leftarrow> (if previousIsMatch l then do {
         matchByte \<leftarrow> dict_get vs l;
         (b, x) \<leftarrow> xz_literal_decode_match rcb ps matchByte x;
         Some (b, l\<lparr>previousIsMatch := False\<rparr>, x) }
       else do {
         (b, x) \<leftarrow> xz_literal_decode rcb ps x;
         Some (b, l, x) });
     l \<leftarrow> dict_put vs b (l\<lparr>previousByte := b\<rparr>);
     Some (Xz_next, l, x)
   }"

text \<open>The end of the branches of a match: copy as much as the block takes.\<close>

definition xz_match_tail :: "XzVarState \<Rightarrow> nat \<Rightarrow> xz_loc \<Rightarrow> 's xz_rc \<Rightarrow> (xz_step \<times> xz_loc \<times> 's xz_rc) option" where
  "xz_match_tail vs out_size l x =
     (if rep0 l = 0 then Some (Xz_break, l\<lparr>remain_len := - 1\<rparr>, x)
      else if rep0 l > add_u32 (nowPos l) (GlobalPos vs) then Some (Xz_return XZ_RET_DATA_ERR, l, x)
      else do {
        let l = l\<lparr>remain_len := remain_len l + int kMatchMinLen\<rparr>;
        l \<leftarrow> dict_copy_loop vs out_size True (nat (remain_len l)) l;
        Some (Xz_next, l, x) })"

definition xz_short_rep :: "XzVarState \<Rightarrow> xz_loc \<Rightarrow> 's xz_rc \<Rightarrow> (xz_step \<times> xz_loc \<times> 's xz_rc) option" where
  "xz_short_rep vs l x =
     (if add_u32 (nowPos l) (GlobalPos vs) = 0 then Some (Xz_return XZ_RET_DATA_ERR, l, x)
      else do {
        b \<leftarrow> dict_get vs l;
        l \<leftarrow> dict_put vs b (l\<lparr>xl_state := (if xl_state l < 7 then 9 else 11), previousByte := b\<rparr>);
        Some (Xz_next, l, x) })"

definition xz_rep_index :: "'s read_cb \<Rightarrow> xz_loc \<Rightarrow> 's xz_rc \<Rightarrow> (xz_loc \<times> 's xz_rc) option" where
  "xz_rep_index rcb l x = do {
     (g1, x) \<leftarrow> RangeDecoderBitDecode rcb (IsRepG1 + xl_state l) x;
     (distance, l, x) \<leftarrow> (if g1 = 0 then Some (rep1 l, l, x)
       else do {
         (g2, x) \<leftarrow> RangeDecoderBitDecode rcb (IsRepG2 + xl_state l) x;
         let (distance, l) = (if g2 = 0 then (rep2 l, l) else (rep3 l, l\<lparr>rep3 := rep2 l\<rparr>));
         Some (distance, l\<lparr>rep2 := rep1 l\<rparr>, x) });
     Some (l\<lparr>rep1 := rep0 l, rep0 := distance\<rparr>, x)
   }"

definition xz_rep_symbol :: "'s read_cb \<Rightarrow> XzVarState \<Rightarrow> nat \<Rightarrow> nat \<Rightarrow> xz_loc \<Rightarrow> 's xz_rc \<Rightarrow> (xz_step \<times> xz_loc \<times> 's xz_rc) option" where
  "xz_rep_symbol rcb vs out_size posState l x = do {
     (len, x) \<leftarrow> xz_len_decode rcb RepLenCoder posState x;
     xz_match_tail vs out_size (l\<lparr>remain_len := int len, xl_state := (if xl_state l < 7 then 8 else 11)\<rparr>) x
   }"

definition xz_distance :: "'s read_cb \<Rightarrow> nat \<Rightarrow> 's xz_rc \<Rightarrow> (nat \<times> 's xz_rc) option" where
  "xz_distance rcb len x = do {
     (posSlot, x) \<leftarrow> RangeDecoderBitTreeDecode rcb
       (PosSlot + push_bit kNumPosSlotBits (if len < kNumLenToPosStates then len else kNumLenToPosStates - 1)) kNumPosSlotBits x;
     (r, x) \<leftarrow> (if posSlot \<ge> kStartPosModelIndex then
         (let numDirectBits = posSlot div 2 - 1; r = push_bit numDirectBits (2 OR (posSlot AND 1))
          in if posSlot < kEndPosModelIndex then do {
               (n, x) \<leftarrow> RangeDecoderReverseBitTreeDecode rcb (SpecPos + r - posSlot - 1) numDirectBits x;
               Some (add_u32 r n, x) }
             else do {
               (n, x) \<leftarrow> RangeDecoderDecodeDirectBits rcb (numDirectBits - kNumAlignBits) x;
               (m, x) \<leftarrow> RangeDecoderReverseBitTreeDecode rcb Align kNumAlignBits x;
               Some (add_u32 (add_u32 r (u32 (push_bit kNumAlignBits n))) m, x) })
       else Some (posSlot, x));
     Some (add_u32 r 1, x)
   }"

definition xz_match_symbol :: "'s read_cb \<Rightarrow> XzVarState \<Rightarrow> nat \<Rightarrow> nat \<Rightarrow> xz_loc \<Rightarrow> 's xz_rc \<Rightarrow> (xz_step \<times> xz_loc \<times> 's xz_rc) option" where
  "xz_match_symbol rcb vs out_size posState l x = do {
     (len, x) \<leftarrow> xz_len_decode rcb LenCoder posState x;
     (d, x) \<leftarrow> xz_distance rcb len x;
     xz_match_tail vs out_size (l\<lparr>rep3 := rep2 l, rep2 := rep1 l, rep1 := rep0 l, rep0 := d,
       xl_state := (if xl_state l < 7 then 7 else 10), remain_len := int len\<rparr>) x
   }"

text \<open>One turn of the main loop.\<close>

definition xz_symbol :: "'s read_cb \<Rightarrow> XzVarState \<Rightarrow> nat \<Rightarrow> xz_loc \<Rightarrow> 's xz_rc \<Rightarrow> (xz_step \<times> xz_loc \<times> 's xz_rc) option" where
  "xz_symbol rcb vs out_size l x =
     (let posState = add_u32 (nowPos l) (GlobalPos vs) AND (2 ^ vs_pb vs - 1); state = xl_state l
      in if read_cb_ret (rdec x) \<noteq> XZ_RET_OK then Some (Xz_return (read_cb_ret (rdec x)), l, x)
         else if ExtraBytes (rdec x) \<noteq> 0 then Some (Xz_return XZ_RET_DATA_ERR, l, x)
         else do {
           (match, x) \<leftarrow> RangeDecoderBitDecode rcb (IsMatch + push_bit kNumPosBitsMax state + posState) x;
           if match = 0 then xz_literal_symbol rcb vs l x
           else do {
             let l = l\<lparr>previousIsMatch := True\<rparr>;
             (rep, x) \<leftarrow> RangeDecoderBitDecode rcb (IsRep + state) x;
             if rep = 1 then do {
               (g0, x) \<leftarrow> RangeDecoderBitDecode rcb (IsRepG0 + state) x;
               if g0 = 0 then do {
                 (long, x) \<leftarrow> RangeDecoderBitDecode rcb (IsRep0Long + push_bit kNumPosBitsMax state + posState) x;
                 if long = 0 then xz_short_rep vs l x
                 else xz_rep_symbol rcb vs out_size posState l x }
               else do {
                 (l, x) \<leftarrow> xz_rep_index rcb l x;
                 xz_rep_symbol rcb vs out_size posState l x } }
             else xz_match_symbol rcb vs out_size posState l x }
         })"

text \<open>
  The main loop.  Every symbol yields at least one byte, so \<^verbatim>\<open>out_size\<close> is enough fuel.  The first
  component of the result is the code of a \<^verbatim>\<open>return\<close> inside the loop.
\<close>

fun xz_decode_loop :: "nat \<Rightarrow> 's read_cb \<Rightarrow> XzVarState \<Rightarrow> nat \<Rightarrow> xz_loc \<Rightarrow> 's xz_rc
    \<Rightarrow> (int option \<times> xz_loc \<times> 's xz_rc) option" where
  "xz_decode_loop fuel rcb vs out_size l x =
     (if nowPos l < out_size then
        (case fuel of 0 \<Rightarrow> None
         | Suc n \<Rightarrow> do {
             (step, l, x) \<leftarrow> xz_symbol rcb vs out_size l x;
             (case step of Xz_next \<Rightarrow> xz_decode_loop n rcb vs out_size l x
              | Xz_break \<Rightarrow> Some (None, l, x)
              | Xz_return e \<Rightarrow> Some (Some e, l, x)) })
      else Some (None, l, x))"

declare xz_decode_loop.simps [simp del]

record 's xz_dec =
  xd_vs :: XzVarState
  xd_probs :: "nat list"
  xd_dict :: "byte list"
  xd_block :: "byte list"
  xd_cb :: 's

definition xz_locals :: "'s xz_dec \<Rightarrow> xz_loc" where
  "xz_locals d = (let vs = xd_vs d in
     (case Reps vs of (r0, r1, r2, r3) \<Rightarrow>
       \<lparr>out_stream = xd_block d, dict_mem = xd_dict d, xl_state = State vs, previousIsMatch = PreviousIsMatch vs,
        rep0 = r0, rep1 = r1, rep2 = r2, rep3 = r3, nowPos = 0, previousByte = 0, remain_len = RemainLen vs,
        dictionaryPos = DictionaryPos vs\<rparr>))"

definition last_dict_byte :: "XzVarState \<Rightarrow> xz_loc \<Rightarrow> byte option" where
  "last_dict_byte vs l =
     (let i = (if dictionaryPos l = 0 then sub_u32 (DictionarySize vs) 1 else dictionaryPos l - 1)
      in if i < length (dict_mem l) then Some (dict_mem l ! i) else None)"

definition xz_decode :: "'s read_cb \<Rightarrow> nat \<Rightarrow> 's xz_dec \<Rightarrow> (int \<times> nat \<times> 's xz_dec) option" where
  "xz_decode rcb out_size d =
     (let vs = xd_vs d; l = xz_locals d
      in if remain_len l = - 1 then Some (XZ_RET_OK, 0, d)
         else do {
           l \<leftarrow> dict_copy_loop vs out_size False (nat (remain_len l)) l;
           b \<leftarrow> last_dict_byte vs l;
           (ret, l, x) \<leftarrow> xz_decode_loop out_size rcb vs out_size (l\<lparr>previousByte := b\<rparr>)
             \<lparr>rdec = RangeDecoder vs, probs = xd_probs d, cbst = xd_cb d\<rparr>;
           let d = d\<lparr>xd_probs := probs x, xd_dict := dict_mem l, xd_block := out_stream l, xd_cb := cbst x\<rparr>;
           (case ret of
              Some e \<Rightarrow> Some (e, 0, d)
            | None \<Rightarrow> Some (XZ_RET_OK, nowPos l, d\<lparr>xd_vs := vs\<lparr>RangeDecoder := rdec x, DictionaryPos := dictionaryPos l,
                GlobalPos := add_u32 (GlobalPos vs) (nowPos l), Reps := (rep0 l, rep1 l, rep2 l, rep3 l),
                State := xl_state l, PreviousIsMatch := previousIsMatch l, RemainLen := remain_len l\<rparr>\<rparr>))
         })"

section \<open>The whole stream\<close>

fun xz_blocks :: "nat \<Rightarrow> 's write_cb \<Rightarrow> 's read_cb \<Rightarrow> nat \<Rightarrow> nat \<Rightarrow> 's xz_dec \<Rightarrow> (int \<times> 's xz_dec) option" where
  "xz_blocks fuel wcb rcb out_size now_pos d =
     (if now_pos < out_size then
        (case fuel of 0 \<Rightarrow> None
         | Suc n \<Rightarrow> do {
             let blockSize = (if out_size - now_pos > BLOCK_BUF_SIZE then BLOCK_BUF_SIZE else out_size - now_pos);
             (ret, out_size_processed, d) \<leftarrow> xz_decode rcb blockSize d;
             if ret \<noteq> XZ_RET_OK then Some (ret, d)
             else if out_size_processed = 0 then Some (0, d)
             else do {
               s \<leftarrow> wcb now_pos (take out_size_processed (xd_block d)) (xd_cb d);
               xz_blocks n wcb rcb out_size (now_pos + out_size_processed) (d\<lparr>xd_cb := s\<rparr>) } })
      else Some (0, d))"

declare xz_blocks.simps [simp del]

text \<open>The initial decoder, and the whole run; \<open>header\<close> are the 13 bytes in front of the data.\<close>

definition xz_initial :: "nat \<Rightarrow> nat \<Rightarrow> nat \<Rightarrow> nat \<Rightarrow> CRangeDecoder \<Rightarrow> 's \<Rightarrow> 's xz_dec" where
  "xz_initial dict_size lc lp pb r s =
     \<lparr>xd_vs = \<lparr>RangeDecoder = r, DictionarySize = dict_size, DictionaryPos = 0, GlobalPos = 0, Reps = (1, 1, 1, 1),
        vs_lc = lc, vs_lp = lp, vs_pb = pb, State = 0, PreviousIsMatch = False, RemainLen = 0\<rparr>,
      xd_probs = replicate (Literal + XZ_LIT_SIZE * 2 ^ (lc + lp)) (kBitModelTotal div 2),
      xd_dict = replicate DICT_BUF_SIZE 0, xd_block = replicate BLOCK_BUF_SIZE 0, xd_cb = s\<rparr>"

definition xz_decompress_buf_to_buf :: "byte list \<Rightarrow> 's write_cb \<Rightarrow> 's read_cb \<Rightarrow> 's \<Rightarrow> (int \<times> 's) option" where
  "xz_decompress_buf_to_buf header wcb rcb s =
     (let out_size = le_val (bslice 5 4 header);
          prop0 = unat (header ! 0);
          pb = prop0 div (9 * 5); lp = prop0 mod (9 * 5) div 9; lc = prop0 mod 9;
          dict_size = le_val (bslice 1 4 header);
          xzInternalSize = (XZ_BASE_SIZE + XZ_LIT_SIZE * 2 ^ (lc + lp)) * 2 + sizeof_XzVarState
      in if out_size = 0xFFFFFFFF then Some (XZ_RET_STREAM_VER_NOT_SUPP, s)
         else if bslice 9 4 header \<noteq> [0, 0, 0, 0] then Some (XZ_RET_FILE_TOO_LONG, s)
         else if prop0 \<ge> 9 * 5 * 5 then Some (XZ_RET_PROPERTIES_ERR, s)
         else if dict_size > DICT_BUF_SIZE then Some (XZ_RET_NOT_ENOUGH_MEM, s)
         else if xzInternalSize \<ge> INTERNAL_DATA_BUF_SIZE then Some (XZ_RET_NOT_ENOUGH_MEM, s)
         else do {
           let r0 = \<lparr>Buffer = [], Range = 0, Code = 0, read_cb_ret = 0, ExtraBytes = 0\<rparr>;
           x \<leftarrow> RangeDecoderInit rcb \<lparr>rdec = r0, probs = [], cbst = s\<rparr>;
           (ret, d) \<leftarrow> xz_blocks out_size wcb rcb out_size 0 (xz_initial dict_size lc lp pb (rdec x) (cbst x));
           Some (ret, xd_cb d) })"

end
