(* ===== verification/Ota.thy ===== *)
theory Ota
  imports Partition Nvds_Param Xz
begin

text \<open>
  The over-the-air update agent of the boot loader, \<^verbatim>\<open>components/fota/ota_agent\<close>: images in the
  application and the update partition, each behind a header of 256 bytes with the sizes and
  CRCs; their verification (\<^verbatim>\<open>ota_image.c\<close>), the copy of the new image over the old one and the
  decision what to boot (\<^verbatim>\<open>ota_agent.c\<close>), on the flash and the non-volatile store of the port
  (\<^verbatim>\<open>ota_port.c\<close>).

  The decompressor is a parameter \<open>xz\<close> of the agent: it gets the header of the compressed data and
  the two callbacks.  What the agent does with an uncompressed update is the same for every \<open>xz\<close>;
  the one of \<^verbatim>\<open>xz_decompress.c\<close> is \<open>xz_decompress_buf_to_buf\<close> of theory \<open>Xz\<close>.  \<^verbatim>\<open>jump_to_app\<close> is the caller's function; the jumps are
  recorded in \<open>jumped\<close>.
\<close>

section \<open>Images\<close>

record image_hdr =
  image_type :: nat
  ver_major :: nat
  ver_minor :: nat
  dep_major :: nat
  dep_minor :: nat
  img_size_orig :: nat
  img_size_orig_xz :: nat
  img_size_diff :: nat
  img_size_diff_xz :: nat
  img_crc32_orig :: nat
  img_crc32_orig_xz :: nat
  img_crc32_diff :: nat
  img_crc32_diff_xz :: nat
  hdr_res :: "byte list"
  header_crc32 :: nat

definition image_hdr_decode :: "byte list \<Rightarrow> image_hdr" where
  "image_hdr_decode bs = \<lparr>image_type = le_val (bslice 0 4 bs),
     ver_major = le_val (bslice 4 1 bs),
     ver_minor = le_val (bslice 5 1 bs),
     dep_major = le_val (bslice 6 1 bs),
     dep_minor = le_val (bslice 7 1 bs),
     img_size_orig = le_val (bslice 8 4 bs),
     img_size_orig_xz = le_val (bslice 12 4 bs),
     img_size_diff = le_val (bslice 16 4 bs),
     img_size_diff_xz = le_val (bslice 20 4 bs),
     img_crc32_orig = le_val (bslice 24 4 bs),
     img_crc32_orig_xz = le_val (bslice 28 4 bs),
     img_crc32_diff = le_val (bslice 32 4 bs),
     img_crc32_diff_xz = le_val (bslice 36 4 bs),
     hdr_res = bslice 40 212 bs,
     header_crc32 = le_val (bslice 252 4 bs)\<rparr>"

definition image_hdr_bytes :: "image_hdr \<Rightarrow> byte list" where
  "image_hdr_bytes h = le_bytes 4 (image_type h)
     @ le_bytes 1 (ver_major h)
     @ le_bytes 1 (ver_minor h)
     @ le_bytes 1 (dep_major h)
     @ le_bytes 1 (dep_minor h)
     @ le_bytes 4 (img_size_orig h)
     @ le_bytes 4 (img_size_orig_xz h)
     @ le_bytes 4 (img_size_diff h)
     @ le_bytes 4 (img_size_diff_xz h)
     @ le_bytes 4 (img_crc32_orig h)
     @ le_bytes 4 (img_crc32_orig_xz h)
     @ le_bytes 4 (img_crc32_diff h)
     @ le_bytes 4 (img_crc32_diff_xz h)
     @ hdr_res h
     @ le_bytes 4 (header_crc32 h)"

definition sizeof_image_hdr :: nat where "sizeof_image_hdr = 256"

definition IMAGE_ATTACHE :: nat where "IMAGE_ATTACHE = 0"
definition IMAGE_TYPE_ORIGINAL :: nat where "IMAGE_TYPE_ORIGINAL = 1"
definition IMAGE_TYPE_ORIGINAL_XZ :: nat where "IMAGE_TYPE_ORIGINAL_XZ = 2"
definition IMAGE_TYPE_DIFF :: nat where "IMAGE_TYPE_DIFF = 3"
definition IMAGE_TYPE_DIFF_XZ :: nat where "IMAGE_TYPE_DIFF_XZ = 4"

definition UPG_STATE_DOWNLOAD_ING :: nat where "UPG_STATE_DOWNLOAD_ING = 0"
definition UPG_STATE_DOWNLOAD_OK :: nat where "UPG_STATE_DOWNLOAD_OK = 1"
definition UPG_STATE_RESTORE_OK :: nat where "UPG_STATE_RESTORE_OK = 3"

datatype ota_err = OTA_ERR_NONE | OTA_ERR_INVALID_PARAM | OTA_ERR_NVDS_RW | OTA_ERR_UPG_STATE
  | OTA_ERR_PARTITION_TAB | OTA_ERR_DECOMPRESS | OTA_ERR_IMG_TYPE | OTA_ERR_IMG_HEADER_READ
  | OTA_ERR_IMG_HEADER_VERIFY | OTA_ERR_IMG_ENTITY_VERIFY | OTA_ERR_IMPOSSIBLE_VER | OTA_ERR_NOT_SUPPORT

definition LEN_4KB :: nat where "LEN_4KB = 1024 * 4"
definition TEMP_BUF_LEN :: nat where "TEMP_BUF_LEN = 128"

section \<open>State and port\<close>

record ota =
  ot_nv :: nvds
  app_header :: image_hdr
  ota_header :: image_hdr
  partition_info_app :: partition_info
  partition_info_ota :: partition_info
  xz_already_read :: nat
  xz_already_write :: nat
  jumped :: "nat list"

definition ota_cells :: "ota \<Rightarrow> nor" where
  "ota_cells s = pd_cells (nv_dev (ot_nv s))"

definition ota_flash_read :: "ota \<Rightarrow> nat \<Rightarrow> nat \<Rightarrow> byte list option" where
  "ota_flash_read s offset len = do {
     (r, bs) \<leftarrow> hal_flash_read (ota_cells s) offset len 0;
     Some bs
   }"

definition ota_flash_write :: "ota \<Rightarrow> nat \<Rightarrow> byte list \<Rightarrow> ota option" where
  "ota_flash_write s offset buf = do {
     d \<leftarrow> power_program (nv_dev (ot_nv s)) offset buf;
     Some (s\<lparr>ot_nv := (ot_nv s)\<lparr>nv_dev := d\<rparr>\<rparr>)
   }"

definition ota_flash_erase :: "ota \<Rightarrow> nat \<Rightarrow> nat \<Rightarrow> ota option" where
  "ota_flash_erase s offset len = do {
     d \<leftarrow> power_erase (nv_dev (ot_nv s)) offset len;
     Some (s\<lparr>ot_nv := (ot_nv s)\<lparr>nv_dev := d\<rparr>\<rparr>)
   }"

definition ota_upg_state_set :: "ota \<Rightarrow> nat \<Rightarrow> (bool \<times> ota) option" where
  "ota_upg_state_set s state = do {
     (r, nv) \<leftarrow> ln_nvds_set_ota_upg_state (ot_nv s) state;
     Some (r = NVDS_ERR_OK, s\<lparr>ot_nv := nv\<rparr>)
   }"

definition ota_upg_state_get :: "ota \<Rightarrow> nat \<Rightarrow> (bool \<times> nat) option" where
  "ota_upg_state_get s state = do {
     (r, bs) \<leftarrow> ln_nvds_get_ota_upg_state (ot_nv s) (le_bytes 4 state);
     Some (r = NVDS_ERR_OK, le_val bs)
   }"

definition jump_to_app :: "ota \<Rightarrow> nat \<Rightarrow> ota" where
  "jump_to_app s a = s\<lparr>jumped := jumped s @ [a]\<rparr>"

section \<open>Verifying an image\<close>

definition image_header_read :: "ota \<Rightarrow> nat \<Rightarrow> image_hdr \<Rightarrow> (ota_err \<times> image_hdr) option" where
  "image_header_read s type header =
     (if type \<noteq> PARTITION_TYPE_APP \<and> type \<noteq> PARTITION_TYPE_OTA then Some (OTA_ERR_INVALID_PARAM, header)
      else do {
        (r, info) \<leftarrow> ln_fetch_partition_info (ota_cells s) type (Some partition_end);
        if r then do {
          bs \<leftarrow> ota_flash_read s (start_addr (the info)) sizeof_image_hdr;
          Some (OTA_ERR_NONE, image_hdr_decode bs) }
        else Some (OTA_ERR_IMG_HEADER_READ, header)
      })"

definition image_header_fast_read :: "ota \<Rightarrow> nat \<Rightarrow> (ota_err \<times> image_hdr) option" where
  "image_header_fast_read s a = do {
     bs \<leftarrow> ota_flash_read s a sizeof_image_hdr;
     Some (OTA_ERR_NONE, image_hdr_decode bs)
   }"

definition image_header_verify :: "image_hdr \<Rightarrow> ota_err" where
  "image_header_verify header =
     (if header_crc32 header = unat (ln_crc32_signle_cal (take (sizeof_image_hdr - 4) (image_hdr_bytes header)))
      then OTA_ERR_NONE else OTA_ERR_IMG_HEADER_VERIFY)"

text \<open>The size and the CRC that the two switches on the type of the image select.\<close>

definition image_size_crc :: "image_hdr \<Rightarrow> (nat \<times> nat) option" where
  "image_size_crc h =
     (if image_type h = IMAGE_TYPE_ORIGINAL then Some (img_size_orig h, img_crc32_orig h)
      else if image_type h = IMAGE_TYPE_ORIGINAL_XZ then Some (img_size_orig_xz h, img_crc32_orig_xz h)
      else if image_type h = IMAGE_TYPE_DIFF then Some (img_size_diff h, img_crc32_diff h)
      else if image_type h = IMAGE_TYPE_DIFF_XZ then Some (img_size_diff_xz h, img_crc32_diff_xz h)
      else None)"

fun image_crc_loop :: "nat \<Rightarrow> ota \<Rightarrow> nat \<Rightarrow> 32 word \<Rightarrow> (nat \<times> 32 word) option" where
  "image_crc_loop 0 s offset ctx = Some (offset, ctx)"
| "image_crc_loop (Suc n) s offset ctx = do {
     bs \<leftarrow> ota_flash_read s offset TEMP_BUF_LEN;
     image_crc_loop n s (add_u32 offset TEMP_BUF_LEN) (ln_crc32_update ctx bs)
   }"

definition image_body_verify :: "ota \<Rightarrow> nat \<Rightarrow> image_hdr option \<Rightarrow> ota_err option" where
  "image_body_verify s a header = (case header of None \<Rightarrow> Some OTA_ERR_INVALID_PARAM
     | Some h \<Rightarrow>
       (case image_size_crc h of None \<Rightarrow> Some OTA_ERR_IMG_TYPE
        | Some (sz, crc) \<Rightarrow> do {
            (offset, ctx) \<leftarrow> image_crc_loop (sz div TEMP_BUF_LEN) s (add_u32 a sizeof_image_hdr) ln_crc32_init;
            bs \<leftarrow> ota_flash_read s offset (sz mod TEMP_BUF_LEN);
            let crc32_result = ln_crc32_final (ln_crc32_update ctx bs);
            Some (if unat crc32_result = crc then OTA_ERR_NONE else OTA_ERR_IMG_ENTITY_VERIFY)
          }))"

text \<open>The partition entry and the header that the caller passes are overwritten.\<close>

definition verify_total_img_partition ::
  "ota \<Rightarrow> nat \<Rightarrow> partition_info \<Rightarrow> image_hdr \<Rightarrow> (ota_err \<times> partition_info \<times> image_hdr) option" where
  "verify_total_img_partition s type info hdr = do {
     (r, inf) \<leftarrow> ln_fetch_partition_info (ota_cells s) type (Some info);
     let info' = the inf;
     if \<not> r then Some (OTA_ERR_PARTITION_TAB, info', hdr)
     else do {
       (err, hdr') \<leftarrow> image_header_read s type hdr;
       if err \<noteq> OTA_ERR_NONE then Some (err, info', hdr')
       else if image_header_verify hdr' \<noteq> OTA_ERR_NONE then Some (image_header_verify hdr', info', hdr')
       else do {
         err' \<leftarrow> image_body_verify s (start_addr info') (Some hdr');
         Some (err', info', hdr')
       }
     }
   }"

text \<open>The two uses of it, on the static variables of \<^verbatim>\<open>ota_agent.c\<close>.\<close>

definition verify_app :: "ota \<Rightarrow> (ota_err \<times> ota) option" where
  "verify_app s = do {
     (err, info, hdr) \<leftarrow> verify_total_img_partition s PARTITION_TYPE_APP (partition_info_app s) (app_header s);
     Some (err, s\<lparr>partition_info_app := info, app_header := hdr\<rparr>)
   }"

definition verify_ota :: "ota \<Rightarrow> (ota_err \<times> ota) option" where
  "verify_ota s = do {
     (err, info, hdr) \<leftarrow> verify_total_img_partition s PARTITION_TYPE_OTA (partition_info_ota s) (ota_header s);
     Some (err, s\<lparr>partition_info_ota := info, ota_header := hdr\<rparr>)
   }"

section \<open>Restoring\<close>

fun orig_restore_loop :: "nat \<Rightarrow> ota \<Rightarrow> nat \<Rightarrow> nat \<Rightarrow> (nat \<times> nat \<times> ota) option" where
  "orig_restore_loop 0 s app_body_offset ota_body_offset = Some (app_body_offset, ota_body_offset, s)"
| "orig_restore_loop (Suc n) s app_body_offset ota_body_offset = do {
     bs \<leftarrow> ota_flash_read s ota_body_offset LEN_4KB;
     s' \<leftarrow> ota_flash_write s app_body_offset bs;
     orig_restore_loop n s' (add_u32 app_body_offset LEN_4KB) (add_u32 ota_body_offset LEN_4KB)
   }"

definition orig_image_do_restore :: "ota \<Rightarrow> nat \<Rightarrow> nat \<Rightarrow> nat \<Rightarrow> (ota_err \<times> ota) option" where
  "orig_image_do_restore s app_body_offset ota_body_offset sz = do {
     let count_4k = sz div LEN_4KB;
     let remainder_4k = sz mod LEN_4KB;
     (app_off, ota_off, s1) \<leftarrow> orig_restore_loop count_4k s app_body_offset ota_body_offset;
     s2 \<leftarrow> (if remainder_4k \<noteq> 0 then do {
              bs \<leftarrow> ota_flash_read s1 ota_off remainder_4k;
              ota_flash_write s1 app_off bs }
           else Some s1);
     Some (OTA_ERR_NONE, s2)
   }"

text \<open>
  \<^verbatim>\<open>tmp_len\<close> is signed: when more has been read than there is, it is negative and not cut, and the read
  overruns \<^verbatim>\<open>temp_buf\<close>, which is a fault.
\<close>

definition decompress_read_cb :: "ota \<Rightarrow> (int \<times> byte list \<times> ota) option" where
  "decompress_read_cb s = do {
     let tmp = sub_u32 (img_size_orig_xz (ota_header s)) (xz_already_read s);
     let tmp_len = (if tmp < 2 ^ 31 \<and> tmp > LEN_4KB then LEN_4KB else tmp);
     bs \<leftarrow> (if tmp_len > LEN_4KB then None
           else ota_flash_read s (add_u32 (add_u32 (start_addr (partition_info_ota s)) sizeof_image_hdr)
             (xz_already_read s)) tmp_len);
     Some (XZ_RET_OK, bs, s\<lparr>xz_already_read := add_u32 (xz_already_read s) tmp_len\<rparr>)
   }"

definition decompress_write_cb :: "nat \<Rightarrow> byte list \<Rightarrow> ota \<Rightarrow> ota option" where
  "decompress_write_cb offset buf s = do {
     s' \<leftarrow> ota_flash_write s (add_u32 (add_u32 (start_addr (partition_info_app s)) sizeof_image_hdr)
       (xz_already_write s)) buf;
     Some (s'\<lparr>xz_already_write := add_u32 (xz_already_write s) (length buf)\<rparr>)
   }"

type_synonym xz_fun = "byte list \<Rightarrow> ota write_cb \<Rightarrow> ota read_cb \<Rightarrow> ota \<Rightarrow> (int \<times> ota) option"

definition sizeof_xz_header :: nat where "sizeof_xz_header = 13"

definition xz_image_do_restore :: "xz_fun \<Rightarrow> ota \<Rightarrow> nat \<Rightarrow> (ota_err \<times> ota) option" where
  "xz_image_do_restore xz s ota_body_offset = do {
     header \<leftarrow> ota_flash_read s ota_body_offset sizeof_xz_header;
     let s1 = s\<lparr>xz_already_read := add_u32 (xz_already_read s) sizeof_xz_header\<rparr>;
     (r, s2) \<leftarrow> xz header decompress_write_cb decompress_read_cb s1;
     Some (if r \<noteq> XZ_RET_OK then (OTA_ERR_DECOMPRESS, s2) else (OTA_ERR_NONE, s2))
   }"

text \<open>The end of both branches: verify what has been copied, set the state, jump.\<close>

definition restore_finish :: "ota \<Rightarrow> (ota_err \<times> ota) option" where
  "restore_finish s = do {
     (err, s1) \<leftarrow> verify_app s;
     if err \<noteq> OTA_ERR_NONE then Some (err, s1)
     else do {
       (r, s2) \<leftarrow> ota_upg_state_set s1 UPG_STATE_RESTORE_OK;
       if \<not> r then Some (OTA_ERR_NVDS_RW, s2)
       else Some (OTA_ERR_NONE,
         jump_to_app s2 (add_u32 (start_addr (partition_info_app s2)) sizeof_image_hdr))
     }
   }"

definition restore_image :: "xz_fun \<Rightarrow> ota \<Rightarrow> (ota_err \<times> ota) option" where
  "restore_image xz s =
     (let app_start = start_addr (partition_info_app s); ota_start = start_addr (partition_info_ota s);
          type = image_type (ota_header s)
      in if type = IMAGE_TYPE_ORIGINAL then do {
           s1 \<leftarrow> ota_flash_write s app_start (image_hdr_bytes (ota_header s));
           (err, s2) \<leftarrow> orig_image_do_restore s1 (add_u32 app_start sizeof_image_hdr)
             (add_u32 ota_start sizeof_image_hdr) (img_size_orig (ota_header s));
           if err \<noteq> OTA_ERR_NONE then Some (err, s2) else restore_finish s2 }
         else if type = IMAGE_TYPE_ORIGINAL_XZ then do {
           let img_hdr_temp = (ota_header s)\<lparr>image_type := IMAGE_TYPE_ORIGINAL\<rparr>;
           let img_hdr_temp' = img_hdr_temp\<lparr>header_crc32 :=
             unat (ln_crc32_signle_cal (take (sizeof_image_hdr - 4) (image_hdr_bytes img_hdr_temp)))\<rparr>;
           s1 \<leftarrow> ota_flash_write s app_start (image_hdr_bytes img_hdr_temp');
           (err, s2) \<leftarrow> xz_image_do_restore xz s1 (add_u32 ota_start sizeof_image_hdr);
           if err \<noteq> OTA_ERR_NONE then Some (err, s2) else restore_finish s2 }
         else if type = IMAGE_TYPE_DIFF \<or> type = IMAGE_TYPE_DIFF_XZ then
           (if ver_major (app_header s) = dep_major (ota_header s) \<and> ver_minor (app_header s) = dep_minor (ota_header s)
            then Some (OTA_ERR_NOT_SUPPORT, s) else Some (OTA_ERR_IMPOSSIBLE_VER, s))
         else Some (OTA_ERR_IMG_TYPE, s))"

definition erase_and_restore :: "xz_fun \<Rightarrow> ota \<Rightarrow> (ota_err \<times> ota) option" where
  "erase_and_restore xz s = do {
     s1 \<leftarrow> ota_flash_erase s (start_addr (partition_info_app s)) (pt_size (partition_info_app s));
     restore_image xz s1
   }"

definition image_version :: "image_hdr \<Rightarrow> nat" where
  "image_version h = ver_major h * 2 ^ 8 + ver_minor h"

text \<open>With both images valid: is the new one already in place?\<close>

definition ota_compare :: "xz_fun \<Rightarrow> ota \<Rightarrow> (ota_err \<times> ota) option" where
  "ota_compare xz s =
     (if image_version (ota_header s) = image_version (app_header s) then
        (if img_size_orig (app_header s) = img_size_orig (ota_header s)
            \<and> img_crc32_orig (app_header s) = img_crc32_orig (ota_header s)
         then do {
           (r, s1) \<leftarrow> ota_upg_state_set s UPG_STATE_RESTORE_OK;
           if \<not> r then Some (OTA_ERR_NVDS_RW, s1)
           else Some (OTA_ERR_NONE, jump_to_app s1 (add_u32 (start_addr (partition_info_app s1)) sizeof_image_hdr)) }
         else erase_and_restore xz s)
      else erase_and_restore xz s)"

definition ota_boot_upgrade_agent :: "xz_fun \<Rightarrow> ota \<Rightarrow> (ota_err \<times> ota) option" where
  "ota_boot_upgrade_agent xz s0 = do {
     (r0, info) \<leftarrow> ln_fetch_partition_info (ota_cells s0) PARTITION_TYPE_APP (Some (partition_info_app s0));
     let s = s0\<lparr>partition_info_app := the info\<rparr>;
     if \<not> r0 then Some (OTA_ERR_PARTITION_TAB, s)
     else do {
       (ret, upgrade_state) \<leftarrow> ota_upg_state_get s (2 ^ 32 - 1);
       let app_entity = add_u32 (start_addr (partition_info_app s)) sizeof_image_hdr;
       if \<not> ret \<or> upgrade_state = 2 ^ 32 - 1 then Some (OTA_ERR_NONE, jump_to_app s app_entity)
       else if UPG_STATE_DOWNLOAD_OK \<noteq> upgrade_state then Some (OTA_ERR_NONE, jump_to_app s app_entity)
       else do {
         (err, s1) \<leftarrow> verify_app s;
         if err \<noteq> OTA_ERR_NONE then do {
           (err', s2) \<leftarrow> verify_ota s1;
           if err' \<noteq> OTA_ERR_NONE then Some (err', s2) else erase_and_restore xz s2 }
         else do {
           (err', s2) \<leftarrow> verify_ota s1;
           if err' \<noteq> OTA_ERR_NONE
           then Some (err', jump_to_app s2 (add_u32 (start_addr (partition_info_app s2)) sizeof_image_hdr))
           else ota_compare xz s2
         }
       }
     }
   }"

section \<open>The boot loader\<close>

text \<open>
  \<^verbatim>\<open>main\<close> of the boot loader up to its final loop; \<open>r_idle\<close> is the value of the register that
  asks for a direct start of the image in the update partition, \<open>junk\<close> the content of the
  local partition entry before it is filled.  The results of the partition and store functions
  are ignored, as in the code.
\<close>

definition bootload_main :: "xz_fun \<Rightarrow> nat \<Rightarrow> partition_info \<Rightarrow> ota \<Rightarrow> (ota_err option \<times> ota) option" where
  "bootload_main xz r_idle junk s0 = do {
     verified \<leftarrow> ln_verify_partition_table (ota_cells s0);
     (r, info) \<leftarrow> ln_fetch_partition_info (ota_cells s0) PARTITION_TYPE_NVDS (Some junk);
     (nr, nv) \<leftarrow> ln_nvds_init (ot_nv s0) (start_addr (the info));
     let s = s0\<lparr>ot_nv := nv\<rparr>;
     (direct, inf) \<leftarrow> (if r_idle = 0xaeaebebe
       then ln_fetch_partition_info (ota_cells s) PARTITION_TYPE_OTA (Some junk) else Some (False, None));
     if direct then Some (None, jump_to_app s (add_u32 (start_addr (the inf)) sizeof_image_hdr))
     else do {
       (err, s') \<leftarrow> ota_boot_upgrade_agent xz s;
       Some (Some err, s')
     }
   }"

end
