(* ===== verification/Ota_Restore.thy ===== *)
theory Ota_Restore
  imports Ota
begin

text \<open>
  One boot of the update agent.  \<open>image_check\<close> is the verdict of the code on the image at an
  address, as a function of the flash; \<open>restore_ops\<close> is the list of device steps of erasing
  the application and copying the update.  \<open>ota_pending\<close> is the state in which an update
  waits; a boot that is cut at any step leads to such a state again or to \<open>ota_done\<close>, and one
  that is not cut leads to \<open>ota_done\<close> and enters the new image (\<open>pending_boot\<close>).
\<close>

section \<open>Specification\<close>

definition image_header_at :: "nor \<Rightarrow> nat \<Rightarrow> image_hdr" where
  "image_header_at fl a = image_hdr_decode (nor_read fl a 256)"

definition image_check :: "nor \<Rightarrow> nat \<Rightarrow> ota_err" where
  "image_check fl a =
     (let h = image_header_at fl a
      in if image_header_verify h \<noteq> OTA_ERR_NONE then image_header_verify h
         else case image_size_crc h of None \<Rightarrow> OTA_ERR_IMG_TYPE
         | Some (sz, crc) \<Rightarrow>
             if unat (ln_crc32_signle_cal (nor_read fl (a + 256) sz)) = crc then OTA_ERR_NONE
             else OTA_ERR_IMG_ENTITY_VERIFY)"

text \<open>A header that passes its CRC gives a size that stays inside the partition of \<open>n\<close> bytes.\<close>

definition hdr_fits :: "byte list \<Rightarrow> nat \<Rightarrow> bool" where
  "hdr_fits bs n \<longleftrightarrow> image_header_verify (image_hdr_decode bs) = OTA_ERR_NONE \<longrightarrow>
     (case image_size_crc (image_hdr_decode bs) of None \<Rightarrow> True
      | Some (sz, crc) \<Rightarrow> 256 + sz \<le> n)"

section \<open>Lemmas\<close>

lemma le_bytes_bslice: "a + n \<le> length bs \<Longrightarrow> le_bytes n (le_val (bslice a n bs)) = bslice a n bs"
  by (metis le_bytes_le_val length_bslice)

lemma bslice_join:
  "b = a + m \<Longrightarrow> bslice a m bs @ bslice b n bs = bslice a (m + n) bs"
  "b = a + m \<Longrightarrow> bslice a m bs @ bslice b n bs @ r = bslice a (m + n) bs @ r"
  by (simp_all add: bslice_def take_add add.commute)

lemma image_hdr_bytes_decode [simp]:
  assumes "length bs = 256"
  shows "image_hdr_bytes (image_hdr_decode bs) = bs"
proof -
  have "image_hdr_bytes (image_hdr_decode bs) =
      bslice 0 4 bs @ bslice 4 1 bs @ bslice 5 1 bs @ bslice 6 1 bs @ bslice 7 1 bs @ bslice 8 4 bs
      @ bslice 12 4 bs @ bslice 16 4 bs @ bslice 20 4 bs @ bslice 24 4 bs @ bslice 28 4 bs
      @ bslice 32 4 bs @ bslice 36 4 bs @ bslice 40 212 bs @ bslice 252 4 bs"
    using assms by (simp add: image_hdr_bytes_def image_hdr_decode_def le_bytes_bslice del: One_nat_def le_bytes.simps)
  also have "\<dots> = bslice 0 256 bs"
    by (simp add: bslice_join del: One_nat_def)
  finally show ?thesis using assms by (simp add: bslice_def)
qed

text \<open>Verifying an image is \<open>image_check\<close>.\<close>

lemma ota_read_eq:
  "a + n \<le> FALSH_SIZE_MAX \<Longrightarrow> ota_flash_read s a n = Some (nor_read (ota_cells s) a n)"
  by (simp add: ota_flash_read_def hal_simps)

lemma crc_loop_eq:
  "off + 128 * n \<le> FALSH_SIZE_MAX \<Longrightarrow>
   image_crc_loop n s off ctx = Some (off + 128 * n, ln_crc32_update ctx (nor_read (ota_cells s) off (128 * n)))"
proof (induction n arbitrary: off ctx)
  case 0
  then show ?case by (simp add: ln_crc32_update_def)
next
  case (Suc n)
  have "nor_read (ota_cells s) off (128 * Suc n)
      = nor_read (ota_cells s) off 128 @ nor_read (ota_cells s) (off + 128) (128 * n)"
    using nor_read_add [of "ota_cells s" off 128 "128 * n"] by simp
  with Suc show ?case
    by (simp add: TEMP_BUF_LEN_def ota_read_eq ln_crc32_update_append)
qed

lemma body_verify_eq:
  assumes "image_size_crc h = Some (sz, crc)" and "a + 256 + sz \<le> FALSH_SIZE_MAX"
  shows "image_body_verify s a (Some h) =
    Some (if unat (ln_crc32_signle_cal (nor_read (ota_cells s) (a + 256) sz)) = crc
          then OTA_ERR_NONE else OTA_ERR_IMG_ENTITY_VERIFY)"
proof -
  have sz: "128 * (sz div 128) + sz mod 128 = sz" by simp
  then have l: "a + 256 + 128 * (sz div 128) + sz mod 128 \<le> FALSH_SIZE_MAX" using assms(2) by linarith
  have "nor_read (ota_cells s) (a + 256) sz
      = nor_read (ota_cells s) (a + 256) (128 * (sz div 128))
        @ nor_read (ota_cells s) (a + 256 + 128 * (sz div 128)) (sz mod 128)"
    by (metis nor_read_add sz)
  with assms(1) l show ?thesis
    by (simp add: image_body_verify_def TEMP_BUF_LEN_def sizeof_image_hdr_def crc_loop_eq ota_read_eq
        ln_crc32_signle_cal_eq ln_crc32_update_append)
qed

lemma verify_total_eq:
  assumes t: "partition_table (ota_cells s) ps" "partition_lookup ps type = Some (type, a, n)"
    and type: "type = PARTITION_TYPE_APP \<or> type = PARTITION_TYPE_OTA"
    and a: "a + n \<le> FALSH_SIZE_MAX" "256 \<le> n" and fits: "hdr_fits (nor_read (ota_cells s) a 256) n"
  shows "verify_total_img_partition s type info hdr =
    Some (image_check (ota_cells s) a, entry_info (type, a, n), image_header_at (ota_cells s) a)"
proof -
  have hd: "image_header_read s type hdr = Some (OTA_ERR_NONE, image_header_at (ota_cells s) a)"
    using type a t(2) by (auto simp: image_header_read_def fetch_table [OF t(1)] sizeof_image_hdr_def
        image_header_at_def ota_read_eq)
  show ?thesis
  proof (cases "image_header_verify (image_header_at (ota_cells s) a) = OTA_ERR_NONE")
    case False
    then show ?thesis
      using t(2) hd by (simp add: verify_total_img_partition_def fetch_table [OF t(1)] image_check_def Let_def)
  next
    case True
    show ?thesis
    proof (cases "image_size_crc (image_header_at (ota_cells s) a)")
      case None
      with True show ?thesis
        using t(2) hd by (simp add: verify_total_img_partition_def fetch_table [OF t(1)] image_check_def
            image_body_verify_def Let_def)
    next
      case (Some p)
      obtain sz crc where p: "p = (sz, crc)" by (cases p)
      with Some True fits a have "a + 256 + sz \<le> FALSH_SIZE_MAX"
        by (simp add: hdr_fits_def image_header_at_def)
      with Some True p show ?thesis
        using t(2) hd by (simp add: verify_total_img_partition_def fetch_table [OF t(1)] image_check_def
            body_verify_eq Let_def)
    qed
  qed
qed

lemma image_check_cong:
  assumes "nor_read fl a 256 = nor_read gl b 256"
    and "\<And>sz crc. image_size_crc (image_header_at gl b) = Some (sz, crc) \<Longrightarrow>
      nor_read fl (a + 256) sz = nor_read gl (b + 256) sz"
  shows "image_check fl a = image_check gl b"
  using assms by (auto simp: image_check_def image_header_at_def Let_def split: option.splits)

section \<open>The steps of a restore\<close>

definition ota_run :: "mop list \<Rightarrow> ota \<Rightarrow> ota" where
  "ota_run ops s = s\<lparr>ot_nv := (ot_nv s)\<lparr>nv_dev := run_ops ops (nv_dev (ot_nv s))\<rparr>\<rparr>"

text \<open>Erase the application at \<open>a\<close>, then program the header and the body of the update.\<close>

definition restore_ops :: "nat \<Rightarrow> nat \<Rightarrow> byte list \<Rightarrow> mop list" where
  "restore_ops a n img = erase_ops a n @ prog_ops a img"

lemma ota_run_simps [simp]:
  "app_header (ota_run ops s) = app_header s" "ota_header (ota_run ops s) = ota_header s"
  "partition_info_app (ota_run ops s) = partition_info_app s"
  "partition_info_ota (ota_run ops s) = partition_info_ota s"
  "jumped (ota_run ops s) = jumped s" "ot_nv (ota_run ops s) = (ot_nv s)\<lparr>nv_dev := run_ops ops (nv_dev (ot_nv s))\<rparr>"
  by (simp_all add: ota_run_def)

lemma ota_run_append: "ota_run ys (ota_run xs s) = ota_run (xs @ ys) s"
  by (simp add: ota_run_def run_ops_append)

lemma ota_run_Nil [simp]: "ota_run [] s = s"
  by (simp add: ota_run_def)

lemma ota_write_eq:
  "a + length bs \<le> FALSH_SIZE_MAX \<Longrightarrow> a < FALSH_SIZE_MAX \<Longrightarrow>
   ota_flash_write s a bs = Some (ota_run (prog_ops a bs) s)"
  by (simp add: ota_flash_write_def power_program_ops ota_run_def)

lemma ota_erase_eq:
  "4096 dvd a \<Longrightarrow> 4096 dvd n \<Longrightarrow> a + n \<le> FALSH_SIZE_MAX \<Longrightarrow>
   ota_flash_erase s a n = Some (ota_run (erase_ops a n) s)"
  by (simp add: ota_flash_erase_def power_erase_ops ota_run_def)

lemma ota_cells_run: "ota_cells (ota_run ops s) = pd_cells (run_ops ops (nv_dev (ot_nv s)))"
  by (simp add: ota_cells_def)

lemma ota_read_run_other:
  assumes "list_all (mop_within lo hi) ops" and "a + n \<le> lo \<or> hi \<le> a"
  shows "nor_read (ota_cells (ota_run ops s)) a n = nor_read (ota_cells s) a n"
  using assms by (intro nor_read_cong) (auto simp: ota_cells_run run_ops_other [OF assms(1)] ota_cells_def)

lemma prog_ops_append: "prog_ops a (xs @ ys) = prog_ops a xs @ prog_ops (a + length xs) ys"
  by (induction a xs rule: prog_ops.induct) simp_all

lemma restore_loop_eq:
  assumes "a + 4096 * n \<le> FALSH_SIZE_MAX" and "o' + 4096 * n \<le> FALSH_SIZE_MAX"
    and "a + 4096 * n \<le> o' \<or> o' + 4096 * n \<le> a"
  shows "orig_restore_loop n s a o' = Some (a + 4096 * n, o' + 4096 * n,
    ota_run (prog_ops a (nor_read (ota_cells s) o' (4096 * n))) s)"
  using assms
proof (induction n arbitrary: s a o')
  case 0
  then show ?case by simp
next
  case (Suc n)
  let ?s' = "ota_run (prog_ops a (nor_read (ota_cells s) o' 4096)) s"
  have rd: "nor_read (ota_cells ?s') (o' + 4096) (4096 * n) = nor_read (ota_cells s) (o' + 4096) (4096 * n)"
    using Suc.prems by (intro ota_read_run_other [of a "a + 4096"]) (auto simp: mop_simps)
  have "nor_read (ota_cells s) o' (4096 * Suc n)
      = nor_read (ota_cells s) o' 4096 @ nor_read (ota_cells s) (o' + 4096) (4096 * n)"
    using nor_read_add [of "ota_cells s" o' 4096 "4096 * n"] by simp
  moreover have "a + 4096 + 4096 * n \<le> FALSH_SIZE_MAX" "o' + 4096 + 4096 * n \<le> FALSH_SIZE_MAX"
    "a + 4096 + 4096 * n \<le> o' + 4096 \<or> o' + 4096 + 4096 * n \<le> a + 4096"
    using Suc.prems by auto
  from Suc.IH [OF this, of ?s'] have "orig_restore_loop n ?s' (a + 4096) (o' + 4096) =
      Some (a + 4096 * Suc n, o' + 4096 * Suc n, ota_run (prog_ops a (nor_read (ota_cells s) o' 4096)
        @ prog_ops (a + 4096) (nor_read (ota_cells s) (o' + 4096) (4096 * n))) s)"
    by (simp add: rd ota_run_append)
  ultimately show ?case
    using Suc.prems by (simp add: LEN_4KB_def ota_read_eq ota_write_eq prog_ops_append)
qed

lemma do_restore_eq:
  assumes "a + sz \<le> FALSH_SIZE_MAX" and "o' + sz \<le> FALSH_SIZE_MAX" and "a + sz \<le> o' \<or> o' + sz \<le> a"
  shows "orig_image_do_restore s a o' sz =
    Some (OTA_ERR_NONE, ota_run (prog_ops a (nor_read (ota_cells s) o' sz)) s)"
proof -
  define n where "n = sz div 4096"
  define r where "r = sz mod 4096"
  have sz: "sz = 4096 * n + r" by (simp add: n_def r_def)
  have bounds: "a + 4096 * n + r \<le> FALSH_SIZE_MAX" "o' + 4096 * n + r \<le> FALSH_SIZE_MAX"
    "a + 4096 * n \<le> FALSH_SIZE_MAX" "o' + 4096 * n \<le> FALSH_SIZE_MAX"
    "a + 4096 * n \<le> o' \<or> o' + 4096 * n \<le> a" "a + 4096 * n \<le> o' + 4096 * n \<or> o' + 4096 * n + r \<le> a"
    using assms sz by auto
  let ?s1 = "ota_run (prog_ops a (nor_read (ota_cells s) o' (4096 * n))) s"
  have rd: "nor_read (ota_cells ?s1) (o' + 4096 * n) r = nor_read (ota_cells s) (o' + 4096 * n) r"
    using bounds by (intro ota_read_run_other [of a "a + 4096 * n"]) (auto simp: mop_simps)
  have "nor_read (ota_cells s) o' sz = nor_read (ota_cells s) o' (4096 * n) @ nor_read (ota_cells s) (o' + 4096 * n) r"
    by (simp add: sz nor_read_add)
  with bounds rd show ?thesis
    unfolding orig_image_do_restore_def LEN_4KB_def Let_def
    by (simp flip: n_def r_def add: restore_loop_eq ota_read_eq ota_write_eq ota_run_append prog_ops_append)
qed

lemma erase_and_restore_eq:
  assumes hdr: "ota_header s = image_header_at (ota_cells s) b"
    and orig: "image_type (ota_header s) = IMAGE_TYPE_ORIGINAL" and sz: "sz = img_size_orig (ota_header s)"
    and app: "start_addr (partition_info_app s) = a" "pt_size (partition_info_app s) = n"
    and ota: "start_addr (partition_info_ota s) = b"
    and geo: "4096 dvd a" "4096 dvd n" "a + n \<le> FALSH_SIZE_MAX" "256 + sz \<le> n" "b + 256 + sz \<le> FALSH_SIZE_MAX"
      "a + n \<le> b \<or> b + 256 + sz \<le> a"
  shows "erase_and_restore xz s = restore_finish (ota_run (restore_ops a n (nor_read (ota_cells s) b (256 + sz))) s)"
proof -
  let ?s1 = "ota_run (erase_ops a n) s"
  let ?hd = "nor_read (ota_cells s) b 256"
  let ?s2 = "ota_run (prog_ops a ?hd) ?s1"
  have b1: "image_hdr_bytes (ota_header s) = ?hd"
    by (simp add: hdr image_header_at_def)
  have w: "list_all (mop_within a (a + n)) (erase_ops a n @ prog_ops a ?hd)"
    using geo by (simp add: mop_simps)
  have "nor_read (ota_cells ?s2) (b + 256) sz = nor_read (ota_cells s) (b + 256) sz"
    unfolding ota_run_append using geo by (intro ota_read_run_other [OF w]) auto
  moreover have "nor_read (ota_cells s) b (256 + sz) = ?hd @ nor_read (ota_cells s) (b + 256) sz"
    by (simp add: nor_read_add)
  moreover have "a + 256 + sz \<le> FALSH_SIZE_MAX" "b + 256 + sz \<le> FALSH_SIZE_MAX"
    "a + 256 + sz \<le> b + 256 \<or> b + 256 + sz \<le> a + 256"
    using geo by auto
  note do_restore_eq [OF this, of ?s2]
  ultimately show ?thesis
    using geo app ota orig b1
    by (simp add: erase_and_restore_def ota_erase_eq restore_image_def ota_write_eq sizeof_image_hdr_def
        sz [symmetric] restore_ops_def ota_run_append prog_ops_append IMAGE_TYPE_ORIGINAL_def)
qed

text \<open>The cells after a prefix of the steps: torn, or the first bytes of the update behind erased ones.\<close>

lemma restore_prefix_header:
  assumes "256 \<le> n" and "256 \<le> length img" and "length img \<le> n" and "0 < k"
  shows "nor_read (mops torn (take k (restore_ops a n img)) fl) a 256 = nor_read torn a 256 \<or>
    (\<exists>j \<le> 256. nor_read (mops torn (take k (restore_ops a n img)) fl) a 256
        = take j img @ replicate (256 - j) (- 1))"
proof (cases "k = 1")
  case True
  have "nor_read (nor_tear torn fl a n) a 256 = nor_read torn a 256"
    using assms(1) by (intro nor_read_cong) (auto simp: nor_tear_def)
  with True show ?thesis by (simp add: restore_ops_def erase_ops_def)
next
  case False
  with assms(4) obtain i where k: "k = Suc (Suc i)" by (metis One_nat_def not0_implies_Suc less_numeral_extra(3))
  have m: "mops torn (take k (restore_ops a n img)) fl = nor_write (nor_erase fl a n) a (take i img)"
    using mops_erase_ops [of torn a n fl]
    by (simp add: k restore_ops_def erase_ops_def take_prog_ops mops_prog_ops)
  define j where "j = min i 256"
  have "nor_read (nor_write (nor_erase fl a n) a (take i img)) a 256 = take j img @ replicate (256 - j) (- 1)"
  proof (rule nth_equalityI)
    show "length (nor_read (nor_write (nor_erase fl a n) a (take i img)) a 256)
        = length (take j img @ replicate (256 - j) (- 1))"
      using assms(2) by (simp add: j_def)
  next
    fix x
    assume "x < length (nor_read (nor_write (nor_erase fl a n) a (take i img)) a 256)"
    then have "x < 256" by simp
    then show "nor_read (nor_write (nor_erase fl a n) a (take i img)) a 256 ! x
        = (take j img @ replicate (256 - j) (- 1)) ! x"
      using assms by (auto simp: nth_append j_def nor_write_def nor_erase_def)
  qed
  moreover have "j \<le> 256" by (simp add: j_def)
  ultimately show ?thesis using m by metis
qed

lemma restore_full:
  assumes "length img \<le> n"
  shows "nor_read (mops torn (restore_ops a n img) fl) a (length img) = img"
proof -
  have "nor_read (nor_write (nor_erase fl a n) a img) a (length img) = img"
    using assms by (intro nor_read_write_blank) (simp add: blank_erase_sub)
  then show ?thesis by (simp add: restore_ops_def mops_append mop_simps)
qed

section \<open>The states of an update\<close>

text \<open>
  The partitions: the application at \<open>a\<close> with \<open>n\<close> bytes, the update at \<open>b\<close> with \<open>m\<close> bytes and
  the three sectors of the non-volatile store at \<open>nv\<close>; none of them overlap.
\<close>

definition ota_layout :: "part_entry list \<Rightarrow> nat \<Rightarrow> nat \<Rightarrow> nat \<Rightarrow> nat \<Rightarrow> nat \<Rightarrow> bool" where
  "ota_layout ps a n b m nv \<longleftrightarrow>
     partition_lookup ps PARTITION_TYPE_APP = Some (PARTITION_TYPE_APP, a, n)
     \<and> partition_lookup ps PARTITION_TYPE_OTA = Some (PARTITION_TYPE_OTA, b, m)
     \<and> 4096 dvd a \<and> 4096 dvd n \<and> a + n \<le> FALSH_SIZE_MAX \<and> b + m \<le> FALSH_SIZE_MAX
     \<and> 28672 \<le> a \<and> 28672 \<le> nv \<and> (a + n \<le> b \<or> b + m \<le> a)
     \<and> (a + n \<le> nv \<or> nv + 12288 \<le> a) \<and> (b + m \<le> nv \<or> nv + 12288 \<le> b)"

text \<open>A valid image of the original type that the partitions can hold.\<close>

definition update_image :: "byte list \<Rightarrow> bool" where
  "update_image img \<longleftrightarrow>
     (let h = image_hdr_decode (take 256 img)
      in length img = 256 + img_size_orig h \<and> image_type h = IMAGE_TYPE_ORIGINAL
         \<and> image_header_verify h = OTA_ERR_NONE
         \<and> unat (ln_crc32_signle_cal (drop 256 img)) = img_crc32_orig h)"

text \<open>Any image that the boot loader takes for valid, with its size in full.\<close>

definition waiting_image :: "byte list \<Rightarrow> bool" where
  "waiting_image img \<longleftrightarrow>
     (let h = image_hdr_decode (take 256 img)
      in 256 \<le> length img \<and> image_header_verify h = OTA_ERR_NONE
         \<and> image_size_crc h = Some (length img - 256, unat (ln_crc32_signle_cal (drop 256 img))))"

text \<open>What two headers share when one announces the other: version, size and CRC of the original image.\<close>

definition same_original :: "image_hdr \<Rightarrow> image_hdr \<Rightarrow> bool" where
  "same_original h h' \<longleftrightarrow> image_version h = image_version h' \<and> img_size_orig h = img_size_orig h'
     \<and> img_crc32_orig h = img_crc32_orig h'"

text \<open>
  No header of which only the first bytes have been written passes its CRC with a size that
  leaves the partition.  From the twelfth byte on the type and the size are those of the update.
\<close>

definition partial_headers_fit :: "byte list \<Rightarrow> nat \<Rightarrow> bool" where
  "partial_headers_fit img n \<longleftrightarrow> (\<forall>j < 12. hdr_fits (take j img @ replicate (256 - j) (- 1)) n)"

text \<open>
  The image \<open>img\<close> waits in the update partition; \<open>tgt\<close> is what it becomes in the application
  partition, and \<open>valid\<close> relates the two.  For an uncompressed update they are the same
  (\<open>ota_common\<close>, \<open>ota_pending\<close> and \<open>ota_done\<close>).
\<close>

definition upd_common :: "(byte list \<Rightarrow> byte list \<Rightarrow> bool) \<Rightarrow> part_entry list \<Rightarrow> nat \<Rightarrow> nat \<Rightarrow> nat \<Rightarrow> nat
    \<Rightarrow> byte list \<Rightarrow> byte list \<Rightarrow> ota \<Rightarrow> bool" where
  "upd_common valid ps a n b m img tgt s \<longleftrightarrow>
     ota_layout ps a n b m (ln_nvds_base (ot_nv s)) \<and> partition_table (ota_cells s) ps
     \<and> valid img tgt \<and> length img \<le> m \<and> length tgt \<le> n \<and> nor_read (ota_cells s) b (length img) = img
     \<and> partial_headers_fit tgt n"

definition ota_common :: "part_entry list \<Rightarrow> nat \<Rightarrow> nat \<Rightarrow> nat \<Rightarrow> nat \<Rightarrow> byte list \<Rightarrow> ota \<Rightarrow> bool" where
  "ota_common ps a n b m img s \<longleftrightarrow>
     ota_layout ps a n b m (ln_nvds_base (ot_nv s)) \<and> partition_table (ota_cells s) ps
     \<and> update_image img \<and> length img \<le> m \<and> length img \<le> n \<and> nor_read (ota_cells s) b (length img) = img
     \<and> partial_headers_fit img n"

definition nvds_state :: "nvds \<Rightarrow> nat \<Rightarrow> bool" where
  "nvds_state nv v \<longleftrightarrow> (\<exists>x. nvds_holds nv x \<and> bslice 20 4 x = le_bytes 4 v)"

definition orig_update :: "byte list \<Rightarrow> byte list \<Rightarrow> bool" where
  "orig_update img tgt \<longleftrightarrow> update_image img \<and> tgt = img"

definition app_updated :: "nor \<Rightarrow> nat \<Rightarrow> byte list \<Rightarrow> bool" where
  "app_updated fl a img \<longleftrightarrow>
     (let h = image_header_at fl a; h' = image_hdr_decode (take 256 img)
      in image_check fl a = OTA_ERR_NONE \<and> image_version h = image_version h'
         \<and> img_size_orig h = img_size_orig h' \<and> img_crc32_orig h = img_crc32_orig h')"

definition upd_pending :: "(byte list \<Rightarrow> byte list \<Rightarrow> bool) \<Rightarrow> part_entry list \<Rightarrow> nat \<Rightarrow> nat \<Rightarrow> nat \<Rightarrow> nat
    \<Rightarrow> byte list \<Rightarrow> byte list \<Rightarrow> ota \<Rightarrow> bool" where
  "upd_pending valid ps a n b m img tgt s \<longleftrightarrow> upd_common valid ps a n b m img tgt s
     \<and> nvds_state (ot_nv s) UPG_STATE_DOWNLOAD_OK \<and> hdr_fits (nor_read (ota_cells s) a 256) n"

definition upd_done :: "(byte list \<Rightarrow> byte list \<Rightarrow> bool) \<Rightarrow> part_entry list \<Rightarrow> nat \<Rightarrow> nat \<Rightarrow> nat \<Rightarrow> nat
    \<Rightarrow> byte list \<Rightarrow> byte list \<Rightarrow> ota \<Rightarrow> bool" where
  "upd_done valid ps a n b m img tgt s \<longleftrightarrow> upd_common valid ps a n b m img tgt s
     \<and> nvds_state (ot_nv s) UPG_STATE_RESTORE_OK \<and> app_updated (ota_cells s) a tgt"

definition ota_pending :: "part_entry list \<Rightarrow> nat \<Rightarrow> nat \<Rightarrow> nat \<Rightarrow> nat \<Rightarrow> byte list \<Rightarrow> ota \<Rightarrow> bool" where
  "ota_pending ps a n b m img s \<longleftrightarrow> ota_common ps a n b m img s
     \<and> nvds_state (ot_nv s) UPG_STATE_DOWNLOAD_OK \<and> hdr_fits (nor_read (ota_cells s) a 256) n"

definition ota_done :: "part_entry list \<Rightarrow> nat \<Rightarrow> nat \<Rightarrow> nat \<Rightarrow> nat \<Rightarrow> byte list \<Rightarrow> ota \<Rightarrow> bool" where
  "ota_done ps a n b m img s \<longleftrightarrow> ota_common ps a n b m img s
     \<and> nvds_state (ot_nv s) UPG_STATE_RESTORE_OK \<and> app_updated (ota_cells s) a img"

lemma upd_orig:
  "upd_common orig_update ps a n b m img img = ota_common ps a n b m img"
  "upd_pending orig_update ps a n b m img img = ota_pending ps a n b m img"
  "upd_done orig_update ps a n b m img img = ota_done ps a n b m img"
  by (auto simp: fun_eq_iff upd_common_def ota_common_def upd_pending_def ota_pending_def upd_done_def ota_done_def
      orig_update_def)

section \<open>What keeps them\<close>

lemma nvds_holds_cong:
  assumes "nvds_holds s m" and "ln_nvds_base t = ln_nvds_base s"
    and "\<And>x. ln_nvds_base s \<le> x \<Longrightarrow> x < ln_nvds_base s + 12288 \<Longrightarrow> pd_cells (nv_dev t) x = pd_cells (nv_dev s) x"
  shows "nvds_holds t m"
proof -
  have rd: "nor_read (pd_cells (nv_dev t)) (ln_nvds_base s + i) n = nor_read (pd_cells (nv_dev s)) (ln_nvds_base s + i) n"
    if "i + n \<le> 12288" for i n
    using that assms(3) by (intro nor_read_cong) auto
  have "nvds_flag (pd_cells (nv_dev t)) (ln_nvds_base s) = nvds_flag (pd_cells (nv_dev s)) (ln_nvds_base s)"
    using rd [of 8192 2] by (simp add: nvds_flag_def)
  then have "nvds_array (pd_cells (nv_dev t)) (ln_nvds_base s) = nvds_array (pd_cells (nv_dev s)) (ln_nvds_base s)"
    using rd [of 0 4096] rd [of 4096 4096] by (simp add: nvds_array_def nvds_sect_def)
  with assms show ?thesis by (simp add: nvds_holds_def nvds_ok_def)
qed

lemma partition_table_cong:
  assumes "partition_table fl ps" and "\<And>x. x < 28672 \<Longrightarrow> gl x = fl x"
  shows "partition_table gl ps"
proof -
  have "entry_at gl i = entry_at fl i" if "i < 256" for i
    unfolding entry_at_def using that assms(2) by (intro nor_read_cong) (simp add: PARTITION_TAB_BASE_def)
  then show ?thesis using assms(1) by (auto simp: partition_table_def)
qed

text \<open>Changes inside the application's partition, or inside the non-volatile store.\<close>

lemma upd_common_cong:
  assumes c: "upd_common valid ps a n b m img tgt s" and base: "ln_nvds_base (ot_nv t) = ln_nvds_base (ot_nv s)"
    and cells: "\<And>x. \<not> (a \<le> x \<and> x < a + n) \<Longrightarrow>
      \<not> (ln_nvds_base (ot_nv s) \<le> x \<and> x < ln_nvds_base (ot_nv s) + 12288) \<Longrightarrow> ota_cells t x = ota_cells s x"
  shows "upd_common valid ps a n b m img tgt t"
proof -
  from c have lay: "ota_layout ps a n b m (ln_nvds_base (ot_nv s))" and "length img \<le> m"
    by (simp_all add: upd_common_def)
  then have "nor_read (ota_cells t) b (length img) = nor_read (ota_cells s) b (length img)"
    by (intro nor_read_cong cells) (auto simp: ota_layout_def)
  moreover have "partition_table (ota_cells t) ps"
  proof (rule partition_table_cong)
    show "partition_table (ota_cells s) ps" using c by (simp add: upd_common_def)
  next
    fix x :: nat
    assume "x < 28672"
    moreover from lay have "28672 \<le> a" "28672 \<le> ln_nvds_base (ot_nv s)" by (simp_all add: ota_layout_def)
    ultimately show "ota_cells t x = ota_cells s x" by (intro cells) linarith+
  qed
  ultimately show ?thesis using c base by (simp add: upd_common_def)
qed

lemma nvds_state_cong:
  assumes "nvds_state nv v" and "ln_nvds_base nv' = ln_nvds_base nv"
    and "\<And>x. ln_nvds_base nv \<le> x \<Longrightarrow> x < ln_nvds_base nv + 12288 \<Longrightarrow> pd_cells (nv_dev nv') x = pd_cells (nv_dev nv) x"
  shows "nvds_state nv' v"
proof -
  from assms(1) obtain x where "nvds_holds nv x" and x: "bslice 20 4 x = le_bytes 4 v"
    unfolding nvds_state_def by (elim exE conjE) (rule that)
  from nvds_holds_cong [OF this(1) assms(2,3)] x show ?thesis
    unfolding nvds_state_def by (intro exI conjI)
qed

text \<open>Setting the state of the update: atomic, and only the store's sectors change.\<close>

lemma upg_state_set:
  assumes st: "nvds_state nv v" and v: "v < 2 ^ 32" "w < 2 ^ 32" "v \<noteq> w"
  obtains nv' where "ln_nvds_set_ota_upg_state nv w = Some (NVDS_ERR_OK, nv')"
    "ln_nvds_base nv' = ln_nvds_base nv"
    "nvds_state nv' v \<or> nvds_state nv' w"
    "pd_power (nv_dev nv) = None \<Longrightarrow> nvds_state nv' w"
    "pd_power (nv_dev nv) = Some 0 \<Longrightarrow> pd_cells (nv_dev nv') = pd_cells (nv_dev nv)"
    "\<And>x. x < ln_nvds_base nv \<or> ln_nvds_base nv + 12288 \<le> x \<Longrightarrow> pd_cells (nv_dev nv') x = pd_cells (nv_dev nv) x"
    "pd_torn (nv_dev nv') = pd_torn (nv_dev nv)"
proof -
  from st obtain x where h: "nvds_holds nv x" and x: "bslice 20 4 x = le_bytes 4 v"
    by (auto simp: nvds_state_def)
  let ?new = "le_bytes 4 w"
  have "le_val (le_bytes 4 v) \<noteq> le_val ?new"
    using v by (simp add: le_simps)
  then have ne: "le_bytes 4 v \<noteq> ?new" by metis
  have off: "NV1_OTA_UPG_STATE_OFFST = 20" "NV1_OTA_UPG_STATE_LEN = 4" by (simp_all add: nv_consts)
  have eq: "ln_nvds_set_ota_upg_state nv w = ln_nvds_write nv 20 ?new"
    using nv_ota_upg_state.set_eq [OF h, of w] x ne v
    by (simp add: off)
  from h have ok: "nvds_ok nv" by (simp add: nvds_holds_def)
  have len: "20 + length ?new \<le> 4096" by simp
  define ops where "ops = sect_ops (nvds_sect (pd_cells (nv_dev nv)) (ln_nvds_base nv))
      (if nvds_sect (pd_cells (nv_dev nv)) (ln_nvds_base nv) = ln_nvds_base nv then ln_nvds_base nv + 4096
       else ln_nvds_base nv) 20 ?new (pd_cells (nv_dev nv))
    @ flag_ops (ln_nvds_base nv + 8192) (if nvds_sect (pd_cells (nv_dev nv)) (ln_nvds_base nv) = ln_nvds_base nv
       then NVDS_SECT2_VALID else NVDS_SECT1_VALID)"
  have w: "ln_nvds_write nv 20 ?new = Some (NVDS_ERR_OK, nv\<lparr>nv_dev := run_ops ops (nv_dev nv)\<rparr>)"
    using nvds_write_ops [OF ok _ len] by (simp add: ops_def)
  have within: "list_all (mop_within (ln_nvds_base nv) (ln_nvds_base nv + 12288)) ops"
  proof -
    have 1: "list_all (mop_within d (d + 4096)) (sect_ops src d 20 ?new fl)" for src d fl
      by (rule within_sect_ops) simp_all
    have 2: "list_all (mop_within f (f + 4096)) (flag_ops f v)" for f v by (rule within_flag_ops)
    have mono: "list_all (mop_within lo hi) xs \<Longrightarrow> lo' \<le> lo \<Longrightarrow> hi \<le> hi' \<Longrightarrow> list_all (mop_within lo' hi') xs"
      for lo hi lo' hi' xs
      by (auto simp: list_all_iff intro: within_mono)
    have s1: "list_all (mop_within (ln_nvds_base nv) (ln_nvds_base nv + 12288)) (sect_ops src d 20 ?new fl)"
      if "d = ln_nvds_base nv \<or> d = ln_nvds_base nv + 4096" for src d fl
      using that by (intro mono [OF 1]) auto
    have s2: "list_all (mop_within (ln_nvds_base nv) (ln_nvds_base nv + 12288)) (flag_ops (ln_nvds_base nv + 8192) v)" for v
      by (rule mono [OF 2]) auto
    show ?thesis unfolding ops_def list_all_append using s2 by (auto intro!: s1)
  qed
  let ?nv' = "nv\<lparr>nv_dev := run_ops ops (nv_dev nv)\<rparr>"
  from nvds_write_holds [OF h _ len] w have res: "nvds_holds ?nv' x \<or> nvds_holds ?nv' (nvds_update x 20 ?new)"
    and full: "pd_power (nv_dev nv) = None \<Longrightarrow> nvds_holds ?nv' (nvds_update x 20 ?new)"
    by (auto elim!: meta_mp)
  have upd: "bslice 20 4 (nvds_update x 20 ?new) = ?new"
    using bslice_update_same [of x 20 ?new] h by simp
  show ?thesis
  proof (rule that [of ?nv'])
    show "ln_nvds_set_ota_upg_state nv w = Some (NVDS_ERR_OK, ?nv')" using eq w by simp
    show "nvds_state ?nv' v \<or> nvds_state ?nv' w"
      using res x upd unfolding nvds_state_def by blast
    show "pd_power (nv_dev nv) = None \<Longrightarrow> nvds_state ?nv' w"
      using full upd unfolding nvds_state_def by blast
    show "pd_power (nv_dev nv) = Some 0 \<Longrightarrow> pd_cells (nv_dev ?nv') = pd_cells (nv_dev nv)"
      by (simp add: run_ops_def)
    show "\<And>y. y < ln_nvds_base nv \<or> ln_nvds_base nv + 12288 \<le> y \<Longrightarrow> pd_cells (nv_dev ?nv') y = pd_cells (nv_dev nv) y"
      using run_ops_other [OF within] by simp
  qed (simp_all add: run_ops_def)
qed

lemma upg_state_set_cases:
  assumes "nvds_state nv UPG_STATE_DOWNLOAD_OK"
  obtains nv' where "ln_nvds_set_ota_upg_state nv UPG_STATE_RESTORE_OK = Some (NVDS_ERR_OK, nv')"
    "ln_nvds_base nv' = ln_nvds_base nv"
    "nvds_state nv' UPG_STATE_DOWNLOAD_OK \<or> nvds_state nv' UPG_STATE_RESTORE_OK"
    "pd_power (nv_dev nv) = None \<Longrightarrow> nvds_state nv' UPG_STATE_RESTORE_OK"
    "pd_power (nv_dev nv) = Some 0 \<Longrightarrow> pd_cells (nv_dev nv') = pd_cells (nv_dev nv)"
    "\<And>x. x < ln_nvds_base nv \<or> ln_nvds_base nv + 12288 \<le> x \<Longrightarrow> pd_cells (nv_dev nv') x = pd_cells (nv_dev nv) x"
    "pd_torn (nv_dev nv') = pd_torn (nv_dev nv)"
  by (rule upg_state_set [OF assms, of UPG_STATE_RESTORE_OK])
    (simp_all add: UPG_STATE_DOWNLOAD_OK_def UPG_STATE_RESTORE_OK_def)

section \<open>One boot\<close>

lemma decode_prefix:
  assumes "12 \<le> j" and "j \<le> 256" and "256 \<le> length img"
  defines "h \<equiv> image_hdr_decode (take j img @ replicate (256 - j) (- 1))"
  shows "image_type h = image_type (image_hdr_decode (take 256 img))"
    and "img_size_orig h = img_size_orig (image_hdr_decode (take 256 img))"
proof -
  have b: "bslice i 4 (take j img @ replicate (256 - j) (- 1)) = bslice i 4 (take 256 img)" if "i + 4 \<le> 12" for i
    using assms(1-3) that by (simp add: bslice_def drop_take)
  show "image_type h = image_type (image_hdr_decode (take 256 img))"
    and "img_size_orig h = img_size_orig (image_hdr_decode (take 256 img))"
    using b [of 0] b [of 8] by (simp_all add: h_def image_hdr_decode_def)
qed

lemma hdr_fits_update:
  assumes u: "update_image img" and l: "length img \<le> n" and p: "partial_headers_fit img n"
    and j: "j \<le> 256"
  shows "hdr_fits (take j img @ replicate (256 - j) (- 1)) n"
proof (cases "j < 12")
  case True
  then show ?thesis using p by (simp add: partial_headers_fit_def)
next
  case False
  from u have "256 \<le> length img" by (auto simp: update_image_def Let_def)
  with False j u l show ?thesis
    by (auto simp: hdr_fits_def image_size_crc_def decode_prefix update_image_def Let_def)
qed

lemma waiting_image_at:
  assumes rd: "nor_read fl a (length img) = img" and u: "waiting_image img"
  shows "image_header_at fl a = image_hdr_decode (take 256 img)" and "image_check fl a = OTA_ERR_NONE"
proof -
  from u have l: "256 \<le> length img" by (auto simp: waiting_image_def Let_def)
  from rd have t: "nor_read fl a 256 = take 256 img" using l by (metis take_nor_read)
  from rd have d: "nor_read fl (a + 256) (length img - 256) = drop 256 img" using l by (metis drop_nor_read)
  show h: "image_header_at fl a = image_hdr_decode (take 256 img)"
    by (simp add: image_header_at_def t)
  with u d show "image_check fl a = OTA_ERR_NONE"
    by (simp add: image_check_def waiting_image_def Let_def)
qed

lemma update_waiting: "update_image img \<Longrightarrow> waiting_image img"
  by (auto simp: update_image_def waiting_image_def image_size_crc_def Let_def)

lemma update_image_at:
  assumes "nor_read fl a (length img) = img" and "update_image img"
  shows "image_header_at fl a = image_hdr_decode (take 256 img)" and "image_check fl a = OTA_ERR_NONE"
  using waiting_image_at [OF assms(1) update_waiting [OF assms(2)]] by simp_all

lemma app_updated_copy:
  "nor_read fl a (length img) = img \<Longrightarrow> update_image img \<Longrightarrow> app_updated fl a img"
  by (simp add: app_updated_def update_image_at Let_def)

lemma app_updated_cong:
  assumes u: "app_updated fl a img" and rd: "\<And>x. a \<le> x \<Longrightarrow> x < a + n \<Longrightarrow> gl x = fl x" and n: "256 \<le> n"
    and fit: "hdr_fits (nor_read fl a 256) n"
  shows "app_updated gl a img"
proof -
  have h: "nor_read gl a 256 = nor_read fl a 256"
    using rd n by (intro nor_read_cong) simp
  have "image_check gl a = image_check fl a"
  proof (rule image_check_cong [OF h])
    fix sz crc
    assume "image_size_crc (image_header_at fl a) = Some (sz, crc)"
    moreover have "image_header_verify (image_header_at fl a) = OTA_ERR_NONE"
      using u by (auto simp: app_updated_def image_check_def Let_def split: if_splits)
    ultimately have "256 + sz \<le> n" using fit by (simp add: hdr_fits_def image_header_at_def)
    then show "nor_read gl (a + 256) sz = nor_read fl (a + 256) sz"
      by (intro nor_read_cong rd) simp_all
  qed
  with u h show ?thesis by (simp add: app_updated_def image_header_at_def)
qed

text \<open>
  The contract of a kind of update: an image for which the code of the restore writes \<open>tgt\<close> behind
  the erased partition, a valid image of the same version.
\<close>

locale update_kind =
  fixes xz :: xz_fun and valid :: "byte list \<Rightarrow> byte list \<Rightarrow> bool"
  assumes valid_waiting: "valid img tgt \<Longrightarrow> waiting_image img"
    and valid_target: "valid img tgt \<Longrightarrow> update_image tgt"
    and valid_same: "valid img tgt \<Longrightarrow>
      same_original (image_hdr_decode (take 256 img)) (image_hdr_decode (take 256 tgt))"
    and restores: "valid img tgt \<Longrightarrow> ota_header s = image_hdr_decode (take 256 img) \<Longrightarrow>
      nor_read (ota_cells s) b (length img) = img \<Longrightarrow> partition_info_app s = entry_info (PARTITION_TYPE_APP, a, n) \<Longrightarrow>
      partition_info_ota s = entry_info (PARTITION_TYPE_OTA, b, m) \<Longrightarrow> 4096 dvd a \<Longrightarrow> 4096 dvd n \<Longrightarrow>
      a + n \<le> FALSH_SIZE_MAX \<Longrightarrow> length tgt \<le> n \<Longrightarrow> b + length img \<le> FALSH_SIZE_MAX \<Longrightarrow>
      a + n \<le> b \<or> b + length img \<le> a \<Longrightarrow> xz_already_read s = 0 \<Longrightarrow> xz_already_write s = 0 \<Longrightarrow>
      \<exists>r w. erase_and_restore xz s = restore_finish
        ((ota_run (restore_ops a n tgt) s)\<lparr>xz_already_read := r, xz_already_write := w\<rparr>)"

context update_kind begin

lemma layout_bounds:
  assumes "upd_common valid ps a n b m img tgt s"
  shows "4096 dvd a" "4096 dvd n" "a + n \<le> FALSH_SIZE_MAX" "b + m \<le> FALSH_SIZE_MAX" "256 \<le> length tgt"
    "length tgt \<le> n" "length img \<le> m" "a + n \<le> b \<or> b + m \<le> a"
    "a + n \<le> ln_nvds_base (ot_nv s) \<or> ln_nvds_base (ot_nv s) + 12288 \<le> a" "update_image tgt"
    "partition_table (ota_cells s) ps" "nor_read (ota_cells s) b (length img) = img" "partial_headers_fit tgt n"
    "partition_lookup ps PARTITION_TYPE_APP = Some (PARTITION_TYPE_APP, a, n)"
    "partition_lookup ps PARTITION_TYPE_OTA = Some (PARTITION_TYPE_OTA, b, m)" "waiting_image img" "256 \<le> length img"
    "valid img tgt"
proof -
  from assms have v: "valid img tgt" by (simp add: upd_common_def)
  from valid_target [OF v] show "update_image tgt" "256 \<le> length tgt" by (simp_all add: update_image_def Let_def)
  from valid_waiting [OF v] show "waiting_image img" "256 \<le> length img" by (simp_all add: waiting_image_def Let_def)
qed (use assms in \<open>auto simp: upd_common_def ota_layout_def\<close>)

end

text \<open>The result of a boot: the update still waits or it is done; it is done when nothing was cut.\<close>

definition boot_result :: "(byte list \<Rightarrow> byte list \<Rightarrow> bool) \<Rightarrow> part_entry list \<Rightarrow> nat \<Rightarrow> nat \<Rightarrow> nat \<Rightarrow> nat
    \<Rightarrow> byte list \<Rightarrow> byte list \<Rightarrow> ota \<Rightarrow> (ota_err \<times> ota) option \<Rightarrow> bool" where
  "boot_result valid ps a n b m img tgt s res \<longleftrightarrow> (\<exists>err s'. res = Some (err, s')
     \<and> (upd_pending valid ps a n b m img tgt s' \<or> upd_done valid ps a n b m img tgt s')
     \<and> (pd_power (nv_dev (ot_nv s)) = None \<longrightarrow>
          err = OTA_ERR_NONE \<and> upd_done valid ps a n b m img tgt s' \<and> jumped s' = jumped s @ [a + 256]))"

lemma boot_result_later:
  assumes "boot_result valid ps a n b m img tgt t res"
    and "pd_power (nv_dev (ot_nv s)) = None \<Longrightarrow> pd_power (nv_dev (ot_nv t)) = None" and "jumped t = jumped s"
  shows "boot_result valid ps a n b m img tgt s res"
proof -
  from assms(1) obtain err s' where r: "res = Some (err, s')"
      "upd_pending valid ps a n b m img tgt s' \<or> upd_done valid ps a n b m img tgt s'"
      "pd_power (nv_dev (ot_nv t)) = None \<longrightarrow>
        err = OTA_ERR_NONE \<and> upd_done valid ps a n b m img tgt s' \<and> jumped s' = jumped t @ [a + 256]"
    unfolding boot_result_def by (elim exE conjE) (rule that)
  with assms(2,3) show ?thesis unfolding boot_result_def by (intro exI [of _ err] exI [of _ s']) simp
qed

context update_kind begin

lemma set_and_jump:
  assumes c: "upd_common valid ps a n b m img tgt s" and st: "nvds_state (ot_nv s) UPG_STATE_DOWNLOAD_OK"
    and fit: "hdr_fits (nor_read (ota_cells s) a 256) n"
    and upd: "app_updated (ota_cells s) a tgt \<or> pd_power (nv_dev (ot_nv s)) = Some 0"
    and info: "start_addr (partition_info_app s) = a"
  shows "boot_result valid ps a n b m img tgt s (do {
    (r, s1) \<leftarrow> ota_upg_state_set s UPG_STATE_RESTORE_OK;
    if \<not> r then Some (OTA_ERR_NVDS_RW, s1)
    else Some (OTA_ERR_NONE, jump_to_app s1 (add_u32 (start_addr (partition_info_app s1)) sizeof_image_hdr)) })"
proof (rule upg_state_set_cases [OF st])
  fix nv'
  assume set_eq: "ln_nvds_set_ota_upg_state (ot_nv s) UPG_STATE_RESTORE_OK = Some (NVDS_ERR_OK, nv')"
    and base: "ln_nvds_base nv' = ln_nvds_base (ot_nv s)"
    and either: "nvds_state nv' UPG_STATE_DOWNLOAD_OK \<or> nvds_state nv' UPG_STATE_RESTORE_OK"
    and full: "pd_power (nv_dev (ot_nv s)) = None \<Longrightarrow> nvds_state nv' UPG_STATE_RESTORE_OK"
    and dead: "pd_power (nv_dev (ot_nv s)) = Some 0 \<Longrightarrow> pd_cells (nv_dev nv') = pd_cells (nv_dev (ot_nv s))"
    and other: "\<And>x. x < ln_nvds_base (ot_nv s) \<or> ln_nvds_base (ot_nv s) + 12288 \<le> x \<Longrightarrow>
      pd_cells (nv_dev nv') x = pd_cells (nv_dev (ot_nv s)) x"
  note b = layout_bounds [OF c]
  define t where "t = jump_to_app (s\<lparr>ot_nv := nv'\<rparr>) (a + 256)"
  have t: "ot_nv t = nv'" "ota_cells t = pd_cells (nv_dev nv')" "jumped t = jumped s @ [a + 256]"
    by (simp_all add: t_def jump_to_app_def ota_cells_def)
  have same: "ota_cells t x = ota_cells s x" if "a \<le> x" "x < a + n" for x
    using b(9) that other [of x] by (auto simp: t ota_cells_def)
  have ct: "upd_common valid ps a n b m img tgt t"
  proof (rule upd_common_cong [OF c])
    fix x
    assume "\<not> (ln_nvds_base (ot_nv s) \<le> x \<and> x < ln_nvds_base (ot_nv s) + 12288)"
    then show "ota_cells t x = ota_cells s x" using other [of x] by (auto simp: t ota_cells_def)
  qed (simp add: t base)
  have ht: "nor_read (ota_cells t) a 256 = nor_read (ota_cells s) a 256"
    using b(5,6) same by (intro nor_read_cong) simp
  have eq: "(do { (r, s1) \<leftarrow> ota_upg_state_set s UPG_STATE_RESTORE_OK;
      if \<not> r then Some (OTA_ERR_NVDS_RW, s1)
      else Some (OTA_ERR_NONE, jump_to_app s1 (add_u32 (start_addr (partition_info_app s1)) sizeof_image_hdr)) })
      = Some (OTA_ERR_NONE, t)"
    using b(3,5,6) info by (simp add: ota_upg_state_set_def set_eq t_def sizeof_image_hdr_def)
  have pend: "upd_pending valid ps a n b m img tgt t" if "nvds_state nv' UPG_STATE_DOWNLOAD_OK"
    using that ct fit ht by (simp add: upd_pending_def t)
  have don: "upd_done valid ps a n b m img tgt t" if "nvds_state nv' UPG_STATE_RESTORE_OK" "app_updated (ota_cells s) a tgt"
    using that ct app_updated_cong [OF that(2) same _ fit] b(5,6) by (simp add: upd_done_def t(1))
  show ?thesis
  proof (cases "pd_power (nv_dev (ot_nv s)) = Some 0")
    case True
    have "nvds_state nv' UPG_STATE_DOWNLOAD_OK"
      by (rule nvds_state_cong [OF st base]) (simp add: dead [OF True])
    with pend show ?thesis unfolding boot_result_def eq using True by simp
  next
    case False
    with upd have u: "app_updated (ota_cells s) a tgt" by blast
    from either pend don u have r: "upd_pending valid ps a n b m img tgt t \<or> upd_done valid ps a n b m img tgt t" by blast
    show ?thesis
      unfolding boot_result_def eq using r full don u t(3) by simp
  qed
qed

lemma verify_app_eq:
  assumes c: "upd_common valid ps a n b m img tgt s" and fit: "hdr_fits (nor_read (ota_cells s) a 256) n"
  shows "verify_app s = Some (image_check (ota_cells s) a,
    s\<lparr>partition_info_app := entry_info (PARTITION_TYPE_APP, a, n), app_header := image_header_at (ota_cells s) a\<rparr>)"
  using verify_total_eq [OF layout_bounds(11,14) [OF c] _ layout_bounds(3) [OF c] _ fit] layout_bounds(5,6) [OF c]
  by (simp add: verify_app_def)

lemma verify_ota_eq:
  assumes c: "upd_common valid ps a n b m img tgt s"
  shows "verify_ota s = Some (OTA_ERR_NONE,
    s\<lparr>partition_info_ota := entry_info (PARTITION_TYPE_OTA, b, m), ota_header := image_hdr_decode (take 256 img)\<rparr>)"
proof -
  note b = layout_bounds [OF c]
  have "nor_read (ota_cells s) b 256 = take 256 img" using b(12,17) by (metis take_nor_read)
  then have "hdr_fits (nor_read (ota_cells s) b 256) m"
    using b(7,16) by (auto simp: hdr_fits_def waiting_image_def Let_def)
  with verify_total_eq [OF b(11,15) _ b(4)] b(7,17) waiting_image_at [OF b(12,16)] show ?thesis
    by (simp add: verify_ota_def)
qed

lemma restore_step:
  assumes c: "upd_common valid ps a n b m img tgt s" and st: "nvds_state (ot_nv s) UPG_STATE_DOWNLOAD_OK"
    and fit: "hdr_fits (nor_read (ota_cells s) a 256) n"
    and torn: "hdr_fits (nor_read (pd_torn (nv_dev (ot_nv s))) a 256) n"
    and hd: "ota_header s = image_hdr_decode (take 256 img)"
    and infos: "partition_info_app s = entry_info (PARTITION_TYPE_APP, a, n)"
      "partition_info_ota s = entry_info (PARTITION_TYPE_OTA, b, m)"
    and xz: "xz_already_read s = 0" "xz_already_write s = 0"
  shows "boot_result valid ps a n b m img tgt s (erase_and_restore xz s)"
proof -
  note l = layout_bounds [OF c]
  define ops where "ops = restore_ops a n tgt"
  obtain r w where er0: "erase_and_restore xz s = restore_finish
      ((ota_run ops s)\<lparr>xz_already_read := r, xz_already_write := w\<rparr>)"
    using restores [OF l(18) hd l(12) infos l(1-3,6) _ _ xz] l(4,7,8) unfolding ops_def by auto
  define t where "t = (ota_run ops s)\<lparr>xz_already_read := r, xz_already_write := w\<rparr>"
  have er: "erase_and_restore xz s = restore_finish t" by (simp add: er0 t_def)
  have t0: "ota_cells t = ota_cells (ota_run ops s)" by (simp add: t_def ota_cells_def)
  have within: "list_all (mop_within a (a + n)) ops"
    using l(6) by (simp add: ops_def restore_ops_def mop_simps)
  have other: "ota_cells t x = ota_cells s x" if "x < a \<or> a + n \<le> x" for x
    using run_ops_other [OF within that] by (simp add: t0 ota_cells_run) (simp add: ota_cells_def)
  obtain k where k: "powered (pd_power (nv_dev (ot_nv s))) ops = take k ops"
    using powered_prefix by blast
  have cells: "ota_cells t = mops (pd_torn (nv_dev (ot_nv s))) (take k ops) (ota_cells s)"
    by (simp add: t0 ota_cells_run run_ops_def k) (simp add: ota_cells_def)
  have fit_t: "hdr_fits (nor_read (ota_cells t) a 256) n"
  proof (cases "k = 0")
    case True
    then show ?thesis using fit by (simp add: cells)
  next
    case False
    have "256 \<le> n" using l(5,6) by linarith
    from restore_prefix_header [OF this l(5,6), of k "pd_torn (nv_dev (ot_nv s))" a "ota_cells s"] False
    show ?thesis
      using torn hdr_fits_update [OF l(10,6,13)] unfolding cells ops_def by auto
  qed
  have ct: "upd_common valid ps a n b m img tgt t"
    by (rule upd_common_cong [OF c]) (auto simp: t_def intro!: other [unfolded t_def])
  have st_t: "nvds_state (ot_nv t) UPG_STATE_DOWNLOAD_OK"
  proof (rule nvds_state_cong [OF st])
    fix x
    assume "ln_nvds_base (ot_nv s) \<le> x" "x < ln_nvds_base (ot_nv s) + 12288"
    with l(9) have "x < a \<or> a + n \<le> x" by auto
    from other [OF this] show "pd_cells (nv_dev (ot_nv t)) x = pd_cells (nv_dev (ot_nv s)) x"
      by (simp add: ota_cells_def)
  qed (simp add: t_def)
  define t' where "t' = t\<lparr>partition_info_app := entry_info (PARTITION_TYPE_APP, a, n),
    app_header := image_header_at (ota_cells t) a\<rparr>"
  have va: "verify_app t = Some (image_check (ota_cells t) a, t')"
    using verify_app_eq [OF ct fit_t] by (simp add: t'_def)
  have t': "ot_nv t' = ot_nv t" "ota_cells t' = ota_cells t" "jumped t' = jumped s" "start_addr (partition_info_app t') = a"
    by (simp_all add: t'_def ota_cells_def) (simp add: t_def)
  have ct': "upd_common valid ps a n b m img tgt t'" using ct by (simp add: upd_common_def t')
  have power: "pd_power (nv_dev (ot_nv t)) = spend (pd_power (nv_dev (ot_nv s))) (length ops)"
    by (simp add: t_def run_ops_def)
  have cut: "app_updated (ota_cells t) a tgt \<or> pd_power (nv_dev (ot_nv t)) = Some 0"
  proof (cases "powered (pd_power (nv_dev (ot_nv s))) ops = ops")
    case True
    then have "nor_read (ota_cells t) a (length tgt) = tgt"
      using cells k restore_full [OF l(6)] by (simp add: ops_def)
    then show ?thesis using app_updated_copy [OF _ l(10)] by blast
  next
    case False
    then obtain p where "pd_power (nv_dev (ot_nv s)) = Some p" "p < length ops"
      by (cases "pd_power (nv_dev (ot_nv s))") (auto simp: not_le)
    then show ?thesis using power by (simp add: spend_def)
  qed
  show ?thesis
  proof (cases "image_check (ota_cells t) a = OTA_ERR_NONE")
    case True
    have "boot_result valid ps a n b m img tgt t' (erase_and_restore xz s)"
      using set_and_jump [OF ct' _ _ _ t'(4)] st_t fit_t cut
      by (simp add: er restore_finish_def va True t')
    then show ?thesis
      by (rule boot_result_later) (simp_all add: t' power)
  next
    case False
    then have "\<not> app_updated (ota_cells t) a tgt" by (simp add: app_updated_def Let_def)
    with cut power have "pd_power (nv_dev (ot_nv s)) \<noteq> None" by (auto simp: spend_def)
    moreover have "upd_pending valid ps a n b m img tgt t'"
      using ct' st_t fit_t by (simp add: upd_pending_def t')
    ultimately show ?thesis
      using False by (simp add: boot_result_def er restore_finish_def va)
  qed
qed

text \<open>A boot in which the update waits.\<close>

lemma pending_boot:
  assumes p: "upd_pending valid ps a n b m img tgt s"
    and torn: "hdr_fits (nor_read (pd_torn (nv_dev (ot_nv s))) a 256) n"
    and xz: "xz_already_read s = 0" "xz_already_write s = 0"
  shows "boot_result valid ps a n b m img tgt s (ota_boot_upgrade_agent xz s)"
proof -
  from p have c: "upd_common valid ps a n b m img tgt s" and st: "nvds_state (ot_nv s) UPG_STATE_DOWNLOAD_OK"
    and fit: "hdr_fits (nor_read (ota_cells s) a 256) n"
    by (simp_all add: upd_pending_def)
  note l = layout_bounds [OF c]
  define s1 where "s1 = s\<lparr>partition_info_app := entry_info (PARTITION_TYPE_APP, a, n)\<rparr>"
  define s2 where "s2 = s1\<lparr>app_header := image_header_at (ota_cells s) a\<rparr>"
  define s3 where "s3 = s2\<lparr>partition_info_ota := entry_info (PARTITION_TYPE_OTA, b, m),
    ota_header := image_hdr_decode (take 256 img)\<rparr>"
  have same: "ot_nv s1 = ot_nv s" "ot_nv s2 = ot_nv s" "ot_nv s3 = ot_nv s"
      "ota_cells s1 = ota_cells s" "ota_cells s2 = ota_cells s" "ota_cells s3 = ota_cells s" "jumped s3 = jumped s"
    by (simp_all add: s1_def s2_def s3_def ota_cells_def)
  have cs: "upd_common valid ps a n b m img tgt s1" "upd_common valid ps a n b m img tgt s2" "upd_common valid ps a n b m img tgt s3"
    using c by (simp_all add: upd_common_def same)
  from st obtain x where h: "nvds_holds (ot_nv s) x" and x: "bslice 20 4 x = le_bytes 4 UPG_STATE_DOWNLOAD_OK"
    unfolding nvds_state_def by (elim exE conjE) (rule that)
  have get: "ota_upg_state_get s1 (2 ^ 32 - 1) = Some (True, UPG_STATE_DOWNLOAD_OK)"
    using nv_ota_upg_state.get_eq [OF h TrueI, of "le_bytes 4 (2 ^ 32 - 1)"] x
    by (simp add: ota_upg_state_get_def same nv_consts le_simps UPG_STATE_DOWNLOAD_OK_def)
  have fetch: "ln_fetch_partition_info (ota_cells s) PARTITION_TYPE_APP (Some (partition_info_app s))
      = Some (True, Some (entry_info (PARTITION_TYPE_APP, a, n)))"
    using fetch_table [OF l(11)] l(14) by simp
  have va: "verify_app s1 = Some (image_check (ota_cells s) a, s2)"
    using verify_app_eq [OF cs(1)] fit by (simp add: same) (simp add: s1_def s2_def)
  have vo: "verify_ota s2 = Some (OTA_ERR_NONE, s3)"
    using verify_ota_eq [OF cs(2)] by (simp add: s3_def)
  have restore: "boot_result valid ps a n b m img tgt s (erase_and_restore xz s3)"
  proof (rule boot_result_later)
    show "boot_result valid ps a n b m img tgt s3 (erase_and_restore xz s3)"
      using st fit torn xz by (intro restore_step [OF cs(3)]) (simp_all add: same, simp_all add: s3_def s2_def s1_def)
  qed (simp_all add: same)
  show ?thesis
  proof (cases "image_check (ota_cells s) a = OTA_ERR_NONE")
    case False
    then have "ota_boot_upgrade_agent xz s = erase_and_restore xz s3"
      using fetch get va vo by (simp add: ota_boot_upgrade_agent_def s1_def [symmetric] UPG_STATE_DOWNLOAD_OK_def)
    with restore show ?thesis by simp
  next
    case True
    then have eq: "ota_boot_upgrade_agent xz s = ota_compare xz s3"
      using fetch get va vo by (simp add: ota_boot_upgrade_agent_def s1_def [symmetric] UPG_STATE_DOWNLOAD_OK_def)
    let ?h = "image_header_at (ota_cells s) a" and ?h' = "image_hdr_decode (take 256 img)"
    have hs: "app_header s3 = ?h" "ota_header s3 = ?h'" "start_addr (partition_info_app s3) = a"
      by (simp_all add: s3_def s2_def s1_def)
    show ?thesis
    proof (cases "image_version ?h' = image_version ?h \<and> img_size_orig ?h = img_size_orig ?h'
        \<and> img_crc32_orig ?h = img_crc32_orig ?h'")
      case upd: True
      with True have "app_updated (ota_cells s) a tgt"
        using valid_same [OF l(18)] by (simp add: app_updated_def same_original_def Let_def)
      then have "boot_result valid ps a n b m img tgt s3 (ota_compare xz s3)"
        using set_and_jump [OF cs(3) _ _ _ hs(3)] st fit upd by (simp add: ota_compare_def hs same)
      then show ?thesis
        unfolding eq by (rule boot_result_later) (simp_all add: same)
    next
      case False
      then have "ota_compare xz s3 = erase_and_restore xz s3" by (auto simp: ota_compare_def hs)
      with restore eq show ?thesis by simp
    qed
  qed
qed

end

text \<open>Uncompressed updates, with any decompressor.\<close>

lemma ota_run_same:
  "(ota_run ops s)\<lparr>xz_already_read := xz_already_read s, xz_already_write := xz_already_write s\<rparr> = ota_run ops s"
  by (cases s) (simp add: ota_run_def)

interpretation orig: update_kind xz orig_update for xz
proof (unfold_locales, goal_cases)
  case (1 img tgt)
  then show ?case by (simp add: orig_update_def update_waiting)
next
  case (2 img tgt)
  then show ?case by (simp add: orig_update_def)
next
  case (3 img tgt)
  then show ?case by (simp add: orig_update_def same_original_def)
next
  case (4 img tgt s b a n m)
  let ?h = "image_hdr_decode (take 256 img)"
  from 4 have u: "update_image img" "tgt = img" by (simp_all add: orig_update_def)
  then have sz: "length img = 256 + img_size_orig ?h" "image_type ?h = IMAGE_TYPE_ORIGINAL"
    by (simp_all add: update_image_def Let_def)
  have hd: "ota_header s = image_header_at (ota_cells s) b"
    unfolding 4(2) by (rule update_image_at(1) [OF 4(3) u(1), symmetric])
  have "erase_and_restore xz s =
      restore_finish (ota_run (restore_ops a n (nor_read (ota_cells s) b (256 + img_size_orig ?h))) s)"
    by (rule erase_and_restore_eq [OF hd])
      (use 4(2,6-11) sz in \<open>simp_all only: 4(4,5) u(2) entry_info_simps sz(2) simp_thms fst_conv snd_conv add.assoc\<close>)
  then have "erase_and_restore xz s = restore_finish (ota_run (restore_ops a n tgt) s)"
    unfolding sz(1) [symmetric] 4(3) u(2) .
  then show ?case
    by (intro exI [of _ "xz_already_read s"] exI [of _ "xz_already_write s"]) (simp only: ota_run_same)
qed

end
