(* ===== verification/Ota_Correct.thy ===== *)
theory Ota_Correct
  imports Ota_Restore
begin

text \<open>
  The properties of the update agent over any sequence of boots, and the example flash on
  which they are applied: an update of 4095 zero bytes for partitions of 64 KB.
\<close>

section \<open>Sequences of boots\<close>

text \<open>The restart: the static variables are reset, the supply lasts for \<open>p\<close> steps.\<close>

definition ota_restart :: "ota \<Rightarrow> nat option \<Rightarrow> nor \<Rightarrow> ota" where
  "ota_restart s p torn = s\<lparr>ot_nv := (ot_nv s)\<lparr>nv_dev := (nv_dev (ot_nv s))\<lparr>pd_power := p, pd_torn := torn\<rparr>\<rparr>,
     xz_already_read := 0, xz_already_write := 0, jumped := []\<rparr>"

fun ota_boots :: "xz_fun \<Rightarrow> ota \<Rightarrow> (nat option \<times> nor) list \<Rightarrow> ota option" where
  "ota_boots xz s [] = Some s"
| "ota_boots xz s ((p, torn) # bs) = do {
     (err, s') \<leftarrow> ota_boot_upgrade_agent xz (ota_restart s p torn);
     ota_boots xz s' bs
   }"

lemma restart_simps [simp]:
  "ota_cells (ota_restart s p torn) = ota_cells s" "jumped (ota_restart s p torn) = []"
  "ln_nvds_base (ot_nv (ota_restart s p torn)) = ln_nvds_base (ot_nv s)"
  "pd_cells (nv_dev (ot_nv (ota_restart s p torn))) = pd_cells (nv_dev (ot_nv s))"
  "pd_power (nv_dev (ot_nv (ota_restart s p torn))) = p" "pd_torn (nv_dev (ot_nv (ota_restart s p torn))) = torn"
  "xz_already_read (ota_restart s p torn) = 0" "xz_already_write (ota_restart s p torn) = 0"
  by (simp_all add: ota_restart_def ota_cells_def)

lemma restart_common [simp]:
  "upd_common valid ps a n b m img tgt (ota_restart s p torn) = upd_common valid ps a n b m img tgt s"
  by (simp add: upd_common_def)

lemma restart_state [simp]: "nvds_state (ot_nv (ota_restart s p torn)) v = nvds_state (ot_nv s) v"
  by (simp add: nvds_state_def nvds_holds_def nvds_ok_def)

lemma restart_pending [simp]:
  "upd_pending valid ps a n b m img tgt (ota_restart s p torn) = upd_pending valid ps a n b m img tgt s"
  by (simp add: upd_pending_def)

lemma restart_done [simp]:
  "upd_done valid ps a n b m img tgt (ota_restart s p torn) = upd_done valid ps a n b m img tgt s"
  by (simp add: upd_done_def)

context update_kind begin

text \<open>Once the update is done the boots enter the application and change nothing.\<close>

lemma done_boot:
  assumes "upd_done valid ps a n b m img tgt s"
  shows "\<exists>s'. ota_boot_upgrade_agent xz s = Some (OTA_ERR_NONE, s') \<and> upd_done valid ps a n b m img tgt s'
    \<and> jumped s' = jumped s @ [a + 256]"
proof -
  from assms have c: "upd_common valid ps a n b m img tgt s" and st: "nvds_state (ot_nv s) UPG_STATE_RESTORE_OK"
    by (simp_all add: upd_done_def)
  note l = layout_bounds [OF c]
  define s1 where "s1 = s\<lparr>partition_info_app := entry_info (PARTITION_TYPE_APP, a, n)\<rparr>"
  have same: "ot_nv s1 = ot_nv s" by (simp add: s1_def)
  from st obtain x where h: "nvds_holds (ot_nv s) x" and x: "bslice 20 4 x = le_bytes 4 UPG_STATE_RESTORE_OK"
    unfolding nvds_state_def by (elim exE conjE) (rule that)
  have get: "ota_upg_state_get s1 (2 ^ 32 - 1) = Some (True, UPG_STATE_RESTORE_OK)"
    using nv_ota_upg_state.get_eq [OF h TrueI, of "le_bytes 4 (2 ^ 32 - 1)"] x
    by (simp add: ota_upg_state_get_def same nv_consts le_simps UPG_STATE_RESTORE_OK_def)
  have fetch: "ln_fetch_partition_info (ota_cells s) PARTITION_TYPE_APP (Some (partition_info_app s))
      = Some (True, Some (entry_info (PARTITION_TYPE_APP, a, n)))"
    using fetch_table [OF l(11)] l(14) by simp
  define s' where "s' = jump_to_app s1 (a + 256)"
  have "ota_boot_upgrade_agent xz s = Some (OTA_ERR_NONE, s')"
    using fetch get l(3,5,6) by (simp add: ota_boot_upgrade_agent_def s1_def [symmetric] UPG_STATE_DOWNLOAD_OK_def
        UPG_STATE_RESTORE_OK_def s'_def sizeof_image_hdr_def)
  moreover have "upd_done valid ps a n b m img tgt s'"
    using assms by (simp add: upd_done_def upd_common_def s'_def s1_def jump_to_app_def ota_cells_def)
  moreover have "jumped s' = jumped s @ [a + 256]" by (simp add: s'_def s1_def jump_to_app_def)
  ultimately show ?thesis by blast
qed

lemma boots_keep:
  assumes "upd_pending valid ps a n b m img tgt s \<or> upd_done valid ps a n b m img tgt s"
    and "\<forall>(p, torn) \<in> set bs. hdr_fits (nor_read torn a 256) n"
  shows "\<exists>s'. ota_boots xz s bs = Some s' \<and> (upd_pending valid ps a n b m img tgt s' \<or> upd_done valid ps a n b m img tgt s')"
  using assms
proof (induction bs arbitrary: s)
  case Nil
  then show ?case by simp
next
  case (Cons e bs)
  obtain p torn where e: "e = (p, torn)" by (cases e)
  let ?s = "ota_restart s p torn"
  have "\<exists>err s'. ota_boot_upgrade_agent xz ?s = Some (err, s')
      \<and> (upd_pending valid ps a n b m img tgt s' \<or> upd_done valid ps a n b m img tgt s')"
  proof (cases "upd_pending valid ps a n b m img tgt s")
    case True
    then have "boot_result valid ps a n b m img tgt ?s (ota_boot_upgrade_agent xz ?s)"
      using Cons.prems(2) e by (intro pending_boot) simp_all
    then show ?thesis unfolding boot_result_def by blast
  next
    case False
    with Cons.prems(1) have "upd_done valid ps a n b m img tgt ?s" by simp
    from done_boot [OF this] show ?thesis by blast
  qed
  then obtain err s' where "ota_boot_upgrade_agent xz ?s = Some (err, s')"
      and "upd_pending valid ps a n b m img tgt s' \<or> upd_done valid ps a n b m img tgt s'"
    by (elim exE conjE) (rule that)
  with Cons.IH [of s'] Cons.prems(2) e show ?case by simp
qed

text \<open>A waiting update is installed by the first boot that is not cut.\<close>

lemma installs:
  assumes "upd_pending valid ps a n b m img tgt s"
    and "\<forall>(p, torn) \<in> set bs. hdr_fits (nor_read torn a 256) n" and "hdr_fits (nor_read torn a 256) n"
  shows "\<exists>s1 s2. ota_boots xz s bs = Some s1
    \<and> ota_boot_upgrade_agent xz (ota_restart s1 None torn) = Some (OTA_ERR_NONE, s2)
    \<and> jumped s2 = [a + 256] \<and> app_updated (ota_cells s2) a tgt \<and> nvds_state (ot_nv s2) UPG_STATE_RESTORE_OK"
proof -
  from boots_keep [OF disjI1 [OF assms(1)] assms(2)] obtain s1 where
    s1: "ota_boots xz s bs = Some s1" and k: "upd_pending valid ps a n b m img tgt s1 \<or> upd_done valid ps a n b m img tgt s1"
    by (elim exE conjE) (rule that)
  let ?s = "ota_restart s1 None torn"
  have "\<exists>s2. ota_boot_upgrade_agent xz ?s = Some (OTA_ERR_NONE, s2) \<and> upd_done valid ps a n b m img tgt s2
      \<and> jumped s2 = [a + 256]"
  proof (cases "upd_pending valid ps a n b m img tgt s1")
    case True
    then have "boot_result valid ps a n b m img tgt ?s (ota_boot_upgrade_agent xz ?s)"
      using assms(3) by (intro pending_boot) simp_all
    then show ?thesis unfolding boot_result_def by (elim exE conjE) simp
  next
    case False
    with k have "upd_done valid ps a n b m img tgt ?s" by simp
    from done_boot [OF this] show ?thesis by simp
  qed
  with s1 show ?thesis unfolding upd_done_def by blast
qed

end

lemma pending_installs:
  assumes "ota_pending ps a n b m img s"
    and "\<forall>(p, torn) \<in> set bs. hdr_fits (nor_read torn a 256) n" and "hdr_fits (nor_read torn a 256) n"
  shows "\<exists>s1 s2. ota_boots xz s bs = Some s1
    \<and> ota_boot_upgrade_agent xz (ota_restart s1 None torn) = Some (OTA_ERR_NONE, s2)
    \<and> jumped s2 = [a + 256] \<and> app_updated (ota_cells s2) a img \<and> nvds_state (ot_nv s2) UPG_STATE_RESTORE_OK"
  using orig.installs [where img = img and tgt = img and xz = xz, OF _ assms(2,3)] assms(1) by (simp add: upd_orig)

section \<open>Properties\<close>

text \<open>
  C1: an update that has been downloaded is installed in spite of any number of power failures.
  Start with a valid update image waiting and let the device boot any number of times, each
  boot cut after any number of device steps (bytes programmed, phases of an erase) and leaving
  arbitrary data in a half-erased range.  The next boot that is not cut succeeds and enters
  the application partition, which then holds a valid image with the version, size and CRC of
  the update, and the stored state says that the update is done.  The hypotheses on headers
  exclude that the CRC of a half-written or half-erased header matches by accident and its
  size leaves the partition (the code then asserts for ever).
\<close>

theorem ota_update_survives_power_loss:
  assumes "ota_pending ps a n b m img s"
    and "\<forall>(p, torn) \<in> set bs. hdr_fits (nor_read torn a 256) n" and "hdr_fits (nor_read torn a 256) n"
  shows "\<exists>s1 s2. ota_boots xz s bs = Some s1
    \<and> ota_boot_upgrade_agent xz (ota_restart s1 None torn) = Some (OTA_ERR_NONE, s2)
    \<and> jumped s2 = [a + 256] \<and> app_updated (ota_cells s2) a img \<and> nvds_state (ot_nv s2) UPG_STATE_RESTORE_OK"
  using assms by (rule pending_installs)

text \<open>
  The boot loader finds the store through the partition table and hands over to the agent:
  with a table that has an entry for the store and a store that holds data there, \<^verbatim>\<open>main\<close> changes
  no cell before it calls the agent.
\<close>

theorem bootload_runs_agent:
  assumes "partition_table (ota_cells s) ps" and "partition_lookup ps PARTITION_TYPE_NVDS = Some (t, base, len)"
    and "nvds_holds ((ot_nv s)\<lparr>ln_nvds_base := base\<rparr>) m" and "r_idle \<noteq> 0xaeaebebe"
  shows "bootload_main xz r_idle junk s =
    map_option (\<lambda>(err, s'). (Some err, s')) (ota_boot_upgrade_agent xz (s\<lparr>ot_nv :=
      (ot_nv s)\<lparr>ln_nvds_base := base, ln_nvds_ver := fill (ln_nvds_ver (ot_nv s)) (bslice 4 16 m)\<rparr>\<rparr>))"
proof -
  have "ln_nvds_init (ot_nv s) base = Some (NVDS_ERR_OK,
      (ot_nv s)\<lparr>ln_nvds_base := base, ln_nvds_ver := fill (ln_nvds_ver (ot_nv s)) (bslice 4 16 m)\<rparr>)"
    using assms(3) by (simp add: ln_nvds_init_def nvds_read_holds nv_consts NVDS_ERR_OK_def)
  moreover have "\<exists>v. ln_verify_partition_table (ota_cells s) = Some v"
    using verify_loop_eq [of 0 256] by (simp add: ln_verify_partition_table_def PARTITION_TAB_SIZE_def
        sizeof_partition_info_def)
  ultimately show ?thesis
    using assms by (auto simp: bootload_main_def fetch_table split: option.splits bind_splits)
qed

text \<open>
  An example: an update of 4095 zero bytes in version 255.255 for partitions of 64 KB, with a
  blank application.
\<close>

definition ex_header :: "byte list" where
  "ex_header =
     (let p = le_bytes 4 1 @ [255, 255, 255, 255] @ le_bytes 4 4095 @ replicate 12 0
        @ le_bytes 4 (unat (ln_crc32_signle_cal (replicate 4095 0))) @ replicate 224 0
      in p @ le_bytes 4 (unat (ln_crc32_signle_cal p)))"

definition ex_update :: "byte list" where
  "ex_update = ex_header @ replicate 4095 0"

definition ex_table :: "part_entry list" where
  "ex_table = [(0, 0x7000, 0x10000), (1, 0x20000, 0x10000), (3, 0x40000, 0x3000)]"

definition ex_flash :: "nat \<Rightarrow> nor" where
  "ex_flash v = nor_write (nor_write (nor_write (\<lambda>_. - 1) PARTITION_TAB_BASE
       (entry_bytes (0, 0x7000, 0x10000) @ entry_bytes (1, 0x20000, 0x10000) @ entry_bytes (3, 0x40000, 0x3000) @ replicate 16 0))
     0x20000 ex_update) 0x41000 (nvds_magic @ replicate 16 (- 1) @ le_bytes 4 v)"

definition ex_ota :: "nat \<Rightarrow> ota" where
  "ex_ota v = \<lparr>ot_nv = \<lparr>ln_nvds_base = 0x40000, ln_nvds_ver = replicate 16 0,
       nv_dev = \<lparr>pd_cells = ex_flash v, pd_power = None, pd_torn = (\<lambda>_. 0)\<rparr>, nv_otp = (\<lambda>_. 0)\<rparr>,
     app_header = image_hdr_decode (replicate 256 0), ota_header = image_hdr_decode (replicate 256 0),
     partition_info_app = partition_end, partition_info_ota = partition_end,
     xz_already_read = 0, xz_already_write = 0, jumped = []\<rparr>"

text \<open>The CRC of the headers of which 4 to 11 bytes have been written, which are three.\<close>

lemma partial_crc1: "crc32_ints 0xFFFFFFFF ([1, 0, 0, 0, 255, 255, 255, 255, 255, 255, 255] @ replicate 241 255) = 45002685"
  by (simp add: numeral_eq_Suc step8_def crc32_int_def)

lemma partial_crc2: "crc32_ints 0xFFFFFFFF ([1, 0, 0, 0, 255, 255, 255, 255, 255, 15, 255] @ replicate 241 255) = 1045357353"
  by (simp add: numeral_eq_Suc step8_def crc32_int_def)

lemma partial_crc3: "crc32_ints 0xFFFFFFFF ([1, 0, 0, 0, 255, 255, 255, 255, 255, 15, 0] @ replicate 241 255) = 2768266191"
  by (simp add: numeral_eq_Suc step8_def crc32_int_def)

lemma partial_fits:
  assumes l: "length bs = 256" and t: "drop 252 bs = replicate 4 (- 1)" and x: "take 252 bs = map word_of_int xs"
    and r: "\<forall>b \<in> set xs. 0 \<le> b \<and> b < 256" and v: "crc32_ints 0xFFFFFFFF xs = v" "0 < v" "v < 2 ^ 32"
  shows "hdr_fits bs n"
proof -
  have "header_crc32 (image_hdr_decode bs) = 2 ^ 32 - 1"
    using t l by (simp add: image_hdr_decode_def bslice_def le_simps)
  moreover have "ln_crc32_signle_cal (take 252 bs) \<noteq> - 1"
  proof
    assume "ln_crc32_signle_cal (take 252 bs) = - 1"
    then have "(word_of_int v :: 32 word) XOR 0xFFFFFFFF = - 1"
      using crc32_signle_ints [OF r] v(1) x by simp
    moreover have "(0xFFFFFFFF :: 32 word) = - 1" by simp
    ultimately have "NOT (word_of_int v :: 32 word) = NOT 0"
      by (simp only: bit.xor_one_right bit.compl_zero)
    then have "(word_of_int v :: 32 word) = 0" by (simp only: bit.compl_eq_compl_iff)
    then have "(2::int) ^ 32 dvd v" by (simp add: word_of_int_eq_0_iff)
    with v(2,3) show False by (simp add: zdvd_not_zless)
  qed
  then have "unat (ln_crc32_signle_cal (take 252 bs)) \<noteq> 2 ^ 32 - 1"
    by (simp add: word_unat_eq_iff unsigned_minus_1_eq_mask mask_eq_exp_minus_1)
  ultimately show ?thesis
    using l by (simp add: hdr_fits_def image_header_verify_def sizeof_image_hdr_def)
qed

lemma length_ex_header: "length ex_header = 256"
  by (simp add: ex_header_def Let_def)

lemma ex_header_prefix: "take 12 ex_header = [1, 0, 0, 0, - 1, - 1, - 1, - 1, - 1, 15, 0, 0]"
  by (simp add: ex_header_def Let_def le_bytes_4)

lemma ex_update_prefix: "j \<le> 12 \<Longrightarrow> take j ex_update = take j [1, 0, 0, 0, - 1, - 1, - 1, - 1, - 1, 15, 0, 0]"
proof -
  assume "j \<le> 12"
  then have "take j ex_update = take j (take 12 ex_header)"
    by (simp add: ex_update_def length_ex_header min_def)
  then show ?thesis by (simp only: ex_header_prefix)
qed

lemma ex_partial_headers: "partial_headers_fit ex_update n"
  unfolding partial_headers_fit_def
proof (intro allI impI)
  fix j :: nat
  assume j: "j < 12"
  let ?bs = "take j ex_update @ replicate (256 - j) (- 1)"
  define r where "r = replicate 245 (- 1 :: byte)"
  have "256 - j = (11 - j) + 245" using j by simp
  then have bs: "?bs = take j [1, 0, 0, 0, - 1, - 1, - 1, - 1, - 1, 15, 0, 0] @ replicate (11 - j) (- 1) @ r"
    using j by (simp only: ex_update_prefix r_def replicate_add)
  have fits: "hdr_fits ?bs n" if "?bs = pre @ r" and "pre = map word_of_int xs" and "length xs = 11"
    and "\<forall>b \<in> set xs. 0 \<le> b \<and> b < 256"
    and "crc32_ints 0xFFFFFFFF (xs @ replicate 241 255) = v" "0 < v" "v < 2 ^ 32" for pre xs v
  proof (rule partial_fits [OF _ _ _ _ that(5-7)])
    show "length ?bs = 256" using j by (simp add: ex_update_prefix)
    show "drop 252 ?bs = replicate 4 (- 1)" unfolding that(1) using that(2,3) by (simp add: r_def)
    show "take 252 ?bs = map word_of_int (xs @ replicate 241 255)"
      unfolding that(1) using that(2,3) by (simp add: r_def)
    show "\<forall>b \<in> set (xs @ replicate 241 255). 0 \<le> b \<and> b < 256" using that(4) by auto
  qed
  consider "j < 4" | "4 \<le> j" "j \<le> 9" | "j = 10" | "j = 11" using j by linarith
  then show "hdr_fits ?bs n"
  proof cases
    case 1
    then have js: "j = 0 \<or> j = 1 \<or> j = 2 \<or> j = 3" by auto
    have "256 - j = (4 - j) + 252" using 1 by simp
    then have "?bs = (take j [1, 0, 0, 0] @ replicate (4 - j) (- 1)) @ replicate 252 (- 1)"
      using 1 by (simp only: ex_update_prefix replicate_add) (simp add: take_Cons')
    then have "bslice 0 4 ?bs = take j [1, 0, 0, 0] @ replicate (4 - j) (- 1)"
      using 1 by (simp add: bslice_def del: append_assoc)
    moreover have rep: "replicate 4 x = [x, x, x, x]" "replicate 3 x = [x, x, x]" "replicate 2 x = [x, x]" for x :: byte
      by (simp_all add: numeral_eq_Suc)
    moreover have "unat (- 1 :: byte) = 255" by (simp add: unsigned_minus_1_eq_mask mask_eq_exp_minus_1)
    ultimately have "le_val (bslice 0 4 ?bs) \<in> {4294967295, 4294967041, 4294901761, 4278190081}"
      using js by (elim disjE) (simp_all add: rep)
    then have "image_type (image_hdr_decode ?bs) \<in> {4294967295, 4294967041, 4294901761, 4278190081}"
      by (simp only: image_hdr_decode_def image_hdr.simps)
    then show ?thesis
      by (auto simp: hdr_fits_def image_size_crc_def IMAGE_TYPE_ORIGINAL_def IMAGE_TYPE_ORIGINAL_XZ_def
          IMAGE_TYPE_DIFF_def IMAGE_TYPE_DIFF_XZ_def)
  next
    case 2
    then have "j = 4 \<or> j = 5 \<or> j = 6 \<or> j = 7 \<or> j = 8 \<or> j = 9" by auto
    then have "?bs = [1, 0, 0, 0, - 1, - 1, - 1, - 1, - 1, - 1, - 1] @ r"
      unfolding bs by (auto simp: numeral_eq_Suc)
    then show ?thesis by (rule fits [OF _ _ _ _ partial_crc1]) simp_all
  next
    case 3
    then have "?bs = [1, 0, 0, 0, - 1, - 1, - 1, - 1, - 1, 15, - 1] @ r"
      unfolding bs by simp
    then show ?thesis by (rule fits [OF _ _ _ _ partial_crc2]) simp_all
  next
    case 4
    then have "?bs = [1, 0, 0, 0, - 1, - 1, - 1, - 1, - 1, 15, 0] @ r"
      unfolding bs by simp
    then show ?thesis by (rule fits [OF _ _ _ _ partial_crc3]) simp_all
  qed
qed

lemma ex_update_image: "update_image ex_update"
proof -
  define crc where "crc = unat (ln_crc32_signle_cal (replicate 4095 0))"
  define p where "p = le_bytes 4 1 @ [255, 255, 255, 255] @ le_bytes 4 4095 @ replicate 12 0
    @ le_bytes 4 crc @ (replicate 224 0 :: byte list)"
  have hd: "ex_header = p @ le_bytes 4 (unat (ln_crc32_signle_cal p))"
    by (simp add: ex_header_def p_def crc_def Let_def)
  have lp: "length p = 252" by (simp add: p_def)
  have lt: "crc < 256 ^ 4" "unat (ln_crc32_signle_cal p) < 256 ^ 4"
    using unat_crc_less [of "ln_crc32_signle_cal (replicate 4095 0)"] unat_crc_less [of "ln_crc32_signle_cal p"]
    by (simp_all add: crc_def)
  have t: "take 256 ex_update = ex_header" by (simp add: ex_update_def length_ex_header)
  have "header_crc32 (image_hdr_decode ex_header) = unat (ln_crc32_signle_cal p)"
    using lp lt(2) by (simp add: image_hdr_decode_def hd bslice_def le_val_le_bytes)
  moreover have "take 252 ex_header = p" by (simp add: hd lp)
  ultimately have v: "image_header_verify (image_hdr_decode ex_header) = OTA_ERR_NONE"
    by (simp add: image_header_verify_def sizeof_image_hdr_def length_ex_header)
  have pre: "bslice i 4 ex_header = bslice i 4 p" if "i + 4 \<le> 252" for i
    using that lp by (simp add: hd)
  have "bslice 0 4 p = le_bytes 4 1" "bslice 8 4 p = le_bytes 4 4095" "bslice 24 4 p = le_bytes 4 crc"
    unfolding p_def bslice_def by (simp_all add: drop_Cons' del: le_bytes.simps)
  then have "image_type (image_hdr_decode ex_header) = 1" "img_size_orig (image_hdr_decode ex_header) = 4095"
    "img_crc32_orig (image_hdr_decode ex_header) = crc"
    using lt(1) by (simp_all add: image_hdr_decode_def pre le_val_le_bytes)
  with v t show ?thesis
    by (simp add: update_image_def ex_update_def length_ex_header IMAGE_TYPE_ORIGINAL_def crc_def)
qed

lemma length_ex_update: "length ex_update = 4351"
  by (simp add: ex_update_def length_ex_header)

lemma ex_flash_table: "partition_table (ex_flash v) ex_table"
proof -
  let ?bs = "entry_bytes (0, 0x7000, 0x10000) @ entry_bytes (1, 0x20000, 0x10000) @ entry_bytes (3, 0x40000, 0x3000) @ replicate 16 (0 :: byte)"
  have "nor_read (nor_write (\<lambda>_. - 1) PARTITION_TAB_BASE ?bs) PARTITION_TAB_BASE (length ?bs) = ?bs"
    by (rule nor_read_write_blank) (simp add: blank_def)
  then have rd: "nor_read (ex_flash v) PARTITION_TAB_BASE 64 = ?bs"
    by (simp add: ex_flash_def nor_read_write_other length_ex_update PARTITION_TAB_BASE_def)
  have e: "entry_at (ex_flash v) i = bslice (16 * i) 16 ?bs" if "16 * i + 16 \<le> 64" for i
    unfolding entry_at_def using that rd by (metis bslice_nor_read)
  have "entry_at (ex_flash v) 0 = entry_bytes (0, 0x7000, 0x10000)"
    and "entry_at (ex_flash v) 1 = entry_bytes (1, 0x20000, 0x10000)"
    and "entry_at (ex_flash v) 2 = entry_bytes (3, 0x40000, 0x3000)"
    and "entry_at (ex_flash v) 3 = replicate 16 0"
    using e [of 0] e [of 1] e [of 2] e [of 3] by (simp_all add: bslice_def)
  moreover have "entry_ok (0, 0x7000, 0x10000)" "entry_ok (1, 0x20000, 0x10000)" "entry_ok (3, 0x40000, 0x3000)"
    by (simp_all add: entry_ok_def)
  ultimately show ?thesis
    by (simp add: partition_table_def ex_table_def less_Suc_eq) (simp add: numeral_2_eq_2 numeral_3_eq_3)
qed

lemma ex_state: "nvds_state (ot_nv (ex_ota v)) v"
proof -
  let ?bs = "nvds_magic @ replicate 16 (- 1) @ le_bytes 4 v"
  let ?fl0 = "nor_write (nor_write (\<lambda>_. - 1) PARTITION_TAB_BASE
       (entry_bytes (0, 0x7000, 0x10000) @ entry_bytes (1, 0x20000, 0x10000) @ entry_bytes (3, 0x40000, 0x3000) @ replicate 16 0)) 0x20000 ex_update"
  have fl: "(ex_flash v) = nor_write ?fl0 0x41000 ?bs" by (simp add: ex_flash_def)
  have "nor_read (ex_flash v) 0x42000 2 = nor_read (\<lambda>_. - 1) 0x42000 2"
    by (simp add: ex_flash_def nor_read_write_other length_ex_update PARTITION_TAB_BASE_def)
  then have sect: "nvds_sect (ex_flash v) 0x40000 = 0x41000"
    using blank_reads(1) [of "0x42000"] by (simp add: nvds_sect_def nvds_flag_def NVDS_SECT1_VALID_def)
  have bl: "blank ?fl0 0x41000 (length ?bs)"
    by (simp add: blank_write_other length_ex_update PARTITION_TAB_BASE_def) (simp add: blank_def)
  have rd: "nor_read (ex_flash v) 0x41000 24 = ?bs"
    using nor_read_write_blank [OF bl] by (simp add: fl)
  have "take 4 (nor_read (ex_flash v) 0x41000 4096) = take 4 (nor_read (ex_flash v) 0x41000 24)" by simp
  then have "take 4 (nor_read (ex_flash v) 0x41000 4096) = nvds_magic" unfolding rd by simp
  moreover have "bslice 20 4 (nor_read (ex_flash v) 0x41000 4096) = bslice 20 4 (nor_read (ex_flash v) 0x41000 24)" by simp
  then have "bslice 20 4 (nor_read (ex_flash v) 0x41000 4096) = le_bytes 4 v"
    unfolding rd by (simp add: bslice_def)
  ultimately show ?thesis
    unfolding nvds_state_def
    by (intro exI [of _ "nor_read (ex_flash v) 0x41000 4096"])
      (simp add: ex_ota_def nvds_holds_def nvds_array_def sect nvds_ok_def FALSH_SIZE_MAX_def)
qed

lemma ex_pending: "ota_pending ex_table 0x7000 0x10000 0x20000 0x10000 ex_update (ex_ota UPG_STATE_DOWNLOAD_OK)"
proof -
  have cells: "ota_cells (ex_ota UPG_STATE_DOWNLOAD_OK) = (ex_flash UPG_STATE_DOWNLOAD_OK)" by (simp add: ota_cells_def ex_ota_def)
  have "ota_layout ex_table 0x7000 0x10000 0x20000 0x10000 (ln_nvds_base (ot_nv (ex_ota UPG_STATE_DOWNLOAD_OK)))"
    by (simp add: ota_layout_def ex_table_def partition_lookup_def PARTITION_TYPE_APP_def PARTITION_TYPE_OTA_def
        FALSH_SIZE_MAX_def ex_ota_def)
  moreover have "nor_read (ex_flash UPG_STATE_DOWNLOAD_OK) 0x20000 (length ex_update) = ex_update"
  proof -
    let ?fl0 = "nor_write (\<lambda>_. - 1) PARTITION_TAB_BASE
       (entry_bytes (0, 0x7000, 0x10000) @ entry_bytes (1, 0x20000, 0x10000) @ entry_bytes (3, 0x40000, 0x3000) @ replicate 16 0)"
    have "blank ?fl0 0x20000 (length ex_update)"
      by (simp add: blank_write_other length_ex_update PARTITION_TAB_BASE_def) (simp add: blank_def)
    then have "nor_read (nor_write ?fl0 0x20000 ex_update) 0x20000 (length ex_update) = ex_update"
      by (rule nor_read_write_blank)
    then show ?thesis
      by (simp add: ex_flash_def nor_read_write_other length_ex_update)
  qed
  moreover have "hdr_fits (nor_read (ex_flash UPG_STATE_DOWNLOAD_OK) 0x7000 256) 0x10000"
  proof -
    have "blank (ex_flash UPG_STATE_DOWNLOAD_OK) 0x7000 256"
      by (simp add: ex_flash_def blank_write_other length_ex_update PARTITION_TAB_BASE_def) (simp add: blank_def)
    then have "nor_read (ex_flash UPG_STATE_DOWNLOAD_OK) 0x7000 256 = take 0 ex_update @ replicate (256 - 0) (- 1)"
      by (simp add: nor_read_blank)
    moreover have "hdr_fits (take 0 ex_update @ replicate (256 - 0) (- 1)) 0x10000"
      by (rule ex_partial_headers [unfolded partial_headers_fit_def, rule_format]) simp
    ultimately show ?thesis by simp
  qed
  ultimately show ?thesis
    using ex_state [of UPG_STATE_DOWNLOAD_OK] ex_flash_table [of UPG_STATE_DOWNLOAD_OK] ex_update_image ex_partial_headers
    by (simp add: ota_pending_def ota_common_def cells length_ex_update)
qed

lemma zero_header_fits: "hdr_fits (nor_read (\<lambda>_. 0) a 256) n"
proof -
  have "nor_read (\<lambda>_. 0) a 256 = replicate 256 0" by (simp add: nor_read_def map_replicate_const)
  then have "image_type (image_hdr_decode (nor_read (\<lambda>_. 0) a 256)) = 0"
    by (simp add: image_hdr_decode_def bslice_def le_val_zeros)
  then show ?thesis
    by (simp add: hdr_fits_def image_size_crc_def IMAGE_TYPE_ORIGINAL_def IMAGE_TYPE_ORIGINAL_XZ_def
        IMAGE_TYPE_DIFF_def IMAGE_TYPE_DIFF_XZ_def)
qed

lemma ota_update_survives_power_loss_witness:
  "\<exists>s1 s2. ota_boots (\<lambda>_ _ _ s. Some (0, s)) (ex_ota UPG_STATE_DOWNLOAD_OK) [(Some 1000, \<lambda>_. 0), (Some 65900, \<lambda>_. 0)] = Some s1
    \<and> ota_boot_upgrade_agent (\<lambda>_ _ _ s. Some (0, s)) (ota_restart s1 None (\<lambda>_. 0)) = Some (OTA_ERR_NONE, s2)
    \<and> jumped s2 = [0x7100] \<and> app_updated (ota_cells s2) 0x7000 ex_update"
  using ota_update_survives_power_loss [OF ex_pending, of "[(Some 1000, \<lambda>_. 0), (Some 65900, \<lambda>_. 0)]" "\<lambda>_. 0"
      "\<lambda>_ _ _ s. Some (0, s)"] zero_header_fits
  by auto

lemma bootload_runs_agent_witness:
  "\<exists>ver. bootload_main (\<lambda>_ _ _ s. Some (0, s)) 0 partition_end (ex_ota 0) =
    map_option (\<lambda>(err, s'). (Some err, s')) (ota_boot_upgrade_agent (\<lambda>_ _ _ s. Some (0, s)) ((ex_ota 0)\<lparr>ot_nv :=
      (ot_nv (ex_ota 0))\<lparr>ln_nvds_base := 0x40000, ln_nvds_ver := ver\<rparr>\<rparr>))"
proof -
  have "ota_cells (ex_ota 0) = ex_flash 0" by (simp add: ota_cells_def ex_ota_def)
  then have t: "partition_table (ota_cells (ex_ota 0)) ex_table" using ex_flash_table by simp
  have l: "partition_lookup ex_table PARTITION_TYPE_NVDS = Some (3, 0x40000, 0x3000)"
    by (simp add: partition_lookup_def ex_table_def PARTITION_TYPE_NVDS_def)
  obtain m where "nvds_holds (ot_nv (ex_ota 0)) m" using ex_state [of 0] by (auto simp: nvds_state_def)
  then have "nvds_holds ((ot_nv (ex_ota 0))\<lparr>ln_nvds_base := 0x40000\<rparr>) m"
    by (simp add: ex_ota_def)
  from bootload_runs_agent [OF t l this, of 0 "\<lambda>_ _ _ s. Some (0, s)" partition_end] show ?thesis
    by (intro exI) simp
qed

text \<open>
  Without a waiting update (the stored state is something else than \<^verbatim>\<open>UPG_STATE_DOWNLOAD_OK\<close>)
  the agent enters the application at once and leaves the flash alone.
\<close>

theorem ota_boot_no_update:
  assumes "partition_table (ota_cells s) ps" and "partition_lookup ps PARTITION_TYPE_APP = Some (PARTITION_TYPE_APP, a, n)"
    and "a + 256 \<le> FALSH_SIZE_MAX" and "nvds_state (ot_nv s) v" and "v < 2 ^ 32" and "v \<noteq> UPG_STATE_DOWNLOAD_OK"
  shows "\<exists>s'. ota_boot_upgrade_agent xz s = Some (OTA_ERR_NONE, s') \<and> ot_nv s' = ot_nv s
    \<and> jumped s' = jumped s @ [a + 256]"
proof -
  define s1 where "s1 = s\<lparr>partition_info_app := entry_info (PARTITION_TYPE_APP, a, n)\<rparr>"
  have same: "ot_nv s1 = ot_nv s" by (simp add: s1_def)
  from assms(4) obtain x where h: "nvds_holds (ot_nv s) x" and x: "bslice 20 4 x = le_bytes 4 v"
    unfolding nvds_state_def by (elim exE conjE) (rule that)
  have get: "ota_upg_state_get s1 (2 ^ 32 - 1) = Some (True, v)"
    using nv_ota_upg_state.get_eq [OF h TrueI, of "le_bytes 4 (2 ^ 32 - 1)"] x assms(5)
    by (simp add: ota_upg_state_get_def same nv_consts le_simps)
  have fetch: "ln_fetch_partition_info (ota_cells s) PARTITION_TYPE_APP (Some (partition_info_app s))
      = Some (True, Some (entry_info (PARTITION_TYPE_APP, a, n)))"
    using fetch_table [OF assms(1)] assms(2) by simp
  have "ota_boot_upgrade_agent xz s = Some (OTA_ERR_NONE, jump_to_app s1 (a + 256))"
    using fetch get assms(3,6) by (simp add: ota_boot_upgrade_agent_def s1_def [symmetric] sizeof_image_hdr_def)
      (simp add: s1_def Let_def)
  then show ?thesis by (simp add: s1_def jump_to_app_def)
qed


lemma ota_boot_no_update_witness:
  "\<exists>s'. ota_boot_upgrade_agent (\<lambda>_ _ _ s. Some (0, s)) (ex_ota 0) = Some (OTA_ERR_NONE, s')
    \<and> ot_nv s' = ot_nv (ex_ota 0) \<and> jumped s' = [0x7100]"
  using ota_boot_no_update [of "ex_ota 0" ex_table "0x7000" "0x10000" 0 "\<lambda>_ _ _ s. Some (0, s)"]
    ex_flash_table [of 0] ex_state [of 0]
  by (auto simp: ex_table_def partition_lookup_def PARTITION_TYPE_APP_def FALSH_SIZE_MAX_def
      UPG_STATE_DOWNLOAD_OK_def ota_cells_def ex_ota_def)

text \<open>
  C26: when the update that should be installed is damaged, the flash is left alone: the agent
  returns the verdict on it, after entering the application when that is valid and without
  entering anything when it is not.
\<close>

theorem ota_damaged_update:
  assumes tab: "partition_table (ota_cells s) ps"
    and app: "partition_lookup ps PARTITION_TYPE_APP = Some (PARTITION_TYPE_APP, a, n)" "a + n \<le> FALSH_SIZE_MAX" "256 \<le> n"
    and ota: "partition_lookup ps PARTITION_TYPE_OTA = Some (PARTITION_TYPE_OTA, b, m)" "b + m \<le> FALSH_SIZE_MAX" "256 \<le> m"
    and st: "nvds_state (ot_nv s) UPG_STATE_DOWNLOAD_OK"
    and fits: "hdr_fits (nor_read (ota_cells s) a 256) n" "hdr_fits (nor_read (ota_cells s) b 256) m"
    and bad: "image_check (ota_cells s) b \<noteq> OTA_ERR_NONE"
  shows "\<exists>s'. ota_boot_upgrade_agent xz s = Some (image_check (ota_cells s) b, s') \<and> ot_nv s' = ot_nv s
    \<and> jumped s' = jumped s @ (if image_check (ota_cells s) a = OTA_ERR_NONE then [a + 256] else [])"
proof -
  define s1 where "s1 = s\<lparr>partition_info_app := entry_info (PARTITION_TYPE_APP, a, n)\<rparr>"
  define s2 where "s2 = s1\<lparr>app_header := image_header_at (ota_cells s) a\<rparr>"
  define s3 where "s3 = s2\<lparr>partition_info_ota := entry_info (PARTITION_TYPE_OTA, b, m),
    ota_header := image_header_at (ota_cells s) b\<rparr>"
  have same: "ot_nv s1 = ot_nv s" "ota_cells s1 = ota_cells s" "ota_cells s2 = ota_cells s"
      "ot_nv s3 = ot_nv s" "jumped s3 = jumped s" "start_addr (partition_info_app s1) = a"
      "start_addr (partition_info_app s3) = a"
    by (simp_all add: s1_def s2_def s3_def ota_cells_def)
  from st obtain x where h: "nvds_holds (ot_nv s) x" and x: "bslice 20 4 x = le_bytes 4 UPG_STATE_DOWNLOAD_OK"
    unfolding nvds_state_def by (elim exE conjE) (rule that)
  have get: "ota_upg_state_get s1 (2 ^ 32 - 1) = Some (True, UPG_STATE_DOWNLOAD_OK)"
    using nv_ota_upg_state.get_eq [OF h TrueI, of "le_bytes 4 (2 ^ 32 - 1)"] x
    by (simp add: ota_upg_state_get_def same nv_consts le_simps UPG_STATE_DOWNLOAD_OK_def)
  have fetch: "ln_fetch_partition_info (ota_cells s) PARTITION_TYPE_APP (Some (partition_info_app s))
      = Some (True, Some (entry_info (PARTITION_TYPE_APP, a, n)))"
    using fetch_table [OF tab] app(1) by simp
  have va: "verify_app s1 = Some (image_check (ota_cells s) a, s2)"
    using verify_total_eq [of s1 ps PARTITION_TYPE_APP a n] tab app fits(1)
    by (simp add: verify_app_def same) (simp add: s2_def s1_def)
  have vo: "verify_ota s2 = Some (image_check (ota_cells s) b, s3)"
    using verify_total_eq [of s2 ps PARTITION_TYPE_OTA b m] tab ota fits(2)
    by (simp add: verify_ota_def same) (simp add: s3_def)
  have "ota_boot_upgrade_agent xz s = Some (image_check (ota_cells s) b,
      if image_check (ota_cells s) a = OTA_ERR_NONE then jump_to_app s3 (a + 256) else s3)"
    using fetch get va vo bad app(2,3)
    by (simp add: ota_boot_upgrade_agent_def s1_def [symmetric] same UPG_STATE_DOWNLOAD_OK_def sizeof_image_hdr_def Let_def)
  then show ?thesis by (simp add: same jump_to_app_def)
qed

text \<open>The example with the update erased.\<close>

definition ex_damaged :: ota where
  "ex_damaged = (let s = ex_ota UPG_STATE_DOWNLOAD_OK
     in s\<lparr>ot_nv := (ot_nv s)\<lparr>nv_dev := (nv_dev (ot_nv s))\<lparr>pd_cells :=
          nor_erase (ex_flash UPG_STATE_DOWNLOAD_OK) 0x20000 4096\<rparr>\<rparr>\<rparr>)"

lemma blank_header:
  assumes "blank fl a 256"
  shows "image_check fl a \<noteq> OTA_ERR_NONE" and "hdr_fits (nor_read fl a 256) n"
proof -
  have "image_type (image_hdr_decode (nor_read fl a 256)) = 2 ^ 32 - 1"
    using assms by (simp add: nor_read_blank image_hdr_decode_def bslice_def le_simps)
  then have "image_size_crc (image_hdr_decode (nor_read fl a 256)) = None"
    by (simp add: image_size_crc_def IMAGE_TYPE_ORIGINAL_def IMAGE_TYPE_ORIGINAL_XZ_def IMAGE_TYPE_DIFF_def
        IMAGE_TYPE_DIFF_XZ_def)
  then show "image_check fl a \<noteq> OTA_ERR_NONE" and "hdr_fits (nor_read fl a 256) n"
    by (simp_all add: image_check_def image_header_at_def hdr_fits_def Let_def)
qed

lemma ota_damaged_update_witness:
  "\<exists>s'. ota_boot_upgrade_agent (\<lambda>_ _ _ s. Some (0, s)) ex_damaged
      = Some (image_check (ota_cells ex_damaged) 0x20000, s')
    \<and> ot_nv s' = ot_nv ex_damaged \<and> jumped s' = []"
proof -
  let ?fl = "nor_erase (ex_flash UPG_STATE_DOWNLOAD_OK) 0x20000 4096"
  have c: "ota_cells ex_damaged = ?fl" "jumped ex_damaged = []"
    by (simp_all add: ex_damaged_def ota_cells_def Let_def) (simp add: ex_ota_def)
  have "partition_table ?fl ex_table"
    by (rule partition_table_cong [OF ex_flash_table]) (simp add: nor_erase_other)
  moreover have "nvds_state (ot_nv ex_damaged) UPG_STATE_DOWNLOAD_OK"
    by (rule nvds_state_cong [OF ex_state [of UPG_STATE_DOWNLOAD_OK]])
      (simp_all add: ex_damaged_def ex_ota_def Let_def nor_erase_other)
  moreover have "blank ?fl 0x20000 256" by (rule blank_erase_sub) simp_all
  note b = blank_header [OF this]
  have "blank ?fl 0x7000 256"
    by (simp add: blank_erase_other ex_flash_def blank_write_other length_ex_update PARTITION_TAB_BASE_def)
      (simp add: blank_def)
  note a = blank_header [OF this]
  ultimately show ?thesis
    using ota_damaged_update [of ex_damaged ex_table "0x7000" "0x10000" "0x20000" "0x10000" "\<lambda>_ _ _ s. Some (0, s)"] a b
    by (simp add: c ex_table_def partition_lookup_def PARTITION_TYPE_APP_def PARTITION_TYPE_OTA_def FALSH_SIZE_MAX_def)
qed

end
