(* ===== verification/At_Parser.thy ===== *)
theory At_Parser
  imports Prelude
begin

text \<open>
  The parser of AT command lines, \<^verbatim>\<open>components/ln_at/parser/ln_at_parser.c\<close>.  It works in place on
  the caller's buffer: it squeezes out the spaces, cuts the line into name and parameters by
  writing terminators, and removes the escapes of string parameters.  A pointer is an offset
  into the buffer (\<^const>\<open>None\<close>: the null pointer); an access outside the buffer or through
  the null pointer makes a function \<^const>\<open>None\<close>.  The log output is left out.
\<close>

section \<open>Memory and the C library\<close>

abbreviation NUL :: char where "NUL \<equiv> CHR 0x00"
abbreviation QUOTE :: char where "QUOTE \<equiv> CHR 0x22"
abbreviation BACKSLASH :: char where "BACKSLASH \<equiv> CHR 0x5C"

definition mem_get :: "string \<Rightarrow> nat \<Rightarrow> char option" where
  "mem_get buf i = (if i < length buf then Some (buf ! i) else None)"

definition mem_set :: "string \<Rightarrow> nat \<Rightarrow> char \<Rightarrow> string option" where
  "mem_set buf i c = (if i < length buf then Some (buf[i := c]) else None)"

text \<open>The character before offset \<open>i\<close>.\<close>

definition mem_prev :: "string \<Rightarrow> nat \<Rightarrow> char option" where
  "mem_prev buf i = (if i = 0 then None else mem_get buf (i - 1))"

text \<open>The C string at an offset: the search functions of the library need its terminator.\<close>

definition cstr :: "string \<Rightarrow> nat \<Rightarrow> string option" where
  "cstr buf p = (if NUL \<in> set (drop p buf) then Some (takeWhile (\<lambda>c. c \<noteq> NUL) (drop p buf)) else None)"

fun find_sub :: "string \<Rightarrow> string \<Rightarrow> nat \<Rightarrow> nat option" where
  "find_sub [] needle i = None"
| "find_sub (c # cs) needle i =
     (if take (length needle) (c # cs) = needle then Some i else find_sub cs needle (Suc i))"

definition c_strstr :: "string \<Rightarrow> nat \<Rightarrow> string \<Rightarrow> nat option option" where
  "c_strstr buf p needle = do { s \<leftarrow> cstr buf p; Some (find_sub s needle p) }"

definition c_strlen :: "string \<Rightarrow> nat \<Rightarrow> nat option" where
  "c_strlen buf p = do { s \<leftarrow> cstr buf p; Some (length s) }"

section \<open>State\<close>

datatype at_psr_err = LN_AT_PSR_ERR_NONE | LN_AT_PSR_ERR_COMMON | LN_AT_PSR_ERR_NO_CRLF | LN_AT_PSR_ERR_NO_AT
  | LN_AT_PSR_ERR_FORMAT | LN_AT_PSR_ERR_TOO_MANY_PARA | LN_AT_PSR_ERR_PARSER | LN_AT_PSR_ERR_PARAM
  | LN_AT_PSR_ERR_NOT_SUPPORT

datatype at_para_type = LN_AT_PARA_TYPE_INIT | LN_AT_PARA_TYPE_STR | LN_AT_PARA_TYPE_OMIT | LN_AT_PARA_TYPE_UNKNOWN

record at_para =
  para_type :: at_para_type
  para_start_pos :: "nat option"
  para_end_pos :: "nat option"

record at_parser =
  name_start_pos :: "nat option"
  name_end_pos :: "nat option"
  cmd_type_flag :: nat
  total_para_num :: nat
  para :: "at_para list"

definition LN_AT_MAX_PARA_NUM :: nat where "LN_AT_MAX_PARA_NUM = 20"

definition at_parser_zero :: at_parser where
  "at_parser_zero = \<lparr>name_start_pos = None, name_end_pos = None, cmd_type_flag = 0, total_para_num = 0,
     para = replicate LN_AT_MAX_PARA_NUM \<lparr>para_type = LN_AT_PARA_TYPE_INIT, para_start_pos = None, para_end_pos = None\<rparr>\<rparr>"

definition LN_AT_CMD_MARK_PLUS :: nat where "LN_AT_CMD_MARK_PLUS = 4"
definition LN_AT_CMD_MARK_EQUAL :: nat where "LN_AT_CMD_MARK_EQUAL = 2"
definition LN_AT_CMD_MARK_QUESTION :: nat where "LN_AT_CMD_MARK_QUESTION = 1"
definition LN_AT_CMD_MARK_BASIC :: nat where "LN_AT_CMD_MARK_BASIC = 0"
definition LN_AT_CMD_MARK_EXEC :: nat where "LN_AT_CMD_MARK_EXEC = LN_AT_CMD_MARK_PLUS"
definition LN_AT_CMD_MARK_GET :: nat where "LN_AT_CMD_MARK_GET = LN_AT_CMD_MARK_PLUS OR LN_AT_CMD_MARK_QUESTION"
definition LN_AT_CMD_MARK_TEST :: nat where
  "LN_AT_CMD_MARK_TEST = LN_AT_CMD_MARK_PLUS OR LN_AT_CMD_MARK_EQUAL OR LN_AT_CMD_MARK_QUESTION"
definition LN_AT_CMD_MARK_SET :: nat where "LN_AT_CMD_MARK_SET = LN_AT_CMD_MARK_PLUS OR LN_AT_CMD_MARK_EQUAL"

definition LN_AT_CMD_END_MARK :: string where "LN_AT_CMD_END_MARK = [CHR 0x0D, CHR 0x0A]"

definition special_cmd :: "string list" where
  "special_cmd = [''+PVTCMD'', ''+LENTF'', ''+LEIND'', ''+LEWRREQ'', ''+LEWRCMD'']"

section \<open>Spaces and quotes\<close>

text \<open>
  The loop over the line: \<open>n\<close> characters are left, \<open>p\<close> is the reading and \<open>start + index\<close> the
  writing position.  Spaces outside quotes are dropped; the quotes are counted.
\<close>

fun at_filter_loop :: "nat \<Rightarrow> string \<Rightarrow> nat \<Rightarrow> nat \<Rightarrow> nat \<Rightarrow> bool \<Rightarrow> nat \<Rightarrow> (string \<times> nat \<times> nat) option" where
  "at_filter_loop 0 buf start p index true_quotation quotation_num = Some (buf, index, quotation_num)"
| "at_filter_loop (Suc n) buf start p index true_quotation quotation_num = do {
     ch \<leftarrow> mem_get buf p;
     if ch \<noteq> CHR '' '' then do {
       quote \<leftarrow> (if ch = QUOTE then do { prev \<leftarrow> mem_prev buf p; Some (prev \<noteq> BACKSLASH) } else Some False);
       buf' \<leftarrow> mem_set buf (start + index) ch;
       (if quote then at_filter_loop n buf' start (Suc p) (Suc index) (\<not> true_quotation) (Suc quotation_num)
        else at_filter_loop n buf' start (Suc p) (Suc index) true_quotation quotation_num) }
     else if true_quotation then do {
       buf' \<leftarrow> mem_set buf (start + index) ch;
       at_filter_loop n buf' start (Suc p) (Suc index) true_quotation quotation_num }
     else at_filter_loop n buf start (Suc p) index true_quotation quotation_num
   }"

section \<open>Name and type of the command\<close>

definition at_name_parse :: "at_parser \<Rightarrow> string \<Rightarrow> nat \<Rightarrow> nat \<Rightarrow> at_parser option" where
  "at_name_parse at_cmd buf start len = do {
     strlen \<leftarrow> c_strlen buf start;
     if len = 2 then
       Some (at_cmd\<lparr>name_start_pos := Some start, name_end_pos := Some (start + strlen)\<rparr>)
     else do {
       c2 \<leftarrow> mem_get buf (start + 2);
       if c2 \<noteq> CHR ''+'' then
         Some (at_cmd\<lparr>name_start_pos := Some start, name_end_pos := Some (start + strlen)\<rparr>)
       else do {
         let flag = cmd_type_flag at_cmd OR LN_AT_CMD_MARK_PLUS;
         equals_pos \<leftarrow> c_strstr buf start ''='';
         last \<leftarrow> mem_get buf (start + strlen - 1);
         last2 \<leftarrow> mem_get buf (start + strlen - 2);
         let at1 = (case equals_pos of
             Some e \<Rightarrow> at_cmd\<lparr>cmd_type_flag := flag OR LN_AT_CMD_MARK_EQUAL,
                 name_start_pos := Some (start + 2), name_end_pos := Some e\<rparr>
           | None \<Rightarrow> if last = CHR ''?''
               then at_cmd\<lparr>cmd_type_flag := flag OR LN_AT_CMD_MARK_QUESTION,
                 name_start_pos := Some (start + 2), name_end_pos := Some (start + strlen - 1)\<rparr>
               else at_cmd\<lparr>cmd_type_flag := flag,
                 name_start_pos := Some (start + 2), name_end_pos := Some (start + strlen)\<rparr>);
         Some (if last = CHR ''?'' \<and> last2 = CHR ''=''
               then at1\<lparr>cmd_type_flag := cmd_type_flag at1 OR LN_AT_CMD_MARK_QUESTION\<rparr> else at1)
       }
     }
   }"

section \<open>The parameters of a set command\<close>

definition at_digit :: "char \<Rightarrow> bool" where
  "at_digit c \<longleftrightarrow> of_char CHR ''0'' \<le> (of_char c :: nat) \<and> of_char c \<le> (of_char CHR ''9'' :: nat)"

definition para_upd :: "at_parser \<Rightarrow> (at_para \<Rightarrow> at_para) \<Rightarrow> at_parser" where
  "para_upd at_cmd f = at_cmd\<lparr>para := (para at_cmd)[total_para_num at_cmd - 1 := f (para at_cmd ! (total_para_num at_cmd - 1))]\<rparr>"

record at_scan =
  true_quotation :: bool
  quotation_num :: nat
  is_int_param :: bool
  is_negative_number :: bool

text \<open>The character \<open>ch\<close> at \<open>p\<close>; \<^term>\<open>Inl\<close> is an error that ends the scan.\<close>

definition at_para_step :: "string \<Rightarrow> nat \<Rightarrow> char \<Rightarrow> at_scan \<Rightarrow> at_parser \<Rightarrow> (at_psr_err + at_scan \<times> at_parser) option" where
  "at_para_step buf p ch sc at_cmd = do {
     quote \<leftarrow> (if ch = QUOTE then do { prev \<leftarrow> mem_prev buf p; Some (prev \<noteq> BACKSLASH) } else Some False);
     if quote then
       (let sc1 = sc\<lparr>true_quotation := \<not> true_quotation sc, quotation_num := Suc (quotation_num sc)\<rparr>
        in Some (Inr (sc1, if odd (quotation_num sc1)
             then para_upd at_cmd (\<lambda>q. q\<lparr>para_start_pos := Some (Suc p), para_type := LN_AT_PARA_TYPE_STR\<rparr>)
             else para_upd at_cmd (\<lambda>q. q\<lparr>para_end_pos := Some p\<rparr>))))
     else if true_quotation sc then Some (Inr (sc, at_cmd))
     else if at_digit ch then
       (if is_int_param sc then Some (Inr (sc, at_cmd))
        else Some (Inr (sc\<lparr>is_int_param := True\<rparr>,
          para_upd at_cmd (\<lambda>q. q\<lparr>para_start_pos := Some (if is_negative_number sc then p - 1 else p),
            para_type := LN_AT_PARA_TYPE_INIT\<rparr>))))
     else if ch = CHR ''-'' then Some (Inr (sc\<lparr>is_negative_number := True\<rparr>, at_cmd))
     else if ch = CHR ''+'' then Some (Inr (sc\<lparr>is_negative_number := False\<rparr>, at_cmd))
     else if ch = CHR '','' \<or> ch = NUL then do {
       let (sc1, at1) = (if is_int_param sc
           then (sc\<lparr>is_int_param := False, is_negative_number := False\<rparr>, para_upd at_cmd (\<lambda>q. q\<lparr>para_end_pos := Some p\<rparr>))
           else (sc, at_cmd));
       pre_ch \<leftarrow> mem_prev buf p;
       let at2 = (if pre_ch \<noteq> QUOTE \<and> \<not> at_digit pre_ch
           then para_upd at1 (\<lambda>q. q\<lparr>para_type := LN_AT_PARA_TYPE_OMIT\<rparr>) else at1);
       Some (Inr (sc1, at2\<lparr>total_para_num := Suc (total_para_num at2)\<rparr>)) }
     else Some (Inl LN_AT_PSR_ERR_FORMAT)
   }"

text \<open>\<open>n\<close> characters are left up to and including the terminator.\<close>

fun at_para_loop :: "nat \<Rightarrow> string \<Rightarrow> nat \<Rightarrow> at_scan \<Rightarrow> at_parser \<Rightarrow> (at_psr_err \<times> at_parser) option" where
  "at_para_loop 0 buf p sc at_cmd = Some (LN_AT_PSR_ERR_NONE, at_cmd)"
| "at_para_loop (Suc n) buf p sc at_cmd =
     (if total_para_num at_cmd > LN_AT_MAX_PARA_NUM then Some (LN_AT_PSR_ERR_TOO_MANY_PARA, at_cmd)
      else do {
        ch \<leftarrow> mem_get buf p;
        r \<leftarrow> at_para_step buf p ch sc at_cmd;
        (case r of Inl err \<Rightarrow> Some (err, at_cmd)
         | Inr (sc', at') \<Rightarrow> at_para_loop n buf (Suc p) sc' at')
      })"

text \<open>Removing the escapes of the string between \<open>p\<close> and \<open>pend\<close>, written from \<open>start\<close> on.\<close>

fun at_unescape_loop :: "nat \<Rightarrow> string \<Rightarrow> nat \<Rightarrow> nat \<Rightarrow> nat \<Rightarrow> nat \<Rightarrow> (at_psr_err \<times> string \<times> nat) option" where
  "at_unescape_loop 0 buf start new_index p pend = Some (LN_AT_PSR_ERR_NONE, buf, new_index)"
| "at_unescape_loop (Suc n) buf start new_index p pend =
     (if p < pend then do {
        ch \<leftarrow> mem_get buf p;
        if ch = BACKSLASH then do {
          nxt \<leftarrow> mem_get buf (Suc p);
          if nxt = BACKSLASH \<or> nxt = QUOTE \<or> nxt = CHR '','' then do {
            buf' \<leftarrow> mem_set buf (start + new_index) nxt;
            at_unescape_loop n buf' start (Suc new_index) (Suc (Suc p)) pend }
          else at_unescape_loop n buf start new_index (Suc p) pend }
        else if ch = QUOTE \<or> ch = CHR '','' then Some (LN_AT_PSR_ERR_FORMAT, buf, new_index)
        else do {
          buf' \<leftarrow> mem_set buf (start + new_index) ch;
          at_unescape_loop n buf' start (Suc new_index) (Suc p) pend }
      } else Some (LN_AT_PSR_ERR_NONE, buf, new_index))"

definition at_unescape :: "string \<Rightarrow> at_para \<Rightarrow> (at_psr_err \<times> string) option" where
  "at_unescape buf q =
     (if para_type q = LN_AT_PARA_TYPE_STR then do {
        start \<leftarrow> para_start_pos q;
        pend \<leftarrow> para_end_pos q;
        (err, buf1, new_index) \<leftarrow> at_unescape_loop (pend - start) buf start 0 start pend;
        if err \<noteq> LN_AT_PSR_ERR_NONE then Some (err, buf1)
        else do { buf2 \<leftarrow> mem_set buf1 (start + new_index) NUL; Some (LN_AT_PSR_ERR_NONE, buf2) } }
      else if para_type q = LN_AT_PARA_TYPE_INIT then do {
        start \<leftarrow> para_start_pos q;
        pend \<leftarrow> para_end_pos q;
        buf1 \<leftarrow> mem_set buf pend NUL;
        Some (LN_AT_PSR_ERR_NONE, buf1) }
      else Some (LN_AT_PSR_ERR_NONE, buf))"

fun at_unescape_all :: "string \<Rightarrow> at_para list \<Rightarrow> (at_psr_err \<times> string) option" where
  "at_unescape_all buf [] = Some (LN_AT_PSR_ERR_NONE, buf)"
| "at_unescape_all buf (q # qs) = do {
     (err, buf') \<leftarrow> at_unescape buf q;
     if err \<noteq> LN_AT_PSR_ERR_NONE then Some (err, buf') else at_unescape_all buf' qs
   }"

definition at_set_parse :: "at_parser \<Rightarrow> string \<Rightarrow> nat \<Rightarrow> (at_psr_err \<times> at_parser \<times> string) option" where
  "at_set_parse at_cmd buf end_pos = do {
     nend \<leftarrow> name_end_pos at_cmd;
     let at1 = at_cmd\<lparr>total_para_num := 1\<rparr>;
     e \<leftarrow> mem_get buf end_pos;
     if e \<noteq> NUL then Some (LN_AT_PSR_ERR_PARSER, at1, buf)
     else do {
       (err, at2) \<leftarrow> at_para_loop (Suc end_pos - Suc nend) buf (Suc nend)
         \<lparr>true_quotation = False, quotation_num = 0, is_int_param = False, is_negative_number = False\<rparr> at1;
       if err \<noteq> LN_AT_PSR_ERR_NONE then Some (err, at2, buf)
       else do {
         let at3 = at2\<lparr>total_para_num := total_para_num at2 - 1\<rparr>;
         (err', buf1) \<leftarrow> at_unescape_all buf (take (total_para_num at3) (para at3));
         if err' \<noteq> LN_AT_PSR_ERR_NONE then Some (err', at3, buf1)
         else do { buf2 \<leftarrow> mem_set buf1 nend NUL; Some (LN_AT_PSR_ERR_NONE, at3, buf2) }
       }
     }
   }"

section \<open>The parser\<close>

text \<open>The search for the special commands, whose single parameter is the raw rest of the line.\<close>

fun at_find_special :: "string \<Rightarrow> string list \<Rightarrow> (nat \<times> nat) option option" where
  "at_find_special buf [] = Some None"
| "at_find_special buf (c # cs) = do {
     r \<leftarrow> c_strstr buf 0 c;
     (case r of Some pos \<Rightarrow> Some (Some (pos, length c)) | None \<Rightarrow> at_find_special buf cs)
   }"

definition at_special :: "at_parser \<Rightarrow> string \<Rightarrow> nat \<Rightarrow> nat \<Rightarrow> nat \<Rightarrow> (at_psr_err \<times> at_parser \<times> string) option" where
  "at_special at_cmd buf pos clen end_pos = do {
     buf1 \<leftarrow> mem_set buf (pos + clen) NUL;
     buf2 \<leftarrow> mem_set buf1 end_pos NUL;
     Some (LN_AT_PSR_ERR_NONE,
       at_cmd\<lparr>name_start_pos := Some pos, name_end_pos := Some (pos + clen), total_para_num := 1,
         cmd_type_flag := LN_AT_CMD_MARK_SET,
         para := (para at_cmd)[0 := \<lparr>para_type = LN_AT_PARA_TYPE_STR, para_start_pos = Some (Suc (pos + clen)),
           para_end_pos = Some end_pos\<rparr>]\<rparr>, buf2)
   }"

text \<open>A line without parameters gets its terminator behind the name.\<close>

definition at_parse_filtered :: "at_parser \<Rightarrow> string \<Rightarrow> nat \<Rightarrow> nat \<Rightarrow> (at_psr_err \<times> at_parser \<times> string) option" where
  "at_parse_filtered at_cmd buf start len =
     (if len < 2 then Some (LN_AT_PSR_ERR_NO_AT, at_cmd, buf)
      else do {
        at1 \<leftarrow> at_name_parse at_cmd buf start len;
        if cmd_type_flag at1 \<noteq> LN_AT_CMD_MARK_SET then do {
          nend \<leftarrow> name_end_pos at1;
          buf1 \<leftarrow> mem_set buf nend NUL;
          Some (LN_AT_PSR_ERR_NONE, at1, buf1) }
        else at_set_parse at1 buf (start + len)
      })"

definition ln_at_cmd_parse :: "at_parser \<Rightarrow> string \<Rightarrow> nat \<Rightarrow> (at_psr_err \<times> at_parser \<times> string) option" where
  "ln_at_cmd_parse ctx buf len0 = do {
     let len = sub_u32 len0 (length LN_AT_CMD_END_MARK);
     end_pos \<leftarrow> c_strstr buf 0 LN_AT_CMD_END_MARK;
     if end_pos \<noteq> Some len then Some (LN_AT_PSR_ERR_NO_CRLF, ctx, buf)
     else do {
       up \<leftarrow> c_strstr buf 0 ''AT'';
       lo \<leftarrow> c_strstr buf 0 ''at'';
       (case (case up of Some p \<Rightarrow> Some p | None \<Rightarrow> lo) of
         None \<Rightarrow> Some (LN_AT_PSR_ERR_NO_AT, ctx, buf)
       | Some start \<Rightarrow> do {
           sp \<leftarrow> at_find_special buf special_cmd;
           (case sp of
             Some (pos, clen) \<Rightarrow> at_special at_parser_zero buf pos clen len
           | None \<Rightarrow> do {
               (buf1, index, quotes) \<leftarrow> at_filter_loop len buf start start 0 False 0;
               if odd quotes then Some (LN_AT_PSR_ERR_FORMAT, at_parser_zero, buf1)
               else do {
                 buf2 \<leftarrow> mem_set buf1 (start + index) NUL;
                 at_parse_filtered at_parser_zero buf2 start index
               }
             })
         })
     }
   }"

section \<open>Reading the result\<close>

datatype at_cmd_type = LN_AT_PSR_CMD_TYPE_BASIC | LN_AT_PSR_CMD_TYPE_EXEC | LN_AT_PSR_CMD_TYPE_GET
  | LN_AT_PSR_CMD_TYPE_TEST | LN_AT_PSR_CMD_TYPE_SET

record at_parser_rst =
  rst_name :: "nat option"
  rst_type :: at_cmd_type
  rst_para_num :: nat

text \<open>The type is left alone when the flag is none of the five.\<close>

definition ln_at_parser_get_result :: "at_parser \<Rightarrow> at_parser_rst option \<Rightarrow> at_psr_err \<times> at_parser_rst option" where
  "ln_at_parser_get_result at_cmd rst = (case rst of None \<Rightarrow> (LN_AT_PSR_ERR_PARAM, None)
     | Some r \<Rightarrow> (LN_AT_PSR_ERR_NONE, Some (r\<lparr>rst_name := name_start_pos at_cmd,
         rst_type := (if cmd_type_flag at_cmd = LN_AT_CMD_MARK_BASIC then LN_AT_PSR_CMD_TYPE_BASIC
           else if cmd_type_flag at_cmd = LN_AT_CMD_MARK_EXEC then LN_AT_PSR_CMD_TYPE_EXEC
           else if cmd_type_flag at_cmd = LN_AT_CMD_MARK_GET then LN_AT_PSR_CMD_TYPE_GET
           else if cmd_type_flag at_cmd = LN_AT_CMD_MARK_TEST then LN_AT_PSR_CMD_TYPE_TEST
           else if cmd_type_flag at_cmd = LN_AT_CMD_MARK_SET then LN_AT_PSR_CMD_TYPE_SET
           else rst_type r),
         rst_para_num := u8 (total_para_num at_cmd)\<rparr>)))"

text \<open>\<^verbatim>\<open>atoi\<close> of the C library: an optional sign and digits (overflow is undefined in C).\<close>

fun dec_val :: "nat \<Rightarrow> string \<Rightarrow> nat" where
  "dec_val v [] = v"
| "dec_val v (c # cs) = (if at_digit c then dec_val (10 * v + (of_char c - 48)) cs else v)"

fun c_space :: "char \<Rightarrow> bool" where
  "c_space c \<longleftrightarrow> c \<in> {CHR '' '', CHR 0x09, CHR 0x0A, CHR 0x0B, CHR 0x0C, CHR 0x0D}"

definition c_atoi :: "string \<Rightarrow> int" where
  "c_atoi s = (case dropWhile c_space s of
      (c # cs) \<Rightarrow> if c = CHR ''-'' then - int (dec_val 0 cs)
        else if c = CHR ''+'' then int (dec_val 0 cs) else int (dec_val 0 (c # cs))
    | [] \<Rightarrow> 0)"

definition ln_at_parser_get_int_param :: "at_parser \<Rightarrow> string \<Rightarrow> nat \<Rightarrow> (at_psr_err \<times> bool \<times> int) option" where
  "ln_at_parser_get_int_param at_cmd buf param_index =
     (if param_index < 1 \<or> param_index > LN_AT_MAX_PARA_NUM then Some (LN_AT_PSR_ERR_PARAM, False, 0)
      else let q = para at_cmd ! (param_index - 1)
        in if para_type q = LN_AT_PARA_TYPE_OMIT then Some (LN_AT_PSR_ERR_NONE, True, 0)
        else if para_type q = LN_AT_PARA_TYPE_INIT then do {
          p \<leftarrow> para_start_pos q;
          s \<leftarrow> cstr buf p;
          Some (LN_AT_PSR_ERR_NONE, False, c_atoi s) }
        else Some (LN_AT_PSR_ERR_COMMON, False, 0))"

text \<open>The third component is the string pointer.\<close>

definition ln_at_parser_get_str_param :: "at_parser \<Rightarrow> nat \<Rightarrow> at_psr_err \<times> bool \<times> nat option" where
  "ln_at_parser_get_str_param at_cmd param_index =
     (if param_index < 1 \<or> param_index > LN_AT_MAX_PARA_NUM then (LN_AT_PSR_ERR_PARAM, False, None)
      else let q = para at_cmd ! (param_index - 1)
        in if para_type q = LN_AT_PARA_TYPE_OMIT then (LN_AT_PSR_ERR_NONE, True, None)
        else if para_type q = LN_AT_PARA_TYPE_STR then (LN_AT_PSR_ERR_NONE, False, para_start_pos q)
        else (LN_AT_PSR_ERR_COMMON, False, None))"

end
