(* ===== verification/At_Server.thy ===== *)
theory At_Server
  imports At_Parser
begin

text \<open>
  The AT server, \<^verbatim>\<open>components/ln_at/ln_at_server.c\<close>, in the configuration of the tree (command mode only),
  with the command table of \<^verbatim>\<open>ln_at_cmd.c\<close> and the basic commands.  One task puts received characters
  into the line buffer, the other takes a complete line and runs the handler of the command.  What a
  handler does is a parameter, a function of the item, the parser's result and the line buffer; it
  answers with an error code, a text and the new echo setting.  An access outside a buffer makes a
  function \<^const>\<open>None\<close>.
\<close>

section \<open>State\<close>

definition LN_AT_MAX_LINE_SIZE :: nat where "LN_AT_MAX_LINE_SIZE = 512"
definition LN_AT_PRINTF_BUF_SIZE :: nat where "LN_AT_PRINTF_BUF_SIZE = 256"

datatype ln_at_err = LN_AT_ERR_NONE | LN_AT_ERR_COMMON | LN_AT_ERR_PARAM | LN_AT_ERR_SYS | LN_AT_ERR_PARSE
  | LN_AT_ERR_FORMAT | LN_AT_ERR_OMIT | LN_AT_ERR_NOT_FIND | LN_AT_ERR_NOT_SUPPORT

text \<open>A command: its name and which handlers it has.\<close>

record at_item =
  item_name :: string
  item_get :: bool
  item_set :: bool
  item_test :: bool
  item_exec :: bool

datatype at_action = At_get nat | At_set nat nat | At_test nat | At_exec nat

type_synonym at_handlers = "at_action \<Rightarrow> at_parser \<Rightarrow> string \<Rightarrow> bool \<Rightarrow> ln_at_err \<times> string \<times> bool"

record at_server =
  at_busy :: bool
  at_index :: nat
  at_echo :: bool
  in_buff :: string
  prev_ch :: char
  parser_sem :: nat
  at_out :: string
  at_cmd :: at_parser
  parser_rst :: at_parser_rst
  cmd_tbl :: "at_item list"
  cmd_hash_tbl :: "word32 list option"

section \<open>Command table\<close>

definition c_tolower :: "char \<Rightarrow> nat" where
  "c_tolower c = (let n = of_char c :: nat in if 65 \<le> n \<and> n \<le> 90 then n + 32 else n)"

definition ln_djb_hash :: "string \<Rightarrow> word32" where
  "ln_djb_hash str = foldl (\<lambda>hash c. push_bit 5 hash + hash + of_nat (c_tolower c)) 5381 str"

text \<open>The hashes need memory; \<^const>\<open>None\<close> is a null table.\<close>

definition ln_at_cmd_items_init :: "bool \<Rightarrow> at_item list \<Rightarrow> word32 list option" where
  "ln_at_cmd_items_init calloc items = (if calloc then Some (map (\<lambda>item. ln_djb_hash (item_name item)) items) else None)"

fun at_hash_search :: "word32 list \<Rightarrow> word32 \<Rightarrow> nat \<Rightarrow> nat option" where
  "at_hash_search [] hash_code index = None"
| "at_hash_search (h # hs) hash_code index = (if h = hash_code then Some index else at_hash_search hs hash_code (Suc index))"

definition ln_at_query_cmd :: "at_server \<Rightarrow> word32 \<Rightarrow> nat option" where
  "ln_at_query_cmd s hash_code = (case cmd_hash_tbl s of None \<Rightarrow> None
     | Some hashes \<Rightarrow> at_hash_search (take (length (cmd_tbl s)) hashes) hash_code 0)"

section \<open>Output\<close>

definition at_write :: "string \<Rightarrow> at_server \<Rightarrow> at_server" where
  "at_write txt s = s\<lparr>at_out := at_out s @ txt\<rparr>"

text \<open>Text longer than the buffer is cut, but its full length is written: what lies behind the buffer.\<close>

definition ln_at_vprintf :: "string \<Rightarrow> at_server \<Rightarrow> at_server option" where
  "ln_at_vprintf txt s =
     (if length txt < LN_AT_PRINTF_BUF_SIZE then Some (at_write txt s)
      else if length txt = LN_AT_PRINTF_BUF_SIZE then Some (at_write (take (LN_AT_PRINTF_BUF_SIZE - 1) txt @ [NUL]) s)
      else None)"

definition CRLF_CONTENT :: string where "CRLF_CONTENT = [CHR 0x0D, CHR 0x0A]"
definition BACKSPACE_CONTENT :: string where "BACKSPACE_CONTENT = [CHR 0x08, CHR '' '', CHR 0x08]"
definition BUSY_P_CONTENT :: string where "BUSY_P_CONTENT = CRLF_CONTENT @ ''busy p...'' @ CRLF_CONTENT"
definition LN_AT_RET_OK_STR :: string where "LN_AT_RET_OK_STR = CRLF_CONTENT @ ''OK'' @ CRLF_CONTENT"
definition LN_AT_RET_ERR_STR :: string where "LN_AT_RET_ERR_STR = CRLF_CONTENT @ ''ERROR'' @ CRLF_CONTENT"

definition ln_at_echo_enable :: "bool \<Rightarrow> at_server \<Rightarrow> at_server" where
  "ln_at_echo_enable en s = s\<lparr>at_echo := en\<rparr>"

section \<open>Dispatch\<close>

definition at_handler :: "at_item \<Rightarrow> nat \<Rightarrow> at_parser_rst \<Rightarrow> at_action option" where
  "at_handler item i rst = (case rst_type rst of
       LN_AT_PSR_CMD_TYPE_GET \<Rightarrow> if item_get item then Some (At_get i) else None
     | LN_AT_PSR_CMD_TYPE_SET \<Rightarrow> if item_set item then Some (At_set i (rst_para_num rst)) else None
     | LN_AT_PSR_CMD_TYPE_TEST \<Rightarrow> if item_test item then Some (At_test i) else None
     | LN_AT_PSR_CMD_TYPE_BASIC \<Rightarrow> if item_exec item then Some (At_exec i) else None
     | LN_AT_PSR_CMD_TYPE_EXEC \<Rightarrow> if item_exec item then Some (At_exec i) else None)"

definition ln_at_cmd_do :: "at_handlers \<Rightarrow> at_parser_rst \<Rightarrow> at_server \<Rightarrow> (ln_at_err \<times> at_server) option" where
  "ln_at_cmd_do run rst s = do {
     name \<leftarrow> rst_name rst;
     key \<leftarrow> cstr (in_buff s) (if rst_type rst \<noteq> LN_AT_PSR_CMD_TYPE_BASIC then name + 1 else name);
     (case ln_at_query_cmd s (ln_djb_hash key) of
       None \<Rightarrow> do {
         s \<leftarrow> ln_at_vprintf LN_AT_RET_ERR_STR s;
         str \<leftarrow> cstr (in_buff s) (name + 1);
         s \<leftarrow> ln_at_vprintf (CRLF_CONTENT @ ''Not found <'' @ str @ ''> command!'' @ CRLF_CONTENT) s;
         Some (LN_AT_ERR_NOT_FIND, s) }
     | Some i \<Rightarrow> (case at_handler (cmd_tbl s ! i) i rst of
         None \<Rightarrow> do { s \<leftarrow> ln_at_vprintf LN_AT_RET_ERR_STR s; Some (LN_AT_ERR_COMMON, s) }
       | Some action \<Rightarrow>
           (let (err, txt, echo) = run action (at_cmd s) (in_buff s) (at_echo s);
                s = ln_at_echo_enable echo (at_write txt s)
            in Some (if err = LN_AT_ERR_NONE then LN_AT_ERR_NONE else LN_AT_ERR_COMMON, s))))
   }"

section \<open>The two tasks\<close>

definition LN_AT_RESET_PARSER_ENV :: "at_server \<Rightarrow> at_server" where
  "LN_AT_RESET_PARSER_ENV s = s\<lparr>at_index := 0, in_buff := replicate LN_AT_MAX_LINE_SIZE NUL\<rparr>"

definition c_isprint :: "char \<Rightarrow> bool" where
  "c_isprint c \<longleftrightarrow> 32 \<le> (of_char c :: nat) \<and> (of_char c :: nat) \<le> 126"

definition at_store :: "char \<Rightarrow> at_server \<Rightarrow> at_server option" where
  "at_store ch s = do { b \<leftarrow> mem_set (in_buff s) (at_index s) ch; Some (s\<lparr>in_buff := b, at_index := Suc (at_index s)\<rparr>) }"

text \<open>The end of the function: a full buffer is thrown away.\<close>

definition at_store_end :: "char \<Rightarrow> at_server \<Rightarrow> at_server" where
  "at_store_end ch s =
     (let s = s\<lparr>prev_ch := ch\<rparr>
      in if at_index s \<ge> LN_AT_MAX_LINE_SIZE then LN_AT_RESET_PARSER_ENV (s\<lparr>prev_ch := NUL\<rparr>) else s)"

definition ln_at_preparser :: "char \<Rightarrow> at_server \<Rightarrow> at_server option" where
  "ln_at_preparser ch s =
     (if at_busy s then Some (at_write BUSY_P_CONTENT s)
      else if c_isprint ch then do {
        s \<leftarrow> at_store ch (if at_echo s then at_write [ch] s else s);
        Some (at_store_end ch s) }
      else if ch = CHR 0x1B then Some (at_write CRLF_CONTENT (LN_AT_RESET_PARSER_ENV s))
      else if ch = CHR 0x08 \<or> ch = CHR 0x7F then
        (if at_index s > 0 then do {
           b \<leftarrow> mem_set (in_buff s) (at_index s - 1) NUL;
           let s = s\<lparr>at_index := at_index s - 1, in_buff := b\<rparr>;
           Some (if at_echo s then at_write BACKSPACE_CONTENT s else s) }
         else Some s)
      else if ch = CHR 0x0D \<or> ch = CHR 0x0A then do {
        s \<leftarrow> at_store ch (if at_echo s \<and> prev_ch s \<noteq> CHR 0x0D then at_write CRLF_CONTENT s else s);
        found \<leftarrow> (if at_index s > 2 then c_strstr (in_buff s) 0 LN_AT_CMD_END_MARK else Some None);
        Some (at_store_end ch (if found \<noteq> None then s\<lparr>at_busy := True, parser_sem := min 2 (Suc (parser_sem s))\<rparr> else s)) }
      else if of_char ch \<ge> (128 :: nat) then do {
        s \<leftarrow> at_store ch (if at_echo s then at_write [ch] s else s);
        Some (at_store_end ch s) }
      else Some (at_store_end ch s))"

text \<open>The receiving task hands on what is in the serial FIFO.\<close>

fun ln_transfer_task :: "string \<Rightarrow> at_server \<Rightarrow> at_server option" where
  "ln_transfer_task [] s = Some s"
| "ln_transfer_task (ch # rxfifo) s = do { s \<leftarrow> ln_at_preparser ch s; ln_transfer_task rxfifo s }"

text \<open>One round of the other task, after its semaphore was taken; it ignores the parser's error code.\<close>

definition ln_at_parser_task :: "at_handlers \<Rightarrow> at_server \<Rightarrow> at_server option" where
  "ln_at_parser_task run s = do {
     (err, c, b) \<leftarrow> ln_at_cmd_parse (at_cmd s) (in_buff s) (at_index s);
     let s = s\<lparr>parser_sem := parser_sem s - 1, at_cmd := c, in_buff := b\<rparr>;
     let (err, rst) = ln_at_parser_get_result (at_cmd s) (Some (parser_rst s));
     rst \<leftarrow> rst;
     (err, s) \<leftarrow> ln_at_cmd_do run rst (s\<lparr>parser_rst := rst\<rparr>);
     Some ((LN_AT_RESET_PARSER_ENV s)\<lparr>at_busy := False\<rparr>)
   }"

text \<open>The tasks take turns in any order.\<close>

inductive at_step :: "at_handlers \<Rightarrow> at_server \<Rightarrow> at_server \<Rightarrow> bool" for run where
  at_receive: "ln_at_preparser ch s = Some s' \<Longrightarrow> at_step run s s'"
| at_parse: "0 < parser_sem s \<Longrightarrow> ln_at_parser_task run s = Some s' \<Longrightarrow> at_step run s s'"

inductive_cases at_stepE: "at_step run s s'"

section \<open>Start and basic commands\<close>

text \<open>What the start finds: whether the objects can be created, and what the transfer's \<^verbatim>\<open>init\<close> returns.\<close>

record at_resources =
  res_lock :: bool
  res_print_lock :: bool
  res_transfer_init :: int
  res_sem :: bool
  res_task :: bool

definition ln_at_server_init :: "at_resources \<Rightarrow> bool \<Rightarrow> (at_item list \<times> word32 list option) option \<Rightarrow> bool \<Rightarrow> at_server \<Rightarrow> ln_at_err \<times> at_server" where
  "ln_at_server_init r transfer table echo s =
     (let s = (LN_AT_RESET_PARSER_ENV s)\<lparr>at_busy := False, at_echo := False, cmd_tbl := [], cmd_hash_tbl := None\<rparr>
      in if \<not> transfer then (LN_AT_ERR_PARAM, s)
         else case table of
           None \<Rightarrow> (LN_AT_ERR_PARAM, s)
         | Some (items, hashes) \<Rightarrow>
             (let s = s\<lparr>cmd_tbl := items, cmd_hash_tbl := hashes\<rparr>
              in if \<not> res_lock r \<or> \<not> res_print_lock r then (LN_AT_ERR_SYS, s)
                 else (let s = s\<lparr>at_echo := echo\<rparr>
                       in if res_transfer_init r \<noteq> 0 then (LN_AT_ERR_COMMON, s)
                          else if \<not> res_sem r \<or> \<not> res_task r then (LN_AT_ERR_SYS, s)
                          else (LN_AT_ERR_NONE, s\<lparr>parser_sem := 0\<rparr>))))"

definition ln_at_cmd_table_create :: "bool \<Rightarrow> at_item list \<Rightarrow> at_item list \<times> word32 list option" where
  "ln_at_cmd_table_create calloc items = (items, ln_at_cmd_items_init calloc items)"

definition ln_at_init :: "at_resources \<Rightarrow> bool \<Rightarrow> at_item list \<Rightarrow> at_server \<Rightarrow> (int \<times> at_server) option" where
  "ln_at_init r calloc items s =
     (case ln_at_server_init r True (Some (ln_at_cmd_table_create calloc items)) True s of
       (err, s) \<Rightarrow> if err \<noteq> LN_AT_ERR_NONE then Some (-1, s)
         else do { s \<leftarrow> ln_at_vprintf (CRLF_CONTENT @ ''ready'' @ CRLF_CONTENT) s; Some (0, s) })"

definition basic_items :: "at_item list" where
  "basic_items =
     [\<lparr>item_name = ''AT'', item_get = False, item_set = False, item_test = False, item_exec = True\<rparr>,
      \<lparr>item_name = ''ATE0'', item_get = False, item_set = False, item_test = False, item_exec = True\<rparr>,
      \<lparr>item_name = ''ATE1'', item_get = False, item_set = False, item_test = False, item_exec = True\<rparr>,
      \<lparr>item_name = ''SELF_TEST'', item_get = False, item_set = True, item_test = False, item_exec = False\<rparr>]"

definition basic_run :: at_handlers where
  "basic_run action c buf echo = (case action of
       At_exec i \<Rightarrow> (LN_AT_ERR_NONE, LN_AT_RET_OK_STR, if i = 1 then False else if i = 2 then True else echo)
     | At_set i para_num \<Rightarrow> (LN_AT_ERR_NONE, LN_AT_RET_OK_STR, echo)
     | _ \<Rightarrow> (LN_AT_ERR_COMMON, [], echo))"

end
