(* ===== verification/At_Correct.thy ===== *)
theory At_Correct
  imports At_Parser
begin

text \<open>
  What the parser of AT lines does.  \<open>squeeze\<close> is the effect of the first loop on the text of
  the line.  A set command with a list of arguments (\<open>at_arg\<close>) is rendered by \<open>render_args\<close>; the
  lemmas lead to the theorem that the parser takes the rendered line apart again.
\<close>

section \<open>Memory\<close>

lemma mem_get_append [simp]: "mem_get (pre @ c # post) (length pre) = Some c"
  by (simp add: mem_get_def)

lemma mem_prev_append [simp]: "mem_prev ((pre @ [c]) @ post) (Suc (length pre)) = Some c"
  by (simp add: mem_prev_def mem_get_def nth_append)

lemma mem_prev_Suc: "mem_prev buf (Suc p) = mem_get buf p"
  by (simp add: mem_prev_def)

lemma mem_set_append: "mem_set (pre @ c # post) (length pre) d = Some (pre @ d # post)"
  by (simp add: mem_set_def)

lemma cstr_append: "NUL \<notin> set s \<Longrightarrow> cstr (pre @ s @ NUL # post) (length pre) = Some s"
  by (auto simp: cstr_def takeWhile_append)

section \<open>Spaces and quotes\<close>

fun squeeze :: "char \<Rightarrow> bool \<Rightarrow> string \<Rightarrow> string" where
  "squeeze prev tq [] = []"
| "squeeze prev tq (c # cs) =
     (if c = CHR '' '' \<and> \<not> tq then squeeze c tq cs
      else c # squeeze c (if c = QUOTE \<and> prev \<noteq> BACKSLASH then \<not> tq else tq) cs)"

fun quotes :: "char \<Rightarrow> string \<Rightarrow> nat" where
  "quotes prev [] = 0"
| "quotes prev (c # cs) = (if c = QUOTE \<and> prev \<noteq> BACKSLASH then 1 else 0) + quotes c cs"

lemma length_squeeze: "length (squeeze prev tq cs) \<le> length cs"
  by (induction prev tq cs rule: squeeze.induct) (auto simp: le_SucI)

text \<open>
  The loop overwrites the part of the line that it has read: \<open>gap\<close> is what lies between the
  writing and the reading position, and it ends with the character read last.
\<close>

lemma filter_loop_eq:
  assumes "length (done @ gap) = p" and "0 < p" and "last (done @ gap) = prev" and "length start_part = start"
    and "done = start_part @ written" and "length written = index"
  shows "\<exists>gap'. at_filter_loop (length cs) (done @ gap @ cs @ post) start p index tq qn =
      Some (done @ squeeze prev tq cs @ gap' @ post, index + length (squeeze prev tq cs), qn + quotes prev cs)
    \<and> length (squeeze prev tq cs) + length gap' = length gap + length cs"
  using assms
proof (induction cs arbitrary: "done" gap p prev index tq qn written)
  case Nil
  then show ?case by auto
next
  case (Cons c cs)
  have get: "mem_get (done @ gap @ (c # cs) @ post) p = Some c"
    using Cons.prems(1) mem_get_append [of "done @ gap" c "cs @ post"] by simp
  have "mem_get (done @ gap @ (c # cs) @ post) (p - 1) = Some prev"
  proof -
    have "(done @ gap @ (c # cs) @ post) ! (p - 1) = (done @ gap) ! (p - 1)"
      using Cons.prems(1,2) by (metis Suc_diff_1 append.assoc lessI nth_append)
    then show ?thesis
      using Cons.prems(1-3) by (auto simp: mem_get_def last_conv_nth)
  qed
  then have prv: "mem_prev (done @ gap @ (c # cs) @ post) p = Some prev"
    using Cons.prems(2) by (simp add: mem_prev_def)
  have idx: "start + index = length done"
    using Cons.prems(4-6) by simp
  obtain gap1 where set: "mem_set (done @ gap @ (c # cs) @ post) (length done) c = Some ((done @ [c]) @ gap1 @ cs @ post)"
    and l1: "length gap1 = length gap" and last1: "last ((done @ [c]) @ gap1) = c"
  proof (cases gap)
    case Nil
    then show ?thesis by (intro that [of "[]"]) (simp_all add: mem_set_append)
  next
    case (Cons g gs)
    then show ?thesis
      by (intro that [of "gs @ [c]"]) (simp_all add: mem_set_append)
  qed
  have step: "\<exists>gap'. at_filter_loop (length cs) ((done @ [c]) @ gap1 @ cs @ post) start (Suc p) (Suc index) tq' qn' =
      Some ((done @ [c]) @ squeeze c tq' cs @ gap' @ post, Suc index + length (squeeze c tq' cs), qn' + quotes c cs)
    \<and> length (squeeze c tq' cs) + length gap' = length gap + length cs" for tq' qn'
    using Cons.IH [of "done @ [c]" gap1 "Suc p" c "written @ [c]" "Suc index" tq' qn'] Cons.prems l1 last1 by simp
  show ?case
  proof (cases "c = CHR '' '' \<and> \<not> tq")
    case True
    have "\<exists>gap'. at_filter_loop (length cs) (done @ (gap @ [c]) @ cs @ post) start (Suc p) index tq qn =
        Some (done @ squeeze c tq cs @ gap' @ post, index + length (squeeze c tq cs), qn + quotes c cs)
      \<and> length (squeeze c tq cs) + length gap' = length (gap @ [c]) + length cs"
      using Cons.prems by (intro Cons.IH) simp_all
    with True get show ?thesis by auto
  next
    case False
    define q where "q \<longleftrightarrow> c = QUOTE \<and> prev \<noteq> BACKSLASH"
    have "at_filter_loop (length (c # cs)) (done @ gap @ (c # cs) @ post) start p index tq qn =
        at_filter_loop (length cs) ((done @ [c]) @ gap1 @ cs @ post) start (Suc p) (Suc index)
          (if q then \<not> tq else tq) (if q then Suc qn else qn)"
      using False get prv set idx by (auto simp: q_def)
    moreover from step [of "if q then \<not> tq else tq" "if q then Suc qn else qn"] obtain gap' where
      "at_filter_loop (length cs) ((done @ [c]) @ gap1 @ cs @ post) start (Suc p) (Suc index)
          (if q then \<not> tq else tq) (if q then Suc qn else qn)
        = Some ((done @ [c]) @ squeeze c (if q then \<not> tq else tq) cs @ gap' @ post,
            Suc index + length (squeeze c (if q then \<not> tq else tq) cs), (if q then Suc qn else qn) + quotes c cs)"
      "length (squeeze c (if q then \<not> tq else tq) cs) + length gap' = length gap + length cs"
      by (elim exE conjE) (rule that)
    ultimately show ?thesis
      using False by (intro exI [of _ gap']) (auto simp: q_def)
  qed
qed

text \<open>The loop from the start of the line, which is not a quote.\<close>

lemma filter_eq:
  assumes "c \<noteq> QUOTE" and "c \<noteq> CHR '' ''"
  shows "\<exists>gap. at_filter_loop (Suc (length cs)) ((c # cs) @ post) 0 0 0 False 0 =
      Some ((c # squeeze c False cs) @ gap @ post, Suc (length (squeeze c False cs)), quotes c cs)
    \<and> length (squeeze c False cs) + length gap = length cs"
proof -
  have "at_filter_loop (Suc (length cs)) ((c # cs) @ post) 0 0 0 False 0
      = at_filter_loop (length cs) ([c] @ [] @ cs @ post) 0 1 1 False 0"
    using assms by (simp add: mem_get_def mem_set_def)
  with filter_loop_eq [of "[c]" "[]" 1 c "[]" 0 "[c]" 1 cs post False 0] show ?thesis by auto
qed

section \<open>Rendering a set command\<close>

text \<open>An argument: left out, a number (sign and digits), or a string.\<close>

datatype at_arg = Arg_omit | Arg_int bool string | Arg_str string

fun escape :: "string \<Rightarrow> string" where
  "escape [] = []"
| "escape (c # cs) = (if c \<in> {QUOTE, BACKSLASH, CHR '',''} then BACKSLASH # c # escape cs else c # escape cs)"

fun render :: "at_arg \<Rightarrow> string" where
  "render Arg_omit = []"
| "render (Arg_int neg ds) = (if neg then CHR ''-'' # ds else ds)"
| "render (Arg_str s) = QUOTE # escape s @ [QUOTE]"

fun render_args :: "at_arg list \<Rightarrow> string" where
  "render_args [] = []"
| "render_args [a] = render a"
| "render_args (a # as) = render a @ CHR '','' # render_args as"

text \<open>A string must not end in a backslash: the closing quote would count as escaped.\<close>

fun arg_ok :: "at_arg \<Rightarrow> bool" where
  "arg_ok Arg_omit = True"
| "arg_ok (Arg_int neg ds) = (ds \<noteq> [] \<and> list_all at_digit ds)"
| "arg_ok (Arg_str s) = (NUL \<notin> set s \<and> CHR 0x0D \<notin> set s \<and> (s = [] \<or> last s \<noteq> BACKSLASH))"

definition set_line :: "string \<Rightarrow> at_arg list \<Rightarrow> string" where
  "set_line name args = ''AT+'' @ name @ CHR ''='' # render_args args"

definition name_ok :: "string \<Rightarrow> bool" where
  "name_ok name \<longleftrightarrow> {NUL, CHR 0x0D, CHR '' '', QUOTE, BACKSLASH, CHR ''=''} \<inter> set name = {}"

lemma at_digit_neq:
  assumes "at_digit c"
  shows "c \<noteq> QUOTE" "c \<noteq> CHR '' ''" "c \<noteq> BACKSLASH" "c \<noteq> NUL" "c \<noteq> CHR ''-''" "c \<noteq> CHR ''+''" "c \<noteq> CHR '',''"
    "c \<noteq> CHR 0x0D" "c \<noteq> CHR ''?''"
  using assms by (auto simp: at_digit_def)

lemma not_digit [simp]: "\<not> at_digit QUOTE" "\<not> at_digit (CHR '','')" "\<not> at_digit (CHR ''-'')" "\<not> at_digit NUL"
  "\<not> at_digit (CHR ''='')" "\<not> at_digit BACKSLASH" "\<not> at_digit (CHR 0x0D)" "\<not> at_digit (CHR ''?'')"
  by (simp_all add: at_digit_def)

lemma digit_not_space: "at_digit c \<Longrightarrow> \<not> c_space c"
  by (auto simp: at_digit_def)

lemma last_escape: "s \<noteq> [] \<Longrightarrow> last (escape s) = last s \<and> escape s \<noteq> []"
  by (induction s) auto

lemma set_escape: "set (escape s) \<subseteq> insert BACKSLASH (set s)"
  by (induction s) auto

section \<open>Nothing is squeezed out of a rendered line\<close>

lemma squeeze_plain:
  assumes "QUOTE \<notin> set xs" and "CHR '' '' \<notin> set xs"
  shows "squeeze prev False (xs @ ys) = xs @ squeeze (last (prev # xs)) False ys"
    and "quotes prev (xs @ ys) = quotes (last (prev # xs)) ys"
  using assms by (induction xs arbitrary: prev) auto

lemma squeeze_escape:
  "squeeze prev True (escape s @ ys) = escape s @ squeeze (last (prev # escape s)) True ys"
  "quotes prev (escape s @ ys) = quotes (last (prev # escape s)) ys"
  by (induction s arbitrary: prev) auto

lemma squeeze_render:
  assumes "arg_ok a" and "prev \<noteq> BACKSLASH"
  shows "squeeze prev False (render a @ ys) = render a @ squeeze (last (prev # render a)) False ys"
    and "even (quotes prev (render a @ ys)) = even (quotes (last (prev # render a)) ys)"
    and "last (prev # render a) \<noteq> BACKSLASH"
proof -
  have *: "squeeze prev False (render a @ ys) = render a @ squeeze (last (prev # render a)) False ys
    \<and> even (quotes prev (render a @ ys)) = even (quotes (last (prev # render a)) ys)
    \<and> last (prev # render a) \<noteq> BACKSLASH"
  proof (cases a)
    case (Arg_int neg ds)
    then have "QUOTE \<notin> set (render a)" "CHR '' '' \<notin> set (render a)" "BACKSLASH \<notin> set (render a)"
      using assms(1) by (auto simp: list_all_iff dest: at_digit_neq)
    moreover from this(3) have "last (prev # render a) \<noteq> BACKSLASH"
      using assms(2) by (metis last_in_set last_ConsL last_ConsR)
    ultimately show ?thesis by (simp add: squeeze_plain)
  next
    case (Arg_str s)
    then have "last (QUOTE # escape s) \<noteq> BACKSLASH"
      using assms(1) last_escape [of s] by (cases "s = []") auto
    with Arg_str assms(2) show ?thesis by (simp add: squeeze_escape)
  qed (use assms in simp)
  then show "squeeze prev False (render a @ ys) = render a @ squeeze (last (prev # render a)) False ys"
    and "even (quotes prev (render a @ ys)) = even (quotes (last (prev # render a)) ys)"
    and "last (prev # render a) \<noteq> BACKSLASH" by simp_all
qed

lemma squeeze_args:
  assumes "list_all arg_ok args" and "prev \<noteq> BACKSLASH"
  shows "squeeze prev False (render_args args) = render_args args \<and> even (quotes prev (render_args args))"
  using assms
proof (induction args arbitrary: prev rule: render_args.induct)
  case (2 a)
  then show ?case using squeeze_render(1,2) [of a prev "[]"] by simp
next
  case (3 a b as)
  then show ?case using squeeze_render(1,2) [of a prev "CHR '','' # render_args (b # as)"] squeeze_render(3) [of a prev] by simp
qed simp

section \<open>Scanning the arguments\<close>

text \<open>What the scan records for an argument at \<open>p\<close>.\<close>

fun placed :: "at_arg \<Rightarrow> nat \<Rightarrow> at_para \<Rightarrow> at_para" where
  "placed Arg_omit p q = q\<lparr>para_type := LN_AT_PARA_TYPE_OMIT\<rparr>"
| "placed (Arg_int neg ds) p q = q\<lparr>para_type := LN_AT_PARA_TYPE_INIT, para_start_pos := Some p,
     para_end_pos := Some (p + length (render (Arg_int neg ds)))\<rparr>"
| "placed (Arg_str s) p q = q\<lparr>para_type := LN_AT_PARA_TYPE_STR, para_start_pos := Some (Suc p),
     para_end_pos := Some (Suc p + length (escape s))\<rparr>"

lemma mem_prev_last: "pre \<noteq> [] \<Longrightarrow> mem_prev (pre @ post) (length pre) = Some (last pre)"
  by (cases pre rule: rev_cases) (simp_all add: mem_prev_append [simplified])

lemma scan_escape:
  assumes "true_quotation sc" and "total_para_num at_cmd \<le> LN_AT_MAX_PARA_NUM"
  shows "at_para_loop (length (escape s) + n) (pre @ escape s @ post) (length pre) sc at_cmd
    = at_para_loop n (pre @ escape s @ post) (length pre + length (escape s)) sc at_cmd"
proof (induction s arbitrary: pre)
  case (Cons c s)
  have mid: "mem_get (pre @ BACKSLASH # c # rest) (Suc (length pre)) = Some c" for rest
    using mem_get_append [of "pre @ [BACKSLASH]" c rest] by simp
  have prev: "mem_prev (pre @ BACKSLASH # c # rest) (Suc (length pre)) = Some BACKSLASH" for rest
    by (simp add: mem_prev_def)
  show ?case
    using assms Cons.IH [of "pre @ [BACKSLASH, c]"] Cons.IH [of "pre @ [c]"] mid prev
    by (auto simp: at_para_step_def)
qed simp

lemma scan_digits:
  assumes "\<not> true_quotation sc" and "is_int_param sc" and "list_all at_digit ds"
    and "total_para_num at_cmd \<le> LN_AT_MAX_PARA_NUM"
  shows "at_para_loop (length ds + n) (pre @ ds @ post) (length pre) sc at_cmd
    = at_para_loop n (pre @ ds @ post) (length pre + length ds) sc at_cmd"
  using assms(3)
proof (induction ds arbitrary: pre)
  case (Cons c ds)
  then show ?case
    using assms Cons.IH [of "pre @ [c]"] at_digit_neq [of c] by (simp add: at_para_step_def)
qed simp

definition scan0 :: "nat \<Rightarrow> at_scan" where
  "scan0 q = \<lparr>true_quotation = False, quotation_num = q, is_int_param = False, is_negative_number = False\<rparr>"

lemma para_upd_simps [simp]:
  "para_upd (para_upd at_cmd f) g = para_upd at_cmd (\<lambda>q. g (f q))"
  "total_para_num (para_upd at_cmd f) = total_para_num at_cmd"
  by (cases "total_para_num at_cmd - 1 < length (para at_cmd)") (simp_all add: para_upd_def list_update_beyond)

lemma placed_fun:
  "placed Arg_omit p = (\<lambda>q. q\<lparr>para_type := LN_AT_PARA_TYPE_OMIT\<rparr>)"
  "placed (Arg_int neg ds) p = (\<lambda>q. q\<lparr>para_start_pos := Some p, para_type := LN_AT_PARA_TYPE_INIT,
     para_end_pos := Some (p + length (render (Arg_int neg ds)))\<rparr>)"
  "placed (Arg_str s) p = (\<lambda>q. q\<lparr>para_start_pos := Some (Suc p), para_type := LN_AT_PARA_TYPE_STR,
     para_end_pos := Some (Suc p + length (escape s))\<rparr>)"
  by (simp_all add: fun_eq_iff)

lemma para_loop_step:
  assumes "total_para_num at_cmd \<le> LN_AT_MAX_PARA_NUM" and "mem_get buf p = Some ch"
    and "at_para_step buf p ch sc at_cmd = Some (Inr (sc', at'))"
  shows "at_para_loop (Suc n) buf p sc at_cmd = at_para_loop n buf (Suc p) sc' at'"
  using assms by simp

text \<open>One argument and the comma or terminator behind it.\<close>

lemma scan_end:
  assumes "d = CHR '','' \<or> d = NUL" and "xs \<noteq> []" and "last xs = QUOTE \<or> at_digit (last xs)"
    and "total_para_num at_cmd \<le> LN_AT_MAX_PARA_NUM"
  shows "at_para_loop (Suc n) (xs @ d # post) (length xs) \<lparr>true_quotation = False, quotation_num = q,
      is_int_param = i, is_negative_number = (i \<and> m)\<rparr> at_cmd
    = at_para_loop n (xs @ d # post) (Suc (length xs)) (scan0 q)
        ((if i then para_upd at_cmd (\<lambda>q. q\<lparr>para_end_pos := Some (length xs)\<rparr>) else at_cmd)
           \<lparr>total_para_num := Suc (total_para_num at_cmd)\<rparr>)"
  using assms mem_prev_last [of xs "d # post"] by (auto simp: at_para_step_def scan0_def)

lemma scan_str:
  assumes "arg_ok (Arg_str s)" and pre: "pre \<noteq> []" "last pre \<noteq> BACKSLASH" and d: "d = CHR '','' \<or> d = NUL"
    and "even q" and tot: "total_para_num at_cmd \<le> LN_AT_MAX_PARA_NUM"
  shows "at_para_loop (length (render (Arg_str s)) + Suc n) (pre @ render (Arg_str s) @ d # post) (length pre) (scan0 q) at_cmd
    = at_para_loop n (pre @ render (Arg_str s) @ d # post) (length pre + length (render (Arg_str s)) + 1) (scan0 (Suc (Suc q)))
        ((para_upd at_cmd (placed (Arg_str s) (length pre)))\<lparr>total_para_num := Suc (total_para_num at_cmd)\<rparr>)"
    (is "?l = ?r")
proof -
  define buf where "buf = pre @ render (Arg_str s) @ d # post"
  define e where "e = length (escape s)"
  define sc1 where "sc1 = (scan0 q)\<lparr>true_quotation := True, quotation_num := Suc q\<rparr>"
  define at1 where "at1 = para_upd at_cmd (\<lambda>q. q\<lparr>para_start_pos := Some (Suc (length pre)), para_type := LN_AT_PARA_TYPE_STR\<rparr>)"
  have "last (QUOTE # escape s) \<noteq> BACKSLASH"
    using assms(1) last_escape [of s] by (cases "s = []") auto
  moreover have "mem_prev buf (Suc (length pre + e)) = Some (last (QUOTE # escape s))"
    using mem_prev_last [of "pre @ QUOTE # escape s" "QUOTE # d # post"] by (simp add: buf_def e_def)
  moreover have "mem_get buf (Suc (length pre + e)) = Some QUOTE"
    using mem_get_append [of "pre @ QUOTE # escape s" QUOTE "d # post"] by (simp add: buf_def e_def)
  ultimately have close: "at_para_loop (Suc (Suc n)) buf (Suc (length pre + e)) sc1 at1
      = at_para_loop (Suc n) buf (Suc (Suc (length pre + e))) (scan0 (Suc (Suc q)))
          (para_upd at1 (\<lambda>q. q\<lparr>para_end_pos := Some (Suc (length pre + e))\<rparr>))"
    using \<open>even q\<close> tot by (simp add: at_para_step_def sc1_def at1_def scan0_def)
  have "?l = at_para_loop (e + Suc (Suc n)) buf (Suc (length pre)) sc1 at1"
    using pre tot \<open>even q\<close> mem_prev_last [of pre "QUOTE # escape s @ QUOTE # d # post"]
    by (simp add: at_para_step_def sc1_def at1_def buf_def e_def scan0_def)
  also have "\<dots> = at_para_loop (Suc (Suc n)) buf (Suc (length pre + e)) sc1 at1"
    using scan_escape [of sc1 at1 s "Suc (Suc n)" "pre @ [QUOTE]" "QUOTE # d # post"] tot
    by (simp add: sc1_def at1_def buf_def e_def)
  also note close
  also have "at_para_loop (Suc n) buf (Suc (Suc (length pre + e))) (scan0 (Suc (Suc q)))
          (para_upd at1 (\<lambda>q. q\<lparr>para_end_pos := Some (Suc (length pre + e))\<rparr>)) = ?r"
    using scan_end [OF d, of "pre @ render (Arg_str s)" _ n post "Suc (Suc q)" False False] tot
    by (simp add: buf_def e_def at1_def scan0_def placed_fun)
  finally show ?thesis .
qed

lemma scan_int:
  assumes "arg_ok (Arg_int neg ds)" and d: "d = CHR '','' \<or> d = NUL"
    and tot: "total_para_num at_cmd \<le> LN_AT_MAX_PARA_NUM"
  shows "at_para_loop (length (render (Arg_int neg ds)) + Suc n) (pre @ render (Arg_int neg ds) @ d # post) (length pre) (scan0 q) at_cmd
    = at_para_loop n (pre @ render (Arg_int neg ds) @ d # post) (length pre + length (render (Arg_int neg ds)) + 1) (scan0 q)
        ((para_upd at_cmd (placed (Arg_int neg ds) (length pre)))\<lparr>total_para_num := Suc (total_para_num at_cmd)\<rparr>)"
    (is "?l = ?r")
proof -
  obtain c cs where ds: "ds = c # cs" "at_digit c" "list_all at_digit cs"
    using assms(1) by (cases ds) auto
  define buf where "buf = pre @ render (Arg_int neg ds) @ d # post"
  define k where "k = length pre + (if neg then 1 else 0)"
  define sc1 where "sc1 = (scan0 q)\<lparr>is_int_param := True, is_negative_number := neg\<rparr>"
  define at1 where "at1 = para_upd at_cmd (\<lambda>q. q\<lparr>para_start_pos := Some (length pre), para_type := LN_AT_PARA_TYPE_INIT\<rparr>)"
  have get: "mem_get buf k = Some c"
    using mem_get_append [of "pre @ (if neg then ''-'' else [])" c "cs @ d # post"] by (auto simp: buf_def k_def ds)
  have "?l = at_para_loop (Suc (length cs + Suc n)) buf k ((scan0 q)\<lparr>is_negative_number := neg\<rparr>) at_cmd"
    using tot ds by (cases neg) (simp_all add: at_para_step_def buf_def k_def scan0_def)
  also have "\<dots> = at_para_loop (length cs + Suc n) buf (Suc k) sc1 at1"
  proof (rule para_loop_step [OF tot get])
    show "at_para_step buf k c ((scan0 q)\<lparr>is_negative_number := neg\<rparr>) at_cmd = Some (Inr (sc1, at1))"
      using ds at_digit_neq [of c] by (cases neg) (simp_all add: at_para_step_def k_def scan0_def sc1_def at1_def)
  qed
  also have "\<dots> = at_para_loop (Suc n) buf (Suc k + length cs) sc1 at1"
    using scan_digits [of sc1 cs at1 "Suc n" "pre @ (if neg then ''-'' else []) @ [c]" "d # post"] tot ds
    by (auto simp: sc1_def at1_def buf_def k_def scan0_def)
  also have "\<dots> = ?r"
  proof -
    have "last (pre @ render (Arg_int neg ds)) = last ds"
      using ds by auto
    moreover have "at_digit (last ds)"
      using assms(1) by (auto simp: list_all_iff)
    ultimately show ?thesis
      using scan_end [OF d, of "pre @ render (Arg_int neg ds)" at1 n post q True neg] tot ds
      by (auto simp: buf_def k_def at1_def scan0_def sc1_def placed_fun)
  qed
  finally show ?thesis .
qed

lemma scan_omit:
  assumes "d = CHR '','' \<or> d = NUL" and "pre \<noteq> []" and "last pre \<noteq> QUOTE" and "\<not> at_digit (last pre)"
    and "total_para_num at_cmd \<le> LN_AT_MAX_PARA_NUM"
  shows "at_para_loop (Suc n) (pre @ d # post) (length pre) (scan0 q) at_cmd
    = at_para_loop n (pre @ d # post) (Suc (length pre)) (scan0 q)
        ((para_upd at_cmd (placed Arg_omit (length pre)))\<lparr>total_para_num := Suc (total_para_num at_cmd)\<rparr>)"
  using assms mem_prev_last [of pre "d # post"] by (auto simp: at_para_step_def scan0_def placed_fun)

lemma scan_arg:
  assumes "arg_ok a" and "d = CHR '','' \<or> d = NUL" and "pre \<noteq> []" and "last pre \<in> {CHR ''='', CHR '',''}"
    and "even q" and "total_para_num at_cmd \<le> LN_AT_MAX_PARA_NUM"
  shows "\<exists>q'. even q' \<and> at_para_loop (length (render a) + Suc n) (pre @ render a @ d # post) (length pre) (scan0 q) at_cmd
    = at_para_loop n (pre @ render a @ d # post) (length pre + length (render a) + 1) (scan0 q')
        ((para_upd at_cmd (placed a (length pre)))\<lparr>total_para_num := Suc (total_para_num at_cmd)\<rparr>)"
proof (cases a)
  case Arg_omit
  then show ?thesis
    using assms scan_omit [of d pre at_cmd n post q] by (intro exI [of _ q]) auto
next
  case (Arg_int neg ds)
  then show ?thesis
    using assms scan_int [of neg ds d at_cmd n pre post q] by (intro exI [of _ q]) simp
next
  case (Arg_str s)
  then show ?thesis
    using assms scan_str [of s pre d q at_cmd n post] by (intro exI [of _ "Suc (Suc q)"]) auto
qed

fun place_all :: "at_arg list \<Rightarrow> nat \<Rightarrow> at_para list \<Rightarrow> at_para list" where
  "place_all (a # as) p (q # qs) = placed a p q # place_all as (Suc (p + length (render a))) qs"
| "place_all _ p qs = qs"

lemma length_place_all [simp]: "length (place_all as p qs) = length qs"
  by (induction as p qs rule: place_all.induct) simp_all

lemma para_upd_at:
  assumes "para at_cmd = ds @ q # qs" and "total_para_num at_cmd = Suc (length ds)"
  shows "para_upd at_cmd f = at_cmd\<lparr>para := ds @ f q # qs\<rparr>"
  using assms by (simp add: para_upd_def)

declare at_para_loop.simps(2) [simp del]

lemma scan_args:
  assumes "as \<noteq> []" and "list_all arg_ok as" and "para at_cmd = ds @ rest" and "total_para_num at_cmd = Suc (length ds)"
    and "length as \<le> length rest" and "length ds + length rest \<le> LN_AT_MAX_PARA_NUM"
    and "pre \<noteq> []" and "last pre \<in> {CHR ''='', CHR '',''}" and "even q"
  shows "at_para_loop (Suc (length (render_args as))) (pre @ render_args as @ NUL # post) (length pre) (scan0 q) at_cmd
    = Some (LN_AT_PSR_ERR_NONE, at_cmd\<lparr>total_para_num := total_para_num at_cmd + length as,
        para := ds @ place_all as (length pre) rest\<rparr>)"
  using assms
proof (induction as arbitrary: at_cmd ds rest pre q rule: render_args.induct)
  case (2 a)
  then obtain r rs where rest: "rest = r # rs"
    by (cases rest) auto
  with 2 show ?case
    using scan_arg [of a NUL pre q at_cmd 0 post] para_upd_at [of at_cmd ds r rs "placed a (length pre)"] by auto
next
  case (3 a b as)
  then obtain r rs where rest: "rest = r # rs"
    by (cases rest) auto
  let ?pre = "pre @ render a @ '',''"
  let ?buf = "pre @ render a @ CHR '','' # render_args (b # as) @ NUL # post"
  let ?at = "at_cmd\<lparr>para := ds @ placed a (length pre) r # rs, total_para_num := Suc (total_para_num at_cmd)\<rparr>"
  obtain q' where q': "even q'"
    and step: "at_para_loop (length (render a) + Suc (Suc (length (render_args (b # as))))) ?buf (length pre) (scan0 q) at_cmd
      = at_para_loop (Suc (length (render_args (b # as)))) ?buf (length pre + length (render a) + 1) (scan0 q') ?at"
    using 3 rest scan_arg [of a "CHR '',''" pre q at_cmd "Suc (length (render_args (b # as)))" "render_args (b # as) @ NUL # post"]
      para_upd_at [of at_cmd ds r rs "placed a (length pre)"] by auto
  have "at_para_loop (Suc (length (render_args (b # as)))) (?pre @ render_args (b # as) @ NUL # post) (length ?pre) (scan0 q') ?at
    = Some (LN_AT_PSR_ERR_NONE, ?at\<lparr>total_para_num := total_para_num ?at + length (b # as),
        para := (ds @ [placed a (length pre) r]) @ place_all (b # as) (length ?pre) rs\<rparr>)"
    using 3(3-) rest q' by (intro 3(1)) simp_all
  with step rest show ?case by simp
qed simp

section \<open>Removing the escapes\<close>

lemma unescape_loop_eq:
  assumes "length (escape s) \<le> n"
  shows "\<exists>gap'. at_unescape_loop n (pre @ out @ gap @ escape s @ post) (length pre) (length out)
      (length pre + length out + length gap) (length pre + length out + length gap + length (escape s))
    = Some (LN_AT_PSR_ERR_NONE, pre @ out @ s @ gap' @ post, length out + length s)
    \<and> length s + length gap' = length gap + length (escape s)"
  using assms
proof (induction s arbitrary: n out gap)
  case Nil
  then show ?case by (cases n) auto
next
  case (Cons c s)
  then obtain m where n: "n = Suc m"
    by (cases n) (auto split: if_splits)
  define esc where "esc \<longleftrightarrow> c \<in> {QUOTE, BACKSLASH, CHR '',''}"
  define g where "g = (if esc then gap @ [BACKSLASH] else gap)"
  define buf where "buf = pre @ out @ gap @ escape (c # s) @ post"
  have buf: "buf = pre @ out @ g @ c # escape s @ post"
    by (simp add: buf_def g_def esc_def)
  have get: "mem_get buf (length pre + length out + length g) = Some c"
    using mem_get_append [of "pre @ out @ g" c "escape s @ post"] by (simp add: buf add.assoc)
  have get0: "esc \<Longrightarrow> mem_get buf (length pre + length out + length gap) = Some BACKSLASH"
    using mem_get_append [of "pre @ out @ gap" BACKSLASH "c # escape s @ post"] by (simp add: buf_def esc_def add.assoc)
  define g' where "g' = tl (g @ [c])"
  have len: "length g' = length g"
    by (simp add: g'_def)
  have set: "mem_set buf (length pre + length out) c = Some (pre @ (out @ [c]) @ g' @ escape s @ post)"
    using mem_set_append [of "pre @ out" _ _ c] by (cases g) (simp_all add: buf g'_def)
  have ih: "\<exists>gap'. at_unescape_loop m (pre @ (out @ [c]) @ g' @ escape s @ post) (length pre) (length (out @ [c]))
      (length pre + length (out @ [c]) + length g') (length pre + length (out @ [c]) + length g' + length (escape s))
    = Some (LN_AT_PSR_ERR_NONE, pre @ (out @ [c]) @ s @ gap' @ post, length (out @ [c]) + length s)
    \<and> length s + length gap' = length g' + length (escape s)"
    using Cons.prems n by (intro Cons.IH) (auto split: if_splits)
  have step: "at_unescape_loop n buf (length pre) (length out) (length pre + length out + length gap)
      (length pre + length out + length gap + length (escape (c # s)))
    = at_unescape_loop m (pre @ (out @ [c]) @ g' @ escape s @ post) (length pre) (length (out @ [c]))
      (length pre + length (out @ [c]) + length g') (length pre + length (out @ [c]) + length g' + length (escape s))"
    using get get0 set n len by (cases esc) (auto simp: g_def esc_def)
  from ih step len show ?case
    by (auto simp: buf_def g_def esc_def split: if_splits)
qed

text \<open>\<open>holds buf q a\<close>: the descriptor \<open>q\<close> and the buffer give the argument \<open>a\<close>.\<close>

fun holds :: "string \<Rightarrow> at_para \<Rightarrow> at_arg \<Rightarrow> bool" where
  "holds buf q Arg_omit \<longleftrightarrow> para_type q = LN_AT_PARA_TYPE_OMIT"
| "holds buf q (Arg_int neg ds) \<longleftrightarrow> para_type q = LN_AT_PARA_TYPE_INIT \<and>
     (\<exists>p. para_start_pos q = Some p \<and> cstr buf p = Some (render (Arg_int neg ds)))"
| "holds buf q (Arg_str s) \<longleftrightarrow> para_type q = LN_AT_PARA_TYPE_STR \<and>
     (\<exists>p. para_start_pos q = Some p \<and> cstr buf p = Some s)"

lemma unescape_arg:
  assumes "arg_ok a"
  shows "\<exists>r. length r = Suc (length (render a))
    \<and> at_unescape (pre @ render a @ d # post) (placed a (length pre) q) = Some (LN_AT_PSR_ERR_NONE, pre @ r @ post)
    \<and> (\<forall>pre' post'. length pre' = length pre \<longrightarrow> holds (pre' @ r @ post') (placed a (length pre) q) a)"
proof (cases a)
  case Arg_omit
  then show ?thesis by (intro exI [of _ "[d]"]) (simp add: at_unescape_def)
next
  case (Arg_int neg ds)
  have nul: "NUL \<notin> set (render a)"
    using assms Arg_int by (auto simp: list_all_iff dest: at_digit_neq)
  have "mem_set (pre @ render a @ d # post) (length pre + length (render a)) NUL = Some (pre @ (render a @ [NUL]) @ post)"
    using mem_set_append [of "pre @ render a" d post NUL] by simp
  moreover have "holds (pre' @ (render a @ [NUL]) @ post') (placed a (length pre) q) a" if "length pre' = length pre" for pre' post'
    using cstr_append [OF nul, of pre' post'] that Arg_int by simp
  ultimately show ?thesis
    using Arg_int by (intro exI [of _ "render a @ [NUL]"]) (simp add: at_unescape_def)
next
  case (Arg_str s)
  obtain gap' where u: "at_unescape_loop (length (escape s)) (pre @ QUOTE # escape s @ QUOTE # d # post) (Suc (length pre)) 0
      (Suc (length pre)) (Suc (length pre) + length (escape s))
    = Some (LN_AT_PSR_ERR_NONE, pre @ QUOTE # s @ gap' @ QUOTE # d # post, length s)"
    and l: "length s + length gap' = length (escape s)"
    using unescape_loop_eq [of s "length (escape s)" "pre @ [QUOTE]" "[]" "[]" "QUOTE # d # post"] by auto
  define r where "r = QUOTE # s @ NUL # tl (gap' @ [QUOTE, d])"
  have "mem_set (pre @ QUOTE # s @ gap' @ QUOTE # d # post) (Suc (length pre) + length s) NUL = Some (pre @ r @ post)"
    using mem_set_append [of "pre @ QUOTE # s" _ _ NUL] by (cases gap') (simp_all add: r_def)
  moreover have "holds (pre' @ r @ post') (placed a (length pre) q) a" if "length pre' = length pre" for pre' post'
    using cstr_append [of s "pre' @ [QUOTE]" "tl (gap' @ [QUOTE, d]) @ post'"] that Arg_str assms by (simp add: r_def)
  moreover have "length r = Suc (length (render a))"
    using l Arg_str by (simp add: r_def)
  ultimately show ?thesis
    using Arg_str u by (intro exI [of _ r]) (simp add: at_unescape_def)
qed

lemma unescape_args:
  assumes "list_all arg_ok as" and "length as \<le> length rest"
  shows "\<exists>r. length r = Suc (length (render_args as))
    \<and> at_unescape_all (pre @ render_args as @ NUL # post) (take (length as) (place_all as (length pre) rest))
        = Some (LN_AT_PSR_ERR_NONE, pre @ r @ post)
    \<and> (\<forall>pre'. length pre' = length pre \<longrightarrow>
        list_all2 (holds (pre' @ r @ post)) (take (length as) (place_all as (length pre) rest)) as)"
  using assms
proof (induction as arbitrary: pre rest rule: render_args.induct)
  case 1
  then show ?case by (intro exI [of _ "[NUL]"]) simp
next
  case (2 a)
  then obtain q qs where rest: "rest = q # qs" by (cases rest) auto
  with 2 unescape_arg [of a pre NUL post q] show ?case by auto
next
  case (3 a b as)
  then obtain q qs where rest: "rest = q # qs" by (cases rest) auto
  obtain r1 where r1: "length r1 = Suc (length (render a))"
    "at_unescape (pre @ render a @ CHR '','' # render_args (b # as) @ NUL # post) (placed a (length pre) q)
      = Some (LN_AT_PSR_ERR_NONE, pre @ r1 @ render_args (b # as) @ NUL # post)"
    "\<And>pre' post'. length pre' = length pre \<Longrightarrow> holds (pre' @ r1 @ post') (placed a (length pre) q) a"
    using unescape_arg [of a pre "CHR '',''" "render_args (b # as) @ NUL # post" q] 3(2) by auto
  obtain r2 where r2: "length r2 = Suc (length (render_args (b # as)))"
    "at_unescape_all ((pre @ r1) @ render_args (b # as) @ NUL # post)
        (take (length (b # as)) (place_all (b # as) (length (pre @ r1)) qs)) = Some (LN_AT_PSR_ERR_NONE, (pre @ r1) @ r2 @ post)"
    "\<And>pre'. length pre' = length (pre @ r1) \<Longrightarrow> list_all2 (holds (pre' @ r2 @ post))
        (take (length (b # as)) (place_all (b # as) (length (pre @ r1)) qs)) (b # as)"
    using 3(1) [of qs "pre @ r1"] 3(2,3) rest by auto
  have "list_all2 (holds (pre' @ (r1 @ r2) @ post))
      (take (length (a # b # as)) (place_all (a # b # as) (length pre) rest)) (a # b # as)" if "length pre' = length pre" for pre'
    using r1(3) [OF that, of "r2 @ post"] r2(3) [of "pre' @ r1"] that r1(1) rest by simp
  with r1(1,2) r2(1,2) rest show ?case
    by (intro exI [of _ "r1 @ r2"]) simp
qed

section \<open>The whole line\<close>

text \<open>What the access functions give for argument \<open>i\<close>, counted from 1.\<close>

fun gives :: "at_parser \<Rightarrow> string \<Rightarrow> nat \<Rightarrow> at_arg \<Rightarrow> bool" where
  "gives c buf i Arg_omit \<longleftrightarrow> ln_at_parser_get_str_param c i = (LN_AT_PSR_ERR_NONE, True, None)
     \<and> ln_at_parser_get_int_param c buf i = Some (LN_AT_PSR_ERR_NONE, True, 0)"
| "gives c buf i (Arg_int neg ds) \<longleftrightarrow> ln_at_parser_get_str_param c i = (LN_AT_PSR_ERR_COMMON, False, None)
     \<and> ln_at_parser_get_int_param c buf i
         = Some (LN_AT_PSR_ERR_NONE, False, if neg then - int (dec_val 0 ds) else int (dec_val 0 ds))"
| "gives c buf i (Arg_str s) \<longleftrightarrow> (\<exists>p. ln_at_parser_get_str_param c i = (LN_AT_PSR_ERR_NONE, False, Some p) \<and> cstr buf p = Some s)
     \<and> ln_at_parser_get_int_param c buf i = Some (LN_AT_PSR_ERR_COMMON, False, 0)"

lemma c_atoi_render:
  assumes "arg_ok (Arg_int neg ds)"
  shows "c_atoi (render (Arg_int neg ds)) = (if neg then - int (dec_val 0 ds) else int (dec_val 0 ds))"
proof -
  obtain c cs where "ds = c # cs" "at_digit c"
    using assms by (cases ds) auto
  then show ?thesis
    using at_digit_neq [of c] digit_not_space [of c]
    by (simp add: c_atoi_def digit_not_space del: c_space.simps dec_val.simps) (simp add: at_digit_def)
qed

lemma holds_gives:
  assumes "holds buf (para c ! i) a" and "arg_ok a" and "i < LN_AT_MAX_PARA_NUM"
  shows "gives c buf (Suc i) a"
proof (cases a)
  case (Arg_int neg ds)
  then show ?thesis
    using assms c_atoi_render [of neg ds]
    by (auto simp: ln_at_parser_get_str_param_def ln_at_parser_get_int_param_def simp del: render.simps)
qed (use assms in \<open>auto simp: ln_at_parser_get_str_param_def ln_at_parser_get_int_param_def\<close>)

lemma find_sub_first: "d \<notin> set xs \<Longrightarrow> find_sub (xs @ d # ds @ ys) (d # ds) i = Some (i + length xs)"
  by (induction xs arbitrary: i) auto

lemma set_render:
  assumes "arg_ok a"
  shows "NUL \<notin> set (render a) \<and> CHR 0x0D \<notin> set (render a)"
proof (cases a)
  case (Arg_str s)
  then show ?thesis using assms set_escape [of s] by auto
qed (use assms in \<open>auto simp: list_all_iff\<close>)

lemma set_render_args: "list_all arg_ok as \<Longrightarrow> NUL \<notin> set (render_args as) \<and> CHR 0x0D \<notin> set (render_args as)"
  by (induction as rule: render_args.induct) (simp_all add: set_render del: render.simps)

lemma last_render:
  assumes "arg_ok a" and "c \<noteq> CHR ''?''"
  shows "last (c # render a) \<noteq> CHR ''?''"
proof (cases a)
  case (Arg_int neg ds)
  then have "last (c # render a) = last ds" "at_digit (last ds)"
    using assms by (auto simp: list_all_iff)
  then show ?thesis by auto
qed (use assms in simp_all)

lemma last_render_args:
  assumes "list_all arg_ok as" and "c \<noteq> CHR ''?''"
  shows "last (c # render_args as) \<noteq> CHR ''?''"
  using assms
proof (induction as arbitrary: c rule: render_args.induct)
  case (2 a)
  then show ?case using last_render [of a c] by simp
next
  case (3 a b as)
  then show ?case using 3(1) [of "CHR '',''"] by simp
qed simp

lemma set_line_filter:
  assumes "name_ok name" and "list_all arg_ok as"
  shows "\<exists>k. even k \<and> at_filter_loop (length (set_line name as)) (set_line name as @ post) 0 0 0 False 0
    = Some (set_line name as @ post, length (set_line name as), k)"
proof -
  define cs where "cs = ''T+'' @ name @ CHR ''='' # render_args as"
  have plain: "QUOTE \<notin> set (''T+'' @ name @ ''='')" "CHR '' '' \<notin> set (''T+'' @ name @ ''='')"
    using assms(1) by (auto simp: name_ok_def)
  have "squeeze (CHR ''A'') False cs = cs \<and> even (quotes (CHR ''A'') cs)"
    using squeeze_plain [OF plain, of "CHR ''A''" "render_args as"] squeeze_args [OF assms(2), of "CHR ''=''"]
    by (simp add: cs_def)
  moreover have "set_line name as = CHR ''A'' # cs"
    by (simp add: set_line_def cs_def)
  ultimately show ?thesis
    using filter_eq [of "CHR ''A''" cs post] by auto
qed

lemma set_line_name:
  assumes "name_ok name" and "list_all arg_ok as"
  shows "at_name_parse at_parser_zero (set_line name as @ NUL # post) 0 (length (set_line name as))
    = Some (at_parser_zero\<lparr>cmd_type_flag := LN_AT_CMD_MARK_SET, name_start_pos := Some 2, name_end_pos := Some (3 + length name)\<rparr>)"
proof -
  let ?line = "set_line name as"
  have str: "cstr (?line @ NUL # post) 0 = Some ?line"
    using cstr_append [of ?line "[]" post] assms set_render_args [of as] by (auto simp: set_line_def name_ok_def)
  have "find_sub ?line ''='' 0 = Some (3 + length name)"
    using find_sub_first [of "CHR ''=''" "''AT+'' @ name" "[]" "render_args as" 0] assms(1)
    by (simp add: set_line_def name_ok_def)
  then have eq: "c_strstr (?line @ NUL # post) 0 ''='' = Some (Some (3 + length name))"
    by (simp add: c_strstr_def str)
  have len: "length ?line = 4 + length name + length (render_args as)"
    by (simp add: set_line_def)
  have last: "(?line @ NUL # post) ! (length ?line - Suc 0) \<noteq> CHR ''?''"
  proof -
    have "?line \<noteq> []" by (simp add: set_line_def)
    then have "(?line @ NUL # post) ! (length ?line - Suc 0) = last ?line"
      by (simp add: nth_append last_conv_nth)
    also have "last ?line = last (CHR ''='' # render_args as)"
      by (simp add: set_line_def)
    finally show ?thesis
      using last_render_args [OF assms(2), of "CHR ''=''"] by simp
  qed
  show ?thesis
    using eq last len
    by (simp add: at_name_parse_def c_strlen_def str mem_get_def Let_def at_parser_zero_def LN_AT_CMD_MARK_SET_def
        LN_AT_CMD_MARK_PLUS_def LN_AT_CMD_MARK_EQUAL_def) (simp add: set_line_def)
qed

lemma set_line_parse:
  assumes "name_ok name" and "list_all arg_ok as" and "as \<noteq> []" and "length as \<le> LN_AT_MAX_PARA_NUM"
  shows "\<exists>c buf'. at_parse_filtered at_parser_zero (set_line name as @ NUL # post) 0 (length (set_line name as))
      = Some (LN_AT_PSR_ERR_NONE, c, buf')
    \<and> name_start_pos c = Some 2 \<and> cmd_type_flag c = LN_AT_CMD_MARK_SET \<and> total_para_num c = length as
    \<and> cstr buf' 2 = Some (CHR ''+'' # name) \<and> length (para c) = LN_AT_MAX_PARA_NUM
    \<and> list_all2 (holds buf') (take (length as) (para c)) as"
proof -
  define pre where "pre = ''AT+'' @ name @ ''=''"
  define zero where "zero = replicate LN_AT_MAX_PARA_NUM \<lparr>para_type = LN_AT_PARA_TYPE_INIT, para_start_pos = None, para_end_pos = None\<rparr>"
  define at1 where "at1 = at_parser_zero\<lparr>cmd_type_flag := LN_AT_CMD_MARK_SET, name_start_pos := Some 2,
    name_end_pos := Some (3 + length name), total_para_num := 1\<rparr>"
  define c where "c = at1\<lparr>total_para_num := length as, para := place_all as (length pre) zero\<rparr>"
  have line: "set_line name as = pre @ render_args as"
    by (simp add: set_line_def pre_def)
  have scan: "at_para_loop (Suc (length (render_args as))) (pre @ render_args as @ NUL # post) (length pre) (scan0 0) at1
      = Some (LN_AT_PSR_ERR_NONE, at1\<lparr>total_para_num := Suc (length as), para := place_all as (length pre) zero\<rparr>)"
    using scan_args [of as at1 "[]" zero pre 0 post] assms
    by (simp add: at1_def at_parser_zero_def zero_def pre_def)
  have nz: "length as \<le> length zero"
    using assms(4) by (simp add: zero_def)
  obtain r where r: "at_unescape_all (pre @ render_args as @ NUL # post) (take (length as) (para c))
      = Some (LN_AT_PSR_ERR_NONE, pre @ r @ post)"
    and hold: "\<And>pre'. length pre' = length pre \<Longrightarrow> list_all2 (holds (pre' @ r @ post)) (take (length as) (para c)) as"
    using unescape_args [OF assms(2) nz, of pre post] by (auto simp: c_def)
  define buf' where "buf' = (''AT+'' @ name @ [NUL]) @ r @ post"
  have nul: "mem_set (pre @ r @ post) (3 + length name) NUL = Some buf'"
    using mem_set_append [of "''AT+'' @ name" "CHR ''=''" "r @ post" NUL] by (simp add: pre_def buf'_def numeral_3_eq_3)
  have str: "cstr buf' 2 = Some (CHR ''+'' # name)"
    using cstr_append [of "CHR ''+'' # name" "''AT''" "r @ post"] assms(1) by (simp add: buf'_def name_ok_def numeral_2_eq_2)
  have endp: "mem_get (pre @ render_args as @ NUL # post) (length (set_line name as)) = Some NUL"
    using mem_get_append [of "pre @ render_args as" NUL post] by (simp add: line)
  have cnt: "Suc (length (set_line name as)) - length pre = Suc (length (render_args as))"
    and pos: "Suc (3 + length name) = length pre"
    by (simp_all add: line pre_def)
  have set: "at_set_parse (at1\<lparr>total_para_num := 0\<rparr>) (pre @ render_args as @ NUL # post) (length (set_line name as))
      = Some (LN_AT_PSR_ERR_NONE, c, buf')"
  proof -
    have "name_end_pos (at1\<lparr>total_para_num := 0\<rparr>) = Some (3 + length name)" "at1\<lparr>total_para_num := 0, total_para_num := 1\<rparr> = at1"
      by (simp_all add: at1_def)
    then show ?thesis
      unfolding at_set_parse_def Let_def
      using scan r nul endp by (simp only: cnt pos scan0_def [symmetric] Option.bind.simps prod.case) (simp add: c_def)
  qed
  have "at_parse_filtered at_parser_zero (set_line name as @ NUL # post) 0 (length (set_line name as))
      = Some (LN_AT_PSR_ERR_NONE, c, buf')"
    using set set_line_name [OF assms(1,2), of post]
    by (simp add: at_parse_filtered_def at1_def at_parser_zero_def line pre_def)
  with str hold [of "''AT+'' @ name @ [NUL]"] show ?thesis
    by (intro exI [of _ c] exI [of _ buf']) (simp add: c_def at1_def zero_def buf'_def pre_def)
qed

definition no_special :: "string \<Rightarrow> bool" where
  "no_special line \<longleftrightarrow> list_all (\<lambda>c. find_sub line c 0 = None) special_cmd"

lemma find_special_none:
  assumes "cstr buf 0 = Some line" and "list_all (\<lambda>c. find_sub line c 0 = None) cmds"
  shows "at_find_special buf cmds = Some None"
  using assms by (induction cmds) (simp_all add: c_strstr_def)

lemma at_set_command:
  assumes "name_ok name" and "list_all arg_ok as" and "as \<noteq> []" and "length as \<le> LN_AT_MAX_PARA_NUM"
    and "no_special (set_line name as @ LN_AT_CMD_END_MARK)" and "length (set_line name as) + 2 < 2 ^ 32"
  shows "\<exists>c buf'. ln_at_cmd_parse ctx (set_line name as @ LN_AT_CMD_END_MARK @ NUL # post) (length (set_line name as) + 2)
      = Some (LN_AT_PSR_ERR_NONE, c, buf')
    \<and> ln_at_parser_get_result c (Some r) = (LN_AT_PSR_ERR_NONE,
        Some \<lparr>rst_name = Some 2, rst_type = LN_AT_PSR_CMD_TYPE_SET, rst_para_num = length as\<rparr>)
    \<and> cstr buf' 2 = Some (CHR ''+'' # name)
    \<and> (\<forall>i < length as. gives c buf' (Suc i) (as ! i))"
proof -
  let ?line = "set_line name as"
  let ?buf = "?line @ LN_AT_CMD_END_MARK @ NUL # post"
  have clean: "NUL \<notin> set ?line" "CHR 0x0D \<notin> set ?line"
    using assms(1) set_render_args [OF assms(2)] by (auto simp: set_line_def name_ok_def)
  have str: "cstr ?buf 0 = Some (?line @ LN_AT_CMD_END_MARK)"
    using cstr_append [of "?line @ LN_AT_CMD_END_MARK" "[]" post] clean by (simp add: LN_AT_CMD_END_MARK_def)
  have "find_sub (?line @ LN_AT_CMD_END_MARK) LN_AT_CMD_END_MARK 0 = Some (length ?line)"
    using find_sub_first [OF clean(2), of "[CHR 0x0A]" "[]" 0] by (simp add: LN_AT_CMD_END_MARK_def)
  then have crlf: "c_strstr ?buf 0 LN_AT_CMD_END_MARK = Some (Some (length ?line))"
    by (simp add: c_strstr_def str)
  have up: "c_strstr ?buf 0 ''AT'' = Some (Some 0)"
    by (simp add: c_strstr_def str) (simp add: set_line_def)
  obtain lo where lo: "c_strstr ?buf 0 ''at'' = Some lo"
    by (simp add: c_strstr_def str)
  have special: "at_find_special ?buf special_cmd = Some None"
    using find_special_none [OF str] assms(5) by (simp add: no_special_def)
  obtain k where k: "even k" and filter: "at_filter_loop (length ?line) ?buf 0 0 0 False 0 = Some (?buf, length ?line, k)"
    using set_line_filter [OF assms(1,2)] by blast
  have cut: "mem_set ?buf (length ?line) NUL = Some (?line @ NUL # CHR 0x0A # NUL # post)"
    using mem_set_append [of ?line "CHR 0x0D" "CHR 0x0A # NUL # post" NUL] by (simp add: LN_AT_CMD_END_MARK_def)
  have len: "sub_u32 (length ?line + 2) (length LN_AT_CMD_END_MARK) = length ?line"
    using assms(6) by (simp add: sub_u32_noborrow LN_AT_CMD_END_MARK_def)
  obtain c buf' where p: "at_parse_filtered at_parser_zero (?line @ NUL # CHR 0x0A # NUL # post) 0 (length ?line)
      = Some (LN_AT_PSR_ERR_NONE, c, buf')"
    and c: "name_start_pos c = Some 2" "cmd_type_flag c = LN_AT_CMD_MARK_SET" "total_para_num c = length as"
    "cstr buf' 2 = Some (CHR ''+'' # name)" "length (para c) = LN_AT_MAX_PARA_NUM"
    "list_all2 (holds buf') (take (length as) (para c)) as"
    using set_line_parse [OF assms(1-4), of "CHR 0x0A # NUL # post"] by (elim exE conjE) (rule that)
  have run: "ln_at_cmd_parse ctx ?buf (length ?line + 2) = Some (LN_AT_PSR_ERR_NONE, c, buf')"
    unfolding ln_at_cmd_parse_def Let_def
    by (simp only: len crlf up lo special filter Option.bind.simps option.case prod.case)
      (use k cut p in simp)
  have res: "ln_at_parser_get_result c (Some r) = (LN_AT_PSR_ERR_NONE,
      Some \<lparr>rst_name = Some 2, rst_type = LN_AT_PSR_CMD_TYPE_SET, rst_para_num = length as\<rparr>)"
    using c assms(4) by (simp add: ln_at_parser_get_result_def LN_AT_CMD_MARK_SET_def LN_AT_CMD_MARK_BASIC_def
        LN_AT_CMD_MARK_EXEC_def LN_AT_CMD_MARK_GET_def LN_AT_CMD_MARK_TEST_def LN_AT_CMD_MARK_PLUS_def
        LN_AT_CMD_MARK_EQUAL_def LN_AT_CMD_MARK_QUESTION_def u8_def LN_AT_MAX_PARA_NUM_def)
  have "gives c buf' (Suc i) (as ! i)" if "i < length as" for i
    using list_all2_nthD2 [OF c(6) that] that assms(2,4) by (auto intro!: holds_gives simp: list_all_length)
  with run res c(4) show ?thesis by (intro exI [of _ c] exI [of _ buf']) simp
qed

text \<open>C29: a set command made of a name and up to twenty arguments (left out, numbers, strings with their
  quotes, backslashes and commas escaped) is taken apart by the parser into just that name and
  those arguments.\<close>

theorem at_set_command_roundtrip:
  assumes "name_ok name" and "list_all arg_ok as" and "as \<noteq> []" and "length as \<le> LN_AT_MAX_PARA_NUM"
    and "no_special (set_line name as @ LN_AT_CMD_END_MARK)" and "length (set_line name as) + 2 < 2 ^ 32"
  shows "\<exists>c buf'. ln_at_cmd_parse ctx (set_line name as @ LN_AT_CMD_END_MARK @ NUL # post) (length (set_line name as) + 2)
      = Some (LN_AT_PSR_ERR_NONE, c, buf')
    \<and> ln_at_parser_get_result c (Some r) = (LN_AT_PSR_ERR_NONE,
        Some \<lparr>rst_name = Some 2, rst_type = LN_AT_PSR_CMD_TYPE_SET, rst_para_num = length as\<rparr>)
    \<and> cstr buf' 2 = Some (CHR ''+'' # name)
    \<and> (\<forall>i < length as. gives c buf' (Suc i) (as ! i))"
  using assms by (rule at_set_command)

lemma at_set_command_roundtrip_witness:
  "\<exists>c buf'. ln_at_cmd_parse at_parser_zero
      (''AT+K='' @ [QUOTE, CHR ''a'', BACKSLASH, CHR '','', QUOTE] @ '',,-12'' @ LN_AT_CMD_END_MARK @ [NUL]) 17
      = Some (LN_AT_PSR_ERR_NONE, c, buf')
    \<and> gives c buf' 3 (Arg_int True ''12'')"
proof -
  let ?as = "[Arg_str ''a,'', Arg_omit, Arg_int True ''12'']"
  have line: "set_line ''K'' ?as = ''AT+K='' @ [QUOTE, CHR ''a'', BACKSLASH, CHR '','', QUOTE] @ '',,-12''"
    by (simp add: set_line_def)
  have "name_ok ''K''" "list_all arg_ok ?as" "?as \<noteq> []" "length ?as \<le> LN_AT_MAX_PARA_NUM"
    by (simp_all add: name_ok_def at_digit_def LN_AT_MAX_PARA_NUM_def)
  moreover have "no_special (set_line ''K'' ?as @ LN_AT_CMD_END_MARK)"
    unfolding line by (simp add: no_special_def special_cmd_def LN_AT_CMD_END_MARK_def)
  moreover have len: "length (set_line ''K'' ?as) + 2 = 17"
    by (simp add: line)
  moreover from len have "length (set_line ''K'' ?as) + 2 < 2 ^ 32" by simp
  ultimately obtain c buf' where
    "ln_at_cmd_parse at_parser_zero (set_line ''K'' ?as @ LN_AT_CMD_END_MARK @ NUL # []) (length (set_line ''K'' ?as) + 2)
      = Some (LN_AT_PSR_ERR_NONE, c, buf')" and all: "\<forall>i < length ?as. gives c buf' (Suc i) (?as ! i)"
    using at_set_command_roundtrip [of "''K''" ?as at_parser_zero "[]" undefined] by blast
  moreover from all [rule_format, of 2] have "gives c buf' 3 (Arg_int True ''12'')"
    by (simp add: numeral_2_eq_2 numeral_3_eq_3)
  ultimately show ?thesis
    unfolding len unfolding line by (intro exI [of _ c] exI [of _ buf']) simp
qed

end
