(* ===== verification/At_Server_Correct.thy ===== *)
theory At_Server_Correct
  imports At_Server At_Correct
begin

text \<open>
  What the AT server does: the invariant of its two tasks in any order, with the single input that
  makes it leave its buffer, and the way of a set command from the serial line to its handler.
\<close>

section \<open>The line buffer\<close>

definition line_buf :: "string \<Rightarrow> string" where
  "line_buf txt = txt @ replicate (LN_AT_MAX_LINE_SIZE - length txt) NUL"

lemma length_line_buf: "length txt \<le> LN_AT_MAX_LINE_SIZE \<Longrightarrow> length (line_buf txt) = LN_AT_MAX_LINE_SIZE"
  by (simp add: line_buf_def)

lemma line_buf_room: "length txt < LN_AT_MAX_LINE_SIZE \<Longrightarrow> line_buf txt = txt @ NUL # replicate (LN_AT_MAX_LINE_SIZE - Suc (length txt)) NUL"
  by (simp add: line_buf_def replicate_Suc [symmetric] Suc_diff_Suc del: replicate_Suc)

lemma line_buf_set:
  assumes "length txt < LN_AT_MAX_LINE_SIZE"
  shows "mem_set (line_buf txt) (length txt) ch = Some (line_buf (txt @ [ch]))"
  using assms mem_set_append [of "txt" NUL "replicate (LN_AT_MAX_LINE_SIZE - Suc (length txt)) NUL" ch]
  by (simp add: line_buf_room) (simp add: line_buf_def)

lemma line_buf_erase:
  assumes "length (txt @ [c]) \<le> LN_AT_MAX_LINE_SIZE"
  shows "mem_set (line_buf (txt @ [c])) (length txt) NUL = Some (line_buf txt)"
  using assms mem_set_append [of "txt" c "replicate (LN_AT_MAX_LINE_SIZE - Suc (length txt)) NUL" NUL]
  by (simp add: line_buf_room) (simp add: line_buf_def)

lemma cstr_line_buf: "NUL \<notin> set txt \<Longrightarrow> length txt < LN_AT_MAX_LINE_SIZE \<Longrightarrow> cstr (line_buf txt) 0 = Some txt"
  using cstr_append [of "txt" "[]"] by (simp add: line_buf_room)

lemma cstr_full: "NUL \<notin> set txt \<Longrightarrow> length txt = LN_AT_MAX_LINE_SIZE \<Longrightarrow> cstr (line_buf txt) 0 = None"
  by (simp add: line_buf_def cstr_def)

lemma line_buf_Nil: "replicate LN_AT_MAX_LINE_SIZE NUL = line_buf []"
  by (simp add: line_buf_def)

section \<open>Invariant\<close>

text \<open>While the parser is not at work, the buffer holds the characters received and terminators behind
  them; the semaphore is raised exactly when a line waits.\<close>

definition at_ok :: "at_server \<Rightarrow> bool" where
  "at_ok s \<longleftrightarrow> length (in_buff s) = LN_AT_MAX_LINE_SIZE \<and> at_index s < LN_AT_MAX_LINE_SIZE \<and>
     parser_sem s = (if at_busy s then 1 else 0) \<and>
     (\<not> at_busy s \<longrightarrow> (\<exists>txt. in_buff s = line_buf txt \<and> at_index s = length txt \<and> NUL \<notin> set txt))"

lemma at_write_simps [simp]:
  "at_busy (at_write t s) = at_busy s" "at_index (at_write t s) = at_index s" "in_buff (at_write t s) = in_buff s"
  "parser_sem (at_write t s) = parser_sem s" "prev_ch (at_write t s) = prev_ch s" "at_echo (at_write t s) = at_echo s"
  by (simp_all add: at_write_def)

lemma at_ok_write: "at_ok (at_write t s) = at_ok s"
  by (simp add: at_ok_def)

lemma at_ok_reset: "\<not> at_busy s \<Longrightarrow> parser_sem s = 0 \<Longrightarrow> at_ok (LN_AT_RESET_PARSER_ENV s)"
  unfolding at_ok_def LN_AT_RESET_PARSER_ENV_def line_buf_Nil
  by (auto simp: length_line_buf intro: exI [of _ "[]"]) (simp add: LN_AT_MAX_LINE_SIZE_def)

text \<open>Storing a character in an idle server.\<close>

lemma at_store_eq:
  assumes "in_buff s = line_buf txt" and "at_index s = length txt" and "length txt < LN_AT_MAX_LINE_SIZE"
  shows "at_store ch s = Some (s\<lparr>in_buff := line_buf (txt @ [ch]), at_index := Suc (length txt)\<rparr>)"
  using assms by (simp add: at_store_def line_buf_set)

lemma at_ok_store_end:
  assumes "in_buff s = line_buf (txt @ [ch])" and "at_index s = Suc (length txt)" and "length txt < LN_AT_MAX_LINE_SIZE"
    and "NUL \<notin> set txt" and "ch \<noteq> NUL" and "parser_sem s = (if at_busy s then 1 else 0)"
    and "at_busy s \<Longrightarrow> Suc (length txt) < LN_AT_MAX_LINE_SIZE"
  shows "at_ok (at_store_end ch' s)"
proof (cases "Suc (length txt) < LN_AT_MAX_LINE_SIZE")
  case True
  then show ?thesis
    using assms by (auto simp: at_store_end_def Let_def at_ok_def length_line_buf intro!: exI [of _ "txt @ [ch]"])
next
  case False
  then have "\<not> at_busy s" using assms(7) by blast
  then show ?thesis
    using assms False at_ok_reset [of "s\<lparr>prev_ch := NUL\<rparr>"] by (simp add: at_store_end_def Let_def)
qed

lemma at_ok_idle:
  assumes "at_ok s" and "\<not> at_busy s"
  obtains t where "in_buff s = line_buf t" "at_index s = length t" "NUL \<notin> set t" "length t < LN_AT_MAX_LINE_SIZE" "parser_sem s = 0"
  using assms by (auto simp: at_ok_def)

lemma char_not_nul: "c_isprint c \<Longrightarrow> c \<noteq> NUL" "of_char c \<ge> (128 :: nat) \<Longrightarrow> c \<noteq> NUL"
  by (auto simp: c_isprint_def)

text \<open>The character that ends a line: whether the end mark is in the buffer.\<close>

lemma end_mark_search:
  assumes "NUL \<notin> set t" and "length t < LN_AT_MAX_LINE_SIZE" and "ch \<noteq> NUL"
  shows "c_strstr (line_buf (t @ [ch])) 0 LN_AT_CMD_END_MARK =
    (if Suc (length t) < LN_AT_MAX_LINE_SIZE then Some (find_sub (t @ [ch]) LN_AT_CMD_END_MARK 0) else None)"
  using assms cstr_line_buf [of "t @ [ch]"] cstr_full [of "t @ [ch]"] by (auto simp: c_strstr_def)

lemma preparser_eol:
  assumes "in_buff s = line_buf t" "at_index s = length t" "NUL \<notin> set t" "length t < LN_AT_MAX_LINE_SIZE" "parser_sem s = 0"
    and "\<not> at_busy s" and "ch = CHR 0x0D \<or> ch = CHR 0x0A"
  shows "ln_at_preparser ch s =
    (let s1 = (if at_echo s \<and> prev_ch s \<noteq> CHR 0x0D then at_write CRLF_CONTENT s else s)\<lparr>in_buff := line_buf (t @ [ch]), at_index := Suc (length t)\<rparr>
     in if Suc (length t) = LN_AT_MAX_LINE_SIZE then None
        else Some (at_store_end ch (if 2 \<le> length t \<and> find_sub (t @ [ch]) LN_AT_CMD_END_MARK 0 \<noteq> None
          then s1\<lparr>at_busy := True, parser_sem := 1\<rparr> else s1)))"
proof -
  have ch: "ch \<noteq> NUL" "\<not> c_isprint ch" "ch \<noteq> CHR 0x1B" "ch \<noteq> CHR 0x08" "ch \<noteq> CHR 0x7F"
    using assms(7) by (auto simp: c_isprint_def)
  define s0 where "s0 = (if at_echo s \<and> prev_ch s \<noteq> CHR 0x0D then at_write CRLF_CONTENT s else s)"
  have s0: "at_store ch s0 = Some (s0\<lparr>in_buff := line_buf (t @ [ch]), at_index := Suc (length t)\<rparr>)" "parser_sem s0 = 0"
    using assms by (auto simp: s0_def intro!: at_store_eq)
  have big: "2 < Suc (length t) \<longleftrightarrow> 2 \<le> length t" "Suc (length t) = LN_AT_MAX_LINE_SIZE \<Longrightarrow> 2 \<le> length t"
    by (auto simp: LN_AT_MAX_LINE_SIZE_def)
  have "ln_at_preparser ch s = do {
      s \<leftarrow> at_store ch s0;
      found \<leftarrow> (if at_index s > 2 then c_strstr (in_buff s) 0 LN_AT_CMD_END_MARK else Some None);
      Some (at_store_end ch (if found \<noteq> None then s\<lparr>at_busy := True, parser_sem := min 2 (Suc (parser_sem s))\<rparr> else s)) }"
    unfolding ln_at_preparser_def s0_def using assms(6,7) ch by (simp only: if_False simp_thms if_True)
  then show ?thesis
    using s0 big end_mark_search [OF assms(3,4) ch(1)] assms(4)
    by (simp add: Let_def s0_def [symmetric])
qed

lemma preparser_ok:
  assumes "at_ok s"
  shows "ln_at_preparser ch s = Some s' \<Longrightarrow> at_ok s'"
    and "ln_at_preparser ch s = None \<longleftrightarrow> \<not> at_busy s \<and> at_index s = LN_AT_MAX_LINE_SIZE - 1 \<and> (ch = CHR 0x0D \<or> ch = CHR 0x0A)"
proof -
  have "(\<forall>s'. ln_at_preparser ch s = Some s' \<longrightarrow> at_ok s') \<and>
    (ln_at_preparser ch s = None \<longleftrightarrow> \<not> at_busy s \<and> at_index s = LN_AT_MAX_LINE_SIZE - 1 \<and> (ch = CHR 0x0D \<or> ch = CHR 0x0A))"
  proof (cases "at_busy s")
    case True
    then show ?thesis using assms by (simp add: ln_at_preparser_def at_ok_write)
  next
    case False
    then obtain t where t: "in_buff s = line_buf t" "at_index s = length t" "NUL \<notin> set t" "length t < LN_AT_MAX_LINE_SIZE" "parser_sem s = 0"
      using assms by (elim at_ok_idle)
    have keep: "at_ok (at_store_end ch s)"
      using False assms by (auto simp: at_store_end_def Let_def at_ok_def)
    have store: "\<exists>s'. at_store ch (if at_echo s then at_write [ch] s else s) = Some s' \<and> at_ok (at_store_end ch s')" if "ch \<noteq> NUL"
    proof -
      have "at_store ch (if at_echo s then at_write [ch] s else s)
          = Some ((if at_echo s then at_write [ch] s else s)\<lparr>in_buff := line_buf (t @ [ch]), at_index := Suc (length t)\<rparr>)"
        using t by (intro at_store_eq) simp_all
      moreover have "at_ok (at_store_end ch ((if at_echo s then at_write [ch] s else s)\<lparr>in_buff := line_buf (t @ [ch]), at_index := Suc (length t)\<rparr>))"
        using t False that by (intro at_ok_store_end [of _ "t"]) (simp_all split: if_splits)
      ultimately show ?thesis by blast
    qed
    consider "c_isprint ch" | "ch = CHR 0x1B" | "ch = CHR 0x08 \<or> ch = CHR 0x7F" | "ch = CHR 0x0D \<or> ch = CHR 0x0A"
      | "\<not> c_isprint ch" "ch \<noteq> CHR 0x1B" "\<not> (ch = CHR 0x08 \<or> ch = CHR 0x7F)" "\<not> (ch = CHR 0x0D \<or> ch = CHR 0x0A)"
      by blast
    then show ?thesis
    proof cases
      case 1
      then obtain s' where "at_store ch (if at_echo s then at_write [ch] s else s) = Some s'" "at_ok (at_store_end ch s')"
        using store char_not_nul by blast
      moreover have "ch \<noteq> CHR 0x0D" "ch \<noteq> CHR 0x0A" using 1 by (auto simp: c_isprint_def)
      ultimately show ?thesis using False 1 by (simp add: ln_at_preparser_def)
    next
      case 2
      then show ?thesis using False t at_ok_reset by (simp add: ln_at_preparser_def c_isprint_def at_ok_write)
    next
      case 3
      then have "\<not> c_isprint ch" "ch \<noteq> CHR 0x1B" "ch \<noteq> CHR 0x0D" "ch \<noteq> CHR 0x0A" by (auto simp: c_isprint_def)
      then show ?thesis
      proof (cases t rule: rev_cases)
        case Nil
        then show ?thesis using 3 False t assms \<open>\<not> c_isprint ch\<close> \<open>ch \<noteq> CHR 0x1B\<close> by (auto simp: ln_at_preparser_def)
      next
        case (snoc t0 c)
        have "mem_set (line_buf (t0 @ [c])) (length t0) NUL = Some (line_buf t0)"
          using t snoc by (intro line_buf_erase) simp
        then have "ln_at_preparser ch s = Some (if at_echo s then at_write BACKSPACE_CONTENT (s\<lparr>at_index := length t0, in_buff := line_buf t0\<rparr>)
            else s\<lparr>at_index := length t0, in_buff := line_buf t0\<rparr>)"
          using 3 False t snoc \<open>\<not> c_isprint ch\<close> \<open>ch \<noteq> CHR 0x1B\<close> by (auto simp: ln_at_preparser_def Let_def)
        moreover have "at_ok (s\<lparr>at_index := length t0, in_buff := line_buf t0\<rparr>)"
          using t snoc False by (auto simp: at_ok_def length_line_buf)
        ultimately show ?thesis using \<open>ch \<noteq> CHR 0x0D\<close> \<open>ch \<noteq> CHR 0x0A\<close> by (simp add: at_ok_write)
      qed
    next
      case 4
      define s1 where "s1 = (if at_echo s \<and> prev_ch s \<noteq> CHR 0x0D then at_write CRLF_CONTENT s else s)\<lparr>in_buff := line_buf (t @ [ch]), at_index := Suc (length t)\<rparr>"
      have s1: "in_buff s1 = line_buf (t @ [ch])" "at_index s1 = Suc (length t)" "\<not> at_busy s1" "parser_sem s1 = 0"
        using False t(5) by (simp_all add: s1_def)
      have ch: "ch \<noteq> NUL" using 4 by auto
      have "at_ok (at_store_end ch s1)"
        by (rule at_ok_store_end [OF s1(1,2) t(4,3) ch]) (simp_all add: s1)
      moreover have "at_ok (at_store_end ch (s1\<lparr>at_busy := True, parser_sem := 1\<rparr>))" if "Suc (length t) < LN_AT_MAX_LINE_SIZE"
        by (rule at_ok_store_end [of _ "t" ch]) (simp_all add: s1 t(3,4) ch that)
      moreover have "Suc (length t) = LN_AT_MAX_LINE_SIZE \<longleftrightarrow> length t = LN_AT_MAX_LINE_SIZE - 1"
        by (auto simp: LN_AT_MAX_LINE_SIZE_def)
      ultimately show ?thesis
        using preparser_eol [OF t False 4] t(2,4) 4 False by (auto simp: Let_def s1_def [symmetric])
    next
      case 5
      then show ?thesis
        using False keep store char_not_nul(2) [of ch] by (cases "of_char ch \<ge> (128 :: nat)") (auto simp: ln_at_preparser_def)
    qed
  qed
  note both = this
  show "ln_at_preparser ch s = Some s' \<Longrightarrow> at_ok s'"
    by (rule both [THEN conjunct1, rule_format])
  show "ln_at_preparser ch s = None \<longleftrightarrow> \<not> at_busy s \<and> at_index s = LN_AT_MAX_LINE_SIZE - 1 \<and> (ch = CHR 0x0D \<or> ch = CHR 0x0A)"
    by (rule both [THEN conjunct2])
qed

lemma parser_task_ok:
  assumes "ln_at_parser_task run s = Some s'" and "parser_sem s = 1"
  shows "at_ok s'"
proof -
  obtain c b err s2 rst where "ln_at_cmd_do run rst (s\<lparr>parser_sem := parser_sem s - 1, at_cmd := c, in_buff := b, parser_rst := rst\<rparr>) = Some (err, s2)"
    and s': "s' = (LN_AT_RESET_PARSER_ENV s2)\<lparr>at_busy := False\<rparr>"
    using assms(1) by (auto simp: ln_at_parser_task_def ln_at_parser_get_result_def Let_def split: Option.bind_splits)
  then have "parser_sem s2 = 0"
    using assms(2) by (auto simp: ln_at_cmd_do_def ln_at_vprintf_def at_write_def ln_at_echo_enable_def Let_def
        split: Option.bind_splits option.splits if_splits prod.splits)
  then show ?thesis
    unfolding s' at_ok_def LN_AT_RESET_PARSER_ENV_def line_buf_Nil
    by (auto simp: length_line_buf intro: exI [of _ "[]"]) (simp add: LN_AT_MAX_LINE_SIZE_def)
qed

lemma at_step_ok: "at_step run s s' \<Longrightarrow> at_ok s \<Longrightarrow> at_ok s'"
proof (induction rule: at_step.induct)
  case (at_receive ch s s')
  then show ?case by (simp add: preparser_ok(1) [of s ch s'])
next
  case (at_parse s s')
  then have "parser_sem s = 1" by (auto simp: at_ok_def split: if_splits)
  with at_parse(2) show ?case by (rule parser_task_ok)
qed

lemma at_steps_ok: "(at_step run)\<^sup>*\<^sup>* s s' \<Longrightarrow> at_ok s \<Longrightarrow> at_ok s'"
  by (induction rule: rtranclp_induct) (auto intro: at_step_ok)

lemma at_init_ok:
  assumes "ln_at_init r calloc items s = Some (0, s')"
  shows "at_ok s'"
proof -
  have "at_ok ((LN_AT_RESET_PARSER_ENV s)\<lparr>at_busy := False, at_echo := e, cmd_tbl := t, cmd_hash_tbl := h, parser_sem := 0\<rparr>)" for e t h
    unfolding at_ok_def LN_AT_RESET_PARSER_ENV_def line_buf_Nil
    by (auto simp: length_line_buf intro: exI [of _ "[]"]) (simp add: LN_AT_MAX_LINE_SIZE_def)
  then show ?thesis
    using assms by (auto simp: ln_at_init_def ln_at_server_init_def ln_at_cmd_table_create_def ln_at_vprintf_def Let_def at_ok_def
        split: if_splits)
qed

section \<open>From the line to the handler\<close>

definition at_plain :: "char \<Rightarrow> bool" where
  "at_plain c \<longleftrightarrow> c_isprint c \<or> of_char c \<ge> (128 :: nat)"

lemma preparser_plain:
  assumes "in_buff s = line_buf t" "at_index s = length t" "Suc (length t) < LN_AT_MAX_LINE_SIZE" "\<not> at_busy s" and "at_plain c"
  shows "ln_at_preparser c s = Some (s\<lparr>at_index := Suc (length t), in_buff := line_buf (t @ [c]), prev_ch := c,
    at_out := at_out s @ (if at_echo s then [c] else [])\<rparr>)"
proof -
  have c: "c \<noteq> CHR 0x1B" "c \<noteq> CHR 0x08" "c \<noteq> CHR 0x7F" "c \<noteq> CHR 0x0D" "c \<noteq> CHR 0x0A"
    using assms(5) by (auto simp: at_plain_def c_isprint_def)
  have "ln_at_preparser c s = do { s \<leftarrow> at_store c (if at_echo s then at_write [c] s else s); Some (at_store_end c s) }"
    using assms(4,5) c by (auto simp: ln_at_preparser_def at_plain_def)
  moreover have "at_store c (if at_echo s then at_write [c] s else s)
      = Some ((if at_echo s then at_write [c] s else s)\<lparr>in_buff := line_buf (t @ [c]), at_index := Suc (length t)\<rparr>)"
    using assms by (intro at_store_eq) simp_all
  ultimately show ?thesis
    using assms(3) by (simp add: at_store_end_def Let_def at_write_def)
qed

lemma feed_plain:
  assumes "list_all at_plain cs" and "in_buff s = line_buf t" "at_index s = length t" "length (t @ cs) < LN_AT_MAX_LINE_SIZE" "\<not> at_busy s"
  shows "ln_transfer_task (cs @ rest) s = ln_transfer_task rest (s\<lparr>at_index := length (t @ cs), in_buff := line_buf (t @ cs),
    prev_ch := (if cs = [] then prev_ch s else last cs), at_out := at_out s @ (if at_echo s then cs else [])\<rparr>)"
  using assms
proof (induction cs arbitrary: s t)
  case (Cons c cs)
  let ?s = "s\<lparr>at_index := Suc (length t), in_buff := line_buf (t @ [c]), prev_ch := c, at_out := at_out s @ (if at_echo s then [c] else [])\<rparr>"
  have "ln_at_preparser c s = Some ?s"
    using Cons.prems by (intro preparser_plain) simp_all
  moreover have "ln_transfer_task (cs @ rest) ?s = ln_transfer_task rest (?s\<lparr>at_index := length ((t @ [c]) @ cs), in_buff := line_buf ((t @ [c]) @ cs),
      prev_ch := (if cs = [] then prev_ch ?s else last cs), at_out := at_out ?s @ (if at_echo ?s then cs else [])\<rparr>)"
    using Cons.prems by (intro Cons.IH) simp_all
  ultimately show ?case by simp
next
  case Nil
  then have "s\<lparr>at_index := length t, in_buff := line_buf t\<rparr> = s" by (cases s) simp
  then show ?case by simp
qed

text \<open>A line with its end mark wakes the parser.\<close>

lemma feed_line:
  assumes "list_all at_plain line" and "2 \<le> length line" and "length line + 2 < LN_AT_MAX_LINE_SIZE"
    and "in_buff s = line_buf []" "at_index s = 0" "\<not> at_busy s" "parser_sem s = 0"
  shows "ln_transfer_task (line @ CRLF_CONTENT) s = Some (s\<lparr>at_busy := True, at_index := length line + 2,
    in_buff := line_buf (line @ CRLF_CONTENT), prev_ch := CHR 0x0A, parser_sem := 1,
    at_out := at_out s @ (if at_echo s then line @ CRLF_CONTENT else [])\<rparr>)"
proof -
  have "line \<noteq> []" using assms(2) by auto
  then have "last line \<in> set line" by simp
  then have plain: "NUL \<notin> set line" "CHR 0x0D \<notin> set line" "last line \<noteq> CHR 0x0D"
    using assms(1) by (auto simp: list_all_iff at_plain_def c_isprint_def)
  define s1 where "s1 = s\<lparr>at_index := length line, in_buff := line_buf line, prev_ch := last line, at_out := at_out s @ (if at_echo s then line else [])\<rparr>"
  have 1: "ln_transfer_task (line @ CRLF_CONTENT) s = ln_transfer_task CRLF_CONTENT s1"
    using feed_plain [OF assms(1), of s "[]" CRLF_CONTENT] assms \<open>line \<noteq> []\<close> by (simp add: s1_def)
  define s2 where "s2 = s1\<lparr>at_index := Suc (length line), in_buff := line_buf (line @ [CHR 0x0D]), prev_ch := CHR 0x0D,
    at_out := at_out s1 @ (if at_echo s then CRLF_CONTENT else [])\<rparr>"
  have find1: "find_sub (line @ [CHR 0x0D]) LN_AT_CMD_END_MARK 0 = None"
  proof -
    have "find_sub (xs @ [d]) (d # e # ds) i = None" if "d \<notin> set xs" for xs and d e :: char and ds i
      using that by (induction xs arbitrary: i) auto
    then show ?thesis using plain by (simp add: LN_AT_CMD_END_MARK_def)
  qed
  have find2: "find_sub (line @ [CHR 0x0D, CHR 0x0A]) LN_AT_CMD_END_MARK 0 = Some (length line)"
    using find_sub_first [OF plain(2), of "[CHR 0x0A]" "[]" 0] by (simp add: LN_AT_CMD_END_MARK_def)
  have 2: "ln_at_preparser (CHR 0x0D) s1 = Some s2"
    using assms plain find1 by (subst preparser_eol [where t = line])
      (simp_all add: s1_def s2_def Let_def at_store_end_def at_write_def)
  have 3: "ln_at_preparser (CHR 0x0A) s2 = Some (s2\<lparr>at_busy := True, at_index := length line + 2, in_buff := line_buf (line @ CRLF_CONTENT),
      prev_ch := CHR 0x0A, parser_sem := 1\<rparr>)"
    using assms plain find2 by (subst preparser_eol [where t = "line @ [CHR 0x0D]"])
      (simp_all add: s1_def s2_def Let_def at_store_end_def at_write_def CRLF_CONTENT_def)
  show ?thesis
    unfolding 1 by (simp add: CRLF_CONTENT_def 2 3 [unfolded CRLF_CONTENT_def]) (simp add: s1_def s2_def CRLF_CONTENT_def)
qed

lemma hash_search:
  assumes "i < length hs" and "hs ! i = h" and "\<forall>j < i. hs ! j \<noteq> h"
  shows "at_hash_search hs h k = Some (k + i)"
  using assms
proof (induction hs arbitrary: i k)
  case (Cons g hs)
  then show ?case
  proof (cases i)
    case (Suc j)
    then have "\<forall>l < j. hs ! l \<noteq> h" and "g \<noteq> h" using Cons.prems(3) by (metis Suc_less_eq nth_Cons_Suc, metis nth_Cons_0 zero_less_Suc)
    then show ?thesis using Cons.IH [of j "Suc k"] Cons.prems Suc by simp
  qed auto
qed simp

lemma cstr_tail: "cstr b p = Some (c # cs) \<Longrightarrow> cstr b (Suc p) = Some cs"
proof -
  assume a: "cstr b p = Some (c # cs)"
  then have "takeWhile (\<lambda>x. x \<noteq> NUL) (drop p b) = c # cs" "NUL \<in> set (drop p b)"
    by (auto simp: cstr_def split: if_splits)
  moreover from this obtain d ds where "drop p b = d # ds" by (cases "drop p b") auto
  moreover from this have "drop (Suc p) b = ds" by (metis drop_Suc list.sel(3) tl_drop)
  ultimately show ?thesis by (auto simp: cstr_def split: if_splits)
qed

text \<open>A set command whose item is the first with its hash reaches the handler of the item.\<close>

lemma dispatch_set:
  assumes "rst_name rst = Some 2" and "rst_type rst = LN_AT_PSR_CMD_TYPE_SET" and "cstr (in_buff s) 2 = Some (CHR ''+'' # name)"
    and "cmd_hash_tbl s = ln_at_cmd_items_init True (cmd_tbl s)" and "i < length (cmd_tbl s)" and "item_set (cmd_tbl s ! i)"
    and "ln_djb_hash (item_name (cmd_tbl s ! i)) = ln_djb_hash name"
    and "\<forall>j < i. ln_djb_hash (item_name (cmd_tbl s ! j)) \<noteq> ln_djb_hash name"
    and "run (At_set i (rst_para_num rst)) (at_cmd s) (in_buff s) (at_echo s) = (err, reply, echo)"
  shows "\<exists>err'. ln_at_cmd_do run rst s = Some (err', ln_at_echo_enable echo (at_write reply s))"
proof -
  have key: "cstr (in_buff s) 3 = Some name"
    using cstr_tail [OF assms(3)] by (simp add: numeral_3_eq_3 numeral_2_eq_2)
  have "ln_at_query_cmd s (ln_djb_hash name) = Some i"
    using hash_search [of i "map (\<lambda>item. ln_djb_hash (item_name item)) (cmd_tbl s)" "ln_djb_hash name" 0] assms(4,5,7,8)
    by (simp add: ln_at_query_cmd_def ln_at_cmd_items_init_def)
  then show ?thesis
    using assms key by (simp add: ln_at_cmd_do_def at_handler_def Let_def)
qed

text \<open>The basic commands on the table of the tree.\<close>

definition basic_server :: at_server where
  "basic_server = \<lparr>at_busy = False, at_index = 0, at_echo = True, in_buff = replicate LN_AT_MAX_LINE_SIZE NUL, prev_ch = NUL,
     parser_sem = 0, at_out = [], at_cmd = at_parser_zero, parser_rst = \<lparr>rst_name = None, rst_type = LN_AT_PSR_CMD_TYPE_BASIC, rst_para_num = 0\<rparr>,
     cmd_tbl = basic_items, cmd_hash_tbl = ln_at_cmd_items_init True basic_items\<rparr>"

section \<open>The theorems\<close>

text \<open>C38: after a successful start the two tasks keep, in any order of their steps and for all characters
  and handlers, the invariant of the line buffer, of the busy flag and of the semaphore; and the one thing
  that makes the receiving task leave the buffer is a line end as character 512.\<close>

theorem at_server_invariant:
  assumes "ln_at_init r calloc items s = Some (0, s0)" and "(at_step run)\<^sup>*\<^sup>* s0 s1"
  shows "at_ok s1 \<and> (ln_at_preparser ch s1 = None \<longleftrightarrow>
    \<not> at_busy s1 \<and> at_index s1 = LN_AT_MAX_LINE_SIZE - 1 \<and> (ch = CHR 0x0D \<or> ch = CHR 0x0A))"
proof -
  have ok: "at_ok s1" by (rule at_steps_ok [OF assms(2) at_init_ok [OF assms(1)]])
  show ?thesis by (rule conjI [OF ok preparser_ok(2) [OF ok]])
qed

lemma at_server_invariant_witness:
  "let r = \<lparr>res_lock = True, res_print_lock = True, res_transfer_init = 0, res_sem = True, res_task = True\<rparr>;
       s0 = snd (the (ln_at_init r True basic_items basic_server))
   in at_ok s0 \<and> ln_at_preparser (CHR 0x0D) s0 \<noteq> None"
proof -
  let ?r = "\<lparr>res_lock = True, res_print_lock = True, res_transfer_init = 0, res_sem = True, res_task = True\<rparr>"
  have "\<exists>s0. ln_at_init ?r True basic_items basic_server = Some (0, s0) \<and> at_index s0 = 0"
    by (simp add: ln_at_init_def ln_at_server_init_def ln_at_cmd_table_create_def ln_at_vprintf_def CRLF_CONTENT_def
        LN_AT_PRINTF_BUF_SIZE_def LN_AT_RESET_PARSER_ENV_def at_write_def)
  then obtain s0 where "ln_at_init ?r True basic_items basic_server = Some (0, s0)" "at_index s0 = 0" by blast
  then show ?thesis
    using at_server_invariant [of ?r True basic_items basic_server s0 basic_run s0 "CHR 0x0D"]
    by (auto simp: Let_def LN_AT_MAX_LINE_SIZE_def)
qed

text \<open>C37: a set command with its end mark, received by an idle server, wakes the parser; its round runs the
  handler of the command with the arguments that were typed, writes the handler's answer and leaves the
  server idle with an empty buffer.\<close>

theorem at_set_dispatched:
  assumes "at_ok s" and "\<not> at_busy s" and "at_index s = 0"
    and "cmd_hash_tbl s = ln_at_cmd_items_init True (cmd_tbl s)" and "i < length (cmd_tbl s)" and "item_set (cmd_tbl s ! i)"
    and "ln_djb_hash (item_name (cmd_tbl s ! i)) = ln_djb_hash name"
    and "\<forall>j < i. ln_djb_hash (item_name (cmd_tbl s ! j)) \<noteq> ln_djb_hash name"
    and "name_ok name" and "list_all arg_ok as" and "as \<noteq> []" and "length as \<le> LN_AT_MAX_PARA_NUM"
    and "no_special (set_line name as @ CRLF_CONTENT)" and "list_all at_plain (set_line name as)"
    and "length (set_line name as) + 2 < LN_AT_MAX_LINE_SIZE"
  shows "\<exists>s1 s2 c b. ln_transfer_task (set_line name as @ CRLF_CONTENT) s = Some s1 \<and> parser_sem s1 = 1
    \<and> at_out s1 = at_out s @ (if at_echo s then set_line name as @ CRLF_CONTENT else [])
    \<and> (\<forall>k < length as. gives c b (Suc k) (as ! k))
    \<and> ln_at_parser_task run s1 = Some s2 \<and> at_ok s2 \<and> \<not> at_busy s2 \<and> at_index s2 = 0
    \<and> (case run (At_set i (length as)) c b (at_echo s) of (err, reply, echo) \<Rightarrow> at_out s2 = at_out s1 @ reply \<and> at_echo s2 = echo)"
proof -
  let ?line = "set_line name as"
  have crlf: "CRLF_CONTENT = LN_AT_CMD_END_MARK" by (simp add: CRLF_CONTENT_def LN_AT_CMD_END_MARK_def)
  have idle: "in_buff s = line_buf []" "parser_sem s = 0"
    using assms(1-3) by (auto simp: at_ok_def)
  define s1 where "s1 = s\<lparr>at_busy := True, at_index := length ?line + 2, in_buff := line_buf (?line @ CRLF_CONTENT), prev_ch := CHR 0x0A,
    parser_sem := 1, at_out := at_out s @ (if at_echo s then ?line @ CRLF_CONTENT else [])\<rparr>"
  have feed: "ln_transfer_task (?line @ CRLF_CONTENT) s = Some s1"
    using feed_line [OF assms(14) _ assms(15) idle(1) assms(3,2) idle(2)] by (simp add: s1_def set_line_def)
  define post where "post = replicate (LN_AT_MAX_LINE_SIZE - Suc (length (?line @ CRLF_CONTENT))) NUL"
  have buf: "line_buf (?line @ CRLF_CONTENT) = ?line @ LN_AT_CMD_END_MARK @ NUL # post"
    using line_buf_room [of "?line @ CRLF_CONTENT"] assms(15) by (simp add: post_def crlf) (simp add: LN_AT_CMD_END_MARK_def)
  have "length ?line + 2 < 2 ^ 32" using assms(15) by (simp add: LN_AT_MAX_LINE_SIZE_def)
  then obtain c b where parse: "ln_at_cmd_parse (at_cmd s1) (in_buff s1) (at_index s1) = Some (LN_AT_PSR_ERR_NONE, c, b)"
    and res: "ln_at_parser_get_result c (Some (parser_rst s1)) = (LN_AT_PSR_ERR_NONE,
        Some \<lparr>rst_name = Some 2, rst_type = LN_AT_PSR_CMD_TYPE_SET, rst_para_num = length as\<rparr>)"
    and name: "cstr b 2 = Some (CHR ''+'' # name)" and args: "\<forall>k < length as. gives c b (Suc k) (as ! k)"
    using at_set_command [OF assms(9-12) assms(13) [unfolded crlf], of "at_cmd s1" post "parser_rst s1"] buf
    by (auto simp: s1_def)
  obtain err reply echo where h: "run (At_set i (length as)) c b (at_echo s) = (err, reply, echo)"
    by (cases "run (At_set i (length as)) c b (at_echo s)")
  define rst where "rst = \<lparr>rst_name = Some 2, rst_type = LN_AT_PSR_CMD_TYPE_SET, rst_para_num = length as\<rparr>"
  define s' where "s' = s1\<lparr>parser_sem := 0, at_cmd := c, in_buff := b, parser_rst := rst\<rparr>"
  obtain err' where do_set: "ln_at_cmd_do run rst s' = Some (err', ln_at_echo_enable echo (at_write reply s'))"
    using dispatch_set [of rst s' name i run err reply echo] assms(4-8) name h by (auto simp: s'_def s1_def rst_def)
  define s2 where "s2 = (LN_AT_RESET_PARSER_ENV (ln_at_echo_enable echo (at_write reply s')))\<lparr>at_busy := False\<rparr>"
  have task: "ln_at_parser_task run s1 = Some s2"
    using parse res do_set by (simp add: ln_at_parser_task_def Let_def s'_def rst_def s2_def) (simp add: s1_def)
  have "parser_sem s1 = 1" by (simp add: s1_def)
  moreover from task this have "at_ok s2" by (rule parser_task_ok)
  moreover have "at_out s2 = at_out s1 @ reply" "at_echo s2 = echo" "\<not> at_busy s2" "at_index s2 = 0"
    by (simp_all add: s2_def s'_def LN_AT_RESET_PARSER_ENV_def ln_at_echo_enable_def at_write_def)
  ultimately show ?thesis
    using feed task args h by (intro exI [of _ s1] exI [of _ s2] exI [of _ c] exI [of _ b]) (simp add: s1_def)
qed

lemma at_set_dispatched_witness:
  "\<exists>s1 s2. ln_transfer_task (''AT+self_test=1'' @ CRLF_CONTENT) basic_server = Some s1
    \<and> ln_at_parser_task basic_run s1 = Some s2 \<and> at_out s2 = ''AT+self_test=1'' @ CRLF_CONTENT @ LN_AT_RET_OK_STR \<and> \<not> at_busy s2"
proof -
  let ?as = "[Arg_int False ''1'']"
  have line: "set_line ''self_test'' ?as = ''AT+self_test=1''"
    by (simp add: set_line_def)
  have hash: "ln_djb_hash ''AT'' \<noteq> ln_djb_hash ''self_test''" "ln_djb_hash ''ATE0'' \<noteq> ln_djb_hash ''self_test''"
    "ln_djb_hash ''ATE1'' \<noteq> ln_djb_hash ''self_test''" "ln_djb_hash ''SELF_TEST'' = ln_djb_hash ''self_test''"
    by code_simp+
  have less: "j < 3 \<longleftrightarrow> j = 0 \<or> j = 1 \<or> j = (2 :: nat)" for j by linarith
  have "at_ok basic_server"
    unfolding at_ok_def basic_server_def line_buf_Nil
    by (auto simp: length_line_buf intro: exI [of _ "[]"]) (simp add: LN_AT_MAX_LINE_SIZE_def)
  moreover have "\<not> at_busy basic_server" "at_index basic_server = 0" "at_echo basic_server" "at_out basic_server = []"
    "cmd_tbl basic_server = basic_items" "cmd_hash_tbl basic_server = ln_at_cmd_items_init True basic_items"
    by (simp_all add: basic_server_def)
  moreover have "3 < length basic_items" "item_set (basic_items ! 3)" "ln_djb_hash (item_name (basic_items ! 3)) = ln_djb_hash ''self_test''"
    "\<forall>j < 3. ln_djb_hash (item_name (basic_items ! j)) \<noteq> ln_djb_hash ''self_test''"
    using hash by (auto simp: basic_items_def less)
  moreover have "name_ok ''self_test''" "list_all arg_ok ?as" "?as \<noteq> []" "length ?as \<le> LN_AT_MAX_PARA_NUM"
    by (simp_all add: name_ok_def at_digit_def LN_AT_MAX_PARA_NUM_def)
  moreover have "no_special (set_line ''self_test'' ?as @ CRLF_CONTENT)"
    unfolding line by (simp add: no_special_def special_cmd_def CRLF_CONTENT_def)
  moreover have "list_all at_plain (set_line ''self_test'' ?as)" "length (set_line ''self_test'' ?as) + 2 < LN_AT_MAX_LINE_SIZE"
    unfolding line by (simp_all add: at_plain_def c_isprint_def LN_AT_MAX_LINE_SIZE_def)
  ultimately have "\<exists>s1 s2 c b. ln_transfer_task (set_line ''self_test'' ?as @ CRLF_CONTENT) basic_server = Some s1 \<and> parser_sem s1 = 1
    \<and> at_out s1 = at_out basic_server @ (if at_echo basic_server then set_line ''self_test'' ?as @ CRLF_CONTENT else [])
    \<and> (\<forall>k < length ?as. gives c b (Suc k) (?as ! k))
    \<and> ln_at_parser_task basic_run s1 = Some s2 \<and> at_ok s2 \<and> \<not> at_busy s2 \<and> at_index s2 = 0
    \<and> (case basic_run (At_set 3 (length ?as)) c b (at_echo basic_server) of (err, reply, echo) \<Rightarrow> at_out s2 = at_out s1 @ reply \<and> at_echo s2 = echo)"
    by (intro at_set_dispatched) simp_all
  then show ?thesis
    unfolding line by (auto simp: basic_run_def basic_server_def)
qed

end
