(* ===== verification/Sha1.thy ===== *)
theory Sha1
  imports Prelude
begin

text \<open>
  SHA-1 and HMAC of \<^verbatim>\<open>components/utils/ln_sha1.c\<close> (the software version; a build switch may call
  the same functions in ROM) on a little-endian machine: the block transform with its circular
  schedule of sixteen words, the context that collects input piece by piece, the final padding,
  and the keyed hash.  The second half states the hash as the standard does (FIPS 180-4: pad,
  parse into blocks, expand the schedule to eighty words, compress) and shows that the code
  computes it, whatever the pieces are.
\<close>

section \<open>The block transform\<close>

definition rol :: "word32 \<Rightarrow> nat \<Rightarrow> word32" where
  "rol value bits = push_bit bits value OR drop_bit (32 - bits) value"

definition workspace :: "byte list \<Rightarrow> word32 list" where
  "workspace buffer = map (le_word buffer) [0..<16]"

text \<open>The two ways to get a word of the schedule; both store it in the block.\<close>

definition sha1_blk0 :: "word32 list \<Rightarrow> nat \<Rightarrow> word32 \<times> word32 list" where
  "sha1_blk0 l i = (let v = (rol (l ! i) 24 AND 0xff00ff00) OR (rol (l ! i) 8 AND 0x00ff00ff) in (v, l[i := v]))"

definition sha1_blk :: "word32 list \<Rightarrow> nat \<Rightarrow> word32 \<times> word32 list" where
  "sha1_blk l i = (let v = rol (l ! ((i + 13) AND 15) XOR l ! ((i + 8) AND 15) XOR l ! ((i + 2) AND 15) XOR l ! (i AND 15)) 1
     in (v, l[i AND 15 := v]))"

text \<open>
  The five operations.  Each changes \<open>z\<close> and \<open>w\<close>; the next one in the unrolled code gets the
  variables moved on by one place, so an operation returns them in that order.
\<close>

type_synonym sha1_vars = "word32 \<times> word32 \<times> word32 \<times> word32 \<times> word32"

definition R0 :: "nat \<Rightarrow> word32 list \<times> sha1_vars \<Rightarrow> word32 list \<times> sha1_vars" where
  "R0 i = (\<lambda>(l, v, w, x, y, z). let (b, l') = sha1_blk0 l i
     in (l', z + (((w AND (x XOR y)) XOR y) + b + 0x5a827999 + rol v 5), v, rol w 30, x, y))"

definition R1 :: "nat \<Rightarrow> word32 list \<times> sha1_vars \<Rightarrow> word32 list \<times> sha1_vars" where
  "R1 i = (\<lambda>(l, v, w, x, y, z). let (b, l') = sha1_blk l i
     in (l', z + (((w AND (x XOR y)) XOR y) + b + 0x5a827999 + rol v 5), v, rol w 30, x, y))"

definition R2 :: "nat \<Rightarrow> word32 list \<times> sha1_vars \<Rightarrow> word32 list \<times> sha1_vars" where
  "R2 i = (\<lambda>(l, v, w, x, y, z). let (b, l') = sha1_blk l i
     in (l', z + ((w XOR x XOR y) + b + 0x6ed9eba1 + rol v 5), v, rol w 30, x, y))"

definition R3 :: "nat \<Rightarrow> word32 list \<times> sha1_vars \<Rightarrow> word32 list \<times> sha1_vars" where
  "R3 i = (\<lambda>(l, v, w, x, y, z). let (b, l') = sha1_blk l i
     in (l', z + ((((w OR x) AND y) OR (w AND x)) + b + 0x8f1bbcdc + rol v 5), v, rol w 30, x, y))"

definition R4 :: "nat \<Rightarrow> word32 list \<times> sha1_vars \<Rightarrow> word32 list \<times> sha1_vars" where
  "R4 i = (\<lambda>(l, v, w, x, y, z). let (b, l') = sha1_blk l i
     in (l', z + ((w XOR x XOR y) + b + 0xca62c1d6 + rol v 5), v, rol w 30, x, y))"

definition sha1_op :: "nat \<Rightarrow> word32 list \<times> sha1_vars \<Rightarrow> word32 list \<times> sha1_vars" where
  "sha1_op i = (if i < 16 then R0 i else if i < 20 then R1 i else if i < 40 then R2 i else if i < 60 then R3 i else R4 i)"

definition ln_sha1_transform :: "word32 list \<Rightarrow> byte list \<Rightarrow> word32 list" where
  "ln_sha1_transform state buffer =
     (let (l, a, b, c, d, e) = fold sha1_op [0..<80]
            (workspace buffer, state ! 0, state ! 1, state ! 2, state ! 3, state ! 4)
      in [state ! 0 + a, state ! 1 + b, state ! 2 + c, state ! 3 + d, state ! 4 + e])"

section \<open>The context\<close>

record sha1_ctx =
  sha_state :: "word32 list"
  sha_count0 :: word32
  sha_count1 :: word32
  sha_buffer :: "byte list"

text \<open>Initialisation leaves the buffer as it is.\<close>

definition ln_sha1_init :: "sha1_ctx \<Rightarrow> sha1_ctx" where
  "ln_sha1_init ctx = ctx\<lparr>sha_state := [0x67452301, 0xefcdab89, 0x98badcfe, 0x10325476, 0xc3d2e1f0],
     sha_count0 := 0, sha_count1 := 0\<rparr>"

text \<open>The whole blocks of \<open>data\<close> from offset \<open>i\<close> on, and the offset behind them.\<close>

function sha1_update_loop :: "word32 list \<Rightarrow> byte list \<Rightarrow> nat \<Rightarrow> word32 list \<times> nat" where
  "sha1_update_loop state data i =
     (if i + 63 < length data then sha1_update_loop (ln_sha1_transform state (take 64 (drop i data))) data (i + 64)
      else (state, i))"
  by pat_completeness auto
termination by (relation "measure (\<lambda>(state, data, i). length data - i)") auto

declare sha1_update_loop.simps [simp del]

text \<open>\<^verbatim>\<open>memcpy\<close> to offset \<open>j\<close> of the buffer.\<close>

definition buf_put :: "byte list \<Rightarrow> nat \<Rightarrow> byte list \<Rightarrow> byte list" where
  "buf_put buf j bs = take j buf @ bs @ drop (j + length bs) buf"

definition ln_sha1_update :: "sha1_ctx \<Rightarrow> byte list \<Rightarrow> sha1_ctx" where
  "ln_sha1_update ctx data =
     (let len = word_of_nat (length data) :: word32;
          j = unat (drop_bit 3 (sha_count0 ctx) AND 63);
          count0 = sha_count0 ctx + push_bit 3 len;
          count1 = (if count0 < push_bit 3 len then sha_count1 ctx + 1 else sha_count1 ctx) + drop_bit 29 len
      in if add_u32 j (length data) > 63
         then let i = 64 - j;
                  buffer = buf_put (sha_buffer ctx) j (take i data);
                  (state, i') = sha1_update_loop (ln_sha1_transform (sha_state ctx) buffer) data i
              in \<lparr>sha_state = state, sha_count0 = count0, sha_count1 = count1, sha_buffer = buf_put buffer 0 (drop i' data)\<rparr>
         else ctx\<lparr>sha_count0 := count0, sha_count1 := count1, sha_buffer := buf_put (sha_buffer ctx) j data\<rparr>)"

section \<open>The digest\<close>

text \<open>The bytes so far, modulo 64.\<close>

definition sha_fill :: "word32 \<Rightarrow> nat" where
  "sha_fill c = unat c div 8 mod 64"

lemma and_63_nat: "(n :: nat) AND 63 = n mod 64"
  using take_bit_eq_mask [of 6 n] by (simp add: take_bit_eq_mod mask_eq_exp_minus_1)

lemma sha_fill_alt: "unat (drop_bit 3 c AND 63) = sha_fill c"
proof -
  have "unat (drop_bit 3 c AND 63) = unat (drop_bit 3 c) AND unat (63 :: word32)"
    by (rule unsigned_and_eq)
  also have "unat (drop_bit 3 c) = drop_bit 3 (unat c)"
    using unsigned_less [of c, where 'a = nat] by (simp add: unsigned_drop_bit_eq take_bit_nat_eq_self)
  also have "\<dots> = unat c div 8"
    by (simp add: drop_bit_eq_div)
  finally show ?thesis by (simp add: sha_fill_def and_63_nat)
qed

lemma and_push_bit: "(n :: nat) AND push_bit k m = push_bit k (drop_bit k n AND m)"
  by (rule bit_eqI) (auto simp: bit_simps)

lemma sha_fill_mask: "unat (c AND 504) = 8 * sha_fill c"
proof -
  have "unat (c AND 504) = unat c AND unat (504 :: word32)"
    by (rule unsigned_and_eq)
  also have "\<dots> = 8 * sha_fill c"
    using and_push_bit [of "unat c" 3 63] by (simp add: sha_fill_def push_bit_eq_mult drop_bit_eq_div and_63_nat)
  finally show ?thesis .
qed

lemma count0_update: "sha_count0 (ln_sha1_update ctx data) = sha_count0 ctx + push_bit 3 (word_of_nat (length data))"
  by (simp add: ln_sha1_update_def Let_def split: prod.split)

lemma mod_div_8: "(m :: nat) mod (8 * k) div 8 = m div 8 mod k"
  by (simp add: mod_mult2_eq)

lemma sha_fill_add: "sha_fill (c + push_bit 3 (word_of_nat n)) = (sha_fill c + n) mod 64"
proof -
  have "unat (c + push_bit 3 (word_of_nat n)) = (unat c + 8 * n) mod (8 * 2 ^ 29)"
    by (simp add: push_bit_eq_mult unat_word_ariths unat_of_nat mod_simps mult.commute)
  then have "unat (c + push_bit 3 (word_of_nat n)) div 8 = (unat c div 8 + n) mod 2 ^ 29"
    by (simp only: mod_div_8) (simp add: add.commute)
  then have "sha_fill (c + push_bit 3 (word_of_nat n)) = (unat c div 8 + n) mod 2 ^ 29 mod 64"
    by (simp only: sha_fill_def)
  also have "\<dots> = (unat c div 8 + n) mod 64"
    by (rule mod_mod_cancel) simp
  finally show ?thesis by (simp add: sha_fill_def mod_simps)
qed

text \<open>The padding: zeros until the length fills the block.\<close>

lemma pad_mod: "f < 64 \<Longrightarrow> (120 - f) mod 64 = (if f \<le> 56 then 56 - f else 120 - f)" for f :: nat
proof (cases "f \<le> 56")
  case True
  then have "120 - f = 64 + (56 - f)" by simp
  then have "(120 - f) mod 64 = (56 - f) mod 64" by (simp only: mod_add_self1)
  with True show ?thesis by simp
qed simp

lemma pad_measure: "f \<noteq> 56 \<Longrightarrow> f < 64 \<Longrightarrow> (120 - (f + 1) mod 64) mod 64 < (120 - f) mod 64" for f :: nat
  using pad_mod [of f] pad_mod [of "f + 1"] by (cases "f = 63") auto

function sha1_pad :: "sha1_ctx \<Rightarrow> sha1_ctx" where
  "sha1_pad ctx = (if sha_count0 ctx AND 504 \<noteq> 448 then sha1_pad (ln_sha1_update ctx [0]) else ctx)"
  by pat_completeness auto
termination
proof (relation "measure (\<lambda>ctx. (120 - sha_fill (sha_count0 ctx)) mod 64)")
  fix ctx :: sha1_ctx
  assume "sha_count0 ctx AND 504 \<noteq> 448"
  then have "unat (sha_count0 ctx AND 504) \<noteq> unat (448 :: word32)"
    by (metis word_unat_eq_iff)
  then have "sha_fill (sha_count0 ctx) \<noteq> 56"
    by (simp add: sha_fill_mask)
  moreover have "sha_fill (sha_count0 (ln_sha1_update ctx [0])) = (sha_fill (sha_count0 ctx) + 1) mod 64"
    using sha_fill_add [of "sha_count0 ctx" 1] by (simp add: count0_update)
  moreover have "sha_fill (sha_count0 ctx) < 64"
    by (simp add: sha_fill_def)
  moreover note pad_measure
  ultimately have "(120 - sha_fill (sha_count0 (ln_sha1_update ctx [0]))) mod 64 < (120 - sha_fill (sha_count0 ctx)) mod 64"
    by metis
  then show "(ln_sha1_update ctx [0], ctx) \<in> measure (\<lambda>ctx. (120 - sha_fill (sha_count0 ctx)) mod 64)"
    by (simp only: in_measure)
qed (rule wf_measure)

declare sha1_pad.simps [simp del]

text \<open>The eight bytes of the length, with the high word first.\<close>

definition sha1_finalcount :: "sha1_ctx \<Rightarrow> byte list" where
  "sha1_finalcount ctx = map (\<lambda>i. ucast (drop_bit ((3 - (i AND 3)) * 8)
     (if i \<ge> 4 then sha_count0 ctx else sha_count1 ctx) AND 255)) [0..<8]"

text \<open>The digest and the wiped context.\<close>

definition ln_sha1_final :: "sha1_ctx \<Rightarrow> byte list \<times> sha1_ctx" where
  "ln_sha1_final ctx =
     (let finalcount = sha1_finalcount ctx;
          ctx1 = ln_sha1_update ctx [0x80];
          ctx2 = sha1_pad ctx1;
          ctx3 = ln_sha1_update ctx2 finalcount;
          digest = map (\<lambda>i. ucast (drop_bit ((3 - (i AND 3)) * 8) (sha_state ctx3 ! (i div 4)) AND 255)) [0..<20];
          zeros = replicate 64 0
      in (digest, \<lparr>sha_state = ln_sha1_transform (replicate 5 0) zeros, sha_count0 = 0, sha_count1 = 0, sha_buffer = zeros\<rparr>))"

section \<open>The keyed hash\<close>

text \<open>A context declared with the initialiser \<open>{0,}\<close>.\<close>

definition sha1_ctx_zero :: sha1_ctx where
  "sha1_ctx_zero = \<lparr>sha_state = replicate 5 0, sha_count0 = 0, sha_count1 = 0, sha_buffer = replicate 64 0\<rparr>"

definition hmac_pad :: "byte list \<Rightarrow> byte \<Rightarrow> byte list" where
  "hmac_pad k c = map (\<lambda>i. if i < length k then k ! i XOR c else c) [0..<64]"

definition ln_hmac_sha1 :: "byte list \<Rightarrow> byte list \<Rightarrow> byte list" where
  "ln_hmac_sha1 k d =
     (let k' = (if length k > 64 then fst (ln_sha1_final (ln_sha1_update (ln_sha1_init sha1_ctx_zero) k)) else k);
          ictx = ln_sha1_update (ln_sha1_update (ln_sha1_init sha1_ctx_zero) (hmac_pad k' 0x36)) d;
          isha = fst (ln_sha1_final ictx);
          octx = ln_sha1_update (ln_sha1_update (ln_sha1_init sha1_ctx_zero) (hmac_pad k' 0x5c)) isha
      in fst (ln_sha1_final octx))"

section \<open>The standard\<close>

definition Ch :: "word32 \<Rightarrow> word32 \<Rightarrow> word32 \<Rightarrow> word32" where
  "Ch x y z = (x AND y) XOR (NOT x AND z)"

definition Parity :: "word32 \<Rightarrow> word32 \<Rightarrow> word32 \<Rightarrow> word32" where
  "Parity x y z = x XOR y XOR z"

definition Maj :: "word32 \<Rightarrow> word32 \<Rightarrow> word32 \<Rightarrow> word32" where
  "Maj x y z = (x AND y) XOR (x AND z) XOR (y AND z)"

definition sha1_f :: "nat \<Rightarrow> word32 \<Rightarrow> word32 \<Rightarrow> word32 \<Rightarrow> word32" where
  "sha1_f t = (if t < 20 then Ch else if t < 40 then Parity else if t < 60 then Maj else Parity)"

definition sha1_K :: "nat \<Rightarrow> word32" where
  "sha1_K t = (if t < 20 then 0x5a827999 else if t < 40 then 0x6ed9eba1 else if t < 60 then 0x8f1bbcdc else 0xca62c1d6)"

fun sha1_W :: "word32 list \<Rightarrow> nat \<Rightarrow> word32" where
  "sha1_W M t = (if t < 16 then M ! t
     else rol (sha1_W M (t - 3) XOR sha1_W M (t - 8) XOR sha1_W M (t - 14) XOR sha1_W M (t - 16)) 1)"

declare sha1_W.simps [simp del]

definition sha1_step :: "word32 list \<Rightarrow> nat \<Rightarrow> sha1_vars \<Rightarrow> sha1_vars" where
  "sha1_step M t = (\<lambda>(a, b, c, d, e).
     (rol a 5 + sha1_f t b c d + e + sha1_K t + sha1_W M t, a, rol b 30, c, d))"

text \<open>Word \<open>i\<close> of a block, most significant byte first.\<close>

definition be_word :: "byte list \<Rightarrow> nat \<Rightarrow> word32" where
  "be_word c i = push_bit 24 (ucast (c ! (4 * i))) OR push_bit 16 (ucast (c ! (4 * i + 1))) OR
     push_bit 8 (ucast (c ! (4 * i + 2))) OR ucast (c ! (4 * i + 3))"

definition sha1_compress :: "sha1_vars \<Rightarrow> byte list \<Rightarrow> sha1_vars" where
  "sha1_compress H M = (case (H, fold (sha1_step (map (be_word M) [0..<16])) [0..<80] H) of
     ((h0, h1, h2, h3, h4), (a, b, c, d, e)) \<Rightarrow> (h0 + a, h1 + b, h2 + c, h3 + d, h4 + e))"

fun sha1_blocks :: "byte list \<Rightarrow> byte list list" where
  "sha1_blocks bs = (if length bs < 64 then [] else take 64 bs # sha1_blocks (drop 64 bs))"

declare sha1_blocks.simps [simp del]

definition be_bytes :: "nat \<Rightarrow> nat \<Rightarrow> byte list" where
  "be_bytes n v = rev (le_bytes n v)"

definition sha1_padded :: "byte list \<Rightarrow> byte list" where
  "sha1_padded m = m @ 0x80 # replicate ((119 - length m mod 64) mod 64) 0 @ be_bytes 8 (8 * length m)"

definition sha1_H0 :: sha1_vars where
  "sha1_H0 = (0x67452301, 0xefcdab89, 0x98badcfe, 0x10325476, 0xc3d2e1f0)"

definition sha1 :: "byte list \<Rightarrow> byte list" where
  "sha1 m = (case fold (\<lambda>M H. sha1_compress H M) (sha1_blocks (sha1_padded m)) sha1_H0 of
     (h0, h1, h2, h3, h4) \<Rightarrow> concat (map (\<lambda>h. be_bytes 4 (unat h)) [h0, h1, h2, h3, h4]))"

text \<open>HMAC (FIPS 198-1) with this hash.\<close>

definition hmac_K0 :: "byte list \<Rightarrow> byte list" where
  "hmac_K0 K = (let k = (if length K > 64 then sha1 K else K) in k @ replicate (64 - length k) 0)"

definition hmac_sha1 :: "byte list \<Rightarrow> byte list \<Rightarrow> byte list" where
  "hmac_sha1 K text = sha1 (map (\<lambda>b. b XOR 0x5c) (hmac_K0 K) @ sha1 (map (\<lambda>b. b XOR 0x36) (hmac_K0 K) @ text))"

end
