(* ===== verification/Sha1_Correct.thy ===== *)
theory Sha1_Correct
  imports Sha1
begin

text \<open>
  The SHA-1 code computes the hash of the standard: the circular schedule holds the last
  sixteen words of the expanded one, an operation is a step of the compression, the context after
  some pieces represents their concatenation (\<open>sha1_rel\<close>), and the final padding is that of the
  standard.  The locale \<open>incremental_hash\<close> is what a client of the three functions relies on.
\<close>

section \<open>Words\<close>

lemma Ch_alt: "((w AND (x XOR y)) XOR y) = Ch w x y"
  unfolding Ch_def by (rule bit_eqI) (auto simp: bit_simps)

lemma Maj_alt: "(((w OR x) AND y) OR (w AND x)) = Maj w x y"
  unfolding Maj_def by (rule bit_eqI) (auto simp: bit_simps)

lemma all_less_32: "(\<forall>n < 32. P n) \<longleftrightarrow> list_all P [0, 1, 2, 3, 4, 5, 6, 7, 8, 9, 10, 11, 12, 13, 14, 15, 16, 17, 18, 19, 20, 21, 22, 23, 24, 25, 26, 27, 28, 29, 30, 31]" for P :: "nat \<Rightarrow> bool"
proof -
  have "[0..<32] = [0, 1, 2, 3, 4, 5, 6, 7, 8, 9, 10, 11, 12, 13, 14, 15, 16, 17, 18, 19, 20, 21, 22, 23, 24, 25, 26, 27, 28, 29, 30, 31]" by code_simp
  then show ?thesis by (metis atLeastLessThan_iff list_all_iff set_upt zero_le)
qed

lemma swap_bytes:
  "(rol (le_word c i) 24 AND 0xff00ff00) OR (rol (le_word c i) 8 AND 0x00ff00ff) = be_word c i"
proof (rule bit_eqI)
  fix n
  assume "possible_bit TYPE(32 word) n"
  then have "n < 32" by simp
  moreover have "\<forall>n < 32. bit ((rol (le_word c i) 24 AND 0xff00ff00) OR (rol (le_word c i) 8 AND 0x00ff00ff)) n
      = bit (be_word c i) n"
    unfolding all_less_32
    by (simp add: le_word_def be_word_def rol_def bit_simps not_bit_byte)
  ultimately show "bit ((rol (le_word c i) 24 AND 0xff00ff00) OR (rol (le_word c i) 8 AND 0x00ff00ff)) n
      = bit (be_word c i) n" by blast
qed

section \<open>The schedule\<close>

text \<open>The index of the schedule that place \<open>k\<close> of the block holds before operation \<open>t\<close>.\<close>

definition sched_at :: "nat \<Rightarrow> nat \<Rightarrow> nat" where
  "sched_at t k = k + 16 * ((t - 1 - k) div 16)"

definition sched_ok :: "byte list \<Rightarrow> nat \<Rightarrow> word32 list \<Rightarrow> bool" where
  "sched_ok c t l \<longleftrightarrow> length l = 16 \<and>
     (\<forall>k < 16. l ! k = (if t \<le> k then le_word c k else sha1_W (map (be_word c) [0..<16]) (sched_at t k)))"

lemma sched_at_back:
  assumes "1 \<le> j" and "j \<le> 16" and "16 \<le> t"
  shows "sched_at t ((t - j) mod 16) = t - j"
proof -
  define q k where "q = (t - j) div 16" and "k = (t - j) mod 16"
  have "t - j = 16 * q + k" by (simp add: q_def k_def)
  then have "t - 1 - k = (j - 1) + 16 * q" using assms by simp
  then have "(t - 1 - k) div 16 = q" using assms by simp
  moreover have "(t - j) mod 16 = k" by (simp add: k_def)
  ultimately show ?thesis
    using \<open>t - j = 16 * q + k\<close> by (simp add: sched_at_def)
qed

lemma sched_at_same:
  assumes "k < 16" and "k \<noteq> t mod 16" and "k < t"
  shows "sched_at (Suc t) k = sched_at t k"
proof -
  obtain n where n: "t = Suc (k + n)"
    using assms(3) less_iff_Suc_add by blast
  have "Suc n mod 16 \<noteq> 0"
  proof
    assume "Suc n mod 16 = 0"
    then have "(k + Suc n) mod 16 = k mod 16"
      by (metis add.right_neutral mod_add_right_eq)
    with assms n show False by simp
  qed
  then have "Suc n div 16 = n div 16"
    by (simp add: div_Suc)
  with n show ?thesis by (simp add: sched_at_def)
qed

lemma and_15_nat: "(n :: nat) AND 15 = n mod 16"
  using take_bit_eq_mask [of 4 n] by (simp add: take_bit_eq_mod mask_eq_exp_minus_1)

lemma sched_blk0:
  assumes "sched_ok c t l" and "t < 16"
  shows "fst (sha1_blk0 l t) = sha1_W (map (be_word c) [0..<16]) t \<and> sched_ok c (Suc t) (snd (sha1_blk0 l t))"
proof -
  have v: "(rol (l ! t) 24 AND 0xff00ff00) OR (rol (l ! t) 8 AND 0x00ff00ff) = be_word c t"
    using assms swap_bytes [of c t] by (simp add: sched_ok_def)
  have w: "sha1_W (map (be_word c) [0..<16]) k = be_word c k" if "k < 16" for k
    using that by (simp add: sha1_W.simps)
  have "sched_at (Suc t) k = k" if "k \<le> t" for k
    using that assms(2) by (simp add: sched_at_def)
  moreover have "sched_at t k = k" if "k < t" for k
    using that assms(2) by (simp add: sched_at_def)
  ultimately show ?thesis
    using assms v w by (auto simp: sha1_blk0_def Let_def sched_ok_def nth_list_update)
qed

lemma sched_blk:
  assumes "sched_ok c t l" and "16 \<le> t"
  shows "fst (sha1_blk l t) = sha1_W (map (be_word c) [0..<16]) t \<and> sched_ok c (Suc t) (snd (sha1_blk l t))"
proof -
  let ?W = "sha1_W (map (be_word c) [0..<16])"
  have idx: "l ! ((t + i) AND 15) = ?W (t - j)" if "i + j = 16" "1 \<le> j" for i j
  proof -
    have "t + i = (t - j) + 16"
      using that assms(2) by simp
    then have "(t + i) mod 16 = (t - j) mod 16"
      by (simp only: mod_add_self2)
    with that assms sched_at_back [of j t] show ?thesis
      by (simp add: sched_ok_def and_15_nat mod_less_divisor)
  qed
  have v: "rol (l ! ((t + 13) AND 15) XOR l ! ((t + 8) AND 15) XOR l ! ((t + 2) AND 15) XOR l ! (t AND 15)) 1 = ?W t"
    using idx [of 13 3] idx [of 8 8] idx [of 2 14] idx [of 0 16] assms(2) by (simp add: sha1_W.simps [of _ t])
  have "sched_at (Suc t) (t mod 16) = t"
  proof -
    have "t = 16 * (t div 16) + t mod 16" by simp
    then have "t - t mod 16 = 16 * (t div 16)" by linarith
    then have "(t - t mod 16) div 16 = t div 16" by simp
    then show ?thesis by (simp add: sched_at_def)
  qed
  then show ?thesis
    using assms v sched_at_same [of _ t]
    by (auto simp: sha1_blk_def Let_def sched_ok_def nth_list_update and_15_nat)
qed

section \<open>The compression\<close>

lemma sha1_op_step:
  assumes "sched_ok c t l" and "t < 80"
  shows "\<exists>l'. sha1_op t (l, H) = (l', sha1_step (map (be_word c) [0..<16]) t H) \<and> sched_ok c (Suc t) l'"
proof (cases "t < 16")
  case True
  then show ?thesis
    using sched_blk0 [OF assms(1) True] assms(2)
    by (cases H) (auto simp: sha1_op_def R0_def sha1_step_def sha1_f_def sha1_K_def Ch_alt algebra_simps split: prod.splits)
next
  case False
  then show ?thesis
    using sched_blk [OF assms(1)] assms(2)
    by (cases H) (auto simp: sha1_op_def R1_def R2_def R3_def R4_def sha1_step_def sha1_f_def sha1_K_def Ch_alt Maj_alt
        Parity_def algebra_simps split: prod.splits)
qed

lemma sha1_ops:
  assumes "t \<le> 80"
  shows "\<exists>l. fold sha1_op [0..<t] (workspace c, H) = (l, fold (sha1_step (map (be_word c) [0..<16])) [0..<t] H)
    \<and> sched_ok c t l"
  using assms
proof (induction t)
  case 0
  then show ?case by (simp add: sched_ok_def workspace_def)
next
  case (Suc t)
  then obtain l where "fold sha1_op [0..<t] (workspace c, H) = (l, fold (sha1_step (map (be_word c) [0..<16])) [0..<t] H)"
    and "sched_ok c t l" by auto
  with Suc.prems sha1_op_step [of c t l] show ?case by auto
qed

fun vars_list :: "sha1_vars \<Rightarrow> word32 list" where
  "vars_list (a, b, c, d, e) = [a, b, c, d, e]"

lemma transform_eq: "ln_sha1_transform (vars_list H) c = vars_list (sha1_compress H c)"
proof -
  obtain l where "fold sha1_op [0..<80] (workspace c, H) = (l, fold (sha1_step (map (be_word c) [0..<16])) [0..<80] H)"
    using sha1_ops [of 80 c H] by auto
  then show ?thesis
    by (cases H) (simp add: ln_sha1_transform_def sha1_compress_def split: prod.splits)
qed

section \<open>Blocks\<close>

definition sha1_chain :: "byte list \<Rightarrow> sha1_vars" where
  "sha1_chain m = fold (\<lambda>M H. sha1_compress H M) (sha1_blocks m) sha1_H0"

lemma sha1_blocks_short: "length bs < 64 \<Longrightarrow> sha1_blocks bs = []"
  by (simp add: sha1_blocks.simps)

lemma sha1_blocks_append: "64 dvd length xs \<Longrightarrow> sha1_blocks (xs @ ys) = sha1_blocks xs @ sha1_blocks ys"
proof (induction xs rule: sha1_blocks.induct)
  case (1 xs)
  show ?case
  proof (cases "xs = []")
    case False
    then have "64 \<le> length xs"
      using 1(2) by (intro dvd_imp_le) auto
    with 1 show ?thesis
      by (simp add: sha1_blocks.simps [of "xs @ ys"] sha1_blocks.simps [of xs] dvd_diff_nat)
  qed (simp add: sha1_blocks_short)
qed

lemma sha1_blocks_one: "length b = 64 \<Longrightarrow> sha1_blocks b = [b]"
  by (simp add: sha1_blocks.simps)

text \<open>The bytes behind the last whole block.\<close>

definition sha1_tail :: "byte list \<Rightarrow> byte list" where
  "sha1_tail m = drop (length m - length m mod 64) m"

lemma length_sha1_tail: "length (sha1_tail m) = length m mod 64"
  by (simp add: sha1_tail_def)

lemma sha1_split: obtains b where "m = b @ sha1_tail m" and "64 dvd length b" and "sha1_blocks m = sha1_blocks b"
proof
  let ?b = "take (length m - length m mod 64) m"
  show m: "m = ?b @ sha1_tail m"
    by (simp add: sha1_tail_def)
  have "length ?b = 64 * (length m div 64)"
    by (simp add: minus_mod_eq_mult_div)
  then show d: "64 dvd length ?b" by simp
  show "sha1_blocks m = sha1_blocks ?b"
    using sha1_blocks_append [OF d, of "sha1_tail m"] length_sha1_tail [of m] m
    by (simp add: sha1_blocks_short)
qed

lemma sha1_tail_append: "64 dvd length b \<Longrightarrow> length t < 64 \<Longrightarrow> sha1_tail (b @ t) = t"
  by (auto simp: sha1_tail_def elim!: dvdE)

lemma chain_append:
  assumes "64 dvd length b"
  shows "sha1_chain (b @ t) = fold (\<lambda>M H. sha1_compress H M) (sha1_blocks t) (sha1_chain b)"
  using assms by (simp add: sha1_chain_def sha1_blocks_append)

lemma update_loop_eq:
  "\<exists>b t. drop i data = b @ t \<and> 64 dvd length b \<and> (i \<le> length data \<longrightarrow> length t < 64)
    \<and> sha1_update_loop (vars_list H) data i = (vars_list (fold (\<lambda>M H. sha1_compress H M) (sha1_blocks b) H), i + length b)
    \<and> drop (i + length b) data = t"
proof (induction "vars_list H" data i arbitrary: H rule: sha1_update_loop.induct)
  case (1 data i)
  show ?case
  proof (cases "i + 63 < length data")
    case False
    then show ?thesis
      by (intro exI [of _ "[]"] exI [of _ "drop i data"]) (auto simp: sha1_update_loop.simps [of _ data i] sha1_blocks_short)
  next
    case True
    define M where "M = take 64 (drop i data)"
    have M: "length M = 64" using True by (simp add: M_def)
    have eq: "ln_sha1_transform (vars_list H) (take 64 (drop i data)) = vars_list (sha1_compress H M)"
      by (simp add: M_def transform_eq)
    obtain b t where ih: "drop (i + 64) data = b @ t" "64 dvd length b" "i + 64 \<le> length data \<longrightarrow> length t < 64"
      "sha1_update_loop (vars_list (sha1_compress H M)) data (i + 64)
        = (vars_list (fold (\<lambda>M H. sha1_compress H M) (sha1_blocks b) (sha1_compress H M)), i + 64 + length b)"
      "drop (i + 64 + length b) data = t"
      using 1(1) [OF True eq] by (elim exE conjE) (rule that)
    have "drop i data = M @ drop (i + 64) data"
      by (metis M_def append_take_drop_id drop_drop add.commute)
    with ih have "drop i data = (M @ b) @ t" by simp
    moreover have "sha1_update_loop (vars_list H) data i = sha1_update_loop (vars_list (sha1_compress H M)) data (i + 64)"
      using True by (simp add: sha1_update_loop.simps [of _ data i] M_def [symmetric] transform_eq)
    moreover have "sha1_blocks (M @ b) = M # sha1_blocks b"
      using M by (simp add: sha1_blocks_append sha1_blocks_one)
    ultimately show ?thesis
      using ih M True by (intro exI [of _ "M @ b"] exI [of _ t]) (auto simp: algebra_simps)
  qed
qed

section \<open>The context\<close>

text \<open>The context represents the bytes \<open>m\<close>.\<close>

definition sha1_rel :: "sha1_ctx \<Rightarrow> byte list \<Rightarrow> bool" where
  "sha1_rel ctx m \<longleftrightarrow> sha_state ctx = vars_list (sha1_chain m)
     \<and> sha_count0 ctx = word_of_nat (8 * length m) \<and> sha_count1 ctx = word_of_nat (8 * length m div 2 ^ 32)
     \<and> length (sha_buffer ctx) = 64 \<and> take (length m mod 64) (sha_buffer ctx) = sha1_tail m"

lemma sha1_rel_init: "length (sha_buffer ctx) = 64 \<Longrightarrow> sha1_rel (ln_sha1_init ctx) []"
  by (simp add: sha1_rel_def ln_sha1_init_def sha1_chain_def sha1_blocks_short sha1_H0_def sha1_tail_def)

lemma length_buf_put: "j + length bs \<le> length buf \<Longrightarrow> length (buf_put buf j bs) = length buf"
  by (simp add: buf_put_def)

lemma add_div_mod_less:
  fixes x y n :: nat
  assumes "x < n" and "y < n"
  shows "(x + y) div n = (if x + y < n then 0 else 1) \<and> (x + y) mod n = (if x + y < n then x + y else x + y - n)"
  using assms by (auto simp: div_eq_0_iff le_div_geq le_mod_geq)

lemma div_add_carry:
  fixes a b n :: nat
  assumes "0 < n"
  shows "(a + b) div n = a div n + b div n + (if (a + b) mod n < b mod n then 1 else 0)"
proof -
  define x y where "x = a mod n" and "y = b mod n"
  have "x < n" "y < n" using assms by (simp_all add: x_def y_def)
  moreover have "(a + b) div n = a div n + b div n + (x + y) div n"
    unfolding x_def y_def by (rule div_add1_eq)
  moreover have "(a + b) mod n = (x + y) mod n"
    by (simp add: mod_simps x_def y_def)
  ultimately show ?thesis
    using add_div_mod_less [of x n y] by (auto simp: y_def [symmetric])
qed

lemma count_update:
  assumes "n < 2 ^ 32"
  shows "(word_of_nat L :: word32) + push_bit 3 (word_of_nat n) = word_of_nat (L + 8 * n)"
    and "(if (word_of_nat (L + 8 * n) :: word32) < push_bit 3 (word_of_nat n) then word_of_nat (L div 2 ^ 32) + 1 else word_of_nat (L div 2 ^ 32))
      + drop_bit 29 (word_of_nat n) = (word_of_nat ((L + 8 * n) div 2 ^ 32) :: word32)"
proof -
  have p: "push_bit 3 (word_of_nat n) = (word_of_nat (8 * n) :: word32)"
    by (simp add: push_bit_eq_mult mult.commute)
  then show "(word_of_nat L :: word32) + push_bit 3 (word_of_nat n) = word_of_nat (L + 8 * n)" by simp
  have less: "((word_of_nat x :: word32) < word_of_nat y) = (x mod 2 ^ 32 < y mod 2 ^ 32)" for x y
    by (simp only: word_less_nat_alt unat_of_nat) simp
  have d: "drop_bit 29 (word_of_nat n) = (word_of_nat (8 * n div 2 ^ 32) :: word32)"
  proof -
    have "8 * n div 2 ^ 32 = n div 2 ^ 29"
      using div_mult2_eq [of "8 * n" 8 "2 ^ 29"] by simp
    moreover have "(word_of_nat n :: word32) div 2 ^ 29 = word_of_nat (n div 2 ^ 29)"
      using assms by (intro word_unat_eq_iff [THEN iffD2]) (simp add: unat_div unat_of_nat)
    ultimately show ?thesis by (simp add: drop_bit_eq_div)
  qed
  show "(if (word_of_nat (L + 8 * n) :: word32) < push_bit 3 (word_of_nat n) then word_of_nat (L div 2 ^ 32) + 1 else word_of_nat (L div 2 ^ 32))
      + drop_bit 29 (word_of_nat n) = (word_of_nat ((L + 8 * n) div 2 ^ 32) :: word32)"
    unfolding p d less using div_add_carry [of "2 ^ 32" L "8 * n"] by (simp del: power_Suc)
qed

lemma count1_update: "sha_count1 (ln_sha1_update ctx data) =
    (if sha_count0 (ln_sha1_update ctx data) < push_bit 3 (word_of_nat (length data)) then sha_count1 ctx + 1 else sha_count1 ctx)
      + drop_bit 29 (word_of_nat (length data))"
  unfolding count0_update by (simp add: ln_sha1_update_def Let_def split: prod.split)

text \<open>The sums of indices do not wrap for data of this length.\<close>

definition sha1_ok :: "byte list \<Rightarrow> bool" where
  "sha1_ok d \<longleftrightarrow> length d < 2 ^ 32 - 64"

lemma sha1_fill_rel: "sha1_rel ctx m \<Longrightarrow> sha_fill (sha_count0 ctx) = length m mod 64"
  using sha_fill_add [of 0 "length m"] by (simp add: sha1_rel_def sha_fill_def push_bit_eq_mult mult.commute)

lemma sha1_rel_update:
  assumes rel: "sha1_rel ctx m" and ok: "sha1_ok d"
  shows "sha1_rel (ln_sha1_update ctx d) (m @ d)"
proof -
  define j where "j = length m mod 64"
  have j: "j < 64" by (simp add: j_def)
  have d: "length d < 2 ^ 32" "j + length d < 2 ^ 32"
    using ok j by (simp_all add: sha1_ok_def)
  have fill: "unat (drop_bit 3 (sha_count0 ctx) AND 63) = j"
    using sha1_fill_rel [OF rel] by (simp only: sha_fill_alt j_def)
  have c0: "sha_count0 (ln_sha1_update ctx d) = word_of_nat (8 * length (m @ d))"
    using count_update(1) [OF d(1), of "8 * length m"] rel by (simp add: count0_update sha1_rel_def algebra_simps)
  have c1: "sha_count1 (ln_sha1_update ctx d) = word_of_nat (8 * length (m @ d) div 2 ^ 32)"
  proof -
    have len: "8 * length (m @ d) = 8 * length m + 8 * length d" by simp
    have "sha_count1 ctx = word_of_nat (8 * length m div 2 ^ 32)"
      using rel by (simp only: sha1_rel_def)
    then show ?thesis
      unfolding count1_update c0 len by (simp only: count_update(2) [OF d(1)])
  qed
  obtain b where b: "m = b @ sha1_tail m" "64 dvd length b" "sha1_blocks m = sha1_blocks b"
    by (rule sha1_split)
  have chain_b: "sha1_chain m = sha1_chain b"
    by (simp add: sha1_chain_def b(3))
  have tail: "length (sha1_tail m) = j" by (simp add: length_sha1_tail j_def)
  have buf: "length (sha_buffer ctx) = 64" "take j (sha_buffer ctx) = sha1_tail m"
    using rel by (simp_all add: sha1_rel_def j_def)
  have st: "sha_state ctx = vars_list (sha1_chain m)"
    using rel by (simp add: sha1_rel_def)
  show ?thesis
  proof (cases "add_u32 j (length d) > 63")
    case False
    then have s: "j + length d < 64"
      using d by (simp add: add_u32_nocarry)
    then have t: "sha1_tail (m @ d) = sha1_tail m @ d" "sha1_chain (m @ d) = sha1_chain m"
    proof -
      have md: "m @ d = b @ (sha1_tail m @ d)"
        using b(1) by (metis append.assoc)
      show "sha1_tail (m @ d) = sha1_tail m @ d"
        unfolding md by (rule sha1_tail_append [OF b(2)]) (use s tail in simp)
      show "sha1_chain (m @ d) = sha1_chain m"
        unfolding md chain_append [OF b(2)] using s tail by (simp add: sha1_blocks_short chain_b)
    qed
    have l: "length (m @ d) mod 64 = j + length d"
      using length_sha1_tail [of "m @ d"] t tail by simp
    have "sha_state (ln_sha1_update ctx d) = vars_list (sha1_chain (m @ d))"
      using t False by (simp add: ln_sha1_update_def Let_def fill st)
    moreover have "sha_buffer (ln_sha1_update ctx d) = buf_put (sha_buffer ctx) j d"
      using False by (simp add: ln_sha1_update_def Let_def fill)
    moreover have "take (j + length d) (buf_put (sha_buffer ctx) j d) = sha1_tail (m @ d)"
      using s buf t tail by (simp add: buf_put_def)
    ultimately show ?thesis
      using c0 c1 s buf l by (simp add: sha1_rel_def length_buf_put)
  next
    case True
    then have s: "64 \<le> j + length d"
      using d by (simp add: add_u32_nocarry)
    define i where "i = 64 - j"
    define buffer where "buffer = buf_put (sha_buffer ctx) j (take i d)"
    have i: "i \<le> length d" "j + i = 64" using s j by (simp_all add: i_def)
    have buffer: "buffer = sha1_tail m @ take i d" "length buffer = 64"
      using buf i j by (simp_all add: buffer_def buf_put_def tail)
    obtain c t where loop: "drop i d = c @ t" "64 dvd length c" "i \<le> length d \<longrightarrow> length t < 64"
      "sha1_update_loop (vars_list (sha1_compress (sha1_chain m) buffer)) d i
        = (vars_list (fold (\<lambda>M H. sha1_compress H M) (sha1_blocks c) (sha1_compress (sha1_chain m) buffer)), i + length c)"
      "drop (i + length c) d = t"
      using update_loop_eq [of i d "sha1_compress (sha1_chain m) buffer"] by (elim exE conjE) (rule that)
    have md: "m @ d = (b @ buffer @ c) @ t"
      using b(1) loop(1) buffer(1) append_take_drop_id [of i d] by (metis append.assoc)
    have dvd: "64 dvd length (b @ buffer @ c)"
      using b(2) loop(2) buffer(2) by simp
    have t: "length t < 64" using loop(3) i by simp
    have chain: "sha1_chain (m @ d) = fold (\<lambda>M H. sha1_compress H M) (sha1_blocks c) (sha1_compress (sha1_chain m) buffer)"
      unfolding md append.assoc using dvd t b(2) buffer(2) loop(2)
      by (simp add: chain_append sha1_blocks_append sha1_blocks_one sha1_blocks_short chain_b)
    have tl: "sha1_tail (m @ d) = t"
      unfolding md by (rule sha1_tail_append [OF dvd t])
    have upd: "sha_state (ln_sha1_update ctx d) = vars_list (sha1_chain (m @ d))"
      "sha_buffer (ln_sha1_update ctx d) = buf_put buffer 0 t"
      using True loop(4,5) chain
      by (simp_all add: ln_sha1_update_def Let_def fill st transform_eq i_def [symmetric] buffer_def [symmetric])
    have "length (m @ d) mod 64 = length t"
      using length_sha1_tail [of "m @ d"] by (simp add: tl)
    then show ?thesis
      using c0 c1 upd tl buffer(2) t by (simp add: sha1_rel_def length_buf_put buf_put_def)
  qed
qed

section \<open>The digest\<close>

lemma sha1_pad_rel:
  "sha1_rel ctx m \<Longrightarrow> sha1_rel (sha1_pad ctx) (m @ replicate ((120 - length m mod 64) mod 64) 0)"
proof (induction ctx arbitrary: m rule: sha1_pad.induct)
  case (1 ctx)
  have fill: "(sha_count0 ctx AND 504 = 448) = (length m mod 64 = 56)"
  proof -
    have "(sha_count0 ctx AND 504 = 448) = (unat (sha_count0 ctx AND 504) = unat (448 :: word32))"
      by (rule word_unat_eq_iff)
    then show ?thesis
      using sha1_fill_rel [OF 1(2)] by (simp add: sha_fill_mask)
  qed
  show ?case
  proof (cases "length m mod 64 = 56")
    case True
    with fill 1(2) show ?thesis by (simp add: sha1_pad.simps [of ctx])
  next
    case False
    have "sha1_rel (ln_sha1_update ctx [0]) (m @ [0])"
      by (rule sha1_rel_update [OF 1(2)]) (simp add: sha1_ok_def)
    then have "sha1_rel (sha1_pad (ln_sha1_update ctx [0]))
        ((m @ [0]) @ replicate ((120 - length (m @ [0]) mod 64) mod 64) 0)"
      using 1(1) False fill by blast
    moreover have "(120 - length m mod 64) mod 64 = Suc ((120 - length (m @ [0]) mod 64) mod 64)"
    proof -
      define f where "f = length m mod 64"
      have "f < 64" "f \<noteq> 56" using False by (simp_all add: f_def)
      moreover have "length (m @ [0]) mod 64 = (f + 1) mod 64"
        by (simp add: f_def mod_simps)
      ultimately show ?thesis
        using pad_mod [of f] pad_mod [of "f + 1"] by (cases "f = 63") (auto simp: f_def [symmetric])
    qed
    ultimately show ?thesis
      using False fill by (simp add: sha1_pad.simps [of ctx])
  qed
qed

lemma le_bytes_add: "le_bytes (a + b) v = le_bytes a v @ le_bytes b (v div 256 ^ a)"
  by (induction a arbitrary: v) (simp_all add: div_mult2_eq)

lemma be_bytes_split: "be_bytes 8 v = be_bytes 4 (v div 2 ^ 32) @ be_bytes 4 v"
  using le_bytes_add [of 4 4 v] by (simp add: be_bytes_def)

lemma word_byte_nat:
  "ucast (drop_bit (8 * k) w AND 255) = (of_nat (unat (w :: word32) div 256 ^ k) :: byte)"
proof (rule bit_eqI)
  fix n
  assume "possible_bit TYPE(8 word) n"
  then have n: "n < 8" by simp
  have m: "(255 :: word32) = mask 8"
    by (simp add: mask_eq_exp_minus_1)
  have "(256 :: nat) ^ k = 2 ^ (8 * k)"
    by (simp add: power_mult)
  then have "unat w div 256 ^ k = drop_bit (8 * k) (unat w)"
    by (simp add: drop_bit_eq_div)
  then show "bit (ucast (drop_bit (8 * k) w AND 255) :: byte) n = bit (of_nat (unat w div 256 ^ k) :: byte) n"
    using n unfolding m by (auto simp: bit_simps)
qed

lemma be_bytes_word:
  "[ucast (drop_bit 24 w AND 255), ucast (drop_bit 16 w AND 255), ucast (drop_bit 8 w AND 255), ucast (w AND 255)]
    = be_bytes 4 (unat (w :: word32))"
  using word_byte_nat [of 0 w] word_byte_nat [of 1 w] word_byte_nat [of 2 w] word_byte_nat [of 3 w]
  unfolding be_bytes_def by (simp add: le_bytes_4)

lemma le_bytes_mod: "le_bytes n (v mod 256 ^ n) = le_bytes n v"
proof (induction n arbitrary: v)
  case (Suc n)
  have "(of_nat (v mod (256 * 256 ^ n)) :: byte) = of_nat v"
    by (rule word_unat_eq_iff [THEN iffD2]) (simp add: unat_of_nat mod_mod_cancel)
  moreover have "v mod (256 * 256 ^ n) div 256 = v div 256 mod 256 ^ n"
    by (simp add: mod_mult2_eq)
  ultimately show ?case using Suc by simp
qed simp

lemma be_bytes_4_word: "be_bytes 4 (unat (word_of_nat v :: word32)) = be_bytes 4 v"
  using le_bytes_mod [of 4 v] by (simp add: be_bytes_def unat_of_nat)

lemma upt_8: "[0..<8] = [0, 1, 2, 3, 4, 5, 6, 7 :: nat]"
  by code_simp

lemma upt_20: "[0..<20] = [0, 1, 2, 3, 4, 5, 6, 7, 8, 9, 10, 11, 12, 13, 14, 15, 16, 17, 18, 19 :: nat]"
  by code_simp

lemma finalcount_rel: "sha1_rel ctx m \<Longrightarrow> sha1_finalcount ctx = be_bytes 8 (8 * length m)"
  using be_bytes_word [of "sha_count1 ctx"] be_bytes_word [of "sha_count0 ctx"]
  by (simp add: sha1_finalcount_def upt_8 be_bytes_split sha1_rel_def be_bytes_4_word del: of_nat_mult)

lemma sha1_final_eq:
  assumes "sha1_rel ctx m"
  shows "fst (ln_sha1_final ctx) = sha1 m"
proof -
  define ctx2 where "ctx2 = sha1_pad (ln_sha1_update ctx [0x80])"
  define ctx3 where "ctx3 = ln_sha1_update ctx2 (sha1_finalcount ctx)"
  define k where "k = (120 - length (m @ [0x80 :: byte]) mod 64) mod 64"
  have "sha1_rel (ln_sha1_update ctx [0x80]) (m @ [0x80])"
    by (rule sha1_rel_update [OF assms]) (simp add: sha1_ok_def)
  then have "sha1_rel ctx2 ((m @ [0x80]) @ replicate k 0)"
    unfolding ctx2_def k_def by (rule sha1_pad_rel)
  then have "sha1_rel ctx3 (((m @ [0x80]) @ replicate k 0) @ be_bytes 8 (8 * length m))"
    unfolding ctx3_def finalcount_rel [OF assms]
    by (rule sha1_rel_update) (simp add: sha1_ok_def be_bytes_def)
  moreover have "k = (119 - length m mod 64) mod 64"
  proof -
    define f where "f = length m mod 64"
    have "f < 64" by (simp add: f_def)
    moreover have "length (m @ [0x80 :: byte]) mod 64 = (f + 1) mod 64"
      by (simp add: f_def mod_simps)
    ultimately show ?thesis
      unfolding k_def f_def [symmetric] by (cases "f = 63") simp_all
  qed
  ultimately have "sha1_rel ctx3 (sha1_padded m)"
    by (simp add: sha1_padded_def)
  then have st: "sha_state ctx3 = vars_list (sha1_chain (sha1_padded m))"
    by (simp add: sha1_rel_def)
  have "fst (ln_sha1_final ctx) = map (\<lambda>i. ucast (drop_bit ((3 - (i AND 3)) * 8) (sha_state ctx3 ! (i div 4)) AND 255)) [0..<20]"
    by (simp add: ln_sha1_final_def Let_def ctx2_def ctx3_def)
  also have "\<dots> = sha1 m"
    unfolding upt_20 st
    by (cases "sha1_chain (sha1_padded m)")
      (simp add: sha1_def sha1_chain_def [symmetric] be_bytes_word [symmetric])
  finally show ?thesis .
qed

section \<open>The interface\<close>

text \<open>
  What a client may assume of start, update and final: the digest is that of the pieces put
  together, as long as each piece is acceptable.
\<close>

locale incremental_hash =
  fixes start :: "'c" and update :: "'c \<Rightarrow> byte list \<Rightarrow> 'c" and final :: "'c \<Rightarrow> byte list"
    and ok :: "byte list \<Rightarrow> bool" and hash :: "byte list \<Rightarrow> byte list"
  assumes stream: "list_all ok cs \<Longrightarrow> final (foldl update start cs) = hash (concat cs)"
begin

lemma one_piece: "ok d \<Longrightarrow> final (update start d) = hash d"
  using stream [of "[d]"] by simp

lemma two_pieces: "ok k \<Longrightarrow> ok d \<Longrightarrow> final (update (update start k) d) = hash (k @ d)"
  using stream [of "[k, d]"] by simp

text \<open>The order of the pieces counts, not where they are cut.\<close>

lemma cut_anywhere:
  "list_all ok cs \<Longrightarrow> list_all ok ds \<Longrightarrow> concat cs = concat ds \<Longrightarrow>
    final (foldl update start cs) = final (foldl update start ds)"
  using stream [of cs] stream [of ds] by simp

end

lemma sha1_rel_foldl:
  "sha1_rel ctx m \<Longrightarrow> list_all sha1_ok cs \<Longrightarrow> sha1_rel (foldl ln_sha1_update ctx cs) (m @ concat cs)"
proof (induction cs arbitrary: ctx m)
  case (Cons c cs)
  then show ?case
    using Cons.IH [OF sha1_rel_update [OF Cons.prems(1), of c]] by simp
qed simp

interpretation sha1_stream: incremental_hash "ln_sha1_init sha1_ctx_zero" ln_sha1_update "\<lambda>ctx. fst (ln_sha1_final ctx)" sha1_ok sha1
proof
  fix cs
  assume "list_all sha1_ok cs"
  then have "sha1_rel (foldl ln_sha1_update (ln_sha1_init sha1_ctx_zero) cs) ([] @ concat cs)"
    by (intro sha1_rel_foldl sha1_rel_init) (simp_all add: sha1_ctx_zero_def)
  then show "fst (ln_sha1_final (foldl ln_sha1_update (ln_sha1_init sha1_ctx_zero) cs)) = sha1 (concat cs)"
    by (simp add: sha1_final_eq)
qed

lemma length_sha1 [simp]: "length (sha1 m) = 20"
  by (simp add: sha1_def be_bytes_def split: prod.split)

lemma hmac_pad_eq: "length k \<le> 64 \<Longrightarrow> hmac_pad k c = map (\<lambda>b. b XOR c) (k @ replicate (64 - length k) 0)"
  by (rule nth_equalityI) (auto simp: hmac_pad_def nth_append)

lemma hmac_eq:
  assumes "sha1_ok k" and "sha1_ok d"
  shows "ln_hmac_sha1 k d = hmac_sha1 k d"
proof -
  define k' where "k' = (if length k > 64 then sha1 k else k)"
  have k': "(if length k > 64 then fst (ln_sha1_final (ln_sha1_update (ln_sha1_init sha1_ctx_zero) k)) else k) = k'"
    using sha1_stream.one_piece [OF assms(1)] by (simp add: k'_def)
  have len: "length k' \<le> 64"
    by (simp add: k'_def)
  have ok: "sha1_ok (hmac_pad k' c)" "sha1_ok (sha1 m)" for c m
    by (simp_all add: sha1_ok_def hmac_pad_def)
  show ?thesis
    unfolding ln_hmac_sha1_def Let_def k' sha1_stream.two_pieces [OF ok(1) assms(2)] sha1_stream.two_pieces [OF ok]
    by (simp add: hmac_sha1_def hmac_K0_def Let_def hmac_pad_eq [OF len] k'_def [symmetric])
qed

text \<open>C30: whatever pieces a message is fed in, the digest is the SHA-1 of the standard for
  the whole message.\<close>

theorem sha1_correct:
  assumes "length (sha_buffer ctx) = 64" and "list_all sha1_ok cs"
  shows "fst (ln_sha1_final (foldl ln_sha1_update (ln_sha1_init ctx) cs)) = sha1 (concat cs)"
  using sha1_rel_foldl [OF sha1_rel_init [OF assms(1)] assms(2)] by (simp add: sha1_final_eq)

lemma sha1_correct_witness:
  "fst (ln_sha1_final (foldl ln_sha1_update (ln_sha1_init sha1_ctx_zero) [[0x61], [], [0x62, 0x63]])) = sha1 [0x61, 0x62, 0x63]"
  using sha1_correct [of sha1_ctx_zero "[[0x61], [], [0x62, 0x63]]"] by (simp add: sha1_ctx_zero_def sha1_ok_def)

end
