(* ===== verification/Psk.thy ===== *)
theory Psk
  imports Sha1_Correct
begin

text \<open>
  The pre-shared key of a Wi-Fi network from its name and passphrase, \<^verbatim>\<open>components/utils/ln_psk_calc.c\<close>:
  PBKDF2 over HMAC-SHA-1 with 4096 rounds, or 64 hexadecimal digits.  Strings are lists of bytes
  without terminator, \<^const>\<open>None\<close> is a null pointer; a write outside the caller's buffer makes the
  function \<^const>\<open>None\<close>.
\<close>

section \<open>The code\<close>

text \<open>The comparisons are made on \<^verbatim>\<open>int\<close>.\<close>

definition char_2_hex :: "byte \<Rightarrow> byte" where
  "char_2_hex val = (if uint val - 48 \<le> 9 then val - 48 else if 102 - uint val \<le> 6 then val - 97 + 10 else val - 65 + 10)"

text \<open>The rounds behind the first: \<open>n\<close> are left.\<close>

fun pbkdf2_loop :: "nat \<Rightarrow> byte list \<Rightarrow> byte list \<Rightarrow> byte list \<Rightarrow> byte list" where
  "pbkdf2_loop 0 key tmp2 digest = digest"
| "pbkdf2_loop (Suc n) key tmp2 digest =
     (let tmp1 = ln_hmac_sha1 key tmp2 in pbkdf2_loop n key tmp1 (map2 (XOR) digest tmp1))"

text \<open>\<^const>\<open>None\<close>: the function returns 0 and leaves the digest alone.\<close>

definition pbkdf2_sha1_f :: "byte list \<Rightarrow> byte list \<Rightarrow> nat \<Rightarrow> word32 \<Rightarrow> byte list option" where
  "pbkdf2_sha1_f key data iterations count =
     (if list_ex (\<lambda>c. c < 32 \<or> c > 126) key then None
      else let tmp1 = data @ [ucast (drop_bit 24 count AND 0xFF), ucast (drop_bit 16 count AND 0xFF),
                 ucast (drop_bit 8 count AND 0xFF), ucast (count AND 0xFF)];
               tmp2 = ln_hmac_sha1 key tmp1
        in Some (pbkdf2_loop (iterations - 1) key tmp2 tmp2))"

text \<open>\<^verbatim>\<open>memcpy\<close> into the caller's buffer.\<close>

definition psk_put :: "byte list \<Rightarrow> nat \<Rightarrow> byte list \<Rightarrow> byte list option" where
  "psk_put buf off bs = (if off + length bs \<le> length buf then Some (buf_put buf off bs) else None)"

text \<open>The result is the return value and the buffer.\<close>

definition pbkdf2_sha1 :: "byte list \<Rightarrow> byte list \<Rightarrow> byte list \<Rightarrow> (nat \<times> byte list) option" where
  "pbkdf2_sha1 key data digest =
     (if length key > 64 \<or> length data > 32 then Some (0, digest)
      else case pbkdf2_sha1_f key data 4096 1 of None \<Rightarrow> Some (0, digest)
      | Some d1 \<Rightarrow> do {
          digest1 \<leftarrow> psk_put digest 0 d1;
          (case pbkdf2_sha1_f key data 4096 2 of None \<Rightarrow> Some (0, digest1)
           | Some d2 \<Rightarrow> do { digest2 \<leftarrow> psk_put digest1 20 d2; Some (1, digest2) }) })"

definition MAX_PSK_PASS_PHRASE_LEN :: nat where "MAX_PSK_PASS_PHRASE_LEN = 64"

definition psk_hex :: "byte list \<Rightarrow> byte list" where
  "psk_hex pwd = map (\<lambda>i. char_2_hex (pwd ! (2 * i)) * 16 + char_2_hex (pwd ! (2 * i + 1))) [0..<MAX_PSK_PASS_PHRASE_LEN div 2]"

definition ln_psk_calc ::
  "byte list option \<Rightarrow> byte list option \<Rightarrow> byte list option \<Rightarrow> nat \<Rightarrow> (int \<times> byte list option) option" where
  "ln_psk_calc ssid pwd psk_buff psk_buff_size = (case (psk_buff, ssid, pwd) of
     (Some buf, Some ssid, Some pwd) \<Rightarrow>
       if psk_buff_size < MAX_PSK_PASS_PHRASE_LEN div 2 then Some (-1, Some buf)
       else let ssid_len = u8 (length ssid); pwd_len = u8 (length pwd)
         in if MAX_PSK_PASS_PHRASE_LEN > pwd_len
            then do { (_, buf') \<leftarrow> pbkdf2_sha1 (take pwd_len pwd) (take ssid_len ssid) buf; Some (0, Some buf') }
            else if MAX_PSK_PASS_PHRASE_LEN = pwd_len
            then do { buf' \<leftarrow> psk_put buf 0 (psk_hex pwd); Some (0, Some buf') }
            else Some (-1, Some buf)
   | _ \<Rightarrow> Some (-1, psk_buff))"

section \<open>The standard\<close>

text \<open>PBKDF2 of RFC 8018 with HMAC-SHA-1: the iterates, and block \<open>i\<close> of the derived key.\<close>

definition pbkdf2_U :: "byte list \<Rightarrow> byte list \<Rightarrow> nat \<Rightarrow> nat \<Rightarrow> byte list" where
  "pbkdf2_U P S i j = (hmac_sha1 P ^^ j) (hmac_sha1 P (S @ be_bytes 4 i))"

definition pbkdf2_F :: "byte list \<Rightarrow> byte list \<Rightarrow> nat \<Rightarrow> nat \<Rightarrow> byte list" where
  "pbkdf2_F P S c i = fold (\<lambda>j T. map2 (XOR) T (pbkdf2_U P S i j)) [1..<c] (pbkdf2_U P S i 0)"

definition pbkdf2 :: "byte list \<Rightarrow> byte list \<Rightarrow> nat \<Rightarrow> nat \<Rightarrow> byte list" where
  "pbkdf2 P S c dkLen = take dkLen (concat (map (pbkdf2_F P S c) [1..<dkLen div 20 + 2]))"

section \<open>Correctness\<close>

lemma length_hmac_sha1 [simp]: "length (hmac_sha1 K d) = 20"
  by (simp add: hmac_sha1_def)

lemma length_pbkdf2_U [simp]: "length (pbkdf2_U P S i j) = 20"
  by (cases j) (simp_all add: pbkdf2_U_def)

lemma length_fold_xor: "(\<And>j. length (U j) = n) \<Longrightarrow> length T = n \<Longrightarrow> length (fold (\<lambda>j T. map2 f T (U j)) js T) = n"
  by (induction js arbitrary: T) simp_all

lemma length_pbkdf2_F [simp]: "length (pbkdf2_F P S c i) = 20"
  unfolding pbkdf2_F_def by (rule length_fold_xor) simp_all

lemma pbkdf2_loop_eq:
  assumes "sha1_ok key"
  shows "pbkdf2_loop n key (pbkdf2_U key S i j) T = fold (\<lambda>j T. map2 (XOR) T (pbkdf2_U key S i j)) [Suc j..<Suc j + n] T"
proof (induction n arbitrary: j T)
  case (Suc n)
  have "ln_hmac_sha1 key (pbkdf2_U key S i j) = pbkdf2_U key S i (Suc j)"
    using hmac_eq [OF assms, of "pbkdf2_U key S i j"] by (simp add: sha1_ok_def) (simp add: pbkdf2_U_def)
  moreover have "[Suc j..<Suc j + Suc n] = Suc j # [Suc (Suc j)..<Suc (Suc j) + n]"
    by (simp add: upt_conv_Cons)
  ultimately show ?case
    using Suc by (simp add: Let_def del: upt_Suc)
qed simp

lemma pbkdf2_sha1_f_eq:
  assumes "list_all (\<lambda>c. 32 \<le> c \<and> c \<le> 126) key" and "length key \<le> 64" and "length data \<le> 32" and "0 < c"
  shows "pbkdf2_sha1_f key data c count = Some (pbkdf2_F key data c (unat count))"
proof -
  have ok: "sha1_ok key"
    using assms(2) by (simp add: sha1_ok_def)
  have "\<not> list_ex (\<lambda>c. c < 32 \<or> c > 126) key"
    using assms(1) by (auto simp: list_ex_iff list_all_iff)
  moreover have "data @ [ucast (drop_bit 24 count AND 0xFF), ucast (drop_bit 16 count AND 0xFF),
      ucast (drop_bit 8 count AND 0xFF), ucast (count AND 0xFF)] = data @ be_bytes 4 (unat count)"
    by (simp only: be_bytes_word)
  moreover have "ln_hmac_sha1 key (data @ be_bytes 4 (unat count)) = pbkdf2_U key data (unat count) 0"
    using hmac_eq [OF ok, of "data @ be_bytes 4 (unat count)"] assms(3) by (simp add: sha1_ok_def pbkdf2_U_def be_bytes_def)
  moreover have "pbkdf2_loop (c - 1) key (pbkdf2_U key data (unat count) 0) (pbkdf2_U key data (unat count) 0)
      = pbkdf2_F key data c (unat count)"
    using pbkdf2_loop_eq [OF ok, of "c - 1" data "unat count" 0] assms(4) by (simp add: pbkdf2_F_def)
  ultimately show ?thesis
    by (simp only: pbkdf2_sha1_f_def Let_def if_False)
qed

lemma pbkdf2_40: "pbkdf2 P S c 40 = pbkdf2_F P S c 1 @ pbkdf2_F P S c 2"
proof -
  have "[1..<40 div 20 + 2] = [1, 2, 3 :: nat]" by code_simp
  then show ?thesis by (simp add: pbkdf2_def)
qed

lemma buf_put_twice: "40 \<le> length buf \<Longrightarrow> length a = 20 \<Longrightarrow> length b = 20 \<Longrightarrow>
    buf_put (buf_put buf 0 a) 20 b = a @ b @ drop 40 buf"
  by (simp add: buf_put_def)

text \<open>C31: for a printable passphrase shorter than 64 characters the first 40 bytes of the
  buffer become the 40 bytes that PBKDF2 derives from it with the network's name as salt.\<close>

theorem psk_correct:
  assumes "list_all (\<lambda>c. 32 \<le> c \<and> c \<le> 126) pwd" and "length pwd < 64" and "length ssid \<le> 32"
    and "40 \<le> length buf" and "32 \<le> psk_buff_size"
  shows "ln_psk_calc (Some ssid) (Some pwd) (Some buf) psk_buff_size = Some (0, Some (pbkdf2 pwd ssid 4096 40 @ drop 40 buf))"
proof -
  have u: "u8 (length pwd) = length pwd" "u8 (length ssid) = length ssid"
    using assms(2,3) by (simp_all add: u8_def)
  have f: "pbkdf2_sha1_f pwd ssid 4096 1 = Some (pbkdf2_F pwd ssid 4096 1)"
    "pbkdf2_sha1_f pwd ssid 4096 2 = Some (pbkdf2_F pwd ssid 4096 2)"
    using pbkdf2_sha1_f_eq [of pwd ssid 4096 1] pbkdf2_sha1_f_eq [of pwd ssid 4096 2] assms by simp_all
  have len: "length (buf_put buf 0 (pbkdf2_F pwd ssid 4096 1)) = length buf"
    using assms(4) by (simp add: length_buf_put)
  have "pbkdf2_sha1 pwd ssid buf = Some (1, pbkdf2 pwd ssid 4096 40 @ drop 40 buf)"
    using assms len by (simp add: pbkdf2_sha1_def f psk_put_def buf_put_twice pbkdf2_40 del: One_nat_def)
  then show ?thesis
    using assms u by (simp add: ln_psk_calc_def MAX_PSK_PASS_PHRASE_LEN_def)
qed

lemma psk_correct_witness:
  "ln_psk_calc (Some [0x61, 0x70]) (Some [0x70, 0x77]) (Some (replicate 40 0)) 40 = Some (0, Some (pbkdf2 [0x70, 0x77] [0x61, 0x70] 4096 40))"
  using psk_correct [of "[0x70, 0x77]" "[0x61, 0x70]" "replicate 40 0" 40] by simp

text \<open>For a passphrase with a character that cannot be printed, or a name longer than 32
  bytes, the function reports success although it has not written a key; with a buffer of 32 to 39
  bytes, which passes the check of the size, a good passphrase makes it write behind the buffer.\<close>

theorem psk_errors:
  assumes "length pwd < 64" and "length ssid < 256" and "32 \<le> length buf"
  shows "(\<not> list_all (\<lambda>c. 32 \<le> c \<and> c \<le> 126) pwd \<or> length ssid > 32 \<longrightarrow>
      ln_psk_calc (Some ssid) (Some pwd) (Some buf) (length buf) = Some (0, Some buf))
    \<and> (list_all (\<lambda>c. 32 \<le> c \<and> c \<le> 126) pwd \<and> length ssid \<le> 32 \<and> length buf < 40 \<longrightarrow>
      ln_psk_calc (Some ssid) (Some pwd) (Some buf) (length buf) = None)"
proof -
  have u: "u8 (length pwd) = length pwd" "u8 (length ssid) = length ssid"
    using assms(1,2) by (simp_all add: u8_def)
  have calc: "ln_psk_calc (Some ssid) (Some pwd) (Some buf) (length buf)
      = do { (_, buf') \<leftarrow> pbkdf2_sha1 pwd ssid buf; Some (0, Some buf') }"
    using assms u by (simp add: ln_psk_calc_def MAX_PSK_PASS_PHRASE_LEN_def)
  have bad: "pbkdf2_sha1_f pwd ssid 4096 1 = None" if "\<not> list_all (\<lambda>c. 32 \<le> c \<and> c \<le> 126) pwd"
    using that by (auto simp: pbkdf2_sha1_f_def list_ex_iff list_all_iff not_le)
  have over: "pbkdf2_sha1 pwd ssid buf = None"
    if "list_all (\<lambda>c. 32 \<le> c \<and> c \<le> 126) pwd" "length ssid \<le> 32" "length buf < 40"
    using that assms pbkdf2_sha1_f_eq [of pwd ssid 4096 1] pbkdf2_sha1_f_eq [of pwd ssid 4096 2]
    by (simp add: pbkdf2_sha1_def psk_put_def length_buf_put del: One_nat_def)
  show ?thesis
    using bad over by (auto simp: calc pbkdf2_sha1_def)
qed

lemma psk_errors_witness:
  "ln_psk_calc (Some [0x61]) (Some [0x0A]) (Some (replicate 32 0)) 32 = Some (0, Some (replicate 32 0))"
  using psk_errors [of "[0x0A]" "[0x61]" "replicate 32 0"] by simp

end
