(* ===== verification/Aes_Field.thy ===== *)
theory Aes_Field
  imports Aes
begin

text \<open>
  The arithmetic behind AES: multiplication of bytes as polynomials (FIPS 197, section 4), the
  substitution box as inversion and affine map, and the proof that every table of \<^verbatim>\<open>ln_aes.c\<close> is
  what it should be.  The tables of logarithms are used in the proof too: every byte but 0 is a
  power of 3.
\<close>

section \<open>The field\<close>

text \<open>\<open>gf_mul a b\<close> adds \<open>a\<close> times \<open>x\<close> to the \<open>k\<close> for every bit \<open>k\<close> of \<open>b\<close>.\<close>

fun gf_mul_loop :: "nat \<Rightarrow> byte \<Rightarrow> byte \<Rightarrow> byte" where
  "gf_mul_loop 0 a b = 0"
| "gf_mul_loop (Suc n) a b = (if odd b then a else 0) XOR gf_mul_loop n (xtime a) (drop_bit 1 b)"

definition gf_mul :: "byte \<Rightarrow> byte \<Rightarrow> byte" where
  "gf_mul a b = gf_mul_loop 8 a b"

definition gf_pow :: "byte \<Rightarrow> nat \<Rightarrow> byte" where
  "gf_pow a n = (gf_mul a ^^ n) 1"

definition rotl8 :: "nat \<Rightarrow> byte \<Rightarrow> byte" where
  "rotl8 n b = push_bit n b OR drop_bit (8 - n) b"

definition aes_affine :: "byte \<Rightarrow> byte" where
  "aes_affine b = b XOR rotl8 1 b XOR rotl8 2 b XOR rotl8 3 b XOR rotl8 4 b XOR 0x63"

text \<open>The substitution: the inverse, which is the power 254 (0 for 0), and the affine map.\<close>

definition sub_byte :: "byte \<Rightarrow> byte" where
  "sub_byte b = aes_affine (gf_pow b 254)"

section \<open>Algebra\<close>

lemma xtime_odd: "xtime a = push_bit 1 a XOR (if bit a 7 then 0x1B else 0)"
  using and_exp_eq_0_iff_not_bit [of a 7] by (simp add: xtime_def)

lemma xtime_xor: "xtime (a XOR b) = xtime a XOR xtime b"
  by (rule bit_eqI) (auto simp: xtime_odd bit_simps)

lemma xtime_0 [simp]: "xtime 0 = 0"
  by (simp add: xtime_def)

lemma gf_mul_loop_xor: "gf_mul_loop n (a XOR b) c = gf_mul_loop n a c XOR gf_mul_loop n b c"
  by (induction n arbitrary: a b c) (auto simp: xtime_xor ac_simps)

lemma gf_mul_loop_xtime: "gf_mul_loop n (xtime a) b = xtime (gf_mul_loop n a b)"
  by (induction n arbitrary: a b) (auto simp: xtime_xor)

lemma gf_mul_loop_0 [simp]: "gf_mul_loop n 0 b = 0" "gf_mul_loop n a 0 = 0"
  by (induction n arbitrary: a b) auto

lemma gf_mul_0 [simp]: "gf_mul 0 b = 0" "gf_mul a 0 = 0"
  by (simp_all add: gf_mul_def)

lemma gf_mul_xor: "gf_mul (a XOR b) c = gf_mul a c XOR gf_mul b c"
  by (simp add: gf_mul_def gf_mul_loop_xor)

text \<open>Multiplication by 3 and its powers.\<close>

definition gf_three :: "byte \<Rightarrow> byte" where
  "gf_three a = xtime a XOR a"

lemma gf_mul_three: "gf_mul (gf_three a) b = gf_three (gf_mul a b)"
  by (simp add: gf_mul_def gf_three_def gf_mul_loop_xor gf_mul_loop_xtime)

definition gf_gen :: "nat \<Rightarrow> byte" where
  "gf_gen n = (gf_three ^^ n) 1"

lemma bit_if: "bit (if P then x else 0) n \<longleftrightarrow> P \<and> bit x n"
  by simp

lemma byte_of_bits: "(b :: byte) = (if bit b 0 then 1 else 0) XOR (if bit b 1 then 2 else 0) XOR (if bit b 2 then 4 else 0) XOR
    (if bit b 3 then 8 else 0) XOR (if bit b 4 then 16 else 0) XOR (if bit b 5 then 32 else 0) XOR (if bit b 6 then 64 else 0) XOR
    (if bit b 7 then 128 else 0)" (is "b = ?r")
proof (rule bit_eqI)
  fix n
  assume "possible_bit TYPE(8 word) n"
  then have "n < 8" by simp
  then have "n = 0 \<or> n = 1 \<or> n = 2 \<or> n = 3 \<or> n = 4 \<or> n = 5 \<or> n = 6 \<or> n = 7" by linarith
  then show "bit b n = bit ?r n"
    by (elim disjE) (simp_all add: bit_xor_iff bit_if split del: if_split)
qed

lemma gf_mul_1: "gf_mul 1 b = b"
proof -
  have "gf_mul_loop 8 1 b = gf_mul_loop (Suc (Suc (Suc (Suc (Suc (Suc (Suc (Suc 0)))))))) 1 b"
    by (simp only: eval_nat_numeral BitM.simps One_nat_def)
  also have "\<dots> = (if bit b 0 then 1 else 0) XOR (if bit b 1 then 2 else 0) XOR (if bit b 2 then 4 else 0) XOR
    (if bit b 3 then 8 else 0) XOR (if bit b 4 then 16 else 0) XOR (if bit b 5 then 32 else 0) XOR (if bit b 6 then 64 else 0) XOR
    (if bit b 7 then 128 else 0)"
    by (simp add: xtime_def bit_iff_odd_drop_bit split del: if_split)
      (simp only: eval_nat_numeral BitM.simps One_nat_def)
  finally show ?thesis
    using byte_of_bits [of b] by (simp add: gf_mul_def)
qed

lemma gf_gen_add: "gf_mul (gf_gen m) (gf_gen n) = gf_gen (m + n)"
  by (induction m) (simp_all add: gf_gen_def gf_mul_three gf_mul_1)

section \<open>The tables of logarithms\<close>

lemma alog_chain: "hd g_alogtable = 1 \<and> map gf_three (butlast g_alogtable) = tl g_alogtable \<and> last g_alogtable = 1"
  by (simp add: g_alogtable_def gf_three_def xtime_def)

lemma log_inverse: "map (\<lambda>i. g_alogtable ! unat (g_logtable ! i)) [1..<256] = map of_nat [1..<256]"
  by code_simp

lemma log_less: "list_all (\<lambda>x. x < 255) (tl g_logtable)"
  by (simp add: g_logtable_def)

lemma length_tables [simp]: "length g_alogtable = 256" "length g_logtable = 256" "length g_sbox = 256" "length g_isbox = 256"
  "length g_dtbl = 256" "length g_itbl = 256"
  by (simp_all add: g_alogtable_def g_logtable_def g_sbox_def g_isbox_def g_dtbl_def g_itbl_def)

lemma alog_nonempty: "g_alogtable \<noteq> []"
  by (simp add: g_alogtable_def)

lemma alog_gen: "i < 256 \<Longrightarrow> g_alogtable ! i = gf_gen i"
proof (induction i)
  case 0
  have "g_alogtable ! 0 = hd g_alogtable"
    using alog_nonempty by (rule hd_conv_nth [symmetric])
  then show ?case using alog_chain by (simp add: gf_gen_def)
next
  case (Suc i)
  have "g_alogtable ! Suc i = tl g_alogtable ! i"
    using Suc.prems by (simp add: nth_tl)
  also have "\<dots> = map gf_three (butlast g_alogtable) ! i"
    using alog_chain by simp
  also have "\<dots> = gf_three (g_alogtable ! i)"
    using Suc.prems by (simp add: nth_butlast)
  finally show ?case
    using Suc by (simp add: gf_gen_def)
qed

lemma gf_gen_255: "gf_gen 255 = 1"
proof -
  have "g_alogtable ! 255 = last g_alogtable"
    using alog_nonempty by (subst last_conv_nth) simp_all
  then show ?thesis
    using alog_gen [of 255] alog_chain by simp
qed

lemma gf_gen_period: "gf_gen (n + 255 * k) = gf_gen n"
proof (induction k)
  case (Suc k)
  have "gf_gen (n + 255 * Suc k) = gf_mul (gf_gen 255) (gf_gen (n + 255 * k))"
    by (simp add: gf_gen_add algebra_simps)
  with Suc show ?case by (simp add: gf_gen_255 gf_mul_1)
qed simp

lemma gf_gen_mod: "gf_gen (n mod 255) = gf_gen n"
  using gf_gen_period [of "n mod 255" "n div 255"] by simp

lemma byte_index: "b = of_nat (unat b) \<and> unat b < 256" for b :: byte
  using unsigned_less [of b, where 'a = nat] by simp

lemma log_gen:
  assumes "b \<noteq> 0"
  shows "gf_gen (unat (g_logtable ! unat b)) = b" and "unat (g_logtable ! unat b) < 255"
proof -
  have ub: "unat b \<noteq> 0" "unat b < 256"
    using assms byte_index [of b] by (auto simp: unat_eq_0)
  have "g_logtable ! unat b < 255"
  proof -
    have i: "unat b - 1 < length (tl g_logtable)" using ub by simp
    then have "tl g_logtable ! (unat b - 1) < 255"
      using log_less by (simp only: list_all_length)
    then show ?thesis using ub nth_tl [OF i] by simp
  qed
  then show "unat (g_logtable ! unat b) < 255"
    by (simp add: word_less_nat_alt)
  have "map (\<lambda>i. g_alogtable ! unat (g_logtable ! i)) [1..<256] ! (unat b - 1) = map of_nat [1..<256] ! (unat b - 1)"
    by (simp only: log_inverse)
  then have "g_alogtable ! unat (g_logtable ! unat b) = b"
    using ub by (simp add: nth_map_upt del: upt_rec_numeral)
  then show "gf_gen (unat (g_logtable ! unat b)) = b"
    using alog_gen byte_index by metis
qed

lemma gf_gen_obtain:
  assumes "b \<noteq> 0"
  obtains n where "b = gf_gen n"
  using log_gen(1) [OF assms] by metis

lemma gf_mul_commute: "gf_mul a b = gf_mul b a"
proof (cases "a = 0 \<or> b = 0")
  case False
  then obtain m n where "a = gf_gen m" "b = gf_gen n"
    by (metis gf_gen_obtain)
  then show ?thesis by (simp add: gf_gen_add add.commute)
qed auto

text \<open>The multiplication by logarithms is that of the field.\<close>

lemma mul_eq: "mul a b = gf_mul a b"
proof (cases "a = 0 \<or> b = 0")
  case False
  define m n where "m = unat (g_logtable ! unat a)" and "n = unat (g_logtable ! unat b)"
  have ab: "a = gf_gen m" "b = gf_gen n"
    using False log_gen(1) by (simp_all add: m_def n_def)
  have "mul a b = g_alogtable ! ((m + n) mod 255)"
    using False by (simp add: mul_def m_def n_def)
  also have "\<dots> = gf_gen ((m + n) mod 255)"
    by (rule alog_gen) (rule less_trans [of _ 255], simp_all)
  also have "\<dots> = gf_mul a b"
    by (simp add: gf_gen_mod gf_gen_add ab)
  finally show ?thesis .
qed (auto simp: mul_def)

lemma gf_pow_gen: "gf_pow (gf_gen n) k = gf_gen (k * n)"
  unfolding gf_pow_def by (induction k) (simp_all add: gf_gen_add, simp add: gf_gen_def)

lemma gf_inverse: "b \<noteq> 0 \<Longrightarrow> gf_mul b (gf_pow b 254) = 1"
proof -
  assume "b \<noteq> 0"
  then obtain n where "b = gf_gen n" by (rule gf_gen_obtain)
  then show ?thesis
    using gf_gen_period [of 0 n] by (simp add: gf_pow_gen gf_gen_add) (simp add: gf_gen_def)
qed

section \<open>The substitution boxes\<close>

lemma sbox_alog: "map (\<lambda>a. g_sbox ! unat a) g_alogtable = map aes_affine (rev g_alogtable)"
  by (simp add: g_sbox_def g_alogtable_def aes_affine_def rotl8_def)

lemma sbox_0: "g_sbox ! 0 = aes_affine 0"
  by (simp add: g_sbox_def aes_affine_def rotl8_def)

lemma isbox_sbox: "map (\<lambda>s. g_isbox ! unat s) g_sbox = map of_nat [0..<256]"
  by code_simp

lemma sbox_eq: "g_sbox ! unat b = sub_byte b"
proof (cases "b = 0")
  case True
  have "gf_pow 0 254 = gf_mul 0 (gf_pow 0 253)"
    unfolding gf_pow_def using funpow.simps(2) [of 253 "gf_mul 0"] by simp
  with True sbox_0 show ?thesis by (simp add: sub_byte_def)
next
  case False
  define n where "n = unat (g_logtable ! unat b)"
  have n: "b = gf_gen n" "n < 255"
    using log_gen [OF False] by (simp_all add: n_def)
  have "map (\<lambda>a. g_sbox ! unat a) g_alogtable ! n = map aes_affine (rev g_alogtable) ! n"
    by (simp only: sbox_alog)
  then have "g_sbox ! unat (g_alogtable ! n) = aes_affine (g_alogtable ! (255 - n))"
    using n(2) by (simp add: rev_nth)
  then have "g_sbox ! unat b = aes_affine (gf_gen (255 - n))"
    using n alog_gen [of n] alog_gen [of "255 - n"] by simp
  moreover have "gf_gen (255 - n) = gf_gen (254 * n)"
  proof -
    have "(255 - n) + 255 * n = 254 * n + 255 * 1"
      using n(2) by simp
    then show ?thesis
      using gf_gen_period [of "255 - n" n] gf_gen_period [of "254 * n" 1] by simp
  qed
  ultimately show ?thesis
    by (simp add: sub_byte_def n(1) gf_pow_gen)
qed

lemma isbox_eq: "g_isbox ! unat (sub_byte b) = b"
proof -
  have "map (\<lambda>s. g_isbox ! unat s) g_sbox ! unat b = (map of_nat [0..<256] :: byte list) ! unat b"
    by (simp only: isbox_sbox)
  then show ?thesis
    using byte_index [of b] by (simp add: sbox_eq del: upt_rec_numeral)
qed

section \<open>The tables of the rounds\<close>

definition word_of_bytes :: "byte \<Rightarrow> byte \<Rightarrow> byte \<Rightarrow> byte \<Rightarrow> word32" where
  "word_of_bytes a b c d = ucast a OR push_bit 8 (ucast b) OR push_bit 16 (ucast c) OR push_bit 24 (ucast d)"

lemma dtbl_by_sbox: "map (\<lambda>s. word_of_bytes (xtime s) s s (gf_three s)) g_sbox = g_dtbl"
  by (simp add: g_sbox_def g_dtbl_def word_of_bytes_def gf_three_def xtime_def)

text \<open>Multiples by 9, 11, 13 and 14.\<close>

definition gf_9 :: "byte \<Rightarrow> byte" where "gf_9 b = xtime (xtime (xtime b)) XOR b"
definition gf_11 :: "byte \<Rightarrow> byte" where "gf_11 b = xtime (xtime (xtime b)) XOR xtime b XOR b"
definition gf_13 :: "byte \<Rightarrow> byte" where "gf_13 b = xtime (xtime (xtime b)) XOR xtime (xtime b) XOR b"
definition gf_14 :: "byte \<Rightarrow> byte" where "gf_14 b = xtime (xtime (xtime b)) XOR xtime (xtime b) XOR xtime b"

lemma itbl_by_isbox: "map (\<lambda>s. word_of_bytes (gf_14 s) (gf_9 s) (gf_13 s) (gf_11 s)) g_isbox = g_itbl"
  by (simp add: g_isbox_def g_itbl_def word_of_bytes_def gf_14_def gf_9_def gf_13_def gf_11_def xtime_def)

lemma dtbl_eq: "g_dtbl ! unat b = (let s = sub_byte b in word_of_bytes (xtime s) s s (gf_three s))"
proof -
  have "g_dtbl ! unat b = map (\<lambda>s. word_of_bytes (xtime s) s s (gf_three s)) g_sbox ! unat b"
    by (simp only: dtbl_by_sbox)
  then show ?thesis
    using byte_index [of b] by (simp add: sbox_eq Let_def)
qed

lemma itbl_eq: "g_itbl ! unat (b :: byte) = (let s = g_isbox ! unat b in word_of_bytes (gf_14 s) (gf_9 s) (gf_13 s) (gf_11 s))"
proof -
  have "g_itbl ! unat b = map (\<lambda>s. word_of_bytes (gf_14 s) (gf_9 s) (gf_13 s) (gf_11 s)) g_isbox ! unat b"
    by (simp only: itbl_by_isbox)
  then show ?thesis
    using byte_index [of b] by (simp add: Let_def)
qed

lemma gf_mul_bits: "gf_mul c b = (if bit c 0 then b else 0) XOR (if bit c 1 then xtime b else 0) XOR (if bit c 2 then xtime (xtime b) else 0) XOR (if bit c 3 then xtime (xtime (xtime b)) else 0) XOR (if bit c 4 then xtime (xtime (xtime (xtime b))) else 0) XOR (if bit c 5 then xtime (xtime (xtime (xtime (xtime b)))) else 0) XOR (if bit c 6 then xtime (xtime (xtime (xtime (xtime (xtime b))))) else 0) XOR (if bit c 7 then xtime (xtime (xtime (xtime (xtime (xtime (xtime b)))))) else 0)"
proof -
  have "gf_mul c b = gf_mul_loop 8 b c"
    by (metis gf_mul_def gf_mul_commute)
  also have "\<dots> = gf_mul_loop (Suc (Suc (Suc (Suc (Suc (Suc (Suc (Suc 0)))))))) b c"
    by (simp only: eval_nat_numeral BitM.simps One_nat_def)
  also have "\<dots> = (if bit c 0 then b else 0) XOR (if bit c 1 then xtime b else 0) XOR (if bit c 2 then xtime (xtime b) else 0) XOR (if bit c 3 then xtime (xtime (xtime b)) else 0) XOR (if bit c 4 then xtime (xtime (xtime (xtime b))) else 0) XOR (if bit c 5 then xtime (xtime (xtime (xtime (xtime b)))) else 0) XOR (if bit c 6 then xtime (xtime (xtime (xtime (xtime (xtime b))))) else 0) XOR (if bit c 7 then xtime (xtime (xtime (xtime (xtime (xtime (xtime b)))))) else 0)"
    by (simp add: bit_iff_odd_drop_bit split del: if_split)
      (simp only: eval_nat_numeral BitM.simps One_nat_def)
  finally show ?thesis .
qed

lemma gf_mul_const:
  "gf_mul 2 b = xtime b" "gf_mul 3 b = gf_three b" "gf_mul 9 b = gf_9 b" "gf_mul 11 b = gf_11 b"
  "gf_mul 13 b = gf_13 b" "gf_mul 14 b = gf_14 b"
  unfolding gf_mul_bits by (simp_all add: gf_three_def gf_9_def gf_11_def gf_13_def gf_14_def ac_simps)

end
