(* ===== verification/Aes_Correct.thy ===== *)
theory Aes_Correct
  imports Aes_Field
begin

text \<open>
  The two theorems on AES.  The cipher by tables is the cipher of FIPS 197, with the key
  expansion of the standard; and deciphering undoes enciphering, for every key and block.  A state
  is a list of four columns of four bytes; \<open>bytes_of\<close> takes a word of the code to a column.
\<close>

section \<open>The standard\<close>

definition SubBytes :: "byte list list \<Rightarrow> byte list list" where
  "SubBytes s = map (map sub_byte) s"

definition ShiftRows :: "byte list list \<Rightarrow> byte list list" where
  "ShiftRows s = map (\<lambda>c. map (\<lambda>r. s ! ((c + r) mod 4) ! r) [0..<4]) [0..<4]"

definition MixColumn :: "byte list \<Rightarrow> byte list" where
  "MixColumn s =
     [gf_mul 2 (s ! 0) XOR gf_mul 3 (s ! 1) XOR s ! 2 XOR s ! 3,
      s ! 0 XOR gf_mul 2 (s ! 1) XOR gf_mul 3 (s ! 2) XOR s ! 3,
      s ! 0 XOR s ! 1 XOR gf_mul 2 (s ! 2) XOR gf_mul 3 (s ! 3),
      gf_mul 3 (s ! 0) XOR s ! 1 XOR s ! 2 XOR gf_mul 2 (s ! 3)]"

definition AddRoundKey :: "byte list list \<Rightarrow> byte list list \<Rightarrow> byte list list" where
  "AddRoundKey k s = map2 (map2 (XOR)) s k"

definition round_key :: "(nat \<Rightarrow> byte list) \<Rightarrow> nat \<Rightarrow> byte list list" where
  "round_key W r = map (\<lambda>c. W (4 * r + c)) [0..<4]"

definition aes_columns :: "byte list \<Rightarrow> byte list list" where
  "aes_columns b = map (\<lambda>c. map (\<lambda>r. b ! (4 * c + r)) [0..<4]) [0..<4]"

definition aes_round :: "(nat \<Rightarrow> byte list) \<Rightarrow> nat \<Rightarrow> byte list list \<Rightarrow> byte list list" where
  "aes_round W r s = AddRoundKey (round_key W r) (map MixColumn (ShiftRows (SubBytes s)))"

definition aes_cipher :: "(nat \<Rightarrow> byte list) \<Rightarrow> nat \<Rightarrow> byte list \<Rightarrow> byte list" where
  "aes_cipher W nr b = (let s = fold (aes_round W) [1..<nr] (AddRoundKey (round_key W 0) (aes_columns b))
     in concat (AddRoundKey (round_key W nr) (ShiftRows (SubBytes s))))"

text \<open>The expanded key, word by word.\<close>

function aes_W :: "byte list \<Rightarrow> nat \<Rightarrow> nat \<Rightarrow> byte list" where
  "aes_W key nk i =
     (if i < nk \<or> nk = 0 then map (\<lambda>r. key ! (4 * i + r)) [0..<4]
      else let temp = aes_W key nk (i - 1);
               temp' = (if i mod nk = 0 then map2 (XOR) (map sub_byte (rotate1 temp)) [(xtime ^^ (i div nk - 1)) 1, 0, 0, 0]
                 else if nk > 6 \<and> i mod nk = 4 then map sub_byte temp else temp)
           in map2 (XOR) (aes_W key nk (i - nk)) temp')"
  by pat_completeness auto
termination by (relation "measure (\<lambda>(key, nk, i). i)") auto

declare aes_W.simps [simp del]

section \<open>Bytes of words\<close>

definition wb :: "word32 \<Rightarrow> nat \<Rightarrow> byte" where
  "wb w r = ucast (drop_bit (8 * r) w)"

lemma bit_wb: "bit (wb w r) n \<longleftrightarrow> n < 8 \<and> bit w (8 * r + n)"
  by (auto simp: wb_def bit_simps)

definition bytes_of :: "word32 \<Rightarrow> byte list" where
  "bytes_of w = [wb w 0, wb w 1, wb w 2, wb w 3]"

lemma wb_xor [simp]: "wb (v XOR w) r = wb v r XOR wb w r"
  by (rule bit_eqI) (auto simp: bit_wb bit_simps)

lemma ones_8: "(0xFF :: word32) = mask 8"
  by (simp add: mask_eq_exp_minus_1)

lemma byte_at: "unat (drop_bit (8 * r) w AND 0xFF) = unat (wb w r)"
proof -
  have "drop_bit (8 * r) w AND 0xFF = ucast (wb w r)"
    unfolding ones_8 by (rule bit_eqI) (auto simp: bit_wb bit_simps)
  moreover have "unat (ucast (wb w r) :: word32) = unat (wb w r)"
    using byte_index [of "wb w r"] by (simp add: unsigned_ucast_eq take_bit_nat_eq_self)
  ultimately show ?thesis by simp
qed

lemma wb_drop [simp]: "wb (drop_bit 8 w) 0 = wb w (Suc 0)" "wb (drop_bit 16 w) 0 = wb w 2" "wb (drop_bit 24 w) 0 = wb w 3"
  by (rule bit_eqI, auto simp: bit_wb bit_simps)+

lemma byte_ats: "unat (w AND 0xFF) = unat (wb w 0)" "unat (drop_bit 8 w AND 0xFF) = unat (wb w 1)"
  "unat (drop_bit 16 w AND 0xFF) = unat (wb w 2)" "unat (drop_bit 24 w AND 0xFF) = unat (wb w 3)"
  using byte_at [of 0 w] byte_at [of 1 w] byte_at [of 2 w] byte_at [of 3 w] by simp_all

lemma wb_ucast: "ucast (drop_bit (8 * r) w AND 0xFF) = wb w r"
  unfolding ones_8 by (rule bit_eqI) (auto simp: bit_wb bit_simps)

lemma wb_word_of_bytes [simp]:
  "wb (word_of_bytes a b c d) 0 = a" "wb (word_of_bytes a b c d) (Suc 0) = b"
  "wb (word_of_bytes a b c d) 2 = c" "wb (word_of_bytes a b c d) 3 = d"
  by (rule bit_eqI, simp add: word_of_bytes_def bit_wb bit_simps not_bit_byte)+

lemma wb_ROTRBYTE [simp]:
  "wb (ROTRBYTE w) 0 = wb w 3" "wb (ROTRBYTE w) (Suc 0) = wb w 0" "wb (ROTRBYTE w) 2 = wb w (Suc 0)" "wb (ROTRBYTE w) 3 = wb w 2"
  unfolding ROTRBYTE_def ones_8 by (rule bit_eqI, auto simp: bit_wb bit_simps)+

lemma wb_ROTBYTE:
  "wb (ROTBYTE w) 0 = wb w (Suc 0)" "wb (ROTBYTE w) (Suc 0) = wb w 2" "wb (ROTBYTE w) 2 = wb w 3" "wb (ROTBYTE w) 3 = wb w 0"
  unfolding ROTBYTE_def ones_8 by (rule bit_eqI, auto simp: bit_wb bit_simps dest: bit_imp_le_length)+

lemma SUBBYTE_eq: "SUBBYTE w box = word_of_bytes (box ! unat (wb w 0)) (box ! unat (wb w 1)) (box ! unat (wb w 2)) (box ! unat (wb w 3))"
  by (simp add: SUBBYTE_def word_of_bytes_def byte_ats)

lemma le_word_eq: "le_word c i = word_of_bytes (c ! (4 * i)) (c ! (4 * i + 1)) (c ! (4 * i + 2)) (c ! (4 * i + 3))"
  by (simp add: le_word_def word_of_bytes_def)

lemma bytes_of_simps [simp]:
  "bytes_of (v XOR w) = map2 (XOR) (bytes_of v) (bytes_of w)"
  "bytes_of (word_of_bytes a b c d) = [a, b, c, d]"
  by (simp_all add: bytes_of_def)

lemma length_bytes_of [simp]: "length (bytes_of w) = 4"
  by (simp add: bytes_of_def)

section \<open>The cipher\<close>

lemma upt_4: "[0..<4] = [0, 1, 2, 3 :: nat]"
  by code_simp

lemma list_4: "length l = 4 \<longleftrightarrow> (\<exists>a b c d. l = [a, b, c, d])"
  by (auto simp: numeral_eq_Suc length_Suc_conv)

lemma mod_4 [simp]: "(3 + 1) mod 4 = (0 :: nat)" by simp

lemma enc_cols:
  assumes "length w = 4"
  shows "map bytes_of (map (aes_enc_col w) [0..<4]) = map MixColumn (ShiftRows (SubBytes (map bytes_of w)))"
proof -
  obtain a b c d where w: "w = [a, b, c, d]" using assms list_4 by metis
  show ?thesis
    by (simp add: w upt_4 aes_enc_col_def g_idxe_def byte_ats dtbl_eq Let_def ShiftRows_def SubBytes_def MixColumn_def gf_mul_const)
      (simp add: bytes_of_def ac_simps)
qed

lemma aes_last_col_bytes:
  "(a AND 0xFF) OR (b AND push_bit 8 0xFF) OR (c AND push_bit 16 0xFF) OR (d AND push_bit 24 0xFF)
    = word_of_bytes (wb a 0) (wb b (Suc 0)) (wb c 2) (wb d 3)"
  unfolding ones_8 by (rule bit_eqI) (auto simp: word_of_bytes_def bit_wb bit_simps)

lemma aes_last_col_nums:
  "(a AND 0xFF) OR (b AND 65280) OR (c AND 16711680) OR (d AND 4278190080)
    = word_of_bytes (wb a 0) (wb b (Suc 0)) (wb c 2) (wb d 3)"
  using aes_last_col_bytes [of a b c d] by simp

lemma last_cols_enc:
  assumes "length w = 4"
  shows "map bytes_of (map (\<lambda>x. SUBBYTE x g_sbox) (map (aes_last_col g_idxe w) [0..<4])) = ShiftRows (SubBytes (map bytes_of w))"
proof -
  obtain a b c d where w: "w = [a, b, c, d]" using assms list_4 by metis
  show ?thesis
    by (simp add: w upt_4 g_idxe_def aes_last_col_nums SUBBYTE_eq sbox_eq aes_last_col_def ShiftRows_def SubBytes_def)
      (simp add: bytes_of_def)
qed

lemma list_ge_4: "4 \<le> length l \<longleftrightarrow> (\<exists>a b c d r. l = a # b # c # d # r)"
  by (auto simp: numeral_eq_Suc Suc_le_length_iff)

lemma add_key_32:
  assumes "length t = 4" and "4 \<le> length k"
  shows "map bytes_of (key_addition32 t k) = AddRoundKey (map bytes_of (take 4 k)) (map bytes_of t)" "length (key_addition32 t k) = 4"
proof -
  obtain a b c d where t: "t = [a, b, c, d]" using assms(1) list_4 by metis
  obtain x y z u r where k: "k = x # y # z # u # r" using assms(2) list_ge_4 by metis
  show "map bytes_of (key_addition32 t k) = AddRoundKey (map bytes_of (take 4 k)) (map bytes_of t)"
    by (simp add: t k key_addition32_def AddRoundKey_def upt_4) (simp add: bytes_of_def xor.commute)
  show "length (key_addition32 t k) = 4"
    by (simp add: key_addition32_def)
qed

lemma add_key_8to32:
  assumes "4 \<le> length k"
  shows "map bytes_of (key_addition_8to32 b k) = AddRoundKey (map bytes_of (take 4 k)) (aes_columns b)" "length (key_addition_8to32 b k) = 4"
proof -
  obtain x y z u r where k: "k = x # y # z # u # r" using assms list_ge_4 by metis
  show "map bytes_of (key_addition_8to32 b k) = AddRoundKey (map bytes_of (take 4 k)) (aes_columns b)"
    by (simp add: k key_addition_8to32_def AddRoundKey_def upt_4 aes_columns_def le_word_eq) (simp add: bytes_of_def xor.commute)
  show "length (key_addition_8to32 b k) = 4"
    by (simp add: key_addition_8to32_def)
qed

lemma add_key_32to8:
  assumes "length t = 4" and "4 \<le> length k"
  shows "key_addition32to8 t k = concat (AddRoundKey (map bytes_of (take 4 k)) (map bytes_of t))"
proof -
  obtain a b c d where t: "t = [a, b, c, d]" using assms(1) list_4 by metis
  obtain x y z u r where k: "k = x # y # z # u # r" using assms(2) list_ge_4 by metis
  have b: "map (\<lambda>j. ucast (drop_bit (8 * j) v AND 0xFF)) [0..<4] = bytes_of v" for v :: word32
    by (simp add: wb_ucast bytes_of_def upt_4 del: list.map) (simp add: wb_ucast upt_4)
  show ?thesis
    by (simp only: key_addition32to8_def Let_def b) (simp add: t k AddRoundKey_def upt_4)
qed

lemma bytes_round_key:
  assumes "4 * r + 4 \<le> length keys"
  shows "map bytes_of (take 4 (drop (4 * r) keys)) = round_key (\<lambda>i. bytes_of (keys ! i)) r"
proof -
  have "take 4 (drop (4 * r) keys) = map (\<lambda>c. keys ! (4 * r + c)) [0..<4]"
    using assms by (intro nth_equalityI) auto
  then show ?thesis by (simp add: round_key_def)
qed

lemma enc_round:
  assumes "length w = 4" and "4 * r + 4 \<le> length keys"
  shows "map bytes_of (aes_enc_round keys r w) = aes_round (\<lambda>i. bytes_of (keys ! i)) r (map bytes_of w)"
    and "length (aes_enc_round keys r w) = 4"
  using assms add_key_32 [of "map (aes_enc_col w) [0..<4]" "drop (4 * r) keys"]
  by (simp_all add: aes_enc_round_def aes_round_def bytes_round_key [symmetric] enc_cols [symmetric] mult.commute del: list.map)

lemma enc_rounds:
  assumes "length w = 4" and "4 * nr + 4 \<le> length keys" and "set rs \<subseteq> {..nr}"
  shows "map bytes_of (fold (aes_enc_round keys) rs w) = fold (aes_round (\<lambda>i. bytes_of (keys ! i))) rs (map bytes_of w)
    \<and> length (fold (aes_enc_round keys) rs w) = 4"
  using assms
proof (induction rs arbitrary: w)
  case (Cons r rs)
  then show ?case using enc_round [of w r keys] by simp
qed simp

lemma encrypt_eq:
  assumes "4 * aes_nrounds ctx + 4 \<le> length (aes_keys ctx)"
  shows "ln_aes_encrypt ctx b = aes_cipher (\<lambda>i. bytes_of (aes_keys ctx ! i)) (aes_nrounds ctx) b"
proof -
  let ?keys = "aes_keys ctx" and ?nr = "aes_nrounds ctx"
  define w where "w = fold (aes_enc_round ?keys) [1..<?nr] (key_addition_8to32 b ?keys)"
  have w: "map bytes_of w = fold (aes_round (\<lambda>i. bytes_of (?keys ! i))) [1..<?nr]
      (AddRoundKey (round_key (\<lambda>i. bytes_of (?keys ! i)) 0) (aes_columns b))" "length w = 4"
  proof -
    have "set [1..<?nr] \<subseteq> {..?nr}" by auto
    then show "map bytes_of w = fold (aes_round (\<lambda>i. bytes_of (?keys ! i))) [1..<?nr]
      (AddRoundKey (round_key (\<lambda>i. bytes_of (?keys ! i)) 0) (aes_columns b))" "length w = 4"
      using enc_rounds [of "key_addition_8to32 b ?keys" ?nr ?keys "[1..<?nr]"] add_key_8to32 [of ?keys b]
        bytes_round_key [of 0 ?keys] assms by (simp_all add: w_def)
  qed
  have "ln_aes_encrypt ctx b = key_addition32to8 (map (\<lambda>x. SUBBYTE x g_sbox) (map (aes_last_col g_idxe w) [0..<4])) (drop (4 * ?nr) ?keys)"
    by (simp add: ln_aes_encrypt_def Let_def w_def)
  also have "\<dots> = concat (AddRoundKey (map bytes_of (take 4 (drop (4 * ?nr) ?keys)))
      (map bytes_of (map (\<lambda>x. SUBBYTE x g_sbox) (map (aes_last_col g_idxe w) [0..<4]))))"
    using assms by (intro add_key_32to8) simp_all
  also have "\<dots> = aes_cipher (\<lambda>i. bytes_of (?keys ! i)) ?nr b"
    unfolding last_cols_enc [OF w(2)] bytes_round_key [OF assms] w(1) by (simp only: aes_cipher_def Let_def)
  finally show ?thesis .
qed

section \<open>The key schedule\<close>

lemma aes_key_word_eq: "aes_key_word key i = word_of_bytes (key ! (4 * i)) (key ! (4 * i + 1)) (key ! (4 * i + 2)) (key ! (4 * i + 3))"
proof -
  have disj: "x + y = x OR y" if "\<And>n. \<not> bit x n \<or> \<not> bit y n" for x y :: word32
    using that by (intro disjunctive_add_eq_or bit_eqI) (auto simp: bit_simps)
  show ?thesis
    unfolding aes_key_word_def word_of_bytes_def
    by (subst disj, force simp: bit_simps dest: bit_byte_less)+ (simp add: mult.commute or.assoc)
qed

lemma bytes_of_ucast: "bytes_of (ucast b) = [b, 0, 0, 0]"
proof -
  have "(ucast b :: word32) = word_of_bytes b 0 0 0"
    by (simp add: word_of_bytes_def)
  then show ?thesis by simp
qed

lemma bytes_of_rot: "bytes_of (ROTBYTE t) = rotate1 (bytes_of t)"
  by (simp add: bytes_of_def wb_ROTBYTE)

lemma bytes_of_sub: "bytes_of (SUBBYTE t g_sbox) = map sub_byte (bytes_of t)"
  by (simp add: SUBBYTE_eq sbox_eq) (simp add: bytes_of_def)

lemma ucast_and: "ucast (ucast (b :: byte) AND 0xFF :: word32) = b"
  unfolding ones_8 by (rule bit_eqI) (auto simp: bit_simps)

lemma expand_eq:
  assumes "0 < nk" and "nk \<le> m" and "m \<le> length keys0" and "\<And>i. i < nk \<Longrightarrow> bytes_of (keys0 ! i) = aes_W key nk i"
  shows "\<exists>keys. fold (aes_expand_step nk) [nk..<m] (keys0, 1) = (keys, ucast ((xtime ^^ ((m - 1) div nk)) 1))
    \<and> length keys = length keys0 \<and> (\<forall>i < m. bytes_of (keys ! i) = aes_W key nk i)"
  using assms(2,3)
proof (induction m rule: dec_induct)
  case base
  have "(nk - 1) div nk = 0" using assms(1) by simp
  with assms(4) show ?case by simp
next
  case (step m)
  define rcon where "rcon = (xtime ^^ ((m - 1) div nk)) 1"
  obtain keys where keys: "fold (aes_expand_step nk) [nk..<m] (keys0, 1) = (keys, ucast rcon)"
    "length keys = length keys0" "\<forall>i < m. bytes_of (keys ! i) = aes_W key nk i"
    using step by (auto simp: rcon_def)
  define temp where "temp = keys ! (m - 1)"
  have temp: "bytes_of temp = aes_W key nk (m - Suc 0)" and old: "bytes_of (keys ! (m - nk)) = aes_W key nk (m - nk)"
    using keys(3) step assms(1) by (simp_all add: temp_def)
  define v where "v = (if m mod nk = 0 then SUBBYTE (ROTBYTE temp) g_sbox XOR ucast rcon
    else if nk > 6 \<and> m mod nk = 4 then SUBBYTE temp g_sbox else temp)"
  define rcon' where "rcon' = (if m mod nk = 0 then xtime rcon else rcon)"
  have exp: "aes_expand_step nk m (keys, ucast rcon) = (keys[m := keys ! (m - nk) XOR v], ucast rcon')"
    by (simp add: aes_expand_step_def Let_def temp_def v_def rcon'_def ucast_and)
  have m: "Suc (m - 1) = m" using step assms(1) by simp
  have "rcon' = (xtime ^^ (m div nk)) 1"
    using div_Suc [of "m - 1" nk] m by (auto simp: rcon'_def rcon_def)
  moreover have "bytes_of (keys ! (m - nk) XOR v) = aes_W key nk m"
    using div_Suc [of "m - 1" nk] m step(1) assms(1)
    by (auto simp: aes_W.simps [of key nk m] v_def temp old bytes_of_rot bytes_of_sub bytes_of_ucast rcon_def Let_def)
  ultimately show ?case
    using keys step exp by (auto simp: upt_Suc_append nth_list_update less_Suc_eq)
qed

section \<open>The inverse cipher\<close>

definition inv_sub_byte :: "byte \<Rightarrow> byte" where
  "inv_sub_byte b = g_isbox ! unat b"

definition InvSubBytes :: "byte list list \<Rightarrow> byte list list" where
  "InvSubBytes s = map (map inv_sub_byte) s"

definition InvShiftRows :: "byte list list \<Rightarrow> byte list list" where
  "InvShiftRows s = map (\<lambda>c. map (\<lambda>r. s ! ((c + 4 - r) mod 4) ! r) [0..<4]) [0..<4]"

definition InvMixColumn :: "byte list \<Rightarrow> byte list" where
  "InvMixColumn s =
     [gf_mul 14 (s ! 0) XOR gf_mul 11 (s ! 1) XOR gf_mul 13 (s ! 2) XOR gf_mul 9 (s ! 3),
      gf_mul 9 (s ! 0) XOR gf_mul 14 (s ! 1) XOR gf_mul 11 (s ! 2) XOR gf_mul 13 (s ! 3),
      gf_mul 13 (s ! 0) XOR gf_mul 9 (s ! 1) XOR gf_mul 14 (s ! 2) XOR gf_mul 11 (s ! 3),
      gf_mul 11 (s ! 0) XOR gf_mul 13 (s ! 1) XOR gf_mul 9 (s ! 2) XOR gf_mul 14 (s ! 3)]"

lemma inv_sub_byte [simp]: "inv_sub_byte (sub_byte b) = b"
  by (simp add: inv_sub_byte_def isbox_eq)

lemma dec_cols:
  assumes "length w = 4"
  shows "map bytes_of (map (aes_dec_col w) [0..<4]) = map InvMixColumn (InvShiftRows (InvSubBytes (map bytes_of w)))"
proof -
  obtain a b c d where w: "w = [a, b, c, d]" using assms list_4 by metis
  show ?thesis
    by (simp add: w upt_4 aes_dec_col_def g_idxd_def byte_ats itbl_eq Let_def InvShiftRows_def InvSubBytes_def InvMixColumn_def
        gf_mul_const inv_sub_byte_def [symmetric])
      (simp add: bytes_of_def ac_simps)
qed

lemma last_cols_dec:
  assumes "length w = 4"
  shows "map bytes_of (map (\<lambda>x. SUBBYTE x g_isbox) (map (aes_last_col g_idxd w) [0..<4])) = InvShiftRows (InvSubBytes (map bytes_of w))"
proof -
  obtain a b c d where w: "w = [a, b, c, d]" using assms list_4 by metis
  show ?thesis
    by (simp add: w upt_4 g_idxd_def aes_last_col_nums SUBBYTE_eq inv_sub_byte_def [symmetric] aes_last_col_def InvShiftRows_def InvSubBytes_def)
      (simp add: bytes_of_def)
qed

lemma inv_mix_eq:
  assumes "c < 4"
  shows "bytes_of (inv_mix_column a ! c) = InvMixColumn (bytes_of (a ! c))"
proof -
  have "inv_mix_column a ! c = word_of_bytes (inv_mix_byte (a ! c) 0) (inv_mix_byte (a ! c) 1) (inv_mix_byte (a ! c) 2) (inv_mix_byte (a ! c) 3)"
  proof -
    have "c = 0 \<or> c = 1 \<or> c = 2 \<or> c = 3" using assms by linarith
    then show ?thesis by (elim disjE) (simp_all add: inv_mix_column_def upt_4 word_of_bytes_def or.assoc)
  qed
  moreover have "inv_mix_byte w 0 = mul 14 (wb w 0) XOR mul 11 (wb w 1) XOR mul 13 (wb w 2) XOR mul 9 (wb w 3)"
    "inv_mix_byte w 1 = mul 14 (wb w 1) XOR mul 11 (wb w 2) XOR mul 13 (wb w 3) XOR mul 9 (wb w 0)"
    "inv_mix_byte w 2 = mul 14 (wb w 2) XOR mul 11 (wb w 3) XOR mul 13 (wb w 0) XOR mul 9 (wb w 1)"
    "inv_mix_byte w 3 = mul 14 (wb w 3) XOR mul 11 (wb w 0) XOR mul 13 (wb w 1) XOR mul 9 (wb w 2)" for w
    using wb_ucast [of 0 w] wb_ucast [of 1 w] wb_ucast [of 2 w] wb_ucast [of 3 w] by (simp_all add: inv_mix_byte_def)
  ultimately show ?thesis
    by (simp add: InvMixColumn_def mul_eq) (simp add: bytes_of_def ac_simps)
qed

section \<open>Inverses\<close>

text \<open>A state of the right shape.\<close>

definition aes_state :: "byte list list \<Rightarrow> bool" where
  "aes_state s \<longleftrightarrow> length s = 4 \<and> list_all (\<lambda>c. length c = 4) s"

lemma aes_stateE:
  assumes "aes_state s"
  obtains a0 a1 a2 a3 b0 b1 b2 b3 c0 c1 c2 c3 d0 d1 d2 d3
  where "s = [[a0, a1, a2, a3], [b0, b1, b2, b3], [c0, c1, c2, c3], [d0, d1, d2, d3]]"
  using assms unfolding aes_state_def list_4 by (auto simp: list_4)

lemma aes_state_intros:
  "aes_state s \<Longrightarrow> aes_state (SubBytes s)" "aes_state (ShiftRows s)" "aes_state (map MixColumn (ShiftRows s))"
  "aes_state (round_key (\<lambda>i. bytes_of (k i)) r)" "aes_state (aes_columns b)"
  "aes_state s \<Longrightarrow> aes_state k' \<Longrightarrow> aes_state (AddRoundKey k' s)"
  by (auto simp: aes_state_def SubBytes_def ShiftRows_def MixColumn_def round_key_def aes_columns_def AddRoundKey_def upt_4 list_4 bytes_of_def)

lemma inv_shift_sub:
  assumes "aes_state s"
  shows "InvShiftRows (InvSubBytes (ShiftRows (SubBytes s))) = s"
  using assms by (rule aes_stateE) (simp add: InvShiftRows_def InvSubBytes_def ShiftRows_def SubBytes_def upt_4)

lemma add_key_twice:
  assumes "aes_state s" and "aes_state k"
  shows "AddRoundKey k (AddRoundKey k s) = s"
  by (rule aes_stateE [OF assms(1)], rule aes_stateE [OF assms(2)]) (simp add: AddRoundKey_def xor.assoc)

lemma xor_left_self: "a XOR (a XOR b) = b" for a b :: byte
  by (simp flip: xor.assoc)

lemma inv_mix_mix: "length c = 4 \<Longrightarrow> InvMixColumn (MixColumn c) = c"
  unfolding list_4
  by (auto simp: InvMixColumn_def MixColumn_def gf_mul_const gf_three_def gf_9_def gf_11_def gf_13_def gf_14_def xtime_xor
      ac_simps xor_left_self)

lemma inv_mix_xor: "length c = 4 \<Longrightarrow> length k = 4 \<Longrightarrow> InvMixColumn (map2 (XOR) c k) = map2 (XOR) (InvMixColumn c) (InvMixColumn k)"
  unfolding list_4
  by (auto simp: InvMixColumn_def gf_mul_const gf_9_def gf_11_def gf_13_def gf_14_def xtime_xor ac_simps)

lemma inv_mix_state:
  assumes "aes_state s" and "aes_state k"
  shows "map InvMixColumn (AddRoundKey k (map MixColumn s)) = AddRoundKey (map InvMixColumn k) s"
proof -
  have "length (MixColumn c) = 4" for c by (simp add: MixColumn_def)
  with assms show ?thesis
    by (auto simp: AddRoundKey_def aes_state_def list_4 inv_mix_xor inv_mix_mix)
qed

section \<open>The keys of a context\<close>

lemma fold_list_upd:
  assumes "n \<le> length l"
  shows "length (fold (\<lambda>i l. l[i := f i]) [0..<n] l) = length l \<and>
    (\<forall>j < length l. fold (\<lambda>i l. l[i := f i]) [0..<n] l ! j = (if j < n then f j else l ! j))"
  using assms by (induction n) (auto simp: nth_list_update less_Suc_eq)

lemma put_words:
  assumes "i + 4 \<le> length l"
  shows "length (put_words l i ws) = length l"
    and "j < length l \<Longrightarrow> put_words l i ws ! j = (if i \<le> j \<and> j < i + 4 then ws ! (j - i) else l ! j)"
proof -
  have "j = i \<or> j = i + 1 \<or> j = i + 2 \<or> j = i + 3" if "i \<le> j" "j < i + 4"
    using that by linarith
  then show "length (put_words l i ws) = length l"
    "j < length l \<Longrightarrow> put_words l i ws ! j = (if i \<le> j \<and> j < i + 4 then ws ! (j - i) else l ! j)"
    by (auto simp: put_words_def upt_4 nth_list_update)
qed

text \<open>What the inverse cipher finds at round \<open>r\<close>: the key of the round, mixed inversely but for the
  first and the last.\<close>

definition ikeys_ok :: "word32 list \<Rightarrow> word32 list \<Rightarrow> nat \<Rightarrow> nat \<Rightarrow> bool" where
  "ikeys_ok keys ikeys nr m \<longleftrightarrow> length ikeys = length keys \<and>
     (\<forall>c < 4. ikeys ! c = keys ! c \<and> ikeys ! (4 * nr + c) = keys ! (4 * nr + c)) \<and>
     (\<forall>r. 0 < r \<and> r < m \<longrightarrow> (\<forall>c < 4. ikeys ! (4 * r + c) = inv_mix_column (drop (4 * r) keys) ! c))"

lemma ikeys_step:
  assumes "ikeys_ok keys ikeys nr m" and "0 < m" and "m < nr" and "4 * nr + 4 \<le> length keys"
  shows "ikeys_ok keys (aes_inv_step keys m ikeys) nr (Suc m)"
proof -
  let ?ik = "aes_inv_step keys m ikeys"
  have len: "4 * m + 4 \<le> length ikeys" "length ikeys = length keys"
    using assms by (simp_all add: ikeys_ok_def)
  have nth: "?ik ! (4 * r + c) = (if r = m then inv_mix_column (drop (4 * m) keys) ! c else ikeys ! (4 * r + c))"
    if "c < 4" "r \<le> nr" for r c
    using put_words(2) [OF len(1), of "4 * r + c" "inv_mix_column (drop (4 * m) keys)"] that len assms
    by (cases r m rule: linorder_cases) (auto simp: aes_inv_step_def)
  show ?thesis
    using nth assms nth [of _ 0] put_words(1) [OF len(1)]
    by (auto simp: ikeys_ok_def less_Suc_eq aes_inv_step_def)
qed

lemma ikeys_steps:
  assumes "ikeys_ok keys ikeys nr 1" and "4 * nr + 4 \<le> length keys" and "m \<le> nr"
  shows "ikeys_ok keys (fold (aes_inv_step keys) [1..<m] ikeys) nr m"
  using assms(3)
proof (induction m)
  case (Suc m)
  then show ?case
    using assms ikeys_step [of keys "fold (aes_inv_step keys) [1..<m] ikeys" nr m] by (cases "m = 0") auto
qed (use assms(1) in \<open>simp add: ikeys_ok_def\<close>)

lemma less_4: "(c < 4) = (c = 0 \<or> c = 1 \<or> c = 2 \<or> c = (3 :: nat))"
  by linarith

lemma ikeys_start:
  assumes "4 * nr + 4 \<le> length keys" and "length ikeys = length keys" and "0 < nr"
  shows "ikeys_ok keys (fold (\<lambda>i ikeys. ikeys[i := keys ! i, 4 * nr + i := keys ! (4 * nr + i)]) [0..<4] ikeys) nr 1"
proof -
  have "ikeys \<noteq> []" "keys \<noteq> []" using assms by auto
  then show ?thesis
    using assms by (auto simp: ikeys_ok_def upt_4 nth_list_update less_4)
qed

definition aes_ready :: "aes_ctx \<Rightarrow> byte list \<Rightarrow> nat \<Rightarrow> nat \<Rightarrow> bool" where
  "aes_ready c key nk nr \<longleftrightarrow> aes_nrounds c = nr \<and> 0 < nr \<and> 4 * nr + 4 \<le> length (aes_keys c) \<and>
     (\<forall>i < 4 * nr + 4. bytes_of (aes_keys c ! i) = aes_W key nk i) \<and> ikeys_ok (aes_keys c) (aes_ikeys c) nr nr"

lemma setup_ready:
  assumes "aes_sizes keysize = (nk, nr)" and "length (aes_keys ctx) = 60" and "length (aes_ikeys ctx) = 60"
  shows "aes_ready (ln_aes_setup ctx keysize key) key nk nr"
proof -
  have sz: "0 < nk" "nk \<le> 4 * nr + 4" "4 * nr + 4 \<le> 60" "0 < nr" "nk \<le> 60"
    using assms(1) by (auto simp: aes_sizes_def split: if_splits)
  define keys0 where "keys0 = fold (\<lambda>i keys. keys[i := aes_key_word key i]) [0..<nk] (aes_keys ctx)"
  have keys0: "length keys0 = 60" "\<And>i. i < nk \<Longrightarrow> bytes_of (keys0 ! i) = aes_W key nk i"
    using fold_list_upd [of nk "aes_keys ctx" "aes_key_word key"] assms sz
    by (auto simp: keys0_def aes_key_word_eq aes_W.simps upt_4)
  obtain keys rcon where keys: "fold (aes_expand_step nk) [nk..<4 * nr + 4] (keys0, 1) = (keys, rcon)"
    "length keys = 60" "\<forall>i < 4 * nr + 4. bytes_of (keys ! i) = aes_W key nk i"
    using expand_eq [of nk "4 * nr + 4" keys0 key] keys0 sz by auto
  have "ln_aes_setup ctx keysize key = \<lparr>aes_keys = keys,
     aes_ikeys = fold (aes_inv_step keys) [1..<nr] (fold (\<lambda>i ikeys. ikeys[i := keys ! i, 4 * nr + i := keys ! (4 * nr + i)]) [0..<4] (aes_ikeys ctx)),
     aes_nrounds = nr\<rparr>"
    using keys(1) by (simp add: ln_aes_setup_def assms(1) keys0_def RIJNDAEL_BLOCKSIZE_def add.commute [of 4] del: upt_Suc)
  moreover have "ikeys_ok keys (fold (aes_inv_step keys) [1..<nr]
      (fold (\<lambda>i ikeys. ikeys[i := keys ! i, 4 * nr + i := keys ! (4 * nr + i)]) [0..<4] (aes_ikeys ctx))) nr nr"
    using ikeys_start [of nr keys "aes_ikeys ctx"] keys(2) sz assms by (intro ikeys_steps) simp_all
  ultimately show ?thesis
    using keys sz by (simp add: aes_ready_def)
qed

lemma aes_W_cong:
  assumes "\<And>i. i < m \<Longrightarrow> V i = W i" and "4 * r + 4 \<le> m"
  shows " round_key V r = round_key W r"
  using assms by (auto simp: round_key_def)

lemma aes_cipher_cong:
  assumes "\<And>i. i < 4 * nr + 4 \<Longrightarrow> V i = W i"
  shows "aes_cipher V nr b = aes_cipher W nr b"
proof -
  have rk: "round_key V r = round_key W r" if "r \<le> nr" for r
    using that by (intro aes_W_cong [where m = "4 * nr + 4"] assms) simp_all
  have "fold (aes_round V) [1..<nr] s = fold (aes_round W) [1..<nr] s" for s
    by (rule fold_cong) (auto simp: aes_round_def rk)
  then show ?thesis by (simp add: aes_cipher_def rk)
qed

section \<open>Deciphering\<close>

lemma inv_mix_round_key:
  assumes "ikeys_ok keys ikeys nr nr" and "0 < r" and "r < nr" and "4 * nr + 4 \<le> length keys"
  shows "map bytes_of (take 4 (drop (4 * r) ikeys)) = map InvMixColumn (round_key (\<lambda>i. bytes_of (keys ! i)) r)"
proof -
  have "4 * r + 4 \<le> length ikeys" using assms by (simp add: ikeys_ok_def)
  moreover have "bytes_of (ikeys ! (4 * r + c)) = InvMixColumn (bytes_of (keys ! (4 * r + c)))" if "c < 4" for c
    using assms that inv_mix_eq [OF that, of "drop (4 * r) keys"] by (simp add: ikeys_ok_def)
  ultimately show ?thesis
    by (simp add: bytes_round_key) (simp add: round_key_def)
qed

lemma dec_round:
  assumes "ikeys_ok keys ikeys nr nr" and "0 < r" and "r < nr" and "4 * nr + 4 \<le> length keys" and "aes_state s"
    and w: "length w = 4" "map bytes_of w = ShiftRows (SubBytes (aes_round (\<lambda>i. bytes_of (keys ! i)) r s))"
  shows "map bytes_of (aes_dec_round ikeys r w) = ShiftRows (SubBytes s) \<and> length (aes_dec_round ikeys r w) = 4"
proof -
  let ?W = "\<lambda>i. bytes_of (keys ! i)"
  have len: "4 \<le> length (drop (4 * r) ikeys)" using assms by (simp add: ikeys_ok_def)
  have st: "aes_state (ShiftRows (SubBytes s))" "aes_state (aes_round ?W r s)"
    using assms(5) by (simp_all add: aes_state_intros aes_round_def)
  have "map bytes_of (map (aes_dec_col w) [0..<4]) = map InvMixColumn (aes_round ?W r s)"
    unfolding dec_cols [OF w(1)] w(2) inv_shift_sub [OF st(2)] ..
  also have "\<dots> = AddRoundKey (map InvMixColumn (round_key ?W r)) (ShiftRows (SubBytes s))"
    unfolding aes_round_def by (rule inv_mix_state) (use st in \<open>simp_all add: aes_state_intros\<close>)
  finally have "map bytes_of (aes_dec_round ikeys r w) = AddRoundKey (map InvMixColumn (round_key ?W r))
      (AddRoundKey (map InvMixColumn (round_key ?W r)) (ShiftRows (SubBytes s)))"
    using add_key_32(1) [OF _ len, of "map (aes_dec_col w) [0..<4]"] inv_mix_round_key [OF assms(1-4)]
    by (simp add: aes_dec_round_def mult.commute del: list.map)
  moreover have "aes_state (map InvMixColumn (round_key ?W r))"
    by (simp add: aes_state_def round_key_def InvMixColumn_def list_all_iff)
  ultimately show ?thesis
    using st add_key_twice add_key_32(2) [OF _ len, of "map (aes_dec_col w) [0..<4]"]
    by (simp add: aes_dec_round_def mult.commute)
qed

lemma aes_rounds_state: "aes_state s \<Longrightarrow> aes_state (fold (aes_round (\<lambda>i. bytes_of (k i))) rs s)"
  by (induction rs arbitrary: s) (simp_all add: aes_round_def aes_state_intros)

lemma dec_rounds:
  assumes "ikeys_ok keys ikeys nr nr" and "4 * nr + 4 \<le> length keys" and "aes_state s" and "n \<le> nr" and "0 < nr"
    and "length w = 4" and "map bytes_of w = ShiftRows (SubBytes (fold (aes_round (\<lambda>i. bytes_of (keys ! i))) [1..<n] s))"
  shows "map bytes_of (fold (aes_dec_round ikeys) (rev [1..<n]) w) = ShiftRows (SubBytes s)
    \<and> length (fold (aes_dec_round ikeys) (rev [1..<n]) w) = 4"
  using assms(4,6,7)
proof (induction n arbitrary: w)
  case (Suc n)
  show ?case
  proof (cases "n = 0")
    case True
    with Suc.prems show ?thesis by simp
  next
    case False
    let ?s = "fold (aes_round (\<lambda>i. bytes_of (keys ! i))) [1..<n] s"
    have "map bytes_of (aes_dec_round ikeys n w) = ShiftRows (SubBytes ?s) \<and> length (aes_dec_round ikeys n w) = 4"
      using Suc.prems False assms aes_rounds_state by (intro dec_round [of keys ikeys nr]) simp_all
    then show ?thesis using Suc False by simp
  qed
qed simp

lemma concat_aes_columns: "length b = 16 \<Longrightarrow> concat (aes_columns b) = b"
  by (rule nth_equalityI) (auto simp: aes_columns_def upt_4 less_Suc_eq numeral_eq_Suc)

lemma columns_concat:
  assumes "aes_state s"
  shows "aes_columns (concat s) = s"
  using assms by (rule aes_stateE) (simp add: aes_columns_def upt_4)

lemma decrypt_eq:
  assumes "aes_ready ctx key nk nr" and "length b = 16"
  shows "ln_aes_decrypt ctx (aes_cipher (aes_W key nk) nr b) = b"
proof -
  let ?keys = "aes_keys ctx" and ?ik = "aes_ikeys ctx"
  let ?W = "\<lambda>i. bytes_of (?keys ! i)"
  have r: "aes_nrounds ctx = nr" "0 < nr" "4 * nr + 4 \<le> length ?keys" "ikeys_ok ?keys ?ik nr nr"
    and W: "aes_cipher (aes_W key nk) nr b = aes_cipher ?W nr b"
    using assms(1) by (auto simp: aes_ready_def intro!: aes_cipher_cong)
  have len: "4 * nr + 4 \<le> length ?ik" using r by (simp add: ikeys_ok_def)
  have first: "map bytes_of (take 4 (drop (4 * nr) ?ik)) = round_key ?W nr" "map bytes_of (take 4 ?ik) = round_key ?W 0"
    using r len bytes_round_key [of nr ?ik] bytes_round_key [of 0 ?ik]
    by (auto simp: ikeys_ok_def round_key_def)
  define s0 where "s0 = AddRoundKey (round_key ?W 0) (aes_columns b)"
  define s where "s = ShiftRows (SubBytes (fold (aes_round ?W) [1..<nr] s0))"
  have st: "aes_state s0" "aes_state s" "aes_state (round_key ?W nr)" "aes_state (round_key ?W 0)"
    by (simp_all add: s0_def s_def aes_state_intros aes_rounds_state)
  have c: "aes_cipher ?W nr b = concat (AddRoundKey (round_key ?W nr) s)"
    by (simp add: aes_cipher_def s_def s0_def)
  define w0 where "w0 = key_addition_8to32 (aes_cipher ?W nr b) (drop (4 * nr) ?ik)"
  have w0: "map bytes_of w0 = s" "length w0 = 4"
    using add_key_8to32 [of "drop (4 * nr) ?ik" "aes_cipher ?W nr b"] len
    by (simp_all add: w0_def first c columns_concat add_key_twice st aes_state_intros)
  define w where "w = fold (aes_dec_round ?ik) (rev [1..<nr]) w0"
  have w: "map bytes_of w = ShiftRows (SubBytes s0)" "length w = 4"
    using dec_rounds [OF r(4,3) st(1) _ r(2), of nr w0] w0 by (simp_all add: w_def s_def)
  have "ln_aes_decrypt ctx (aes_cipher ?W nr b) = key_addition32to8 (map (\<lambda>x. SUBBYTE x g_isbox) (map (aes_last_col g_idxd w) [0..<4])) ?ik"
    by (simp add: ln_aes_decrypt_def Let_def w_def w0_def r)
  also have "\<dots> = concat (AddRoundKey (map bytes_of (take 4 ?ik)) (map bytes_of (map (\<lambda>x. SUBBYTE x g_isbox) (map (aes_last_col g_idxd w) [0..<4]))))"
    using len by (intro add_key_32to8) simp_all
  also have "\<dots> = concat (AddRoundKey (round_key ?W 0) s0)"
    unfolding last_cols_dec [OF w(2)] w(1) inv_shift_sub [OF st(1)] first ..
  also have "\<dots> = b"
    using assms(2) st by (simp add: s0_def add_key_twice aes_state_intros concat_aes_columns)
  finally show ?thesis by (simp add: W)
qed

section \<open>The theorems\<close>

text \<open>C32: enciphering with a context that \<open>ln_aes_setup\<close> has made is the AES of the standard, with its
  key expansion, for the three key sizes.\<close>

theorem aes_encrypt_correct:
  assumes "aes_sizes keysize = (nk, nr)" and "length (aes_keys ctx) = 60" and "length (aes_ikeys ctx) = 60"
  shows "ln_aes_encrypt (ln_aes_setup ctx keysize key) b = aes_cipher (aes_W key nk) nr b"
  using setup_ready [OF assms, of key]
  by (auto simp: aes_ready_def encrypt_eq intro!: aes_cipher_cong)

lemma aes_encrypt_correct_witness:
  "ln_aes_encrypt (ln_aes_setup \<lparr>aes_keys = replicate 60 0, aes_ikeys = replicate 60 0, aes_nrounds = 0\<rparr> 16 (replicate 16 1)) (replicate 16 2)
     = aes_cipher (aes_W (replicate 16 1) 4) 10 (replicate 16 2)"
  by (rule aes_encrypt_correct) (simp_all add: aes_sizes_def)

text \<open>C33: deciphering undoes enciphering, for every key, block and prior content of the context.\<close>

theorem aes_decrypt_encrypt:
  assumes "length (aes_keys ctx) = 60" and "length (aes_ikeys ctx) = 60" and "length b = 16"
  shows "ln_aes_decrypt (ln_aes_setup ctx keysize key) (ln_aes_encrypt (ln_aes_setup ctx keysize key) b) = b"
proof -
  obtain nk nr where sz: "aes_sizes keysize = (nk, nr)" by fastforce
  note ready = setup_ready [OF sz assms(1,2), of key]
  from ready have "ln_aes_encrypt (ln_aes_setup ctx keysize key) b = aes_cipher (aes_W key nk) nr b"
    by (auto simp: aes_ready_def encrypt_eq intro!: aes_cipher_cong)
  then show ?thesis by (simp only: decrypt_eq [OF ready assms(3)])
qed

lemma aes_decrypt_encrypt_witness:
  "let ctx = ln_aes_setup \<lparr>aes_keys = replicate 60 7, aes_ikeys = replicate 60 0, aes_nrounds = 3\<rparr> 24 (replicate 24 1)
   in ln_aes_decrypt ctx (ln_aes_encrypt ctx (replicate 16 5)) = replicate 16 5"
  unfolding Let_def by (rule aes_decrypt_encrypt) simp_all

end
