(* ===== verification/Linux_Time.thy ===== *)
theory Linux_Time
  imports Prelude "HOL-Library.Signed_Division"
begin

text \<open>
  Calendar time, \<^verbatim>\<open>components/utils/linux_compat/linux_compat_time.c\<close>.  \<^verbatim>\<open>time_t\<close> is the signed 64-bit
  type of the C library of GCC; its values are \<^typ>\<open>int\<close>, as are the fields of \<^verbatim>\<open>struct tm\<close>.  A conversion
  to \<^verbatim>\<open>int\<close> is written \<open>s32\<close>; a sum of two \<^verbatim>\<open>int\<close> that overflows, or a table index out of range,
  makes the function \<^const>\<open>None\<close>.  The tick counter of the kernel is an argument.
\<close>

section \<open>Integers\<close>

definition s32 :: "int \<Rightarrow> int" where
  "s32 n = (n + 2 ^ 31) mod 2 ^ 32 - 2 ^ 31"

definition int_range :: "int \<Rightarrow> bool" where
  "int_range n \<longleftrightarrow> - (2 ^ 31) \<le> n \<and> n < 2 ^ 31"

definition add_int :: "int \<Rightarrow> int \<Rightarrow> int option" where
  "add_int a b = (if int_range (a + b) then Some (a + b) else None)"

section \<open>Calendar\<close>

record tm =
  tm_sec :: int
  tm_min :: int
  tm_hour :: int
  tm_mday :: int
  tm_mon :: int
  tm_year :: int
  tm_wday :: int
  tm_yday :: int
  tm_isdst :: int

definition SPD :: int where "SPD = 24 * 60 * 60"

definition spm :: "int list" where
  "spm = [0, 31, 31 + 28, 31 + 28 + 31, 31 + 28 + 31 + 30, 31 + 28 + 31 + 30 + 31, 31 + 28 + 31 + 30 + 31 + 30,
     31 + 28 + 31 + 30 + 31 + 30 + 31, 31 + 28 + 31 + 30 + 31 + 30 + 31 + 31, 31 + 28 + 31 + 30 + 31 + 30 + 31 + 31 + 30,
     31 + 28 + 31 + 30 + 31 + 30 + 31 + 31 + 30 + 31, 31 + 28 + 31 + 30 + 31 + 30 + 31 + 31 + 30 + 31 + 30,
     31 + 28 + 31 + 30 + 31 + 30 + 31 + 31 + 30 + 31 + 30 + 31]"

definition isleap :: "int \<Rightarrow> bool" where
  "isleap year \<longleftrightarrow> year smod 4 = 0 \<and> (year smod 100 \<noteq> 0 \<or> year smod 400 = 0)"

definition tz_is_dst :: int where "tz_is_dst = 0"

section \<open>Seconds to date\<close>

function gm_year :: "int \<Rightarrow> int \<Rightarrow> int \<times> int" where
  "gm_year i work =
     (let k = (if isleap (s32 i) then 366 else 365)
      in if work \<ge> k then gm_year (i + 1) (work - k) else (i, work))"
  by pat_completeness auto
termination by (relation "measure (\<lambda>(i, work). nat work)") (auto split: if_splits)

declare gm_year.simps [simp del]

fun gm_mon :: "nat \<Rightarrow> int \<Rightarrow> nat" where
  "gm_mon i work = (if i \<noteq> 0 \<and> spm ! i > work then gm_mon (i - 1) work else i)"

declare gm_mon.simps [simp del]

definition gmtime_r :: "int \<Rightarrow> tm" where
  "gmtime_r t =
     (let work = t smod SPD;
          sec = work smod 60;
          work = work sdiv 60;
          minute = work smod 60;
          hour = work sdiv 60;
          work = t sdiv SPD;
          wday = (4 + work) smod 7;
          (i, work) = gm_year 1970 work;
          year = s32 (i - 1900);
          yday = s32 work;
          (mday, work) = (if isleap (s32 i) \<and> work > 58 then (if work = 59 then 2 else 1, work - 1) else (1, work));
          mon = gm_mon 11 work
      in \<lparr>tm_sec = sec, tm_min = minute, tm_hour = hour, tm_mday = s32 (mday + (work - spm ! mon)), tm_mon = int mon,
          tm_year = year, tm_wday = wday, tm_yday = yday, tm_isdst = tz_is_dst\<rparr>)"

definition localtime_r :: "int \<Rightarrow> int \<Rightarrow> tm" where
  "localtime_r tz t = gmtime_r (t + tz * 3600)"

section \<open>Date to seconds\<close>

text \<open>The fields that are too large are carried into the next.\<close>

definition tm_carry :: "tm \<Rightarrow> tm option" where
  "tm_carry t = do {
     t \<leftarrow> (if tm_sec t > 60 then do { m \<leftarrow> add_int (tm_min t) (tm_sec t sdiv 60); Some (t\<lparr>tm_min := m, tm_sec := tm_sec t smod 60\<rparr>) }
       else Some t);
     t \<leftarrow> (if tm_min t \<ge> 60 then do { h \<leftarrow> add_int (tm_hour t) (tm_min t sdiv 60); Some (t\<lparr>tm_hour := h, tm_min := tm_min t smod 60\<rparr>) }
       else Some t);
     t \<leftarrow> (if tm_hour t \<ge> 24 then do { d \<leftarrow> add_int (tm_mday t) (tm_hour t sdiv 24); Some (t\<lparr>tm_mday := d, tm_hour := tm_hour t smod 24\<rparr>) }
       else Some t);
     if tm_mon t \<ge> 12 then do { y \<leftarrow> add_int (tm_year t) (tm_mon t sdiv 12); Some (t\<lparr>tm_year := y, tm_mon := tm_mon t smod 12\<rparr>) }
     else Some t
   }"

text \<open>The loop on the day of the month, one turn.\<close>

definition mday_turn :: "tm \<Rightarrow> tm option" where
  "mday_turn t = do {
     leap \<leftarrow> (if tm_mon t = 1 then do { y \<leftarrow> add_int (tm_year t) 1900; Some (isleap y) } else Some False);
     let mday = (if leap then tm_mday t - 1 else tm_mday t) - spm ! nat (tm_mon t);
     if tm_mon t + 1 > 11 then do { y \<leftarrow> add_int (tm_year t) 1; Some (t\<lparr>tm_mday := mday, tm_mon := 0, tm_year := y\<rparr>) }
     else Some (t\<lparr>tm_mday := mday, tm_mon := tm_mon t + 1\<rparr>)
   }"

lemma spm_pos:
  assumes "0 \<le> m" and "m \<le> 11"
  shows "0 < spm ! nat (1 + m)" and "0 < m \<Longrightarrow> 0 < spm ! nat m"
proof -
  have "m = 0 \<or> m = 1 \<or> m = 2 \<or> m = 3 \<or> m = 4 \<or> m = 5 \<or> m = 6 \<or> m = 7 \<or> m = 8 \<or> m = 9 \<or> m = 10 \<or> m = 11"
    using assms by presburger
  then show "0 < spm ! nat (1 + m)" "0 < m \<Longrightarrow> 0 < spm ! nat m"
    by (auto simp: spm_def)
qed

lemma mday_turn_less:
  assumes "mday_turn t = Some t'" and "0 \<le> tm_mon t" and "tm_mon t \<le> 11" and "tm_mday t > spm ! nat (1 + tm_mon t)"
  shows "nat (tm_mday t') < nat (tm_mday t) \<or> tm_mday t' = tm_mday t \<and> tm_mon t = 0 \<and> tm_mon t' = 1"
proof -
  have pos: "0 < tm_mday t" using assms(4) spm_pos(1) [OF assms(2,3)] by linarith
  show ?thesis
  proof (cases "tm_mon t = 0")
    case True
    with assms(1) show ?thesis by (auto simp: mday_turn_def spm_def)
  next
    case False
    then have "0 < spm ! nat (tm_mon t)" using spm_pos(2) [OF assms(2,3)] assms(2) by linarith
    moreover have "tm_mday t' \<le> tm_mday t - spm ! nat (tm_mon t)"
      using assms(1) by (auto simp: mday_turn_def Let_def split: Option.bind_splits if_splits)
    ultimately show ?thesis using pos by linarith
  qed
qed

function mday_loop :: "tm \<Rightarrow> tm option" where
  "mday_loop t =
     (if tm_mon t < -1 \<or> 11 < tm_mon t then None
      else if tm_mday t > spm ! nat (1 + tm_mon t)
      then if tm_mon t < 0 then None
        else (case mday_turn t of None \<Rightarrow> None | Some t' \<Rightarrow> mday_loop t')
      else Some t)"
  by pat_completeness auto
termination
  by (relation "measures [\<lambda>t. nat (tm_mday t), \<lambda>t. if tm_mon t = 0 then 1 else 0]") (auto dest: mday_turn_less)

declare mday_loop.simps [simp del]

text \<open>Days of the years since 1970.\<close>

definition day_count :: "int \<Rightarrow> int" where
  "day_count years =
     (let day = years * 365 + (years + 1) sdiv 4
      in if years \<ge> 131
         then let years = (years - 131) sdiv 100;
                  day = day - ((years div 4) * 3 + 1);
                  years = (if years mod 4 = 3 then 2 else years mod 4)
              in day - years
         else day)"

definition timegm :: "tm \<Rightarrow> (tm \<times> int) option" where
  "timegm t = do {
     let years = tm_year t - 70;
     t \<leftarrow> tm_carry t;
     t \<leftarrow> mday_loop t;
     if tm_year t < 70 then Some (t, -1)
     else do {
       let day = day_count years;
       y \<leftarrow> add_int (tm_year t) 1900;
       _ \<leftarrow> (if tm_mon t < 0 then None else Some ());
       yday \<leftarrow> add_int (spm ! nat (tm_mon t)) (tm_mday t);
       yday \<leftarrow> add_int yday (- 1);
       yday \<leftarrow> add_int yday (if isleap y \<and> tm_mon t > 1 then 1 else 0);
       let day = day + yday;
       Some (t\<lparr>tm_yday := yday, tm_wday := (day + 4) smod 7\<rparr>, ((day * 24 + tm_hour t) * 60 + tm_min t) * 60 + tm_sec t)
     }
   }"

definition mktime :: "int \<Rightarrow> tm \<Rightarrow> (tm \<times> int) option" where
  "mktime tz t = do { (t, timestamp) \<leftarrow> timegm t; Some (t, timestamp - 3600 * tz) }"

section \<open>Text\<close>

definition days :: "byte list" where
  "days = map (\<lambda>c. of_nat (of_char c)) ''Sun Mon Tue Wed Thu Fri Sat ''"

definition months :: "byte list" where
  "months = map (\<lambda>c. of_nat (of_char c)) ''Jan Feb Mar Apr May Jun Jul Aug Sep Oct Nov Dec ''"

definition num2str :: "int \<Rightarrow> byte list" where
  "num2str i = [word_of_int (i sdiv 10 + 48), word_of_int (i smod 10 + 48)]"

text \<open>Four bytes are copied from the names of the days and of the months; a negative index is
  outside.\<close>

definition name_at :: "byte list \<Rightarrow> int \<Rightarrow> byte list option" where
  "name_at names i = (if i < 0 then None else Some (bslice (nat i * 4) 4 names))"

definition asctime_r :: "tm \<Rightarrow> byte list option" where
  "asctime_r t =
     (if \<not> int_range (4 * tm_wday t) \<or> \<not> int_range (4 * tm_mon t) then None
      else do {
       let bad = (int (length days) \<le> 4 * tm_wday t \<or> int (length months) \<le> 4 * tm_mon t);
       day \<leftarrow> name_at days (if bad then 0 else tm_wday t);
       mon \<leftarrow> name_at months (if bad then 0 else tm_mon t);
       y \<leftarrow> (if bad then Some 2000 else add_int (tm_year t) 1900);
       let mday = num2str (tm_mday t);
       let mday = (if mday ! 0 = 48 then mday[0 := 32] else mday);
       Some (day @ mon @ mday @ [32] @ num2str (tm_hour t) @ [58] @ num2str (tm_min t) @ [58] @ num2str (tm_sec t) @ [32]
         @ num2str (y sdiv 100) @ num2str (y smod 100) @ [10, 0])
     })"

definition ctime_r :: "int \<Rightarrow> int \<Rightarrow> byte list option" where
  "ctime_r tz t = asctime_r (localtime_r tz t)"

section \<open>The clock\<close>

record time_state =
  init_tick :: nat
  init_time :: int
  current_timezone :: int

definition OS_HZ :: nat where "OS_HZ = 1000"

definition linux_time :: "time_state \<Rightarrow> nat \<Rightarrow> int" where
  "linux_time s tick = init_time s + int (sub_u32 tick (init_tick s) div OS_HZ)"

definition stime :: "time_state \<Rightarrow> nat \<Rightarrow> int option \<Rightarrow> time_state \<times> int" where
  "stime s tick t = (case t of None \<Rightarrow> (s, -1)
     | Some t \<Rightarrow> (s\<lparr>init_time := t - int (sub_u32 tick (init_tick s) div OS_HZ)\<rparr>, 0))"

text \<open>\<open>gettimeofday\<close> returns its result and what it stores: minutes west and correction, seconds and
  microseconds.\<close>

definition gettimeofday :: "time_state \<Rightarrow> nat \<Rightarrow> bool \<Rightarrow> bool \<Rightarrow> int \<times> (int \<times> int) option \<times> (int \<times> int) option" where
  "gettimeofday s tick tv tz =
     (if tv then 0 else -1,
      if tv then Some (init_time s + int (sub_u32 tick (init_tick s) div OS_HZ), 0) else None,
      if tz then Some (- (current_timezone s * 60), 0) else None)"

definition settimeofday :: "time_state \<Rightarrow> nat \<Rightarrow> (int \<times> int) option \<Rightarrow> time_state \<times> int" where
  "settimeofday s tick tv = (case tv of
       Some (sec, usec) \<Rightarrow> if usec \<ge> 0 then (s\<lparr>init_time := sec - int (sub_u32 tick (init_tick s) div OS_HZ)\<rparr>, 0) else (s, -1)
     | None \<Rightarrow> (s, -1))"

definition tz_set :: "time_state \<Rightarrow> int \<Rightarrow> time_state" where
  "tz_set s tz = s\<lparr>current_timezone := tz\<rparr>"

definition tz_get :: "time_state \<Rightarrow> int" where
  "tz_get s = current_timezone s"

definition LOCAL_TIME_DEFAULT :: tm where
  "LOCAL_TIME_DEFAULT = \<lparr>tm_sec = 2, tm_min = 2, tm_hour = 2, tm_mday = 2, tm_mon = 2 - 1, tm_year = 2022 - 1900,
     tm_wday = 0, tm_yday = 0, tm_isdst = 0\<rparr>"

definition linux_copat_time_init :: "time_state \<Rightarrow> nat \<Rightarrow> time_state option" where
  "linux_copat_time_init s tick = do {
     (t, secs) \<leftarrow> timegm LOCAL_TIME_DEFAULT;
     Some (s\<lparr>init_tick := tick, init_time := secs\<rparr>)
   }"

end
