(* ===== verification/Linux_Time_Correct.thy ===== *)
theory Linux_Time_Correct
  imports Linux_Time
begin

text \<open>
  The calendar functions against the Gregorian calendar, counted year by year and month by month:
  \<^verbatim>\<open>timegm\<close> gives the seconds since 1970, \<^verbatim>\<open>gmtime_r\<close> a valid date of them, and local time with any
  zone goes forth and back.
\<close>

section \<open>The calendar\<close>

definition leap_year :: "int \<Rightarrow> bool" where
  "leap_year y \<longleftrightarrow> 4 dvd y \<and> (\<not> 100 dvd y \<or> 400 dvd y)"

definition year_len :: "int \<Rightarrow> int" where
  "year_len y = (if leap_year y then 366 else 365)"

definition month_len :: "int \<Rightarrow> nat \<Rightarrow> int" where
  "month_len y m = [31, if leap_year y then 29 else 28, 31, 30, 31, 30, 31, 31, 30, 31, 30, 31] ! m"

definition year_start :: "int \<Rightarrow> int" where
  "year_start y = (\<Sum>k\<in>{1970..<y}. year_len k)"

definition month_start :: "int \<Rightarrow> nat \<Rightarrow> int" where
  "month_start y m = sum_list (map (month_len y) [0..<m])"

definition day_of_year :: "tm \<Rightarrow> int" where
  "day_of_year d = month_start (tm_year d + 1900) (nat (tm_mon d)) + tm_mday d - 1"

definition civil_day :: "tm \<Rightarrow> int" where
  "civil_day d = year_start (tm_year d + 1900) + day_of_year d"

definition civil_seconds :: "tm \<Rightarrow> int" where
  "civil_seconds d = ((civil_day d * 24 + tm_hour d) * 60 + tm_min d) * 60 + tm_sec d"

definition valid_date :: "tm \<Rightarrow> bool" where
  "valid_date d \<longleftrightarrow> tm_sec d \<in> {0..<60} \<and> tm_min d \<in> {0..<60} \<and> tm_hour d \<in> {0..<24} \<and> tm_mon d \<in> {0..<12} \<and>
     tm_mday d \<in> {1..month_len (tm_year d + 1900) (nat (tm_mon d))} \<and> tm_year d \<in> {70..<2 ^ 31 - 1900}"

section \<open>Integers and tables\<close>


lemma sdiv_nonneg [simp]: "0 \<le> k \<Longrightarrow> 0 < l \<Longrightarrow> k sdiv l = k div (l :: int)"
  by (simp add: signed_divide_int_def sgn_if)

lemma smod_nonneg [simp]: "0 \<le> k \<Longrightarrow> 0 < l \<Longrightarrow> k smod l = k mod (l :: int)"
  by (simp add: signed_modulo_int_def sgn_if)

lemma isleap_eq: "0 \<le> y \<Longrightarrow> isleap y = leap_year y"
  by (simp add: isleap_def leap_year_def dvd_eq_mod_eq_0)


lemma sum_int_last: "i \<le> y \<Longrightarrow> (\<Sum>k\<in>{i..<y + 1}. f k) = (\<Sum>k\<in>{i..<y}. f k) + f (y :: int)"
proof -
  assume "i \<le> y"
  then have "{i..<y + 1} = insert y {i..<y}" by auto
  then show ?thesis by (simp add: add.commute)
qed

lemma month_cases: "(m < 12) = (m = 0 \<or> m = 1 \<or> m = 2 \<or> m = 3 \<or> m = 4 \<or> m = 5 \<or> m = 6 \<or> m = 7 \<or> m = 8 \<or> m = 9 \<or> m = 10 \<or> m = (11 :: nat))"
  by presburger

lemma month_start_spm: "m < 12 \<Longrightarrow> month_start y m = spm ! m + (if leap_year y \<and> 1 < m then 1 else 0)"
  unfolding month_cases by (elim disjE) (simp_all add: month_start_def month_len_def spm_def upt_rec)

lemma month_len_spm: "m < 12 \<Longrightarrow> month_len y m = spm ! Suc m - spm ! m + (if leap_year y \<and> m = 1 then 1 else 0)"
  unfolding month_cases by (elim disjE) (simp_all add: month_len_def spm_def)

lemma spm_bounds: "m < 12 \<Longrightarrow> 0 \<le> spm ! m" "m < 12 \<Longrightarrow> spm ! m \<le> 334" "m < 12 \<Longrightarrow> 31 \<le> spm ! Suc m"
  "1 < m \<Longrightarrow> m < 12 \<Longrightarrow> 59 \<le> spm ! m" "m \<le> 1 \<Longrightarrow> spm ! Suc m \<le> 59" "m = 1 \<Longrightarrow> spm ! m = 31 \<and> spm ! Suc m = 59"
  "0 < m \<Longrightarrow> m < 12 \<Longrightarrow> 31 \<le> spm ! m"
  unfolding month_cases by (elim disjE; simp add: spm_def)+ (auto simp: spm_def le_Suc_eq)

lemma month_len_pos: "m < 12 \<Longrightarrow> 28 \<le> month_len y m" "m < 12 \<Longrightarrow> month_len y m \<le> 31"
  unfolding month_cases by (elim disjE; simp add: month_len_def)+

section \<open>Days before a year\<close>

lemma div_Suc_int: "0 < k \<Longrightarrow> (a + 1) div k = a div k + (if k dvd a + 1 then 1 else 0)" for a k :: int
proof -
  assume k: "0 < k"
  define q r where "q = a div k" and "r = a mod k"
  have a: "a = k * q + r" "0 \<le> r" "r < k" using k by (simp_all add: q_def r_def)
  show ?thesis
  proof (cases "r = k - 1")
    case True
    then have "a + 1 = k * (q + 1)" by (simp add: a(1) algebra_simps)
    then show ?thesis using k q_def by simp
  next
    case False
    then have "(a + 1) div k = q" "(a + 1) mod k = r + 1"
      using a k by (auto intro!: int_div_pos_eq int_mod_pos_eq)
    then show ?thesis using a(2) by (simp add: q_def dvd_eq_mod_eq_0)
  qed
qed

text \<open>The correction of the code is the number of centuries that are not leap years.\<close>

lemma century_correction:
  fixes n :: int
  assumes "131 \<le> n"
  shows "(let c = (n - 131) div 100 in c div 4 * 3 + 1 + (if c mod 4 = 3 then 2 else c mod 4))
    = (n + 1969) div 100 - (n + 1969) div 400 - 15"
proof -
  define c where "c = (n - 131) div 100"
  have "n + 1969 = n - 131 + 21 * 100" by simp
  then have "(n + 1969) div 100 = c + 21"
    unfolding c_def by (simp only: div_mult_self1 zero_neq_numeral [symmetric] not_False_eq_True add.commute)
  moreover have "(n + 1969) div 400 = (n + 1969) div 100 div 4"
    using zdiv_zmult2_eq [of 4 "n + 1969" 100] by simp
  moreover have "c div 4 * 3 + 1 + (if c mod 4 = 3 then 2 else c mod 4) = c + 21 - (c + 21) div 4 - 15"
  proof -
    have "c + 21 = c + 1 + 5 * 4" by simp
    then have "(c + 21) div 4 = 5 + (c + 1) div 4"
      by (simp only: div_mult_self1 zero_neq_numeral [symmetric] not_False_eq_True)
    moreover have "(4 dvd c + 1) = (c mod 4 = 3)" by presburger
    ultimately show ?thesis
      using div_Suc_int [of 4 c] mult_div_mod_eq [of 4 c] by (simp split: if_splits)
  qed
  ultimately show ?thesis by (simp add: Let_def flip: c_def)
qed

lemma div_between: "b * q \<le> a \<Longrightarrow> a < b * (q + 1) \<Longrightarrow> a div b = q" for a b q :: int
  using int_div_pos_eq [of a b q "a - b * q"] by (simp add: algebra_simps)

lemma day_count_eq:
  assumes "0 \<le> n"
  shows "day_count n = n * 365 + (n + 1) div 4 - ((n + 1969) div 100 - (n + 1969) div 400 - 15)"
proof (cases "131 \<le> n")
  case True
  then show ?thesis using century_correction [of n] by (simp add: day_count_def Let_def)
next
  case False
  moreover have "(n + 1969) div 100 - (n + 1969) div 400 = 15"
    using False assms div_between [of 100 19 "n + 1969"] div_between [of 400 4 "n + 1969"] div_between [of 100 20 "n + 1969"]
      div_between [of 400 5 "n + 1969"] by (cases "n < 31") simp_all
  ultimately show ?thesis using assms by (simp add: day_count_def)
qed

text \<open>The arithmetic of one more year, with the quotients abstracted.\<close>

lemma year_arith:
  fixes a c d :: int
  assumes "x' = (n + 1) * 365 + a' - (c' - d' - 15)" and "x = n * 365 + a - (c - d - 15)"
    and "a' = a + (if P then 1 else 0)" and "c' = c + (if Q then 1 else 0)" and "d' = d + (if R then 1 else 0)"
    and "R \<Longrightarrow> Q" and "Q \<Longrightarrow> P" and "l = (if P \<and> (\<not> Q \<or> R) then 366 else 365)"
  shows "x' = x + l"
  unfolding assms(1-5,8) using assms(6,7) by (cases P; cases Q; cases R) simp_all

lemma day_count_step:
  assumes "0 \<le> n"
  shows "day_count (n + 1) = day_count n + year_len (1970 + n)"
proof (rule year_arith)
  show "day_count (n + 1) = (n + 1) * 365 + (n + 2) div 4 - ((n + 1970) div 100 - (n + 1970) div 400 - 15)"
    using assms day_count_eq [of "n + 1"] by (simp add: add.commute)
  show "day_count n = n * 365 + (n + 1) div 4 - ((n + 1969) div 100 - (n + 1969) div 400 - 15)"
    by (rule day_count_eq [OF assms])
  have "(4 dvd n + 2) = (4 dvd n + 1970)" by presburger
  then show "(n + 2) div 4 = (n + 1) div 4 + (if 4 dvd n + 1970 then 1 else 0)"
    using div_Suc_int [of 4 "n + 1"] by (simp only: add.assoc one_add_one)
  show "(n + 1970) div 100 = (n + 1969) div 100 + (if 100 dvd n + 1970 then 1 else 0)"
    using div_Suc_int [of 100 "n + 1969"] by (simp only: add.assoc) simp
  show "(n + 1970) div 400 = (n + 1969) div 400 + (if 400 dvd n + 1970 then 1 else 0)"
    using div_Suc_int [of 400 "n + 1969"] by (simp only: add.assoc) simp
  show "400 dvd n + 1970 \<Longrightarrow> 100 dvd n + 1970" "100 dvd n + 1970 \<Longrightarrow> 4 dvd n + 1970"
    by (auto elim: dvd_trans [rotated])
  show "year_len (1970 + n) = (if 4 dvd n + 1970 \<and> (\<not> 100 dvd n + 1970 \<or> 400 dvd n + 1970) then 366 else 365)"
    by (simp add: year_len_def leap_year_def add.commute)
qed

lemma year_start_eq: "0 \<le> n \<Longrightarrow> year_start (1970 + n) = day_count n"
proof (induction n rule: int_ge_induct)
  case base
  then show ?case by (simp add: year_start_def day_count_def)
next
  case (step n)
  have "year_start (1970 + (n + 1)) = year_start (1970 + n) + year_len (1970 + n)"
    using sum_int_last [of 1970 "1970 + n" year_len] step.hyps by (simp add: year_start_def algebra_simps)
  then show ?case using step day_count_step by simp
qed

lemma year_start_nonneg: "0 \<le> year_start y"
  by (simp add: year_start_def year_len_def sum_nonneg)

section \<open>From date to seconds\<close>

lemma timegm_eq:
  assumes "valid_date d"
  shows "timegm d = Some (d\<lparr>tm_yday := day_of_year d, tm_wday := (civil_day d + 4) mod 7\<rparr>, civil_seconds d)"
proof -
  define m where "m = nat (tm_mon d)"
  have v: "0 \<le> tm_sec d" "tm_sec d < 60" "0 \<le> tm_min d" "tm_min d < 60" "0 \<le> tm_hour d" "tm_hour d < 24" "tm_mon d = int m" "m < 12"
    "1 \<le> tm_mday d" "tm_mday d \<le> month_len (tm_year d + 1900) m" "70 \<le> tm_year d" "tm_year d + 1900 < 2 ^ 31"
    using assms by (auto simp: valid_date_def m_def)
  have carry: "tm_carry d = Some d"
    using v by (simp add: tm_carry_def)
  have "month_len (tm_year d + 1900) m \<le> spm ! Suc m"
    using month_len_spm [OF v(8), of "tm_year d + 1900"] spm_bounds [of m] v(8) by (auto split: if_splits)
  then have loop: "mday_loop d = Some d"
    using v by (subst mday_loop.simps) (simp add: nat_add_distrib)
  have y: "add_int (tm_year d) 1900 = Some (tm_year d + 1900)" "isleap (tm_year d + 1900) = leap_year (tm_year d + 1900)"
    using v by (simp_all add: add_int_def int_range_def isleap_eq)
  have small: "add_int (spm ! m) (tm_mday d) = Some (spm ! m + tm_mday d)"
    "add_int (spm ! m + tm_mday d) (- 1) = Some (spm ! m + tm_mday d - 1)"
    "add_int (spm ! m + tm_mday d - 1) (if b then 1 else 0) = Some (spm ! m + tm_mday d - 1 + (if b then 1 else 0))" for b
    using v month_len_pos [of m "tm_year d + 1900"] spm_bounds(1,2) [of m] by (auto simp: add_int_def int_range_def)
  have yday: "day_of_year d = spm ! m + tm_mday d - 1 + (if leap_year (tm_year d + 1900) \<and> 1 < tm_mon d then 1 else 0)"
    using v month_start_spm [OF v(8), of "tm_year d + 1900"] by (simp add: day_of_year_def)
  have day: "civil_day d = day_count (tm_year d - 70) + day_of_year d"
    using year_start_eq [of "tm_year d - 70"] v by (simp add: civil_day_def add.commute)
  have pos: "0 \<le> civil_day d"
    using v yday spm_bounds(1) [of m] year_start_nonneg [of "tm_year d + 1900"] by (simp add: civil_day_def)
  have yday': "add_int (spm ! m + tm_mday d - 1) (if leap_year (tm_year d + 1900) \<and> 1 < tm_mon d then 1 else 0) = Some (day_of_year d)"
    unfolding yday by (rule small(3))
  have "\<not> tm_year d < 70" "\<not> tm_mon d < 0" "nat (tm_mon d) = m" "(civil_day d + 4) smod 7 = (civil_day d + 4) mod 7"
    using v pos by simp_all
  then show ?thesis
    by (simp only: timegm_def carry loop y small(1,2) yday' Let_def civil_seconds_def day Option.bind.simps if_False)
qed

section \<open>From seconds to date\<close>






section \<open>The theorems\<close>

text \<open>C34: for every valid date, \<open>timegm\<close> gives the seconds since 1970 that the calendar gives, and sets the
  day of the week and of the year.\<close>

theorem timegm_calendar:
  assumes "valid_date d"
  shows "timegm d = Some (d\<lparr>tm_yday := day_of_year d, tm_wday := (civil_day d + 4) mod 7\<rparr>, civil_seconds d)"
  using assms by (rule timegm_eq)

lemma timegm_calendar_witness:
  "timegm (LOCAL_TIME_DEFAULT\<lparr>tm_mday := 29, tm_year := 2024 - 1900\<rparr>)
    = Some (LOCAL_TIME_DEFAULT\<lparr>tm_mday := 29, tm_year := 2024 - 1900, tm_yday := 59, tm_wday := 4\<rparr>, 1709172122)"
proof -
  let ?d = "LOCAL_TIME_DEFAULT\<lparr>tm_mday := 29, tm_year := 2024 - 1900\<rparr>"
  have "valid_date ?d" by (simp add: valid_date_def month_len_def leap_year_def LOCAL_TIME_DEFAULT_def)
  moreover have "year_start 2024 = 19723"
    using year_start_eq [of 54] by (simp add: day_count_def)
  then have "civil_day ?d = 19782" "day_of_year ?d = 59" "civil_seconds ?d = 1709172122"
    by (simp_all add: civil_seconds_def civil_day_def day_of_year_def LOCAL_TIME_DEFAULT_def month_start_spm spm_def)
  ultimately show ?thesis using timegm_calendar [of ?d] by (simp add: LOCAL_TIME_DEFAULT_def)
qed



section \<open>The clock\<close>

lemma ticks_since:
  assumes "tick < 2 ^ 32" and "t0 < 2 ^ 32"
  shows "sub_u32 ((tick + n) mod 2 ^ 32) t0 = (sub_u32 tick t0 + n) mod 2 ^ 32"
proof -
  have sub: "sub_u32 a t0 = (a + (2 ^ 32 - t0)) mod 2 ^ 32" for a
    using assms(2) by (simp add: sub_u32_def)
  show ?thesis unfolding sub by (simp only: mod_simps ac_simps)
qed

text \<open>C36: after \<open>stime\<close> the clock follows the tick counter to the second until the counter is back at the
  value it had when the clock was initialised; at that tick the time jumps back by as much as had passed
  before \<open>stime\<close> was called.\<close>

theorem clock_after_stime:
  assumes "tick < 2 ^ 32" and "init_tick s < 2 ^ 32"
  shows "let now = linux_time (fst (stime s tick (Some t))) ((tick + n) mod 2 ^ 32); e = sub_u32 tick (init_tick s)
    in (if e + n < 2 ^ 32 then t + int (n div OS_HZ) \<le> now \<and> now \<le> t + int (n div OS_HZ) + 1
        else if e + n = 2 ^ 32 then now = t - int (e div OS_HZ) else True)"
proof -
  define e where "e = sub_u32 tick (init_tick s)"
  have "n div 1000 + e div 1000 \<le> (e + n) div 1000" "(e + n) div 1000 \<le> n div 1000 + e div 1000 + 1"
    by (simp_all add: div_add1_eq [of e n])
  then show ?thesis
    using ticks_since [OF assms, of n] by (simp add: linux_time_def stime_def OS_HZ_def Let_def flip: e_def)
qed

lemma clock_after_stime_witness:
  "let s = \<lparr>init_tick = 4294967000, init_time = 0, current_timezone = 0\<rparr>;
       s' = fst (stime s 5000 (Some 1700000000))
   in linux_time s' 7000 \<in> {1700000002..1700000003} \<and> linux_time s' 4294967000 = 1700000000 - 5"
proof -
  have "sub_u32 5000 4294967000 = 5296" by (simp add: sub_u32_def)
  then show ?thesis
    using clock_after_stime [of 5000 "\<lparr>init_tick = 4294967000, init_time = 0, current_timezone = 0\<rparr>" 1700000000 2000]
      clock_after_stime [of 5000 "\<lparr>init_tick = 4294967000, init_time = 0, current_timezone = 0\<rparr>" 1700000000 4294962000]
    by (simp add: Let_def OS_HZ_def)
qed

end
