(* ===== verification/Ln_List.thy ===== *)
theory Ln_List
  imports Prelude
begin

text \<open>
  The intrusive doubly linked lists of \<^verbatim>\<open>components/utils/ln_list.h\<close> in an explicit store: a function from
  addresses to the two pointers.  \<open>dll\<close> relates a ring in the store to a list of addresses; each operation
  of the header is an operation on that list, which is the locale \<open>ring_list\<close> for the code that uses it.
\<close>

section \<open>The code\<close>

record links =
  nextp :: "nat \<Rightarrow> nat"
  prevp :: "nat \<Rightarrow> nat"

definition ln_list_init :: "nat \<Rightarrow> links \<Rightarrow> links" where
  "ln_list_init head h =
     (let h = h\<lparr>nextp := (nextp h)(head := head)\<rparr> in h\<lparr>prevp := (prevp h)(head := head)\<rparr>)"

definition ln_is_list_empty :: "nat \<Rightarrow> links \<Rightarrow> bool" where
  "ln_is_list_empty list h \<longleftrightarrow> nextp h list = list"

definition ln_list_insert :: "nat \<Rightarrow> nat \<Rightarrow> links \<Rightarrow> links" where
  "ln_list_insert head element h =
     (let h = h\<lparr>prevp := (prevp h)(element := prevp h head)\<rparr>;
          h = h\<lparr>nextp := (nextp h)(element := head)\<rparr>;
          h = h\<lparr>nextp := (nextp h)(prevp h head := element)\<rparr>
      in h\<lparr>prevp := (prevp h)(head := element)\<rparr>)"

definition ln_list_add :: "nat \<Rightarrow> nat \<Rightarrow> links \<Rightarrow> links" where
  "ln_list_add head element h =
     (let h = h\<lparr>prevp := (prevp h)(element := head)\<rparr>;
          h = h\<lparr>nextp := (nextp h)(element := nextp h head)\<rparr>;
          h = h\<lparr>prevp := (prevp h)(nextp h head := element)\<rparr>
      in h\<lparr>nextp := (nextp h)(head := element)\<rparr>)"

definition ln_list_rm :: "nat \<Rightarrow> links \<Rightarrow> links" where
  "ln_list_rm element h =
     (let h = h\<lparr>nextp := (nextp h)(prevp h element := nextp h element)\<rparr>
      in h\<lparr>prevp := (prevp h)(nextp h element := prevp h element)\<rparr>)"

definition ln_list_rm_init :: "nat \<Rightarrow> links \<Rightarrow> links" where
  "ln_list_rm_init element h =
     (let h = ln_list_rm element h;
          h = h\<lparr>prevp := (prevp h)(element := element)\<rparr>
      in h\<lparr>nextp := (nextp h)(element := element)\<rparr>)"

section \<open>Rings\<close>

text \<open>\<open>dseg h a xs z\<close>: from \<open>a\<close> through \<open>xs\<close> to \<open>z\<close>, linked in both directions.\<close>

fun dseg :: "links \<Rightarrow> nat \<Rightarrow> nat list \<Rightarrow> nat \<Rightarrow> bool" where
  "dseg h a [] z \<longleftrightarrow> nextp h a = z \<and> prevp h z = a"
| "dseg h a (x # xs) z \<longleftrightarrow> nextp h a = x \<and> prevp h x = a \<and> dseg h x xs z"

definition dll :: "links \<Rightarrow> nat \<Rightarrow> nat list \<Rightarrow> bool" where
  "dll h l xs \<longleftrightarrow> dseg h l xs l \<and> distinct (l # xs)"

lemma dseg_append [simp]: "dseg h a (xs @ y # ys) z \<longleftrightarrow> dseg h a xs y \<and> dseg h y ys z"
  by (induction xs arbitrary: a) auto

text \<open>A segment depends on the forward pointers of its start and its nodes and on the backward
  pointers of its nodes and its end.\<close>

lemma dseg_cong:
  "\<forall>x \<in> set (a # xs). nextp h' x = nextp h x \<Longrightarrow> \<forall>x \<in> set (xs @ [z]). prevp h' x = prevp h x \<Longrightarrow> dseg h' a xs z = dseg h a xs z"
  by (induction xs arbitrary: a) auto

lemma dseg_next: "dseg h a xs z \<Longrightarrow> nextp h a = hd (xs @ [z])"
  by (cases xs) auto

lemma dseg_prev: "dseg h a xs z \<Longrightarrow> prevp h z = last (a # xs)"
  by (induction xs arbitrary: a) auto

lemma dll_init: "dll (ln_list_init l h) l []"
  by (simp add: dll_def ln_list_init_def Let_def)

lemma dll_empty: "dll h l xs \<Longrightarrow> ln_is_list_empty l h \<longleftrightarrow> xs = []"
  by (cases xs) (auto simp: dll_def ln_is_list_empty_def)

lemmas ln_list_defs = ln_list_init_def ln_list_insert_def ln_list_add_def ln_list_rm_def Let_def

text \<open>Insertion before \<open>p\<close>, a node or the head itself; the node before \<open>p\<close> is the last of \<open>l # xs\<close>.\<close>

lemma dll_insert_end:
  assumes "dll h l xs" and "e \<notin> set (l # xs)"
  shows "dll (ln_list_insert l e h) l (xs @ [e])"
proof (cases xs rule: rev_cases)
  case Nil
  then show ?thesis using assms by (simp add: dll_def ln_list_defs)
next
  case (snoc us q)
  have "dseg (ln_list_insert l e h) l us q = dseg h l us q"
    using assms snoc by (intro dseg_cong) (auto simp: dll_def ln_list_defs)
  then show ?thesis using assms snoc by (auto simp: dll_def ln_list_defs)
qed

lemma dll_insert_before:
  assumes "dll h l (xs @ p # ys)" and "e \<notin> set (l # xs @ p # ys)"
  shows "dll (ln_list_insert p e h) l (xs @ e # p # ys)"
proof -
  have "last (l # xs) \<in> set (l # xs)" by (rule last_in_set) simp
  then have "last (l # xs) \<notin> set (p # ys)" using assms(1) by (auto simp: dll_def)
  then have ys: "dseg (ln_list_insert p e h) p ys l = dseg h p ys l"
    using assms dseg_prev [of h l xs p] by (intro dseg_cong) (auto simp: dll_def ln_list_defs)
  show ?thesis
  proof (cases xs rule: rev_cases)
    case Nil
    then show ?thesis using assms ys by (auto simp: dll_def ln_list_defs)
  next
    case (snoc us q)
    have "dseg (ln_list_insert p e h) l us q = dseg h l us q"
      using assms snoc by (intro dseg_cong) (auto simp: dll_def ln_list_defs)
    then show ?thesis using assms snoc ys by (auto simp: dll_def ln_list_defs)
  qed
qed

lemma dll_insert:
  assumes "dll h l (xs @ ys)" and "e \<notin> set (l # xs @ ys)"
  shows "dll (ln_list_insert (hd (ys @ [l])) e h) l (xs @ e # ys)"
  using assms dll_insert_end [of h l xs e] dll_insert_before [of h l xs "hd ys" "tl ys" e] by (cases ys) auto

lemma dll_add:
  assumes "dll h l xs" and "e \<notin> set (l # xs)"
  shows "dll (ln_list_add l e h) l (e # xs)"
proof (cases xs)
  case Nil
  then show ?thesis using assms by (simp add: dll_def ln_list_defs)
next
  case (Cons x ys)
  have "dseg (ln_list_add l e h) x ys l = dseg h x ys l"
    using assms Cons by (intro dseg_cong) (auto simp: dll_def ln_list_defs)
  then show ?thesis using assms Cons by (auto simp: dll_def ln_list_defs)
qed

lemma dll_rm:
  assumes "dll h l (xs @ e # ys)"
  shows "dll (ln_list_rm e h) l (xs @ ys)"
proof -
  define q where "q = last (l # xs)"
  define r where "r = hd (ys @ [l])"
  have e: "prevp h e = q" "nextp h e = r"
    using assms dseg_prev [of h l xs e] dseg_next [of h e ys l] by (auto simp: dll_def q_def r_def)
  have rm: "nextp (ln_list_rm e h) = (nextp h)(q := r)" "prevp (ln_list_rm e h) = (prevp h)(r := q)"
    using assms e by (auto simp: ln_list_defs q_def fun_eq_iff dll_def)
  have front: "dseg (ln_list_rm e h) l us q \<longleftrightarrow> dseg h l us q" if "xs = us @ [q]" for us :: "nat list"
    using assms that by (intro dseg_cong) (cases ys; auto simp: rm r_def dll_def)+
  have behind: "dseg (ln_list_rm e h) r zs l \<longleftrightarrow> dseg h r zs l" if "ys = r # zs" for zs
    using assms that by (intro dseg_cong) (cases xs rule: rev_cases; auto simp: rm q_def dll_def)+
  show ?thesis
  proof (cases xs rule: rev_cases)
    case Nil
    then show ?thesis
      using assms behind by (cases ys) (auto simp: dll_def rm r_def q_def)
  next
    case (snoc us u)
    then have u: "u = q" by (simp add: q_def)
    show ?thesis
    proof (cases ys)
      case Nil
      then show ?thesis using assms snoc u front by (auto simp: dll_def rm r_def)
    next
      case (Cons y zs)
      then have "y = r" by (simp add: r_def)
      then show ?thesis using assms snoc u front behind Cons by (auto simp: dll_def rm)
    qed
  qed
qed

lemma dll_next: "dll h l (xs @ y # ys) \<Longrightarrow> nextp h y = hd (ys @ [l])"
  using dseg_next [of h y ys l] by (auto simp: dll_def)

lemma dll_first: "dll h l xs \<Longrightarrow> nextp h l = hd (xs @ [l])"
  using dseg_next [of h l xs l] by (auto simp: dll_def)

lemma dll_pred: "dll h l (xs @ y # ys) \<Longrightarrow> prevp h y = last (l # xs)"
  using dseg_prev [of h l xs y] by (auto simp: dll_def)

lemma dll_last: "dll h l xs \<Longrightarrow> prevp h l = last (l # xs)"
  using dseg_prev [of h l xs l] by (auto simp: dll_def)

lemma dll_distinct: "dll h l xs \<Longrightarrow> distinct (l # xs)"
  by (simp add: dll_def)

section \<open>The interface\<close>

text \<open>
  What the code that keeps a list relies on: where insertion and removal put and take a node, and what
  the pointers of a node and of the head are.
\<close>

locale ring_list =
  fixes ring :: "'h \<Rightarrow> nat \<Rightarrow> nat list \<Rightarrow> bool"
    and insert_before add_first :: "nat \<Rightarrow> nat \<Rightarrow> 'h \<Rightarrow> 'h" and remove :: "nat \<Rightarrow> 'h \<Rightarrow> 'h"
    and succ pred :: "'h \<Rightarrow> nat \<Rightarrow> nat"
  assumes insert_law: "ring h l (xs @ ys) \<Longrightarrow> e \<notin> set (l # xs @ ys) \<Longrightarrow> ring (insert_before (hd (ys @ [l])) e h) l (xs @ e # ys)"
    and add_law: "ring h l xs \<Longrightarrow> e \<notin> set (l # xs) \<Longrightarrow> ring (add_first l e h) l (e # xs)"
    and remove_law: "ring h l (xs @ e # ys) \<Longrightarrow> ring (remove e h) l (xs @ ys)"
    and succ_law: "ring h l (xs @ y # ys) \<Longrightarrow> succ h y = hd (ys @ [l])"
    and first_law: "ring h l xs \<Longrightarrow> succ h l = hd (xs @ [l])"
    and pred_law: "ring h l (xs @ y # ys) \<Longrightarrow> pred h y = last (l # xs)"
    and last_law: "ring h l xs \<Longrightarrow> pred h l = last (l # xs)"
    and distinct_law: "ring h l xs \<Longrightarrow> distinct (l # xs)"
begin

text \<open>Removing the last node, and the pointers of a node to remove.\<close>

lemma remove_last:
  assumes "ring h l xs" and "xs \<noteq> []"
  shows "ring (remove (pred h l) h) l (butlast xs)"
proof -
  have "pred h l = last xs" using last_law [OF assms(1)] assms(2) by simp
  then show ?thesis using remove_law [of h l "butlast xs" "last xs" "[]"] assms by simp
qed

text \<open>Insertion before the first node that does not satisfy \<open>P\<close>.\<close>

lemma insert_where:
  "ring h l xs \<Longrightarrow> e \<notin> set (l # xs) \<Longrightarrow>
    ring (insert_before (hd (dropWhile P xs @ [l])) e h) l (takeWhile P xs @ e # dropWhile P xs)"
  by (intro insert_law) simp_all

end

interpretation lnl: ring_list dll ln_list_insert ln_list_add ln_list_rm nextp prevp
  by unfold_locales (rule dll_insert dll_add dll_rm dll_next dll_first dll_pred dll_last dll_distinct, assumption+)+

end
