(* ===== verification/Wifi_List.thy ===== *)
theory Wifi_List
  imports Ln_List
begin

text \<open>
  The list of access points that the Wi-Fi manager keeps of the reports of a scan,
  \<^verbatim>\<open>components/wifi/wifi_manager/wifi_manager.c\<close>: nodes on the heap in an intrusive list.  A node that is
  not allocated has no contents; an access to the links or the contents of such a node, or freeing it, makes
  a function \<^const>\<open>None\<close>.  What \<^verbatim>\<open>OS_Malloc\<close> returns and the tick counter are arguments.  The mutex makes
  the operations atomic.
\<close>

section \<open>State\<close>

record ap_info =
  bssid :: "byte list"
  ssid :: "byte list"
  channel :: nat
  authmode :: nat
  imode :: nat
  rssi :: int
  freq_offset :: int
  bgn :: nat
  wps_en :: bool
  is_hidden :: bool
  rsn_mfpr :: bool
  rsn_mfpc :: bool
  set_wpa_sae_support :: bool

record ap_info_node =
  info :: ap_info
  life_ticks :: nat

datatype sort_rule = NORMAL_SORT | RSSI_SORT

record ap_list_ctrl =
  links :: links
  nodes :: "nat \<Rightarrow> ap_info_node option"
  node_count :: nat
  update_ticks :: nat
  rule :: sort_rule
  enable :: int

datatype wifi_err = WIFI_ERR_NONE | WIFI_ERR_INVALID_PARAM | WIFI_ERR_SIZE_EXCEEDED | WIFI_ERR_MEM | WIFI_ERR_WID_RSP
  | WIFI_ERR_TIMEOUT | WIFI_ERR_STATE | WIFI_ERR_MODE | WIFI_ERR_OS_SERVICE

definition AP_INFO_LIFETIME :: nat where "AP_INFO_LIFETIME = 8"
definition AP_LIST_NODE_MAX :: nat where "AP_LIST_NODE_MAX = 40"
definition LN_TRUE :: int where "LN_TRUE = 1"

text \<open>The head of the list is static, at an address of its own.\<close>

definition AP_LIST :: nat where "AP_LIST = 0"

definition ap_info_list_init :: "ap_list_ctrl \<Rightarrow> ap_list_ctrl" where
  "ap_info_list_init s =
     \<lparr>links = ln_list_init AP_LIST (links s), nodes = nodes s, node_count = 0, update_ticks = 0, rule = RSSI_SORT, enable = LN_TRUE\<rparr>"

section \<open>Checked accesses\<close>

definition ap_valid :: "ap_list_ctrl \<Rightarrow> nat \<Rightarrow> bool" where
  "ap_valid s a \<longleftrightarrow> a = AP_LIST \<or> nodes s a \<noteq> None"

definition ap_next :: "ap_list_ctrl \<Rightarrow> nat \<Rightarrow> nat option" where
  "ap_next s a = (if ap_valid s a then Some (nextp (links s) a) else None)"

definition ap_rm :: "nat \<Rightarrow> ap_list_ctrl \<Rightarrow> ap_list_ctrl option" where
  "ap_rm a s = (if ap_valid s a \<and> ap_valid s (prevp (links s) a) \<and> ap_valid s (nextp (links s) a)
     then Some (s\<lparr>links := ln_list_rm a (links s)\<rparr>) else None)"

definition ap_insert :: "nat \<Rightarrow> nat \<Rightarrow> ap_list_ctrl \<Rightarrow> ap_list_ctrl option" where
  "ap_insert p a s = (if ap_valid s p \<and> ap_valid s a \<and> ap_valid s (prevp (links s) p)
     then Some (s\<lparr>links := ln_list_insert p a (links s)\<rparr>) else None)"

definition ap_add :: "nat \<Rightarrow> nat \<Rightarrow> ap_list_ctrl \<Rightarrow> ap_list_ctrl option" where
  "ap_add p a s = (if ap_valid s p \<and> ap_valid s a \<and> ap_valid s (nextp (links s) p)
     then Some (s\<lparr>links := ln_list_add p a (links s)\<rparr>) else None)"

definition ap_free :: "nat \<Rightarrow> ap_list_ctrl \<Rightarrow> ap_list_ctrl option" where
  "ap_free a s = (if nodes s a \<noteq> None then Some (s\<lparr>nodes := (nodes s)(a := None)\<rparr>) else None)"

definition ap_count_dec :: "ap_list_ctrl \<Rightarrow> ap_list_ctrl" where
  "ap_count_dec s = s\<lparr>node_count := u8 (node_count s + 255)\<rparr>"

definition ap_count_inc :: "ap_list_ctrl \<Rightarrow> ap_list_ctrl" where
  "ap_count_inc s = s\<lparr>node_count := u8 (node_count s + 1)\<rparr>"

definition ap_delete :: "nat \<Rightarrow> ap_list_ctrl \<Rightarrow> ap_list_ctrl option" where
  "ap_delete a s = do { s \<leftarrow> ap_rm a s; s \<leftarrow> ap_free a s; Some (ap_count_dec s) }"

text \<open>
  The loop of \<^verbatim>\<open>LN_LIST_FOR_EACH_ENTRY_SAFE\<close>: the successor is read before the body runs.  The body
  answers whether it breaks; the result has the node the loop stopped at.
\<close>

partial_function (option) for_each_safe ::
  "(nat \<Rightarrow> 'a \<Rightarrow> ap_list_ctrl \<Rightarrow> (bool \<times> 'a \<times> ap_list_ctrl) option) \<Rightarrow> nat \<Rightarrow> nat \<Rightarrow> 'a \<Rightarrow> ap_list_ctrl \<Rightarrow> (nat \<times> 'a \<times> ap_list_ctrl) option" where
  "for_each_safe body pnode tmp a s =
     (if pnode = AP_LIST then Some (pnode, a, s)
      else do {
        (stop, a, s) \<leftarrow> body pnode a s;
        if stop then Some (pnode, a, s)
        else do { tmp' \<leftarrow> ap_next s tmp; for_each_safe body tmp tmp' a s }
      })"

definition for_each_node ::
  "(nat \<Rightarrow> 'a \<Rightarrow> ap_list_ctrl \<Rightarrow> (bool \<times> 'a \<times> ap_list_ctrl) option) \<Rightarrow> 'a \<Rightarrow> ap_list_ctrl \<Rightarrow> (nat \<times> 'a \<times> ap_list_ctrl) option" where
  "for_each_node body a s = do {
     pnode \<leftarrow> ap_next s AP_LIST;
     tmp \<leftarrow> ap_next s pnode;
     for_each_safe body pnode tmp a s }"

section \<open>Operations\<close>

definition ap_expired :: "nat \<Rightarrow> ap_info_node \<Rightarrow> bool" where
  "ap_expired curr_ticks n \<longleftrightarrow> sub_u32 curr_ticks (life_ticks n) \<ge> AP_INFO_LIFETIME * 1000"

definition ap_timeout_body :: "nat \<Rightarrow> nat \<Rightarrow> nat \<Rightarrow> ap_list_ctrl \<Rightarrow> (bool \<times> nat \<times> ap_list_ctrl) option" where
  "ap_timeout_body curr_ticks pnode earliest_ticks s = do {
     n \<leftarrow> nodes s pnode;
     if ap_expired curr_ticks n then do { s \<leftarrow> ap_delete pnode s; Some (False, earliest_ticks, s) }
     else if life_ticks n < earliest_ticks then Some (False, life_ticks n, s\<lparr>update_ticks := life_ticks n\<rparr>)
     else Some (False, earliest_ticks, s) }"

definition ap_list_remove_life_timeout_node :: "nat \<Rightarrow> ap_list_ctrl \<Rightarrow> ap_list_ctrl option" where
  "ap_list_remove_life_timeout_node curr_ticks s = do {
     (_, _, s) \<leftarrow> for_each_node (ap_timeout_body curr_ticks) (2 ^ 32 - 1) s;
     Some (if ln_is_list_empty AP_LIST (links s) then s\<lparr>update_ticks := 0\<rparr> else s) }"

definition ap_clear_body :: "nat \<Rightarrow> unit \<Rightarrow> ap_list_ctrl \<Rightarrow> (bool \<times> unit \<times> ap_list_ctrl) option" where
  "ap_clear_body pnode a s = do { s \<leftarrow> ap_delete pnode s; Some (False, a, s) }"

definition wifi_manager_cleanup_scan_results :: "ap_list_ctrl \<Rightarrow> ap_list_ctrl option" where
  "wifi_manager_cleanup_scan_results s = do {
     (_, _, s) \<leftarrow> for_each_node ap_clear_body () s;
     Some (s\<lparr>update_ticks := 0\<rparr>) }"

definition wifi_manager_ap_list_update_enable :: "int \<Rightarrow> ap_list_ctrl \<Rightarrow> wifi_err \<times> ap_list_ctrl" where
  "wifi_manager_ap_list_update_enable en s = (WIFI_ERR_NONE, s\<lparr>enable := en\<rparr>)"

definition ap_same_body :: "ap_info \<Rightarrow> nat \<Rightarrow> unit \<Rightarrow> ap_list_ctrl \<Rightarrow> (bool \<times> unit \<times> ap_list_ctrl) option" where
  "ap_same_body i pnode a s = do {
     n \<leftarrow> nodes s pnode;
     if bssid (info n) = bssid i then do { s \<leftarrow> ap_delete pnode s; Some (False, a, s) } else Some (False, a, s) }"

definition ap_rssi_body :: "ap_info \<Rightarrow> nat \<Rightarrow> nat \<Rightarrow> unit \<Rightarrow> ap_list_ctrl \<Rightarrow> (bool \<times> unit \<times> ap_list_ctrl) option" where
  "ap_rssi_body i node_new pnode a s = do {
     n \<leftarrow> nodes s pnode;
     if rssi i \<ge> rssi (info n) then do { s \<leftarrow> ap_insert pnode node_new s; Some (True, a, ap_count_inc s) }
     else Some (False, a, s) }"

definition ap_place :: "ap_info \<Rightarrow> nat \<Rightarrow> ap_list_ctrl \<Rightarrow> ap_list_ctrl option" where
  "ap_place i node_new s =
     (if rule s = NORMAL_SORT then do { s \<leftarrow> ap_add AP_LIST node_new s; Some (ap_count_inc s) }
      else do {
        (pnode, _, s) \<leftarrow> for_each_node (ap_rssi_body i node_new) () s;
        if pnode = AP_LIST then do { s \<leftarrow> ap_insert pnode node_new s; Some (ap_count_inc s) } else Some s })"

definition ap_info_list_update :: "nat option \<Rightarrow> nat \<Rightarrow> ap_info \<Rightarrow> ap_list_ctrl \<Rightarrow> (wifi_err \<times> ap_list_ctrl) option" where
  "ap_info_list_update malloc curr_ticks i s =
     (if enable s \<noteq> LN_TRUE then Some (WIFI_ERR_NONE, s)
      else case malloc of
        None \<Rightarrow> Some (WIFI_ERR_MEM, s)
      | Some node_new \<Rightarrow> do {
          let s = s\<lparr>nodes := (nodes s)(node_new \<mapsto> \<lparr>info = i, life_ticks = curr_ticks\<rparr>)\<rparr>;
          s \<leftarrow> ap_list_remove_life_timeout_node curr_ticks s;
          s \<leftarrow> (if ln_is_list_empty AP_LIST (links s) then do { s \<leftarrow> ap_add AP_LIST node_new s; Some (ap_count_inc s) }
            else do {
              s \<leftarrow> (if node_count s \<ge> AP_LIST_NODE_MAX then ap_delete (prevp (links s) AP_LIST) s else Some s);
              (_, _, s) \<leftarrow> for_each_node (ap_same_body i) () s;
              ap_place i node_new s });
          Some (WIFI_ERR_NONE, s\<lparr>update_ticks := curr_ticks\<rparr>) })"

definition wifi_manager_set_ap_list_sort_rule :: "sort_rule \<Rightarrow> ap_list_ctrl \<Rightarrow> (wifi_err \<times> ap_list_ctrl) option" where
  "wifi_manager_set_ap_list_sort_rule r s =
     (if rule s \<noteq> r then do {
        (_, _, s) \<leftarrow> for_each_node ap_clear_body () s;
        Some (WIFI_ERR_NONE, s\<lparr>rule := r, update_ticks := 0\<rparr>) }
      else Some (WIFI_ERR_NONE, s))"

text \<open>The pointers of the caller; on success the head of the list and the count are stored.\<close>

definition wifi_manager_get_ap_list :: "bool \<Rightarrow> bool \<Rightarrow> nat \<Rightarrow> ap_list_ctrl \<Rightarrow> (wifi_err \<times> (nat \<times> nat) option \<times> ap_list_ctrl) option" where
  "wifi_manager_get_ap_list list cnt curr_ticks s =
     (if \<not> list \<or> \<not> cnt then Some (WIFI_ERR_INVALID_PARAM, None, s)
      else do {
        s \<leftarrow> ap_list_remove_life_timeout_node curr_ticks s;
        Some (WIFI_ERR_NONE, Some (AP_LIST, node_count s), s) })"

end
