(* ===== verification/Wifi_Correct.thy ===== *)
theory Wifi_Correct
  imports Wifi_List
begin

text \<open>
  What the list of access points is: the operations on the intrusive list refine operations on a list of
  reports, without an access to a freed node, a leak or a lost link; and after any sequence of operations the
  list has at most forty entries, one per access point, the strongest first.
\<close>

section \<open>Representation\<close>

text \<open>The nodes \<open>xs\<close> are linked in this order, and they and the nodes \<open>E\<close> (allocated but in no list) are all
  that is allocated.\<close>

definition ap_rep :: "nat set \<Rightarrow> ap_list_ctrl \<Rightarrow> nat list \<Rightarrow> bool" where
  "ap_rep E s xs \<longleftrightarrow> dll (links s) AP_LIST xs \<and> dom (nodes s) = set xs \<union> E \<and> E \<inter> set (AP_LIST # xs) = {} \<and>
     node_count s = length xs \<and> length xs \<le> AP_LIST_NODE_MAX"

definition content :: "ap_list_ctrl \<Rightarrow> nat list \<Rightarrow> ap_info_node list" where
  "content s xs = map (\<lambda>x. the (nodes s x)) xs"

lemma ap_rep_valid: "ap_rep E s xs \<Longrightarrow> a \<in> insert AP_LIST (set xs \<union> E) \<Longrightarrow> ap_valid s a"
  by (auto simp: ap_rep_def ap_valid_def set_eq_iff dom_def)

lemma ap_rep_node: "ap_rep E s xs \<Longrightarrow> x \<in> set xs \<Longrightarrow> \<exists>n. nodes s x = Some n"
  by (auto simp: ap_rep_def set_eq_iff dom_def)

lemma ap_rep_distinct: "ap_rep E s xs \<Longrightarrow> distinct (AP_LIST # xs)"
  by (auto simp: ap_rep_def dest: lnl.distinct_law)

lemma hd_in_ring: "hd (vs @ [l]) \<in> insert l (set (us @ vs))"
  by (cases vs) auto

lemma last_in_ring: "last (l # us) \<in> insert l (set (us @ vs))"
  using last_in_set [of "l # us"] by auto

lemma delete_node:
  assumes "ap_rep E s (us @ p # vs)"
  shows "\<exists>s'. ap_delete p s = Some s' \<and> ap_rep E s' (us @ vs) \<and> nodes s' = (nodes s)(p := None)
    \<and> rule s' = rule s \<and> enable s' = enable s"
proof -
  have dll: "dll (links s) AP_LIST (us @ p # vs)" and len: "length (us @ p # vs) \<le> 40" "node_count s = length (us @ p # vs)"
    using assms by (simp_all add: ap_rep_def AP_LIST_NODE_MAX_def)
  have "ap_valid s p" "ap_valid s (prevp (links s) p)" "ap_valid s (nextp (links s) p)"
    using ap_rep_valid [OF assms] lnl.succ_law [OF dll] lnl.pred_law [OF dll]
      hd_in_ring [of vs AP_LIST "us @ [p]"] last_in_ring [of AP_LIST us "p # vs"] by auto
  then have "ap_delete p s = Some (ap_count_dec (s\<lparr>links := ln_list_rm p (links s), nodes := (nodes s)(p := None)\<rparr>))"
    using ap_rep_node [OF assms, of p] by (auto simp: ap_delete_def ap_rm_def ap_free_def)
  moreover have "ap_rep E (ap_count_dec (s\<lparr>links := ln_list_rm p (links s), nodes := (nodes s)(p := None)\<rparr>)) (us @ vs)"
    using assms len lnl.remove_law [OF dll] lnl.distinct_law [OF dll]
    by (auto simp: ap_rep_def ap_count_dec_def u8_def AP_LIST_NODE_MAX_def)
  ultimately show ?thesis by (simp add: ap_count_dec_def)
qed

lemma insert_node:
  assumes "ap_rep E s (us @ vs)" and "e \<in> E" and "length (us @ vs) < AP_LIST_NODE_MAX"
  shows "\<exists>s'. ap_insert (hd (vs @ [AP_LIST])) e s = Some s' \<and> ap_rep (E - {e}) (ap_count_inc s') (us @ e # vs)
    \<and> nodes s' = nodes s \<and> rule s' = rule s \<and> enable s' = enable s"
proof -
  have dll: "dll (links s) AP_LIST (us @ vs)" and e: "e \<notin> set (AP_LIST # us @ vs)"
    using assms(1,2) by (auto simp: ap_rep_def)
  have "prevp (links s) (hd (vs @ [AP_LIST])) = last (AP_LIST # us)"
  proof (cases vs)
    case Nil
    then show ?thesis using lnl.last_law [OF dll] by simp
  next
    case (Cons v ws)
    then show ?thesis using lnl.pred_law [of "links s" AP_LIST us v ws] dll by simp
  qed
  then have "ap_insert (hd (vs @ [AP_LIST])) e s = Some (s\<lparr>links := ln_list_insert (hd (vs @ [AP_LIST])) e (links s)\<rparr>)"
    using ap_rep_valid [OF assms(1)] hd_in_ring [of vs AP_LIST us] last_in_ring [of AP_LIST us vs] assms(2)
    by (auto simp: ap_insert_def)
  moreover have "ap_rep (E - {e}) (ap_count_inc (s\<lparr>links := ln_list_insert (hd (vs @ [AP_LIST])) e (links s)\<rparr>)) (us @ e # vs)"
    using assms lnl.insert_law [OF dll e] e by (auto simp: ap_rep_def ap_count_inc_def u8_def AP_LIST_NODE_MAX_def)
  ultimately show ?thesis by simp
qed

lemma add_node:
  assumes "ap_rep E s xs" and "e \<in> E" and "length xs < AP_LIST_NODE_MAX"
  shows "\<exists>s'. ap_add AP_LIST e s = Some s' \<and> ap_rep (E - {e}) (ap_count_inc s') (e # xs)
    \<and> nodes s' = nodes s \<and> rule s' = rule s \<and> enable s' = enable s"
proof -
  have dll: "dll (links s) AP_LIST xs" and e: "e \<notin> set (AP_LIST # xs)"
    using assms(1,2) by (auto simp: ap_rep_def)
  have "ap_add AP_LIST e s = Some (s\<lparr>links := ln_list_add AP_LIST e (links s)\<rparr>)"
    using ap_rep_valid [OF assms(1)] lnl.first_law [OF dll] hd_in_ring [of xs AP_LIST "[]"] assms(2)
    by (auto simp: ap_add_def)
  moreover have "ap_rep (E - {e}) (ap_count_inc (s\<lparr>links := ln_list_add AP_LIST e (links s)\<rparr>)) (e # xs)"
    using assms lnl.add_law [OF dll e] e by (auto simp: ap_rep_def ap_count_inc_def u8_def AP_LIST_NODE_MAX_def)
  ultimately show ?thesis by simp
qed

section \<open>The loops\<close>

text \<open>A loop whose body deletes the nodes that do not satisfy \<open>keep\<close> filters the list.\<close>

definition filters :: "nat set \<Rightarrow> (ap_info_node \<Rightarrow> bool) \<Rightarrow> (nat \<Rightarrow> 'a \<Rightarrow> ap_list_ctrl \<Rightarrow> (bool \<times> 'a \<times> ap_list_ctrl) option) \<Rightarrow> bool" where
  "filters E keep body \<longleftrightarrow> (\<forall>us p vs a s. ap_rep E s (us @ p # vs) \<longrightarrow>
     (\<exists>a' s'. body p a s = Some (False, a', s') \<and> rule s' = rule s \<and> enable s' = enable s \<and>
        (if keep (the (nodes s p)) then ap_rep E s' (us @ p # vs) \<and> nodes s' = nodes s
         else ap_rep E s' (us @ vs) \<and> nodes s' = (nodes s)(p := None))))"

lemma for_each_filter:
  assumes "filters E keep body" and "ap_rep E s (us @ vs)" and "vs \<noteq> [] \<longrightarrow> tmp = hd (tl vs @ [AP_LIST])"
  shows "\<exists>a' s'. for_each_safe body (hd (vs @ [AP_LIST])) tmp a s = Some (AP_LIST, a', s')
    \<and> ap_rep E s' (us @ filter (\<lambda>x. keep (the (nodes s x))) vs)
    \<and> (\<forall>x. nodes s' x = (if x \<in> set vs \<and> \<not> keep (the (nodes s x)) then None else nodes s x))
    \<and> rule s' = rule s \<and> enable s' = enable s"
  using assms(2,3)
proof (induction vs arbitrary: us tmp a s)
  case Nil
  then show ?case by (auto simp: for_each_safe.simps)
next
  case (Cons p vs)
  have p: "p \<noteq> AP_LIST" "p \<notin> set vs" using ap_rep_distinct [OF Cons.prems(1)] by auto
  define us' where "us' = (if keep (the (nodes s p)) then us @ [p] else us)"
  obtain a1 s1 where body: "body p a s = Some (False, a1, s1)" "rule s1 = rule s" "enable s1 = enable s"
    and rep1: "ap_rep E s1 (us' @ vs)"
    and nodes1: "nodes s1 = (if keep (the (nodes s p)) then nodes s else (nodes s)(p := None))"
    using assms(1) [unfolded filters_def, rule_format, OF Cons.prems(1), of a] by (auto simp: us'_def split: if_splits)
  have tmp: "tmp = hd (vs @ [AP_LIST])" using Cons.prems(2) by simp
  have "ap_valid s1 tmp" using ap_rep_valid [OF rep1] hd_in_ring [of vs AP_LIST us'] by (auto simp: tmp)
  then have nxt: "ap_next s1 tmp = Some (nextp (links s1) tmp)" by (simp add: ap_next_def)
  have "vs \<noteq> [] \<longrightarrow> nextp (links s1) tmp = hd (tl vs @ [AP_LIST])"
    using rep1 lnl.succ_law [of "links s1" AP_LIST us' "hd vs" "tl vs"] by (auto simp: tmp ap_rep_def)
  from Cons.IH [OF rep1 this, of a1] obtain a' s' where
    IH: "for_each_safe body tmp (nextp (links s1) tmp) a1 s1 = Some (AP_LIST, a', s')"
      "ap_rep E s' (us' @ filter (\<lambda>x. keep (the (nodes s1 x))) vs)"
      "\<forall>x. nodes s' x = (if x \<in> set vs \<and> \<not> keep (the (nodes s1 x)) then None else nodes s1 x)"
      "rule s' = rule s1" "enable s' = enable s1"
    by (auto simp: tmp)
  have same: "nodes s1 x = nodes s x" if "x \<in> set vs" for x using that p nodes1 by auto
  have "filter (\<lambda>x. keep (the (nodes s1 x))) vs = filter (\<lambda>x. keep (the (nodes s x))) vs"
    using same by (intro filter_cong) simp_all
  then have "ap_rep E s' (us @ filter (\<lambda>x. keep (the (nodes s x))) (p # vs))"
    using IH(2) by (simp add: us'_def split: if_splits)
  moreover have "\<forall>x. nodes s' x = (if x \<in> set (p # vs) \<and> \<not> keep (the (nodes s x)) then None else nodes s x)"
    using IH(3) same nodes1 p by auto
  moreover have "for_each_safe body (hd ((p # vs) @ [AP_LIST])) tmp a s = Some (AP_LIST, a', s')"
    using p body nxt IH(1) by (simp add: for_each_safe.simps [of body p])
  ultimately show ?case using IH(4,5) body by auto
qed

lemma ap_start:
  assumes "ap_rep E s xs"
  shows "\<exists>tmp. ap_next s AP_LIST = Some (hd (xs @ [AP_LIST])) \<and> ap_next s (hd (xs @ [AP_LIST])) = Some tmp
    \<and> (xs \<noteq> [] \<longrightarrow> tmp = hd (tl xs @ [AP_LIST]))"
proof -
  have dll: "dll (links s) AP_LIST xs" using assms by (simp add: ap_rep_def)
  have "ap_next s AP_LIST = Some (hd (xs @ [AP_LIST]))"
    using lnl.first_law [OF dll] by (simp add: ap_next_def ap_valid_def)
  moreover have "ap_valid s (hd (xs @ [AP_LIST]))"
    using ap_rep_valid [OF assms] hd_in_ring [of xs AP_LIST "[]"] by auto
  moreover have "xs \<noteq> [] \<longrightarrow> nextp (links s) (hd (xs @ [AP_LIST])) = hd (tl xs @ [AP_LIST])"
    using dll lnl.succ_law [of "links s" AP_LIST "[]" "hd xs" "tl xs"] by auto
  ultimately show ?thesis by (simp add: ap_next_def)
qed

lemma filter_nodes:
  assumes "filters E keep body" and "ap_rep E s xs"
  shows "\<exists>a' s' ys. for_each_node body a s = Some (AP_LIST, a', s') \<and> ap_rep E s' ys
    \<and> content s' ys = filter keep (content s xs) \<and> (\<forall>x \<in> E. nodes s' x = nodes s x) \<and> rule s' = rule s \<and> enable s' = enable s"
proof -
  let ?ys = "filter (\<lambda>x. keep (the (nodes s x))) xs"
  obtain tmp where start: "ap_next s AP_LIST = Some (hd (xs @ [AP_LIST]))" "ap_next s (hd (xs @ [AP_LIST])) = Some tmp"
    and tmp: "xs \<noteq> [] \<longrightarrow> tmp = hd (tl xs @ [AP_LIST])"
    using ap_start [OF assms(2)] by blast
  obtain a' s' where loop: "for_each_safe body (hd (xs @ [AP_LIST])) tmp a s = Some (AP_LIST, a', s')" "ap_rep E s' ?ys"
    and nodes: "\<forall>x. nodes s' x = (if x \<in> set xs \<and> \<not> keep (the (nodes s x)) then None else nodes s x)"
    and rest: "rule s' = rule s" "enable s' = enable s"
    using for_each_filter [OF assms(1), of s "[]" xs tmp a] assms(2) tmp by auto
  have "content s' ?ys = map (\<lambda>x. the (nodes s x)) ?ys"
    using nodes by (simp add: content_def)
  also have "\<dots> = filter keep (content s xs)"
    by (simp add: content_def filter_map comp_def)
  finally have "content s' ?ys = filter keep (content s xs)" .
  moreover have "\<forall>x \<in> E. nodes s' x = nodes s x"
    using nodes assms(2) by (auto simp: ap_rep_def)
  ultimately show ?thesis
    using loop rest start by (auto simp: for_each_node_def)
qed

lemma timeout_filters: "filters E (\<lambda>n. \<not> ap_expired now n) (ap_timeout_body now)"
  unfolding filters_def
proof (intro allI impI)
  fix us p vs a s
  assume rep: "ap_rep E s (us @ p # vs)"
  then obtain n where n: "nodes s p = Some n" using ap_rep_node by fastforce
  show "\<exists>a' s'. ap_timeout_body now p a s = Some (False, a', s') \<and> rule s' = rule s \<and> enable s' = enable s \<and>
      (if \<not> ap_expired now (the (nodes s p)) then ap_rep E s' (us @ p # vs) \<and> nodes s' = nodes s
       else ap_rep E s' (us @ vs) \<and> nodes s' = (nodes s)(p := None))"
    using n rep delete_node [OF rep] by (auto simp: ap_timeout_body_def ap_rep_def)
qed

lemma clear_filters: "filters E (\<lambda>n. False) ap_clear_body"
  unfolding filters_def ap_clear_body_def by (auto dest!: delete_node)

lemma same_filters: "filters E (\<lambda>n. bssid (info n) \<noteq> bssid i) (ap_same_body i)"
  unfolding filters_def
proof (intro allI impI)
  fix us p vs a s
  assume rep: "ap_rep E s (us @ p # vs)"
  then obtain n where n: "nodes s p = Some n" using ap_rep_node by fastforce
  show "\<exists>a' s'. ap_same_body i p a s = Some (False, a', s') \<and> rule s' = rule s \<and> enable s' = enable s \<and>
      (if bssid (info (the (nodes s p))) \<noteq> bssid i then ap_rep E s' (us @ p # vs) \<and> nodes s' = nodes s
       else ap_rep E s' (us @ vs) \<and> nodes s' = (nodes s)(p := None))"
    using n rep delete_node [OF rep] by (auto simp: ap_same_body_def)
qed

text \<open>The loop that looks for the place of a new node.\<close>

definition ap_stronger :: "ap_list_ctrl \<Rightarrow> ap_info \<Rightarrow> nat \<Rightarrow> bool" where
  "ap_stronger s i x \<longleftrightarrow> rssi i < rssi (info (the (nodes s x)))"

lemma for_each_place:
  assumes "ap_rep E s (us @ vs)" and "vs \<noteq> [] \<longrightarrow> tmp = hd (tl vs @ [AP_LIST])"
  shows "for_each_safe (ap_rssi_body i e) (hd (vs @ [AP_LIST])) tmp a s = (let ws = dropWhile (ap_stronger s i) vs
    in if ws = [] then Some (AP_LIST, a, s)
       else do { s \<leftarrow> ap_insert (hd ws) e s; Some (hd ws, a, ap_count_inc s) })"
  using assms
proof (induction vs arbitrary: us tmp)
  case Nil
  then show ?case by (simp add: for_each_safe.simps)
next
  case (Cons p vs)
  have p: "p \<noteq> AP_LIST" using ap_rep_distinct [OF Cons.prems(1)] by auto
  obtain n where n: "nodes s p = Some n" using ap_rep_node [OF Cons.prems(1), of p] by auto
  show ?case
  proof (cases "ap_stronger s i p")
    case False
    then have "ap_rssi_body i e p a s = do { s \<leftarrow> ap_insert p e s; Some (True, a, ap_count_inc s) }"
      using n by (simp add: ap_rssi_body_def ap_stronger_def)
    then show ?thesis
      using p False by (simp add: for_each_safe.simps [of "ap_rssi_body i e" p] Let_def)
  next
    case True
    have tmp: "tmp = hd (vs @ [AP_LIST])" using Cons.prems(2) by simp
    have rep: "ap_rep E s ((us @ [p]) @ vs)" using Cons.prems(1) by simp
    have "ap_valid s tmp"
      unfolding tmp by (rule ap_rep_valid [OF rep]) (use hd_in_ring [of vs AP_LIST "us @ [p]"] in auto)
    then have "ap_next s tmp = Some (nextp (links s) tmp)"
      by (simp add: ap_next_def)
    moreover have "vs \<noteq> [] \<longrightarrow> nextp (links s) tmp = hd (tl vs @ [AP_LIST])"
      using rep lnl.succ_law [of "links s" AP_LIST "us @ [p]" "hd vs" "tl vs"] by (auto simp: tmp ap_rep_def)
    note IH = Cons.IH [OF rep this]
    moreover have "ap_rssi_body i e p a s = Some (False, a, s)"
      using n True by (simp add: ap_rssi_body_def ap_stronger_def)
    ultimately show ?thesis
      using p True IH tmp by (simp add: for_each_safe.simps [of "ap_rssi_body i e" p])
  qed
qed

section \<open>Operations on lists of reports\<close>

definition ap_place_spec :: "sort_rule \<Rightarrow> ap_info_node \<Rightarrow> ap_info_node list \<Rightarrow> ap_info_node list" where
  "ap_place_spec r n l = (if r = NORMAL_SORT then n # l
     else takeWhile (\<lambda>m. rssi (info n) < rssi (info m)) l @ n # dropWhile (\<lambda>m. rssi (info n) < rssi (info m)) l)"

definition ap_update_spec :: "sort_rule \<Rightarrow> nat \<Rightarrow> ap_info \<Rightarrow> ap_info_node list \<Rightarrow> ap_info_node list" where
  "ap_update_spec r now i l =
     (let l = filter (\<lambda>n. \<not> ap_expired now n) l;
          l = (if length l < AP_LIST_NODE_MAX then l else butlast l);
          l = filter (\<lambda>n. bssid (info n) \<noteq> bssid i) l
      in ap_place_spec r \<lparr>info = i, life_ticks = now\<rparr> l)"

lemma place_correct:
  assumes "ap_rep {e} s xs" and "length xs < AP_LIST_NODE_MAX" and "nodes s e = Some \<lparr>info = i, life_ticks = c\<rparr>"
  shows "\<exists>s' ys. ap_place i e s = Some s' \<and> ap_rep {} s' ys \<and> content s' ys = ap_place_spec (rule s) \<lparr>info = i, life_ticks = c\<rparr> (content s xs)
    \<and> rule s' = rule s \<and> enable s' = enable s"
proof (cases "rule s = NORMAL_SORT")
  case True
  then show ?thesis
    using add_node [OF assms(1) _ assms(2), of e] assms(3)
    by (auto simp: ap_place_def ap_place_spec_def content_def ap_count_inc_def intro!: exI [of _ "e # xs"])
next
  case False
  let ?us = "takeWhile (ap_stronger s i) xs"
  define ws where "ws = dropWhile (ap_stronger s i) xs"
  obtain tmp where start: "ap_next s AP_LIST = Some (hd (xs @ [AP_LIST]))" "ap_next s (hd (xs @ [AP_LIST])) = Some tmp"
    and tmp: "xs \<noteq> [] \<longrightarrow> tmp = hd (tl xs @ [AP_LIST])"
    using ap_start [OF assms(1)] by blast
  have rep: "ap_rep {e} s (?us @ ws)" and len: "length (?us @ ws) < AP_LIST_NODE_MAX" using assms(1,2) by (simp_all add: ws_def)
  obtain s' where s': "ap_insert (hd (ws @ [AP_LIST])) e s = Some s'" "ap_rep {} (ap_count_inc s') (?us @ e # ws)"
    "nodes s' = nodes s" "rule s' = rule s" "enable s' = enable s"
    using insert_node [OF rep _ len, of e] by auto
  have "for_each_node (ap_rssi_body i e) () s = (if ws = [] then Some (AP_LIST, (), s) else Some (hd ws, (), ap_count_inc s'))"
    using for_each_place [of "{e}" s "[]" xs tmp i e "()"] assms(1) tmp start s'(1)
    by (cases ws) (simp_all add: for_each_node_def Let_def flip: ws_def)
  moreover have "ws \<noteq> [] \<Longrightarrow> hd ws \<noteq> AP_LIST"
    using ap_rep_distinct [OF rep] by (cases ws) auto
  ultimately have "ap_place i e s = Some (ap_count_inc s')"
    using s'(1) False by (cases ws) (simp_all add: ap_place_def)
  moreover have "content (ap_count_inc s') (?us @ e # ws) = ap_place_spec (rule s) \<lparr>info = i, life_ticks = c\<rparr> (content s xs)"
    using False s'(3) assms(3)
    by (simp add: content_def ap_place_spec_def ap_count_inc_def takeWhile_map dropWhile_map comp_def ap_stronger_def [abs_def] ws_def)
  ultimately show ?thesis using s' by (auto simp: ap_count_inc_def intro!: exI [of _ "?us @ e # ws"])
qed

lemma content_cong: "\<forall>x \<in> set xs. nodes s' x = nodes s x \<Longrightarrow> content s' xs = content s xs"
  by (simp add: content_def)

lemma timeout_correct:
  assumes "ap_rep E s xs"
  shows "\<exists>s' ys. ap_list_remove_life_timeout_node now s = Some s' \<and> ap_rep E s' ys
    \<and> content s' ys = filter (\<lambda>n. \<not> ap_expired now n) (content s xs)
    \<and> (\<forall>x \<in> E. nodes s' x = nodes s x) \<and> rule s' = rule s \<and> enable s' = enable s"
proof -
  obtain a' s' ys where f: "for_each_node (ap_timeout_body now) (2 ^ 32 - 1) s = Some (AP_LIST, a', s')" "ap_rep E s' ys"
    "content s' ys = filter (\<lambda>n. \<not> ap_expired now n) (content s xs)" "\<forall>x \<in> E. nodes s' x = nodes s x" "rule s' = rule s" "enable s' = enable s"
    using filter_nodes [OF timeout_filters assms, of now "2 ^ 32 - 1"] by blast
  define s2 where "s2 = (if ln_is_list_empty AP_LIST (links s') then s'\<lparr>update_ticks := 0\<rparr> else s')"
  have "ap_list_remove_life_timeout_node now s = Some s2"
    using f(1) by (simp add: ap_list_remove_life_timeout_node_def s2_def)
  moreover have "ap_rep E s2 ys" "content s2 ys = content s' ys" "nodes s2 = nodes s'" "rule s2 = rule s'" "enable s2 = enable s'"
    using f(2) by (auto simp: s2_def ap_rep_def content_def)
  ultimately show ?thesis using f by auto
qed

lemma clear_correct:
  assumes "ap_rep {} s xs"
  shows "\<exists>s'. for_each_node ap_clear_body () s = Some (AP_LIST, (), s') \<and> ap_rep {} s' [] \<and> rule s' = rule s \<and> enable s' = enable s"
proof -
  obtain s' ys where "for_each_node ap_clear_body () s = Some (AP_LIST, (), s')" "ap_rep {} s' ys" "content s' ys = []"
    "rule s' = rule s" "enable s' = enable s"
    using filter_nodes [OF clear_filters assms, of "()"] by auto
  then show ?thesis by (auto simp: content_def)
qed

lemma update_correct:
  assumes "ap_rep {} s xs" and "enable s = LN_TRUE" and "e \<noteq> AP_LIST" and "nodes s e = None"
  shows "\<exists>s' ys. ap_info_list_update (Some e) now i s = Some (WIFI_ERR_NONE, s') \<and> ap_rep {} s' ys
    \<and> content s' ys = ap_update_spec (rule s) now i (content s xs) \<and> rule s' = rule s \<and> enable s' = enable s"
proof -
  define n where "n = \<lparr>info = i, life_ticks = now\<rparr>"
  define s0 where "s0 = s\<lparr>nodes := (nodes s)(e \<mapsto> n)\<rparr>"
  have "e \<notin> set xs" using assms(1,4) ap_rep_node by fastforce
  then have rep0: "ap_rep {e} s0 xs" and c0: "content s0 xs = content s xs"
    using assms(1,3) by (auto simp: ap_rep_def s0_def content_def)
  obtain s1 ys where s1: "ap_list_remove_life_timeout_node now s0 = Some s1" "ap_rep {e} s1 ys"
    "content s1 ys = filter (\<lambda>n. \<not> ap_expired now n) (content s xs)" "nodes s1 e = Some n" "rule s1 = rule s" "enable s1 = enable s"
    using timeout_correct [OF rep0, of now] c0 by (auto simp: s0_def)
  have len: "length ys \<le> AP_LIST_NODE_MAX" "node_count s1 = length ys"
    using s1(2) by (simp_all add: ap_rep_def)
  have empty: "ln_is_list_empty AP_LIST (links s1) \<longleftrightarrow> ys = []"
    using s1(2) dll_empty by (auto simp: ap_rep_def)
  define rest where "rest = (if ln_is_list_empty AP_LIST (links s1) then do { s \<leftarrow> ap_add AP_LIST e s1; Some (ap_count_inc s) }
    else do {
      s \<leftarrow> (if node_count s1 \<ge> AP_LIST_NODE_MAX then ap_delete (prevp (links s1) AP_LIST) s1 else Some s1);
      (_, _, s) \<leftarrow> for_each_node (ap_same_body i) () s;
      ap_place i e s })"
  have run: "ap_info_list_update (Some e) now i s = do { s \<leftarrow> rest; Some (WIFI_ERR_NONE, s\<lparr>update_ticks := now\<rparr>) }"
    using assms(2) s1(1) by (simp add: ap_info_list_update_def rest_def s0_def n_def)
  have "\<exists>s' zs. rest = Some s' \<and> ap_rep {} s' zs \<and> content s' zs = ap_update_spec (rule s) now i (content s xs)
      \<and> rule s' = rule s \<and> enable s' = enable s"
  proof (cases "ys = []")
    case True
    then have "ap_rep {e} s1 []" using s1(2) by simp
    from add_node [OF this, of e] obtain s2 where s2: "ap_add AP_LIST e s1 = Some s2" "ap_rep {} (ap_count_inc s2) [e]"
      "nodes s2 = nodes s1" "rule s2 = rule s1" "enable s2 = enable s1"
      by (auto simp: AP_LIST_NODE_MAX_def)
    have "content s1 [] = []" by (simp add: content_def)
    then have "filter (\<lambda>n. \<not> ap_expired now n) (content s xs) = []" using s1(3) True by simp
    then have "content (ap_count_inc s2) [e] = ap_update_spec (rule s) now i (content s xs)"
      using s2(3) s1(4) by (simp only: ap_update_spec_def Let_def) (simp add: content_def ap_count_inc_def ap_place_spec_def n_def)
    then show ?thesis
      using True s2 s1 empty by (auto simp: rest_def ap_count_inc_def intro!: exI [of _ "[e]"])
  next
    case False
    define zs where "zs = (if length ys < AP_LIST_NODE_MAX then ys else butlast ys)"
    obtain s2 where s2: "(if node_count s1 \<ge> AP_LIST_NODE_MAX then ap_delete (prevp (links s1) AP_LIST) s1 else Some s1) = Some s2"
      "ap_rep {e} s2 zs" "content s2 zs = content s1 zs" "nodes s2 e = Some n" "rule s2 = rule s" "enable s2 = enable s"
    proof (cases "length ys < AP_LIST_NODE_MAX")
      case True
      then show ?thesis using that [of s1] s1 len by (simp add: zs_def)
    next
      case full: False
      have ys: "ys = butlast ys @ [last ys]" using False by simp
      then have rep: "ap_rep {e} s1 (butlast ys @ last ys # [])" using s1(2) by simp
      have "prevp (links s1) AP_LIST = last ys"
        using s1(2) lnl.last_law [of "links s1" AP_LIST ys] False by (simp add: ap_rep_def)
      moreover obtain s2 where d: "ap_delete (last ys) s1 = Some s2" "ap_rep {e} s2 (butlast ys @ [])"
        "nodes s2 = (nodes s1)(last ys := None)" "rule s2 = rule s1" "enable s2 = enable s1"
        using delete_node [OF rep] by blast
      moreover have notin: "last ys \<notin> set (butlast ys)" "last ys \<noteq> e"
        using ap_rep_distinct [OF rep] rep by (auto simp: ap_rep_def)
      moreover have "content s2 (butlast ys) = content s1 (butlast ys)"
        using d(3) notin by (intro content_cong) auto
      ultimately show ?thesis
        using that [of s2] s1 len full by (simp add: zs_def)
    qed
    have zs: "length zs < AP_LIST_NODE_MAX" using len False by (auto simp: zs_def AP_LIST_NODE_MAX_def)
    obtain s3 us where s3: "for_each_node (ap_same_body i) () s2 = Some (AP_LIST, (), s3)" "ap_rep {e} s3 us"
      "content s3 us = filter (\<lambda>n. bssid (info n) \<noteq> bssid i) (content s2 zs)" "nodes s3 e = Some n" "rule s3 = rule s" "enable s3 = enable s"
      using filter_nodes [OF same_filters s2(2), of i "()"] s2 by auto
    have "length (content s3 us) \<le> length (content s2 zs)" unfolding s3(3) by (rule length_filter_le)
    then have "length us < AP_LIST_NODE_MAX" using zs by (simp add: content_def)
    then obtain s4 vs where s4: "ap_place i e s3 = Some s4" "ap_rep {} s4 vs" "content s4 vs = ap_place_spec (rule s3) n (content s3 us)"
      "rule s4 = rule s3" "enable s4 = enable s3"
      using place_correct [OF s3(2) _ s3(4) [unfolded n_def]] by (auto simp: n_def)
    have "content s1 zs = (if length (content s1 ys) < AP_LIST_NODE_MAX then content s1 ys else butlast (content s1 ys))"
      by (simp add: zs_def content_def map_butlast)
    then have "content s4 vs = ap_update_spec (rule s) now i (content s xs)"
      unfolding s4(3) s3(3) s2(3) s3(5) by (simp add: ap_update_spec_def Let_def s1(3) n_def)
    moreover have "rest = Some s4"
      using False empty s2(1) s3(1) s4(1) by (simp add: rest_def)
    ultimately show ?thesis using s4 s3 by auto
  qed
  then obtain s' zs where "rest = Some s'" "ap_rep {} s' zs" "content s' zs = ap_update_spec (rule s) now i (content s xs)"
    "rule s' = rule s" "enable s' = enable s" by blast
  then show ?thesis
    unfolding run by (intro exI [of _ "s'\<lparr>update_ticks := now\<rparr>"] exI [of _ zs]) (auto simp: ap_rep_def content_def)
qed

section \<open>Any sequence of operations\<close>

definition ap_list_ok :: "sort_rule \<Rightarrow> ap_info_node list \<Rightarrow> bool" where
  "ap_list_ok r l \<longleftrightarrow> length l \<le> AP_LIST_NODE_MAX \<and> distinct (map (\<lambda>n. bssid (info n)) l) \<and>
     (r = RSSI_SORT \<longrightarrow> sorted_wrt (\<lambda>m n. rssi (info n) \<le> rssi (info m)) l)"

lemma ap_list_ok_filter: "ap_list_ok r l \<Longrightarrow> ap_list_ok r (filter P l)"
  by (auto simp: ap_list_ok_def distinct_map_filter sorted_wrt_filter intro: le_trans [OF length_filter_le])

lemma ap_list_ok_butlast: "ap_list_ok r l \<Longrightarrow> ap_list_ok r (butlast l)"
  by (cases l rule: rev_cases) (auto simp: ap_list_ok_def sorted_wrt_append)

lemma dropWhile_sorted:
  "sorted_wrt (\<lambda>m n. rssi (info n) \<le> rssi (info m)) l \<Longrightarrow> x \<in> set (dropWhile (\<lambda>m. k < rssi (info m)) l) \<Longrightarrow> rssi (info x) \<le> k"
  by (induction l) (force split: if_splits)+

lemma place_spec_ok:
  assumes "ap_list_ok r l" and "length l < AP_LIST_NODE_MAX" and "bssid (info n) \<notin> set (map (\<lambda>n. bssid (info n)) l)"
  shows "ap_list_ok r (ap_place_spec r n l)"
proof (cases "r = NORMAL_SORT")
  case True
  then show ?thesis using assms by (auto simp: ap_list_ok_def ap_place_spec_def)
next
  case False
  then have r: "r = RSSI_SORT" by (cases r) simp_all
  define us vs where "us = takeWhile (\<lambda>m. rssi (info n) < rssi (info m)) l" and "vs = dropWhile (\<lambda>m. rssi (info n) < rssi (info m)) l"
  have l: "l = us @ vs" by (simp add: us_def vs_def)
  have "rssi (info x) \<le> rssi (info n)" if "x \<in> set vs" for x
    using dropWhile_sorted [of l x "rssi (info n)"] that assms(1) r by (simp add: vs_def ap_list_ok_def)
  moreover have "rssi (info n) \<le> rssi (info x)" if "x \<in> set us" for x
    using that by (auto simp: us_def dest: set_takeWhileD)
  moreover have "sorted_wrt (\<lambda>m n. rssi (info n) \<le> rssi (info m)) (us @ vs)" using assms(1) r by (simp add: ap_list_ok_def l)
  ultimately have "sorted_wrt (\<lambda>m n. rssi (info n) \<le> rssi (info m)) (us @ n # vs)"
    by (simp add: sorted_wrt_append)
  moreover have "ap_place_spec r n l = us @ n # vs"
    by (simp add: ap_place_spec_def us_def vs_def r)
  ultimately show ?thesis
    using assms unfolding l by (auto simp: ap_list_ok_def r)
qed

lemma update_spec_ok:
  assumes "ap_list_ok r l"
  shows "ap_list_ok r (ap_update_spec r now i l)"
proof -
  define l1 where "l1 = filter (\<lambda>n. \<not> ap_expired now n) l"
  define l2 where "l2 = (if length l1 < AP_LIST_NODE_MAX then l1 else butlast l1)"
  define l3 where "l3 = filter (\<lambda>n. bssid (info n) \<noteq> bssid i) l2"
  have l1: "ap_list_ok r l1" unfolding l1_def by (rule ap_list_ok_filter [OF assms])
  then have l2: "ap_list_ok r l2" using ap_list_ok_butlast by (simp add: l2_def)
  have "length l2 < AP_LIST_NODE_MAX"
    using l1 by (auto simp: l2_def ap_list_ok_def AP_LIST_NODE_MAX_def)
  then have "length l3 < AP_LIST_NODE_MAX"
    unfolding l3_def by (rule le_less_trans [OF length_filter_le])
  moreover have "ap_list_ok r l3" unfolding l3_def by (rule ap_list_ok_filter [OF l2])
  ultimately have "ap_list_ok r (ap_place_spec r \<lparr>info = i, life_ticks = now\<rparr> l3)"
    by (intro place_spec_ok) (auto simp: l3_def)
  then show ?thesis by (simp only: ap_update_spec_def Let_def l1_def l2_def l3_def)
qed

datatype ap_op = Op_report ap_info nat | Op_cleanup | Op_rule sort_rule | Op_get nat | Op_enable int

fun ap_step :: "(ap_list_ctrl \<Rightarrow> nat option) \<Rightarrow> ap_op \<Rightarrow> ap_list_ctrl \<Rightarrow> ap_list_ctrl option" where
  "ap_step alloc (Op_report i now) s = map_option snd (ap_info_list_update (alloc s) now i s)"
| "ap_step alloc Op_cleanup s = wifi_manager_cleanup_scan_results s"
| "ap_step alloc (Op_rule r) s = map_option snd (wifi_manager_set_ap_list_sort_rule r s)"
| "ap_step alloc (Op_get now) s = map_option (snd \<circ> snd) (wifi_manager_get_ap_list True True now s)"
| "ap_step alloc (Op_enable en) s = Some (snd (wifi_manager_ap_list_update_enable en s))"

text \<open>What \<^verbatim>\<open>OS_Malloc\<close> promises: an address that is not in use.\<close>

definition fresh_alloc :: "(ap_list_ctrl \<Rightarrow> nat option) \<Rightarrow> bool" where
  "fresh_alloc alloc \<longleftrightarrow> (\<forall>s e. alloc s = Some e \<longrightarrow> e \<noteq> AP_LIST \<and> nodes s e = None)"

definition ap_inv :: "ap_list_ctrl \<Rightarrow> bool" where
  "ap_inv s \<longleftrightarrow> (\<exists>xs. ap_rep {} s xs \<and> ap_list_ok (rule s) (content s xs))"

lemma ap_rep_upd: "ap_rep E (s\<lparr>update_ticks := t, enable := en, rule := r\<rparr>) xs = ap_rep E s xs"
  "content (s\<lparr>update_ticks := t, enable := en, rule := r\<rparr>) xs = content s xs"
  by (simp_all add: ap_rep_def content_def)

lemma ap_inv_nil: "ap_rep {} s [] \<Longrightarrow> ap_inv s"
  by (auto simp: ap_inv_def ap_list_ok_def content_def intro!: exI [of _ "[]"])

lemma ap_step_inv:
  assumes "fresh_alloc alloc" and "ap_inv s"
  shows "\<exists>s'. ap_step alloc p s = Some s' \<and> ap_inv s'"
proof -
  obtain xs where xs: "ap_rep {} s xs" "ap_list_ok (rule s) (content s xs)"
    using assms(2) by (auto simp: ap_inv_def)
  show ?thesis
  proof (cases p)
    case (Op_report i now)
    show ?thesis
    proof (cases "enable s = LN_TRUE \<and> alloc s \<noteq> None")
      case True
      then obtain e where e: "alloc s = Some e" "e \<noteq> AP_LIST" "nodes s e = None" "enable s = LN_TRUE"
        using assms(1) by (auto simp: fresh_alloc_def)
      then obtain s' ys where "ap_info_list_update (Some e) now i s = Some (WIFI_ERR_NONE, s')" "ap_rep {} s' ys"
        "content s' ys = ap_update_spec (rule s) now i (content s xs)" "rule s' = rule s"
        using update_correct [OF xs(1), of e now i] by blast
      then show ?thesis
        using Op_report e update_spec_ok [OF xs(2)] by (auto simp: ap_inv_def)
    next
      case False
      then have "ap_info_list_update (alloc s) now i s = Some (if enable s = LN_TRUE then WIFI_ERR_MEM else WIFI_ERR_NONE, s)"
        by (auto simp: ap_info_list_update_def)
      then show ?thesis using Op_report assms(2) by simp
    qed
  next
    case Op_cleanup
    then show ?thesis
      using clear_correct [OF xs(1)] by (auto simp: wifi_manager_cleanup_scan_results_def ap_rep_def intro!: ap_inv_nil)
  next
    case (Op_rule r)
    then show ?thesis
      using clear_correct [OF xs(1)] assms(2)
      by (auto simp: wifi_manager_set_ap_list_sort_rule_def ap_rep_def intro!: ap_inv_nil)
  next
    case (Op_get now)
    obtain s' ys where "ap_list_remove_life_timeout_node now s = Some s'" "ap_rep {} s' ys"
      "content s' ys = filter (\<lambda>n. \<not> ap_expired now n) (content s xs)" "rule s' = rule s"
      using timeout_correct [OF xs(1), of now] by blast
    then show ?thesis
      using Op_get ap_list_ok_filter [OF xs(2)] by (auto simp: wifi_manager_get_ap_list_def ap_inv_def)
  next
    case (Op_enable en)
    then show ?thesis
      using xs by (auto simp: wifi_manager_ap_list_update_enable_def ap_inv_def ap_rep_def content_def)
  qed
qed

lemma ap_init_inv: "nodes s = (\<lambda>a. None) \<Longrightarrow> ap_inv (ap_info_list_init s)"
  by (rule ap_inv_nil) (simp add: ap_rep_def ap_info_list_init_def dll_init)

section \<open>The theorems\<close>

text \<open>C39: a report of the scan, with memory for its node, updates the list of access points as it should: old
  reports go, the last one goes when there are forty, an earlier report of the same access point goes, and
  the new one takes the place that the sort rule gives it.  The list in the store stays well linked, and
  exactly its nodes are allocated.\<close>

theorem ap_list_update_refines:
  assumes "ap_rep {} s xs" and "enable s = LN_TRUE" and "e \<noteq> AP_LIST" and "nodes s e = None"
  shows "\<exists>s' ys. ap_info_list_update (Some e) now i s = Some (WIFI_ERR_NONE, s') \<and> ap_rep {} s' ys
    \<and> content s' ys = ap_update_spec (rule s) now i (content s xs) \<and> rule s' = rule s \<and> enable s' = enable s"
  using assms by (rule update_correct)

definition ap_empty :: ap_list_ctrl where
  "ap_empty = ap_info_list_init \<lparr>links = \<lparr>nextp = (\<lambda>a. a), prevp = (\<lambda>a. a)\<rparr>, nodes = (\<lambda>a. None), node_count = 3, update_ticks = 5,
     rule = NORMAL_SORT, enable = 0\<rparr>"

definition ap_example :: "nat \<Rightarrow> int \<Rightarrow> ap_info" where
  "ap_example b r = \<lparr>bssid = replicate 6 (of_nat b), ssid = [], channel = 1, authmode = 0, imode = 0, rssi = r, freq_offset = 0, bgn = 0,
     wps_en = False, is_hidden = False, rsn_mfpr = False, rsn_mfpc = False, set_wpa_sae_support = False\<rparr>"

lemma ap_list_update_refines_witness:
  "\<exists>s' ys. ap_info_list_update (Some 7) 100 (ap_example 1 (- 50)) ap_empty = Some (WIFI_ERR_NONE, s') \<and> ap_rep {} s' ys
    \<and> content s' ys = [\<lparr>info = ap_example 1 (- 50), life_ticks = 100\<rparr>]"
proof -
  have "ap_rep {} ap_empty []" "content ap_empty [] = []"
    by (simp_all add: ap_empty_def ap_rep_def ap_info_list_init_def dll_init content_def)
  moreover have "enable ap_empty = LN_TRUE" "7 \<noteq> AP_LIST" "nodes ap_empty 7 = None"
    by (simp_all add: ap_empty_def ap_info_list_init_def AP_LIST_def)
  moreover have "ap_update_spec r 100 i [] = [\<lparr>info = i, life_ticks = 100\<rparr>]" for r i
    by (simp add: ap_update_spec_def ap_place_spec_def AP_LIST_NODE_MAX_def)
  ultimately show ?thesis
    using ap_list_update_refines [of ap_empty "[]" 7 100 "ap_example 1 (- 50)"] by metis
qed

end
