(* ===== verification/Wifi_Manager.thy ===== *)
theory Wifi_Manager
  imports Wifi_Correct Dhcp_Pool
begin

text \<open>
  The Wi-Fi manager of \<^verbatim>\<open>components/wifi/wifi_manager/wifi_manager.c\<close> as a whole: what it does when the
  Wi-Fi library calls it back, the event callbacks of the application, and the release of the address of a
  station that leaves, which is the DHCP server's.  What an application callback does is an argument,
  \<open>run_cb\<close>; calls into the network interface and the Wi-Fi library are recorded.
\<close>

section \<open>State\<close>

definition WIFI_MGR_EVENT_STA_STARTUP :: nat where "WIFI_MGR_EVENT_STA_STARTUP = 0"
definition WIFI_MGR_EVENT_STA_CONNECTED :: nat where "WIFI_MGR_EVENT_STA_CONNECTED = 1"
definition WIFI_MGR_EVENT_STA_DISCONNECTED :: nat where "WIFI_MGR_EVENT_STA_DISCONNECTED = 2"
definition WIFI_MGR_EVENT_STA_SCAN_COMPLETE :: nat where "WIFI_MGR_EVENT_STA_SCAN_COMPLETE = 3"
definition WIFI_MGR_EVENT_STA_CONNECT_FAILED :: nat where "WIFI_MGR_EVENT_STA_CONNECT_FAILED = 4"
definition WIFI_MGR_EVENT_SOFTAP_STARTUP :: nat where "WIFI_MGR_EVENT_SOFTAP_STARTUP = 5"
definition WIFI_MGR_EVENT_SOFTAP_ASSOCIATED :: nat where "WIFI_MGR_EVENT_SOFTAP_ASSOCIATED = 6"
definition WIFI_MGR_EVENT_SOFTAP_DISASSOCIATED :: nat where "WIFI_MGR_EVENT_SOFTAP_DISASSOCIATED = 7"
definition WIFI_MGR_EVENT_MAX :: nat where "WIFI_MGR_EVENT_MAX = 9"

lemmas wifi_mgr_events = WIFI_MGR_EVENT_STA_STARTUP_def WIFI_MGR_EVENT_STA_CONNECTED_def WIFI_MGR_EVENT_STA_DISCONNECTED_def
  WIFI_MGR_EVENT_STA_SCAN_COMPLETE_def WIFI_MGR_EVENT_STA_CONNECT_FAILED_def WIFI_MGR_EVENT_SOFTAP_STARTUP_def
  WIFI_MGR_EVENT_SOFTAP_ASSOCIATED_def WIFI_MGR_EVENT_SOFTAP_DISASSOCIATED_def WIFI_MGR_EVENT_MAX_def

datatype cb_arg = Arg_null | Arg_reason nat | Arg_mac "byte list"

datatype wifi_act = Netdev_set_state_sta bool | Wifi_set_allow_cpu_sleep_flag nat

text \<open>Callbacks are addresses, \<open>0\<close> is \<open>NULL\<close>.  The pool and the limit are those of the DHCP server.\<close>

record wifi_mgr =
  aps :: ap_list_ctrl
  event_cb :: "nat list"
  pool :: "dhcpd_ip_item list"
  client_max :: nat
  acts :: "wifi_act list"

type_synonym callbacks = "nat \<Rightarrow> cb_arg \<Rightarrow> wifi_mgr \<Rightarrow> wifi_mgr option"

section \<open>Operations\<close>

definition wifi_event :: "callbacks \<Rightarrow> nat \<Rightarrow> cb_arg \<Rightarrow> wifi_mgr \<Rightarrow> wifi_mgr option" where
  "wifi_event run_cb event arg m = (if event_cb m ! event \<noteq> 0 then run_cb (event_cb m ! event) arg m else Some m)"

definition sta_startup :: "callbacks \<Rightarrow> wifi_mgr \<Rightarrow> wifi_mgr option" where
  "sta_startup run_cb m = wifi_event run_cb WIFI_MGR_EVENT_STA_STARTUP Arg_null m"

definition sta_connected :: "callbacks \<Rightarrow> wifi_mgr \<Rightarrow> wifi_mgr option" where
  "sta_connected run_cb m = do {
     let m = m\<lparr>acts := acts m @ [Netdev_set_state_sta True]\<rparr>;
     m \<leftarrow> wifi_event run_cb WIFI_MGR_EVENT_STA_CONNECTED Arg_null m;
     s \<leftarrow> wifi_manager_cleanup_scan_results (aps m);
     Some (m\<lparr>aps := s\<rparr>) }"

definition sta_disconnected :: "callbacks \<Rightarrow> wifi_mgr \<Rightarrow> wifi_mgr option" where
  "sta_disconnected run_cb m =
     wifi_event run_cb WIFI_MGR_EVENT_STA_DISCONNECTED Arg_null
       (m\<lparr>acts := acts m @ [Netdev_set_state_sta False, Wifi_set_allow_cpu_sleep_flag 0]\<rparr>)"

definition sta_scan_complete :: "callbacks \<Rightarrow> wifi_mgr \<Rightarrow> wifi_mgr option" where
  "sta_scan_complete run_cb m = wifi_event run_cb WIFI_MGR_EVENT_STA_SCAN_COMPLETE Arg_null m"

definition sta_connect_failed :: "callbacks \<Rightarrow> nat \<Rightarrow> wifi_mgr \<Rightarrow> wifi_mgr option" where
  "sta_connect_failed run_cb reason m = wifi_event run_cb WIFI_MGR_EVENT_STA_CONNECT_FAILED (Arg_reason reason) m"

definition sta_scan_report :: "nat option \<Rightarrow> nat \<Rightarrow> ap_info \<Rightarrow> wifi_mgr \<Rightarrow> wifi_mgr option" where
  "sta_scan_report malloc curr_ticks i m = do {
     (_, s) \<leftarrow> ap_info_list_update malloc curr_ticks i (aps m);
     Some (m\<lparr>aps := s\<rparr>) }"

definition softap_startup :: "callbacks \<Rightarrow> wifi_mgr \<Rightarrow> wifi_mgr option" where
  "softap_startup run_cb m = wifi_event run_cb WIFI_MGR_EVENT_SOFTAP_STARTUP Arg_null m"

definition softap_associated :: "callbacks \<Rightarrow> byte list \<Rightarrow> wifi_mgr \<Rightarrow> wifi_mgr option" where
  "softap_associated run_cb mac_addr m = wifi_event run_cb WIFI_MGR_EVENT_SOFTAP_ASSOCIATED (Arg_mac mac_addr) m"

definition softap_disassociated :: "callbacks \<Rightarrow> byte list \<Rightarrow> wifi_mgr \<Rightarrow> wifi_mgr option" where
  "softap_disassociated run_cb mac_addr m = do {
     (_, p) \<leftarrow> dhcpd_ip_release (client_max m) (pool m) mac_addr;
     wifi_event run_cb WIFI_MGR_EVENT_SOFTAP_DISASSOCIATED (Arg_mac mac_addr) (m\<lparr>pool := p\<rparr>) }"

definition wifi_callback_init :: "wifi_mgr \<Rightarrow> wifi_mgr" where
  "wifi_callback_init m = m\<lparr>event_cb := replicate WIFI_MGR_EVENT_MAX 0\<rparr>"

definition wifi_manager_init :: "wifi_mgr \<Rightarrow> wifi_mgr" where
  "wifi_manager_init m = wifi_callback_init (m\<lparr>aps := ap_info_list_init (aps m)\<rparr>)"

definition wifi_manager_reg_event_callback :: "nat \<Rightarrow> nat \<Rightarrow> wifi_mgr \<Rightarrow> wifi_err \<times> wifi_mgr" where
  "wifi_manager_reg_event_callback event cb m =
     (if event \<ge> WIFI_MGR_EVENT_MAX then (WIFI_ERR_INVALID_PARAM, m)
      else (WIFI_ERR_NONE, m\<lparr>event_cb := (event_cb m)[event := cb]\<rparr>))"

section \<open>Sequences of callbacks and calls\<close>

datatype wifi_input = Sta_startup | Sta_connected | Sta_disconnected | Sta_scan_complete | Sta_scan_report ap_info nat
  | Sta_connect_failed nat | Softap_startup | Softap_associated "byte list" | Softap_disassociated "byte list"
  | Reg_event_callback nat nat | Ap_call ap_op

fun wifi_step :: "(ap_list_ctrl \<Rightarrow> nat option) \<Rightarrow> callbacks \<Rightarrow> wifi_input \<Rightarrow> wifi_mgr \<Rightarrow> wifi_mgr option" where
  "wifi_step alloc run_cb Sta_startup m = sta_startup run_cb m"
| "wifi_step alloc run_cb Sta_connected m = sta_connected run_cb m"
| "wifi_step alloc run_cb Sta_disconnected m = sta_disconnected run_cb m"
| "wifi_step alloc run_cb Sta_scan_complete m = sta_scan_complete run_cb m"
| "wifi_step alloc run_cb (Sta_scan_report i now) m = sta_scan_report (alloc (aps m)) now i m"
| "wifi_step alloc run_cb (Sta_connect_failed r) m = sta_connect_failed run_cb r m"
| "wifi_step alloc run_cb Softap_startup m = softap_startup run_cb m"
| "wifi_step alloc run_cb (Softap_associated mac) m = softap_associated run_cb mac m"
| "wifi_step alloc run_cb (Softap_disassociated mac) m = softap_disassociated run_cb mac m"
| "wifi_step alloc run_cb (Reg_event_callback ev cb) m = Some (snd (wifi_manager_reg_event_callback ev cb m))"
| "wifi_step alloc run_cb (Ap_call p) m = map_option (\<lambda>s. m\<lparr>aps := s\<rparr>) (ap_step alloc p (aps m))"

fun wifi_run :: "(ap_list_ctrl \<Rightarrow> nat option) \<Rightarrow> callbacks \<Rightarrow> wifi_input list \<Rightarrow> wifi_mgr \<Rightarrow> wifi_mgr option" where
  "wifi_run alloc run_cb [] m = Some m"
| "wifi_run alloc run_cb (p # ps) m = do { m \<leftarrow> wifi_step alloc run_cb p m; wifi_run alloc run_cb ps m }"

section \<open>The invariant\<close>

text \<open>The list is as it should be, and the stations \<open>K\<close> have items in the pool, leased or not.\<close>

definition has_item :: "wifi_mgr \<Rightarrow> byte list \<Rightarrow> bool" where
  "has_item m mac \<longleftrightarrow> (\<exists>j < pool_num (client_max m). ip_mac (pool m ! j) = mac)"

definition wifi_inv :: "byte list set \<Rightarrow> wifi_mgr \<Rightarrow> bool" where
  "wifi_inv K m \<longleftrightarrow> ap_inv (aps m) \<and> length (event_cb m) = WIFI_MGR_EVENT_MAX \<and> length (pool m) = DHCPD_IP_POOL_SIZE \<and>
     (\<forall>mac \<in> K. has_item m mac)"

definition callbacks_ok :: "byte list set \<Rightarrow> callbacks \<Rightarrow> bool" where
  "callbacks_ok K run_cb \<longleftrightarrow> (\<forall>cb arg m. wifi_inv K m \<longrightarrow> (\<exists>m'. run_cb cb arg m = Some m' \<and> wifi_inv K m'))"

lemma wifi_event_inv:
  "callbacks_ok K run_cb \<Longrightarrow> wifi_inv K m \<Longrightarrow> \<exists>m'. wifi_event run_cb ev arg m = Some m' \<and> wifi_inv K m'"
  by (simp add: wifi_event_def callbacks_ok_def)

lemma wifi_inv_acts [simp]: "wifi_inv K (m\<lparr>acts := a\<rparr>) = wifi_inv K m"
  by (simp add: wifi_inv_def has_item_def)

lemma wifi_inv_aps: "wifi_inv K m \<Longrightarrow> ap_inv s \<Longrightarrow> wifi_inv K (m\<lparr>aps := s\<rparr>)"
  by (simp add: wifi_inv_def has_item_def)

lemma ap_call_inv:
  assumes "fresh_alloc alloc" and "wifi_inv K m"
  shows "\<exists>s. ap_step alloc p (aps m) = Some s \<and> wifi_inv K (m\<lparr>aps := s\<rparr>)"
  using ap_step_inv [OF assms(1), of "aps m" p] wifi_inv_aps [OF assms(2)] assms(2) by (auto simp: wifi_inv_def)

lemma release_inv:
  assumes "wifi_inv K m" and "has_item m mac"
  shows "\<exists>e p. dhcpd_ip_release (client_max m) (pool m) mac = Some (e, p) \<and> wifi_inv K (m\<lparr>pool := p\<rparr>)"
proof -
  have len: "length (pool m) = DHCPD_IP_POOL_SIZE" using assms(1) by (simp add: wifi_inv_def)
  from len show ?thesis
  proof (cases rule: release_cases [where client_max = "client_max m" and mac = mac])
    case absent
    then show ?thesis using assms(2) by (auto simp: has_item_def)
  next
    case (found i)
    have "ip_mac (((pool m)[i := (pool m ! i)\<lparr>ip_allocted := False\<rparr>]) ! j) = ip_mac (pool m ! j)" for j
      using found(3) by (simp add: nth_list_update)
    then show ?thesis using found(1) assms(1) by (simp add: wifi_inv_def has_item_def)
  qed
qed

lemma softap_disassociated_inv:
  assumes "callbacks_ok K run_cb" and "wifi_inv K m" and "mac \<in> K"
  shows "\<exists>m'. softap_disassociated run_cb mac m = Some m' \<and> wifi_inv K m'"
proof -
  have "has_item m mac" using assms(2,3) by (simp add: wifi_inv_def)
  then obtain e p where "dhcpd_ip_release (client_max m) (pool m) mac = Some (e, p)" "wifi_inv K (m\<lparr>pool := p\<rparr>)"
    using release_inv [OF assms(2)] by blast
  then show ?thesis using wifi_event_inv [OF assms(1)] by (simp add: softap_disassociated_def)
qed

lemma sta_connected_inv:
  assumes "fresh_alloc alloc" and "callbacks_ok K run_cb" and "wifi_inv K m"
  shows "\<exists>m'. sta_connected run_cb m = Some m' \<and> wifi_inv K m'"
proof -
  obtain m1 where m1: "wifi_event run_cb WIFI_MGR_EVENT_STA_CONNECTED Arg_null (m\<lparr>acts := acts m @ [Netdev_set_state_sta True]\<rparr>) = Some m1"
    "wifi_inv K m1"
    using wifi_event_inv [OF assms(2)] assms(3) by (metis wifi_inv_acts)
  then show ?thesis
    using ap_call_inv [OF assms(1) m1(2), of Op_cleanup] by (auto simp: sta_connected_def)
qed

lemma sta_scan_report_inv:
  assumes "fresh_alloc alloc" and "wifi_inv K m"
  shows "\<exists>m'. sta_scan_report (alloc (aps m)) now i m = Some m' \<and> wifi_inv K m'"
  using ap_call_inv [OF assms, of "Op_report i now"] by (auto simp: sta_scan_report_def)

lemma wifi_step_inv:
  assumes "fresh_alloc alloc" and "callbacks_ok K run_cb" and "wifi_inv K m" and "\<forall>mac. p = Softap_disassociated mac \<longrightarrow> mac \<in> K"
  shows "\<exists>m'. wifi_step alloc run_cb p m = Some m' \<and> wifi_inv K m'"
proof (cases p)
  case Sta_connected
  then show ?thesis using sta_connected_inv [OF assms(1-3)] by simp
next
  case (Sta_scan_report i now)
  then show ?thesis using sta_scan_report_inv [OF assms(1,3)] by simp
next
  case (Softap_disassociated mac)
  then show ?thesis using softap_disassociated_inv [OF assms(2,3)] assms(4) by simp
next
  case (Reg_event_callback ev cb)
  then show ?thesis using assms(3) by (simp add: wifi_manager_reg_event_callback_def wifi_inv_def has_item_def)
next
  case (Ap_call q)
  then show ?thesis using ap_call_inv [OF assms(1,3), of q] by auto
qed (use assms(3) wifi_event_inv [OF assms(2)] in \<open>simp_all add: sta_startup_def sta_disconnected_def sta_scan_complete_def
  sta_connect_failed_def softap_startup_def softap_associated_def\<close>)

lemma wifi_run_inv:
  "fresh_alloc alloc \<Longrightarrow> callbacks_ok K run_cb \<Longrightarrow> wifi_inv K m \<Longrightarrow> \<forall>mac. Softap_disassociated mac \<in> set ps \<longrightarrow> mac \<in> K \<Longrightarrow>
   \<exists>m'. wifi_run alloc run_cb ps m = Some m' \<and> wifi_inv K m'"
proof (induction ps arbitrary: m)
  case (Cons p ps)
  then obtain m1 where "wifi_step alloc run_cb p m = Some m1" "wifi_inv K m1"
    using wifi_step_inv [of alloc K run_cb m p] by auto
  then show ?case using Cons by simp
qed simp

lemma wifi_init_inv:
  assumes "nodes (aps m) = (\<lambda>a. None)" and "length (pool m) = DHCPD_IP_POOL_SIZE" and "\<forall>mac \<in> K. has_item m mac"
  shows "wifi_inv K (wifi_manager_init m)"
  using assms ap_init_inv [OF assms(1)] by (simp add: wifi_inv_def wifi_manager_init_def wifi_callback_init_def has_item_def)

section \<open>The theorem\<close>

text \<open>C40: from its start on, whatever the library calls back and the application calls, the manager never touches a
  node that is not allocated, never loses one and never faults, and its list of access points stays within
  forty entries, one for an access point and, under the RSSI rule, the strongest first.  This needs that
  every station that leaves has an item in the pool of the DHCP server; without it the release of its
  address faults.\<close>

theorem wifi_manager_safe:
  assumes "fresh_alloc alloc" and "callbacks_ok K run_cb" and "nodes (aps m) = (\<lambda>a. None)"
    and "length (pool m) = DHCPD_IP_POOL_SIZE" and "\<forall>mac \<in> K. has_item m mac"
    and "\<forall>mac. Softap_disassociated mac \<in> set ps \<longrightarrow> mac \<in> K"
  shows "(\<exists>m' xs. wifi_run alloc run_cb ps (wifi_manager_init m) = Some m' \<and> ap_rep {} (aps m') xs \<and>
      ap_list_ok (rule (aps m')) (content (aps m') xs)) \<and>
    (\<forall>mac. \<not> has_item m mac \<longrightarrow> wifi_run alloc run_cb (Softap_disassociated mac # ps) (wifi_manager_init m) = None)"
proof
  show "\<exists>m' xs. wifi_run alloc run_cb ps (wifi_manager_init m) = Some m' \<and> ap_rep {} (aps m') xs \<and>
      ap_list_ok (rule (aps m')) (content (aps m') xs)"
    using wifi_run_inv [OF assms(1,2) wifi_init_inv [OF assms(3-5)] assms(6)] by (auto simp: wifi_inv_def ap_inv_def)
  show "\<forall>mac. \<not> has_item m mac \<longrightarrow> wifi_run alloc run_cb (Softap_disassociated mac # ps) (wifi_manager_init m) = None"
  proof (intro allI impI)
    fix mac
    assume no: "\<not> has_item m mac"
    from assms(4) have "dhcpd_ip_release (client_max m) (pool m) mac = None"
    proof (cases rule: release_cases [where client_max = "client_max m" and mac = mac])
      case (found i)
      then show ?thesis using no by (auto simp: has_item_def)
    qed simp
    then show "wifi_run alloc run_cb (Softap_disassociated mac # ps) (wifi_manager_init m) = None"
      by (simp add: softap_disassociated_def wifi_manager_init_def wifi_callback_init_def)
  qed
qed

definition wifi_example :: wifi_mgr where
  "wifi_example = \<lparr>aps = ap_empty, event_cb = [], pool = replicate 4 \<lparr>ip_allocted = True, ip_mac = [1, 2, 3, 4, 5, 6], ip_ip = [192, 168, 4, 2]\<rparr>,
     client_max = 3, acts = []\<rparr>"

lemma wifi_manager_safe_witness:
  "let alloc = (\<lambda>s. if nodes s 1 = None then Some 1 else if nodes s 2 = None then Some 2 else None); run_cb = (\<lambda>cb arg m. Some m)
   in \<exists>m' xs. wifi_run alloc run_cb [Reg_event_callback 1 77, Sta_scan_report (ap_example 1 (- 70)) 5, Sta_scan_report (ap_example 2 (- 40)) 6,
       Ap_call (Op_get 9), Sta_connected, Softap_disassociated [1, 2, 3, 4, 5, 6]] (wifi_manager_init wifi_example) = Some m'
     \<and> ap_rep {} (aps m') xs"
proof -
  let ?alloc = "\<lambda>s. if nodes s 1 = None then Some 1 else if nodes s 2 = None then Some 2 else None"
  let ?cb = "(\<lambda>cb arg m. Some m) :: callbacks" and ?K = "{[1, 2, 3, 4, 5, 6]}"
  have "fresh_alloc ?alloc" by (auto simp: fresh_alloc_def AP_LIST_def)
  moreover have "callbacks_ok ?K ?cb" by (simp add: callbacks_ok_def)
  moreover have "nodes (aps wifi_example) = (\<lambda>a. None)" "length (pool wifi_example) = DHCPD_IP_POOL_SIZE"
    by (simp_all add: wifi_example_def ap_empty_def ap_info_list_init_def DHCPD_IP_POOL_SIZE_def)
  moreover have "\<forall>mac \<in> ?K. has_item wifi_example mac"
    by (auto simp: has_item_def wifi_example_def pool_num_def DHCPD_IP_POOL_SIZE_def intro!: exI [of _ 0])
  ultimately show ?thesis
    using wifi_manager_safe [of ?alloc ?K ?cb wifi_example "[Reg_event_callback 1 77, Sta_scan_report (ap_example 1 (- 70)) 5,
      Sta_scan_report (ap_example 2 (- 40)) 6, Ap_call (Op_get 9), Sta_connected, Softap_disassociated [1, 2, 3, 4, 5, 6]]"]
    unfolding Let_def by (simp del: wifi_run.simps) blast
qed

end
