(* ===== verification/Ota_Download.thy ===== *)
theory Ota_Download
  imports Ota At_Server
begin

text \<open>
  The download of an update, \<^verbatim>\<open>components/ln_at_cmd/ota/ln_at_cmd_ota.c\<close>: the AT command that starts it, the
  thread that fetches the image over HTTP, the buffer of one flash sector through which the data go to the
  update partition, and the check at the end.  It runs in the application, on the same flash and store as the
  boot loader's update agent (\<open>Ota\<close>).

  The partitions' offsets and sizes are macros of a header that a script generates for each project
  (\<^verbatim>\<open>flash_partition_table.h\<close>), so they are an argument.  What the HTTP client reports is an argument too, as
  the sequence of its reports.  \<^const>\<open>None\<close> is a memory fault or a failed assertion.
\<close>

section \<open>State\<close>

record ota_spaces =
  APP_SPACE_OFFSET :: nat
  APP_SPACE_SIZE :: nat
  OTA_SPACE_OFFSET :: nat
  OTA_SPACE_SIZE :: nat

definition SECTOR_SIZE_4KB :: nat where "SECTOR_SIZE_4KB = 1024 * 4"

text \<open>\<open>dl_mem\<close>: the outcomes of the next calls of \<^verbatim>\<open>OS_Malloc\<close>, which succeeds when the list is empty.  The
  address of the partition is a variable of the code too.  The URI is a string without its terminator.\<close>

record ota_dl =
  dl_ota :: ota
  dl_mem :: "bool list"
  temp4K_buf :: "byte list option"
  temp4k_offset :: nat
  flash_ota_start_addr :: nat
  flash_ota_offset :: nat
  is_persistent_started :: bool
  is_ready_to_verify :: bool
  is_precheck_ok :: bool
  httpc_ota_started :: bool
  g_http_uri_buff :: string

definition os_malloc :: "ota_dl \<Rightarrow> bool \<times> ota_dl" where
  "os_malloc s = (case dl_mem s of [] \<Rightarrow> (True, s) | m # ms \<Rightarrow> (m, s\<lparr>dl_mem := ms\<rparr>))"

text \<open>\<^verbatim>\<open>memcpy\<close> into the buffer of one sector.\<close>

definition sector_copy :: "byte list \<Rightarrow> nat \<Rightarrow> byte list \<Rightarrow> byte list option" where
  "sector_copy b off bs = (if off + length bs \<le> length b then Some (take off b @ bs @ drop (off + length bs) b) else None)"

section \<open>Saving the data\<close>

definition ota_download_precheck :: "ota_spaces \<Rightarrow> image_hdr \<Rightarrow> ota_dl \<Rightarrow> (bool \<times> ota_dl) option" where
  "ota_download_precheck c ota_hdr s =
     (let (mem, s) = os_malloc s
      in if \<not> mem then Some (False, s)
         else do {
           (err, app_hdr) \<leftarrow> image_header_fast_read (dl_ota s) (APP_SPACE_OFFSET c);
           if err \<noteq> OTA_ERR_NONE then Some (False, s)
           else if image_type ota_hdr = IMAGE_TYPE_ORIGINAL \<or> image_type ota_hdr = IMAGE_TYPE_ORIGINAL_XZ then
             (if image_version ota_hdr = image_version app_hdr then Some (False, s)
              else if add_u32 (img_size_orig ota_hdr) sizeof_image_hdr > APP_SPACE_SIZE c
                \<or> add_u32 (img_size_orig_xz ota_hdr) sizeof_image_hdr > OTA_SPACE_SIZE c then Some (False, s)
              else Some (True, s))
           else Some (False, s) })"

definition ota_persistent_start :: "ota_spaces \<Rightarrow> ota_dl \<Rightarrow> bool \<times> ota_dl" where
  "ota_persistent_start c s =
     (let (ok, s) = (case temp4K_buf s of
            None \<Rightarrow> (let (mem, s) = os_malloc s in (mem, if mem then s\<lparr>temp4K_buf := Some (replicate SECTOR_SIZE_4KB 0)\<rparr> else s))
          | Some b \<Rightarrow> (True, s))
      in if \<not> ok then (False, s)
         else (True, s\<lparr>temp4k_offset := 0, flash_ota_start_addr := OTA_SPACE_OFFSET c, flash_ota_offset := 0,
           is_persistent_started := True\<rparr>))"

text \<open>Erasing and programming the sector at the current offset.\<close>

definition ota_save_sector :: "byte list \<Rightarrow> ota_dl \<Rightarrow> ota_dl option" where
  "ota_save_sector b s = do {
     o1 \<leftarrow> ota_flash_erase (dl_ota s) (flash_ota_start_addr s + flash_ota_offset s) SECTOR_SIZE_4KB;
     o2 \<leftarrow> ota_flash_write o1 (flash_ota_start_addr s + flash_ota_offset s) b;
     Some (s\<lparr>dl_ota := o2\<rparr>) }"

text \<open>A full buffer goes to the flash, the first one after the check of the header in it.\<close>

definition ota_check_first :: "ota_spaces \<Rightarrow> byte list \<Rightarrow> ota_dl \<Rightarrow> (bool \<times> ota_dl) option" where
  "ota_check_first c b s =
     (if flash_ota_offset s = 0 then do {
        (r, s) \<leftarrow> ota_download_precheck c (image_hdr_decode (take sizeof_image_hdr b)) s;
        Some (r, s\<lparr>is_precheck_ok := r\<rparr>) }
      else Some (True, s))"

definition ota_flush :: "ota_spaces \<Rightarrow> byte list \<Rightarrow> ota_dl \<Rightarrow> (bool \<times> ota_dl) option" where
  "ota_flush c b s = do {
     (ok, s) \<leftarrow> ota_check_first c b s;
     if \<not> ok then Some (False, s)
     else do {
       s \<leftarrow> ota_save_sector b s;
       Some (True, s\<lparr>flash_ota_offset := flash_ota_offset s + SECTOR_SIZE_4KB, temp4K_buf := Some (replicate SECTOR_SIZE_4KB 0),
         temp4k_offset := 0\<rparr>) } }"

text \<open>The part of the data that does not fit into the buffer, and appending the data in two parts.\<close>

definition ota_part_len :: "nat \<Rightarrow> nat \<Rightarrow> nat" where
  "ota_part_len offset buf_len = (if offset + buf_len < SECTOR_SIZE_4KB then 0 else offset + buf_len - SECTOR_SIZE_4KB)"

definition ota_append :: "ota_spaces \<Rightarrow> nat \<Rightarrow> byte list \<Rightarrow> ota_dl \<Rightarrow> (bool \<times> ota_dl) option" where
  "ota_append c part_len buf s = do {
     b \<leftarrow> temp4K_buf s;
     b1 \<leftarrow> sector_copy b (temp4k_offset s) (take (length buf - part_len) buf);
     let s = s\<lparr>temp4K_buf := Some b1, temp4k_offset := temp4k_offset s + (length buf - part_len)\<rparr>;
     (ok, s) \<leftarrow> (if temp4k_offset s \<ge> SECTOR_SIZE_4KB then ota_flush c b1 s else Some (True, s));
     if \<not> ok then Some (False, s)
     else if part_len > 0 then do {
       b2 \<leftarrow> temp4K_buf s;
       b3 \<leftarrow> sector_copy b2 (temp4k_offset s) (drop (length buf - part_len) buf);
       Some (True, s\<lparr>temp4K_buf := Some b3, temp4k_offset := temp4k_offset s + part_len\<rparr>) }
     else Some (True, s) }"

definition ota_persistent_write :: "ota_spaces \<Rightarrow> byte list \<Rightarrow> ota_dl \<Rightarrow> (bool \<times> ota_dl) option" where
  "ota_persistent_write c buf s =
     (if \<not> is_persistent_started s then Some (True, s)
      else ota_append c (ota_part_len (temp4k_offset s) (length buf)) buf s)"

definition ota_persistent_finish :: "ota_dl \<Rightarrow> (bool \<times> ota_dl) option" where
  "ota_persistent_finish s =
     (if \<not> is_persistent_started s then Some (False, s)
      else do {
        b \<leftarrow> temp4K_buf s;
        s \<leftarrow> ota_save_sector b s;
        Some (True, s\<lparr>temp4K_buf := None, temp4k_offset := 0, flash_ota_offset := 0, is_persistent_started := False\<rparr>) })"

definition http_get_callback :: "ota_spaces \<Rightarrow> byte list \<Rightarrow> bool \<Rightarrow> ota_dl \<Rightarrow> (int \<times> ota_dl) option" where
  "http_get_callback c recvbuf is_recv_finished s =
     (if \<not> is_recv_finished then do {
        (ok, s) \<leftarrow> ota_persistent_write c recvbuf s;
        Some (if ok then int (length recvbuf) else - 1, s) }
      else do {
        (_, s) \<leftarrow> ota_persistent_finish s;
        Some (int (length recvbuf), s\<lparr>is_ready_to_verify := True\<rparr>) })"

section \<open>The HTTP client\<close>

text \<open>
  What the parser of the client reports: data, the end of the body, the end of the connection (also when
  the list ends), an error.  The body of the report of the end has been passed on before.
\<close>

datatype http_event = Http_data "byte list" | Http_end "byte list" | Http_close | Http_error

fun http_get_with_callback :: "ota_spaces \<Rightarrow> http_event list \<Rightarrow> int \<Rightarrow> ota_dl \<Rightarrow> (int \<times> ota_dl) option" where
  "http_get_with_callback c [] recv_len s = Some (recv_len, s)"
| "http_get_with_callback c (Http_data bs # es) recv_len s = do {
     (ret, s) \<leftarrow> http_get_callback c bs False s;
     if ret < 0 then Some (- 1, s) else http_get_with_callback c es (recv_len + ret) s }"
| "http_get_with_callback c (Http_end bs # es) recv_len s = do {
     (_, s) \<leftarrow> http_get_callback c bs True s;
     Some (recv_len, s) }"
| "http_get_with_callback c (Http_close # es) recv_len s = Some (recv_len, s)"
| "http_get_with_callback c (Http_error # es) recv_len s = Some (- 1, s)"

section \<open>The thread\<close>

definition ota_verify_download :: "ota_spaces \<Rightarrow> ota_dl \<Rightarrow> bool option" where
  "ota_verify_download c s = do {
     (err, hdr) \<leftarrow> image_header_fast_read (dl_ota s) (OTA_SPACE_OFFSET c);
     if err \<noteq> OTA_ERR_NONE then Some False
     else if image_header_verify hdr \<noteq> OTA_ERR_NONE then Some False
     else do {
       err \<leftarrow> image_body_verify (dl_ota s) (OTA_SPACE_OFFSET c) (Some hdr);
       Some (err = OTA_ERR_NONE) } }"

definition update_ota_state :: "ota_dl \<Rightarrow> ota_dl option" where
  "update_ota_state s = do {
     (_, nv) \<leftarrow> ln_nvds_set_ota_upg_state (ot_nv (dl_ota s)) UPG_STATE_DOWNLOAD_OK;
     Some (s\<lparr>dl_ota := (dl_ota s)\<lparr>ot_nv := nv\<rparr>\<rparr>) }"

text \<open>One turn of the thread's loop; when the attempts are used up the thread is still at work.\<close>

datatype http_attempt = No_http_info | No_http_init | Http_get "http_event list"

datatype ota_outcome = Ota_reboot | Ota_exit | Ota_working

definition ota_conclude :: "ota_spaces \<Rightarrow> ota_dl \<Rightarrow> (ota_outcome \<times> ota_dl) option" where
  "ota_conclude c s = do {
     ok \<leftarrow> (if is_precheck_ok s \<and> is_ready_to_verify s then ota_verify_download c s else Some False);
     if ok then do { s \<leftarrow> update_ota_state s; Some (Ota_reboot, s) }
     else Some (Ota_exit, s\<lparr>httpc_ota_started := False\<rparr>) }"

fun http_ota_entry :: "ota_spaces \<Rightarrow> http_attempt list \<Rightarrow> int \<Rightarrow> ota_dl \<Rightarrow> (ota_outcome \<times> ota_dl) option" where
  "http_ota_entry c [] recv_total s = Some (Ota_working, s)"
| "http_ota_entry c (No_http_info # as) recv_total s = http_ota_entry c as recv_total s"
| "http_ota_entry c (No_http_init # as) recv_total s = http_ota_entry c as recv_total s"
| "http_ota_entry c (Http_get es # as) recv_total s = do {
     let (ok, s) = ota_persistent_start c s;
     (recv_total, s) \<leftarrow> (if ok then http_get_with_callback c es 0 s else Some (recv_total, s));
     if recv_total > 0 then ota_conclude c s
     else if recv_total < 0 \<and> \<not> is_precheck_ok s then ota_conclude c s
     else http_ota_entry c as recv_total s }"

section \<open>The AT command\<close>

text \<open>\<open>thread\<close>: whether the thread can be created.  The result has the answer on the line.\<close>

definition ln_at_set_http_ota ::
  "nat \<Rightarrow> string option \<Rightarrow> at_parser \<Rightarrow> string \<Rightarrow> bool \<Rightarrow> ota_dl \<Rightarrow> (ln_at_err \<times> string \<times> bool \<times> ota_dl) option" where
  "ln_at_set_http_ota para_num name psr line thread s =
     (if httpc_ota_started s then Some (LN_AT_ERR_COMMON,
        LN_AT_RET_ERR_STR @ (case name of Some n \<Rightarrow> n | None \<Rightarrow> []) @ '' The ota task has been started!'' @ [CHR 0x0D, CHR 0x0A], False, s)
      else
        let s = s\<lparr>httpc_ota_started := True\<rparr>
        in if name = None \<or> para_num > 2 then Some (LN_AT_ERR_PARAM, [], False, s)
        else case ln_at_parser_get_str_param psr 1 of (err, _, in_uri) \<Rightarrow>
          if err \<noteq> LN_AT_PSR_ERR_NONE then Some (LN_AT_ERR_PARSE, LN_AT_RET_ERR_STR, False, s)
          else case in_uri of
            None \<Rightarrow> Some (LN_AT_ERR_COMMON, LN_AT_RET_ERR_STR, False, s\<lparr>httpc_ota_started := False\<rparr>)
          | Some p \<Rightarrow> do {
              uri \<leftarrow> cstr line p;
              let s = s\<lparr>g_http_uri_buff := []\<rparr>;
              if u16 (length uri) \<ge> 512 then Some (LN_AT_ERR_COMMON, LN_AT_RET_ERR_STR, False, s\<lparr>httpc_ota_started := False\<rparr>)
              else (let s = s\<lparr>g_http_uri_buff := take (u16 (length uri)) uri\<rparr>
                in if \<not> thread then Some (LN_AT_ERR_COMMON, LN_AT_RET_ERR_STR, False, s\<lparr>httpc_ota_started := False\<rparr>)
                   else Some (LN_AT_ERR_NONE, LN_AT_RET_OK_STR, True, s)) })"

end
