(* ===== verification/Xz_Coding.thy ===== *)
theory Xz_Coding
  imports Xz
begin

text \<open>
  The range coder.  \<open>rc_encode\<close> is the encoder on exact natural numbers: a list of events (a bit
  under a context with its probability, or a direct bit) narrows an interval that starts at
  \<open>low\<close>, and the stream is the number \<open>low\<close> in base 256, most significant byte first.  The locale
  \<open>byte_source\<close> is the contract of a read callback; in it every function of the decoder gives
  back what has been encoded.
\<close>

section \<open>The encoder\<close>

datatype rc_event = Ctx nat nat | Dir nat

definition ev_step :: "nat list \<Rightarrow> nat \<Rightarrow> rc_event \<Rightarrow> nat \<times> nat \<times> nat list" where
  "ev_step ps r e = (case e of
     Ctx i b \<Rightarrow> (let bound = r div 2048 * ps ! i
        in if b = 0 then (0, bound, ps[i := prob_up (ps ! i)]) else (bound, r - bound, ps[i := prob_down (ps ! i)]))
   | Dir b \<Rightarrow> (if b = 0 then 0 else r div 2, r div 2, ps))"

fun rc_encode :: "nat list \<Rightarrow> nat \<Rightarrow> nat \<Rightarrow> nat \<Rightarrow> rc_event list \<Rightarrow> nat \<times> nat" where
  "rc_encode ps low r n [] = (low, n)"
| "rc_encode ps low r n (e # es) = (case ev_step ps r e of (d, r', ps') \<Rightarrow>
     if r' < 2 ^ 24 then rc_encode ps' ((low + d) * 256) (r' * 256) (n + 1) es
     else rc_encode ps' (low + d) r' n es)"

definition be_val :: "byte list \<Rightarrow> nat" where
  "be_val bs = le_val (rev bs)"

definition be_bytes :: "nat \<Rightarrow> nat \<Rightarrow> byte list" where
  "be_bytes n v = rev (le_bytes n v)"

definition rc_stream :: "nat list \<Rightarrow> rc_event list \<Rightarrow> byte list" where
  "rc_stream ps es = (case rc_encode ps 0 0xFFFFFFFF 0 es of (low, n) \<Rightarrow> be_bytes (5 + n) low)"

definition probs_ok :: "nat list \<Rightarrow> bool" where
  "probs_ok ps \<longleftrightarrow> (\<forall>p \<in> set ps. 31 \<le> p \<and> p \<le> 2017)"

fun ev_ok :: "nat \<Rightarrow> rc_event \<Rightarrow> bool" where
  "ev_ok n (Ctx i b) \<longleftrightarrow> i < n \<and> b < 2"
| "ev_ok n (Dir b) \<longleftrightarrow> b < 2"

section \<open>Lemmas on the encoder\<close>

lemma prob_up_eq: "31 \<le> p \<Longrightarrow> p \<le> 2017 \<Longrightarrow> prob_up p = p + (2048 - p) div 32"
proof -
  assume p: "31 \<le> p" "p \<le> 2017"
  then have "int p + (int kBitModelTotal - int p) div 2 ^ kNumMoveBits = int (p + (2048 - p) div 32)"
    by (simp add: kBitModelTotal_def kNumMoveBits_def zdiv_int of_nat_diff)
  moreover have "p + (2048 - p) div 32 < 2 ^ 16" using p by simp
  ultimately show ?thesis by (simp only: prob_up_def) (simp flip: of_nat_mod add: nat_mod_as_int)
qed

lemma prob_bounds:
  assumes "31 \<le> p" and "p \<le> 2017"
  shows "31 \<le> prob_up p" "prob_up p \<le> 2017" "31 \<le> prob_down p" "prob_down p \<le> 2017"
proof -
  show "31 \<le> prob_up p" using assms by (simp add: prob_up_eq)
  show "prob_up p \<le> 2017" using assms by (simp add: prob_up_eq)
  show "31 \<le> prob_down p" using assms by (simp add: prob_down_def kNumMoveBits_def)
  show "prob_down p \<le> 2017" using assms by (simp add: prob_down_def)
qed

lemma probs_ok_nth: "probs_ok ps \<Longrightarrow> i < length ps \<Longrightarrow> 31 \<le> ps ! i \<and> ps ! i \<le> 2017"
  by (simp add: probs_ok_def)

lemma probs_ok_update: "probs_ok ps \<Longrightarrow> 31 \<le> p \<Longrightarrow> p \<le> 2017 \<Longrightarrow> probs_ok (ps[i := p])"
  unfolding probs_ok_def using set_update_subset_insert [of ps i p] by auto

lemma probs_ok_replicate [simp]: "probs_ok (replicate n (kBitModelTotal div 2))"
  by (simp add: probs_ok_def kBitModelTotal_def)

text \<open>An event leaves a proper part of the interval, wide enough for one more byte.\<close>

lemma ev_step_props:
  assumes "probs_ok ps" and "ev_ok (length ps) e" and r: "2 ^ 24 \<le> r" "r < 2 ^ 32" and st: "ev_step ps r e = (d, r', ps')"
  shows "probs_ok ps'" "length ps' = length ps" "2 ^ 16 \<le> r'" "d + r' \<le> r"
proof -
  have "probs_ok ps' \<and> length ps' = length ps \<and> 2 ^ 16 \<le> r' \<and> d + r' \<le> r"
  proof (cases e)
    case (Ctx i b)
    with assms have p: "31 \<le> ps ! i" "ps ! i \<le> 2017" by (simp_all add: probs_ok_nth)
    define q where "q = r div 2048"
    have q: "8192 \<le> q" "q * 2048 \<le> r" using r(1) by (simp_all add: q_def)
    have lo: "8192 * 31 \<le> q * ps ! i" using q p by (intro mult_le_mono) simp_all
    have hi: "q * ps ! i \<le> q * 2017" using p by simp
    have "65536 + q * ps ! i \<le> r" using hi q by linarith
    then have "2 ^ 16 \<le> r - q * ps ! i" "q * ps ! i \<le> r" by simp_all
    with Ctx st lo p assms(1) show ?thesis
      by (auto simp: ev_step_def Let_def q_def intro!: probs_ok_update prob_bounds split: if_splits)
  next
    case (Dir b)
    with assms show ?thesis by (auto simp: ev_step_def)
  qed
  then show "probs_ok ps'" "length ps' = length ps" "2 ^ 16 \<le> r'" "d + r' \<le> r" by simp_all
qed

lemma rc_encode_linear:
  "rc_encode ps low r n es = (low * 256 ^ snd (rc_encode ps 0 r 0 es) + fst (rc_encode ps 0 r 0 es),
     n + snd (rc_encode ps 0 r 0 es))"
proof (induction es arbitrary: ps low r n)
  case Nil
  then show ?case by simp
next
  case (Cons e es)
  obtain d r' ps' where st: "ev_step ps r e = (d, r', ps')" by (cases "ev_step ps r e")
  show ?case
  proof (cases "r' < 2 ^ 24")
    case True
    show ?thesis
      using st True Cons [of ps' "(low + d) * 256" "r' * 256" "n + 1"] Cons [of ps' "d * 256" "r' * 256" 1]
      by (simp add: algebra_simps)
  next
    case False
    show ?thesis
      using st False Cons [of ps' "low + d" r' n] Cons [of ps' d r' 0]
      by (simp add: algebra_simps)
  qed
qed

lemma rc_encode_bound:
  assumes "probs_ok ps" and "2 ^ 24 \<le> r" and "r < 2 ^ 32" and "list_all (ev_ok (length ps)) es"
    and "rc_encode ps 0 r 0 es = (v, k)"
  shows "v < r * 256 ^ k"
  using assms
proof (induction es arbitrary: ps r v k)
  case Nil
  then show ?case by simp
next
  case (Cons e es)
  obtain d r' ps' where st: "ev_step ps r e = (d, r', ps')" by (cases "ev_step ps r e")
  have p: "probs_ok ps'" "length ps' = length ps" "2 ^ 16 \<le> r'" "d + r' \<le> r"
    using ev_step_props [OF _ _ _ _ st] Cons.prems by simp_all
  define r'' where "r'' = (if r' < 2 ^ 24 then r' * 256 else r')"
  define m where "m = (if r' < 2 ^ 24 then 1 else 0 :: nat)"
  have r'': "2 ^ 24 \<le> r''" "r'' < 2 ^ 32" "r'' = r' * 256 ^ m"
    using p Cons.prems by (auto simp: r''_def m_def)
  obtain v' k' where e: "rc_encode ps' 0 r'' 0 es = (v', k')" by (cases "rc_encode ps' 0 r'' 0 es")
  have "v' < r'' * 256 ^ k'" using Cons.IH [OF p(1) r''(1,2) _ e] Cons.prems(4) p(2) by simp
  moreover have "v = d * 256 ^ m * 256 ^ k' + v'" "k = m + k'"
    using Cons.prems(5) st e rc_encode_linear [of ps' "d * 256 ^ m" r'' m es]
    by (auto simp: r''_def m_def split: if_splits)
  ultimately have "v < (d + r') * 256 ^ k"
    using r''(3) by (simp add: power_add algebra_simps)
  also have "\<dots> \<le> r * 256 ^ k" using p(4) by simp
  finally show ?case .
qed

lemma be_val_Nil [simp]: "be_val [] = 0"
  by (simp add: be_val_def)

lemma be_val_Cons: "be_val (b # bs) = unat b * 256 ^ length bs + be_val bs"
  by (simp add: be_val_def le_val_append)

lemma be_val_bound: "be_val bs < 256 ^ length bs"
  using le_val_bound [of "rev bs"] by (simp add: be_val_def)

lemma be_val_be_bytes: "be_val (be_bytes n v) = v mod 256 ^ n"
  by (simp add: be_val_def be_bytes_def le_simps)

lemma length_be_bytes [simp]: "length (be_bytes n v) = n"
  by (simp add: be_bytes_def)

lemma not_bit_high: "b < 2 ^ k \<Longrightarrow> k \<le> n \<Longrightarrow> \<not> bit (b :: nat) n"
  by (simp add: bit_iff_odd) (metis div_less even_zero less_le_trans one_le_numeral power_increasing)

lemma or_disjoint: "b < 2 ^ k \<Longrightarrow> push_bit k c OR b = c * 2 ^ k + (b :: nat)"
proof -
  assume "b < 2 ^ k"
  then have "\<not> bit (push_bit k c) n \<or> \<not> bit b n" for n
    using not_bit_high [of b k n] by (auto simp: bit_simps)
  then have "push_bit k c OR b = push_bit k c + b" by (rule disjunctive_add [symmetric])
  then show ?thesis by (simp add: push_bit_eq_mult)
qed

text \<open>Symbols of eight bits: with \<open>k\<close> bits decoded the symbol lies between \<open>2 ^ k\<close> and \<open>2 ^ (k + 1)\<close>.\<close>

lemma symbol_step:
  assumes "k + Suc n = 8" and mi: "2 ^ k \<le> mi" "mi < 2 ^ (k + 1)" and b: "b < (2 :: nat)"
  shows "mi < 256" "mi + mi OR b = mi + mi + b" "push_bit 1 mi OR b = mi + mi + b"
    "k + 1 + n = 8" "2 ^ (k + 1) \<le> mi + mi + b" "mi + mi + b < 2 ^ (k + 1 + 1)"
proof -
  have "(2 :: nat) ^ (k + 1) \<le> 2 ^ 8" using assms(1) by (intro power_increasing) simp_all
  with mi(2) show "mi < 256" by simp
  show "mi + mi OR b = mi + mi + b" "push_bit 1 mi OR b = mi + mi + b"
    using or_disjoint [of b 1 mi] b by (simp_all add: push_bit_eq_mult mult_2_right)
qed (use assms in simp_all)

section \<open>The contract of a read callback\<close>

text \<open>\<open>source bs s\<close>: from the state \<open>s\<close> on the callback yields the bytes \<open>bs\<close>, in non-empty pieces.\<close>

locale byte_source =
  fixes rcb :: "'s read_cb" and source :: "byte list \<Rightarrow> 's \<Rightarrow> bool"
  assumes read: "source bs s \<Longrightarrow> bs \<noteq> [] \<Longrightarrow>
    \<exists>chunk rest s'. rcb s = Some (XZ_RET_OK, chunk, s') \<and> chunk \<noteq> [] \<and> bs = chunk @ rest \<and> source rest s'"

text \<open>The decoder has the bytes \<open>bs\<close> before it; the events \<open>es\<close> are what it will decode.\<close>

definition rd_holds :: "(byte list \<Rightarrow> 's \<Rightarrow> bool) \<Rightarrow> 's xz_rc \<Rightarrow> byte list \<Rightarrow> bool" where
  "rd_holds source x bs \<longleftrightarrow> read_cb_ret (rdec x) = XZ_RET_OK \<and> ExtraBytes (rdec x) = 0
     \<and> (\<exists>rest. bs = Buffer (rdec x) @ rest \<and> source rest (cbst x))"

definition rc_val :: "(byte list \<Rightarrow> 's \<Rightarrow> bool) \<Rightarrow> 's xz_rc \<Rightarrow> nat \<Rightarrow> nat \<Rightarrow> bool" where
  "rc_val source x v n \<longleftrightarrow> (\<exists>bs. rd_holds source x bs \<and> n \<le> length bs
     \<and> Code (rdec x) * 256 ^ n + be_val (take n bs) = v)"

definition rc_ready :: "(byte list \<Rightarrow> 's \<Rightarrow> bool) \<Rightarrow> 's xz_rc \<Rightarrow> rc_event list \<Rightarrow> bool" where
  "rc_ready source x es \<longleftrightarrow> (case rc_encode (probs x) 0 (Range (rdec x)) 0 es of (v, n) \<Rightarrow> rc_val source x v n)
     \<and> 2 ^ 24 \<le> Range (rdec x) \<and> Range (rdec x) < 2 ^ 32 \<and> probs_ok (probs x)
     \<and> list_all (ev_ok (length (probs x))) es"

lemma rc_ready_ok:
  "rc_ready source x es \<Longrightarrow> read_cb_ret (rdec x) = XZ_RET_OK \<and> ExtraBytes (rdec x) = 0"
  by (auto simp: rc_ready_def rc_val_def rd_holds_def split: prod.splits)

context byte_source begin

lemma ReadByte_holds:
  assumes "rd_holds source x (b # bs)"
  shows "\<exists>buf s. RangeDecoderReadByte rcb x = Some (unat b, x\<lparr>rdec := (rdec x)\<lparr>Buffer := buf\<rparr>, cbst := s\<rparr>)
    \<and> rd_holds source (x\<lparr>rdec := (rdec x)\<lparr>Buffer := buf\<rparr>, cbst := s\<rparr>) bs"
proof (cases "Buffer (rdec x)")
  case (Cons c cs)
  with assms have "RangeDecoderReadByte rcb x = Some (unat b, x\<lparr>rdec := (rdec x)\<lparr>Buffer := cs\<rparr>, cbst := cbst x\<rparr>)"
    "rd_holds source (x\<lparr>rdec := (rdec x)\<lparr>Buffer := cs\<rparr>, cbst := cbst x\<rparr>) bs"
    by (auto simp: RangeDecoderReadByte_def rd_holds_def)
  then show ?thesis by blast
next
  case Nil
  with assms have src: "source (b # bs) (cbst x)" and ok: "read_cb_ret (rdec x) = XZ_RET_OK" "ExtraBytes (rdec x) = 0"
    by (simp_all add: rd_holds_def)
  from read [OF src] obtain chunk rest s' where c: "rcb (cbst x) = Some (XZ_RET_OK, chunk, s')" "chunk \<noteq> []"
      "b # bs = chunk @ rest" "source rest s'"
    by blast
  then obtain cs where cs: "chunk = b # cs" "bs = cs @ rest" by (cases chunk) auto
  have upd: "(rdec x)\<lparr>Buffer := cs, read_cb_ret := XZ_RET_OK\<rparr> = (rdec x)\<lparr>Buffer := cs\<rparr>"
    using ok by (cases "rdec x") simp
  have "RangeDecoderReadByte rcb x = Some (unat b, x\<lparr>rdec := (rdec x)\<lparr>Buffer := cs\<rparr>, cbst := s'\<rparr>)"
    using Nil c(1) upd by (simp add: RangeDecoderReadByte_def cs)
  moreover have "rd_holds source (x\<lparr>rdec := (rdec x)\<lparr>Buffer := cs\<rparr>, cbst := s'\<rparr>) bs"
    using ok c(4) by (simp add: rd_holds_def cs)
  ultimately show ?thesis by blast
qed

text \<open>Shifting a byte in keeps the number; a range of the narrowed interval is widened again.\<close>

lemma shift_val:
  assumes v: "rc_val source x v (Suc n)" and c: "Code (rdec x) < 2 ^ 24"
  shows "\<exists>x'. shift_code rcb x = Some x' \<and> rc_val source x' v n \<and> probs x' = probs x
    \<and> Range (rdec x') = Range (rdec x)"
proof -
  from v obtain bs where bs: "rd_holds source x bs" "Suc n \<le> length bs"
      "Code (rdec x) * 256 ^ Suc n + be_val (take (Suc n) bs) = v"
    unfolding rc_val_def by blast
  then obtain b cs where cs: "bs = b # cs" by (cases bs) simp_all
  from ReadByte_holds [of x b cs] bs(1) cs obtain buf s where
    rb: "RangeDecoderReadByte rcb x = Some (unat b, x\<lparr>rdec := (rdec x)\<lparr>Buffer := buf\<rparr>, cbst := s\<rparr>)"
      "rd_holds source (x\<lparr>rdec := (rdec x)\<lparr>Buffer := buf\<rparr>, cbst := s\<rparr>) cs"
    by blast
  let ?x = "x\<lparr>rdec := (rdec x)\<lparr>Buffer := buf, Code := Code (rdec x) * 256 + unat b\<rparr>, cbst := s\<rparr>"
  have "u32 (push_bit 8 (Code (rdec x))) OR unat b = Code (rdec x) * 256 + unat b"
    using c or_disjoint [of "unat b" 8 "Code (rdec x)"] unat_byte_less [of b]
    by (simp add: push_bit_eq_mult wrap_simps)
  then have sc: "shift_code rcb x = Some ?x" by (simp add: shift_code_def rb(1))
  have "rd_holds source ?x cs" using rb(2) by (simp add: rd_holds_def)
  moreover have "length (take n cs) = n" using bs(2) cs by simp
  ultimately have "rc_val source ?x v n"
    using bs(2,3) cs unfolding rc_val_def
    by (intro exI [of _ cs]) (simp add: be_val_Cons algebra_simps del: length_take)
  with sc show ?thesis by auto
qed

lemma normalize_val:
  assumes v: "rc_val source x v (n + k)" "v < Range (rdec x) * 256 ^ (n + k)" and r: "Range (rdec x) < 2 ^ 32"
    and k: "k = (if Range (rdec x) < 2 ^ 24 then 1 else 0)"
  shows "\<exists>x'. rc_normalize rcb x = Some x' \<and> rc_val source x' v n \<and> probs x' = probs x
    \<and> Range (rdec x') = Range (rdec x) * 256 ^ k"
proof (cases "Range (rdec x) < 2 ^ 24")
  case True
  have "Code (rdec x) * 256 ^ (n + k) \<le> v" using v(1) by (auto simp: rc_val_def)
  from le_less_trans [OF this v(2)] have "Code (rdec x) * 256 ^ (n + k) < Range (rdec x) * 256 ^ (n + k)" .
  then have "Code (rdec x) < 2 ^ 24" using True by simp
  with shift_val [of x v n] v(1) k True obtain x' where
    x': "shift_code rcb x = Some x'" "rc_val source x' v n" "probs x' = probs x" "Range (rdec x') = Range (rdec x)"
    by auto
  let ?x = "x'\<lparr>rdec := (rdec x')\<lparr>Range := u32 (push_bit 8 (Range (rdec x')))\<rparr>\<rparr>"
  have "rc_normalize rcb x = Some ?x" using True x' by (simp add: rc_normalize_def kTopValue_def)
  moreover have "rc_val source ?x v n" using x'(2) by (simp add: rc_val_def rd_holds_def)
  moreover have "u32 (push_bit 8 (Range (rdec x'))) = Range (rdec x) * 256 ^ k"
    using True k x'(4) by (simp add: push_bit_eq_mult wrap_simps)
  ultimately show ?thesis using x'(3) by auto
next
  case False
  then show ?thesis using v k by (simp add: rc_normalize_def kTopValue_def)
qed

lemma ready_step:
  assumes x: "rc_ready source x (e # es)" and st: "ev_step (probs x) (Range (rdec x)) e = (d, r', ps')"
  shows "d \<le> Code (rdec x)" "Code (rdec x) < d + r'"
    "\<exists>x'. rc_normalize rcb (x\<lparr>rdec := (rdec x)\<lparr>Range := r', Code := Code (rdec x) - d\<rparr>, probs := ps'\<rparr>) = Some x'
      \<and> rc_ready source x' es"
proof -
  let ?r = "Range (rdec x)" and ?c = "Code (rdec x)"
  from x have r: "2 ^ 24 \<le> ?r" "?r < 2 ^ 32" and ok: "probs_ok (probs x)"
    and es: "ev_ok (length (probs x)) e" "list_all (ev_ok (length (probs x))) es"
    by (simp_all add: rc_ready_def)
  note p = ev_step_props [OF ok es(1) r st]
  define m where "m = (if r' < 2 ^ 24 then 1 else 0 :: nat)"
  have r'': "2 ^ 24 \<le> r' * 256 ^ m" "r' * 256 ^ m < 2 ^ 32" using p r by (auto simp: m_def)
  obtain v' k where e: "rc_encode ps' 0 (r' * 256 ^ m) 0 es = (v', k)" by (cases "rc_encode ps' 0 (r' * 256 ^ m) 0 es")
  have enc: "rc_encode (probs x) 0 ?r 0 (e # es) = (d * 256 ^ (k + m) + v', k + m)"
    using st e rc_encode_linear [of ps' "d * 256 ^ m" "r' * 256 ^ m" m es]
    by (auto simp: m_def power_add split: if_splits)
  have "v' < r' * 256 ^ m * 256 ^ k" using rc_encode_bound [OF p(1) r'' _ e] es(2) p(2) by simp
  then have v': "v' < r' * 256 ^ (k + m)" by (simp add: power_add ac_simps)
  from x enc have "rc_val source x (d * 256 ^ (k + m) + v') (k + m)" by (simp add: rc_ready_def)
  then obtain bs where bs: "rd_holds source x bs" "k + m \<le> length bs"
      "?c * 256 ^ (k + m) + be_val (take (k + m) bs) = d * 256 ^ (k + m) + v'"
    unfolding rc_val_def by blast
  have B: "be_val (take (k + m) bs) < 256 ^ (k + m)"
    using be_val_bound [of "take (k + m) bs"] bs(2) by simp
  have "?c * 256 ^ (k + m) < d * 256 ^ (k + m) + r' * 256 ^ (k + m)" using bs(3) v' by linarith
  then have "?c * 256 ^ (k + m) < (d + r') * 256 ^ (k + m)" by (simp add: algebra_simps)
  then show c2: "?c < d + r'" by simp
  have "d * 256 ^ (k + m) < ?c * 256 ^ (k + m) + 256 ^ (k + m)" using bs(3) B by linarith
  then have "d * 256 ^ (k + m) < (?c + 1) * 256 ^ (k + m)" by (simp add: algebra_simps)
  then have "d < ?c + 1" by (simp only: mult_less_cancel2)
  then show c1: "d \<le> ?c" by simp
  let ?x = "x\<lparr>rdec := (rdec x)\<lparr>Range := r', Code := ?c - d\<rparr>, probs := ps'\<rparr>"
  have "?c * 256 ^ (k + m) = (?c - d) * 256 ^ (k + m) + d * 256 ^ (k + m)"
    using c1 by (simp flip: add_mult_distrib)
  with bs(3) have "(?c - d) * 256 ^ (k + m) + be_val (take (k + m) bs) = v'" by linarith
  then have v: "rc_val source ?x v' (k + m)"
    using bs(1,2) unfolding rc_val_def by (intro exI [of _ bs]) (simp add: rd_holds_def)
  have "r' < 2 ^ 32" using p(4) r(2) by linarith
  with normalize_val [OF v] v' obtain x' where
    x': "rc_normalize rcb ?x = Some x'" "rc_val source x' v' k" "probs x' = ps'" "Range (rdec x') = r' * 256 ^ m"
    by (auto simp: m_def)
  then have "rc_ready source x' es"
    using r'' e p es by (simp add: rc_ready_def)
  with x'(1) show "\<exists>x'. rc_normalize rcb ?x = Some x' \<and> rc_ready source x' es" by blast
qed

text \<open>A bit comes out as it went in.\<close>

lemma BitDecode_ready:
  assumes x: "rc_ready source x (Ctx i b # es)"
  shows "\<exists>x'. RangeDecoderBitDecode rcb i x = Some (b, x') \<and> rc_ready source x' es"
proof -
  from x have i: "i < length (probs x)" "b < 2" and r: "2 ^ 24 \<le> Range (rdec x)" "Range (rdec x) < 2 ^ 32"
    and ok: "probs_ok (probs x)" and ev: "ev_ok (length (probs x)) (Ctx i b)"
    by (simp_all add: rc_ready_def)
  define p where "p = probs x ! i"
  define bound where "bound = Range (rdec x) div 2048 * p"
  have p: "31 \<le> p" "p \<le> 2017" using probs_ok_nth [OF ok i(1)] by (simp_all add: p_def)
  have "bound \<le> Range (rdec x) div 2048 * 2048" using p by (simp add: bound_def)
  also have "\<dots> \<le> Range (rdec x)" by simp
  finally have bd: "bound \<le> Range (rdec x)" .
  then have u: "u32 (Range (rdec x) div 2 ^ kNumBitModelTotalBits * p) = bound"
    "sub_u32 (Range (rdec x)) bound = Range (rdec x) - bound"
    using r(2) by (simp_all add: wrap_simps bound_def kNumBitModelTotalBits_def)
  show ?thesis
  proof (cases "b = 0")
    case True
    then have "ev_step (probs x) (Range (rdec x)) (Ctx i b) = (0, bound, (probs x)[i := prob_up p])"
      by (simp add: ev_step_def bound_def p_def)
    from ready_step [OF x this] True i u show ?thesis
      by (auto simp: RangeDecoderBitDecode_def p_def [symmetric] Let_def)
  next
    case False
    with i have b: "b = 1" by simp
    then have "ev_step (probs x) (Range (rdec x)) (Ctx i b) = (bound, Range (rdec x) - bound, (probs x)[i := prob_down p])"
      by (simp add: ev_step_def bound_def p_def Let_def)
    from ready_step [OF x this] b i u show ?thesis
      by (auto simp: RangeDecoderBitDecode_def p_def [symmetric] Let_def)
  qed
qed

lemma direct_bit_ready:
  assumes x: "rc_ready source x (Dir b # es)"
  shows "\<exists>x'. rc_direct_bit rcb x = Some (b, x') \<and> rc_ready source x' es"
proof -
  have b: "b = 0 \<or> b = 1" using x by (auto simp: rc_ready_def)
  have st: "ev_step (probs x) (Range (rdec x)) (Dir b) =
      (if b = 0 then 0 else Range (rdec x) div 2, Range (rdec x) div 2, probs x)"
    by (simp add: ev_step_def)
  have upd: "x\<lparr>rdec := r, probs := probs x\<rparr> = x\<lparr>rdec := r\<rparr>" for r by (cases x) simp
  show ?thesis
    using ready_step [OF x st] b by (auto simp: rc_direct_bit_def Let_def upd)
qed

text \<open>The five bytes at the start.\<close>

lemma init_loop_val:
  "rc_val source x v (n + j) \<Longrightarrow> v < 2 ^ 32 * 256 ^ n \<Longrightarrow> j \<le> 5 \<Longrightarrow>
   \<exists>x'. rc_init_loop rcb j x = Some x' \<and> rc_val source x' v n \<and> probs x' = probs x \<and> Range (rdec x') = Range (rdec x)"
proof (induction j arbitrary: x)
  case 0
  then show ?case by simp
next
  case (Suc j)
  have "Code (rdec x) * 256 ^ (n + Suc j) \<le> v" using Suc.prems(1) by (auto simp: rc_val_def)
  from le_less_trans [OF this Suc.prems(2)] have "(Code (rdec x) * 256 ^ Suc j) * 256 ^ n < 2 ^ 32 * 256 ^ n"
    by (simp only: power_add ac_simps)
  then have "Code (rdec x) * 256 ^ Suc j < 2 ^ 32" by (simp only: mult_less_cancel2)
  then have "Code (rdec x) * 256 ^ j < 2 ^ 24" by simp
  moreover have "Code (rdec x) * 1 \<le> Code (rdec x) * 256 ^ j" by (intro mult_le_mono) simp_all
  ultimately have "Code (rdec x) < 2 ^ 24" by linarith
  with shift_val [of x v "n + j"] Suc.prems(1) obtain x1 where
    x1: "shift_code rcb x = Some x1" "rc_val source x1 v (n + j)" "probs x1 = probs x" "Range (rdec x1) = Range (rdec x)"
    by auto
  from Suc.IH [OF x1(2) Suc.prems(2)] Suc.prems(3) obtain x' where
    "rc_init_loop rcb j x1 = Some x'" "rc_val source x' v n" "probs x' = probs x1" "Range (rdec x') = Range (rdec x1)"
    by auto
  with x1 show ?case by simp
qed

lemma RangeDecoderInit_ready:
  assumes src: "source (rc_stream ps es @ extra) s" and ps: "probs_ok ps" and es: "list_all (ev_ok (length ps)) es"
    and r: "read_cb_ret r = XZ_RET_OK"
  shows "\<exists>x. RangeDecoderInit rcb \<lparr>rdec = r, probs = [], cbst = s\<rparr> = Some x \<and> rc_ready source (x\<lparr>probs := ps\<rparr>) es"
proof -
  obtain v n where e: "rc_encode ps 0 0xFFFFFFFF 0 es = (v, n)" by (cases "rc_encode ps 0 0xFFFFFFFF 0 es")
  have "v < 0xFFFFFFFF * 256 ^ n" using rc_encode_bound [OF ps _ _ es e] by simp
  then have v: "v < 2 ^ 32 * 256 ^ n" by (rule less_le_trans) simp
  also have "\<dots> \<le> 256 ^ (n + 5)" by (simp add: power_add)
  finally have "v mod 256 ^ (n + 5) = v" by simp
  then have b: "be_val (take (n + 5) (be_bytes (5 + n) v @ extra)) = v"
    by (simp add: be_val_be_bytes add.commute)
  let ?x = "\<lparr>rdec = r\<lparr>Buffer := [], ExtraBytes := 0, Code := 0, Range := 0xFFFFFFFF\<rparr>, probs = [], cbst = s\<rparr>"
  have "rc_val source ?x v (n + 5)"
    unfolding rc_val_def
  proof (intro exI conjI)
    show "rd_holds source ?x (be_bytes (5 + n) v @ extra)"
      using src r by (simp add: rd_holds_def rc_stream_def e)
  qed (simp, simp only: b, simp)
  from init_loop_val [OF this v] obtain x where
    "RangeDecoderInit rcb \<lparr>rdec = r, probs = [], cbst = s\<rparr> = Some x" "rc_val source x v n" "Range (rdec x) = 0xFFFFFFFF"
    by (auto simp: RangeDecoderInit_def)
  moreover from this have "rc_ready source (x\<lparr>probs := ps\<rparr>) es"
    using e ps es by (simp add: rc_ready_def rc_val_def rd_holds_def)
  ultimately show ?thesis by blast
qed

end

section \<open>Groups of bits\<close>

fun tree_ev :: "nat \<Rightarrow> nat \<Rightarrow> nat \<Rightarrow> nat \<Rightarrow> rc_event list" where
  "tree_ev ps 0 mi v = []"
| "tree_ev ps (Suc n) mi v = Ctx (ps + mi) (v div 2 ^ n mod 2) # tree_ev ps n (mi + mi + v div 2 ^ n mod 2) v"

fun rev_ev :: "nat \<Rightarrow> nat \<Rightarrow> nat \<Rightarrow> nat \<Rightarrow> rc_event list" where
  "rev_ev ps 0 mi v = []"
| "rev_ev ps (Suc n) mi v = Ctx (ps + mi) (v mod 2) # rev_ev ps n (mi + mi + v mod 2) (v div 2)"

fun direct_ev :: "nat \<Rightarrow> nat \<Rightarrow> rc_event list" where
  "direct_ev 0 v = []"
| "direct_ev (Suc n) v = Dir (v div 2 ^ n mod 2) # direct_ev n v"

fun match_ev :: "nat \<Rightarrow> nat \<Rightarrow> byte \<Rightarrow> nat \<Rightarrow> nat \<Rightarrow> rc_event list" where
  "match_ev ps 0 mb mi v = []"
| "match_ev ps (Suc n) mb mi v =
     (let m = unat (drop_bit 7 mb AND 1); b = v div 2 ^ n mod 2
      in Ctx (ps + 256 * (1 + m) + mi) b
         # (if m \<noteq> b then tree_ev ps n (mi + mi + b) v else match_ev ps n (push_bit 1 mb) (mi + mi + b) v))"

definition len_ev :: "nat \<Rightarrow> nat \<Rightarrow> nat \<Rightarrow> rc_event list" where
  "len_ev p posState len =
     (if len < 8 then Ctx (p + LenChoice) 0 # tree_ev (p + LenLow + 8 * posState) 3 1 len
      else if len < 16 then Ctx (p + LenChoice) 1 # Ctx (p + LenChoice2) 0 # tree_ev (p + LenMid + 8 * posState) 3 1 (len - 8)
      else Ctx (p + LenChoice) 1 # Ctx (p + LenChoice2) 1 # tree_ev (p + LenHigh) 8 1 (len - 16))"

text \<open>The slot of a distance (less one): its two highest bits and the number of bits behind them.\<close>

fun ilog2 :: "nat \<Rightarrow> nat" where
  "ilog2 n = (if n < 2 then 0 else Suc (ilog2 (n div 2)))"

declare ilog2.simps [simp del]

definition dist_ev :: "nat \<Rightarrow> nat \<Rightarrow> rc_event list" where
  "dist_ev len d =
     (let group = PosSlot + 64 * min len 3
      in if d < 4 then tree_ev group 6 1 d
         else (let n = ilog2 d - 1; slot = 2 * n + d div 2 ^ n; rest = d mod 2 ^ n
           in tree_ev group 6 1 slot
              @ (if slot < 14 then rev_ev (SpecPos + d div 2 ^ n * 2 ^ n - slot - 1) n 1 rest
                 else direct_ev (n - 4) (rest div 16) @ rev_ev Align 4 1 (rest mod 16))))"

lemma ilog2_bounds: "0 < n \<Longrightarrow> 2 ^ ilog2 n \<le> n \<and> n < 2 ^ (ilog2 n + 1)"
proof (induction n rule: ilog2.induct)
  case (1 n)
  show ?case
  proof (cases "n < 2")
    case True
    with 1(2) show ?thesis by (simp add: ilog2.simps)
  next
    case False
    define p where "p = (2 :: nat) ^ ilog2 (n div 2)"
    have "p \<le> n div 2" "n div 2 < 2 * p" using False 1 by (simp_all add: p_def)
    then have "2 * p \<le> n" "n < 4 * p" by linarith+
    then show ?thesis using False by (simp add: ilog2.simps [of n] p_def)
  qed
qed

text \<open>The two highest bits of a distance.\<close>

lemma slot_bounds:
  assumes d: "4 \<le> d" "d < 2 ^ 32"
  defines "n \<equiv> ilog2 d - 1"
  shows "1 \<le> n" "n \<le> 30" "d div 2 ^ n = 2 \<or> d div 2 ^ n = 3"
proof -
  have lg: "2 ^ ilog2 d \<le> d" "d < 2 ^ (ilog2 d + 1)" using ilog2_bounds [of d] d by simp_all
  have "(2 :: nat) ^ 2 < 2 ^ (ilog2 d + 1)" using lg(2) d(1) by simp
  then have l2: "2 \<le> ilog2 d" by (simp only: power_strict_increasing_iff)
  then show "1 \<le> n" by (simp add: n_def)
  have "(2 :: nat) ^ ilog2 d < 2 ^ 32" using lg(1) d(2) by (rule le_less_trans)
  then show "n \<le> 30" by (simp only: n_def power_strict_increasing_iff)
  have "ilog2 d = n + 1" using l2 by (simp add: n_def)
  with lg have "2 * 2 ^ n \<le> d" "d < 4 * 2 ^ n" by simp_all
  then have "2 \<le> d div 2 ^ n" "d div 2 ^ n < 4" by (simp_all add: less_eq_div_iff_mult_less_eq div_less_iff_less_mult)
  then show "d div 2 ^ n = 2 \<or> d div 2 ^ n = 3" by linarith
qed

context byte_source begin

lemma bit_tree_ready:
  "rc_ready source x (tree_ev ps n mi v @ es) \<Longrightarrow>
   \<exists>x'. bit_tree_loop rcb ps n mi x = Some (mi * 2 ^ n + v mod 2 ^ n, x') \<and> rc_ready source x' es"
proof (induction n arbitrary: mi x)
  case 0
  then show ?case by simp
next
  case (Suc n)
  let ?b = "v div 2 ^ n mod 2"
  from Suc.prems have "rc_ready source x (Ctx (ps + mi) ?b # tree_ev ps n (mi + mi + ?b) v @ es)" by simp
  from BitDecode_ready [OF this] obtain x1 where
    x1: "RangeDecoderBitDecode rcb (ps + mi) x = Some (?b, x1)" "rc_ready source x1 (tree_ev ps n (mi + mi + ?b) v @ es)"
    by blast
  have "(mi + mi + ?b) * 2 ^ n + v mod 2 ^ n = mi * 2 ^ Suc n + v mod 2 ^ Suc n"
    using mod_mult2_eq [of v "2 ^ n" 2] by (simp add: algebra_simps)
  with Suc.IH [OF x1(2)] x1(1) show ?case by simp
qed

lemma BitTree_ready:
  assumes "rc_ready source x (tree_ev ps n 1 v @ es)" and "v < 2 ^ n"
  shows "\<exists>x'. RangeDecoderBitTreeDecode rcb ps n x = Some (v, x') \<and> rc_ready source x' es"
  using bit_tree_ready [OF assms(1)] assms(2) by (auto simp: RangeDecoderBitTreeDecode_def)

lemma rev_tree_ready:
  "rc_ready source x (rev_ev ps n mi v @ es) \<Longrightarrow> w < 2 ^ i \<Longrightarrow>
   \<exists>x'. rev_tree_loop rcb ps n i mi w x = Some (w + 2 ^ i * (v mod 2 ^ n), x') \<and> rc_ready source x' es"
proof (induction n arbitrary: mi x v w i)
  case 0
  then show ?case by simp
next
  case (Suc n)
  from Suc.prems have "rc_ready source x (Ctx (ps + mi) (v mod 2) # rev_ev ps n (mi + mi + v mod 2) (v div 2) @ es)"
    by simp
  from BitDecode_ready [OF this] obtain x1 where
    x1: "RangeDecoderBitDecode rcb (ps + mi) x = Some (v mod 2, x1)"
      "rc_ready source x1 (rev_ev ps n (mi + mi + v mod 2) (v div 2) @ es)"
    by blast
  have or: "w OR push_bit i (v mod 2) = w + 2 ^ i * (v mod 2)"
    using or_disjoint [OF Suc.prems(2), of "v mod 2"] by (simp add: or.commute)
  have "v mod 2 = 0 \<or> v mod 2 = 1" by auto
  then have lt: "w + 2 ^ i * (v mod 2) < 2 ^ (i + 1)" using Suc.prems(2) by auto
  have "w + 2 ^ i * (v mod 2) + 2 ^ (i + 1) * (v div 2 mod 2 ^ n) = w + 2 ^ i * (v mod 2 ^ Suc n)"
    by (simp add: mod_mult2_eq algebra_simps)
  note Suc.IH [OF x1(2) lt, unfolded this]
  with x1(1) or show ?case by simp
qed

lemma ReverseBitTree_ready:
  assumes "rc_ready source x (rev_ev ps n 1 v @ es)" and "v < 2 ^ n"
  shows "\<exists>x'. RangeDecoderReverseBitTreeDecode rcb ps n x = Some (v, x') \<and> rc_ready source x' es"
  using rev_tree_ready [OF assms(1), of 0 0] assms(2) by (auto simp: RangeDecoderReverseBitTreeDecode_def)

lemma direct_loop_ready:
  "rc_ready source x (direct_ev n v @ es) \<Longrightarrow> (r + 1) * 2 ^ n \<le> 2 ^ 32 \<Longrightarrow>
   \<exists>x'. rc_direct_loop rcb n r x = Some (r * 2 ^ n + v mod 2 ^ n, x') \<and> rc_ready source x' es"
proof (induction n arbitrary: r x)
  case 0
  then show ?case by simp
next
  case (Suc n)
  let ?b = "v div 2 ^ n mod 2"
  from Suc.prems have "rc_ready source x (Dir ?b # direct_ev n v @ es)" by simp
  from direct_bit_ready [OF this] obtain x1 where
    x1: "rc_direct_bit rcb x = Some (?b, x1)" "rc_ready source x1 (direct_ev n v @ es)"
    by blast
  have b: "?b < 2 ^ 1" by simp
  have "(r + 1) * 2 * 1 \<le> (r + 1) * 2 * 2 ^ n" by (intro mult_le_mono) simp_all
  then have "r * 2 < 2 ^ 32" using Suc.prems(2) by (simp add: algebra_simps)
  then have or: "u32 (push_bit 1 r) OR ?b = r * 2 + ?b"
    using or_disjoint [OF b, of r] by (simp add: push_bit_eq_mult wrap_simps)
  have "?b = 0 \<or> ?b = 1" by auto
  then have "r * 2 + ?b + 1 \<le> (r + 1) * 2" by (elim disjE) simp_all
  then have "(r * 2 + ?b + 1) * 2 ^ n \<le> ((r + 1) * 2) * 2 ^ n" by (intro mult_le_mono) simp_all
  also have "\<dots> = (r + 1) * 2 ^ Suc n" by simp
  also note Suc.prems(2)
  finally have le: "(r * 2 + ?b + 1) * 2 ^ n \<le> 2 ^ 32" .
  have "(r * 2 + ?b) * 2 ^ n + v mod 2 ^ n = r * 2 ^ Suc n + v mod 2 ^ Suc n"
    using mod_mult2_eq [of v "2 ^ n" 2] by (simp add: algebra_simps)
  with Suc.IH [OF x1(2) le] x1(1) or show ?case by simp
qed

lemma DirectBits_ready:
  assumes "rc_ready source x (direct_ev n v @ es)" and "v < 2 ^ n" and "n \<le> 32"
  shows "\<exists>x'. RangeDecoderDecodeDirectBits rcb n x = Some (v, x') \<and> rc_ready source x' es"
proof -
  have "(2 :: nat) ^ n \<le> 2 ^ 32" using assms(3) by (rule power_increasing) simp
  then have "(0 + 1) * 2 ^ n \<le> (2 ^ 32 :: nat)" by simp
  from direct_loop_ready [OF assms(1) this] assms(2) show ?thesis by (simp add: RangeDecoderDecodeDirectBits_def)
qed

lemma literal_loop_ready:
  "rc_ready source x (tree_ev ps n mi v @ es) \<Longrightarrow> k + n = 8 \<Longrightarrow> 2 ^ k \<le> mi \<Longrightarrow> mi < 2 ^ (k + 1) \<Longrightarrow>
   \<exists>x'. literal_loop n rcb ps mi x = Some (mi * 2 ^ n + v mod 2 ^ n, x') \<and> rc_ready source x' es"
proof (induction n arbitrary: mi x k)
  case 0
  then show ?case by (simp add: literal_loop.simps)
next
  case (Suc n)
  let ?b = "v div 2 ^ n mod 2"
  from Suc.prems(1) have "rc_ready source x (Ctx (ps + mi) ?b # tree_ev ps n (mi + mi + ?b) v @ es)" by simp
  from BitDecode_ready [OF this] obtain x1 where
    x1: "RangeDecoderBitDecode rcb (ps + mi) x = Some (?b, x1)" "rc_ready source x1 (tree_ev ps n (mi + mi + ?b) v @ es)"
    by blast
  have "?b < 2" by simp
  note st = symbol_step [OF Suc.prems(2-4) this]
  have "(mi + mi + ?b) * 2 ^ n + v mod 2 ^ n = mi * 2 ^ Suc n + v mod 2 ^ Suc n"
    using mod_mult2_eq [of v "2 ^ n" 2] by (simp add: algebra_simps)
  note Suc.IH [OF x1(2) st(4-6), unfolded this]
  with x1(1) st(1,2) show ?case by (subst literal_loop.simps) simp
qed

lemma literal_match_loop_ready:
  "rc_ready source x (match_ev ps n mb mi v @ es) \<Longrightarrow> k + n = 8 \<Longrightarrow> 2 ^ k \<le> mi \<Longrightarrow> mi < 2 ^ (k + 1) \<Longrightarrow>
   \<exists>x'. literal_match_loop n rcb ps mb mi x = Some (mi * 2 ^ n + v mod 2 ^ n, x') \<and> rc_ready source x' es"
proof (induction n arbitrary: mi x k mb)
  case 0
  then show ?case by (simp add: literal_match_loop.simps)
next
  case (Suc n)
  let ?b = "v div 2 ^ n mod 2" and ?m = "unat (drop_bit 7 mb AND 1)"
  let ?rest = "if ?m \<noteq> ?b then tree_ev ps n (mi + mi + ?b) v else match_ev ps n (push_bit 1 mb) (mi + mi + ?b) v"
  from Suc.prems(1) have "rc_ready source x (Ctx (ps + push_bit 8 (1 + ?m) + mi) ?b # ?rest @ es)"
    by (simp add: Let_def push_bit_eq_mult algebra_simps)
  from BitDecode_ready [OF this] obtain x1 where
    x1: "RangeDecoderBitDecode rcb (ps + push_bit 8 (1 + ?m) + mi) x = Some (?b, x1)" "rc_ready source x1 (?rest @ es)"
    by blast
  have "?b < 2" by simp
  note st = symbol_step [OF Suc.prems(2-4) this]
  have eq: "(mi + mi + ?b) * 2 ^ n + v mod 2 ^ n = mi * 2 ^ Suc n + v mod 2 ^ Suc n"
    using mod_mult2_eq [of v "2 ^ n" 2] by (simp add: algebra_simps)
  show ?case
  proof (cases "?m = ?b")
    case True
    with x1(2) have "rc_ready source x1 (match_ev ps n (push_bit 1 mb) (mi + mi + ?b) v @ es)" by simp
    note Suc.IH [OF this st(4-6), unfolded eq]
    with x1(1) st(1,3) True show ?thesis by (subst literal_match_loop.simps) (simp add: Let_def)
  next
    case False
    with x1(2) have "rc_ready source x1 (tree_ev ps n (mi + mi + ?b) v @ es)" by simp
    note literal_loop_ready [OF this st(4-6), unfolded eq]
    with x1(1) st(1,3) False show ?thesis by (subst literal_match_loop.simps) (simp add: Let_def)
  qed
qed

lemma byte_of_symbol: "(of_nat (256 + unat b) :: byte) = b"
  using byte_of_unat_add [of b 1] by (simp add: add.commute)

lemma literal_ready:
  assumes "rc_ready source x (tree_ev ps 8 1 (unat b) @ es)"
  shows "\<exists>x'. xz_literal_decode rcb ps x = Some (b, x') \<and> rc_ready source x' es"
  using literal_loop_ready [OF assms, of 0] byte_of_symbol [of b] unat_byte_less [of b]
  by (auto simp: xz_literal_decode_def)

lemma literal_match_ready:
  assumes "rc_ready source x (match_ev ps 8 mb 1 (unat b) @ es)"
  shows "\<exists>x'. xz_literal_decode_match rcb ps mb x = Some (b, x') \<and> rc_ready source x' es"
  using literal_match_loop_ready [OF assms, of 0] byte_of_symbol [of b] unat_byte_less [of b]
  by (auto simp: xz_literal_decode_match_def)

lemma len_ready:
  assumes x: "rc_ready source x (len_ev p posState len @ es)" and len: "len < 272"
  shows "\<exists>x'. xz_len_decode rcb p posState x = Some (len, x') \<and> rc_ready source x' es"
proof -
  consider "len < 8" | "8 \<le> len" "len < 16" | "16 \<le> len" by linarith
  then show ?thesis
  proof cases
    case 1
    with x have "rc_ready source x (Ctx (p + LenChoice) 0 # tree_ev (p + LenLow + 8 * posState) 3 1 len @ es)"
      by (simp add: len_ev_def)
    from BitDecode_ready [OF this] obtain x1 where x1: "RangeDecoderBitDecode rcb (p + LenChoice) x = Some (0, x1)"
        "rc_ready source x1 (tree_ev (p + LenLow + 8 * posState) 3 1 len @ es)" by blast
    from BitTree_ready [OF x1(2)] 1 x1(1) show ?thesis
      by (simp add: xz_len_decode_def push_bit_eq_mult mult.commute)
  next
    case 2
    with x have "rc_ready source x (Ctx (p + LenChoice) 1 # Ctx (p + LenChoice2) 0
        # tree_ev (p + LenMid + 8 * posState) 3 1 (len - 8) @ es)"
      by (simp add: len_ev_def)
    from BitDecode_ready [OF this] obtain x1 where x1: "RangeDecoderBitDecode rcb (p + LenChoice) x = Some (1, x1)"
        "rc_ready source x1 (Ctx (p + LenChoice2) 0 # tree_ev (p + LenMid + 8 * posState) 3 1 (len - 8) @ es)" by blast
    from BitDecode_ready [OF x1(2)] obtain x2 where x2: "RangeDecoderBitDecode rcb (p + LenChoice2) x1 = Some (0, x2)"
        "rc_ready source x2 (tree_ev (p + LenMid + 8 * posState) 3 1 (len - 8) @ es)" by blast
    have "len - 8 < 2 ^ 3" using 2 by simp
    from BitTree_ready [OF x2(2) this] 2 x1(1) x2(1) show ?thesis
      by (auto simp: xz_len_decode_def push_bit_eq_mult mult.commute)
  next
    case 3
    with x have "rc_ready source x (Ctx (p + LenChoice) 1 # Ctx (p + LenChoice2) 1
        # tree_ev (p + LenHigh) 8 1 (len - 16) @ es)"
      by (simp add: len_ev_def)
    from BitDecode_ready [OF this] obtain x1 where x1: "RangeDecoderBitDecode rcb (p + LenChoice) x = Some (1, x1)"
        "rc_ready source x1 (Ctx (p + LenChoice2) 1 # tree_ev (p + LenHigh) 8 1 (len - 16) @ es)" by blast
    from BitDecode_ready [OF x1(2)] obtain x2 where x2: "RangeDecoderBitDecode rcb (p + LenChoice2) x1 = Some (1, x2)"
        "rc_ready source x2 (tree_ev (p + LenHigh) 8 1 (len - 16) @ es)" by blast
    have "len - 16 < 2 ^ 8" using 3 len by simp
    from BitTree_ready [OF x2(2) this] 3 x1(1) x2(1) show ?thesis
      by (auto simp: xz_len_decode_def)
  qed
qed

text \<open>Distances.\<close>

lemma dist_ready:
  assumes x: "rc_ready source x (dist_ev len d @ es)" and d: "d + 1 < 2 ^ 32"
  shows "\<exists>x'. xz_distance rcb len x = Some (d + 1, x') \<and> rc_ready source x' es"
proof -
  have group: "PosSlot + push_bit kNumPosSlotBits (if len < kNumLenToPosStates then len else kNumLenToPosStates - 1)
      = PosSlot + 64 * min len 3"
    by (simp add: kNumPosSlotBits_def kNumLenToPosStates_def push_bit_eq_mult min_def)
  have add1: "add_u32 d 1 = d + 1" using d by (simp add: wrap_simps)
  show ?thesis
  proof (cases "d < 4")
    case True
    with x have "rc_ready source x (tree_ev (PosSlot + 64 * min len 3) 6 1 d @ es)" by (simp add: dist_ev_def)
    from BitTree_ready [OF this] True add1 show ?thesis
      unfolding xz_distance_def group by (auto simp: kNumPosSlotBits_def kStartPosModelIndex_def)
  next
    case False
    define n where "n = ilog2 d - 1"
    define h where "h = d div 2 ^ n"
    define slot where "slot = 2 * n + h"
    define rest where "rest = d mod 2 ^ n"
    have sb: "1 \<le> n" "n \<le> 30" "h = 2 \<or> h = 3" using slot_bounds [of d] False d by (simp_all add: n_def h_def)
    have dr: "h * 2 ^ n + rest = d" by (simp only: h_def rest_def div_mult_mod_eq)
    have slot: "slot < 2 ^ 6" "4 \<le> slot" "slot div 2 - 1 = n" "2 OR (slot AND 1) = h"
      using sb by (auto simp: slot_def and_one_eq)
    define gr where "gr = PosSlot + 64 * min len 3"
    define rest_ev where "rest_ev = (if slot < 14 then rev_ev (SpecPos + h * 2 ^ n - slot - 1) n 1 rest
       else direct_ev (n - 4) (rest div 16) @ rev_ev Align 4 1 (rest mod 16))"
    have "dist_ev len d = tree_ev gr 6 1 slot @ rest_ev"
      unfolding dist_ev_def Let_def gr_def rest_ev_def slot_def rest_def h_def n_def by (simp only: False if_False)
    with x have "rc_ready source x (tree_ev gr 6 1 slot @ rest_ev @ es)" by simp
    from BitTree_ready [OF this slot(1)] obtain x1 where
      x1: "RangeDecoderBitTreeDecode rcb gr 6 x = Some (slot, x1)" "rc_ready source x1 (rest_ev @ es)" by blast
    have rest: "rest < 2 ^ n" by (simp add: rest_def)
    show ?thesis
    proof (cases "slot < 14")
      case True
      with x1(2) have "rc_ready source x1 (rev_ev (SpecPos + h * 2 ^ n - slot - 1) n 1 rest @ es)" by (simp add: rest_ev_def)
      from ReverseBitTree_ready [OF this rest] True slot x1(1) dr d add1 show ?thesis
        unfolding xz_distance_def group gr_def [symmetric]
        by (auto simp: kNumPosSlotBits_def kStartPosModelIndex_def
            kEndPosModelIndex_def push_bit_eq_mult Let_def wrap_simps)
    next
      case False
      then have n: "6 \<le> n" using sb by (auto simp: slot_def)
      from False x1(2) have "rc_ready source x1 (direct_ev (n - 4) (rest div 16) @ rev_ev Align 4 1 (rest mod 16) @ es)"
        by (simp add: rest_ev_def)
      moreover have "rest div 16 < 2 ^ (n - 4)"
      proof -
        have "(2 :: nat) ^ (n - 4 + 4) = 2 ^ (n - 4) * 2 ^ 4" by (rule power_add)
        then have "(2 :: nat) ^ n = 2 ^ (n - 4) * 2 ^ 4" using n by simp
        with rest show ?thesis by (simp add: div_less_iff_less_mult)
      qed
      moreover have "n - 4 \<le> 32" using sb(2) by simp
      ultimately obtain x2 where x2: "RangeDecoderDecodeDirectBits rcb (n - 4) x1 = Some (rest div 16, x2)"
          "rc_ready source x2 (rev_ev Align 4 1 (rest mod 16) @ es)"
        using DirectBits_ready [of x1 "n - 4" "rest div 16" "rev_ev Align 4 1 (rest mod 16) @ es"] by blast
      from ReverseBitTree_ready [OF x2(2)] obtain x3 where
        x3: "RangeDecoderReverseBitTreeDecode rcb Align 4 x2 = Some (rest mod 16, x3)" "rc_ready source x3 es" by auto
      have "rest div 16 * 16 + rest mod 16 = rest" by simp
      then have sum: "add_u32 (add_u32 (h * 2 ^ n) (u32 (rest div 16 * 16))) (rest mod 16) = d"
        using dr d by (simp add: wrap_simps)
      show ?thesis
        using False slot x1(1) x2(1) x3 sum add1
        unfolding xz_distance_def group gr_def [symmetric]
        by (simp add: kNumPosSlotBits_def kStartPosModelIndex_def
            kEndPosModelIndex_def kNumAlignBits_def push_bit_eq_mult Let_def)
    qed
  qed
qed

end

end
