(* ===== verification/Xz_Lz.thy ===== *)
theory Xz_Lz
  imports Xz_Coding
begin

text \<open>
  The format above the range coder: symbols (a literal byte, or a copy of earlier output), their
  events, and what they expand to.  \<open>lz\<close> is the state that an encoder and a decoder share: the
  output so far, the last four distances and the state that selects the contexts.
\<close>

section \<open>Specification\<close>

datatype lz_sym = Lit byte | Short_rep | Rep nat nat | Match nat nat

record lz =
  lz_out :: "byte list"
  lz_st :: nat
  lz_r0 :: nat
  lz_r1 :: nat
  lz_r2 :: nat
  lz_r3 :: nat

definition lz_init :: lz where
  "lz_init = \<lparr>lz_out = [], lz_st = 0, lz_r0 = 1, lz_r1 = 1, lz_r2 = 1, lz_r3 = 1\<rparr>"

text \<open>\<open>n\<close> bytes from \<open>d\<close> places back, one after the other.\<close>

fun lz_copy :: "nat \<Rightarrow> nat \<Rightarrow> byte list \<Rightarrow> byte list" where
  "lz_copy d 0 h = h"
| "lz_copy d (Suc n) h = lz_copy d n (h @ [h ! (length h - d)])"

definition st_lit :: "nat \<Rightarrow> nat" where
  "st_lit st = (if st < 4 then 0 else if st < 10 then st - 3 else st - 6)"

definition lz_rep :: "nat \<Rightarrow> lz \<Rightarrow> lz" where
  "lz_rep i z = (if i = 0 then z
     else if i = 1 then z\<lparr>lz_r0 := lz_r1 z, lz_r1 := lz_r0 z\<rparr>
     else if i = 2 then z\<lparr>lz_r0 := lz_r2 z, lz_r1 := lz_r0 z, lz_r2 := lz_r1 z\<rparr>
     else z\<lparr>lz_r0 := lz_r3 z, lz_r1 := lz_r0 z, lz_r2 := lz_r1 z, lz_r3 := lz_r2 z\<rparr>)"

fun lz_step :: "lz \<Rightarrow> lz_sym \<Rightarrow> lz" where
  "lz_step z (Lit b) = z\<lparr>lz_out := lz_out z @ [b], lz_st := st_lit (lz_st z)\<rparr>"
| "lz_step z Short_rep = z\<lparr>lz_out := lz_copy (lz_r0 z) 1 (lz_out z), lz_st := (if lz_st z < 7 then 9 else 11)\<rparr>"
| "lz_step z (Rep i n) = (let z = lz_rep i z in
     z\<lparr>lz_out := lz_copy (lz_r0 z) n (lz_out z), lz_st := (if lz_st z < 7 then 8 else 11)\<rparr>)"
| "lz_step z (Match d n) = z\<lparr>lz_out := lz_copy d n (lz_out z), lz_st := (if lz_st z < 7 then 7 else 10),
     lz_r0 := d, lz_r1 := lz_r0 z, lz_r2 := lz_r1 z, lz_r3 := lz_r2 z\<rparr>"

definition lz_dist_ok :: "nat \<Rightarrow> lz \<Rightarrow> nat \<Rightarrow> bool" where
  "lz_dist_ok dsz z d \<longleftrightarrow> 1 \<le> d \<and> d \<le> length (lz_out z) \<and> d \<le> dsz"

fun lz_sym_ok :: "nat \<Rightarrow> lz \<Rightarrow> lz_sym \<Rightarrow> bool" where
  "lz_sym_ok dsz z (Lit b) \<longleftrightarrow> True"
| "lz_sym_ok dsz z Short_rep \<longleftrightarrow> lz_dist_ok dsz z (lz_r0 z)"
| "lz_sym_ok dsz z (Rep i n) \<longleftrightarrow> i < 4 \<and> 2 \<le> n \<and> n \<le> 273 \<and> lz_dist_ok dsz z (lz_r0 (lz_rep i z))"
| "lz_sym_ok dsz z (Match d n) \<longleftrightarrow> 2 \<le> n \<and> n \<le> 273 \<and> lz_dist_ok dsz z d"

fun lz_syms_ok :: "nat \<Rightarrow> lz \<Rightarrow> lz_sym list \<Rightarrow> bool" where
  "lz_syms_ok dsz z [] \<longleftrightarrow> True"
| "lz_syms_ok dsz z (s # ss) \<longleftrightarrow> lz_sym_ok dsz z s \<and> lz_syms_ok dsz (lz_step z s) ss"

text \<open>The events of a symbol, with the parameters \<open>lc\<close>, \<open>lp\<close> and \<open>pb\<close> of the stream.\<close>

definition lit_base :: "nat \<Rightarrow> nat \<Rightarrow> lz \<Rightarrow> nat" where
  "lit_base lc lp z = (let prev = (if lz_out z = [] then 0 else last (lz_out z))
     in Literal + 768 * (length (lz_out z) mod 2 ^ lp * 2 ^ lc + unat prev div 2 ^ (8 - lc)))"

fun rep_ev :: "nat \<Rightarrow> nat \<Rightarrow> nat \<Rightarrow> rc_event list" where
  "rep_ev st ps i =
     (if i = 0 then [Ctx (IsRepG0 + st) 0, Ctx (IsRep0Long + st * 16 + ps) 1]
      else if i = 1 then [Ctx (IsRepG0 + st) 1, Ctx (IsRepG1 + st) 0]
      else [Ctx (IsRepG0 + st) 1, Ctx (IsRepG1 + st) 1, Ctx (IsRepG2 + st) (if i = 2 then 0 else 1)])"

declare rep_ev.simps [simp del]

fun sym_ev :: "nat \<Rightarrow> nat \<Rightarrow> nat \<Rightarrow> lz \<Rightarrow> lz_sym \<Rightarrow> rc_event list" where
  "sym_ev lc lp pb z (Lit b) = Ctx (IsMatch + lz_st z * 16 + length (lz_out z) mod 2 ^ pb) 0
     # (if lz_st z < 7 then tree_ev (lit_base lc lp z) 8 1 (unat b)
        else match_ev (lit_base lc lp z) 8 (lz_out z ! (length (lz_out z) - lz_r0 z)) 1 (unat b))"
| "sym_ev lc lp pb z Short_rep = [Ctx (IsMatch + lz_st z * 16 + length (lz_out z) mod 2 ^ pb) 1, Ctx (IsRep + lz_st z) 1,
     Ctx (IsRepG0 + lz_st z) 0, Ctx (IsRep0Long + lz_st z * 16 + length (lz_out z) mod 2 ^ pb) 0]"
| "sym_ev lc lp pb z (Rep i n) = Ctx (IsMatch + lz_st z * 16 + length (lz_out z) mod 2 ^ pb) 1 # Ctx (IsRep + lz_st z) 1
     # rep_ev (lz_st z) (length (lz_out z) mod 2 ^ pb) i @ len_ev RepLenCoder (length (lz_out z) mod 2 ^ pb) (n - 2)"
| "sym_ev lc lp pb z (Match d n) = Ctx (IsMatch + lz_st z * 16 + length (lz_out z) mod 2 ^ pb) 1 # Ctx (IsRep + lz_st z) 0
     # len_ev LenCoder (length (lz_out z) mod 2 ^ pb) (n - 2) @ dist_ev (n - 2) (d - 1)"

fun syms_ev :: "nat \<Rightarrow> nat \<Rightarrow> nat \<Rightarrow> lz \<Rightarrow> lz_sym list \<Rightarrow> rc_event list" where
  "syms_ev lc lp pb z [] = []"
| "syms_ev lc lp pb z (s # ss) = sym_ev lc lp pb z s @ syms_ev lc lp pb (lz_step z s) ss"

definition lz_expand :: "lz_sym list \<Rightarrow> byte list" where
  "lz_expand ss = lz_out (foldl lz_step lz_init ss)"

text \<open>The compressed file: a header of 13 bytes and the stream.\<close>

definition lz_header :: "nat \<Rightarrow> nat \<Rightarrow> nat \<Rightarrow> nat \<Rightarrow> nat \<Rightarrow> byte list" where
  "lz_header lc lp pb dsz n = of_nat ((pb * 5 + lp) * 9 + lc) # le_bytes 4 dsz @ le_bytes 4 n @ [0, 0, 0, 0]"

definition lz_encode :: "nat \<Rightarrow> nat \<Rightarrow> nat \<Rightarrow> lz_sym list \<Rightarrow> byte list" where
  "lz_encode lc lp pb ss = rc_stream (replicate (Literal + XZ_LIT_SIZE * 2 ^ (lc + lp)) (kBitModelTotal div 2))
     (syms_ev lc lp pb lz_init ss)"

section \<open>Lemmas on the specification\<close>

lemma lz_copy_append: "\<exists>ys. lz_copy d n h = h @ ys \<and> length ys = n"
proof (induction n arbitrary: h)
  case 0
  then show ?case by simp
next
  case (Suc n)
  from Suc [of "h @ [h ! (length h - d)]"] obtain ys where
    "lz_copy d n (h @ [h ! (length h - d)]) = (h @ [h ! (length h - d)]) @ ys" "length ys = n" by blast
  then show ?case by (intro exI [of _ "h ! (length h - d) # ys"]) simp
qed

lemma length_lz_copy [simp]: "length (lz_copy d n h) = length h + n"
  using lz_copy_append [of d n h] by auto

lemma lz_copy_add: "lz_copy d (m + n) h = lz_copy d n (lz_copy d m h)"
  by (induction m arbitrary: h) simp_all

lemma lz_rep_out [simp]: "lz_out (lz_rep i z) = lz_out z" "lz_st (lz_rep i z) = lz_st z"
  by (simp_all add: lz_rep_def)

text \<open>The state is below 12, and from 7 on the last symbol was a copy from a valid distance.\<close>

definition lz_wf :: "nat \<Rightarrow> lz \<Rightarrow> bool" where
  "lz_wf dsz z \<longleftrightarrow> lz_st z < 12 \<and> (7 \<le> lz_st z \<longrightarrow> lz_dist_ok dsz z (lz_r0 z))"

lemma lz_wf_init [simp]: "lz_wf dsz lz_init"
  by (simp add: lz_wf_def lz_init_def)

lemma lz_wf_step: "lz_wf dsz z \<Longrightarrow> lz_sym_ok dsz z s \<Longrightarrow> lz_wf dsz (lz_step z s)"
  by (cases s) (auto simp: lz_wf_def lz_dist_ok_def st_lit_def Let_def)

lemma lz_step_out: "\<exists>ys. lz_out (lz_step z s) = lz_out z @ ys"
proof (cases s)
  case (Rep i n)
  then show ?thesis using lz_copy_append [of "lz_r0 (lz_rep i z)" n "lz_out z"] by (auto simp: Let_def)
next
  case (Match d n)
  then show ?thesis using lz_copy_append [of d n "lz_out z"] by auto
qed simp_all

lemma lz_run_out: "\<exists>ys. lz_out (foldl lz_step z ss) = lz_out z @ ys"
proof (induction ss arbitrary: z)
  case Nil
  then show ?case by simp
next
  case (Cons s ss)
  from lz_step_out [of z s] Cons [of "lz_step z s"] show ?case by auto
qed

section \<open>All contexts exist\<close>

lemmas context_defs = IsMatch_def IsRep_def IsRepG0_def IsRepG1_def IsRepG2_def IsRep0Long_def PosSlot_def SpecPos_def
  Align_def LenCoder_def RepLenCoder_def Literal_def kNumStates_def kNumPosBitsMax_def kNumLenToPosStates_def
  kNumPosSlotBits_def kNumFullDistances_def kEndPosModelIndex_def kNumAlignBits_def kNumLenProbs_def
  LenHigh_def LenMid_def LenLow_def LenChoice2_def LenChoice_def

lemma Literal_eq: "Literal = XZ_BASE_SIZE"
  by (simp add: context_defs XZ_BASE_SIZE_def)

lemma double_bound: "b \<le> 1 \<Longrightarrow> (mi + mi + b + 1) * 2 ^ n \<le> (mi + 1) * 2 ^ Suc n" for b :: nat
proof -
  assume "b \<le> 1"
  then have "mi + mi + b + 1 \<le> (mi + 1) * 2" by simp
  then have "(mi + mi + b + 1) * 2 ^ n \<le> ((mi + 1) * 2) * 2 ^ n" by (rule mult_le_mono1)
  then show ?thesis by (simp only: power_Suc mult.assoc)
qed

lemma base_bound: "ps + (mi + 1) * 2 ^ k \<le> N \<Longrightarrow> ps + mi < N" for N :: nat
proof -
  assume a: "ps + (mi + 1) * 2 ^ k \<le> N"
  define X where "X = (mi + 1) * 2 ^ k"
  have "(mi + 1) * 1 \<le> X" unfolding X_def by (intro mult_le_mono) simp_all
  then have "mi < X" by simp
  with a show ?thesis unfolding X_def [symmetric] by simp
qed

lemma tree_ev_ok: "ps + (mi + 1) * 2 ^ n \<le> N \<Longrightarrow> list_all (ev_ok N) (tree_ev ps n mi v)"
proof (induction n arbitrary: mi)
  case 0
  then show ?case by simp
next
  case (Suc n)
  have "v div 2 ^ n mod 2 \<le> 1" by simp
  from double_bound [OF this] have "(mi + mi + v div 2 ^ n mod 2 + 1) * 2 ^ n \<le> (mi + 1) * 2 ^ Suc n" .
  with Suc.prems have 1: "ps + (mi + mi + v div 2 ^ n mod 2 + 1) * 2 ^ n \<le> N" by linarith
  from base_bound [OF Suc.prems] Suc.IH [OF 1] show ?case by simp
qed

lemma rev_ev_ok: "ps + (mi + 1) * 2 ^ n \<le> N \<Longrightarrow> list_all (ev_ok N) (rev_ev ps n mi v)"
proof (induction n arbitrary: mi v)
  case 0
  then show ?case by simp
next
  case (Suc n)
  have "v mod 2 \<le> 1" by simp
  from double_bound [OF this] have "(mi + mi + v mod 2 + 1) * 2 ^ n \<le> (mi + 1) * 2 ^ Suc n" .
  with Suc.prems have 1: "ps + (mi + mi + v mod 2 + 1) * 2 ^ n \<le> N" by linarith
  from base_bound [OF Suc.prems] Suc.IH [OF 1] show ?case by simp
qed

lemma direct_ev_ok: "list_all (ev_ok N) (direct_ev n v)"
  by (induction n) simp_all

lemma match_ev_ok:
  "ps + 512 + (mi + 1) * 2 ^ n \<le> N \<Longrightarrow> (mi + 1) * 2 ^ n \<le> 512 \<Longrightarrow> list_all (ev_ok N) (match_ev ps (Suc n) mb mi v)"
proof (induction n arbitrary: mi mb)
  case 0
  have "drop_bit 7 mb AND 1 \<le> (1 :: byte)" by (rule word_and_le1)
  then have "unat (drop_bit 7 mb AND 1) \<le> 1" unfolding word_le_nat_alt by simp
  with 0 show ?case by (simp add: Let_def)
next
  case (Suc n)
  define b where "b = v div 2 ^ Suc n mod 2"
  have b: "b \<le> 1" by (simp add: b_def)
  define m where "m = unat (drop_bit 7 mb AND 1)"
  have "drop_bit 7 mb AND 1 \<le> (1 :: byte)" by (rule word_and_le1)
  then have m: "m \<le> 1" unfolding m_def word_le_nat_alt by simp
  define X where "X = (mi + 1) * 2 ^ Suc n"
  define Y where "Y = (mi + mi + b + 1) * 2 ^ n"
  have "Y \<le> X" using double_bound [OF b] by (simp only: X_def Y_def)
  then have Y: "ps + 512 + Y \<le> N" "Y \<le> 512" using Suc.prems unfolding X_def [symmetric] by linarith+
  then have "ps + (mi + mi + b + 1) * 2 ^ Suc n \<le> N" unfolding Y_def by (simp add: algebra_simps)
  note tree = tree_ev_ok [OF this, of v]
  have "mi < X" using base_bound [of 0 mi "Suc n" X] by (simp add: X_def)
  moreover have "256 * (1 + m) \<le> 512" using m by simp
  ultimately have "ps + 256 * (1 + m) + mi < N" using Suc.prems(1) unfolding X_def [symmetric] by linarith
  moreover have "b < 2" using b by simp
  moreover have "list_all (ev_ok N) (match_ev ps (Suc n) (push_bit 1 mb) (mi + mi + b) v)"
    using Y unfolding Y_def by (rule Suc.IH)
  ultimately show ?case
    using tree by (subst match_ev.simps) (simp add: Let_def b_def [symmetric] m_def [symmetric] del: match_ev.simps tree_ev.simps power_Suc)
qed

lemma len_ev_ok:
  assumes "p + 770 \<le> N" and "posState < 16"
  shows "list_all (ev_ok N) (len_ev p posState len)"
proof -
  have "list_all (ev_ok N) (tree_ev (p + LenLow + 8 * posState) 3 1 v)" for v
    using assms by (intro tree_ev_ok) (simp add: context_defs)
  moreover have "list_all (ev_ok N) (tree_ev (p + LenMid + 8 * posState) 3 1 v)" for v
    using assms by (intro tree_ev_ok) (simp add: context_defs)
  moreover have "list_all (ev_ok N) (tree_ev (p + LenHigh) 8 1 v)" for v
    using assms by (intro tree_ev_ok) (simp add: context_defs)
  ultimately show ?thesis using assms by (simp add: len_ev_def LenChoice_def LenChoice2_def)
qed

lemma dist_ev_ok:
  assumes "2614 \<le> N" and d: "d < 2 ^ 32"
  shows "list_all (ev_ok N) (dist_ev len d)"
proof -
  have tree: "list_all (ev_ok N) (tree_ev (PosSlot + 64 * min len 3) 6 1 v)" for v
    using assms by (intro tree_ev_ok) (simp add: context_defs min_def)
  show ?thesis
  proof (cases "d < 4")
    case True
    with tree show ?thesis by (simp add: dist_ev_def)
  next
    case False
    define n where "n = ilog2 d - 1"
    define h where "h = d div 2 ^ n"
    have sb: "h = 2 \<or> h = 3" using slot_bounds [of d] False d by (simp add: n_def h_def)
    have "list_all (ev_ok N) (rev_ev (SpecPos + h * 2 ^ n - (2 * n + h) - 1) n 1 v)" if "2 * n + h < 14" for v
    proof (rule rev_ev_ok)
      have "n \<le> 5" using that sb by auto
      then have "(2 :: nat) ^ n \<le> 2 ^ 5" by (intro power_increasing) simp_all
      then have "(1 + 1) * 2 ^ n \<le> (64 :: nat)" "h * 2 ^ n \<le> 96" using sb by auto
      moreover have "SpecPos + h * 2 ^ n - (2 * n + h) - 1 \<le> SpecPos + h * 2 ^ n" by simp
      ultimately have "SpecPos + h * 2 ^ n - (2 * n + h) - 1 + (1 + 1) * 2 ^ n \<le> SpecPos + 96 + 64" by linarith
      also have "\<dots> \<le> N" using assms by (simp add: context_defs)
      finally show "SpecPos + h * 2 ^ n - (2 * n + h) - 1 + (1 + 1) * 2 ^ n \<le> N" .
    qed
    moreover have "list_all (ev_ok N) (rev_ev Align 4 1 v)" for v
      using assms by (intro rev_ev_ok) (simp add: context_defs)
    ultimately show ?thesis
      using False tree direct_ev_ok by (simp add: dist_ev_def Let_def n_def [symmetric] h_def [symmetric] del: One_nat_def)
  qed
qed

lemma rep_ev_ok: "1846 \<le> N \<Longrightarrow> st < 12 \<Longrightarrow> ps < 16 \<Longrightarrow> list_all (ev_ok N) (rep_ev st ps i)"
  by (simp add: rep_ev.simps context_defs)

lemma lit_base_bound:
  assumes "lc \<le> 8"
  shows "lit_base lc lp z + 768 \<le> Literal + 768 * 2 ^ (lc + lp)"
proof -
  have k: "unat b div 2 ^ (8 - lc) < 2 ^ lc" for b :: byte
  proof -
    have "(2 :: nat) ^ (lc + (8 - lc)) = 2 ^ lc * 2 ^ (8 - lc)" by (rule power_add)
    then have "unat b < 2 ^ lc * 2 ^ (8 - lc)" using assms unat_byte_less [of b] by simp
    then show ?thesis by (simp add: div_less_iff_less_mult)
  qed
  define m where "m = length (lz_out z) mod 2 ^ lp"
  have "m + 1 \<le> 2 ^ lp" by (simp add: m_def Suc_le_eq)
  then have "(m + 1) * 2 ^ lc \<le> 2 ^ lp * 2 ^ lc" by (rule mult_le_mono1)
  then have "m * 2 ^ lc + 2 ^ lc \<le> 2 ^ (lc + lp)" by (simp add: power_add ac_simps)
  moreover define q where "q = unat (if lz_out z = [] then 0 else last (lz_out z)) div 2 ^ (8 - lc)"
  ultimately have "m * 2 ^ lc + q + 1 \<le> 2 ^ (lc + lp)" using k by (metis Suc_eq_plus1 Suc_leI add.assoc add_le_cancel_left order_trans)
  then show ?thesis by (simp add: lit_base_def Let_def m_def q_def)
qed

lemma sym_ev_ok:
  assumes "lz_wf dsz z" and "lz_sym_ok dsz z s" and "length (lz_out z) < 2 ^ 32" and lc: "lc \<le> 8" and pb: "pb \<le> 4"
  shows "list_all (ev_ok (Literal + 768 * 2 ^ (lc + lp))) (sym_ev lc lp pb z s)"
proof -
  let ?N = "Literal + 768 * 2 ^ (lc + lp)"
  have "(1 :: nat) \<le> 2 ^ (lc + lp)" by simp
  then have N: "Literal + 768 \<le> ?N" by linarith
  then have N': "2614 \<le> ?N" "1846 \<le> ?N" by (simp_all add: context_defs)
  have ps: "length (lz_out z) mod 2 ^ pb < 16"
  proof -
    have "(2 :: nat) ^ pb \<le> 2 ^ 4" using pb by (intro power_increasing) simp_all
    moreover have "length (lz_out z) mod 2 ^ pb < 2 ^ pb" by simp
    ultimately have "length (lz_out z) mod 2 ^ pb < 2 ^ 4" by linarith
    then show ?thesis by simp
  qed
  have st: "lz_st z < 12" using assms(1) by (simp add: lz_wf_def)
  have ctx: "IsMatch + lz_st z * 16 + length (lz_out z) mod 2 ^ pb < ?N" "IsRep + lz_st z < ?N"
    "IsRepG0 + lz_st z < ?N" "IsRep0Long + lz_st z * 16 + length (lz_out z) mod 2 ^ pb < ?N"
    using N'(2) st ps by (simp_all add: context_defs)
  show ?thesis
  proof (cases s)
    case (Lit b)
    have a: "lit_base lc lp z + 512 + (1 + 1) * 2 ^ 7 \<le> ?N" using lit_base_bound [OF lc, of lp z] by simp
    have e: "(8 :: nat) = Suc 7" by simp
    have "list_all (ev_ok ?N) (match_ev (lit_base lc lp z) 8 mb 1 v)" for mb v
      unfolding e by (rule match_ev_ok [OF a]) simp
    moreover have "list_all (ev_ok ?N) (tree_ev (lit_base lc lp z) 8 1 v)" for v
      using lit_base_bound [OF lc, of lp z] by (intro tree_ev_ok) simp
    ultimately show ?thesis using Lit ctx by simp
  next
    case Short_rep
    with ctx show ?thesis by simp
  next
    case (Rep i n)
    have "list_all (ev_ok ?N) (len_ev RepLenCoder (length (lz_out z) mod 2 ^ pb) v)" for v
      using N'(1) ps by (intro len_ev_ok) (simp_all add: context_defs)
    with Rep ctx rep_ev_ok [OF N'(2) st ps, of i] show ?thesis by simp
  next
    case (Match d n)
    have "list_all (ev_ok ?N) (len_ev LenCoder (length (lz_out z) mod 2 ^ pb) v)" for v
      using N'(1) ps by (intro len_ev_ok) (simp_all add: context_defs)
    moreover have "list_all (ev_ok ?N) (dist_ev (n - 2) (d - 1))"
      using Match assms(2,3) N'(1) by (intro dist_ev_ok) (auto simp: lz_dist_ok_def)
    ultimately show ?thesis using Match ctx by simp
  qed
qed

lemma syms_ev_ok:
  "lz_wf dsz z \<Longrightarrow> lz_syms_ok dsz z ss \<Longrightarrow> length (lz_out (foldl lz_step z ss)) < 2 ^ 32 \<Longrightarrow> lc \<le> 8 \<Longrightarrow> pb \<le> 4 \<Longrightarrow>
   list_all (ev_ok (Literal + 768 * 2 ^ (lc + lp))) (syms_ev lc lp pb z ss)"
proof (induction ss arbitrary: z)
  case Nil
  then show ?case by simp
next
  case (Cons s ss)
  have "length (lz_out z) \<le> length (lz_out (foldl lz_step z (s # ss)))"
    using lz_run_out [of z "s # ss"] by auto
  then have "length (lz_out z) < 2 ^ 32" using Cons.prems(3) by linarith
  from sym_ev_ok [OF Cons.prems(1) _ this Cons.prems(4,5), of s] Cons lz_wf_step [of dsz z s] show ?case by simp
qed

end
