(* ===== verification/Xz_Correct.thy ===== *)
theory Xz_Correct
  imports Xz_Lz
begin

text \<open>
  The decoder computes the expansion of the symbols that have been encoded: first the dictionary
  and the copies, then one symbol, the main loop over a block, and the blocks.  \<open>loc_ok\<close> relates
  the arrays of the decoder to the output so far, \<open>reg_ok\<close> its variables to the state of the
  specification.
\<close>

section \<open>The dictionary\<close>

definition dict_ok :: "nat \<Rightarrow> byte list \<Rightarrow> nat \<Rightarrow> byte list \<Rightarrow> bool" where
  "dict_ok dsz mem pos h \<longleftrightarrow> 1 \<le> dsz \<and> dsz \<le> DICT_BUF_SIZE \<and> length mem = DICT_BUF_SIZE \<and> pos = length h mod dsz
     \<and> (\<forall>d. 1 \<le> d \<and> d \<le> length h \<and> d \<le> dsz \<longrightarrow> mem ! ((length h - d) mod dsz) = h ! (length h - d))
     \<and> (h = [] \<longrightarrow> mem ! (dsz - 1) = 0)"

definition loc_ok :: "XzVarState \<Rightarrow> xz_loc \<Rightarrow> byte list \<Rightarrow> bool" where
  "loc_ok vs l h \<longleftrightarrow> dict_ok (DictionarySize vs) (dict_mem l) (dictionaryPos l) h
     \<and> GlobalPos vs + nowPos l = length h \<and> length h < 2 ^ 32
     \<and> length (out_stream l) = BLOCK_BUF_SIZE \<and> nowPos l \<le> BLOCK_BUF_SIZE
     \<and> take (nowPos l) (out_stream l) = drop (GlobalPos vs) h"

definition same_regs :: "xz_loc \<Rightarrow> xz_loc \<Rightarrow> bool" where
  "same_regs l l' \<longleftrightarrow> xl_state l' = xl_state l \<and> previousIsMatch l' = previousIsMatch l
     \<and> rep0 l' = rep0 l \<and> rep1 l' = rep1 l \<and> rep2 l' = rep2 l \<and> rep3 l' = rep3 l"

lemma dict_get_eq:
  assumes ok: "loc_ok vs l h" and d: "1 \<le> rep0 l" "rep0 l \<le> length h" "rep0 l \<le> DictionarySize vs"
  shows "dict_get vs l = Some (h ! (length h - rep0 l))"
proof -
  define D where "D = DictionarySize vs"
  define p where "p = length h mod D"
  from ok have D: "1 \<le> D" "D \<le> 32768" "length (dict_mem l) = 32768" "dictionaryPos l = p" "p < D"
      and mem: "dict_mem l ! ((length h - rep0 l) mod D) = h ! (length h - rep0 l)"
    using d by (simp_all add: loc_ok_def dict_ok_def D_def p_def DICT_BUF_SIZE_def)
  define pos where "pos = (if rep0 l \<le> p then p - rep0 l else p + D - rep0 l)"
  have E: "(if sub_u32 p (rep0 l) \<ge> D then add_u32 (sub_u32 p (rep0 l)) D else sub_u32 p (rep0 l)) = pos"
  proof (cases "rep0 l \<le> p")
    case True
    then show ?thesis using D by (simp add: pos_def wrap_simps)
  next
    case False
    then have "sub_u32 p (rep0 l) = 2 ^ 32 + p - rep0 l"
      using D d by (simp add: sub_u32_def D_def)
    moreover have "add_u32 (2 ^ 32 + p - rep0 l) D = p + D - rep0 l"
      using False D d by (simp add: add_u32_def D_def le_mod_geq)
    ultimately show ?thesis using False D d by (simp add: pos_def D_def)
  qed
  have lt: "pos < D" using D d by (auto simp: pos_def)
  have eq: "pos = (length h - rep0 l) mod D"
  proof -
    define q where "q = length h div D"
    have h: "length h = D * q + p" by (simp add: p_def q_def)
    show ?thesis
    proof (cases "rep0 l \<le> p")
      case True
      then have "length h - rep0 l = D * q + pos" using h by (simp add: pos_def)
      moreover have "(D * q + pos) mod D = pos" using lt by simp
      ultimately show ?thesis by simp
    next
      case False
      with h d have "q \<noteq> 0" by (intro notI) simp
      then obtain q' where "q = Suc q'" by (cases q) auto
      then have "length h - rep0 l = D * q' + pos" using h False d D by (simp add: pos_def D_def)
      moreover have "(D * q' + pos) mod D = pos" using lt by simp
      ultimately show ?thesis by simp
    qed
  qed
  show ?thesis
    unfolding dict_get_def Let_def D_def [symmetric] D(4) E using lt D(2,3) mem by (simp add: eq)
qed

lemma dict_put_ok:
  assumes ok: "loc_ok vs l h" and room: "nowPos l < BLOCK_BUF_SIZE" and len: "length h + 1 < 2 ^ 32"
  shows "\<exists>l'. dict_put vs b l = Some l' \<and> loc_ok vs l' (h @ [b]) \<and> nowPos l' = nowPos l + 1 \<and> same_regs l l'
    \<and> remain_len l' = remain_len l \<and> previousByte l' = previousByte l"
proof -
  define D where "D = DictionarySize vs"
  define p where "p = length h mod D"
  from ok have D: "1 \<le> D" "D \<le> 32768" "length (dict_mem l) = 32768" "dictionaryPos l = p" "p < D"
      and mem: "\<And>d. 1 \<le> d \<Longrightarrow> d \<le> length h \<Longrightarrow> d \<le> D \<Longrightarrow> dict_mem l ! ((length h - d) mod D) = h ! (length h - d)"
      and pos: "GlobalPos vs + nowPos l = length h" "length (out_stream l) = BLOCK_BUF_SIZE"
      and out: "take (nowPos l) (out_stream l) = drop (GlobalPos vs) h"
    by (simp_all add: loc_ok_def dict_ok_def D_def p_def DICT_BUF_SIZE_def)
  let ?mem = "(dict_mem l)[p := b]"
  have next_pos: "(if add_u32 p 1 = D then 0 else add_u32 p 1) = length (h @ [b]) mod D"
    using D by (simp add: wrap_simps p_def mod_Suc)
  have "dict_ok D ?mem (length (h @ [b]) mod D) (h @ [b])"
    unfolding dict_ok_def
  proof (intro conjI allI impI)
    fix d
    assume d: "1 \<le> d \<and> d \<le> length (h @ [b]) \<and> d \<le> D"
    show "?mem ! ((length (h @ [b]) - d) mod D) = (h @ [b]) ! (length (h @ [b]) - d)"
    proof (cases "d = 1")
      case True
      then show ?thesis using D by (simp add: p_def nth_append)
    next
      case False
      define d' where "d' = d - 1"
      with False d have d': "d = d' + 1" "1 \<le> d'" "d' \<le> length h" "d' < D" by auto
      have "(length h - d') mod D \<noteq> p"
      proof
        assume "(length h - d') mod D = p"
        then have "D dvd length h - (length h - d')" unfolding p_def by (metis diff_le_self mod_eq_dvd_iff_nat)
        then have "D dvd d'" using d' by simp
        with d' show False by (auto dest: dvd_imp_le)
      qed
      moreover have "length h - d' < length h" using d' by simp
      ultimately show ?thesis using mem [of d'] d' by (simp add: nth_append)
    qed
  qed (use D in \<open>simp_all add: DICT_BUF_SIZE_def\<close>)
  moreover have "take (nowPos l + 1) ((out_stream l)[nowPos l := b]) = drop (GlobalPos vs) (h @ [b])"
    using room pos out by (simp add: take_Suc_conv_app_nth)
  moreover have "dict_put vs b l = Some (l\<lparr>out_stream := (out_stream l)[nowPos l := b], nowPos := nowPos l + 1,
      dict_mem := ?mem, dictionaryPos := length (h @ [b]) mod D\<rparr>)"
    unfolding dict_put_def Let_def D_def [symmetric] D(4) next_pos
    using D(2,3,5) room pos by (simp add: wrap_simps BLOCK_BUF_SIZE_def)
  ultimately show ?thesis
    using room pos len
    by (simp add: D_def [symmetric] loc_ok_def same_regs_def)
qed

lemma copy_loop_ok:
  "loc_ok vs l h \<Longrightarrow> 1 \<le> rep0 l \<Longrightarrow> rep0 l \<le> length h \<Longrightarrow> rep0 l \<le> DictionarySize vs \<Longrightarrow>
   out_size \<le> BLOCK_BUF_SIZE \<Longrightarrow> remain_len l = int n \<Longrightarrow> k = min n (out_size - nowPos l) \<Longrightarrow> length h + k < 2 ^ 32 \<Longrightarrow>
   \<exists>l'. dict_copy_loop vs out_size prev n l = Some l' \<and> loc_ok vs l' (lz_copy (rep0 l) k h)
     \<and> nowPos l' = nowPos l + k \<and> same_regs l l' \<and> remain_len l' = int (n - k)
     \<and> previousByte l' = (if prev \<and> 0 < k then last (lz_copy (rep0 l) k h) else previousByte l)"
proof (induction n arbitrary: l h k)
  case 0
  then show ?case by (simp add: same_regs_def)
next
  case (Suc n)
  show ?case
  proof (cases "nowPos l < out_size")
    case False
    with Suc.prems(7) have "k = 0" by simp
    with False Suc.prems show ?thesis by (simp add: same_regs_def)
  next
    case True
    define b where "b = h ! (length h - rep0 l)"
    have get: "dict_get vs l = Some b" using dict_get_eq [OF Suc.prems(1-4)] by (simp add: b_def)
    have k: "k = Suc (min n (out_size - (nowPos l + 1)))" using True Suc.prems(7) by simp
    have "nowPos l < BLOCK_BUF_SIZE" "length h + 1 < 2 ^ 32" using True Suc.prems(5,8) k by simp_all
    from dict_put_ok [OF Suc.prems(1) this, of b] obtain l1 where
      l1: "dict_put vs b l = Some l1" "loc_ok vs l1 (h @ [b])" "nowPos l1 = nowPos l + 1" "same_regs l l1"
        "remain_len l1 = remain_len l" "previousByte l1 = previousByte l"
      by blast
    define l2 where "l2 = l1\<lparr>remain_len := remain_len l1 - 1, previousByte := (if prev then b else previousByte l1)\<rparr>"
    have l2: "loc_ok vs l2 (h @ [b])" "rep0 l2 = rep0 l" "nowPos l2 = nowPos l + 1" "remain_len l2 = int n" "same_regs l l2"
      using l1 Suc.prems(6) by (simp_all add: l2_def loc_ok_def same_regs_def)
    define k' where "k' = min n (out_size - nowPos l2)"
    have k': "k = Suc k'" using k l2(3) by (simp add: k'_def)
    have "\<exists>l'. dict_copy_loop vs out_size prev n l2 = Some l' \<and> loc_ok vs l' (lz_copy (rep0 l2) k' (h @ [b]))
        \<and> nowPos l' = nowPos l2 + k' \<and> same_regs l2 l' \<and> remain_len l' = int (n - k')
        \<and> previousByte l' = (if prev \<and> 0 < k' then last (lz_copy (rep0 l2) k' (h @ [b])) else previousByte l2)"
      using Suc.prems(2-5,8) l2 k' by (intro Suc.IH) (simp_all add: k'_def)
    then obtain l' where l': "dict_copy_loop vs out_size prev n l2 = Some l'" "loc_ok vs l' (lz_copy (rep0 l2) k' (h @ [b]))"
        "nowPos l' = nowPos l2 + k'" "same_regs l2 l'" "remain_len l' = int (n - k')"
        "previousByte l' = (if prev \<and> 0 < k' then last (lz_copy (rep0 l2) k' (h @ [b])) else previousByte l2)"
      by blast
    have cp: "lz_copy (rep0 l) k h = lz_copy (rep0 l2) k' (h @ [b])" by (simp add: k' b_def l2(2))
    have pb: "previousByte l2 = (if prev then b else previousByte l)" using l1(6) by (simp add: l2_def)
    have "previousByte l' = (if prev \<and> 0 < k then last (lz_copy (rep0 l) k h) else previousByte l)"
      unfolding cp l'(6) using pb k' by (cases "k' = 0") auto
    moreover have "dict_copy_loop vs out_size prev (Suc n) l = Some l'"
      using True Suc.prems(6) get l1 l'(1) by (simp add: l2_def)
    moreover have "same_regs l l'" using l2(5) l'(4) by (simp add: same_regs_def)
    ultimately show ?thesis using l' l2(3) k' cp by (intro exI [of _ l']) simp
  qed
qed

section \<open>One symbol\<close>

definition reg_ok :: "xz_loc \<Rightarrow> lz \<Rightarrow> bool" where
  "reg_ok l z \<longleftrightarrow> xl_state l = lz_st z \<and> previousIsMatch l = (7 \<le> lz_st z)
     \<and> rep0 l = lz_r0 z \<and> rep1 l = lz_r1 z \<and> rep2 l = lz_r2 z \<and> rep3 l = lz_r3 z"

definition prev_ok :: "xz_loc \<Rightarrow> byte list \<Rightarrow> bool" where
  "prev_ok l h \<longleftrightarrow> previousByte l = (if h = [] then 0 else last h)"

lemma reg_ok_same: "reg_ok l z \<Longrightarrow> same_regs l l' \<Longrightarrow> lz_out z' = h \<Longrightarrow> z = z'\<lparr>lz_out := lz_out z\<rparr> \<Longrightarrow> reg_ok l' z'"
  by (cases z; cases z') (simp add: reg_ok_def same_regs_def)

text \<open>
  A symbol has been decoded: \<open>z\<close> is the state of the specification behind the whole symbol, of
  which \<open>rem\<close> bytes are still to be copied; what is missing does not fit in the block.
\<close>

definition sym_done :: "XzVarState \<Rightarrow> nat \<Rightarrow> xz_loc \<Rightarrow> lz \<Rightarrow> bool" where
  "sym_done vs out_size l z \<longleftrightarrow> (\<exists>h rem. loc_ok vs l h \<and> reg_ok l z \<and> remain_len l = int rem
     \<and> lz_out z = lz_copy (lz_r0 z) rem h \<and> (0 < rem \<longrightarrow> nowPos l = out_size \<and> 1 \<le> lz_r0 z \<and> lz_r0 z \<le> length h
       \<and> lz_r0 z \<le> DictionarySize vs)
     \<and> prev_ok l h)"

lemma match_tail_ok:
  assumes ok: "loc_ok vs l h" and regs: "reg_ok (l\<lparr>previousIsMatch := True\<rparr>) z" and z: "7 \<le> lz_st z" "lz_out z = lz_copy (lz_r0 z) n h"
    and d: "1 \<le> lz_r0 z" "lz_r0 z \<le> length h" "lz_r0 z \<le> DictionarySize vs"
    and n: "2 \<le> n" "remain_len l = int (n - 2)" and pm: "previousIsMatch l"
    and out: "out_size \<le> BLOCK_BUF_SIZE" "nowPos l < out_size" "GlobalPos vs + out_size < 2 ^ 32"
  shows "\<exists>l'. xz_match_tail vs out_size l x = Some (Xz_next, l', x) \<and> sym_done vs out_size l' z \<and> nowPos l < nowPos l'
    \<and> nowPos l' \<le> out_size"
proof -
  define l1 where "l1 = l\<lparr>remain_len := remain_len l + int kMatchMinLen\<rparr>"
  define k where "k = min n (out_size - nowPos l1)"
  have l1: "loc_ok vs l1 h" "rep0 l1 = lz_r0 z" "nowPos l1 = nowPos l" "remain_len l1 = int n" "same_regs l l1"
    using ok regs n by (simp_all add: l1_def loc_ok_def reg_ok_def same_regs_def kMatchMinLen_def)
  have pos: "GlobalPos vs + nowPos l = length h" using ok by (simp add: loc_ok_def)
  then have "length h + k < 2 ^ 32" using out l1(3) by (simp add: k_def)
  with copy_loop_ok [OF l1(1), of out_size n k True] l1 d out(1) k_def obtain l' where
    l': "dict_copy_loop vs out_size True n l1 = Some l'" "loc_ok vs l' (lz_copy (lz_r0 z) k h)" "nowPos l' = nowPos l + k"
      "same_regs l1 l'" "remain_len l' = int (n - k)"
      "previousByte l' = (if 0 < k then last (lz_copy (lz_r0 z) k h) else previousByte l1)"
    by auto
  have k: "0 < k" "k \<le> n" "k \<le> out_size - nowPos l" using n out l1(3) by (simp_all add: k_def)
  have "lz_copy (lz_r0 z) k h \<noteq> []" using d by (metis length_lz_copy length_0_conv add_is_0 not_one_le_zero le_zero_eq)
  then have prev: "prev_ok l' (lz_copy (lz_r0 z) k h)" using l'(6) k by (simp add: prev_ok_def)
  have "lz_out z = lz_copy (lz_r0 z) (k + (n - k)) h" using z(2) k by simp
  then have split: "lz_out z = lz_copy (lz_r0 z) (n - k) (lz_copy (lz_r0 z) k h)" by (simp only: lz_copy_add)
  have "add_u32 (nowPos l) (GlobalPos vs) = length h" using pos out by (simp add: wrap_simps)
  then have "xz_match_tail vs out_size l x = Some (Xz_next, l', x)"
    using l'(1) l1 d regs by (simp add: xz_match_tail_def l1_def [symmetric] reg_ok_def)
  moreover have "sym_done vs out_size l' z"
    unfolding sym_done_def
  proof (intro exI conjI)
    show "reg_ok l' z" using regs pm l1(5) l'(4) z(1) by (simp add: reg_ok_def same_regs_def)
    show "0 < n - k \<longrightarrow> nowPos l' = out_size \<and> 1 \<le> lz_r0 z \<and> lz_r0 z \<le> length (lz_copy (lz_r0 z) k h)
        \<and> lz_r0 z \<le> DictionarySize vs"
      using d out(2) l'(3) l1(3) unfolding k_def length_lz_copy by (intro impI conjI) linarith+
  qed (fact l'(2) l'(5) split prev)+
  ultimately show ?thesis using l'(3) k out by (intro exI [of _ l']) simp
qed

lemma and_mask: "a AND (2 ^ n - 1) = a mod 2 ^ n" for a :: nat
  by (simp only: mask_eq_exp_minus_1 [symmetric] take_bit_eq_mask [symmetric] take_bit_eq_mod)

lemma unat_shift: "unat (drop_bit k w) = unat w div 2 ^ k" for w :: byte
  by (subst unat_drop_bit_eq) (rule drop_bit_eq_div)

lemma loc_ok_cong:
  "loc_ok vs l h \<Longrightarrow> out_stream l' = out_stream l \<Longrightarrow> dict_mem l' = dict_mem l \<Longrightarrow> nowPos l' = nowPos l \<Longrightarrow>
   dictionaryPos l' = dictionaryPos l \<Longrightarrow> loc_ok vs l' h"
  by (simp add: loc_ok_def)

lemma sym_done_put:
  assumes l1: "loc_ok vs l1 h" "reg_ok l1 z" "remain_len l1 = 0" "previousByte l1 = b"
    and out: "out_size \<le> BLOCK_BUF_SIZE" "nowPos l1 < out_size" "GlobalPos vs + out_size < 2 ^ 32"
    and z: "lz_out z = h @ [b]"
  shows "\<exists>l'. dict_put vs b l1 = Some l' \<and> sym_done vs out_size l' z \<and> nowPos l1 < nowPos l' \<and> nowPos l' \<le> out_size"
proof -
  have "GlobalPos vs + nowPos l1 = length h" using l1(1) by (simp add: loc_ok_def)
  then have "nowPos l1 < BLOCK_BUF_SIZE" "length h + 1 < 2 ^ 32" using out by linarith+
  from dict_put_ok [OF l1(1) this, of b] obtain l' where
    l': "dict_put vs b l1 = Some l'" "loc_ok vs l' (h @ [b])" "nowPos l' = nowPos l1 + 1" "same_regs l1 l'"
      "remain_len l' = remain_len l1" "previousByte l' = previousByte l1"
    by blast
  have "sym_done vs out_size l' z"
    unfolding sym_done_def
    using l' l1 z by (intro exI [of _ "h @ [b]"] exI [of _ 0]) (auto simp: reg_ok_def same_regs_def prev_ok_def)
  with l' out show ?thesis by auto
qed

text \<open>What holds before a symbol is decoded.\<close>

definition sym_pre :: "XzVarState \<Rightarrow> nat \<Rightarrow> xz_loc \<Rightarrow> lz \<Rightarrow> bool" where
  "sym_pre vs out_size l z \<longleftrightarrow> loc_ok vs l (lz_out z) \<and> reg_ok l z \<and> prev_ok l (lz_out z) \<and> remain_len l = 0
     \<and> lz_wf (DictionarySize vs) z \<and> nowPos l < out_size \<and> out_size \<le> BLOCK_BUF_SIZE
     \<and> GlobalPos vs + out_size < 2 ^ 32 \<and> vs_lc vs \<le> 8"

lemma sym_pre_pos:
  assumes "sym_pre vs out_size l z"
  shows "add_u32 (nowPos l) (GlobalPos vs) = length (lz_out z)"
  using assms by (auto simp: sym_pre_def loc_ok_def wrap_simps add.commute)

context byte_source begin

lemma literal_symbol_ok:
  assumes pre: "sym_pre vs out_size l z"
    and x: "rc_ready source x ((if lz_st z < 7 then tree_ev (lit_base (vs_lc vs) (vs_lp vs) z) 8 1 (unat b)
      else match_ev (lit_base (vs_lc vs) (vs_lp vs) z) 8 (lz_out z ! (length (lz_out z) - lz_r0 z)) 1 (unat b)) @ es)"
  shows "\<exists>l' x'. xz_literal_symbol rcb vs l x = Some (Xz_next, l', x') \<and> rc_ready source x' es
    \<and> sym_done vs out_size l' (lz_step z (Lit b)) \<and> nowPos l < nowPos l' \<and> nowPos l' \<le> out_size"
proof -
  from pre have ok: "loc_ok vs l (lz_out z)" and regs: "reg_ok l z" and prev: "prev_ok l (lz_out z)" and rem: "remain_len l = 0"
    and wf: "lz_wf (DictionarySize vs) z"
    and out: "out_size \<le> BLOCK_BUF_SIZE" "nowPos l < out_size" "GlobalPos vs + out_size < 2 ^ 32"
    by (simp_all add: sym_pre_def)
  have base: "Literal + XZ_LIT_SIZE * (push_bit (vs_lc vs) (add_u32 (nowPos l) (GlobalPos vs) AND (2 ^ vs_lp vs - 1))
      + unat (drop_bit (8 - vs_lc vs) (previousByte l))) = lit_base (vs_lc vs) (vs_lp vs) z"
    unfolding sym_pre_pos [OF pre] and_mask using prev
    by (simp add: lit_base_def XZ_LIT_SIZE_def push_bit_eq_mult unat_shift prev_ok_def Let_def)
  have stl: "(if xl_state l < 4 then 0 else if xl_state l < 10 then xl_state l - 3 else xl_state l - 6) = st_lit (lz_st z)"
    using regs by (simp add: reg_ok_def st_lit_def)
  define l1 where "l1 = l\<lparr>xl_state := st_lit (lz_st z), previousIsMatch := False, previousByte := b\<rparr>"
  have l1: "loc_ok vs l1 (lz_out z)" "reg_ok l1 (lz_step z (Lit b))" "remain_len l1 = 0" "previousByte l1 = b" "nowPos l1 = nowPos l"
    using ok regs rem wf by (auto simp: l1_def loc_ok_def reg_ok_def lz_wf_def st_lit_def)
  from sym_done_put [OF l1(1-4) out(1) _ out(3)] out(2) l1(5) obtain l' where
    l': "dict_put vs b l1 = Some l'" "sym_done vs out_size l' (lz_step z (Lit b))" "nowPos l < nowPos l'" "nowPos l' \<le> out_size"
    by auto
  show ?thesis
  proof (cases "lz_st z < 7")
    case True
    with x have "rc_ready source x (tree_ev (lit_base (vs_lc vs) (vs_lp vs) z) 8 1 (unat b) @ es)" by simp
    from literal_ready [OF this] obtain x' where
      x': "xz_literal_decode rcb (lit_base (vs_lc vs) (vs_lp vs) z) x = Some (b, x')" "rc_ready source x' es" by blast
    have "l\<lparr>xl_state := st_lit (lz_st z), previousByte := b\<rparr> = l1"
      using regs True by (cases l) (simp add: l1_def reg_ok_def)
    then have "xz_literal_symbol rcb vs l x = Some (Xz_next, l', x')"
      unfolding xz_literal_symbol_def Let_def base stl using regs True x'(1) l'(1) by (simp add: reg_ok_def)
    with x'(2) l' show ?thesis by blast
  next
    case False
    with x have "rc_ready source x (match_ev (lit_base (vs_lc vs) (vs_lp vs) z) 8
        (lz_out z ! (length (lz_out z) - lz_r0 z)) 1 (unat b) @ es)" by simp
    from literal_match_ready [OF this] obtain x' where
      x': "xz_literal_decode_match rcb (lit_base (vs_lc vs) (vs_lp vs) z) (lz_out z ! (length (lz_out z) - lz_r0 z)) x = Some (b, x')"
        "rc_ready source x' es" by blast
    let ?l = "l\<lparr>xl_state := st_lit (lz_st z)\<rparr>"
    have "loc_ok vs ?l (lz_out z)" using ok by (simp add: loc_ok_def)
    from dict_get_eq [OF this] wf False regs have get: "dict_get vs ?l = Some (lz_out z ! (length (lz_out z) - lz_r0 z))"
      by (simp add: lz_wf_def lz_dist_ok_def reg_ok_def)
    have "xz_literal_symbol rcb vs l x = Some (Xz_next, l', x')"
      unfolding xz_literal_symbol_def Let_def base stl using regs False x'(1) l'(1) get
      by (simp add: reg_ok_def l1_def)
    with x'(2) l' show ?thesis by blast
  qed
qed

lemma short_rep_ok:
  assumes pre: "sym_pre vs out_size l z" and d: "lz_dist_ok (DictionarySize vs) z (lz_r0 z)"
  shows "\<exists>l'. xz_short_rep vs (l\<lparr>previousIsMatch := True\<rparr>) x = Some (Xz_next, l', x)
    \<and> sym_done vs out_size l' (lz_step z Short_rep) \<and> nowPos l < nowPos l' \<and> nowPos l' \<le> out_size"
proof -
  from pre have ok: "loc_ok vs l (lz_out z)" and regs: "reg_ok l z" and rem: "remain_len l = 0"
    and out: "out_size \<le> BLOCK_BUF_SIZE" "nowPos l < out_size" "GlobalPos vs + out_size < 2 ^ 32"
    by (simp_all add: sym_pre_def)
  define b where "b = lz_out z ! (length (lz_out z) - lz_r0 z)"
  have "loc_ok vs (l\<lparr>previousIsMatch := True\<rparr>) (lz_out z)" using ok by (simp add: loc_ok_def)
  from dict_get_eq [OF this] d regs have get: "dict_get vs (l\<lparr>previousIsMatch := True\<rparr>) = Some b"
    by (simp add: lz_dist_ok_def reg_ok_def b_def)
  define l1 where "l1 = l\<lparr>previousIsMatch := True, xl_state := (if xl_state l < 7 then 9 else 11), previousByte := b\<rparr>"
  have l1: "loc_ok vs l1 (lz_out z)" "reg_ok l1 (lz_step z Short_rep)" "remain_len l1 = 0" "previousByte l1 = b" "nowPos l1 = nowPos l"
    using ok regs rem by (auto simp: l1_def loc_ok_def reg_ok_def)
  have "lz_out (lz_step z Short_rep) = lz_out z @ [b]" by (simp add: b_def)
  with sym_done_put [OF l1(1-4) out(1) _ out(3)] out(2) l1(5) obtain l' where
    l': "dict_put vs b l1 = Some l'" "sym_done vs out_size l' (lz_step z Short_rep)" "nowPos l < nowPos l'" "nowPos l' \<le> out_size"
    by auto
  have "lz_out z \<noteq> []" using d by (auto simp: lz_dist_ok_def)
  then have "add_u32 (nowPos l) (GlobalPos vs) \<noteq> 0" unfolding sym_pre_pos [OF pre] by simp
  then have "xz_short_rep vs (l\<lparr>previousIsMatch := True\<rparr>) x = Some (Xz_next, l', x)"
    using get l'(1) by (simp add: xz_short_rep_def l1_def)
  with l' show ?thesis by blast
qed

lemma rep_symbol_ok:
  assumes pre: "sym_pre vs out_size l z" and i: "lz_sym_ok (DictionarySize vs) z (Rep i n)"
    and l: "reg_ok (l1\<lparr>previousIsMatch := 7 \<le> lz_st z\<rparr>) (lz_rep i z)" "loc_ok vs l1 (lz_out z)" "previousIsMatch l1" "nowPos l1 = nowPos l"
    and x: "rc_ready source x (len_ev RepLenCoder ps (n - 2) @ es)"
  shows "\<exists>l' x'. xz_rep_symbol rcb vs out_size ps l1 x = Some (Xz_next, l', x') \<and> rc_ready source x' es
    \<and> sym_done vs out_size l' (lz_step z (Rep i n)) \<and> nowPos l < nowPos l' \<and> nowPos l' \<le> out_size"
proof -
  from pre have out: "out_size \<le> BLOCK_BUF_SIZE" "nowPos l < out_size" "GlobalPos vs + out_size < 2 ^ 32"
    by (simp_all add: sym_pre_def)
  have "2 \<le> n" "n \<le> 273" using i by simp_all
  then have "n - 2 < 272" by linarith
  from len_ready [OF x this] obtain x' where x': "xz_len_decode rcb RepLenCoder ps x = Some (n - 2, x')" "rc_ready source x' es"
    by blast
  define l2 where "l2 = l1\<lparr>remain_len := int (n - 2), xl_state := (if xl_state l1 < 7 then 8 else 11)\<rparr>"
  have "\<exists>l'. xz_match_tail vs out_size l2 x' = Some (Xz_next, l', x') \<and> sym_done vs out_size l' (lz_step z (Rep i n))
      \<and> nowPos l2 < nowPos l' \<and> nowPos l' \<le> out_size"
  proof (rule match_tail_ok [of vs l2 "lz_out z" _ n])
    show "loc_ok vs l2 (lz_out z)" using l(2) by (rule loc_ok_cong) (simp_all add: l2_def)
    show "reg_ok (l2\<lparr>previousIsMatch := True\<rparr>) (lz_step z (Rep i n))"
      using l(1) by (simp add: l2_def reg_ok_def Let_def)
  qed (use i l out in \<open>simp_all add: l2_def Let_def lz_dist_ok_def\<close>)
  then show ?thesis
    using x' l(4) by (auto simp: xz_rep_symbol_def l2_def)
qed

lemma match_symbol_ok:
  assumes pre: "sym_pre vs out_size l z" and d: "lz_sym_ok (DictionarySize vs) z (Match d n)"
    and x: "rc_ready source x (len_ev LenCoder ps (n - 2) @ dist_ev (n - 2) (d - 1) @ es)"
  shows "\<exists>l' x'. xz_match_symbol rcb vs out_size ps (l\<lparr>previousIsMatch := True\<rparr>) x = Some (Xz_next, l', x') \<and> rc_ready source x' es
    \<and> sym_done vs out_size l' (lz_step z (Match d n)) \<and> nowPos l < nowPos l' \<and> nowPos l' \<le> out_size"
proof -
  from pre have ok: "loc_ok vs l (lz_out z)" and regs: "reg_ok l z"
    and out: "out_size \<le> BLOCK_BUF_SIZE" "nowPos l < out_size" "GlobalPos vs + out_size < 2 ^ 32"
    by (simp_all add: sym_pre_def)
  have "2 \<le> n" "n \<le> 273" using d by simp_all
  then have "n - 2 < 272" by linarith
  from len_ready [OF x this] obtain x1 where x1: "xz_len_decode rcb LenCoder ps x = Some (n - 2, x1)"
      "rc_ready source x1 (dist_ev (n - 2) (d - 1) @ es)"
    by blast
  have d1: "d - 1 + 1 = d" using d by (simp add: lz_dist_ok_def)
  have "d < 2 ^ 32" using d ok by (auto simp: lz_dist_ok_def loc_ok_def)
  with d1 have "d - 1 + 1 < 2 ^ 32" by simp
  from dist_ready [OF x1(2) this] obtain x' where x': "xz_distance rcb (n - 2) x1 = Some (d, x')" "rc_ready source x' es"
    unfolding d1 by blast
  define l2 where "l2 = l\<lparr>previousIsMatch := True, rep3 := rep2 l, rep2 := rep1 l, rep1 := rep0 l, rep0 := d,
       xl_state := (if xl_state l < 7 then 7 else 10), remain_len := int (n - 2)\<rparr>"
  have "\<exists>l'. xz_match_tail vs out_size l2 x' = Some (Xz_next, l', x') \<and> sym_done vs out_size l' (lz_step z (Match d n))
      \<and> nowPos l2 < nowPos l' \<and> nowPos l' \<le> out_size"
  proof (rule match_tail_ok [of vs l2 "lz_out z" _ n])
    show "loc_ok vs l2 (lz_out z)" using ok by (rule loc_ok_cong) (simp_all add: l2_def)
    show "reg_ok (l2\<lparr>previousIsMatch := True\<rparr>) (lz_step z (Match d n))"
      using regs by (simp add: l2_def reg_ok_def)
  qed (use d out in \<open>simp_all add: l2_def lz_dist_ok_def\<close>)
  then show ?thesis
    using x1(1) x' by (auto simp: xz_match_symbol_def l2_def)
qed

lemma rep_index_ok:
  assumes regs: "reg_ok l z" and i: "0 < i" "i < 4"
    and x: "rc_ready source x (tl (rep_ev (lz_st z) ps i) @ es)"
  shows "\<exists>l1 x'. xz_rep_index rcb (l\<lparr>previousIsMatch := True\<rparr>) x = Some (l1, x') \<and> rc_ready source x' es
    \<and> reg_ok (l1\<lparr>previousIsMatch := 7 \<le> lz_st z\<rparr>) (lz_rep i z) \<and> previousIsMatch l1 \<and> nowPos l1 = nowPos l
    \<and> out_stream l1 = out_stream l \<and> dict_mem l1 = dict_mem l \<and> dictionaryPos l1 = dictionaryPos l"
proof (cases "i = 1")
  case True
  with x have "rc_ready source x (Ctx (IsRepG1 + lz_st z) 0 # es)" by (simp add: rep_ev.simps)
  from BitDecode_ready [OF this] regs True show ?thesis
    by (auto simp: xz_rep_index_def reg_ok_def lz_rep_def)
next
  case False
  with i x have "rc_ready source x (Ctx (IsRepG1 + lz_st z) 1 # Ctx (IsRepG2 + lz_st z) (if i = 2 then 0 else 1) # es)"
    by (simp add: rep_ev.simps)
  from BitDecode_ready [OF this] obtain x1 where
    x1: "RangeDecoderBitDecode rcb (IsRepG1 + lz_st z) x = Some (1, x1)"
      "rc_ready source x1 (Ctx (IsRepG2 + lz_st z) (if i = 2 then 0 else 1) # es)" by blast
  from BitDecode_ready [OF x1(2)] x1(1) regs False i show ?thesis
    by (auto simp: xz_rep_index_def reg_ok_def lz_rep_def)
qed

text \<open>One turn of the main loop, with the indices in terms of the specification.\<close>

lemma symbol_unfold:
  assumes pre: "sym_pre vs out_size l z" and x: "rc_ready source x es"
  shows "xz_symbol rcb vs out_size l x = (let ps = length (lz_out z) mod 2 ^ vs_pb vs in do {
    (match, x) \<leftarrow> RangeDecoderBitDecode rcb (IsMatch + lz_st z * 16 + ps) x;
    if match = 0 then xz_literal_symbol rcb vs l x
    else do {
      let l = l\<lparr>previousIsMatch := True\<rparr>;
      (rep, x) \<leftarrow> RangeDecoderBitDecode rcb (IsRep + lz_st z) x;
      if rep = 1 then do {
        (g0, x) \<leftarrow> RangeDecoderBitDecode rcb (IsRepG0 + lz_st z) x;
        if g0 = 0 then do {
          (long, x) \<leftarrow> RangeDecoderBitDecode rcb (IsRep0Long + lz_st z * 16 + ps) x;
          if long = 0 then xz_short_rep vs l x else xz_rep_symbol rcb vs out_size ps l x }
        else do {
          (l, x) \<leftarrow> xz_rep_index rcb l x;
          xz_rep_symbol rcb vs out_size ps l x } }
      else xz_match_symbol rcb vs out_size ps l x } })"
proof -
  have pos: "add_u32 (nowPos l) (GlobalPos vs) AND (2 ^ vs_pb vs - 1) = length (lz_out z) mod 2 ^ vs_pb vs"
    unfolding sym_pre_pos [OF pre] and_mask ..
  have st: "xl_state l = lz_st z" using pre by (simp add: sym_pre_def reg_ok_def)
  have idx: "push_bit kNumPosBitsMax (lz_st z) = lz_st z * 16" by (simp add: kNumPosBitsMax_def push_bit_eq_mult)
  show ?thesis
    unfolding xz_symbol_def Let_def pos st idx using rc_ready_ok [OF x] by simp
qed

lemma lit_ok:
  assumes pre: "sym_pre vs out_size l z" and s: "lz_sym_ok (DictionarySize vs) z (Lit b)"
    and x: "rc_ready source x (sym_ev (vs_lc vs) (vs_lp vs) (vs_pb vs) z (Lit b) @ es)"
  shows "\<exists>l' x'. xz_symbol rcb vs out_size l x = Some (Xz_next, l', x') \<and> rc_ready source x' es
    \<and> sym_done vs out_size l' (lz_step z (Lit b)) \<and> nowPos l < nowPos l' \<and> nowPos l' \<le> out_size"
proof -
  define ps where "ps = length (lz_out z) mod 2 ^ vs_pb vs"
  note sym = symbol_unfold [OF pre x, folded ps_def]
  let ?lit = "if lz_st z < 7 then tree_ev (lit_base (vs_lc vs) (vs_lp vs) z) 8 1 (unat b)
    else match_ev (lit_base (vs_lc vs) (vs_lp vs) z) 8 (lz_out z ! (length (lz_out z) - lz_r0 z)) 1 (unat b)"
  from x have "rc_ready source x (Ctx (IsMatch + lz_st z * 16 + ps) 0 # ?lit @ es)" by (simp add: ps_def)
  from BitDecode_ready [OF this] obtain x1 where
    x1: "RangeDecoderBitDecode rcb (IsMatch + lz_st z * 16 + ps) x = Some (0, x1)" "rc_ready source x1 (?lit @ es)" by blast
  from literal_symbol_ok [OF pre x1(2)] x1(1) show ?thesis by (simp add: sym Let_def)
qed

lemma short_ok:
  assumes pre: "sym_pre vs out_size l z" and s: "lz_sym_ok (DictionarySize vs) z Short_rep"
    and x: "rc_ready source x (sym_ev (vs_lc vs) (vs_lp vs) (vs_pb vs) z Short_rep @ es)"
  shows "\<exists>l' x'. xz_symbol rcb vs out_size l x = Some (Xz_next, l', x') \<and> rc_ready source x' es
    \<and> sym_done vs out_size l' (lz_step z Short_rep) \<and> nowPos l < nowPos l' \<and> nowPos l' \<le> out_size"
proof -
  define ps where "ps = length (lz_out z) mod 2 ^ vs_pb vs"
  note sym = symbol_unfold [OF pre x, folded ps_def]
  from x have "rc_ready source x (Ctx (IsMatch + lz_st z * 16 + ps) 1 # Ctx (IsRep + lz_st z) 1
      # Ctx (IsRepG0 + lz_st z) 0 # Ctx (IsRep0Long + lz_st z * 16 + ps) 0 # es)" by (simp add: ps_def)
  from BitDecode_ready [OF this] obtain x1 where
    x1: "RangeDecoderBitDecode rcb (IsMatch + lz_st z * 16 + ps) x = Some (1, x1)"
      "rc_ready source x1 (Ctx (IsRep + lz_st z) 1 # Ctx (IsRepG0 + lz_st z) 0 # Ctx (IsRep0Long + lz_st z * 16 + ps) 0 # es)"
    by blast
  from BitDecode_ready [OF x1(2)] obtain x2 where
    x2: "RangeDecoderBitDecode rcb (IsRep + lz_st z) x1 = Some (1, x2)"
      "rc_ready source x2 (Ctx (IsRepG0 + lz_st z) 0 # Ctx (IsRep0Long + lz_st z * 16 + ps) 0 # es)" by blast
  from BitDecode_ready [OF x2(2)] obtain x3 where
    x3: "RangeDecoderBitDecode rcb (IsRepG0 + lz_st z) x2 = Some (0, x3)"
      "rc_ready source x3 (Ctx (IsRep0Long + lz_st z * 16 + ps) 0 # es)" by blast
  from BitDecode_ready [OF x3(2)] obtain x4 where
    x4: "RangeDecoderBitDecode rcb (IsRep0Long + lz_st z * 16 + ps) x3 = Some (0, x4)" "rc_ready source x4 es" by blast
  have d: "lz_dist_ok (DictionarySize vs) z (lz_r0 z)" using s by simp
  from short_rep_ok [OF pre d, of x4] x1(1) x2(1) x3(1) x4 show ?thesis by (auto simp: sym Let_def)
qed

lemma rep_ok:
  assumes pre: "sym_pre vs out_size l z" and s: "lz_sym_ok (DictionarySize vs) z (Rep i n)"
    and x: "rc_ready source x (sym_ev (vs_lc vs) (vs_lp vs) (vs_pb vs) z (Rep i n) @ es)"
  shows "\<exists>l' x'. xz_symbol rcb vs out_size l x = Some (Xz_next, l', x') \<and> rc_ready source x' es
    \<and> sym_done vs out_size l' (lz_step z (Rep i n)) \<and> nowPos l < nowPos l' \<and> nowPos l' \<le> out_size"
proof -
  define ps where "ps = length (lz_out z) mod 2 ^ vs_pb vs"
  note sym = symbol_unfold [OF pre x, folded ps_def]
  from pre have ok: "loc_ok vs l (lz_out z)" and regs: "reg_ok l z" by (simp_all add: sym_pre_def)
  have i: "i < 4" using s by simp
  from x have "rc_ready source x (Ctx (IsMatch + lz_st z * 16 + ps) 1 # Ctx (IsRep + lz_st z) 1
      # rep_ev (lz_st z) ps i @ len_ev RepLenCoder ps (n - 2) @ es)" by (simp add: ps_def)
  from BitDecode_ready [OF this] obtain x1 where
    x1: "RangeDecoderBitDecode rcb (IsMatch + lz_st z * 16 + ps) x = Some (1, x1)"
      "rc_ready source x1 (Ctx (IsRep + lz_st z) 1 # rep_ev (lz_st z) ps i @ len_ev RepLenCoder ps (n - 2) @ es)"
    by blast
  from BitDecode_ready [OF x1(2)] obtain x2 where
    x2: "RangeDecoderBitDecode rcb (IsRep + lz_st z) x1 = Some (1, x2)"
      "rc_ready source x2 (rep_ev (lz_st z) ps i @ len_ev RepLenCoder ps (n - 2) @ es)" by blast
  show ?thesis
  proof (cases "i = 0")
    case True
    with x2(2) have "rc_ready source x2 (Ctx (IsRepG0 + lz_st z) 0 # Ctx (IsRep0Long + lz_st z * 16 + ps) 1
        # len_ev RepLenCoder ps (n - 2) @ es)" by (simp add: rep_ev.simps)
    from BitDecode_ready [OF this] obtain x3 where
      x3: "RangeDecoderBitDecode rcb (IsRepG0 + lz_st z) x2 = Some (0, x3)"
        "rc_ready source x3 (Ctx (IsRep0Long + lz_st z * 16 + ps) 1 # len_ev RepLenCoder ps (n - 2) @ es)" by blast
    from BitDecode_ready [OF x3(2)] obtain x4 where
      x4: "RangeDecoderBitDecode rcb (IsRep0Long + lz_st z * 16 + ps) x3 = Some (1, x4)"
        "rc_ready source x4 (len_ev RepLenCoder ps (n - 2) @ es)" by blast
    have "reg_ok (l\<lparr>previousIsMatch := True, previousIsMatch := 7 \<le> lz_st z\<rparr>) (lz_rep i z)"
      using regs True by (simp add: reg_ok_def lz_rep_def)
    moreover have "loc_ok vs (l\<lparr>previousIsMatch := True\<rparr>) (lz_out z)" using ok by (simp add: loc_ok_def)
    ultimately have "\<exists>l' x'. xz_rep_symbol rcb vs out_size ps (l\<lparr>previousIsMatch := True\<rparr>) x4 = Some (Xz_next, l', x')
        \<and> rc_ready source x' es \<and> sym_done vs out_size l' (lz_step z (Rep i n)) \<and> nowPos l < nowPos l' \<and> nowPos l' \<le> out_size"
      using x4(2) by (intro rep_symbol_ok [OF pre s]) simp_all
    with x1(1) x2(1) x3(1) x4(1) show ?thesis by (simp add: sym Let_def)
  next
    case False
    with i have "rep_ev (lz_st z) ps i = Ctx (IsRepG0 + lz_st z) 1 # tl (rep_ev (lz_st z) ps i)"
      by (simp add: rep_ev.simps)
    with x2(2) have "rc_ready source x2 (Ctx (IsRepG0 + lz_st z) 1 # tl (rep_ev (lz_st z) ps i)
        @ len_ev RepLenCoder ps (n - 2) @ es)" by (metis append_Cons)
    from BitDecode_ready [OF this] obtain x3 where
      x3: "RangeDecoderBitDecode rcb (IsRepG0 + lz_st z) x2 = Some (1, x3)"
        "rc_ready source x3 (tl (rep_ev (lz_st z) ps i) @ len_ev RepLenCoder ps (n - 2) @ es)" by blast
    from rep_index_ok [OF regs _ i x3(2)] False obtain l1 x4 where
      l1: "xz_rep_index rcb (l\<lparr>previousIsMatch := True\<rparr>) x3 = Some (l1, x4)"
        "rc_ready source x4 (len_ev RepLenCoder ps (n - 2) @ es)"
        "reg_ok (l1\<lparr>previousIsMatch := 7 \<le> lz_st z\<rparr>) (lz_rep i z)" "previousIsMatch l1" "nowPos l1 = nowPos l"
        "out_stream l1 = out_stream l" "dict_mem l1 = dict_mem l" "dictionaryPos l1 = dictionaryPos l"
      by auto
    have "loc_ok vs l1 (lz_out z)" using ok l1(5-8) by (intro loc_ok_cong [OF ok]) simp_all
    from rep_symbol_ok [OF pre s l1(3) this l1(4,5,2)] l1(1) x1(1) x2(1) x3(1) show ?thesis by (simp add: sym Let_def)
  qed
qed

lemma match_ok:
  assumes pre: "sym_pre vs out_size l z" and s: "lz_sym_ok (DictionarySize vs) z (Match d n)"
    and x: "rc_ready source x (sym_ev (vs_lc vs) (vs_lp vs) (vs_pb vs) z (Match d n) @ es)"
  shows "\<exists>l' x'. xz_symbol rcb vs out_size l x = Some (Xz_next, l', x') \<and> rc_ready source x' es
    \<and> sym_done vs out_size l' (lz_step z (Match d n)) \<and> nowPos l < nowPos l' \<and> nowPos l' \<le> out_size"
proof -
  define ps where "ps = length (lz_out z) mod 2 ^ vs_pb vs"
  note sym = symbol_unfold [OF pre x, folded ps_def]
  from x have "rc_ready source x (Ctx (IsMatch + lz_st z * 16 + ps) 1 # Ctx (IsRep + lz_st z) 0
      # len_ev LenCoder ps (n - 2) @ dist_ev (n - 2) (d - 1) @ es)" by (simp add: ps_def)
  from BitDecode_ready [OF this] obtain x1 where
    x1: "RangeDecoderBitDecode rcb (IsMatch + lz_st z * 16 + ps) x = Some (1, x1)"
      "rc_ready source x1 (Ctx (IsRep + lz_st z) 0 # len_ev LenCoder ps (n - 2) @ dist_ev (n - 2) (d - 1) @ es)"
    by blast
  from BitDecode_ready [OF x1(2)] obtain x2 where
    x2: "RangeDecoderBitDecode rcb (IsRep + lz_st z) x1 = Some (0, x2)"
      "rc_ready source x2 (len_ev LenCoder ps (n - 2) @ dist_ev (n - 2) (d - 1) @ es)" by blast
  from match_symbol_ok [OF pre s x2(2)] x1(1) x2(1) show ?thesis by (simp add: sym Let_def)
qed

text \<open>A symbol comes out as it went in.\<close>

lemma symbol_ok:
  assumes "sym_pre vs out_size l z" and "lz_sym_ok (DictionarySize vs) z s"
    and "rc_ready source x (sym_ev (vs_lc vs) (vs_lp vs) (vs_pb vs) z s @ es)"
  shows "\<exists>l' x'. xz_symbol rcb vs out_size l x = Some (Xz_next, l', x') \<and> rc_ready source x' es
    \<and> sym_done vs out_size l' (lz_step z s) \<and> nowPos l < nowPos l' \<and> nowPos l' \<le> out_size"
proof (cases s)
  case (Lit b)
  with assms(2,3) show ?thesis by (simp only:) (rule lit_ok [OF assms(1)])
next
  case Short_rep
  with assms(2,3) show ?thesis by (simp only:) (rule short_ok [OF assms(1)])
next
  case (Rep i n)
  with assms(2,3) show ?thesis by (simp only:) (rule rep_ok [OF assms(1)])
next
  case (Match d n)
  with assms(2,3) show ?thesis by (simp only:) (rule match_ok [OF assms(1)])
qed

end

section \<open>One block\<close>

text \<open>Inside the loop: \<open>z\<close> is the state behind the last symbol, \<open>syms\<close> are those to come.\<close>

definition loop_inv :: "(byte list \<Rightarrow> 's \<Rightarrow> bool) \<Rightarrow> XzVarState \<Rightarrow> nat \<Rightarrow> xz_loc \<Rightarrow> 's xz_rc \<Rightarrow> lz \<Rightarrow> lz_sym list \<Rightarrow> bool" where
  "loop_inv source vs out_size l x z syms \<longleftrightarrow> rc_ready source x (syms_ev (vs_lc vs) (vs_lp vs) (vs_pb vs) z syms)
     \<and> lz_syms_ok (DictionarySize vs) z syms \<and> lz_wf (DictionarySize vs) z \<and> sym_done vs out_size l z \<and> nowPos l \<le> out_size"

lemma loop_inv_pre:
  assumes inv: "loop_inv source vs out_size l x z syms" and pos: "nowPos l < out_size"
    and out: "out_size \<le> BLOCK_BUF_SIZE" "GlobalPos vs + out_size < 2 ^ 32" "vs_lc vs \<le> 8"
  shows "sym_pre vs out_size l z" "length (lz_out z) = GlobalPos vs + nowPos l"
proof -
  from inv obtain h rem where h: "loc_ok vs l h" "reg_ok l z" "remain_len l = int rem" "lz_out z = lz_copy (lz_r0 z) rem h"
      "0 < rem \<longrightarrow> nowPos l = out_size" "prev_ok l h" "lz_wf (DictionarySize vs) z"
    unfolding loop_inv_def sym_done_def by blast
  with pos have "rem = 0" by auto
  with h out pos show "sym_pre vs out_size l z" "length (lz_out z) = GlobalPos vs + nowPos l"
    by (simp_all add: sym_pre_def loc_ok_def)
qed

context byte_source begin

lemma decode_loop_ok:
  "loop_inv source vs out_size l x z syms \<Longrightarrow> out_size - nowPos l \<le> fuel \<Longrightarrow>
   out_size \<le> BLOCK_BUF_SIZE \<Longrightarrow> GlobalPos vs + out_size < 2 ^ 32 \<Longrightarrow> vs_lc vs \<le> 8 \<Longrightarrow>
   GlobalPos vs + out_size \<le> length (lz_out (foldl lz_step z syms)) \<Longrightarrow>
   \<exists>l' x' z' syms'. xz_decode_loop fuel rcb vs out_size l x = Some (None, l', x') \<and> loop_inv source vs out_size l' x' z' syms'
     \<and> nowPos l' = out_size \<and> foldl lz_step z' syms' = foldl lz_step z syms"
proof (induction fuel arbitrary: l x z syms)
  case 0
  then have "nowPos l = out_size" by (simp add: loop_inv_def)
  with 0(1) show ?case by (subst xz_decode_loop.simps) auto
next
  case (Suc fuel)
  show ?case
  proof (cases "nowPos l < out_size")
    case False
    with Suc.prems(1) have "nowPos l = out_size" by (simp add: loop_inv_def)
    with Suc.prems(1) show ?thesis by (subst xz_decode_loop.simps) auto
  next
    case True
    note pre = loop_inv_pre [OF Suc.prems(1) True Suc.prems(3-5)]
    have "syms \<noteq> []" using pre(2) True Suc.prems(6) by auto
    then obtain s ss where syms: "syms = s # ss" by (cases syms) auto
    with Suc.prems(1) have ok: "lz_sym_ok (DictionarySize vs) z s" "lz_syms_ok (DictionarySize vs) (lz_step z s) ss"
      and wf: "lz_wf (DictionarySize vs) z"
      and x: "rc_ready source x (sym_ev (vs_lc vs) (vs_lp vs) (vs_pb vs) z s @ syms_ev (vs_lc vs) (vs_lp vs) (vs_pb vs) (lz_step z s) ss)"
      by (simp_all add: loop_inv_def)
    from symbol_ok [OF pre(1) ok(1) x] obtain l1 x1 where
      l1: "xz_symbol rcb vs out_size l x = Some (Xz_next, l1, x1)"
        "rc_ready source x1 (syms_ev (vs_lc vs) (vs_lp vs) (vs_pb vs) (lz_step z s) ss)"
        "sym_done vs out_size l1 (lz_step z s)" "nowPos l < nowPos l1" "nowPos l1 \<le> out_size"
      by blast
    have "loop_inv source vs out_size l1 x1 (lz_step z s) ss"
      using l1 ok(2) lz_wf_step [OF wf ok(1)] by (simp add: loop_inv_def)
    moreover have "out_size - nowPos l1 \<le> fuel" using Suc.prems(2) l1(4) by linarith
    moreover note Suc.prems(3-5)
    moreover have "GlobalPos vs + out_size \<le> length (lz_out (foldl lz_step (lz_step z s) ss))"
      using Suc.prems(6) syms by simp
    ultimately have "\<exists>l' x' z' syms'. xz_decode_loop fuel rcb vs out_size l1 x1 = Some (None, l', x')
        \<and> loop_inv source vs out_size l' x' z' syms' \<and> nowPos l' = out_size
        \<and> foldl lz_step z' syms' = foldl lz_step (lz_step z s) ss"
      by (rule Suc.IH)
    with True l1(1) syms show ?thesis by (subst xz_decode_loop.simps) simp
  qed
qed

end

lemma last_byte_ok:
  assumes "loc_ok vs l h"
  shows "last_dict_byte vs l = Some (if h = [] then 0 else last h)"
proof -
  define D where "D = DictionarySize vs"
  from assms have D: "1 \<le> D" "D \<le> 32768" "length (dict_mem l) = 32768" "dictionaryPos l = length h mod D"
      and mem: "h \<noteq> [] \<Longrightarrow> dict_mem l ! ((length h - 1) mod D) = h ! (length h - 1)"
      and nil: "h = [] \<Longrightarrow> dict_mem l ! (D - 1) = 0"
    by (auto simp: loc_ok_def dict_ok_def D_def DICT_BUF_SIZE_def Suc_le_eq)
  have sub: "sub_u32 D 1 = D - 1" using D by (simp add: wrap_simps)
  have lt: "length h mod D < D" using D(1) by simp
  have E: "(if length h mod D = 0 then D - 1 else length h mod D - 1) = (if h = [] then D - 1 else (length h - 1) mod D)"
  proof (cases h)
    case (Cons a as)
    have "Suc (length as) mod D = 0 \<longleftrightarrow> Suc (length as mod D) = D" using D(1) by (simp add: mod_Suc)
    moreover have "Suc (length as mod D) \<noteq> D \<Longrightarrow> Suc (length as) mod D = Suc (length as mod D)" by (simp add: mod_Suc)
    moreover have "Suc (length as mod D) = D \<Longrightarrow> D - 1 = length as mod D" by linarith
    ultimately show ?thesis using Cons by (cases "Suc (length as mod D) = D") simp_all
  qed simp
  have "(if h = [] then D - 1 else (length h - 1) mod D) < D" using D(1) by simp
  then show ?thesis
    unfolding last_dict_byte_def Let_def D(4) D_def [symmetric] sub E
    using D mem nil by (auto simp: last_conv_nth)
qed

text \<open>Between the blocks: \<open>h\<close> has been output, \<open>z\<close> is the state behind the symbol that is being copied.\<close>

definition blk_inv :: "(byte list \<Rightarrow> 's \<Rightarrow> bool) \<Rightarrow> 's xz_dec \<Rightarrow> byte list \<Rightarrow> lz \<Rightarrow> lz_sym list \<Rightarrow> bool" where
  "blk_inv source d h z syms \<longleftrightarrow> (let vs = xd_vs d in
     dict_ok (DictionarySize vs) (xd_dict d) (DictionaryPos vs) h \<and> GlobalPos vs = length h
     \<and> length (xd_block d) = BLOCK_BUF_SIZE \<and> State vs = lz_st z \<and> PreviousIsMatch vs = (7 \<le> lz_st z)
     \<and> Reps vs = (lz_r0 z, lz_r1 z, lz_r2 z, lz_r3 z) \<and> vs_lc vs \<le> 8
     \<and> (\<exists>rem. RemainLen vs = int rem \<and> lz_out z = lz_copy (lz_r0 z) rem h
          \<and> (0 < rem \<longrightarrow> 1 \<le> lz_r0 z \<and> lz_r0 z \<le> length h \<and> lz_r0 z \<le> DictionarySize vs))
     \<and> rc_ready source \<lparr>rdec = RangeDecoder vs, probs = xd_probs d, cbst = xd_cb d\<rparr>
         (syms_ev (vs_lc vs) (vs_lp vs) (vs_pb vs) z syms)
     \<and> lz_syms_ok (DictionarySize vs) z syms \<and> lz_wf (DictionarySize vs) z)"

lemma blk_inv_prefix:
  assumes "blk_inv source d h z syms"
  shows "h = take (length h) (lz_out (foldl lz_step z syms))"
proof -
  from assms obtain rem where "lz_out z = lz_copy (lz_r0 z) rem h" by (auto simp: blk_inv_def Let_def)
  with lz_copy_append [of "lz_r0 z" rem h] lz_run_out [of z syms] show ?thesis by auto
qed

context byte_source begin

lemma xz_decode_ok:
  assumes inv: "blk_inv source d h z syms" and T: "T = lz_out (foldl lz_step z syms)" "length T < 2 ^ 32"
    and k: "0 < k" "k \<le> BLOCK_BUF_SIZE" "length h + k \<le> length T"
  shows "\<exists>d' h' z' syms'. xz_decode rcb k d = Some (XZ_RET_OK, k, d') \<and> blk_inv source d' h' z' syms'
    \<and> length h' = length h + k \<and> take k (xd_block d') = drop (length h) h' \<and> T = lz_out (foldl lz_step z' syms')"
proof -
  define vs where "vs = xd_vs d"
  from inv obtain rem where dict: "dict_ok (DictionarySize vs) (xd_dict d) (DictionaryPos vs) h" and G: "GlobalPos vs = length h"
    and blk: "length (xd_block d) = BLOCK_BUF_SIZE"
    and st: "State vs = lz_st z" "PreviousIsMatch vs = (7 \<le> lz_st z)" "Reps vs = (lz_r0 z, lz_r1 z, lz_r2 z, lz_r3 z)"
    and lc: "vs_lc vs \<le> 8"
    and rem: "RemainLen vs = int rem" "lz_out z = lz_copy (lz_r0 z) rem h"
      "0 < rem \<Longrightarrow> 1 \<le> lz_r0 z \<and> lz_r0 z \<le> length h \<and> lz_r0 z \<le> DictionarySize vs"
    and x: "rc_ready source \<lparr>rdec = RangeDecoder vs, probs = xd_probs d, cbst = xd_cb d\<rparr>
        (syms_ev (vs_lc vs) (vs_lp vs) (vs_pb vs) z syms)"
    and sy: "lz_syms_ok (DictionarySize vs) z syms" "lz_wf (DictionarySize vs) z"
    by (auto simp: blk_inv_def Let_def vs_def)
  define l0 where "l0 = xz_locals d"
  have l0: "loc_ok vs l0 h" "reg_ok l0 z" "remain_len l0 = int rem" "nowPos l0 = 0" "rep0 l0 = lz_r0 z"
    using dict G blk st rem(1) k T by (simp_all add: l0_def xz_locals_def vs_def [symmetric] loc_ok_def reg_ok_def)
  define k0 where "k0 = min rem k"
  have "\<exists>l1. dict_copy_loop vs k False rem l0 = Some l1 \<and> loc_ok vs l1 (lz_copy (lz_r0 z) k0 h) \<and> nowPos l1 = k0
      \<and> same_regs l0 l1 \<and> remain_len l1 = int (rem - k0)"
  proof (cases "rem = 0")
    case True
    with l0 show ?thesis by (simp add: k0_def same_regs_def)
  next
    case False
    have "length h + k0 < 2 ^ 32" using k T(2) by (simp add: k0_def)
    with copy_loop_ok [OF l0(1), of k rem k0 False] l0 rem(3) False k(2) show ?thesis by (auto simp: k0_def)
  qed
  then obtain l1 where l1: "dict_copy_loop vs k False rem l0 = Some l1" "loc_ok vs l1 (lz_copy (lz_r0 z) k0 h)" "nowPos l1 = k0"
      "same_regs l0 l1" "remain_len l1 = int (rem - k0)"
    by blast
  let ?h1 = "lz_copy (lz_r0 z) k0 h"
  define l2 where "l2 = l1\<lparr>previousByte := (if ?h1 = [] then 0 else last ?h1)\<rparr>"
  have "lz_out z = lz_copy (lz_r0 z) (k0 + (rem - k0)) h" using rem(2) by (simp add: k0_def)
  then have split: "lz_out z = lz_copy (lz_r0 z) (rem - k0) ?h1" by (simp only: lz_copy_add)
  have "sym_done vs k l2 z"
    unfolding sym_done_def
  proof (intro exI conjI)
    show "loc_ok vs l2 ?h1" using l1(2) by (rule loc_ok_cong) (simp_all add: l2_def)
    show "reg_ok l2 z" using l0(2) l1(4) by (simp add: reg_ok_def same_regs_def l2_def)
    show "remain_len l2 = int (rem - k0)" using l1(5) by (simp add: l2_def)
    show "0 < rem - k0 \<longrightarrow> nowPos l2 = k \<and> 1 \<le> lz_r0 z \<and> lz_r0 z \<le> length ?h1 \<and> lz_r0 z \<le> DictionarySize vs"
      using rem(3) l1(3) by (auto simp: l2_def k0_def)
    show "prev_ok l2 ?h1" by (simp add: prev_ok_def l2_def)
  qed (fact split)
  with x sy l1(3) have "loop_inv source vs k l2 \<lparr>rdec = RangeDecoder vs, probs = xd_probs d, cbst = xd_cb d\<rparr> z syms"
    by (simp add: loop_inv_def l2_def k0_def)
  from decode_loop_ok [OF this _ k(2) _ lc, of k] k T G obtain l' x' z' syms' where
    loop: "xz_decode_loop k rcb vs k l2 \<lparr>rdec = RangeDecoder vs, probs = xd_probs d, cbst = xd_cb d\<rparr> = Some (None, l', x')"
      "loop_inv source vs k l' x' z' syms'" "nowPos l' = k" "foldl lz_step z' syms' = foldl lz_step z syms"
    by auto
  from loop(2) obtain h' rem' where
    h': "loc_ok vs l' h'" "reg_ok l' z'" "remain_len l' = int rem'" "lz_out z' = lz_copy (lz_r0 z') rem' h'"
      "0 < rem' \<longrightarrow> nowPos l' = k \<and> 1 \<le> lz_r0 z' \<and> lz_r0 z' \<le> length h' \<and> lz_r0 z' \<le> DictionarySize vs"
    unfolding loop_inv_def sym_done_def by blast
  have len: "length h' = length h + k" using h'(1) loop(3) G by (simp add: loc_ok_def)
  define d' where "d' = d\<lparr>xd_probs := probs x', xd_dict := dict_mem l', xd_block := out_stream l', xd_cb := cbst x',
    xd_vs := vs\<lparr>RangeDecoder := rdec x', DictionaryPos := dictionaryPos l', GlobalPos := length h',
      Reps := (rep0 l', rep1 l', rep2 l', rep3 l'), State := xl_state l', PreviousIsMatch := previousIsMatch l',
      RemainLen := remain_len l'\<rparr>\<rparr>"
  have "add_u32 (GlobalPos vs) k = length h'" using len G k T by (simp add: wrap_simps)
  then have "xz_decode rcb k d = Some (XZ_RET_OK, k, d')"
    using l0(3) l1(1) last_byte_ok [OF l1(2)] loop(1,3)
    by (simp add: xz_decode_def vs_def [symmetric] l0_def [symmetric] l2_def [symmetric] d'_def Let_def)
  moreover have "blk_inv source d' h' z' syms'"
  proof -
    have eq: "\<lparr>rdec = rdec x', probs = probs x', cbst = cbst x'\<rparr> = x'" by (cases x') simp
    from loop(2) h' lc show ?thesis
      by (auto simp: eq blk_inv_def d'_def Let_def loop_inv_def loc_ok_def reg_ok_def)
  qed
  moreover have "take k (xd_block d') = drop (length h) h'"
    using h'(1) loop(3) G by (simp add: d'_def loc_ok_def)
  moreover have "T = lz_out (foldl lz_step z' syms')" using T(1) loop(4) by simp
  ultimately show ?thesis using len by blast
qed

end

section \<open>The whole stream\<close>

text \<open>
  The contract of the two callbacks: \<open>client src dst s\<close> says that from the state \<open>s\<close> on the read
  callback yields \<open>src\<close> and that \<open>dst\<close> has been written; up to \<open>limit\<close> bytes can be.
\<close>

locale xz_client =
  fixes rcb :: "'s read_cb" and wcb :: "'s write_cb" and client :: "byte list \<Rightarrow> byte list \<Rightarrow> 's \<Rightarrow> bool"
    and limit :: nat
  assumes client_read: "client src dst s \<Longrightarrow> src \<noteq> [] \<Longrightarrow>
      \<exists>chunk rest s'. rcb s = Some (XZ_RET_OK, chunk, s') \<and> chunk \<noteq> [] \<and> src = chunk @ rest \<and> client rest dst s'"
    and client_write: "client src dst s \<Longrightarrow> bs \<noteq> [] \<Longrightarrow> length dst + length bs \<le> limit \<Longrightarrow>
      \<exists>s'. wcb (length dst) bs s = Some s' \<and> client src (dst @ bs) s'"

sublocale xz_client \<subseteq> input: byte_source rcb "\<lambda>src s. client src dst s" for dst
  by unfold_locales (rule client_read)

lemma rc_ready_cb:
  assumes "rc_ready source x es" and "\<And>rest. source rest (cbst x) \<Longrightarrow> source' rest s'"
  shows "rc_ready source' (x\<lparr>cbst := s'\<rparr>) es"
  using assms by (auto simp: rc_ready_def rc_val_def rd_holds_def split: prod.splits)

lemma rc_ready_source: "rc_ready source x es \<Longrightarrow> \<exists>rest. source rest (cbst x)"
  by (auto simp: rc_ready_def rc_val_def rd_holds_def split: prod.splits)

context xz_client begin

lemma blocks_end:
  assumes "blk_inv (\<lambda>src. client src h) d h z syms" and "T = lz_out (foldl lz_step z syms)"
  shows "\<exists>d' src. xz_blocks fuel wcb rcb (length h) (length h) d = Some (0, d') \<and> client src (take (length h) T) (xd_cb d')"
proof -
  have "rc_ready (\<lambda>src. client src h) \<lparr>rdec = RangeDecoder (xd_vs d), probs = xd_probs d, cbst = xd_cb d\<rparr>
      (syms_ev (vs_lc (xd_vs d)) (vs_lp (xd_vs d)) (vs_pb (xd_vs d)) z syms)"
    using assms(1) by (simp add: blk_inv_def Let_def)
  from rc_ready_source [OF this] obtain src where "client src h (xd_cb d)" by auto
  moreover have "take (length h) T = h" using blk_inv_prefix [OF assms(1)] assms(2) by simp
  ultimately show ?thesis by (subst xz_blocks.simps) auto
qed

lemma xz_blocks_ok:
  "blk_inv (\<lambda>src. client src h) d h z syms \<Longrightarrow> T = lz_out (foldl lz_step z syms) \<Longrightarrow> length T < 2 ^ 32 \<Longrightarrow>
   out_size \<le> length T \<Longrightarrow> out_size \<le> limit \<Longrightarrow> length h \<le> out_size \<Longrightarrow> out_size - length h \<le> fuel \<Longrightarrow>
   \<exists>d' src. xz_blocks fuel wcb rcb out_size (length h) d = Some (0, d') \<and> client src (take out_size T) (xd_cb d')"
proof (induction fuel arbitrary: d h z syms)
  case 0
  from 0(6,7) have "length h = out_size" by simp
  with blocks_end [OF 0(1,2)] show ?case by blast
next
  case (Suc fuel)
  show ?case
  proof (cases "length h < out_size")
    case False
    with Suc.prems(6) have "length h = out_size" by simp
    with blocks_end [OF Suc.prems(1,2)] show ?thesis by blast
  next
    case True
    define k where "k = (if out_size - length h > BLOCK_BUF_SIZE then BLOCK_BUF_SIZE else out_size - length h)"
    have k: "0 < k" "k \<le> BLOCK_BUF_SIZE" "length h + k \<le> out_size" using True by (auto simp: k_def BLOCK_BUF_SIZE_def)
    then have kT: "length h + k \<le> length T" using Suc.prems(4) by linarith
    from input.xz_decode_ok [OF Suc.prems(1-3) k(1,2) kT] obtain d1 h1 z1 syms1 where
      d1: "xz_decode rcb k d = Some (XZ_RET_OK, k, d1)" "blk_inv (\<lambda>src. client src h) d1 h1 z1 syms1"
        "length h1 = length h + k" "take k (xd_block d1) = drop (length h) h1" "T = lz_out (foldl lz_step z1 syms1)"
      by blast
    have p: "h = take (length h) T" "h1 = take (length h1) T"
      using blk_inv_prefix [OF Suc.prems(1)] blk_inv_prefix [OF d1(2)] Suc.prems(2) d1(5) by simp_all
    have h1: "h @ take k (xd_block d1) = h1"
      unfolding d1(4) using p d1(3) by (metis append_take_drop_id take_take min.absorb1 le_add1)
    let ?x = "\<lparr>rdec = RangeDecoder (xd_vs d1), probs = xd_probs d1, cbst = xd_cb d1\<rparr>"
    let ?es = "syms_ev (vs_lc (xd_vs d1)) (vs_lp (xd_vs d1)) (vs_pb (xd_vs d1)) z1 syms1"
    have x: "rc_ready (\<lambda>src. client src h) ?x ?es" using d1(2) by (simp add: blk_inv_def Let_def)
    have "\<exists>src. client src h (xd_cb d1)" using rc_ready_source [OF x] by simp
    then obtain src where src: "client src h (xd_cb d1)" by blast
    have lim: "length h + length (take k (xd_block d1)) \<le> limit"
      using k Suc.prems(5) by (simp add: min_def)
    have "length (xd_block d1) = BLOCK_BUF_SIZE" using d1(2) by (simp add: blk_inv_def Let_def)
    then have ne: "take k (xd_block d1) \<noteq> []" using k by (auto simp: BLOCK_BUF_SIZE_def)
    from client_write [OF src ne lim] obtain s' where s': "wcb (length h) (take k (xd_block d1)) (xd_cb d1) = Some s'" by blast
    have wr: "client src' h1 s'" if "client src' h (xd_cb d1)" for src'
      using client_write [OF that ne lim] s' h1 by auto
    define d2 where "d2 = d1\<lparr>xd_cb := s'\<rparr>"
    have "rc_ready (\<lambda>src. client src h1) (?x\<lparr>cbst := s'\<rparr>) ?es"
      using rc_ready_cb [OF x] wr by simp
    then have inv: "blk_inv (\<lambda>src. client src h1) d2 h1 z1 syms1"
      using d1(2) by (simp add: blk_inv_def d2_def Let_def)
    have "length h1 \<le> out_size" "out_size - length h1 \<le> fuel" using k d1(3) Suc.prems(7) by simp_all
    from Suc.IH [OF inv d1(5) Suc.prems(3-5) this] show ?thesis
      using True d1(1) s' k(1) d1(3)
      by (subst xz_blocks.simps) (simp add: k_def [symmetric] d2_def Let_def)
  qed
qed

lemma decompress_ok:
  assumes par: "lc + lp \<le> 3" "pb \<le> 4" and dsz: "1 \<le> dsz" "dsz \<le> DICT_BUF_SIZE"
    and ss: "lz_syms_ok dsz lz_init ss" "length (lz_expand ss) < 2 ^ 32"
    and out: "out_size \<le> length (lz_expand ss)" "out_size \<le> limit" "out_size < 0xFFFFFFFF"
    and s: "client (lz_encode lc lp pb ss @ extra) [] s"
  shows "\<exists>src s'. xz_decompress_buf_to_buf (lz_header lc lp pb dsz out_size) wcb rcb s = Some (0, s')
    \<and> client src (take out_size (lz_expand ss)) s'"
proof -
  define h where "h = lz_header lc lp pb dsz out_size"
  define prop0 where "prop0 = (pb * 5 + lp) * 9 + lc"
  have lc: "lc \<le> 3" "lp \<le> 3" using par by simp_all
  have p: "prop0 < 225" "prop0 div 45 = pb" "prop0 mod 45 = lp * 9 + lc" "(lp * 9 + lc) div 9 = lp" "prop0 mod 9 = lc"
  proof -
    have a: "prop0 = (lp * 9 + lc) + 45 * pb" and b: "prop0 = lc + 9 * (pb * 5 + lp)" by (simp_all add: prop0_def)
    show "prop0 < 225" using a lc par(2) by simp
    show "prop0 div 45 = pb" "prop0 mod 45 = lp * 9 + lc" using lc unfolding a by simp_all
    show "(lp * 9 + lc) div 9 = lp" using lc by simp
    show "prop0 mod 9 = lc" using lc unfolding b by (simp only: mod_mult_self2 mod_less)
  qed
  have f: "h ! 0 = of_nat prop0" "bslice 1 4 h = le_bytes 4 dsz" "bslice 5 4 h = le_bytes 4 out_size"
      "bslice 9 4 h = [0, 0, 0, 0]"
    by (simp_all add: h_def lz_header_def prop0_def bslice_def)
  have v: "le_val (le_bytes 4 dsz) = dsz" "le_val (le_bytes 4 out_size) = out_size" "unat (of_nat prop0 :: byte) = prop0"
    using dsz out(3) p(1) by (simp_all add: le_simps DICT_BUF_SIZE_def unat_of_nat)
  have size: "(XZ_BASE_SIZE + XZ_LIT_SIZE * 2 ^ (lc + lp)) * 2 + sizeof_XzVarState < INTERNAL_DATA_BUF_SIZE"
  proof -
    have "(2 :: nat) ^ (lc + lp) \<le> 2 ^ 3" using par(1) by (intro power_increasing) simp_all
    then show ?thesis by (simp add: XZ_BASE_SIZE_def XZ_LIT_SIZE_def sizeof_XzVarState_def INTERNAL_DATA_BUF_SIZE_def)
  qed
  define ps where "ps = replicate (Literal + XZ_LIT_SIZE * 2 ^ (lc + lp)) (kBitModelTotal div 2)"
  define es where "es = syms_ev lc lp pb lz_init ss"
  have es: "list_all (ev_ok (length ps)) es"
    using syms_ev_ok [OF lz_wf_init ss(1), of lc pb lp] ss(2) lc par(2) by (simp add: es_def ps_def XZ_LIT_SIZE_def lz_expand_def)
  define r0 where "r0 = \<lparr>Buffer = [], Range = 0, Code = 0, read_cb_ret = 0, ExtraBytes = 0\<rparr>"
  have "client (rc_stream ps es @ extra) [] s" using s by (simp add: lz_encode_def ps_def es_def)
  from input.RangeDecoderInit_ready [OF this _ es, of r0] obtain x where
    x: "RangeDecoderInit rcb \<lparr>rdec = r0, probs = [], cbst = s\<rparr> = Some x"
      "rc_ready (\<lambda>src. client src []) (x\<lparr>probs := ps\<rparr>) es"
    by (auto simp: r0_def XZ_RET_OK_def ps_def)
  define d where "d = xz_initial dsz lc lp pb (rdec x) (cbst x)"
  have eq: "\<lparr>rdec = rdec x, probs = ps, cbst = cbst x\<rparr> = x\<lparr>probs := ps\<rparr>" by (cases x) simp
  have "blk_inv (\<lambda>src. client src []) d [] lz_init ss"
    using x(2) ss(1) dsz lc
    by (simp add: blk_inv_def d_def xz_initial_def Let_def ps_def [symmetric] eq es_def dict_ok_def DICT_BUF_SIZE_def)
      (simp add: lz_init_def)
  from xz_blocks_ok [OF this refl, of out_size out_size] ss(2) out obtain d' src where
    "xz_blocks out_size wcb rcb out_size 0 d = Some (0, d')" "client src (take out_size (lz_expand ss)) (xd_cb d')"
    by (auto simp: lz_expand_def)
  moreover from this x(1) have "xz_decompress_buf_to_buf h wcb rcb s = Some (0, xd_cb d')"
    using out(3) p dsz(2) size unfolding xz_decompress_buf_to_buf_def Let_def f v
    by (simp add: r0_def [symmetric] d_def not_le [symmetric])
  ultimately show ?thesis unfolding h_def by blast
qed

end

section \<open>Properties\<close>

text \<open>
  C11: the decompressor inverts the encoder.  Given callbacks that deliver a compressed file in
  pieces of any size and take blocks in order, it ends without an error and has written exactly
  the expansion of the symbols: for every list of symbols that the format allows (literals, matches and
  repeated matches with distances up to the size of the dictionary), all parameters that its
  memory admits and any bytes behind the stream.
\<close>

theorem xz_decodes:
  assumes "\<And>src dst s. client src dst s \<Longrightarrow> src \<noteq> [] \<Longrightarrow>
      \<exists>chunk rest s'. rcb s = Some (XZ_RET_OK, chunk, s') \<and> chunk \<noteq> [] \<and> src = chunk @ rest \<and> client rest dst s'"
    and "\<And>src dst s bs. client src dst s \<Longrightarrow> bs \<noteq> [] \<Longrightarrow> length dst + length bs \<le> length (lz_expand ss) \<Longrightarrow>
      \<exists>s'. wcb (length dst) bs s = Some s' \<and> client src (dst @ bs) s'"
    and "lc + lp \<le> 3" and "pb \<le> 4" and "1 \<le> dsz" and "dsz \<le> DICT_BUF_SIZE" and "lz_syms_ok dsz lz_init ss"
    and "length (lz_expand ss) < 0xFFFFFFFF" and "client (lz_encode lc lp pb ss @ extra) [] s"
  shows "\<exists>src s'. xz_decompress_buf_to_buf (lz_header lc lp pb dsz (length (lz_expand ss))) wcb rcb s = Some (0, s')
    \<and> client src (lz_expand ss) s'"
  using xz_client.decompress_ok [of rcb wcb client "length (lz_expand ss)" lc lp pb dsz ss "length (lz_expand ss)" extra s]
    assms by (simp add: xz_client_def)

text \<open>The example: 4095 zero bytes, compressed to 16 symbols.\<close>

definition ex_syms :: "lz_sym list" where
  "ex_syms = Lit 0 # map (Match 1) (replicate 14 273 @ [272])"

lemma lz_copy_zeros: "lz_copy 1 n (replicate (Suc m) 0) = replicate (Suc m + n) 0"
proof (induction n arbitrary: m)
  case 0
  then show ?case by simp
next
  case (Suc n)
  have "replicate (Suc m) (0 :: byte) @ [replicate (Suc m) 0 ! (length (replicate (Suc m) (0 :: byte)) - 1)] = replicate (Suc (Suc m)) 0"
    by (simp add: replicate_append_same del: replicate_Suc) simp
  then show ?case using Suc [of "Suc m"] by (simp del: replicate_Suc)
qed

lemma zero_matches:
  "lz_out z = replicate (Suc m) 0 \<Longrightarrow> 1 \<le> dsz \<Longrightarrow> \<forall>k \<in> set ks. 2 \<le> k \<and> k \<le> 273 \<Longrightarrow>
   lz_syms_ok dsz z (map (Match 1) ks)
   \<and> lz_out (foldl lz_step z (map (Match 1) ks)) = replicate (Suc m + sum_list ks) 0"
proof (induction ks arbitrary: z m)
  case Nil
  then show ?case by simp
next
  case (Cons k ks)
  have "lz_out (lz_step z (Match 1 k)) = replicate (Suc (m + k)) 0"
    using Cons.prems(1) lz_copy_zeros [of k m] by simp
  from Cons.IH [OF this] Cons.prems show ?case by (simp add: lz_dist_ok_def ac_simps del: replicate_Suc)
qed

lemma ex_syms_ok: "lz_syms_ok 4096 lz_init ex_syms" and ex_expand: "lz_expand ex_syms = replicate 4095 0"
  using zero_matches [of "lz_step lz_init (Lit 0)" 0 4096 "replicate 14 273 @ [272]"]
  by (simp_all add: ex_syms_def lz_expand_def lz_init_def sum_list_replicate)

text \<open>Callbacks on lists: seven bytes at a time are read from the first, blocks are appended to the second.\<close>

definition ex_read :: "(byte list \<times> byte list) read_cb" where
  "ex_read s = Some (XZ_RET_OK, take 7 (fst s), (drop 7 (fst s), snd s))"

definition ex_write :: "(byte list \<times> byte list) write_cb" where
  "ex_write pos bs s = Some (fst s, snd s @ bs)"

lemma xz_decodes_witness:
  "\<exists>rest. xz_decompress_buf_to_buf (lz_header 0 0 0 4096 4095) ex_write ex_read (lz_encode 0 0 0 ex_syms, [])
    = Some (0, (rest, replicate 4095 0))"
proof -
  have "\<exists>chunk rest s'. ex_read s = Some (XZ_RET_OK, chunk, s') \<and> chunk \<noteq> [] \<and> src = chunk @ rest \<and> s' = (rest, dst)"
    if "s = (src, dst)" "src \<noteq> []" for src dst s
    using that by (intro exI [of _ "take 7 src"] exI [of _ "drop 7 src"]) (simp add: ex_read_def)
  moreover have "\<exists>s'. ex_write (length dst) bs s = Some s' \<and> s' = (src, dst @ bs)" if "s = (src, dst)" for src dst s bs
    using that by (simp add: ex_write_def)
  ultimately show ?thesis
    using xz_decodes [of "\<lambda>src dst s. s = (src, dst)" ex_read ex_syms ex_write 0 0 0 4096 "[]"] ex_syms_ok
    by (simp add: ex_expand DICT_BUF_SIZE_def)
qed

end
