(* ===== verification/Xz_Safe.thy ===== *)
theory Xz_Safe
  imports Xz_Correct
begin

text \<open>
  The decompressor on arbitrary input: in a well-formed state no function of it leaves an array or
  loops, and the state stays well-formed (probabilities between 31 and 2017, registers in 32 bits,
  indices inside the buffers), whatever bytes the read callback yields.  This needs a dictionary that
  holds the whole output: \<open>xz_distance_outside_dictionary\<close> shows what happens otherwise.
\<close>

section \<open>Well-formed range decoder\<close>

definition rc_safe :: "('s \<Rightarrow> bool) \<Rightarrow> nat \<Rightarrow> 's xz_rc \<Rightarrow> bool" where
  "rc_safe ok N x \<longleftrightarrow> length (probs x) = N \<and> probs_ok (probs x) \<and> Range (rdec x) < 2 ^ 32 \<and> Code (rdec x) < 2 ^ 32
     \<and> ok (cbst x)"

text \<open>A function of the decoder yields a value with \<open>P\<close> and a well-formed state.\<close>

definition rc_yields :: "('s \<Rightarrow> bool) \<Rightarrow> nat \<Rightarrow> ('a \<Rightarrow> bool) \<Rightarrow> ('a \<times> 's xz_rc) option \<Rightarrow> bool" where
  "rc_yields ok N P r \<longleftrightarrow> (\<exists>v x. r = Some (v, x) \<and> P v \<and> rc_safe ok N x)"

lemma rc_yields_Some [simp]: "rc_yields ok N P (Some (v, x)) \<longleftrightarrow> P v \<and> rc_safe ok N x"
  by (simp add: rc_yields_def)

lemma rc_yields_bind:
  assumes "rc_yields ok N P r" and "\<And>v x. P v \<Longrightarrow> rc_safe ok N x \<Longrightarrow> rc_yields ok N Q (f (v, x))"
  shows "rc_yields ok N Q (Option.bind r f)"
  using assms unfolding rc_yields_def by (metis bind.bind_lunit)

lemma rc_yields_weaken: "rc_yields ok N P r \<Longrightarrow> (\<And>v. P v \<Longrightarrow> Q v) \<Longrightarrow> rc_yields ok N Q r"
  by (auto simp: rc_yields_def)

text \<open>The contract of a read callback that always returns.\<close>

locale total_source =
  fixes rcb :: "'s read_cb" and ok :: "'s \<Rightarrow> bool"
  assumes total_read: "ok s \<Longrightarrow> \<exists>ret bs s'. rcb s = Some (ret, bs, s') \<and> ok s'"

context total_source begin

lemma ReadByte_safe:
  assumes "rc_safe ok N x"
  shows "rc_yields ok N (\<lambda>b. b < 256) (RangeDecoderReadByte rcb x)"
proof (cases "Buffer (rdec x)")
  case (Cons b bs)
  then show ?thesis using assms unat_byte_less [of b] by (simp add: RangeDecoderReadByte_def rc_safe_def)
next
  case Nil
  from total_read assms obtain ret bs s' where "rcb (cbst x) = Some (ret, bs, s')" "ok s'"
    unfolding rc_safe_def by blast
  then show ?thesis
    using assms Nil unat_byte_less by (cases bs) (simp_all add: RangeDecoderReadByte_def rc_safe_def)
qed

lemma shift_safe:
  assumes "rc_safe ok N x"
  shows "\<exists>x'. shift_code rcb x = Some x' \<and> rc_safe ok N x'"
proof -
  have or32: "u32 (push_bit 8 c) OR b < 2 ^ 32" if "b < 256" for b c :: nat
  proof -
    have "u32 (push_bit 8 c) OR b = take_bit 32 (push_bit 8 c OR b)"
      using that take_bit_nat_eq_self [of b 32] by (simp only: u32_def take_bit_eq_mod [symmetric] take_bit_or) simp
    then show ?thesis using take_bit_nat_less_exp [of 32 "push_bit 8 c OR b"] by (simp only:)
  qed
  from ReadByte_safe [OF assms] obtain b x1 where "RangeDecoderReadByte rcb x = Some (b, x1)" "b < 256" "rc_safe ok N x1"
    unfolding rc_yields_def by blast
  then show ?thesis
    using or32 by (simp add: shift_code_def rc_safe_def)
qed

lemma normalize_safe:
  assumes "rc_safe ok N x"
  shows "\<exists>x'. rc_normalize rcb x = Some x' \<and> rc_safe ok N x'"
  using shift_safe [OF assms] assms by (auto simp: rc_normalize_def rc_safe_def u32_def)

lemma init_loop_safe: "rc_safe ok N x \<Longrightarrow> \<exists>x'. rc_init_loop rcb n x = Some x' \<and> rc_safe ok N x'"
proof (induction n arbitrary: x)
  case 0
  then show ?case by simp
next
  case (Suc n)
  from shift_safe [OF Suc.prems] obtain x1 where "shift_code rcb x = Some x1" "rc_safe ok N x1" by blast
  with Suc.IH [of x1] show ?case by simp
qed

lemma BitDecode_safe:
  assumes x: "rc_safe ok N x" and i: "i < N"
  shows "rc_yields ok N (\<lambda>b. b < 2) (RangeDecoderBitDecode rcb i x)"
proof -
  define p where "p = probs x ! i"
  have len: "i < length (probs x)" using x i by (simp add: rc_safe_def)
  then have p: "31 \<le> p" "p \<le> 2017" using x probs_ok_nth [of "probs x" i] by (simp_all add: rc_safe_def p_def)
  note ps = prob_bounds [OF p]
  define bound where "bound = u32 (Range (rdec x) div 2 ^ kNumBitModelTotalBits * p)"
  have "rc_safe ok N (x\<lparr>rdec := (rdec x)\<lparr>Range := bound\<rparr>, probs := (probs x)[i := prob_up p]\<rparr>)"
    and "rc_safe ok N (x\<lparr>rdec := (rdec x)\<lparr>Range := sub_u32 (Range (rdec x)) bound, Code := Code (rdec x) - bound\<rparr>,
      probs := (probs x)[i := prob_down p]\<rparr>)"
    using x ps less_imp_diff_less [of "Code (rdec x)" "2 ^ 32" bound]
    by (simp_all add: rc_safe_def probs_ok_update u32_def sub_u32_def) (simp add: bound_def u32_def)
  note this [THEN normalize_safe]
  with len show ?thesis
    by (auto simp: RangeDecoderBitDecode_def p_def [symmetric] bound_def [symmetric] Let_def)
qed

lemma bit_tree_safe:
  "rc_safe ok N x \<Longrightarrow> ps + (mi + 1) * 2 ^ n \<le> N \<Longrightarrow>
   rc_yields ok N (\<lambda>m. m < (mi + 1) * 2 ^ n) (bit_tree_loop rcb ps n mi x)"
proof (induction n arbitrary: mi x)
  case 0
  then show ?case by simp
next
  case (Suc n)
  show ?case
    unfolding bit_tree_loop.simps
  proof (rule rc_yields_bind [OF BitDecode_safe [OF Suc.prems(1) base_bound [OF Suc.prems(2)]]], unfold prod.case)
    fix b x1
    assume "b < (2 :: nat)" and x1: "rc_safe ok N x1"
    then have d: "(mi + mi + b + 1) * 2 ^ n \<le> (mi + 1) * 2 ^ Suc n" by (intro double_bound) simp
    with Suc.prems(2) have "ps + (mi + mi + b + 1) * 2 ^ n \<le> N" by linarith
    from Suc.IH [OF x1 this] show "rc_yields ok N (\<lambda>m. m < (mi + 1) * 2 ^ Suc n) (bit_tree_loop rcb ps n (mi + mi + b) x1)"
      by (rule rc_yields_weaken) (use d in linarith)
  qed
qed

lemma BitTree_safe:
  assumes "rc_safe ok N x" and "ps + 2 ^ Suc n \<le> N"
  shows "rc_yields ok N (\<lambda>m. m < 2 ^ n) (RangeDecoderBitTreeDecode rcb ps n x)"
  unfolding RangeDecoderBitTreeDecode_def
proof (rule rc_yields_bind)
  show "rc_yields ok N (\<lambda>m. m < (1 + 1) * 2 ^ n) (bit_tree_loop rcb ps n 1 x)"
    using assms by (intro bit_tree_safe) simp_all
qed (auto simp: mult_2)

lemma rev_tree_safe:
  "rc_safe ok N x \<Longrightarrow> ps + (mi + 1) * 2 ^ n \<le> N \<Longrightarrow>
   rc_yields ok N (\<lambda>_. True) (rev_tree_loop rcb ps n i mi symbol x)"
proof (induction n arbitrary: mi x i symbol)
  case 0
  then show ?case by simp
next
  case (Suc n)
  show ?case
    unfolding rev_tree_loop.simps
  proof (rule rc_yields_bind [OF BitDecode_safe [OF Suc.prems(1) base_bound [OF Suc.prems(2)]]], unfold prod.case)
    fix b x1
    assume "b < (2 :: nat)" and x1: "rc_safe ok N x1"
    then have "(mi + mi + b + 1) * 2 ^ n \<le> (mi + 1) * 2 ^ Suc n" by (intro double_bound) simp
    with Suc.prems(2) have "ps + (mi + mi + b + 1) * 2 ^ n \<le> N" by linarith
    from Suc.IH [OF x1 this]
    show "rc_yields ok N (\<lambda>_. True) (rev_tree_loop rcb ps n (i + 1) (mi + mi + b) (symbol OR push_bit i b) x1)" .
  qed
qed

lemma ReverseBitTree_safe:
  assumes "rc_safe ok N x" and "ps + 2 ^ Suc n \<le> N"
  shows "rc_yields ok N (\<lambda>_. True) (RangeDecoderReverseBitTreeDecode rcb ps n x)"
  unfolding RangeDecoderReverseBitTreeDecode_def using assms by (intro rev_tree_safe) simp_all

lemma direct_loop_safe: "rc_safe ok N x \<Longrightarrow> rc_yields ok N (\<lambda>_. True) (rc_direct_loop rcb n r x)"
proof (induction n arbitrary: r x)
  case 0
  then show ?case by simp
next
  case (Suc n)
  have "rc_yields ok N (\<lambda>_. True) (rc_direct_bit rcb x)"
  proof -
    let ?r = "Range (rdec x) div 2"
    let ?c = "if Code (rdec x) \<ge> ?r then Code (rdec x) - ?r else Code (rdec x)"
    have "rc_safe ok N (x\<lparr>rdec := (rdec x)\<lparr>Range := ?r, Code := ?c\<rparr>\<rparr>)" using Suc.prems by (auto simp: rc_safe_def)
    from normalize_safe [OF this] show ?thesis by (auto simp: rc_direct_bit_def Let_def)
  qed
  then show ?case
    unfolding rc_direct_loop.simps by (rule rc_yields_bind) (simp add: Suc.IH)
qed

lemma DirectBits_safe: "rc_safe ok N x \<Longrightarrow> rc_yields ok N (\<lambda>_. True) (RangeDecoderDecodeDirectBits rcb n x)"
  unfolding RangeDecoderDecodeDirectBits_def by (rule direct_loop_safe)

lemma literal_loop_safe:
  "rc_safe ok N x \<Longrightarrow> ps + 256 \<le> N \<Longrightarrow> k + n = 8 \<Longrightarrow> 2 ^ k \<le> mi \<Longrightarrow> mi < 2 ^ (k + 1) \<Longrightarrow>
   rc_yields ok N (\<lambda>_. True) (literal_loop n rcb ps mi x)"
proof (induction n arbitrary: mi x k)
  case 0
  then show ?case by (simp add: literal_loop.simps)
next
  case (Suc n)
  note st0 = symbol_step [OF Suc.prems(3-5), of 0]
  then have i: "ps + mi < N" using Suc.prems(2) by simp
  have "rc_yields ok N (\<lambda>_. True)
      (do { (bit, x) \<leftarrow> RangeDecoderBitDecode rcb (ps + mi) x; literal_loop n rcb ps (mi + mi OR bit) x })"
  proof (rule rc_yields_bind [OF BitDecode_safe [OF Suc.prems(1) i]], unfold prod.case)
    fix b x1
    assume "b < (2 :: nat)" and x1: "rc_safe ok N x1"
    note st = symbol_step [OF Suc.prems(3-5) this(1)]
    from Suc.IH [OF x1 Suc.prems(2) st(4-6)] st(2)
    show "rc_yields ok N (\<lambda>_. True) (literal_loop n rcb ps (mi + mi OR b) x1)" by simp
  qed
  with st0(1) show ?case by (subst literal_loop.simps) simp
qed

lemma literal_match_loop_safe:
  "rc_safe ok N x \<Longrightarrow> ps + 768 \<le> N \<Longrightarrow> k + n = 8 \<Longrightarrow> 2 ^ k \<le> mi \<Longrightarrow> mi < 2 ^ (k + 1) \<Longrightarrow>
   rc_yields ok N (\<lambda>_. True) (literal_match_loop n rcb ps mb mi x)"
proof (induction n arbitrary: mi x k mb)
  case 0
  then show ?case by (simp add: literal_match_loop.simps)
next
  case (Suc n)
  define m where "m = unat (drop_bit 7 mb AND 1)"
  have "drop_bit 7 mb AND 1 \<le> (1 :: byte)" by (rule word_and_le1)
  then have "m \<le> 1" unfolding m_def word_le_nat_alt by simp
  note st0 = symbol_step [OF Suc.prems(3-5), of 0]
  then have "ps + push_bit 8 (1 + m) + mi < N"
    using Suc.prems(2) \<open>m \<le> 1\<close> by (simp add: push_bit_eq_mult algebra_simps)
  note bit = BitDecode_safe [OF Suc.prems(1) this]
  have "rc_yields ok N (\<lambda>_. True) (do {
      (bit, x) \<leftarrow> RangeDecoderBitDecode rcb (ps + push_bit 8 (1 + m) + mi) x;
      let symbol = push_bit 1 mi OR bit;
      if m \<noteq> bit then literal_loop n rcb ps symbol x
      else literal_match_loop n rcb ps (push_bit 1 mb) symbol x })"
  proof (rule rc_yields_bind [OF bit], unfold prod.case Let_def)
    fix b x1
    assume "b < (2 :: nat)" and x1: "rc_safe ok N x1"
    note st = symbol_step [OF Suc.prems(3-5) this(1)]
    have "ps + 256 \<le> N" using Suc.prems(2) by simp
    note a = literal_loop_safe [OF x1 this st(4-6)] and b = Suc.IH [OF x1 Suc.prems(2) st(4-6)]
    then show "rc_yields ok N (\<lambda>_. True) (if m \<noteq> b then literal_loop n rcb ps (push_bit 1 mi OR b) x1
        else literal_match_loop n rcb ps (push_bit 1 mb) (push_bit 1 mi OR b) x1)"
      using st(3) by simp
  qed
  with st0(1) show ?case by (subst literal_match_loop.simps) (simp add: m_def [symmetric] Let_def)
qed

lemma literal_safe:
  assumes "rc_safe ok N x" and "ps + 768 \<le> N"
  shows "rc_yields ok N (\<lambda>_. True) (xz_literal_decode rcb ps x)"
    and "rc_yields ok N (\<lambda>_. True) (xz_literal_decode_match rcb ps mb x)"
proof -
  have "ps + 256 \<le> N" using assms(2) by simp
  show "rc_yields ok N (\<lambda>_. True) (xz_literal_decode rcb ps x)"
    unfolding xz_literal_decode_def
    by (rule rc_yields_bind [OF literal_loop_safe [OF assms(1) \<open>ps + 256 \<le> N\<close>, of 0]]) simp_all
  show "rc_yields ok N (\<lambda>_. True) (xz_literal_decode_match rcb ps mb x)"
    unfolding xz_literal_decode_match_def
    by (rule rc_yields_bind [OF literal_match_loop_safe [OF assms, of 0]]) simp_all
qed

lemma len_safe:
  assumes x: "rc_safe ok N x" and p: "p + 770 \<le> N" and ps: "posState < 16"
  shows "rc_yields ok N (\<lambda>n. n \<le> 271) (xz_len_decode rcb p posState x)"
proof -
  have low: "rc_yields ok N (\<lambda>n. n < 2 ^ 3) (RangeDecoderBitTreeDecode rcb (p + LenLow + push_bit 3 posState) 3 x1)"
    and mid: "rc_yields ok N (\<lambda>n. n < 2 ^ 3) (RangeDecoderBitTreeDecode rcb (p + LenMid + push_bit 3 posState) 3 x1)"
    and high: "rc_yields ok N (\<lambda>n. n < 2 ^ 8) (RangeDecoderBitTreeDecode rcb (p + LenHigh) 8 x1)"
    if "rc_safe ok N x1" for x1
    using that p ps by (intro BitTree_safe; simp add: context_defs push_bit_eq_mult)+
  have c: "p + LenChoice < N" "p + LenChoice2 < N" using p by (simp_all add: context_defs)
  have rest: "rc_yields ok N (\<lambda>n. n \<le> 271) (do {
       (choice2, x) \<leftarrow> RangeDecoderBitDecode rcb (p + LenChoice2) x;
       if choice2 = 0 then do {
         (n, x) \<leftarrow> RangeDecoderBitTreeDecode rcb (p + LenMid + push_bit 3 posState) 3 x;
         Some (8 + n, x) }
       else do {
         (n, x) \<leftarrow> RangeDecoderBitTreeDecode rcb (p + LenHigh) 8 x;
         Some (8 + 8 + n, x) } })" if x: "rc_safe ok N x" for x
  proof (rule rc_yields_bind [OF BitDecode_safe [OF x c(2)]], unfold prod.case, split if_split, intro conjI impI)
    fix c2 x1
    assume x1: "rc_safe ok N x1"
    show "rc_yields ok N (\<lambda>n. n \<le> 271)
        (do { (n, x) \<leftarrow> RangeDecoderBitTreeDecode rcb (p + LenMid + push_bit 3 posState) 3 x1; Some (8 + n, x) })"
      by (rule rc_yields_bind [OF mid [OF x1]]) simp
    show "rc_yields ok N (\<lambda>n. n \<le> 271)
        (do { (n, x) \<leftarrow> RangeDecoderBitTreeDecode rcb (p + LenHigh) 8 x1; Some (8 + 8 + n, x) })"
      by (rule rc_yields_bind [OF high [OF x1]]) simp
  qed
  show ?thesis
    unfolding xz_len_decode_def
  proof (rule rc_yields_bind [OF BitDecode_safe [OF x c(1)]], unfold prod.case, split if_split, intro conjI impI)
    fix c1 x1
    assume x1: "rc_safe ok N x1"
    show "rc_yields ok N (\<lambda>n. n \<le> 271) (RangeDecoderBitTreeDecode rcb (p + LenLow + push_bit 3 posState) 3 x1)"
      using low [OF x1] by (rule rc_yields_weaken) simp
  qed (rule rest)
qed

lemma distance_safe:
  assumes x: "rc_safe ok N x" and N: "2614 \<le> N"
  shows "rc_yields ok N (\<lambda>d. d < 2 ^ 32) (xz_distance rcb len x)"
proof -
  define group where "group = PosSlot + push_bit kNumPosSlotBits (if len < kNumLenToPosStates then len else kNumLenToPosStates - 1)"
  have "group + 2 ^ Suc 6 \<le> N" using N by (simp add: group_def context_defs push_bit_eq_mult)
  note slot = BitTree_safe [OF x this]
  show ?thesis
    unfolding xz_distance_def group_def [symmetric]
  proof (rule rc_yields_bind, unfold prod.case)
    show "rc_yields ok N (\<lambda>m. m < 64) (RangeDecoderBitTreeDecode rcb group kNumPosSlotBits x)"
      using slot by (simp add: kNumPosSlotBits_def)
  next
    fix posSlot x1
    assume "posSlot < (64 :: nat)" and x1: "rc_safe ok N x1"
    define n where "n = posSlot div 2 - 1"
    define r where "r = push_bit n (2 OR (posSlot AND 1))"
    have rev: "rc_yields ok N (\<lambda>_. True) (RangeDecoderReverseBitTreeDecode rcb (SpecPos + r - posSlot - 1) n x1)"
      if "4 \<le> posSlot" "posSlot < 14"
    proof -
      have "posSlot \<in> {4, 5, 6, 7, 8, 9, 10, 11, 12, 13}" unfolding insert_iff empty_iff using that by presburger
      then have "SpecPos + r - posSlot - 1 + 2 ^ Suc n \<le> N"
        using N by (elim insertE emptyE) (simp_all add: r_def n_def context_defs push_bit_eq_mult)
      with x1 show ?thesis by (intro ReverseBitTree_safe)
    qed
    show "rc_yields ok N (\<lambda>d. d < 2 ^ 32) (do {
        (r, x) \<leftarrow> (if posSlot \<ge> kStartPosModelIndex then
          (let numDirectBits = posSlot div 2 - 1; r = push_bit numDirectBits (2 OR (posSlot AND 1))
           in if posSlot < kEndPosModelIndex then do {
                (n, x) \<leftarrow> RangeDecoderReverseBitTreeDecode rcb (SpecPos + r - posSlot - 1) numDirectBits x1;
                Some (add_u32 r n, x) }
              else do {
                (n, x) \<leftarrow> RangeDecoderDecodeDirectBits rcb (numDirectBits - kNumAlignBits) x1;
                (m, x) \<leftarrow> RangeDecoderReverseBitTreeDecode rcb Align kNumAlignBits x;
                Some (add_u32 (add_u32 r (u32 (push_bit kNumAlignBits n))) m, x) })
        else Some (posSlot, x1));
        Some (add_u32 r 1, x) })"
    proof (rule rc_yields_bind [where P = "\<lambda>_. True"], unfold Let_def n_def [symmetric] r_def [symmetric],
        split if_split, intro conjI impI, split if_split, intro conjI impI)
      assume "kStartPosModelIndex \<le> posSlot" and "posSlot < kEndPosModelIndex"
      then have "4 \<le> posSlot" "posSlot < 14" by (simp_all add: context_defs kStartPosModelIndex_def)
      from rev [OF this]
      show "rc_yields ok N (\<lambda>_. True)
          (do { (n, x) \<leftarrow> RangeDecoderReverseBitTreeDecode rcb (SpecPos + r - posSlot - 1) n x1; Some (add_u32 r n, x) })"
        by (rule rc_yields_bind) simp
    next
      have align: "Align + 2 ^ Suc 4 \<le> N" using N by (simp add: context_defs)
      show "rc_yields ok N (\<lambda>_. True) (do {
          (n, x) \<leftarrow> RangeDecoderDecodeDirectBits rcb (n - kNumAlignBits) x1;
          (m, x) \<leftarrow> RangeDecoderReverseBitTreeDecode rcb Align kNumAlignBits x;
          Some (add_u32 (add_u32 r (u32 (push_bit kNumAlignBits n))) m, x) })"
      proof (rule rc_yields_bind [OF DirectBits_safe [OF x1]], unfold prod.case)
        fix n x2
        assume x2: "rc_safe ok N x2"
        from ReverseBitTree_safe [OF x2 align, folded kNumAlignBits_def]
        show "rc_yields ok N (\<lambda>_. True) (do { (m, x) \<leftarrow> RangeDecoderReverseBitTreeDecode rcb Align kNumAlignBits x2;
            Some (add_u32 (add_u32 r (u32 (push_bit kNumAlignBits n))) m, x) })"
          by (rule rc_yields_bind) simp
      qed
    qed (use x1 in \<open>simp_all add: add_u32_def\<close>)
  qed
qed

end

section \<open>Well-formed locals\<close>

text \<open>The parameters of a stream, for a block of \<open>cap\<close> bytes.\<close>

definition vs_safe :: "nat \<Rightarrow> nat \<Rightarrow> XzVarState \<Rightarrow> bool" where
  "vs_safe N cap vs \<longleftrightarrow> vs_lc vs + vs_lp vs \<le> 3 \<and> vs_pb vs \<le> 4 \<and> 1 \<le> DictionarySize vs \<and> DictionarySize vs \<le> DICT_BUF_SIZE
     \<and> N = Literal + XZ_LIT_SIZE * 2 ^ (vs_lc vs + vs_lp vs) \<and> cap \<le> BLOCK_BUF_SIZE \<and> GlobalPos vs + cap \<le> DictionarySize vs"

definition loc_arrays :: "XzVarState \<Rightarrow> xz_loc \<Rightarrow> bool" where
  "loc_arrays vs l \<longleftrightarrow> length (out_stream l) = BLOCK_BUF_SIZE \<and> length (dict_mem l) = DICT_BUF_SIZE
     \<and> dictionaryPos l < DictionarySize vs \<and> xl_state l < 12
     \<and> rep0 l < 2 ^ 32 \<and> rep1 l < 2 ^ 32 \<and> rep2 l < 2 ^ 32 \<and> rep3 l < 2 ^ 32"

definition loc_safe :: "XzVarState \<Rightarrow> xz_loc \<Rightarrow> bool" where
  "loc_safe vs l \<longleftrightarrow> loc_arrays vs l \<and> 1 \<le> rep0 l \<and> rep0 l \<le> DictionarySize vs \<and> 0 \<le> remain_len l \<and> remain_len l \<le> 273"

lemma dict_get_safe:
  assumes v: "vs_safe N cap vs" and l: "loc_arrays vs l" and r: "1 \<le> rep0 l" "rep0 l \<le> DictionarySize vs"
  shows "\<exists>b. dict_get vs l = Some b"
proof -
  define D where "D = DictionarySize vs"
  define p where "p = dictionaryPos l"
  define r where "r = rep0 l"
  have D: "D \<le> 32768" "length (dict_mem l) = 32768" "p < D" "1 \<le> r" "r \<le> D"
    using v l r by (simp_all add: vs_safe_def loc_arrays_def D_def p_def r_def DICT_BUF_SIZE_def)
  define pos where "pos = (if sub_u32 p r \<ge> D then add_u32 (sub_u32 p r) D else sub_u32 p r)"
  have "pos < D"
  proof (cases "r \<le> p")
    case True
    then show ?thesis using D by (simp add: pos_def wrap_simps)
  next
    case False
    then have "sub_u32 p r = 2 ^ 32 + p - r" using D by (simp add: sub_u32_def)
    moreover have "add_u32 (2 ^ 32 + p - r) D = p + D - r" using False D by (simp add: add_u32_def le_mod_geq)
    moreover have "p + D - r < D" using False D by linarith
    moreover have "D \<le> 2 ^ 32 + p - r" using D by simp
    ultimately show ?thesis by (simp add: pos_def)
  qed
  then show ?thesis
    unfolding dict_get_def Let_def D_def [symmetric] p_def [symmetric] r_def [symmetric] pos_def [symmetric]
    using D by simp
qed

lemma dict_put_safe:
  assumes v: "vs_safe N cap vs" and l: "loc_arrays vs l" and pos: "nowPos l < cap"
  shows "\<exists>l'. dict_put vs b l = Some l' \<and> loc_arrays vs l' \<and> same_regs l l' \<and> nowPos l' = nowPos l + 1
    \<and> remain_len l' = remain_len l"
proof -
  have "nowPos l < length (out_stream l)" "dictionaryPos l < length (dict_mem l)" "nowPos l + 1 < 2 ^ 32"
    using v l pos by (simp_all add: vs_safe_def loc_arrays_def BLOCK_BUF_SIZE_def)
  moreover have "dictionaryPos l + 1 < 2 ^ 32" "dictionaryPos l + 1 \<le> DictionarySize vs"
    using v l by (simp_all add: vs_safe_def loc_arrays_def DICT_BUF_SIZE_def)
  ultimately show ?thesis
    using l v unfolding dict_put_def Let_def
    by (simp add: wrap_simps loc_arrays_def same_regs_def vs_safe_def)
qed

lemma same_regs_trans: "same_regs l l' \<Longrightarrow> same_regs l' l'' \<Longrightarrow> same_regs l l''"
  by (simp add: same_regs_def)

lemma copy_loop_safe:
  "vs_safe N cap vs \<Longrightarrow> loc_arrays vs l \<Longrightarrow> 1 \<le> rep0 l \<Longrightarrow> rep0 l \<le> DictionarySize vs \<Longrightarrow> remain_len l = int n \<Longrightarrow>
   nowPos l \<le> cap \<Longrightarrow>
   \<exists>l'. dict_copy_loop vs cap prev n l = Some l' \<and> loc_arrays vs l' \<and> same_regs l l' \<and> nowPos l \<le> nowPos l' \<and> nowPos l' \<le> cap
     \<and> (0 < n \<and> nowPos l < cap \<longrightarrow> nowPos l < nowPos l') \<and> 0 \<le> remain_len l' \<and> remain_len l' \<le> remain_len l"
proof (induction n arbitrary: l)
  case 0
  then show ?case by (simp add: same_regs_def)
next
  case (Suc n)
  show ?case
  proof (cases "nowPos l < cap")
    case False
    with Suc.prems show ?thesis by (simp add: same_regs_def)
  next
    case True
    from dict_get_safe [OF Suc.prems(1-4)] obtain b where b: "dict_get vs l = Some b" by blast
    from dict_put_safe [OF Suc.prems(1,2) True] obtain l1 where
      l1: "dict_put vs b l = Some l1" "loc_arrays vs l1" "same_regs l l1" "nowPos l1 = nowPos l + 1" "remain_len l1 = remain_len l"
      by blast
    define l2 where "l2 = l1\<lparr>remain_len := remain_len l1 - 1, previousByte := (if prev then b else previousByte l1)\<rparr>"
    have l2: "loc_arrays vs l2" "same_regs l l2" "nowPos l2 = nowPos l + 1" "remain_len l2 = int n"
      using l1 Suc.prems(5) by (simp_all add: l2_def loc_arrays_def same_regs_def)
    then have "1 \<le> rep0 l2" "rep0 l2 \<le> DictionarySize vs" "nowPos l2 \<le> cap"
      using Suc.prems(3,4) True by (simp_all add: same_regs_def)
    from Suc.IH [OF Suc.prems(1) l2(1) this(1,2) l2(4) this(3)] obtain l' where
      "dict_copy_loop vs cap prev n l2 = Some l'" "loc_arrays vs l'" "same_regs l2 l'" "nowPos l2 \<le> nowPos l'" "nowPos l' \<le> cap"
      "0 \<le> remain_len l'" "remain_len l' \<le> remain_len l2" by blast
    then show ?thesis
      using True b l1(1) l2 same_regs_trans [OF l2(2)] Suc.prems(5)
      by (intro exI [of _ l']) (simp add: l2_def [symmetric])
  qed
qed

text \<open>One turn of the main loop ends well.\<close>

definition step_safe :: "('s \<Rightarrow> bool) \<Rightarrow> nat \<Rightarrow> XzVarState \<Rightarrow> nat \<Rightarrow> nat \<Rightarrow> (xz_step \<times> xz_loc \<times> 's xz_rc) option \<Rightarrow> bool" where
  "step_safe ok N vs cap pos r \<longleftrightarrow> (\<exists>st l' x'. r = Some (st, l', x') \<and> rc_safe ok N x'
     \<and> (case st of Xz_next \<Rightarrow> loc_safe vs l' \<and> pos < nowPos l' \<and> nowPos l' \<le> cap
        | Xz_break \<Rightarrow> loc_arrays vs l' \<and> nowPos l' = pos \<and> remain_len l' = - 1
        | Xz_return e \<Rightarrow> e \<noteq> XZ_RET_OK))"

lemma step_bind:
  assumes "rc_yields ok N P r" and "\<And>v x. P v \<Longrightarrow> rc_safe ok N x \<Longrightarrow> step_safe ok N vs cap pos (f (v, x))"
  shows "step_safe ok N vs cap pos (Option.bind r f)"
  using assms unfolding rc_yields_def by (metis bind.bind_lunit)

lemma match_tail_safe:
  assumes v: "vs_safe N cap vs" and l: "loc_arrays vs l" and pos: "nowPos l < cap" and rem: "0 \<le> remain_len l" "remain_len l \<le> 271"
    and x: "rc_safe ok N x"
  shows "step_safe ok N vs cap (nowPos l) (xz_match_tail vs cap l x)"
proof -
  have p: "add_u32 (nowPos l) (GlobalPos vs) = nowPos l + GlobalPos vs" "nowPos l + GlobalPos vs \<le> DictionarySize vs"
    using v pos by (simp_all add: vs_safe_def DICT_BUF_SIZE_def wrap_simps)
  show ?thesis
  proof (cases "rep0 l = 0 \<or> rep0 l > nowPos l + GlobalPos vs")
    case True
    then show ?thesis using l x p(1) by (auto simp: xz_match_tail_def step_safe_def loc_arrays_def XZ_RET_OK_def XZ_RET_DATA_ERR_def)
  next
    case False
    let ?l = "l\<lparr>remain_len := remain_len l + 2\<rparr>"
    have "loc_arrays vs ?l" using l by (simp add: loc_arrays_def)
    moreover have "1 \<le> rep0 ?l" "rep0 ?l \<le> DictionarySize vs" using False p(2) by auto
    moreover have n: "remain_len ?l = int (nat (remain_len l + 2))" "0 < nat (remain_len l + 2)" using rem by simp_all
    moreover have "nowPos ?l \<le> cap" using pos by simp
    ultimately obtain l' where "dict_copy_loop vs cap True (nat (remain_len l + 2)) ?l = Some l'" "loc_arrays vs l'"
        "same_regs ?l l'" "nowPos l < nowPos l'" "nowPos l' \<le> cap" "0 \<le> remain_len l'" "remain_len l' \<le> remain_len ?l"
      using copy_loop_safe [OF v, of ?l "nat (remain_len l + 2)" True] pos by auto
    then show ?thesis
      using False p rem x by (auto simp: xz_match_tail_def kMatchMinLen_def step_safe_def loc_safe_def same_regs_def)
  qed
qed

lemma match_tail_safe':
  "vs_safe N cap vs \<Longrightarrow> loc_arrays vs l \<Longrightarrow> nowPos l = p \<Longrightarrow> p < cap \<Longrightarrow> 0 \<le> remain_len l \<Longrightarrow> remain_len l \<le> 271 \<Longrightarrow>
   rc_safe ok N x \<Longrightarrow> step_safe ok N vs cap p (xz_match_tail vs cap l x)"
  using match_tail_safe by blast

lemma short_rep_safe:
  assumes v: "vs_safe N cap vs" and l: "loc_safe vs l" and pos: "nowPos l < cap" and x: "rc_safe ok N x"
  shows "step_safe ok N vs cap (nowPos l) (xz_short_rep vs l x)"
proof -
  let ?l = "\<lambda>b. l\<lparr>xl_state := (if xl_state l < 7 then 9 else 11), previousByte := b\<rparr>"
  from dict_get_safe [OF v, of l] l obtain b where b: "dict_get vs l = Some b" by (auto simp: loc_safe_def)
  have "loc_arrays vs (?l b)" using l by (simp add: loc_safe_def loc_arrays_def)
  from dict_put_safe [OF v this, of b] pos obtain l' where
    "dict_put vs b (?l b) = Some l'" "loc_arrays vs l'" "same_regs (?l b) l'" "nowPos l' = nowPos l + 1" "remain_len l' = remain_len l"
    by auto
  then show ?thesis
    using b l pos x by (auto simp: xz_short_rep_def step_safe_def loc_safe_def same_regs_def XZ_RET_OK_def XZ_RET_DATA_ERR_def)
qed

context total_source begin

lemma rc_yields_cong: "rc_yields ok N P r \<Longrightarrow> r = r' \<Longrightarrow> rc_yields ok N P r'"
  by simp

lemma literal_index:
  assumes "lc + lp \<le> 3"
  shows "Literal + XZ_LIT_SIZE * (push_bit lc (n AND (2 ^ lp - 1)) + unat (drop_bit (8 - lc) (b :: byte))) + 768
    \<le> Literal + XZ_LIT_SIZE * 2 ^ (lc + lp)"
proof -
  define m where "m = n mod 2 ^ lp"
  define q where "q = unat b div 2 ^ (8 - lc)"
  have "(2 :: nat) ^ (lc + (8 - lc)) = 2 ^ lc * 2 ^ (8 - lc)" by (rule power_add)
  then have "unat b < 2 ^ lc * 2 ^ (8 - lc)" using assms unat_byte_less [of b] by simp
  then have q: "q < 2 ^ lc" by (simp add: q_def div_less_iff_less_mult)
  have "m + 1 \<le> 2 ^ lp" by (simp add: m_def Suc_le_eq)
  then have "(m + 1) * 2 ^ lc \<le> 2 ^ lp * 2 ^ lc" by (rule mult_le_mono1)
  then have "m * 2 ^ lc + q + 1 \<le> 2 ^ (lc + lp)" using q by (simp add: power_add ac_simps)
  then have "768 * (m * 2 ^ lc + q + 1) \<le> 768 * 2 ^ (lc + lp)" by (rule mult_le_mono2)
  then show ?thesis
    unfolding and_mask unat_shift m_def [symmetric] q_def [symmetric] by (simp add: push_bit_eq_mult XZ_LIT_SIZE_def)
qed

lemma literal_symbol_safe:
  assumes v: "vs_safe N cap vs" and l: "loc_safe vs l" and pos: "nowPos l < cap" and x: "rc_safe ok N x"
  shows "step_safe ok N vs cap (nowPos l) (xz_literal_symbol rcb vs l x)"
proof -
  define ps where "ps = Literal + XZ_LIT_SIZE * (push_bit (vs_lc vs) (add_u32 (nowPos l) (GlobalPos vs) AND (2 ^ vs_lp vs - 1))
       + unat (drop_bit (8 - vs_lc vs) (previousByte l)))"
  have ps: "ps + 768 \<le> N" using literal_index v by (simp add: ps_def vs_safe_def)
  define l0 where "l0 = l\<lparr>xl_state := (if xl_state l < 4 then 0 else if xl_state l < 10 then xl_state l - 3 else xl_state l - 6)\<rparr>"
  have l0: "loc_safe vs l0" "nowPos l0 = nowPos l" using l by (auto simp: l0_def loc_safe_def loc_arrays_def)
  let ?f = "\<lambda>(b, l, x). do { l \<leftarrow> dict_put vs b (l\<lparr>previousByte := b\<rparr>); Some (Xz_next, l, x) }"
  have put: "step_safe ok N vs cap (nowPos l) (?f (b, l1, x1))"
    if "rc_safe ok N x1" "l1 = l0 \<or> l1 = l0\<lparr>previousIsMatch := False\<rparr>" for b l1 x1
  proof -
    let ?l = "l1\<lparr>previousByte := b\<rparr>"
    have "loc_safe vs ?l" "nowPos ?l = nowPos l" using that(2) l0 by (auto simp: loc_safe_def loc_arrays_def)
    with dict_put_safe [OF v, of ?l b] pos obtain l' where "dict_put vs b ?l = Some l'" "loc_arrays vs l'" "same_regs ?l l'"
        "nowPos l' = nowPos l + 1" "remain_len l' = remain_len ?l"
      by (auto simp: loc_safe_def)
    with \<open>loc_safe vs ?l\<close> that(1) pos show ?thesis by (simp add: step_safe_def loc_safe_def same_regs_def)
  qed
  have eq: "xz_literal_symbol rcb vs l x = do {
      (b, l, x) \<leftarrow> (if previousIsMatch l0 then do {
          matchByte \<leftarrow> dict_get vs l0;
          (b, x) \<leftarrow> xz_literal_decode_match rcb ps matchByte x;
          Some (b, l0\<lparr>previousIsMatch := False\<rparr>, x) }
        else do {
          (b, x) \<leftarrow> xz_literal_decode rcb ps x;
          Some (b, l0, x) });
      l \<leftarrow> dict_put vs b (l\<lparr>previousByte := b\<rparr>);
      Some (Xz_next, l, x) }"
    by (simp only: xz_literal_symbol_def Let_def ps_def [symmetric] l0_def [symmetric])
  from dict_get_safe [OF v, of l0] l0(1) obtain m where m: "dict_get vs l0 = Some m" by (auto simp: loc_safe_def)
  from literal_safe [OF x ps] obtain b x1 b' x2 where
    "xz_literal_decode_match rcb ps m x = Some (b, x1)" "rc_safe ok N x1"
    "xz_literal_decode rcb ps x = Some (b', x2)" "rc_safe ok N x2"
    unfolding rc_yields_def by blast
  then show ?thesis
    using put [of x1 "l0\<lparr>previousIsMatch := False\<rparr>" b] put [of x2 l0 b'] m by (simp add: eq)
qed

lemma rep_index_safe:
  assumes v: "vs_safe N cap vs" and l: "loc_safe vs l" and x: "rc_safe ok N x"
  shows "rc_yields ok N (\<lambda>l'. loc_arrays vs l' \<and> nowPos l' = nowPos l) (xz_rep_index rcb l x)"
proof -
  have "Literal \<le> N" using v by (simp add: vs_safe_def)
  then have i: "IsRepG1 + xl_state l < N" "IsRepG2 + xl_state l < N"
    using l by (simp_all add: loc_safe_def loc_arrays_def context_defs)
  from BitDecode_safe [OF x i(1)] obtain g1 x1 where g1: "RangeDecoderBitDecode rcb (IsRepG1 + xl_state l) x = Some (g1, x1)"
      and x1: "rc_safe ok N x1"
    unfolding rc_yields_def by blast
  from BitDecode_safe [OF x1 i(2)] obtain g2 x2 where g2: "RangeDecoderBitDecode rcb (IsRepG2 + xl_state l) x1 = Some (g2, x2)"
      and x2: "rc_safe ok N x2"
    unfolding rc_yields_def by blast
  from g1 g2 x1 x2 l show ?thesis by (simp add: xz_rep_index_def loc_safe_def loc_arrays_def)
qed

lemma rep_symbol_safe:
  assumes v: "vs_safe N cap vs" and l: "loc_arrays vs l" and pos: "nowPos l < cap" and x: "rc_safe ok N x" and ps: "posState < 16"
  shows "step_safe ok N vs cap (nowPos l) (xz_rep_symbol rcb vs cap posState l x)"
  unfolding xz_rep_symbol_def
proof (rule step_bind, unfold prod.case)
  have "(1 :: nat) \<le> 2 ^ (vs_lc vs + vs_lp vs)" by simp
  then have "RepLenCoder + 770 \<le> N" using v by (simp add: vs_safe_def context_defs XZ_LIT_SIZE_def)
  then show "rc_yields ok N (\<lambda>n. n \<le> 271) (xz_len_decode rcb RepLenCoder posState x)" using x ps by (intro len_safe)
next
  fix len x1
  assume "len \<le> (271 :: nat)" and x1: "rc_safe ok N x1"
  moreover have "loc_arrays vs (l\<lparr>remain_len := int len, xl_state := (if xl_state l < 7 then 8 else 11)\<rparr>)"
    using l by (simp add: loc_arrays_def)
  ultimately show "step_safe ok N vs cap (nowPos l)
      (xz_match_tail vs cap (l\<lparr>remain_len := int len, xl_state := (if xl_state l < 7 then 8 else 11)\<rparr>) x1)"
    using pos by (intro match_tail_safe' [OF v]) simp_all
qed

lemma match_symbol_safe:
  assumes v: "vs_safe N cap vs" and l: "loc_arrays vs l" and pos: "nowPos l < cap" and x: "rc_safe ok N x" and ps: "posState < 16"
  shows "step_safe ok N vs cap (nowPos l) (xz_match_symbol rcb vs cap posState l x)"
  unfolding xz_match_symbol_def
proof (rule step_bind, unfold prod.case)
  have "(1 :: nat) \<le> 2 ^ (vs_lc vs + vs_lp vs)" by simp
  then have N: "LenCoder + 770 \<le> N" "2614 \<le> N" using v by (simp_all add: vs_safe_def context_defs XZ_LIT_SIZE_def)
  then show "rc_yields ok N (\<lambda>n. n \<le> 271) (xz_len_decode rcb LenCoder posState x)" using x ps by (intro len_safe)
  fix len x1
  assume "len \<le> (271 :: nat)" and x1: "rc_safe ok N x1"
  let ?l = "\<lambda>d. l\<lparr>rep3 := rep2 l, rep2 := rep1 l, rep1 := rep0 l, rep0 := d,
       xl_state := (if xl_state l < 7 then 7 else 10), remain_len := int len\<rparr>"
  show "step_safe ok N vs cap (nowPos l) (do {
      (d, x) \<leftarrow> xz_distance rcb len x1;
      xz_match_tail vs cap (?l d) x })"
  proof (rule step_bind [OF distance_safe [OF x1 N(2)]], unfold prod.case)
    fix d x2
    assume "d < (2 :: nat) ^ 32" and "rc_safe ok N x2"
    moreover from this(1) have "loc_arrays vs (?l d)" using l by (simp add: loc_arrays_def)
    ultimately show "step_safe ok N vs cap (nowPos l) (xz_match_tail vs cap (?l d) x2)"
      using pos \<open>len \<le> 271\<close> by (intro match_tail_safe' [OF v]) simp_all
  qed
qed

lemma symbol_safe:
  assumes v: "vs_safe N cap vs" and l: "loc_safe vs l" and pos: "nowPos l < cap" and x: "rc_safe ok N x"
  shows "step_safe ok N vs cap (nowPos l) (xz_symbol rcb vs cap l x)"
proof -
  define ps where "ps = add_u32 (nowPos l) (GlobalPos vs) AND (2 ^ vs_pb vs - 1)"
  have ps: "ps < 16"
  proof -
    have "(2 :: nat) ^ vs_pb vs \<le> 2 ^ 4" using v by (intro power_increasing) (simp_all add: vs_safe_def)
    moreover have "ps < 2 ^ vs_pb vs" unfolding ps_def and_mask by simp
    ultimately show ?thesis by simp
  qed
  have "Literal \<le> N" "xl_state l < 12" using v l by (simp_all add: vs_safe_def loc_safe_def loc_arrays_def)
  then have i: "IsMatch + push_bit kNumPosBitsMax (xl_state l) + ps < N" "IsRep + xl_state l < N" "IsRepG0 + xl_state l < N"
      "IsRep0Long + push_bit kNumPosBitsMax (xl_state l) + ps < N"
    using ps by (simp_all add: context_defs push_bit_eq_mult)
  define l1 where "l1 = l\<lparr>previousIsMatch := True\<rparr>"
  have l1: "loc_safe vs l1" "loc_arrays vs l1" "nowPos l1 = nowPos l"
    using l by (simp_all add: l1_def loc_safe_def loc_arrays_def)
  have long: "step_safe ok N vs cap (nowPos l) (do {
      (long, x) \<leftarrow> RangeDecoderBitDecode rcb (IsRep0Long + push_bit kNumPosBitsMax (xl_state l) + ps) x;
      if long = 0 then xz_short_rep vs l1 x else xz_rep_symbol rcb vs cap ps l1 x })" if "rc_safe ok N x" for x
    using short_rep_safe [OF v l1(1), of ok] rep_symbol_safe [OF v l1(2) _ _ ps] pos l1(3)
    by (intro step_bind [OF BitDecode_safe [OF that i(4)]]) simp
  have other: "step_safe ok N vs cap (nowPos l) (do {
      (l, x) \<leftarrow> xz_rep_index rcb l1 x;
      xz_rep_symbol rcb vs cap ps l x })" if "rc_safe ok N x" for x
  proof (rule step_bind [OF rep_index_safe [OF v l1(1) that]], unfold prod.case)
    fix l2 x2
    assume "loc_arrays vs l2 \<and> nowPos l2 = nowPos l1" and "rc_safe ok N x2"
    with rep_symbol_safe [OF v, of l2 x2 ps] ps pos l1(3)
    show "step_safe ok N vs cap (nowPos l) (xz_rep_symbol rcb vs cap ps l2 x2)" by simp
  qed
  have rep: "step_safe ok N vs cap (nowPos l) (do {
      (rep, x) \<leftarrow> RangeDecoderBitDecode rcb (IsRep + xl_state l) x;
      if rep = 1 then do {
        (g0, x) \<leftarrow> RangeDecoderBitDecode rcb (IsRepG0 + xl_state l) x;
        if g0 = 0 then do {
          (long, x) \<leftarrow> RangeDecoderBitDecode rcb (IsRep0Long + push_bit kNumPosBitsMax (xl_state l) + ps) x;
          if long = 0 then xz_short_rep vs l1 x else xz_rep_symbol rcb vs cap ps l1 x }
        else do {
          (l, x) \<leftarrow> xz_rep_index rcb l1 x;
          xz_rep_symbol rcb vs cap ps l x } }
      else xz_match_symbol rcb vs cap ps l1 x })" if "rc_safe ok N x" for x
  proof (rule step_bind [OF BitDecode_safe [OF that i(2)]], unfold prod.case, split if_split, intro conjI impI)
    fix x2
    assume x2: "rc_safe ok N x2"
    show "step_safe ok N vs cap (nowPos l) (xz_match_symbol rcb vs cap ps l1 x2)"
      using match_symbol_safe [OF v l1(2) _ x2 ps] pos l1(3) by simp
  qed (rule step_bind [OF BitDecode_safe [OF _ i(3)]], assumption, use long other in simp)
  have "step_safe ok N vs cap (nowPos l) (do {
      (match, x) \<leftarrow> RangeDecoderBitDecode rcb (IsMatch + push_bit kNumPosBitsMax (xl_state l) + ps) x;
      if match = 0 then xz_literal_symbol rcb vs l x
      else do {
        (rep, x) \<leftarrow> RangeDecoderBitDecode rcb (IsRep + xl_state l) x;
        if rep = 1 then do {
          (g0, x) \<leftarrow> RangeDecoderBitDecode rcb (IsRepG0 + xl_state l) x;
          if g0 = 0 then do {
            (long, x) \<leftarrow> RangeDecoderBitDecode rcb (IsRep0Long + push_bit kNumPosBitsMax (xl_state l) + ps) x;
            if long = 0 then xz_short_rep vs l1 x else xz_rep_symbol rcb vs cap ps l1 x }
          else do {
            (l, x) \<leftarrow> xz_rep_index rcb l1 x;
            xz_rep_symbol rcb vs cap ps l x } }
        else xz_match_symbol rcb vs cap ps l1 x } })"
    using literal_symbol_safe [OF v l pos] rep by (intro step_bind [OF BitDecode_safe [OF x i(1)]]) simp
  moreover have "step_safe ok N vs cap (nowPos l) (Some (Xz_return e, l, x))" if "e \<noteq> XZ_RET_OK" for e
    using that x by (simp add: step_safe_def)
  ultimately show ?thesis
    unfolding xz_symbol_def Let_def ps_def [symmetric] l1_def [symmetric]
    by (simp add: XZ_RET_OK_def XZ_RET_DATA_ERR_def)
qed

text \<open>The main loop returns: every turn that goes on yields a byte.\<close>

lemma decode_loop_safe:
  "vs_safe N cap vs \<Longrightarrow> loc_safe vs l \<Longrightarrow> nowPos l \<le> cap \<Longrightarrow> rc_safe ok N x \<Longrightarrow> cap - nowPos l \<le> fuel \<Longrightarrow>
   \<exists>ret l' x'. xz_decode_loop fuel rcb vs cap l x = Some (ret, l', x') \<and> rc_safe ok N x'
     \<and> (case ret of None \<Rightarrow> loc_arrays vs l' \<and> nowPos l' \<le> cap \<and> (remain_len l' = - 1 \<or> loc_safe vs l')
        | Some e \<Rightarrow> e \<noteq> XZ_RET_OK)"
proof (induction fuel arbitrary: l x)
  case 0
  then show ?case by (subst xz_decode_loop.simps) (simp add: loc_safe_def)
next
  case (Suc fuel)
  show ?case
  proof (cases "nowPos l < cap")
    case False
    with Suc.prems show ?thesis by (subst xz_decode_loop.simps) (simp add: loc_safe_def)
  next
    case True
    from symbol_safe [OF Suc.prems(1,2) True Suc.prems(4)] obtain st l1 x1 where
      s1: "xz_symbol rcb vs cap l x = Some (st, l1, x1)" "rc_safe ok N x1"
        "case st of Xz_next \<Rightarrow> loc_safe vs l1 \<and> nowPos l < nowPos l1 \<and> nowPos l1 \<le> cap
         | Xz_break \<Rightarrow> loc_arrays vs l1 \<and> nowPos l1 = nowPos l \<and> remain_len l1 = - 1 | Xz_return e \<Rightarrow> e \<noteq> XZ_RET_OK"
      unfolding step_safe_def by blast
    show ?thesis
    proof (cases st)
      case Xz_next
      with s1(3) have l1: "loc_safe vs l1" "nowPos l < nowPos l1" "nowPos l1 \<le> cap" by simp_all
      then have "cap - nowPos l1 \<le> fuel" using Suc.prems(5) by linarith
      from Suc.IH [OF Suc.prems(1) l1(1,3) s1(2) this] True s1(1) Xz_next show ?thesis
        by (subst xz_decode_loop.simps) simp
    qed (use s1 True in \<open>subst xz_decode_loop.simps, simp\<close>)+
  qed
qed

end

section \<open>Blocks\<close>

text \<open>Between two blocks; \<open>RemainLen = -1\<close> marks the end of the stream.\<close>

definition dec_safe :: "('s \<Rightarrow> bool) \<Rightarrow> nat \<Rightarrow> 's xz_dec \<Rightarrow> bool" where
  "dec_safe ok N d \<longleftrightarrow> (let vs = xd_vs d in
     vs_safe N 0 vs \<and> rc_safe ok N \<lparr>rdec = RangeDecoder vs, probs = xd_probs d, cbst = xd_cb d\<rparr>
     \<and> loc_arrays vs (xz_locals d) \<and> (RemainLen vs = - 1 \<or> loc_safe vs (xz_locals d)))"

lemma xz_locals_fields:
  "out_stream (xz_locals d) = xd_block d" "remain_len (xz_locals d) = RemainLen (xd_vs d)" "nowPos (xz_locals d) = 0"
  by (cases "Reps (xd_vs d)"; simp add: xz_locals_def Let_def)+

lemma dec_safe_cb: "dec_safe ok N d \<Longrightarrow> ok' s \<Longrightarrow> dec_safe ok' N (d\<lparr>xd_cb := s\<rparr>)"
  by (simp add: dec_safe_def Let_def rc_safe_def xz_locals_def split: prod.splits)

lemma last_byte_safe:
  assumes "vs_safe N cap vs" and "loc_arrays vs l"
  shows "\<exists>b. last_dict_byte vs l = Some b"
proof -
  have "sub_u32 (DictionarySize vs) 1 = DictionarySize vs - 1"
    using assms(1) by (simp add: vs_safe_def DICT_BUF_SIZE_def wrap_simps)
  with assms show ?thesis by (auto simp: last_dict_byte_def Let_def vs_safe_def loc_arrays_def)
qed

context total_source begin

lemma xz_decode_safe:
  assumes d: "dec_safe ok N d" and k: "k \<le> BLOCK_BUF_SIZE" "GlobalPos (xd_vs d) + k \<le> DictionarySize (xd_vs d)"
  shows "\<exists>ret m d'. xz_decode rcb k d = Some (ret, m, d') \<and> ok (xd_cb d')
    \<and> (ret = XZ_RET_OK \<longrightarrow> m \<le> k \<and> dec_safe ok N d' \<and> GlobalPos (xd_vs d') = GlobalPos (xd_vs d) + m
         \<and> DictionarySize (xd_vs d') = DictionarySize (xd_vs d))"
proof (cases "RemainLen (xd_vs d) = - 1")
  case True
  then have "remain_len (xz_locals d) = - 1" by (simp add: xz_locals_fields)
  then show ?thesis using d by (simp add: xz_decode_def Let_def dec_safe_def rc_safe_def)
next
  case False
  define vs where "vs = xd_vs d"
  define l0 where "l0 = xz_locals d"
  define x0 where "x0 = \<lparr>rdec = RangeDecoder vs, probs = xd_probs d, cbst = xd_cb d\<rparr>"
  have f: "remain_len l0 = RemainLen vs" "nowPos l0 = 0" by (simp_all add: l0_def vs_def xz_locals_fields)
  have v: "vs_safe N k vs" and l0: "loc_safe vs l0" and x0: "rc_safe ok N x0"
    using d k False by (auto simp: dec_safe_def Let_def vs_safe_def vs_def l0_def x0_def)
  have "remain_len l0 = int (nat (remain_len l0))" using l0 by (simp add: loc_safe_def)
  from copy_loop_safe [OF v _ _ _ this, of False] l0 f obtain l1 where
    l1: "dict_copy_loop vs k False (nat (remain_len l0)) l0 = Some l1" "loc_arrays vs l1" "same_regs l0 l1" "nowPos l1 \<le> k"
      "0 \<le> remain_len l1" "remain_len l1 \<le> remain_len l0"
    by (auto simp: loc_safe_def)
  from last_byte_safe [OF v l1(2)] obtain b where b: "last_dict_byte vs l1 = Some b" by blast
  let ?l = "l1\<lparr>previousByte := b\<rparr>"
  have "loc_safe vs ?l" using l1 l0 by (simp add: loc_safe_def loc_arrays_def same_regs_def)
  from decode_loop_safe [OF v this _ x0, of k] l1(4) obtain ret l2 x2 where
    loop: "xz_decode_loop k rcb vs k ?l x0 = Some (ret, l2, x2)" "rc_safe ok N x2"
      "case ret of None \<Rightarrow> loc_arrays vs l2 \<and> nowPos l2 \<le> k \<and> (remain_len l2 = - 1 \<or> loc_safe vs l2)
       | Some e \<Rightarrow> e \<noteq> XZ_RET_OK"
    by auto
  define d1 where "d1 = d\<lparr>xd_probs := probs x2, xd_dict := dict_mem l2, xd_block := out_stream l2, xd_cb := cbst x2\<rparr>"
  have eq: "xz_decode rcb k d = (case ret of
      Some e \<Rightarrow> Some (e, 0, d1)
    | None \<Rightarrow> Some (XZ_RET_OK, nowPos l2, d1\<lparr>xd_vs := vs\<lparr>RangeDecoder := rdec x2, DictionaryPos := dictionaryPos l2,
        GlobalPos := add_u32 (GlobalPos vs) (nowPos l2), Reps := (rep0 l2, rep1 l2, rep2 l2, rep3 l2),
        State := xl_state l2, PreviousIsMatch := previousIsMatch l2, RemainLen := remain_len l2\<rparr>\<rparr>))"
    using False l1(1) b loop(1) f
    by (simp add: xz_decode_def vs_def [symmetric] l0_def [symmetric] x0_def [symmetric] d1_def Let_def split: option.split)
  show ?thesis
  proof (cases ret)
    case (Some e)
    with eq loop(2,3) show ?thesis by (simp add: d1_def rc_safe_def)
  next
    case None
    with loop(3) have p: "nowPos l2 \<le> k" and l2: "loc_arrays vs l2" "remain_len l2 = - 1 \<or> loc_safe vs l2" by simp_all
    have "add_u32 (GlobalPos vs) (nowPos l2) = GlobalPos vs + nowPos l2"
      using v p by (simp add: vs_safe_def DICT_BUF_SIZE_def wrap_simps)
    moreover have "GlobalPos vs + nowPos l2 \<le> DictionarySize vs" using v p by (simp add: vs_safe_def)
    ultimately show ?thesis
      using eq None p l2 v loop(2)
      by (auto simp: d1_def dec_safe_def Let_def vs_safe_def rc_safe_def xz_locals_def loc_arrays_def loc_safe_def vs_def)
  qed
qed

end

text \<open>
  The contract of two callbacks that always return: \<open>ok n s\<close> holds of the caller's state when \<open>n\<close>
  bytes have been written, and up to \<open>limit\<close> of them can be.
\<close>

locale total_client =
  fixes rcb :: "'s read_cb" and wcb :: "'s write_cb" and ok :: "nat \<Rightarrow> 's \<Rightarrow> bool" and limit :: nat
  assumes read_returns: "ok n s \<Longrightarrow> \<exists>ret bs s'. rcb s = Some (ret, bs, s') \<and> ok n s'"
    and write_returns: "ok n s \<Longrightarrow> bs \<noteq> [] \<Longrightarrow> n + length bs \<le> limit \<Longrightarrow>
      \<exists>s'. wcb n bs s = Some s' \<and> ok (n + length bs) s'"

sublocale total_client \<subseteq> reads: total_source rcb "ok n" for n
  by unfold_locales (rule read_returns)

context total_client begin

lemma xz_blocks_safe:
  "dec_safe (ok n) N d \<Longrightarrow> GlobalPos (xd_vs d) = n \<Longrightarrow> out_size \<le> DictionarySize (xd_vs d) \<Longrightarrow> out_size \<le> limit \<Longrightarrow>
   out_size - n \<le> fuel \<Longrightarrow> \<exists>ret d' m. xz_blocks fuel wcb rcb out_size n d = Some (ret, d') \<and> ok m (xd_cb d')"
proof (induction fuel arbitrary: n d)
  case 0
  then show ?case by (subst xz_blocks.simps) (auto simp: dec_safe_def Let_def rc_safe_def)
next
  case (Suc fuel)
  show ?case
  proof (cases "n < out_size")
    case False
    with Suc.prems(1) show ?thesis by (subst xz_blocks.simps) (auto simp: dec_safe_def Let_def rc_safe_def)
  next
    case True
    define k where "k = (if out_size - n > BLOCK_BUF_SIZE then BLOCK_BUF_SIZE else out_size - n)"
    have k: "k \<le> BLOCK_BUF_SIZE" "n + k \<le> out_size" using True by (auto simp: k_def)
    then have "GlobalPos (xd_vs d) + k \<le> DictionarySize (xd_vs d)" using Suc.prems(2,3) by linarith
    from reads.xz_decode_safe [OF Suc.prems(1) k(1) this] obtain ret m d1 where
      d1: "xz_decode rcb k d = Some (ret, m, d1)" "ok n (xd_cb d1)"
        "ret = XZ_RET_OK \<Longrightarrow> m \<le> k \<and> dec_safe (ok n) N d1 \<and> GlobalPos (xd_vs d1) = GlobalPos (xd_vs d) + m
           \<and> DictionarySize (xd_vs d1) = DictionarySize (xd_vs d)"
      by blast
    show ?thesis
    proof (cases "ret = XZ_RET_OK \<and> m \<noteq> 0")
      case False
      then show ?thesis
        using True d1(1,2) by (subst xz_blocks.simps) (auto simp: k_def [symmetric] Let_def)
    next
      case m: True
      with d1(3) have s1: "m \<le> k" "dec_safe (ok n) N d1" "GlobalPos (xd_vs d1) = n + m"
          "DictionarySize (xd_vs d1) = DictionarySize (xd_vs d)"
        using Suc.prems(2) by simp_all
      have len: "length (take m (xd_block d1)) = m"
      proof -
        have "length (out_stream (xz_locals d1)) = BLOCK_BUF_SIZE" using s1(2) by (simp add: dec_safe_def Let_def loc_arrays_def)
        then have "length (xd_block d1) = BLOCK_BUF_SIZE" by (simp add: xz_locals_fields)
        then show ?thesis using s1(1) k(1) by simp
      qed
      moreover have "take m (xd_block d1) \<noteq> []" using len m by auto
      moreover have "n + m \<le> limit" using s1(1) k(2) Suc.prems(4) by linarith
      ultimately obtain s' where s': "wcb n (take m (xd_block d1)) (xd_cb d1) = Some s'" "ok (n + m) s'"
        using write_returns [OF d1(2), of "take m (xd_block d1)"] by auto
      define d2 where "d2 = d1\<lparr>xd_cb := s'\<rparr>"
      have d2: "dec_safe (ok (n + m)) N d2" "GlobalPos (xd_vs d2) = n + m" "out_size \<le> DictionarySize (xd_vs d2)"
        using dec_safe_cb [OF s1(2), of "ok (n + m)" s'] s'(2) s1(3,4) Suc.prems(3) by (simp_all add: d2_def)
      have "out_size - (n + m) \<le> fuel" using Suc.prems(5) m by linarith
      from Suc.IH [OF d2 Suc.prems(4) this] show ?thesis
        using True d1(1) m s'(1) by (subst xz_blocks.simps) (simp add: k_def [symmetric] Let_def d2_def)
    qed
  qed
qed

lemma decompress_safe:
  assumes fit: "le_val (bslice 5 4 header) \<le> le_val (bslice 1 4 header)" "le_val (bslice 5 4 header) \<le> limit"
    and s: "ok 0 s"
  shows "\<exists>ret s' n. xz_decompress_buf_to_buf header wcb rcb s = Some (ret, s') \<and> ok n s'"
proof -
  define dsz where "dsz = le_val (bslice 1 4 header)"
  define out where "out = le_val (bslice 5 4 header)"
  define prop0 where "prop0 = unat (header ! 0)"
  define pb lp lc where "pb = prop0 div (9 * 5)" and "lp = prop0 mod (9 * 5) div 9" and "lc = prop0 mod 9"
  define size where "size = (XZ_BASE_SIZE + XZ_LIT_SIZE * 2 ^ (lc + lp)) * 2 + sizeof_XzVarState"
  define r0 where "r0 = \<lparr>Buffer = [], Range = 0, Code = 0, read_cb_ret = 0, ExtraBytes = 0\<rparr>"
  note eq = xz_decompress_buf_to_buf_def [of header wcb rcb s, unfolded Let_def, folded dsz_def out_def prop0_def,
      folded pb_def lp_def lc_def, folded size_def r0_def]
  have "rc_safe (ok 0) 0 \<lparr>rdec = r0\<lparr>Buffer := [], ExtraBytes := 0, Code := 0, Range := 0xFFFFFFFF\<rparr>, probs = [], cbst = s\<rparr>"
    using s by (simp add: rc_safe_def probs_ok_def)
  from reads.init_loop_safe [OF this, of 5] obtain x where
    x: "RangeDecoderInit rcb \<lparr>rdec = r0, probs = [], cbst = s\<rparr> = Some x" "rc_safe (ok 0) 0 x"
    by (auto simp: RangeDecoderInit_def)
  define N where "N = Literal + XZ_LIT_SIZE * 2 ^ (lc + lp)"
  have dec: "\<exists>ret d' m. xz_blocks out wcb rcb out 0 (xz_initial dsz lc lp pb (rdec x) (cbst x)) = Some (ret, d') \<and> ok m (xd_cb d')"
    if c: "prop0 < 9 * 5 * 5" "dsz \<le> DICT_BUF_SIZE" "size < INTERNAL_DATA_BUF_SIZE"
  proof (cases "out = 0")
    case True
    with x(2) show ?thesis by (subst xz_blocks.simps) (auto simp: xz_initial_def rc_safe_def)
  next
    case False
    have "(2 :: nat) ^ (lc + lp) < 2 ^ 4"
      using c(3) by (simp add: size_def XZ_BASE_SIZE_def XZ_LIT_SIZE_def sizeof_XzVarState_def INTERNAL_DATA_BUF_SIZE_def)
    then have l: "lc + lp \<le> 3" by (simp only: power_strict_increasing_iff)
    have "pb \<le> 4" using c(1) by (simp add: pb_def)
    with l False fit c(2) have v: "vs_safe N 0 (xd_vs (xz_initial dsz lc lp pb (rdec x) (cbst x)))"
      by (simp add: vs_safe_def xz_initial_def N_def dsz_def out_def)
    moreover have "loc_safe (xd_vs (xz_initial dsz lc lp pb (rdec x) (cbst x))) (xz_locals (xz_initial dsz lc lp pb (rdec x) (cbst x)))"
      using v by (simp add: xz_initial_def xz_locals_def loc_safe_def loc_arrays_def vs_safe_def)
    ultimately have "dec_safe (ok 0) N (xz_initial dsz lc lp pb (rdec x) (cbst x))"
      using x(2) by (simp add: dec_safe_def Let_def loc_safe_def rc_safe_def) (simp add: xz_initial_def N_def)
    from xz_blocks_safe [OF this, of out out] fit show ?thesis by (simp add: xz_initial_def dsz_def out_def)
  qed
  show ?thesis
  proof (cases "out = 0xFFFFFFFF \<or> bslice 9 4 header \<noteq> [0, 0, 0, 0] \<or> prop0 \<ge> 9 * 5 * 5 \<or> dsz > DICT_BUF_SIZE
      \<or> size \<ge> INTERNAL_DATA_BUF_SIZE")
    case True
    then show ?thesis using s unfolding eq by auto
  next
    case False
    with dec obtain ret d' m where "xz_blocks out wcb rcb out 0 (xz_initial dsz lc lp pb (rdec x) (cbst x)) = Some (ret, d')"
        "ok m (xd_cb d')" by auto
    with False x(1) show ?thesis unfolding eq by auto
  qed
qed

end

section \<open>Properties\<close>

text \<open>
  C12: the decompressor is safe on every input.  Whatever bytes the read callback yields (damaged,
  truncated, not compressed data at all), and whatever the 13 bytes of the header are as long as
  the output is not longer than the dictionary, it returns: no access leaves the probability
  table, the dictionary or the block, no loop runs for ever, no shift or sum leaves its 32 bits
  unnoticed, and the write callback is never asked for more than the size in the header.
\<close>

theorem xz_safe_on_any_input:
  assumes "\<And>n s. ok n s \<Longrightarrow> \<exists>ret bs s'. rcb s = Some (ret, bs, s') \<and> ok n s'"
    and "\<And>n s bs. ok n s \<Longrightarrow> bs \<noteq> [] \<Longrightarrow> n + length bs \<le> le_val (bslice 5 4 header) \<Longrightarrow>
      \<exists>s'. wcb n bs s = Some s' \<and> ok (n + length bs) s'"
    and "le_val (bslice 5 4 header) \<le> le_val (bslice 1 4 header)" and "ok 0 s"
  shows "\<exists>ret s' n. xz_decompress_buf_to_buf header wcb rcb s = Some (ret, s') \<and> ok n s'"
  using total_client.decompress_safe [of rcb wcb ok "le_val (bslice 5 4 header)" header s] assms
  by (simp add: total_client_def)

text \<open>The lists of \<open>Xz_Correct\<close> with input that is no compressed file.\<close>

lemma xz_safe_on_any_input_witness:
  "\<exists>ret s'. xz_decompress_buf_to_buf (lz_header 0 0 0 4096 4095) ex_write ex_read (replicate 50 7, []) = Some (ret, s')
    \<and> length (snd s') \<le> 4095"
proof -
  have "le_val (bslice 5 4 (lz_header 0 0 0 4096 4095)) = 4095" "le_val (bslice 1 4 (lz_header 0 0 0 4096 4095)) = 4096"
    by (simp_all add: lz_header_def bslice_def le_simps)
  then show ?thesis
    using xz_safe_on_any_input [of "\<lambda>n s. length (snd s) = n \<and> n \<le> 4095" ex_read "lz_header 0 0 0 4096 4095" ex_write
        "(replicate 50 7, [])"]
    by (auto simp: ex_read_def ex_write_def)
qed

text \<open>
  What the check of the distance misses.  A distance that the output so far admits, but that
  is larger than the dictionary, passes; with less than their difference in the ring, the copy
  then reads outside the dictionary.
\<close>

lemma xz_distance_outside_dictionary:
  assumes "DictionarySize vs < rep0 l" and "rep0 l \<le> add_u32 (nowPos l) (GlobalPos vs)"
    and "dictionaryPos l + DictionarySize vs < rep0 l" and "rep0 l < 2 ^ 31" and "length (dict_mem l) = DICT_BUF_SIZE"
    and "0 \<le> remain_len l" and "nowPos l < out_size"
  shows "xz_match_tail vs out_size l x = None"
proof -
  define pos where "pos = 2 ^ 32 + dictionaryPos l - rep0 l"
  have p: "2 ^ 31 < pos" "pos + DictionarySize vs < 2 ^ 32" "DictionarySize vs < 2 ^ 31"
    using assms(1,3,4) by (simp_all add: pos_def)
  have "sub_u32 (dictionaryPos l) (rep0 l) = pos"
    using assms(3,4) by (simp add: sub_u32_def pos_def)
  moreover have "add_u32 pos (DictionarySize vs) = pos + DictionarySize vs" using p(2) by (rule add_u32_nocarry)
  ultimately have out: "dict_get vs (l\<lparr>remain_len := r\<rparr>) = None" for r
    using p assms(5) by (simp add: dict_get_def Let_def DICT_BUF_SIZE_def)
  define n where "n = nat (remain_len l + 2) - 1"
  have "nat (remain_len l + int kMatchMinLen) = Suc n" using assms(6) by (simp add: n_def kMatchMinLen_def)
  then show ?thesis
    using assms(1,2,6,7) out by (simp add: xz_match_tail_def kMatchMinLen_def)
qed

lemma xz_distance_outside_dictionary_witness:
  "xz_match_tail \<lparr>RangeDecoder = \<lparr>Buffer = [], Range = 0, Code = 0, read_cb_ret = 0, ExtraBytes = 0\<rparr>, DictionarySize = 4096,
      DictionaryPos = 100, GlobalPos = 8292, Reps = (1, 1, 1, 1), vs_lc = 0, vs_lp = 0, vs_pb = 0, State = 0,
      PreviousIsMatch = True, RemainLen = 0\<rparr> 1024
    \<lparr>out_stream = replicate BLOCK_BUF_SIZE 0, dict_mem = replicate DICT_BUF_SIZE 0, xl_state = 7, previousIsMatch = True,
      rep0 = 5000, rep1 = 1, rep2 = 1, rep3 = 1, nowPos = 0, previousByte = 0, remain_len = 0, dictionaryPos = 100\<rparr>
    \<lparr>rdec = \<lparr>Buffer = [], Range = 0, Code = 0, read_cb_ret = 0, ExtraBytes = 0\<rparr>, probs = [], cbst = ()\<rparr> = None"
  by (rule xz_distance_outside_dictionary) (simp_all add: wrap_simps)

end
