(* ===== verification/Ota_Xz.thy ===== *)
theory Ota_Xz
  imports Ota_Correct Xz_Safe
begin

text \<open>
  Compressed updates: the update agent with the decompressor of \<^verbatim>\<open>xz_decompress.c\<close>.  The callbacks of
  the agent fulfil the contract \<open>xz_client\<close>, so the restore writes the header and the expanded image
  behind the erased partition (an interpretation of \<open>update_kind\<close>), and the sequences of boots of
  \<open>Ota_Correct\<close> apply.
\<close>

section \<open>The callbacks\<close>

text \<open>
  \<open>s0\<close> is the state in front of the decompression: \<open>dst\<close> has been programmed behind the header of
  the application and \<open>src\<close> is left of the compressed data.
\<close>

definition ota_client :: "ota \<Rightarrow> nat \<Rightarrow> byte list \<Rightarrow> byte list \<Rightarrow> ota \<Rightarrow> bool" where
  "ota_client s0 lim src dst s \<longleftrightarrow>
     (let a = start_addr (partition_info_app s0) + 256; b = start_addr (partition_info_ota s0) + 256;
          n = img_size_orig_xz (ota_header s0); r = xz_already_read s
      in a + lim \<le> FALSH_SIZE_MAX \<and> b + n \<le> FALSH_SIZE_MAX \<and> (a + lim \<le> b \<or> b + n \<le> a) \<and> length dst \<le> lim
         \<and> r \<le> n \<and> src = drop r (nor_read (ota_cells s0) b n)
         \<and> s = (ota_run (prog_ops a dst) s0)\<lparr>xz_already_read := r, xz_already_write := length dst\<rparr>)"

lemma ota_run_counters:
  "ota_run ops (s\<lparr>xz_already_read := r, xz_already_write := w\<rparr>)
    = (ota_run ops s)\<lparr>xz_already_read := r, xz_already_write := w\<rparr>"
  by (simp add: ota_run_def)

lemma ota_counters [simp]:
  "ota_cells (s\<lparr>xz_already_read := r, xz_already_write := w\<rparr>) = ota_cells s"
  "ota_cells (s\<lparr>xz_already_read := r\<rparr>) = ota_cells s"
  by (simp_all add: ota_cells_def)

lemma ota_client_read:
  assumes c: "ota_client s0 lim src dst s" and ne: "src \<noteq> []"
  shows "\<exists>chunk rest s'. decompress_read_cb s = Some (XZ_RET_OK, chunk, s') \<and> chunk \<noteq> [] \<and> src = chunk @ rest
    \<and> ota_client s0 lim rest dst s'"
proof -
  define a where "a = start_addr (partition_info_app s0) + 256"
  define b where "b = start_addr (partition_info_ota s0) + 256"
  define n where "n = img_size_orig_xz (ota_header s0)"
  define r where "r = xz_already_read s"
  from c have f: "a + lim \<le> FALSH_SIZE_MAX" "b + n \<le> FALSH_SIZE_MAX" "a + lim \<le> b \<or> b + n \<le> a" "length dst \<le> lim"
      "r \<le> n" "src = drop r (nor_read (ota_cells s0) b n)"
      "s = (ota_run (prog_ops a dst) s0)\<lparr>xz_already_read := r, xz_already_write := length dst\<rparr>"
    by (simp_all add: ota_client_def Let_def a_def b_def n_def r_def)
  from f(5,6) ne have rn: "r < n" by (cases "r = n") auto
  define k where "k = min 4096 (n - r)"
  have k: "0 < k" "r + k \<le> n" using rn by (simp_all add: k_def)
  have small: "n \<le> 2 ^ 22" "b \<le> 2 ^ 22" using f(2) by (simp_all add: FALSH_SIZE_MAX_def)
  have parts: "ota_header s = ota_header s0" "partition_info_ota s = partition_info_ota s0" "xz_already_read s = r"
    using f(7) by simp_all
  have tmp: "sub_u32 n r = n - r" using rn small by (simp add: wrap_simps)
  have len: "(if n - r < 2 ^ 31 \<and> n - r > LEN_4KB then LEN_4KB else n - r) = k"
  proof -
    have "n - r < 2 ^ 31" using small by simp
    then show ?thesis by (auto simp: k_def LEN_4KB_def min_def)
  qed
  have addr: "add_u32 (add_u32 (start_addr (partition_info_ota s0)) sizeof_image_hdr) r = b + r"
    using rn small by (simp add: b_def sizeof_image_hdr_def wrap_simps)
  have upd: "add_u32 r k = r + k" using k small by (simp add: wrap_simps)
  have "nor_read (ota_cells s) (b + r) k = nor_read (ota_cells s0) (b + r) k"
    unfolding f(7) ota_counters using f(3,4) k
    by (intro ota_read_run_other [of a "a + length dst"]) (auto simp: mop_simps)
  moreover have "b + r + k \<le> FALSH_SIZE_MAX" using k f(2) by simp
  ultimately have rd: "ota_flash_read s (b + r) k = Some (nor_read (ota_cells s0) (b + r) k)"
    by (simp add: ota_read_eq)
  have buf: "\<not> k > LEN_4KB" by (simp add: k_def LEN_4KB_def)
  have cb: "decompress_read_cb s = Some (XZ_RET_OK, nor_read (ota_cells s0) (b + r) k, s\<lparr>xz_already_read := r + k\<rparr>)"
    unfolding decompress_read_cb_def Let_def parts n_def [symmetric] tmp len addr rd upd using buf by simp
  have split: "src = nor_read (ota_cells s0) (b + r) k @ drop (r + k) (nor_read (ota_cells s0) b n)"
  proof -
    have "nor_read (ota_cells s0) b (r + (k + (n - (r + k)))) = nor_read (ota_cells s0) b r
        @ nor_read (ota_cells s0) (b + r) k @ nor_read (ota_cells s0) (b + r + k) (n - (r + k))"
      by (simp only: nor_read_add)
    moreover have "r + (k + (n - (r + k))) = n" using k by simp
    ultimately show ?thesis using f(6) by simp
  qed
  have "ota_client s0 lim (drop (r + k) (nor_read (ota_cells s0) b n)) dst (s\<lparr>xz_already_read := r + k\<rparr>)"
    using f(1-4) k(2) by (simp add: ota_client_def Let_def a_def [symmetric] b_def [symmetric] n_def [symmetric]) (simp add: f(7))
  moreover have "nor_read (ota_cells s0) (b + r) k \<noteq> []" using k(1) by (metis length_nor_read list.size(3) less_numeral_extra(3))
  ultimately show ?thesis using cb split by blast
qed

lemma ota_client_write:
  assumes c: "ota_client s0 lim src dst s" and ne: "bs \<noteq> []" and len: "length dst + length bs \<le> lim"
  shows "\<exists>s'. decompress_write_cb (length dst) bs s = Some s' \<and> ota_client s0 lim src (dst @ bs) s'"
proof -
  define a where "a = start_addr (partition_info_app s0) + 256"
  define b where "b = start_addr (partition_info_ota s0) + 256"
  define n where "n = img_size_orig_xz (ota_header s0)"
  define r where "r = xz_already_read s"
  from c have f: "a + lim \<le> FALSH_SIZE_MAX" "b + n \<le> FALSH_SIZE_MAX" "a + lim \<le> b \<or> b + n \<le> a" "length dst \<le> lim"
      "r \<le> n" "src = drop r (nor_read (ota_cells s0) b n)"
      "s = (ota_run (prog_ops a dst) s0)\<lparr>xz_already_read := r, xz_already_write := length dst\<rparr>"
    by (simp_all add: ota_client_def Let_def a_def b_def n_def r_def)
  have lim: "a + length dst + length bs \<le> 2 ^ 22" using f(1) len by (simp add: FALSH_SIZE_MAX_def)
  have parts: "partition_info_app s = partition_info_app s0" "xz_already_write s = length dst"
    using f(7) by simp_all
  have addr: "add_u32 (add_u32 (start_addr (partition_info_app s0)) sizeof_image_hdr) (length dst) = a + length dst"
    using lim by (simp add: a_def sizeof_image_hdr_def wrap_simps)
  have upd: "add_u32 (length dst) (length bs) = length dst + length bs" using lim by (simp add: wrap_simps)
  have "0 < length bs" using ne by simp
  then have "a + length dst + length bs \<le> FALSH_SIZE_MAX" "a + length dst < FALSH_SIZE_MAX" using f(1) len by linarith+
  then have wr: "ota_flash_write s (a + length dst) bs = Some (ota_run (prog_ops (a + length dst) bs) s)"
    by (rule ota_write_eq)
  let ?s = "(ota_run (prog_ops a (dst @ bs)) s0)\<lparr>xz_already_read := r, xz_already_write := length (dst @ bs)\<rparr>"
  have run: "(ota_run (prog_ops (a + length dst) bs) s)\<lparr>xz_already_write := length dst + length bs\<rparr> = ?s"
    unfolding f(7) ota_run_counters by (simp add: ota_run_append prog_ops_append)
  have "decompress_write_cb (length dst) bs s = Some ?s"
    unfolding decompress_write_cb_def parts addr wr upd using run by (simp add: parts(2) upd)
  moreover have "ota_client s0 lim src (dst @ bs) ?s"
    using f(1-3,5,6) len by (simp add: ota_client_def Let_def a_def b_def n_def)
  ultimately show ?thesis by blast
qed

interpretation ota_io: xz_client decompress_read_cb decompress_write_cb "ota_client s0 lim" lim for s0 lim
  by unfold_locales (rule ota_client_read, assumption+, rule ota_client_write)

text \<open>
  On any data in the update partition the callbacks return, and no byte outside the \<open>lim\<close> bytes behind
  the header of the application changes.
\<close>

definition ota_area :: "ota \<Rightarrow> nat \<Rightarrow> nat \<Rightarrow> ota \<Rightarrow> bool" where
  "ota_area s0 lim n s \<longleftrightarrow>
     (let a = start_addr (partition_info_app s0) + 256; b = start_addr (partition_info_ota s0) + 256;
          m = img_size_orig_xz (ota_header s0)
      in a + lim < FALSH_SIZE_MAX \<and> b + m \<le> FALSH_SIZE_MAX \<and> n \<le> lim
         \<and> partition_info_app s = partition_info_app s0 \<and> partition_info_ota s = partition_info_ota s0
         \<and> ota_header s = ota_header s0 \<and> xz_already_read s \<le> m \<and> xz_already_write s = n
         \<and> (\<forall>x. x < a \<or> a + lim \<le> x \<longrightarrow> ota_cells s x = ota_cells s0 x))"

lemma ota_area_read:
  assumes c: "ota_area s0 lim n s"
  shows "\<exists>ret bs s'. decompress_read_cb s = Some (ret, bs, s') \<and> ota_area s0 lim n s'"
proof -
  define b where "b = start_addr (partition_info_ota s) + 256"
  define m where "m = img_size_orig_xz (ota_header s)"
  define r where "r = xz_already_read s"
  from c have f: "b + m \<le> FALSH_SIZE_MAX" "r \<le> m"
    by (simp_all add: ota_area_def Let_def b_def m_def r_def)
  then have small: "m \<le> 2 ^ 22" "b \<le> 2 ^ 22" by (simp_all add: FALSH_SIZE_MAX_def)
  define k where "k = (if m - r < 2 ^ 31 \<and> m - r > LEN_4KB then LEN_4KB else m - r)"
  have k: "r + k \<le> m" using f(2) by (auto simp: k_def LEN_4KB_def)
  have buf: "\<not> k > LEN_4KB" using small by (simp add: k_def)
  have tmp: "sub_u32 m r = m - r" using f(2) small by (simp add: wrap_simps)
  have addr: "add_u32 (add_u32 (start_addr (partition_info_ota s)) sizeof_image_hdr) r = b + r"
    using f small by (simp add: b_def sizeof_image_hdr_def wrap_simps)
  have upd: "add_u32 r k = r + k" using k small by (simp add: wrap_simps)
  have "b + r + k \<le> FALSH_SIZE_MAX" using k f(1) by simp
  then have "decompress_read_cb s = Some (XZ_RET_OK, nor_read (ota_cells s) (b + r) k, s\<lparr>xz_already_read := r + k\<rparr>)"
    unfolding decompress_read_cb_def Let_def m_def [symmetric] r_def [symmetric] tmp k_def [symmetric] addr upd
    using buf by (simp add: ota_read_eq)
  moreover have "ota_area s0 lim n (s\<lparr>xz_already_read := r + k\<rparr>)"
    using c k by (simp add: ota_area_def Let_def m_def)
  ultimately show ?thesis by blast
qed

lemma ota_area_write:
  assumes c: "ota_area s0 lim n s" and len: "n + length bs \<le> lim"
  shows "\<exists>s'. decompress_write_cb n bs s = Some s' \<and> ota_area s0 lim (n + length bs) s'"
proof -
  define a where "a = start_addr (partition_info_app s) + 256"
  from c have f: "a + lim < FALSH_SIZE_MAX" "xz_already_write s = n" "start_addr (partition_info_app s0) + 256 = a"
    by (simp_all add: ota_area_def Let_def a_def)
  have lim: "a + n + length bs \<le> 2 ^ 22" using f(1) len by (simp add: FALSH_SIZE_MAX_def)
  have addr: "add_u32 (add_u32 (start_addr (partition_info_app s)) sizeof_image_hdr) n = a + n"
    using lim by (simp add: a_def sizeof_image_hdr_def wrap_simps)
  have upd: "add_u32 n (length bs) = n + length bs" using lim by (simp add: wrap_simps)
  have "a + n + length bs \<le> FALSH_SIZE_MAX" "a + n < FALSH_SIZE_MAX" using f(1) len by linarith+
  then have wr: "ota_flash_write s (a + n) bs = Some (ota_run (prog_ops (a + n) bs) s)"
    by (rule ota_write_eq)
  have "decompress_write_cb n bs s = Some ((ota_run (prog_ops (a + n) bs) s)\<lparr>xz_already_write := n + length bs\<rparr>)"
    unfolding decompress_write_cb_def f(2) addr wr upd by simp
  moreover have "ota_cells (ota_run (prog_ops (a + n) bs) s) x = ota_cells s x" if "x < a \<or> a + lim \<le> x" for x
  proof -
    have w: "list_all (mop_within a (a + lim)) (prog_ops (a + n) bs)" using len by (simp add: mop_simps)
    show ?thesis using run_ops_other [OF w that] by (simp add: ota_cells_def)
  qed
  then have "ota_area s0 lim (n + length bs) ((ota_run (prog_ops (a + n) bs) s)\<lparr>xz_already_write := n + length bs\<rparr>)"
    using c len by (simp add: ota_area_def Let_def f(3)) (simp add: ota_cells_def ota_run_def)
  ultimately show ?thesis by blast
qed

interpretation ota_any: total_client decompress_read_cb decompress_write_cb "ota_area s0 lim" lim for s0 lim
  by unfold_locales (rule ota_area_read, assumption, rule ota_area_write)

section \<open>A compressed update\<close>

text \<open>The header that \<^verbatim>\<open>restore_image\<close> writes for a compressed update.\<close>

definition hdr_seal :: "image_hdr \<Rightarrow> image_hdr" where
  "hdr_seal h = h\<lparr>header_crc32 := unat (ln_crc32_signle_cal (take (sizeof_image_hdr - 4) (image_hdr_bytes h)))\<rparr>"

definition xz_app_header :: "image_hdr \<Rightarrow> image_hdr" where
  "xz_app_header h = hdr_seal (h\<lparr>image_type := IMAGE_TYPE_ORIGINAL\<rparr>)"

text \<open>
  A valid image of the compressed type whose body is a file in the format of \<open>Xz_Lz\<close>, and the image
  it becomes: the header with the other type, and the expansion.
\<close>

definition xz_update :: "byte list \<Rightarrow> byte list \<Rightarrow> bool" where
  "xz_update img tgt \<longleftrightarrow> (let h = image_hdr_decode (take 256 img) in
     waiting_image img \<and> image_type h = IMAGE_TYPE_ORIGINAL_XZ \<and>
     (\<exists>lc lp pb dsz ss extra. lc + lp \<le> 3 \<and> pb \<le> 4 \<and> 1 \<le> dsz \<and> dsz \<le> DICT_BUF_SIZE \<and> lz_syms_ok dsz lz_init ss
        \<and> drop 256 img = lz_header lc lp pb dsz (length (lz_expand ss)) @ lz_encode lc lp pb ss @ extra
        \<and> img_size_orig h = length (lz_expand ss)
        \<and> img_crc32_orig h = unat (ln_crc32_signle_cal (lz_expand ss))
        \<and> tgt = image_hdr_bytes (xz_app_header h) @ lz_expand ss))"

definition hdr_ok :: "image_hdr \<Rightarrow> bool" where
  "hdr_ok h \<longleftrightarrow> image_type h < 256 ^ 4 \<and> ver_major h < 256 ^ 1 \<and> ver_minor h < 256 ^ 1 \<and> dep_major h < 256 ^ 1
     \<and> dep_minor h < 256 ^ 1 \<and> img_size_orig h < 256 ^ 4 \<and> img_size_orig_xz h < 256 ^ 4 \<and> img_size_diff h < 256 ^ 4
     \<and> img_size_diff_xz h < 256 ^ 4 \<and> img_crc32_orig h < 256 ^ 4 \<and> img_crc32_orig_xz h < 256 ^ 4
     \<and> img_crc32_diff h < 256 ^ 4 \<and> img_crc32_diff_xz h < 256 ^ 4 \<and> length (hdr_res h) = 212 \<and> header_crc32 h < 256 ^ 4"

lemma length_image_hdr_bytes: "length (hdr_res h) = 212 \<Longrightarrow> length (image_hdr_bytes h) = 256"
  by (simp add: image_hdr_bytes_def)

lemma le_val_bslice_less: "a + n \<le> length bs \<Longrightarrow> le_val (bslice a n bs) < 256 ^ n"
  using le_val_bound [of "bslice a n bs"] by simp

lemma hdr_ok_decode: "length bs = 256 \<Longrightarrow> hdr_ok (image_hdr_decode bs)"
  unfolding hdr_ok_def image_hdr_decode_def image_hdr.simps
  by (intro conjI le_val_bslice_less length_bslice) simp_all

lemma hdr_decode_bytes:
  assumes "hdr_ok h"
  shows "image_hdr_decode (image_hdr_bytes h @ r) = h"
proof -
  have m: "v < 256 ^ n \<Longrightarrow> le_val (le_bytes n v) = v" for n v by (simp add: le_simps)
  show ?thesis
    using assms by (simp add: image_hdr_decode_def image_hdr_bytes_def hdr_ok_def bslice_zero m
        del: power_numeral le_bytes.simps One_nat_def)
qed

lemma crc_less: "unat (w :: 32 word) < 256 ^ 4"
  using unsigned_less [of w] by simp

lemma hdr_seal_ok: "hdr_ok h \<Longrightarrow> hdr_ok (hdr_seal h)"
  using crc_less by (simp add: hdr_ok_def hdr_seal_def)

lemma xz_app_header_ok: "hdr_ok h \<Longrightarrow> hdr_ok (xz_app_header h)"
  unfolding xz_app_header_def by (rule hdr_seal_ok) (simp add: hdr_ok_def IMAGE_TYPE_ORIGINAL_def)

lemma xz_app_header_simps:
  "image_type (xz_app_header h) = IMAGE_TYPE_ORIGINAL" "img_size_orig (xz_app_header h) = img_size_orig h"
  "img_crc32_orig (xz_app_header h) = img_crc32_orig h" "image_version (xz_app_header h) = image_version h"
  by (simp_all add: xz_app_header_def hdr_seal_def image_version_def)

lemma hdr_seal_verify:
  assumes "length (hdr_res h) = 212"
  shows "image_header_verify (hdr_seal h) = OTA_ERR_NONE"
proof -
  have "take 252 (image_hdr_bytes (h\<lparr>header_crc32 := c\<rparr>)) = take 252 (image_hdr_bytes h)" for c
    using assms by (simp add: image_hdr_bytes_def)
  then show ?thesis by (simp add: image_header_verify_def hdr_seal_def sizeof_image_hdr_def)
qed

lemma xz_app_header_verify: "length (hdr_res h) = 212 \<Longrightarrow> image_header_verify (xz_app_header h) = OTA_ERR_NONE"
  by (simp add: xz_app_header_def hdr_seal_verify)

lemma xz_update_target:
  assumes "xz_update img tgt"
  shows "update_image tgt" "same_original (image_hdr_decode (take 256 img)) (image_hdr_decode (take 256 tgt))"
    "waiting_image img"
proof -
  let ?h = "image_hdr_decode (take 256 img)"
  from assms obtain ss where u: "waiting_image img" "img_size_orig ?h = length (lz_expand ss)"
      "img_crc32_orig ?h = unat (ln_crc32_signle_cal (lz_expand ss))"
      "tgt = image_hdr_bytes (xz_app_header ?h) @ lz_expand ss"
    by (auto simp: xz_update_def Let_def)
  from u(1) show "waiting_image img" .
  have "length (take 256 img) = 256" using u(1) by (simp add: waiting_image_def Let_def)
  then have ok: "hdr_ok ?h" by (rule hdr_ok_decode)
  note ok' = xz_app_header_ok [OF ok]
  then have l: "length (image_hdr_bytes (xz_app_header ?h)) = 256"
    by (intro length_image_hdr_bytes) (simp add: hdr_ok_def)
  have d: "image_hdr_decode (take 256 tgt) = xz_app_header ?h"
    using hdr_decode_bytes [OF ok', of "[]"] l by (simp add: u(4))
  have "length (hdr_res ?h) = 212" using ok by (simp add: hdr_ok_def)
  then show "update_image tgt"
    unfolding update_image_def d Let_def using l u by (simp add: xz_app_header_simps xz_app_header_verify)
  show "same_original ?h (image_hdr_decode (take 256 tgt))"
    unfolding d same_original_def by (simp add: xz_app_header_simps)
qed

text \<open>The decompression writes the expansion behind the header of the application.\<close>

lemma xz_do_restore_eq:
  assumes u: "lc + lp \<le> 3" "pb \<le> 4" "1 \<le> dsz" "dsz \<le> DICT_BUF_SIZE" "lz_syms_ok dsz lz_init ss"
    and app: "start_addr (partition_info_app s) = a" and ota: "start_addr (partition_info_ota s) = b"
    and src: "nor_read (ota_cells s) (b + 256) n = lz_header lc lp pb dsz (length (lz_expand ss)) @ lz_encode lc lp pb ss @ extra"
    and n: "img_size_orig_xz (ota_header s) = n"
    and geo: "a + 256 + length (lz_expand ss) \<le> FALSH_SIZE_MAX" "b + 256 + n \<le> FALSH_SIZE_MAX"
      "a + 256 + length (lz_expand ss) \<le> b + 256 \<or> b + 256 + n \<le> a + 256"
    and c: "xz_already_read s = 0" "xz_already_write s = 0"
  shows "\<exists>r w. xz_image_do_restore xz_decompress_buf_to_buf s (b + 256) =
    Some (OTA_ERR_NONE, (ota_run (prog_ops (a + 256) (lz_expand ss)) s)\<lparr>xz_already_read := r, xz_already_write := w\<rparr>)"
proof -
  let ?T = "lz_expand ss" and ?h = "lz_header lc lp pb dsz (length (lz_expand ss))"
  let ?rest = "lz_encode lc lp pb ss @ extra"
  have hl: "length ?h = 13" by (simp add: lz_header_def)
  have "n = length (nor_read (ota_cells s) (b + 256) n)" by simp
  also have "\<dots> = 13 + length ?rest" unfolding src using hl by simp
  finally have n13: "13 \<le> n" by simp
  have "nor_read (ota_cells s) (b + 256) 13 = take 13 (nor_read (ota_cells s) (b + 256) n)" using n13 by (simp add: take_nor_read)
  also have "\<dots> = ?h" unfolding src using hl by simp
  finally have hd: "nor_read (ota_cells s) (b + 256) 13 = ?h" .
  define s1 where "s1 = s\<lparr>xz_already_read := 13\<rparr>"
  have "ota_client s (length ?T) (drop 13 (nor_read (ota_cells s) (b + 256) n)) [] s1"
    using geo n13 c by (simp add: ota_client_def Let_def app ota n s1_def ota_run_def)
  then have cl: "ota_client s (length ?T) ?rest [] s1" unfolding src using hl by simp
  have small: "length ?T \<le> 2 ^ 22" using geo(1) by (simp add: FALSH_SIZE_MAX_def)
  from ota_io.decompress_ok [OF u _ _ _ _ cl, of "length ?T"] small obtain src' s' where
    d: "xz_decompress_buf_to_buf ?h decompress_write_cb decompress_read_cb s1 = Some (0, s')"
      "ota_client s (length ?T) src' ?T s'"
    by auto
  have s': "s' = (ota_run (prog_ops (a + 256) ?T) s)\<lparr>xz_already_read := xz_already_read s', xz_already_write := length ?T\<rparr>"
    using d(2) by (simp add: ota_client_def Let_def app)
  have "ota_flash_read s (b + 256) sizeof_xz_header = Some ?h"
    using geo(2) n13 hd by (simp add: ota_read_eq sizeof_xz_header_def)
  moreover have "s\<lparr>xz_already_read := add_u32 (xz_already_read s) sizeof_xz_header\<rparr> = s1"
    using c by (simp add: s1_def sizeof_xz_header_def wrap_simps)
  ultimately have "xz_image_do_restore xz_decompress_buf_to_buf s (b + 256) = Some (OTA_ERR_NONE, s')"
    using d(1) by (simp add: xz_image_do_restore_def XZ_RET_OK_def Let_def)
  with s' show ?thesis by metis
qed

lemma xz_restores:
  assumes u: "xz_update img tgt" and hdr: "ota_header s = image_hdr_decode (take 256 img)"
    and rd: "nor_read (ota_cells s) b (length img) = img"
    and info: "start_addr (partition_info_app s) = a" "pt_size (partition_info_app s) = n"
      "start_addr (partition_info_ota s) = b"
    and geo: "4096 dvd a" "4096 dvd n" "a + n \<le> FALSH_SIZE_MAX" "length tgt \<le> n" "b + length img \<le> FALSH_SIZE_MAX"
      "a + n \<le> b \<or> b + length img \<le> a"
    and c: "xz_already_read s = 0" "xz_already_write s = 0"
  shows "\<exists>r w. erase_and_restore xz_decompress_buf_to_buf s = restore_finish
    ((ota_run (restore_ops a n tgt) s)\<lparr>xz_already_read := r, xz_already_write := w\<rparr>)"
proof -
  let ?h = "image_hdr_decode (take 256 img)"
  from u obtain lc lp pb dsz ss extra where w: "waiting_image img" "image_type ?h = IMAGE_TYPE_ORIGINAL_XZ"
    and ss: "lc + lp \<le> 3" "pb \<le> 4" "1 \<le> dsz" "dsz \<le> DICT_BUF_SIZE" "lz_syms_ok dsz lz_init ss"
    and body: "drop 256 img = lz_header lc lp pb dsz (length (lz_expand ss)) @ lz_encode lc lp pb ss @ extra"
    and tgt: "tgt = image_hdr_bytes (xz_app_header ?h) @ lz_expand ss"
    by (auto simp: xz_update_def Let_def)
  have l: "256 \<le> length img" "length (take 256 img) = 256" and sz: "img_size_orig_xz ?h = length img - 256"
    using w by (simp_all add: waiting_image_def Let_def image_size_crc_def IMAGE_TYPE_ORIGINAL_def IMAGE_TYPE_ORIGINAL_XZ_def)
  have "hdr_ok (xz_app_header ?h)" using hdr_ok_decode [OF l(2)] by (rule xz_app_header_ok)
  then have hl: "length (image_hdr_bytes (xz_app_header ?h)) = 256"
    by (intro length_image_hdr_bytes) (simp add: hdr_ok_def)
  define hb where "hb = image_hdr_bytes (xz_app_header ?h)"
  have tl: "length tgt = 256 + length (lz_expand ss)" using tgt hl by simp
  define s2 where "s2 = ota_run (erase_ops a n @ prog_ops a hb) s"
  have er: "ota_flash_erase s a n = Some (ota_run (erase_ops a n) s)"
    using geo by (intro ota_erase_eq)
  have ab: "a + 256 + length (lz_expand ss) \<le> FALSH_SIZE_MAX" using geo(3,4) tl by simp
  then have wr: "ota_flash_write (ota_run (erase_ops a n) s) a hb = Some s2"
    using hl by (simp add: ota_write_eq hb_def s2_def ota_run_append)
  have w2: "list_all (mop_within a (a + n)) (erase_ops a n @ prog_ops a hb)"
    using geo(4) tl hl by (simp add: mop_simps hb_def)
  have "nor_read (ota_cells s2) (b + 256) (length img - 256) = nor_read (ota_cells s) (b + 256) (length img - 256)"
    unfolding s2_def using geo(6) l(1) by (intro ota_read_run_other [OF w2]) auto
  also have "\<dots> = drop 256 img" using rd l(1) by (metis drop_nor_read)
  finally have src: "nor_read (ota_cells s2) (b + 256) (length img - 256)
      = lz_header lc lp pb dsz (length (lz_expand ss)) @ lz_encode lc lp pb ss @ extra" unfolding body .
  have s2: "start_addr (partition_info_app s2) = a" "start_addr (partition_info_ota s2) = b" "ota_header s2 = ?h"
      "xz_already_read s2 = 0" "xz_already_write s2 = 0"
    using info hdr c by (simp_all add: s2_def ota_run_def)
  have g3: "a + 256 + length (lz_expand ss) \<le> b + 256 \<or> b + 256 + (length img - 256) \<le> a + 256"
    using geo(4,6) tl l(1) by linarith
  have g2: "b + 256 + (length img - 256) \<le> FALSH_SIZE_MAX" using geo(5) l(1) by simp
  from xz_do_restore_eq [OF ss s2(1,2) src _ ab g2 g3 s2(4,5)] sz s2(3) obtain r w where
    res: "xz_image_do_restore xz_decompress_buf_to_buf s2 (b + 256) =
      Some (OTA_ERR_NONE, (ota_run (prog_ops (a + 256) (lz_expand ss)) s2)\<lparr>xz_already_read := r, xz_already_write := w\<rparr>)"
    by auto
  have run: "ota_run (prog_ops (a + 256) (lz_expand ss)) s2 = ota_run (restore_ops a n tgt) s"
    using hl by (simp add: s2_def ota_run_append restore_ops_def tgt prog_ops_append hb_def)
  have addr: "add_u32 b sizeof_image_hdr = b + 256"
    using geo(5) l(1) by (simp add: sizeof_image_hdr_def wrap_simps FALSH_SIZE_MAX_def)
  have "restore_image xz_decompress_buf_to_buf (ota_run (erase_ops a n) s) =
      restore_finish ((ota_run (restore_ops a n tgt) s)\<lparr>xz_already_read := r, xz_already_write := w\<rparr>)"
    using wr res run addr info hdr w(2)
    by (simp add: restore_image_def Let_def IMAGE_TYPE_ORIGINAL_XZ_def IMAGE_TYPE_ORIGINAL_def hb_def xz_app_header_def hdr_seal_def)
  then show ?thesis
    using er info by (auto simp: erase_and_restore_def)
qed

interpretation xz: update_kind xz_decompress_buf_to_buf xz_update
proof (unfold_locales, goal_cases)
  case (1 img tgt)
  then show ?case by (rule xz_update_target)
next
  case (2 img tgt)
  then show ?case by (rule xz_update_target)
next
  case (3 img tgt)
  then show ?case by (rule xz_update_target)
next
  case (4 img tgt s b a n m)
  then show ?case
    by (intro xz_restores [OF 4(1-3)]) simp_all
qed

section \<open>Properties\<close>

text \<open>
  C2: a compressed update is installed in spite of any number of power failures: the image in the
  update partition is the header and a compressed file in the format of \<open>lz_encode\<close>, and after
  any sequence of boots that are cut anywhere, the first boot that is not cut enters an
  application that is valid and has the version, the size and the CRC of the original image.
\<close>

theorem ota_compressed_update_survives_power_loss:
  assumes "upd_pending xz_update ps a n b m img tgt s"
    and "\<forall>(p, torn) \<in> set bs. hdr_fits (nor_read torn a 256) n" and "hdr_fits (nor_read torn a 256) n"
  shows "\<exists>s1 s2. ota_boots xz_decompress_buf_to_buf s bs = Some s1
    \<and> ota_boot_upgrade_agent xz_decompress_buf_to_buf (ota_restart s1 None torn) = Some (OTA_ERR_NONE, s2)
    \<and> jumped s2 = [a + 256] \<and> app_updated (ota_cells s2) a tgt \<and> nvds_state (ot_nv s2) UPG_STATE_RESTORE_OK"
  using assms by (rule xz.installs)

text \<open>
  C13: a compressed file that is damaged or was never one does no harm outside the application.
  Whatever the update partition holds, as long as the size in the header of the file is at most its
  dictionary size and leaves the application in the flash, and the compressed size is at least that
  of the header and leaves the update in the flash, the restore returns, with or without an error, and
  has changed no byte of the flash except the \<open>out\<close> bytes behind the header of the application.
\<close>

theorem xz_restore_stays_in_application:
  assumes "out = le_val (bslice 5 4 (nor_read (ota_cells s) (b + 256) 13))"
    and "out \<le> le_val (bslice 1 4 (nor_read (ota_cells s) (b + 256) 13))"
    and "start_addr (partition_info_app s) = a" and "start_addr (partition_info_ota s) = b"
    and "a + 256 + out < FALSH_SIZE_MAX" and "13 \<le> img_size_orig_xz (ota_header s)"
    and "b + 256 + img_size_orig_xz (ota_header s) \<le> FALSH_SIZE_MAX"
    and "xz_already_read s = 0" and "xz_already_write s = 0"
  shows "\<exists>err s'. xz_image_do_restore xz_decompress_buf_to_buf s (b + 256) = Some (err, s')
    \<and> (\<forall>x. x < a + 256 \<or> a + 256 + out \<le> x \<longrightarrow> ota_cells s' x = ota_cells s x)"
proof -
  let ?h = "nor_read (ota_cells s) (b + 256) 13"
  define s1 where "s1 = s\<lparr>xz_already_read := 13\<rparr>"
  have "ota_area s out 0 s1" using assms by (simp add: ota_area_def Let_def s1_def)
  from ota_any.decompress_safe [OF _ _ this, of ?h] assms(1,2) obtain ret s2 n where
    d: "xz_decompress_buf_to_buf ?h decompress_write_cb decompress_read_cb s1 = Some (ret, s2)" "ota_area s out n s2"
    by auto
  have "ota_flash_read s (b + 256) sizeof_xz_header = Some ?h"
    using assms(6,7) by (simp add: ota_read_eq sizeof_xz_header_def)
  moreover have "s\<lparr>xz_already_read := add_u32 (xz_already_read s) sizeof_xz_header\<rparr> = s1"
    using assms(8) by (simp add: s1_def sizeof_xz_header_def wrap_simps)
  ultimately have "\<exists>err. xz_image_do_restore xz_decompress_buf_to_buf s (b + 256) = Some (err, s2)"
    using d(1) by (simp add: xz_image_do_restore_def Let_def)
  with d(2) assms(3) show ?thesis by (auto simp: ota_area_def Let_def)
qed

text \<open>The example image: 4095 zero bytes, compressed to 16 symbols.\<close>

text \<open>The length of the compressed file is bounded by the number of events.\<close>

lemma rc_encode_length: "snd (rc_encode ps low r n es) \<le> n + length es"
proof (induction es arbitrary: ps low r n)
  case Nil
  then show ?case by simp
next
  case (Cons e es)
  obtain d r' ps' where e: "ev_step ps r e = (d, r', ps')" by (cases "ev_step ps r e")
  have "snd (rc_encode ps' ((low + d) * 256) (r' * 256) (n + 1) es) \<le> (n + 1) + length es"
    "snd (rc_encode ps' (low + d) r' n es) \<le> n + length es"
    by (rule Cons.IH)+
  with e show ?case by simp
qed

lemma lz_encode_length: "length (lz_encode lc lp pb ss) \<le> 5 + length (syms_ev lc lp pb lz_init ss)"
proof -
  have "length (rc_stream ps es) \<le> 5 + length es" for ps es
    using rc_encode_length [of ps 0 "0xFFFFFFFF" 0 es] by (auto simp: rc_stream_def split: prod.splits)
  then show ?thesis by (simp add: lz_encode_def)
qed

lemma tree_ev_length [simp]: "length (tree_ev ps n mi v) = n"
  by (induction n arbitrary: mi) simp_all

lemma near_match_length: "length (sym_ev lc lp pb z (Match 1 k)) \<le> 18"
  by (simp add: len_ev_def dist_ev_def)

lemma matches_length: "length (syms_ev lc lp pb z (map (Match 1) ks)) \<le> 18 * length ks"
proof (induction ks arbitrary: z)
  case Nil
  then show ?case by simp
next
  case (Cons k ks)
  from near_match_length [of lc lp pb z k] Cons [of "lz_step z (Match 1 k)"] show ?case
    by (simp del: sym_ev.simps)
qed

definition ex_xz_body :: "byte list" where
  "ex_xz_body = lz_header 0 0 0 4096 4095 @ lz_encode 0 0 0 ex_syms"

definition ex_xz_hdr :: image_hdr where
  "ex_xz_hdr = hdr_seal \<lparr>image_type = IMAGE_TYPE_ORIGINAL_XZ, ver_major = 255, ver_minor = 255, dep_major = 255, dep_minor = 255,
     img_size_orig = 4095, img_size_orig_xz = length ex_xz_body, img_size_diff = 0, img_size_diff_xz = 0,
     img_crc32_orig = unat (ln_crc32_signle_cal (replicate 4095 0)), img_crc32_orig_xz = unat (ln_crc32_signle_cal ex_xz_body),
     img_crc32_diff = 0, img_crc32_diff_xz = 0, hdr_res = replicate 212 0, header_crc32 = 0\<rparr>"

definition ex_xz_image :: "byte list" where
  "ex_xz_image = image_hdr_bytes ex_xz_hdr @ ex_xz_body"

definition ex_xz_target :: "byte list" where
  "ex_xz_target = image_hdr_bytes (xz_app_header ex_xz_hdr) @ replicate 4095 0"

lemma ex_xz_body_length: "length ex_xz_body \<le> 300"
proof -
  have "length (syms_ev 0 0 0 lz_init ex_syms) \<le> 9 + 18 * 15"
    using matches_length [of 0 0 0 "lz_step lz_init (Lit 0)" "replicate 14 273 @ [272]"]
    by (simp add: ex_syms_def lz_init_def)
  then show ?thesis using lz_encode_length [of 0 0 0 ex_syms]
    by (simp add: ex_xz_body_def lz_header_def)
qed

lemma ex_xz_hdr_ok: "hdr_ok ex_xz_hdr"
  unfolding ex_xz_hdr_def using ex_xz_body_length crc_less
  by (intro hdr_seal_ok) (simp add: hdr_ok_def IMAGE_TYPE_ORIGINAL_XZ_def)

lemma ex_xz_hdr_fields:
  "image_type ex_xz_hdr = IMAGE_TYPE_ORIGINAL_XZ" "img_size_orig ex_xz_hdr = 4095"
  "img_crc32_orig ex_xz_hdr = unat (ln_crc32_signle_cal (replicate 4095 0))"
  "image_size_crc ex_xz_hdr = Some (length ex_xz_body, unat (ln_crc32_signle_cal ex_xz_body))"
  by (simp_all add: ex_xz_hdr_def hdr_seal_def image_size_crc_def IMAGE_TYPE_ORIGINAL_def IMAGE_TYPE_ORIGINAL_XZ_def)

lemma ex_xz_hdr_length: "length (image_hdr_bytes ex_xz_hdr) = 256"
  using ex_xz_hdr_ok by (intro length_image_hdr_bytes) (simp add: hdr_ok_def)

lemma ex_xz_image_header: "image_hdr_decode (take 256 ex_xz_image) = ex_xz_hdr"
  using hdr_decode_bytes [OF ex_xz_hdr_ok, of "[]"] ex_xz_hdr_length by (simp add: ex_xz_image_def)

lemma ex_xz_update: "xz_update ex_xz_image ex_xz_target"
proof -
  have v: "image_header_verify ex_xz_hdr = OTA_ERR_NONE" unfolding ex_xz_hdr_def by (rule hdr_seal_verify) simp
  have d: "drop 256 ex_xz_image = ex_xz_body" "length ex_xz_image = 256 + length ex_xz_body"
    using ex_xz_hdr_length by (simp_all add: ex_xz_image_def)
  have "waiting_image ex_xz_image"
    by (simp add: waiting_image_def ex_xz_image_header d v ex_xz_hdr_fields)
  then show ?thesis
    unfolding xz_update_def ex_xz_image_header Let_def d
    using ex_syms_ok by (intro conjI exI [of _ 0] exI [of _ 4096] exI [of _ ex_syms] exI [of _ "[]"])
      (simp_all add: ex_xz_hdr_fields ex_expand ex_xz_body_def ex_xz_target_def DICT_BUF_SIZE_def)
qed

lemma partial_headers_fit_cong:
  assumes "take 12 t = take 12 u" and "partial_headers_fit u n"
  shows "partial_headers_fit t n"
proof -
  have "take j t = take j u" if "j < 12" for j
    using arg_cong [OF assms(1), of "take j"] that by simp
  with assms(2) show ?thesis by (simp add: partial_headers_fit_def)
qed

lemma ex_xz_partial_headers: "partial_headers_fit ex_xz_target n"
proof (rule partial_headers_fit_cong [OF _ ex_partial_headers])
  have "take 12 ex_xz_target = [1, 0, 0, 0, 255, 255, 255, 255, 255, 15, 0, 0]"
    by (simp add: ex_xz_target_def image_hdr_bytes_def xz_app_header_def hdr_seal_def ex_xz_hdr_def le_bytes_4
        IMAGE_TYPE_ORIGINAL_def)
  then show "take 12 ex_xz_target = take 12 ex_update" using ex_update_prefix [of 12] by simp
qed

lemma ex_xz_target_length: "length ex_xz_target = 4351"
proof -
  have "hdr_ok (xz_app_header ex_xz_hdr)" by (rule xz_app_header_ok [OF ex_xz_hdr_ok])
  then have "length (image_hdr_bytes (xz_app_header ex_xz_hdr)) = 256"
    by (intro length_image_hdr_bytes) (simp add: hdr_ok_def)
  then show ?thesis by (simp add: ex_xz_target_def)
qed

text \<open>The compressed image in the update partition of the example flash.\<close>

definition ex_xz_flash :: nor where
  "ex_xz_flash = nor_write (nor_erase (ex_flash UPG_STATE_DOWNLOAD_OK) 0x20000 0x10000) 0x20000 ex_xz_image"

definition ex_xz_ota :: ota where
  "ex_xz_ota = (let s = ex_ota UPG_STATE_DOWNLOAD_OK
     in s\<lparr>ot_nv := (ot_nv s)\<lparr>nv_dev := (nv_dev (ot_nv s))\<lparr>pd_cells := ex_xz_flash\<rparr>\<rparr>\<rparr>)"

lemma ex_xz_other: "x < 0x20000 \<or> 0x30000 \<le> x \<Longrightarrow> ex_xz_flash x = ex_flash UPG_STATE_DOWNLOAD_OK x"
proof -
  assume x: "x < 0x20000 \<or> 0x30000 \<le> x"
  have "length ex_xz_image \<le> 556" using ex_xz_body_length ex_xz_hdr_length by (simp add: ex_xz_image_def)
  then have "x < 0x20000 \<or> 0x20000 + length ex_xz_image \<le> x" using x by auto
  then show ?thesis using x by (simp add: ex_xz_flash_def nor_write_other nor_erase_other)
qed

lemma ex_xz_pending: "upd_pending xz_update ex_table 0x7000 0x10000 0x20000 0x10000 ex_xz_image ex_xz_target ex_xz_ota"
proof -
  have c: "ota_cells ex_xz_ota = ex_xz_flash" "ln_nvds_base (ot_nv ex_xz_ota) = 0x40000"
    by (simp_all add: ex_xz_ota_def ota_cells_def Let_def) (simp add: ex_ota_def)
  have li: "length ex_xz_image \<le> 0x10000" using ex_xz_body_length ex_xz_hdr_length by (simp add: ex_xz_image_def)
  have "ota_layout ex_table 0x7000 0x10000 0x20000 0x10000 0x40000"
    by (simp add: ota_layout_def ex_table_def partition_lookup_def PARTITION_TYPE_APP_def PARTITION_TYPE_OTA_def
        FALSH_SIZE_MAX_def)
  moreover have "nor_read ex_xz_flash 0x20000 (length ex_xz_image) = ex_xz_image"
    unfolding ex_xz_flash_def using li by (intro nor_read_write_blank blank_erase_sub) simp_all
  moreover have "partition_table ex_xz_flash ex_table"
    by (rule partition_table_cong [OF ex_flash_table]) (simp add: ex_xz_other)
  moreover have "nvds_state (ot_nv ex_xz_ota) UPG_STATE_DOWNLOAD_OK"
    by (rule nvds_state_cong [OF ex_state [of UPG_STATE_DOWNLOAD_OK]])
      (simp_all add: ex_xz_ota_def ex_ota_def Let_def ex_xz_other)
  moreover have "hdr_fits (nor_read ex_xz_flash 0x7000 256) 0x10000"
  proof -
    have "nor_read ex_xz_flash 0x7000 256 = nor_read (ota_cells (ex_ota UPG_STATE_DOWNLOAD_OK)) 0x7000 256"
      by (intro nor_read_cong) (simp add: ex_xz_other ota_cells_def ex_ota_def)
    then show ?thesis using ex_pending by (simp add: ota_pending_def)
  qed
  ultimately show ?thesis
    using li ex_xz_update ex_xz_partial_headers by (simp add: upd_pending_def upd_common_def c ex_xz_target_length)
qed

lemma ota_compressed_update_survives_power_loss_witness:
  "\<exists>s1 s2. ota_boots xz_decompress_buf_to_buf ex_xz_ota [(Some 1000, \<lambda>_. 0), (Some 65900, \<lambda>_. 0)] = Some s1
    \<and> ota_boot_upgrade_agent xz_decompress_buf_to_buf (ota_restart s1 None (\<lambda>_. 0)) = Some (OTA_ERR_NONE, s2)
    \<and> jumped s2 = [0x7100] \<and> app_updated (ota_cells s2) 0x7000 ex_xz_target"
  using ota_compressed_update_survives_power_loss [OF ex_xz_pending, of "[(Some 1000, \<lambda>_. 0), (Some 65900, \<lambda>_. 0)]" "\<lambda>_. 0"]
    zero_header_fits
  by auto

text \<open>The example image with the dictionary that its header asks for.\<close>

lemma xz_restore_stays_in_application_witness:
  "\<exists>err s'. xz_image_do_restore xz_decompress_buf_to_buf (ex_xz_ota\<lparr>partition_info_app := entry_info (0, 0x7000, 0x10000),
      partition_info_ota := entry_info (1, 0x20000, 0x10000), ota_header := ex_xz_hdr\<rparr>) 0x20100 = Some (err, s')
    \<and> (\<forall>x. x < 0x7100 \<or> 0x80FF \<le> x \<longrightarrow> ota_cells s' x = ex_xz_flash x)"
proof -
  let ?s = "ex_xz_ota\<lparr>partition_info_app := entry_info (0, 0x7000, 0x10000),
      partition_info_ota := entry_info (1, 0x20000, 0x10000), ota_header := ex_xz_hdr\<rparr>"
  have c: "ota_cells ?s = ex_xz_flash" "xz_already_read ?s = 0" "xz_already_write ?s = 0"
    by (simp_all add: ex_xz_ota_def ota_cells_def Let_def) (simp_all add: ex_ota_def)
  have sz: "img_size_orig_xz ex_xz_hdr = length ex_xz_body" by (simp add: ex_xz_hdr_def hdr_seal_def)
  have hl: "length (lz_header 0 0 0 4096 4095) = 13" by (simp add: lz_header_def)
  have n: "13 \<le> length ex_xz_body" using hl by (simp add: ex_xz_body_def)
  have img: "nor_read ex_xz_flash 0x20000 (length ex_xz_image) = ex_xz_image"
    using ex_xz_pending by (simp add: upd_pending_def upd_common_def) (simp add: ex_xz_ota_def ota_cells_def Let_def)
  have "13 + 256 \<le> length ex_xz_image" using n ex_xz_hdr_length by (simp add: ex_xz_image_def)
  then have "nor_read ex_xz_flash 0x20100 13 = bslice 256 13 (nor_read ex_xz_flash 0x20000 (length ex_xz_image))"
    by (subst bslice_nor_read) simp_all
  also have "\<dots> = take 13 ex_xz_body" unfolding img using ex_xz_hdr_length by (simp add: bslice_def ex_xz_image_def)
  also have "\<dots> = lz_header 0 0 0 4096 4095" using hl by (simp add: ex_xz_body_def)
  finally have h: "nor_read ex_xz_flash 0x20100 13 = lz_header 0 0 0 4096 4095" .
  have v: "le_val (bslice 5 4 (lz_header 0 0 0 4096 4095)) = 4095" "le_val (bslice 1 4 (lz_header 0 0 0 4096 4095)) = 4096"
    by (simp_all add: lz_header_def bslice_def le_simps)
  have "le_val (bslice 5 4 (nor_read ex_xz_flash 0x20100 13)) = 4095" "le_val (bslice 1 4 (nor_read ex_xz_flash 0x20100 13)) = 4096"
    unfolding h by (rule v)+
  then show ?thesis
    using xz_restore_stays_in_application [of 4095 ?s "0x20000" "0x7000"] c sz n ex_xz_body_length
    by (simp add: FALSH_SIZE_MAX_def)
qed

end
