(* ===== verification/Ota_Download_Correct.thy ===== *)
theory Ota_Download_Correct
  imports Ota_Download Ota_Xz
begin

text \<open>
  What the download guarantees: the state that makes the boot loader install an update is only ever stored
  over an image that passes its CRCs, whatever the server sends within the size of the partition and whenever
  the supply fails; and an image, compressed or not, that is sent in full, in pieces of at most a sector and
  after any number of attempts that the code repeats, is installed.
\<close>

section \<open>The flash during a download\<close>

definition sector_ops :: "nat \<Rightarrow> byte list \<Rightarrow> mop list" where
  "sector_ops a bs = erase_ops a 4096 @ prog_ops a bs"

text \<open>The first \<open>n\<close> sectors of \<open>D\<close> go to \<open>b\<close> and behind.\<close>

definition down_ops :: "nat \<Rightarrow> nat \<Rightarrow> byte list \<Rightarrow> mop list" where
  "down_ops b n D = concat (map (\<lambda>k. sector_ops (b + 4096 * k) (bslice (4096 * k) 4096 D)) [0..<n])"

lemma down_ops_0 [simp]: "down_ops b 0 D = []"
  by (simp add: down_ops_def)

lemma down_ops_Suc: "down_ops b (Suc n) D = down_ops b n D @ sector_ops (b + 4096 * n) (bslice (4096 * n) 4096 D)"
  by (simp add: down_ops_def)

lemma down_ops_append: "4096 * n \<le> length D \<Longrightarrow> down_ops b n (D @ E) = down_ops b n D"
  unfolding down_ops_def by (rule arg_cong [where f = concat], rule map_cong) (auto simp: bslice_def)

lemma within_sector_ops: "lo \<le> a \<Longrightarrow> a + 4096 \<le> hi \<Longrightarrow> length bs \<le> 4096 \<Longrightarrow> list_all (mop_within lo hi) (sector_ops a bs)"
  by (simp add: sector_ops_def mop_simps)

lemma within_down_ops: "b + 4096 * n \<le> hi \<Longrightarrow> list_all (mop_within b hi) (down_ops b n D)"
  by (induction n) (simp_all add: down_ops_Suc within_sector_ops bslice_def)

lemma read_sector_ops:
  assumes "length bs = 4096"
  shows "nor_read (mops torn (sector_ops a bs) fl) a 4096 = bs"
  using nor_read_write_blank [of "nor_erase fl a 4096" a bs] assms by (simp add: sector_ops_def mops_append mop_simps)

lemma read_down_ops:
  "4096 * n \<le> length D \<Longrightarrow> nor_read (mops torn (down_ops b n D) fl) b (4096 * n) = take (4096 * n) D"
proof (induction n)
  case (Suc n)
  let ?fl = "mops torn (down_ops b n D) fl" and ?sec = "sector_ops (b + 4096 * n) (bslice (4096 * n) 4096 D)"
  have len: "length (bslice (4096 * n) 4096 D) = 4096" using Suc.prems by (simp add: bslice_def)
  have "list_all (mop_within (b + 4096 * n) (b + 4096 * Suc n)) ?sec"
    by (rule within_sector_ops) (simp_all add: len)
  then have "nor_read (mops torn ?sec ?fl) b (4096 * n) = nor_read ?fl b (4096 * n)"
    by (intro nor_read_cong mops_other) auto
  moreover have "nor_read (mops torn ?sec ?fl) (b + 4096 * n) 4096 = bslice (4096 * n) 4096 D"
    by (rule read_sector_ops [OF len])
  ultimately have "nor_read (mops torn ?sec ?fl) b (4096 * n + 4096) = take (4096 * n) D @ bslice (4096 * n) 4096 D"
    using Suc by (simp only: nor_read_add) simp
  also have "\<dots> = take (4096 * n + 4096) D" by (simp only: take_add bslice_def)
  finally have "nor_read (mops torn ?sec ?fl) b (4096 * n + 4096) = take (4096 * n + 4096) D" .
  then show ?case by (simp only: down_ops_Suc mops_append mult_Suc_right add.commute [of 4096])
qed simp

lemma save_sector_eq:
  assumes "4096 dvd flash_ota_start_addr s + flash_ota_offset s"
    and "flash_ota_start_addr s + flash_ota_offset s + 4096 \<le> FALSH_SIZE_MAX" and "length bs = 4096"
  shows "ota_save_sector bs s =
    Some (s\<lparr>dl_ota := ota_run (sector_ops (flash_ota_start_addr s + flash_ota_offset s) bs) (dl_ota s)\<rparr>)"
  using assms by (simp add: ota_save_sector_def SECTOR_SIZE_4KB_def ota_erase_eq ota_write_eq ota_run_append sector_ops_def)

lemma length_sector_copy: "sector_copy b off bs = Some b' \<Longrightarrow> length b' = length b"
  by (auto simp: sector_copy_def split: if_splits)

section \<open>Whatever the server sends\<close>

text \<open>The flash is what it was but for steps inside the update partition, from \<open>b\<close> to \<open>b + m\<close>.\<close>

definition reaches :: "nat \<Rightarrow> nat \<Rightarrow> ota \<Rightarrow> ota_dl \<Rightarrow> bool" where
  "reaches b m o0 s \<longleftrightarrow> (\<exists>ops. list_all (mop_within b (b + m)) ops \<and> dl_ota s = ota_run ops o0)
     \<and> (\<forall>buf. temp4K_buf s = Some buf \<longrightarrow> length buf = 4096)"

text \<open>While \<open>N\<close> bytes of an attempt have come in.\<close>

definition receives :: "nat \<Rightarrow> nat \<Rightarrow> ota \<Rightarrow> nat \<Rightarrow> ota_dl \<Rightarrow> bool" where
  "receives b m o0 N s \<longleftrightarrow> reaches b m o0 s \<and> is_persistent_started s \<and> flash_ota_start_addr s = b
     \<and> 4096 dvd flash_ota_offset s \<and> flash_ota_offset s + temp4k_offset s = N"

lemma reaches_upd [simp]:
  "reaches b m o0 (s\<lparr>is_precheck_ok := x\<rparr>) = reaches b m o0 s" "reaches b m o0 (s\<lparr>is_ready_to_verify := x\<rparr>) = reaches b m o0 s"
  "reaches b m o0 (s\<lparr>temp4k_offset := n\<rparr>) = reaches b m o0 s" "reaches b m o0 (s\<lparr>flash_ota_offset := n\<rparr>) = reaches b m o0 s"
  "reaches b m o0 (s\<lparr>flash_ota_start_addr := n\<rparr>) = reaches b m o0 s" "reaches b m o0 (s\<lparr>is_persistent_started := x\<rparr>) = reaches b m o0 s"
  "reaches b m o0 (s\<lparr>dl_mem := ms\<rparr>) = reaches b m o0 s" "reaches b m o0 (s\<lparr>httpc_ota_started := x\<rparr>) = reaches b m o0 s"
  by (simp_all add: reaches_def)

lemma reaches_buf [simp]:
  "reaches b m o0 s \<Longrightarrow> length buf = 4096 \<Longrightarrow> reaches b m o0 (s\<lparr>temp4K_buf := Some buf\<rparr>)"
  "reaches b m o0 s \<Longrightarrow> reaches b m o0 (s\<lparr>temp4K_buf := None\<rparr>)"
  by (simp_all add: reaches_def)

lemma reaches_run:
  assumes "reaches b m o0 s" and "list_all (mop_within b (b + m)) ops"
  shows "reaches b m o0 (s\<lparr>dl_ota := ota_run ops (dl_ota s)\<rparr>)"
proof -
  obtain xs where "list_all (mop_within b (b + m)) xs" "dl_ota s = ota_run xs o0"
    using assms(1) by (auto simp: reaches_def)
  then have "list_all (mop_within b (b + m)) (xs @ ops) \<and> ota_run ops (dl_ota s) = ota_run (xs @ ops) o0"
    using assms(2) by (simp add: ota_run_append)
  then have "\<exists>zs. list_all (mop_within b (b + m)) zs \<and> ota_run ops (dl_ota s) = ota_run zs o0" by blast
  then show ?thesis using assms(1) by (simp add: reaches_def)
qed

lemma save_sector_reaches:
  assumes "receives b m o0 N s" and "N < m" and "4096 dvd b" and "4096 dvd m" and "b + m \<le> FALSH_SIZE_MAX" and "length bs = 4096"
  shows "\<exists>s'. ota_save_sector bs s = Some s' \<and> s' = s\<lparr>dl_ota := dl_ota s'\<rparr> \<and> reaches b m o0 s'"
proof -
  have b: "flash_ota_start_addr s = b" "4096 dvd flash_ota_offset s" "flash_ota_offset s < m"
    using assms(1,2) by (auto simp: receives_def)
  from b(2) assms(4) obtain i j where "flash_ota_offset s = 4096 * i" "m = 4096 * j" by (elim dvdE)
  then have fits: "flash_ota_offset s + 4096 \<le> m" using b(3) by simp
  let ?ops = "sector_ops (b + flash_ota_offset s) bs"
  have "ota_save_sector bs s = Some (s\<lparr>dl_ota := ota_run ?ops (dl_ota s)\<rparr>)"
    using save_sector_eq [of s bs] b fits assms(3,5,6) by simp
  moreover have "reaches b m o0 (s\<lparr>dl_ota := ota_run ?ops (dl_ota s)\<rparr>)"
    using assms(1,6) fits by (intro reaches_run within_sector_ops) (simp_all add: receives_def)
  ultimately show ?thesis by simp
qed

lemma precheck_upd: "ota_download_precheck c h s = Some (r, s') \<Longrightarrow> \<exists>ms. s' = s\<lparr>dl_mem := ms\<rparr>"
  by (auto simp: ota_download_precheck_def os_malloc_def Let_def split: list.splits if_splits prod.splits bind_splits
      intro: exI [of _ "dl_mem s"])

lemma check_first_upd: "ota_check_first c h s = Some (r, s') \<Longrightarrow> \<exists>ms x. s' = s\<lparr>dl_mem := ms, is_precheck_ok := x\<rparr>"
proof (cases "flash_ota_offset s = 0")
  case True
  moreover assume "ota_check_first c h s = Some (r, s')"
  ultimately show ?thesis by (auto simp: ota_check_first_def Option.bind_eq_Some_conv dest!: precheck_upd)
next
  case False
  moreover assume "ota_check_first c h s = Some (r, s')"
  ultimately have "s' = s\<lparr>dl_mem := dl_mem s, is_precheck_ok := is_precheck_ok s\<rparr>" by (simp add: ota_check_first_def)
  then show ?thesis by blast
qed

lemma receives_upd [simp]:
  "receives b m o0 N (s\<lparr>is_precheck_ok := x\<rparr>) = receives b m o0 N s" "receives b m o0 N (s\<lparr>dl_mem := ms\<rparr>) = receives b m o0 N s"
  by (simp_all add: receives_def)

lemma flush_receives:
  assumes "ota_flush c buf s = Some (ok, s')" and "receives b m o0 N s" and "N < m" and "temp4k_offset s = 4096"
    and "4096 dvd b" and "4096 dvd m" and "b + m \<le> FALSH_SIZE_MAX" and "length buf = 4096"
  shows "reaches b m o0 s' \<and> (ok \<longrightarrow> receives b m o0 N s' \<and> temp4k_offset s' = 0)"
proof -
  from assms(1) obtain r s1 where c: "ota_check_first c buf s = Some (r, s1)"
    by (auto simp: ota_flush_def Option.bind_eq_Some_conv)
  then obtain ms x where s1: "s1 = s\<lparr>dl_mem := ms, is_precheck_ok := x\<rparr>" using check_first_upd by blast
  then have rec: "receives b m o0 N s1" using assms(2) by simp
  show ?thesis
  proof (cases r)
    case False
    then show ?thesis using assms(1) c rec by (simp add: ota_flush_def receives_def)
  next
    case True
    obtain s2 where s2: "ota_save_sector buf s1 = Some s2" "s2 = s1\<lparr>dl_ota := dl_ota s2\<rparr>" "reaches b m o0 s2"
      using save_sector_reaches [OF rec assms(3,5-8)] by blast
    have f: "is_persistent_started s2" "flash_ota_start_addr s2 = b" "flash_ota_offset s2 = flash_ota_offset s"
      using arg_cong [OF s2(2), of is_persistent_started] arg_cong [OF s2(2), of flash_ota_start_addr]
        arg_cong [OF s2(2), of flash_ota_offset] rec by (simp_all add: receives_def s1)
    have "ok \<and> s' = s2\<lparr>flash_ota_offset := flash_ota_offset s2 + 4096, temp4K_buf := Some (replicate 4096 0), temp4k_offset := 0\<rparr>"
      using assms(1) c True s2(1) by (simp add: ota_flush_def SECTOR_SIZE_4KB_def)
    moreover have off: "4096 dvd flash_ota_offset s2" "flash_ota_offset s2 + 4096 = N"
      using assms(2,4) f by (simp_all add: receives_def)
    moreover have "4096 dvd N" using dvd_add [OF off(1) dvd_refl] off(2) by simp
    ultimately show ?thesis using s2(3) f by (simp add: receives_def)
  qed
qed

lemma write_receives:
  assumes "ota_persistent_write c buf s = Some (ok, s')" and "receives b m o0 N s" and "N + length buf < m"
    and "4096 dvd b" and "4096 dvd m" and "b + m \<le> FALSH_SIZE_MAX"
  shows "reaches b m o0 s' \<and> (ok \<longrightarrow> receives b m o0 (N + length buf) s')"
proof -
  define part where "part = ota_part_len (temp4k_offset s) (length buf)"
  define cnt where "cnt = length buf - part"
  have app: "ota_append c part buf s = Some (ok, s')"
    using assms(1,2) by (simp add: receives_def ota_persistent_write_def part_def)
  then obtain b0 b1 where b0: "temp4K_buf s = Some b0" and b1: "sector_copy b0 (temp4k_offset s) (take cnt buf) = Some b1"
    by (auto simp: ota_append_def cnt_def Option.bind_eq_Some_conv)
  have len: "length b0 = 4096" "length b1 = 4096"
    using assms(2) b0 length_sector_copy [OF b1] by (auto simp: receives_def reaches_def)
  have cnt: "temp4k_offset s + cnt \<le> 4096" "cnt + part = length buf" "part > 0 \<longrightarrow> temp4k_offset s + cnt = 4096"
    using b1 len by (auto simp: sector_copy_def cnt_def part_def ota_part_len_def SECTOR_SIZE_4KB_def split: if_splits)
  define s1 where "s1 = s\<lparr>temp4K_buf := Some b1, temp4k_offset := temp4k_offset s + cnt\<rparr>"
  have rec: "receives b m o0 (N + cnt) s1"
    using assms(2) len by (auto simp: s1_def receives_def)
  have run: "do {
      (ok, s) \<leftarrow> (if temp4k_offset s1 \<ge> SECTOR_SIZE_4KB then ota_flush c b1 s1 else Some (True, s1));
      if \<not> ok then Some (False, s)
      else if part > 0 then do {
        b2 \<leftarrow> temp4K_buf s;
        b3 \<leftarrow> sector_copy b2 (temp4k_offset s) (drop cnt buf);
        Some (True, s\<lparr>temp4K_buf := Some b3, temp4k_offset := temp4k_offset s + part\<rparr>) }
      else Some (True, s) } = Some (ok, s')"
    using app unfolding ota_append_def b0 cnt_def [symmetric] Option.bind.simps b1 Let_def s1_def [symmetric] .
  note run = run [unfolded SECTOR_SIZE_4KB_def, simplified]
  show ?thesis
  proof (cases "temp4k_offset s1 \<ge> 4096")
    case False
    then have "part = 0" using cnt(3) by (auto simp: s1_def)
    then show ?thesis using run rec False cnt(2) by (auto simp: receives_def)
  next
    case True
    then have full: "temp4k_offset s1 = 4096" using cnt(1) by (simp add: s1_def)
    obtain ok1 s2 where f: "ota_flush c b1 s1 = Some (ok1, s2)"
      using run True by (auto simp: Option.bind_eq_Some_conv)
    have s2: "reaches b m o0 s2" "ok1 \<longrightarrow> receives b m o0 (N + cnt) s2 \<and> temp4k_offset s2 = 0"
      using flush_receives [OF f rec _ full assms(4-6) len(2)] cnt(2) assms(3) by auto
    show ?thesis
    proof (cases "ok1 \<and> part > 0")
      case False
      then show ?thesis using run True f s2 cnt(2) by (cases ok1) auto
    next
      case rest: True
      obtain b2 b3 where b3: "temp4K_buf s2 = Some b2" "sector_copy b2 (temp4k_offset s2) (drop cnt buf) = Some b3"
        "ok" "s' = s2\<lparr>temp4K_buf := Some b3, temp4k_offset := temp4k_offset s2 + part\<rparr>"
        using run True f rest by (auto simp: Option.bind_eq_Some_conv)
      have "length b3 = 4096"
        using s2(1) b3(1) length_sector_copy [OF b3(2)] by (auto simp: reaches_def)
      then show ?thesis
        using s2 rest b3(3,4) cnt(2) by (auto simp: receives_def)
    qed
  qed
qed

lemma finish_receives:
  assumes "ota_persistent_finish s = Some (ok, s')" and "receives b m o0 N s" and "N < m"
    and "4096 dvd b" and "4096 dvd m" and "b + m \<le> FALSH_SIZE_MAX"
  shows "reaches b m o0 s'"
proof -
  obtain buf where buf: "temp4K_buf s = Some buf" "is_persistent_started s"
    using assms(1,2) by (auto simp: ota_persistent_finish_def receives_def Option.bind_eq_Some_conv)
  moreover have "length buf = 4096" using assms(2) buf(1) by (auto simp: receives_def reaches_def)
  then obtain s1 where "ota_save_sector buf s = Some s1" "reaches b m o0 s1"
    using save_sector_reaches [OF assms(2-6)] by blast
  ultimately show ?thesis using assms(1) by (auto simp: ota_persistent_finish_def)
qed

fun http_length :: "http_event list \<Rightarrow> nat" where
  "http_length (Http_data bs # es) = length bs + http_length es"
| "http_length es = 0"

lemma get_reaches:
  "http_get_with_callback c es r s = Some (r', s') \<Longrightarrow> receives b m o0 N s \<Longrightarrow> N + http_length es < m \<Longrightarrow>
   4096 dvd b \<Longrightarrow> 4096 dvd m \<Longrightarrow> b + m \<le> FALSH_SIZE_MAX \<Longrightarrow> reaches b m o0 s'"
proof (induction c es r s arbitrary: N rule: http_get_with_callback.induct)
  case (2 c bs es r s)
  obtain ok s1 where w: "ota_persistent_write c bs s = Some (ok, s1)"
    using 2(2) by (auto simp: http_get_callback_def Option.bind_eq_Some_conv)
  have s1: "reaches b m o0 s1" "ok \<longrightarrow> receives b m o0 (N + length bs) s1"
    using write_receives [OF w 2(3) _ 2(5-7)] 2(4) by auto
  show ?case
  proof (cases ok)
    case False
    then show ?thesis using 2(2) w s1 by (simp add: http_get_callback_def)
  next
    case True
    have "http_get_callback c bs False s = Some (int (length bs), s1)" using True w by (simp add: http_get_callback_def)
    then show ?thesis using 2(1) [of "(int (length bs), s1)"] 2(2) 2(4-7) s1 True by (simp add: add.assoc)
  qed
next
  case (3 c bs es r s)
  then show ?case
    by (auto simp: http_get_callback_def Option.bind_eq_Some_conv dest: finish_receives)
qed (auto simp: receives_def)

lemma start_receives:
  assumes "ota_persistent_start c s = (ok, s')" and "reaches b m o0 s" and "OTA_SPACE_OFFSET c = b"
  shows "reaches b m o0 s' \<and> (ok \<longrightarrow> receives b m o0 0 s')"
proof -
  have "\<exists>ms. snd (os_malloc s) = s\<lparr>dl_mem := ms\<rparr>"
    by (cases "dl_mem s") (auto simp: os_malloc_def intro: exI [of _ "dl_mem s"])
  then obtain ms mem where "os_malloc s = (mem, s\<lparr>dl_mem := ms\<rparr>)" by (cases "os_malloc s") auto
  then show ?thesis
    using assms by (auto simp: ota_persistent_start_def SECTOR_SIZE_4KB_def receives_def split: option.splits if_splits)
qed

text \<open>What is verified at the end: the check of the whole image in the update partition.\<close>

lemma ota_read_range: "off \<le> FALSH_SIZE_MAX \<Longrightarrow> n \<le> 128 \<Longrightarrow> ota_flash_read s off n = Some bs \<Longrightarrow> off + n \<le> FALSH_SIZE_MAX"
  by (auto simp: ota_flash_read_def hal_flash_read_def hal_assert_def add_u32_def u32_def FALSH_SIZE_MAX_def split: if_splits)

lemma crc_loop_range:
  "image_crc_loop n s off ctx = Some r \<Longrightarrow> off \<le> FALSH_SIZE_MAX \<Longrightarrow> off + 128 * n \<le> FALSH_SIZE_MAX"
proof (induction n arbitrary: off ctx)
  case (Suc n)
  then obtain bs where "ota_flash_read s off 128 = Some bs" "image_crc_loop n s (add_u32 off 128) (ln_crc32_update ctx bs) = Some r"
    by (auto simp: TEMP_BUF_LEN_def Option.bind_eq_Some_conv)
  moreover from this have "off + 128 \<le> FALSH_SIZE_MAX" using ota_read_range Suc.prems(2) by simp
  ultimately show ?case using Suc.IH [of "off + 128" "ln_crc32_update ctx bs"] by simp
qed simp

lemma body_verify_range:
  assumes "image_body_verify s a (Some h) = Some e" and "image_size_crc h = Some (sz, crc)" and "a + 256 \<le> FALSH_SIZE_MAX"
  shows "a + 256 + sz \<le> FALSH_SIZE_MAX"
proof -
  have a: "add_u32 a 256 = a + 256" using assms(3) by simp
  obtain off ctx bs where 1: "image_crc_loop (sz div 128) s (a + 256) ln_crc32_init = Some (off, ctx)"
    and 2: "ota_flash_read s off (sz mod 128) = Some bs"
    using assms(1,2) a by (auto simp: image_body_verify_def TEMP_BUF_LEN_def sizeof_image_hdr_def Option.bind_eq_Some_conv)
  have r: "a + 256 + 128 * (sz div 128) \<le> FALSH_SIZE_MAX" using crc_loop_range [OF 1 assms(3)] .
  then have "off = a + 256 + 128 * (sz div 128)" using crc_loop_eq [OF r] 1 by simp
  then have "a + 256 + 128 * (sz div 128) + sz mod 128 \<le> FALSH_SIZE_MAX"
    using ota_read_range [OF _ _ 2] r by simp
  then show ?thesis by simp
qed

lemma verify_download_check:
  assumes "ota_verify_download c s = Some True" and "OTA_SPACE_OFFSET c = b" and "b + 256 \<le> FALSH_SIZE_MAX"
  shows "image_check (ota_cells (dl_ota s)) b = OTA_ERR_NONE"
proof -
  let ?h = "image_header_at (ota_cells (dl_ota s)) b"
  have "image_header_fast_read (dl_ota s) b = Some (OTA_ERR_NONE, ?h)"
    using assms(3) by (simp add: image_header_fast_read_def sizeof_image_hdr_def ota_read_eq image_header_at_def)
  then have h: "image_header_verify ?h = OTA_ERR_NONE" and v: "image_body_verify (dl_ota s) b (Some ?h) = Some OTA_ERR_NONE"
    using assms(1,2) by (auto simp: ota_verify_download_def Option.bind_eq_Some_conv split: if_splits)
  then obtain sz crc where sz: "image_size_crc ?h = Some (sz, crc)"
    by (cases "image_size_crc ?h") (auto simp: image_body_verify_def)
  then show ?thesis
    using body_verify_range [OF v sz assms(3)] body_verify_eq [OF sz] v h by (auto simp: image_check_def Let_def split: if_splits)
qed

definition attempt_length :: "http_attempt \<Rightarrow> nat" where
  "attempt_length at = (case at of Http_get es \<Rightarrow> http_length es | _ \<Rightarrow> 0)"

text \<open>The state of the update is only set after the check.\<close>

definition concludes :: "ota_spaces \<Rightarrow> nat \<Rightarrow> nat \<Rightarrow> ota \<Rightarrow> ota_outcome \<Rightarrow> ota_dl \<Rightarrow> bool" where
  "concludes c b m o0 out s' \<longleftrightarrow> (\<exists>s. reaches b m o0 s \<and>
     (if out = Ota_reboot then ota_verify_download c s = Some True \<and> update_ota_state s = Some s' else dl_ota s' = dl_ota s))"

lemma conclude_concludes:
  "ota_conclude c s = Some (out, s') \<Longrightarrow> reaches b m o0 s \<Longrightarrow> concludes c b m o0 out s'"
  by (auto simp: ota_conclude_def concludes_def Option.bind_eq_Some_conv split: if_splits)

lemma entry_concludes:
  "http_ota_entry c as r s = Some (out, s') \<Longrightarrow> reaches b m o0 s \<Longrightarrow> \<forall>at \<in> set as. attempt_length at < m \<Longrightarrow>
   OTA_SPACE_OFFSET c = b \<Longrightarrow> 4096 dvd b \<Longrightarrow> 4096 dvd m \<Longrightarrow> b + m \<le> FALSH_SIZE_MAX \<Longrightarrow> concludes c b m o0 out s'"
proof (induction c as r s rule: http_ota_entry.induct)
  case (1 c r s)
  then show ?case by (auto simp: concludes_def)
next
  case (4 c es as r s)
  obtain ok s1 where st: "ota_persistent_start c s = (ok, s1)" by (cases "ota_persistent_start c s")
  obtain r2 s2 where g: "(if ok then http_get_with_callback c es 0 s1 else Some (r, s1)) = Some (r2, s2)"
    using 4(2) st by (auto simp: Option.bind_eq_Some_conv)
  have s1: "reaches b m o0 s1" "ok \<longrightarrow> receives b m o0 0 s1"
    using start_receives [OF st 4(3,5)] by auto
  have s2: "reaches b m o0 s2"
  proof (cases ok)
    case True
    then have "http_get_with_callback c es 0 s1 = Some (r2, s2)" "receives b m o0 0 s1" using g s1 by simp_all
    then show ?thesis using get_reaches [of c es 0 s1 r2 s2 b m o0 0] 4(4,6-8) by (simp add: attempt_length_def)
  next
    case False
    then show ?thesis using g s1 by simp
  qed
  have run: "http_ota_entry c (Http_get es # as) r s =
      (if r2 > 0 then ota_conclude c s2 else if r2 < 0 \<and> \<not> is_precheck_ok s2 then ota_conclude c s2 else http_ota_entry c as r2 s2)"
    using st g by simp
  show ?case
  proof (cases "r2 > 0 \<or> (r2 < 0 \<and> \<not> is_precheck_ok s2)")
    case True
    then have "ota_conclude c s2 = Some (out, s')" using 4(2) run by (simp split: if_splits)
    then show ?thesis using s2 by (rule conclude_concludes)
  next
    case False
    then have "http_ota_entry c as r2 s2 = Some (out, s')" using 4(2) run by (auto split: if_splits)
    then show ?thesis using 4(1) [OF st [symmetric] refl g refl] False s2 4(4-8) by auto
  qed
qed (simp_all add: attempt_length_def)

lemma reaches_cells:
  assumes "reaches b m o0 s"
  shows "ln_nvds_base (ot_nv (dl_ota s)) = ln_nvds_base (ot_nv o0)"
    and "x < b \<or> b + m \<le> x \<Longrightarrow> ota_cells (dl_ota s) x = ota_cells o0 x"
proof -
  obtain ops where ops: "list_all (mop_within b (b + m)) ops" "dl_ota s = ota_run ops o0"
    using assms by (auto simp: reaches_def)
  then show "ln_nvds_base (ot_nv (dl_ota s)) = ln_nvds_base (ot_nv o0)" by (simp add: ota_run_def)
  show "ota_cells (dl_ota s) x = ota_cells o0 x" if "x < b \<or> b + m \<le> x"
    using run_ops_other [OF ops(1) that] ops(2) by (simp add: ota_cells_run) (simp add: ota_cells_def)
qed

lemma reaches_state:
  assumes "reaches b m o0 s" and "nvds_state (ot_nv o0) v" and "b + m \<le> ln_nvds_base (ot_nv o0) \<or> ln_nvds_base (ot_nv o0) + 12288 \<le> b"
  shows "nvds_state (ot_nv (dl_ota s)) v"
  using reaches_cells [OF assms(1)] assms(3)
  by (intro nvds_state_cong [OF assms(2)]) (auto simp: ota_cells_def)

section \<open>An image that arrives\<close>

text \<open>The check of the first sector lets the image pass: its type, its version and its sizes.\<close>

definition passes :: "ota_spaces \<Rightarrow> nor \<Rightarrow> image_hdr \<Rightarrow> bool" where
  "passes c fl h \<longleftrightarrow> (image_type h = IMAGE_TYPE_ORIGINAL \<or> image_type h = IMAGE_TYPE_ORIGINAL_XZ) \<and> image_version h \<noteq> image_version (image_header_at fl (APP_SPACE_OFFSET c))
     \<and> img_size_orig h + 256 \<le> APP_SPACE_SIZE c \<and> img_size_orig_xz h + 256 \<le> OTA_SPACE_SIZE c
     \<and> APP_SPACE_SIZE c < 2 ^ 32 \<and> OTA_SPACE_SIZE c < 2 ^ 32 \<and> APP_SPACE_OFFSET c + 256 \<le> FALSH_SIZE_MAX"

lemma precheck_passes:
  assumes "passes c (ota_cells (dl_ota s)) h" and "dl_mem s = []"
  shows "ota_download_precheck c h s = Some (True, s)"
proof -
  have "image_header_fast_read (dl_ota s) (APP_SPACE_OFFSET c) = Some (OTA_ERR_NONE, image_header_at (ota_cells (dl_ota s)) (APP_SPACE_OFFSET c))"
    using assms(1) by (simp add: passes_def image_header_fast_read_def sizeof_image_hdr_def ota_read_eq image_header_at_def)
  moreover have "add_u32 (img_size_orig h) 256 = img_size_orig h + 256" "add_u32 (img_size_orig_xz h) 256 = img_size_orig_xz h + 256"
    using assms(1) by (simp_all add: passes_def add_u32_def u32_def)
  ultimately show ?thesis
    using assms by (auto simp: passes_def ota_download_precheck_def os_malloc_def sizeof_image_hdr_def)
qed

text \<open>The bytes \<open>D\<close> of this attempt have come in: \<open>q\<close> sectors are saved, the rest is in the buffer.\<close>

definition gets :: "nat \<Rightarrow> ota \<Rightarrow> byte list \<Rightarrow> nat \<Rightarrow> byte list \<Rightarrow> ota_dl \<Rightarrow> bool" where
  "gets b o0 D q buf s \<longleftrightarrow> length D = 4096 * q + temp4k_offset s \<and> temp4k_offset s < 4096 \<and> flash_ota_offset s = 4096 * q
     \<and> temp4K_buf s = Some buf \<and> length buf = 4096 \<and> take (temp4k_offset s) buf = drop (4096 * q) D
     \<and> dl_ota s = ota_run (down_ops b q D) o0 \<and> (0 < q \<longrightarrow> is_precheck_ok s)
     \<and> is_persistent_started s \<and> flash_ota_start_addr s = b \<and> dl_mem s = []"

text \<open>What a write that succeeds leaves of the flags: a header that has passed stays so.\<close>

definition keeps :: "ota_dl \<Rightarrow> ota_dl \<Rightarrow> bool" where
  "keeps s s' \<longleftrightarrow> is_ready_to_verify s' = is_ready_to_verify s \<and> (is_precheck_ok s \<longrightarrow> is_precheck_ok s')"

lemma keeps_trans: "keeps s t \<Longrightarrow> keeps t u \<Longrightarrow> keeps s u"
  by (simp add: keeps_def)

lemma append_small:
  assumes "gets b o0 D q buf s" and "temp4k_offset s + length bs < 4096"
  shows "\<exists>s' buf'. ota_persistent_write c bs s = Some (True, s') \<and> gets b o0 (D @ bs) q buf' s' \<and> keeps s s'"
proof -
  let ?off = "temp4k_offset s"
  let ?buf = "take ?off buf @ bs @ drop (?off + length bs) buf"
  have "ota_part_len ?off (length bs) = 0" using assms(2) by (simp add: ota_part_len_def SECTOR_SIZE_4KB_def)
  then have "ota_persistent_write c bs s = Some (True, s\<lparr>temp4K_buf := Some ?buf, temp4k_offset := ?off + length bs\<rparr>)"
    using assms by (simp add: ota_persistent_write_def ota_append_def gets_def sector_copy_def SECTOR_SIZE_4KB_def Let_def)
  moreover have "gets b o0 (D @ bs) q ?buf (s\<lparr>temp4K_buf := Some ?buf, temp4k_offset := ?off + length bs\<rparr>)"
    using assms by (auto simp: gets_def down_ops_append)
  ultimately show ?thesis by (auto simp: keeps_def)
qed

lemma check_first_passes:
  assumes "gets b o0 D q buf s" and "q = 0 \<Longrightarrow> passes c (ota_cells o0) (image_hdr_decode (take 256 bs))"
  shows "ota_check_first c bs (s\<lparr>temp4K_buf := x, temp4k_offset := y\<rparr>) =
    Some (True, s\<lparr>temp4K_buf := x, temp4k_offset := y, is_precheck_ok := True\<rparr>)"
proof (cases "q = 0")
  case True
  then have "flash_ota_offset s = 0" "dl_ota s = o0" "dl_mem s = []" using assms(1) by (simp_all add: gets_def)
  then show ?thesis
    using precheck_passes [of c "s\<lparr>temp4K_buf := x, temp4k_offset := y\<rparr>" "image_hdr_decode (take 256 bs)"] assms(2) True
    by (simp add: ota_check_first_def sizeof_image_hdr_def)
next
  case False
  then have "flash_ota_offset s \<noteq> 0" "is_precheck_ok s" using assms(1) by (simp_all add: gets_def)
  then show ?thesis by (cases s) (simp add: ota_check_first_def)
qed

lemma append_full:
  assumes g: "gets b o0 D q buf s" and len: "4096 \<le> temp4k_offset s + length bs" "length bs \<le> 4096"
    and b: "4096 dvd b" "b + 4096 * Suc q \<le> FALSH_SIZE_MAX" and ok: "passes c (ota_cells o0) (image_hdr_decode (take 256 (D @ bs)))"
  shows "\<exists>s' buf'. ota_persistent_write c bs s = Some (True, s') \<and> gets b o0 (D @ bs) (Suc q) buf' s' \<and> keeps s s'"
proof -
  define off where "off = temp4k_offset s"
  define cnt where "cnt = 4096 - off"
  define part where "part = length bs - cnt"
  have off: "off < 4096" "off + cnt = 4096" "cnt + part = length bs" "part < 4096" "cnt \<le> length bs" "length D = 4096 * q + off"
    using g len by (auto simp: gets_def off_def cnt_def part_def)
  have pl: "ota_part_len off (length bs) = part" "length bs - part = cnt"
    using off len by (auto simp: ota_part_len_def SECTOR_SIZE_4KB_def off_def)
  let ?b1 = "take off buf @ take cnt bs"
  have buf: "temp4K_buf s = Some buf" "length buf = 4096" "take off buf = drop (4096 * q) D" using g by (simp_all add: gets_def off_def)
  have c1: "sector_copy buf off (take cnt bs) = Some ?b1" using buf off by (simp add: sector_copy_def)
  have b1: "?b1 = bslice (4096 * q) 4096 (D @ bs)" using buf off by (simp add: bslice_def min_def cnt_def)
  have lb1: "length ?b1 = 4096" using buf off by simp
  have "take 256 ?b1 = take 256 (D @ bs)" if "q = 0" using b1 that by (simp add: bslice_def min_def)
  then have check: "ota_check_first c ?b1 (s\<lparr>temp4K_buf := x, temp4k_offset := y\<rparr>) =
    Some (True, s\<lparr>temp4K_buf := x, temp4k_offset := y, is_precheck_ok := True\<rparr>)" for x y
    using check_first_passes [OF g, of c ?b1 y x] ok by simp
  have st: "flash_ota_start_addr s = b" "flash_ota_offset s = 4096 * q" "is_persistent_started s" "dl_ota s = ota_run (down_ops b q D) o0" "dl_mem s = []"
    using g by (simp_all add: gets_def)
  let ?s2 = "s\<lparr>temp4K_buf := Some ?b1, temp4k_offset := 4096, is_precheck_ok := True\<rparr>"
  let ?o = "ota_run (sector_ops (b + 4096 * q) ?b1) (dl_ota s)"
  have save: "ota_save_sector ?b1 ?s2 = Some (?s2\<lparr>dl_ota := ?o\<rparr>)"
    using save_sector_eq [of ?s2 ?b1] st b lb1 by simp
  let ?z = "replicate 4096 0 :: byte list"
  let ?s3 = "?s2\<lparr>dl_ota := ?o, flash_ota_offset := 4096 * q + 4096, temp4K_buf := Some ?z, temp4k_offset := 0\<rparr>"
  have flush: "ota_flush c ?b1 (s\<lparr>temp4K_buf := Some ?b1, temp4k_offset := 4096\<rparr>) = Some (True, ?s3)"
    using check save st by (simp add: ota_flush_def SECTOR_SIZE_4KB_def)
  let ?buf' = "drop cnt bs @ drop part ?z"
  have rest: "length (drop cnt bs) = part" using off by simp
  then have c2: "sector_copy ?z 0 (drop cnt bs) = Some ?buf'" using off unfolding sector_copy_def rest by simp
  let ?s' = "?s3\<lparr>temp4K_buf := Some ?buf', temp4k_offset := part\<rparr>"
  have "ota_persistent_write c bs s = Some (True, ?s')"
    using st(3) buf(1) c1 flush c2 off by (auto simp: ota_persistent_write_def ota_append_def off_def [symmetric] pl SECTOR_SIZE_4KB_def)
  moreover have "drop (4096 * Suc q) (D @ bs) = drop cnt bs" using off by (simp add: cnt_def)
  moreover have "down_ops b (Suc q) (D @ bs) = down_ops b q D @ sector_ops (b + 4096 * q) ?b1"
    using off by (simp add: down_ops_Suc down_ops_append b1)
  then have "?o = ota_run (down_ops b (Suc q) (D @ bs)) o0" using st(4) by (simp add: ota_run_append)
  ultimately have "ota_persistent_write c bs s = Some (True, ?s') \<and> gets b o0 (D @ bs) (Suc q) ?buf' ?s'"
    using st off by (simp add: gets_def)
  then show ?thesis by (auto simp: keeps_def)
qed

text \<open>The partition takes the image, and the check lets it pass.\<close>

definition arrives :: "ota_spaces \<Rightarrow> nat \<Rightarrow> nat \<Rightarrow> byte list \<Rightarrow> nor \<Rightarrow> bool" where
  "arrives c b m img fl \<longleftrightarrow> OTA_SPACE_OFFSET c = b \<and> 4096 dvd b \<and> 4096 dvd m \<and> b + m \<le> FALSH_SIZE_MAX
     \<and> 4096 \<le> length img \<and> length img < m \<and> passes c fl (image_hdr_decode (take 256 img))
     \<and> (APP_SPACE_OFFSET c + 256 \<le> b \<or> b + m \<le> APP_SPACE_OFFSET c)"

lemma write_gets:
  assumes g: "gets b o0 D q buf s" and a: "arrives c b m img (ota_cells o0)" and l: "length bs \<le> 4096" and img: "img = D @ bs @ r"
  shows "\<exists>s' q' buf'. ota_persistent_write c bs s = Some (True, s') \<and> gets b o0 (D @ bs) q' buf' s' \<and> keeps s s'"
proof (cases "temp4k_offset s + length bs < 4096")
  case True
  then show ?thesis using append_small [OF g] by blast
next
  case False
  have "length D = 4096 * q + temp4k_offset s" using g by (simp add: gets_def)
  then have len: "4096 * Suc q \<le> length D + length bs" using False by simp
  then have "take 256 (D @ bs) = take 256 img" by (simp add: img)
  moreover have "b + 4096 * Suc q \<le> FALSH_SIZE_MAX" using len a by (simp add: arrives_def img)
  ultimately show ?thesis using append_full [OF g _ l] a False unfolding arrives_def by fastforce
qed

lemma get_gets:
  "gets b o0 D q buf s \<Longrightarrow> arrives c b m img (ota_cells o0) \<Longrightarrow> \<forall>bs \<in> set cs. length bs \<le> 4096 \<Longrightarrow> img = D @ concat cs @ r \<Longrightarrow>
   \<exists>s' q' buf'. gets b o0 (D @ concat cs) q' buf' s' \<and> keeps s s' \<and>
     (\<forall>es n. http_get_with_callback c (map Http_data cs @ es) n s = http_get_with_callback c es (n + int (length (concat cs))) s')"
proof (induction cs arbitrary: D q buf s)
  case Nil
  then show ?case by (auto simp: keeps_def)
next
  case (Cons bs cs)
  obtain s1 q1 buf1 where w: "ota_persistent_write c bs s = Some (True, s1)" and s1: "gets b o0 (D @ bs) q1 buf1 s1"
    "keeps s s1"
    using write_gets [OF Cons.prems(1,2), of bs "concat cs @ r"] Cons.prems(3,4) by auto
  obtain s2 q2 buf2 where s2: "gets b o0 ((D @ bs) @ concat cs) q2 buf2 s2" "keeps s1 s2"
    "\<forall>es n. http_get_with_callback c (map Http_data cs @ es) n s1 = http_get_with_callback c es (n + int (length (concat cs))) s2"
    using Cons.IH [OF s1(1) Cons.prems(2)] Cons.prems(3,4) by auto
  have "http_get_with_callback c (map Http_data (bs # cs) @ es) n s
      = http_get_with_callback c es (n + int (length (concat (bs # cs)))) s2" for es n
    using w s2(3) by (simp add: http_get_callback_def add.assoc)
  then show ?case using s2(1) keeps_trans [OF s1(2) s2(2)] by auto
qed

text \<open>Between the attempts.\<close>

definition quiet :: "nat \<Rightarrow> nat \<Rightarrow> ota \<Rightarrow> ota_dl \<Rightarrow> bool" where
  "quiet b m o0 s \<longleftrightarrow> reaches b m o0 s \<and> dl_mem s = []"

lemma start_gets:
  assumes "quiet b m o0 s" and "OTA_SPACE_OFFSET c = b"
  shows "\<exists>s' buf. ota_persistent_start c s = (True, s') \<and> gets b (dl_ota s) [] 0 buf s' \<and> receives b m o0 0 s'
    \<and> is_precheck_ok s' = is_precheck_ok s"
proof -
  obtain s' where s': "ota_persistent_start c s = (True, s')" "dl_ota s' = dl_ota s" "dl_mem s' = []" "temp4k_offset s' = 0"
    "flash_ota_offset s' = 0" "is_persistent_started s'" "flash_ota_start_addr s' = b" "temp4K_buf s' \<noteq> None"
    "is_precheck_ok s' = is_precheck_ok s"
    using assms by (cases "temp4K_buf s") (simp_all add: quiet_def ota_persistent_start_def os_malloc_def)
  moreover have "receives b m o0 0 s'" using start_receives [OF s'(1) _ assms(2)] assms(1) by (simp add: quiet_def)
  ultimately show ?thesis by (auto simp: gets_def receives_def reaches_def)
qed

lemma arrives_cong:
  assumes "arrives c b m img (ota_cells o0)" and "reaches b m o0 s"
  shows "arrives c b m img (ota_cells (dl_ota s))"
proof -
  have "nor_read (ota_cells (dl_ota s)) (APP_SPACE_OFFSET c) 256 = nor_read (ota_cells o0) (APP_SPACE_OFFSET c) 256"
    using assms(1) by (intro nor_read_cong reaches_cells(2) [OF assms(2)]) (auto simp: arrives_def)
  then show ?thesis using assms(1) by (simp add: arrives_def passes_def image_header_at_def)
qed

text \<open>
  Attempts that fail and are repeated: no memory for the client, no data, or an error.  As long as no
  header has passed (\<open>ok\<close>), an error before the first sector is complete makes the code give up.
\<close>

definition retry_attempt :: "byte list \<Rightarrow> bool \<Rightarrow> http_attempt \<Rightarrow> bool" where
  "retry_attempt img ok at \<longleftrightarrow> at = No_http_info \<or> at = No_http_init \<or> at = Http_get [] \<or> at = Http_get [Http_close] \<or>
     (\<exists>cs r. at = Http_get (map Http_data cs @ [Http_error]) \<and> (\<forall>bs \<in> set cs. length bs \<le> 4096) \<and> img = concat cs @ r
        \<and> (ok \<or> 4096 \<le> length (concat cs)))"

fun retry_attempts :: "byte list \<Rightarrow> bool \<Rightarrow> http_attempt list \<Rightarrow> bool" where
  "retry_attempts img ok [] = True"
| "retry_attempts img ok (at # as) = (retry_attempt img ok at \<and> retry_attempts img (ok \<or> 4096 \<le> attempt_length at) as)"

lemma http_length_data [simp]: "http_length (map Http_data cs @ es) = length (concat cs) + http_length es"
  by (induction cs) simp_all

lemma retry_step:
  assumes "retry_attempt img ok at" and "quiet b m o0 s" and "arrives c b m img (ota_cells o0)" and "ok \<longrightarrow> is_precheck_ok s"
  shows "\<exists>s' r'. quiet b m o0 s' \<and> (ok \<or> 4096 \<le> attempt_length at \<longrightarrow> is_precheck_ok s')
    \<and> (\<forall>as. http_ota_entry c (at # as) r s = http_ota_entry c as r' s')"
proof -
  have "OTA_SPACE_OFFSET c = b" using assms(3) by (simp add: arrives_def)
  then obtain s1 buf where st: "ota_persistent_start c s = (True, s1)" and g: "gets b (dl_ota s) [] 0 buf s1" and rec: "receives b m o0 0 s1"
    and pre: "is_precheck_ok s1 = is_precheck_ok s"
    using start_gets [OF assms(2)] by blast
  have arr: "arrives c b m img (ota_cells (dl_ota s))" using arrives_cong [OF assms(3)] assms(2) by (simp add: quiet_def)
  consider "at = No_http_info \<or> at = No_http_init" | "at = Http_get [] \<or> at = Http_get [Http_close]"
    | cs rest where "at = Http_get (map Http_data cs @ [Http_error])" "\<forall>bs \<in> set cs. length bs \<le> 4096" "img = concat cs @ rest"
      "ok \<or> 4096 \<le> length (concat cs)"
    using assms(1) by (auto simp: retry_attempt_def)
  then show ?thesis
  proof cases
    case 1
    then have "\<forall>as. http_ota_entry c (at # as) r s = http_ota_entry c as r s" "attempt_length at = 0" by (auto simp: attempt_length_def)
    then show ?thesis using assms(2,4) by (intro exI [of _ s] exI [of _ r]) simp
  next
    case 2
    then have "\<forall>as. http_ota_entry c (at # as) r s = http_ota_entry c as 0 s1" "attempt_length at = 0"
      using st by (auto simp: attempt_length_def)
    moreover have "quiet b m o0 s1" using rec g by (simp add: quiet_def receives_def gets_def)
    ultimately show ?thesis using assms(4) pre by (intro exI [of _ s1] exI [of _ 0]) simp
  next
    case 3
    obtain s2 q2 buf2 where s2: "gets b (dl_ota s) (concat cs) q2 buf2 s2" "keeps s1 s2"
      and run: "\<forall>es n. http_get_with_callback c (map Http_data cs @ es) n s1 = http_get_with_callback c es (n + int (length (concat cs))) s2"
      using get_gets [OF g arr 3(2)] 3(3) by auto
    then have get: "http_get_with_callback c (map Http_data cs @ [Http_error]) 0 s1 = Some (- 1, s2)" by simp
    have "0 < q2" if "4096 \<le> length (concat cs)" using s2(1) that by (cases q2) (simp_all add: gets_def)
    then have ok: "is_precheck_ok s2" using s2 3(4) assms(4) pre by (auto simp: gets_def keeps_def)
    have "reaches b m o0 s2"
      using get_reaches [OF get rec] assms(3) 3(3) by (simp add: arrives_def)
    then have "quiet b m o0 s2" and "\<forall>as. http_ota_entry c (at # as) r s = http_ota_entry c as (- 1) s2"
      using st get 3(1) s2(1) ok by (simp_all add: quiet_def gets_def)
    then show ?thesis using ok by blast
  qed
qed

lemma retry_steps:
  "retry_attempts img ok as \<Longrightarrow> quiet b m o0 s \<Longrightarrow> arrives c b m img (ota_cells o0) \<Longrightarrow> ok \<longrightarrow> is_precheck_ok s \<Longrightarrow>
   \<exists>s' r'. quiet b m o0 s' \<and> (\<forall>zs. http_ota_entry c (as @ zs) r s = http_ota_entry c zs r' s')"
proof (induction as arbitrary: ok r s)
  case (Cons at as)
  from Cons.prems(1) have at: "retry_attempt img ok at" "retry_attempts img (ok \<or> 4096 \<le> attempt_length at) as" by simp_all
  obtain s1 r1 where s1: "quiet b m o0 s1" "ok \<or> 4096 \<le> attempt_length at \<longrightarrow> is_precheck_ok s1"
    "\<forall>zs. http_ota_entry c (at # zs) r s = http_ota_entry c zs r1 s1"
    using retry_step [OF at(1) Cons.prems(2-4)] by blast
  show ?case using Cons.IH [OF at(2) s1(1) Cons.prems(3) s1(2), of r1] s1(3) by auto
qed auto

text \<open>The last attempt: the image is in the partition.\<close>

lemma finish_gets:
  assumes g: "gets b o1 img q buf s" and a: "arrives c b m img fl" and rec: "receives b m o0 (length img) s"
    and pw: "pd_power (nv_dev (ot_nv o1)) = None"
  shows "\<exists>s'. http_get_callback c x True s = Some (int (length x), s') \<and> is_precheck_ok s' \<and> is_ready_to_verify s'
    \<and> reaches b m o0 s' \<and> nor_read (ota_cells (dl_ota s')) b (length img) = img"
proof -
  let ?off = "temp4k_offset s"
  have b: "length img = 4096 * q + ?off" "?off < 4096" "length buf = 4096" "take ?off buf = drop (4096 * q) img"
    "dl_ota s = ota_run (down_ops b q img) o1" "is_persistent_started s" "flash_ota_start_addr s = b" "flash_ota_offset s = 4096 * q"
    "temp4K_buf s = Some buf"
    using g by (simp_all add: gets_def)
  have "0 < q" using b(1,2) a by (cases q) (simp_all add: arrives_def)
  then have pre: "is_precheck_ok s" using g by (simp add: gets_def)
  have a': "length img < m" "4096 dvd b" "4096 dvd m" "b + m \<le> FALSH_SIZE_MAX" using a by (simp_all add: arrives_def)
  obtain s2 where s2: "ota_save_sector buf s = Some s2" "s2 = s\<lparr>dl_ota := dl_ota s2\<rparr>"
    using save_sector_reaches [OF rec a' b(3)] by blast
  let ?s' = "s2\<lparr>temp4K_buf := None, temp4k_offset := 0, flash_ota_offset := 0, is_persistent_started := False\<rparr>"
  have fin: "ota_persistent_finish s = Some (True, ?s')" using b(6,9) s2(1) by (simp add: ota_persistent_finish_def)
  then have "reaches b m o0 ?s'" by (rule finish_receives [OF _ rec a'])
  moreover have "is_precheck_ok s2" using arg_cong [OF s2(2), of is_precheck_ok] pre by simp
  moreover have "nor_read (ota_cells (dl_ota s2)) b (length img) = img"
  proof -
    obtain i where m: "m = 4096 * i" using a'(3) by (elim dvdE)
    then have "Suc q \<le> i" using a'(1) b(1) by simp
    then have "4096 * Suc q \<le> m" unfolding m by (rule mult_le_mono2)
    then have fits: "b + 4096 * q + 4096 \<le> FALSH_SIZE_MAX" using a'(4) by simp
    have "ota_save_sector buf s = Some (s\<lparr>dl_ota := ota_run (sector_ops (b + 4096 * q) buf) (dl_ota s)\<rparr>)"
      using save_sector_eq [of s buf] b(3,7,8) fits a'(2) by simp
    then have "dl_ota s2 = ota_run (sector_ops (b + 4096 * q) buf) (ota_run (down_ops b q img) o1)" using s2(1) b(5) by simp
    then have cells: "ota_cells (dl_ota s2) = mops (pd_torn (nv_dev (ot_nv o1))) (sector_ops (b + 4096 * q) buf)
        (mops (pd_torn (nv_dev (ot_nv o1))) (down_ops b q img) (ota_cells o1))"
      using pw by (simp add: ota_run_append ota_cells_run run_ops_def mops_append ota_cells_def)
    have "list_all (mop_within (b + 4096 * q) (b + 4096 * q + 4096)) (sector_ops (b + 4096 * q) buf)"
      by (rule within_sector_ops) (simp_all add: b(3))
    then have "nor_read (mops t (sector_ops (b + 4096 * q) buf) f) b (4096 * q) = nor_read f b (4096 * q)" for t f
      by (intro nor_read_cong mops_other) auto
    then have "nor_read (ota_cells (dl_ota s2)) b (4096 * q) = take (4096 * q) img"
      using b(1) by (simp only: cells read_down_ops le_add1)
    moreover have "nor_read (ota_cells (dl_ota s2)) (b + 4096 * q) 4096 = buf"
      unfolding cells by (rule read_sector_ops [OF b(3)])
    then have "nor_read (ota_cells (dl_ota s2)) (b + 4096 * q) ?off = drop (4096 * q) img"
      using b(2,4) take_nor_read [of ?off 4096 "ota_cells (dl_ota s2)" "b + 4096 * q"] by simp
    ultimately show ?thesis by (simp only: b(1) nor_read_add) (simp add: b)
  qed
  ultimately show ?thesis using fin by (simp add: http_get_callback_def)
qed

lemma last_attempt:
  assumes q: "quiet b m o0 s" and a: "arrives c b m img (ota_cells o0)" and cs: "\<forall>bs \<in> set cs. length bs \<le> 4096" "concat cs = img"
    and pw: "pd_power (nv_dev (ot_nv o0)) = None"
  shows "\<exists>s'. http_ota_entry c [Http_get (map Http_data cs @ [Http_end x])] r s = ota_conclude c s' \<and> is_precheck_ok s' \<and> is_ready_to_verify s'
    \<and> reaches b m o0 s' \<and> nor_read (ota_cells (dl_ota s')) b (length img) = img"
proof -
  have "OTA_SPACE_OFFSET c = b" using a by (simp add: arrives_def)
  then obtain s1 buf where st: "ota_persistent_start c s = (True, s1)" and g: "gets b (dl_ota s) [] 0 buf s1" and rec: "receives b m o0 0 s1"
    using start_gets [OF q] by blast
  have arr: "arrives c b m img (ota_cells (dl_ota s))" using arrives_cong [OF a] q by (simp add: quiet_def)
  have pw': "pd_power (nv_dev (ot_nv (dl_ota s))) = None"
    using q pw by (auto simp: quiet_def reaches_def ota_run_def run_ops_def)
  obtain s2 q2 buf2 where s2: "gets b (dl_ota s) img q2 buf2 s2"
    and run: "\<forall>es n. http_get_with_callback c (map Http_data cs @ es) n s1 = http_get_with_callback c es (n + int (length img)) s2"
    using get_gets [OF g arr cs(1), of "[]"] cs(2) by auto
  have "http_get_with_callback c (map Http_data cs @ [Http_error]) 0 s1 = Some (- 1, s2)" using run by simp
  from get_reaches [OF this rec] have "reaches b m o0 s2" using a cs(2) by (simp add: arrives_def)
  then have "receives b m o0 (length img) s2" using s2 by (simp add: receives_def gets_def)
  then obtain s3 where s3: "http_get_callback c x True s2 = Some (int (length x), s3)" "is_precheck_ok s3" "is_ready_to_verify s3" "reaches b m o0 s3"
    "nor_read (ota_cells (dl_ota s3)) b (length img) = img"
    using finish_gets [OF s2 a _ pw'] by blast
  have "http_get_with_callback c (map Http_data cs @ [Http_end x]) 0 s1 = Some (int (length img), s3)"
    using run s3(1) by simp
  moreover have "img \<noteq> []" using a by (auto simp: arrives_def)
  ultimately have "http_ota_entry c [Http_get (map Http_data cs @ [Http_end x])] r s = ota_conclude c s3"
    using st by simp
  then show ?thesis using s3 by blast
qed

lemma verify_download_image:
  assumes rd: "nor_read (ota_cells (dl_ota s)) b (length img) = img" and u: "waiting_image img" and b: "OTA_SPACE_OFFSET c = b" "b + length img \<le> FALSH_SIZE_MAX"
  shows "ota_verify_download c s = Some True"
proof -
  let ?h = "image_header_at (ota_cells (dl_ota s)) b"
  have h: "?h = image_hdr_decode (take 256 img)" "image_check (ota_cells (dl_ota s)) b = OTA_ERR_NONE"
    using waiting_image_at [OF rd u] by simp_all
  have img: "256 \<le> length img" "image_header_verify ?h = OTA_ERR_NONE"
    "image_size_crc ?h = Some (length img - 256, unat (ln_crc32_signle_cal (drop 256 img)))"
    using u by (simp_all add: h waiting_image_def Let_def)
  have fits: "b + 256 + (length img - 256) \<le> FALSH_SIZE_MAX" using b(2) img(1) by simp
  have "image_header_fast_read (dl_ota s) b = Some (OTA_ERR_NONE, ?h)"
    using b(2) img(1) by (simp add: image_header_fast_read_def sizeof_image_hdr_def ota_read_eq image_header_at_def)
  moreover have "image_body_verify (dl_ota s) b (Some ?h) = Some OTA_ERR_NONE"
    using body_verify_eq [OF img(3) fits] img h(2) by (auto simp: image_check_def Let_def split: if_splits)
  ultimately show ?thesis using b(1) img(2) by (simp add: ota_verify_download_def)
qed

section \<open>The two kinds of update\<close>

text \<open>What can be downloaded: an uncompressed or a compressed update.\<close>

definition any_update :: "byte list \<Rightarrow> byte list \<Rightarrow> bool" where
  "any_update img tgt \<longleftrightarrow> orig_update img tgt \<or> xz_update img tgt"

interpretation any: update_kind xz_decompress_buf_to_buf any_update
proof (unfold_locales, goal_cases)
  case (1 img tgt)
  then show ?case unfolding any_update_def by (elim disjE) (rule orig.valid_waiting xz.valid_waiting, assumption)+
next
  case (2 img tgt)
  then show ?case unfolding any_update_def by (elim disjE) (rule orig.valid_target xz.valid_target, assumption)+
next
  case (3 img tgt)
  then show ?case unfolding any_update_def by (elim disjE) (rule orig.valid_same xz.valid_same, assumption)+
next
  case (4 img tgt s b a n m)
  show ?case
  proof (cases "xz_update img tgt")
    case True
    from xz.restores [OF this 4(2-13)] show ?thesis .
  next
    case False
    then have "orig_update img tgt" using 4(1) by (simp add: any_update_def)
    from orig.restores [OF this 4(2-13)] show ?thesis .
  qed
qed

lemma any_update_header:
  assumes "any_update img tgt"
  defines "h \<equiv> image_hdr_decode (take 256 img)"
  shows "image_type h = IMAGE_TYPE_ORIGINAL \<or> image_type h = IMAGE_TYPE_ORIGINAL_XZ" and "img_size_orig h + 256 = length tgt"
proof -
  show "image_type h = IMAGE_TYPE_ORIGINAL \<or> image_type h = IMAGE_TYPE_ORIGINAL_XZ"
    using assms by (auto simp: any_update_def orig_update_def update_image_def xz_update_def Let_def)
  show "img_size_orig h + 256 = length tgt"
    using any.valid_same [OF assms(1)] any.valid_target [OF assms(1)] by (simp add: h_def same_original_def update_image_def Let_def)
qed

section \<open>Properties\<close>

text \<open>
  The device before a download of \<open>img\<close>, which becomes \<open>tgt\<close> in the application partition: the
  partitions, an image of at least a sector and less than the update partition, of another version than
  the application, no update waiting, and no failure of the supply or of an allocation of the download.
\<close>

definition download_ready :: "part_entry list \<Rightarrow> nat \<Rightarrow> nat \<Rightarrow> nat \<Rightarrow> nat \<Rightarrow> byte list \<Rightarrow> byte list \<Rightarrow> nat \<Rightarrow> ota_dl \<Rightarrow> bool" where
  "download_ready ps a n b m img tgt v s \<longleftrightarrow>
     ota_layout ps a n b m (ln_nvds_base (ot_nv (dl_ota s))) \<and> partition_table (ota_cells (dl_ota s)) ps
     \<and> 28672 \<le> b \<and> 4096 dvd b \<and> 4096 dvd m \<and> any_update img tgt \<and> 4096 \<le> length img \<and> length img < m \<and> length tgt \<le> n
     \<and> partial_headers_fit tgt n \<and> hdr_fits (nor_read (ota_cells (dl_ota s)) a 256) n
     \<and> image_version (image_hdr_decode (take 256 img)) \<noteq> image_version (image_header_at (ota_cells (dl_ota s)) a)
     \<and> img_size_orig_xz (image_hdr_decode (take 256 img)) + 256 \<le> m
     \<and> nvds_state (ot_nv (dl_ota s)) v \<and> v < 2 ^ 32 \<and> v \<noteq> UPG_STATE_DOWNLOAD_OK
     \<and> pd_power (nv_dev (ot_nv (dl_ota s))) = None \<and> dl_mem s = [] \<and> temp4K_buf s = None"

lemma download_arrives:
  assumes "download_ready ps a n b m img tgt v s"
  shows "arrives \<lparr>APP_SPACE_OFFSET = a, APP_SPACE_SIZE = n, OTA_SPACE_OFFSET = b, OTA_SPACE_SIZE = m\<rparr> b m img (ota_cells (dl_ota s))"
proof -
  from assms have l: "a + n \<le> FALSH_SIZE_MAX" "b + m \<le> FALSH_SIZE_MAX" "a + n \<le> b \<or> b + m \<le> a" "4096 dvd b" "4096 dvd m"
    "4096 \<le> length img" "length img < m" "length tgt \<le> n" and u: "any_update img tgt"
    "image_version (image_hdr_decode (take 256 img)) \<noteq> image_version (image_header_at (ota_cells (dl_ota s)) a)"
    "img_size_orig_xz (image_hdr_decode (take 256 img)) + 256 \<le> m"
    by (simp_all add: download_ready_def ota_layout_def)
  note h = any_update_header [OF u(1)]
  then have size: "img_size_orig (image_hdr_decode (take 256 img)) + 256 \<le> n" using l(8) by simp
  moreover have "n < 2 ^ 32" "m < 2 ^ 32" using l(1,2) by (simp_all add: FALSH_SIZE_MAX_def)
  moreover have "a + 256 \<le> b \<or> b + m \<le> a" "a + 256 \<le> FALSH_SIZE_MAX" using l size by linarith+
  ultimately show ?thesis using l u h(1) by (simp add: arrives_def passes_def)
qed

text \<open>Storing the state: atomic, and only the sectors of the store change.\<close>

lemma update_state_set:
  assumes "nvds_state (ot_nv (dl_ota s)) v" and "v < 2 ^ 32" and "v \<noteq> UPG_STATE_DOWNLOAD_OK"
  defines "nv \<equiv> ln_nvds_base (ot_nv (dl_ota s))"
  shows "\<exists>s'. update_ota_state s = Some s' \<and> ln_nvds_base (ot_nv (dl_ota s')) = nv
    \<and> (nvds_state (ot_nv (dl_ota s')) v \<or> nvds_state (ot_nv (dl_ota s')) UPG_STATE_DOWNLOAD_OK)
    \<and> (pd_power (nv_dev (ot_nv (dl_ota s))) = None \<longrightarrow> nvds_state (ot_nv (dl_ota s')) UPG_STATE_DOWNLOAD_OK)
    \<and> (\<forall>x. x < nv \<or> nv + 12288 \<le> x \<longrightarrow> ota_cells (dl_ota s') x = ota_cells (dl_ota s) x)"
proof (rule upg_state_set [OF assms(1,2) _ assms(3)])
  show "UPG_STATE_DOWNLOAD_OK < 2 ^ 32" by (simp add: UPG_STATE_DOWNLOAD_OK_def)
qed (auto simp: update_ota_state_def ota_cells_def nv_def)

lemma download_pending:
  assumes d: "download_ready ps a n b m img tgt v s" and r: "reaches b m (dl_ota s) s1"
    and rd: "nor_read (ota_cells (dl_ota s1)) b (length img) = img"
    and c: "c = \<lparr>APP_SPACE_OFFSET = a, APP_SPACE_SIZE = n, OTA_SPACE_OFFSET = b, OTA_SPACE_SIZE = m\<rparr>"
    and ok: "is_precheck_ok s1" "is_ready_to_verify s1"
  shows "\<exists>s2. ota_conclude c s1 = Some (Ota_reboot, s2) \<and> upd_pending any_update ps a n b m img tgt (dl_ota s2)"
proof -
  let ?o = "dl_ota s" and ?nv = "ln_nvds_base (ot_nv (dl_ota s))"
  have lay: "a + n \<le> FALSH_SIZE_MAX" "b + m \<le> FALSH_SIZE_MAX" "28672 \<le> a" "28672 \<le> ?nv" "28672 \<le> b" "a + n \<le> b \<or> b + m \<le> a"
    "a + n \<le> ?nv \<or> ?nv + 12288 \<le> a" "b + m \<le> ?nv \<or> ?nv + 12288 \<le> b" "length img < m" "4096 \<le> length img" "length tgt \<le> n"
    using d by (simp_all add: download_ready_def ota_layout_def)
  have st: "nvds_state (ot_nv (dl_ota s1)) v" "v < 2 ^ 32" "v \<noteq> UPG_STATE_DOWNLOAD_OK"
    using d reaches_state [OF r, of v] lay(8) by (simp_all add: download_ready_def)
  have pw: "pd_power (nv_dev (ot_nv (dl_ota s1))) = None"
    using d r by (auto simp: download_ready_def reaches_def ota_run_def run_ops_def)
  obtain s2 where s2: "update_ota_state s1 = Some s2" "ln_nvds_base (ot_nv (dl_ota s2)) = ?nv"
    "nvds_state (ot_nv (dl_ota s2)) UPG_STATE_DOWNLOAD_OK"
    and cells: "\<And>x. x < ?nv \<or> ?nv + 12288 \<le> x \<Longrightarrow> ota_cells (dl_ota s2) x = ota_cells (dl_ota s1) x"
    using update_state_set [OF st] pw reaches_cells(1) [OF r] by auto
  have cells0: "ota_cells (dl_ota s2) x = ota_cells ?o x" if "x < ?nv \<or> ?nv + 12288 \<le> x" "x < b \<or> b + m \<le> x" for x
    using cells [OF that(1)] reaches_cells(2) [OF r that(2)] by simp
  have u: "any_update img tgt" "partition_table (ota_cells ?o) ps" "ota_layout ps a n b m ?nv" "partial_headers_fit tgt n"
    "hdr_fits (nor_read (ota_cells ?o) a 256) n"
    using d by (simp_all add: download_ready_def)
  have "256 \<le> length tgt" using any_update_header(2) [OF u(1)] by simp
  then have app: "a + 256 \<le> b \<or> b + m \<le> a" "a + 256 \<le> ?nv \<or> ?nv + 12288 \<le> a" using lay(6,7,11) by linarith+
  have "ota_conclude c s1 = Some (Ota_reboot, s2)"
    using verify_download_image [OF rd any.valid_waiting [OF u(1)]] lay(2,9) ok s2(1) by (simp add: ota_conclude_def c)
  moreover have "nor_read (ota_cells (dl_ota s2)) b (length img) = nor_read (ota_cells (dl_ota s1)) b (length img)"
    using lay(8,9) by (intro nor_read_cong cells) auto
  moreover have "partition_table (ota_cells (dl_ota s2)) ps"
    using lay(4,5) by (intro partition_table_cong [OF u(2)] cells0) auto
  moreover have "nor_read (ota_cells (dl_ota s2)) a 256 = nor_read (ota_cells ?o) a 256"
    using app by (intro nor_read_cong cells0) auto
  ultimately show ?thesis
    using u rd lay(9,11) s2(2,3) by (simp add: upd_pending_def upd_common_def)
qed

lemma download_reboots:
  assumes "download_ready ps a n b m img tgt v s"
    and "c = \<lparr>APP_SPACE_OFFSET = a, APP_SPACE_SIZE = n, OTA_SPACE_OFFSET = b, OTA_SPACE_SIZE = m\<rparr>"
    and "retry_attempts img (is_precheck_ok s) as" and "\<forall>bs \<in> set cs. length bs \<le> 4096" and "concat cs = img"
  shows "\<exists>s1. http_ota_entry c (as @ [Http_get (map Http_data cs @ [Http_end x])]) 0 s = Some (Ota_reboot, s1)
    \<and> upd_pending any_update ps a n b m img tgt (dl_ota s1)"
proof -
  have arr: "arrives c b m img (ota_cells (dl_ota s))" using download_arrives [OF assms(1)] assms(2) by simp
  have "reaches b m (dl_ota s) s"
    using assms(1) by (auto simp: reaches_def download_ready_def intro: exI [of _ "[]"])
  then have "quiet b m (dl_ota s) s" using assms(1) by (simp add: quiet_def download_ready_def)
  then obtain s0 r0 where s0: "quiet b m (dl_ota s) s0" "\<forall>zs. http_ota_entry c (as @ zs) 0 s = http_ota_entry c zs r0 s0"
    using retry_steps [OF assms(3) _ arr, of s 0] by blast
  have "pd_power (nv_dev (ot_nv (dl_ota s))) = None" using assms(1) by (simp add: download_ready_def)
  then obtain s1 where s1: "http_ota_entry c [Http_get (map Http_data cs @ [Http_end x])] r0 s0 = ota_conclude c s1"
    "is_precheck_ok s1" "is_ready_to_verify s1" "reaches b m (dl_ota s) s1" "nor_read (ota_cells (dl_ota s1)) b (length img) = img"
    using last_attempt [OF s0(1) arr assms(4,5)] by blast
  obtain s2 where "ota_conclude c s1 = Some (Ota_reboot, s2)" "upd_pending any_update ps a n b m img tgt (dl_ota s2)"
    using download_pending [OF assms(1) s1(4,5) assms(2) s1(2,3)] by blast
  then show ?thesis using s0(2) s1(1) by metis
qed

text \<open>C3: an update that the server sends is installed.  Start with no update waiting and an image, uncompressed
  or compressed, of at least one sector and less than the update partition, with another version than the
  application (\<open>download_ready\<close>).  Let the thread of the download meet any number of attempts that the code
  repeats (no client, no memory or data, an error once a header has passed) and then one in which the image
  arrives in full, in pieces of at most a sector; the receive buffer of the client has half that size.  The
  device restarts with the state that the update waits; whatever the supply does in the boots that follow, the
  first one that is not cut enters the application partition with the new image.  An error before the first
  sector makes the code give up, and a smaller image is dropped.\<close>

theorem ota_download_installs:
  assumes "download_ready ps a n b m img tgt v s"
    and "c = \<lparr>APP_SPACE_OFFSET = a, APP_SPACE_SIZE = n, OTA_SPACE_OFFSET = b, OTA_SPACE_SIZE = m\<rparr>"
    and "retry_attempts img (is_precheck_ok s) as" and "\<forall>bs \<in> set cs. length bs \<le> 4096" and "concat cs = img"
    and "\<forall>(p, torn) \<in> set boots. hdr_fits (nor_read torn a 256) n" and "hdr_fits (nor_read torn a 256) n"
  shows "\<exists>s1 s2 s3. http_ota_entry c (as @ [Http_get (map Http_data cs @ [Http_end x])]) 0 s = Some (Ota_reboot, s1)
    \<and> ota_boots xz_decompress_buf_to_buf (dl_ota s1) boots = Some s2
    \<and> ota_boot_upgrade_agent xz_decompress_buf_to_buf (ota_restart s2 None torn) = Some (OTA_ERR_NONE, s3)
    \<and> jumped s3 = [a + 256] \<and> app_updated (ota_cells s3) a tgt \<and> nvds_state (ot_nv s3) UPG_STATE_RESTORE_OK"
  using download_reboots [OF assms(1-5), of x] any.installs [OF _ assms(6,7)] by blast

text \<open>C4: the state that makes the boot loader install an update is only stored over an image that has passed its
  check.  In every run that comes to an end, whatever the server sends (less than the size of the partition in each attempt), whatever
  allocation fails and whenever the supply fails: the download changes only the update partition and the
  non-volatile store, and the stored state is the old one, or it is \<^verbatim>\<open>UPG_STATE_DOWNLOAD_OK\<close> and the flash held a
  valid image in the update partition when it was stored.\<close>

theorem ota_download_safe:
  assumes "http_ota_entry c as r s = Some (out, s')" and "ota_layout ps a n b m (ln_nvds_base (ot_nv (dl_ota s)))"
    and "OTA_SPACE_OFFSET c = b" and "4096 dvd b" and "4096 dvd m" and "0 < m"
    and "\<forall>at \<in> set as. attempt_length at < m" and "temp4K_buf s = None"
    and "nvds_state (ot_nv (dl_ota s)) v" and "v < 2 ^ 32" and "v \<noteq> UPG_STATE_DOWNLOAD_OK"
  shows "(\<forall>x. (x < b \<or> b + m \<le> x) \<and> (x < ln_nvds_base (ot_nv (dl_ota s)) \<or> ln_nvds_base (ot_nv (dl_ota s)) + 12288 \<le> x)
      \<longrightarrow> ota_cells (dl_ota s') x = ota_cells (dl_ota s) x)
    \<and> (nvds_state (ot_nv (dl_ota s')) v \<or> nvds_state (ot_nv (dl_ota s')) UPG_STATE_DOWNLOAD_OK \<and>
        (\<exists>fl. image_check fl b = OTA_ERR_NONE \<and> (\<forall>x. x < ln_nvds_base (ot_nv (dl_ota s)) \<or> ln_nvds_base (ot_nv (dl_ota s)) + 12288 \<le> x
          \<longrightarrow> ota_cells (dl_ota s') x = fl x)))"
proof -
  let ?nv = "ln_nvds_base (ot_nv (dl_ota s))"
  have lay: "b + m \<le> FALSH_SIZE_MAX" "b + m \<le> ?nv \<or> ?nv + 12288 \<le> b" using assms(2) by (simp_all add: ota_layout_def)
  have "reaches b m (dl_ota s) s" using assms(8) by (auto simp: reaches_def intro: exI [of _ "[]"])
  then have "concludes c b m (dl_ota s) out s'" using entry_concludes [OF assms(1) _ assms(7,3-5) lay(1)] by blast
  then obtain s1 where r: "reaches b m (dl_ota s) s1" and out: "if out = Ota_reboot
      then ota_verify_download c s1 = Some True \<and> update_ota_state s1 = Some s' else dl_ota s' = dl_ota s1"
    by (auto simp: concludes_def)
  have st: "nvds_state (ot_nv (dl_ota s1)) v" by (rule reaches_state [OF r assms(9) lay(2)])
  show ?thesis
  proof (cases "out = Ota_reboot")
    case False
    then show ?thesis using out st reaches_cells(2) [OF r] by auto
  next
    case True
    obtain s2 where s2: "update_ota_state s1 = Some s2"
      "nvds_state (ot_nv (dl_ota s2)) v \<or> nvds_state (ot_nv (dl_ota s2)) UPG_STATE_DOWNLOAD_OK"
      and cells2: "\<And>x. x < ?nv \<or> ?nv + 12288 \<le> x \<Longrightarrow> ota_cells (dl_ota s2) x = ota_cells (dl_ota s1) x"
      using update_state_set [OF st assms(10,11)] reaches_cells(1) [OF r] by auto
    have s': "s' = s2" using out True s2(1) by simp
    note cells = cells2 [folded s']
    have "4096 \<le> m" using assms(5,6) by (rule dvd_imp_le)
    then have "image_check (ota_cells (dl_ota s1)) b = OTA_ERR_NONE"
      using verify_download_check [of c s1 b] out True assms(3) lay(1) by simp
    moreover have "\<forall>x. (x < b \<or> b + m \<le> x) \<and> (x < ?nv \<or> ?nv + 12288 \<le> x) \<longrightarrow> ota_cells (dl_ota s') x = ota_cells (dl_ota s) x"
      using cells reaches_cells(2) [OF r] by auto
    ultimately show ?thesis using s2(2) cells unfolding s' by blast
  qed
qed

text \<open>A command with too many parameters, or whose parameter is not a string, leaves the flag of the running
  download set although no thread was created: no command is accepted any more.\<close>

theorem ota_command_stuck:
  assumes "\<not> httpc_ota_started s" and "para_num > 2 \<or> fst (ln_at_parser_get_str_param psr 1) \<noteq> LN_AT_PSR_ERR_NONE"
  shows "\<exists>e out s'. ln_at_set_http_ota para_num name psr line thread s = Some (e, out, False, s') \<and> e \<noteq> LN_AT_ERR_NONE
    \<and> (\<forall>n nm q l t. \<exists>out'. ln_at_set_http_ota n nm q l t s' = Some (LN_AT_ERR_COMMON, out', False, s'))"
proof (cases "name = None \<or> para_num > 2")
  case True
  then show ?thesis using assms(1) by (simp add: ln_at_set_http_ota_def)
next
  case False
  then show ?thesis
    using assms by (cases "ln_at_parser_get_str_param psr 1") (auto simp: ln_at_set_http_ota_def)
qed

text \<open>The example of \<open>Ota_Correct\<close>, with an application of version 0.255, and an attempt that breaks off.\<close>

definition ex_dl :: ota_dl where
  "ex_dl = \<lparr>dl_ota = (ex_ota 0)\<lparr>ot_nv := (ot_nv (ex_ota 0))\<lparr>nv_dev := (nv_dev (ot_nv (ex_ota 0)))\<lparr>pd_cells := nor_write (ex_flash 0) 0x7004 [0]\<rparr>\<rparr>\<rparr>,
     dl_mem = [], temp4K_buf = None, temp4k_offset = 0, flash_ota_start_addr = 0x20000, flash_ota_offset = 0, is_persistent_started = False,
     is_ready_to_verify = False, is_precheck_ok = False, httpc_ota_started = True, g_http_uri_buff = []\<rparr>"

definition ex_spaces :: ota_spaces where
  "ex_spaces = \<lparr>APP_SPACE_OFFSET = 0x7000, APP_SPACE_SIZE = 0x10000, OTA_SPACE_OFFSET = 0x20000, OTA_SPACE_SIZE = 0x10000\<rparr>"

definition ex_attempts :: "http_attempt list" where
  "ex_attempts = [No_http_info, Http_get (map Http_data [take 4096 ex_update] @ [Http_error]),
     Http_get (map Http_data [take 100 ex_update] @ [Http_error])]"

definition ex_pieces :: "byte list list" where
  "ex_pieces = [take 1000 ex_update, drop 1000 ex_update]"

lemma ex_app_header:
  "nor_read (nor_write (ex_flash 0) 0x7004 [0]) 0x7000 256 = replicate 4 (- 1) @ [0] @ replicate 251 (- 1)"
proof -
  have "blank (ex_flash 0) 0x7000 256"
    by (simp add: ex_flash_def blank_write_other length_ex_update PARTITION_TAB_BASE_def) (simp add: blank_def)
  then have "ex_flash 0 (0x7000 + i) = - 1" if "i < 256" for i using that by (simp add: blank_def)
  then show ?thesis
    unfolding nor_read_eq_iff by (auto simp: nor_write_def nth_append nth_Cons')
qed

lemma ex_versions:
  "image_version (image_hdr_decode (take 256 ex_update)) = 65535"
  "image_version (image_hdr_decode (replicate 4 (- 1) @ [0] @ replicate 251 (- 1))) = 255"
  "img_size_orig_xz (image_hdr_decode (take 256 ex_update)) = 0"
proof -
  have t: "take 256 ex_update = ex_header" by (simp add: ex_update_def length_ex_header)
  have "bslice 4 1 (take 256 ex_update) = bslice 4 1 (take 12 ex_header)" "bslice 5 1 (take 256 ex_update) = bslice 5 1 (take 12 ex_header)"
    by (simp_all add: t bslice_def take_drop)
  then show "image_version (image_hdr_decode (take 256 ex_update)) = 65535"
    unfolding ex_header_prefix by (simp add: image_version_def image_hdr_decode_def bslice_def le_simps unsigned_minus_1_eq_mask mask_eq_exp_minus_1)
  show "image_version (image_hdr_decode (replicate 4 (- 1) @ [0] @ replicate 251 (- 1))) = 255"
    by (simp add: image_version_def image_hdr_decode_def bslice_def le_simps unsigned_minus_1_eq_mask mask_eq_exp_minus_1)
  have "bslice 12 4 ex_header = replicate 4 0"
    by (simp add: ex_header_def Let_def bslice_def)
  then show "img_size_orig_xz (image_hdr_decode (take 256 ex_update)) = 0"
    by (simp add: t image_hdr_decode_def le_val_zeros)
qed

lemma ex_download_ready: "download_ready ex_table 0x7000 0x10000 0x20000 0x10000 ex_update ex_update 0 ex_dl"
proof -
  have cells: "ota_cells (dl_ota ex_dl) = nor_write (ex_flash 0) 0x7004 [0]"
    and nv: "ln_nvds_base (ot_nv (dl_ota ex_dl)) = 0x40000" by (simp_all add: ex_dl_def ex_ota_def ota_cells_def)
  have "ota_layout ex_table 0x7000 0x10000 0x20000 0x10000 0x40000"
    by (simp add: ota_layout_def ex_table_def partition_lookup_def PARTITION_TYPE_APP_def PARTITION_TYPE_OTA_def FALSH_SIZE_MAX_def)
  moreover have "partition_table (nor_write (ex_flash 0) 0x7004 [0]) ex_table"
    by (rule partition_table_cong [OF ex_flash_table [of 0]]) (simp add: nor_write_other)
  moreover have "nvds_state (ot_nv (dl_ota ex_dl)) 0"
    by (rule nvds_state_cong [OF ex_state [of 0]]) (simp_all add: ex_dl_def ex_ota_def nor_write_other)
  moreover have "image_size_crc (image_hdr_decode (replicate 4 (- 1) @ [0] @ replicate 251 (- 1))) = None"
    by (simp add: image_size_crc_def image_hdr_decode_def bslice_def le_simps IMAGE_TYPE_ORIGINAL_def IMAGE_TYPE_ORIGINAL_XZ_def
        IMAGE_TYPE_DIFF_def IMAGE_TYPE_DIFF_XZ_def)
  then have "hdr_fits (replicate 4 (- 1) @ [0] @ replicate 251 (- 1)) 0x10000" unfolding hdr_fits_def by simp
  moreover have "pd_power (nv_dev (ot_nv (dl_ota ex_dl))) = None" "dl_mem ex_dl = []" "temp4K_buf ex_dl = None"
    by (simp_all add: ex_dl_def ex_ota_def)
  ultimately show ?thesis
    unfolding download_ready_def cells nv image_header_at_def ex_app_header ex_versions
    using ex_update_image ex_partial_headers by (simp add: length_ex_update UPG_STATE_DOWNLOAD_OK_def any_update_def orig_update_def)
qed

lemma ex_attempts_retry: "retry_attempts ex_update (is_precheck_ok ex_dl) ex_attempts"
proof -
  have "retry_attempt ex_update ok (Http_get (map Http_data [take 4096 ex_update] @ [Http_error]))" for ok
    unfolding retry_attempt_def by (intro disjI2 exI [of _ "[take 4096 ex_update]"] exI [of _ "drop 4096 ex_update"]) (simp add: length_ex_update)
  moreover have "retry_attempt ex_update ok (Http_get (map Http_data [take 100 ex_update] @ [Http_error]))" if ok for ok
    unfolding retry_attempt_def using that
    by (intro disjI2 exI [of _ "[take 100 ex_update]"] exI [of _ "drop 100 ex_update"]) (simp add: length_ex_update)
  moreover have "retry_attempt ex_update ok No_http_info" for ok by (simp add: retry_attempt_def)
  ultimately show ?thesis by (simp add: ex_attempts_def attempt_length_def length_ex_update)
qed

lemma ex_pieces: "\<forall>bs \<in> set ex_pieces. length bs \<le> 4096" "concat ex_pieces = ex_update"
  by (simp_all add: ex_pieces_def length_ex_update)

lemma ota_download_installs_witness:
  "\<exists>s1 s2 s3. http_ota_entry ex_spaces (ex_attempts @ [Http_get (map Http_data ex_pieces @ [Http_end []])]) 0 ex_dl = Some (Ota_reboot, s1)
    \<and> ota_boots xz_decompress_buf_to_buf (dl_ota s1) [(Some 1000, \<lambda>_. 0)] = Some s2
    \<and> ota_boot_upgrade_agent xz_decompress_buf_to_buf (ota_restart s2 None (\<lambda>_. 0)) = Some (OTA_ERR_NONE, s3)
    \<and> app_updated (ota_cells s3) 0x7000 ex_update"
  using ota_download_installs [OF ex_download_ready ex_spaces_def ex_attempts_retry ex_pieces, of "[(Some 1000, \<lambda>_. 0)]" "\<lambda>_. 0" "[]"] zero_header_fits
  by auto

lemma ota_download_safe_witness:
  "\<exists>s1. http_ota_entry ex_spaces (ex_attempts @ [Http_get (map Http_data ex_pieces @ [Http_end []])]) 0 ex_dl = Some (Ota_reboot, s1)
    \<and> (\<forall>x < 0x20000. ota_cells (dl_ota s1) x = ota_cells (dl_ota ex_dl) x)"
proof -
  obtain s1 where s1: "http_ota_entry ex_spaces (ex_attempts @ [Http_get (map Http_data ex_pieces @ [Http_end []])]) 0 ex_dl = Some (Ota_reboot, s1)"
    using download_reboots [OF ex_download_ready ex_spaces_def ex_attempts_retry ex_pieces, of "[]"] by blast
  have nv: "ln_nvds_base (ot_nv (dl_ota ex_dl)) = 0x40000" by (simp add: ex_dl_def ex_ota_def)
  have "\<forall>at \<in> set (ex_attempts @ [Http_get (map Http_data ex_pieces @ [Http_end []])]). attempt_length at < 0x10000"
    by (simp add: ex_attempts_def ex_pieces_def attempt_length_def length_ex_update)
  then show ?thesis
    using ota_download_safe [OF s1, of ex_table "0x7000" "0x10000" "0x20000" "0x10000" 0] ex_download_ready s1 nv
    by (simp add: download_ready_def ex_spaces_def)
qed

end
