(* ===== verification/Spec2Isabelle.thy ===== *)
theory Spec2Isabelle
  imports Kv_Port Fifo Crc Dhcp_Correct Ota_Correct At_Server_Correct Psk Aes_Correct Linux_Time_Correct Wifi_Manager Ota_Download_Correct Ota_Xz
begin

text \<open>
  Verification development for the LN882H SDK (a Wi-Fi and BLE chip): the parts of the SDK
  that keep data or take decisions, modelled function by function after the C sources under
  \<^verbatim>\<open>src/\<close>, and the theorems that make them correct.

  \<^bold>\<open>How the parts interact.\<close>  Everything that lasts is in one NOR flash, driven by
  \<^verbatim>\<open>hal_flash.c\<close>.  On it lie the partition table (\<^verbatim>\<open>flash_partition_mgr.c\<close>), the key-value store
  (\<^verbatim>\<open>ln_kv.c\<close>, through the driver table of \<^verbatim>\<open>ln_kv_port.c\<close>), the non-volatile data store with its
  three sectors (\<^verbatim>\<open>ln_nvds.c\<close>) and the images of the application and of the update.  At start
  the boot loader (\<^verbatim>\<open>bootcode/bootload/main/main.c\<close>) reads the table, initialises the
  non-volatile store and runs the update agent (\<^verbatim>\<open>ota_agent.c\<close>), which checks the images with
  CRC-32 (\<^verbatim>\<open>crc32.c\<close>), copies the update if the stored state says that one waits (a compressed one through
  the LZMA decoder \<^verbatim>\<open>xz_decompress.c\<close>, with the agent's callbacks for input and output), and enters the
  application.  Updates come from the download \<^verbatim>\<open>ln_at_cmd_ota.c\<close>, which runs in the application: it stores
  the image in the update partition, verifies it and sets the state that the agent reads.  The DHCP server (\<^verbatim>\<open>dhcpd.c\<close>, \<^verbatim>\<open>dhcp_packet.c\<close>, \<^verbatim>\<open>ip_allocator.c\<close>) serves the
  stations of the access point.  The FIFO (\<^verbatim>\<open>fifobuf.c\<close>) carries the serial input, from which the
  AT server (\<^verbatim>\<open>ln_at_parser.c\<close>) takes its command lines.  The Wi-Fi manager (\<^verbatim>\<open>wifi_manager.c\<close>) keeps the
  access points that a scan reports and has the DHCP server release the address of a station that leaves.

  \<^bold>\<open>Common conventions.\<close>  A C integer is a \<^typ>\<open>nat\<close> with its wrap-around written out
  (\<open>add_u32\<close>, \<open>sub_u32\<close>, \<open>u8\<close>, \<open>u16\<close>, \dots in \<open>Prelude\<close>), a byte is an 8-bit word, and the CRCs
  are 16-bit and 32-bit words.  A function whose assertion or loop may stop for ever
  returns an option; \<^const>\<open>None\<close> is "does not return".  Error codes are values.  A function
  that fills a buffer takes the buffer's old bytes and returns the new ones.

  \<^bold>\<open>The theories.\<close>
  \<^item> \<open>Prelude\<close>: machine types, little-endian encoding, slices, and the lemma collections
    \<open>wrap_simps\<close>, \<open>le_simps\<close>, \<open>flash_simps\<close>.
  \<^item> \<open>Nor_Flash\<close>: the NOR device (an erase sets bits, a program clears them) and the locale
    \<open>nor_driver\<close>, the contract of a driver table.  \<open>Hal_Flash\<close>: the driver \<^verbatim>\<open>hal_flash.c\<close> (reads,
    page-wise programs, erases by sectors and blocks, the security area); \<open>port_drv\<close> is an
    interpretation of \<open>nor_driver\<close>.  \<open>Power_Flash\<close>: the same flash under a supply that may fail
    after any step (a byte programmed, a phase of an erase), with lists of steps.
  \<^item> \<open>Crc\<close>: CRC-16 and CRC-32 by table, shown equal to the bitwise codes.
  \<^item> \<open>Fifo\<close>: the ring buffer \<^verbatim>\<open>fifobuf.c\<close> as a refinement of a bounded queue.
  \<^item> \<open>Kv_Types\<close> (structures and macros of \<^verbatim>\<open>ln_kv.h\<close>), \<open>Kv_Store\<close> (all of \<^verbatim>\<open>ln_kv.c\<close> in its order),
    and the proofs: \<open>Kv_Block\<close> (block headers, blank space), \<open>Kv_Index\<close> (the index in RAM),
    \<open>Kv_Walk\<close> and \<open>Kv_Find\<close> (walking over the items, finding a key), \<open>Kv_Write\<close> (saving and
    deleting items), \<open>Kv_Gc\<close> (garbage collection), \<open>Kv_Search\<close> (finding a block with space),
    \<open>Kv_Correct\<close> (the locale \<open>kv_store\<close>: the store holds a finite map, set, get and delete are
    update, lookup and removal), \<open>Kv_Port\<close> (the interpretation on the port's driver and the
    partition at \<open>0x1E0000\<close> with four blocks, and the properties).
  \<^item> \<open>Dhcp_Packet\<close> (the packet layout and the option parser), \<open>Dhcp_Pool\<close> (the address pool),
    \<open>Dhcp_Server\<close> (the message handlers, the serving task, start and stop), \<open>Dhcp_Correct\<close> (the
    invariant of the pool, no faults for any sequence of datagrams of at most 604 bytes, leases are kept, an offer is
    followed by its grant, the options of a reply read back).
  \<^item> \<open>Partition\<close>: the partition table as a lookup list.
  \<^item> \<open>Nvds\<close> (\<^verbatim>\<open>ln_nvds.c\<close>, its writes, reads and initialisation), \<open>Nvds_Correct\<close> (the steps of a
    write: the old or the new bytes at every cut), \<open>Nvds_Param\<close> (getters and setters, the
    locale \<open>nvds_param\<close> of one parameter with an interpretation for each, the properties).
  \<^item> \<open>Ota\<close> (\<^verbatim>\<open>ota_agent.c\<close>, \<^verbatim>\<open>ota_image.c\<close>, \<^verbatim>\<open>ota_port.c\<close>, \<^verbatim>\<open>main\<close> of the boot loader), \<open>Ota_Restore\<close>
    (one boot, cut or not), \<open>Ota_Correct\<close> (sequences of boots, the properties, an example).
    \<open>Ota_Download\<close> (\<^verbatim>\<open>ln_at_cmd_ota.c\<close>: the AT command, the HTTP thread and its sector buffer) and
    \<open>Ota_Download_Correct\<close> (an update is only announced over a valid image; an image, compressed or not,
    that arrives is installed by the boot loader: \<open>any_update\<close> is an interpretation of \<open>update_kind\<close>).

  \<^item> \<open>Xz\<close> (all of \<^verbatim>\<open>xz_decompress.c\<close>), \<open>Xz_Coding\<close> (an encoder for the range coder on natural numbers; the locale
    \<open>byte_source\<close> of a read callback, in which every function of the decoder gives back the encoded bits),
    \<open>Xz_Lz\<close> (the format above it: literals, matches, repeated matches, and what they expand to),
    \<open>Xz_Correct\<close> (the dictionary, one symbol, a block, the whole stream: the decoder inverts the encoder),
    \<open>Xz_Safe\<close> (the decoder on arbitrary input: progress and preservation of a well-formed state; what happens
    with a distance larger than the dictionary), \<open>Ota_Xz\<close> (the callbacks of the agent fulfil the contracts
    \<open>xz_client\<close> and \<open>total_client\<close>; compressed updates are an interpretation of \<open>update_kind\<close>, so the sequences
    of boots of \<open>Ota_Correct\<close> hold for them).

  \<^item> \<open>At_Parser\<close> (\<^verbatim>\<open>ln_at_parser.c\<close> on a buffer with offsets as pointers) and \<open>At_Correct\<close> (a set command
    is parsed back into its name and arguments).  \<open>At_Server\<close> (\<^verbatim>\<open>ln_at_server.c\<close> with the command table: the
    receiving and the parsing task as a step relation, handlers as a parameter) and \<open>At_Server_Correct\<close> (its
    invariant in every interleaving; a command typed on the serial line reaches its handler).

  \<^item> \<open>Sha1\<close> (\<^verbatim>\<open>ln_sha1.c\<close> and the standard's SHA-1 and HMAC), \<open>Sha1_Correct\<close> (the code is the
    standard, in any pieces; the locale \<open>incremental_hash\<close> with its interpretation), \<open>Psk\<close>
    (\<^verbatim>\<open>ln_psk_calc.c\<close>, PBKDF2, its errors).

  \<^item> \<open>Aes\<close> (the key schedule and the two table ciphers of \<^verbatim>\<open>ln_aes.c\<close>), \<open>Aes_Field\<close> (every table of the
    code computed from the field with 256 elements), \<open>Aes_Correct\<close> (the code is the AES of the
    standard, deciphering undoes enciphering).  The headers of this tree set switches that compile
    calls of the ROM's SHA-1 and AES; the models are of the C versions of the same functions.

  \<^item> \<open>Linux_Time\<close> (\<^verbatim>\<open>linux_compat_time.c\<close>: calendar functions, text form, clock over the kernel's ticks) and
    \<open>Linux_Time_Correct\<close> (against the Gregorian calendar; local time forth and back; the wrap of the
    clock).

  \<^item> \<open>Ln_List\<close> (the intrusive lists of \<^verbatim>\<open>ln_list.h\<close> in an explicit store; the locale \<open>ring_list\<close> with its
    interpretation), \<open>Wifi_List\<close> (the list of access points of \<^verbatim>\<open>wifi_manager.c\<close>, with allocation),
    \<open>Wifi_Correct\<close> (the list operations refine operations on a list of reports), \<open>Wifi_Manager\<close> (the
    callbacks of the Wi-Fi library and of the application, with the pool of the DHCP server: safe in every
    sequence).

  \<^bold>\<open>Bounds and fuel.\<close>  The loops of \<^verbatim>\<open>ln_kv.c\<close> over items and blocks run with the number of
  bytes of a block or the number of blocks as fuel: each turn moves on by at least one byte or
  block.  The loops of the update agent and of the partition table are structural on the count
  that the code computes.  The decoder runs with the bytes of the output as fuel for its blocks
  and for the symbols of a block (each yields a byte, or the loop ends), with eight for the bits of a
  literal and with the length of a match for its copy.  The option parser of the DHCP server
  needs no fuel: its termination proof shows that it ends for every packet.

  \<^bold>\<open>Not modelled.\<close>  Third-party code in the tree (mbedTLS, lwIP, FreeRTOS, the BLE stack, CMSIS,
  the cloud SDKs), the Wi-Fi and BLE libraries, the register-level drivers, the handlers of the AT
  commands other than the basic ones and the update download, the data mode of the AT server, the HTTP client
  but for its loop over the body, the demos, and pure input and output (logging, consoles;
  \<^verbatim>\<open>dhcpd_packet_printf\<close> logs at the debug level, which \<^verbatim>\<open>log.h\<close> drops).  Of the modelled files: the debug
  printers of \<^verbatim>\<open>ln_kv.c\<close>, its lock (operations are sequential) and the flash identification and
  quad-mode registers of \<^verbatim>\<open>hal_flash.c\<close>.  Sockets and threads of the DHCP server are inputs of
  the model, and the creation of mutexes is taken to succeed.  Updates that are differences are refused
  by the code.  The CRCs of the ROM, used by some
  builds, are taken to be those of the software version.  Power failures are modelled for the
  non-volatile store and the update agent, not yet for the key-value store.
\<close>

end
